(* ===== verification/Go_Bytes.thy ===== *)
theory Go_Bytes
  imports Main "HOL-Library.Char_ord" "HOL-Library.List_Lexorder" "HOL-Library.Sublist"
begin

text \<open>
  The prelude of the development: Go byte slices and strings as lists of 8-bit characters, the
  functions of the Go packages \<open>bytes\<close> and \<open>strings\<close> that the sources call, result values for
  functions that return an error, and the list facts the component theories share.

  A Go \<open>[]byte\<close> and a Go \<open>string\<close> are both \<open>bytes\<close>; a \<open>char\<close> of HOL is one octet. Slices are
  copied at every package boundary of the sources (\<open>bytes.Clone\<close>, \<open>slices.Clone\<close>), so values
  suffice and no store is modelled. A function that returns \<open>(T, error)\<close> becomes
  \<open>'e + 't\<close> with \<open>Inl\<close> for the error; one that returns only \<open>error\<close> becomes \<open>'e option\<close> with
  \<open>None\<close> for \<open>nil\<close>.
\<close>

named_theorems res_simps \<open>unfolding of result-value combinators\<close>
named_theorems bytes_simps \<open>evaluation of the Go byte-slice primitives\<close>

section \<open>Octets\<close>

type_synonym byte = char
type_synonym bytes = "char list"

abbreviation CR :: byte where "CR \<equiv> CHR 0x0D"
abbreviation LF :: byte where "LF \<equiv> CHR 0x0A"
abbreviation TAB :: byte where "TAB \<equiv> CHR 0x09"
abbreviation SP :: byte where "SP \<equiv> CHR 0x20"

definition octet :: "byte \<Rightarrow> nat" where
  "octet b = of_char b"

lemma octet_less: "octet b < 256"
  by (simp add: octet_def)

lemma octet_Char [simp]:
  "octet (Char b0 b1 b2 b3 b4 b5 b6 b7) = horner_sum of_bool 2 [b0, b1, b2, b3, b4, b5, b6, b7]"
  by (simp add: octet_def)

lemma octet_inject [simp]: "octet a = octet b \<longleftrightarrow> a = b"
  by (simp add: octet_def)

lemma octet_char_of: "n < 256 \<Longrightarrow> octet (char_of n) = n"
  by (simp add: octet_def)

lemma char_of_octet [simp]: "char_of (octet b) = b"
  by (simp add: octet_def)

lemma char_of_eq_iff_octet: "n < 256 \<Longrightarrow> char_of n = b \<longleftrightarrow> n = octet b"
  using octet_char_of by fastforce

definition crlf :: bytes where
  "crlf = [CR, LF]"

lemma length_crlf [simp]: "length crlf = 2"
  by (simp add: crlf_def)

lemma crlf_not_Nil [simp]: "crlf \<noteq> []"
  by (simp add: crlf_def)

lemma set_crlf [simp]: "set crlf = {CR, LF}"
  by (simp add: crlf_def)

lemma last_crlf [simp]: "last crlf = LF"
  by (simp add: crlf_def)

text \<open>RFC 5322 white space.\<close>

definition isWSP :: "byte \<Rightarrow> bool" where
  "isWSP b \<longleftrightarrow> b = SP \<or> b = TAB"

lemma isWSP_not_break [simp]: "\<not> isWSP CR" "\<not> isWSP LF"
  by (simp_all add: isWSP_def)

section \<open>The Go slice primitives\<close>

definition slice :: "'a list \<Rightarrow> nat \<Rightarrow> nat \<Rightarrow> 'a list" where
  "slice xs a b = take (b - a) (drop a xs)"

lemma length_slice [simp]: "length (slice xs a b) = min (b - a) (length xs - a)"
  by (simp add: slice_def)

lemma slice_0 [simp]: "slice xs 0 b = take b xs"
  by (simp add: slice_def)

lemma slice_append_left: "b \<le> length xs \<Longrightarrow> slice (xs @ ys) a b = slice xs a b"
  by (simp add: slice_def)

lemma slice_extend: "a \<le> b \<Longrightarrow> b \<le> c \<Longrightarrow> slice xs a c = slice xs a b @ slice xs b c"
proof -
  assume "a \<le> b" "b \<le> c"
  then have c: "c - a = (b - a) + (c - b)" and d: "b = (b - a) + a" by simp_all
  have "slice xs a c = take ((b - a) + (c - b)) (drop a xs)"
    by (simp add: slice_def c)
  also have "\<dots> = take (b - a) (drop a xs) @ take (c - b) (drop (b - a) (drop a xs))"
    by (simp only: take_add)
  also have "\<dots> = slice xs a b @ slice xs b c"
    using d by (simp add: slice_def)
  finally show ?thesis .
qed

lemma take_slice_drop: "a \<le> b \<Longrightarrow> take a xs @ slice xs a b @ drop b xs = xs"
  using slice_extend [of 0 a b xs] by (metis append_assoc append_take_drop_id le0 slice_0)

lemma slice_middle: "slice (xs @ ys @ zs) (length xs) (length xs + length ys) = ys"
  by (simp add: slice_def)

definition HasPrefix :: "bytes \<Rightarrow> bytes \<Rightarrow> bool" where
  "HasPrefix s p \<longleftrightarrow> take (length p) s = p"

lemma HasPrefix_iff: "HasPrefix s p \<longleftrightarrow> (\<exists>r. s = p @ r)"
proof
  assume "HasPrefix s p"
  then have "s = p @ drop (length p) s"
    unfolding HasPrefix_def by (metis append_take_drop_id)
  then show "\<exists>r. s = p @ r" ..
qed (auto simp: HasPrefix_def)

lemma HasPrefix_append [simp]: "HasPrefix (p @ r) p"
  by (simp add: HasPrefix_def)

lemma HasPrefix_append_iff:
  "HasPrefix s (a @ b) \<longleftrightarrow> HasPrefix s a \<and> HasPrefix (drop (length a) s) b"
  by (auto simp: HasPrefix_iff)

definition HasSuffix :: "bytes \<Rightarrow> bytes \<Rightarrow> bool" where
  "HasSuffix s p \<longleftrightarrow> length p \<le> length s \<and> drop (length s - length p) s = p"

lemma HasSuffix_iff: "HasSuffix s p \<longleftrightarrow> (\<exists>r. s = r @ p)"
proof
  assume "HasSuffix s p"
  then have "s = take (length s - length p) s @ p"
    unfolding HasSuffix_def by (metis append_take_drop_id)
  then show "\<exists>r. s = r @ p" ..
qed (auto simp: HasSuffix_def)

lemma HasSuffix_append [simp]: "HasSuffix (r @ p) p"
  by (simp add: HasSuffix_def)

text \<open>\<open>bytes.Index\<close>: the offset of the first occurrence, \<open>None\<close> for Go's \<open>-1\<close>.\<close>

fun Index :: "bytes \<Rightarrow> bytes \<Rightarrow> nat option" where
  "Index [] p = (if p = [] then Some 0 else None)"
| "Index (b # s) p = (if HasPrefix (b # s) p then Some 0 else map_option Suc (Index s p))"

definition IndexByte :: "bytes \<Rightarrow> byte \<Rightarrow> nat option" where
  "IndexByte s b = Index s [b]"

definition ContainsAny :: "bytes \<Rightarrow> bytes \<Rightarrow> bool" where
  "ContainsAny s cs \<longleftrightarrow> (\<exists>b \<in> set s. b \<in> set cs)"

lemma ContainsAny_CRLF: "ContainsAny s [CR, LF] \<longleftrightarrow> CR \<in> set s \<or> LF \<in> set s"
  by (auto simp: ContainsAny_def)

lemma Index_Some:
  "Index s p = Some i \<Longrightarrow> \<exists>r. s = take i s @ p @ r \<and> i + length p \<le> length s"
proof (induction s p arbitrary: i rule: Index.induct)
  case (1 p)
  then show ?case by (auto split: if_splits)
next
  case (2 b s p)
  show ?case
  proof (cases "HasPrefix (b # s) p")
    case True
    with "2.prems" have "i = 0" by simp
    with True show ?thesis
      by (metis HasPrefix_iff add_0 append_Nil length_append le_add1 take_0)
  next
    case False
    with "2.prems" obtain j where j: "Index s p = Some j" and i: "i = Suc j" by auto
    from "2.IH" [OF False j] obtain r where r: "s = take j s @ p @ r" "j + length p \<le> length s"
      by blast
    then have "b # s = take i (b # s) @ p @ r" using i by simp
    with r(2) i show ?thesis by auto
  qed
qed

lemma Index_bound: "Index s p = Some i \<Longrightarrow> i + length p \<le> length s"
  using Index_Some by blast

lemma Index_split: "Index s p = Some i \<Longrightarrow> s = take i s @ p @ drop (i + length p) s"
proof -
  assume "Index s p = Some i"
  then obtain r where r: "s = take i s @ p @ r" and le: "i + length p \<le> length s"
    using Index_Some by blast
  have "length (take i s) = i" using le by simp
  then have "drop (i + length p) (take i s @ p @ r) = r" by simp
  with r show ?thesis by metis
qed

lemma Index_None_iff: "Index s p = None \<longleftrightarrow> (\<nexists>a r. s = a @ p @ r)"
proof (induction s p rule: Index.induct)
  case (1 p)
  then show ?case by simp
next
  case (2 b s p)
  show ?case
  proof (cases "HasPrefix (b # s) p")
    case True
    then obtain r where "b # s = [] @ p @ r" by (auto simp: HasPrefix_iff)
    with True show ?thesis by (metis Index.simps(2) option.distinct(1))
  next
    case False
    have "(\<exists>a r. b # s = a @ p @ r) \<longleftrightarrow> (\<exists>a r. s = a @ p @ r)"
      using False by (auto simp: HasPrefix_iff Cons_eq_append_conv)
    with False "2.IH" [OF False] show ?thesis by simp
  qed
qed

lemma Index_le: "s = a @ p @ r \<Longrightarrow> \<exists>i. Index s p = Some i \<and> i \<le> length a"
proof (induction s arbitrary: a)
  case Nil
  then show ?case by simp
next
  case (Cons b s)
  show ?case
  proof (cases "HasPrefix (b # s) p")
    case True
    then show ?thesis by simp
  next
    case False
    with Cons.prems obtain a' where a: "a = b # a'" and s: "s = a' @ p @ r"
      by (cases a) (auto simp: HasPrefix_iff)
    from Cons.IH [OF s] obtain i where "Index s p = Some i" "i \<le> length a'" by blast
    with False a show ?thesis by auto
  qed
qed

lemma IndexByte_notin: "b \<notin> set s \<Longrightarrow> IndexByte (s @ b # r) b = Some (length s)"
  unfolding IndexByte_def by (induction s) (auto simp: HasPrefix_def)

lemma IndexByte_None_iff: "IndexByte s b = None \<longleftrightarrow> b \<notin> set s"
proof -
  have "b \<in> set s \<longleftrightarrow> (\<exists>a r. s = a @ [b] @ r)" by (auto simp: in_set_conv_decomp)
  then show ?thesis unfolding IndexByte_def Index_None_iff by simp
qed

lemma IndexByte_Some:
  "IndexByte s b = Some i \<Longrightarrow> s = take i s @ b # drop (Suc i) s \<and> i < length s \<and> b \<notin> set (take i s)"
proof -
  assume i: "IndexByte s b = Some i"
  from i have split: "s = take i s @ [b] @ drop (i + 1) s" and lt: "i + 1 \<le> length s"
    unfolding IndexByte_def using Index_split [of s "[b]" i] Index_bound [of s "[b]" i] by simp_all
  have "b \<notin> set (take i s)"
  proof
    assume "b \<in> set (take i s)"
    then obtain u v where uv: "take i s = u @ [b] @ v" by (auto simp: in_set_conv_decomp)
    then have "s = u @ [b] @ (v @ [b] @ drop (i + 1) s)" using split by simp
    from Index_le [OF this] i have "i \<le> length u" unfolding IndexByte_def by auto
    moreover have "length u < length (take i s)" using uv by simp
    moreover have "length (take i s) = i" using lt by simp
    ultimately show False by simp
  qed
  with split lt show ?thesis by simp
qed

section \<open>Splitting at an octet\<close>

text \<open>\<open>bytes.Split\<close> and \<open>strings.SplitSeq\<close> at a one-octet separator.\<close>

fun SplitByte :: "byte \<Rightarrow> bytes \<Rightarrow> bytes list" where
  "SplitByte sep [] = [[]]"
| "SplitByte sep (b # s) =
     (if b = sep then [] # SplitByte sep s
      else (case SplitByte sep s of [] \<Rightarrow> [[b]] | l # ls \<Rightarrow> (b # l) # ls))"

lemma SplitByte_not_Nil [simp]: "SplitByte sep s \<noteq> []"
  by (cases s) (auto split: list.split)

lemma SplitByte_plain: "sep \<notin> set s \<Longrightarrow> SplitByte sep s = [s]"
  by (induction s) auto

lemma SplitByte_sep: "sep \<notin> set s \<Longrightarrow> SplitByte sep (s @ sep # r) = s # SplitByte sep r"
  by (induction s) auto

lemma SplitByte_notin: "l \<in> set (SplitByte sep s) \<Longrightarrow> sep \<notin> set l"
  by (induction s arbitrary: l) (auto split: if_splits list.splits)

lemma SplitByte_set: "l \<in> set (SplitByte sep s) \<Longrightarrow> set l \<subseteq> set s"
  by (induction s arbitrary: l) (fastforce split: if_splits list.splits)+

text \<open>White space at both ends.\<close>

definition trim :: "bytes \<Rightarrow> bytes" where
  "trim s = rev (dropWhile isWSP (rev (dropWhile isWSP s)))"

definition trimmed :: "bytes \<Rightarrow> bool" where
  "trimmed s \<longleftrightarrow> s = [] \<or> \<not> isWSP (hd s) \<and> \<not> isWSP (last s)"

definition wsp :: "bytes \<Rightarrow> bool" where
  "wsp s \<longleftrightarrow> (\<forall>b \<in> set s. isWSP b)"

lemma wsp_simps [simp]: "wsp []" "wsp (b # s) \<longleftrightarrow> isWSP b \<and> wsp s" "wsp (s @ t) \<longleftrightarrow> wsp s \<and> wsp t" "wsp (rev s) = wsp s"
  by (auto simp: wsp_def)

lemma wsp_takeWhile [simp]: "wsp (takeWhile isWSP s)"
  by (auto simp: wsp_def dest: set_takeWhileD)

lemma trim_decomp: "\<exists>a b. s = a @ trim s @ b \<and> wsp a \<and> wsp b"
proof -
  let ?m = "dropWhile isWSP s"
  have "?m = trim s @ rev (takeWhile isWSP (rev ?m))"
    unfolding trim_def by (metis rev_append rev_rev_ident takeWhile_dropWhile_id)
  then have "s = takeWhile isWSP s @ trim s @ rev (takeWhile isWSP (rev ?m))"
    by (metis takeWhile_dropWhile_id)
  moreover have "wsp (takeWhile isWSP s)" "wsp (rev (takeWhile isWSP (rev ?m)))"
    by simp_all
  ultimately show ?thesis by blast
qed

lemma trim_trimmed [simp]: "trimmed (trim s)"
proof -
  let ?m = "dropWhile isWSP s"
  have "trim s \<noteq> [] \<Longrightarrow> \<not> isWSP (last (trim s))"
    unfolding trim_def by (simp add: last_rev hd_dropWhile)
  moreover have "\<not> isWSP (hd (trim s))" if ne: "trim s \<noteq> []"
  proof -
    have "?m = trim s @ rev (takeWhile isWSP (rev ?m))"
      unfolding trim_def by (metis rev_append rev_rev_ident takeWhile_dropWhile_id)
    with ne have "hd (trim s) = hd ?m" "?m \<noteq> []" by (metis hd_append2, metis append_is_Nil_conv)
    then show ?thesis using hd_dropWhile by metis
  qed
  ultimately show ?thesis by (auto simp: trimmed_def)
qed

lemma dropWhile_wsp: "wsp a \<Longrightarrow> dropWhile isWSP (a @ s) = dropWhile isWSP s"
  by (induction a) auto

lemma trim_unique:
  assumes "wsp a" "wsp b" "trimmed s"
  shows "trim (a @ s @ b) = s"
proof (cases "s = []")
  case True
  have "dropWhile isWSP b = []" using assms by (auto simp: wsp_def dropWhile_eq_Nil_conv)
  with assms(1) have "dropWhile isWSP (a @ s @ b) = []" by (simp only: True append_Nil dropWhile_wsp)
  then show ?thesis unfolding trim_def by (simp only: True) simp
next
  case False
  then have ends: "\<not> isWSP (hd s)" "\<not> isWSP (last s)" using assms(3) by (simp_all add: trimmed_def)
  have "dropWhile isWSP (s @ b) = s @ b" using False ends(1) by (cases s) simp_all
  moreover have "dropWhile isWSP (rev s) = rev s" using False ends(2) by (cases s rule: rev_cases) simp_all
  ultimately show ?thesis using assms by (simp add: trim_def dropWhile_wsp)
qed

text \<open>The backward loop of the Go trimming functions, and the slice it selects.\<close>

fun trimEndLoop :: "(byte \<Rightarrow> bool) \<Rightarrow> bytes \<Rightarrow> nat \<Rightarrow> nat \<Rightarrow> nat" where
  "trimEndLoop P input start end' =
     (if end' > start \<and> P (input ! (end' - 1)) then trimEndLoop P input start (end' - 1) else end')"

declare trimEndLoop.simps [simp del]

lemma trimEndLoop_eq:
  "trimEndLoop P (w @ y @ z) (length w) (length w + length y)
     = length w + length (rev (dropWhile P (rev y)))"
proof (induction y arbitrary: z rule: rev_induct)
  case Nil
  then show ?case by (simp add: trimEndLoop.simps)
next
  case (snoc b y)
  show ?case
    using snoc.IH [of "b # z"] by (subst trimEndLoop.simps) (simp add: nth_append)
qed

lemma trim_slice:
  "slice s (length (takeWhile isWSP s)) (trimEndLoop isWSP s (length (takeWhile isWSP s)) (length s)) = trim s"
proof -
  let ?w = "takeWhile isWSP s" and ?y = "dropWhile isWSP s"
  have s: "s = ?w @ ?y" by simp
  have "length s = length ?w + length ?y" by (metis length_append s)
  then have e: "trimEndLoop isWSP s (length ?w) (length s) = length ?w + length (trim s)"
    using trimEndLoop_eq [of isWSP ?w ?y "[]"] by (simp add: trim_def)
  obtain r where r: "?y = trim s @ r"
    unfolding trim_def by (metis rev_append rev_rev_ident takeWhile_dropWhile_id)
  have "slice (?w @ trim s @ r) (length ?w) (length ?w + length (trim s)) = trim s"
    by (rule slice_middle)
  then show ?thesis using e s r by simp
qed

lemma trim_id: "trimmed s \<Longrightarrow> trim s = s"
  using trim_unique [of "[]" "[]" s] by simp

section \<open>Results\<close>

type_synonym ('e, 'a) result = "'e + 'a"

definition res_bind :: "('e, 'a) result \<Rightarrow> ('a \<Rightarrow> ('e, 'b) result) \<Rightarrow> ('e, 'b) result" where
  "res_bind r k = (case r of Inl e \<Rightarrow> Inl e | Inr v \<Rightarrow> k v)"

definition res_check :: "'e option \<Rightarrow> ('e, 'b) result \<Rightarrow> ('e, 'b) result" where
  "res_check e k = (case e of Some x \<Rightarrow> Inl x | None \<Rightarrow> k)"

lemma res_bind_simps [simp, res_simps]:
  "res_bind (Inl e) k = Inl e"
  "res_bind (Inr v) k = k v"
  by (simp_all add: res_bind_def)

lemma res_check_simps [simp, res_simps]:
  "res_check (Some e) k = Inl e"
  "res_check None k = k"
  by (simp_all add: res_check_def)

lemma res_bind_Inr_iff: "res_bind r k = Inr v \<longleftrightarrow> (\<exists>u. r = Inr u \<and> k u = Inr v)"
  by (cases r) auto

lemma res_check_Inr_iff: "res_check e k = Inr v \<longleftrightarrow> e = None \<and> k = Inr v"
  by (cases e) auto

lemma res_bind_Inl_iff:
  "res_bind r k = Inl e \<longleftrightarrow> r = Inl e \<or> (\<exists>u. r = Inr u \<and> k u = Inl e)"
  by (cases r) auto

lemma res_check_Inl_iff: "res_check c k = Inl e \<longleftrightarrow> c = Some e \<or> (c = None \<and> k = Inl e)"
  by (cases c) auto

lemmas res_Inr_iffs = res_bind_Inr_iff res_check_Inr_iff
lemmas res_Inl_iffs = res_bind_Inl_iff res_check_Inl_iff

lemma if_Inl_eq_Inr [simp]: "(if c then Inl e else r) = Inr v \<longleftrightarrow> \<not> c \<and> r = Inr v"
  by simp

end
