(* ===== verification/Rawmsg_Base.thy ===== *)
theory Rawmsg_Base
  imports Go_Bytes
begin

text \<open>
  Errors and options of package \<open>internal/rawmsg\<close> (\<open>errors.go\<close>, \<open>options.go\<close>). An error is a
  record of a code, a location and bounded details, as in the source; offsets and limits are
  \<open>int\<close>, because the constructors accept and clamp negative values.
\<close>

section \<open>Parser errors (\<open>errors.go\<close>)\<close>

datatype ErrorCode =
    ErrorCodeBareLF
  | ErrorCodeBareCR
  | ErrorCodeMixedLineEndings
  | ErrorCodeMissingDelimiter
  | ErrorCodeMalformedHeader
  | ErrorCodeLimitExceeded
  | ErrorCodeUnsupportedPolicy
  | ErrorCodeInvalidTransportForm
  | ErrorCodeInvalidInvariant

text \<open>\<open>ErrorReasonUnset\<close> is the empty string, the zero value of the Go type.\<close>

datatype ErrorReasonClass =
    ErrorReasonUnset
  | ErrorReasonMalformed
  | ErrorReasonPolicy
  | ErrorReasonLimit
  | ErrorReasonInvariant

record ErrorLocation =
  loc_Offset :: int
  loc_Line :: int
  loc_Column :: int

definition zeroLocation :: ErrorLocation where
  "zeroLocation = \<lparr>loc_Offset = 0, loc_Line = 0, loc_Column = 0\<rparr>"

record ParserErrorDetails =
  det_Reason :: ErrorReasonClass
  det_PolicyName :: string
  det_LimitName :: string
  det_Limit :: int

record ParserError =
  pe_code :: ErrorCode
  pe_location :: ErrorLocation
  pe_details :: ParserErrorDetails

definition reasonForCode :: "ErrorCode \<Rightarrow> ErrorReasonClass" where
  "reasonForCode code =
     (case code of
        ErrorCodeBareLF \<Rightarrow> ErrorReasonPolicy
      | ErrorCodeBareCR \<Rightarrow> ErrorReasonPolicy
      | ErrorCodeMixedLineEndings \<Rightarrow> ErrorReasonPolicy
      | ErrorCodeMissingDelimiter \<Rightarrow> ErrorReasonPolicy
      | ErrorCodeInvalidTransportForm \<Rightarrow> ErrorReasonPolicy
      | ErrorCodeMalformedHeader \<Rightarrow> ErrorReasonMalformed
      | ErrorCodeLimitExceeded \<Rightarrow> ErrorReasonLimit
      | ErrorCodeInvalidInvariant \<Rightarrow> ErrorReasonInvariant
      | _ \<Rightarrow> ErrorReasonMalformed)"

definition sanitizeLocation :: "ErrorLocation \<Rightarrow> ErrorLocation" where
  "sanitizeLocation location =
     \<lparr>loc_Offset = (if loc_Offset location < 0 then 0 else loc_Offset location),
      loc_Line = (if loc_Line location < 0 then 0 else loc_Line location),
      loc_Column = (if loc_Column location < 0 then 0 else loc_Column location)\<rparr>"

definition NewParserError ::
    "ErrorCode \<Rightarrow> ErrorLocation \<Rightarrow> ParserErrorDetails \<Rightarrow> ParserError" where
  "NewParserError code location details =
     (let details' = (if det_Reason details = ErrorReasonUnset
                      then details\<lparr>det_Reason := reasonForCode code\<rparr> else details)
      in \<lparr>pe_code = code, pe_location = sanitizeLocation location, pe_details = details'\<rparr>)"

text \<open>
  The accessors take a possibly nil receiver, \<open>None\<close>. A code accessor on nil returns the empty
  string, again \<open>None\<close>.
\<close>

definition ParserError_Code :: "ParserError option \<Rightarrow> ErrorCode option" where
  "ParserError_Code e = map_option pe_code e"

definition ParserError_Location :: "ParserError option \<Rightarrow> ErrorLocation" where
  "ParserError_Location e = (case e of None \<Rightarrow> zeroLocation | Some x \<Rightarrow> pe_location x)"

definition ParserError_ReasonClass :: "ParserError option \<Rightarrow> ErrorReasonClass" where
  "ParserError_ReasonClass e =
     (case e of None \<Rightarrow> ErrorReasonUnset | Some x \<Rightarrow> det_Reason (pe_details x))"

definition ParserError_PolicyName :: "ParserError option \<Rightarrow> string" where
  "ParserError_PolicyName e = (case e of None \<Rightarrow> [] | Some x \<Rightarrow> det_PolicyName (pe_details x))"

definition ParserError_LimitName :: "ParserError option \<Rightarrow> string" where
  "ParserError_LimitName e = (case e of None \<Rightarrow> [] | Some x \<Rightarrow> det_LimitName (pe_details x))"

definition ParserError_Limit :: "ParserError option \<Rightarrow> int" where
  "ParserError_Limit e = (case e of None \<Rightarrow> 0 | Some x \<Rightarrow> det_Limit (pe_details x))"

definition ParserError_Is :: "ParserError option \<Rightarrow> ParserError option \<Rightarrow> bool" where
  "ParserError_Is e target =
     (case (e, target) of (Some x, Some t) \<Rightarrow> pe_code x = pe_code t | _ \<Rightarrow> False)"

definition IsParserErrorCode :: "ParserError option \<Rightarrow> ErrorCode \<Rightarrow> bool" where
  "IsParserErrorCode err code =
     (case err of None \<Rightarrow> False | Some x \<Rightarrow> ParserError_Code (Some x) = Some code)"

definition safeTokenByte :: "byte \<Rightarrow> bool" where
  "safeTokenByte b \<longleftrightarrow>
     octet CHR ''a'' \<le> octet b \<and> octet b \<le> octet CHR ''z''
     \<or> octet CHR ''A'' \<le> octet b \<and> octet b \<le> octet CHR ''Z''
     \<or> octet CHR ''0'' \<le> octet b \<and> octet b \<le> octet CHR ''9''
     \<or> b = CHR ''_'' \<or> b = CHR ''-'' \<or> b = CHR ''.''"

definition safeDiagnosticToken :: "string \<Rightarrow> string" where
  "safeDiagnosticToken value =
     (if value = [] then ''unknown''
      else if length value > 64 then ''redacted''
      else if \<forall>b \<in> set value. safeTokenByte b then value else ''redacted'')"

text \<open>Details as the call sites write them: unnamed fields have their zero value.\<close>

definition invariantDetails :: ParserErrorDetails where
  "invariantDetails =
     \<lparr>det_Reason = ErrorReasonInvariant, det_PolicyName = [], det_LimitName = [], det_Limit = 0\<rparr>"

definition malformedDetails :: ParserErrorDetails where
  "malformedDetails =
     \<lparr>det_Reason = ErrorReasonMalformed, det_PolicyName = [], det_LimitName = [], det_Limit = 0\<rparr>"

definition policyDetails :: "string \<Rightarrow> ParserErrorDetails" where
  "policyDetails name =
     \<lparr>det_Reason = ErrorReasonPolicy, det_PolicyName = name, det_LimitName = [], det_Limit = 0\<rparr>"

definition limitDetails :: "string \<Rightarrow> int \<Rightarrow> ParserErrorDetails" where
  "limitDetails name limit =
     \<lparr>det_Reason = ErrorReasonLimit, det_PolicyName = [], det_LimitName = name, det_Limit = limit\<rparr>"

definition invariantError :: ParserError where
  "invariantError = NewParserError ErrorCodeInvalidInvariant zeroLocation invariantDetails"

definition limitErrorAt :: "ErrorLocation \<Rightarrow> string \<Rightarrow> int \<Rightarrow> ParserError" where
  "limitErrorAt location name limit =
     NewParserError ErrorCodeLimitExceeded location (limitDetails name limit)"

definition malformedHeaderError :: "int \<Rightarrow> int \<Rightarrow> int \<Rightarrow> ParserError" where
  "malformedHeaderError offset line column =
     NewParserError ErrorCodeMalformedHeader
       \<lparr>loc_Offset = offset, loc_Line = line, loc_Column = column\<rparr> malformedDetails"

section \<open>Options (\<open>options.go\<close>)\<close>

type_synonym LineEndingPolicy = string

abbreviation LineEndingPolicyStrictCRLF :: LineEndingPolicy where
  "LineEndingPolicyStrictCRLF \<equiv> ''strict-crlf''"

abbreviation LineEndingPolicyNormalizeLF :: LineEndingPolicy where
  "LineEndingPolicyNormalizeLF \<equiv> ''normalize-lf''"

abbreviation limitNameMaxMessageBytes :: string where
  "limitNameMaxMessageBytes \<equiv> ''max_message_bytes''"
abbreviation limitNameMaxHeaderBytes :: string where
  "limitNameMaxHeaderBytes \<equiv> ''max_header_bytes''"
abbreviation limitNameMaxHeaderFields :: string where
  "limitNameMaxHeaderFields \<equiv> ''max_header_fields''"
abbreviation limitNameMaxHeaderFieldBytes :: string where
  "limitNameMaxHeaderFieldBytes \<equiv> ''max_header_field_bytes''"
abbreviation limitNameMaxHeaderLineBytes :: string where
  "limitNameMaxHeaderLineBytes \<equiv> ''max_header_line_bytes''"
abbreviation limitNameMaxBodyLineBytes :: string where
  "limitNameMaxBodyLineBytes \<equiv> ''max_body_line_bytes''"
abbreviation limitNameMaxBodyLines :: string where
  "limitNameMaxBodyLines \<equiv> ''max_body_lines''"

definition HardMaxMessageBytes :: int where "HardMaxMessageBytes = 134217728"
definition HardMaxBodyLines :: int where "HardMaxBodyLines = 2097152"

definition defaultMaxLineBytes :: int where "defaultMaxLineBytes = 998"

record ParserOptions =
  MaxMessageBytes :: int
  MaxHeaderBytes :: int
  MaxHeaderFields :: int
  MaxHeaderFieldBytes :: int
  MaxHeaderLineBytes :: int
  MaxBodyLineBytes :: int
  MaxBodyLines :: int
  LineEnding :: LineEndingPolicy
  RecordNormalizedInput :: bool

definition DefaultParserOptions :: ParserOptions where
  "DefaultParserOptions =
     \<lparr>MaxMessageBytes = HardMaxMessageBytes,
      MaxHeaderBytes = 1024 * 1024,
      MaxHeaderFields = 2000,
      MaxHeaderFieldBytes = 64 * 1024,
      MaxHeaderLineBytes = defaultMaxLineBytes,
      MaxBodyLineBytes = defaultMaxLineBytes,
      MaxBodyLines = HardMaxBodyLines,
      LineEnding = LineEndingPolicyStrictCRLF,
      RecordNormalizedInput = False\<rparr>"

definition limitOptionError :: "string \<Rightarrow> int \<Rightarrow> ParserError" where
  "limitOptionError limitName limit = limitErrorAt zeroLocation limitName limit"

definition unsupportedPolicyError :: "string \<Rightarrow> ParserError" where
  "unsupportedPolicyError policyName =
     NewParserError ErrorCodeUnsupportedPolicy zeroLocation (policyDetails policyName)"

definition ParserOptions_Validate :: "ParserOptions \<Rightarrow> ParserError option" where
  "ParserOptions_Validate o' =
     (if MaxMessageBytes o' \<le> 0
      then Some (limitOptionError ''max_message_bytes'' (MaxMessageBytes o'))
      else if MaxHeaderBytes o' \<le> 0
      then Some (limitOptionError ''max_header_bytes'' (MaxHeaderBytes o'))
      else if MaxHeaderFields o' \<le> 0
      then Some (limitOptionError ''max_header_fields'' (MaxHeaderFields o'))
      else if MaxHeaderFieldBytes o' \<le> 0
      then Some (limitOptionError ''max_header_field_bytes'' (MaxHeaderFieldBytes o'))
      else if MaxHeaderLineBytes o' \<le> 0
      then Some (limitOptionError limitNameMaxHeaderLineBytes (MaxHeaderLineBytes o'))
      else if MaxHeaderLineBytes o' > defaultMaxLineBytes
      then Some (limitOptionError limitNameMaxHeaderLineBytes defaultMaxLineBytes)
      else if MaxBodyLineBytes o' \<le> 0
      then Some (limitOptionError ''max_body_line_bytes'' (MaxBodyLineBytes o'))
      else if MaxBodyLineBytes o' > defaultMaxLineBytes
      then Some (limitOptionError limitNameMaxBodyLineBytes defaultMaxLineBytes)
      else if MaxBodyLines o' \<le> 0
      then Some (limitOptionError limitNameMaxBodyLines (MaxBodyLines o'))
      else if MaxBodyLines o' > HardMaxBodyLines
      then Some (limitOptionError limitNameMaxBodyLines HardMaxBodyLines)
      else if LineEnding o' \<noteq> LineEndingPolicyStrictCRLF
      then Some (unsupportedPolicyError (LineEnding o'))
      else if RecordNormalizedInput o'
      then Some (unsupportedPolicyError ''record-normalized-input'')
      else None)"

record ParserMetadata =
  md_LineEndingPolicy :: LineEndingPolicy
  md_NormalizedInput :: bool
  md_OriginalBytes :: int
  md_StoredBytes :: int
  md_HeaderBytes :: int
  md_HeaderFields :: int
  md_BodyBytes :: int

definition nonNegative :: "int \<Rightarrow> int" where
  "nonNegative value = (if value < 0 then 0 else value)"

definition NewParserMetadata ::
    "LineEndingPolicy \<Rightarrow> bool \<Rightarrow> int \<Rightarrow> int \<Rightarrow> int \<Rightarrow> int \<Rightarrow> int \<Rightarrow> ParserMetadata" where
  "NewParserMetadata policy normalized originalBytes storedBytes headerBytes headerFields bodyBytes =
     \<lparr>md_LineEndingPolicy = policy,
      md_NormalizedInput = normalized,
      md_OriginalBytes = nonNegative originalBytes,
      md_StoredBytes = nonNegative storedBytes,
      md_HeaderBytes = nonNegative headerBytes,
      md_HeaderFields = nonNegative headerFields,
      md_BodyBytes = nonNegative bodyBytes\<rparr>"

section \<open>Facts\<close>

text \<open>The code of every error the helper constructors build, for proofs that rule an error out.\<close>

lemma pe_code_NewParserError [simp]: "pe_code (NewParserError c l d) = c"
  by (simp add: NewParserError_def Let_def)

lemma pe_code_helpers [simp]:
  "pe_code invariantError = ErrorCodeInvalidInvariant"
  "pe_code (limitErrorAt loc n k) = ErrorCodeLimitExceeded"
  "pe_code (malformedHeaderError i j m) = ErrorCodeMalformedHeader"
  "pe_code (limitOptionError n k) = ErrorCodeLimitExceeded"
  "pe_code (unsupportedPolicyError p) = ErrorCodeUnsupportedPolicy"
  by (simp_all add: invariantError_def limitErrorAt_def malformedHeaderError_def
      limitOptionError_def unsupportedPolicyError_def)

lemma ParserOptions_Validate_None_iff:
  "ParserOptions_Validate o' = None \<longleftrightarrow>
     0 < MaxMessageBytes o' \<and> 0 < MaxHeaderBytes o' \<and> 0 < MaxHeaderFields o'
     \<and> 0 < MaxHeaderFieldBytes o'
     \<and> 0 < MaxHeaderLineBytes o' \<and> MaxHeaderLineBytes o' \<le> 998
     \<and> 0 < MaxBodyLineBytes o' \<and> MaxBodyLineBytes o' \<le> 998
     \<and> 0 < MaxBodyLines o' \<and> MaxBodyLines o' \<le> 2097152
     \<and> LineEnding o' = LineEndingPolicyStrictCRLF \<and> \<not> RecordNormalizedInput o'"
  by (auto simp: ParserOptions_Validate_def defaultMaxLineBytes_def HardMaxBodyLines_def)

lemma ParserOptions_Validate_code:
  "ParserOptions_Validate o' = Some e \<Longrightarrow>
     pe_code e = ErrorCodeLimitExceeded \<or> pe_code e = ErrorCodeUnsupportedPolicy"
  by (auto simp: ParserOptions_Validate_def split: if_splits)

lemma DefaultParserOptions_valid: "ParserOptions_Validate DefaultParserOptions = None"
  by (simp add: ParserOptions_Validate_None_iff DefaultParserOptions_def
      HardMaxMessageBytes_def HardMaxBodyLines_def defaultMaxLineBytes_def)

lemma nonNegative_int [simp]: "nonNegative (int n) = int n"
  by (simp add: nonNegative_def)

lemma safeDiagnosticToken_safe:
  "length (safeDiagnosticToken v) \<le> 64 \<and> (\<forall>b \<in> set (safeDiagnosticToken v). safeTokenByte b)"
  by (auto simp: safeDiagnosticToken_def safeTokenByte_def octet_def)

end
