(* ===== verification/Rawmsg_Header.thy ===== *)
theory Rawmsg_Header
  imports Rawmsg_Base
begin

text \<open>
  Header fields and header blocks of package \<open>internal/rawmsg\<close> (\<open>header.go\<close>, with
  \<open>unfoldHeaderValue\<close> of \<open>parser.go\<close>): the field-name and folded-value grammars, the validating
  constructors, the accessors, and the invariants that the constructors establish.
\<close>

section \<open>Field grammar\<close>

record HeaderField =
  hf_index :: nat
  hf_rawName :: bytes
  hf_nameLower :: bytes
  hf_rawValue :: bytes
  hf_unfoldedValue :: bytes
  hf_originalBytes :: bytes
  hf_valid :: bool

record HeaderBlock =
  hb_fields :: "HeaderField list"
  hb_originalBytes :: bytes
  hb_initialized :: bool

definition zeroHeaderField :: HeaderField where
  "zeroHeaderField = \<lparr>hf_index = 0, hf_rawName = [], hf_nameLower = [], hf_rawValue = [],
     hf_unfoldedValue = [], hf_originalBytes = [], hf_valid = False\<rparr>"

definition invalidNameByte :: "byte \<Rightarrow> bool" where
  "invalidNameByte b \<longleftrightarrow> octet b \<le> 32 \<or> 127 \<le> octet b \<or> b = CHR '':''"

text \<open>The first invalid byte of a field name; \<open>None\<close> is Go's \<open>-1\<close>, and an empty name is invalid at 0.\<close>

fun firstInvalidNameByte :: "nat \<Rightarrow> bytes \<Rightarrow> nat option" where
  "firstInvalidNameByte i [] = None"
| "firstInvalidNameByte i (b # bs) =
     (if invalidNameByte b then Some i else firstInvalidNameByte (Suc i) bs)"

definition invalidHeaderFieldNameOffset :: "bytes \<Rightarrow> nat option" where
  "invalidHeaderFieldNameOffset name = (if name = [] then Some 0 else firstInvalidNameByte 0 name)"

definition validHeaderFieldName :: "bytes \<Rightarrow> bool" where
  "validHeaderFieldName name \<longleftrightarrow> invalidHeaderFieldNameOffset name = None"

definition lowerASCIIByte :: "byte \<Rightarrow> byte" where
  "lowerASCIIByte b =
     (if octet CHR ''A'' \<le> octet b \<and> octet b \<le> octet CHR ''Z''
      then char_of (octet b + (octet CHR ''a'' - octet CHR ''A'')) else b)"

definition lowerASCII :: "bytes \<Rightarrow> bytes" where
  "lowerASCII input = map lowerASCIIByte input"

definition canonicalHeaderLookupName :: "bytes \<Rightarrow> bytes option" where
  "canonicalHeaderLookupName name =
     (if validHeaderFieldName name then Some (lowerASCII name) else None)"

definition CanonicalHeaderName :: "bytes \<Rightarrow> bytes option" where
  "CanonicalHeaderName name = canonicalHeaderLookupName name"

fun validHeaderFieldValue :: "bytes \<Rightarrow> bool" where
  "validHeaderFieldValue [] = True"
| "validHeaderFieldValue (b # rest) =
     (if b = CR then
        (case rest of
           c # d # rest' \<Rightarrow> c = LF \<and> isWSP d \<and> validHeaderFieldValue (d # rest')
         | _ \<Rightarrow> False)
      else if b = LF then False
      else validHeaderFieldValue rest)"

text \<open>The loop of \<open>unfoldHeaderValue\<close>: a CRLF directly before white space is dropped.\<close>

fun unfoldLoop :: "bytes \<Rightarrow> bytes" where
  "unfoldLoop [] = []"
| "unfoldLoop (b # rest) =
     (case rest of
        c # d # rest' \<Rightarrow>
          (if b = CR \<and> c = LF \<and> isWSP d then unfoldLoop (d # rest') else b # unfoldLoop rest)
      | _ \<Rightarrow> b # unfoldLoop rest)"

definition unfoldHeaderValue :: "bytes \<Rightarrow> bytes" where
  "unfoldHeaderValue value = (if Index value crlf = None then value else unfoldLoop value)"

section \<open>Constructors\<close>

definition NewHeaderField ::
    "int \<Rightarrow> bytes \<Rightarrow> bytes \<Rightarrow> bytes \<Rightarrow> bytes \<Rightarrow> (ParserError, HeaderField) result" where
  "NewHeaderField index rawName rawValue unfoldedValue originalBytes =
     (if index < 0 then Inl invariantError
      else if \<not> validHeaderFieldName rawName
      then Inl (NewParserError ErrorCodeMalformedHeader zeroLocation malformedDetails)
      else if \<not> validHeaderFieldValue rawValue
      then Inl (NewParserError ErrorCodeMalformedHeader zeroLocation malformedDetails)
      else if length originalBytes \<noteq> length rawName + 1 + length rawValue + length crlf
           \<or> take (length rawName) originalBytes \<noteq> rawName
           \<or> originalBytes ! length rawName \<noteq> CHR '':''
           \<or> slice originalBytes (length rawName + 1) (length originalBytes - length crlf) \<noteq> rawValue
           \<or> \<not> HasSuffix originalBytes crlf
      then Inl invariantError
      else if unfoldedValue \<noteq> unfoldHeaderValue rawValue then Inl invariantError
      else Inr \<lparr>hf_index = nat index, hf_rawName = rawName, hf_nameLower = lowerASCII rawName,
                hf_rawValue = rawValue, hf_unfoldedValue = unfoldedValue,
                hf_originalBytes = originalBytes, hf_valid = True\<rparr>)"

fun headerBlockLoop ::
    "nat \<Rightarrow> HeaderField list \<Rightarrow> bytes \<Rightarrow> nat \<Rightarrow> (ParserError, nat) result" where
  "headerBlockLoop i [] originalBytes originalOffset = Inr originalOffset"
| "headerBlockLoop i (field # fs) originalBytes originalOffset =
     (if \<not> hf_valid field \<or> hf_index field \<noteq> i then Inl invariantError
      else if \<not> HasPrefix (drop originalOffset originalBytes) (hf_originalBytes field)
      then Inl invariantError
      else headerBlockLoop (Suc i) fs originalBytes
             (originalOffset + length (hf_originalBytes field)))"

definition NewHeaderBlock ::
    "HeaderField list \<Rightarrow> bytes \<Rightarrow> (ParserError, HeaderBlock) result" where
  "NewHeaderBlock fs originalBytes =
     (if fs = [] then
        (if originalBytes \<noteq> [] then Inl invariantError
         else Inr \<lparr>hb_fields = [], hb_originalBytes = [], hb_initialized = True\<rparr>)
      else res_bind (headerBlockLoop 0 fs originalBytes 0) (\<lambda>originalOffset.
        if originalOffset \<noteq> length originalBytes then Inl invariantError
        else Inr \<lparr>hb_fields = fs, hb_originalBytes = originalBytes, hb_initialized = True\<rparr>))"

section \<open>Accessors\<close>

definition HeaderBlock_Len :: "HeaderBlock \<Rightarrow> nat" where
  "HeaderBlock_Len h = length (hb_fields h)"

definition HeaderBlock_OriginalByteLen :: "HeaderBlock \<Rightarrow> nat" where
  "HeaderBlock_OriginalByteLen h = length (hb_originalBytes h)"

definition HeaderBlock_Field :: "HeaderBlock \<Rightarrow> int \<Rightarrow> HeaderField option" where
  "HeaderBlock_Field h index =
     (if index < 0 \<or> index \<ge> int (length (hb_fields h)) then None
      else Some (hb_fields h ! nat index))"

definition FieldsByName :: "HeaderBlock \<Rightarrow> bytes \<Rightarrow> HeaderField list" where
  "FieldsByName h name =
     (case canonicalHeaderLookupName name of
        None \<Rightarrow> []
      | Some nameLower \<Rightarrow> filter (\<lambda>field. hf_nameLower field = nameLower) (hb_fields h))"

text \<open>The reverse scan of \<open>LastFieldByName\<close>.\<close>

definition LastFieldByName :: "HeaderBlock \<Rightarrow> bytes \<Rightarrow> HeaderField option" where
  "LastFieldByName h name =
     (case canonicalHeaderLookupName name of
        None \<Rightarrow> None
      | Some nameLower \<Rightarrow> find (\<lambda>field. hf_nameLower field = nameLower) (rev (hb_fields h)))"

text \<open>
  \<open>VisitFieldsReverse\<close> folds a visitor with state over the fields from the bottom up and stops at
  the first error.
\<close>

fun visitList :: "('v \<Rightarrow> 's \<Rightarrow> ('e, 's) result) \<Rightarrow> 'v list \<Rightarrow> 's \<Rightarrow> ('e, 's) result" where
  "visitList visit [] s = Inr s"
| "visitList visit (v # vs) s = res_bind (visit v s) (\<lambda>s'. visitList visit vs s')"

definition VisitFieldsReverse ::
    "(ParserError \<Rightarrow> 'e) \<Rightarrow> (HeaderField \<Rightarrow> 's \<Rightarrow> ('e, 's) result) option \<Rightarrow> HeaderBlock \<Rightarrow> 's
       \<Rightarrow> ('e, 's) result" where
  "VisitFieldsReverse wrap visit h s =
     (case visit of
        None \<Rightarrow> Inl (wrap invariantError)
      | Some f \<Rightarrow> if \<not> hb_initialized h then Inl (wrap invariantError)
                   else visitList f (rev (hb_fields h)) s)"

fun maxPhysicalLine :: "bytes \<Rightarrow> nat \<Rightarrow> nat \<Rightarrow> nat" where
  "maxPhysicalLine (a # b # rest) current maximum =
     (if a = CR \<and> b = LF then maxPhysicalLine rest 0 (max maximum current)
      else maxPhysicalLine (b # rest) (Suc current) maximum)"
| "maxPhysicalLine _ current maximum = maximum"

definition MaximumPhysicalLineBytes :: "HeaderField \<Rightarrow> nat" where
  "MaximumPhysicalLineBytes f =
     (if \<not> hf_valid f then 0 else maxPhysicalLine (hf_originalBytes f) 0 0)"

section \<open>Names\<close>

lemma firstInvalidNameByte_None_iff:
  "firstInvalidNameByte i bs = None \<longleftrightarrow> (\<forall>b \<in> set bs. \<not> invalidNameByte b)"
  by (induction bs arbitrary: i) auto

lemma validHeaderFieldName_iff:
  "validHeaderFieldName name \<longleftrightarrow> name \<noteq> [] \<and> (\<forall>b \<in> set name. \<not> invalidNameByte b)"
  by (simp add: validHeaderFieldName_def invalidHeaderFieldNameOffset_def
      firstInvalidNameByte_None_iff)

lemma invalidNameByte_specials [simp]:
  "invalidNameByte CR" "invalidNameByte LF" "invalidNameByte SP" "invalidNameByte TAB"
  "invalidNameByte CHR '':''"
  by (simp_all add: invalidNameByte_def octet_def)

lemma validHeaderFieldName_no_specials:
  assumes "validHeaderFieldName name"
  shows "CR \<notin> set name" "LF \<notin> set name" "CHR '':'' \<notin> set name" "SP \<notin> set name" "TAB \<notin> set name"
  using assms invalidNameByte_specials unfolding validHeaderFieldName_iff by blast+

lemma octet_lowerASCIIByte:
  "octet (lowerASCIIByte b) = (if 65 \<le> octet b \<and> octet b \<le> 90 then octet b + 32 else octet b)"
  by (simp add: lowerASCIIByte_def octet_char_of)

lemma lowerASCIIByte_idem [simp]: "lowerASCIIByte (lowerASCIIByte b) = lowerASCIIByte b"
  unfolding octet_inject [symmetric] by (simp add: octet_lowerASCIIByte)

lemma lowerASCII_idem [simp]: "lowerASCII (lowerASCII s) = lowerASCII s"
  by (simp add: lowerASCII_def)

lemma length_lowerASCII [simp]: "length (lowerASCII s) = length s"
  by (simp add: lowerASCII_def)

lemma invalidNameByte_octet:
  "invalidNameByte b \<longleftrightarrow> octet b \<le> 32 \<or> 127 \<le> octet b \<or> octet b = 58"
  unfolding invalidNameByte_def octet_inject [of b "CHR '':''", symmetric] by simp

lemma invalidNameByte_lower [simp]: "invalidNameByte (lowerASCIIByte b) = invalidNameByte b"
  by (auto simp: invalidNameByte_octet octet_lowerASCIIByte)

lemma validHeaderFieldName_lower [simp]:
  "validHeaderFieldName (lowerASCII name) = validHeaderFieldName name"
  by (auto simp: validHeaderFieldName_iff lowerASCII_def)

section \<open>Folded values\<close>

text \<open>
  The recursive equations split the rest of the value at every step, so they are replaced by
  rules that look no further than one fold.
\<close>

declare validHeaderFieldValue.simps(2) [simp del] unfoldLoop.simps(2) [simp del]

lemma isWSP_not_breakD: "isWSP d \<Longrightarrow> d \<noteq> CR \<and> d \<noteq> LF"
  by (auto simp: isWSP_def)

lemma validHeaderFieldValue_step:
  "b \<noteq> CR \<Longrightarrow> b \<noteq> LF \<Longrightarrow> validHeaderFieldValue (b # r) = validHeaderFieldValue r"
  "\<not> validHeaderFieldValue (LF # r)"
  "validHeaderFieldValue (CR # r) \<longleftrightarrow>
     (\<exists>d r'. r = LF # d # r' \<and> isWSP d \<and> validHeaderFieldValue r')"
proof -
  have plain: "validHeaderFieldValue (b # r) = validHeaderFieldValue r" if "b \<noteq> CR" "b \<noteq> LF" for b r
    using that by (subst validHeaderFieldValue.simps(2)) simp
  then show "b \<noteq> CR \<Longrightarrow> b \<noteq> LF \<Longrightarrow> validHeaderFieldValue (b # r) = validHeaderFieldValue r" .
  show "\<not> validHeaderFieldValue (LF # r)"
    by (subst validHeaderFieldValue.simps(2)) simp
  show "validHeaderFieldValue (CR # r) \<longleftrightarrow>
      (\<exists>d r'. r = LF # d # r' \<and> isWSP d \<and> validHeaderFieldValue r')"
    by (subst validHeaderFieldValue.simps(2))
       (auto split: list.split simp: plain dest: isWSP_not_breakD)
qed

lemma unfoldLoop_step:
  "b \<noteq> CR \<Longrightarrow> unfoldLoop (b # r) = b # unfoldLoop r"
  "isWSP d \<Longrightarrow> unfoldLoop (CR # LF # d # r) = d # unfoldLoop r"
  "(\<nexists>d r'. r = LF # d # r' \<and> isWSP d) \<Longrightarrow> unfoldLoop (CR # r) = CR # unfoldLoop r"
proof -
  have plain: "unfoldLoop (b # r) = b # unfoldLoop r" if "b \<noteq> CR" for b r
    using that by (subst unfoldLoop.simps(2)) (simp split: list.split)
  then show "b \<noteq> CR \<Longrightarrow> unfoldLoop (b # r) = b # unfoldLoop r" .
  show "isWSP d \<Longrightarrow> unfoldLoop (CR # LF # d # r) = d # unfoldLoop r"
    by (subst unfoldLoop.simps(2)) (simp add: plain isWSP_not_breakD)
  show "(\<nexists>d r'. r = LF # d # r' \<and> isWSP d) \<Longrightarrow> unfoldLoop (CR # r) = CR # unfoldLoop r"
    by (subst unfoldLoop.simps(2)) (auto split: list.split)
qed

lemma validHeaderFieldValue_no_break:
  "CR \<notin> set v \<Longrightarrow> LF \<notin> set v \<Longrightarrow> validHeaderFieldValue v"
  by (induction v) (auto simp: validHeaderFieldValue_step)

lemma unfoldLoop_no_crlf: "\<nexists>a r. v = a @ CR # LF # r \<Longrightarrow> unfoldLoop v = v"
proof (induction v)
  case (Cons b v)
  have "\<nexists>a r. v = a @ CR # LF # r" using Cons.prems by (metis append_Cons)
  moreover have "b = CR \<Longrightarrow> \<nexists>d r'. v = LF # d # r' \<and> isWSP d"
    using Cons.prems by (metis append_Nil)
  ultimately show ?case using Cons.IH by (cases "b = CR") (auto simp: unfoldLoop_step)
qed simp

lemma unfoldHeaderValue_loop: "unfoldHeaderValue v = unfoldLoop v"
  by (simp add: unfoldHeaderValue_def Index_None_iff crlf_def unfoldLoop_no_crlf)

lemma unfoldLoop_valid:
  "validHeaderFieldValue v \<Longrightarrow> unfoldLoop v = filter (\<lambda>b. b \<noteq> CR \<and> b \<noteq> LF) v"
proof (induction v rule: length_induct)
  case (1 v)
  show ?case
  proof (cases v)
    case (Cons b r)
    show ?thesis
    proof (cases "b = CR")
      case True
      with "1.prems" Cons obtain d r' where r: "r = LF # d # r'" and d: "isWSP d"
        and v: "validHeaderFieldValue r'"
        by (auto simp: validHeaderFieldValue_step)
      have "unfoldLoop r' = filter (\<lambda>b. b \<noteq> CR \<and> b \<noteq> LF) r'"
        using "1.IH" v r Cons by simp
      with Cons True r d show ?thesis by (auto simp: unfoldLoop_step isWSP_def)
    next
      case False
      with "1.prems" Cons have "b \<noteq> LF" "validHeaderFieldValue r"
        using validHeaderFieldValue_step by metis+
      with "1.IH" Cons False show ?thesis by (simp add: unfoldLoop_step)
    qed
  qed simp
qed

text \<open>On a valid value, unfolding removes exactly the CR and LF octets.\<close>

lemma unfoldHeaderValue_valid:
  "validHeaderFieldValue v \<Longrightarrow> unfoldHeaderValue v = filter (\<lambda>b. b \<noteq> CR \<and> b \<noteq> LF) v"
  by (simp add: unfoldHeaderValue_loop unfoldLoop_valid)

text \<open>A value followed by a fold: how the grammar composes over physical lines.\<close>

lemma validHeaderFieldValue_fold:
  assumes "CR \<notin> set v" "LF \<notin> set v" "isWSP b"
  shows "validHeaderFieldValue (v @ crlf @ b # r) \<longleftrightarrow> validHeaderFieldValue r"
  using assms by (induction v) (auto simp: crlf_def validHeaderFieldValue_step)

section \<open>Invariants of constructed values\<close>

definition header_field_inv :: "HeaderField \<Rightarrow> bool" where
  "header_field_inv f \<longleftrightarrow>
     hf_valid f \<and> validHeaderFieldName (hf_rawName f) \<and> validHeaderFieldValue (hf_rawValue f)
     \<and> hf_originalBytes f = hf_rawName f @ CHR '':'' # hf_rawValue f @ crlf
     \<and> hf_nameLower f = lowerASCII (hf_rawName f)
     \<and> hf_unfoldedValue f = unfoldHeaderValue (hf_rawValue f)"

definition header_block_inv :: "HeaderBlock \<Rightarrow> bool" where
  "header_block_inv h \<longleftrightarrow>
     hb_initialized h
     \<and> (\<forall>i < length (hb_fields h). header_field_inv (hb_fields h ! i) \<and> hf_index (hb_fields h ! i) = i)
     \<and> hb_originalBytes h = concat (map hf_originalBytes (hb_fields h))"

lemma NewHeaderField_Inr_iff:
  "NewHeaderField index name value unf orig = Inr f \<longleftrightarrow>
     0 \<le> index \<and> validHeaderFieldName name \<and> validHeaderFieldValue value
     \<and> orig = name @ CHR '':'' # value @ crlf \<and> unf = unfoldHeaderValue value
     \<and> f = \<lparr>hf_index = nat index, hf_rawName = name, hf_nameLower = lowerASCII name,
            hf_rawValue = value, hf_unfoldedValue = unf, hf_originalBytes = orig, hf_valid = True\<rparr>"
  (is "?lhs \<longleftrightarrow> ?rhs")
proof -
  have shape: "(length orig = length name + 1 + length value + length crlf
       \<and> take (length name) orig = name \<and> orig ! length name = CHR '':''
       \<and> slice orig (length name + 1) (length orig - length crlf) = value
       \<and> HasSuffix orig crlf) \<longleftrightarrow> orig = name @ CHR '':'' # value @ crlf"
  proof
    assume h: "length orig = length name + 1 + length value + length crlf
       \<and> take (length name) orig = name \<and> orig ! length name = CHR '':''
       \<and> slice orig (length name + 1) (length orig - length crlf) = value \<and> HasSuffix orig crlf"
    then obtain r where r: "orig = r @ crlf" by (auto simp: HasSuffix_iff)
    with h have lr: "length r = length name + 1 + length value" by simp
    have "take (length name) r = name" using h r lr by simp
    moreover have "r ! length name = CHR '':''" using h r lr by (simp add: nth_append)
    moreover have "drop (Suc (length name)) r = value"
      using h r lr by (simp add: slice_def)
    moreover have "length name < length r" using lr by simp
    ultimately have "r = name @ CHR '':'' # value"
      by (metis id_take_nth_drop)
    with r show "orig = name @ CHR '':'' # value @ crlf" by simp
  next
    assume h: "orig = name @ CHR '':'' # value @ crlf"
    then have "HasSuffix orig crlf"
      using HasSuffix_append [of "name @ CHR '':'' # value" crlf] by simp
    with h show "length orig = length name + 1 + length value + length crlf
       \<and> take (length name) orig = name \<and> orig ! length name = CHR '':''
       \<and> slice orig (length name + 1) (length orig - length crlf) = value \<and> HasSuffix orig crlf"
      by (simp add: slice_def nth_append)
  qed
  show ?thesis
    unfolding NewHeaderField_def if_Inl_eq_Inr using shape by auto
qed

lemma NewHeaderField_inv: "NewHeaderField i n v u w = Inr f \<Longrightarrow> header_field_inv f"
  by (auto simp: NewHeaderField_Inr_iff header_field_inv_def)

lemma header_field_inv_original_not_Nil:
  "header_field_inv f \<Longrightarrow> hf_originalBytes f \<noteq> []"
  by (simp add: header_field_inv_def)

lemma headerBlockLoop_Inr_iff:
  "headerBlockLoop i fs ob k = Inr n \<longleftrightarrow>
     (\<forall>j < length fs. hf_valid (fs ! j) \<and> hf_index (fs ! j) = i + j)
     \<and> HasPrefix (drop k ob) (concat (map hf_originalBytes fs))
     \<and> n = k + length (concat (map hf_originalBytes fs))"
proof (induction fs arbitrary: i k)
  case Nil
  then show ?case by (auto simp: HasPrefix_def)
next
  case (Cons f fs)
  let ?w = "hf_originalBytes f" and ?r = "concat (map hf_originalBytes fs)"
  have pre: "HasPrefix (drop k ob) (?w @ ?r) \<longleftrightarrow>
      HasPrefix (drop k ob) ?w \<and> HasPrefix (drop (k + length ?w) ob) ?r"
    by (simp add: HasPrefix_append_iff add.commute)
  have idx: "(\<forall>j < length (f # fs). hf_valid ((f # fs) ! j) \<and> hf_index ((f # fs) ! j) = i + j) \<longleftrightarrow>
      hf_valid f \<and> hf_index f = i \<and> (\<forall>j < length fs. hf_valid (fs ! j) \<and> hf_index (fs ! j) = Suc i + j)"
    by (auto simp: nth_Cons less_Suc_eq_0_disj)
  show ?case
    unfolding idx using Cons.IH [of "Suc i" "k + length ?w"] pre by auto
qed

lemma NewHeaderBlock_Inr_iff:
  "NewHeaderBlock fs ob = Inr h \<longleftrightarrow>
     (\<forall>j < length fs. hf_valid (fs ! j) \<and> hf_index (fs ! j) = j)
     \<and> ob = concat (map hf_originalBytes fs)
     \<and> h = \<lparr>hb_fields = fs, hb_originalBytes = ob, hb_initialized = True\<rparr>"
proof (cases "fs = []")
  case True
  then show ?thesis by (auto simp: NewHeaderBlock_def)
next
  case False
  have "HasPrefix ob w \<and> length w = length ob \<longleftrightarrow> ob = w" for w
    by (auto simp: HasPrefix_def)
  with False show ?thesis
    by (auto simp: NewHeaderBlock_def res_bind_Inr_iff headerBlockLoop_Inr_iff)
qed

lemma header_block_inv_NewHeaderBlock:
  "header_block_inv h \<Longrightarrow> NewHeaderBlock (hb_fields h) (hb_originalBytes h) = Inr h"
  by (auto simp: header_block_inv_def NewHeaderBlock_Inr_iff header_field_inv_def)

lemma NewHeaderBlock_inv:
  "NewHeaderBlock fs ob = Inr h \<Longrightarrow> (\<forall>f \<in> set fs. header_field_inv f) \<Longrightarrow> header_block_inv h"
  by (auto simp: NewHeaderBlock_Inr_iff header_block_inv_def)

lemma header_block_inv_fields:
  "header_block_inv h \<Longrightarrow> f \<in> set (hb_fields h) \<Longrightarrow> header_field_inv f"
  by (auto simp: header_block_inv_def in_set_conv_nth)

text \<open>Lookup by name: the last match is the last element of all matches, in any letter case.\<close>

lemma find_rev_last:
  "find P (rev xs) = (if filter P xs = [] then None else Some (last (filter P xs)))"
  by (induction xs rule: rev_induct) auto

lemma LastFieldByName_last:
  "LastFieldByName h name =
     (if FieldsByName h name = [] then None else Some (last (FieldsByName h name)))"
  by (simp add: LastFieldByName_def FieldsByName_def find_rev_last split: option.split)

lemma FieldsByName_lower: "FieldsByName h (lowerASCII name) = FieldsByName h name"
  by (simp add: FieldsByName_def canonicalHeaderLookupName_def)

end
