(* ===== verification/Go_Lines.thy ===== *)
theory Go_Lines
  imports Go_Bytes
begin

text \<open>
  CRLF-delimited text as a list of physical lines. The sources walk such text with offsets
  (\<open>bytes.Index(data[lineStart:], crlf)\<close>); the list view given here is the reference that the
  offset loops of \<open>rawmsg\<close> and \<open>canonical\<close> are proved against.
\<close>

section \<open>Splitting at CRLF\<close>

definition no_crlf :: "bytes \<Rightarrow> bool" where
  "no_crlf s \<longleftrightarrow> Index s crlf = None"

text \<open>Lines with their terminator; only the last one may lack it.\<close>

function crlf_lines :: "bytes \<Rightarrow> bytes list" where
  "crlf_lines d =
     (if d = [] then []
      else (case Index d crlf of
              None \<Rightarrow> [d]
            | Some i \<Rightarrow> take (i + 2) d # crlf_lines (drop (i + 2) d)))"
  by pat_completeness auto
termination
  by (relation "measure length") auto

declare crlf_lines.simps [simp del]

definition terminated :: "bytes \<Rightarrow> bool" where
  "terminated l \<longleftrightarrow> HasSuffix l crlf"

definition content :: "bytes \<Rightarrow> bytes" where
  "content l = (if terminated l then take (length l - 2) l else l)"

definition clean :: "bytes \<Rightarrow> bool" where
  "clean s \<longleftrightarrow> CR \<notin> set s \<and> LF \<notin> set s"

lemma no_crlf_iff: "no_crlf s \<longleftrightarrow> (\<nexists>a r. s = a @ crlf @ r)"
  by (simp add: no_crlf_def Index_None_iff)

lemma no_crlf_Nil [simp]: "no_crlf []"
  by (simp add: no_crlf_def)

lemma clean_no_crlf: "clean s \<Longrightarrow> no_crlf s"
  by (auto simp: clean_def no_crlf_iff crlf_def)

lemma clean_append [simp]: "clean (a @ b) \<longleftrightarrow> clean a \<and> clean b"
  by (auto simp: clean_def)

lemma clean_Cons [simp]: "clean (b # s) \<longleftrightarrow> b \<noteq> CR \<and> b \<noteq> LF \<and> clean s"
  by (auto simp: clean_def)

lemma clean_Nil [simp]: "clean []"
  by (simp add: clean_def)

lemma crlf_cases:
  obtains (plain) "no_crlf d" | (line) x r where "d = x @ crlf @ r" "no_crlf x"
proof (cases "Index d crlf")
  case None
  then show thesis using plain by (simp add: no_crlf_def)
next
  case (Some i)
  have d: "d = take i d @ crlf @ drop (i + 2) d" using Index_split [OF Some] by simp
  have "no_crlf (take i d)"
    unfolding no_crlf_iff
  proof
    assume "\<exists>a r. take i d = a @ crlf @ r"
    then obtain a r where ar: "take i d = a @ crlf @ r" by blast
    with d have "d = a @ crlf @ (r @ crlf @ drop (i + 2) d)" by (metis append_assoc)
    from Index_le [OF this] Some have "i \<le> length a" by auto
    moreover have "length a < length (take i d)" using ar by simp
    ultimately show False by simp
  qed
  with d show thesis by (rule line)
qed

lemma Index_crlf_line: "no_crlf x \<Longrightarrow> Index (x @ crlf @ r) crlf = Some (length x)"
proof (induction x)
  case Nil
  then show ?case by (simp add: crlf_def HasPrefix_def)
next
  case (Cons b x)
  then have "\<not> HasPrefix (b # x) crlf" "no_crlf x"
    by (auto simp: no_crlf_def split: if_splits)
  moreover from this have "\<not> HasPrefix (b # x @ crlf @ r) crlf"
    by (cases x) (auto simp: crlf_def HasPrefix_def)
  ultimately show ?case using Cons.IH by simp
qed

lemma crlf_lines_Nil [simp]: "crlf_lines [] = []"
  by (simp add: crlf_lines.simps)

lemma crlf_lines_plain: "no_crlf x \<Longrightarrow> x \<noteq> [] \<Longrightarrow> crlf_lines x = [x]"
  by (subst crlf_lines.simps) (simp add: no_crlf_def)

lemma crlf_lines_line: "no_crlf x \<Longrightarrow> crlf_lines (x @ crlf @ r) = (x @ crlf) # crlf_lines r"
  by (subst crlf_lines.simps) (simp add: Index_crlf_line)

lemma crlf_induct [case_names Nil plain line]:
  assumes "P []"
    and "\<And>x. no_crlf x \<Longrightarrow> x \<noteq> [] \<Longrightarrow> P x"
    and "\<And>x r. no_crlf x \<Longrightarrow> P r \<Longrightarrow> P (x @ crlf @ r)"
  shows "P d"
proof (induction d rule: length_induct)
  case (1 d)
  show ?case
  proof (cases d rule: crlf_cases)
    case plain
    then show ?thesis using assms(1,2) by (cases "d = []") auto
  next
    case (line x r)
    then show ?thesis using assms(3) "1.IH" by simp
  qed
qed

lemma concat_crlf_lines [simp]: "concat (crlf_lines d) = d"
  by (induction d rule: crlf_induct) (simp_all add: crlf_lines_plain crlf_lines_line)

lemma crlf_lines_eq_Nil_iff [simp]: "crlf_lines d = [] \<longleftrightarrow> d = []"
  by (metis concat.simps(1) concat_crlf_lines crlf_lines_Nil)

lemma crlf_lines_nonempty: "l \<in> set (crlf_lines d) \<Longrightarrow> l \<noteq> []"
  by (induction d rule: crlf_induct) (auto simp: crlf_lines_plain crlf_lines_line)

lemma terminated_line [simp]: "terminated (x @ crlf)"
  by (simp add: terminated_def)

lemma content_line [simp]: "content (x @ crlf) = x"
  by (simp add: content_def)

lemma not_terminated_plain: "no_crlf x \<Longrightarrow> \<not> terminated x"
  unfolding terminated_def HasSuffix_iff no_crlf_iff by (metis append_Nil2)

lemma terminated_tail: "terminated (x @ crlf @ r) \<Longrightarrow> r = [] \<or> terminated r"
proof (rule ccontr)
  assume "terminated (x @ crlf @ r)" and r: "\<not> (r = [] \<or> terminated r)"
  then obtain y where y: "x @ crlf @ r = y @ crlf" by (auto simp: terminated_def HasSuffix_iff)
  have "length r \<noteq> 1"
  proof
    assume "length r = 1"
    then obtain b where "r = [b]" by (auto simp: length_Suc_conv)
    with y show False by (simp add: crlf_def)
  qed
  with r have "length crlf \<le> length r" by (cases r) (auto simp: Suc_le_eq)
  moreover have "suffix crlf (x @ crlf @ r)" using y by (simp add: suffix_def)
  moreover have "suffix r (x @ crlf @ r)" by (metis append_assoc suffixI)
  ultimately have "suffix crlf r" using suffix_length_suffix by blast
  then have "HasSuffix r crlf" by (auto simp: HasSuffix_iff suffix_def)
  with r show False by (simp add: terminated_def)
qed

lemma content_plain: "no_crlf x \<Longrightarrow> content x = x"
  by (simp add: content_def not_terminated_plain)

lemma crlf_lines_content_no_crlf: "l \<in> set (crlf_lines d) \<Longrightarrow> no_crlf (content l)"
  by (induction d rule: crlf_induct) (auto simp: crlf_lines_plain crlf_lines_line content_plain)

lemma crlf_lines_append: "a = [] \<or> terminated a \<Longrightarrow> crlf_lines (a @ b) = crlf_lines a @ crlf_lines b"
proof (induction a rule: crlf_induct)
  case (plain x)
  then show ?case by (simp add: not_terminated_plain)
next
  case (line x r)
  have "r = [] \<or> terminated r" using line.prems terminated_tail by auto
  with line show ?case by (simp add: crlf_lines_line)
qed simp

lemma crlf_lines_terminated: "terminated d \<Longrightarrow> \<forall>l \<in> set (crlf_lines d). terminated l"
proof (induction d rule: crlf_induct)
  case (plain x)
  then show ?case by (simp add: not_terminated_plain)
next
  case (line x r)
  have "r = [] \<or> terminated r" using line.prems terminated_tail by auto
  with line show ?case by (auto simp: crlf_lines_line)
qed simp

end
