(* ===== verification/Rawmsg_Body.thy ===== *)
theory Rawmsg_Body
  imports Rawmsg_Header Go_Lines
begin

text \<open>
  Bodies and body-line indexes of package \<open>internal/rawmsg\<close> (\<open>body.go\<close>): the bounded line
  counter, the index builder, the validating constructors and the line accessors, with the
  invariant that the indexed spans partition the body octets in order.
\<close>

section \<open>Line spans\<close>

record BodyLine =
  bl_index :: nat
  bl_startOffset :: nat
  bl_endOffset :: nat
  bl_lineEndingWidth :: nat
  bl_valid :: bool

record Body =
  bd_bytes :: bytes
  bd_lines :: "BodyLine list"
  bd_initialized :: bool

definition zeroBody :: Body where
  "zeroBody = \<lparr>bd_bytes = [], bd_lines = [], bd_initialized = False\<rparr>"

definition NewBodyLine ::
    "int \<Rightarrow> int \<Rightarrow> int \<Rightarrow> int \<Rightarrow> (ParserError, BodyLine) result" where
  "NewBodyLine index startOffset endOffset lineEndingWidth =
     (if index < 0 \<or> startOffset < 0 \<or> endOffset < startOffset then Inl invariantError
      else if lineEndingWidth \<noteq> 0 \<and> lineEndingWidth \<noteq> int (length crlf) then Inl invariantError
      else Inr \<lparr>bl_index = nat index, bl_startOffset = nat startOffset,
                bl_endOffset = nat endOffset, bl_lineEndingWidth = nat lineEndingWidth,
                bl_valid = True\<rparr>)"

fun bodyLineIndexLoop ::
    "nat \<Rightarrow> nat \<Rightarrow> BodyLine list \<Rightarrow> nat \<Rightarrow> ParserError option" where
  "bodyLineIndexLoop n i [] previousEnd = None"
| "bodyLineIndexLoop n i (line # lines) previousEnd =
     (if \<not> bl_valid line \<or> bl_index line \<noteq> i \<or> bl_startOffset line \<noteq> previousEnd
         \<or> Suc i < n \<and> bl_lineEndingWidth line = 0
      then Some invariantError
      else bodyLineIndexLoop n (Suc i) lines (bl_endOffset line + bl_lineEndingWidth line))"

definition NewBodyLineIndex :: "BodyLine list \<Rightarrow> (ParserError, BodyLine list) result" where
  "NewBodyLineIndex lines =
     (if lines = [] then Inr []
      else res_check (bodyLineIndexLoop (length lines) 0 lines 0) (Inr lines))"

section \<open>Bodies\<close>

fun newBodyLoop ::
    "bytes \<Rightarrow> nat \<Rightarrow> nat \<Rightarrow> BodyLine list \<Rightarrow> nat \<Rightarrow> (ParserError, nat) result" where
  "newBodyLoop data n lineIndex [] nextOffset = Inr nextOffset"
| "newBodyLoop data n lineIndex (line # lines) nextOffset =
     (let lineEnd = bl_endOffset line + bl_lineEndingWidth line in
      if bl_startOffset line \<noteq> nextOffset \<or> lineEnd > length data then Inl invariantError
      else if ContainsAny (slice data (bl_startOffset line) (bl_endOffset line)) [CR, LF]
      then Inl invariantError
      else if bl_lineEndingWidth line = 0 then
        (if Suc lineIndex \<noteq> n \<or> bl_endOffset line \<noteq> length data then Inl invariantError
         else newBodyLoop data n (Suc lineIndex) lines lineEnd)
      else if bl_lineEndingWidth line = length crlf then
        (if slice data (bl_endOffset line) lineEnd \<noteq> crlf then Inl invariantError
         else newBodyLoop data n (Suc lineIndex) lines lineEnd)
      else Inl invariantError)"

definition NewBody :: "bytes \<Rightarrow> BodyLine list \<Rightarrow> (ParserError, Body) result" where
  "NewBody data lines =
     res_bind (newBodyLoop data (length lines) 0 lines 0) (\<lambda>nextOffset.
       if 0 < length data \<and> nextOffset \<noteq> length data then Inl invariantError
       else Inr \<lparr>bd_bytes = data, bd_lines = lines, bd_initialized = True\<rparr>)"

function countBodyLinesLoop :: "bytes \<Rightarrow> int \<Rightarrow> nat \<Rightarrow> nat \<Rightarrow> nat \<times> nat \<times> bool" where
  "countBodyLinesLoop data maxLines lineCount lineStart =
     (if lineStart < length data then
        (if int lineCount \<ge> maxLines then (lineCount, lineStart, False)
         else (case Index (drop lineStart data) crlf of
                 None \<Rightarrow> (Suc lineCount, 0, True)
               | Some lineEndRel \<Rightarrow>
                   countBodyLinesLoop data maxLines (Suc lineCount) (lineStart + (lineEndRel + length crlf))))
      else (lineCount, 0, True))"
  by pat_completeness auto
termination
  by (relation "measure (\<lambda>(data, maxLines, lineCount, lineStart). length data - lineStart)") auto

definition countBodyLinesWithinLimit :: "bytes \<Rightarrow> int \<Rightarrow> nat \<times> nat \<times> bool" where
  "countBodyLinesWithinLimit data maxLines = countBodyLinesLoop data maxLines 0 0"

definition bodyLocation :: "nat \<Rightarrow> ErrorLocation" where
  "bodyLocation offset = \<lparr>loc_Offset = int offset, loc_Line = 0, loc_Column = 0\<rparr>"

function indexBodyLinesLoop ::
    "bytes \<Rightarrow> ParserOptions \<Rightarrow> nat \<Rightarrow> nat \<Rightarrow> nat \<Rightarrow> BodyLine list
       \<Rightarrow> (ParserError, BodyLine list) result" where
  "indexBodyLinesLoop data options bodyOffset lineIndex lineStart lines =
     (if lineStart < length data then
        (let (lineEnd, lineEndingWidth) =
               (case Index (drop lineStart data) crlf of
                  None \<Rightarrow> (length data, 0)
                | Some lineEndRel \<Rightarrow> (lineStart + lineEndRel, length crlf))
         in if int (lineEnd - lineStart) > MaxBodyLineBytes options
            then Inl (limitErrorAt (bodyLocation (bodyOffset + lineStart))
                        limitNameMaxBodyLineBytes (MaxBodyLineBytes options))
            else (case NewBodyLine (int lineIndex) (int lineStart) (int lineEnd) (int lineEndingWidth) of
                    Inl e \<Rightarrow> Inl e
                  | Inr line \<Rightarrow>
                      (if lineEndingWidth = 0 then Inr (lines @ [line])
                       else indexBodyLinesLoop data options bodyOffset (Suc lineIndex)
                              (lineEnd + lineEndingWidth) (lines @ [line]))))
      else Inr lines)"
  by pat_completeness auto
termination
  by (relation "measure (\<lambda>(data, options, bodyOffset, lineIndex, lineStart, lines). length data - lineStart)")
     (auto split: option.splits)

definition indexBodyLines ::
    "bytes \<Rightarrow> ParserOptions \<Rightarrow> nat \<Rightarrow> (ParserError, BodyLine list) result" where
  "indexBodyLines data options bodyOffset =
     (if data = [] then Inr []
      else (case countBodyLinesWithinLimit data (MaxBodyLines options) of
              (lineCount, overflowOffset, withinLimit) \<Rightarrow>
                (if \<not> withinLimit
                 then Inl (limitErrorAt (bodyLocation (bodyOffset + overflowOffset))
                             limitNameMaxBodyLines (MaxBodyLines options))
                 else indexBodyLinesLoop data options bodyOffset 0 0 [])))"

definition buildBody :: "bytes \<Rightarrow> ParserOptions \<Rightarrow> nat \<Rightarrow> (ParserError, Body) result" where
  "buildBody data options bodyOffset =
     res_bind (indexBodyLines data options bodyOffset) (\<lambda>lines.
       res_bind (NewBodyLineIndex lines) (\<lambda>index. NewBody data index))"

section \<open>Accessors\<close>

definition Body_Len :: "Body \<Rightarrow> nat" where
  "Body_Len b = length (bd_bytes b)"

definition Body_LineCount :: "Body \<Rightarrow> nat" where
  "Body_LineCount b = length (bd_lines b)"

definition Body_Equal :: "Body \<Rightarrow> Body \<Rightarrow> bool" where
  "Body_Equal b other \<longleftrightarrow> bd_initialized b \<and> bd_initialized other \<and> bd_bytes b = bd_bytes other"

definition lineEncoded :: "Body \<Rightarrow> BodyLine \<Rightarrow> bytes" where
  "lineEncoded b line =
     slice (bd_bytes b) (bl_startOffset line) (bl_endOffset line + bl_lineEndingWidth line)"

definition Body_LineBytes :: "Body \<Rightarrow> int \<Rightarrow> bytes option" where
  "Body_LineBytes b index =
     (if index < 0 \<or> index \<ge> int (length (bd_lines b)) then None
      else Some (lineEncoded b (bd_lines b ! nat index)))"

definition Body_LineEncodedLen :: "Body \<Rightarrow> int \<Rightarrow> nat option" where
  "Body_LineEncodedLen b index =
     (if index < 0 \<or> index \<ge> int (length (bd_lines b)) then None
      else (let line = bd_lines b ! nat index
            in Some (bl_endOffset line - bl_startOffset line + bl_lineEndingWidth line)))"

definition BodyLineIndex_Line :: "BodyLine list \<Rightarrow> int \<Rightarrow> BodyLine option" where
  "BodyLineIndex_Line lines index =
     (if index < 0 \<or> index \<ge> int (length lines) then None else Some (lines ! nat index))"

definition BodyLineView_EncodedLen :: "BodyLine \<Rightarrow> nat" where
  "BodyLineView_EncodedLen line =
     (if \<not> bl_valid line then 0
      else bl_endOffset line - bl_startOffset line + bl_lineEndingWidth line)"

definition BodyLineView_ContentLen :: "BodyLine \<Rightarrow> nat" where
  "BodyLineView_ContentLen line =
     (if \<not> bl_valid line then 0 else bl_endOffset line - bl_startOffset line)"

definition BodyLineView_Terminated :: "BodyLine \<Rightarrow> bool" where
  "BodyLineView_Terminated line \<longleftrightarrow> bl_valid line \<and> bl_lineEndingWidth line = length crlf"

definition BodyLineView_EncodedCopy :: "Body \<Rightarrow> BodyLine \<Rightarrow> bytes" where
  "BodyLineView_EncodedCopy b line = (if \<not> bl_valid line then [] else lineEncoded b line)"

definition VisitLines ::
    "(ParserError \<Rightarrow> 'e) \<Rightarrow> (BodyLine \<Rightarrow> 's \<Rightarrow> ('e, 's) result) option \<Rightarrow> Body \<Rightarrow> 's \<Rightarrow> ('e, 's) result" where
  "VisitLines wrap visit b s =
     (case visit of
        None \<Rightarrow> Inl (wrap invariantError)
      | Some f \<Rightarrow> if \<not> bd_initialized b then Inl (wrap invariantError)
                   else visitList f (bd_lines b) s)"

section \<open>The line index as a list of physical lines\<close>

declare countBodyLinesLoop.simps [simp del] indexBodyLinesLoop.simps [simp del]

text \<open>The span that the index records for one line starting at an offset.\<close>

definition line_span :: "nat \<Rightarrow> nat \<Rightarrow> bytes \<Rightarrow> BodyLine" where
  "line_span i s l = \<lparr>bl_index = i, bl_startOffset = s, bl_endOffset = s + length (content l),
     bl_lineEndingWidth = length l - length (content l), bl_valid = True\<rparr>"

fun line_spans :: "nat \<Rightarrow> nat \<Rightarrow> bytes list \<Rightarrow> BodyLine list" where
  "line_spans i s [] = []"
| "line_spans i s (l # ls) = line_span i s l # line_spans (Suc i) (s + length l) ls"

lemma length_line_spans [simp]: "length (line_spans i s ls) = length ls"
  by (induction ls arbitrary: i s) simp_all

lemma line_spans_nth_index:
  "j < length ls \<Longrightarrow> bl_index (line_spans i s ls ! j) = i + j \<and> bl_valid (line_spans i s ls ! j)"
  by (induction ls arbitrary: i s j) (auto simp: nth_Cons line_span_def split: nat.splits)

lemma countBodyLinesLoop_within:
  "snd (snd (countBodyLinesLoop (pre @ d) maxLines n (length pre))) \<longleftrightarrow>
     d = [] \<or> int (n + length (crlf_lines d)) \<le> maxLines"
proof (induction d arbitrary: pre n rule: crlf_induct)
  case Nil
  then show ?case by (subst countBodyLinesLoop.simps) simp
next
  case (plain x)
  then have "Index x crlf = None" by (simp add: no_crlf_def)
  with plain show ?case
    by (subst countBodyLinesLoop.simps) (auto simp: crlf_lines_plain)
next
  case (line x r)
  have ih: "snd (snd (countBodyLinesLoop (pre @ x @ crlf @ r) maxLines (Suc n)
      (length pre + (length x + 2)))) \<longleftrightarrow> r = [] \<or> int (Suc n + length (crlf_lines r)) \<le> maxLines"
    using line.IH [of "pre @ x @ crlf" "Suc n"] by (simp add: add.assoc)
  show ?case
    using ih line.hyps
    by (subst countBodyLinesLoop.simps) (auto simp: Index_crlf_line crlf_lines_line)
qed

lemma indexBodyLinesLoop_Inr_iff:
  "indexBodyLinesLoop (pre @ d) opts off i (length pre) acc = Inr lines \<longleftrightarrow>
     (\<forall>l \<in> set (crlf_lines d). int (length (content l)) \<le> MaxBodyLineBytes opts)
     \<and> lines = acc @ line_spans i (length pre) (crlf_lines d)"
proof (induction d arbitrary: pre i acc rule: crlf_induct)
  case Nil
  then show ?case by (subst indexBodyLinesLoop.simps) auto
next
  case (plain x)
  then have "Index x crlf = None" by (simp add: no_crlf_def)
  with plain show ?case
    by (subst indexBodyLinesLoop.simps)
       (auto simp: crlf_lines_plain content_plain NewBodyLine_def line_span_def)
next
  case (line x r)
  have ih: "indexBodyLinesLoop (pre @ x @ crlf @ r) opts off (Suc i) (length pre + length x + 2) acc' = Inr lines \<longleftrightarrow>
      (\<forall>l \<in> set (crlf_lines r). int (length (content l)) \<le> MaxBodyLineBytes opts)
      \<and> lines = acc' @ line_spans (Suc i) (length pre + length x + 2) (crlf_lines r)" for acc'
    using line.IH [of "pre @ x @ crlf" "Suc i" acc'] by (simp add: add.assoc)
  have span: "line_span i (length pre) (x @ crlf) = \<lparr>bl_index = i, bl_startOffset = length pre,
      bl_endOffset = length pre + length x, bl_lineEndingWidth = 2, bl_valid = True\<rparr>"
    by (simp add: line_span_def)
  show ?case
    using ih line.hyps span
    by (subst indexBodyLinesLoop.simps)
       (auto simp: Index_crlf_line crlf_lines_line NewBodyLine_def nat_add_distrib)
qed

lemma bodyLineIndexLoop_spans:
  "(\<forall>l \<in> set (butlast ls). terminated l) \<Longrightarrow>
     bodyLineIndexLoop (i + length ls) i (line_spans i s ls) s = None"
proof (induction ls arbitrary: i s)
  case Nil
  then show ?case by simp
next
  case (Cons l ls)
  have len: "length (content l) \<le> length l" by (simp add: content_def)
  have width: "ls \<noteq> [] \<Longrightarrow> bl_lineEndingWidth (line_span i s l) \<noteq> 0"
    using Cons.prems by (auto simp: line_span_def terminated_def HasSuffix_iff content_def)
  have "bodyLineIndexLoop (Suc i + length ls) (Suc i) (line_spans (Suc i) (s + length l) ls)
      (s + length l) = None"
    using Cons.prems by (intro Cons.IH) (auto split: if_splits)
  with len width show ?case by (cases ls) (auto simp: line_span_def)
qed

lemma crlf_lines_butlast_terminated: "\<forall>l \<in> set (butlast (crlf_lines d)). terminated l"
  by (induction d rule: crlf_induct) (auto simp: crlf_lines_plain crlf_lines_line)

lemma NewBodyLineIndex_spans:
  "NewBodyLineIndex (line_spans 0 0 (crlf_lines d)) = Inr (line_spans 0 0 (crlf_lines d))"
proof -
  have "bodyLineIndexLoop (0 + length (crlf_lines d)) 0 (line_spans 0 0 (crlf_lines d)) 0 = None"
    by (rule bodyLineIndexLoop_spans) (rule crlf_lines_butlast_terminated)
  then show ?thesis by (simp add: NewBodyLineIndex_def)
qed

lemma newBodyLoop_Inr_iff:
  "newBodyLoop (pre @ d) (i + length (crlf_lines d)) i (line_spans i (length pre) (crlf_lines d)) (length pre) = Inr n
     \<longleftrightarrow> (\<forall>l \<in> set (crlf_lines d). clean (content l)) \<and> n = length (pre @ d)"
proof (induction d arbitrary: pre i rule: crlf_induct)
  case Nil
  then show ?case by auto
next
  case (plain x)
  then show ?case
    by (auto simp: crlf_lines_plain content_plain line_span_def Let_def ContainsAny_CRLF clean_def slice_def)
next
  case (line x r)
  have ih: "newBodyLoop (pre @ x @ crlf @ r) (Suc (i + length (crlf_lines r))) (Suc i)
       (line_spans (Suc i) (length pre + length x + 2) (crlf_lines r)) (length pre + length x + 2) = Inr n
     \<longleftrightarrow> (\<forall>l \<in> set (crlf_lines r). clean (content l)) \<and> n = length pre + length x + 2 + length r"
    using line.IH [of "pre @ x @ crlf" "Suc i"] by (simp add: add.assoc)
  have sl: "slice (pre @ x @ crlf @ r) (length pre) (length pre + length x) = x"
    by (simp add: slice_def)
  have sl2: "slice (pre @ x @ crlf @ r) (length pre + length x) (length pre + length x + 2) = crlf"
    using slice_middle [of "pre @ x" crlf r] by simp
  show ?case
    using ih line.hyps sl sl2
    by (auto simp: crlf_lines_line line_span_def Let_def ContainsAny_CRLF clean_def add.assoc)
qed

text \<open>What \<open>buildBody\<close> accepts and the body it returns.\<close>

definition body_of :: "bytes \<Rightarrow> Body" where
  "body_of d = \<lparr>bd_bytes = d, bd_lines = line_spans 0 0 (crlf_lines d), bd_initialized = True\<rparr>"

definition body_ok :: "ParserOptions \<Rightarrow> bytes \<Rightarrow> bool" where
  "body_ok opts d \<longleftrightarrow>
     (d = [] \<or> int (length (crlf_lines d)) \<le> MaxBodyLines opts)
     \<and> (\<forall>l \<in> set (crlf_lines d). clean (content l) \<and> int (length (content l)) \<le> MaxBodyLineBytes opts)"

lemma indexBodyLines_Inr_iff:
  "indexBodyLines d opts off = Inr lines \<longleftrightarrow>
     (d = [] \<or> int (length (crlf_lines d)) \<le> MaxBodyLines opts)
     \<and> (\<forall>l \<in> set (crlf_lines d). int (length (content l)) \<le> MaxBodyLineBytes opts)
     \<and> lines = line_spans 0 0 (crlf_lines d)"
  using countBodyLinesLoop_within [of "[]" d "MaxBodyLines opts" 0]
    indexBodyLinesLoop_Inr_iff [of "[]" d opts off 0 "[]" lines]
  by (auto simp: indexBodyLines_def countBodyLinesWithinLimit_def split: prod.splits if_splits)

lemma NewBody_spans_Inr_iff:
  "NewBody d (line_spans 0 0 (crlf_lines d)) = Inr b \<longleftrightarrow>
     (\<forall>l \<in> set (crlf_lines d). clean (content l)) \<and> b = body_of d"
  using newBodyLoop_Inr_iff [of "[]" d 0]
  by (auto simp: NewBody_def body_of_def res_bind_Inr_iff)

lemma buildBody_Inr_iff: "buildBody d opts off = Inr b \<longleftrightarrow> body_ok opts d \<and> b = body_of d"
  by (auto simp: buildBody_def body_ok_def res_bind_Inr_iff indexBodyLines_Inr_iff
      NewBodyLineIndex_spans NewBody_spans_Inr_iff)

section \<open>Invariant of constructed bodies\<close>

definition body_inv :: "Body \<Rightarrow> bool" where
  "body_inv b \<longleftrightarrow> b = body_of (bd_bytes b) \<and> (\<forall>l \<in> set (crlf_lines (bd_bytes b)). clean (content l))"

lemma buildBody_inv: "buildBody d opts off = Inr b \<Longrightarrow> body_inv b \<and> bd_bytes b = d"
  by (auto simp: buildBody_Inr_iff body_inv_def body_ok_def body_of_def)

lemma body_inv_NewBody: "body_inv b \<Longrightarrow> NewBody (bd_bytes b) (bd_lines b) = Inr b"
  unfolding body_inv_def by (metis Body.select_convs(2) NewBody_spans_Inr_iff body_of_def)

lemma lineEncoded_spans:
  "map (\<lambda>line. slice (pre @ concat ls) (bl_startOffset line) (bl_endOffset line + bl_lineEndingWidth line))
       (line_spans i (length pre) ls) = ls"
proof (induction ls arbitrary: pre i)
  case (Cons l ls)
  have "length (content l) \<le> length l" by (simp add: content_def)
  with Cons.IH [of "pre @ l" "Suc i"] show ?case
    by (simp add: line_span_def slice_def)
qed simp

lemma lineEncoded_lines: "body_inv b \<Longrightarrow> map (lineEncoded b) (bd_lines b) = crlf_lines (bd_bytes b)"
  using lineEncoded_spans [of "[]" "crlf_lines (bd_bytes b)" 0]
  by (simp add: lineEncoded_def [abs_def] body_inv_def body_of_def) (metis Body.select_convs(2))

end
