(* ===== verification/Rawmsg_Message.thy ===== *)
theory Rawmsg_Message
  imports Rawmsg_Body
begin

text \<open>
  Whole messages of package \<open>internal/rawmsg\<close> (\<open>message.go\<close>): the validating constructor, the
  framing of the header/body separator, and the message invariant every constructor establishes.
\<close>

section \<open>Messages\<close>

text \<open>\<open>MessageFramingUnset\<close> is the empty string, the framing of an uninitialised message.\<close>

datatype MessageFraming =
    MessageFramingUnset
  | MessageFramingHeaderOnly
  | MessageFramingDelimited

definition MessageFraming_Known :: "MessageFraming \<Rightarrow> bool" where
  "MessageFraming_Known f \<longleftrightarrow> f = MessageFramingHeaderOnly \<or> f = MessageFramingDelimited"

record Message =
  msg_rawBytes :: bytes
  msg_headers :: HeaderBlock
  msg_body :: Body
  msg_metadata :: ParserMetadata

definition matchesMessageComponents :: "bytes \<Rightarrow> bytes \<Rightarrow> bytes \<Rightarrow> bool" where
  "matchesMessageComponents rawBytes headerBytes bodyBytes =
     (if bodyBytes = [] \<and> rawBytes = headerBytes then True
      else if length rawBytes \<noteq> length headerBytes + length crlf + length bodyBytes
              \<or> take (length headerBytes) rawBytes \<noteq> headerBytes then False
      else slice rawBytes (length headerBytes) (length headerBytes + length crlf) = crlf
           \<and> drop (length headerBytes + length crlf) rawBytes = bodyBytes)"

definition NewMessage ::
    "bytes \<Rightarrow> HeaderBlock \<Rightarrow> Body \<Rightarrow> ParserMetadata \<Rightarrow> (ParserError, Message) result" where
  "NewMessage rawBytes headers body metadata =
     (if rawBytes = [] then Inl invariantError
      else if \<not> hb_initialized headers \<or> \<not> bd_initialized body then Inl invariantError
      else res_bind (NewHeaderBlock (hb_fields headers) (hb_originalBytes headers)) (\<lambda>validatedHeaders.
        res_bind (NewBody (bd_bytes body) (bd_lines body)) (\<lambda>validatedBody.
          if \<not> matchesMessageComponents rawBytes (hb_originalBytes validatedHeaders) (bd_bytes validatedBody)
          then Inl invariantError
          else if md_LineEndingPolicy metadata \<noteq> LineEndingPolicyStrictCRLF
               \<or> md_NormalizedInput metadata
               \<or> md_OriginalBytes metadata \<noteq> int (length rawBytes)
               \<or> md_StoredBytes metadata \<noteq> int (length rawBytes)
               \<or> md_HeaderBytes metadata \<noteq> int (length (hb_originalBytes validatedHeaders))
               \<or> md_HeaderFields metadata \<noteq> int (HeaderBlock_Len validatedHeaders)
               \<or> md_BodyBytes metadata \<noteq> int (Body_Len validatedBody)
          then Inl invariantError
          else Inr \<lparr>msg_rawBytes = rawBytes, msg_headers = validatedHeaders,
                    msg_body = validatedBody, msg_metadata = metadata\<rparr>)))"

definition Message_Initialized :: "Message \<Rightarrow> bool" where
  "Message_Initialized m \<longleftrightarrow>
     0 < length (msg_rawBytes m) \<and> hb_initialized (msg_headers m) \<and> bd_initialized (msg_body m)"

definition Message_Framing :: "Message \<Rightarrow> MessageFraming" where
  "Message_Framing m =
     (if \<not> Message_Initialized m then MessageFramingUnset
      else if bd_bytes (msg_body m) = [] \<and> msg_rawBytes m = hb_originalBytes (msg_headers m)
      then MessageFramingHeaderOnly
      else MessageFramingDelimited)"

section \<open>Framed octets and the message invariant\<close>

text \<open>The raw octets of components under a framing.\<close>

definition frame :: "MessageFraming \<Rightarrow> bytes \<Rightarrow> bytes \<Rightarrow> bytes" where
  "frame f headerBytes bodyBytes =
     (if f = MessageFramingHeaderOnly then headerBytes else headerBytes @ crlf @ bodyBytes)"

lemma matchesMessageComponents_iff:
  "matchesMessageComponents raw h b \<longleftrightarrow> b = [] \<and> raw = h \<or> raw = h @ crlf @ b"
proof -
  have "length raw = length h + 2 + length b \<and> take (length h) raw = h
      \<and> slice raw (length h) (length h + 2) = crlf \<and> drop (length h + 2) raw = b
      \<longleftrightarrow> raw = h @ crlf @ b" (is "?l \<longleftrightarrow> ?r")
  proof
    assume l: ?l
    have "raw = take (length h) raw @ slice raw (length h) (length h + 2) @ drop (length h + 2) raw"
      by (simp add: take_slice_drop)
    with l show ?r by metis
  next
    assume r: ?r
    then show ?l using slice_middle [of h crlf b] by simp
  qed
  then show ?thesis by (auto simp: matchesMessageComponents_def)
qed

definition metadata_of :: "bytes \<Rightarrow> HeaderBlock \<Rightarrow> Body \<Rightarrow> ParserMetadata" where
  "metadata_of raw h b = NewParserMetadata LineEndingPolicyStrictCRLF False (int (length raw))
     (int (length raw)) (int (length (hb_originalBytes h))) (int (HeaderBlock_Len h)) (int (Body_Len b))"

definition message_inv :: "Message \<Rightarrow> bool" where
  "message_inv m \<longleftrightarrow>
     msg_rawBytes m \<noteq> [] \<and> header_block_inv (msg_headers m) \<and> body_inv (msg_body m)
     \<and> (bd_bytes (msg_body m) = [] \<and> msg_rawBytes m = hb_originalBytes (msg_headers m)
        \<or> msg_rawBytes m = hb_originalBytes (msg_headers m) @ crlf @ bd_bytes (msg_body m))
     \<and> msg_metadata m = metadata_of (msg_rawBytes m) (msg_headers m) (msg_body m)"

lemma header_block_inv_initialized [simp]: "header_block_inv h \<Longrightarrow> hb_initialized h"
  by (simp add: header_block_inv_def)

lemma body_inv_initialized [simp]: "body_inv b \<Longrightarrow> bd_initialized b"
  unfolding body_inv_def body_of_def by (metis Body.select_convs(3))

lemma message_inv_initialized: "message_inv m \<Longrightarrow> Message_Initialized m"
  by (simp add: message_inv_def Message_Initialized_def)

lemma message_inv_frame:
  "message_inv m \<Longrightarrow>
     msg_rawBytes m = frame (Message_Framing m) (hb_originalBytes (msg_headers m)) (bd_bytes (msg_body m))"
  by (auto simp: message_inv_def Message_Framing_def frame_def message_inv_initialized
      Message_Initialized_def)

text \<open>Validated components never fail the final constructor.\<close>

lemma NewMessage_components:
  assumes "header_block_inv h" "body_inv b" "raw \<noteq> []"
    and "b' = [] \<and> raw = hb_originalBytes h \<or> raw = hb_originalBytes h @ crlf @ b'"
    and "b' = bd_bytes b"
  shows "NewMessage raw h b (metadata_of raw h b)
     = Inr \<lparr>msg_rawBytes = raw, msg_headers = h, msg_body = b, msg_metadata = metadata_of raw h b\<rparr>"
proof -
  have "matchesMessageComponents raw (hb_originalBytes h) (bd_bytes b)"
    using assms by (simp add: matchesMessageComponents_iff)
  with assms show ?thesis
    by (simp add: NewMessage_def header_block_inv_NewHeaderBlock body_inv_NewBody
        metadata_of_def NewParserMetadata_def)
qed

lemma NewMessage_inv:
  assumes "NewMessage raw h b md = Inr m" "header_block_inv h" "body_inv b"
  shows "message_inv m \<and> msg_rawBytes m = raw \<and> msg_headers m = h \<and> msg_body m = b"
proof -
  from assms have m: "m = \<lparr>msg_rawBytes = raw, msg_headers = h, msg_body = b, msg_metadata = md\<rparr>"
    and raw: "raw \<noteq> []" and frame: "bd_bytes b = [] \<and> raw = hb_originalBytes h \<or>
      raw = hb_originalBytes h @ crlf @ bd_bytes b"
    and md: "md = metadata_of raw h b"
    by (auto simp: NewMessage_def res_bind_Inr_iff header_block_inv_NewHeaderBlock body_inv_NewBody
        matchesMessageComponents_iff metadata_of_def NewParserMetadata_def)
  with assms show ?thesis by (auto simp: message_inv_def)
qed

end
