(* ===== verification/Rawmsg_Parser.thy ===== *)
theory Rawmsg_Parser
  imports Rawmsg_Message
begin

text \<open>
  The strict RFC 5322 parser of package \<open>internal/rawmsg\<close> (\<open>parser.go\<close>). The definitions keep the
  offsets, line numbers and check order of the source; the sections below prove them equivalent
  to a declarative grammar: a header block is a concatenation of well-formed fields, a message is
  a header block, an optional separator and a body of clean lines.
\<close>

section \<open>Line-ending policy\<close>

record LineScan =
  ls_sawCRLF :: bool
  ls_sawBareLF :: bool
  ls_sawBareCR :: bool
  ls_firstBareLF :: ErrorLocation
  ls_firstBareCR :: ErrorLocation
  ls_line :: int
  ls_column :: int

definition initialLineScan :: LineScan where
  "initialLineScan = \<lparr>ls_sawCRLF = False, ls_sawBareLF = False, ls_sawBareCR = False,
     ls_firstBareLF = zeroLocation, ls_firstBareCR = zeroLocation, ls_line = 1, ls_column = 1\<rparr>"

definition scanLocation :: "int \<Rightarrow> LineScan \<Rightarrow> ErrorLocation" where
  "scanLocation offset s = \<lparr>loc_Offset = offset, loc_Line = ls_line s, loc_Column = ls_column s\<rparr>"

definition scanCRLF :: "LineScan \<Rightarrow> LineScan" where
  "scanCRLF s = s\<lparr>ls_sawCRLF := True, ls_line := ls_line s + 1, ls_column := 1\<rparr>"

definition scanBareCR :: "int \<Rightarrow> LineScan \<Rightarrow> LineScan" where
  "scanBareCR offset s =
     s\<lparr>ls_firstBareCR := (if ls_sawBareCR s then ls_firstBareCR s else scanLocation offset s),
       ls_sawBareCR := True, ls_column := ls_column s + 1\<rparr>"

definition scanBareLF :: "int \<Rightarrow> LineScan \<Rightarrow> LineScan" where
  "scanBareLF offset s =
     s\<lparr>ls_firstBareLF := (if ls_sawBareLF s then ls_firstBareLF s else scanLocation offset s),
       ls_sawBareLF := True, ls_line := ls_line s + 1, ls_column := 1\<rparr>"

fun scanLineEndings :: "bytes \<Rightarrow> int \<Rightarrow> LineScan \<Rightarrow> LineScan" where
  "scanLineEndings [] offset s = s"
| "scanLineEndings (b # rest) offset s =
     (if b = CR then
        (case rest of
           [] \<Rightarrow> scanBareCR offset s
         | c # rest' \<Rightarrow>
             (if c = LF then scanLineEndings rest' (offset + 2) (scanCRLF s)
              else scanLineEndings rest (offset + 1) (scanBareCR offset s)))
      else if b = LF then scanLineEndings rest (offset + 1) (scanBareLF offset s)
      else scanLineEndings rest (offset + 1) (s\<lparr>ls_column := ls_column s + 1\<rparr>))"

definition firstLineEndingLocation :: "ErrorLocation \<Rightarrow> ErrorLocation \<Rightarrow> ErrorLocation" where
  "firstLineEndingLocation lf cr =
     (if lf = zeroLocation then cr
      else if cr = zeroLocation then lf
      else if loc_Offset lf < loc_Offset cr then lf
      else cr)"

definition enforceStrictCRLF :: "bytes \<Rightarrow> ParserOptions \<Rightarrow> ParserError option" where
  "enforceStrictCRLF data options =
     (let s = scanLineEndings data 0 initialLineScan in
      if (ls_sawBareLF s \<or> ls_sawBareCR s) \<and> (ls_sawCRLF s \<or> ls_sawBareLF s \<and> ls_sawBareCR s)
      then Some (NewParserError ErrorCodeMixedLineEndings
                   (firstLineEndingLocation (ls_firstBareLF s) (ls_firstBareCR s))
                   (policyDetails (LineEnding options)))
      else if ls_sawBareLF s
      then Some (NewParserError ErrorCodeBareLF (ls_firstBareLF s) (policyDetails (LineEnding options)))
      else if ls_sawBareCR s
      then Some (NewParserError ErrorCodeBareCR (ls_firstBareCR s) (policyDetails (LineEnding options)))
      else None)"

section \<open>Header blocks\<close>

definition buildHeaderField ::
    "nat \<Rightarrow> bytes \<Rightarrow> nat \<Rightarrow> nat \<Rightarrow> ParserOptions \<Rightarrow> (ParserError, HeaderField) result" where
  "buildHeaderField index headerBytes start end' options =
     (if end' \<le> start \<or> int (end' - start) > MaxHeaderFieldBytes options
      then Inl (limitErrorAt \<lparr>loc_Offset = int start, loc_Line = 0, loc_Column = 0\<rparr>
                  limitNameMaxHeaderFieldBytes (MaxHeaderFieldBytes options))
      else
        (let original = slice headerBytes start end' in
         case Index original crlf of
           None \<Rightarrow> Inl (malformedHeaderError (int start) 0 0)
         | Some lineEnd \<Rightarrow>
             (let firstLine = take lineEnd original in
              case IndexByte firstLine CHR '':'' of
                None \<Rightarrow> Inl (malformedHeaderError (int start) 0 1)
              | Some colon \<Rightarrow>
                  (let rawName = take colon firstLine in
                   case invalidHeaderFieldNameOffset rawName of
                     Some invalidOffset \<Rightarrow>
                       Inl (malformedHeaderError (int (start + invalidOffset)) 0 (int invalidOffset + 1))
                   | None \<Rightarrow>
                       (let rawValue = slice original (colon + 1) (length original - length crlf)
                        in NewHeaderField (int index) rawName rawValue (unfoldHeaderValue rawValue) original)))))"

definition headerLocation :: "nat \<Rightarrow> nat \<Rightarrow> ErrorLocation" where
  "headerLocation offset line = \<lparr>loc_Offset = int offset, loc_Line = int line, loc_Column = 1\<rparr>"

text \<open>
  The line loop of \<open>parseHeaderBlock\<close>. \<open>currentStart\<close> is \<open>None\<close> for Go's \<open>-1\<close>. The result is the
  loop state at the end of the input.
\<close>

function parseHeaderLoop ::
    "bytes \<Rightarrow> ParserOptions \<Rightarrow> HeaderField list \<Rightarrow> nat option \<Rightarrow> nat \<Rightarrow> nat \<Rightarrow> nat
       \<Rightarrow> (ParserError, HeaderField list \<times> nat option \<times> nat \<times> nat) result" where
  "parseHeaderLoop headerBytes options fs currentStart currentEnd lineStart lineNumber =
     (if lineStart < length headerBytes then
        (case Index (drop lineStart headerBytes) crlf of
           None \<Rightarrow> Inl (malformedHeaderError (int lineStart) (int lineNumber) 1)
         | Some lineEndRel \<Rightarrow>
             (let lineEnd = lineStart + lineEndRel;
                  line = slice headerBytes lineStart lineEnd;
                  next = lineEnd + length crlf in
              if int (length line) > MaxHeaderLineBytes options
              then Inl (limitErrorAt (headerLocation lineStart lineNumber)
                          limitNameMaxHeaderLineBytes (MaxHeaderLineBytes options))
              else if line = [] then Inl (malformedHeaderError (int lineStart) (int lineNumber) 1)
              else if isWSP (hd line) then
                (case currentStart of
                   None \<Rightarrow> Inl (malformedHeaderError (int lineStart) (int lineNumber) 1)
                 | Some start \<Rightarrow>
                     parseHeaderLoop headerBytes options fs currentStart next next (Suc lineNumber))
              else
                (case currentStart of
                   None \<Rightarrow>
                     parseHeaderLoop headerBytes options fs (Some lineStart) next next (Suc lineNumber)
                 | Some start \<Rightarrow>
                     (case buildHeaderField (length fs) headerBytes start currentEnd options of
                        Inl e \<Rightarrow> Inl e
                      | Inr field \<Rightarrow>
                          (if int (length (fs @ [field])) > MaxHeaderFields options
                           then Inl (limitErrorAt (headerLocation lineStart lineNumber)
                                       limitNameMaxHeaderFields (MaxHeaderFields options))
                           else parseHeaderLoop headerBytes options (fs @ [field]) (Some lineStart)
                                  next next (Suc lineNumber))))))
      else Inr (fs, currentStart, currentEnd, lineNumber))"
  by pat_completeness auto
termination
  by (relation "measure (\<lambda>(hb, options, fs, cs, ce, lineStart, n). length hb - lineStart)") auto

definition finishHeaderBlock ::
    "bytes \<Rightarrow> ParserOptions \<Rightarrow> HeaderField list \<times> nat option \<times> nat \<times> nat
       \<Rightarrow> (ParserError, HeaderField list) result" where
  "finishHeaderBlock headerBytes options st =
     (case st of (fs, currentStart, currentEnd, lineNumber) \<Rightarrow>
        (case currentStart of
           None \<Rightarrow> Inl (malformedHeaderError 0 1 1)
         | Some start \<Rightarrow>
             res_bind (buildHeaderField (length fs) headerBytes start currentEnd options) (\<lambda>field.
               if int (length (fs @ [field])) > MaxHeaderFields options
               then Inl (limitErrorAt (headerLocation start lineNumber)
                           ''max_header_fields'' (MaxHeaderFields options))
               else Inr (fs @ [field]))))"

definition parseHeaderBlock :: "bytes \<Rightarrow> ParserOptions \<Rightarrow> (ParserError, HeaderBlock) result" where
  "parseHeaderBlock headerBytes options =
     (if headerBytes = [] then Inl (malformedHeaderError 0 1 1)
      else res_bind (parseHeaderLoop headerBytes options [] None 0 0 1) (\<lambda>st.
             res_bind (finishHeaderBlock headerBytes options st) (\<lambda>fs.
               NewHeaderBlock fs headerBytes)))"

section \<open>Messages\<close>

definition strictHeaderBodyDelimiter :: bytes where
  "strictHeaderBodyDelimiter = crlf @ crlf"

definition splitHeaderBody ::
    "bytes \<Rightarrow> ParserOptions \<Rightarrow> (ParserError, bytes \<times> bytes \<times> nat) result" where
  "splitHeaderBody data options =
     (case Index data strictHeaderBodyDelimiter of
        Some delimiterOffset \<Rightarrow>
          Inr (take (delimiterOffset + length crlf) data,
               drop (delimiterOffset + length strictHeaderBodyDelimiter) data,
               delimiterOffset + length strictHeaderBodyDelimiter)
      | None \<Rightarrow>
          (if \<not> HasSuffix data crlf
           then Inl (NewParserError ErrorCodeMissingDelimiter zeroLocation
                       (policyDetails (LineEnding options)))
           else Inr (data, [], length strictHeaderBodyDelimiter - 1)))"

definition ParseWithOptions :: "bytes \<Rightarrow> ParserOptions \<Rightarrow> (ParserError, Message) result" where
  "ParseWithOptions data options =
     res_check (ParserOptions_Validate options)
      (if LineEnding options \<noteq> LineEndingPolicyStrictCRLF
       then Inl (unsupportedPolicyError (LineEnding options))
       else if int (length data) > MaxMessageBytes options
       then Inl (limitErrorAt zeroLocation limitNameMaxMessageBytes (MaxMessageBytes options))
       else res_check (enforceStrictCRLF data options)
        (res_bind (splitHeaderBody data options) (\<lambda>(headerBytes, bodyBytes, bodyOffset).
           if headerBytes = [] then Inl (malformedHeaderError 0 1 1)
           else if int (length headerBytes) > MaxHeaderBytes options
           then Inl (limitErrorAt zeroLocation limitNameMaxHeaderBytes (MaxHeaderBytes options))
           else res_bind (parseHeaderBlock headerBytes options) (\<lambda>headers.
                  res_bind (buildBody bodyBytes options bodyOffset) (\<lambda>body.
                    NewMessage data headers body
                      (NewParserMetadata (LineEnding options) False (int (length data))
                         (int (length data)) (int (length headerBytes))
                         (int (HeaderBlock_Len headers)) (int (length bodyBytes))))))))"

definition Parse :: "bytes \<Rightarrow> (ParserError, Message) result" where
  "Parse data = ParseWithOptions data DefaultParserOptions"

declare parseHeaderLoop.simps [simp del]

end
