(* ===== verification/Rawmsg_Grammar.thy ===== *)
theory Rawmsg_Grammar
  imports Rawmsg_Parser
begin

text \<open>
  Correctness of the raw-message parser: the line-ending policy, the header-block grammar and the
  message grammar as equivalences with declarative specifications, for success and for errors.
\<close>

section \<open>Strict CRLF\<close>

text \<open>
  A bare CR is one not directly followed by LF, a bare LF one not directly preceded by CR; a text
  is strict when it has neither.
\<close>

definition bare_CR :: "bytes \<Rightarrow> bool" where
  "bare_CR d \<longleftrightarrow> (\<exists>a r. d = a @ CR # r \<and> (\<nexists>r'. r = LF # r'))"

definition bare_LF :: "bytes \<Rightarrow> bool" where
  "bare_LF d \<longleftrightarrow> (\<exists>a r. d = a @ LF # r \<and> (\<nexists>a'. a = a' @ [CR]))"

definition strict_crlf :: "bytes \<Rightarrow> bool" where
  "strict_crlf d \<longleftrightarrow> \<not> bare_CR d \<and> \<not> bare_LF d"

declare scanLineEndings.simps(2) [simp del]

lemma scan_induct [case_names Nil CRLF CR LF other]:
  assumes "P []"
    and "\<And>r. P r \<Longrightarrow> P (CR # LF # r)"
    and "\<And>r. \<nexists>r'. r = LF # r' \<Longrightarrow> P r \<Longrightarrow> P (CR # r)"
    and "\<And>r. P r \<Longrightarrow> P (LF # r)"
    and "\<And>b r. b \<noteq> CR \<Longrightarrow> b \<noteq> LF \<Longrightarrow> P r \<Longrightarrow> P (b # r)"
  shows "P d"
proof (induction d rule: length_induct)
  case (1 d)
  show ?case
  proof (cases d)
    case Nil
    then show ?thesis using assms(1) by simp
  next
    case (Cons b r)
    consider (crlf) r' where "b = CR" "r = LF # r'" | (cr) "b = CR" "\<nexists>r'. r = LF # r'"
      | (lf) "b = LF" | (other) "b \<noteq> CR" "b \<noteq> LF" by blast
    then show ?thesis using Cons "1.IH" assms by cases auto
  qed
qed

lemma scanLineEndings_step:
  "scanLineEndings (CR # LF # r) k s = scanLineEndings r (k + 2) (scanCRLF s)"
  "\<nexists>r'. r = LF # r' \<Longrightarrow> scanLineEndings (CR # r) k s = scanLineEndings r (k + 1) (scanBareCR k s)"
  "scanLineEndings (LF # r) k s = scanLineEndings r (k + 1) (scanBareLF k s)"
  "b \<noteq> CR \<Longrightarrow> b \<noteq> LF \<Longrightarrow>
     scanLineEndings (b # r) k s = scanLineEndings r (k + 1) (s\<lparr>ls_column := ls_column s + 1\<rparr>)"
  by (simp_all add: scanLineEndings.simps(2) split: list.split)

lemma bare_CR_Nil [simp]: "\<not> bare_CR []"
  by (simp add: bare_CR_def)

lemma bare_CR_Cons [simp]: "bare_CR (b # r) \<longleftrightarrow> b = CR \<and> (\<nexists>r'. r = LF # r') \<or> bare_CR r"
  unfolding bare_CR_def by (subst Cons_eq_append_conv) blast

text \<open>A bare LF of a text that follows another octet, which may be CR.\<close>

definition bare_LF_after :: "bool \<Rightarrow> bytes \<Rightarrow> bool" where
  "bare_LF_after cr d \<longleftrightarrow> (\<exists>a r. d = a @ LF # r \<and> \<not> (a = [] \<and> cr) \<and> (\<nexists>a'. a = a' @ [CR]))"

lemma bare_LF_after_Nil [simp]: "\<not> bare_LF_after cr []"
  by (simp add: bare_LF_after_def)

lemma bare_LF_after_Cons [simp]:
  "bare_LF_after cr (b # r) \<longleftrightarrow> b = LF \<and> \<not> cr \<or> bare_LF_after (b = CR) r"
proof
  assume "bare_LF_after cr (b # r)"
  then obtain a t where a: "b # r = a @ LF # t" "\<not> (a = [] \<and> cr)" "\<nexists>a'. a = a' @ [CR]"
    by (auto simp: bare_LF_after_def)
  show "b = LF \<and> \<not> cr \<or> bare_LF_after (b = CR) r"
  proof (cases a)
    case Nil
    with a show ?thesis by simp
  next
    case (Cons c a')
    with a have "r = a' @ LF # t" "\<not> (a' = [] \<and> b = CR)" "\<nexists>a''. a' = a'' @ [CR]" by auto
    then show ?thesis unfolding bare_LF_after_def by blast
  qed
next
  assume "b = LF \<and> \<not> cr \<or> bare_LF_after (b = CR) r"
  then show "bare_LF_after cr (b # r)"
  proof
    assume "b = LF \<and> \<not> cr"
    then have "b # r = [] @ LF # r \<and> \<not> ([] = ([]::bytes) \<and> cr) \<and> (\<nexists>a'. [] = a' @ [CR])" by simp
    then show ?thesis unfolding bare_LF_after_def by blast
  next
    assume "bare_LF_after (b = CR) r"
    then obtain a t where a: "r = a @ LF # t" "\<not> (a = [] \<and> b = CR)" "\<nexists>a'. a = a' @ [CR]"
      by (auto simp: bare_LF_after_def)
    then have "b # r = (b # a) @ LF # t \<and> \<not> (b # a = [] \<and> cr) \<and> (\<nexists>a'. b # a = a' @ [CR])"
      by (auto simp: Cons_eq_append_conv)
    then show ?thesis unfolding bare_LF_after_def by blast
  qed
qed

lemma bare_LF_after_False: "bare_LF d = bare_LF_after False d"
  by (simp add: bare_LF_def bare_LF_after_def)

lemma bare_LF_after_no_LF: "\<nexists>r'. d = LF # r' \<Longrightarrow> bare_LF_after cr d = bare_LF_after False d"
  by (cases d) auto

lemma no_crlf_Cons: "no_crlf (b # r) \<longleftrightarrow> \<not> (b = CR \<and> (\<exists>r'. r = LF # r')) \<and> no_crlf r"
  by (auto simp: no_crlf_def HasPrefix_iff crlf_def)

lemma scanLineEndings_sawBareCR:
  "ls_sawBareCR (scanLineEndings d k s) \<longleftrightarrow> ls_sawBareCR s \<or> bare_CR d"
  by (induction d arbitrary: k s rule: scan_induct)
     (simp_all add: scanLineEndings_step scanCRLF_def scanBareCR_def scanBareLF_def)

lemma scanLineEndings_sawBareLF:
  "ls_sawBareLF (scanLineEndings d k s) \<longleftrightarrow> ls_sawBareLF s \<or> bare_LF d"
  unfolding bare_LF_after_False
  by (induction d arbitrary: k s rule: scan_induct)
     (simp_all add: scanLineEndings_step scanCRLF_def scanBareCR_def scanBareLF_def
       bare_LF_after_no_LF [where cr = True])

lemma scanLineEndings_sawCRLF:
  "ls_sawCRLF (scanLineEndings d k s) \<longleftrightarrow> ls_sawCRLF s \<or> \<not> no_crlf d"
  by (induction d arbitrary: k s rule: scan_induct)
     (simp_all add: scanLineEndings_step scanCRLF_def scanBareCR_def scanBareLF_def no_crlf_Cons)

lemmas scanLineEndings_saw =
  scanLineEndings_sawBareCR scanLineEndings_sawBareLF scanLineEndings_sawCRLF

lemma enforceStrictCRLF_None_iff: "enforceStrictCRLF d o' = None \<longleftrightarrow> strict_crlf d"
  by (auto simp: enforceStrictCRLF_def Let_def scanLineEndings_saw initialLineScan_def strict_crlf_def)

lemma enforceStrictCRLF_code:
  "map_option pe_code (enforceStrictCRLF d o') =
     (if (bare_LF d \<or> bare_CR d) \<and> (\<not> no_crlf d \<or> bare_LF d \<and> bare_CR d)
      then Some ErrorCodeMixedLineEndings
      else if bare_LF d then Some ErrorCodeBareLF
      else if bare_CR d then Some ErrorCodeBareCR
      else None)"
  by (auto simp: enforceStrictCRLF_def Let_def scanLineEndings_saw initialLineScan_def)

text \<open>A text is strict exactly when the content of each of its lines is free of CR and LF.\<close>

lemma strict_crlf_plain: "no_crlf x \<Longrightarrow> strict_crlf x \<longleftrightarrow> clean x"
proof -
  assume "no_crlf x"
  then have "bare_CR x \<longleftrightarrow> CR \<in> set x" and "CR \<notin> set x \<Longrightarrow> bare_LF_after False x \<longleftrightarrow> LF \<in> set x"
    by (induction x) (auto simp: no_crlf_Cons)
  then show ?thesis by (auto simp: strict_crlf_def clean_def bare_LF_after_False)
qed

lemma strict_crlf_line: "no_crlf x \<Longrightarrow> strict_crlf (x @ crlf @ r) \<longleftrightarrow> clean x \<and> strict_crlf r"
proof -
  assume "no_crlf x"
  then have "bare_CR (x @ crlf @ r) \<longleftrightarrow> CR \<in> set x \<or> bare_CR r"
    and "CR \<notin> set x \<Longrightarrow> bare_LF_after False (x @ crlf @ r) \<longleftrightarrow> LF \<in> set x \<or> bare_LF_after False r"
    by (induction x) (auto simp: no_crlf_Cons crlf_def append_eq_Cons_conv)
  then show ?thesis by (auto simp: strict_crlf_def clean_def bare_LF_after_False)
qed

lemma strict_crlf_lines: "strict_crlf d \<longleftrightarrow> (\<forall>l \<in> set (crlf_lines d). clean (content l))"
proof (induction d rule: crlf_induct)
  case Nil
  then show ?case by (simp add: strict_crlf_plain)
next
  case (plain x)
  then show ?case by (simp add: strict_crlf_plain crlf_lines_plain content_plain)
next
  case (line x r)
  then show ?case by (simp add: strict_crlf_line crlf_lines_line)
qed

section \<open>One header field\<close>

text \<open>The physical lines of a folded value.\<close>

lemma validHeaderFieldValue_cases:
  assumes "validHeaderFieldValue v"
  obtains (plain) "clean v"
    | (fold) u b r where "v = u @ crlf @ b # r" "clean u" "isWSP b" "validHeaderFieldValue r"
proof -
  have "clean v \<or> (\<exists>u b r. v = u @ crlf @ b # r \<and> clean u \<and> isWSP b \<and> validHeaderFieldValue r)"
    using assms
  proof (induction v)
    case (Cons c v)
    show ?case
    proof (cases "c = CR")
      case True
      with Cons.prems obtain d r where "v = LF # d # r" "isWSP d" "validHeaderFieldValue r"
        by (auto simp: validHeaderFieldValue_step)
      with True have "c # v = [] @ crlf @ d # r" by (simp add: crlf_def)
      with \<open>isWSP d\<close> \<open>validHeaderFieldValue r\<close> show ?thesis by (metis clean_Nil)
    next
      case False
      with Cons.prems have lf: "c \<noteq> LF" and v: "validHeaderFieldValue v"
        using validHeaderFieldValue_step by metis+
      from Cons.IH [OF v] show ?thesis
      proof
        assume "clean v"
        with False lf show ?thesis by simp
      next
        assume "\<exists>u b r. v = u @ crlf @ b # r \<and> clean u \<and> isWSP b \<and> validHeaderFieldValue r"
        then obtain u b r where *: "v = u @ crlf @ b # r" "clean u" "isWSP b" "validHeaderFieldValue r"
          by blast
        then have "c # v = (c # u) @ crlf @ b # r" "clean (c # u)" using False lf by simp_all
        with * show ?thesis by blast
      qed
    qed
  qed simp
  then show thesis using plain fold by blast
qed

definition continuation :: "bytes \<Rightarrow> bool" where
  "continuation l \<longleftrightarrow> content l \<noteq> [] \<and> isWSP (hd l)"

lemma field_lines:
  assumes "validHeaderFieldValue v" "clean x" "x \<noteq> []"
  shows "\<exists>l ls. crlf_lines (x @ v @ crlf) = (x @ l @ crlf) # ls \<and> (\<forall>m \<in> set ls. continuation m)"
  using assms
proof (induction v arbitrary: x rule: length_induct)
  case (1 v)
  from "1.prems"(1) show ?case
  proof (cases rule: validHeaderFieldValue_cases)
    case plain
    with "1.prems" have "no_crlf (x @ v)" by (intro clean_no_crlf) simp
    from crlf_lines_line [OF this, of "[]"] have "crlf_lines (x @ v @ crlf) = [x @ v @ crlf]" by simp
    then show ?thesis by auto
  next
    case (fold u b r)
    have "no_crlf (x @ u)" using fold "1.prems" by (intro clean_no_crlf) simp
    from crlf_lines_line [OF this, of "[b] @ r @ crlf"]
    have first: "crlf_lines (x @ v @ crlf) = (x @ u @ crlf) # crlf_lines ([b] @ r @ crlf)"
      using fold(1) by simp
    have "length r < length v" using fold(1) by simp
    moreover have "clean [b]" using fold(3) isWSP_not_breakD by simp
    ultimately obtain l ls where
      rest: "crlf_lines ([b] @ r @ crlf) = ([b] @ l @ crlf) # ls" "\<forall>m \<in> set ls. continuation m"
      using "1.IH" fold(4) by blast
    have "continuation ([b] @ l @ crlf)"
      using fold(3) content_line [of "[b] @ l"] by (simp add: continuation_def)
    with first rest show ?thesis by auto
  qed
qed

lemma header_field_first:
  assumes "header_field_inv f"
  obtains x l ls where "crlf_lines (hf_originalBytes f) = (x @ l @ crlf) # ls"
    "x = hf_rawName f @ '':''" "\<forall>m \<in> set ls. continuation m"
proof -
  let ?x = "hf_rawName f @ '':''"
  have v: "validHeaderFieldValue (hf_rawValue f)" and n: "validHeaderFieldName (hf_rawName f)"
    and o: "hf_originalBytes f = ?x @ hf_rawValue f @ crlf"
    using assms by (simp_all add: header_field_inv_def)
  have "clean ?x" using validHeaderFieldName_no_specials [OF n] by (simp add: clean_def)
  then obtain l ls where "crlf_lines (?x @ hf_rawValue f @ crlf) = (?x @ l @ crlf) # ls"
      "\<forall>m \<in> set ls. continuation m"
    using field_lines [OF v] by (metis append_is_Nil_conv not_Cons_self2)
  with o show thesis using that by metis
qed

lemma buildHeaderField_Inr_iff:
  assumes "e \<le> length hb"
  shows "buildHeaderField i hb s e opts = Inr f \<longleftrightarrow>
     s < e \<and> int (e - s) \<le> MaxHeaderFieldBytes opts
     \<and> header_field_inv f \<and> hf_index f = i \<and> hf_originalBytes f = slice hb s e"
    (is "?l \<longleftrightarrow> ?r")
proof
  assume ?l
  then show ?r
    by (auto simp: buildHeaderField_def Let_def NewHeaderField_Inr_iff header_field_inv_def
        split: if_splits option.splits)
next
  assume r: ?r
  let ?n = "hf_rawName f" and ?v = "hf_rawValue f"
  have n: "validHeaderFieldName ?n" and v: "validHeaderFieldValue ?v"
    using r by (simp_all add: header_field_inv_def)
  have o: "slice hb s e = ?n @ CHR '':'' # ?v @ crlf"
    using r by (metis header_field_inv_def)
  from r obtain x l ls where lines: "crlf_lines (slice hb s e) = (x @ l @ crlf) # ls"
    and x: "x = ?n @ '':''" using header_field_first by metis
  have "concat (crlf_lines (slice hb s e)) = slice hb s e" by simp
  with lines have split: "slice hb s e = (x @ l) @ crlf @ concat ls" by simp
  have "no_crlf (x @ l)"
    using crlf_lines_content_no_crlf [of "x @ l @ crlf" "slice hb s e"] lines
      content_line [of "x @ l"] by simp
  then have idx: "Index (slice hb s e) crlf = Some (length (x @ l))"
    using split Index_crlf_line by metis
  have first: "take (length (x @ l)) (slice hb s e) = ?n @ CHR '':'' # l"
    using split x by simp
  have colon: "IndexByte (?n @ CHR '':'' # l) CHR '':'' = Some (length ?n)"
    using validHeaderFieldName_no_specials(3) [OF n] by (rule IndexByte_notin)
  have name: "invalidHeaderFieldNameOffset ?n = None"
    using n by (simp add: validHeaderFieldName_def)
  have val: "slice (slice hb s e) (length ?n + 1) (length (slice hb s e) - 2) = ?v"
    unfolding o by (simp add: slice_def)
  have "NewHeaderField (int i) ?n ?v (unfoldHeaderValue ?v) (slice hb s e) = Inr f"
    using r n v o by (cases f) (auto simp: NewHeaderField_Inr_iff header_field_inv_def)
  then show ?l
    using r idx first colon name val
    by (auto simp: buildHeaderField_def Let_def)
qed

section \<open>Header blocks\<close>

text \<open>
  Grouping of physical lines into fields: a line that starts with white space continues the
  current field, any other line starts the next one.
\<close>

fun group_lines :: "bytes option \<Rightarrow> bytes list \<Rightarrow> bytes list option" where
  "group_lines cur [] = map_option (\<lambda>c. [c]) cur"
| "group_lines cur (l # ls) =
     (if isWSP (hd l)
      then (case cur of None \<Rightarrow> None | Some c \<Rightarrow> group_lines (Some (c @ l)) ls)
      else (case cur of
              None \<Rightarrow> group_lines (Some l) ls
            | Some c \<Rightarrow> map_option ((#) c) (group_lines (Some l) ls)))"

definition header_line_ok :: "ParserOptions \<Rightarrow> bytes \<Rightarrow> bool" where
  "header_line_ok opts l \<longleftrightarrow> content l \<noteq> [] \<and> int (length (content l)) \<le> MaxHeaderLineBytes opts"

fun fields_for :: "ParserOptions \<Rightarrow> nat \<Rightarrow> bytes list \<Rightarrow> HeaderField list \<Rightarrow> bool" where
  "fields_for opts i [] fs \<longleftrightarrow> fs = []"
| "fields_for opts i (g # gs) fs \<longleftrightarrow>
     (case fs of
        [] \<Rightarrow> False
      | f # fs' \<Rightarrow>
          header_field_inv f \<and> hf_index f = i \<and> hf_originalBytes f = g
          \<and> int (length g) \<le> MaxHeaderFieldBytes opts \<and> fields_for opts (Suc i) gs fs')"

lemma fields_for_Cons:
  "fields_for opts i (g # gs) fs \<longleftrightarrow>
     (\<exists>f fs'. fs = f # fs' \<and> header_field_inv f \<and> hf_index f = i \<and> hf_originalBytes f = g
        \<and> int (length g) \<le> MaxHeaderFieldBytes opts \<and> fields_for opts (Suc i) gs fs')"
  by (cases fs) simp_all

declare fields_for.simps(2) [simp del]

text \<open>The rest of the parse from a loop state, and its specification on the remaining lines.\<close>

definition parse_from ::
    "bytes \<Rightarrow> ParserOptions \<Rightarrow> HeaderField list \<Rightarrow> nat option \<Rightarrow> nat \<Rightarrow> nat \<Rightarrow> (ParserError, HeaderField list) result" where
  "parse_from hb opts fs cs s n =
     res_bind (parseHeaderLoop hb opts fs cs s s n) (finishHeaderBlock hb opts)"

definition parse_spec ::
    "ParserOptions \<Rightarrow> HeaderField list \<Rightarrow> bytes option \<Rightarrow> bytes \<Rightarrow> HeaderField list \<Rightarrow> bool" where
  "parse_spec opts fs cur d all \<longleftrightarrow>
     (d = [] \<or> terminated d) \<and> (\<forall>l \<in> set (crlf_lines d). header_line_ok opts l)
     \<and> (\<exists>gs new. group_lines cur (crlf_lines d) = Some gs \<and> fields_for opts (length fs) gs new
          \<and> all = fs @ new \<and> int (length all) \<le> MaxHeaderFields opts)"

lemma terminated_line_append: "terminated (x @ crlf @ r) \<longleftrightarrow> r = [] \<or> terminated r"
proof
  assume "r = [] \<or> terminated r"
  then show "terminated (x @ crlf @ r)"
  proof
    assume "terminated r"
    then obtain y where "r = y @ crlf" by (auto simp: terminated_def HasSuffix_iff)
    then have "x @ crlf @ r = (x @ crlf @ y) @ crlf" by simp
    then show ?thesis by (metis terminated_line)
  qed simp
qed (rule terminated_tail)

lemma fields_for_not_Nil: "fields_for opts i gs new \<Longrightarrow> gs \<noteq> [] \<Longrightarrow> new \<noteq> []"
  by (cases gs) (auto simp: fields_for_Cons)

lemma group_lines_not_Nil: "group_lines cur ls = Some gs \<Longrightarrow> gs \<noteq> []"
  by (induction cur ls arbitrary: gs rule: group_lines.induct)
     (auto split: if_splits option.splits)

lemma parse_from_end:
  assumes "case cs of None \<Rightarrow> True | Some c \<Rightarrow> c < length hb"
  shows "parse_from hb opts fs cs (length hb) n = Inr all \<longleftrightarrow>
     parse_spec opts fs (map_option (\<lambda>c. slice hb c (length hb)) cs) [] all"
proof (cases cs)
  case None
  then show ?thesis
    by (simp add: parse_from_def parse_spec_def parseHeaderLoop.simps finishHeaderBlock_def)
next
  case (Some c)
  with assms have c: "c < length hb" by simp
  let ?g = "slice hb c (length hb)"
  have spec: "parse_spec opts fs (Some ?g) [] all \<longleftrightarrow>
      (\<exists>f. header_field_inv f \<and> hf_index f = length fs \<and> hf_originalBytes f = ?g
         \<and> int (length ?g) \<le> MaxHeaderFieldBytes opts \<and> all = fs @ [f]
         \<and> int (length all) \<le> MaxHeaderFields opts)"
    by (auto simp: parse_spec_def fields_for_Cons)
  have "parse_from hb opts fs cs (length hb) n = Inr all \<longleftrightarrow>
      (\<exists>f. buildHeaderField (length fs) hb c (length hb) opts = Inr f
         \<and> int (length (fs @ [f])) \<le> MaxHeaderFields opts \<and> all = fs @ [f])"
    using Some
    by (auto simp: parse_from_def parseHeaderLoop.simps finishHeaderBlock_def res_bind_Inr_iff)
  also have "\<dots> \<longleftrightarrow> parse_spec opts fs (Some ?g) [] all"
    unfolding spec using c by (auto simp: buildHeaderField_Inr_iff)
  finally show ?thesis using Some by simp
qed

lemma parse_from_Inr_iff:
  assumes "hb = pre @ d"
    and "case cs of None \<Rightarrow> True | Some c \<Rightarrow> c < length pre"
  shows "parse_from hb opts fs cs (length pre) n = Inr all \<longleftrightarrow>
     parse_spec opts fs (map_option (\<lambda>c. slice hb c (length pre)) cs) d all"
  using assms
proof (induction d arbitrary: pre fs cs n rule: crlf_induct)
  case Nil
  then show ?case using parse_from_end [where cs = cs and hb = pre] by simp
next
  case (plain x)
  then have "Index x crlf = None" by (simp add: no_crlf_def)
  with plain show ?case
    by (simp add: parse_from_def parse_spec_def parseHeaderLoop.simps [of "pre @ x"] not_terminated_plain)
next
  case (line x r)
  let ?pre = "pre @ x @ crlf" and ?cur = "map_option (\<lambda>c. slice hb c (length pre)) cs"
  let ?ok = "header_line_ok opts (x @ crlf)" and ?max = "MaxHeaderFields opts"
  have next_eq: "length pre + length x + 2 = length ?pre" by simp
  have hb: "hb = ?pre @ r" using line.prems by simp
  have sl: "slice hb (length pre) (length pre + length x) = x"
    using line.prems(1) by (simp add: slice_def)
  have new: "slice hb (length pre) (length ?pre) = x @ crlf"
    using line.prems(1) by (simp add: slice_def)
  have lines: "crlf_lines (x @ crlf @ r) = (x @ crlf) # crlf_lines r"
    using line.hyps by (rule crlf_lines_line)
  have ok: "?ok \<longleftrightarrow> x \<noteq> [] \<and> int (length x) \<le> MaxHeaderLineBytes opts"
    by (simp add: header_line_ok_def)
  have idx: "Index (drop (length pre) hb) crlf = Some (length x)"
    using line by (simp add: Index_crlf_line)
  have lt: "length pre < length hb" using line.prems(1) by simp
  have mn: "min (length x) (length hb - length pre) = length x" using line.prems(1) by simp
  have spec: "parse_spec opts fs cur (x @ crlf @ r) all \<longleftrightarrow> ?ok \<and>
      (if isWSP (hd x) then (\<exists>c. cur = Some c \<and> parse_spec opts fs (Some (c @ x @ crlf)) r all)
       else case cur of None \<Rightarrow> parse_spec opts fs (Some (x @ crlf)) r all
          | Some c \<Rightarrow> (\<exists>f. fields_for opts (length fs) [c] [f]
              \<and> parse_spec opts (fs @ [f]) (Some (x @ crlf)) r all))" for cur
  proof (cases "x = []")
    case False
    then show ?thesis
      by (cases cur) (auto simp: parse_spec_def lines terminated_line_append fields_for_Cons ok)
  next
    case True
    then have "\<not> ?ok" using ok by simp
    moreover have "x @ crlf \<in> set (crlf_lines (x @ crlf @ r))" using lines by simp
    ultimately show ?thesis unfolding parse_spec_def by blast
  qed
  have step: "parse_from hb opts fs cs (length pre) n = Inr all \<longleftrightarrow> ?ok \<and>
      (if isWSP (hd x) then (\<exists>c. cs = Some c \<and> parse_from hb opts fs cs (length ?pre) (Suc n) = Inr all)
       else case cs of None \<Rightarrow> parse_from hb opts fs (Some (length pre)) (length ?pre) (Suc n) = Inr all
          | Some c \<Rightarrow> (\<exists>f. buildHeaderField (length fs) hb c (length pre) opts = Inr f
              \<and> int (length (fs @ [f])) \<le> ?max
              \<and> parse_from hb opts (fs @ [f]) (Some (length pre)) (length ?pre) (Suc n) = Inr all))"
    using idx lt sl mn
    by (simp add: not_less parse_from_def parseHeaderLoop.simps [of hb opts fs cs "length pre" "length pre" n]
        Let_def ok next_eq [symmetric] add.assoc split: option.split sum.split)
  show ?case
  proof (cases "x = []")
    case True
    then show ?thesis using step spec ok by simp
  next
    case x: False
    show ?thesis
    proof (cases cs)
      case None
      have "parse_from hb opts fs (Some (length pre)) (length ?pre) (Suc n) = Inr all \<longleftrightarrow>
          parse_spec opts fs (Some (x @ crlf)) r all"
        using line.IH [OF hb, of "Some (length pre)"] new by simp
      with None step spec [of None] show ?thesis by simp
    next
      case (Some c)
      have c: "c < length pre" using Some line.prems by simp
      have "slice hb c (length ?pre) = slice hb c (length pre) @ x @ crlf"
        using c new slice_extend [of c "length pre" "length ?pre" hb] by simp
      then have wsp: "parse_from hb opts fs cs (length ?pre) (Suc n) = Inr all \<longleftrightarrow>
          parse_spec opts fs (Some (slice hb c (length pre) @ x @ crlf)) r all"
        using line.IH [OF hb, of cs] Some c by simp
      have cont: "parse_from hb opts (fs @ [f]) (Some (length pre)) (length ?pre) (Suc n) = Inr all \<longleftrightarrow>
          parse_spec opts (fs @ [f]) (Some (x @ crlf)) r all" for f
        using line.IH [OF hb, of "Some (length pre)"] new by simp
      have build: "buildHeaderField (length fs) hb c (length pre) opts = Inr f \<longleftrightarrow>
          fields_for opts (length fs) [slice hb c (length pre)] [f]" for f
        using c line.prems(1) by (auto simp: buildHeaderField_Inr_iff fields_for_Cons)
      have count: "parse_spec opts (fs @ [f]) cur r all \<Longrightarrow> int (length (fs @ [f])) \<le> ?max" for f cur
        by (auto simp: parse_spec_def)
      show ?thesis
        unfolding step spec using Some wsp cont build count by auto
    qed
  qed
qed


text \<open>Grouping the lines of a concatenation of fields gives the fields back.\<close>

lemma concat_group_lines:
  "group_lines cur ls = Some gs \<Longrightarrow> concat gs = (case cur of None \<Rightarrow> [] | Some c \<Rightarrow> c) @ concat ls"
  by (induction cur ls arbitrary: gs rule: group_lines.induct)
     (auto split: if_splits option.splits)

lemma group_lines_continuations:
  "\<forall>m \<in> set ls. continuation m \<Longrightarrow>
     group_lines (Some c) (ls @ rest) = group_lines (Some (c @ concat ls)) rest"
  by (induction ls arbitrary: c) (auto simp: continuation_def)

lemma validHeaderFieldName_hd: "validHeaderFieldName n \<Longrightarrow> \<not> isWSP (hd n)"
  using validHeaderFieldName_no_specials [of n]
  by (cases n) (auto simp: validHeaderFieldName_iff isWSP_def)

lemma group_lines_field:
  assumes "header_field_inv f"
  shows "group_lines None (crlf_lines (hf_originalBytes f) @ rest) = group_lines (Some (hf_originalBytes f)) rest"
    and "group_lines (Some c) (crlf_lines (hf_originalBytes f) @ rest)
      = map_option ((#) c) (group_lines (Some (hf_originalBytes f)) rest)"
proof -
  obtain x l ls where lines: "crlf_lines (hf_originalBytes f) = (x @ l @ crlf) # ls"
    and x: "x = hf_rawName f @ '':''" and cont: "\<forall>m \<in> set ls. continuation m"
    using header_field_first [OF assms] by metis
  have n: "validHeaderFieldName (hf_rawName f)" using assms by (simp add: header_field_inv_def)
  have "\<not> isWSP (hd (x @ l @ crlf))"
    using validHeaderFieldName_hd [OF n] n x by (simp add: validHeaderFieldName_iff)
  moreover have "x @ l @ crlf @ concat ls = hf_originalBytes f"
    using concat_crlf_lines [of "hf_originalBytes f"] lines by simp
  ultimately show "group_lines None (crlf_lines (hf_originalBytes f) @ rest) = group_lines (Some (hf_originalBytes f)) rest"
    and "group_lines (Some c) (crlf_lines (hf_originalBytes f) @ rest)
      = map_option ((#) c) (group_lines (Some (hf_originalBytes f)) rest)"
    using cont by (simp_all add: lines group_lines_continuations)
qed

lemma header_field_terminated: "header_field_inv f \<Longrightarrow> terminated (hf_originalBytes f)"
  using terminated_line [of "hf_rawName f @ CHR '':'' # hf_rawValue f"] by (simp add: header_field_inv_def)

lemma crlf_lines_fields:
  "\<forall>f \<in> set fs. header_field_inv f \<Longrightarrow>
     crlf_lines (concat (map hf_originalBytes fs)) = concat (map (crlf_lines \<circ> hf_originalBytes) fs)"
  by (induction fs) (simp_all add: crlf_lines_append header_field_terminated)

lemma group_lines_fields_Some:
  "\<forall>f \<in> set fs. header_field_inv f \<Longrightarrow>
     group_lines (Some c) (concat (map (crlf_lines \<circ> hf_originalBytes) fs)) = Some (c # map hf_originalBytes fs)"
  by (induction fs arbitrary: c) (simp_all add: group_lines_field)

lemma group_lines_fields:
  assumes "\<forall>f \<in> set fs. header_field_inv f" "fs \<noteq> []"
  shows "group_lines None (crlf_lines (concat (map hf_originalBytes fs))) = Some (map hf_originalBytes fs)"
  unfolding crlf_lines_fields [OF assms(1)]
  using assms by (cases fs) (simp_all add: group_lines_field group_lines_fields_Some)

lemma fields_for_iff:
  "fields_for opts i gs fs \<longleftrightarrow>
     gs = map hf_originalBytes fs
     \<and> (\<forall>j < length fs. header_field_inv (fs ! j) \<and> hf_index (fs ! j) = i + j)
     \<and> (\<forall>f \<in> set fs. int (length (hf_originalBytes f)) \<le> MaxHeaderFieldBytes opts)"
proof (induction fs arbitrary: i gs)
  case Nil
  then show ?case by (cases gs) (simp_all add: fields_for_Cons)
next
  case (Cons f fs)
  have idx: "(\<forall>j < length (f # fs). header_field_inv ((f # fs) ! j) \<and> hf_index ((f # fs) ! j) = i + j) \<longleftrightarrow>
      header_field_inv f \<and> hf_index f = i
      \<and> (\<forall>j < length fs. header_field_inv (fs ! j) \<and> hf_index (fs ! j) = Suc i + j)"
    by (auto simp: nth_Cons less_Suc_eq_0_disj)
  show ?case unfolding idx by (cases gs) (auto simp: fields_for_Cons Cons.IH)
qed

text \<open>The limits a field has to satisfy, and the block the parser returns.\<close>

definition field_fits :: "ParserOptions \<Rightarrow> HeaderField \<Rightarrow> bool" where
  "field_fits opts f \<longleftrightarrow>
     int (length (hf_originalBytes f)) \<le> MaxHeaderFieldBytes opts
     \<and> (\<forall>l \<in> set (crlf_lines (hf_originalBytes f)). int (length (content l)) \<le> MaxHeaderLineBytes opts)"

definition block_fits :: "ParserOptions \<Rightarrow> HeaderBlock \<Rightarrow> bool" where
  "block_fits opts h \<longleftrightarrow>
     hb_fields h \<noteq> [] \<and> int (length (hb_fields h)) \<le> MaxHeaderFields opts
     \<and> (\<forall>f \<in> set (hb_fields h). field_fits opts f)"

lemma header_field_line_nonempty:
  assumes "header_field_inv f" "l \<in> set (crlf_lines (hf_originalBytes f))"
  shows "content l \<noteq> []"
proof -
  obtain x k ls where "crlf_lines (hf_originalBytes f) = (x @ k @ crlf) # ls"
    "x = hf_rawName f @ '':''" "\<forall>m \<in> set ls. continuation m"
    using header_field_first [OF assms(1)] by metis
  then show ?thesis using assms(2) content_line [of "x @ k"] by (auto simp: continuation_def)
qed

lemma parse_spec_block:
  assumes "header_block_inv h" "hb_originalBytes h = hb"
  shows "parse_spec opts [] None hb (hb_fields h) \<longleftrightarrow> block_fits opts h"
proof -
  let ?fs = "hb_fields h"
  have inv: "\<forall>f \<in> set ?fs. header_field_inv f" using assms header_block_inv_fields by blast
  have hb: "hb = concat (map hf_originalBytes ?fs)" using assms by (simp add: header_block_inv_def)
  have lines: "set (crlf_lines hb) = (\<Union>f \<in> set ?fs. set (crlf_lines (hf_originalBytes f)))"
    using inv by (simp add: hb crlf_lines_fields)
  have ok: "(\<forall>l \<in> set (crlf_lines hb). header_line_ok opts l) \<longleftrightarrow>
      (\<forall>f \<in> set ?fs. \<forall>l \<in> set (crlf_lines (hf_originalBytes f)). int (length (content l)) \<le> MaxHeaderLineBytes opts)"
    using header_field_line_nonempty inv unfolding lines header_line_ok_def by blast
  have trm: "hb = [] \<or> terminated hb"
  proof (cases ?fs rule: rev_cases)
    case (snoc fs f)
    then have "terminated (hf_originalBytes f)" using inv header_field_terminated by simp
    then obtain y where y: "hf_originalBytes f = y @ crlf" by (auto simp: terminated_def HasSuffix_iff)
    have "hb = (concat (map hf_originalBytes fs) @ y) @ crlf" by (simp add: hb snoc y)
    then show ?thesis using terminated_line by metis
  qed (simp add: hb)
  have grp: "group_lines None (crlf_lines hb) = (if ?fs = [] then None else Some (map hf_originalBytes ?fs))"
    using group_lines_fields [OF inv] by (simp add: hb)
  have ff: "fields_for opts 0 (map hf_originalBytes ?fs) ?fs \<longleftrightarrow>
      (\<forall>f \<in> set ?fs. int (length (hf_originalBytes f)) \<le> MaxHeaderFieldBytes opts)"
    using assms by (simp add: fields_for_iff header_block_inv_def)
  show ?thesis
    unfolding parse_spec_def ok grp using trm ff by (auto simp: block_fits_def field_fits_def)
qed

theorem parseHeaderBlock_Inr_iff:
  "parseHeaderBlock hb opts = Inr h \<longleftrightarrow>
     header_block_inv h \<and> hb_originalBytes h = hb \<and> block_fits opts h"
proof -
  have loop: "parseHeaderBlock hb opts = Inr h \<longleftrightarrow>
      hb \<noteq> [] \<and> (\<exists>fs. parse_spec opts [] None hb fs \<and> NewHeaderBlock fs hb = Inr h)"
  proof -
    have "parseHeaderBlock hb opts = Inr h \<longleftrightarrow>
        hb \<noteq> [] \<and> (\<exists>fs. parse_from hb opts [] None 0 1 = Inr fs \<and> NewHeaderBlock fs hb = Inr h)"
      by (auto simp: parseHeaderBlock_def parse_from_def res_bind_Inr_iff)
    then show ?thesis using parse_from_Inr_iff [of hb "[]" hb None opts "[]" 1] by simp
  qed
  show ?thesis
  proof
    assume "parseHeaderBlock hb opts = Inr h"
    then obtain fs where spec: "parse_spec opts [] None hb fs" and new: "NewHeaderBlock fs hb = Inr h"
      using loop by blast
    from spec have "\<forall>j < length fs. header_field_inv (fs ! j)"
      by (auto simp: parse_spec_def fields_for_iff)
    with new have inv: "header_block_inv h" by (intro NewHeaderBlock_inv) (auto simp: in_set_conv_nth)
    have h: "hb_fields h = fs" "hb_originalBytes h = hb" using new by (auto simp: NewHeaderBlock_Inr_iff)
    with spec parse_spec_block [OF inv] show "header_block_inv h \<and> hb_originalBytes h = hb \<and> block_fits opts h"
      using inv by simp
  next
    assume r: "header_block_inv h \<and> hb_originalBytes h = hb \<and> block_fits opts h"
    then obtain f fs where "hb_fields h = f # fs" by (cases "hb_fields h") (auto simp: block_fits_def)
    then have "hb \<noteq> []"
      using r header_block_inv_fields [of h f] header_field_inv_original_not_Nil [of f]
      by (auto simp: header_block_inv_def)
    then show "parseHeaderBlock hb opts = Inr h"
      using loop r parse_spec_block [of h hb] header_block_inv_NewHeaderBlock [of h] by blast
  qed
qed

end
