(* ===== verification/Rawmsg_Parse.thy ===== *)
theory Rawmsg_Parse
  imports Rawmsg_Grammar
begin

text \<open>
  The message grammar: what \<open>ParseWithOptions\<close> accepts, that the accepted message is the lossless
  and unique decomposition of its octets, and which error codes a rejection can carry.
\<close>

section \<open>The blank line\<close>

lemma strict_crlf_append:
  "a = [] \<or> terminated a \<Longrightarrow> strict_crlf (a @ b) \<longleftrightarrow> strict_crlf a \<and> strict_crlf b"
  by (auto simp: strict_crlf_lines crlf_lines_append)

lemma strict_crlf_Nil [simp]: "strict_crlf []"
  by (simp add: strict_crlf_lines)

lemma strict_crlf_crlf [simp]: "strict_crlf (crlf @ b) \<longleftrightarrow> strict_crlf b"
  using strict_crlf_line [of "[]" b] by simp

lemma strict_crlf_value:
  "validHeaderFieldValue v \<Longrightarrow> clean x \<Longrightarrow> strict_crlf (x @ v @ crlf)"
proof (induction v arbitrary: x rule: length_induct)
  case (1 v)
  from "1.prems"(1) show ?case
  proof (cases rule: validHeaderFieldValue_cases)
    case plain
    then show ?thesis
      using "1.prems" strict_crlf_line [of "x @ v" "[]"] by (simp add: clean_no_crlf)
  next
    case (fold u b r)
    have b: "clean [b]" using isWSP_not_breakD fold(3) by simp
    have "length r < length v" using fold(1) by simp
    then have "strict_crlf ([b] @ r @ crlf)" using "1.IH" fold(4) b by blast
    then show ?thesis
      using "1.prems" fold strict_crlf_line [of "x @ u" "[b] @ r @ crlf"] by (simp add: clean_no_crlf)
  qed
qed

lemma header_field_strict: "header_field_inv f \<Longrightarrow> strict_crlf (hf_originalBytes f)"
  using strict_crlf_value [of "hf_rawValue f" "hf_rawName f @ '':''"]
    validHeaderFieldName_no_specials [of "hf_rawName f"]
  by (simp add: header_field_inv_def clean_def)

lemma fields_terminated:
  "\<forall>f \<in> set fs. header_field_inv f \<Longrightarrow> fs \<noteq> [] \<Longrightarrow> terminated (concat (map hf_originalBytes fs))"
proof (induction fs rule: rev_induct)
  case (snoc f fs)
  then have "terminated (hf_originalBytes f)" using header_field_terminated by simp
  then obtain y where y: "hf_originalBytes f = y @ crlf" by (auto simp: terminated_def HasSuffix_iff)
  have "concat (map hf_originalBytes (fs @ [f])) = (concat (map hf_originalBytes fs) @ y) @ crlf"
    by (simp add: y)
  then show ?case using terminated_line by metis
qed simp

lemma header_block_original:
  "header_block_inv h \<Longrightarrow> hb_originalBytes h = concat (map hf_originalBytes (hb_fields h))"
  by (simp add: header_block_inv_def)

lemma header_block_terminated:
  "header_block_inv h \<Longrightarrow> hb_fields h \<noteq> [] \<Longrightarrow> terminated (hb_originalBytes h)"
  using fields_terminated [of "hb_fields h"] header_block_inv_fields [of h] header_block_original [of h]
  by metis

lemma header_block_strict: "header_block_inv h \<Longrightarrow> strict_crlf (hb_originalBytes h)"
proof -
  have "\<forall>f \<in> set fs. header_field_inv f \<Longrightarrow> strict_crlf (concat (map hf_originalBytes fs))" for fs
    by (induction fs) (simp_all add: strict_crlf_append header_field_terminated header_field_strict)
  then show "header_block_inv h \<Longrightarrow> strict_crlf (hb_originalBytes h)"
    using header_block_inv_fields header_block_original by metis
qed

lemma header_block_no_blank:
  assumes "header_block_inv h"
  shows "crlf \<notin> set (crlf_lines (hb_originalBytes h))"
proof -
  have inv: "\<forall>f \<in> set (hb_fields h). header_field_inv f" using assms header_block_inv_fields by blast
  have "content crlf = []" using content_line [of "[]"] by simp
  then have "crlf \<notin> set (crlf_lines (hf_originalBytes f))" if "f \<in> set (hb_fields h)" for f
    using header_field_line_nonempty that inv by blast
  then show ?thesis using inv by (simp add: header_block_original [OF assms] crlf_lines_fields)
qed

lemma crlf_lines_blank: "crlf_lines (a @ crlf @ crlf @ r) = crlf_lines (a @ crlf) @ crlf # crlf_lines r"
  using crlf_lines_append [of "a @ crlf" "crlf @ r"] crlf_lines_line [of "[]" r] by simp

text \<open>The first blank line of a terminated text without blank lines, followed by one, ends it.\<close>

lemma blank_line_first:
  assumes "crlf \<notin> set (crlf_lines h)" "terminated h" "h @ crlf @ r = a @ crlf @ crlf @ r'"
  shows "length h \<le> length a + 2"
proof -
  have "crlf_lines h @ crlf # crlf_lines r = crlf_lines (a @ crlf) @ crlf # crlf_lines r'"
    using assms crlf_lines_append [of h "crlf @ r"] crlf_lines_line [of "[]" r] crlf_lines_blank [of a r']
    by simp
  then obtain us where "crlf_lines h @ us = crlf_lines (a @ crlf) \<or>
      crlf_lines h = crlf_lines (a @ crlf) @ us \<and> us @ crlf # crlf_lines r = crlf # crlf_lines r'"
    by (auto simp: append_eq_append_conv2)
  then have "\<exists>us. crlf_lines h @ us = crlf_lines (a @ crlf)"
    using assms(1) by (cases us) auto
  then obtain us where "crlf_lines h @ us = crlf_lines (a @ crlf)" by blast
  then have "h @ concat us = a @ crlf" by (metis concat_append concat_crlf_lines)
  then have "length (h @ concat us) = length (a @ crlf)" by simp
  then show ?thesis by simp
qed

lemma Index_delimiter_None:
  "crlf \<notin> set (crlf_lines h) \<Longrightarrow> Index h strictHeaderBodyDelimiter = None"
  by (auto simp: Index_None_iff strictHeaderBodyDelimiter_def crlf_lines_blank)

lemma Index_delimiter_Some:
  assumes "crlf \<notin> set (crlf_lines h)" "terminated h"
  shows "Index (h @ crlf @ r) strictHeaderBodyDelimiter = Some (length h - 2)"
proof -
  let ?d = "h @ crlf @ r"
  obtain y where y: "h = y @ crlf" using assms(2) by (auto simp: terminated_def HasSuffix_iff)
  then obtain i where i: "Index ?d strictHeaderBodyDelimiter = Some i" "i \<le> length y"
    using Index_le [of ?d y strictHeaderBodyDelimiter r] by (auto simp: strictHeaderBodyDelimiter_def)
  obtain q where "?d = take i ?d @ strictHeaderBodyDelimiter @ q" using Index_Some [OF i(1)] by blast
  then have "?d = take i ?d @ crlf @ crlf @ q" unfolding strictHeaderBodyDelimiter_def append_assoc .
  with assms have "length h \<le> length (take i ?d) + 2" by (rule blank_line_first)
  with i y show ?thesis by simp
qed

lemma splitHeaderBody_frame:
  assumes "header_block_inv h" "hb_fields h \<noteq> []"
    and "b = [] \<and> d = hb_originalBytes h \<or> d = hb_originalBytes h @ crlf @ b"
  shows "\<exists>off. splitHeaderBody d opts = Inr (hb_originalBytes h, b, off)"
proof -
  let ?h = "hb_originalBytes h"
  have t: "terminated ?h" and n: "crlf \<notin> set (crlf_lines ?h)"
    using assms header_block_terminated header_block_no_blank by blast+
  then have "2 \<le> length ?h" by (auto simp: terminated_def HasSuffix_iff)
  with assms(3) t show ?thesis
    using Index_delimiter_None [OF n] Index_delimiter_Some [OF n t, of b]
    by (auto simp: splitHeaderBody_def terminated_def strictHeaderBodyDelimiter_def)
qed

lemma splitHeaderBody_Inr:
  assumes "splitHeaderBody d opts = Inr (h, b, off)"
  shows "b = [] \<and> d = h \<or> d = h @ crlf @ b"
proof (cases "Index d strictHeaderBodyDelimiter")
  case None
  with assms show ?thesis by (simp add: splitHeaderBody_def split: if_splits)
next
  case (Some i)
  have d: "d = take i d @ crlf @ crlf @ drop (i + 4) d" and i: "i + 4 \<le> length d"
    using Index_split [OF Some] Index_bound [OF Some] by (simp_all add: strictHeaderBodyDelimiter_def)
  have "take (i + 2) d = take i d @ crlf" by (subst d) (use i in simp)
  with assms Some d show ?thesis
    by (simp add: splitHeaderBody_def strictHeaderBodyDelimiter_def) (metis append_assoc)
qed

section \<open>Acceptance\<close>

definition message_fits :: "ParserOptions \<Rightarrow> Message \<Rightarrow> bool" where
  "message_fits opts m \<longleftrightarrow>
     ParserOptions_Validate opts = None
     \<and> int (length (msg_rawBytes m)) \<le> MaxMessageBytes opts
     \<and> int (length (hb_originalBytes (msg_headers m))) \<le> MaxHeaderBytes opts
     \<and> block_fits opts (msg_headers m) \<and> body_ok opts (bd_bytes (msg_body m))"

lemma body_inv_strict: "body_inv b \<Longrightarrow> strict_crlf (bd_bytes b)"
  by (simp add: body_inv_def strict_crlf_lines)

lemma message_inv_strict:
  assumes "message_inv m" "hb_fields (msg_headers m) \<noteq> []"
  shows "strict_crlf (msg_rawBytes m)"
proof -
  have "terminated (hb_originalBytes (msg_headers m))"
    using assms by (simp add: message_inv_def header_block_terminated)
  then show ?thesis
    using assms by (auto simp: message_inv_def strict_crlf_append header_block_strict body_inv_strict)
qed

lemma ParseWithOptions_inv:
  assumes "ParseWithOptions d opts = Inr m"
  shows "message_inv m \<and> msg_rawBytes m = d \<and> message_fits opts m"
proof -
  from assms obtain hb bb off h b where
    v: "ParserOptions_Validate opts = None" "int (length d) \<le> MaxMessageBytes opts"
    and split: "splitHeaderBody d opts = Inr (hb, bb, off)"
    and hb: "int (length hb) \<le> MaxHeaderBytes opts" "parseHeaderBlock hb opts = Inr h"
    and b: "buildBody bb opts off = Inr b"
    and new: "NewMessage d h b (NewParserMetadata (LineEnding opts) False (int (length d))
        (int (length d)) (int (length hb)) (int (HeaderBlock_Len h)) (int (length bb))) = Inr m"
    by (auto simp: ParseWithOptions_def res_bind_Inr_iff res_check_Inr_iff not_less split: if_splits)
  have h: "header_block_inv h" "hb_originalBytes h = hb" "block_fits opts h"
    using hb(2) by (simp_all add: parseHeaderBlock_Inr_iff)
  have bi: "body_inv b" "bd_bytes b = bb" "body_ok opts bb"
    using b buildBody_inv [OF b] buildBody_Inr_iff by blast+
  from NewMessage_inv [OF new h(1) bi(1)] show ?thesis
    using v hb(1) h bi by (auto simp: message_fits_def)
qed

lemma ParseWithOptions_complete:
  assumes inv: "message_inv m" and fits: "message_fits opts m"
  shows "ParseWithOptions (msg_rawBytes m) opts = Inr m"
proof -
  let ?h = "msg_headers m" and ?b = "msg_body m" and ?d = "msg_rawBytes m"
  have h: "header_block_inv ?h" "hb_fields ?h \<noteq> []" and b: "body_inv ?b"
    using inv fits by (simp_all add: message_inv_def message_fits_def block_fits_def)
  obtain off where split: "splitHeaderBody ?d opts = Inr (hb_originalBytes ?h, bd_bytes ?b, off)"
    using splitHeaderBody_frame [OF h, of "bd_bytes ?b" ?d] inv by (auto simp: message_inv_def)
  have "buildBody (bd_bytes ?b) opts off = Inr ?b"
    using b fits unfolding buildBody_Inr_iff message_fits_def body_inv_def by blast
  moreover have "parseHeaderBlock (hb_originalBytes ?h) opts = Inr ?h"
    using h fits by (simp add: parseHeaderBlock_Inr_iff message_fits_def)
  moreover have "NewMessage ?d ?h ?b (metadata_of ?d ?h ?b) = Inr m"
  proof -
    have md: "msg_metadata m = metadata_of ?d ?h ?b" and ne: "?d \<noteq> []"
      and fr: "bd_bytes ?b = [] \<and> ?d = hb_originalBytes ?h \<or> ?d = hb_originalBytes ?h @ crlf @ bd_bytes ?b"
      using inv unfolding message_inv_def by blast+
    from md have "\<lparr>msg_rawBytes = ?d, msg_headers = ?h, msg_body = ?b, msg_metadata = metadata_of ?d ?h ?b\<rparr> = m"
      by (cases m) simp
    with NewMessage_components [OF h(1) b ne fr refl] show ?thesis by (simp only:)
  qed
  moreover have "enforceStrictCRLF ?d opts = None"
    using message_inv_strict [OF inv h(2)] by (simp add: enforceStrictCRLF_None_iff)
  moreover have "LineEnding opts = LineEndingPolicyStrictCRLF" "ParserOptions_Validate opts = None"
    using fits by (simp_all add: message_fits_def ParserOptions_Validate_None_iff)
  moreover have "hb_originalBytes ?h \<noteq> []"
    using header_block_terminated [OF h] by (auto simp: terminated_def HasSuffix_iff)
  ultimately show ?thesis
    using split fits
    by (simp add: ParseWithOptions_def message_fits_def metadata_of_def Body_Len_def not_less)
qed

theorem ParseWithOptions_Inr_iff:
  "ParseWithOptions d opts = Inr m \<longleftrightarrow> message_inv m \<and> msg_rawBytes m = d \<and> message_fits opts m"
  using ParseWithOptions_inv ParseWithOptions_complete by blast


section \<open>Rejection\<close>

text \<open>The codes that rejected header octets are reported with.\<close>

definition header_code :: "ErrorCode \<Rightarrow> bool" where
  "header_code c \<longleftrightarrow> c = ErrorCodeLimitExceeded \<or> c = ErrorCodeMalformedHeader"

lemma header_code_simps [simp]: "header_code ErrorCodeLimitExceeded" "header_code ErrorCodeMalformedHeader"
  by (simp_all add: header_code_def)

lemma NewHeaderField_code:
  assumes "NewHeaderField (int i) n v (unfoldHeaderValue v) (n @ CHR '':'' # v @ crlf) = Inl e"
  shows "header_code (pe_code e)"
proof (rule ccontr)
  assume c: "\<not> header_code (pe_code e)"
  have "validHeaderFieldName n" "validHeaderFieldValue v"
    using assms c by (auto simp: NewHeaderField_def header_code_def split: if_splits)
  then obtain f where "NewHeaderField (int i) n v (unfoldHeaderValue v) (n @ CHR '':'' # v @ crlf) = Inr f"
    by (simp add: NewHeaderField_Inr_iff)
  with assms show False by simp
qed

lemma line_colon_split:
  assumes "Index orig crlf = Some le" "IndexByte (take le orig) CHR '':'' = Some k" "HasSuffix orig crlf"
  shows "orig = take k (take le orig) @ CHR '':'' # slice orig (k + 1) (length orig - 2) @ crlf"
proof -
  obtain y where y: "orig = y @ crlf" using assms(3) by (auto simp: HasSuffix_iff)
  have k: "take le orig = take k (take le orig) @ CHR '':'' # drop (Suc k) (take le orig)" "k < length (take le orig)"
    using IndexByte_Some [OF assms(2)] by blast+
  have le: "le \<le> length y" using Index_bound [OF assms(1)] y by simp
  have "k < le" using k(2) by simp
  have "take le orig ! k = CHR '':''"
    using k(2) arg_cong [OF k(1), of "\<lambda>x. x ! k"] by (simp add: nth_append)
  then have "y ! k = CHR '':''" using le k(2) y by (simp add: nth_append)
  then have "y = take k y @ CHR '':'' # drop (Suc k) y"
    using id_take_nth_drop [of k y] le \<open>k < le\<close> by simp
  with y le \<open>k < le\<close> show ?thesis by (simp add: slice_def)
qed

lemma buildHeaderField_code:
  assumes "buildHeaderField i hb s e opts = Inl err" "HasSuffix (slice hb s e) crlf"
  shows "header_code (pe_code err)"
proof (cases "e \<le> s \<or> int (e - s) > MaxHeaderFieldBytes opts")
  case True
  with assms show ?thesis by (auto simp: buildHeaderField_def header_code_def)
next
  case False
  let ?o = "slice hb s e"
  have "\<exists>i. Index ?o crlf = Some i"
    using assms(2) Index_le [of ?o _ crlf "[]"] by (auto simp: HasSuffix_iff)
  then obtain le where le: "Index ?o crlf = Some le" by blast
  show ?thesis
  proof (cases "IndexByte (take le ?o) CHR '':''")
    case None
    with assms False le show ?thesis by (auto simp: buildHeaderField_def header_code_def Let_def)
  next
    case (Some k)
    note o = line_colon_split [OF le Some assms(2)]
    show ?thesis
    proof (cases "invalidHeaderFieldNameOffset (take k (take le ?o))")
      case None
      with assms False le Some have "NewHeaderField (int i) (take k (take le ?o)) (slice ?o (k + 1) (length ?o - 2))
          (unfoldHeaderValue (slice ?o (k + 1) (length ?o - 2))) ?o = Inl err"
        by (auto simp: buildHeaderField_def Let_def)
      with o show ?thesis using NewHeaderField_code by metis
    next
      case (Some z)
      with assms False le \<open>IndexByte _ _ = Some k\<close> show ?thesis
        by (auto simp: buildHeaderField_def header_code_def Let_def)
    qed
  qed
qed

text \<open>The loop keeps the current field terminated, so every field it builds is well delimited.\<close>

definition current_ok :: "bytes \<Rightarrow> nat option \<Rightarrow> nat \<Rightarrow> bool" where
  "current_ok hb cs ce \<longleftrightarrow> (\<forall>c. cs = Some c \<longrightarrow> c < ce \<and> ce \<le> length hb \<and> HasSuffix (slice hb c ce) crlf)"

lemma current_ok_next:
  assumes "Index (drop s hb) crlf = Some i" "c \<le> s" "s < length hb"
  shows "current_ok hb (Some c) (s + i + 2)"
proof -
  have b: "i + 2 \<le> length hb - s" using Index_bound [OF assms(1)] by simp
  obtain q where q: "drop s hb = take i (drop s hb) @ crlf @ q" using Index_Some [OF assms(1)] by blast
  have "take (i + 2) (take i (drop s hb) @ crlf @ q) = take i (drop s hb) @ crlf" using b by simp
  with q have "slice hb s (s + i + 2) = take i (drop s hb) @ crlf" by (simp add: slice_def add.assoc)
  then have "slice hb c (s + i + 2) = (slice hb c s @ take i (drop s hb)) @ crlf"
    using slice_extend [of c s "s + i + 2" hb] assms b by simp
  then have "HasSuffix (slice hb c (s + i + 2)) crlf" by (metis HasSuffix_append)
  then show ?thesis using assms b by (simp add: current_ok_def)
qed

lemma current_ok_None [simp]: "current_ok hb None k"
  by (simp add: current_ok_def)

fun loop_ok :: "bytes \<Rightarrow> (ParserError, HeaderField list \<times> nat option \<times> nat \<times> nat) result \<Rightarrow> bool" where
  "loop_ok hb (Inl e) = header_code (pe_code e)"
| "loop_ok hb (Inr (fs, cs, ce, n)) = current_ok hb cs ce"

lemma parseHeaderLoop_code:
  assumes "current_ok hb cs ls"
  shows "loop_ok hb (parseHeaderLoop hb opts fs cs ls ls n)"
  using assms
proof (induction "length hb - ls" arbitrary: fs cs ls n rule: less_induct)
  case less
  show ?case
  proof (cases "ls < length hb")
    case False
    then show ?thesis using less.prems by (simp add: parseHeaderLoop.simps)
  next
    case lt: True
    show ?thesis
    proof (cases "Index (drop ls hb) crlf")
      case None
      then show ?thesis using lt by (simp add: parseHeaderLoop.simps header_code_def)
    next
      case (Some i)
      let ?next = "ls + i + 2"
      have dec: "length hb - ?next < length hb - ls" using lt by simp
      have new: "current_ok hb (Some ls) ?next" using current_ok_next [OF Some _ lt] by simp
      have keep: "cs = Some c \<Longrightarrow> current_ok hb (Some c) ?next" for c
        using current_ok_next [OF Some _ lt, of c] less.prems by (simp add: current_ok_def)
      have built: "cs = Some c \<Longrightarrow> buildHeaderField (length fs) hb c ls opts = Inl e \<Longrightarrow> header_code (pe_code e)"
        for c e using buildHeaderField_code less.prems by (simp add: current_ok_def)
      note step = parseHeaderLoop.simps [of hb opts fs cs ls ls n]
      show ?thesis
        using lt Some less.hyps [OF dec new] less.hyps [OF dec keep] built
        by (simp add: step Let_def add.assoc split: option.split sum.split)
    qed
  qed
qed

lemma finishHeaderBlock_code:
  "finishHeaderBlock hb opts (fs, cs, ce, n) = Inl e \<Longrightarrow> current_ok hb cs ce \<Longrightarrow> header_code (pe_code e)"
  by (auto simp: finishHeaderBlock_def res_bind_Inl_iff header_code_def current_ok_def
      dest: buildHeaderField_code split: option.splits if_splits)

lemma NewHeaderBlock_parsed:
  assumes "parseHeaderLoop hb opts [] None 0 0 1 = Inr st" "finishHeaderBlock hb opts st = Inr fs"
  shows "\<exists>h. NewHeaderBlock fs hb = Inr h"
proof -
  have "parse_from hb opts [] None 0 1 = Inr fs" using assms by (simp add: parse_from_def)
  then have "parse_spec opts [] None hb fs" using parse_from_Inr_iff [of hb "[]" hb None opts "[]" 1 fs] by simp
  then obtain gs where gs: "group_lines None (crlf_lines hb) = Some gs" "fields_for opts 0 gs fs"
    by (auto simp: parse_spec_def)
  have "hb = concat gs" using concat_group_lines [OF gs(1)] by simp
  with gs(2) have "hb = concat (map hf_originalBytes fs)" by (simp add: fields_for_iff)
  then show ?thesis
    using gs(2) by (auto simp: NewHeaderBlock_Inr_iff fields_for_iff header_field_inv_def)
qed

lemma parseHeaderBlock_code:
  assumes "parseHeaderBlock hb opts = Inl e"
  shows "header_code (pe_code e)"
proof (cases "hb = [] \<or> (\<exists>e. parseHeaderLoop hb opts [] None 0 0 1 = Inl e)")
  case True
  with assms show ?thesis
    using parseHeaderLoop_code [of hb None 0 opts "[]" 1]
    by (cases "hb = []") (auto simp: parseHeaderBlock_def header_code_def)
next
  case False
  then obtain st where st: "parseHeaderLoop hb opts [] None 0 0 1 = Inr st"
    by (cases "parseHeaderLoop hb opts [] None 0 0 1") auto
  obtain fs cs ce n where s: "st = (fs, cs, ce, n)" by (cases st)
  have ok: "current_ok hb cs ce" using parseHeaderLoop_code [of hb None 0 opts "[]" 1] st s by simp
  show ?thesis
  proof (cases "finishHeaderBlock hb opts st")
    case (Inl e')
    with assms False st show ?thesis
      using finishHeaderBlock_code [OF _ ok] s by (auto simp: parseHeaderBlock_def)
  next
    case (Inr fs')
    then show ?thesis using NewHeaderBlock_parsed [OF st Inr] assms False st
      by (auto simp: parseHeaderBlock_def)
  qed
qed

text \<open>A strict body fails only on a limit.\<close>

lemma indexBodyLinesLoop_code:
  "indexBodyLinesLoop d opts off i s acc = Inl e \<Longrightarrow> pe_code e = ErrorCodeLimitExceeded"
proof (induction "length d - s" arbitrary: i s acc rule: less_induct)
  case less
  note step = indexBodyLinesLoop.simps [of d opts off i s acc]
  show ?case
  proof (cases "Index (drop s d) crlf")
    case None
    then show ?thesis using less.prems
      by (auto simp: step NewBodyLine_def Let_def split: if_splits)
  next
    case (Some k)
    have "s < length d \<Longrightarrow> length d - (s + k + 2) < length d - s" by simp
    from less.hyps [OF this] show ?thesis
      using Some less.prems by (auto simp: step NewBodyLine_def Let_def add.assoc split: if_splits)
  qed
qed

lemma buildBody_code:
  assumes "buildBody d opts off = Inl e" "strict_crlf d"
  shows "pe_code e = ErrorCodeLimitExceeded"
proof (cases "indexBodyLines d opts off")
  case (Inl e')
  with assms show ?thesis
    by (auto simp: buildBody_def indexBodyLines_def indexBodyLinesLoop_code
        split: if_splits prod.splits)
next
  case (Inr lines)
  then have "buildBody d opts off = Inr (body_of d)"
    using assms(2) by (auto simp: buildBody_Inr_iff indexBodyLines_Inr_iff body_ok_def strict_crlf_lines)
  with assms show ?thesis by simp
qed

text \<open>The errors of the parser: the policy, a limit, the line endings or the header grammar.\<close>

definition parse_code :: "ErrorCode \<Rightarrow> bool" where
  "parse_code c \<longleftrightarrow> c \<in> {ErrorCodeUnsupportedPolicy, ErrorCodeLimitExceeded, ErrorCodeMixedLineEndings,
     ErrorCodeBareLF, ErrorCodeBareCR, ErrorCodeMissingDelimiter, ErrorCodeMalformedHeader}"

lemma splitHeaderBody_code: "splitHeaderBody d opts = Inl e \<Longrightarrow> pe_code e = ErrorCodeMissingDelimiter"
  by (auto simp: splitHeaderBody_def split: option.splits if_splits)

lemma splitHeaderBody_strict:
  assumes "splitHeaderBody d opts = Inr (h, b, off)" "strict_crlf d"
  shows "strict_crlf b"
proof (cases "Index d strictHeaderBodyDelimiter")
  case None
  with assms(1) have "b = []" by (auto simp: splitHeaderBody_def split: if_splits)
  then show ?thesis by simp
next
  case (Some i)
  then obtain q where "d = take i d @ strictHeaderBodyDelimiter @ q" using Index_Some by blast
  then have "d = (take i d @ crlf @ crlf) @ drop (i + 4) d"
    using Index_split [OF Some] by (simp add: strictHeaderBodyDelimiter_def)
  moreover have "terminated (take i d @ crlf @ crlf)" using terminated_line [of "take i d @ crlf"] by simp
  ultimately have "strict_crlf (drop (i + 4) d)" using assms(2) strict_crlf_append by metis
  then show ?thesis using assms(1) Some by (auto simp: splitHeaderBody_def strictHeaderBodyDelimiter_def)
qed

theorem ParseWithOptions_code:
  assumes "ParseWithOptions d opts = Inl e"
  shows "parse_code (pe_code e)"
proof (cases "ParserOptions_Validate opts = None \<and> int (length d) \<le> MaxMessageBytes opts \<and> strict_crlf d")
  case False
  with assms show ?thesis
    using ParserOptions_Validate_code [of opts] enforceStrictCRLF_code [of d opts]
    by (auto simp: ParseWithOptions_def parse_code_def res_check_def enforceStrictCRLF_None_iff
        split: option.splits if_splits)
next
  case ok: True
  then have pol: "LineEnding opts = LineEndingPolicyStrictCRLF" "enforceStrictCRLF d opts = None"
    by (simp_all add: ParserOptions_Validate_None_iff enforceStrictCRLF_None_iff)
  show ?thesis
  proof (cases "splitHeaderBody d opts")
    case (Inl e')
    with assms ok pol show ?thesis
      using splitHeaderBody_code [OF Inl] by (auto simp: ParseWithOptions_def parse_code_def not_less)
  next
    case (Inr p)
    obtain h b off where p: "p = (h, b, off)" by (cases p)
    have strict: "strict_crlf b" using splitHeaderBody_strict Inr p ok by blast
    show ?thesis
    proof (rule ccontr)
      assume c: "\<not> parse_code (pe_code e)"
      from assms ok pol Inr p c obtain hs where hs: "parseHeaderBlock h opts = Inr hs"
        by (cases "parseHeaderBlock h opts")
           (auto simp: ParseWithOptions_def parse_code_def header_code_def split: if_splits dest!: parseHeaderBlock_code)
      from assms ok pol Inr p c hs obtain bs where bs: "buildBody b opts off = Inr bs"
        by (cases "buildBody b opts off")
           (auto simp: ParseWithOptions_def parse_code_def split: if_splits dest!: buildBody_code [OF _ strict])
      have inv: "header_block_inv hs" "hb_originalBytes hs = h" "block_fits opts hs"
        using hs by (simp_all add: parseHeaderBlock_Inr_iff)
      have binv: "body_inv bs" "bd_bytes bs = b" using buildBody_inv [OF bs] by simp_all
      have fr: "b = [] \<and> d = h \<or> d = h @ crlf @ b" using splitHeaderBody_Inr Inr p by blast
      have "h \<noteq> []"
        using header_block_terminated [OF inv(1)] inv by (auto simp: block_fits_def terminated_def HasSuffix_iff)
      with fr have "d \<noteq> []" by auto
      from NewMessage_components [OF inv(1) binv(1) this _ binv(2) [symmetric]] fr inv(2)
      have "\<exists>m. NewMessage d hs bs (metadata_of d hs bs) = Inr m" by simp
      then show False
        using assms ok pol Inr p c hs bs inv binv
        by (auto simp: ParseWithOptions_def metadata_of_def parse_code_def Body_Len_def split: if_splits)
    qed
  qed
qed

end
