(* ===== verification/Rawmsg_Build.thy ===== *)
theory Rawmsg_Build
  imports Rawmsg_Parse
begin

text \<open>
  Building messages from validated parts (package \<open>internal/rawmsg\<close>): reconstructed header blocks,
  bodies and messages (\<open>reconstruction.go\<close>) and the insertion of a block of trace fields above the
  inherited header (\<open>insertion.go\<close>). The lemmas show what each constructor accepts, that its
  result is the expected message, and that the result parses back to itself.
\<close>

section \<open>Reconstruction\<close>

definition reconstructionLimitError :: "string \<Rightarrow> int \<Rightarrow> ParserError" where
  "reconstructionLimitError limitName limit = limitErrorAt zeroLocation limitName limit"

fun reconstructFieldsLoop ::
    "ParserOptions \<Rightarrow> bytes list \<Rightarrow> int \<Rightarrow> (ParserError, int) result" where
  "reconstructFieldsLoop options [] totalBytes = Inr totalBytes"
| "reconstructFieldsLoop options (encoded # rest) totalBytes =
     (if length encoded = 0 \<or> int (length encoded) > MaxHeaderFieldBytes options
      then Inl (reconstructionLimitError ''max_header_field_bytes'' (MaxHeaderFieldBytes options))
      else res_bind (parseHeaderBlock encoded options) (\<lambda>parsed.
        if HeaderBlock_Len parsed \<noteq> 1 then Inl invariantError
        else if totalBytes > MaxHeaderBytes options - int (length encoded)
        then Inl (reconstructionLimitError ''max_header_bytes'' (MaxHeaderBytes options))
        else reconstructFieldsLoop options rest (totalBytes + int (length encoded))))"

definition NewReconstructedHeaderBlock ::
    "bytes list \<Rightarrow> ParserOptions \<Rightarrow> (ParserError, HeaderBlock) result" where
  "NewReconstructedHeaderBlock fieldBytes options =
     res_check (ParserOptions_Validate options)
      (if int (length fieldBytes) > MaxHeaderFields options
       then Inl (reconstructionLimitError ''max_header_fields'' (MaxHeaderFields options))
       else if length fieldBytes = 0 then NewHeaderBlock [] []
       else res_bind (reconstructFieldsLoop options fieldBytes 0) (\<lambda>totalBytes.
              parseHeaderBlock (concat fieldBytes) options))"

definition NewReconstructedBody :: "bytes \<Rightarrow> ParserOptions \<Rightarrow> (ParserError, Body) result" where
  "NewReconstructedBody data options =
     res_check (ParserOptions_Validate options)
      (if int (length data) > MaxMessageBytes options
       then Inl (reconstructionLimitError ''max_message_bytes'' (MaxMessageBytes options))
       else buildBody data options 0)"

definition NewReconstructedMessageWithFraming ::
    "HeaderBlock \<Rightarrow> Body \<Rightarrow> ParserOptions \<Rightarrow> MessageFraming \<Rightarrow> (ParserError, Message) result" where
  "NewReconstructedMessageWithFraming headers body options framing =
     res_check (ParserOptions_Validate options)
      (if \<not> hb_initialized headers \<or> \<not> bd_initialized body \<or> \<not> MessageFraming_Known framing
       then Inl invariantError
       else res_bind (NewReconstructedHeaderBlock (map hf_originalBytes (hb_fields headers)) options) (\<lambda>validatedHeaders.
         res_bind (NewReconstructedBody (bd_bytes body) options) (\<lambda>validatedBody.
           let headerBytes = hb_originalBytes validatedHeaders;
               bodyBytes = bd_bytes validatedBody in
           if framing = MessageFramingHeaderOnly
              \<and> (HeaderBlock_Len validatedHeaders = 0 \<or> length bodyBytes \<noteq> 0)
           then Inl invariantError
           else
             let separatorBytes = (if framing = MessageFramingHeaderOnly then 0 else length crlf) in
             if int (length headerBytes) > MaxMessageBytes options - int separatorBytes
                \<or> int (length bodyBytes) > MaxMessageBytes options - int (length headerBytes) - int separatorBytes
             then Inl (reconstructionLimitError ''max_message_bytes'' (MaxMessageBytes options))
             else
               let raw = headerBytes @ (if separatorBytes \<noteq> 0 then crlf else []) @ bodyBytes in
               NewMessage raw validatedHeaders validatedBody
                 (NewParserMetadata LineEndingPolicyStrictCRLF False (int (length raw)) (int (length raw))
                    (int (length headerBytes)) (int (HeaderBlock_Len headers)) (int (length bodyBytes))))))"

definition NewReconstructedMessage ::
    "HeaderBlock \<Rightarrow> Body \<Rightarrow> ParserOptions \<Rightarrow> (ParserError, Message) result" where
  "NewReconstructedMessage headers body options =
     NewReconstructedMessageWithFraming headers body options MessageFramingDelimited"

section \<open>Insertion\<close>

type_synonym TransportForm = string

abbreviation TransportFormFinalNetworkPreDotStuffing :: TransportForm where
  "TransportFormFinalNetworkPreDotStuffing \<equiv> ''final_network_form_pre_dot_stuffing''"

definition TransportForm_Known :: "TransportForm \<Rightarrow> bool" where
  "TransportForm_Known f \<longleftrightarrow> f = TransportFormFinalNetworkPreDotStuffing"

record InsertionRequest =
  ir_Message :: Message
  ir_TransportForm :: TransportForm
  ir_Fields :: "bytes list"
  ir_Options :: ParserOptions

definition invalidTransportFormError :: ParserError where
  "invalidTransportFormError =
     NewParserError ErrorCodeInvalidTransportForm zeroLocation (policyDetails [])"

definition insertionInvariantError :: ParserError where
  "insertionInvariantError = NewParserError ErrorCodeInvalidInvariant zeroLocation invariantDetails"

fun firstLimitAbove :: "(string \<times> int \<times> int) list \<Rightarrow> ParserError option" where
  "firstLimitAbove [] = None"
| "firstLimitAbove ((name, value, maximum) # limits) =
     (if value > maximum then Some (reconstructionLimitError name maximum)
      else firstLimitAbove limits)"

definition validateInsertionOptions :: "ParserOptions \<Rightarrow> ParserError option" where
  "validateInsertionOptions options =
     (let hard = DefaultParserOptions in
      firstLimitAbove
        [(limitNameMaxMessageBytes, MaxMessageBytes options, MaxMessageBytes hard),
         (limitNameMaxHeaderBytes, MaxHeaderBytes options, MaxHeaderBytes hard),
         (limitNameMaxHeaderFields, MaxHeaderFields options, MaxHeaderFields hard),
         (limitNameMaxHeaderFieldBytes, MaxHeaderFieldBytes options, MaxHeaderFieldBytes hard)])"

fun insertionFieldsLoop ::
    "ParserOptions \<Rightarrow> bytes list \<Rightarrow> int \<Rightarrow> (ParserError, int) result" where
  "insertionFieldsLoop options [] totalBytes = Inr totalBytes"
| "insertionFieldsLoop options (field # rest) totalBytes =
     (if length field = 0 then Inl insertionInvariantError
      else res_check (enforceStrictCRLF field options)
        (res_bind (NewReconstructedHeaderBlock [field] options) (\<lambda>parsed.
           if HeaderBlock_Len parsed \<noteq> 1 \<or> hb_originalBytes parsed \<noteq> field
           then Inl insertionInvariantError
           else if int (length field) > MaxHeaderBytes options - totalBytes
           then Inl (reconstructionLimitError limitNameMaxHeaderBytes (MaxHeaderBytes options))
           else insertionFieldsLoop options rest (totalBytes + int (length field)))))"

definition validateInsertionFields ::
    "bytes list \<Rightarrow> ParserMetadata \<Rightarrow> ParserOptions \<Rightarrow> (ParserError, int) result" where
  "validateInsertionFields fs metadata options =
     (if int (length fs) > MaxHeaderFields options - md_HeaderFields metadata
      then Inl (reconstructionLimitError limitNameMaxHeaderFields (MaxHeaderFields options))
      else insertionFieldsLoop options fs 0)"

definition insertionPreservedSource :: "Message \<Rightarrow> Message \<Rightarrow> bytes list \<Rightarrow> bool" where
  "insertionPreservedSource source inserted fs =
     (if \<not> Message_Initialized source \<or> \<not> Message_Initialized inserted
         \<or> Message_Framing source \<noteq> Message_Framing inserted
         \<or> bd_bytes (msg_body source) \<noteq> bd_bytes (msg_body inserted) then False
      else
        (let sourceFields = hb_fields (msg_headers source);
             insertedFields = hb_fields (msg_headers inserted) in
         length insertedFields = length sourceFields + length fs
         \<and> (\<forall>index \<in> set [0..<length fs]. fs ! index = hf_originalBytes (insertedFields ! index))
         \<and> (\<forall>index \<in> set [0..<length sourceFields].
              hf_originalBytes (sourceFields ! index)
              = hf_originalBytes (insertedFields ! (length fs + index)))))"

definition PrependValidatedFields :: "InsertionRequest \<Rightarrow> (ParserError, Message) result" where
  "PrependValidatedFields request =
     (let options = ir_Options request in
      if \<not> TransportForm_Known (ir_TransportForm request) then Inl invalidTransportFormError
      else if \<not> Message_Initialized (ir_Message request) \<or> length (ir_Fields request) = 0
      then Inl insertionInvariantError
      else res_check (ParserOptions_Validate options)
       (res_check (validateInsertionOptions options)
         (let sourceBytes = msg_rawBytes (ir_Message request) in
          res_bind (ParseWithOptions sourceBytes options) (\<lambda>source.
            if Message_Framing source \<noteq> Message_Framing (ir_Message request)
            then Inl insertionInvariantError
            else res_bind (validateInsertionFields (ir_Fields request) (msg_metadata source) options) (\<lambda>addedBytes.
              if addedBytes > MaxHeaderBytes options - md_HeaderBytes (msg_metadata source)
              then Inl (reconstructionLimitError ''max_header_bytes'' (MaxHeaderBytes options))
              else if addedBytes > MaxMessageBytes options - int (length sourceBytes)
              then Inl (reconstructionLimitError ''max_message_bytes'' (MaxMessageBytes options))
              else res_bind (ParseWithOptions (concat (ir_Fields request) @ sourceBytes) options) (\<lambda>inserted.
                if \<not> insertionPreservedSource source inserted (ir_Fields request)
                then Inl insertionInvariantError
                else Inr inserted))))))"

section \<open>Fields as octet strings\<close>

text \<open>The octets of exactly one complete field that fits the limits.\<close>

definition single_field :: "ParserOptions \<Rightarrow> bytes \<Rightarrow> bool" where
  "single_field opts e \<longleftrightarrow> (\<exists>f. header_field_inv f \<and> hf_originalBytes f = e \<and> field_fits opts f)"

lemma header_field_inv_index [simp]: "header_field_inv (f\<lparr>hf_index := i\<rparr>) = header_field_inv f"
  by (simp add: header_field_inv_def)

lemma field_fits_index [simp]: "field_fits opts (f\<lparr>hf_index := i\<rparr>) = field_fits opts f"
  by (simp add: field_fits_def)

lemma parse_single:
  "(\<exists>p. parseHeaderBlock e opts = Inr p \<and> HeaderBlock_Len p = 1) \<longleftrightarrow>
     single_field opts e \<and> 1 \<le> MaxHeaderFields opts"
proof
  assume "\<exists>p. parseHeaderBlock e opts = Inr p \<and> HeaderBlock_Len p = 1"
  then obtain p where p: "header_block_inv p" "hb_originalBytes p = e" "block_fits opts p" "HeaderBlock_Len p = 1"
    by (auto simp: parseHeaderBlock_Inr_iff)
  then obtain f where f: "hb_fields p = [f]" by (auto simp: HeaderBlock_Len_def length_Suc_conv)
  then have "header_field_inv f" using p header_block_inv_fields by simp
  moreover have "hf_originalBytes f = e" using p f header_block_original [of p] by simp
  ultimately show "single_field opts e \<and> 1 \<le> MaxHeaderFields opts"
    using p f by (auto simp: single_field_def block_fits_def)
next
  assume r: "single_field opts e \<and> 1 \<le> MaxHeaderFields opts"
  then obtain f where f: "header_field_inv f" "hf_originalBytes f = e" "field_fits opts f"
    by (auto simp: single_field_def)
  let ?p = "\<lparr>hb_fields = [f\<lparr>hf_index := 0\<rparr>], hb_originalBytes = e, hb_initialized = True\<rparr>"
  have "parseHeaderBlock e opts = Inr ?p"
    using f r by (simp add: parseHeaderBlock_Inr_iff header_block_inv_def block_fits_def)
  then show "\<exists>p. parseHeaderBlock e opts = Inr p \<and> HeaderBlock_Len p = 1"
    by (auto simp: HeaderBlock_Len_def)
qed

lemma block_exists:
  "(\<forall>e \<in> set es. \<exists>f. header_field_inv f \<and> hf_originalBytes f = e) \<Longrightarrow>
     \<exists>h. header_block_inv h \<and> map hf_originalBytes (hb_fields h) = es"
proof (induction es rule: rev_induct)
  case Nil
  have "header_block_inv \<lparr>hb_fields = [], hb_originalBytes = [], hb_initialized = True\<rparr>"
    by (simp add: header_block_inv_def)
  then show ?case by force
next
  case (snoc e es)
  then obtain h f where h: "header_block_inv h" "map hf_originalBytes (hb_fields h) = es"
    and f: "header_field_inv f" "hf_originalBytes f = e" by auto
  let ?h = "\<lparr>hb_fields = hb_fields h @ [f\<lparr>hf_index := length (hb_fields h)\<rparr>],
      hb_originalBytes = hb_originalBytes h @ e, hb_initialized = True\<rparr>"
  have "header_block_inv ?h"
    using h f by (auto simp: header_block_inv_def nth_append less_Suc_eq)
  moreover have "map hf_originalBytes (hb_fields ?h) = es @ [e]" using h f by simp
  ultimately show ?case by blast
qed

text \<open>Well-formed fields are determined by their concatenation.\<close>

lemma fields_unique:
  assumes "\<forall>f \<in> set fs. header_field_inv f" "\<forall>f \<in> set gs. header_field_inv f"
    and "concat (map hf_originalBytes fs) = concat (map hf_originalBytes gs)"
  shows "map hf_originalBytes fs = map hf_originalBytes gs"
proof -
  have "fs = [] \<longleftrightarrow> concat (map hf_originalBytes fs) = []" if "\<forall>f \<in> set fs. header_field_inv f" for fs
    using that header_field_inv_original_not_Nil by (cases fs) auto
  with assms have nil: "fs = [] \<longleftrightarrow> gs = []" by metis
  show ?thesis
  proof (cases "fs = []")
    case False
    then have "Some (map hf_originalBytes fs) = Some (map hf_originalBytes gs)"
      using group_lines_fields [OF assms(1)] group_lines_fields [OF assms(2)] assms(3) nil by metis
    then show ?thesis by simp
  qed (use nil in simp)
qed

lemma header_field_eqI:
  assumes "header_field_inv f" "header_field_inv g" "hf_originalBytes f = hf_originalBytes g" "hf_index f = hf_index g"
  shows "f = g"
proof -
  have split: "IndexByte (hf_originalBytes k) CHR '':'' = Some (length (hf_rawName k))"
    if "header_field_inv k" for k
    using that IndexByte_notin validHeaderFieldName_no_specials(3) [of "hf_rawName k"]
    by (simp add: header_field_inv_def)
  have "hf_rawName f = hf_rawName g"
    using assms split [of f] split [of g] by (simp add: header_field_inv_def)
  then have "hf_rawValue f = hf_rawValue g"
    using assms by (simp add: header_field_inv_def)
  with \<open>hf_rawName f = hf_rawName g\<close> assms show ?thesis
    by (cases f; cases g) (simp add: header_field_inv_def)
qed

lemma header_block_eqI:
  assumes "header_block_inv h" "header_block_inv k" "hb_originalBytes h = hb_originalBytes k"
  shows "h = k"
proof -
  have "map hf_originalBytes (hb_fields h) = map hf_originalBytes (hb_fields k)"
    using assms header_block_inv_fields header_block_original fields_unique by metis
  then have len: "length (hb_fields h) = length (hb_fields k)"
    and orig: "\<And>i. i < length (hb_fields h) \<Longrightarrow> hf_originalBytes (hb_fields h ! i) = hf_originalBytes (hb_fields k ! i)"
    by (metis length_map, metis length_map nth_map)
  have "hb_fields h = hb_fields k"
    using len orig assms by (intro nth_equalityI) (auto simp: header_block_inv_def intro!: header_field_eqI)
  with assms show ?thesis by (cases h; cases k) (simp add: header_block_inv_def)
qed

section \<open>What reconstruction accepts\<close>

lemma single_field_length: "single_field opts e \<Longrightarrow> 0 < length e \<and> int (length e) \<le> MaxHeaderFieldBytes opts"
  using header_field_inv_original_not_Nil by (auto simp: single_field_def field_fits_def)

lemma reconstructFieldsLoop_Inr_iff:
  assumes "1 \<le> MaxHeaderFields opts" "t \<le> MaxHeaderBytes opts"
  shows "reconstructFieldsLoop opts es t = Inr n \<longleftrightarrow>
     (\<forall>e \<in> set es. single_field opts e) \<and> n = t + int (length (concat es)) \<and> n \<le> MaxHeaderBytes opts"
  using assms
proof (induction es arbitrary: t)
  case (Cons e es)
  have "reconstructFieldsLoop opts (e # es) t = Inr n \<longleftrightarrow>
      single_field opts e \<and> t + int (length e) \<le> MaxHeaderBytes opts
      \<and> reconstructFieldsLoop opts es (t + int (length e)) = Inr n"
    using parse_single [of e opts] single_field_length [of opts e] Cons.prems
    by (auto simp: res_bind_Inr_iff)
  then show ?case using Cons by (auto simp: add.assoc)
qed auto

definition block_of :: "bytes list \<Rightarrow> HeaderBlock \<Rightarrow> bool" where
  "block_of es h \<longleftrightarrow> header_block_inv h \<and> map hf_originalBytes (hb_fields h) = es"

lemma block_of_unique: "block_of es h \<Longrightarrow> block_of es k \<Longrightarrow> h = k"
  using header_block_eqI header_block_original unfolding block_of_def by metis

lemma block_of_bytes: "block_of es h \<Longrightarrow> hb_originalBytes h = concat es"
  using header_block_original unfolding block_of_def by metis

lemma single_fields_block: "\<forall>e \<in> set es. single_field opts e \<Longrightarrow> \<exists>h. block_of es h"
  using block_exists unfolding block_of_def single_field_def by metis

lemma block_of_single_fields:
  "block_of es h \<Longrightarrow> (\<forall>e \<in> set es. single_field opts e) \<longleftrightarrow> (\<forall>f \<in> set (hb_fields h). field_fits opts f)"
  using header_block_inv_fields unfolding block_of_def single_field_def field_fits_def by fastforce

lemma NewReconstructedHeaderBlock_Inr_iff:
  "NewReconstructedHeaderBlock es opts = Inr h \<longleftrightarrow>
     ParserOptions_Validate opts = None \<and> int (length es) \<le> MaxHeaderFields opts
     \<and> (\<forall>e \<in> set es. single_field opts e) \<and> int (length (concat es)) \<le> MaxHeaderBytes opts
     \<and> block_of es h"
proof (cases "ParserOptions_Validate opts = None \<and> int (length es) \<le> MaxHeaderFields opts")
  case False
  then show ?thesis by (auto simp: NewReconstructedHeaderBlock_def res_check_Inr_iff)
next
  case ok: True
  then have pos: "1 \<le> MaxHeaderFields opts" "0 < MaxHeaderBytes opts"
    by (auto simp: ParserOptions_Validate_None_iff)
  show ?thesis
  proof (cases "es = []")
    case True
    then show ?thesis
      using ok pos by (auto simp: NewReconstructedHeaderBlock_def NewHeaderBlock_def block_of_def
          header_block_inv_def)
  next
    case False
    have "NewReconstructedHeaderBlock es opts = Inr h \<longleftrightarrow>
        (\<forall>e \<in> set es. single_field opts e) \<and> int (length (concat es)) \<le> MaxHeaderBytes opts
        \<and> parseHeaderBlock (concat es) opts = Inr h"
      using ok False pos reconstructFieldsLoop_Inr_iff [of opts 0 es]
      by (auto simp: NewReconstructedHeaderBlock_def res_bind_Inr_iff)
    moreover have "parseHeaderBlock (concat es) opts = Inr h \<longleftrightarrow> block_of es h"
      if fit: "\<forall>e \<in> set es. single_field opts e"
    proof -
      obtain k where k: "block_of es k" using single_fields_block fit by blast
      then have "block_fits opts k"
        using ok False fit block_of_single_fields [OF k] by (auto simp: block_fits_def block_of_def)
      then have "parseHeaderBlock (concat es) opts = Inr k"
        using k block_of_bytes [OF k] by (simp add: parseHeaderBlock_Inr_iff block_of_def)
      then show ?thesis using k block_of_unique by auto
    qed
    ultimately show ?thesis using ok by blast
  qed
qed

lemma block_of_self: "header_block_inv h \<Longrightarrow> block_of (map hf_originalBytes (hb_fields h)) h"
  by (simp add: block_of_def)

lemma NewReconstructedBody_Inr_iff:
  "NewReconstructedBody d opts = Inr b \<longleftrightarrow>
     ParserOptions_Validate opts = None \<and> int (length d) \<le> MaxMessageBytes opts \<and> body_ok opts d
     \<and> b = body_of d"
  by (auto simp: NewReconstructedBody_def res_check_Inr_iff buildBody_Inr_iff)

text \<open>The limits on reconstructed components; unlike a parsed message the header may be empty.\<close>

definition parts_fit :: "ParserOptions \<Rightarrow> HeaderBlock \<Rightarrow> Body \<Rightarrow> MessageFraming \<Rightarrow> bool" where
  "parts_fit opts h b framing \<longleftrightarrow>
     ParserOptions_Validate opts = None \<and> MessageFraming_Known framing
     \<and> int (length (hb_fields h)) \<le> MaxHeaderFields opts
     \<and> (\<forall>f \<in> set (hb_fields h). field_fits opts f)
     \<and> int (length (hb_originalBytes h)) \<le> MaxHeaderBytes opts
     \<and> body_ok opts (bd_bytes b)
     \<and> (framing = MessageFramingHeaderOnly \<longrightarrow> hb_fields h \<noteq> [] \<and> bd_bytes b = [])
     \<and> int (length (frame framing (hb_originalBytes h) (bd_bytes b))) \<le> MaxMessageBytes opts"

definition message_of :: "HeaderBlock \<Rightarrow> Body \<Rightarrow> MessageFraming \<Rightarrow> Message" where
  "message_of h b framing =
     (let raw = frame framing (hb_originalBytes h) (bd_bytes b)
      in \<lparr>msg_rawBytes = raw, msg_headers = h, msg_body = b, msg_metadata = metadata_of raw h b\<rparr>)"

lemma message_of_inv:
  assumes "header_block_inv h" "body_inv b" "framing = MessageFramingHeaderOnly \<longrightarrow> hb_fields h \<noteq> [] \<and> bd_bytes b = []"
  shows "message_inv (message_of h b framing)"
proof -
  have "frame framing (hb_originalBytes h) (bd_bytes b) \<noteq> []"
    using assms header_block_terminated [of h] by (auto simp: frame_def terminated_def HasSuffix_iff)
  with assms show ?thesis by (auto simp: message_of_def Let_def message_inv_def frame_def)
qed

lemma message_of_framing:
  assumes "header_block_inv h" "body_inv b" "MessageFraming_Known framing"
    "framing = MessageFramingHeaderOnly \<longrightarrow> hb_fields h \<noteq> [] \<and> bd_bytes b = []"
  shows "Message_Framing (message_of h b framing) = framing"
  using message_inv_initialized [OF message_of_inv [OF assms(1,2,4)]] assms(3,4)
  by (auto simp: Message_Framing_def message_of_def Let_def frame_def MessageFraming_Known_def)

theorem NewReconstructedMessageWithFraming_Inr_iff:
  assumes h: "header_block_inv h" and b: "body_inv b"
  shows "NewReconstructedMessageWithFraming h b opts framing = Inr m \<longleftrightarrow>
     parts_fit opts h b framing \<and> m = message_of h b framing"
proof -
  let ?r = "frame framing (hb_originalBytes h) (bd_bytes b)"
  let ?hdr = "NewReconstructedHeaderBlock (map hf_originalBytes (hb_fields h)) opts"
  have hdr: "?hdr = Inr k \<longleftrightarrow> k = h \<and> ParserOptions_Validate opts = None
      \<and> int (length (hb_fields h)) \<le> MaxHeaderFields opts \<and> (\<forall>f \<in> set (hb_fields h). field_fits opts f)
      \<and> int (length (hb_originalBytes h)) \<le> MaxHeaderBytes opts" for k
    using block_of_self [OF h] block_of_unique block_of_single_fields [OF block_of_self [OF h], of opts]
      header_block_original [OF h]
    by (auto simp: NewReconstructedHeaderBlock_Inr_iff)
  have bdy: "NewReconstructedBody (bd_bytes b) opts = Inr c \<longleftrightarrow> c = b \<and> ParserOptions_Validate opts = None
      \<and> int (length (bd_bytes b)) \<le> MaxMessageBytes opts \<and> body_ok opts (bd_bytes b)" for c
    using b unfolding NewReconstructedBody_Inr_iff body_inv_def by metis
  have len: "int (length ?r) \<le> MaxMessageBytes opts \<longleftrightarrow>
      (let s = (if framing = MessageFramingHeaderOnly then 0 else length crlf) in
       \<not> (int (length (hb_originalBytes h)) > MaxMessageBytes opts - int s
         \<or> int (length (bd_bytes b)) > MaxMessageBytes opts - int (length (hb_originalBytes h)) - int s))"
    if "framing = MessageFramingHeaderOnly \<longrightarrow> bd_bytes b = []"
    using that by (auto simp: frame_def Let_def)
  have raw: "hb_originalBytes h @ (if (if framing = MessageFramingHeaderOnly then 0 else length crlf) \<noteq> 0 then crlf else []) @ bd_bytes b = ?r"
    if "framing = MessageFramingHeaderOnly \<longrightarrow> bd_bytes b = []"
    using that by (simp add: frame_def)
  have new: "NewMessage ?r h b (metadata_of ?r h b) = Inr (message_of h b framing)"
    if "framing = MessageFramingHeaderOnly \<longrightarrow> hb_fields h \<noteq> [] \<and> bd_bytes b = []"
  proof -
    have "?r \<noteq> []" using message_of_inv [OF h b that] by (simp add: message_inv_def message_of_def Let_def)
    from NewMessage_components [OF h b this _ refl] that show ?thesis
      by (auto simp: message_of_def Let_def frame_def)
  qed
  show ?thesis
  proof (cases "framing = MessageFramingHeaderOnly \<longrightarrow> hb_fields h \<noteq> [] \<and> bd_bytes b = []")
    case False
    then show ?thesis
      by (auto simp: NewReconstructedMessageWithFraming_def res_check_Inr_iff res_bind_Inr_iff hdr bdy
          HeaderBlock_Len_def parts_fit_def)
  next
    case True
    then show ?thesis
      using new raw len h b
      by (auto simp: NewReconstructedMessageWithFraming_def res_check_Inr_iff res_bind_Inr_iff hdr bdy
          HeaderBlock_Len_def parts_fit_def metadata_of_def Body_Len_def Let_def frame_def ac_simps)
  qed
qed

text \<open>A reconstructed message with at least one field parses back to itself.\<close>

lemma reconstructed_parses:
  assumes "header_block_inv h" "body_inv b" "hb_fields h \<noteq> []"
    and "NewReconstructedMessageWithFraming h b opts framing = Inr m"
  shows "ParseWithOptions (msg_rawBytes m) opts = Inr m"
proof -
  have m: "m = message_of h b framing" and fit: "parts_fit opts h b framing"
    using assms by (simp_all add: NewReconstructedMessageWithFraming_Inr_iff)
  have "message_inv m" using message_of_inv [OF assms(1,2)] fit m by (simp add: parts_fit_def)
  moreover have "message_fits opts m"
    using fit assms(3) by (simp add: m message_of_def Let_def message_fits_def block_fits_def parts_fit_def)
  ultimately show ?thesis by (rule ParseWithOptions_complete)
qed

section \<open>What insertion accepts\<close>

lemma single_field_strict: "single_field opts e \<Longrightarrow> strict_crlf e"
  using header_field_strict by (auto simp: single_field_def)

lemma NewReconstructedHeaderBlock_single:
  assumes "ParserOptions_Validate opts = None"
  shows "(\<exists>p. NewReconstructedHeaderBlock [e] opts = Inr p) \<longleftrightarrow>
       single_field opts e \<and> int (length e) \<le> MaxHeaderBytes opts"
    and "NewReconstructedHeaderBlock [e] opts = Inr p \<Longrightarrow> HeaderBlock_Len p = 1 \<and> hb_originalBytes p = e"
proof -
  have "1 \<le> MaxHeaderFields opts" using assms by (simp add: ParserOptions_Validate_None_iff)
  then show "(\<exists>p. NewReconstructedHeaderBlock [e] opts = Inr p) \<longleftrightarrow>
       single_field opts e \<and> int (length e) \<le> MaxHeaderBytes opts"
    using assms single_fields_block [of "[e]" opts] by (auto simp: NewReconstructedHeaderBlock_Inr_iff)
  assume "NewReconstructedHeaderBlock [e] opts = Inr p"
  then have p: "block_of [e] p" by (simp add: NewReconstructedHeaderBlock_Inr_iff)
  then have "length (map hf_originalBytes (hb_fields p)) = length [e]" by (simp only: block_of_def)
  with block_of_bytes [OF p] show "HeaderBlock_Len p = 1 \<and> hb_originalBytes p = e"
    by (simp add: HeaderBlock_Len_def)
qed

lemma insertionFieldsLoop_Inr_iff:
  assumes "ParserOptions_Validate opts = None" "0 \<le> t" "t \<le> MaxHeaderBytes opts"
  shows "insertionFieldsLoop opts es t = Inr n \<longleftrightarrow>
     (\<forall>e \<in> set es. single_field opts e) \<and> n = t + int (length (concat es)) \<and> n \<le> MaxHeaderBytes opts"
  using assms
proof (induction es arbitrary: t)
  case (Cons e es)
  have "insertionFieldsLoop opts (e # es) t = Inr n \<longleftrightarrow>
      single_field opts e \<and> t + int (length e) \<le> MaxHeaderBytes opts
      \<and> insertionFieldsLoop opts es (t + int (length e)) = Inr n"
  proof (cases "NewReconstructedHeaderBlock [e] opts")
    case (Inl err)
    then have "\<not> (single_field opts e \<and> int (length e) \<le> MaxHeaderBytes opts)"
      using NewReconstructedHeaderBlock_single(1) [OF Cons.prems(1), of e] by simp
    with Inl Cons.prems(2) show ?thesis by (auto simp: res_check_Inr_iff)
  next
    case (Inr p)
    then have e: "single_field opts e" "HeaderBlock_Len p = 1" "hb_originalBytes p = e"
      using NewReconstructedHeaderBlock_single [OF Cons.prems(1), of e] by blast+
    then have "0 < length e" "enforceStrictCRLF e opts = None"
      using single_field_length single_field_strict by (auto simp: enforceStrictCRLF_None_iff)
    with Inr e show ?thesis by auto
  qed
  then show ?case using Cons by (auto simp: add.assoc)
qed auto

lemma message_inv_metadata:
  assumes "message_inv m"
  shows "md_HeaderFields (msg_metadata m) = int (length (hb_fields (msg_headers m)))"
    "md_HeaderBytes (msg_metadata m) = int (length (hb_originalBytes (msg_headers m)))"
  using assms by (simp_all add: message_inv_def metadata_of_def NewParserMetadata_def HeaderBlock_Len_def)

text \<open>A message with at least one field is determined by its octets.\<close>

lemma header_starts_with_name:
  assumes "header_block_inv h" "hb_fields h \<noteq> []"
  shows "hb_originalBytes h @ r \<noteq> crlf @ r'"
proof -
  obtain f fs where fs: "hb_fields h = f # fs" using assms(2) by (cases "hb_fields h") auto
  have f: "header_field_inv f" using assms(1) fs header_block_inv_fields by simp
  then have "CR \<notin> set (hf_rawName f)" "hf_rawName f \<noteq> []"
    using validHeaderFieldName_no_specials by (auto simp: header_field_inv_def validHeaderFieldName_iff)
  moreover have "hb_originalBytes h = hf_rawName f @ CHR '':'' # hf_rawValue f @ crlf @ concat (map hf_originalBytes fs)"
    using header_block_original [OF assms(1)] f by (simp add: fs header_field_inv_def)
  ultimately show ?thesis by (cases "hf_rawName f") (auto simp: crlf_def)
qed

lemma message_eqI:
  assumes "message_inv m" "message_inv m'" "msg_rawBytes m = msg_rawBytes m'" "hb_fields (msg_headers m) \<noteq> []"
  shows "m = m'"
proof -
  let ?h = "msg_headers m" and ?h' = "msg_headers m'"
  have inv: "header_block_inv ?h" "header_block_inv ?h'" "body_inv (msg_body m)" "body_inv (msg_body m')"
    using assms by (simp_all add: message_inv_def)
  have fr: "bd_bytes (msg_body k) = [] \<and> msg_rawBytes k = hb_originalBytes (msg_headers k)
      \<or> msg_rawBytes k = hb_originalBytes (msg_headers k) @ crlf @ bd_bytes (msg_body k)" "msg_rawBytes k \<noteq> []"
    if "message_inv k" for k using that by (simp_all add: message_inv_def)
  have "hb_fields ?h' \<noteq> []"
  proof
    assume "hb_fields ?h' = []"
    then have "msg_rawBytes m' = crlf @ bd_bytes (msg_body m')"
      using fr [OF assms(2)] header_block_original [OF inv(2)] by auto
    then show False
      using fr(1) [OF assms(1)] header_starts_with_name [OF inv(1) assms(4)] assms(3) by (metis append_Nil2)
  qed
  then have "\<exists>off. splitHeaderBody (msg_rawBytes m) DefaultParserOptions = Inr (hb_originalBytes ?h', bd_bytes (msg_body m'), off)"
    using splitHeaderBody_frame [OF inv(2) _ fr(1) [OF assms(2)]] assms(3) by simp
  moreover have "\<exists>off. splitHeaderBody (msg_rawBytes m) DefaultParserOptions = Inr (hb_originalBytes ?h, bd_bytes (msg_body m), off)"
    using splitHeaderBody_frame [OF inv(1) assms(4) fr(1) [OF assms(1)]] by simp
  ultimately have eq: "hb_originalBytes ?h = hb_originalBytes ?h'" "bd_bytes (msg_body m) = bd_bytes (msg_body m')"
    by auto
  have h: "?h = ?h'" using header_block_eqI inv(1,2) eq(1) by blast
  have b: "msg_body m = msg_body m'" using inv(3,4) eq(2) unfolding body_inv_def by metis
  have "msg_metadata m = msg_metadata m'" using assms(1-3) h b unfolding message_inv_def by metis
  with h b assms(3) show ?thesis by (cases m; cases m') simp
qed

definition insertion_ok :: "InsertionRequest \<Rightarrow> bool" where
  "insertion_ok r \<longleftrightarrow>
     (let opts = ir_Options r; src = ir_Message r; es = ir_Fields r in
      TransportForm_Known (ir_TransportForm r) \<and> es \<noteq> []
      \<and> validateInsertionOptions opts = None \<and> message_fits opts src
      \<and> (\<forall>e \<in> set es. single_field opts e)
      \<and> int (length es + length (hb_fields (msg_headers src))) \<le> MaxHeaderFields opts
      \<and> int (length (concat es) + length (hb_originalBytes (msg_headers src))) \<le> MaxHeaderBytes opts
      \<and> int (length (concat es) + length (msg_rawBytes src)) \<le> MaxMessageBytes opts)"

definition prepended :: "bytes list \<Rightarrow> Message \<Rightarrow> Message \<Rightarrow> bool" where
  "prepended es src m \<longleftrightarrow>
     message_inv m \<and> Message_Framing m = Message_Framing src \<and> msg_body m = msg_body src
     \<and> map hf_originalBytes (hb_fields (msg_headers m))
       = es @ map hf_originalBytes (hb_fields (msg_headers src))"

lemma prepended_block:
  "prepended es src m \<Longrightarrow> block_of (es @ map hf_originalBytes (hb_fields (msg_headers src))) (msg_headers m)"
  by (simp add: prepended_def block_of_def message_inv_def)

lemma prepended_raw:
  assumes "prepended es src m" "message_inv src"
  shows "hb_originalBytes (msg_headers m) = concat es @ hb_originalBytes (msg_headers src)"
    and "msg_rawBytes m = concat es @ msg_rawBytes src"
proof -
  have "header_block_inv (msg_headers src)" using assms(2) by (simp add: message_inv_def)
  then show h: "hb_originalBytes (msg_headers m) = concat es @ hb_originalBytes (msg_headers src)"
    using block_of_bytes [OF prepended_block [OF assms(1)]] header_block_original by simp
  have "message_inv m" "Message_Framing m = Message_Framing src" "msg_body m = msg_body src"
    using assms(1) by (simp_all add: prepended_def)
  then show "msg_rawBytes m = concat es @ msg_rawBytes src"
    using message_inv_frame [of m] message_inv_frame [OF assms(2)] h by (simp add: frame_def)
qed

lemma prepended_exists:
  assumes "message_inv src" "message_fits opts src" "\<forall>e \<in> set es. single_field opts e"
  shows "\<exists>m. prepended es src m"
proof -
  let ?h = "msg_headers src" and ?b = "msg_body src" and ?f = "Message_Framing src"
  have inv: "header_block_inv ?h" "body_inv ?b" using assms(1) by (simp_all add: message_inv_def)
  have "\<forall>e \<in> set (map hf_originalBytes (hb_fields ?h)). single_field opts e"
    using block_of_single_fields [OF block_of_self [OF inv(1)]] assms(2)
    by (simp add: message_fits_def block_fits_def)
  then obtain h where h: "block_of (es @ map hf_originalBytes (hb_fields ?h)) h"
    using single_fields_block [of "es @ map hf_originalBytes (hb_fields ?h)" opts] assms(3) by auto
  then have "length (map hf_originalBytes (hb_fields h)) = length es + length (hb_fields ?h)"
    by (simp add: block_of_def)
  then have "?f = MessageFramingHeaderOnly \<longrightarrow> hb_fields h \<noteq> [] \<and> bd_bytes ?b = []" "MessageFraming_Known ?f"
    using assms(2) message_inv_initialized [OF assms(1)]
    by (auto simp: Message_Framing_def MessageFraming_Known_def message_fits_def block_fits_def)
  then have "prepended es src (message_of h ?b ?f)"
    using message_of_inv [of h ?b ?f] message_of_framing [of h ?b ?f] h inv(2)
    by (simp add: prepended_def block_of_def) (simp add: message_of_def Let_def)
  then show ?thesis ..
qed

lemma prepended_unique: "prepended es src m \<Longrightarrow> prepended es src m' \<Longrightarrow> m = m'"
proof -
  assume p: "prepended es src m" "prepended es src m'"
  have h: "msg_headers m = msg_headers m'" using prepended_block p block_of_unique by blast
  have inv: "message_inv m" "message_inv m'" and b: "msg_body m = msg_body m'"
    and f: "Message_Framing m = Message_Framing m'" using p by (simp_all add: prepended_def)
  have r: "msg_rawBytes m = msg_rawBytes m'"
    using message_inv_frame [OF inv(1)] message_inv_frame [OF inv(2)] h b f by simp
  have "msg_metadata m = msg_metadata m'" using inv h b r unfolding message_inv_def by metis
  with h b r show ?thesis by (cases m; cases m') simp
qed

lemma prepended_fits:
  assumes "insertion_ok r" "message_inv (ir_Message r)" "prepended (ir_Fields r) (ir_Message r) m"
  shows "message_fits (ir_Options r) m"
proof -
  let ?o = "ir_Options r" and ?src = "ir_Message r" and ?es = "ir_Fields r"
  note blk = prepended_block [OF assms(3)]
  have ok: "message_fits ?o ?src" "\<forall>e \<in> set ?es. single_field ?o e" "?es \<noteq> []"
    using assms(1) by (simp_all add: insertion_ok_def Let_def)
  have "header_block_inv (msg_headers ?src)" using assms(2) by (simp add: message_inv_def)
  then have "\<forall>e \<in> set (?es @ map hf_originalBytes (hb_fields (msg_headers ?src))). single_field ?o e"
    using ok block_of_single_fields [OF block_of_self] by (auto simp: message_fits_def block_fits_def)
  then have fit: "\<forall>f \<in> set (hb_fields (msg_headers m)). field_fits ?o f"
    using block_of_single_fields [OF blk] by blast
  have len: "length (hb_fields (msg_headers m)) = length ?es + length (hb_fields (msg_headers ?src))"
    using blk unfolding block_of_def by (metis length_append length_map)
  then have "hb_fields (msg_headers m) \<noteq> []" using ok(3) by auto
  then show ?thesis
    using assms(1,3) ok fit len prepended_raw [OF assms(3,2)]
    by (simp add: message_fits_def block_fits_def insertion_ok_def Let_def prepended_def)
qed

lemma prepended_preserved:
  assumes "prepended es src m" "message_inv src"
  shows "insertionPreservedSource src m es"
proof -
  let ?fs = "hb_fields (msg_headers m)" and ?gs = "hb_fields (msg_headers src)"
  have eq: "map hf_originalBytes ?fs = es @ map hf_originalBytes ?gs"
    using assms(1) by (simp add: prepended_def)
  have len: "length ?fs = length ?gs + length es" using arg_cong [OF eq, of length] by simp
  have nth: "hf_originalBytes (?fs ! i) = (es @ map hf_originalBytes ?gs) ! i" if "i < length ?fs" for i
    using that eq by (metis nth_map)
  have "es ! i = hf_originalBytes (?fs ! i)" if "i < length es" for i
    using nth [of i] that len by (simp add: nth_append)
  moreover have "hf_originalBytes (?gs ! i) = hf_originalBytes (?fs ! (length es + i))" if "i < length ?gs" for i
    using nth [of "length es + i"] that len by (simp add: nth_append)
  ultimately show ?thesis
    using assms len message_inv_initialized
    by (simp add: insertionPreservedSource_def Let_def prepended_def)
qed

lemma PrependValidatedFields_ok:
  assumes "message_inv (ir_Message r)" "insertion_ok r" "prepended (ir_Fields r) (ir_Message r) m"
  shows "PrependValidatedFields r = Inr m"
proof -
  let ?o = "ir_Options r" and ?src = "ir_Message r" and ?es = "ir_Fields r"
  have ok: "message_fits ?o ?src" "\<forall>e \<in> set ?es. single_field ?o e" "?es \<noteq> []"
      "ParserOptions_Validate ?o = None" "validateInsertionOptions ?o = None"
    using assms(2) by (simp_all add: insertion_ok_def Let_def message_fits_def)
  have src: "ParseWithOptions (msg_rawBytes ?src) ?o = Inr ?src"
    using ParseWithOptions_complete assms(1) ok(1) by blast
  have md: "md_HeaderFields (msg_metadata ?src) = int (length (hb_fields (msg_headers ?src)))"
      "md_HeaderBytes (msg_metadata ?src) = int (length (hb_originalBytes (msg_headers ?src)))"
    using assms(1) by (simp_all add: message_inv_metadata)
  have "0 \<le> MaxHeaderBytes ?o" using ok(4) by (simp add: ParserOptions_Validate_None_iff)
  then have flds: "validateInsertionFields ?es (msg_metadata ?src) ?o = Inr (int (length (concat ?es)))"
    using assms(2) ok insertionFieldsLoop_Inr_iff [OF ok(4), of 0]
    by (simp add: validateInsertionFields_def insertion_ok_def Let_def md)
  have out: "ParseWithOptions (concat ?es @ msg_rawBytes ?src) ?o = Inr m"
    using ParseWithOptions_complete prepended_fits [OF assms(2,1,3)] assms(3) prepended_raw(2) [OF assms(3,1)]
    by (metis prepended_def)
  show ?thesis
    using assms(2) ok src flds out prepended_preserved [OF assms(3,1)] message_inv_initialized [OF assms(1)]
    by (simp add: PrependValidatedFields_def Let_def insertion_ok_def md)
qed

theorem PrependValidatedFields_Inr_iff:
  assumes inv: "message_inv (ir_Message r)"
  shows "PrependValidatedFields r = Inr m \<longleftrightarrow>
     insertion_ok r \<and> prepended (ir_Fields r) (ir_Message r) m"
proof
  assume l: "PrependValidatedFields r = Inr m"
  let ?o = "ir_Options r" and ?src = "ir_Message r" and ?es = "ir_Fields r"
  from l obtain src n where
    v: "TransportForm_Known (ir_TransportForm r)" "?es \<noteq> []" "ParserOptions_Validate ?o = None"
      "validateInsertionOptions ?o = None"
    and src: "ParseWithOptions (msg_rawBytes ?src) ?o = Inr src"
    and flds: "validateInsertionFields ?es (msg_metadata src) ?o = Inr n"
    and lim: "n \<le> MaxHeaderBytes ?o - md_HeaderBytes (msg_metadata src)"
      "n \<le> MaxMessageBytes ?o - int (length (msg_rawBytes ?src))"
    by (auto simp: PrependValidatedFields_def Let_def res_bind_Inr_iff res_check_Inr_iff not_less split: if_splits)
  have s: "message_inv src" "msg_rawBytes src = msg_rawBytes ?src" "message_fits ?o src"
    using src by (simp_all add: ParseWithOptions_Inr_iff)
  have [simp]: "src = ?src"
    using message_eqI [OF s(1) inv s(2)] s(3) by (simp add: message_fits_def block_fits_def)
  have md: "md_HeaderFields (msg_metadata ?src) = int (length (hb_fields (msg_headers ?src)))"
      "md_HeaderBytes (msg_metadata ?src) = int (length (hb_originalBytes (msg_headers ?src)))"
    using inv by (simp_all add: message_inv_metadata)
  have "0 \<le> MaxHeaderBytes ?o" using v(3) by (simp add: ParserOptions_Validate_None_iff)
  with flds have n: "\<forall>e \<in> set ?es. single_field ?o e" "n = int (length (concat ?es))"
      "int (length ?es) \<le> MaxHeaderFields ?o - int (length (hb_fields (msg_headers ?src)))"
    using insertionFieldsLoop_Inr_iff [OF v(3), of 0 ?es n]
    by (auto simp: validateInsertionFields_def md split: if_splits)
  have ok: "insertion_ok r"
    using v n lim s(3) by (simp add: insertion_ok_def Let_def md)
  obtain m' where m': "prepended ?es ?src m'" using prepended_exists [OF inv _ n(1)] s(3) by auto
  then have "PrependValidatedFields r = Inr m'" using PrependValidatedFields_ok inv ok by blast
  with l m' ok show "insertion_ok r \<and> prepended ?es ?src m" by simp
qed (use PrependValidatedFields_ok inv in blast)

end
