(* ===== verification/Headerfold.thy ===== *)
theory Headerfold
  imports Rawmsg_Header
begin

text \<open>
  Package \<open>headerfold\<close>: the restoration of fold points in daemon-projected field values. The
  projection removes every CRLF of a rendered field and keeps the TAB that followed it;
  \<open>Restore\<close> puts an LF before every such TAB. The lemmas show that restoring after projecting
  gives the LF form of the original field, and when every physical line fits the line limit.
\<close>

section \<open>Model\<close>

definition MaxLineOctets :: nat where "MaxLineOctets = 998"

text \<open>\<open>strings.ReplaceAll\<close> with a one-octet pattern.\<close>

definition ReplaceAllByte :: "bytes \<Rightarrow> byte \<Rightarrow> bytes \<Rightarrow> bytes" where
  "ReplaceAllByte s old new = concat (map (\<lambda>b. if b = old then new else [b]) s)"

definition Restore :: "bytes \<Rightarrow> bytes" where
  "Restore value =
     (if value = [] then value
      else take 1 value @ ReplaceAllByte (drop 1 value) TAB [LF, TAB])"

fun lineLimitLoop :: "bytes \<Rightarrow> bool \<Rightarrow> bytes list \<Rightarrow> bool" where
  "lineLimitLoop name first [] = True"
| "lineLimitLoop name first (line # lines) =
     (let len = length line + (if first then length name + 1 else 0) in
      if len > MaxLineOctets then False else lineLimitLoop name False lines)"

definition WithinLineLimit :: "bytes \<Rightarrow> bytes \<Rightarrow> bool" where
  "WithinLineLimit name folded = lineLimitLoop name True (SplitByte LF folded)"

section \<open>Correctness\<close>

text \<open>The projection of a field value by the daemon: CRLF octets are dropped.\<close>

definition project :: "bytes \<Rightarrow> bytes" where
  "project v = filter (\<lambda>b. b \<noteq> CR \<and> b \<noteq> LF) v"

text \<open>The LF form of a value: every CR of a CRLF is dropped.\<close>

definition lf_form :: "bytes \<Rightarrow> bytes" where
  "lf_form v = filter (\<lambda>b. b \<noteq> CR) v"

text \<open>
  The grammar of library-rendered values: after the first octet, a CRLF is always followed by a
  TAB and a TAB occurs only directly after a CRLF.
\<close>

fun tab_folded :: "bytes \<Rightarrow> bool" where
  "tab_folded [] = True"
| "tab_folded (b # s) =
     (if b = CR then
        (case s of c # d # s' \<Rightarrow> c = LF \<and> d = TAB \<and> tab_folded s' | _ \<Rightarrow> False)
      else b \<noteq> LF \<and> b \<noteq> TAB \<and> tab_folded s)"

lemma ReplaceAllByte_simps [simp]:
  "ReplaceAllByte [] old new = []"
  "ReplaceAllByte (b # s) old new = (if b = old then new else [b]) @ ReplaceAllByte s old new"
  by (simp_all add: ReplaceAllByte_def)

lemma replace_project:
  "tab_folded s \<Longrightarrow> ReplaceAllByte (project s) TAB [LF, TAB] = lf_form s"
  by (induction s rule: tab_folded.induct)
     (auto simp: project_def lf_form_def split: if_splits list.splits)

lemma Restore_project:
  assumes "tab_folded s" "b \<noteq> CR" "b \<noteq> LF"
  shows "Restore (project (b # s)) = lf_form (b # s)"
proof -
  have p: "project (b # s) = b # project s" and l: "lf_form (b # s) = b # lf_form s"
    using assms by (simp_all add: project_def lf_form_def)
  show ?thesis by (simp add: Restore_def p l replace_project [OF assms(1)])
qed

lemma filter_replace:
  "LF \<notin> set s \<Longrightarrow> filter (\<lambda>b. b \<noteq> LF) (ReplaceAllByte s TAB [LF, TAB]) = s"
  by (induction s) auto

text \<open>Restoring only adds LF octets: deleting them gives the value back.\<close>

lemma Restore_filter: "LF \<notin> set v \<Longrightarrow> filter (\<lambda>b. b \<noteq> LF) (Restore v) = v"
  by (cases v) (auto simp: Restore_def filter_replace)

lemma lineLimitLoop_iff:
  "lineLimitLoop name False ls \<longleftrightarrow> (\<forall>l \<in> set ls. length l \<le> MaxLineOctets)"
  by (induction ls) (auto simp: Let_def)

lemma WithinLineLimit_iff:
  "WithinLineLimit name folded \<longleftrightarrow>
     (\<forall>l \<in> set (SplitByte LF (name @ CHR '':'' # folded)). length l \<le> MaxLineOctets)"
  if "LF \<notin> set name"
proof -
  obtain l ls where l: "SplitByte LF folded = l # ls" by (cases "SplitByte LF folded") auto
  have "SplitByte LF (name @ CHR '':'' # folded) = (name @ CHR '':'' # l) # ls"
    using that by (induction name) (auto simp: l)
  then show ?thesis
    by (auto simp: WithinLineLimit_def l Let_def lineLimitLoop_iff)
qed

end
