(* ===== verification/Rawmsg_Properties.thy ===== *)
theory Rawmsg_Properties
  imports Rawmsg_Build Headerfold
begin

text \<open>
  The properties of the raw-message layer (packages \<open>internal/rawmsg\<close> and \<open>headerfold\<close>), each with
  a concrete instance where it has hypotheses.
\<close>

section \<open>Parsing\<close>

text \<open>
  C1: \<open>ParseWithOptions\<close> accepts exactly the octets of well-formed messages within the limits, and
  returns their decomposition: the result is the one message whose raw octets are the input, whose
  fields are complete and indexed in order, whose body lines partition the body, and whose metadata
  counts both.
\<close>

theorem parse_exact:
  "ParseWithOptions d opts = Inr m \<longleftrightarrow> message_inv m \<and> msg_rawBytes m = d \<and> message_fits opts m"
  by (rule ParseWithOptions_Inr_iff)

text \<open>
  C31: A rejected input is reported with a policy, limit, line-ending, delimiter or header-grammar
  code; the invariant error of the constructors never escapes the parser.
\<close>

theorem parse_rejects_with_code:
  assumes "ParseWithOptions d opts = Inl e"
  shows "pe_code e \<in> {ErrorCodeUnsupportedPolicy, ErrorCodeLimitExceeded, ErrorCodeMixedLineEndings,
     ErrorCodeBareLF, ErrorCodeBareCR, ErrorCodeMissingDelimiter, ErrorCodeMalformedHeader}"
  using ParseWithOptions_code [OF assms] unfolding parse_code_def .

theorem parse_rejects_with_code_witness:
  "\<exists>e. ParseWithOptions ''A: b'' DefaultParserOptions = Inl e \<and>
     pe_code e \<in> {ErrorCodeUnsupportedPolicy, ErrorCodeLimitExceeded, ErrorCodeMixedLineEndings,
     ErrorCodeBareLF, ErrorCodeBareCR, ErrorCodeMissingDelimiter, ErrorCodeMalformedHeader}"
proof -
  have "isl (ParseWithOptions ''A: b'' DefaultParserOptions)" by code_simp
  then obtain e where "ParseWithOptions ''A: b'' DefaultParserOptions = Inl e" by (auto simp: isl_def)
  from this parse_rejects_with_code [OF this] show ?thesis by blast
qed

text \<open>
  The line-ending policy: text with no bare CR and no bare LF passes; otherwise mixed endings,
  bare LF and bare CR are told apart.
\<close>

lemma line_ending_policy:
  "map_option pe_code (enforceStrictCRLF d opts) =
     (if (bare_LF d \<or> bare_CR d) \<and> ((\<exists>a r. d = a @ crlf @ r) \<or> bare_LF d \<and> bare_CR d)
      then Some ErrorCodeMixedLineEndings
      else if bare_LF d then Some ErrorCodeBareLF
      else if bare_CR d then Some ErrorCodeBareCR
      else None)"
  using enforceStrictCRLF_code [of d opts] unfolding no_crlf_iff by simp

text \<open>
  \<open>parseHeaderBlock\<close> accepts exactly the concatenations of complete fields within the limits
  and splits them at the field boundaries, in order, with no octet lost.
\<close>

lemma header_block_exact:
  "parseHeaderBlock hb opts = Inr h \<longleftrightarrow>
     header_block_inv h \<and> hb_originalBytes h = hb \<and> block_fits opts h"
  by (rule parseHeaderBlock_Inr_iff)

text \<open>
  The body index: the indexed spans are the physical lines of the body in order, so their
  octets concatenate to the body.
\<close>

lemma body_lines_partition:
  assumes "buildBody d opts off = Inr b"
  shows "bd_bytes b = d \<and> map (lineEncoded b) (bd_lines b) = crlf_lines d
     \<and> concat (map (lineEncoded b) (bd_lines b)) = d"
  using buildBody_inv [OF assms] lineEncoded_lines [of b] by simp

lemma body_lines_partition_example:
  "\<exists>b. buildBody ([CHR ''h'', CHR ''i'', CR, LF, CHR ''x'']) DefaultParserOptions 0 = Inr b
     \<and> concat (map (lineEncoded b) (bd_lines b)) = [CHR ''h'', CHR ''i'', CR, LF, CHR ''x'']"
proof -
  have "\<not> isl (buildBody ([CHR ''h'', CHR ''i'', CR, LF, CHR ''x'']) DefaultParserOptions 0)" by code_simp
  then obtain b where "buildBody ([CHR ''h'', CHR ''i'', CR, LF, CHR ''x'']) DefaultParserOptions 0 = Inr b"
    by (cases "buildBody ([CHR ''h'', CHR ''i'', CR, LF, CHR ''x'']) DefaultParserOptions 0") auto
  from this body_lines_partition [OF this] show ?thesis by blast
qed

text \<open>
  Unfolding a grammatical field value removes exactly its CR and LF octets, so the unfolded
  value of a parsed field has no line break.
\<close>

lemma unfold_exact:
  assumes "validHeaderFieldValue v"
  shows "unfoldHeaderValue v = filter (\<lambda>b. b \<noteq> CR \<and> b \<noteq> LF) v"
  using assms by (rule unfoldHeaderValue_valid)

lemma unfold_exact_example:
  "unfoldHeaderValue [CHR ''a'', CR, LF, TAB, CHR ''b''] = [CHR ''a'', TAB, CHR ''b'']"
proof -
  have "validHeaderFieldValue [CHR ''a'', CR, LF, TAB, CHR ''b'']" by code_simp
  from unfold_exact [OF this] show ?thesis by simp
qed

text \<open>
  Lookup by name ignores letter case and the reverse scan returns the last of the matching
  fields in message order.
\<close>

lemma lookup_last:
  "LastFieldByName h (lowerASCII name) =
     (if FieldsByName h name = [] then None else Some (last (FieldsByName h name)))"
  using LastFieldByName_last [of h "lowerASCII name"] FieldsByName_lower [of h name] by simp

section \<open>Building\<close>

text \<open>
  Reconstruction from validated parts succeeds exactly when they fit the limits and the
  framing, and returns the message of those parts.
\<close>

lemma reconstruct_exact:
  assumes "header_block_inv h" "body_inv b"
  shows "NewReconstructedMessageWithFraming h b opts framing = Inr m \<longleftrightarrow>
     parts_fit opts h b framing \<and> m = message_of h b framing"
  using assms by (rule NewReconstructedMessageWithFraming_Inr_iff)

text \<open>A small delimited message for the concrete instances.\<close>

definition sampleBytes :: bytes where
  "sampleBytes = ''A: b'' @ crlf @ ''C: d'' @ crlf @ crlf @ ''hi'' @ crlf"

lemma sample_message:
  obtains m where "Parse sampleBytes = Inr m" "message_inv m" "message_fits DefaultParserOptions m"
proof -
  have "\<not> isl (Parse sampleBytes)" by code_simp
  then obtain m where "Parse sampleBytes = Inr m" by (cases "Parse sampleBytes") auto
  then show thesis using that ParseWithOptions_Inr_iff by (auto simp: Parse_def)
qed

lemma sample_parts:
  obtains h b m where "header_block_inv h" "body_inv b" "hb_fields h \<noteq> []"
    "NewReconstructedMessageWithFraming h b DefaultParserOptions MessageFramingDelimited = Inr m"
proof -
  obtain m where m: "Parse sampleBytes = Inr m" "message_inv m" "message_fits DefaultParserOptions m"
    by (rule sample_message)
  have "\<not> isl (res_bind (Parse sampleBytes) (\<lambda>m. NewReconstructedMessageWithFraming (msg_headers m) (msg_body m)
      DefaultParserOptions MessageFramingDelimited))" by code_simp
  with m(1) obtain m' where
    "NewReconstructedMessageWithFraming (msg_headers m) (msg_body m) DefaultParserOptions MessageFramingDelimited = Inr m'"
    by (cases "NewReconstructedMessageWithFraming (msg_headers m) (msg_body m) DefaultParserOptions MessageFramingDelimited") auto
  then show thesis using that m by (auto simp: message_inv_def message_fits_def block_fits_def)
qed

lemma reconstruct_exact_example:
  "\<exists>h b. header_block_inv h \<and> body_inv b \<and>
     NewReconstructedMessageWithFraming h b DefaultParserOptions MessageFramingDelimited
       = Inr (message_of h b MessageFramingDelimited)"
proof -
  obtain h b m where p: "header_block_inv h" "body_inv b"
    "NewReconstructedMessageWithFraming h b DefaultParserOptions MessageFramingDelimited = Inr m"
    by (rule sample_parts)
  with reconstruct_exact [OF p(1,2)] show ?thesis by blast
qed

text \<open>
  C32: A reconstructed message with at least one field is a fixed point of the parser: its octets
  parse back to the same message.
\<close>

theorem reconstruct_round_trip:
  assumes "header_block_inv h" "body_inv b" "hb_fields h \<noteq> []"
    and "NewReconstructedMessageWithFraming h b opts framing = Inr m"
  shows "ParseWithOptions (msg_rawBytes m) opts = Inr m"
  using assms by (rule reconstructed_parses)

theorem reconstruct_round_trip_witness:
  "\<exists>h b m. header_block_inv h \<and> body_inv b \<and> hb_fields h \<noteq> []
     \<and> NewReconstructedMessageWithFraming h b DefaultParserOptions MessageFramingDelimited = Inr m
     \<and> ParseWithOptions (msg_rawBytes m) DefaultParserOptions = Inr m"
proof -
  obtain h b m where p: "header_block_inv h" "body_inv b" "hb_fields h \<noteq> []"
    "NewReconstructedMessageWithFraming h b DefaultParserOptions MessageFramingDelimited = Inr m"
    by (rule sample_parts)
  with reconstruct_round_trip [OF p] show ?thesis by blast
qed

text \<open>
  C2: \<open>PrependValidatedFields\<close> succeeds exactly on a declared final transport form, narrowed
  limits, a source that parses under them and complete fields that fit; the result has the new
  fields above the inherited ones in request order, and the source's framing and body.
\<close>

theorem prepend_exact:
  assumes "message_inv (ir_Message r)"
  shows "PrependValidatedFields r = Inr m \<longleftrightarrow>
     insertion_ok r \<and> prepended (ir_Fields r) (ir_Message r) m"
  using assms by (rule PrependValidatedFields_Inr_iff)

definition sampleRequest :: "Message \<Rightarrow> InsertionRequest" where
  "sampleRequest m = \<lparr>ir_Message = m, ir_TransportForm = TransportFormFinalNetworkPreDotStuffing,
     ir_Fields = [''Message-Instance: m=1'' @ crlf], ir_Options = DefaultParserOptions\<rparr>"

lemma sample_insertion:
  obtains m m' where "message_inv m" "PrependValidatedFields (sampleRequest m) = Inr m'"
proof -
  obtain m where m: "Parse sampleBytes = Inr m" "message_inv m" by (rule sample_message)
  have "\<not> isl (res_bind (Parse sampleBytes) (\<lambda>m. PrependValidatedFields (sampleRequest m)))" by code_simp
  with m(1) obtain m' where "PrependValidatedFields (sampleRequest m) = Inr m'"
    by (cases "PrependValidatedFields (sampleRequest m)") auto
  with m(2) show thesis by (rule that)
qed

theorem prepend_exact_witness:
  "\<exists>m m'. message_inv m \<and> PrependValidatedFields (sampleRequest m) = Inr m'
     \<and> prepended [''Message-Instance: m=1'' @ crlf] m m'"
proof -
  obtain m m' where m: "message_inv m" "PrependValidatedFields (sampleRequest m) = Inr m'"
    by (rule sample_insertion)
  have "message_inv (ir_Message (sampleRequest m))" using m(1) by (simp add: sampleRequest_def)
  from prepend_exact [OF this] m show ?thesis by (auto simp: sampleRequest_def)
qed

text \<open>
  Insertion rewrites no inherited octet: the output is the new fields followed by the source
  octets, and it parses to the returned message.
\<close>

lemma prepend_octets:
  assumes "message_inv (ir_Message r)" "PrependValidatedFields r = Inr m"
  shows "msg_rawBytes m = concat (ir_Fields r) @ msg_rawBytes (ir_Message r)
     \<and> msg_body m = msg_body (ir_Message r) \<and> Message_Framing m = Message_Framing (ir_Message r)
     \<and> ParseWithOptions (msg_rawBytes m) (ir_Options r) = Inr m"
proof -
  have p: "insertion_ok r" "prepended (ir_Fields r) (ir_Message r) m"
    using assms PrependValidatedFields_Inr_iff by blast+
  have "ParseWithOptions (msg_rawBytes m) (ir_Options r) = Inr m"
    using ParseWithOptions_complete prepended_fits [OF p(1) assms(1) p(2)] p(2) by (simp add: prepended_def)
  then show ?thesis using p(2) prepended_raw(2) [OF p(2) assms(1)] by (simp add: prepended_def)
qed

lemma prepend_octets_example:
  "\<exists>m m'. PrependValidatedFields (sampleRequest m) = Inr m'
     \<and> msg_rawBytes m' = (''Message-Instance: m=1'' @ crlf) @ msg_rawBytes m"
proof -
  obtain m m' where m: "message_inv m" "PrependValidatedFields (sampleRequest m) = Inr m'"
    by (rule sample_insertion)
  have "message_inv (ir_Message (sampleRequest m))" using m(1) by (simp add: sampleRequest_def)
  from prepend_octets [OF this m(2)] m(2) show ?thesis by (auto simp: sampleRequest_def)
qed

section \<open>Fold points\<close>

text \<open>
  Restoring the fold points of a projected value gives the LF form of the rendered field: the
  projection loses no fold when a TAB after the first octet occurs only directly after a CRLF.
\<close>

lemma restore_projected:
  assumes "tab_folded s" "b \<noteq> CR" "b \<noteq> LF"
  shows "Restore (project (b # s)) = lf_form (b # s)"
  using assms by (rule Restore_project)

lemma restore_projected_example:
  "Restore (project ([CHR ''a'', CHR ''b'', CR, LF, TAB, CHR ''c''])) = [CHR ''a'', CHR ''b'', LF, TAB, CHR ''c'']"
proof -
  have "tab_folded [CHR ''b'', CR, LF, TAB, CHR ''c'']" by code_simp
  from restore_projected [OF this, of "CHR ''a''"] show ?thesis by (simp add: lf_form_def)
qed

text \<open>
  The line limit counts the field name and colon on the first physical line: the check holds
  exactly when every LF-separated line of the whole field has at most 998 octets.
\<close>

lemma line_limit_exact:
  assumes "LF \<notin> set name"
  shows "WithinLineLimit name folded \<longleftrightarrow>
     (\<forall>l \<in> set (SplitByte LF (name @ CHR '':'' # folded)). length l \<le> MaxLineOctets)"
  using assms by (rule WithinLineLimit_iff)

theorem line_limit_exact_witness:
  "WithinLineLimit ''A'' ''b'' \<longleftrightarrow> (\<forall>l \<in> set (SplitByte LF (''A'' @ CHR '':'' # ''b'')). length l \<le> MaxLineOctets)"
  by (rule line_limit_exact) simp

end
