(* ===== verification/Tagvalue_Base.thy ===== *)
theory Tagvalue_Base
  imports Go_Bytes
begin

text \<open>
  Errors and limits of package \<open>internal/tagvalue\<close> (\<open>errors.go\<close>, \<open>limits.go\<close>). The Go error codes,
  classes and limit names are string types with a closed vocabulary; \<open>TagErrorCodeOther\<close> stands
  for a code outside it, which the constructor replaces.
\<close>

section \<open>Errors\<close>

datatype TagErrorCode =
    TagErrorCodeEmptyTagSpec
  | TagErrorCodeMissingEquals
  | TagErrorCodeInvalidTagName
  | TagErrorCodeInvalidTagValue
  | TagErrorCodeDuplicateTag
  | TagErrorCodeLimitExceeded
  | TagErrorCodeInvalidOptions
  | TagErrorCodeInvalidBase64Alphabet
  | TagErrorCodeInvalidBase64Padding
  | TagErrorCodeInvalidBase64Length
  | TagErrorCodeInvalidBase64PadBits
  | TagErrorCodeInvalidBase64Whitespace
  | TagErrorCodeOther string

definition TagErrorCode_Known :: "TagErrorCode \<Rightarrow> bool" where
  "TagErrorCode_Known c = (case c of TagErrorCodeOther s \<Rightarrow> False | _ \<Rightarrow> True)"

datatype TagErrorClass =
    TagErrorClassUnset
  | TagErrorClassMalformed
  | TagErrorClassDuplicate
  | TagErrorClassLimit
  | TagErrorClassInvariant

definition TagErrorClass_Known :: "TagErrorClass \<Rightarrow> bool" where
  "TagErrorClass_Known c \<longleftrightarrow> c = TagErrorClassMalformed \<or> c = TagErrorClassDuplicate
     \<or> c = TagErrorClassLimit \<or> c = TagErrorClassInvariant"

abbreviation LimitNameMaxFieldValueBytes :: string where
  "LimitNameMaxFieldValueBytes \<equiv> ''max_field_value_bytes''"
abbreviation LimitNameMaxTags :: string where
  "LimitNameMaxTags \<equiv> ''max_tags''"
abbreviation LimitNameMaxTagNameBytes :: string where
  "LimitNameMaxTagNameBytes \<equiv> ''max_tag_name_bytes''"
abbreviation LimitNameMaxTagValueBytes :: string where
  "LimitNameMaxTagValueBytes \<equiv> ''max_tag_value_bytes''"
abbreviation LimitNameMaxBase64DecodedBytes :: string where
  "LimitNameMaxBase64DecodedBytes \<equiv> ''max_base64_decoded_bytes''"

definition LimitName_Known :: "string \<Rightarrow> bool" where
  "LimitName_Known n \<longleftrightarrow> n = LimitNameMaxFieldValueBytes \<or> n = LimitNameMaxTags
     \<or> n = LimitNameMaxTagNameBytes \<or> n = LimitNameMaxTagValueBytes
     \<or> n = LimitNameMaxBase64DecodedBytes"

record TagErrorLocation =
  tl_Offset :: int
  tl_TagIndex :: int

definition tagLocation :: "int \<Rightarrow> int \<Rightarrow> TagErrorLocation" where
  "tagLocation offset tagIndex = \<lparr>tl_Offset = offset, tl_TagIndex = tagIndex\<rparr>"

definition zeroTagLocation :: TagErrorLocation where
  "zeroTagLocation = tagLocation 0 0"

record TagErrorDetails =
  td_Class :: TagErrorClass
  td_LimitName :: string
  td_Limit :: int
  td_Count :: int
  td_tagName :: string

definition zeroTagDetails :: TagErrorDetails where
  "zeroTagDetails = \<lparr>td_Class = TagErrorClassUnset, td_LimitName = [], td_Limit = 0, td_Count = 0, td_tagName = []\<rparr>"

record TagError =
  te_code :: TagErrorCode
  te_location :: TagErrorLocation
  te_details :: TagErrorDetails

definition classForCode :: "TagErrorCode \<Rightarrow> TagErrorClass" where
  "classForCode code =
     (case code of
        TagErrorCodeDuplicateTag \<Rightarrow> TagErrorClassDuplicate
      | TagErrorCodeLimitExceeded \<Rightarrow> TagErrorClassLimit
      | TagErrorCodeInvalidOptions \<Rightarrow> TagErrorClassInvariant
      | _ \<Rightarrow> TagErrorClassMalformed)"

definition sanitizeTagLocation :: "TagErrorLocation \<Rightarrow> TagErrorLocation" where
  "sanitizeTagLocation l = tagLocation (if tl_Offset l < 0 then 0 else tl_Offset l)
     (if tl_TagIndex l < 0 then 0 else tl_TagIndex l)"

definition sanitizeTagDetails :: "TagErrorDetails \<Rightarrow> TagErrorDetails" where
  "sanitizeTagDetails d = d\<lparr>td_Limit := (if td_Limit d < 0 then 0 else td_Limit d),
     td_Count := (if td_Count d < 0 then 0 else td_Count d)\<rparr>"

definition NewTagError :: "TagErrorCode \<Rightarrow> TagErrorLocation \<Rightarrow> TagErrorDetails \<Rightarrow> TagError" where
  "NewTagError code location details =
     (let code' = (if \<not> TagErrorCode_Known code then TagErrorCodeInvalidOptions else code);
          details1 = details\<lparr>td_Class := classForCode code'\<rparr>;
          details2 = (if \<not> LimitName_Known (td_LimitName details1)
                      then details1\<lparr>td_LimitName := []\<rparr> else details1)
      in \<lparr>te_code = code', te_location = sanitizeTagLocation location,
          te_details = sanitizeTagDetails details2\<rparr>)"

text \<open>Accessors; \<open>None\<close> is the nil pointer, and \<open>None\<close> codes are the empty string.\<close>

definition TagError_Code :: "TagError option \<Rightarrow> TagErrorCode option" where
  "TagError_Code e = map_option te_code e"

definition TagError_Location :: "TagError option \<Rightarrow> TagErrorLocation" where
  "TagError_Location e = (case e of None \<Rightarrow> zeroTagLocation | Some x \<Rightarrow> te_location x)"

definition TagError_Class :: "TagError option \<Rightarrow> TagErrorClass" where
  "TagError_Class e = (case e of None \<Rightarrow> TagErrorClassUnset | Some x \<Rightarrow> td_Class (te_details x))"

definition TagError_TagName :: "TagError option \<Rightarrow> string" where
  "TagError_TagName e = (case e of None \<Rightarrow> [] | Some x \<Rightarrow> td_tagName (te_details x))"

definition TagError_LimitName :: "TagError option \<Rightarrow> string" where
  "TagError_LimitName e = (case e of None \<Rightarrow> [] | Some x \<Rightarrow> td_LimitName (te_details x))"

definition TagError_Limit :: "TagError option \<Rightarrow> int" where
  "TagError_Limit e = (case e of None \<Rightarrow> 0 | Some x \<Rightarrow> td_Limit (te_details x))"

definition TagError_Count :: "TagError option \<Rightarrow> int" where
  "TagError_Count e = (case e of None \<Rightarrow> 0 | Some x \<Rightarrow> td_Count (te_details x))"

definition TagError_Is :: "TagError option \<Rightarrow> TagError option \<Rightarrow> bool" where
  "TagError_Is e target =
     (case (e, target) of (Some x, Some y) \<Rightarrow> te_code x = te_code y | _ \<Rightarrow> False)"

section \<open>Limits\<close>

record Limits =
  MaxFieldValueBytes :: int
  MaxTags :: int
  MaxTagNameBytes :: int
  MaxTagValueBytes :: int
  MaxBase64DecodedBytes :: int

definition DefaultLimits :: Limits where
  "DefaultLimits = \<lparr>MaxFieldValueBytes = 64 * 1024, MaxTags = 64, MaxTagNameBytes = 64,
     MaxTagValueBytes = 64 * 1024, MaxBase64DecodedBytes = 1024 * 1024\<rparr>"

definition tagLimitOptionError :: "string \<Rightarrow> int \<Rightarrow> TagError" where
  "tagLimitOptionError limitName limit =
     NewTagError TagErrorCodeInvalidOptions zeroTagLocation
       (zeroTagDetails\<lparr>td_Class := TagErrorClassInvariant, td_LimitName := limitName, td_Limit := limit\<rparr>)"

definition limitExceededError :: "string \<Rightarrow> int \<Rightarrow> int \<Rightarrow> TagErrorLocation \<Rightarrow> TagError" where
  "limitExceededError limitName limit count location =
     NewTagError TagErrorCodeLimitExceeded location
       (zeroTagDetails\<lparr>td_Class := TagErrorClassLimit, td_LimitName := limitName, td_Limit := limit,
          td_Count := count\<rparr>)"

definition Limits_Validate :: "Limits \<Rightarrow> TagError option" where
  "Limits_Validate l =
     (if MaxFieldValueBytes l \<le> 0
      then Some (tagLimitOptionError ''max_field_value_bytes'' (MaxFieldValueBytes l))
      else if MaxTags l \<le> 0 then Some (tagLimitOptionError ''max_tags'' (MaxTags l))
      else if MaxTagNameBytes l \<le> 0
      then Some (tagLimitOptionError ''max_tag_name_bytes'' (MaxTagNameBytes l))
      else if MaxTagValueBytes l \<le> 0
      then Some (tagLimitOptionError ''max_tag_value_bytes'' (MaxTagValueBytes l))
      else if MaxBase64DecodedBytes l \<le> 0
      then Some (tagLimitOptionError ''max_base64_decoded_bytes'' (MaxBase64DecodedBytes l))
      else None)"

definition Limits_normalize :: "Limits \<Rightarrow> Limits" where
  "Limits_normalize l =
     (let defaults = DefaultLimits in
      \<lparr>MaxFieldValueBytes = (if MaxFieldValueBytes l = 0 then MaxFieldValueBytes defaults else MaxFieldValueBytes l),
       MaxTags = (if MaxTags l = 0 then MaxTags defaults else MaxTags l),
       MaxTagNameBytes = (if MaxTagNameBytes l = 0 then MaxTagNameBytes defaults else MaxTagNameBytes l),
       MaxTagValueBytes = (if MaxTagValueBytes l = 0 then MaxTagValueBytes defaults else MaxTagValueBytes l),
       MaxBase64DecodedBytes =
         (if MaxBase64DecodedBytes l = 0 then MaxBase64DecodedBytes defaults else MaxBase64DecodedBytes l)\<rparr>)"

section \<open>Facts\<close>

lemma te_code_NewTagError [simp]:
  "te_code (NewTagError c l d) = (if TagErrorCode_Known c then c else TagErrorCodeInvalidOptions)"
  by (simp add: NewTagError_def Let_def)

lemma TagErrorCode_Known_simps [simp]:
  "TagErrorCode_Known TagErrorCodeEmptyTagSpec" "TagErrorCode_Known TagErrorCodeMissingEquals"
  "TagErrorCode_Known TagErrorCodeInvalidTagName" "TagErrorCode_Known TagErrorCodeInvalidTagValue"
  "TagErrorCode_Known TagErrorCodeDuplicateTag" "TagErrorCode_Known TagErrorCodeLimitExceeded"
  "TagErrorCode_Known TagErrorCodeInvalidOptions" "TagErrorCode_Known TagErrorCodeInvalidBase64Alphabet"
  "TagErrorCode_Known TagErrorCodeInvalidBase64Padding" "TagErrorCode_Known TagErrorCodeInvalidBase64Length"
  "TagErrorCode_Known TagErrorCodeInvalidBase64PadBits" "TagErrorCode_Known TagErrorCodeInvalidBase64Whitespace"
  "\<not> TagErrorCode_Known (TagErrorCodeOther s)"
  by (simp_all add: TagErrorCode_Known_def)

lemma te_code_helpers [simp]:
  "te_code (tagLimitOptionError n k) = TagErrorCodeInvalidOptions"
  "te_code (limitExceededError n k c l) = TagErrorCodeLimitExceeded"
  by (simp_all add: tagLimitOptionError_def limitExceededError_def)

lemma Limits_Validate_None_iff:
  "Limits_Validate l = None \<longleftrightarrow>
     0 < MaxFieldValueBytes l \<and> 0 < MaxTags l \<and> 0 < MaxTagNameBytes l \<and> 0 < MaxTagValueBytes l
     \<and> 0 < MaxBase64DecodedBytes l"
  by (auto simp: Limits_Validate_def)

text \<open>Zero limits select defaults, so only negative limits are rejected after normalisation.\<close>

lemma Limits_Validate_normalize:
  "Limits_Validate (Limits_normalize l) = None \<longleftrightarrow>
     0 \<le> MaxFieldValueBytes l \<and> 0 \<le> MaxTags l \<and> 0 \<le> MaxTagNameBytes l \<and> 0 \<le> MaxTagValueBytes l
     \<and> 0 \<le> MaxBase64DecodedBytes l"
  by (auto simp: Limits_Validate_None_iff Limits_normalize_def DefaultLimits_def Let_def)

lemma Limits_normalize_idem: "Limits_normalize (Limits_normalize l) = Limits_normalize l"
  by (simp add: Limits_normalize_def DefaultLimits_def Let_def)

text \<open>Every constructed error is in the closed vocabulary, whatever the caller passed.\<close>

lemma NewTagError_closed:
  "TagErrorCode_Known (te_code (NewTagError c l d))
   \<and> TagErrorClass_Known (td_Class (te_details (NewTagError c l d)))
   \<and> (td_LimitName (te_details (NewTagError c l d)) = [] \<or> LimitName_Known (td_LimitName (te_details (NewTagError c l d))))
   \<and> 0 \<le> tl_Offset (te_location (NewTagError c l d)) \<and> 0 \<le> td_Count (te_details (NewTagError c l d))"
  by (auto simp: NewTagError_def Let_def sanitizeTagDetails_def sanitizeTagLocation_def tagLocation_def
      classForCode_def TagErrorClass_Known_def split: TagErrorCode.split)

end
