(* ===== verification/Tagvalue_Scanner.thy ===== *)
theory Tagvalue_Scanner
  imports Tagvalue_Base Rawmsg_Header Go_Lines
begin

text \<open>
  The tag-list scanner of package \<open>internal/tagvalue\<close> (\<open>scanner.go\<close>, \<open>textstring.go\<close>): the DNS and
  header modes of the one scanner, with the source's offsets and check order. The lemmas give
  the accepted language as a declarative grammar and the invariant of the returned field.
\<close>

section \<open>Lexical classes\<close>

definition isASCIILetter :: "byte \<Rightarrow> bool" where
  "isASCIILetter b \<longleftrightarrow> octet CHR ''A'' \<le> octet b \<and> octet b \<le> octet CHR ''Z''
     \<or> octet CHR ''a'' \<le> octet b \<and> octet b \<le> octet CHR ''z''"

definition isASCIIDigit :: "byte \<Rightarrow> bool" where
  "isASCIIDigit b \<longleftrightarrow> octet CHR ''0'' \<le> octet b \<and> octet b \<le> octet CHR ''9''"

text \<open>\<open>trimWSP\<close> returns the trimmed slice and the number of leading white space octets.\<close>

definition trimWSP :: "bytes \<Rightarrow> bytes \<times> nat" where
  "trimWSP input =
     (let start = length (takeWhile isWSP input);
          end' = trimEndLoop isWSP input start (length input)
      in (slice input start end', start))"

definition containsASCIIUpper :: "bytes \<Rightarrow> bool" where
  "containsASCIIUpper input \<longleftrightarrow> (\<exists>b \<in> set input. octet CHR ''A'' \<le> octet b \<and> octet b \<le> octet CHR ''Z'')"

definition validTagValueByte :: "byte \<Rightarrow> bool" where
  "validTagValueByte b \<longleftrightarrow> b = TAB \<or> b = SP
     \<or> octet CHR ''!'' \<le> octet b \<and> octet b \<le> octet CHR '':''
     \<or> octet CHR ''<'' \<le> octet b \<and> octet b \<le> octet CHR ''~''"

definition validTagValue :: "bytes \<Rightarrow> bool" where
  "validTagValue input \<longleftrightarrow> (\<forall>b \<in> set input. validTagValueByte b)"

definition tagNameByte :: "byte \<Rightarrow> bool" where
  "tagNameByte b \<longleftrightarrow> isASCIILetter b \<or> isASCIIDigit b \<or> b = CHR ''_''"

definition tagName :: "bytes \<Rightarrow> int \<Rightarrow> bytes option" where
  "tagName input maxNameBytes =
     (if length input = 0 \<or> int (length input) > maxNameBytes \<or> \<not> isASCIILetter (input ! 0) then None
      else if \<exists>b \<in> set input. \<not> tagNameByte b then None
      else Some input)"

definition ParseTextstring :: "bytes \<Rightarrow> bytes option" where
  "ParseTextstring input =
     (if length input = 0 then None
      else if \<exists>b \<in> set input. \<not> isASCIILetter b \<and> \<not> isASCIIDigit b \<and> b \<noteq> CHR ''-'' \<and> b \<noteq> CHR ''_''
      then None else Some input)"

section \<open>Known tags, tags and fields\<close>

record KnownTags =
  kt_exact :: "bytes list"

fun knownTagsLoop :: "bytes list \<Rightarrow> bytes list \<Rightarrow> (TagError, KnownTags) result" where
  "knownTagsLoop [] exact = Inr \<lparr>kt_exact = exact\<rparr>"
| "knownTagsLoop (name # names) exact =
     (case tagName name (MaxTagNameBytes DefaultLimits) of
        None \<Rightarrow> Inl (NewTagError TagErrorCodeInvalidOptions zeroTagLocation
                     (zeroTagDetails\<lparr>td_Class := TagErrorClassInvariant\<rparr>))
      | Some e \<Rightarrow>
          if e \<in> set exact
          then Inl (NewTagError TagErrorCodeInvalidOptions zeroTagLocation
                     (zeroTagDetails\<lparr>td_Class := TagErrorClassInvariant\<rparr>))
          else knownTagsLoop names (exact @ [e]))"

definition NewKnownTags :: "bytes list \<Rightarrow> (TagError, KnownTags) result" where
  "NewKnownTags names = knownTagsLoop names []"

definition KnownTags_Contains :: "KnownTags \<Rightarrow> bytes \<Rightarrow> bool" where
  "KnownTags_Contains k name = (if length (kt_exact k) = 0 then False else name \<in> set (kt_exact k))"

record Tag =
  tag_name :: bytes
  tag_value :: bytes
  tag_known :: bool

record TagField =
  fd_tags :: "Tag list"
  fd_index :: "bytes \<rightharpoonup> nat"

definition TagField_Len :: "TagField \<Rightarrow> nat" where
  "TagField_Len f = length (fd_tags f)"

definition TagField_Get :: "TagField \<Rightarrow> bytes \<Rightarrow> Tag option" where
  "TagField_Get f name =
     (case fd_index f name of None \<Rightarrow> None | Some index \<Rightarrow> Some (fd_tags f ! index))"

definition TagField_Has :: "TagField \<Rightarrow> bytes \<Rightarrow> bool" where
  "TagField_Has f name \<longleftrightarrow> TagField_Get f name \<noteq> None"

definition UnknownTags :: "TagField \<Rightarrow> Tag list" where
  "UnknownTags f = filter (\<lambda>tag. \<not> tag_known tag) (fd_tags f)"

datatype scanMode = scanModeDNS | scanModeHeader

section \<open>The scanner\<close>

record tagSegment =
  ts_bytes :: bytes
  ts_offset :: nat

fun splitTagLoop :: "bytes \<Rightarrow> bytes \<Rightarrow> nat \<Rightarrow> nat \<Rightarrow> tagSegment list" where
  "splitTagLoop input [] start i = [\<lparr>ts_bytes = drop start input, ts_offset = start\<rparr>]"
| "splitTagLoop input (b # rest) start i =
     (if b \<noteq> CHR '';'' then splitTagLoop input rest start (Suc i)
      else \<lparr>ts_bytes = slice input start i, ts_offset = start\<rparr> # splitTagLoop input rest (i + 1) (i + 1))"

definition splitTagSpecs :: "bytes \<Rightarrow> tagSegment list" where
  "splitTagSpecs input = splitTagLoop input input 0 0"

fun invalidUnfoldedLoop :: "nat \<Rightarrow> bytes \<Rightarrow> nat option" where
  "invalidUnfoldedLoop i [] = None"
| "invalidUnfoldedLoop i (b # rest) =
     (if b = CR \<or> b = LF then Some i else invalidUnfoldedLoop (Suc i) rest)"

text \<open>The first CR or LF of header-mode input; \<open>None\<close> is Go's \<open>-1\<close>.\<close>

definition invalidUnfoldedLineBreak :: "bytes \<Rightarrow> nat option" where
  "invalidUnfoldedLineBreak input = invalidUnfoldedLoop 0 input"

definition lineBreakError :: "nat \<Rightarrow> TagError" where
  "lineBreakError offset = NewTagError TagErrorCodeInvalidTagValue (tagLocation (int offset) 0) zeroTagDetails"

fun unfoldDNSLoop :: "nat \<Rightarrow> bytes \<Rightarrow> (TagError, bytes) result" where
  "unfoldDNSLoop i [] = Inr []"
| "unfoldDNSLoop i (b # rest) =
     (if b = CR then
        (case rest of
           c # d # rest' \<Rightarrow>
             if c \<noteq> LF \<or> \<not> isWSP d then Inl (lineBreakError i)
             else unfoldDNSLoop (i + 2) (d # rest')
         | _ \<Rightarrow> Inl (lineBreakError i))
      else if b = LF then Inl (lineBreakError i)
      else res_bind (unfoldDNSLoop (Suc i) rest) (\<lambda>unfolded. Inr (b # unfolded)))"

definition unfoldDNSFWS :: "bytes \<Rightarrow> (TagError, bytes) result" where
  "unfoldDNSFWS input = unfoldDNSLoop 0 input"

definition isFinalTrailingSemicolon :: "tagSegment list \<Rightarrow> nat \<Rightarrow> tagSegment \<Rightarrow> bool" where
  "isFinalTrailingSemicolon segments index segment =
     (if index \<noteq> length segments - 1 then False
      else length (fst (trimWSP (ts_bytes segment))) = 0 \<and> length segments > 1)"

definition duplicateTagError :: "Tag \<Rightarrow> nat \<Rightarrow> nat \<Rightarrow> TagError" where
  "duplicateTagError tag offset tagIndex =
     NewTagError TagErrorCodeDuplicateTag (tagLocation (int offset) (int tagIndex))
       (zeroTagDetails\<lparr>td_Class := TagErrorClassDuplicate,
          td_tagName := (if tag_known tag then tag_name tag else [])\<rparr>)"

definition parseTagSpec ::
    "bytes \<Rightarrow> nat \<Rightarrow> nat \<Rightarrow> KnownTags \<Rightarrow> Limits \<Rightarrow> scanMode \<Rightarrow> (TagError, Tag) result" where
  "parseTagSpec input offset tagIndex known limits mode =
     (case IndexByte input CHR ''='' of
        None \<Rightarrow> Inl (NewTagError TagErrorCodeMissingEquals (tagLocation (int offset) (int tagIndex)) zeroTagDetails)
      | Some equals \<Rightarrow>
          (let (rawName, nameLeading) = trimWSP (take equals input);
               (rawValue, valueLeading) = trimWSP (drop (equals + 1) input);
               nameLocation = tagLocation (int (offset + nameLeading)) (int tagIndex);
               valueLocation = tagLocation (int (offset + equals + 1 + valueLeading)) (int tagIndex) in
           if int (length rawName) > MaxTagNameBytes limits
           then Inl (limitExceededError ''max_tag_name_bytes'' (MaxTagNameBytes limits) (int (length rawName)) nameLocation)
           else if int (length rawValue) > MaxTagValueBytes limits
           then Inl (limitExceededError ''max_tag_value_bytes'' (MaxTagValueBytes limits) (int (length rawValue)) valueLocation)
           else (case tagName rawName (MaxTagNameBytes limits) of
                   None \<Rightarrow> Inl (NewTagError TagErrorCodeInvalidTagName nameLocation zeroTagDetails)
                 | Some name \<Rightarrow>
                     if mode = scanModeHeader \<and> containsASCIIUpper rawName
                     then Inl (NewTagError TagErrorCodeInvalidTagName nameLocation zeroTagDetails)
                     else (let knownTag = KnownTags_Contains known name in
                           if (mode = scanModeDNS \<or> \<not> knownTag) \<and> \<not> validTagValue rawValue
                           then Inl (NewTagError TagErrorCodeInvalidTagValue valueLocation zeroTagDetails)
                           else Inr \<lparr>tag_name = name, tag_value = rawValue, tag_known = knownTag\<rparr>))))"

fun scanLoop ::
    "tagSegment list \<Rightarrow> KnownTags \<Rightarrow> Limits \<Rightarrow> scanMode \<Rightarrow> nat \<Rightarrow> tagSegment list
       \<Rightarrow> Tag list \<Rightarrow> (bytes \<rightharpoonup> nat) \<Rightarrow> nat \<Rightarrow> (TagError, Tag list \<times> (bytes \<rightharpoonup> nat)) result" where
  "scanLoop segments known limits mode i [] tags index tagIndex = Inr (tags, index)"
| "scanLoop segments known limits mode i (segment # rest) tags index tagIndex =
     (if isFinalTrailingSemicolon segments i segment
      then scanLoop segments known limits mode (Suc i) rest tags index tagIndex
      else
        (let (trimmedBytes, leading) = trimWSP (ts_bytes segment) in
         if length trimmedBytes = 0
         then Inl (NewTagError TagErrorCodeEmptyTagSpec
                     (tagLocation (int (ts_offset segment + leading)) (int tagIndex)) zeroTagDetails)
         else if int tagIndex \<ge> MaxTags limits
         then Inl (limitExceededError ''max_tags'' (MaxTags limits) (int tagIndex + 1)
                     (tagLocation (int (ts_offset segment)) (int tagIndex)))
         else (case parseTagSpec trimmedBytes (ts_offset segment + leading) tagIndex known limits mode of
                 Inl e \<Rightarrow> Inl e
               | Inr tag \<Rightarrow>
                   if index (tag_name tag) \<noteq> None
                   then Inl (duplicateTagError tag (ts_offset segment + leading) tagIndex)
                   else scanLoop segments known limits mode (Suc i) rest (tags @ [tag])
                          (index(tag_name tag \<mapsto> length tags)) (Suc tagIndex))))"

definition scanInput :: "bytes \<Rightarrow> scanMode \<Rightarrow> (TagError, bytes) result" where
  "scanInput input mode =
     (if mode = scanModeHeader
      then (case invalidUnfoldedLineBreak input of
              Some offset \<Rightarrow> Inl (lineBreakError offset)
            | None \<Rightarrow> Inr input)
      else unfoldDNSFWS input)"

definition scan :: "bytes \<Rightarrow> KnownTags \<Rightarrow> Limits \<Rightarrow> scanMode \<Rightarrow> (TagError, TagField) result" where
  "scan input known limits0 mode =
     (let limits = Limits_normalize limits0 in
      res_check (Limits_Validate limits)
       (if int (length input) > MaxFieldValueBytes limits
        then Inl (limitExceededError ''max_field_value_bytes'' (MaxFieldValueBytes limits)
                    (int (length input)) zeroTagLocation)
        else res_bind (scanInput input mode) (\<lambda>text.
          let segments = splitTagSpecs text in
          res_bind (scanLoop segments known limits mode 0 segments [] Map.empty 0) (\<lambda>(tags, index).
            if length tags = 0 then Inl (NewTagError TagErrorCodeEmptyTagSpec zeroTagLocation zeroTagDetails)
            else Inr \<lparr>fd_tags = tags, fd_index = index\<rparr>))))"

definition Scan :: "bytes \<Rightarrow> KnownTags \<Rightarrow> Limits \<Rightarrow> (TagError, TagField) result" where
  "Scan input known limits = scan input known limits scanModeDNS"

definition ScanHeader :: "bytes \<Rightarrow> KnownTags \<Rightarrow> Limits \<Rightarrow> (TagError, TagField) result" where
  "ScanHeader input known limits = scan input known limits scanModeHeader"

section \<open>Lexical lemmas\<close>

lemma trimWSP_eq: "trimWSP s = (trim s, length (takeWhile isWSP s))"
  by (simp add: trimWSP_def Let_def trim_slice)

lemma splitTagLoop_bytes:
  "input = pre @ cur @ r \<Longrightarrow> CHR '';'' \<notin> set cur \<Longrightarrow>
     map ts_bytes (splitTagLoop input r (length pre) (length pre + length cur)) = SplitByte CHR '';'' (cur @ r)"
proof (induction r arbitrary: pre cur)
  case Nil
  then show ?case by (simp add: SplitByte_plain)
next
  case (Cons b r)
  show ?case
  proof (cases "b = CHR '';''")
    case True
    have "slice input (length pre) (length pre + length cur) = cur"
      unfolding Cons.prems(1) by (rule slice_middle)
    with Cons.IH [of "pre @ cur @ [b]" "[]"] Cons.prems True show ?thesis
      by (simp add: SplitByte_sep)
  next
    case False
    with Cons.IH [of pre "cur @ [b]"] Cons.prems show ?thesis by simp
  qed
qed

lemma splitTagSpecs_bytes: "map ts_bytes (splitTagSpecs input) = SplitByte CHR '';'' input"
  using splitTagLoop_bytes [of input "[]" "[]" input] by (simp add: splitTagSpecs_def)

lemma invalidUnfoldedLoop_None_iff: "invalidUnfoldedLoop i s = None \<longleftrightarrow> clean s"
  by (induction s arbitrary: i) auto

lemma unfoldDNSLoop_Inr_iff:
  "unfoldDNSLoop i s = Inr u \<longleftrightarrow> validHeaderFieldValue s \<and> u = filter (\<lambda>b. b \<noteq> CR \<and> b \<noteq> LF) s"
proof (induction i s arbitrary: u rule: unfoldDNSLoop.induct)
  case (2 i b rest)
  show ?case
  proof (cases "b = CR")
    case True
    show ?thesis
    proof (cases "\<exists>d r. rest = LF # d # r \<and> isWSP d")
      case True
      then obtain d r where r: "rest = LF # d # r" "isWSP d" by blast
      with \<open>b = CR\<close> "2.IH"(1) [OF \<open>b = CR\<close>, of LF "d # r" d r] have
        "unfoldDNSLoop i (b # rest) = Inr u \<longleftrightarrow>
           validHeaderFieldValue (d # r) \<and> u = filter (\<lambda>b. b \<noteq> CR \<and> b \<noteq> LF) (d # r)"
        by simp
      with \<open>b = CR\<close> r show ?thesis by (auto simp: validHeaderFieldValue_step isWSP_def)
    next
      case False
      with \<open>b = CR\<close> show ?thesis
        by (auto simp: validHeaderFieldValue_step split: list.splits)
    qed
  next
    case False
    then show ?thesis
      using "2.IH"(2) by (auto simp: validHeaderFieldValue_step res_bind_Inr_iff)
  qed
qed auto

text \<open>The DNS unfolding accepts exactly the folded values of raw messages and unfolds them alike.\<close>

lemma unfoldDNSFWS_Inr_iff:
  "unfoldDNSFWS s = Inr u \<longleftrightarrow> validHeaderFieldValue s \<and> u = unfoldHeaderValue s"
  by (auto simp: unfoldDNSFWS_def unfoldDNSLoop_Inr_iff unfoldHeaderValue_valid)

section \<open>The tag-list grammar\<close>

definition valid_tag_name :: "bytes \<Rightarrow> bool" where
  "valid_tag_name n \<longleftrightarrow> n \<noteq> [] \<and> isASCIILetter (hd n) \<and> (\<forall>b \<in> set n. tagNameByte b)"

lemma tagName_Some_iff:
  "tagName n k = Some m \<longleftrightarrow> m = n \<and> valid_tag_name n \<and> int (length n) \<le> k"
  by (cases n) (auto simp: tagName_def valid_tag_name_def)

lemma not_tagNameByte [simp]:
  "\<not> tagNameByte CHR ''=''" "\<not> tagNameByte CHR '';''" "\<not> tagNameByte SP" "\<not> tagNameByte TAB"
  "\<not> tagNameByte CR" "\<not> tagNameByte LF"
  by (simp_all add: tagNameByte_def isASCIILetter_def isASCIIDigit_def)

lemma not_isWSP_equals [simp]: "\<not> isWSP CHR ''=''"
  by (simp add: isWSP_def)

lemma tagNameByte_not_WSP: "tagNameByte b \<Longrightarrow> \<not> isWSP b"
  using not_tagNameByte(3,4) unfolding isWSP_def by blast

lemma wsp_no_equals: "wsp s \<Longrightarrow> CHR ''='' \<notin> set s"
  using not_isWSP_equals unfolding wsp_def by blast

lemma valid_tag_name_facts:
  assumes "valid_tag_name n"
  shows "CHR ''='' \<notin> set n" "trimmed n" "n \<noteq> []"
proof -
  have n: "n \<noteq> []" "\<forall>b \<in> set n. tagNameByte b" using assms by (simp_all add: valid_tag_name_def)
  then show "CHR ''='' \<notin> set n" "n \<noteq> []" using not_tagNameByte(1) by blast+
  show "trimmed n"
    using n tagNameByte_not_WSP hd_in_set last_in_set unfolding trimmed_def by blast
qed

text \<open>One tag specification: name and value with white space around both.\<close>

definition tag_spec :: "KnownTags \<Rightarrow> Limits \<Rightarrow> scanMode \<Rightarrow> bytes \<Rightarrow> Tag \<Rightarrow> bool" where
  "tag_spec known limits mode seg t \<longleftrightarrow>
     (\<exists>a b c d. seg = a @ tag_name t @ b @ CHR ''='' # c @ tag_value t @ d
        \<and> wsp a \<and> wsp b \<and> wsp c \<and> wsp d)
     \<and> valid_tag_name (tag_name t) \<and> int (length (tag_name t)) \<le> MaxTagNameBytes limits
     \<and> trimmed (tag_value t) \<and> int (length (tag_value t)) \<le> MaxTagValueBytes limits
     \<and> (mode = scanModeHeader \<longrightarrow> \<not> containsASCIIUpper (tag_name t))
     \<and> (mode = scanModeDNS \<or> \<not> tag_known t \<longrightarrow> validTagValue (tag_value t))
     \<and> tag_known t = KnownTags_Contains known (tag_name t)"

lemma tag_spec_trim: "tag_spec known limits mode (trim s) t \<longleftrightarrow> tag_spec known limits mode s t"
proof -
  let ?n = "tag_name t" and ?v = "tag_value t"
  let ?P = "\<lambda>s. \<exists>a b c d. s = a @ ?n @ b @ CHR ''='' # c @ ?v @ d \<and> wsp a \<and> wsp b \<and> wsp c \<and> wsp d"
  obtain x y where s: "s = x @ trim s @ y" and w: "wsp x" "wsp y" using trim_decomp by blast
  have "?P (trim s) \<longleftrightarrow> ?P s" if n: "valid_tag_name ?n" and v: "trimmed ?v"
  proof
    assume "?P (trim s)"
    then obtain a b c d where m: "trim s = a @ ?n @ b @ CHR ''='' # c @ ?v @ d" and w': "wsp a" "wsp b" "wsp c" "wsp d"
      by blast
    have "s = (x @ a) @ ?n @ b @ CHR ''='' # c @ ?v @ (d @ y)" by (subst s) (simp add: m)
    moreover have "wsp (x @ a)" "wsp (d @ y)" using w w' by simp_all
    ultimately show "?P s" using w' by blast
  next
    assume "?P s"
    then obtain a b c d where m: "s = a @ ?n @ b @ CHR ''='' # c @ ?v @ d" and w': "wsp a" "wsp b" "wsp c" "wsp d"
      by blast
    have n': "\<not> isWSP (hd ?n)" "?n \<noteq> []" using n valid_tag_name_facts [OF n] by (auto simp: trimmed_def)
    show "?P (trim s)"
    proof (cases "?v = []")
      case True
      have "trimmed (?n @ b @ [CHR ''=''])" using n' by (simp add: trimmed_def isWSP_def)
      then have "trim (a @ (?n @ b @ [CHR ''='']) @ (c @ d)) = ?n @ b @ [CHR ''='']"
        using w' by (intro trim_unique) simp_all
      then have "trim s = [] @ ?n @ b @ CHR ''='' # [] @ ?v @ []" using m True by simp
      then show ?thesis using w' wsp_simps(1) by blast
    next
      case False
      then have "trimmed (?n @ b @ CHR ''='' # c @ ?v)" using n' v by (simp add: trimmed_def)
      then have "trim (a @ (?n @ b @ CHR ''='' # c @ ?v) @ d) = ?n @ b @ CHR ''='' # c @ ?v"
        using w' by (intro trim_unique) simp_all
      then have "trim s = [] @ ?n @ b @ CHR ''='' # c @ ?v @ []" using m by simp
      then show ?thesis using w' wsp_simps(1) by blast
    qed
  qed
  then show ?thesis unfolding tag_spec_def by blast
qed

lemma parseTagSpec_Inr_iff:
  "parseTagSpec s off ti known limits mode = Inr t \<longleftrightarrow> tag_spec known limits mode s t"
proof
  assume "parseTagSpec s off ti known limits mode = Inr t"
  then obtain k where k: "IndexByte s CHR ''='' = Some k"
    and t: "tag_name t = trim (take k s)" "tag_value t = trim (drop (k + 1) s)"
    and r: "valid_tag_name (tag_name t)" "int (length (tag_name t)) \<le> MaxTagNameBytes limits"
      "int (length (tag_value t)) \<le> MaxTagValueBytes limits"
      "mode = scanModeHeader \<longrightarrow> \<not> containsASCIIUpper (tag_name t)"
      "mode = scanModeDNS \<or> \<not> tag_known t \<longrightarrow> validTagValue (tag_value t)"
      "tag_known t = KnownTags_Contains known (tag_name t)"
    by (auto simp: parseTagSpec_def trimWSP_eq Let_def tagName_Some_iff split: option.splits if_splits)
  obtain a b where ab: "take k s = a @ tag_name t @ b" "wsp a" "wsp b" using trim_decomp t(1) by metis
  obtain c d where cd: "drop (k + 1) s = c @ tag_value t @ d" "wsp c" "wsp d" using trim_decomp t(2) by metis
  have "s = take k s @ CHR ''='' # drop (k + 1) s" using IndexByte_Some [OF k] by simp
  then have "s = a @ tag_name t @ b @ CHR ''='' # c @ tag_value t @ d" using ab cd by simp
  moreover have "trimmed (tag_value t)" using t(2) by simp
  ultimately show "tag_spec known limits mode s t" unfolding tag_spec_def using ab cd r by blast
next
  assume "tag_spec known limits mode s t"
  then obtain a b c d where s: "s = a @ tag_name t @ b @ CHR ''='' # c @ tag_value t @ d"
    and w: "wsp a" "wsp b" "wsp c" "wsp d"
    and n: "valid_tag_name (tag_name t)" "int (length (tag_name t)) \<le> MaxTagNameBytes limits"
    and v: "trimmed (tag_value t)" "int (length (tag_value t)) \<le> MaxTagValueBytes limits"
    and r: "mode = scanModeHeader \<longrightarrow> \<not> containsASCIIUpper (tag_name t)"
      "mode = scanModeDNS \<or> \<not> tag_known t \<longrightarrow> validTagValue (tag_value t)"
      "tag_known t = KnownTags_Contains known (tag_name t)"
    unfolding tag_spec_def by blast
  have s': "s = (a @ tag_name t @ b) @ CHR ''='' # c @ tag_value t @ d" using s by simp
  have "CHR ''='' \<notin> set (a @ tag_name t @ b)"
    using w n wsp_no_equals valid_tag_name_facts(1) by auto
  then have k: "IndexByte s CHR ''='' = Some (length (a @ tag_name t @ b))"
    unfolding s' by (rule IndexByte_notin)
  have "take (length (a @ tag_name t @ b)) s = a @ tag_name t @ b"
    "drop (length (a @ tag_name t @ b) + 1) s = c @ tag_value t @ d" unfolding s' by simp_all
  then have trims: "trim (take (length (a @ tag_name t @ b)) s) = tag_name t"
    "trim (drop (length (a @ tag_name t @ b) + 1) s) = tag_value t"
    using trim_unique w v valid_tag_name_facts(2) [OF n(1)] by metis+
  have "tagName (tag_name t) (MaxTagNameBytes limits) = Some (tag_name t)"
    using n by (simp add: tagName_Some_iff)
  then show "parseTagSpec s off ti known limits mode = Inr t"
    using k trims n v r
    by (cases t) (auto simp: parseTagSpec_def trimWSP_eq Let_def)
qed

lemma tag_spec_not_blank: "tag_spec known limits mode s t \<Longrightarrow> trim s \<noteq> []"
proof
  assume "tag_spec known limits mode s t" and "trim s = []"
  then have "tag_spec known limits mode [] t" using tag_spec_trim by metis
  then show False by (simp add: tag_spec_def)
qed

text \<open>The specifications of a list: a blank last segment after a semicolon is not one.\<close>

fun live_specs :: "bool \<Rightarrow> bytes list \<Rightarrow> bytes list" where
  "live_specs multi [] = []"
| "live_specs multi [s] = (if multi \<and> trim s = [] then [] else [s])"
| "live_specs multi (s # t # r) = s # live_specs multi (t # r)"

definition tag_specs :: "bytes \<Rightarrow> bytes list" where
  "tag_specs text = (let segs = SplitByte CHR '';'' text in live_specs (length segs > 1) segs)"

definition index_of :: "Tag list \<Rightarrow> bytes \<rightharpoonup> nat" where
  "index_of tags = map_of (zip (map tag_name tags) [0..<length tags])"

lemma index_of_Nil [simp]: "index_of [] = Map.empty"
  by (simp add: index_of_def)

lemma dom_index_of: "dom (index_of tags) = tag_name ` set tags"
  by (simp add: index_of_def dom_map_of_zip)

lemma index_of_None_iff: "index_of tags n = None \<longleftrightarrow> n \<notin> tag_name ` set tags"
  using dom_index_of [of tags] by (metis domIff)

lemma index_of_snoc:
  assumes "tag_name t \<notin> tag_name ` set tags"
  shows "index_of (tags @ [t]) = (index_of tags)(tag_name t \<mapsto> length tags)"
proof -
  have "index_of (tags @ [t]) = [tag_name t \<mapsto> length tags] ++ index_of tags"
    by (simp add: index_of_def)
  also have "\<dots> = index_of tags ++ [tag_name t \<mapsto> length tags]"
    using assms by (intro map_add_comm) (simp add: dom_index_of)
  finally show ?thesis by simp
qed

lemma index_of_Some_iff:
  assumes "distinct (map tag_name tags)"
  shows "index_of tags n = Some i \<longleftrightarrow> i < length tags \<and> tag_name (tags ! i) = n"
proof -
  have "index_of tags n = Some i \<longleftrightarrow> (n, i) \<in> set (zip (map tag_name tags) [0..<length tags])"
    unfolding index_of_def using assms by (intro map_of_eq_Some_iff) simp
  also have "\<dots> \<longleftrightarrow> i < length tags \<and> tag_name (tags ! i) = n"
    by (auto simp: in_set_zip intro!: exI [of _ i])
  finally show ?thesis .
qed

text \<open>The loop from a state in which \<open>tags\<close> have been accepted.\<close>

definition scanned :: "KnownTags \<Rightarrow> Limits \<Rightarrow> scanMode \<Rightarrow> Tag list \<Rightarrow> bytes list \<Rightarrow> Tag list \<Rightarrow> bool" where
  "scanned known limits mode tags specs new \<longleftrightarrow>
     list_all2 (tag_spec known limits mode) specs new \<and> distinct (map tag_name (tags @ new))
     \<and> (new = [] \<or> int (length (tags @ new)) \<le> MaxTags limits)"

lemma scanned_Nil: "distinct (map tag_name tags) \<Longrightarrow> scanned known limits mode tags [] new \<longleftrightarrow> new = []"
  by (auto simp: scanned_def)

lemma scanned_Cons:
  "scanned known limits mode tags (s # specs) new \<longleftrightarrow>
     (\<exists>t new'. new = t # new' \<and> tag_spec known limits mode s t \<and> tag_name t \<notin> tag_name ` set tags
        \<and> int (length tags) < MaxTags limits \<and> scanned known limits mode (tags @ [t]) specs new')"
proof -
  have d: "distinct (map tag_name (tags @ t # new')) \<longleftrightarrow>
      tag_name t \<notin> tag_name ` set tags \<and> distinct (map tag_name ((tags @ [t]) @ new'))" for t new'
    by auto
  show ?thesis
  proof
    assume "scanned known limits mode tags (s # specs) new"
    then obtain t new' where "new = t # new'" "tag_spec known limits mode s t"
      "list_all2 (tag_spec known limits mode) specs new'" "distinct (map tag_name (tags @ t # new'))"
      "int (length (tags @ t # new')) \<le> MaxTags limits"
      by (auto simp: scanned_def list_all2_Cons1)
    then show "\<exists>t new'. new = t # new' \<and> tag_spec known limits mode s t \<and> tag_name t \<notin> tag_name ` set tags
        \<and> int (length tags) < MaxTags limits \<and> scanned known limits mode (tags @ [t]) specs new'"
      unfolding d scanned_def by simp
  next
    assume "\<exists>t new'. new = t # new' \<and> tag_spec known limits mode s t \<and> tag_name t \<notin> tag_name ` set tags
        \<and> int (length tags) < MaxTags limits \<and> scanned known limits mode (tags @ [t]) specs new'"
    then obtain t new' where n: "new = t # new'" "tag_spec known limits mode s t" "tag_name t \<notin> tag_name ` set tags"
        "int (length tags) < MaxTags limits" "scanned known limits mode (tags @ [t]) specs new'" by blast
    then have "distinct (map tag_name (tags @ t # new'))" unfolding d scanned_def by blast
    with n show "scanned known limits mode tags (s # specs) new"
      by (auto simp: scanned_def)
  qed
qed

lemma scanLoop_Inr_iff:
  assumes "segments = pre @ rest" "distinct (map tag_name tags)"
  shows "scanLoop segments known limits mode (length pre) rest tags (index_of tags) (length tags) = Inr (all, index)
     \<longleftrightarrow> (\<exists>new. scanned known limits mode tags (live_specs (length segments > 1) (map ts_bytes rest)) new
           \<and> all = tags @ new \<and> index = index_of all)"
  using assms
proof (induction rest arbitrary: pre tags)
  case Nil
  then show ?case by (auto simp: scanned_Nil)
next
  case (Cons seg rest)
  let ?s = "ts_bytes seg" and ?multi = "length segments > 1"
  let ?skip = "rest = [] \<and> ?multi \<and> trim ?s = []"
  have skip: "isFinalTrailingSemicolon segments (length pre) seg \<longleftrightarrow> ?skip"
    using Cons.prems(1) by (auto simp: isFinalTrailingSemicolon_def trimWSP_eq)
  show ?case
  proof (cases ?skip)
    case True
    then have "scanLoop segments known limits mode (length pre) (seg # rest) tags (index_of tags) (length tags) = Inr (tags, index_of tags)"
      using skip by simp
    moreover have "live_specs ?multi (map ts_bytes (seg # rest)) = []" using True by simp
    ultimately show ?thesis using Cons.prems(2) by (simp add: scanned_Nil) blast
  next
    case False
    have live: "live_specs ?multi (map ts_bytes (seg # rest)) = ?s # live_specs ?multi (map ts_bytes rest)"
      using False by (cases rest) auto
    have IH: "scanLoop segments known limits mode (Suc (length pre)) rest (tags @ [t])
        ((index_of tags)(tag_name t \<mapsto> length tags)) (Suc (length tags)) = Inr (all, index) \<longleftrightarrow>
        (\<exists>new. scanned known limits mode (tags @ [t]) (live_specs ?multi (map ts_bytes rest)) new
           \<and> all = tags @ t # new \<and> index = index_of all)"
      if "tag_name t \<notin> tag_name ` set tags" for t
      unfolding index_of_snoc [OF that, symmetric]
      using Cons.IH [of "pre @ [seg]" "tags @ [t]"] Cons.prems that by simp
    have step: "scanLoop segments known limits mode (length pre) (seg # rest) tags (index_of tags) (length tags) = Inr (all, index)
      \<longleftrightarrow> (\<exists>t. tag_spec known limits mode ?s t \<and> int (length tags) < MaxTags limits
            \<and> tag_name t \<notin> tag_name ` set tags
            \<and> scanLoop segments known limits mode (Suc (length pre)) rest (tags @ [t])
                ((index_of tags)(tag_name t \<mapsto> length tags)) (Suc (length tags)) = Inr (all, index))"
      (is "?l \<longleftrightarrow> ?r")
    proof
      assume ?l
      with False skip obtain t where "parseTagSpec (trim ?s) (ts_offset seg + length (takeWhile isWSP ?s)) (length tags)
          known limits mode = Inr t" and r: "int (length tags) < MaxTags limits" "index_of tags (tag_name t) = None"
        "scanLoop segments known limits mode (Suc (length pre)) rest (tags @ [t])
                ((index_of tags)(tag_name t \<mapsto> length tags)) (Suc (length tags)) = Inr (all, index)"
        by (auto simp: trimWSP_eq Let_def not_le split: if_splits sum.splits)
      then have "tag_spec known limits mode ?s t" by (simp add: parseTagSpec_Inr_iff tag_spec_trim)
      with r show ?r by (auto simp: index_of_None_iff)
    next
      assume ?r
      then obtain t where t: "tag_spec known limits mode ?s t" "int (length tags) < MaxTags limits"
        "tag_name t \<notin> tag_name ` set tags"
        "scanLoop segments known limits mode (Suc (length pre)) rest (tags @ [t])
                ((index_of tags)(tag_name t \<mapsto> length tags)) (Suc (length tags)) = Inr (all, index)" by blast
      have "parseTagSpec (trim ?s) off ti known limits mode = Inr t" for off ti
        using t(1) by (simp add: parseTagSpec_Inr_iff tag_spec_trim)
      moreover have "index_of tags (tag_name t) = None" using t(3) by (simp add: index_of_None_iff)
      ultimately show ?l using False skip t tag_spec_not_blank [OF t(1)] by (simp add: trimWSP_eq)
    qed
    show ?thesis
      unfolding step live scanned_Cons using IH by blast
  qed
qed

lemma live_specs_not_Nil: "segs \<noteq> [] \<Longrightarrow> live_specs (length segs > 1) segs \<noteq> []"
  by (cases segs rule: list.exhaust [case_product list.exhaust]; cases "tl segs") auto

lemma scanInput_Inr_iff:
  "scanInput s mode = Inr text \<longleftrightarrow>
     (if mode = scanModeHeader then clean s \<and> text = s
      else validHeaderFieldValue s \<and> text = unfoldHeaderValue s)"
  using invalidUnfoldedLoop_None_iff [of 0 s]
  by (cases "invalidUnfoldedLoop 0 s")
     (auto simp: scanInput_def invalidUnfoldedLineBreak_def unfoldDNSFWS_Inr_iff)

theorem scan_Inr_iff:
  "scan input known limits mode = Inr f \<longleftrightarrow>
     Limits_Validate (Limits_normalize limits) = None
     \<and> int (length input) \<le> MaxFieldValueBytes (Limits_normalize limits)
     \<and> (\<exists>text. scanInput input mode = Inr text
          \<and> list_all2 (tag_spec known (Limits_normalize limits) mode) (tag_specs text) (fd_tags f))
     \<and> distinct (map tag_name (fd_tags f))
     \<and> int (length (fd_tags f)) \<le> MaxTags (Limits_normalize limits)
     \<and> fd_index f = index_of (fd_tags f)"
proof -
  let ?l = "Limits_normalize limits"
  have loop: "scanLoop (splitTagSpecs text) known ?l mode 0 (splitTagSpecs text) [] Map.empty 0 = Inr (tags, index)
     \<longleftrightarrow> scanned known ?l mode [] (tag_specs text) tags \<and> index = index_of tags" for "text" tags index
    using scanLoop_Inr_iff [of "splitTagSpecs text" "[]" "splitTagSpecs text" "[]" known ?l mode tags index]
      splitTagSpecs_bytes [of "text"]
    by (simp add: tag_specs_def Let_def) (metis length_map)
  have ne: "tag_specs text \<noteq> []" for "text"
    using live_specs_not_Nil [of "SplitByte CHR '';'' text"] by (simp add: tag_specs_def Let_def)
  have spec: "scanned known ?l mode [] (tag_specs text) tags \<longleftrightarrow>
      tags \<noteq> [] \<and> list_all2 (tag_spec known ?l mode) (tag_specs text) tags
      \<and> distinct (map tag_name tags) \<and> int (length tags) \<le> MaxTags ?l" for "text" tags
    using ne [of "text"] by (auto simp: scanned_def)
  have tags_ne: "list_all2 (tag_spec known ?l mode) (tag_specs text) tags \<Longrightarrow> tags \<noteq> []" for "text" tags
    using ne [of "text"] by auto
  have "scan input known limits mode = Inr f \<longleftrightarrow>
     Limits_Validate ?l = None \<and> int (length input) \<le> MaxFieldValueBytes ?l
     \<and> (\<exists>text. scanInput input mode = Inr text \<and> scanned known ?l mode [] (tag_specs text) (fd_tags f)
          \<and> fd_index f = index_of (fd_tags f))"
    using spec
    by (cases f) (auto simp: scan_def Let_def res_check_Inr_iff res_bind_Inr_iff loop split: if_splits)
  then show ?thesis using spec tags_ne by blast
qed

text \<open>The invariant of a scanned field, and lookup.\<close>

lemma TagField_Get_iff:
  assumes "scan input known limits mode = Inr f"
  shows "TagField_Get f n = Some t \<longleftrightarrow> t \<in> set (fd_tags f) \<and> tag_name t = n"
proof -
  have d: "distinct (map tag_name (fd_tags f))" and i: "fd_index f = index_of (fd_tags f)"
    using assms by (simp_all add: scan_Inr_iff)
  have "TagField_Get f n = Some t \<longleftrightarrow> (\<exists>k. index_of (fd_tags f) n = Some k \<and> fd_tags f ! k = t)"
    by (auto simp: TagField_Get_def i split: option.split)
  also have "\<dots> \<longleftrightarrow> (\<exists>k < length (fd_tags f). tag_name (fd_tags f ! k) = n \<and> fd_tags f ! k = t)"
    using index_of_Some_iff [OF d] by auto
  also have "\<dots> \<longleftrightarrow> t \<in> set (fd_tags f) \<and> tag_name t = n" by (auto simp: in_set_conv_nth)
  finally show ?thesis .
qed

end
