(* ===== verification/Go_Base64.thy ===== *)
theory Go_Base64
  imports Go_Bytes
begin

text \<open>
  The standard-library codec \<open>base64.StdEncoding\<close> as the sources use it, and the contract its
  clients rely on: decoding what was encoded gives the octets back, so re-encoding a decoded text
  and comparing accepts exactly the canonical encodings.
\<close>

section \<open>The codec contract\<close>

locale byte_codec =
  fixes enc :: "bytes \<Rightarrow> bytes"
    and dec :: "bytes \<Rightarrow> bytes option"
  assumes dec_enc: "dec (enc x) = Some x"
begin

lemma enc_inject: "enc x = enc y \<longleftrightarrow> x = y"
  by (metis dec_enc option.inject)

text \<open>The client check: decode, encode again, compare.\<close>

lemma recheck_iff: "(\<exists>d. dec t = Some d \<and> enc d = t \<and> d = x) \<longleftrightarrow> t = enc x"
  using dec_enc by auto

lemma recheck_unique: "dec t = Some x \<Longrightarrow> enc x = t \<Longrightarrow> t = enc y \<Longrightarrow> x = y"
  using enc_inject by auto

end

section \<open>RFC 4648 with padding\<close>

definition enc6 :: "nat \<Rightarrow> byte" where
  "enc6 n =
     (if n < 26 then char_of (65 + n) else if n < 52 then char_of (97 + (n - 26))
      else if n < 62 then char_of (48 + (n - 52)) else if n = 62 then CHR ''+'' else CHR ''/'')"

definition dec6 :: "byte \<Rightarrow> nat option" where
  "dec6 b =
     (let n = octet b in
      if 65 \<le> n \<and> n \<le> 90 then Some (n - 65) else if 97 \<le> n \<and> n \<le> 122 then Some (n - 97 + 26)
      else if 48 \<le> n \<and> n \<le> 57 then Some (n - 48 + 52) else if n = 43 then Some 62
      else if n = 47 then Some 63 else None)"

abbreviation PAD :: byte where "PAD \<equiv> CHR ''=''"

fun encode_quanta :: "nat list \<Rightarrow> bytes" where
  "encode_quanta [] = []"
| "encode_quanta [a] = [enc6 (a div 4), enc6 (a mod 4 * 16), PAD, PAD]"
| "encode_quanta [a, b] = [enc6 (a div 4), enc6 (a mod 4 * 16 + b div 16), enc6 (b mod 16 * 4), PAD]"
| "encode_quanta (a # b # c # r) =
     enc6 (a div 4) # enc6 (a mod 4 * 16 + b div 16) # enc6 (b mod 16 * 4 + c div 64) # enc6 (c mod 64)
       # encode_quanta r"

definition EncodeToString :: "bytes \<Rightarrow> bytes" where
  "EncodeToString input = encode_quanta (map octet input)"

text \<open>
  \<open>Decode\<close> of the non-strict padded encoding: line breaks are skipped, a final quantum may be
  padded, non-zero pad bits are ignored, anything else is a \<open>CorruptInputError\<close> (\<open>None\<close>).
\<close>

fun decode_quanta :: "bytes \<Rightarrow> nat list option" where
  "decode_quanta [] = Some []"
| "decode_quanta (p # q # r # s # rest) =
     (case (dec6 p, dec6 q) of
        (Some v, Some w) \<Rightarrow>
          (if r = PAD then
             (if s = PAD \<and> rest = [] then Some [v * 4 + w div 16] else None)
           else
             (case dec6 r of
                None \<Rightarrow> None
              | Some x \<Rightarrow>
                  (if s = PAD then
                     (if rest = [] then Some [v * 4 + w div 16, w mod 16 * 16 + x div 4] else None)
                   else
                     (case dec6 s of
                        None \<Rightarrow> None
                      | Some y \<Rightarrow>
                          map_option (\<lambda>d. (v * 4 + w div 16) # (w mod 16 * 16 + x div 4) # (x mod 4 * 64 + y) # d)
                            (decode_quanta rest)))))
      | _ \<Rightarrow> None)"
| "decode_quanta _ = None"

definition Decode :: "bytes \<Rightarrow> bytes option" where
  "Decode src = map_option (map char_of) (decode_quanta (filter (\<lambda>b. b \<noteq> CR \<and> b \<noteq> LF) src))"

section \<open>The contract holds\<close>

lemma octet_enc6:
  "octet (enc6 n) =
     (if n < 26 then 65 + n else if n < 52 then 97 + (n - 26) else if n < 62 then 48 + (n - 52)
      else if n = 62 then 43 else 47)"
  by (simp add: enc6_def octet_char_of)

lemma dec6_enc6 [simp]: "n < 64 \<Longrightarrow> dec6 (enc6 n) = Some n"
  by (simp add: dec6_def Let_def octet_enc6) arith

lemma dec6_less: "dec6 b = Some n \<Longrightarrow> n < 64"
  by (auto simp: dec6_def Let_def split: if_splits)

lemma enc6_dec6: "dec6 b = Some n \<Longrightarrow> enc6 n = b"
  unfolding octet_inject [symmetric]
  by (auto simp: dec6_def Let_def octet_enc6 split: if_splits)

lemma dec6_specials [simp]: "dec6 PAD = None" "dec6 CR = None" "dec6 LF = None" "dec6 SP = None" "dec6 TAB = None"
  by (simp_all add: dec6_def Let_def)

lemma enc6_specials:
  assumes "n < 64"
  shows "enc6 n \<noteq> PAD" "enc6 n \<noteq> CR" "enc6 n \<noteq> LF" "\<not> isWSP (enc6 n)"
proof -
  have "dec6 (enc6 n) \<noteq> None" using assms by simp
  then show "enc6 n \<noteq> PAD" "enc6 n \<noteq> CR" "enc6 n \<noteq> LF" "\<not> isWSP (enc6 n)"
    using dec6_specials unfolding isWSP_def by metis+
qed

text \<open>Two digits of a mixed-radix number.\<close>

lemma pack_div_mod [simp]:
  fixes p q n :: nat
  assumes "q < n"
  shows "(p * n + q) div n = p" "(p * n + q) mod n = q"
  using assms by (simp_all add: div_mult_self3)

lemma sextets:
  fixes a b c :: nat
  assumes "a < 256" "b < 256" "c < 256"
  shows "a div 4 < 64" "a mod 4 * 16 < 64" "a mod 4 * 16 + b div 16 < 64" "b mod 16 * 4 < 64"
    "b mod 16 * 4 + c div 64 < 64" "c mod 64 < 64"
proof -
  have "a mod 4 < 4" "b div 16 < 16" "b mod 16 < 16" "c div 64 < 4" using assms by auto
  then show "a div 4 < 64" "a mod 4 * 16 < 64" "a mod 4 * 16 + b div 16 < 64" "b mod 16 * 4 < 64"
    "b mod 16 * 4 + c div 64 < 64" "c mod 64 < 64" using assms by auto
qed

lemma octets_again:
  fixes a b c :: nat
  assumes "a < 256" "b < 256" "c < 256"
  shows "a div 4 * 4 + (a mod 4 * 16) div 16 = a"
    "a div 4 * 4 + (a mod 4 * 16 + b div 16) div 16 = a"
    "(a mod 4 * 16 + b div 16) mod 16 * 16 + (b mod 16 * 4) div 4 = b"
    "(a mod 4 * 16 + b div 16) mod 16 * 16 + (b mod 16 * 4 + c div 64) div 4 = b"
    "(b mod 16 * 4 + c div 64) mod 4 * 64 + c mod 64 = c"
proof -
  have "b div 16 < 16" "c div 64 < 4" using assms by auto
  then show "a div 4 * 4 + (a mod 4 * 16) div 16 = a"
    "a div 4 * 4 + (a mod 4 * 16 + b div 16) div 16 = a"
    "(a mod 4 * 16 + b div 16) mod 16 * 16 + (b mod 16 * 4) div 4 = b"
    "(a mod 4 * 16 + b div 16) mod 16 * 16 + (b mod 16 * 4 + c div 64) div 4 = b"
    "(b mod 16 * 4 + c div 64) mod 4 * 64 + c mod 64 = c"
    by simp_all
qed

lemma encode_quanta_clean:
  "\<forall>n \<in> set ns. n < 256 \<Longrightarrow> b \<in> set (encode_quanta ns) \<Longrightarrow> b = PAD \<or> dec6 b \<noteq> None"
proof (induction ns rule: encode_quanta.induct)
  case (2 a)
  then show ?case using sextets [of a 0 0] by auto
next
  case (3 a c)
  then show ?case using sextets [of a c 0] by auto
next
  case (4 a c d r)
  then show ?case using sextets [of a c d] by auto
qed simp

lemma decode_encode_quanta: "\<forall>n \<in> set ns. n < 256 \<Longrightarrow> decode_quanta (encode_quanta ns) = Some ns"
proof (induction ns rule: encode_quanta.induct)
  case (2 a)
  then show ?case using sextets [of a 0 0] octets_again [of a 0 0] by simp
next
  case (3 a b)
  then show ?case
    using sextets [of a b 0] octets_again [of a b 0] enc6_specials(1) [of "b mod 16 * 4"] by simp
next
  case (4 a b c r)
  then have "b div 16 < 16" "c div 64 < 4" by auto
  with 4 show ?case
    using sextets [of a b c] octets_again [of a b c] enc6_specials(1) [of "b mod 16 * 4 + c div 64"]
      enc6_specials(1) [of "c mod 64"] by simp
qed simp

lemma EncodeToString_chars: "b \<in> set (EncodeToString x) \<Longrightarrow> b = PAD \<or> dec6 b \<noteq> None"
  using encode_quanta_clean [of "map octet x" b] by (auto simp: EncodeToString_def octet_less)

lemma EncodeToString_no_break: "b \<in> set (EncodeToString x) \<Longrightarrow> b \<noteq> CR \<and> b \<noteq> LF \<and> \<not> isWSP b"
  using EncodeToString_chars [of b x] dec6_specials unfolding isWSP_def by auto

lemma Decode_EncodeToString: "Decode (EncodeToString x) = Some x"
proof -
  have "filter (\<lambda>b. b \<noteq> CR \<and> b \<noteq> LF) (EncodeToString x) = EncodeToString x"
    using EncodeToString_no_break by (auto simp: filter_id_conv)
  moreover have "decode_quanta (EncodeToString x) = Some (map octet x)"
    unfolding EncodeToString_def by (rule decode_encode_quanta) (auto simp: octet_less)
  ultimately show ?thesis by (simp add: Decode_def o_def octet_def)
qed

interpretation std_encoding: byte_codec EncodeToString Decode
  by unfold_locales (rule Decode_EncodeToString)

lemma length_encode_quanta: "length (encode_quanta ns) = (length ns + 2) div 3 * 4"
proof (induction ns rule: encode_quanta.induct)
  case (4 a b c r)
  have "length (encode_quanta (a # b # c # r)) = ((length r + 2) div 3 + 1) * 4" using 4 by simp
  also have "(length r + 2) div 3 + 1 = (length r + 2 + 3) div 3" by (rule div_add_self2 [symmetric]) simp
  also have "length r + 2 + 3 = length (a # b # c # r) + 2" by simp
  finally show ?case .
qed simp_all

lemma length_EncodeToString: "length (EncodeToString x) = (length x + 2) div 3 * 4"
  by (simp add: EncodeToString_def length_encode_quanta)

text \<open>The padding of an encoding of \<open>n\<close> octets.\<close>

definition pads :: "nat \<Rightarrow> nat" where
  "pads n = (3 - n mod 3) mod 3"

lemma encode_quanta_shape:
  assumes "\<forall>n \<in> set ns. n < 256"
  shows "\<exists>body. encode_quanta ns = body @ replicate (pads (length ns)) PAD \<and> (\<forall>b \<in> set body. dec6 b \<noteq> None)"
  using assms
proof (induction ns rule: encode_quanta.induct)
  case (2 a)
  then show ?case
    using sextets [of a 0 0] by (intro exI [of _ "[enc6 (a div 4), enc6 (a mod 4 * 16)]"]) (simp add: pads_def numeral_2_eq_2)
next
  case (3 a b)
  then show ?case
    using sextets [of a b 0]
    by (intro exI [of _ "[enc6 (a div 4), enc6 (a mod 4 * 16 + b div 16), enc6 (b mod 16 * 4)]"]) (simp add: pads_def)
next
  case (4 a b c r)
  then obtain body where r: "encode_quanta r = body @ replicate (pads (length r)) PAD" "\<forall>b \<in> set body. dec6 b \<noteq> None"
    by auto
  have "pads (length (a # b # c # r)) = pads (length r)"
    by (simp add: pads_def)
  with 4 r show ?case
    using sextets [of a b c]
    by (intro exI [of _ "enc6 (a div 4) # enc6 (a mod 4 * 16 + b div 16) # enc6 (b mod 16 * 4 + c div 64) # enc6 (c mod 64) # body"])
       simp
qed (simp add: pads_def)

lemma EncodeToString_shape:
  obtains body where "EncodeToString d = body @ replicate (pads (length d)) PAD" "\<forall>b \<in> set body. dec6 b \<noteq> None"
  using encode_quanta_shape [of "map octet d"] by (auto simp: EncodeToString_def octet_less)

lemma pads_le: "pads n \<le> 2"
  by (simp add: pads_def)

lemma EncodeToString_eq_Nil_iff [simp]: "EncodeToString d = [] \<longleftrightarrow> d = []"
  using length_EncodeToString [of d] by (cases d) auto

lemma length_EncodeToString_mod: "length (EncodeToString d) mod 4 = 0"
  by (simp add: length_EncodeToString)

end
