(* ===== verification/Tagvalue_Base64.thy ===== *)
theory Tagvalue_Base64
  imports Tagvalue_Scanner Go_Base64
begin

text \<open>
  Base64 values of package \<open>internal/tagvalue\<close>: the strict parser (\<open>base64.go\<close>), shown to accept
  exactly the canonical encodings, with the white space and padding each mode allows.
\<close>

section \<open>Parsing (\<open>base64.go\<close>)\<close>

record Base64String =
  bs_original :: bytes
  bs_encoded :: bytes
  bs_decoded :: bytes

definition base64Error :: "TagErrorCode \<Rightarrow> nat \<Rightarrow> TagError" where
  "base64Error code offset =
     NewTagError code (tagLocation (int offset) 0) (zeroTagDetails\<lparr>td_Class := TagErrorClassMalformed\<rparr>)"

definition stripBase64FWS :: "bytes \<Rightarrow> bytes" where
  "stripBase64FWS input = filter (\<lambda>b. \<not> isWSP b) input"

definition isStandardBase64Alphabet :: "byte \<Rightarrow> bool" where
  "isStandardBase64Alphabet b \<longleftrightarrow> isASCIILetter b \<or> isASCIIDigit b \<or> b = CHR ''+'' \<or> b = CHR ''/''"

fun validateBase64Loop :: "nat \<Rightarrow> nat \<Rightarrow> nat \<Rightarrow> bool \<Rightarrow> bytes \<Rightarrow> (TagError, nat) result" where
  "validateBase64Loop n i padCount seenPadding [] = Inr padCount"
| "validateBase64Loop n i padCount seenPadding (b # rest) =
     (if b = CHR ''='' then
        (if padCount + 1 > 2 \<or> int i < int n - 2
         then Inl (base64Error TagErrorCodeInvalidBase64Padding i)
         else validateBase64Loop n (Suc i) (padCount + 1) True rest)
      else if seenPadding then Inl (base64Error TagErrorCodeInvalidBase64Padding i)
      else if \<not> isStandardBase64Alphabet b then Inl (base64Error TagErrorCodeInvalidBase64Alphabet i)
      else validateBase64Loop n (Suc i) padCount seenPadding rest)"

definition validateBase64AlphabetAndPadding :: "bytes \<Rightarrow> (TagError, nat) result" where
  "validateBase64AlphabetAndPadding encoded = validateBase64Loop (length encoded) 0 0 False encoded"

definition decodedBase64Length :: "nat \<Rightarrow> nat \<Rightarrow> int" where
  "decodedBase64Length encodedLen padCount = int (encodedLen div 4 * 3) - int padCount"

definition bytesOf :: "byte \<Rightarrow> nat \<Rightarrow> bytes" where
  "bytesOf value count = replicate count value"

definition decodeCanonical :: "Limits \<Rightarrow> bytes \<Rightarrow> bytes \<Rightarrow> nat \<Rightarrow> (TagError, Base64String) result" where
  "decodeCanonical limits input encoded padCount =
     (let decodedLen = decodedBase64Length (length encoded) padCount in
      if decodedLen > MaxBase64DecodedBytes limits
      then Inl (limitExceededError ''max_base64_decoded_bytes'' (MaxBase64DecodedBytes limits) decodedLen zeroTagLocation)
      else (case Decode encoded of
              None \<Rightarrow> Inl (base64Error TagErrorCodeInvalidBase64Padding 0)
            | Some decoded \<Rightarrow>
                if EncodeToString decoded \<noteq> encoded then Inl (base64Error TagErrorCodeInvalidBase64PadBits 0)
                else Inr \<lparr>bs_original = input, bs_encoded = encoded, bs_decoded = decoded\<rparr>))"

definition parseBase64String :: "bytes \<Rightarrow> Limits \<Rightarrow> bool \<Rightarrow> (TagError, Base64String) result" where
  "parseBase64String input limits0 optionalPadding =
     (let limits = Limits_normalize limits0 in
      res_check (Limits_Validate limits)
       (if int (length input) > MaxTagValueBytes limits
        then Inl (limitExceededError ''max_tag_value_bytes'' (MaxTagValueBytes limits) (int (length input)) zeroTagLocation)
        else
          (let encoded = stripBase64FWS input in
           if \<not> optionalPadding \<and> length encoded > 0 \<and> (isWSP (input ! 0) \<or> isWSP (input ! (length input - 1)))
           then Inl (base64Error TagErrorCodeInvalidBase64Whitespace 0)
           else res_bind (validateBase64AlphabetAndPadding encoded) (\<lambda>padCount.
             if length encoded = 0 then Inl (base64Error TagErrorCodeInvalidBase64Length 0)
             else
               (let remainder = length encoded mod 4 in
                if remainder \<noteq> 0 then
                  (if \<not> optionalPadding \<or> padCount \<noteq> 0 \<or> remainder = 1
                   then Inl (base64Error TagErrorCodeInvalidBase64Length 0)
                   else (let missingPadding = 4 - remainder in
                         decodeCanonical limits input (encoded @ bytesOf CHR ''='' missingPadding) missingPadding))
                else decodeCanonical limits input encoded padCount)))))"

definition ParseBase64String :: "bytes \<Rightarrow> Limits \<Rightarrow> (TagError, Base64String) result" where
  "ParseBase64String input limits = parseBase64String input limits False"

definition ParseOptionalPaddingBase64String :: "bytes \<Rightarrow> Limits \<Rightarrow> (TagError, Base64String) result" where
  "ParseOptionalPaddingBase64String input limits = parseBase64String input limits True"

definition Base64String_DecodedLen :: "Base64String \<Rightarrow> nat" where
  "Base64String_DecodedLen v = length (bs_decoded v)"

section \<open>Canonical encodings\<close>

lemma isStandardBase64Alphabet_iff: "isStandardBase64Alphabet b \<longleftrightarrow> dec6 b \<noteq> None"
proof -
  have "b = CHR ''+'' \<longleftrightarrow> octet b = 43" "b = CHR ''/'' \<longleftrightarrow> octet b = 47"
    using octet_inject [of b "CHR ''+''"] octet_inject [of b "CHR ''/''"] by simp_all
  then show ?thesis
    by (auto simp: isStandardBase64Alphabet_def isASCIILetter_def isASCIIDigit_def dec6_def Let_def)
qed

lemma validateBase64Loop_body:
  "\<forall>b \<in> set body. dec6 b \<noteq> None \<Longrightarrow>
     validateBase64Loop n i 0 False (body @ r) = validateBase64Loop n (i + length body) 0 False r"
proof (induction body arbitrary: i)
  case (Cons b body)
  then have "b \<noteq> PAD" "isStandardBase64Alphabet b" by (auto simp: isStandardBase64Alphabet_iff)
  with Cons show ?case by simp
qed simp

text \<open>The padding count is the number of padding characters.\<close>

lemma validateBase64Loop_count:
  "validateBase64Loop n i p seen s = Inr q \<Longrightarrow> q = p + length (filter (\<lambda>b. b = PAD) s)"
  by (induction n i p seen s rule: validateBase64Loop.induct) (auto split: if_splits)

lemma validate_count:
  "validateBase64AlphabetAndPadding s = Inr k \<Longrightarrow> k = length (filter (\<lambda>b. b = PAD) s)"
  using validateBase64Loop_count unfolding validateBase64AlphabetAndPadding_def by fastforce

lemma validate_canonical:
  assumes "\<forall>b \<in> set body. dec6 b \<noteq> None" "k \<le> 2"
  shows "validateBase64AlphabetAndPadding (body @ replicate k PAD) = Inr k"
proof -
  consider "k = 0" | "k = 1" | "k = 2" using assms(2) by linarith
  then show ?thesis
    using validateBase64Loop_body [OF assms(1), of "length body + k" 0 "replicate k PAD"]
    by cases (simp_all add: validateBase64AlphabetAndPadding_def numeral_2_eq_2)
qed

lemma decodedBase64Length_exact:
  "decodedBase64Length (length (EncodeToString d)) (pads (length d)) = int (length d)"
proof -
  obtain q r where n: "length d = q * 3 + r" "r < 3" by (metis div_mult_mod_eq mod_less_divisor zero_less_numeral)
  then consider "r = 0" | "r = 1" | "r = 2" by linarith
  moreover have "pads (length d) = pads r" by (simp add: pads_def n(1))
  ultimately show ?thesis
    using n by cases (simp_all add: decodedBase64Length_def length_EncodeToString pads_def)
qed

lemma decodeCanonical_Inr_iff:
  "decodeCanonical limits input encoded k = Inr v \<and> k = pads (length (bs_decoded v)) \<longleftrightarrow>
     encoded = EncodeToString (bs_decoded v) \<and> bs_encoded v = encoded \<and> bs_original v = input
     \<and> int (length (bs_decoded v)) \<le> MaxBase64DecodedBytes limits \<and> k = pads (length (bs_decoded v))"
proof -
  have "decodeCanonical limits input encoded k = Inr v \<longleftrightarrow>
      decodedBase64Length (length encoded) k \<le> MaxBase64DecodedBytes limits
      \<and> encoded = EncodeToString (bs_decoded v) \<and> bs_encoded v = encoded \<and> bs_original v = input"
    using std_encoding.dec_enc
    by (cases v) (auto simp: decodeCanonical_def Let_def not_less split: option.splits if_splits)
  then show ?thesis using decodedBase64Length_exact by auto
qed

section \<open>What the parser accepts\<close>

text \<open>
  The white-space-free text of a value: the canonical encoding, or, where padding is optional,
  the canonical encoding without its padding.
\<close>

definition base64_text :: "bool \<Rightarrow> bytes \<Rightarrow> bytes \<Rightarrow> bool" where
  "base64_text optional s d \<longleftrightarrow>
     s = EncodeToString d \<or> optional \<and> s = filter (\<lambda>b. b \<noteq> PAD) (EncodeToString d)"

definition base64_value :: "Limits \<Rightarrow> bool \<Rightarrow> bytes \<Rightarrow> Base64String \<Rightarrow> bool" where
  "base64_value limits optional input v \<longleftrightarrow>
     int (length input) \<le> MaxTagValueBytes limits
     \<and> (\<not> optional \<longrightarrow> trimmed input)
     \<and> base64_text optional (stripBase64FWS input) (bs_decoded v)
     \<and> bs_decoded v \<noteq> [] \<and> int (length (bs_decoded v)) \<le> MaxBase64DecodedBytes limits
     \<and> bs_encoded v = EncodeToString (bs_decoded v) \<and> bs_original v = input"

lemma EncodeToString_unpadded:
  assumes "filter (\<lambda>b. b \<noteq> PAD) (EncodeToString d) \<noteq> EncodeToString d"
  obtains body where "EncodeToString d = body @ replicate (pads (length d)) PAD" "\<forall>b \<in> set body. dec6 b \<noteq> None"
    "filter (\<lambda>b. b \<noteq> PAD) (EncodeToString d) = body" "0 < pads (length d)" "pads (length d) \<le> 2"
    "length body mod 4 = 4 - pads (length d)"
proof -
  obtain body where b: "EncodeToString d = body @ replicate (pads (length d)) PAD" "\<forall>b \<in> set body. dec6 b \<noteq> None"
    by (rule EncodeToString_shape)
  have f: "filter (\<lambda>b. b \<noteq> PAD) (EncodeToString d) = body"
    using b(2) dec6_specials(1) by (auto simp: b(1) filter_id_conv)
  have p: "0 < pads (length d)" using assms b f by (cases "pads (length d)") auto
  have "(length body + pads (length d)) mod 4 = 0"
    using length_EncodeToString_mod [of d] by (simp add: b(1))
  moreover have "pads (length d) = 1 \<or> pads (length d) = 2" using p pads_le [of "length d"] by linarith
  ultimately have "length body mod 4 = 4 - pads (length d)" by (elim disjE) presburger+
  then show thesis using that b f p pads_le by blast
qed

lemma count_pads: "length (filter (\<lambda>b. b = PAD) (EncodeToString d)) = pads (length d)"
proof -
  obtain body where b: "EncodeToString d = body @ replicate (pads (length d)) PAD" "\<forall>b \<in> set body. dec6 b \<noteq> None"
    by (rule EncodeToString_shape)
  then have "filter (\<lambda>b. b = PAD) body = []" using dec6_specials(1) by (auto simp: filter_empty_conv)
  then show ?thesis by (simp add: b(1))
qed

lemma validate_EncodeToString: "validateBase64AlphabetAndPadding (EncodeToString d) = Inr (pads (length d))"
  using EncodeToString_shape [of d] validate_canonical pads_le by metis

text \<open>The part of the parser after the white space is removed.\<close>

definition parse_text :: "Limits \<Rightarrow> bool \<Rightarrow> bytes \<Rightarrow> bytes \<Rightarrow> Base64String \<Rightarrow> bool" where
  "parse_text limits optional input s v \<longleftrightarrow>
     (\<exists>k. validateBase64AlphabetAndPadding s = Inr k \<and>
      (if length s mod 4 \<noteq> 0 then
         optional \<and> k = 0 \<and> length s mod 4 \<noteq> 1
         \<and> decodeCanonical limits input (s @ bytesOf PAD (4 - length s mod 4)) (4 - length s mod 4) = Inr v
       else decodeCanonical limits input s k = Inr v))"

definition text_ok :: "Limits \<Rightarrow> bool \<Rightarrow> bytes \<Rightarrow> bytes \<Rightarrow> Base64String \<Rightarrow> bool" where
  "text_ok limits optional input s v \<longleftrightarrow>
     base64_text optional s (bs_decoded v) \<and> bs_encoded v = EncodeToString (bs_decoded v)
     \<and> bs_original v = input \<and> int (length (bs_decoded v)) \<le> MaxBase64DecodedBytes limits"

lemma decodeCanonical_enc:
  assumes "decodeCanonical limits input e k = Inr v" "k = length (filter (\<lambda>b. b = PAD) e)"
  shows "e = EncodeToString (bs_decoded v) \<and> text_ok limits optional input e v"
proof -
  have e: "e = EncodeToString (bs_decoded v)"
    using assms(1) by (auto simp: decodeCanonical_def Let_def split: option.splits if_splits)
  then have "k = pads (length (bs_decoded v))" using assms(2) count_pads by simp
  then show ?thesis
    using e assms(1) decodeCanonical_Inr_iff [of limits input e k v]
    by (auto simp: text_ok_def base64_text_def)
qed

lemma parse_text_imp:
  assumes "parse_text limits optional input s v"
  shows "text_ok limits optional input s v"
proof -
  obtain k where k: "validateBase64AlphabetAndPadding s = Inr k" using assms by (auto simp: parse_text_def)
  note cnt = validate_count [OF k]
  show ?thesis
  proof (cases "length s mod 4 = 0")
    case True
    with assms k show ?thesis
      using decodeCanonical_enc [of limits input s k v] cnt by (auto simp: parse_text_def)
  next
    case False
    let ?m = "4 - length s mod 4" and ?e = "s @ replicate (4 - length s mod 4) PAD"
    from False assms k have d: "decodeCanonical limits input ?e ?m = Inr v" and opt: "optional" and "k = 0"
      by (auto simp: parse_text_def bytesOf_def)
    with cnt have np: "filter (\<lambda>b. b = PAD) s = []" by simp
    then have f: "filter (\<lambda>b. b \<noteq> PAD) s = s" by (auto simp: filter_empty_conv filter_id_conv)
    have "?m = length (filter (\<lambda>b. b = PAD) ?e)" using np by simp
    from decodeCanonical_enc [OF d this, of optional]
    have eq: "?e = EncodeToString (bs_decoded v)" and ok: "text_ok limits optional input ?e v" by blast+
    have "s = filter (\<lambda>b. b \<noteq> PAD) (EncodeToString (bs_decoded v))"
      using f by (simp add: eq [symmetric])
    with ok show ?thesis using opt by (auto simp: text_ok_def base64_text_def)
  qed
qed

lemma text_ok_imp:
  assumes "text_ok limits optional input s v"
  shows "parse_text limits optional input s v"
proof (cases "s = EncodeToString (bs_decoded v)")
  case True
  then have "decodeCanonical limits input s (pads (length (bs_decoded v))) = Inr v"
    using assms decodeCanonical_Inr_iff [of limits input s "pads (length (bs_decoded v))" v]
    by (simp add: text_ok_def)
  with True show ?thesis
    using validate_EncodeToString length_EncodeToString_mod by (simp add: parse_text_def)
next
  case False
  let ?d = "bs_decoded v"
  from False assms have opt: "optional" and s: "s = filter (\<lambda>b. b \<noteq> PAD) (EncodeToString ?d)"
    by (auto simp: text_ok_def base64_text_def)
  with False obtain body where b: "EncodeToString ?d = body @ replicate (pads (length ?d)) PAD"
    "\<forall>b \<in> set body. dec6 b \<noteq> None" "s = body" and p: "0 < pads (length ?d)" "pads (length ?d) \<le> 2"
    and m: "length body mod 4 = 4 - pads (length ?d)"
    using EncodeToString_unpadded [of ?d] by metis
  have "validateBase64AlphabetAndPadding s = Inr 0"
    using validate_canonical [OF b(2), of 0] b(3) by simp
  moreover have "decodeCanonical limits input (EncodeToString ?d) (pads (length ?d)) = Inr v"
    using assms decodeCanonical_Inr_iff [of limits input "EncodeToString ?d" "pads (length ?d)" v]
    by (simp add: text_ok_def)
  ultimately show ?thesis using b m p opt by (simp add: parse_text_def bytesOf_def)
qed

lemma strip_Nil_or_ends:
  assumes "stripBase64FWS input \<noteq> []"
  shows "trimmed input \<longleftrightarrow> \<not> isWSP (input ! 0) \<and> \<not> isWSP (input ! (length input - 1))"
proof -
  have "input \<noteq> []" using assms by (auto simp: stripBase64FWS_def)
  then show ?thesis by (simp add: trimmed_def hd_conv_nth last_conv_nth)
qed

lemma base64_text_Nil_iff:
  assumes "base64_text optional s d"
  shows "s = [] \<longleftrightarrow> d = []"
proof (cases "d = []")
  case True
  with assms show ?thesis by (auto simp: base64_text_def EncodeToString_def)
next
  case False
  obtain body where b: "EncodeToString d = body @ replicate (pads (length d)) PAD" "\<forall>b \<in> set body. dec6 b \<noteq> None"
    by (rule EncodeToString_shape)
  have "3 \<le> length d + 2" using False by (cases d) auto
  then have "4 \<le> length (EncodeToString d)" by (simp add: length_EncodeToString)
  then have "body \<noteq> []" using b(1) pads_le [of "length d"] by auto
  moreover have "filter (\<lambda>b. b \<noteq> PAD) (EncodeToString d) = body"
    using b(2) dec6_specials(1) by (auto simp: b(1) filter_id_conv)
  ultimately show ?thesis using assms False by (auto simp: base64_text_def)
qed

theorem parseBase64String_Inr_iff:
  "parseBase64String input limits optional = Inr v \<longleftrightarrow>
     Limits_Validate (Limits_normalize limits) = None
     \<and> base64_value (Limits_normalize limits) optional input v"
proof (cases "stripBase64FWS input = []")
  case True
  then have "\<not> base64_value (Limits_normalize limits) optional input v"
    using base64_text_Nil_iff by (auto simp: base64_value_def)
  with True show ?thesis
    by (auto simp: parseBase64String_def Let_def res_check_Inr_iff res_bind_Inr_iff)
next
  case False
  let ?l = "Limits_normalize limits" and ?s = "stripBase64FWS input"
  have "parseBase64String input limits optional = Inr v \<longleftrightarrow>
      Limits_Validate ?l = None \<and> int (length input) \<le> MaxTagValueBytes ?l
      \<and> (\<not> optional \<longrightarrow> trimmed input) \<and> parse_text ?l optional input ?s v"
    using False strip_Nil_or_ends [OF False]
    by (auto simp: parseBase64String_def Let_def res_check_Inr_iff res_bind_Inr_iff parse_text_def
        not_less split: if_splits)
  also have "parse_text ?l optional input ?s v \<longleftrightarrow> text_ok ?l optional input ?s v"
    using parse_text_imp text_ok_imp by blast
  finally show ?thesis
    using False base64_text_Nil_iff [of optional ?s "bs_decoded v"]
    by (auto simp: base64_value_def text_ok_def)
qed

end
