(* ===== verification/Tagvalue_Render.thy ===== *)
theory Tagvalue_Render
  imports Tagvalue_Base64
begin

text \<open>
  The folded rendering of Base64 values (\<open>render.go\<close> of package \<open>internal/tagvalue\<close>): exact in size
  with overflow checks at the platform word, one fold per 64 characters, and parsed back by the
  strict parser after unfolding.
\<close>

section \<open>Model\<close>

definition renderedBase64ChunkBytes :: int where "renderedBase64ChunkBytes = 64"

text \<open>\<open>math.MaxInt\<close> of a 64-bit platform.\<close>

definition MaxInt :: int where "MaxInt = 2 ^ 63 - 1"

definition EncodeBase64 :: "bytes \<Rightarrow> bytes" where
  "EncodeBase64 input = EncodeToString input"

definition nextBase64Chunk :: "int \<Rightarrow> int \<Rightarrow> int \<times> int \<times> bool" where
  "nextBase64Chunk encodedBytes offset =
     (let remaining = encodedBytes - offset;
          size = min renderedBase64ChunkBytes remaining in
      if size = remaining then (size, encodedBytes, True) else (size, offset + size, False))"

text \<open>
  The visitors take the state of their closure and return it updated; \<open>None\<close> is a nil visitor.
\<close>

function walkChunksLoop :: "int \<Rightarrow> (bool \<Rightarrow> int \<Rightarrow> int \<Rightarrow> 's \<Rightarrow> 's) \<Rightarrow> int \<Rightarrow> 's \<Rightarrow> 's" where
  "walkChunksLoop encodedBytes visit offset s =
     (if offset < encodedBytes then
        (let (size, next, finished) = nextBase64Chunk encodedBytes offset;
             s' = visit (offset = 0) offset size s in
         if finished then s' else walkChunksLoop encodedBytes visit next s')
      else s)"
  by pat_completeness auto
termination
  by (relation "measure (\<lambda>(n, visit, offset, s). nat (n - offset))")
     (auto simp: nextBase64Chunk_def renderedBase64ChunkBytes_def Let_def split: if_splits)

definition walkEncodedBase64Chunks ::
    "int \<Rightarrow> (bool \<Rightarrow> int \<Rightarrow> int \<Rightarrow> 's \<Rightarrow> 's) option \<Rightarrow> 's \<Rightarrow> 's" where
  "walkEncodedBase64Chunks encodedBytes visit s =
     (case visit of None \<Rightarrow> s | Some f \<Rightarrow> walkChunksLoop encodedBytes f 0 s)"

definition FoldBase64 :: "bytes \<Rightarrow> bytes" where
  "FoldBase64 encoded =
     (if int (length encoded) \<le> renderedBase64ChunkBytes then encoded
      else walkEncodedBase64Chunks (int (length encoded))
             (Some (\<lambda>first offset size builder.
                (if \<not> first then builder @ [CR, LF, TAB] else builder)
                @ slice encoded (nat offset) (nat (offset + size)))) [])"

definition base64EncodedSize :: "int \<Rightarrow> int \<times> bool" where
  "base64EncodedSize decodedBytes =
     (if decodedBytes < 0 \<or> decodedBytes > MaxInt - 2 then (MaxInt, False)
      else (let groups = (decodedBytes + 2) div 3 in
            if groups > MaxInt div 4 then (MaxInt, False) else (groups * 4, True)))"

definition FoldedBase64Size :: "int \<Rightarrow> int \<times> bool" where
  "FoldedBase64Size decodedBytes =
     (case base64EncodedSize decodedBytes of (encoded, ok) \<Rightarrow>
        if \<not> ok then (MaxInt, False)
        else if encoded = 0 then (0, True)
        else (let folds = (encoded - 1) div renderedBase64ChunkBytes in
              if folds > (MaxInt - encoded) div 3 then (MaxInt, False)
              else (encoded + folds * 3, True)))"

definition WalkBase64Chunks ::
    "int \<Rightarrow> (bool \<Rightarrow> int \<Rightarrow> int \<Rightarrow> 's \<Rightarrow> 's) option \<Rightarrow> 's \<Rightarrow> (int \<times> bool) \<times> 's" where
  "WalkBase64Chunks decodedBytes visit s =
     (case base64EncodedSize decodedBytes of (encodedBytes, ok) \<Rightarrow>
        if \<not> ok then ((MaxInt, False), s)
        else ((encodedBytes, True), walkEncodedBase64Chunks encodedBytes visit s))"

function walkContinuedLoop :: "int \<Rightarrow> (bool \<Rightarrow> int \<Rightarrow> int \<Rightarrow> 's \<Rightarrow> 's) \<Rightarrow> int \<Rightarrow> 's \<Rightarrow> 's" where
  "walkContinuedLoop encodedBytes visit offset s =
     (if offset < encodedBytes then
        (let (size, next, finished) = nextBase64Chunk encodedBytes offset;
             s' = visit False offset size s in
         if finished then s' else walkContinuedLoop encodedBytes visit next s')
      else s)"
  by pat_completeness auto
termination
  by (relation "measure (\<lambda>(n, visit, offset, s). nat (n - offset))")
     (auto simp: nextBase64Chunk_def renderedBase64ChunkBytes_def Let_def split: if_splits)

definition WalkContinuedBase64Chunks ::
    "int \<Rightarrow> (bool \<Rightarrow> int \<Rightarrow> int \<Rightarrow> 's \<Rightarrow> 's) option \<Rightarrow> 's \<Rightarrow> (int \<times> bool) \<times> 's" where
  "WalkContinuedBase64Chunks decodedBytes visit s =
     (case base64EncodedSize decodedBytes of (encodedBytes, ok) \<Rightarrow>
        if \<not> ok \<or> encodedBytes = 0 then ((MaxInt, False), s)
        else (case visit of
                None \<Rightarrow> ((encodedBytes, True), s)
              | Some f \<Rightarrow> ((encodedBytes, True), walkContinuedLoop encodedBytes f 1 (f True 0 1 s))))"

declare walkChunksLoop.simps [simp del] walkContinuedLoop.simps [simp del]

section \<open>The chunks\<close>

lemma nextBase64Chunk_split:
  "offset < n \<Longrightarrow> nextBase64Chunk n offset =
     (if n - offset \<le> 64 then (n - offset, n, True) else (64, offset + 64, False))"
  by (auto simp: nextBase64Chunk_def renderedBase64ChunkBytes_def Let_def)

text \<open>The reference folding, by chunks of the text.\<close>

function fold64 :: "bytes \<Rightarrow> bytes" where
  "fold64 e = (if length e \<le> 64 then e else take 64 e @ [CR, LF, TAB] @ fold64 (drop 64 e))"
  by pat_completeness auto
termination
  by (relation "measure length") auto

declare fold64.simps [simp del]

lemma fold64_induct [case_names short long]:
  assumes "\<And>e. length e \<le> 64 \<Longrightarrow> P e"
    and "\<And>e. 64 < length e \<Longrightarrow> P (drop 64 e) \<Longrightarrow> P e"
  shows "P (e :: bytes)"
  by (induction e rule: fold64.induct) (metis assms not_le)

lemma fold64_simps:
  "length e \<le> 64 \<Longrightarrow> fold64 e = e"
  "64 < length e \<Longrightarrow> fold64 e = take 64 e @ [CR, LF, TAB] @ fold64 (drop 64 e)"
  by (simp_all add: fold64.simps [of e])

lemma walkChunksLoop_step:
  "k < n \<Longrightarrow> n - k \<le> 64 \<Longrightarrow> walkChunksLoop n f k s = f (k = 0) k (n - k) s"
  "64 < n - k \<Longrightarrow> walkChunksLoop n f k s = walkChunksLoop n f (k + 64) (f (k = 0) k 64 s)"
  by (subst walkChunksLoop.simps; simp add: nextBase64Chunk_split)+

lemma walk_fold64:
  assumes "e = pre @ r" "r \<noteq> []"
  shows "walkChunksLoop (int (length e)) (\<lambda>first offset size builder.
           (if \<not> first then builder @ [CR, LF, TAB] else builder) @ slice e (nat offset) (nat (offset + size)))
           (int (length pre)) b
     = b @ (if pre = [] then [] else [CR, LF, TAB]) @ fold64 r"
  using assms
proof (induction r arbitrary: pre b rule: fold64_induct)
  case (short r)
  have sl: "slice e (length pre) (length e) = r" using short by (simp add: slice_def)
  have "int (length pre) < int (length e)" "int (length e) - int (length pre) \<le> 64" using short by auto
  with sl short(1) show ?case by (simp add: walkChunksLoop_step(1) fold64_simps)
next
  case (long r)
  have sl: "slice e (length pre) (nat (int (length pre) + 64)) = take 64 r"
    using long by (simp add: slice_def nat_add_distrib)
  have e: "e = (pre @ take 64 r) @ drop 64 r" "pre @ take 64 r \<noteq> []" "drop 64 r \<noteq> []"
    using long by auto
  have off: "int (length pre) + 64 = int (length (pre @ take 64 r))" using long by simp
  have lt: "64 < int (length e) - int (length pre)" using long by auto
  let ?f = "\<lambda>first offset size builder.
     (if \<not> first then builder @ [CR, LF, TAB] else builder) @ slice e (nat offset) (nat (offset + size))"
  have "walkChunksLoop (int (length e)) ?f (int (length pre)) b =
      walkChunksLoop (int (length e)) ?f (int (length pre) + 64) (?f (int (length pre) = 0) (int (length pre)) 64 b)"
    using lt by (rule walkChunksLoop_step)
  also have "\<dots> = ?f (int (length pre) = 0) (int (length pre)) 64 b @ [CR, LF, TAB] @ fold64 (drop 64 r)"
    unfolding off using long.IH [OF e(1,3)] by (simp only: e(2) if_False)
  also have "?f (int (length pre) = 0) (int (length pre)) 64 b
      = b @ (if pre = [] then [] else [CR, LF, TAB]) @ take 64 r"
    using sl by simp
  finally show ?case using long.hyps by (simp add: fold64_simps)
qed

lemma FoldBase64_fold64: "FoldBase64 e = fold64 e"
proof (cases "length e \<le> 64")
  case False
  then have "e \<noteq> []" by auto
  from walk_fold64 [of e "[]" e "[]"] this False show ?thesis
    by (simp add: FoldBase64_def renderedBase64ChunkBytes_def walkEncodedBase64Chunks_def)
qed (simp add: FoldBase64_def renderedBase64ChunkBytes_def fold64_simps)

lemma length_fold64: "length (fold64 e) = length e + (length e - 1) div 64 * 3"
proof (induction e rule: fold64_induct)
  case (long e)
  have "(length e - 1) div 64 = (length e - 65 + 64) div 64" using long by simp
  also have "\<dots> = (length e - 65) div 64 + 1" by simp
  finally have d: "(length e - 1) div 64 = (length e - 65) div 64 + 1" .
  then have "(length e - Suc 0) div 64 = (length e - 65) div 64 + 1" by simp
  with long show ?case by (simp add: fold64_simps)
qed (simp add: fold64_simps)

lemma fold64_valid: "clean e \<Longrightarrow> validHeaderFieldValue (fold64 e)"
proof (induction e rule: fold64_induct)
  case (short e)
  then show ?case by (simp add: fold64_simps clean_def validHeaderFieldValue_no_break)
next
  case (long e)
  have c: "clean (take 64 e)" "clean (drop 64 e)" using long.prems clean_append append_take_drop_id by metis+
  then have "validHeaderFieldValue (take 64 e @ crlf @ TAB # fold64 (drop 64 e))"
    using long.IH validHeaderFieldValue_fold [of "take 64 e" TAB] by (simp add: clean_def isWSP_def)
  with long show ?case by (simp add: fold64_simps crlf_def)
qed

lemma filter_fold64: "\<forall>b \<in> set e. P b \<Longrightarrow> \<not> P CR \<Longrightarrow> \<not> P LF \<Longrightarrow> \<not> P TAB \<Longrightarrow> filter P (fold64 e) = e"
proof (induction e rule: fold64_induct)
  case (long e)
  have "\<forall>b \<in> set (take 64 e). P b" "\<forall>b \<in> set (drop 64 e). P b"
    using long.prems(1) by (auto dest: in_set_takeD in_set_dropD)
  with long show ?case by (simp add: fold64_simps filter_id_conv)
qed (simp add: fold64_simps filter_id_conv)

lemma fold64_ends: "e \<noteq> [] \<Longrightarrow> fold64 e \<noteq> [] \<and> hd (fold64 e) = hd e \<and> last (fold64 e) = last e"
proof (induction e rule: fold64_induct)
  case (long e)
  have "drop 64 e \<noteq> []" "take 64 e \<noteq> []" using long by auto
  moreover have "hd (take 64 e) = hd e" "last (drop 64 e) = last e" using long by (auto simp: last_drop)
  ultimately show ?case using long by (simp add: fold64_simps)
qed (simp add: fold64_simps)

text \<open>Every physical line of a folded text has at most 65 octets.\<close>

lemma fold64_lines:
  assumes "clean e" "clean x" "length x \<le> 1"
  shows "\<forall>l \<in> set (crlf_lines (x @ fold64 e)). length (content l) \<le> 65"
  using assms
proof (induction e arbitrary: x rule: fold64_induct)
  case (short e)
  then have "no_crlf (x @ e)" by (intro clean_no_crlf) simp
  with short show ?case
    by (cases "x @ e = []") (auto simp: fold64_simps crlf_lines_plain content_plain)
next
  case (long e)
  have c: "clean (take 64 e)" "clean (drop 64 e)" using long.prems clean_append append_take_drop_id by metis+
  have n: "no_crlf (x @ take 64 e)" using long.prems c by (intro clean_no_crlf) simp
  have "x @ fold64 e = (x @ take 64 e) @ crlf @ ([TAB] @ fold64 (drop 64 e))"
    using long by (simp add: fold64_simps crlf_def)
  then have "crlf_lines (x @ fold64 e) = (x @ take 64 e @ crlf) # crlf_lines ([TAB] @ fold64 (drop 64 e))"
    using crlf_lines_line [OF n] by simp
  moreover have "content (x @ take 64 e @ crlf) = x @ take 64 e" using content_line [of "x @ take 64 e"] by simp
  ultimately show ?case using long.IH [OF c(2), of "[TAB]"] long.prems(3) by auto
qed

section \<open>Sizes\<close>

text \<open>The exact sizes, without the limits of the machine word.\<close>

definition encoded_size :: "int \<Rightarrow> int" where
  "encoded_size n = (n + 2) div 3 * 4"

definition folded_size :: "int \<Rightarrow> int" where
  "folded_size n = (if n = 0 then 0 else encoded_size n + (encoded_size n - 1) div 64 * 3)"

lemma base64EncodedSize_exact:
  "base64EncodedSize n = (if 0 \<le> n \<and> encoded_size n \<le> MaxInt then (encoded_size n, True) else (MaxInt, False))"
proof -
  have lower: "n + 2 - 2 \<le> (n + 2) div 3 * 3" using div_mult_mod_eq [of "n + 2" 3] pos_mod_bound [of 3 "n + 2"] by linarith
  have le: "n \<le> MaxInt - 2" if "0 \<le> n" "encoded_size n \<le> MaxInt"
  proof (rule ccontr)
    assume "\<not> n \<le> MaxInt - 2"
    then have "MaxInt - 1 \<le> (n + 2) div 3 * 3" "8 \<le> MaxInt" using lower by (auto simp: MaxInt_def)
    with that(2) show False unfolding encoded_size_def by linarith
  qed
  have "(n + 2) div 3 \<le> MaxInt div 4 \<longleftrightarrow> encoded_size n \<le> MaxInt"
    unfolding encoded_size_def by (rule iffI) linarith+
  then show ?thesis using le by (auto simp: base64EncodedSize_def encoded_size_def Let_def)
qed

lemma FoldedBase64Size_exact:
  "FoldedBase64Size n = (if 0 \<le> n \<and> folded_size n \<le> MaxInt then (folded_size n, True) else (MaxInt, False))"
proof (cases "0 \<le> n \<and> encoded_size n \<le> MaxInt")
  case True
  let ?e = "encoded_size n"
  have pos: "n \<noteq> 0 \<Longrightarrow> 1 \<le> (n + 2) div 3" using True by (simp add: zdiv_mono1 [of 3 "n + 2" 3, simplified])
  then have zero: "?e = 0 \<longleftrightarrow> n = 0" by (cases "n = 0") (auto simp: encoded_size_def)
  have cmp: "(?e - 1) div 64 \<le> (MaxInt - ?e) div 3 \<longleftrightarrow> ?e + (?e - 1) div 64 * 3 \<le> MaxInt"
    by (rule iffI) linarith+
  show ?thesis
    using True zero cmp
    by (auto simp: FoldedBase64Size_def base64EncodedSize_exact folded_size_def Let_def
        renderedBase64ChunkBytes_def MaxInt_def)
next
  case False
  have "folded_size n \<le> MaxInt \<Longrightarrow> 0 \<le> n \<Longrightarrow> encoded_size n \<le> MaxInt"
    by (cases "n = 0") (auto simp: folded_size_def encoded_size_def intro: order_trans [rotated])
  with False show ?thesis by (auto simp: FoldedBase64Size_def base64EncodedSize_exact)
qed

lemma length_EncodeBase64: "int (length (EncodeBase64 d)) = encoded_size (int (length d))"
  by (simp add: EncodeBase64_def length_EncodeToString encoded_size_def zdiv_int)

lemma length_FoldBase64: "int (length (FoldBase64 (EncodeBase64 d))) = folded_size (int (length d))"
proof (cases "d = []")
  case False
  then have "1 \<le> length (EncodeBase64 d)"
    using EncodeToString_eq_Nil_iff [of d] by (cases "EncodeBase64 d") (auto simp: EncodeBase64_def)
  then show ?thesis
    using False length_EncodeBase64 [of d]
    by (simp add: FoldBase64_fold64 length_fold64 folded_size_def zdiv_int of_nat_diff)
qed (simp add: FoldBase64_fold64 EncodeBase64_def EncodeToString_def fold64_simps folded_size_def)

section \<open>Round trip\<close>

lemma EncodeBase64_clean: "clean (EncodeBase64 d)"
  using EncodeToString_no_break by (auto simp: EncodeBase64_def clean_def)

text \<open>A folded encoding is a valid folded header value, and unfolded it parses to the octets.\<close>

lemma FoldBase64_parses:
  fixes d limits
  defines "input \<equiv> unfoldHeaderValue (FoldBase64 (EncodeBase64 d))"
  assumes "d \<noteq> []" "Limits_Validate (Limits_normalize limits) = None"
    and "folded_size (int (length d)) \<le> MaxTagValueBytes (Limits_normalize limits)"
    and "int (length d) \<le> MaxBase64DecodedBytes (Limits_normalize limits)"
  shows "ParseBase64String input limits
     = Inr \<lparr>bs_original = input, bs_encoded = EncodeBase64 d, bs_decoded = d\<rparr>"
proof -
  let ?e = "EncodeBase64 d"
  have ne: "?e \<noteq> []" using assms(2) by (simp add: EncodeBase64_def)
  have w: "\<forall>b \<in> set ?e. b \<noteq> CR \<and> b \<noteq> LF \<and> \<not> isWSP b"
    using EncodeToString_no_break by (simp add: EncodeBase64_def)
  have inp: "input = filter (\<lambda>b. b \<noteq> CR \<and> b \<noteq> LF) (fold64 ?e)"
    using fold64_valid [OF EncodeBase64_clean]
    by (simp add: input_def FoldBase64_fold64 unfoldHeaderValue_valid)
  have "stripBase64FWS input = filter (\<lambda>b. b \<noteq> CR \<and> b \<noteq> LF \<and> \<not> isWSP b) (fold64 ?e)"
    by (simp add: inp stripBase64FWS_def conj_ac)
  also have "\<dots> = ?e" using w by (intro filter_fold64) (auto simp: isWSP_def)
  finally have strip: "stripBase64FWS input = ?e" .
  have "length input \<le> length (FoldBase64 ?e)" by (simp add: inp FoldBase64_fold64)
  then have len: "int (length input) \<le> MaxTagValueBytes (Limits_normalize limits)"
    using assms(4) length_FoldBase64 [of d] by linarith
  have "trimmed input"
  proof -
    obtain x y where x: "fold64 ?e = hd ?e # x" and y: "fold64 ?e = y @ [last ?e]"
      using fold64_ends [OF ne] by (metis append_butlast_last_id list.collapse)
    have h: "hd ?e \<noteq> CR \<and> hd ?e \<noteq> LF \<and> \<not> isWSP (hd ?e)" "last ?e \<noteq> CR \<and> last ?e \<noteq> LF \<and> \<not> isWSP (last ?e)"
      using w ne by auto
    have "input = hd ?e # filter (\<lambda>b. b \<noteq> CR \<and> b \<noteq> LF) x" using h unfolding inp x by simp
    moreover have "input = filter (\<lambda>b. b \<noteq> CR \<and> b \<noteq> LF) y @ [last ?e]" using h unfolding inp y by simp
    ultimately show ?thesis using h unfolding trimmed_def by (metis last_snoc list.sel(1))
  qed
  with len strip assms(2,3,5) show ?thesis
    unfolding ParseBase64String_def parseBase64String_Inr_iff
    by (simp add: base64_value_def base64_text_def EncodeBase64_def)
qed

end
