(* ===== verification/Tagvalue_Properties.thy ===== *)
theory Tagvalue_Properties
  imports Tagvalue_Render
begin

text \<open>
  The properties of the tag-list layer (package \<open>internal/tagvalue\<close>), each with a concrete instance
  where it has hypotheses.
\<close>

section \<open>Scanning\<close>

text \<open>
  C3: The scanner accepts exactly the tag lists of its mode: text without line breaks (header
  mode) or with folds that unfold (DNS mode), at most one blank final segment, one well-formed
  specification per remaining segment, pairwise distinct names and the configured limits; it
  returns one tag per specification in order, with the index of their positions.
\<close>

theorem scan_exact:
  "scan input known limits mode = Inr f \<longleftrightarrow>
     Limits_Validate (Limits_normalize limits) = None
     \<and> int (length input) \<le> MaxFieldValueBytes (Limits_normalize limits)
     \<and> (\<exists>t. scanInput input mode = Inr t
          \<and> list_all2 (tag_spec known (Limits_normalize limits) mode) (tag_specs t) (fd_tags f))
     \<and> distinct (map tag_name (fd_tags f))
     \<and> int (length (fd_tags f)) \<le> MaxTags (Limits_normalize limits)
     \<and> fd_index f = index_of (fd_tags f)"
  by (rule scan_Inr_iff)

text \<open>
  Lookup in a scanned field finds exactly the tag that carries the name.
\<close>

lemma lookup_tag:
  assumes "scan input known limits mode = Inr f"
  shows "TagField_Get f n = Some t \<longleftrightarrow> t \<in> set (fd_tags f) \<and> tag_name t = n"
  using assms by (rule TagField_Get_iff)

theorem lookup_tag_witness:
  "\<exists>f. scan ''i=1; m=x;'' \<lparr>kt_exact = [''i'']\<rparr> DefaultLimits scanModeHeader = Inr f
     \<and> (TagField_Get f ''m'' = Some \<lparr>tag_name = ''m'', tag_value = ''x'', tag_known = False\<rparr> \<longleftrightarrow>
        \<lparr>tag_name = ''m'', tag_value = ''x'', tag_known = False\<rparr> \<in> set (fd_tags f) \<and> ''m'' = ''m'')"
proof -
  have "\<not> isl (scan ''i=1; m=x;'' \<lparr>kt_exact = [''i'']\<rparr> DefaultLimits scanModeHeader)" by code_simp
  then obtain f where f: "scan ''i=1; m=x;'' \<lparr>kt_exact = [''i'']\<rparr> DefaultLimits scanModeHeader = Inr f"
    by (cases "scan ''i=1; m=x;'' \<lparr>kt_exact = [''i'']\<rparr> DefaultLimits scanModeHeader") auto
  from f lookup_tag [OF f, of "''m''" "\<lparr>tag_name = ''m'', tag_value = ''x'', tag_known = False\<rparr>"]
  show ?thesis by auto
qed

text \<open>
  DNS unfolding and raw-message unfolding agree: the scanner accepts the same folded values as
  the message grammar and removes the same octets.
\<close>

lemma dns_unfold_exact:
  "unfoldDNSFWS s = Inr u \<longleftrightarrow> validHeaderFieldValue s \<and> u = unfoldHeaderValue s"
  by (rule unfoldDNSFWS_Inr_iff)

section \<open>Base64\<close>

text \<open>
  C4: \<open>ParseBase64String\<close> accepts exactly the values that, with inner white space removed, are the
  canonical padded encoding of a non-empty octet string within the limits, and that neither begin
  nor end with white space; it returns those octets.
\<close>

theorem base64_exact:
  "ParseBase64String input limits = Inr v \<longleftrightarrow>
     Limits_Validate (Limits_normalize limits) = None
     \<and> int (length input) \<le> MaxTagValueBytes (Limits_normalize limits)
     \<and> trimmed input \<and> stripBase64FWS input = EncodeToString (bs_decoded v)
     \<and> bs_decoded v \<noteq> [] \<and> int (length (bs_decoded v)) \<le> MaxBase64DecodedBytes (Limits_normalize limits)
     \<and> bs_encoded v = EncodeToString (bs_decoded v) \<and> bs_original v = input"
  by (auto simp: ParseBase64String_def parseBase64String_Inr_iff base64_value_def base64_text_def)

text \<open>
  With optional padding the parser accepts, in addition, the canonical encoding without its
  padding and any surrounding white space, and reports the padded canonical text.
\<close>

lemma base64_optional_exact:
  "ParseOptionalPaddingBase64String input limits = Inr v \<longleftrightarrow>
     Limits_Validate (Limits_normalize limits) = None
     \<and> int (length input) \<le> MaxTagValueBytes (Limits_normalize limits)
     \<and> (stripBase64FWS input = EncodeToString (bs_decoded v)
        \<or> stripBase64FWS input = filter (\<lambda>b. b \<noteq> PAD) (EncodeToString (bs_decoded v)))
     \<and> bs_decoded v \<noteq> [] \<and> int (length (bs_decoded v)) \<le> MaxBase64DecodedBytes (Limits_normalize limits)
     \<and> bs_encoded v = EncodeToString (bs_decoded v) \<and> bs_original v = input"
  by (auto simp: ParseOptionalPaddingBase64String_def parseBase64String_Inr_iff base64_value_def base64_text_def)

text \<open>
  Rendering round trip: the folded encoding of a non-empty octet string is a valid folded
  header value, and its unfolded form parses back to the octets when it fits the limits.
\<close>

lemma fold_round_trip:
  assumes "d \<noteq> []" "Limits_Validate (Limits_normalize limits) = None"
    and "folded_size (int (length d)) \<le> MaxTagValueBytes (Limits_normalize limits)"
    and "int (length d) \<le> MaxBase64DecodedBytes (Limits_normalize limits)"
  shows "validHeaderFieldValue (FoldBase64 (EncodeBase64 d))
     \<and> ParseBase64String (unfoldHeaderValue (FoldBase64 (EncodeBase64 d))) limits
       = Inr \<lparr>bs_original = unfoldHeaderValue (FoldBase64 (EncodeBase64 d)),
              bs_encoded = EncodeBase64 d, bs_decoded = d\<rparr>"
  using FoldBase64_parses [OF assms] fold64_valid [OF EncodeBase64_clean, of d]
  by (simp add: FoldBase64_fold64)

lemma fold_round_trip_example:
  "ParseBase64String (unfoldHeaderValue (FoldBase64 (EncodeBase64 ''abc''))) DefaultLimits
     = Inr \<lparr>bs_original = unfoldHeaderValue (FoldBase64 (EncodeBase64 ''abc'')),
            bs_encoded = EncodeBase64 ''abc'', bs_decoded = ''abc''\<rparr>"
proof -
  have "Limits_Validate (Limits_normalize DefaultLimits) = None"
    by (simp add: Limits_Validate_normalize DefaultLimits_def)
  then show ?thesis
    using fold_round_trip [of "''abc''" DefaultLimits]
    by (simp add: folded_size_def encoded_size_def Limits_normalize_def DefaultLimits_def Let_def)
qed

text \<open>
  The size of a folded encoding is computed exactly, and reported as an overflow exactly when
  it does not fit the platform integer.
\<close>

lemma folded_size_exact:
  "FoldedBase64Size n =
     (if 0 \<le> n \<and> folded_size n \<le> MaxInt then (folded_size n, True) else (MaxInt, False))
   \<and> int (length (FoldBase64 (EncodeBase64 d))) = folded_size (int (length d))"
  by (simp add: FoldedBase64Size_exact length_FoldBase64)

text \<open>
  Every physical line of a folded encoding has at most 65 octets, so a folded value cannot
  exceed the line limit of the message parser by itself.
\<close>

lemma folded_lines_bounded:
  "list_all (\<lambda>l. length (content l) \<le> 65) (crlf_lines (FoldBase64 (EncodeBase64 d)))"
  using fold64_lines [OF EncodeBase64_clean, of "[]" d] by (simp add: FoldBase64_fold64 list_all_iff)

end
