(* ===== verification/Canonical_Base.thy ===== *)
theory Canonical_Base
  imports Rawmsg_Base Go_Base64
begin

text \<open>
  Errors, limits, options and result containers of package \<open>internal/canonical\<close> (\<open>errors.go\<close>,
  \<open>limits.go\<close>, \<open>options.go\<close>, \<open>result.go\<close>). Kinds and algorithm names are Go string types, kept as
  strings here. Errors are modelled without their wrapped cause, which is nil at every call modelled.
\<close>

section \<open>Options and kinds (\<open>options.go\<close>)\<close>

type_synonym Kind = string
type_synonym HashAlgorithm = string

abbreviation KindBodyHashInput :: Kind where "KindBodyHashInput \<equiv> ''body_hash_input''"
abbreviation KindHeaderHashInput :: Kind where "KindHeaderHashInput \<equiv> ''header_hash_input''"
abbreviation KindSignatureInput :: Kind where "KindSignatureInput \<equiv> ''signature_input''"

abbreviation HashAlgorithmSHA256 :: HashAlgorithm where "HashAlgorithmSHA256 \<equiv> ''sha256''"
abbreviation HashAlgorithmSHA512 :: HashAlgorithm where "HashAlgorithmSHA512 \<equiv> ''sha512''"

abbreviation DraftBaseline :: string where "DraftBaseline \<equiv> ''draft-ietf-dkim-dkim2-spec-09''"

definition validKind :: "Kind \<Rightarrow> bool" where
  "validKind kind \<longleftrightarrow> kind = KindBodyHashInput \<or> kind = KindHeaderHashInput \<or> kind = KindSignatureInput"

definition HashAlgorithm_Known :: "HashAlgorithm \<Rightarrow> bool" where
  "HashAlgorithm_Known a \<longleftrightarrow> a = HashAlgorithmSHA256 \<or> a = HashAlgorithmSHA512"

section \<open>Errors (\<open>errors.go\<close>)\<close>

datatype CanonErrorCode =
    CanonErrorCodeUnsupportedAlgorithm
  | CanonErrorCodeInvalidOptions
  | CanonErrorCodeLimitExceeded
  | CanonErrorCodeMalformedState
  | CanonErrorCodeAmbiguousSelection
  | CanonErrorCodeMissingTarget
  | CanonErrorCodeDuplicateTarget
  | CanonErrorCodeInternalMisuse

text \<open>\<open>CanonErrorClassUnset\<close> is the empty string.\<close>

datatype CanonErrorClass =
    CanonErrorClassUnset
  | CanonErrorClassAlgorithm
  | CanonErrorClassInvariant
  | CanonErrorClassLimit
  | CanonErrorClassMalformed
  | CanonErrorClassAmbiguous
  | CanonErrorClassMissing
  | CanonErrorClassDuplicate
  | CanonErrorClassInternal

record CanonErrorLocation =
  cl_Kind :: Kind
  cl_FieldIndex :: int
  cl_TargetNumber :: nat

record CanonErrorDetails =
  cd_Class :: CanonErrorClass
  cd_Algorithm :: HashAlgorithm
  cd_LimitName :: string
  cd_Limit :: int
  cd_Count :: int
  cd_TargetName :: string

record CanonError =
  ce_code :: CanonErrorCode
  ce_location :: CanonErrorLocation
  ce_details :: CanonErrorDetails

definition zeroCanonLocation :: CanonErrorLocation where
  "zeroCanonLocation = \<lparr>cl_Kind = [], cl_FieldIndex = 0, cl_TargetNumber = 0\<rparr>"

definition zeroCanonDetails :: CanonErrorDetails where
  "zeroCanonDetails = \<lparr>cd_Class = CanonErrorClassUnset, cd_Algorithm = [], cd_LimitName = [],
     cd_Limit = 0, cd_Count = 0, cd_TargetName = []\<rparr>"

definition canonClassForCode :: "CanonErrorCode \<Rightarrow> CanonErrorClass" where
  "canonClassForCode code =
     (case code of
        CanonErrorCodeUnsupportedAlgorithm \<Rightarrow> CanonErrorClassAlgorithm
      | CanonErrorCodeInvalidOptions \<Rightarrow> CanonErrorClassInvariant
      | CanonErrorCodeLimitExceeded \<Rightarrow> CanonErrorClassLimit
      | CanonErrorCodeAmbiguousSelection \<Rightarrow> CanonErrorClassAmbiguous
      | CanonErrorCodeMissingTarget \<Rightarrow> CanonErrorClassMissing
      | CanonErrorCodeDuplicateTarget \<Rightarrow> CanonErrorClassDuplicate
      | CanonErrorCodeInternalMisuse \<Rightarrow> CanonErrorClassInternal
      | CanonErrorCodeMalformedState \<Rightarrow> CanonErrorClassMalformed)"

definition sanitizeCanonLocation :: "CanonErrorLocation \<Rightarrow> CanonErrorLocation" where
  "sanitizeCanonLocation l = l\<lparr>cl_Kind := (if \<not> validKind (cl_Kind l) then [] else cl_Kind l),
     cl_FieldIndex := (if cl_FieldIndex l < 0 then 0 else cl_FieldIndex l)\<rparr>"

definition sanitizeCanonDetails :: "CanonErrorDetails \<Rightarrow> CanonErrorDetails" where
  "sanitizeCanonDetails d = d\<lparr>cd_Limit := (if cd_Limit d < 0 then 0 else cd_Limit d),
     cd_Count := (if cd_Count d < 0 then 0 else cd_Count d)\<rparr>"

text \<open>Unlike the parser's, the token of this package keeps an empty value empty.\<close>

definition canonDiagnosticToken :: "string \<Rightarrow> string" where
  "canonDiagnosticToken value =
     (if value = [] then []
      else if length value > 64 then ''redacted''
      else if \<forall>b \<in> set value. safeTokenByte b then value else ''redacted'')"

definition newCanonError :: "CanonErrorCode \<Rightarrow> CanonErrorLocation \<Rightarrow> CanonErrorDetails \<Rightarrow> CanonError" where
  "newCanonError code location details =
     (let details1 = (if cd_Class details = CanonErrorClassUnset
                      then details\<lparr>cd_Class := canonClassForCode code\<rparr> else details);
          details2 = details1\<lparr>cd_Algorithm := canonDiagnosticToken (cd_Algorithm details1),
                       cd_LimitName := canonDiagnosticToken (cd_LimitName details1),
                       cd_TargetName := canonDiagnosticToken (cd_TargetName details1)\<rparr>
      in \<lparr>ce_code = code, ce_location = sanitizeCanonLocation location,
          ce_details = sanitizeCanonDetails details2\<rparr>)"

definition CanonError_Code :: "CanonError option \<Rightarrow> CanonErrorCode option" where
  "CanonError_Code e = map_option ce_code e"

definition CanonError_Location :: "CanonError option \<Rightarrow> CanonErrorLocation" where
  "CanonError_Location e = (case e of None \<Rightarrow> zeroCanonLocation | Some x \<Rightarrow> ce_location x)"

definition CanonError_Class :: "CanonError option \<Rightarrow> CanonErrorClass" where
  "CanonError_Class e = (case e of None \<Rightarrow> CanonErrorClassUnset | Some x \<Rightarrow> cd_Class (ce_details x))"

definition CanonError_Algorithm :: "CanonError option \<Rightarrow> HashAlgorithm" where
  "CanonError_Algorithm e = (case e of None \<Rightarrow> [] | Some x \<Rightarrow> cd_Algorithm (ce_details x))"

definition CanonError_LimitName :: "CanonError option \<Rightarrow> string" where
  "CanonError_LimitName e = (case e of None \<Rightarrow> [] | Some x \<Rightarrow> cd_LimitName (ce_details x))"

definition CanonError_Limit :: "CanonError option \<Rightarrow> int" where
  "CanonError_Limit e = (case e of None \<Rightarrow> 0 | Some x \<Rightarrow> cd_Limit (ce_details x))"

definition CanonError_Count :: "CanonError option \<Rightarrow> int" where
  "CanonError_Count e = (case e of None \<Rightarrow> 0 | Some x \<Rightarrow> cd_Count (ce_details x))"

definition CanonError_TargetName :: "CanonError option \<Rightarrow> string" where
  "CanonError_TargetName e = (case e of None \<Rightarrow> [] | Some x \<Rightarrow> cd_TargetName (ce_details x))"

definition CanonError_Is :: "CanonError option \<Rightarrow> CanonError option \<Rightarrow> bool" where
  "CanonError_Is e target =
     (case (e, target) of (Some x, Some y) \<Rightarrow> ce_code x = ce_code y | _ \<Rightarrow> False)"

definition malformedStateError :: "Kind \<Rightarrow> CanonError" where
  "malformedStateError kind =
     newCanonError CanonErrorCodeMalformedState (zeroCanonLocation\<lparr>cl_Kind := kind\<rparr>)
       (zeroCanonDetails\<lparr>cd_Class := CanonErrorClassMalformed\<rparr>)"

section \<open>Limits (\<open>limits.go\<close>)\<close>

record CanonLimits =
  MaxBodyInputBytes :: int
  MaxHeaderInputBytes :: int
  MaxSignatureInputBytes :: int
  MaxFieldBytes :: int
  MaxFieldCount :: int
  MaxExcludedHeaderCounters :: int

definition DefaultCanonLimits :: CanonLimits where
  "DefaultCanonLimits = \<lparr>MaxBodyInputBytes = HardMaxMessageBytes, MaxHeaderInputBytes = 2 * 1024 * 1024,
     MaxSignatureInputBytes = 2 * 1024 * 1024, MaxFieldBytes = 128 * 1024, MaxFieldCount = 4000,
     MaxExcludedHeaderCounters = 10\<rparr>"

definition invalidLimitOptionError :: "string \<Rightarrow> int \<Rightarrow> CanonError" where
  "invalidLimitOptionError limitName limit =
     newCanonError CanonErrorCodeInvalidOptions zeroCanonLocation
       (zeroCanonDetails\<lparr>cd_Class := CanonErrorClassInvariant, cd_LimitName := limitName, cd_Limit := limit\<rparr>)"

definition CanonLimits_Validate :: "CanonLimits \<Rightarrow> CanonError option" where
  "CanonLimits_Validate l =
     (if MaxBodyInputBytes l \<le> 0
      then Some (invalidLimitOptionError ''max_body_input_bytes'' (MaxBodyInputBytes l))
      else if MaxHeaderInputBytes l \<le> 0
      then Some (invalidLimitOptionError ''max_header_input_bytes'' (MaxHeaderInputBytes l))
      else if MaxSignatureInputBytes l \<le> 0
      then Some (invalidLimitOptionError ''max_signature_input_bytes'' (MaxSignatureInputBytes l))
      else if MaxFieldBytes l \<le> 0
      then Some (invalidLimitOptionError ''max_field_bytes'' (MaxFieldBytes l))
      else if MaxFieldCount l \<le> 0
      then Some (invalidLimitOptionError ''max_field_count'' (MaxFieldCount l))
      else if MaxExcludedHeaderCounters l \<le> 0 \<or> MaxExcludedHeaderCounters l > 10
      then Some (invalidLimitOptionError ''max_excluded_header_counters'' (MaxExcludedHeaderCounters l))
      else None)"

record CanonOptions =
  co_Limits :: CanonLimits
  co_HashAlgorithm :: HashAlgorithm

definition DefaultCanonOptions :: CanonOptions where
  "DefaultCanonOptions = \<lparr>co_Limits = DefaultCanonLimits, co_HashAlgorithm = HashAlgorithmSHA256\<rparr>"

definition unsupportedAlgorithmError :: "Kind \<Rightarrow> HashAlgorithm \<Rightarrow> CanonError" where
  "unsupportedAlgorithmError kind algorithm =
     newCanonError CanonErrorCodeUnsupportedAlgorithm (zeroCanonLocation\<lparr>cl_Kind := kind\<rparr>)
       (zeroCanonDetails\<lparr>cd_Class := CanonErrorClassAlgorithm, cd_Algorithm := algorithm\<rparr>)"

definition CanonOptions_Validate :: "CanonOptions \<Rightarrow> CanonError option" where
  "CanonOptions_Validate o' =
     (case CanonLimits_Validate (co_Limits o') of
        Some e \<Rightarrow> Some e
      | None \<Rightarrow> if \<not> HashAlgorithm_Known (co_HashAlgorithm o')
                then Some (unsupportedAlgorithmError [] (co_HashAlgorithm o')) else None)"

text \<open>An option is a function on the options; \<open>None\<close> is a nil option.\<close>

definition WithLimits :: "CanonLimits \<Rightarrow> CanonOptions \<Rightarrow> CanonOptions" where
  "WithLimits limits options = options\<lparr>co_Limits := limits\<rparr>"

definition WithHashAlgorithm :: "HashAlgorithm \<Rightarrow> CanonOptions \<Rightarrow> CanonOptions" where
  "WithHashAlgorithm algorithm options = options\<lparr>co_HashAlgorithm := algorithm\<rparr>"

record Canonicalizer =
  cz_options :: CanonOptions

definition NewCanonicalizer ::
    "(CanonOptions \<Rightarrow> CanonOptions) option list \<Rightarrow> (CanonError, Canonicalizer) result" where
  "NewCanonicalizer options =
     (let resolved = fold (\<lambda>option acc. case option of None \<Rightarrow> acc | Some f \<Rightarrow> f acc) options DefaultCanonOptions
      in res_check (CanonOptions_Validate resolved) (Inr \<lparr>cz_options = resolved\<rparr>))"

section \<open>Results (\<open>result.go\<close>)\<close>

text \<open>\<open>BodyTerminalActionUnspecified\<close> is the empty string; other tokens are outside the vocabulary.\<close>

datatype BodyTerminalAction =
    BodyTerminalActionUnspecified
  | BodyTerminalActionPreserved
  | BodyTerminalActionAppended
  | BodyTerminalActionCollapsed
  | BodyTerminalActionOther string

definition sanitizeBodyTerminalAction :: "BodyTerminalAction \<Rightarrow> BodyTerminalAction" where
  "sanitizeBodyTerminalAction action =
     (case action of BodyTerminalActionOther s \<Rightarrow> BodyTerminalActionUnspecified | _ \<Rightarrow> action)"

record ExcludedHeaderCounts =
  ec_Received :: int
  ec_ReturnPath :: int
  ec_DeliveredTo :: int
  ec_AuthenticationResults :: int
  ec_XHeader :: int
  ec_DKIMSignature :: int
  ec_ExactUnsigned :: int
  ec_ARC :: int
  ec_MessageInstance :: int
  ec_DKIM2Signature :: int

definition zeroExcludedCounts :: ExcludedHeaderCounts where
  "zeroExcludedCounts = \<lparr>ec_Received = 0, ec_ReturnPath = 0, ec_DeliveredTo = 0,
     ec_AuthenticationResults = 0, ec_XHeader = 0, ec_DKIMSignature = 0, ec_ExactUnsigned = 0,
     ec_ARC = 0, ec_MessageInstance = 0, ec_DKIM2Signature = 0\<rparr>"

definition ExcludedHeaderCounts_Total :: "ExcludedHeaderCounts \<Rightarrow> int" where
  "ExcludedHeaderCounts_Total c =
     nonNegative (ec_Received c) + nonNegative (ec_ReturnPath c) + nonNegative (ec_DeliveredTo c)
     + nonNegative (ec_AuthenticationResults c) + nonNegative (ec_XHeader c)
     + nonNegative (ec_DKIMSignature c) + nonNegative (ec_ExactUnsigned c) + nonNegative (ec_ARC c)
     + nonNegative (ec_MessageInstance c) + nonNegative (ec_DKIM2Signature c)"

record CanonMetadata =
  cm_Kind :: Kind
  cm_Draft :: string
  cm_Algorithm :: HashAlgorithm
  cm_InputBytes :: int
  cm_OutputBytes :: int
  cm_IncludedFields :: int
  cm_ExcludedFields :: int
  cm_ExcludedHeaderCounts :: ExcludedHeaderCounts
  cm_BodyTrailingEmptyLines :: int
  cm_BodyTerminalAction :: BodyTerminalAction

definition zeroCanonMetadata :: CanonMetadata where
  "zeroCanonMetadata = \<lparr>cm_Kind = [], cm_Draft = [], cm_Algorithm = [], cm_InputBytes = 0,
     cm_OutputBytes = 0, cm_IncludedFields = 0, cm_ExcludedFields = 0,
     cm_ExcludedHeaderCounts = zeroExcludedCounts, cm_BodyTrailingEmptyLines = 0,
     cm_BodyTerminalAction = BodyTerminalActionUnspecified\<rparr>"

record ByteInput =
  bi_kind :: Kind
  bi_bytes :: bytes
  bi_metadata :: CanonMetadata

record Digest =
  dg_algorithm :: HashAlgorithm
  dg_bytes :: bytes
  dg_base64 :: bytes

record CanonResult =
  cr_canonical :: ByteInput
  cr_digest :: Digest
  cr_hasDigest :: bool

definition sanitizeExcludedHeaderCounts :: "ExcludedHeaderCounts \<Rightarrow> ExcludedHeaderCounts" where
  "sanitizeExcludedHeaderCounts c = \<lparr>ec_Received = nonNegative (ec_Received c),
     ec_ReturnPath = nonNegative (ec_ReturnPath c), ec_DeliveredTo = nonNegative (ec_DeliveredTo c),
     ec_AuthenticationResults = nonNegative (ec_AuthenticationResults c),
     ec_XHeader = nonNegative (ec_XHeader c), ec_DKIMSignature = nonNegative (ec_DKIMSignature c),
     ec_ExactUnsigned = nonNegative (ec_ExactUnsigned c), ec_ARC = nonNegative (ec_ARC c),
     ec_MessageInstance = nonNegative (ec_MessageInstance c),
     ec_DKIM2Signature = nonNegative (ec_DKIM2Signature c)\<rparr>"

definition sanitizeMetadata :: "Kind \<Rightarrow> int \<Rightarrow> CanonMetadata \<Rightarrow> CanonMetadata" where
  "sanitizeMetadata kind outputBytes m =
     \<lparr>cm_Kind = kind,
      cm_Draft = (if cm_Draft m = [] then DraftBaseline else canonDiagnosticToken (cm_Draft m)),
      cm_Algorithm = (if cm_Algorithm m \<noteq> [] then canonDiagnosticToken (cm_Algorithm m) else cm_Algorithm m),
      cm_InputBytes = nonNegative (cm_InputBytes m),
      cm_OutputBytes = outputBytes,
      cm_IncludedFields = nonNegative (cm_IncludedFields m),
      cm_ExcludedFields = nonNegative (cm_ExcludedFields m),
      cm_ExcludedHeaderCounts = sanitizeExcludedHeaderCounts (cm_ExcludedHeaderCounts m),
      cm_BodyTrailingEmptyLines = nonNegative (cm_BodyTrailingEmptyLines m),
      cm_BodyTerminalAction = sanitizeBodyTerminalAction (cm_BodyTerminalAction m)\<rparr>"

definition NewCanonicalBytes :: "Kind \<Rightarrow> bytes \<Rightarrow> CanonMetadata \<Rightarrow> (CanonError, ByteInput) result" where
  "NewCanonicalBytes kind input metadata =
     (if \<not> validKind kind
      then Inl (newCanonError CanonErrorCodeInternalMisuse (zeroCanonLocation\<lparr>cl_Kind := kind\<rparr>)
                  (zeroCanonDetails\<lparr>cd_Class := CanonErrorClassInternal, cd_TargetName := ''canonical_kind''\<rparr>))
      else Inr \<lparr>bi_kind = kind, bi_bytes = input, bi_metadata = sanitizeMetadata kind (int (length input)) metadata\<rparr>)"

definition ByteInput_Len :: "ByteInput \<Rightarrow> nat" where
  "ByteInput_Len c = length (bi_bytes c)"

definition digestSize :: "HashAlgorithm \<Rightarrow> nat" where
  "digestSize algorithm =
     (if algorithm = HashAlgorithmSHA256 then 32 else if algorithm = HashAlgorithmSHA512 then 64 else 0)"

definition NewDigest :: "HashAlgorithm \<Rightarrow> bytes \<Rightarrow> (CanonError, Digest) result" where
  "NewDigest algorithm digest =
     (let expected = digestSize algorithm in
      if expected = 0 then Inl (unsupportedAlgorithmError [] algorithm)
      else if length digest \<noteq> expected
      then Inl (newCanonError CanonErrorCodeMalformedState zeroCanonLocation
                  (zeroCanonDetails\<lparr>cd_Class := CanonErrorClassMalformed, cd_Algorithm := algorithm,
                     cd_LimitName := ''digest_bytes'', cd_Limit := int expected, cd_Count := int (length digest)\<rparr>))
      else Inr \<lparr>dg_algorithm = algorithm, dg_bytes = digest, dg_base64 = EncodeToString digest\<rparr>)"

definition NewSHA256Digest :: "bytes \<Rightarrow> (CanonError, Digest) result" where
  "NewSHA256Digest digest = NewDigest HashAlgorithmSHA256 digest"

definition NewSHA512Digest :: "bytes \<Rightarrow> (CanonError, Digest) result" where
  "NewSHA512Digest digest = NewDigest HashAlgorithmSHA512 digest"

definition Digest_Len :: "Digest \<Rightarrow> nat" where
  "Digest_Len d = length (dg_bytes d)"

definition NewResult :: "ByteInput \<Rightarrow> Digest \<Rightarrow> CanonResult" where
  "NewResult canonical digest = \<lparr>cr_canonical = canonical, cr_digest = digest, cr_hasDigest = True\<rparr>"

definition zeroDigest :: Digest where
  "zeroDigest = \<lparr>dg_algorithm = [], dg_bytes = [], dg_base64 = []\<rparr>"

definition NewResultWithoutDigest :: "ByteInput \<Rightarrow> CanonResult" where
  "NewResultWithoutDigest canonical = \<lparr>cr_canonical = canonical, cr_digest = zeroDigest, cr_hasDigest = False\<rparr>"

definition CanonResult_Digest :: "CanonResult \<Rightarrow> Digest option" where
  "CanonResult_Digest r = (if \<not> cr_hasDigest r then None else Some (cr_digest r))"

section \<open>Facts\<close>

lemma ce_code_newCanonError [simp]: "ce_code (newCanonError c l d) = c"
  by (simp add: newCanonError_def Let_def)

lemma ce_code_helpers [simp]:
  "ce_code (malformedStateError k) = CanonErrorCodeMalformedState"
  "ce_code (invalidLimitOptionError n i) = CanonErrorCodeInvalidOptions"
  "ce_code (unsupportedAlgorithmError k a) = CanonErrorCodeUnsupportedAlgorithm"
  by (simp_all add: malformedStateError_def invalidLimitOptionError_def unsupportedAlgorithmError_def)

lemma validKind_simps [simp]:
  "validKind KindBodyHashInput" "validKind KindHeaderHashInput" "validKind KindSignatureInput" "\<not> validKind []"
  by (simp_all add: validKind_def)

lemma NewCanonicalBytes_valid:
  "validKind k \<Longrightarrow> NewCanonicalBytes k b m =
     Inr \<lparr>bi_kind = k, bi_bytes = b, bi_metadata = sanitizeMetadata k (int (length b)) m\<rparr>"
  by (simp add: NewCanonicalBytes_def)

lemma digestSize_pos_iff: "digestSize a \<noteq> 0 \<longleftrightarrow> HashAlgorithm_Known a"
  by (simp add: digestSize_def HashAlgorithm_Known_def)

lemma NewDigest_Inr_iff:
  "NewDigest a x = Inr g \<longleftrightarrow>
     HashAlgorithm_Known a \<and> length x = digestSize a
     \<and> g = \<lparr>dg_algorithm = a, dg_bytes = x, dg_base64 = EncodeToString x\<rparr>"
  using digestSize_pos_iff [of a] by (auto simp: NewDigest_def Let_def)

lemma CanonOptions_Validate_None_iff:
  "CanonOptions_Validate o' = None \<longleftrightarrow>
     0 < MaxBodyInputBytes (co_Limits o') \<and> 0 < MaxHeaderInputBytes (co_Limits o')
     \<and> 0 < MaxSignatureInputBytes (co_Limits o') \<and> 0 < MaxFieldBytes (co_Limits o')
     \<and> 0 < MaxFieldCount (co_Limits o') \<and> 0 < MaxExcludedHeaderCounters (co_Limits o')
     \<and> MaxExcludedHeaderCounters (co_Limits o') \<le> 10 \<and> HashAlgorithm_Known (co_HashAlgorithm o')"
  by (auto simp: CanonOptions_Validate_def CanonLimits_Validate_def split: if_splits)

lemma DefaultCanonOptions_valid: "CanonOptions_Validate DefaultCanonOptions = None"
  by (simp add: CanonOptions_Validate_None_iff DefaultCanonOptions_def DefaultCanonLimits_def
      HardMaxMessageBytes_def HashAlgorithm_Known_def)

end
