(* ===== verification/Canonical_Body.thy ===== *)
theory Canonical_Body
  imports Canonical_Base Rawmsg_Message
begin

text \<open>
  Body canonicalization of package \<open>internal/canonical\<close> (\<open>body.go\<close>): trailing empty lines collapse
  to one terminator. The loop of the source is shown equal to the one-line specification
  ``remove all trailing CRLFs, append one'', from which idempotence and the exact kernel of the
  canonical form follow.
\<close>

section \<open>Normal forms\<close>

text \<open>The contract of a canonical form: applying it twice changes nothing.\<close>

locale normal_form =
  fixes nf :: "'a \<Rightarrow> 'a"
  assumes nf_idem: "nf (nf x) = nf x"
begin

lemma canonical_iff_range: "nf x = x \<longleftrightarrow> x \<in> range nf"
  using nf_idem by (metis rangeE rangeI)

lemma nf_left: "nf (nf x) = nf y \<longleftrightarrow> nf x = nf y"
  by (simp add: nf_idem)

text \<open>Composition with a function that respects the form.\<close>

lemma respects: "(\<And>x. f (nf x) = f x) \<Longrightarrow> nf x = nf y \<Longrightarrow> f x = f y"
  by metis

end

section \<open>Model\<close>

text \<open>The loop of \<open>canonicalizeBodyBytes\<close>: \<open>end'\<close> and the number of removed empty lines.\<close>

fun collapseLoop :: "bytes \<Rightarrow> nat \<Rightarrow> nat \<Rightarrow> nat \<times> nat" where
  "collapseLoop body end' removed =
     (if end' \<ge> length crlf * 2
         \<and> slice body (end' - length crlf * 2) (end' - length crlf) = crlf
      then collapseLoop body (end' - length crlf) (removed + 1)
      else (end', removed))"

definition canonicalizeBodyBytes :: "bytes \<Rightarrow> bytes \<times> nat \<times> BodyTerminalAction" where
  "canonicalizeBodyBytes body =
     (if length body = 0 then (crlf, 0, BodyTerminalActionAppended)
      else if \<not> HasSuffix body crlf then (body @ crlf, 0, BodyTerminalActionAppended)
      else (case collapseLoop body (length body) 0 of (end', removed) \<Rightarrow>
              (take end' body, removed,
               if removed > 0 then BodyTerminalActionCollapsed else BodyTerminalActionPreserved)))"

definition bodyLimitExceededError :: "int \<Rightarrow> int \<Rightarrow> CanonError" where
  "bodyLimitExceededError count limit =
     newCanonError CanonErrorCodeLimitExceeded (zeroCanonLocation\<lparr>cl_Kind := KindBodyHashInput\<rparr>)
       (zeroCanonDetails\<lparr>cd_Class := CanonErrorClassLimit, cd_LimitName := ''max_body_input_bytes'',
          cd_Limit := limit, cd_Count := count\<rparr>)"

definition BodyHashInput :: "Canonicalizer \<Rightarrow> Body \<Rightarrow> (CanonError, ByteInput) result" where
  "BodyHashInput c body =
     (if \<not> bd_initialized body then Inl (malformedStateError KindBodyHashInput)
      else
        (let rawBody = bd_bytes body;
             (canonical, removedTrailingEmptyLines, terminalAction) = canonicalizeBodyBytes rawBody in
         if int (length canonical) > MaxBodyInputBytes (co_Limits (cz_options c))
         then Inl (bodyLimitExceededError (int (length canonical)) (MaxBodyInputBytes (co_Limits (cz_options c))))
         else NewCanonicalBytes KindBodyHashInput canonical
                (zeroCanonMetadata\<lparr>cm_InputBytes := int (length rawBody),
                   cm_BodyTrailingEmptyLines := int removedTrailingEmptyLines,
                   cm_BodyTerminalAction := terminalAction\<rparr>)))"

definition BodyHashInputFromMessage :: "Canonicalizer \<Rightarrow> Message \<Rightarrow> (CanonError, ByteInput) result" where
  "BodyHashInputFromMessage c message = BodyHashInput c (msg_body message)"

section \<open>The specification\<close>

function rstrip_crlf :: "bytes \<Rightarrow> bytes" where
  "rstrip_crlf b = (if HasSuffix b crlf then rstrip_crlf (take (length b - 2) b) else b)"
  by pat_completeness auto
termination
  by (relation "measure length") (auto simp: HasSuffix_iff)

declare rstrip_crlf.simps [simp del] collapseLoop.simps [simp del]

lemma rstrip_crlf_step [simp]:
  "rstrip_crlf (b @ crlf) = rstrip_crlf b"
  "\<not> HasSuffix b crlf \<Longrightarrow> rstrip_crlf b = b"
  by (simp_all add: rstrip_crlf.simps [of "b @ crlf"] rstrip_crlf.simps [of b])

lemma rstrip_crlf_Nil [simp]: "rstrip_crlf [] = []"
  by (rule rstrip_crlf_step(2)) (simp add: HasSuffix_iff)

lemma rstrip_crlf_no_suffix: "\<not> HasSuffix (rstrip_crlf b) crlf"
proof (induction b rule: length_induct)
  case (1 b)
  show ?case
  proof (cases "HasSuffix b crlf")
    case True
    then obtain x where "b = x @ crlf" by (auto simp: HasSuffix_iff)
    with 1 show ?thesis by simp
  qed simp
qed

lemma rstrip_crlf_idem [simp]: "rstrip_crlf (rstrip_crlf b) = rstrip_crlf b"
  using rstrip_crlf_no_suffix by simp

definition canonical_body :: "bytes \<Rightarrow> bytes" where
  "canonical_body b = rstrip_crlf b @ crlf"

lemma canonical_body_idem: "canonical_body (canonical_body b) = canonical_body b"
  by (simp add: canonical_body_def)

interpretation body_form: normal_form canonical_body
  by unfold_locales (rule canonical_body_idem)

lemma replicate_crlf_snoc: "concat (replicate (Suc k) crlf) = concat (replicate k crlf) @ crlf"
  by (induction k) simp_all

lemma collapseLoop_step:
  "collapseLoop (y @ crlf @ crlf @ r) (length y + 4) n = collapseLoop (y @ crlf @ crlf @ r) (length y + 2) (n + 1)"
proof -
  have "slice (y @ crlf @ crlf @ r) (length y) (length y + 2) = crlf"
    using slice_middle [of y crlf "crlf @ r"] by simp
  then show ?thesis by (subst collapseLoop.simps) simp
qed

lemma collapseLoop_stop:
  assumes "\<not> HasSuffix x crlf"
  shows "collapseLoop (x @ crlf @ r) (length x + 2) n = (length x + 2, n)"
proof -
  have "\<not> (2 \<le> length x \<and> slice (x @ crlf @ r) (length x - 2) (length x) = crlf)"
  proof
    assume h: "2 \<le> length x \<and> slice (x @ crlf @ r) (length x - 2) (length x) = crlf"
    then have "drop (length x - 2) x = crlf" by (simp add: slice_def)
    then have "x = take (length x - 2) x @ crlf" by (metis append_take_drop_id)
    with assms show False by (metis HasSuffix_append)
  qed
  then show ?thesis by (subst collapseLoop.simps) auto
qed

lemma collapseLoop_eq:
  "\<exists>k. collapseLoop (x @ crlf @ r) (length x + 2) n = (length (rstrip_crlf x) + 2, n + k)
     \<and> x = rstrip_crlf x @ concat (replicate k crlf)"
proof (induction x arbitrary: r n rule: length_induct)
  case (1 x)
  show ?case
  proof (cases "HasSuffix x crlf")
    case True
    then obtain y where y: "x = y @ crlf" by (auto simp: HasSuffix_iff)
    have "length y < length x" using y by simp
    with "1.IH" obtain k where k:
      "collapseLoop (y @ crlf @ (crlf @ r)) (length y + 2) (n + 1) = (length (rstrip_crlf y) + 2, n + 1 + k)"
      "y = rstrip_crlf y @ concat (replicate k crlf)" by blast
    have "collapseLoop (x @ crlf @ r) (length x + 2) n = (length (rstrip_crlf x) + 2, n + Suc k)"
      using k(1) collapseLoop_step [of y r n] y by (simp add: numeral_eq_Suc)
    moreover have "x = rstrip_crlf x @ concat (replicate (Suc k) crlf)"
      using k(2) y unfolding replicate_crlf_snoc by (metis append_assoc rstrip_crlf_step(1))
    ultimately show ?thesis by blast
  next
    case False
    then have "collapseLoop (x @ crlf @ r) (length x + 2) n = (length (rstrip_crlf x) + 2, n + 0)
        \<and> x = rstrip_crlf x @ concat (replicate 0 crlf)"
      using collapseLoop_stop by simp
    then show ?thesis by blast
  qed
qed

text \<open>The canonical octets, the count of removed lines and the recorded action.\<close>

lemma canonicalizeBodyBytes_terminated:
  assumes "b = x @ crlf"
  shows "\<exists>k. canonicalizeBodyBytes b = (canonical_body b, k,
           if k > 0 then BodyTerminalActionCollapsed else BodyTerminalActionPreserved)
     \<and> b = canonical_body b @ concat (replicate k crlf)"
proof -
  obtain k where k: "collapseLoop (x @ crlf @ []) (length x + 2) 0 = (length (rstrip_crlf x) + 2, 0 + k)"
    "x = rstrip_crlf x @ concat (replicate k crlf)" using collapseLoop_eq by blast
  have rep: "concat (replicate k crlf) @ crlf = crlf @ concat (replicate k crlf)"
    using replicate_crlf_snoc [of k] by simp
  have b: "b = canonical_body b @ concat (replicate k crlf)"
    using k(2) assms rep by (metis append_assoc canonical_body_def rstrip_crlf_step(1))
  have "take (length (rstrip_crlf x) + 2) b = canonical_body b"
    by (subst b) (simp add: canonical_body_def assms)
  with k(1) assms b show ?thesis by (auto simp: canonicalizeBodyBytes_def)
qed

lemma canonicalizeBodyBytes_open:
  "\<not> HasSuffix b crlf \<Longrightarrow> canonicalizeBodyBytes b = (canonical_body b, 0, BodyTerminalActionAppended)"
  by (simp add: canonicalizeBodyBytes_def canonical_body_def)

lemma canonicalizeBodyBytes_bytes: "fst (canonicalizeBodyBytes b) = canonical_body b"
proof (cases "HasSuffix b crlf")
  case True
  then obtain x where "b = x @ crlf" by (auto simp: HasSuffix_iff)
  from canonicalizeBodyBytes_terminated [OF this] show ?thesis by auto
qed (simp add: canonicalizeBodyBytes_open)

lemma canonicalizeBodyBytes_action:
  assumes "canonicalizeBodyBytes b = (c, k, a)"
  shows "(a = BodyTerminalActionPreserved \<longleftrightarrow> c = b)
     \<and> (a = BodyTerminalActionAppended \<longleftrightarrow> \<not> HasSuffix b crlf)
     \<and> (a = BodyTerminalActionCollapsed \<longleftrightarrow> 0 < k)
     \<and> (if HasSuffix b crlf then b = c @ concat (replicate k crlf) else c = b @ crlf \<and> k = 0)"
proof (cases "HasSuffix b crlf")
  case True
  then obtain x where "b = x @ crlf" by (auto simp: HasSuffix_iff)
  then obtain j where j: "canonicalizeBodyBytes b = (canonical_body b, j,
           if j > 0 then BodyTerminalActionCollapsed else BodyTerminalActionPreserved)"
     "b = canonical_body b @ concat (replicate j crlf)" using canonicalizeBodyBytes_terminated by blast
  have c: "c = canonical_body b" "k = j" "a = (if j > 0 then BodyTerminalActionCollapsed else BodyTerminalActionPreserved)"
    using assms j(1) by auto
  have "length b = length (canonical_body b) + length (concat (replicate j crlf))"
    using arg_cong [OF j(2), of length] by (simp only: length_append)
  then have "c = b \<longleftrightarrow> j = 0" using j(2) c(1) by (cases j) auto
  with c j(2) True show ?thesis by auto
next
  case False
  with assms show ?thesis by (auto simp: canonicalizeBodyBytes_open canonical_body_def)
qed

text \<open>Two bodies have the same canonical form exactly when they differ in trailing CRLFs only.\<close>

lemma canonical_body_eq_iff: "canonical_body a = canonical_body b \<longleftrightarrow> rstrip_crlf a = rstrip_crlf b"
  by (simp add: canonical_body_def)

lemma canonical_body_trailing: "canonical_body (b @ concat (replicate k crlf)) = canonical_body b"
proof (induction k)
  case (Suc k)
  have "concat (replicate (Suc k) crlf) = concat (replicate k crlf) @ crlf"
    by (induction k) simp_all
  with Suc show ?case by (simp add: canonical_body_def flip: append_assoc)
qed simp

lemma BodyHashInput_Inr:
  "BodyHashInput c b = Inr i \<Longrightarrow>
     bi_kind i = KindBodyHashInput \<and> bi_bytes i = canonical_body (bd_bytes b)"
  using canonicalizeBodyBytes_bytes [of "bd_bytes b"]
  by (auto simp: BodyHashInput_def Let_def NewCanonicalBytes_valid split: if_splits prod.splits)

lemma BodyHashInput_success_iff:
  "(\<exists>i. BodyHashInput c b = Inr i) \<longleftrightarrow>
     bd_initialized b \<and> int (length (canonical_body (bd_bytes b))) \<le> MaxBodyInputBytes (co_Limits (cz_options c))"
  using canonicalizeBodyBytes_bytes [of "bd_bytes b"]
  by (auto simp: BodyHashInput_def Let_def NewCanonicalBytes_valid not_less split: prod.splits)

end
