(* ===== verification/Go_Sort.thy ===== *)
theory Go_Sort
  imports Go_Bytes "HOL-Library.Product_Lexorder" "HOL-Library.Multiset"
begin

text \<open>
  The standard-library \<open>sort.SliceStable\<close> over a comparison function, and the contract under which
  its callers use it: the comparison is the strict order of a key. The result is then the sorted
  permutation that keeps equal keys in place.
\<close>

section \<open>Stable sorting by a comparison\<close>

text \<open>The least rearrangement that puts an element after every smaller one and before its equals.\<close>

fun insertStable :: "('a \<Rightarrow> 'a \<Rightarrow> bool) \<Rightarrow> 'a \<Rightarrow> 'a list \<Rightarrow> 'a list" where
  "insertStable before x [] = [x]"
| "insertStable before x (y # ys) = (if before y x then y # insertStable before x ys else x # y # ys)"

definition SliceStable :: "('a \<Rightarrow> 'a \<Rightarrow> bool) \<Rightarrow> 'a list \<Rightarrow> 'a list" where
  "SliceStable before xs = foldr (insertStable before) xs []"

locale keyed_order =
  fixes before :: "'a \<Rightarrow> 'a \<Rightarrow> bool"
    and key :: "'a \<Rightarrow> 'k :: linorder"
  assumes before_key: "before x y \<longleftrightarrow> key x < key y"
begin

lemma insertStable_insort: "insertStable before x ys = insort_key key x ys"
  by (induction ys) (auto simp: before_key not_le)

lemma SliceStable_sort_key: "SliceStable before xs = sort_key key xs"
proof -
  have "insertStable before = insort_key key" by (intro ext) (rule insertStable_insort)
  then show ?thesis by (simp add: SliceStable_def sort_key_def)
qed

lemma SliceStable_sorted: "sorted (map key (SliceStable before xs))"
  by (simp add: SliceStable_sort_key)

lemma SliceStable_mset: "mset (SliceStable before xs) = mset xs"
  by (simp add: SliceStable_sort_key)

lemma SliceStable_stable: "filter (\<lambda>x. key x = k) (SliceStable before xs) = filter (\<lambda>x. key x = k) xs"
  unfolding SliceStable_sort_key by (rule sort_key_stable)

end

section \<open>Grouping a sorted list\<close>

text \<open>A list sorted by a key is the concatenation of its groups in key order.\<close>

lemma sorted_groups:
  fixes g :: "'a \<Rightarrow> 'k :: linorder"
  assumes "sorted (map g xs)"
  shows "xs = concat (map (\<lambda>n. filter (\<lambda>x. g x = n) xs) (sorted_list_of_set (g ` set xs)))"
  using assms
proof (induction xs)
  case (Cons x xs)
  let ?s = "sorted_list_of_set (g ` set xs)"
  have le: "\<forall>y \<in> set xs. g x \<le> g y" and srt: "sorted (map g xs)" using Cons.prems by auto
  show ?case
  proof (cases "g x \<in> g ` set xs")
    case True
    then have ne: "g ` set xs \<noteq> {}" by auto
    have "Min (g ` set xs) = g x" using True le by (intro Min_eqI) auto
    then have s: "?s = g x # sorted_list_of_set (g ` set xs - {g x})"
      using sorted_list_of_set_nonempty [OF _ ne] by simp
    have rest: "\<forall>n \<in> set (sorted_list_of_set (g ` set xs - {g x})). n \<noteq> g x" by simp
    have "concat (map (\<lambda>n. filter (\<lambda>y. g y = n) (x # xs)) ?s)
        = x # concat (map (\<lambda>n. filter (\<lambda>y. g y = n) xs) ?s)"
      unfolding s using rest by (auto intro!: arg_cong [where f = concat] map_cong)
    moreover have "g ` set (x # xs) = g ` set xs" using True by auto
    ultimately show ?thesis using Cons.IH [OF srt] by simp
  next
    case False
    have "Min (g ` set (x # xs)) = g x" using le by (intro Min_eqI) auto
    moreover have "g ` set (x # xs) - {g x} = g ` set xs" using False by auto
    ultimately have s: "sorted_list_of_set (g ` set (x # xs)) = g x # ?s"
      using sorted_list_of_set_nonempty [of "g ` set (x # xs)"] by simp
    have none: "filter (\<lambda>y. g y = g x) xs = []" using False unfolding filter_empty_conv by (metis imageI)
    have "set ?s = g ` set xs" by simp
    then have other: "g x \<noteq> n" if "n \<in> set ?s" for n using that False by metis
    have same: "map (\<lambda>n. filter (\<lambda>y. g y = n) (x # xs)) ?s = map (\<lambda>n. filter (\<lambda>y. g y = n) xs) ?s"
    proof (intro map_cong refl)
      fix n assume "n \<in> set ?s"
      from other [OF this] show "filter (\<lambda>y. g y = n) (x # xs) = filter (\<lambda>y. g y = n) xs" by simp
    qed
    have "concat (map (\<lambda>n. filter (\<lambda>y. g y = n) (x # xs)) (g x # ?s))
        = filter (\<lambda>y. g y = g x) (x # xs) @ concat (map (\<lambda>n. filter (\<lambda>y. g y = n) (x # xs)) ?s)"
      by (simp only: list.map concat.simps)
    also have "\<dots> = x # concat (map (\<lambda>n. filter (\<lambda>y. g y = n) xs) ?s)"
      unfolding same using none by simp
    finally have "concat (map (\<lambda>n. filter (\<lambda>y. g y = n) (x # xs)) (g x # ?s))
        = x # concat (map (\<lambda>n. filter (\<lambda>y. g y = n) xs) ?s)" .
    then show ?thesis using Cons.IH [OF srt] unfolding s by metis
  qed
qed simp

text \<open>Lists with the same elements, both strictly decreasing in an injective rank, are equal.\<close>

lemma sorted_rank_unique:
  fixes r :: "'a \<Rightarrow> 'k :: linorder"
  assumes "sorted (map r xs)" "sorted (map r ys)" "mset xs = mset ys" "inj_on r (set xs)"
  shows "xs = ys"
proof -
  have "mset (map r xs) = mset (map r ys)" using assms(3) by (metis mset_map)
  then have "map r xs = map r ys" using assms(1,2) by (metis properties_for_sort)
  moreover have "set xs = set ys" using assms(3) by (rule mset_eq_setD)
  ultimately show ?thesis using assms(4) by (metis inj_on_map_eq_map sup.idem)
qed

end
