(* ===== verification/Canonical_Header.thy ===== *)
theory Canonical_Header
  imports Canonical_Body Go_Sort
begin

text \<open>
  Header canonicalization of package \<open>internal/canonical\<close> (\<open>header.go\<close>, \<open>relevance.go\<close>): white space
  rules, the exclusion set, sorting by name with duplicates bottom-up, and the hash input. The hash
  input is shown to be a function of the included fields only, grouped by name, so that excluded
  fields, the order of different names and white space do not matter.
\<close>

section \<open>Values\<close>

definition isHeaderWSP :: "byte \<Rightarrow> bool" where
  "isHeaderWSP b \<longleftrightarrow> b = SP \<or> b = TAB"

definition trimHeaderValueWSP :: "bytes \<Rightarrow> bytes" where
  "trimHeaderValueWSP value =
     (let start = length (takeWhile isHeaderWSP value)
      in slice value start (trimEndLoop isHeaderWSP value start (length value)))"

fun compressLoop :: "bool \<Rightarrow> bytes \<Rightarrow> bytes" where
  "compressLoop inWSP [] = []"
| "compressLoop inWSP (b # rest) =
     (if isHeaderWSP b then
        (if \<not> inWSP then SP # compressLoop True rest else compressLoop inWSP rest)
      else b # compressLoop False rest)"

definition compressHeaderValueWSP :: "bytes \<Rightarrow> bytes" where
  "compressHeaderValueWSP value = (if length value = 0 then [] else compressLoop False value)"

definition canonicalizeHeaderFieldBytes :: "bytes \<Rightarrow> bytes \<Rightarrow> bytes" where
  "canonicalizeHeaderFieldBytes nameLower unfoldedValue =
     nameLower @ [CHR '':''] @ compressHeaderValueWSP (trimHeaderValueWSP unfoldedValue) @ [CR, LF]"

section \<open>Exclusion\<close>

datatype excludedHeaderKind =
    excludedHeaderNone
  | excludedHeaderReceived
  | excludedHeaderReturnPath
  | excludedHeaderDeliveredTo
  | excludedHeaderAuthenticationResults
  | excludedHeaderX
  | excludedHeaderDKIMSignature
  | excludedHeaderExactUnsigned
  | excludedHeaderARC
  | excludedHeaderMessageInstance
  | excludedHeaderDKIM2Signature

abbreviation receivedHeaderName :: bytes where "receivedHeaderName \<equiv> ''received''"

definition exactUnsignedHeaderName :: "bytes \<Rightarrow> bool" where
  "exactUnsignedHeaderName nameLower \<longleftrightarrow>
     nameLower \<in> set [''apparently-to'', ''dl-expansion-history'', ''original-recipient'',
       ''sio-label-history'', ''x400-received'', ''x400-trace'']"

definition excludedHeaderKindForName :: "bytes \<Rightarrow> excludedHeaderKind" where
  "excludedHeaderKindForName nameLower =
     (if nameLower = receivedHeaderName \<or> HasPrefix nameLower (receivedHeaderName @ ''-'')
      then excludedHeaderReceived
      else if nameLower = ''return-path'' then excludedHeaderReturnPath
      else if nameLower = ''delivered-to'' then excludedHeaderDeliveredTo
      else if nameLower = ''authentication-results'' then excludedHeaderAuthenticationResults
      else if HasPrefix nameLower ''x-'' then excludedHeaderX
      else if nameLower = ''dkim-signature'' then excludedHeaderDKIMSignature
      else if exactUnsignedHeaderName nameLower then excludedHeaderExactUnsigned
      else if nameLower = ''arc-authentication-results'' \<or> nameLower = ''arc-message-signature''
              \<or> nameLower = ''arc-seal''
      then excludedHeaderARC
      else if nameLower = ''message-instance'' then excludedHeaderMessageInstance
      else if nameLower = ''dkim2-signature'' then excludedHeaderDKIM2Signature
      else excludedHeaderNone)"

text \<open>The counters after one field, and whether it is excluded.\<close>

definition countExcludedHeader :: "bytes \<Rightarrow> ExcludedHeaderCounts \<Rightarrow> ExcludedHeaderCounts \<times> bool" where
  "countExcludedHeader nameLower c =
     (case excludedHeaderKindForName nameLower of
        excludedHeaderReceived \<Rightarrow> (c\<lparr>ec_Received := ec_Received c + 1\<rparr>, True)
      | excludedHeaderReturnPath \<Rightarrow> (c\<lparr>ec_ReturnPath := ec_ReturnPath c + 1\<rparr>, True)
      | excludedHeaderDeliveredTo \<Rightarrow> (c\<lparr>ec_DeliveredTo := ec_DeliveredTo c + 1\<rparr>, True)
      | excludedHeaderAuthenticationResults \<Rightarrow> (c\<lparr>ec_AuthenticationResults := ec_AuthenticationResults c + 1\<rparr>, True)
      | excludedHeaderX \<Rightarrow> (c\<lparr>ec_XHeader := ec_XHeader c + 1\<rparr>, True)
      | excludedHeaderDKIMSignature \<Rightarrow> (c\<lparr>ec_DKIMSignature := ec_DKIMSignature c + 1\<rparr>, True)
      | excludedHeaderExactUnsigned \<Rightarrow> (c\<lparr>ec_ExactUnsigned := ec_ExactUnsigned c + 1\<rparr>, True)
      | excludedHeaderARC \<Rightarrow> (c\<lparr>ec_ARC := ec_ARC c + 1\<rparr>, True)
      | excludedHeaderMessageInstance \<Rightarrow> (c\<lparr>ec_MessageInstance := ec_MessageInstance c + 1\<rparr>, True)
      | excludedHeaderDKIM2Signature \<Rightarrow> (c\<lparr>ec_DKIM2Signature := ec_DKIM2Signature c + 1\<rparr>, True)
      | excludedHeaderNone \<Rightarrow> (c, False))"

record HeaderRelevance =
  hrl_initialized :: bool

definition NewHeaderRelevance :: HeaderRelevance where
  "NewHeaderRelevance = \<lparr>hrl_initialized = True\<rparr>"

definition HeaderRelevance_Validate :: "HeaderRelevance \<Rightarrow> CanonError option" where
  "HeaderRelevance_Validate r =
     (if \<not> hrl_initialized r then Some (malformedStateError KindHeaderHashInput) else None)"

definition IsRelevantHeader :: "HeaderRelevance \<Rightarrow> bytes \<Rightarrow> (CanonError, bool) result" where
  "IsRelevantHeader r nameLower =
     (case CanonicalHeaderName nameLower of
        None \<Rightarrow> Inl (malformedStateError KindHeaderHashInput)
      | Some canonicalName \<Rightarrow>
          if HeaderRelevance_Validate r \<noteq> None \<or> canonicalName \<noteq> nameLower
          then Inl (malformedStateError KindHeaderHashInput)
          else Inr (excludedHeaderKindForName nameLower = excludedHeaderNone))"

section \<open>The hash input\<close>

record headerFieldRecord =
  hr_nameLower :: bytes
  hr_originalIndex :: nat
  hr_canonicalBytes :: bytes

definition headerRecordBefore :: "headerFieldRecord \<Rightarrow> headerFieldRecord \<Rightarrow> bool" where
  "headerRecordBefore x y =
     (if hr_nameLower x \<noteq> hr_nameLower y then hr_nameLower x < hr_nameLower y
      else hr_originalIndex x > hr_originalIndex y)"

definition sortHeaderFieldRecords :: "headerFieldRecord list \<Rightarrow> headerFieldRecord list" where
  "sortHeaderFieldRecords records = SliceStable headerRecordBefore records"

definition headerLimitExceededError :: "string \<Rightarrow> int \<Rightarrow> int \<Rightarrow> int \<Rightarrow> CanonError" where
  "headerLimitExceededError limitName observed limit fieldIndex =
     newCanonError CanonErrorCodeLimitExceeded
       (zeroCanonLocation\<lparr>cl_Kind := KindHeaderHashInput, cl_FieldIndex := fieldIndex\<rparr>)
       (zeroCanonDetails\<lparr>cd_Class := CanonErrorClassLimit, cd_LimitName := limitName, cd_Limit := limit,
          cd_Count := observed\<rparr>)"

fun headerRecordsLoop ::
    "CanonLimits \<Rightarrow> HeaderField list \<Rightarrow> headerFieldRecord list \<Rightarrow> ExcludedHeaderCounts
       \<Rightarrow> (CanonError, headerFieldRecord list \<times> ExcludedHeaderCounts) result" where
  "headerRecordsLoop limits [] records counts = Inr (records, counts)"
| "headerRecordsLoop limits (field # rest) records counts =
     (let nameLower = hf_nameLower field in
      case countExcludedHeader nameLower counts of (counts', excluded) \<Rightarrow>
        if excluded then headerRecordsLoop limits rest records counts'
        else
          (let canonicalBytes = canonicalizeHeaderFieldBytes nameLower (hf_unfoldedValue field) in
           if int (length canonicalBytes) > MaxFieldBytes limits
           then Inl (headerLimitExceededError ''max_field_bytes'' (int (length canonicalBytes))
                       (MaxFieldBytes limits) (int (hf_index field)))
           else headerRecordsLoop limits rest
                  (records @ [\<lparr>hr_nameLower = nameLower, hr_originalIndex = hf_index field,
                               hr_canonicalBytes = canonicalBytes\<rparr>]) counts'))"

fun headerConcatLoop :: "CanonLimits \<Rightarrow> headerFieldRecord list \<Rightarrow> bytes \<Rightarrow> (CanonError, bytes) result" where
  "headerConcatLoop limits [] canonical = Inr canonical"
| "headerConcatLoop limits (record # rest) canonical =
     (if int (length canonical + length (hr_canonicalBytes record)) > MaxHeaderInputBytes limits
      then Inl (headerLimitExceededError ''max_header_input_bytes''
                  (int (length canonical + length (hr_canonicalBytes record)))
                  (MaxHeaderInputBytes limits) (int (hr_originalIndex record)))
      else headerConcatLoop limits rest (canonical @ hr_canonicalBytes record))"

definition HeaderHashInput :: "Canonicalizer \<Rightarrow> HeaderBlock \<Rightarrow> (CanonError, ByteInput) result" where
  "HeaderHashInput c headers =
     (let limits = co_Limits (cz_options c) in
      if \<not> hb_initialized headers then Inl (malformedStateError KindHeaderHashInput)
      else
        (let fs = hb_fields headers in
         if int (length fs) > MaxFieldCount limits
         then Inl (headerLimitExceededError ''max_field_count'' (int (length fs)) (MaxFieldCount limits) 0)
         else res_bind (headerRecordsLoop limits fs [] zeroExcludedCounts) (\<lambda>(records, excludedCounts).
           res_bind (headerConcatLoop limits (sortHeaderFieldRecords records) []) (\<lambda>canonical.
             NewCanonicalBytes KindHeaderHashInput canonical
               (zeroCanonMetadata\<lparr>cm_InputBytes := int (length (hb_originalBytes headers)),
                  cm_IncludedFields := int (length records),
                  cm_ExcludedFields := ExcludedHeaderCounts_Total excludedCounts,
                  cm_ExcludedHeaderCounts := excludedCounts,
                  cm_BodyTerminalAction := BodyTerminalActionUnspecified\<rparr>)))))"

definition HeaderHashInputFromMessage :: "Canonicalizer \<Rightarrow> Message \<Rightarrow> (CanonError, ByteInput) result" where
  "HeaderHashInputFromMessage c message = HeaderHashInput c (msg_headers message)"

section \<open>White space\<close>

lemma isHeaderWSP_isWSP: "isHeaderWSP = isWSP"
  by (intro ext) (simp add: isHeaderWSP_def isWSP_def)

lemma trimHeaderValueWSP_trim: "trimHeaderValueWSP v = trim v"
  by (simp add: trimHeaderValueWSP_def Let_def isHeaderWSP_isWSP trim_slice)

lemma compressHeaderValueWSP_loop: "compressHeaderValueWSP v = compressLoop False v"
  by (simp add: compressHeaderValueWSP_def)

text \<open>The words of a value: its maximal runs without white space.\<close>

fun wsp_words :: "bytes \<Rightarrow> bytes list" where
  "wsp_words [] = []"
| "wsp_words (b # s) =
     (if isWSP b then wsp_words s
      else (case s of
              [] \<Rightarrow> [[b]]
            | c # s' \<Rightarrow> if isWSP c then [b] # wsp_words s
                        else (case wsp_words s of [] \<Rightarrow> [[b]] | w # ws \<Rightarrow> (b # w) # ws)))"

definition join_sp :: "bytes list \<Rightarrow> bytes" where
  "join_sp ws = (case ws of [] \<Rightarrow> [] | w # r \<Rightarrow> w @ concat (map (\<lambda>x. SP # x) r))"

definition canonical_value :: "bytes \<Rightarrow> bytes" where
  "canonical_value v = compressHeaderValueWSP (trimHeaderValueWSP v)"

declare wsp_words.simps(2) [simp del]

lemma wsp_words_step [simp]:
  "isWSP b \<Longrightarrow> wsp_words (b # s) = wsp_words s"
  "\<not> isWSP b \<Longrightarrow> wsp_words [b] = [[b]]"
  "\<not> isWSP b \<Longrightarrow> isWSP c \<Longrightarrow> wsp_words (b # c # s) = [b] # wsp_words s"
  "\<not> isWSP b \<Longrightarrow> \<not> isWSP c \<Longrightarrow> wsp_words (b # c # s) =
     (case wsp_words (c # s) of [] \<Rightarrow> [[b]] | w # ws \<Rightarrow> (b # w) # ws)"
  by (simp_all add: wsp_words.simps(2))

lemma wsp_words_first:
  assumes "\<not> isWSP b"
  obtains w ws where "wsp_words (b # s) = (b # w) # ws"
proof (cases s)
  case Nil
  then show thesis using assms that by simp
next
  case (Cons c r)
  show thesis
  proof (cases "isWSP c")
    case True
    then show thesis using assms Cons that by simp
  next
    case False
    then show thesis using assms Cons that by (cases "wsp_words (c # r)") auto
  qed
qed

lemma wsp_words_cons_word:
  assumes "\<not> isWSP b" "\<not> isWSP c" "wsp_words (c # s) = w # ws"
  shows "wsp_words (b # c # s) = (b # w) # ws"
  using assms by simp

lemma wsp_words_wsp: "wsp a \<Longrightarrow> wsp_words (a @ s) = wsp_words s"
  by (induction a) auto

lemma wsp_words_all_wsp [simp]: "wsp a \<Longrightarrow> wsp_words a = []"
  using wsp_words_wsp [of a "[]"] by simp

lemma wsp_words_append_wsp:
  assumes "wsp a"
  shows "wsp_words (s @ a) = wsp_words s"
proof (induction s)
  case Nil
  then show ?case using assms by simp
next
  case (Cons b s)
  show ?case
  proof (cases "isWSP b")
    case True
    then show ?thesis using Cons by simp
  next
    case b: False
    show ?thesis
    proof (cases s)
      case Nil
      then show ?thesis using b assms by (cases a) auto
    next
      case (Cons c r)
      then show ?thesis using b \<open>wsp_words (s @ a) = wsp_words s\<close> by (cases "isWSP c") auto
    qed
  qed
qed

lemma wsp_words_trim: "wsp_words (trim s) = wsp_words s"
  using trim_decomp [of s] wsp_words_wsp wsp_words_append_wsp by metis

lemma join_sp_simps [simp]:
  "join_sp [] = []" "join_sp [w] = w" "join_sp (w # x # r) = w @ SP # join_sp (x # r)"
  by (simp_all add: join_sp_def)

lemma join_sp_Cons_word [simp]: "join_sp ((b # w) # r) = b # join_sp (w # r)"
  by (simp add: join_sp_def)

lemma wsp_words_not_Nil: "s \<noteq> [] \<Longrightarrow> \<not> isWSP (last s) \<Longrightarrow> wsp_words s \<noteq> []"
proof (induction s)
  case (Cons b s)
  show ?case
  proof (cases "isWSP b")
    case True
    then show ?thesis using Cons by (cases s) simp_all
  next
    case False
    then obtain w ws where "wsp_words (b # s) = (b # w) # ws" by (rule wsp_words_first)
    then show ?thesis by simp
  qed
qed simp

lemma join_words_cons:
  assumes "\<not> isWSP b" "s = [] \<or> \<not> isWSP (last s)"
  shows "join_sp (wsp_words (b # s)) =
     b # (if s \<noteq> [] \<and> isWSP (hd s) then SP # join_sp (wsp_words s) else join_sp (wsp_words s))"
proof (cases s)
  case Nil
  then show ?thesis using assms by simp
next
  case (Cons c r)
  then obtain w ws where w: "wsp_words s = w # ws" using wsp_words_not_Nil [of s] assms(2) by (cases "wsp_words s") auto
  show ?thesis
  proof (cases "isWSP c")
    case True
    with w Cons assms(1) show ?thesis by simp
  next
    case False
    with w Cons assms(1) show ?thesis by (simp add: wsp_words_cons_word)
  qed
qed

lemma compressLoop_words:
  "s = [] \<or> \<not> isWSP (last s) \<Longrightarrow>
     compressLoop True s = join_sp (wsp_words s)
     \<and> compressLoop False s = (if s \<noteq> [] \<and> isWSP (hd s) then SP # join_sp (wsp_words s) else join_sp (wsp_words s))"
proof (induction s)
  case (Cons b s)
  have last: "s = [] \<or> \<not> isWSP (last s)" using Cons.prems by (cases s) auto
  show ?case
    using Cons.IH [OF last] join_words_cons [OF _ last, of b] by (cases "isWSP b") (simp_all add: isHeaderWSP_isWSP)
qed simp

text \<open>The canonical value is the words of the value joined by single spaces.\<close>

lemma canonical_value_words: "canonical_value v = join_sp (wsp_words v)"
proof -
  have "trimmed (trim v)" by simp
  then have "compressLoop False (trim v) = join_sp (wsp_words (trim v))"
    using compressLoop_words [of "trim v"] unfolding trimmed_def by auto
  then show ?thesis
    by (simp add: canonical_value_def trimHeaderValueWSP_trim compressHeaderValueWSP_loop wsp_words_trim)
qed

lemma wsp_words_word: "w \<in> set (wsp_words s) \<Longrightarrow> w \<noteq> [] \<and> (\<forall>b \<in> set w. \<not> isWSP b)"
proof (induction s arbitrary: w)
  case (Cons b s)
  show ?case
  proof (cases "isWSP b")
    case True
    then show ?thesis using Cons by simp
  next
    case b: False
    show ?thesis
    proof (cases s)
      case Nil
      then show ?thesis using b Cons.prems by simp
    next
      case (Cons c r)
      show ?thesis
      proof (cases "isWSP c")
        case True
        then have "w = [b] \<or> w \<in> set (wsp_words s)" using b Cons Cons.prems by auto
        then show ?thesis using b Cons.IH by auto
      next
        case False
        then obtain v ws where v: "wsp_words s = (c # v) # ws" using Cons by (metis wsp_words_first)
        then have "w = b # c # v \<or> w \<in> set ws" using b False Cons Cons.prems by auto
        then show ?thesis using b v Cons.IH [of "c # v"] Cons.IH [of w] by auto
      qed
    qed
  qed
qed simp

lemma wsp_words_sep:
  assumes "w \<noteq> []" "\<forall>b \<in> set w. \<not> isWSP b"
  shows "wsp_words (w @ SP # r) = w # wsp_words r" and "wsp_words w = [w]"
  using assms
proof (induction w)
  case (Cons b w)
  have sp: "isWSP SP" by (simp add: isWSP_def)
  { case 1
    with Cons.IH(1) sp show ?case by (cases w) auto }
  { case 2
    with Cons.IH(2) show ?case by (cases w) auto }
qed simp_all

lemma wsp_words_join: "\<forall>w \<in> set ws. w \<noteq> [] \<and> (\<forall>b \<in> set w. \<not> isWSP b) \<Longrightarrow> wsp_words (join_sp ws) = ws"
proof (induction ws)
  case (Cons w ws)
  then show ?case by (cases ws) (simp_all add: wsp_words_sep)
qed simp

lemma wsp_words_canonical: "wsp_words (canonical_value v) = wsp_words v"
  using wsp_words_join wsp_words_word by (metis canonical_value_words)

lemma canonical_value_eq_iff: "canonical_value u = canonical_value v \<longleftrightarrow> wsp_words u = wsp_words v"
  by (metis canonical_value_words wsp_words_canonical)

interpretation value_form: normal_form canonical_value
  by unfold_locales (simp add: canonical_value_eq_iff wsp_words_canonical)

section \<open>Sorting\<close>

definition header_key :: "headerFieldRecord \<Rightarrow> bytes \<times> int" where
  "header_key r = (hr_nameLower r, - int (hr_originalIndex r))"

interpretation header_order: keyed_order headerRecordBefore header_key
  by unfold_locales (auto simp: headerRecordBefore_def header_key_def less_prod_def)

definition field_record :: "HeaderField \<Rightarrow> headerFieldRecord" where
  "field_record f = \<lparr>hr_nameLower = hf_nameLower f, hr_originalIndex = hf_index f,
     hr_canonicalBytes = canonicalizeHeaderFieldBytes (hf_nameLower f) (hf_unfoldedValue f)\<rparr>"

definition included :: "HeaderField \<Rightarrow> bool" where
  "included f \<longleftrightarrow> excludedHeaderKindForName (hf_nameLower f) = excludedHeaderNone"

definition field_bytes :: "HeaderField \<Rightarrow> bytes" where
  "field_bytes f = hf_nameLower f @ CHR '':'' # canonical_value (hf_unfoldedValue f) @ crlf"

lemma field_record_bytes: "hr_canonicalBytes (field_record f) = field_bytes f"
  by (simp add: field_record_def field_bytes_def canonicalizeHeaderFieldBytes_def canonical_value_def crlf_def)

text \<open>The hash input: names in order, the fields of one name bottom-up.\<close>

definition header_input :: "HeaderField list \<Rightarrow> bytes" where
  "header_input fs =
     concat (map (\<lambda>n. concat (map field_bytes (rev (filter (\<lambda>f. hf_nameLower f = n) fs))))
       (sorted_list_of_set (hf_nameLower ` set fs)))"

lemma sorted_map_rev_filter:
  "sorted_wrt (<) (map r xs) \<Longrightarrow> sorted (map (\<lambda>x. - int (r x)) (rev (filter P xs)))"
  by (induction xs) (auto simp: sorted_append)

lemma sorted_key_index:
  "sorted (map header_key xs) \<Longrightarrow> \<forall>x \<in> set xs. hr_nameLower x = n \<Longrightarrow>
     sorted (map (\<lambda>x. - int (hr_originalIndex x)) xs)"
  by (induction xs) (auto simp: header_key_def less_eq_prod_def)

lemma mset_filter_name:
  "mset (filter P (SliceStable headerRecordBefore xs)) = mset (rev (filter P xs))"
  using header_order.SliceStable_mset [of xs] by (metis mset_filter mset_rev)

lemma sort_group:
  assumes "sorted_wrt (<) (map hr_originalIndex xs)"
  shows "filter (\<lambda>x. hr_nameLower x = n) (SliceStable headerRecordBefore xs)
     = rev (filter (\<lambda>x. hr_nameLower x = n) xs)" (is "?l = ?r")
proof (rule sorted_rank_unique [where r = "\<lambda>x. - int (hr_originalIndex x)"])
  have "sorted (map header_key ?l)"
    using header_order.SliceStable_sorted [of xs] by (metis (no_types) sorted_filter)
  then show "sorted (map (\<lambda>x. - int (hr_originalIndex x)) ?l)"
    by (rule sorted_key_index [where n = n]) simp
  show "sorted (map (\<lambda>x. - int (hr_originalIndex x)) ?r)" using assms by (rule sorted_map_rev_filter)
  show "mset ?l = mset ?r" by (rule mset_filter_name)
  have "distinct (map hr_originalIndex xs)" using assms by (simp add: strict_sorted_iff)
  then show "inj_on (\<lambda>x. - int (hr_originalIndex x)) (set ?l)"
    using mset_eq_setD [OF header_order.SliceStable_mset [of xs]]
    by (auto simp: inj_on_def distinct_map)
qed

lemma sorted_names: "sorted (map header_key xs) \<Longrightarrow> sorted (map hr_nameLower xs)"
  by (induction xs) (auto simp: header_key_def less_eq_prod_def)

lemma concat_of_concats: "concat (concat xss) = concat (map concat xss)"
  by (induction xss) simp_all

lemma sorted_records_input:
  assumes "sorted_wrt (<) (map hf_index fs)"
  shows "concat (map hr_canonicalBytes (sortHeaderFieldRecords (map field_record fs))) = header_input fs"
proof -
  let ?s = "SliceStable headerRecordBefore (map field_record fs)"
  have idx: "sorted_wrt (<) (map hr_originalIndex (map field_record fs))"
    using assms by (simp add: field_record_def o_def)
  have grp: "filter (\<lambda>x. hr_nameLower x = n) ?s = rev (map field_record (filter (\<lambda>f. hf_nameLower f = n) fs))" for n
    unfolding sort_group [OF idx] by (simp add: filter_map o_def field_record_def)
  have names: "hr_nameLower ` set ?s = hf_nameLower ` set fs"
    using mset_eq_setD [OF header_order.SliceStable_mset [of "map field_record fs"]]
    by (simp add: image_image field_record_def)
  have "sorted (map hr_nameLower ?s)" using header_order.SliceStable_sorted by (rule sorted_names)
  from sorted_groups [OF this] have s: "?s = concat (map (\<lambda>n. rev (map field_record (filter (\<lambda>f. hf_nameLower f = n) fs)))
      (sorted_list_of_set (hf_nameLower ` set fs)))"
    unfolding grp names .
  have bytes: "map hr_canonicalBytes (rev (map field_record gs)) = map field_bytes (rev gs)" for gs
    by (simp add: rev_map field_record_bytes)
  show ?thesis
    unfolding sortHeaderFieldRecords_def header_input_def
    by (subst s) (simp add: map_concat concat_of_concats o_def bytes)
qed

section \<open>What the hash input is\<close>

lemma countExcludedHeader_flag: "snd (countExcludedHeader n c) \<longleftrightarrow> excludedHeaderKindForName n \<noteq> excludedHeaderNone"
  by (simp add: countExcludedHeader_def split: excludedHeaderKind.split)

lemma countExcludedHeader_none:
  "excludedHeaderKindForName n = excludedHeaderNone \<Longrightarrow> countExcludedHeader n c = (c, False)"
  by (simp add: countExcludedHeader_def)

definition counts_ok :: "ExcludedHeaderCounts \<Rightarrow> bool" where
  "counts_ok c \<longleftrightarrow> 0 \<le> ec_Received c \<and> 0 \<le> ec_ReturnPath c \<and> 0 \<le> ec_DeliveredTo c
     \<and> 0 \<le> ec_AuthenticationResults c \<and> 0 \<le> ec_XHeader c \<and> 0 \<le> ec_DKIMSignature c
     \<and> 0 \<le> ec_ExactUnsigned c \<and> 0 \<le> ec_ARC c \<and> 0 \<le> ec_MessageInstance c \<and> 0 \<le> ec_DKIM2Signature c"

lemma countExcludedHeader_total:
  "counts_ok c \<Longrightarrow> counts_ok (fst (countExcludedHeader n c)) \<and>
     ExcludedHeaderCounts_Total (fst (countExcludedHeader n c))
       = ExcludedHeaderCounts_Total c + (if excludedHeaderKindForName n = excludedHeaderNone then 0 else 1)"
  by (auto simp: countExcludedHeader_def counts_ok_def ExcludedHeaderCounts_Total_def nonNegative_def
      split: excludedHeaderKind.split)

lemma headerRecordsLoop_Inr:
  assumes "headerRecordsLoop limits fs recs c = Inr (r, c')"
  shows "r = recs @ map field_record (filter included fs)
     \<and> (\<forall>f \<in> set fs. included f \<longrightarrow> int (length (field_bytes f)) \<le> MaxFieldBytes limits)
     \<and> (counts_ok c \<longrightarrow> ExcludedHeaderCounts_Total c'
          = ExcludedHeaderCounts_Total c + int (length (filter (\<lambda>f. \<not> included f) fs)))"
  using assms
proof (induction fs arbitrary: recs c)
  case (Cons f fs)
  show ?case
  proof (cases "included f")
    case True
    then have c: "countExcludedHeader (hf_nameLower f) c = (c, False)"
      by (simp add: included_def countExcludedHeader_none)
    have step: "headerRecordsLoop limits (f # fs) recs c =
        (if int (length (field_bytes f)) > MaxFieldBytes limits
         then Inl (headerLimitExceededError ''max_field_bytes'' (int (length (field_bytes f)))
                     (MaxFieldBytes limits) (int (hf_index f)))
         else headerRecordsLoop limits fs (recs @ [field_record f]) c)"
      using c field_record_bytes [of f] by (simp add: Let_def field_record_def)
    with Cons.prems have fit: "int (length (field_bytes f)) \<le> MaxFieldBytes limits"
      and rest: "headerRecordsLoop limits fs (recs @ [field_record f]) c = Inr (r, c')"
      by (auto split: if_splits)
    from Cons.IH [OF rest] fit True show ?thesis by simp
  next
    case False
    obtain c1 where c1: "countExcludedHeader (hf_nameLower f) c = (c1, True)"
      using False countExcludedHeader_flag [of "hf_nameLower f" c]
      by (cases "countExcludedHeader (hf_nameLower f) c") (auto simp: included_def)
    then have "headerRecordsLoop limits fs recs c1 = Inr (r, c')" using Cons.prems by (simp add: Let_def)
    from Cons.IH [OF this] show ?thesis
      using False countExcludedHeader_total [of c "hf_nameLower f"] c1 by (auto simp: included_def)
  qed
qed simp

lemma headerRecordsLoop_succeeds:
  assumes "\<forall>f \<in> set fs. included f \<longrightarrow> int (length (field_bytes f)) \<le> MaxFieldBytes limits"
  shows "\<exists>r c'. headerRecordsLoop limits fs recs c = Inr (r, c')"
  using assms
proof (induction fs arbitrary: recs c)
  case (Cons f fs)
  then have IH: "\<exists>r c'. headerRecordsLoop limits fs recs c = Inr (r, c')" for recs c by simp
  have "included f \<Longrightarrow> \<not> MaxFieldBytes limits < int (length (canonicalizeHeaderFieldBytes (hf_nameLower f) (hf_unfoldedValue f)))"
    using Cons.prems field_record_bytes [of f] by (simp add: field_record_def)
  then show ?case
    using IH countExcludedHeader_flag [of "hf_nameLower f" c]
    by (auto simp: Let_def included_def split: prod.split)
qed simp

lemma headerConcatLoop_Inr_iff:
  "headerConcatLoop limits recs acc = Inr out \<longleftrightarrow>
     out = acc @ concat (map hr_canonicalBytes recs)
     \<and> (recs \<noteq> [] \<longrightarrow> int (length out) \<le> MaxHeaderInputBytes limits)"
proof (induction recs arbitrary: acc)
  case (Cons r recs)
  show ?case by (cases "recs = []") (auto simp: Cons.IH)
qed auto

lemma header_block_inv_sorted:
  assumes "header_block_inv h"
  shows "sorted_wrt (<) (map hf_index (filter P (hb_fields h)))"
proof -
  have "map hf_index (hb_fields h) = [0..<length (hb_fields h)]"
    using assms by (intro nth_equalityI) (auto simp: header_block_inv_def)
  then have "sorted_wrt (<) (map hf_index (hb_fields h))" by simp
  then show ?thesis by (simp add: sorted_wrt_map sorted_wrt_filter)
qed

lemma counts_ok_zero: "counts_ok zeroExcludedCounts" "ExcludedHeaderCounts_Total zeroExcludedCounts = 0"
  by (simp_all add: counts_ok_def zeroExcludedCounts_def ExcludedHeaderCounts_Total_def nonNegative_def)

text \<open>The octets the header hash is taken over.\<close>

definition header_octets :: "HeaderBlock \<Rightarrow> bytes" where
  "header_octets h = header_input (filter included (hb_fields h))"

definition header_fits :: "CanonLimits \<Rightarrow> HeaderBlock \<Rightarrow> bool" where
  "header_fits l h \<longleftrightarrow>
     int (length (hb_fields h)) \<le> MaxFieldCount l
     \<and> (\<forall>f \<in> set (hb_fields h). included f \<longrightarrow> int (length (field_bytes f)) \<le> MaxFieldBytes l)
     \<and> int (length (header_octets h)) \<le> MaxHeaderInputBytes l"

lemma header_octets_records:
  "header_block_inv h \<Longrightarrow>
     concat (map hr_canonicalBytes (sortHeaderFieldRecords (map field_record (filter included (hb_fields h)))))
       = header_octets h"
  unfolding header_octets_def by (rule sorted_records_input [OF header_block_inv_sorted])

lemma HeaderHashInput_Inr:
  assumes "HeaderHashInput c h = Inr i" "header_block_inv h"
  shows "bi_kind i = KindHeaderHashInput \<and> bi_bytes i = header_octets h
     \<and> cm_IncludedFields (bi_metadata i) = int (length (filter included (hb_fields h)))
     \<and> cm_IncludedFields (bi_metadata i) + cm_ExcludedFields (bi_metadata i) = int (length (hb_fields h))"
proof -
  obtain r ec out where r: "headerRecordsLoop (co_Limits (cz_options c)) (hb_fields h) [] zeroExcludedCounts = Inr (r, ec)"
    and out: "headerConcatLoop (co_Limits (cz_options c)) (sortHeaderFieldRecords r) [] = Inr out"
    and i: "bi_kind i = KindHeaderHashInput" "bi_bytes i = out"
      "cm_IncludedFields (bi_metadata i) = nonNegative (int (length r))"
      "cm_ExcludedFields (bi_metadata i) = nonNegative (ExcludedHeaderCounts_Total ec)"
    using assms(1)
    by (auto simp: HeaderHashInput_def Let_def res_bind_Inr_iff NewCanonicalBytes_valid sanitizeMetadata_def
        split: if_splits)
  from headerRecordsLoop_Inr [OF r] have rs: "r = map field_record (filter included (hb_fields h))"
    and ec: "ExcludedHeaderCounts_Total ec = int (length (filter (\<lambda>f. \<not> included f) (hb_fields h)))"
    by (simp_all add: counts_ok_zero)
  have "out = header_octets h"
    using out header_octets_records [OF assms(2)] unfolding rs by (simp add: headerConcatLoop_Inr_iff)
  then show ?thesis
    using i rs ec sum_length_filter_compl [of included "hb_fields h"]
    by (simp add: nonNegative_def flip: of_nat_add)
qed

lemma sortHeaderFieldRecords_Nil_iff: "sortHeaderFieldRecords rs = [] \<longleftrightarrow> rs = []"
  using header_order.SliceStable_mset [of rs] unfolding sortHeaderFieldRecords_def by (metis mset_zero_iff)

lemma HeaderHashInput_success_iff:
  assumes "header_block_inv h" "0 < MaxHeaderInputBytes (co_Limits (cz_options c))"
  shows "(\<exists>i. HeaderHashInput c h = Inr i) \<longleftrightarrow> header_fits (co_Limits (cz_options c)) h"
    (is "?l \<longleftrightarrow> ?r")
proof
  assume ?l
  then obtain r ec out where n: "int (length (hb_fields h)) \<le> MaxFieldCount (co_Limits (cz_options c))"
    and r: "headerRecordsLoop (co_Limits (cz_options c)) (hb_fields h) [] zeroExcludedCounts = Inr (r, ec)"
    and out: "headerConcatLoop (co_Limits (cz_options c)) (sortHeaderFieldRecords r) [] = Inr out"
    by (auto simp: HeaderHashInput_def Let_def res_bind_Inr_iff split: if_splits)
  from headerRecordsLoop_Inr [OF r] have rs: "r = map field_record (filter included (hb_fields h))"
    and b: "\<forall>f \<in> set (hb_fields h). included f \<longrightarrow> int (length (field_bytes f)) \<le> MaxFieldBytes (co_Limits (cz_options c))"
    by simp_all
  have "int (length (header_octets h)) \<le> MaxHeaderInputBytes (co_Limits (cz_options c))"
    using out header_octets_records [OF assms(1)] assms(2) unfolding rs
    by (cases "sortHeaderFieldRecords r = []") (auto simp: headerConcatLoop_Inr_iff rs)
  with n b show ?r by (simp add: header_fits_def)
next
  assume fit: ?r
  then obtain r ec where r: "headerRecordsLoop (co_Limits (cz_options c)) (hb_fields h) [] zeroExcludedCounts = Inr (r, ec)"
    using headerRecordsLoop_succeeds unfolding header_fits_def by blast
  from headerRecordsLoop_Inr [OF r] have rs: "r = map field_record (filter included (hb_fields h))" by simp
  have "headerConcatLoop (co_Limits (cz_options c)) (sortHeaderFieldRecords r) [] = Inr (header_octets h)"
    using fit header_octets_records [OF assms(1)] unfolding rs headerConcatLoop_Inr_iff header_fits_def by simp
  with r fit assms(1) show ?l
    by (simp add: HeaderHashInput_def Let_def NewCanonicalBytes_valid header_fits_def not_less)
qed

end
