(* ===== verification/Canonical_Kernel.thy ===== *)
theory Canonical_Kernel
  imports Canonical_Header
begin

text \<open>
  When two header blocks have the same hash input (\<open>internal/canonical/header.go\<close>): exactly when, for
  every included name, the values of its fields have the same words in the same order. The proof
  splits the input into its lines and the lines at their first colon.
\<close>

section \<open>Lines of a header input\<close>

definition header_seq :: "HeaderField list \<Rightarrow> HeaderField list" where
  "header_seq fs = concat (map (\<lambda>n. rev (filter (\<lambda>f. hf_nameLower f = n) fs))
     (sorted_list_of_set (hf_nameLower ` set fs)))"

definition field_line :: "HeaderField \<Rightarrow> bytes" where
  "field_line f = hf_nameLower f @ CHR '':'' # canonical_value (hf_unfoldedValue f)"

lemma field_bytes_line: "field_bytes f = field_line f @ crlf"
  by (simp add: field_bytes_def field_line_def)

lemma header_input_seq: "header_input fs = concat (map field_bytes (header_seq fs))"
  by (simp add: header_input_def header_seq_def map_concat concat_of_concats o_def)

lemma set_header_seq [simp]: "set (header_seq fs) = set fs"
  by (auto simp: header_seq_def)

lemma crlf_lines_concat:
  "\<forall>x \<in> set xs. no_crlf x \<Longrightarrow> crlf_lines (concat (map (\<lambda>x. x @ crlf) xs)) = map (\<lambda>x. x @ crlf) xs"
  by (induction xs) (simp_all add: crlf_lines_line)

lemma concat_lines_inj:
  assumes "\<forall>x \<in> set xs. no_crlf x" "\<forall>y \<in> set ys. no_crlf y"
    and "concat (map (\<lambda>x. x @ crlf) xs) = concat (map (\<lambda>x. x @ crlf) ys)"
  shows "xs = ys"
proof -
  have "map (\<lambda>x. x @ crlf) xs = map (\<lambda>x. x @ crlf) ys"
    using crlf_lines_concat [OF assms(1)] crlf_lines_concat [OF assms(2)] assms(3) by metis
  moreover have "inj (\<lambda>x. x @ crlf)" by (simp add: inj_on_def)
  ultimately show ?thesis by (rule map_injective)
qed

section \<open>Lines of valid fields\<close>

lemma set_canonical_value: "b \<in> set (canonical_value v) \<Longrightarrow> b = SP \<or> b \<in> set v"
proof -
  have "b \<in> set (compressLoop s v) \<Longrightarrow> b = SP \<or> b \<in> set v" for s v
    by (induction s v rule: compressLoop.induct) (auto split: if_splits)
  moreover have "set (trim v) \<subseteq> set v" by (metis Un_iff set_append subsetI trim_decomp)
  moreover assume "b \<in> set (canonical_value v)"
  ultimately show ?thesis
    unfolding canonical_value_def compressHeaderValueWSP_loop trimHeaderValueWSP_trim by blast
qed

lemma header_field_inv_name:
  assumes "header_field_inv f"
  shows "clean (hf_nameLower f)" "CHR '':'' \<notin> set (hf_nameLower f)"
proof -
  have "validHeaderFieldName (hf_nameLower f)" using assms by (simp add: header_field_inv_def)
  from validHeaderFieldName_no_specials [OF this]
  show "clean (hf_nameLower f)" "CHR '':'' \<notin> set (hf_nameLower f)" by (simp_all add: clean_def)
qed

lemma field_line_clean:
  assumes "header_field_inv f"
  shows "clean (field_line f)"
proof -
  have "clean (hf_unfoldedValue f)"
    using assms by (simp add: header_field_inv_def unfoldHeaderValue_valid clean_def)
  then have "clean (canonical_value (hf_unfoldedValue f))" using set_canonical_value by (auto simp: clean_def)
  with header_field_inv_name [OF assms] show ?thesis by (simp add: field_line_def)
qed

lemma split_first:
  "c \<notin> set a \<Longrightarrow> c \<notin> set a' \<Longrightarrow> a @ c # r = a' @ c # r' \<longleftrightarrow> a = a' \<and> r = r'"
proof (induction a arbitrary: a')
  case Nil
  then show ?case by (cases a') auto
next
  case (Cons x a)
  then show ?case by (cases a') auto
qed

definition field_words :: "HeaderField \<Rightarrow> bytes \<times> bytes list" where
  "field_words f = (hf_nameLower f, wsp_words (hf_unfoldedValue f))"

lemma field_line_eq_iff:
  "header_field_inv f \<Longrightarrow> header_field_inv g \<Longrightarrow> field_line f = field_line g \<longleftrightarrow> field_words f = field_words g"
  by (simp add: field_line_def field_words_def split_first header_field_inv_name canonical_value_eq_iff)

lemma field_bytes_words:
  "field_bytes f = (\<lambda>(n, ws). n @ CHR '':'' # join_sp ws @ crlf) (field_words f)"
  by (simp add: field_bytes_def field_words_def canonical_value_words)

section \<open>Groups\<close>

lemma filter_concat_groups:
  "distinct ns \<Longrightarrow>
     filter (\<lambda>f. g f = n) (concat (map (\<lambda>m. rev (filter (\<lambda>f. g f = m) fs)) ns))
       = (if n \<in> set ns then rev (filter (\<lambda>f. g f = n) fs) else [])"
proof (induction ns)
  case (Cons m ns)
  have same: "filter (\<lambda>f. g f = m) (rev (filter (\<lambda>f. g f = m) fs)) = rev (filter (\<lambda>f. g f = m) fs)"
    by (rule filter_True) simp
  have other: "n \<noteq> m \<Longrightarrow> filter (\<lambda>f. g f = n) (rev (filter (\<lambda>f. g f = m) fs)) = []"
    by (simp add: filter_empty_conv)
  show ?case using Cons same other by (cases "n = m") simp_all
qed simp

lemma filter_header_seq:
  "filter (\<lambda>f. hf_nameLower f = n) (header_seq fs) = rev (filter (\<lambda>f. hf_nameLower f = n) fs)"
proof -
  have "n \<notin> hf_nameLower ` set fs \<Longrightarrow> filter (\<lambda>f. hf_nameLower f = n) fs = []"
    by (auto simp: filter_empty_conv)
  then show ?thesis unfolding header_seq_def by (subst filter_concat_groups) auto
qed

text \<open>The words of the values of one name, top down.\<close>

definition name_words :: "HeaderField list \<Rightarrow> bytes \<Rightarrow> bytes list list" where
  "name_words fs n = map (\<lambda>f. wsp_words (hf_unfoldedValue f)) (filter (\<lambda>f. hf_nameLower f = n) fs)"

lemma name_words_seq:
  "name_words fs n = rev (map snd (filter (\<lambda>p. fst p = n) (map field_words (header_seq fs))))"
proof -
  have "map snd (filter (\<lambda>p. fst p = n) (map field_words (header_seq fs)))
      = map (\<lambda>f. wsp_words (hf_unfoldedValue f)) (filter (\<lambda>f. hf_nameLower f = n) (header_seq fs))"
    by (simp add: filter_map o_def field_words_def)
  then show ?thesis by (simp add: filter_header_seq name_words_def flip: rev_map)
qed

lemma group_words:
  "map field_words (filter (\<lambda>f. hf_nameLower f = n) fs) = map (Pair n) (name_words fs n)"
  by (auto simp: name_words_def field_words_def)

lemma names_of_words: "hf_nameLower ` set fs = {n. name_words fs n \<noteq> []}"
  by (auto simp: name_words_def filter_empty_conv)

lemma header_seq_words:
  "map field_words (header_seq fs) =
     concat (map (\<lambda>n. rev (map (Pair n) (name_words fs n))) (sorted_list_of_set {n. name_words fs n \<noteq> []}))"
  unfolding header_seq_def map_concat names_of_words by (simp add: o_def group_words flip: rev_map)

lemma header_input_eq_iff:
  assumes "\<forall>f \<in> set fs \<union> set gs. header_field_inv f"
  shows "header_input fs = header_input gs \<longleftrightarrow> name_words fs = name_words gs"
proof
  assume "header_input fs = header_input gs"
  then have "concat (map (\<lambda>x. x @ crlf) (map field_line (header_seq fs)))
      = concat (map (\<lambda>x. x @ crlf) (map field_line (header_seq gs)))"
    unfolding header_input_seq by (simp add: o_def flip: field_bytes_line)
  then have lines: "map field_line (header_seq fs) = map field_line (header_seq gs)"
    by (rule concat_lines_inj [rotated -1]) (use assms field_line_clean clean_no_crlf in auto)
  have len: "length (header_seq fs) = length (header_seq gs)" using lines by (metis length_map)
  have "field_words (header_seq fs ! i) = field_words (header_seq gs ! i)" if i: "i < length (header_seq fs)" for i
  proof -
    have "field_line (header_seq fs ! i) = field_line (header_seq gs ! i)" using lines i len by (metis nth_map)
    moreover have "header_seq fs ! i \<in> set fs" "header_seq gs ! i \<in> set gs"
      using i len set_header_seq by (metis nth_mem)+
    ultimately show ?thesis using assms field_line_eq_iff by blast
  qed
  then have "map field_words (header_seq fs) = map field_words (header_seq gs)"
    using len by (simp add: list_eq_iff_nth_eq)
  then show "name_words fs = name_words gs" by (intro ext) (simp add: name_words_seq)
next
  assume "name_words fs = name_words gs"
  then have "map field_words (header_seq fs) = map field_words (header_seq gs)" by (simp add: header_seq_words)
  moreover have "map field_bytes xs = map (\<lambda>(n, ws). n @ CHR '':'' # join_sp ws @ crlf) (map field_words xs)" for xs
    by (simp add: field_bytes_words)
  ultimately have "map field_bytes (header_seq fs) = map field_bytes (header_seq gs)" by (simp only:)
  then show "header_input fs = header_input gs" by (simp add: header_input_seq)
qed

section \<open>The kernel of the header hash input\<close>

definition signed_words :: "HeaderBlock \<Rightarrow> bytes \<Rightarrow> bytes list list" where
  "signed_words h n = name_words (filter included (hb_fields h)) n"

lemma header_octets_eq_iff:
  assumes "header_block_inv h" "header_block_inv h'"
  shows "header_octets h = header_octets h' \<longleftrightarrow> (\<forall>n. signed_words h n = signed_words h' n)"
proof -
  have "\<forall>f \<in> set (filter included (hb_fields h)) \<union> set (filter included (hb_fields h')). header_field_inv f"
    using header_block_inv_fields [OF assms(1)] header_block_inv_fields [OF assms(2)] by auto
  from header_input_eq_iff [OF this] show ?thesis
    unfolding header_octets_def signed_words_def by (simp add: fun_eq_iff)
qed

lemma signed_words_relevant:
  "signed_words h n = (if excludedHeaderKindForName n = excludedHeaderNone
     then name_words (hb_fields h) n else [])"
proof -
  have "filter (\<lambda>f. hf_nameLower f = n) (filter included fs)
      = (if excludedHeaderKindForName n = excludedHeaderNone then filter (\<lambda>f. hf_nameLower f = n) fs else [])" for fs
    by (auto simp: included_def filter_empty_conv intro: filter_cong)
  then show ?thesis by (simp add: signed_words_def name_words_def)
qed

lemma IsRelevantHeader_iff:
  "IsRelevantHeader NewHeaderRelevance n = Inr b \<longleftrightarrow>
     validHeaderFieldName n \<and> lowerASCII n = n \<and> b = (excludedHeaderKindForName n = excludedHeaderNone)"
  by (auto simp: IsRelevantHeader_def CanonicalHeaderName_def canonicalHeaderLookupName_def
      HeaderRelevance_Validate_def NewHeaderRelevance_def)

lemma IsRelevantHeader_included:
  assumes "header_field_inv f"
  shows "IsRelevantHeader NewHeaderRelevance (hf_nameLower f) = Inr (included f)"
  using assms by (simp add: IsRelevantHeader_iff header_field_inv_def included_def)

section \<open>Sizes\<close>

text \<open>Canonicalization never lengthens a field, so the hash input is no longer than the header.\<close>

lemma length_compressLoop: "length (compressLoop s v) \<le> length v"
  by (induction s v rule: compressLoop.induct) auto

lemma length_canonical_value: "length (canonical_value v) \<le> length v"
proof -
  have "length (trim v) \<le> length v" using trim_decomp [of v] by (metis le_add1 le_add2 length_append le_trans)
  then show ?thesis
    unfolding canonical_value_def compressHeaderValueWSP_loop trimHeaderValueWSP_trim
    using length_compressLoop [of False "trim v"] by linarith
qed

lemma length_field_bytes:
  assumes "header_field_inv f"
  shows "length (field_bytes f) \<le> length (hf_originalBytes f)"
proof -
  have "length (hf_unfoldedValue f) \<le> length (hf_rawValue f)"
    using assms by (simp add: header_field_inv_def unfoldHeaderValue_valid)
  then have "length (canonical_value (hf_unfoldedValue f)) \<le> length (hf_rawValue f)"
    using length_canonical_value [of "hf_unfoldedValue f"] by linarith
  then show ?thesis using assms by (simp add: field_bytes_def header_field_inv_def)
qed

lemma header_octets_length:
  assumes "header_block_inv h"
  shows "length (header_octets h) \<le> length (hb_originalBytes h)"
proof -
  let ?fs = "filter included (hb_fields h)"
  have "header_octets h = concat (map hr_canonicalBytes (sortHeaderFieldRecords (map field_record ?fs)))"
    using header_octets_records [OF assms] by simp
  then have "length (header_octets h) = sum_mset (image_mset (length \<circ> hr_canonicalBytes) (mset (map field_record ?fs)))"
    using header_order.SliceStable_mset [of "map field_record ?fs"]
    by (simp add: length_concat o_def sortHeaderFieldRecords_def flip: sum_mset_sum_list)
  also have "\<dots> = sum_list (map (length \<circ> field_bytes) ?fs)"
    by (simp add: o_def field_record_bytes multiset.map_comp flip: sum_mset_sum_list)
  also have "\<dots> \<le> sum_list (map (length \<circ> field_bytes) (hb_fields h))"
    by (rule sum_list_filter_le_nat)
  also have "\<dots> \<le> sum_list (map (length \<circ> hf_originalBytes) (hb_fields h))"
    using header_block_inv_fields [OF assms] length_field_bytes by (intro sum_list_mono) auto
  finally show ?thesis using assms by (simp add: header_block_inv_def length_concat o_def)
qed

section \<open>Errors\<close>

lemma headerRecordsLoop_code:
  "headerRecordsLoop limits fs recs c = Inl e \<Longrightarrow> ce_code e = CanonErrorCodeLimitExceeded"
  by (induction fs arbitrary: recs c)
     (auto simp: Let_def headerLimitExceededError_def split: if_splits prod.splits)

lemma headerConcatLoop_code:
  "headerConcatLoop limits recs acc = Inl e \<Longrightarrow> ce_code e = CanonErrorCodeLimitExceeded"
  by (induction recs arbitrary: acc) (auto simp: headerLimitExceededError_def split: if_splits)

lemma HeaderHashInput_code:
  assumes "hb_initialized h" "HeaderHashInput c h = Inl e"
  shows "ce_code e = CanonErrorCodeLimitExceeded"
  using assms headerRecordsLoop_code headerConcatLoop_code
  by (auto simp: HeaderHashInput_def Let_def res_bind_Inl_iff NewCanonicalBytes_valid headerLimitExceededError_def
      split: if_splits)

end
