(* ===== verification/Go_Sha2.thy ===== *)
theory Go_Sha2
  imports Go_Bytes "HOL-Library.Word"
begin

text \<open>
  The standard-library digests \<open>sha256.Sum256\<close> and \<open>sha512.Sum512\<close> (FIPS 180-4), written once over
  the word size: padding, message schedule, compression and big-endian output. Only the sizes of the
  sums are used by the proofs; the definitions are executable.
\<close>

unbundle bit_operations_syntax

section \<open>Words and octets\<close>

definition bytes_word :: "bytes \<Rightarrow> 'a::len word" where
  "bytes_word bs = of_int (foldl (\<lambda>acc b. acc * 256 + of_char b) 0 bs)"

text \<open>The \<open>k\<close> low octets of a number, most significant first.\<close>

definition int_bytes :: "nat \<Rightarrow> int \<Rightarrow> bytes" where
  "int_bytes k n = map (\<lambda>i. char_of (n div 256 ^ (k - 1 - i))) [0..<k]"

definition word_bytes :: "nat \<Rightarrow> 'a::len word \<Rightarrow> bytes" where
  "word_bytes k w = int_bytes k (uint w)"

lemma length_int_bytes [simp]: "length (int_bytes k n) = k"
  by (simp add: int_bytes_def)

lemma length_word_bytes [simp]: "length (word_bytes k w) = k"
  by (simp add: word_bytes_def)

fun chunks :: "nat \<Rightarrow> bytes \<Rightarrow> nat \<Rightarrow> bytes list" where
  "chunks k bs 0 = []"
| "chunks k bs (Suc n) = take k bs # chunks k (drop k bs) n"

section \<open>The compression function\<close>

type_synonym 'w hash_state = "'w \<times> 'w \<times> 'w \<times> 'w \<times> 'w \<times> 'w \<times> 'w \<times> 'w"

text \<open>The parameters of a member of the family: word octets, round constants, rotations and shifts.\<close>

record ('w) sha2 =
  sh_word :: nat
  sh_consts :: "'w list"
  sh_init :: "'w hash_state"
  sh_Sum0 :: "nat \<times> nat \<times> nat"
  sh_Sum1 :: "nat \<times> nat \<times> nat"
  sh_sig0 :: "nat \<times> nat \<times> nat"
  sh_sig1 :: "nat \<times> nat \<times> nat"

definition bigSigma :: "nat \<times> nat \<times> nat \<Rightarrow> 'a::len word \<Rightarrow> 'a word" where
  "bigSigma r x = (case r of (a, b, c) \<Rightarrow> word_rotr a x XOR word_rotr b x XOR word_rotr c x)"

definition smallSigma :: "nat \<times> nat \<times> nat \<Rightarrow> 'a::len word \<Rightarrow> 'a word" where
  "smallSigma r x = (case r of (a, b, c) \<Rightarrow> word_rotr a x XOR word_rotr b x XOR drop_bit c x)"

definition sha_round :: "('a::len word) sha2 \<Rightarrow> 'a word \<times> 'a word \<Rightarrow> 'a word hash_state \<Rightarrow> 'a word hash_state" where
  "sha_round p kw s =
     (case (kw, s) of ((k, w), (a, b, c, d, e, f, g, h)) \<Rightarrow>
        (let t1 = h + bigSigma (sh_Sum1 p) e + ((e AND f) XOR (NOT e AND g)) + k + w;
             t2 = bigSigma (sh_Sum0 p) a + ((a AND b) XOR (a AND c) XOR (b AND c))
         in (t1 + t2, a, b, c, d + t1, e, f, g)))"

text \<open>The message schedule, newest word first.\<close>

fun schedule :: "('a::len word) sha2 \<Rightarrow> nat \<Rightarrow> 'a word list \<Rightarrow> 'a word list" where
  "schedule p 0 ws = ws"
| "schedule p (Suc n) ws =
     schedule p n ((smallSigma (sh_sig1 p) (ws ! 1) + ws ! 6 + smallSigma (sh_sig0 p) (ws ! 14) + ws ! 15) # ws)"

definition sha_block :: "('a::len word) sha2 \<Rightarrow> bytes \<Rightarrow> 'a word hash_state \<Rightarrow> 'a word hash_state" where
  "sha_block p block s =
     (let ws = rev (map bytes_word (chunks (sh_word p) block 16));
          w = rev (schedule p (length (sh_consts p) - 16) ws)
      in case (s, fold (sha_round p) (zip (sh_consts p) w) s) of
           ((a, b, c, d, e, f, g, h), (a', b', c', d', e', f', g', h')) \<Rightarrow>
             (a + a', b + b', c + c', d + d', e + e', f + f', g + g', h + h'))"

section \<open>Padding and the digest\<close>

definition sha_pad :: "nat \<Rightarrow> bytes \<Rightarrow> bytes" where
  "sha_pad word msg =
     (let block = 16 * word; used = length msg + 1 + 2 * word;
          zeros = (block - used mod block) mod block
      in msg @ [char_of (128 :: nat)] @ replicate zeros (char_of (0 :: nat))
           @ int_bytes (2 * word) (8 * int (length msg)))"

definition sha_sum :: "('a::len word) sha2 \<Rightarrow> bytes \<Rightarrow> bytes" where
  "sha_sum p msg =
     (let padded = sha_pad (sh_word p) msg;
          blocks = chunks (16 * sh_word p) padded (length padded div (16 * sh_word p))
      in case fold (sha_block p) blocks (sh_init p) of
           (a, b, c, d, e, f, g, h) \<Rightarrow> concat (map (word_bytes (sh_word p)) [a, b, c, d, e, f, g, h]))"

text \<open>
  The constants are fractional bits of roots of the first primes: cube roots for the rounds, square
  roots for the initial state. The root is found bit by bit.
\<close>

fun root_bits :: "nat \<Rightarrow> int \<Rightarrow> nat \<Rightarrow> int \<Rightarrow> int" where
  "root_bits k x 0 r = r"
| "root_bits k x (Suc n) r = root_bits k x n (if (r + 2 ^ n) ^ k \<le> x then r + 2 ^ n else r)"

definition small_primes :: "int list" where
  "small_primes = filter (\<lambda>p. \<forall>d \<in> set [2..p - 1]. p mod d \<noteq> 0) [2..409]"

definition root_fraction :: "nat \<Rightarrow> nat \<Rightarrow> int \<Rightarrow> 'a::len word" where
  "root_fraction bits k p = of_int (root_bits k (p * 2 ^ (k * bits)) (bits + 5) 0)"

definition first_state :: "nat \<Rightarrow> ('a::len word) hash_state" where
  "first_state bits =
     (case map (root_fraction bits 2) (take 8 small_primes) of
        [a, b, c, d, e, f, g, h] \<Rightarrow> (a, b, c, d, e, f, g, h)
      | _ \<Rightarrow> (0, 0, 0, 0, 0, 0, 0, 0))"

definition sha256 :: "(32 word) sha2" where
  "sha256 = \<lparr>sh_word = 4,
     sh_consts = map (root_fraction 32 3) (take 64 small_primes), sh_init = first_state 32,
     sh_Sum0 = (2, 13, 22), sh_Sum1 = (6, 11, 25), sh_sig0 = (7, 18, 3), sh_sig1 = (17, 19, 10)\<rparr>"

definition sha512 :: "(64 word) sha2" where
  "sha512 = \<lparr>sh_word = 8,
     sh_consts = map (root_fraction 64 3) (take 80 small_primes), sh_init = first_state 64,
     sh_Sum0 = (28, 34, 39), sh_Sum1 = (14, 18, 41), sh_sig0 = (1, 8, 7), sh_sig1 = (19, 61, 6)\<rparr>"

definition Sum256 :: "bytes \<Rightarrow> bytes" where
  "Sum256 msg = sha_sum sha256 msg"

definition Sum512 :: "bytes \<Rightarrow> bytes" where
  "Sum512 msg = sha_sum sha512 msg"

section \<open>Sizes\<close>

lemma length_sha_sum: "length (sha_sum p msg) = 8 * sh_word p"
  by (simp add: sha_sum_def Let_def split: prod.split)

lemma length_Sum256 [simp]: "length (Sum256 msg) = 32"
  by (simp add: Sum256_def length_sha_sum sha256_def)

lemma length_Sum512 [simp]: "length (Sum512 msg) = 64"
  by (simp add: Sum512_def length_sha_sum sha512_def)

text \<open>Padding fills whole blocks.\<close>

lemma mod_fill:
  fixes b :: nat
  assumes "0 < b"
  shows "b dvd u + (b - u mod b) mod b"
proof -
  have "(u + (b - u mod b) mod b) mod b = (u mod b + (b - u mod b)) mod b" by presburger
  also have "\<dots> = 0" using assms by (simp add: less_imp_le)
  finally show ?thesis by (simp add: mod_eq_0_iff_dvd)
qed

lemma sha_pad_blocks: "0 < word \<Longrightarrow> 16 * word dvd length (sha_pad word msg)"
  using mod_fill [of "16 * word" "length msg + 1 + 2 * word"] by (simp add: sha_pad_def Let_def ac_simps)

end
