(* ===== verification/Canonical_Hash.thy ===== *)
theory Canonical_Hash
  imports Canonical_Kernel Go_Sha2
begin

text \<open>
  Digests over canonical input of package \<open>internal/canonical\<close> (\<open>hash.go\<close> and the hash methods of
  \<open>body.go\<close> and \<open>header.go\<close>). Body and header hashes are the same pipeline over different input, stated
  once as a locale and interpreted for both.
\<close>

section \<open>Model\<close>

text \<open>The variadic kinds of \<open>validateDigestInput\<close> are a list.\<close>

definition validateDigestInput :: "Canonicalizer \<Rightarrow> ByteInput \<Rightarrow> Kind list \<Rightarrow> CanonError option" where
  "validateDigestInput c input allowedKinds =
     (case CanonOptions_Validate (cz_options c) of
        Some e \<Rightarrow> Some e
      | None \<Rightarrow> if bi_kind input \<in> set allowedKinds then None
                else Some (newCanonError CanonErrorCodeInternalMisuse (zeroCanonLocation\<lparr>cl_Kind := bi_kind input\<rparr>)
                       (zeroCanonDetails\<lparr>cd_Class := CanonErrorClassInternal, cd_TargetName := ''digest_input_kind''\<rparr>)))"

definition Canonicalizer_Digest :: "Canonicalizer \<Rightarrow> ByteInput \<Rightarrow> (CanonError, Digest) result" where
  "Canonicalizer_Digest c input =
     res_check (validateDigestInput c input [KindBodyHashInput, KindHeaderHashInput])
       (if co_HashAlgorithm (cz_options c) = HashAlgorithmSHA256
        then NewDigest HashAlgorithmSHA256 (Sum256 (bi_bytes input))
        else if co_HashAlgorithm (cz_options c) = HashAlgorithmSHA512
        then NewDigest HashAlgorithmSHA512 (Sum512 (bi_bytes input))
        else Inl (unsupportedAlgorithmError (bi_kind input) (co_HashAlgorithm (cz_options c))))"

definition SHA256Digest :: "Canonicalizer \<Rightarrow> ByteInput \<Rightarrow> (CanonError, Digest) result" where
  "SHA256Digest c input =
     res_check (validateDigestInput c input [KindSignatureInput])
       (NewDigest HashAlgorithmSHA256 (Sum256 (bi_bytes input)))"

definition BodyHash :: "Canonicalizer \<Rightarrow> Body \<Rightarrow> (CanonError, CanonResult) result" where
  "BodyHash c body =
     res_bind (BodyHashInput c body) (\<lambda>canonical.
       res_bind (Canonicalizer_Digest c canonical) (\<lambda>digest. Inr (NewResult canonical digest)))"

definition BodyHashFromMessage :: "Canonicalizer \<Rightarrow> Message \<Rightarrow> (CanonError, CanonResult) result" where
  "BodyHashFromMessage c message = BodyHash c (msg_body message)"

definition HeaderHash :: "Canonicalizer \<Rightarrow> HeaderBlock \<Rightarrow> (CanonError, CanonResult) result" where
  "HeaderHash c headers =
     res_bind (HeaderHashInput c headers) (\<lambda>canonical.
       res_bind (Canonicalizer_Digest c canonical) (\<lambda>digest. Inr (NewResult canonical digest)))"

definition HeaderHashFromMessage :: "Canonicalizer \<Rightarrow> Message \<Rightarrow> (CanonError, CanonResult) result" where
  "HeaderHashFromMessage c message = HeaderHash c (msg_headers message)"

section \<open>Digests\<close>

definition sum_for :: "HashAlgorithm \<Rightarrow> bytes \<Rightarrow> bytes" where
  "sum_for a x = (if a = HashAlgorithmSHA256 then Sum256 x else Sum512 x)"

definition digest_of :: "HashAlgorithm \<Rightarrow> bytes \<Rightarrow> Digest" where
  "digest_of a x = \<lparr>dg_algorithm = a, dg_bytes = sum_for a x, dg_base64 = EncodeToString (sum_for a x)\<rparr>"

lemma length_sum_for: "HashAlgorithm_Known a \<Longrightarrow> length (sum_for a x) = digestSize a"
  by (auto simp: HashAlgorithm_Known_def sum_for_def digestSize_def)

lemma validateDigestInput_None_iff:
  "validateDigestInput c i ks = None \<longleftrightarrow> CanonOptions_Validate (cz_options c) = None \<and> bi_kind i \<in> set ks"
  by (simp add: validateDigestInput_def split: option.split)

lemma Canonicalizer_Digest_Inr_iff:
  "Canonicalizer_Digest c i = Inr d \<longleftrightarrow>
     CanonOptions_Validate (cz_options c) = None \<and> (bi_kind i = KindBodyHashInput \<or> bi_kind i = KindHeaderHashInput)
     \<and> d = digest_of (co_HashAlgorithm (cz_options c)) (bi_bytes i)"
  by (auto simp: Canonicalizer_Digest_def res_check_Inr_iff validateDigestInput_None_iff NewDigest_Inr_iff
      CanonOptions_Validate_None_iff HashAlgorithm_Known_def digest_of_def sum_for_def digestSize_def)

lemma SHA256Digest_Inr_iff:
  "SHA256Digest c i = Inr d \<longleftrightarrow>
     CanonOptions_Validate (cz_options c) = None \<and> bi_kind i = KindSignatureInput
     \<and> d = digest_of HashAlgorithmSHA256 (bi_bytes i)"
  by (auto simp: SHA256Digest_def res_check_Inr_iff validateDigestInput_None_iff NewDigest_Inr_iff
      HashAlgorithm_Known_def digest_of_def sum_for_def digestSize_def)

text \<open>No input has a digest under both methods: the two purposes are separate.\<close>

lemma digest_purposes_disjoint: "Canonicalizer_Digest c i = Inr d \<Longrightarrow> SHA256Digest c' i \<noteq> Inr d'"
  by (auto simp: Canonicalizer_Digest_Inr_iff SHA256Digest_Inr_iff)

lemma digest_of_decodes: "Decode (dg_base64 (digest_of a x)) = Some (dg_bytes (digest_of a x))"
  by (simp add: digest_of_def std_encoding.dec_enc)

lemma digest_of_base64_eq_iff:
  "dg_base64 (digest_of a x) = dg_base64 (digest_of a y) \<longleftrightarrow> sum_for a x = sum_for a y"
  by (simp add: digest_of_def std_encoding.enc_inject)

section \<open>The hash pipeline\<close>

locale hash_pipeline =
  fixes input :: "Canonicalizer \<Rightarrow> 'x \<Rightarrow> (CanonError, ByteInput) result"
    and hash :: "Canonicalizer \<Rightarrow> 'x \<Rightarrow> (CanonError, CanonResult) result"
  assumes hash_input: "hash c x =
      res_bind (input c x) (\<lambda>i. res_bind (Canonicalizer_Digest c i) (\<lambda>d. Inr (NewResult i d)))"
    and input_kind: "input c x = Inr i \<Longrightarrow> bi_kind i = KindBodyHashInput \<or> bi_kind i = KindHeaderHashInput"
begin

lemma hash_Inr_iff:
  "hash c x = Inr r \<longleftrightarrow>
     CanonOptions_Validate (cz_options c) = None
     \<and> (\<exists>i. input c x = Inr i \<and> r = NewResult i (digest_of (co_HashAlgorithm (cz_options c)) (bi_bytes i)))"
  using input_kind by (auto simp: hash_input res_bind_Inr_iff Canonicalizer_Digest_Inr_iff)

lemma hash_succeeds:
  "CanonOptions_Validate (cz_options c) = None \<Longrightarrow> (\<exists>r. hash c x = Inr r) \<longleftrightarrow> (\<exists>i. input c x = Inr i)"
  using hash_Inr_iff by blast

text \<open>Equal canonical input gives equal digests.\<close>

lemma hash_cong:
  assumes "hash c x = Inr r" "hash c y = Inr s" "\<And>i j. input c x = Inr i \<Longrightarrow> input c y = Inr j \<Longrightarrow> bi_bytes i = bi_bytes j"
  shows "CanonResult_Digest r = CanonResult_Digest s"
proof -
  obtain i j where "input c x = Inr i" "input c y = Inr j"
    "r = NewResult i (digest_of (co_HashAlgorithm (cz_options c)) (bi_bytes i))"
    "s = NewResult j (digest_of (co_HashAlgorithm (cz_options c)) (bi_bytes j))"
    using assms(1,2) hash_Inr_iff by blast
  with assms(3) show ?thesis by (simp add: CanonResult_Digest_def NewResult_def)
qed

end

interpretation body_hash: hash_pipeline BodyHashInput BodyHash
proof unfold_locales
  show "bi_kind i = KindBodyHashInput \<or> bi_kind i = KindHeaderHashInput" if "BodyHashInput c x = Inr i" for c x i
    using BodyHashInput_Inr [OF that] by simp
qed (simp add: BodyHash_def)

lemma HeaderHashInput_kind: "HeaderHashInput c h = Inr i \<Longrightarrow> bi_kind i = KindHeaderHashInput"
  by (auto simp: HeaderHashInput_def Let_def res_bind_Inr_iff NewCanonicalBytes_valid split: if_splits)

interpretation header_hash: hash_pipeline HeaderHashInput HeaderHash
proof unfold_locales
  show "bi_kind i = KindBodyHashInput \<or> bi_kind i = KindHeaderHashInput" if "HeaderHashInput c x = Inr i" for c x i
    using HeaderHashInput_kind [OF that] by simp
qed (simp add: HeaderHash_def)

end
