(* ===== verification/Canonical_Properties.thy ===== *)
theory Canonical_Properties
  imports Canonical_Hash Rawmsg_Properties
begin

text \<open>
  The properties of the canonicalization layer (package \<open>internal/canonical\<close>), each with a concrete
  instance where it has hypotheses. The instances canonicalize a small parsed message.
\<close>

definition defaultCanonicalizer :: Canonicalizer where
  "defaultCanonicalizer = \<lparr>cz_options = DefaultCanonOptions\<rparr>"

lemma defaultCanonicalizer_New: "NewCanonicalizer [] = Inr defaultCanonicalizer"
  by (simp add: NewCanonicalizer_def Let_def DefaultCanonOptions_valid defaultCanonicalizer_def res_check_Inr_iff)

lemma defaultCanonicalizer_valid: "CanonOptions_Validate (cz_options defaultCanonicalizer) = None"
  by (simp add: defaultCanonicalizer_def DefaultCanonOptions_valid)

text \<open>The sample message again: other order, white space, an excluded field and a trailing empty line.\<close>

definition variantBytes :: bytes where
  "variantBytes = ''X-Z: q'' @ crlf @ ''c:  d '' @ crlf @ ''a:b'' @ crlf @ crlf @ ''hi'' @ crlf @ crlf"

definition sampleInputs :: "bytes \<Rightarrow> (bytes \<times> bytes) option" where
  "sampleInputs d =
     (case Parse d of
        Inl e \<Rightarrow> None
      | Inr m \<Rightarrow>
          (case (HeaderHashInput defaultCanonicalizer (msg_headers m), BodyHashInput defaultCanonicalizer (msg_body m)) of
             (Inr i, Inr j) \<Rightarrow> Some (bi_bytes i, bi_bytes j) | _ \<Rightarrow> None))"

lemma sampleInputs_Some:
  assumes "sampleInputs d = Some (x, y)"
  obtains m i j where "message_inv m" "header_block_inv (msg_headers m)" "msg_rawBytes m = d"
    "HeaderHashInput defaultCanonicalizer (msg_headers m) = Inr i" "bi_bytes i = x"
    "BodyHashInput defaultCanonicalizer (msg_body m) = Inr j" "bi_bytes j = y"
proof -
  obtain m i j where m: "Parse d = Inr m" "HeaderHashInput defaultCanonicalizer (msg_headers m) = Inr i"
    "BodyHashInput defaultCanonicalizer (msg_body m) = Inr j" "bi_bytes i = x" "bi_bytes j = y"
    using assms by (auto simp: sampleInputs_def split: sum.splits)
  then have "message_inv m" "msg_rawBytes m = d" by (simp_all add: Parse_def ParseWithOptions_Inr_iff)
  then show thesis using m that unfolding message_inv_def by blast
qed

lemma sampleInputs_values:
  "sampleInputs sampleBytes = Some (''a:b'' @ crlf @ ''c:d'' @ crlf, ''hi'' @ crlf)"
  "sampleInputs variantBytes = Some (''a:b'' @ crlf @ ''c:d'' @ crlf, ''hi'' @ crlf)"
  by code_simp+

section \<open>Header input\<close>

text \<open>
  C30: \<open>HeaderHashInput\<close> of a validated header block succeeds exactly when the included fields fit the
  limits, and then returns the included fields grouped by name in name order, the fields of one name
  bottom-up, with the counts of included and excluded fields adding up; it fails with a limit code.
\<close>

theorem header_input_exact:
  assumes "header_block_inv h" "CanonOptions_Validate (cz_options c) = None"
  shows "case HeaderHashInput c h of
      Inr i \<Rightarrow> header_fits (co_Limits (cz_options c)) h \<and> bi_kind i = KindHeaderHashInput
        \<and> bi_bytes i = header_input (filter included (hb_fields h))
        \<and> cm_IncludedFields (bi_metadata i) = int (length (filter included (hb_fields h)))
        \<and> cm_IncludedFields (bi_metadata i) + cm_ExcludedFields (bi_metadata i) = int (length (hb_fields h))
    | Inl e \<Rightarrow> \<not> header_fits (co_Limits (cz_options c)) h \<and> ce_code e = CanonErrorCodeLimitExceeded"
proof -
  have pos: "0 < MaxHeaderInputBytes (co_Limits (cz_options c))"
    using assms(2) by (simp add: CanonOptions_Validate_None_iff)
  note success = HeaderHashInput_success_iff [OF assms(1) pos]
  show ?thesis
  proof (cases "HeaderHashInput c h")
    case (Inl e)
    then show ?thesis using success HeaderHashInput_code [of h c e] assms(1) by auto
  next
    case (Inr i)
    then show ?thesis using success HeaderHashInput_Inr [OF Inr assms(1)] by (auto simp: header_octets_def)
  qed
qed

theorem header_input_exact_witness:
  "\<exists>h i. header_block_inv h \<and> HeaderHashInput defaultCanonicalizer h = Inr i
     \<and> header_input (filter included (hb_fields h)) = ''a:b'' @ crlf @ ''c:d'' @ crlf"
proof -
  obtain m i j where m: "message_inv m" "header_block_inv (msg_headers m)" "msg_rawBytes m = variantBytes"
    "HeaderHashInput defaultCanonicalizer (msg_headers m) = Inr i" "bi_bytes i = ''a:b'' @ crlf @ ''c:d'' @ crlf"
    "BodyHashInput defaultCanonicalizer (msg_body m) = Inr j" "bi_bytes j = ''hi'' @ crlf"
    by (rule sampleInputs_Some [OF sampleInputs_values(2)])
  from header_input_exact [OF m(2) defaultCanonicalizer_valid] m show ?thesis by auto
qed

text \<open>
  C29: Two validated header blocks have the same hash input exactly when every name that is not
  excluded has the same values in the same order up to white space: excluded fields, the order of
  different names, letter case of names, folding and white space do not matter, and nothing else is
  lost.
\<close>

theorem header_input_kernel:
  assumes "header_block_inv h" "header_block_inv h'"
    and "HeaderHashInput c h = Inr i" "HeaderHashInput c h' = Inr i'"
  shows "bi_bytes i = bi_bytes i' \<longleftrightarrow>
     (\<forall>n. excludedHeaderKindForName n = excludedHeaderNone \<longrightarrow>
        name_words (hb_fields h) n = name_words (hb_fields h') n)"
  using HeaderHashInput_Inr [OF assms(3,1)] HeaderHashInput_Inr [OF assms(4,2)]
    header_octets_eq_iff [OF assms(1,2)] by (simp add: signed_words_relevant)

theorem header_input_kernel_witness:
  "\<exists>(m :: Message) (m' :: Message). msg_rawBytes m = sampleBytes \<and> msg_rawBytes m' = variantBytes
     \<and> (\<forall>n. excludedHeaderKindForName n = excludedHeaderNone \<longrightarrow>
          name_words (hb_fields (msg_headers m)) n = name_words (hb_fields (msg_headers m')) n)"
proof -
  obtain m i j where m: "message_inv m" "header_block_inv (msg_headers m)" "msg_rawBytes m = sampleBytes"
    "HeaderHashInput defaultCanonicalizer (msg_headers m) = Inr i" "bi_bytes i = ''a:b'' @ crlf @ ''c:d'' @ crlf"
    "BodyHashInput defaultCanonicalizer (msg_body m) = Inr j" "bi_bytes j = ''hi'' @ crlf"
    by (rule sampleInputs_Some [OF sampleInputs_values(1)])
  obtain m' i' j' where m': "message_inv m'" "header_block_inv (msg_headers m')" "msg_rawBytes m' = variantBytes"
    "HeaderHashInput defaultCanonicalizer (msg_headers m') = Inr i'" "bi_bytes i' = ''a:b'' @ crlf @ ''c:d'' @ crlf"
    "BodyHashInput defaultCanonicalizer (msg_body m') = Inr j'" "bi_bytes j' = ''hi'' @ crlf"
    by (rule sampleInputs_Some [OF sampleInputs_values(2)])
  have "bi_bytes i = bi_bytes i'" using m(5) m'(5) by simp
  with header_input_kernel [OF m(2) m'(2) m(4) m'(4)] m(3) m'(3) show ?thesis by blast
qed

text \<open>
  The canonical form of one field is the lowercase name, a colon, the words of the value joined
  by single spaces and one CRLF.
\<close>

lemma header_field_words:
  "canonicalizeHeaderFieldBytes n v = n @ CHR '':'' # join_sp (wsp_words v) @ crlf"
  using canonical_value_words [of v] by (simp add: canonicalizeHeaderFieldBytes_def canonical_value_def crlf_def)

text \<open>
  Sorting the records is a permutation in name order with the fields of one name bottom-up, so
  the order does not depend on how the sort treats equal elements.
\<close>

lemma header_sort_exact:
  assumes "sorted_wrt (<) (map hr_originalIndex rs)"
  shows "mset (sortHeaderFieldRecords rs) = mset rs \<and> sorted (map hr_nameLower (sortHeaderFieldRecords rs))
     \<and> (\<forall>n. filter (\<lambda>r. hr_nameLower r = n) (sortHeaderFieldRecords rs) = rev (filter (\<lambda>r. hr_nameLower r = n) rs))"
  unfolding sortHeaderFieldRecords_def
  using header_order.SliceStable_mset [of rs] sorted_names [OF header_order.SliceStable_sorted] sort_group [OF assms]
  by blast

lemma header_sort_exact_example:
  "sorted (map hr_nameLower (sortHeaderFieldRecords
     [\<lparr>hr_nameLower = ''to'', hr_originalIndex = 0, hr_canonicalBytes = []\<rparr>,
      \<lparr>hr_nameLower = ''from'', hr_originalIndex = 1, hr_canonicalBytes = []\<rparr>]))"
  using header_sort_exact [of "[\<lparr>hr_nameLower = ''to'', hr_originalIndex = 0, hr_canonicalBytes = []\<rparr>,
      \<lparr>hr_nameLower = ''from'', hr_originalIndex = 1, hr_canonicalBytes = []\<rparr>]"] by simp

text \<open>
  The relevance classifier used by recipe code answers for every validated field exactly as the
  header hash selects it, and rejects names that are not canonical lowercase.
\<close>

lemma relevance_agrees:
  "(header_field_inv f \<longrightarrow> IsRelevantHeader NewHeaderRelevance (hf_nameLower f)
       = Inr (\<not> snd (countExcludedHeader (hf_nameLower f) counts)))
   \<and> ((\<exists>b. IsRelevantHeader NewHeaderRelevance n = Inr b) \<longleftrightarrow> validHeaderFieldName n \<and> lowerASCII n = n)"
  using IsRelevantHeader_included [of f] IsRelevantHeader_iff [of n]
  by (auto simp: countExcludedHeader_flag included_def)

lemma relevance_agrees_example:
  "(\<exists>f. header_field_inv f \<and> IsRelevantHeader NewHeaderRelevance (hf_nameLower f)
       = Inr (\<not> snd (countExcludedHeader (hf_nameLower f) zeroExcludedCounts)))"
proof -
  have "\<not> isl (NewHeaderField 0 ''X-Y'' '' z'' '' z'' ([CHR ''X'', CHR ''-'', CHR ''Y'', CHR '':'', SP, CHR ''z'', CR, LF]))"
    by code_simp
  then obtain f where "NewHeaderField 0 ''X-Y'' '' z'' '' z'' ([CHR ''X'', CHR ''-'', CHR ''Y'', CHR '':'', SP, CHR ''z'', CR, LF]) = Inr f"
    by (cases "NewHeaderField 0 ''X-Y'' '' z'' '' z'' ([CHR ''X'', CHR ''-'', CHR ''Y'', CHR '':'', SP, CHR ''z'', CR, LF])") auto
  then have "header_field_inv f" by (rule NewHeaderField_inv)
  with relevance_agrees [of f zeroExcludedCounts "''x''"] show ?thesis by blast
qed

section \<open>Body input\<close>

text \<open>
  C40: \<open>BodyHashInput\<close> succeeds exactly on an initialised body whose canonical form fits, and returns
  the body without its trailing CRLFs followed by one CRLF.
\<close>

theorem body_input_exact:
  "case BodyHashInput c b of
      Inr i \<Rightarrow> bd_initialized b \<and> bi_kind i = KindBodyHashInput
        \<and> bi_bytes i = rstrip_crlf (bd_bytes b) @ crlf
        \<and> int (length (bi_bytes i)) \<le> MaxBodyInputBytes (co_Limits (cz_options c))
    | Inl e \<Rightarrow> (if bd_initialized b
        then ce_code e = CanonErrorCodeLimitExceeded
          \<and> MaxBodyInputBytes (co_Limits (cz_options c)) < int (length (rstrip_crlf (bd_bytes b) @ crlf))
        else ce_code e = CanonErrorCodeMalformedState)"
proof -
  have "fst (canonicalizeBodyBytes (bd_bytes b)) = rstrip_crlf (bd_bytes b) @ crlf"
    using canonicalizeBodyBytes_bytes [of "bd_bytes b"] by (simp add: canonical_body_def)
  then show ?thesis
    by (auto simp: BodyHashInput_def Let_def NewCanonicalBytes_valid bodyLimitExceededError_def
        split: prod.splits if_splits)
qed

text \<open>
  Two bodies have the same hash input exactly when they differ in trailing CRLFs only.
\<close>

lemma body_input_kernel:
  assumes "BodyHashInput c b = Inr i" "BodyHashInput c b' = Inr i'"
  shows "bi_bytes i = bi_bytes i' \<longleftrightarrow> rstrip_crlf (bd_bytes b) = rstrip_crlf (bd_bytes b')"
  using BodyHashInput_Inr [OF assms(1)] BodyHashInput_Inr [OF assms(2)] by (simp add: canonical_body_eq_iff)

lemma body_input_kernel_example:
  "\<exists>(m :: Message) (m' :: Message). msg_rawBytes m = sampleBytes \<and> msg_rawBytes m' = variantBytes
     \<and> rstrip_crlf (bd_bytes (msg_body m)) = rstrip_crlf (bd_bytes (msg_body m'))"
proof -
  obtain m i j where m: "message_inv m" "header_block_inv (msg_headers m)" "msg_rawBytes m = sampleBytes"
    "HeaderHashInput defaultCanonicalizer (msg_headers m) = Inr i" "bi_bytes i = ''a:b'' @ crlf @ ''c:d'' @ crlf"
    "BodyHashInput defaultCanonicalizer (msg_body m) = Inr j" "bi_bytes j = ''hi'' @ crlf"
    by (rule sampleInputs_Some [OF sampleInputs_values(1)])
  obtain m' i' j' where m': "message_inv m'" "header_block_inv (msg_headers m')" "msg_rawBytes m' = variantBytes"
    "HeaderHashInput defaultCanonicalizer (msg_headers m') = Inr i'" "bi_bytes i' = ''a:b'' @ crlf @ ''c:d'' @ crlf"
    "BodyHashInput defaultCanonicalizer (msg_body m') = Inr j'" "bi_bytes j' = ''hi'' @ crlf"
    by (rule sampleInputs_Some [OF sampleInputs_values(2)])
  have "bi_bytes j = bi_bytes j'" using m(7) m'(7) by simp
  with body_input_kernel [OF m(6) m'(6)] m(3) m'(3) show ?thesis by blast
qed

text \<open>
  The recorded terminal action tells how the body was changed: preserved exactly when nothing
  changed, appended exactly when the terminator was missing, collapsed exactly when lines were
  removed, and the removed count is exact.
\<close>

lemma body_action_exact:
  assumes "canonicalizeBodyBytes b = (c, k, a)"
  shows "(a = BodyTerminalActionPreserved \<longleftrightarrow> c = b)
     \<and> (a = BodyTerminalActionAppended \<longleftrightarrow> \<not> HasSuffix b crlf)
     \<and> (a = BodyTerminalActionCollapsed \<longleftrightarrow> 0 < k)
     \<and> (if HasSuffix b crlf then b = c @ concat (replicate k crlf) else c = b @ crlf \<and> k = 0)"
  using assms by (rule canonicalizeBodyBytes_action)

lemma body_action_exact_example:
  "\<exists>c k a. canonicalizeBodyBytes [CHR ''x'', CR, LF, CR, LF] = (c, k, a) \<and>
     (a = BodyTerminalActionCollapsed \<longleftrightarrow> 0 < k)"
proof -
  obtain c k a where "canonicalizeBodyBytes [CHR ''x'', CR, LF, CR, LF] = (c, k, a)" by (metis prod_cases3)
  from this body_action_exact [OF this] show ?thesis by blast
qed

section \<open>Digests\<close>

text \<open>
  A body or header hash is the selected SHA-2 sum of the canonical input, with the size of the
  algorithm and a Base64 text that decodes to it; it fails only when the input does or the options
  are invalid.
\<close>

lemma hash_exact:
  "(BodyHash c b = Inr r \<longleftrightarrow> CanonOptions_Validate (cz_options c) = None
      \<and> (\<exists>i. BodyHashInput c b = Inr i \<and> r = NewResult i (digest_of (co_HashAlgorithm (cz_options c)) (bi_bytes i))))
   \<and> (HeaderHash c h = Inr s \<longleftrightarrow> CanonOptions_Validate (cz_options c) = None
      \<and> (\<exists>i. HeaderHashInput c h = Inr i \<and> s = NewResult i (digest_of (co_HashAlgorithm (cz_options c)) (bi_bytes i))))
   \<and> Decode (dg_base64 (digest_of a x)) = Some (sum_for a x)"
  using body_hash.hash_Inr_iff header_hash.hash_Inr_iff digest_of_decodes [of a x] by (simp add: digest_of_def)

text \<open>
  The two digest methods are for disjoint purposes: input that \<open>Digest\<close> accepts is refused by
  \<open>SHA256Digest\<close>, and a signature input has exactly the SHA-256 sum.
\<close>

lemma digest_purposes:
  "(SHA256Digest c i = Inr d \<longleftrightarrow> CanonOptions_Validate (cz_options c) = None
      \<and> bi_kind i = KindSignatureInput \<and> d = digest_of HashAlgorithmSHA256 (bi_bytes i))
   \<and> \<not> ((\<exists>d. Canonicalizer_Digest c i = Inr d) \<and> (\<exists>d. SHA256Digest c' i = Inr d))"
  using SHA256Digest_Inr_iff digest_purposes_disjoint by blast

end
