(* ===== verification/Message_Hashing.thy ===== *)
theory Message_Hashing
  imports Canonical_Properties
begin

text \<open>
  How the raw-message layer and canonicalization interact: what a header field contributes to the hash
  input is a function of its octets, so inserting excluded trace fields leaves both hashes unchanged,
  and every message the parser accepts under the default limits can be hashed under the default
  canonicalization limits.
\<close>

section \<open>Fields as octets\<close>

definition octets_name :: "bytes \<Rightarrow> bytes" where
  "octets_name e = takeWhile (\<lambda>b. b \<noteq> CHR '':'') e"

definition octets_words :: "bytes \<Rightarrow> bytes \<times> bytes list" where
  "octets_words e = (lowerASCII (octets_name e),
     wsp_words (filter (\<lambda>b. b \<noteq> CR \<and> b \<noteq> LF) (tl (dropWhile (\<lambda>b. b \<noteq> CHR '':'') e))))"

definition excluded_octets :: "bytes \<Rightarrow> bool" where
  "excluded_octets e \<longleftrightarrow> excludedHeaderKindForName (lowerASCII (octets_name e)) \<noteq> excludedHeaderNone"

lemma field_words_octets:
  assumes "header_field_inv f"
  shows "field_words f = octets_words (hf_originalBytes f)"
proof -
  have f: "hf_originalBytes f = hf_rawName f @ CHR '':'' # hf_rawValue f @ crlf"
    and "validHeaderFieldName (hf_rawName f)" "validHeaderFieldValue (hf_rawValue f)"
    and "hf_nameLower f = lowerASCII (hf_rawName f)" "hf_unfoldedValue f = unfoldHeaderValue (hf_rawValue f)"
    using assms by (simp_all add: header_field_inv_def)
  moreover from this have "\<forall>b \<in> set (hf_rawName f). b \<noteq> CHR '':''"
    using validHeaderFieldName_no_specials(3) by blast
  then have "takeWhile (\<lambda>b. b \<noteq> CHR '':'') (hf_originalBytes f) = hf_rawName f"
    "dropWhile (\<lambda>b. b \<noteq> CHR '':'') (hf_originalBytes f) = CHR '':'' # hf_rawValue f @ crlf"
    unfolding f by (simp_all add: takeWhile_append2 dropWhile_append2)
  moreover have "filter (\<lambda>b. b \<noteq> CR \<and> b \<noteq> LF) crlf = []" by (simp add: crlf_def)
  ultimately show ?thesis
    by (simp add: field_words_def octets_words_def octets_name_def unfoldHeaderValue_valid)
qed

lemma included_octets: "header_field_inv f \<Longrightarrow> included f \<longleftrightarrow> \<not> excluded_octets (hf_originalBytes f)"
  using field_words_octets [of f]
  by (simp add: included_def excluded_octets_def field_words_def octets_words_def)

lemma name_words_octets:
  assumes "\<forall>f \<in> set fs. header_field_inv f"
  shows "name_words fs n = map snd (filter (\<lambda>p. fst p = n) (map octets_words (map hf_originalBytes fs)))"
proof -
  have eq: "map octets_words (map hf_originalBytes fs) = map field_words fs"
    using assms field_words_octets by auto
  show ?thesis unfolding eq by (simp add: name_words_def filter_map o_def field_words_def)
qed

section \<open>Insertion and hashing\<close>

lemma prepended_signed_words:
  assumes "prepended es src m" "message_inv src" "\<forall>e \<in> set es. excluded_octets e"
  shows "signed_words (msg_headers m) = signed_words (msg_headers src)"
proof
  fix n
  have inv: "header_block_inv (msg_headers m)" "header_block_inv (msg_headers src)"
    and eq: "map hf_originalBytes (hb_fields (msg_headers m)) = es @ map hf_originalBytes (hb_fields (msg_headers src))"
    using assms(1,2) by (simp_all add: prepended_def message_inv_def)
  note fields = header_block_inv_fields [OF inv(1)] header_block_inv_fields [OF inv(2)]
  have "name_words (hb_fields (msg_headers m)) n =
      map snd (filter (\<lambda>p. fst p = n) (map octets_words es)) @ name_words (hb_fields (msg_headers src)) n"
    using fields eq by (simp add: name_words_octets)
  moreover have "filter (\<lambda>p. fst p = n) (map octets_words es) = []"
    if "excludedHeaderKindForName n = excludedHeaderNone"
    using that assms(3) by (auto simp: filter_empty_conv excluded_octets_def octets_words_def)
  ultimately show "signed_words (msg_headers m) n = signed_words (msg_headers src) n"
    by (simp add: signed_words_relevant)
qed

lemma prepended_header_octets:
  assumes "prepended es src m" "message_inv src" "\<forall>e \<in> set es. excluded_octets e"
  shows "header_octets (msg_headers m) = header_octets (msg_headers src)"
proof -
  have inv: "header_block_inv (msg_headers m)" "header_block_inv (msg_headers src)"
    using assms(1,2) by (simp_all add: prepended_def message_inv_def)
  from header_octets_eq_iff [OF this] prepended_signed_words [OF assms] show ?thesis by simp
qed

lemma prepended_header_fits:
  assumes "prepended es src m" "message_inv src" "\<forall>e \<in> set es. excluded_octets e"
    and "header_fits l (msg_headers m)"
  shows "header_fits l (msg_headers src)"
proof -
  have inv: "header_block_inv (msg_headers m)" "header_block_inv (msg_headers src)"
    and eq: "map hf_originalBytes (hb_fields (msg_headers m)) = es @ map hf_originalBytes (hb_fields (msg_headers src))"
    using assms(1,2) by (simp_all add: prepended_def message_inv_def)
  note fields = header_block_inv_fields [OF inv(1)] header_block_inv_fields [OF inv(2)]
  have "length (hb_fields (msg_headers src)) \<le> length (hb_fields (msg_headers m))"
    using arg_cong [OF eq, of length] by simp
  moreover have "int (length (field_bytes f)) \<le> MaxFieldBytes l"
    if f: "f \<in> set (hb_fields (msg_headers src))" "included f" for f
  proof -
    have "hf_originalBytes f \<in> set (map hf_originalBytes (hb_fields (msg_headers m)))" using f(1) eq by simp
    then obtain g where g: "g \<in> set (hb_fields (msg_headers m))" "hf_originalBytes g = hf_originalBytes f" by auto
    have "included g" "field_bytes g = field_bytes f"
      using g f fields included_octets field_words_octets by (auto simp: field_bytes_words)
    then show ?thesis using g(1) assms(4) by (auto simp: header_fits_def)
  qed
  ultimately show ?thesis
    using assms(4) prepended_header_octets [OF assms(1-3)] by (auto simp: header_fits_def)
qed

lemma HeaderHash_octets:
  assumes "header_block_inv h" "HeaderHash c h = Inr r"
  shows "CanonResult_Digest r = Some (digest_of (co_HashAlgorithm (cz_options c)) (header_octets h))"
proof -
  obtain i where "HeaderHashInput c h = Inr i"
    "r = NewResult i (digest_of (co_HashAlgorithm (cz_options c)) (bi_bytes i))"
    using assms(2) header_hash.hash_Inr_iff by blast
  with HeaderHashInput_Inr [OF _ assms(1)] show ?thesis by (simp add: CanonResult_Digest_def NewResult_def)
qed

lemma HeaderHash_success:
  assumes "header_block_inv h" "CanonOptions_Validate (cz_options c) = None" "header_fits (co_Limits (cz_options c)) h"
  obtains r where "HeaderHash c h = Inr r"
    "CanonResult_Digest r = Some (digest_of (co_HashAlgorithm (cz_options c)) (header_octets h))"
proof -
  have "0 < MaxHeaderInputBytes (co_Limits (cz_options c))"
    using assms(2) by (simp add: CanonOptions_Validate_None_iff)
  then obtain i where "HeaderHashInput c h = Inr i" using HeaderHashInput_success_iff assms by blast
  then obtain r where "HeaderHash c h = Inr r" using header_hash.hash_succeeds assms(2) by blast
  with HeaderHash_octets assms(1) show thesis using that by blast
qed

lemma prepended_header_hash:
  assumes "prepended es src m" "message_inv src" "\<forall>e \<in> set es. excluded_octets e"
    and "HeaderHashFromMessage c m = Inr a"
  shows "\<exists>b. HeaderHashFromMessage c src = Inr b \<and> CanonResult_Digest b = CanonResult_Digest a"
proof -
  have inv: "header_block_inv (msg_headers m)" "header_block_inv (msg_headers src)"
    using assms(1,2) by (simp_all add: prepended_def message_inv_def)
  have a: "HeaderHash c (msg_headers m) = Inr a" using assms(4) by (simp add: HeaderHashFromMessage_def)
  then have valid: "CanonOptions_Validate (cz_options c) = None"
    and "\<exists>i. HeaderHashInput c (msg_headers m) = Inr i" using header_hash.hash_Inr_iff by blast+
  moreover have "0 < MaxHeaderInputBytes (co_Limits (cz_options c))"
    using valid by (simp add: CanonOptions_Validate_None_iff)
  ultimately have "header_fits (co_Limits (cz_options c)) (msg_headers m)"
    using HeaderHashInput_success_iff [OF inv(1)] by blast
  then have "header_fits (co_Limits (cz_options c)) (msg_headers src)"
    by (rule prepended_header_fits [OF assms(1-3)])
  then obtain b where "HeaderHash c (msg_headers src) = Inr b"
    "CanonResult_Digest b = Some (digest_of (co_HashAlgorithm (cz_options c)) (header_octets (msg_headers src)))"
    using HeaderHash_success [OF inv(2) valid] by blast
  then show ?thesis
    using HeaderHash_octets [OF inv(1) a] prepended_header_octets [OF assms(1-3)]
    by (simp add: HeaderHashFromMessage_def)
qed

section \<open>Default limits\<close>

lemma message_fits_header:
  assumes "message_inv m" "message_fits DefaultParserOptions m"
  shows "header_fits DefaultCanonLimits (msg_headers m)"
proof -
  have inv: "header_block_inv (msg_headers m)" using assms(1) by (simp add: message_inv_def)
  have len: "int (length (hb_originalBytes (msg_headers m))) \<le> 1024 * 1024"
    and num: "int (length (hb_fields (msg_headers m))) \<le> 2000"
    and fit: "\<forall>f \<in> set (hb_fields (msg_headers m)). int (length (hf_originalBytes f)) \<le> 64 * 1024"
    using assms(2) by (simp_all add: message_fits_def block_fits_def field_fits_def DefaultParserOptions_def)
  have "int (length (field_bytes f)) \<le> 128 * 1024" if "f \<in> set (hb_fields (msg_headers m))" for f
    using length_field_bytes [OF header_block_inv_fields [OF inv that]] fit that by force
  then show ?thesis
    using header_octets_length [OF inv] len num by (simp add: header_fits_def DefaultCanonLimits_def)
qed

lemma rstrip_crlf_length: "length (rstrip_crlf b) \<le> length b"
proof (induction b rule: length_induct)
  case (1 b)
  show ?case
  proof (cases "HasSuffix b crlf")
    case True
    then obtain x where "b = x @ crlf" by (auto simp: HasSuffix_iff)
    with 1 show ?thesis by (simp add: le_SucI)
  qed simp
qed

lemma message_fits_body:
  assumes "message_inv m" "message_fits DefaultParserOptions m"
  shows "int (length (canonical_body (bd_bytes (msg_body m)))) \<le> MaxBodyInputBytes DefaultCanonLimits"
proof -
  have "length (bd_bytes (msg_body m)) = 0 \<or> length (bd_bytes (msg_body m)) + 2 \<le> length (msg_rawBytes m)"
    using assms(1) by (auto simp: message_inv_def)
  moreover have "int (length (msg_rawBytes m)) \<le> HardMaxMessageBytes"
    using assms(2) by (simp add: message_fits_def DefaultParserOptions_def)
  ultimately show ?thesis
    using rstrip_crlf_length [of "bd_bytes (msg_body m)"]
    by (auto simp: canonical_body_def DefaultCanonLimits_def HardMaxMessageBytes_def)
qed

end
