(* ===== verification/Go_Time.thy ===== *)
theory Go_Time
  imports Main "HOL-Library.Product_Lexorder" "HOL-Library.Signed_Division"
begin

text \<open>
  The part of the standard-library package \<open>time\<close> the sources use. A \<open>time.Time\<close> is its seconds since
  year one, a signed 64-bit count, and its nanoseconds within the second; monotonic readings, which
  only ever agree with this order inside one process, are left out. A \<open>time.Duration\<close> is a signed
  64-bit count of nanoseconds. \<open>Add\<close> saturates and \<open>Sub\<close> checks itself as in the library, so a caller's
  overflow guards can be judged.
\<close>

section \<open>Signed 64-bit integers\<close>

definition int64 :: "int \<Rightarrow> int" where
  "int64 x = (x + 2 ^ 63) mod 2 ^ 64 - 2 ^ 63"

definition MaxInt64 :: int where "MaxInt64 = 2 ^ 63 - 1"

definition fits64 :: "int \<Rightarrow> bool" where
  "fits64 x \<longleftrightarrow> - (2 ^ 63) \<le> x \<and> x < 2 ^ 63"

lemma int64_fits [simp]: "fits64 x \<Longrightarrow> int64 x = x"
  by (simp add: fits64_def int64_def)

lemma fits64_int64 [simp]: "fits64 (int64 x)"
  by (simp add: fits64_def int64_def)

section \<open>Times\<close>

type_synonym Duration = int

abbreviation Millisecond :: Duration where "Millisecond \<equiv> 1000000"
abbreviation Second :: Duration where "Second \<equiv> 1000000000"
abbreviation Hour :: Duration where "Hour \<equiv> 3600000000000"

record Time =
  t_sec :: int
  t_nsec :: int

definition zeroTime :: Time where
  "zeroTime = \<lparr>t_sec = 0, t_nsec = 0\<rparr>"

definition Time_IsZero :: "Time \<Rightarrow> bool" where
  "Time_IsZero t \<longleftrightarrow> t_sec t = 0 \<and> t_nsec t = 0"

definition Time_Before :: "Time \<Rightarrow> Time \<Rightarrow> bool" where
  "Time_Before t u \<longleftrightarrow> t_sec t < t_sec u \<or> t_sec t = t_sec u \<and> t_nsec t < t_nsec u"

definition Time_After :: "Time \<Rightarrow> Time \<Rightarrow> bool" where
  "Time_After t u \<longleftrightarrow> t_sec t > t_sec u \<or> t_sec t = t_sec u \<and> t_nsec t > t_nsec u"

definition Time_Equal :: "Time \<Rightarrow> Time \<Rightarrow> bool" where
  "Time_Equal t u \<longleftrightarrow> t_sec t = t_sec u \<and> t_nsec t = t_nsec u"

definition addSec :: "Time \<Rightarrow> int \<Rightarrow> Time" where
  "addSec t d =
     (let sum = int64 (t_sec t + d) in
      if (sum > t_sec t) = (d > 0) then t\<lparr>t_sec := sum\<rparr>
      else if d > 0 then t\<lparr>t_sec := MaxInt64\<rparr>
      else t\<lparr>t_sec := - MaxInt64\<rparr>)"

definition Time_Add :: "Time \<Rightarrow> Duration \<Rightarrow> Time" where
  "Time_Add t d =
     (let dsec = d sdiv Second; nsec = t_nsec t + d smod Second;
          (dsec, nsec) = (if nsec \<ge> Second then (dsec + 1, nsec - Second)
                          else if nsec < 0 then (dsec - 1, nsec + Second) else (dsec, nsec))
      in addSec (t\<lparr>t_nsec := nsec\<rparr>) dsec)"

definition Time_Sub :: "Time \<Rightarrow> Time \<Rightarrow> Duration" where
  "Time_Sub t u =
     (let d = int64 (int64 (int64 (t_sec t - t_sec u) * Second) + (t_nsec t - t_nsec u)) in
      if Time_Equal (Time_Add u d) t then d
      else if Time_Before t u then - (2 ^ 63) else MaxInt64)"

definition unixToInternal :: int where "unixToInternal = 62135596800"

definition Time_Unix :: "Time \<Rightarrow> int" where
  "Time_Unix t = int64 (t_sec t - unixToInternal)"

definition Time_UnixMilli :: "Time \<Rightarrow> int" where
  "Time_UnixMilli t = int64 (int64 (Time_Unix t * 1000) + t_nsec t div 1000000)"

definition time_UnixMilli :: "int \<Rightarrow> Time" where
  "time_UnixMilli msec =
     (let sec = msec sdiv 1000; nsec = (msec smod 1000) * 1000000;
          (sec, nsec) = (if nsec < 0 then (sec - 1, nsec + Second) else (sec, nsec))
      in \<lparr>t_sec = int64 (sec + unixToInternal), t_nsec = nsec\<rparr>)"

section \<open>Order and arithmetic\<close>

text \<open>Times compare as pairs; a valid time has its seconds in range and less than a second of rest.\<close>

definition time_key :: "Time \<Rightarrow> int \<times> int" where
  "time_key t = (t_sec t, t_nsec t)"

definition time_valid :: "Time \<Rightarrow> bool" where
  "time_valid t \<longleftrightarrow> fits64 (t_sec t) \<and> 0 \<le> t_nsec t \<and> t_nsec t < Second"

lemma Time_Before_key: "Time_Before t u \<longleftrightarrow> time_key t < time_key u"
  by (auto simp: Time_Before_def time_key_def less_prod_def)

lemma Time_After_key: "Time_After t u \<longleftrightarrow> time_key u < time_key t"
  by (auto simp: Time_After_def time_key_def less_prod_def)

lemma Time_Equal_key: "Time_Equal t u \<longleftrightarrow> time_key t = time_key u"
  by (auto simp: Time_Equal_def time_key_def)

lemma Time_Equal_eq: "Time_Equal t u \<longleftrightarrow> t = u" for t u :: Time
  by (auto simp: Time_Equal_def)

text \<open>The nanoseconds since year one, over which addition is plain addition.\<close>

definition time_ns :: "Time \<Rightarrow> int" where
  "time_ns t = t_sec t * Second + t_nsec t"

lemma time_key_ns:
  assumes "time_valid t" "time_valid u"
  shows "time_key t < time_key u \<longleftrightarrow> time_ns t < time_ns u"
  using assms by (auto simp: time_key_def time_ns_def time_valid_def less_prod_def)

lemma time_ns_parts: "time_valid t \<Longrightarrow> time_ns t div Second = t_sec t \<and> time_ns t mod Second = t_nsec t"
  by (simp add: time_ns_def time_valid_def)

lemma time_ns_inject: "time_valid t \<Longrightarrow> time_valid u \<Longrightarrow> time_ns t = time_ns u \<Longrightarrow> t = u" for t u :: Time
  using time_ns_parts unfolding Time_Equal_eq [symmetric] Time_Equal_def by metis

text \<open>\<open>Add\<close> of a non-negative duration is exact unless it saturates.\<close>

lemma Time_Add_exact:
  assumes "time_valid t" "0 \<le> d" "fits64 ((time_ns t + d) div Second)"
  shows "time_valid (Time_Add t d) \<and> time_ns (Time_Add t d) = time_ns t + d"
proof -
  have dm: "d sdiv Second = d div Second" "d smod Second = d mod Second"
    using assms(2) by (cases "d = 0"; simp add: signed_divide_int_def signed_modulo_int_def sgn_if
        minus_mult_div_eq_mod [symmetric] mult.commute)+
  obtain q r where q: "d div Second = q" and r: "d mod Second = r" "0 \<le> r" "r < Second" "0 \<le> q"
    using assms(2) by (simp add: pos_imp_zdiv_nonneg_iff)
  have d: "d = q * Second + r" using q r by (metis div_mult_mod_eq)
  have n: "0 \<le> t_nsec t" "t_nsec t < Second" "fits64 (t_sec t)" using assms(1) by (auto simp: time_valid_def)
  define c where "c = (if t_nsec t + r \<ge> Second then 1 else 0 :: int)"
  have "time_ns t + d = (t_nsec t + r) + (t_sec t + q) * Second" by (simp add: time_ns_def d algebra_simps)
  moreover have "(t_nsec t + r) div Second = c" using n r by (auto simp: c_def div_pos_geq)
  ultimately have sum: "(time_ns t + d) div Second = t_sec t + q + c" by simp
  have add: "Time_Add t d = t\<lparr>t_nsec := t_nsec t + r - c * Second, t_sec := t_sec t + q + c\<rparr>"
  proof -
    have "int64 (t_sec t + (q + c)) = t_sec t + (q + c)" using assms(3) unfolding sum by (simp add: add.assoc)
    moreover have "0 \<le> c" by (simp add: c_def)
    ultimately have "addSec (t\<lparr>t_nsec := x\<rparr>) (q + c) = t\<lparr>t_nsec := x, t_sec := t_sec t + (q + c)\<rparr>" for x
      using r(4) by (auto simp: addSec_def Let_def)
    then show ?thesis using n r by (auto simp: Time_Add_def Let_def dm q r(1) c_def add.assoc)
  qed
  show ?thesis unfolding add using assms(3) n r unfolding sum
    by (auto simp: time_valid_def time_ns_def d c_def algebra_simps)
qed

end
