(* ===== verification/Replay_Base.thy ===== *)
theory Replay_Base
  imports Go_Bytes Go_Time
begin

text \<open>
  The vocabulary of package \<open>internal/replay\<close>: errors and contexts (\<open>errors.go\<close>), closed outcomes
  (\<open>enums.go\<close>, \<open>propagation.go\<close>), limits (\<open>limits.go\<close>), retention and lease periods
  (\<open>retention.go\<close>, \<open>propagation.go\<close>) and opaque keys (\<open>contracts.go\<close>). Text rendering and the
  serialization methods, which only refuse, are left out.
\<close>

section \<open>Errors (\<open>errors.go\<close>)\<close>

datatype ReplayErrorCode =
    ReplayInvalidRequest
  | ReplayMisconfigured
  | ReplayLimitExceeded
  | ReplayUnavailable
  | ReplayIndeterminate
  | ReplayInconsistent
  | ReplayCancelled
  | ReplayDeadlineExceeded
  | ReplayClosed
  | ReplayInternalInvariant
  | ReplayErrorOther string

definition ReplayErrorCode_Known :: "ReplayErrorCode \<Rightarrow> bool" where
  "ReplayErrorCode_Known c = (case c of ReplayErrorOther s \<Rightarrow> False | _ \<Rightarrow> True)"

datatype ContextCause = CauseCanceled | CauseDeadlineExceeded

record ReplayError =
  re_code :: ReplayErrorCode
  re_cause :: "ContextCause option"

definition NewReplayError :: "ReplayErrorCode \<Rightarrow> ReplayError" where
  "NewReplayError code =
     (let code = (if \<not> ReplayErrorCode_Known code then ReplayInternalInvariant else code) in
      case code of
        ReplayCancelled \<Rightarrow> \<lparr>re_code = code, re_cause = Some CauseCanceled\<rparr>
      | ReplayDeadlineExceeded \<Rightarrow> \<lparr>re_code = code, re_cause = Some CauseDeadlineExceeded\<rparr>
      | _ \<Rightarrow> \<lparr>re_code = code, re_cause = None\<rparr>)"

text \<open>A nil error pointer is \<open>None\<close>.\<close>

definition ReplayError_valid :: "ReplayError option \<Rightarrow> bool" where
  "ReplayError_valid e =
     (case e of
        None \<Rightarrow> False
      | Some x \<Rightarrow>
          if \<not> ReplayErrorCode_Known (re_code x) then False
          else (case re_code x of
                  ReplayCancelled \<Rightarrow> re_cause x = Some CauseCanceled
                | ReplayDeadlineExceeded \<Rightarrow> re_cause x = Some CauseDeadlineExceeded
                | _ \<Rightarrow> re_cause x = None))"

definition ReplayError_Code :: "ReplayError option \<Rightarrow> ReplayErrorCode" where
  "ReplayError_Code e =
     (case e of
        None \<Rightarrow> ReplayInternalInvariant
      | Some x \<Rightarrow> if \<not> ReplayError_valid e then ReplayInternalInvariant else re_code x)"

definition ReplayError_Unwrap :: "ReplayError option \<Rightarrow> ContextCause option" where
  "ReplayError_Unwrap e =
     (case e of
        None \<Rightarrow> None
      | Some x \<Rightarrow> if \<not> ReplayError_valid e then None else re_cause x)"

text \<open>What one look at a context shows: absent, or the value of \<open>Err\<close>, which may panic.\<close>

datatype Context =
    ContextNil
  | ContextLive
  | ContextCanceled
  | ContextDeadline
  | ContextOther
  | ContextPanics

definition PreflightContext :: "Context \<Rightarrow> ReplayError option" where
  "PreflightContext ctx =
     (case ctx of
        ContextNil \<Rightarrow> Some (NewReplayError ReplayInvalidRequest)
      | ContextLive \<Rightarrow> None
      | ContextCanceled \<Rightarrow> Some (NewReplayError ReplayCancelled)
      | ContextDeadline \<Rightarrow> Some (NewReplayError ReplayDeadlineExceeded)
      | ContextOther \<Rightarrow> Some (NewReplayError ReplayInternalInvariant)
      | ContextPanics \<Rightarrow> Some (NewReplayError ReplayInternalInvariant))"

lemma re_code_NewReplayError [simp]:
  "ReplayErrorCode_Known c \<Longrightarrow> re_code (NewReplayError c) = c"
  by (simp add: NewReplayError_def Let_def split: ReplayErrorCode.split)

lemma ReplayErrorCode_Known_simps [simp]:
  "ReplayErrorCode_Known ReplayInvalidRequest" "ReplayErrorCode_Known ReplayMisconfigured"
  "ReplayErrorCode_Known ReplayLimitExceeded" "ReplayErrorCode_Known ReplayUnavailable"
  "ReplayErrorCode_Known ReplayIndeterminate" "ReplayErrorCode_Known ReplayInconsistent"
  "ReplayErrorCode_Known ReplayCancelled" "ReplayErrorCode_Known ReplayDeadlineExceeded"
  "ReplayErrorCode_Known ReplayClosed" "ReplayErrorCode_Known ReplayInternalInvariant"
  "\<not> ReplayErrorCode_Known (ReplayErrorOther s)"
  by (simp_all add: ReplayErrorCode_Known_def)

text \<open>Every constructed error is a member of the closed taxonomy.\<close>

lemma NewReplayError_valid: "ReplayError_valid (Some (NewReplayError c))"
  by (cases c) (simp_all add: ReplayError_valid_def NewReplayError_def)

lemma PreflightContext_None_iff [simp]: "PreflightContext ctx = None \<longleftrightarrow> ctx = ContextLive"
  by (simp add: PreflightContext_def split: Context.split)

lemma PreflightContext_Live [simp]: "PreflightContext ContextLive = None"
  by simp

section \<open>Outcomes (\<open>enums.go\<close>, \<open>propagation.go\<close>)\<close>

text \<open>Go's zero value of an outcome, returned beside an error, is outside the vocabulary.\<close>

datatype Check = CheckFirstSeen | CheckReplayed | CheckDisabled

datatype StoreState = StoreUnset | StoreReady | StoreDegraded | StoreDisabled | StoreClosing | StoreClosed

definition StoreState_Known :: "StoreState \<Rightarrow> bool" where
  "StoreState_Known s \<longleftrightarrow> s \<noteq> StoreUnset"

datatype PropagationState = PropagationStateUnset | PropagationStatePending | PropagationStateCommitted

definition PropagationState_Known :: "PropagationState \<Rightarrow> bool" where
  "PropagationState_Known s \<longleftrightarrow> s = PropagationStatePending \<or> s = PropagationStateCommitted"

datatype PropagationReservation =
    PropagationReserved | PropagationPending | PropagationAlreadyCommitted | PropagationReservationDisabled

datatype PropagationCommit =
    PropagationCommitted | PropagationCommitUnresolved | PropagationCommitDisabled

text \<open>The pair of results of a store call: \<open>None\<close> is the zero check, and an error may be foreign.\<close>

datatype GoError = Typed ReplayError | Foreign

definition IsTypedError :: "GoError \<Rightarrow> bool" where
  "IsTypedError e = (case e of Typed x \<Rightarrow> ReplayError_valid (Some x) | Foreign \<Rightarrow> False)"

definition ErrorCodeOf :: "GoError \<Rightarrow> ReplayErrorCode" where
  "ErrorCodeOf e =
     (case e of
        Typed x \<Rightarrow> if \<not> ReplayError_valid (Some x) then ReplayInternalInvariant else re_code x
      | Foreign \<Rightarrow> ReplayInternalInvariant)"

definition ValidateCheckOutcome :: "Check option \<Rightarrow> GoError option \<Rightarrow> ReplayError option" where
  "ValidateCheckOutcome check err =
     (case err of
        None \<Rightarrow> if check \<noteq> None then None else Some (NewReplayError ReplayInternalInvariant)
      | Some e \<Rightarrow> if check \<noteq> None \<or> \<not> IsTypedError e then Some (NewReplayError ReplayInternalInvariant)
                  else None)"

section \<open>Limits (\<open>limits.go\<close>)\<close>

record ReplayLimits =
  rl_MaxEntries :: int
  rl_MaxWaiters :: int
  rl_PruneBudget :: int
  rl_MaxInFlight :: int
  rl_MaxAdmissionWaiters :: int

definition DefaultReplayLimits :: ReplayLimits where
  "DefaultReplayLimits = \<lparr>rl_MaxEntries = 65536, rl_MaxWaiters = 1024, rl_PruneBudget = 4096,
     rl_MaxInFlight = 1024, rl_MaxAdmissionWaiters = 1024\<rparr>"

definition HardReplayLimits :: ReplayLimits where
  "HardReplayLimits = \<lparr>rl_MaxEntries = 1048576, rl_MaxWaiters = 65536, rl_PruneBudget = 65536,
     rl_MaxInFlight = 65536, rl_MaxAdmissionWaiters = 65536\<rparr>"

definition ReplayLimits_Validate :: "ReplayLimits \<Rightarrow> ReplayError option" where
  "ReplayLimits_Validate l =
     (if \<exists>(v, m) \<in> set [(rl_MaxEntries l, rl_MaxEntries HardReplayLimits),
           (rl_MaxWaiters l, rl_MaxWaiters HardReplayLimits),
           (rl_PruneBudget l, rl_PruneBudget HardReplayLimits),
           (rl_MaxInFlight l, rl_MaxInFlight HardReplayLimits),
           (rl_MaxAdmissionWaiters l, rl_MaxAdmissionWaiters HardReplayLimits)]. v \<le> 0 \<or> v > m
      then Some (NewReplayError ReplayMisconfigured) else None)"

definition ResolveReplayLimits :: "ReplayLimits \<Rightarrow> (ReplayError, ReplayLimits) result" where
  "ResolveReplayLimits config =
     (let d = DefaultReplayLimits;
          pick = (\<lambda>v def. if v = 0 then def else v);
          config = \<lparr>rl_MaxEntries = pick (rl_MaxEntries config) (rl_MaxEntries d),
             rl_MaxWaiters = pick (rl_MaxWaiters config) (rl_MaxWaiters d),
             rl_PruneBudget = pick (rl_PruneBudget config) (rl_PruneBudget d),
             rl_MaxInFlight = pick (rl_MaxInFlight config) (rl_MaxInFlight d),
             rl_MaxAdmissionWaiters = pick (rl_MaxAdmissionWaiters config) (rl_MaxAdmissionWaiters d)\<rparr>
      in res_check (ReplayLimits_Validate config) (Inr config))"

lemma ReplayLimits_Validate_None_iff:
  "ReplayLimits_Validate l = None \<longleftrightarrow>
     0 < rl_MaxEntries l \<and> rl_MaxEntries l \<le> 1048576 \<and> 0 < rl_MaxWaiters l \<and> rl_MaxWaiters l \<le> 65536
     \<and> 0 < rl_PruneBudget l \<and> rl_PruneBudget l \<le> 65536 \<and> 0 < rl_MaxInFlight l \<and> rl_MaxInFlight l \<le> 65536
     \<and> 0 < rl_MaxAdmissionWaiters l \<and> rl_MaxAdmissionWaiters l \<le> 65536"
  by (auto simp: ReplayLimits_Validate_def HardReplayLimits_def)

lemma ResolveReplayLimits_valid: "ResolveReplayLimits config = Inr l \<Longrightarrow> ReplayLimits_Validate l = None"
  by (auto simp: ResolveReplayLimits_def Let_def res_check_Inr_iff)

section \<open>Retention and lease (\<open>retention.go\<close>, \<open>propagation.go\<close>)\<close>

record Retention =
  rt_milliseconds :: int

definition NewRetention :: "Duration \<Rightarrow> (ReplayError, Retention) result" where
  "NewRetention duration =
     (if duration < Second \<or> duration > 30 * 24 * Hour \<or> duration smod Millisecond \<noteq> 0
      then Inl (NewReplayError ReplayInvalidRequest)
      else
        (let milliseconds = duration sdiv Millisecond in
         if milliseconds \<le> 0 \<or> int64 (milliseconds * Millisecond) \<noteq> duration
         then Inl (NewReplayError ReplayInvalidRequest)
         else Inr \<lparr>rt_milliseconds = milliseconds\<rparr>))"

definition Retention_Duration :: "Retention \<Rightarrow> Duration" where
  "Retention_Duration r =
     (if rt_milliseconds r \<le> 0 \<or> rt_milliseconds r > MaxInt64 sdiv Millisecond then 0
      else
        (let duration = int64 (rt_milliseconds r * Millisecond) in
         if duration sdiv Millisecond \<noteq> rt_milliseconds r then 0 else duration))"

definition Retention_Valid :: "Retention \<Rightarrow> bool" where
  "Retention_Valid r \<longleftrightarrow> \<not> isl (NewRetention (Retention_Duration r))"

text \<open>\<open>None\<close> is the panic on an invalid constant.\<close>

definition DefaultRetention :: "Retention option" where
  "DefaultRetention = (case NewRetention (14 * 24 * Hour) of Inr r \<Rightarrow> Some r | Inl e \<Rightarrow> None)"

definition Retention_Milliseconds :: "Retention \<Rightarrow> int" where
  "Retention_Milliseconds r = (if \<not> Retention_Valid r then 0 else rt_milliseconds r)"

text \<open>\<open>AddTo\<close>: the guard on the Unix seconds, then the checks after the addition.\<close>

definition Retention_AddTo :: "Retention \<Rightarrow> Time \<Rightarrow> (ReplayError, Time) result" where
  "Retention_AddTo r now =
     (if \<not> Retention_Valid r then Inl (NewReplayError ReplayInvalidRequest)
      else if Time_IsZero now then Inl (NewReplayError ReplayInternalInvariant)
      else
        (let duration = Retention_Duration r;
             addSeconds = duration sdiv Second;
             addNanoseconds = duration smod Second;
             addSeconds = (if t_nsec now + addNanoseconds \<ge> Second then addSeconds + 1 else addSeconds) in
         if Time_Unix now > MaxInt64 - addSeconds then Inl (NewReplayError ReplayInternalInvariant)
         else
           (let expiry = Time_Add now duration in
            if \<not> Time_After expiry now \<or> Time_Sub expiry now \<noteq> duration
            then Inl (NewReplayError ReplayInternalInvariant) else Inr expiry)))"

record Lease =
  ls_milliseconds :: int

definition NewLease :: "Duration \<Rightarrow> (ReplayError, Lease) result" where
  "NewLease duration =
     (if duration < Millisecond \<or> duration > 24 * Hour \<or> duration smod Millisecond \<noteq> 0
      then Inl (NewReplayError ReplayInvalidRequest)
      else Inr \<lparr>ls_milliseconds = duration sdiv Millisecond\<rparr>)"

definition Lease_Duration :: "Lease \<Rightarrow> Duration" where
  "Lease_Duration l =
     (if ls_milliseconds l \<le> 0 \<or> ls_milliseconds l > (24 * Hour) sdiv Millisecond then 0
      else ls_milliseconds l * Millisecond)"

definition Lease_Valid :: "Lease \<Rightarrow> bool" where
  "Lease_Valid l \<longleftrightarrow> \<not> isl (NewLease (Lease_Duration l))"

lemma Retention_Valid_iff: "Retention_Valid r \<longleftrightarrow> 1000 \<le> rt_milliseconds r \<and> rt_milliseconds r \<le> 2592000000"
  by (auto simp: Retention_Valid_def NewRetention_def Retention_Duration_def Let_def MaxInt64_def fits64_def
      signed_divide_int_def signed_modulo_int_def sgn_if split: if_splits)

lemma Retention_Duration_valid:
  "Retention_Valid r \<Longrightarrow> Retention_Duration r = rt_milliseconds r * Millisecond"
  by (simp add: Retention_Valid_iff Retention_Duration_def MaxInt64_def fits64_def
      signed_divide_int_def sgn_if Let_def)

lemma Lease_Valid_iff: "Lease_Valid l \<longleftrightarrow> 0 < ls_milliseconds l \<and> ls_milliseconds l \<le> 86400000"
  by (auto simp: Lease_Valid_def NewLease_def Lease_Duration_def signed_divide_int_def signed_modulo_int_def sgn_if
      split: if_splits)

lemma NewRetention_Inr_iff:
  "NewRetention d = Inr r \<longleftrightarrow> Second \<le> d \<and> d \<le> 30 * 24 * Hour \<and> Millisecond dvd d \<and> r = \<lparr>rt_milliseconds = d div Millisecond\<rparr>"
  by (auto simp: NewRetention_def Let_def signed_divide_int_def signed_modulo_int_def sgn_if fits64_def
      dvd_div_mult_self split: if_splits)

lemma DefaultRetention_valid: "\<exists>r. DefaultRetention = Some r \<and> Retention_Valid r \<and> rt_milliseconds r = 1209600000"
  by (simp add: DefaultRetention_def NewRetention_def signed_divide_int_def signed_modulo_int_def fits64_def Retention_Valid_iff)

section \<open>Keys (\<open>contracts.go\<close>)\<close>

text \<open>An opaque key holds the 68 octets of its storage form; the zero key holds none.\<close>

record Key =
  key_state :: "bytes option"

definition zeroKey :: Key where
  "zeroKey = \<lparr>key_state = None\<rparr>"

definition storageValue :: "Key \<Rightarrow> bytes option" where
  "storageValue k = key_state k"

end
