(* ===== verification/Replay_Gate.thy ===== *)
theory Replay_Gate
  imports Replay_Base
begin

text \<open>
  The lifecycle gate of package \<open>internal/replay\<close> (\<open>lifecycle.go\<close>) and the store that only has a
  gate (\<open>disabled.go\<close>). Each method body runs under the gate's mutex, or is one atomic operation, so a
  method is one function on the gate. The drain channel is closed exactly when \<open>drainPublished\<close> is set.
\<close>

section \<open>The gate (\<open>lifecycle.go\<close>)\<close>

record lifecycleGate =
  lg_state :: StoreState
  lg_inFlight :: int
  lg_drainPublished :: bool

definition newLifecycleGate :: "StoreState \<Rightarrow> lifecycleGate" where
  "newLifecycleGate initial = \<lparr>lg_state = initial, lg_inFlight = 0, lg_drainPublished = False\<rparr>"

definition gate_admit :: "StoreState \<Rightarrow> lifecycleGate \<Rightarrow> (ReplayError, lifecycleGate) result" where
  "gate_admit operational g =
     (if lg_state g = operational then Inr (g\<lparr>lg_inFlight := lg_inFlight g + 1\<rparr>)
      else if lg_state g = StoreClosing \<or> lg_state g = StoreClosed then Inl (NewReplayError ReplayClosed)
      else Inl (NewReplayError ReplayInternalInvariant))"

definition publishDrainLocked :: "lifecycleGate \<Rightarrow> lifecycleGate" where
  "publishDrainLocked g =
     (if lg_state g = StoreClosing \<and> lg_inFlight g = 0 \<and> \<not> lg_drainPublished g
      then g\<lparr>lg_drainPublished := True\<rparr> else g)"

definition gate_finish :: "lifecycleGate \<Rightarrow> lifecycleGate" where
  "gate_finish g =
     (if lg_inFlight g \<le> 0 then g else publishDrainLocked (g\<lparr>lg_inFlight := lg_inFlight g - 1\<rparr>))"

definition gate_beginClose :: "lifecycleGate \<Rightarrow> (ReplayError, lifecycleGate) result" where
  "gate_beginClose g =
     (if lg_state g = StoreReady \<or> lg_state g = StoreDegraded \<or> lg_state g = StoreDisabled
      then Inr (publishDrainLocked (g\<lparr>lg_state := StoreClosing\<rparr>))
      else if lg_state g = StoreClosing \<or> lg_state g = StoreClosed then Inr (publishDrainLocked g)
      else Inl (NewReplayError ReplayInternalInvariant))"

definition gate_publishClosed :: "lifecycleGate \<Rightarrow> (ReplayError, lifecycleGate) result" where
  "gate_publishClosed g =
     (if lg_state g = StoreClosing then
        (if lg_inFlight g \<noteq> 0 \<or> \<not> lg_drainPublished g then Inl (NewReplayError ReplayInternalInvariant)
         else Inr (g\<lparr>lg_state := StoreClosed\<rparr>))
      else if lg_state g = StoreClosed then Inr g
      else Inl (NewReplayError ReplayInternalInvariant))"

definition gate_degrade :: "lifecycleGate \<Rightarrow> lifecycleGate" where
  "gate_degrade g = (if lg_state g = StoreReady then g\<lparr>lg_state := StoreDegraded\<rparr> else g)"

definition gate_drainedNow :: "lifecycleGate \<Rightarrow> bool" where
  "gate_drainedNow g = lg_drainPublished g"

text \<open>
  \<open>waitForDrain\<close> returns at once when the channel is closed; otherwise it waits. \<open>None\<close> is a wait that
  has not ended; \<open>ctx\<close> is what the context shows once its \<open>Done\<close> channel fires.
\<close>

definition waitForDrain :: "lifecycleGate \<Rightarrow> Context option \<Rightarrow> ReplayError option option" where
  "waitForDrain g fired =
     (if lg_drainPublished g then Some None
      else map_option (\<lambda>ctx. Some (case PreflightContext ctx of
             Some e \<Rightarrow> e | None \<Rightarrow> NewReplayError ReplayInternalInvariant)) fired)"

section \<open>The disabled store (\<open>disabled.go\<close>)\<close>

text \<open>A store handle is \<open>None\<close> when the pointer, its state or its gate is nil.\<close>

type_synonym DisabledStore = "lifecycleGate option"

definition NewDisabledStore :: DisabledStore where
  "NewDisabledStore = Some (newLifecycleGate StoreDisabled)"

definition disabledAdmission :: "DisabledStore \<Rightarrow> Context \<Rightarrow> ReplayError option" where
  "disabledAdmission s ctx =
     (case PreflightContext ctx of
        Some e \<Rightarrow> Some e
      | None \<Rightarrow>
          (case s of
             None \<Rightarrow> Some (NewReplayError ReplayMisconfigured)
           | Some g \<Rightarrow>
               if lg_state g = StoreDisabled then None
               else if lg_state g = StoreClosing \<or> lg_state g = StoreClosed then Some (NewReplayError ReplayClosed)
               else Some (NewReplayError ReplayInternalInvariant)))"

definition Disabled_CheckAndRemember :: "DisabledStore \<Rightarrow> Context \<Rightarrow> (ReplayError, Check) result" where
  "Disabled_CheckAndRemember s ctx = res_check (disabledAdmission s ctx) (Inr CheckDisabled)"

definition Disabled_ReservePropagation :: "DisabledStore \<Rightarrow> Context \<Rightarrow> (ReplayError, PropagationReservation) result" where
  "Disabled_ReservePropagation s ctx = res_check (disabledAdmission s ctx) (Inr PropagationReservationDisabled)"

definition Disabled_CommitPropagation :: "DisabledStore \<Rightarrow> Context \<Rightarrow> (ReplayError, PropagationCommit) result" where
  "Disabled_CommitPropagation s ctx = res_check (disabledAdmission s ctx) (Inr PropagationCommitDisabled)"

definition Disabled_State :: "DisabledStore \<Rightarrow> StoreState" where
  "Disabled_State s = (case s of None \<Rightarrow> StoreUnset | Some g \<Rightarrow> lg_state g)"

text \<open>Nothing is ever in flight in a disabled store, so its close never waits.\<close>

definition Disabled_Close :: "DisabledStore \<Rightarrow> Context \<Rightarrow> (ReplayError option \<times> DisabledStore) option" where
  "Disabled_Close s ctx =
     (case PreflightContext ctx of
        Some e \<Rightarrow> Some (Some e, s)
      | None \<Rightarrow>
          (case s of
             None \<Rightarrow> Some (Some (NewReplayError ReplayMisconfigured), s)
           | Some g \<Rightarrow>
               (case gate_beginClose g of
                  Inl e \<Rightarrow> Some (Some e, s)
                | Inr g1 \<Rightarrow>
                    (case waitForDrain g1 None of
                       None \<Rightarrow> None
                     | Some (Some e) \<Rightarrow> Some (Some e, Some g1)
                     | Some None \<Rightarrow>
                         (case gate_publishClosed g1 of
                            Inl e \<Rightarrow> Some (Some e, Some g1)
                          | Inr g2 \<Rightarrow> Some (None, Some g2))))))"

section \<open>The gate invariant\<close>

text \<open>
  Work in flight is counted from zero; the drain signal is only given while closing or closed and
  then nothing is in flight; a closed gate has drained.
\<close>

definition gate_inv :: "lifecycleGate \<Rightarrow> bool" where
  "gate_inv g \<longleftrightarrow> 0 \<le> lg_inFlight g \<and> lg_state g \<noteq> StoreUnset
     \<and> (lg_drainPublished g \<longrightarrow> lg_inFlight g = 0 \<and> (lg_state g = StoreClosing \<or> lg_state g = StoreClosed))
     \<and> (lg_state g = StoreClosing \<and> lg_inFlight g = 0 \<longrightarrow> lg_drainPublished g)
     \<and> (lg_state g = StoreClosed \<longrightarrow> lg_drainPublished g)"

lemma publishDrainLocked_fields [simp]:
  "lg_state (publishDrainLocked g) = lg_state g" "lg_inFlight (publishDrainLocked g) = lg_inFlight g"
  "lg_drainPublished (publishDrainLocked g)
     \<longleftrightarrow> lg_drainPublished g \<or> lg_state g = StoreClosing \<and> lg_inFlight g = 0"
  by (auto simp: publishDrainLocked_def)

lemma newLifecycleGate_inv: "s = StoreReady \<or> s = StoreDisabled \<Longrightarrow> gate_inv (newLifecycleGate s)"
  by (auto simp: gate_inv_def newLifecycleGate_def)

lemma gate_admit_inv:
  "gate_inv g \<Longrightarrow> op = StoreReady \<or> op = StoreDisabled \<Longrightarrow> gate_admit op g = Inr g' \<Longrightarrow> gate_inv g'"
  by (auto simp: gate_inv_def gate_admit_def split: if_splits)

lemma gate_finish_inv: "gate_inv g \<Longrightarrow> gate_inv (gate_finish g)"
  by (auto simp: gate_inv_def gate_finish_def)

lemma gate_beginClose_inv: "gate_inv g \<Longrightarrow> gate_beginClose g = Inr g' \<Longrightarrow> gate_inv g'"
  by (cases "lg_state g") (auto simp: gate_inv_def gate_beginClose_def)

lemma gate_publishClosed_inv: "gate_inv g \<Longrightarrow> gate_publishClosed g = Inr g' \<Longrightarrow> gate_inv g'"
  by (cases "lg_state g") (auto simp: gate_inv_def gate_publishClosed_def split: if_splits)

lemma gate_degrade_inv: "gate_inv g \<Longrightarrow> gate_inv (gate_degrade g)"
  by (auto simp: gate_inv_def gate_degrade_def)

lemmas gate_inv_intros =
  newLifecycleGate_inv gate_admit_inv gate_finish_inv gate_beginClose_inv gate_publishClosed_inv gate_degrade_inv

text \<open>Closing is irrevocable and closed is terminal.\<close>

definition closing :: "lifecycleGate \<Rightarrow> bool" where
  "closing g \<longleftrightarrow> lg_state g = StoreClosing \<or> lg_state g = StoreClosed"

lemma closing_mono:
  "closing g \<Longrightarrow> op = StoreReady \<or> op = StoreDisabled \<Longrightarrow> gate_admit op g = Inl (NewReplayError ReplayClosed)"
  "closing g \<Longrightarrow> closing (gate_finish g)"
  "gate_beginClose g = Inr g' \<Longrightarrow> closing g'"
  "gate_publishClosed g = Inr g' \<Longrightarrow> lg_state g' = StoreClosed"
  "closing g \<Longrightarrow> gate_degrade g = g"
  by (auto simp: closing_def gate_admit_def gate_finish_def gate_beginClose_def gate_publishClosed_def
      gate_degrade_def split: if_splits)

text \<open>A close of the disabled store always returns, and leaves it closed when the context is live.\<close>

lemma Disabled_Close_returns:
  assumes "gate_inv g" "lg_inFlight g = 0"
  shows "\<exists>e s'. Disabled_Close (Some g) ctx = Some (e, s') \<and>
     (ctx = ContextLive \<longrightarrow> e = None \<and> Disabled_State s' = StoreClosed \<and> (\<exists>g'. s' = Some g' \<and> gate_inv g'))"
proof (cases "PreflightContext ctx")
  case (Some e)
  then show ?thesis using PreflightContext_None_iff [of ctx] by (auto simp: Disabled_Close_def)
next
  case None
  obtain g1 where b: "gate_beginClose g = Inr g1"
    using assms(1) by (cases "lg_state g") (simp_all add: gate_beginClose_def gate_inv_def)
  then have "lg_inFlight g1 = lg_inFlight g" by (auto simp: gate_beginClose_def split: if_splits)
  then have g1: "gate_beginClose g = Inr g1" "lg_drainPublished g1" "lg_inFlight g1 = 0"
      "lg_state g1 = StoreClosing \<or> lg_state g1 = StoreClosed"
    using b gate_beginClose_inv [OF assms(1) b] closing_mono(3) [OF b] assms(2) by (auto simp: gate_inv_def closing_def)
  obtain g2 where g2: "gate_publishClosed g1 = Inr g2" "lg_state g2 = StoreClosed"
    using g1 by (auto simp: gate_publishClosed_def)
  have "gate_inv g2" using gate_publishClosed_inv [OF gate_beginClose_inv [OF assms(1) b] g2(1)] .
  with None g1 g2 show ?thesis by (simp add: Disabled_Close_def waitForDrain_def Disabled_State_def)
qed

end
