(* ===== verification/Go_Text.thy ===== *)
theory Go_Text
  imports Go_Base64
begin

text \<open>
  Text forms of the standard library that the sources write and read back: the unpadded URL alphabet of
  \<open>encoding/base64\<close>, lower-case \<open>encoding/hex\<close>, and decimal and hexadecimal integers of \<open>strconv\<close> and
  \<open>fmt\<close>. The codecs are instances of the contract \<open>byte_codec\<close>.
\<close>

section \<open>\<open>base64.RawURLEncoding\<close>\<close>

definition url_char :: "byte \<Rightarrow> byte" where
  "url_char b = (if b = CHR ''+'' then CHR ''-'' else if b = CHR ''/'' then CHR ''_'' else b)"

definition std_char :: "byte \<Rightarrow> byte option" where
  "std_char b =
     (if b = CHR ''-'' then Some (CHR ''+'') else if b = CHR ''_'' then Some (CHR ''/'')
      else if b = CHR ''+'' \<or> b = CHR ''/'' \<or> dec6 b = None then None else Some b)"

definition RawURL_EncodeToString :: "bytes \<Rightarrow> bytes" where
  "RawURL_EncodeToString x = map url_char (filter (\<lambda>b. b \<noteq> PAD) (EncodeToString x))"

text \<open>Strict decoding: line breaks are skipped, unused bits of the last digit must be zero.\<close>

definition RawURL_DecodeString :: "bytes \<Rightarrow> bytes option" where
  "RawURL_DecodeString t =
     (let t' = filter (\<lambda>b. b \<noteq> CR \<and> b \<noteq> LF) t in
      if \<exists>b \<in> set t'. std_char b = None then None
      else
        (let s = map (\<lambda>b. the (std_char b)) t';
             padded = s @ replicate ((4 - length s mod 4) mod 4) PAD in
         case Decode padded of
           None \<Rightarrow> None
         | Some x \<Rightarrow> if RawURL_EncodeToString x = t' then Some x else None))"

lemma std_url_char: "dec6 b \<noteq> None \<Longrightarrow> std_char (url_char b) = Some b"
  by (auto simp: std_char_def url_char_def dec6_def)

lemma url_char_no_break: "dec6 b \<noteq> None \<Longrightarrow> url_char b \<noteq> CR \<and> url_char b \<noteq> LF"
  using dec6_specials by (auto simp: url_char_def)

lemma fill4: "(m + p) mod 4 = 0 \<Longrightarrow> p \<le> 2 \<Longrightarrow> (4 - m mod 4) mod 4 = p" for m p :: nat
proof -
  assume a: "(m + p) mod 4 = 0" "p \<le> 2"
  obtain r where r: "m mod 4 = r" "r < 4" by simp
  then have "(r + p) mod 4 = 0" using a(1) by (metis mod_add_left_eq)
  then have "r + p = 0 \<or> r = 4 - p" using r(2) a(2) by (cases "r + p < 4") (auto simp: le_mod_geq)
  then show ?thesis using a(2) unfolding r(1) by auto
qed

lemma RawURL_shape:
  obtains body where "EncodeToString x = body @ replicate (pads (length x)) PAD" "\<forall>b \<in> set body. dec6 b \<noteq> None"
    "RawURL_EncodeToString x = map url_char body" "(4 - length body mod 4) mod 4 = pads (length x)"
proof -
  obtain body where b: "EncodeToString x = body @ replicate (pads (length x)) PAD" "\<forall>b \<in> set body. dec6 b \<noteq> None"
    by (rule EncodeToString_shape)
  have f: "filter (\<lambda>b. b \<noteq> PAD) (EncodeToString x) = body"
    using b(2) dec6_specials(1) by (auto simp: b(1) filter_id_conv)
  have "(length body + pads (length x)) mod 4 = 0"
    using length_EncodeToString_mod [of x] by (simp add: b(1))
  then have "(4 - length body mod 4) mod 4 = pads (length x)" using pads_le by (rule fill4)
  moreover have "RawURL_EncodeToString x = map url_char body" unfolding RawURL_EncodeToString_def f ..
  ultimately show thesis using that b by blast
qed

lemma RawURL_Decode_Encode: "RawURL_DecodeString (RawURL_EncodeToString x) = Some x"
proof -
  obtain body where b: "EncodeToString x = body @ replicate (pads (length x)) PAD" "\<forall>b \<in> set body. dec6 b \<noteq> None"
    "RawURL_EncodeToString x = map url_char body" "(4 - length body mod 4) mod 4 = pads (length x)"
    by (rule RawURL_shape)
  have f: "filter (\<lambda>b. b \<noteq> CR \<and> b \<noteq> LF) (map url_char body) = map url_char body"
    using b(2) url_char_no_break by (auto simp: filter_id_conv)
  have "map (\<lambda>b. the (std_char b)) (map url_char body) = body"
    using b(2) std_url_char by (simp add: map_idI)
  moreover have "\<not> (\<exists>b \<in> set (map url_char body). std_char b = None)" using b(2) std_url_char by auto
  ultimately show ?thesis
    unfolding RawURL_DecodeString_def Let_def b(3) f
    using b(4) Decode_EncodeToString [of x] by (simp add: b(1,3) o_def)
qed

interpretation raw_url_encoding: byte_codec RawURL_EncodeToString RawURL_DecodeString
  by unfold_locales (rule RawURL_Decode_Encode)

lemma length_RawURL_32:
  assumes "length x = 32"
  shows "length (RawURL_EncodeToString x) = 43"
proof -
  obtain body where b: "EncodeToString x = body @ replicate (pads (length x)) PAD"
    "RawURL_EncodeToString x = map url_char body" by (rule RawURL_shape)
  have "length body + pads (length x) = 44" using length_EncodeToString [of x] assms by (simp add: b(1))
  then show ?thesis using assms by (simp add: b(2) pads_def)
qed

section \<open>Lower-case hexadecimal\<close>

definition hex_digit :: "nat \<Rightarrow> byte" where
  "hex_digit n = (if n < 10 then char_of (48 + n) else char_of (87 + n))"

definition hex_value :: "byte \<Rightarrow> nat option" where
  "hex_value b =
     (let n = octet b in
      if 48 \<le> n \<and> n \<le> 57 then Some (n - 48) else if 97 \<le> n \<and> n \<le> 102 then Some (n - 87)
      else if 65 \<le> n \<and> n \<le> 70 then Some (n - 55) else None)"

definition lower_hex :: "byte \<Rightarrow> bool" where
  "lower_hex b \<longleftrightarrow> 48 \<le> octet b \<and> octet b \<le> 57 \<or> 97 \<le> octet b \<and> octet b \<le> 102"

definition hex_EncodeToString :: "bytes \<Rightarrow> bytes" where
  "hex_EncodeToString x = concat (map (\<lambda>b. [hex_digit (octet b div 16), hex_digit (octet b mod 16)]) x)"

text \<open>\<open>hex.Decode\<close> accepts both letter cases and needs an even length.\<close>

fun hex_Decode :: "bytes \<Rightarrow> bytes option" where
  "hex_Decode [] = Some []"
| "hex_Decode [b] = None"
| "hex_Decode (a # b # r) =
     (case (hex_value a, hex_value b, hex_Decode r) of
        (Some v, Some w, Some x) \<Rightarrow> Some (char_of (v * 16 + w) # x) | _ \<Rightarrow> None)"

lemma octet_hex_digit: "n < 16 \<Longrightarrow> octet (hex_digit n) = (if n < 10 then 48 + n else 87 + n)"
  by (simp add: hex_digit_def octet_char_of)

lemma hex_value_digit [simp]: "n < 16 \<Longrightarrow> hex_value (hex_digit n) = Some n"
  by (simp add: hex_value_def Let_def octet_hex_digit)

lemma lower_hex_digit: "n < 16 \<Longrightarrow> lower_hex (hex_digit n)"
  by (simp add: lower_hex_def octet_hex_digit)

lemma hex_digit_value: "lower_hex b \<Longrightarrow> hex_value b = Some n \<Longrightarrow> n < 16 \<and> hex_digit n = b"
proof -
  assume b: "lower_hex b" "hex_value b = Some n"
  then have "n < 16" by (auto simp: lower_hex_def hex_value_def Let_def split: if_splits)
  moreover from this b have "octet (hex_digit n) = octet b"
    by (auto simp: lower_hex_def hex_value_def Let_def octet_hex_digit split: if_splits)
  ultimately show ?thesis by simp
qed

lemma octet_halves: "octet b div 16 < 16" "octet b mod 16 < 16" "char_of (octet b div 16 * 16 + octet b mod 16) = b"
  using octet_less [of b] by (simp_all add: less_mult_imp_div_less)

lemma hex_Decode_Encode: "hex_Decode (hex_EncodeToString x) = Some x"
  by (induction x) (simp_all add: hex_EncodeToString_def octet_halves)

interpretation hex_encoding: byte_codec hex_EncodeToString hex_Decode
  by unfold_locales (rule hex_Decode_Encode)

lemma length_hex_EncodeToString [simp]: "length (hex_EncodeToString x) = 2 * length x"
  by (induction x) (simp_all add: hex_EncodeToString_def)

lemma lower_hex_EncodeToString: "b \<in> set (hex_EncodeToString x) \<Longrightarrow> lower_hex b"
  by (induction x) (auto simp: hex_EncodeToString_def octet_halves lower_hex_digit)

lemma hex_Encode_Decode:
  "\<forall>b \<in> set t. lower_hex b \<Longrightarrow> hex_Decode t = Some x \<Longrightarrow> hex_EncodeToString x = t"
proof (induction t arbitrary: x rule: hex_Decode.induct)
  case (3 a b r)
  then obtain v w y where v: "hex_value a = Some v" "hex_value b = Some w" "hex_Decode r = Some y"
    "x = char_of (v * 16 + w) # y" by (auto split: option.splits)
  have "v < 16" "w < 16" "hex_digit v = a" "hex_digit w = b" using hex_digit_value v 3 by auto
  with 3 v show ?case by (simp add: hex_EncodeToString_def octet_char_of)
qed (auto simp: hex_EncodeToString_def)

section \<open>Decimal integers\<close>

fun dec_digits :: "nat \<Rightarrow> bytes" where
  "dec_digits n = (if n < 10 then [char_of (48 + n)] else dec_digits (n div 10) @ [char_of (48 + n mod 10)])"

declare dec_digits.simps [simp del]

text \<open>\<open>strconv.FormatInt\<close> in base ten.\<close>

definition FormatInt :: "int \<Rightarrow> bytes" where
  "FormatInt n = (if n < 0 then CHR ''-'' # dec_digits (nat (- n)) else dec_digits (nat n))"

definition isDigit :: "byte \<Rightarrow> bool" where
  "isDigit b \<longleftrightarrow> 48 \<le> octet b \<and> octet b \<le> 57"

definition dec_value :: "bytes \<Rightarrow> nat" where
  "dec_value s = foldl (\<lambda>acc b. acc * 10 + (octet b - 48)) 0 s"

lemma dec_value_snoc [simp]: "dec_value (s @ [b]) = dec_value s * 10 + (octet b - 48)" "dec_value [] = 0"
  by (simp_all add: dec_value_def)

lemma octet_dec_digit [simp]: "n < 10 \<Longrightarrow> octet (char_of (48 + n)) = 48 + n"
  by (simp add: octet_char_of)

lemma dec_digits_value: "dec_value (dec_digits n) = n"
proof (induction n rule: dec_digits.induct)
  case (1 n)
  show ?case
  proof (cases "n < 10")
    case True
    then show ?thesis using dec_value_snoc(1) [of "[]" "char_of (48 + n)"] by (simp add: dec_digits.simps [of n])
  next
    case False
    with 1 show ?thesis by (subst dec_digits.simps) (simp add: octet_dec_digit [of "n mod 10"] del: octet_dec_digit)
  qed
qed

lemma dec_digits_isDigit: "b \<in> set (dec_digits n) \<Longrightarrow> isDigit b"
proof (induction n rule: dec_digits.induct)
  case (1 n)
  then show ?case
    by (subst (asm) (2) dec_digits.simps) (auto simp: isDigit_def octet_dec_digit simp del: octet_char_of split: if_splits)
qed

lemma dec_digits_not_Nil [simp]: "dec_digits n \<noteq> []"
  by (simp add: dec_digits.simps [of n])

end
