(* ===== verification/Replay_Deriver.thy ===== *)
theory Replay_Deriver
  imports Replay_Gate Go_Text Go_Sha2
begin

text \<open>
  Replay identities (\<open>identity.go\<close>) and the derivation of storage keys (\<open>deriver.go\<close>) of package
  \<open>internal/replay\<close>. HMAC is modelled over the SHA-256 of the standard library. The sources of an
  identity are values of the trusted boundary: what their methods return.
\<close>

unbundle bit_operations_syntax

section \<open>Identities (\<open>identity.go\<close>)\<close>

abbreviation DraftIdentifier :: bytes where "DraftIdentifier \<equiv> ''draft-ietf-dkim-dkim2-spec-09''"

record identityState =
  is_originDigest :: bytes
  is_hasOriginDigest :: bool
  is_recipientDigest :: bytes
  is_draft :: nat

text \<open>A \<open>[32]byte\<close> that was never written.\<close>

definition zeroDigest32 :: bytes where
  "zeroDigest32 = replicate 32 (CHR 0x00)"

type_synonym Identity = "identityState option"

definition Identity_Valid :: "Identity \<Rightarrow> bool" where
  "Identity_Valid i = (case i of None \<Rightarrow> False | Some s \<Rightarrow> is_draft s = 2 \<and> is_hasOriginDigest s)"

record originIdentitySource =
  os_OriginReplayDigest :: "bytes option"
  os_Exploded :: bool
  os_ReplayEligible :: bool

record legacyIdentitySource =
  lg_MessageDigest :: "bytes option"
  lg_SignatureInputDigest :: "bytes option"
  lg_RecipientCount :: int
  lg_RecipientDigest :: "int \<Rightarrow> bytes option"
  lg_Exploded :: bool

text \<open>The dynamic type of the source decides which of the two interfaces it has.\<close>

datatype IdentitySourceType = OriginSource originIdentitySource | LegacySource legacyIdentitySource | OtherSource

record IdentitySource =
  src_Valid :: bool
  src_Draft :: bytes
  src_Type :: IdentitySourceType

record identitySetState =
  ids_identity :: Identity
  ids_identities :: "Identity list"
  ids_exploded :: bool
  ids_eligible :: bool
  ids_valid :: bool

type_synonym IdentitySet = "identitySetState option"

fun legacyIdentitiesLoop ::
    "legacyIdentitySource \<Rightarrow> bytes \<Rightarrow> bytes \<Rightarrow> nat \<Rightarrow> int \<Rightarrow> bytes \<Rightarrow> Identity list
       \<Rightarrow> (ReplayError, Identity list) result" where
  "legacyIdentitiesLoop source message signature 0 index previous identities = Inr identities"
| "legacyIdentitiesLoop source message signature (Suc n) index previous identities =
     (case lg_RecipientDigest source index of
        None \<Rightarrow> Inl (NewReplayError ReplayInvalidRequest)
      | Some recipient \<Rightarrow>
          if index > 0 \<and> previous \<ge> recipient then Inl (NewReplayError ReplayInvalidRequest)
          else legacyIdentitiesLoop source message signature n (index + 1) recipient
                 (identities @ [Some \<lparr>is_originDigest = Sum256 (message @ signature @ recipient),
                    is_hasOriginDigest = True, is_recipientDigest = recipient, is_draft = 2\<rparr>]))"

definition NewIdentitySet :: "IdentitySource option \<Rightarrow> (ReplayError, IdentitySet) result" where
  "NewIdentitySet source =
     (case source of
        None \<Rightarrow> Inl (NewReplayError ReplayInvalidRequest)
      | Some s \<Rightarrow>
          if \<not> src_Valid s \<or> src_Draft s \<noteq> DraftIdentifier then Inl (NewReplayError ReplayInvalidRequest)
          else (case src_Type s of
            OriginSource origin \<Rightarrow>
              (case os_OriginReplayDigest origin of
                 None \<Rightarrow> Inl (NewReplayError ReplayInvalidRequest)
               | Some digest \<Rightarrow>
                   (let identity = Some \<lparr>is_originDigest = digest, is_hasOriginDigest = True,
                          is_recipientDigest = zeroDigest32, is_draft = 2\<rparr> in
                    Inr (Some \<lparr>ids_identity = identity, ids_identities = [identity],
                      ids_exploded = os_Exploded origin, ids_eligible = os_ReplayEligible origin, ids_valid = True\<rparr>)))
          | OtherSource \<Rightarrow> Inl (NewReplayError ReplayInvalidRequest)
          | LegacySource legacy \<Rightarrow>
              (case (lg_MessageDigest legacy, lg_SignatureInputDigest legacy) of
                 (Some message, Some signature) \<Rightarrow>
                   if lg_RecipientCount legacy \<le> 0 then Inl (NewReplayError ReplayInvalidRequest)
                   else res_bind (legacyIdentitiesLoop legacy message signature (nat (lg_RecipientCount legacy)) 0 zeroDigest32 [])
                     (\<lambda>identities. Inr (Some \<lparr>ids_identity = identities ! 0, ids_identities = identities,
                        ids_exploded = lg_Exploded legacy, ids_eligible = True, ids_valid = True\<rparr>))
               | _ \<Rightarrow> Inl (NewReplayError ReplayInvalidRequest))))"

definition IdentitySet_Valid :: "IdentitySet \<Rightarrow> bool" where
  "IdentitySet_Valid s =
     (case s of
        None \<Rightarrow> False
      | Some st \<Rightarrow> ids_valid st \<and> ids_identities st \<noteq> [] \<and> (\<forall>i \<in> set (ids_identities st). Identity_Valid i))"

definition IdentitySet_Len :: "IdentitySet \<Rightarrow> nat" where
  "IdentitySet_Len s =
     (if \<not> IdentitySet_Valid s then 0 else case s of None \<Rightarrow> 0 | Some st \<Rightarrow> length (ids_identities st))"

definition IdentitySet_Identity :: "IdentitySet \<Rightarrow> int \<Rightarrow> (ReplayError, Identity) result" where
  "IdentitySet_Identity s index =
     (case s of
        None \<Rightarrow> Inl (NewReplayError ReplayInvalidRequest)
      | Some st \<Rightarrow>
          if \<not> IdentitySet_Valid s \<or> index < 0 \<or> index \<ge> int (length (ids_identities st))
          then Inl (NewReplayError ReplayInvalidRequest)
          else Inr (ids_identities st ! nat index))"

definition IdentitySet_Exploded :: "IdentitySet \<Rightarrow> bool" where
  "IdentitySet_Exploded s = (IdentitySet_Valid s \<and> (case s of None \<Rightarrow> False | Some st \<Rightarrow> ids_exploded st))"

definition IdentitySet_Eligible :: "IdentitySet \<Rightarrow> bool" where
  "IdentitySet_Eligible s = (IdentitySet_Valid s \<and> (case s of None \<Rightarrow> False | Some st \<Rightarrow> ids_eligible st))"

section \<open>HMAC\<close>

definition xor_byte :: "int \<Rightarrow> byte \<Rightarrow> byte" where
  "xor_byte n b = char_of (of_char b XOR n)"

definition hmac_sha256 :: "bytes \<Rightarrow> bytes \<Rightarrow> bytes" where
  "hmac_sha256 secret msg =
     (let k = (if length secret > 64 then Sum256 secret else secret);
          block = k @ replicate (64 - length k) (CHR 0x00)
      in Sum256 (map (xor_byte 0x5c) block @ Sum256 (map (xor_byte 0x36) block @ msg)))"

lemma length_hmac_sha256 [simp]: "length (hmac_sha256 k m) = 32"
  by (simp add: hmac_sha256_def Let_def)

section \<open>Derivation (\<open>deriver.go\<close>)\<close>

abbreviation keyDomainLabel :: bytes where "keyDomainLabel \<equiv> ''dkim2-replay-v2''"
abbreviation PropagationKeyDomainLabel :: bytes where "PropagationKeyDomainLabel \<equiv> ''dkim2-replay-propagation-v1''"
abbreviation keyNamespacePrefix :: bytes where "keyNamespacePrefix \<equiv> ''dkim2:replay:v1:''"
abbreviation storageKeyByteLength :: nat where "storageKeyByteLength \<equiv> 68"

definition appendUint32Bytes :: "bytes \<Rightarrow> bytes \<Rightarrow> bytes" where
  "appendUint32Bytes output v = output @ word_bytes 4 (of_nat (length v) :: 32 word) @ v"

definition replayHMACFrame :: "identityState \<Rightarrow> bytes \<Rightarrow> bytes \<Rightarrow> bytes" where
  "replayHMACFrame state frameLabel draft =
     appendUint32Bytes
       (appendUint32Bytes (frameLabel @ [CHR 0x00, CHR 0x02] @ [CHR 0x01]) draft @ [CHR 0x02])
       (is_originDigest state)"

definition fromLowerHex :: "byte \<Rightarrow> nat" where
  "fromLowerHex b = (if 48 \<le> octet b \<and> octet b \<le> 57 then octet b - 48 else octet b - 97 + 10)"

definition validStorageKey :: "Key \<Rightarrow> bool" where
  "validStorageKey key =
     (case storageValue key of
        None \<Rightarrow> False
      | Some v \<Rightarrow>
          if length v \<noteq> storageKeyByteLength \<or> \<not> HasPrefix v keyNamespacePrefix \<or> v ! 24 \<noteq> CHR '':'' then False
          else if \<exists>c \<in> set (Go_Bytes.slice v 16 24). \<not> lower_hex c then False
          else
            (let octets = map (\<lambda>i. fromLowerHex (v ! i) * 16 + fromLowerHex (v ! (i + 1))) [16, 18, 20, 22];
                 epoch = foldl (\<lambda>acc n. acc * 256 + n) 0 octets in
             if epoch = 0 then False
             else (let encoded = drop 25 v in
                   case RawURL_DecodeString encoded of
                     None \<Rightarrow> False
                   | Some decoded \<Rightarrow> length decoded = 32 \<and> RawURL_EncodeToString decoded = encoded)))"

definition Key_Valid :: "Key \<Rightarrow> bool" where
  "Key_Valid k = validStorageKey k"

definition allZero :: "bytes \<Rightarrow> bool" where
  "allZero value = (foldl (\<lambda>combined b. combined OR of_char b) (0 :: int) value = 0)"

record deriverState =
  dv_closed :: bool
  dv_gate :: lifecycleGate
  dv_secret :: bytes
  dv_epoch :: "32 word"

type_synonym Deriver = "deriverState option"

definition NewDeriver :: "bytes \<Rightarrow> 32 word \<Rightarrow> (ReplayError, Deriver) result" where
  "NewDeriver secret epoch =
     (if length secret \<noteq> 32 \<or> epoch = 0 \<or> allZero secret then Inl (NewReplayError ReplayMisconfigured)
      else Inr (Some \<lparr>dv_closed = False, dv_gate = newLifecycleGate StoreReady, dv_secret = secret, dv_epoch = epoch\<rparr>))"

text \<open>\<open>clearAndClose\<close>: the once-only clearing, then the terminal state.\<close>

definition clearAndClose :: "deriverState \<Rightarrow> ReplayError option \<times> deriverState" where
  "clearAndClose d =
     (let d = (if dv_closed d then d
               else d\<lparr>dv_closed := True, dv_secret := replicate (length (dv_secret d)) (CHR 0x00)\<rparr>) in
      case gate_publishClosed (dv_gate d) of
        Inl e \<Rightarrow> (Some e, d)
      | Inr g \<Rightarrow> (None, d\<lparr>dv_gate := g\<rparr>))"

definition Deriver_finish :: "deriverState \<Rightarrow> deriverState" where
  "Deriver_finish d =
     (let d = d\<lparr>dv_gate := gate_finish (dv_gate d)\<rparr> in
      if gate_drainedNow (dv_gate d) then snd (clearAndClose d) else d)"

definition storageForm :: "deriverState \<Rightarrow> bytes \<Rightarrow> bytes" where
  "storageForm d frame =
     keyNamespacePrefix @ hex_EncodeToString (word_bytes 4 (dv_epoch d)) @ '':''
       @ RawURL_EncodeToString (hmac_sha256 (dv_secret d) frame)"

definition Deriver_derive :: "Deriver \<Rightarrow> Context \<Rightarrow> Identity \<Rightarrow> bytes \<Rightarrow> (ReplayError, Key) result \<times> Deriver" where
  "Deriver_derive d ctx identity frameLabel =
     (case PreflightContext ctx of
        Some e \<Rightarrow> (Inl e, d)
      | None \<Rightarrow>
          (case d of
             None \<Rightarrow> (Inl (NewReplayError ReplayMisconfigured), d)
           | Some st \<Rightarrow>
               (case gate_admit StoreReady (dv_gate st) of
                  Inl e \<Rightarrow> (Inl e, d)
                | Inr g \<Rightarrow>
                    (let st = st\<lparr>dv_gate := g\<rparr>; done = Some (Deriver_finish st) in
                     case identity of
                       None \<Rightarrow> (Inl (NewReplayError ReplayInvalidRequest), done)
                     | Some is \<Rightarrow>
                         if \<not> Identity_Valid identity then (Inl (NewReplayError ReplayInvalidRequest), done)
                         else
                           (let storage = storageForm st (replayHMACFrame is frameLabel DraftIdentifier);
                                key = \<lparr>key_state = Some storage\<rparr> in
                            if length storage \<noteq> storageKeyByteLength then (Inl (NewReplayError ReplayInternalInvariant), done)
                            else if \<not> validStorageKey key then (Inl (NewReplayError ReplayInternalInvariant), done)
                            else (Inr key, done))))))"

definition Deriver_Derive :: "Deriver \<Rightarrow> Context \<Rightarrow> Identity \<Rightarrow> (ReplayError, Key) result \<times> Deriver" where
  "Deriver_Derive d ctx identity = Deriver_derive d ctx identity keyDomainLabel"

definition Deriver_DerivePropagation :: "Deriver \<Rightarrow> Context \<Rightarrow> Identity \<Rightarrow> (ReplayError, Key) result \<times> Deriver" where
  "Deriver_DerivePropagation d ctx identity = Deriver_derive d ctx identity PropagationKeyDomainLabel"

text \<open>A close that waits for the drain and has not returned is \<open>None\<close>.\<close>

definition Deriver_Close :: "Deriver \<Rightarrow> Context \<Rightarrow> Context option \<Rightarrow> (ReplayError option \<times> Deriver) option" where
  "Deriver_Close d ctx fired =
     (case PreflightContext ctx of
        Some e \<Rightarrow> Some (Some e, d)
      | None \<Rightarrow>
          (case d of
             None \<Rightarrow> Some (Some (NewReplayError ReplayMisconfigured), d)
           | Some st \<Rightarrow>
               (case gate_beginClose (dv_gate st) of
                  Inl e \<Rightarrow> Some (Some e, d)
                | Inr g \<Rightarrow>
                    (let st = st\<lparr>dv_gate := g\<rparr> in
                     case waitForDrain g fired of
                       None \<Rightarrow> None
                     | Some (Some e) \<Rightarrow> Some (Some e, Some st)
                     | Some None \<Rightarrow> (case clearAndClose st of (e, st') \<Rightarrow> Some (e, Some st'))))))"

text \<open>\<open>UseStorageKey\<close>: the callback's error, typed or not, is mapped to the taxonomy.\<close>

definition UseStorageKey :: "Key \<Rightarrow> (bytes \<Rightarrow> GoError option) option \<Rightarrow> ReplayError option" where
  "UseStorageKey key use =
     (case (use, storageValue key) of
        (Some f, Some storage) \<Rightarrow>
          if \<not> validStorageKey key then Some (NewReplayError ReplayInvalidRequest)
          else (case f storage of
                  None \<Rightarrow> None
                | Some e \<Rightarrow> if IsTypedError e then (case e of Typed x \<Rightarrow> Some x | Foreign \<Rightarrow> None)
                            else Some (NewReplayError ReplayInternalInvariant))
      | _ \<Rightarrow> Some (NewReplayError ReplayInvalidRequest))"

section \<open>Derived keys are valid\<close>

lemma int_octet: "int (octet b) = of_char b"
  by (cases b) (simp add: octet_def)

lemma fromLowerHex_digit [simp]: "n < 16 \<Longrightarrow> fromLowerHex (hex_digit n) = n"
  by (auto simp: fromLowerHex_def octet_hex_digit)

lemma big_endian_4:
  fixes x :: int
  assumes "0 \<le> x" "x < 2 ^ 32"
  shows "((x div 256 ^ 3 mod 256 * 256 + x div 256 ^ 2 mod 256) * 256 + x div 256 mod 256) * 256 + x mod 256 = x"
proof -
  have "x div 256 ^ 3 mod 256 = x div 256 ^ 3" using assms by (intro mod_pos_pos_trivial) (auto simp: pos_imp_zdiv_nonneg_iff)
  moreover have "x div 256 ^ 3 * 256 + x div 256 ^ 2 mod 256 = x div 256 ^ 2"
    using div_mult_mod_eq [of "x div 256 ^ 2" 256] by (simp add: div_mult2_eq [symmetric] zdiv_zmult2_eq [symmetric])
  moreover have "x div 256 ^ 2 * 256 + x div 256 mod 256 = x div 256"
    using div_mult_mod_eq [of "x div 256" 256] by (simp add: zdiv_zmult2_eq [symmetric])
  moreover have "x div 256 * 256 + x mod 256 = x" by (rule div_mult_mod_eq)
  ultimately show ?thesis by (simp only:)
qed

lemma word_bytes_4:
  "word_bytes 4 w = [char_of (uint w div 256 ^ 3), char_of (uint w div 256 ^ 2), char_of (uint w div 256), char_of (uint w)]"
  by (simp add: word_bytes_def int_bytes_def upt_rec numeral_eq_Suc)

lemma word_bytes_value:
  fixes w :: "32 word"
  assumes "word_bytes 4 w = [a, b, c, d]"
  shows "int (((octet a * 256 + octet b) * 256 + octet c) * 256 + octet d) = uint w"
proof -
  have "a = char_of (uint w div 256 ^ 3)" "b = char_of (uint w div 256 ^ 2)" "c = char_of (uint w div 256)"
    "d = char_of (uint w)" using assms by (simp_all add: word_bytes_4)
  then have "int (octet a) = uint w div 256 ^ 3 mod 256" "int (octet b) = uint w div 256 ^ 2 mod 256"
    "int (octet c) = uint w div 256 mod 256" "int (octet d) = uint w mod 256"
    by (simp_all add: int_octet)
  moreover have "uint w < 2 ^ 32" using uint_lt2p [of w] by simp
  note big_endian_4 [OF uint_ge_0 this]
  ultimately show ?thesis by (simp only: of_nat_add of_nat_mult of_nat_numeral)
qed

lemma word_bytes_cases:
  fixes w :: "32 word"
  obtains a b c d where "word_bytes 4 w = [a, b, c, d]"
  by (rule that) (rule word_bytes_4)

lemma validStorageKey_form:
  assumes "epoch \<noteq> (0 :: 32 word)" "length x = 32"
  shows "validStorageKey \<lparr>key_state = Some (keyNamespacePrefix @ hex_EncodeToString (word_bytes 4 epoch) @ '':'' @ RawURL_EncodeToString x)\<rparr>"
proof -
  obtain a b c d where e: "word_bytes 4 epoch = [a, b, c, d]" by (rule word_bytes_cases)
  let ?h = "hex_EncodeToString (word_bytes 4 epoch)" and ?u = "RawURL_EncodeToString x"
  let ?v = "keyNamespacePrefix @ ?h @ '':'' @ ?u"
  have h: "?h = [hex_digit (octet a div 16), hex_digit (octet a mod 16), hex_digit (octet b div 16), hex_digit (octet b mod 16),
      hex_digit (octet c div 16), hex_digit (octet c mod 16), hex_digit (octet d div 16), hex_digit (octet d mod 16)]"
    by (simp add: e hex_EncodeToString_def)
  have len: "length ?v = 68" using length_RawURL_32 [OF assms(2)] by (simp add: h)
  have sl: "Go_Bytes.slice ?v 16 24 = ?h" by (simp add: Go_Bytes.slice_def h)
  have dr: "drop 25 ?v = ?u" "?v ! 24 = CHR '':''" by (simp_all add: h)
  have oct: "map (\<lambda>i. fromLowerHex (?v ! i) * 16 + fromLowerHex (?v ! (i + 1))) [16, 18, 20, 22] = [octet a, octet b, octet c, octet d]"
    by (simp add: h octet_halves)
  have "foldl (\<lambda>acc n. acc * 256 + n) 0 [octet a, octet b, octet c, octet d] \<noteq> 0"
  proof
    assume "foldl (\<lambda>acc n. acc * 256 + n) 0 [octet a, octet b, octet c, octet d] = 0"
    then have "uint epoch = 0" using word_bytes_value [OF e] by simp
    with assms(1) show False by (simp add: uint_0_iff)
  qed
  moreover have "\<forall>c \<in> set ?h. lower_hex c" using lower_hex_EncodeToString by blast
  moreover have "HasPrefix ?v keyNamespacePrefix" by (rule HasPrefix_append)
  ultimately show ?thesis
    using assms(2) raw_url_encoding.dec_enc [of x] len
    unfolding validStorageKey_def storageValue_def Key.select_convs option.case Let_def sl dr oct
    by simp
qed

lemma storageForm_valid:
  "dv_epoch d \<noteq> 0 \<Longrightarrow> validStorageKey \<lparr>key_state = Some (storageForm d frame)\<rparr>"
  unfolding storageForm_def by (rule validStorageKey_form) simp_all

lemma storageForm_length: "length (storageForm d frame) = 68"
  using length_RawURL_32 [of "hmac_sha256 (dv_secret d) frame"] by (simp add: storageForm_def)

lemma storageForm_eq_iff:
  "storageForm d f = storageForm d f' \<longleftrightarrow> hmac_sha256 (dv_secret d) f = hmac_sha256 (dv_secret d) f'"
  by (simp add: storageForm_def raw_url_encoding.enc_inject)

section \<open>Frames are separated\<close>

lemma length_word_inject:
  assumes "word_bytes 4 (of_nat n :: 32 word) = word_bytes 4 (of_nat m :: 32 word)" "n < 2 ^ 32" "m < 2 ^ 32"
  shows "n = m"
proof -
  obtain a b c d where e: "word_bytes 4 (of_nat n :: 32 word) = [a, b, c, d]" by (rule word_bytes_cases)
  have "uint (of_nat n :: 32 word) = uint (of_nat m :: 32 word)"
    using word_bytes_value [OF e] word_bytes_value [OF e [unfolded assms(1)]] by simp
  then show ?thesis using assms(2,3) by (simp add: uint_nat unat_of_nat)
qed

text \<open>A length-delimited value can be read back from the front of a text.\<close>

lemma delimited_inject:
  assumes "word_bytes 4 (of_nat (length v) :: 32 word) @ v @ r = word_bytes 4 (of_nat (length v') :: 32 word) @ v' @ r'"
    and "length v < 2 ^ 32" "length v' < 2 ^ 32"
  shows "v = v' \<and> r = r'"
proof -
  have "word_bytes 4 (of_nat (length v) :: 32 word) = word_bytes 4 (of_nat (length v') :: 32 word)" "v @ r = v' @ r'"
    using assms(1) by (simp_all add: append_eq_append_conv)
  moreover from this(1) have "length v = length v'" using assms(2,3) by (rule length_word_inject)
  ultimately show ?thesis by simp
qed

lemma replayHMACFrame_inject:
  assumes "replayHMACFrame s l dr = replayHMACFrame s' l' dr'"
    and "l \<in> {keyDomainLabel, PropagationKeyDomainLabel}" "l' \<in> {keyDomainLabel, PropagationKeyDomainLabel}"
    and "length dr < 2 ^ 32" "length dr' < 2 ^ 32" "length (is_originDigest s) < 2 ^ 32" "length (is_originDigest s') < 2 ^ 32"
  shows "l = l' \<and> dr = dr' \<and> is_originDigest s = is_originDigest s'"
proof -
  have "l = l'" using assms(1-3) by (auto simp: replayHMACFrame_def appendUint32Bytes_def)
  then have "word_bytes 4 (of_nat (length dr) :: 32 word) @ dr @ CHR 0x02 # word_bytes 4 (of_nat (length (is_originDigest s)) :: 32 word) @ is_originDigest s
      = word_bytes 4 (of_nat (length dr') :: 32 word) @ dr' @ CHR 0x02 # word_bytes 4 (of_nat (length (is_originDigest s')) :: 32 word) @ is_originDigest s'"
    using assms(1) by (simp add: replayHMACFrame_def appendUint32Bytes_def)
  from delimited_inject [OF this assms(4,5)] have dr: "dr = dr'"
    "word_bytes 4 (of_nat (length (is_originDigest s)) :: 32 word) @ is_originDigest s @ []
      = word_bytes 4 (of_nat (length (is_originDigest s')) :: 32 word) @ is_originDigest s' @ []" by simp_all
  from delimited_inject [OF this(2) assms(6,7)] \<open>l = l'\<close> dr(1) show ?thesis by simp
qed

section \<open>The deriver's life\<close>

definition deriver_inv :: "deriverState \<Rightarrow> bool" where
  "deriver_inv d \<longleftrightarrow> gate_inv (dv_gate d) \<and> length (dv_secret d) = 32 \<and> dv_epoch d \<noteq> 0
     \<and> (dv_closed d \<longrightarrow> dv_secret d = zeroDigest32 \<and> lg_state (dv_gate d) = StoreClosed)
     \<and> (lg_state (dv_gate d) = StoreClosed \<longrightarrow> dv_closed d)"

lemma NewDeriver_inv: "NewDeriver secret epoch = Inr d \<Longrightarrow> \<exists>st. d = Some st \<and> deriver_inv st \<and> lg_state (dv_gate st) = StoreReady"
  by (auto simp: NewDeriver_def deriver_inv_def newLifecycleGate_inv newLifecycleGate_def gate_inv_def split: if_splits)

lemma Deriver_finish_ready:
  assumes "gate_inv (dv_gate st)" "lg_state (dv_gate st) = StoreReady" "gate_admit StoreReady (dv_gate st) = Inr g"
  shows "Deriver_finish (st\<lparr>dv_gate := g\<rparr>) = st"
proof -
  have "g = (dv_gate st)\<lparr>lg_inFlight := lg_inFlight (dv_gate st) + 1\<rparr>"
    using assms(2,3) by (simp add: gate_admit_def)
  then have "gate_finish g = dv_gate st" "\<not> lg_drainPublished (dv_gate st)"
    using assms(1,2) by (auto simp: gate_finish_def publishDrainLocked_def gate_inv_def)
  then show ?thesis by (simp add: Deriver_finish_def Let_def gate_drainedNow_def)
qed

text \<open>On a ready deriver a valid identity always yields a valid key, and the deriver is unchanged.\<close>

lemma Deriver_derive_ready:
  assumes "deriver_inv st" "lg_state (dv_gate st) = StoreReady"
  shows "Deriver_derive (Some st) ContextLive identity l =
     (case identity of
        Some s \<Rightarrow> if Identity_Valid identity
          then Inr \<lparr>key_state = Some (storageForm st (replayHMACFrame s l DraftIdentifier))\<rparr>
          else Inl (NewReplayError ReplayInvalidRequest)
      | None \<Rightarrow> Inl (NewReplayError ReplayInvalidRequest), Some st)"
proof -
  obtain g where g: "gate_admit StoreReady (dv_gate st) = Inr g" using assms(2) by (simp add: gate_admit_def)
  have inv: "gate_inv (dv_gate st)" "dv_epoch st \<noteq> 0" using assms(1) by (simp_all add: deriver_inv_def)
  have form: "storageForm (st\<lparr>dv_gate := g\<rparr>) f = storageForm st f" for f by (simp add: storageForm_def)
  show ?thesis
    using g Deriver_finish_ready [OF inv(1) assms(2) g] storageForm_valid [OF inv(2)] storageForm_length [of st]
    by (simp add: Deriver_derive_def Let_def form split: option.split)
qed

text \<open>Closing clears the secret before the closed state can be seen.\<close>

lemma clearAndClose_inv:
  assumes "deriver_inv st" "lg_drainPublished (dv_gate st)" "clearAndClose st = (e, st')"
  shows "e = None \<and> deriver_inv st' \<and> lg_state (dv_gate st') = StoreClosed \<and> dv_secret st' = zeroDigest32"
proof -
  have g: "gate_inv (dv_gate st)" "lg_inFlight (dv_gate st) = 0"
    "lg_state (dv_gate st) = StoreClosing \<or> lg_state (dv_gate st) = StoreClosed"
    using assms(1,2) by (auto simp: deriver_inv_def gate_inv_def)
  then obtain g' where g': "gate_publishClosed (dv_gate st) = Inr g'" "lg_state g' = StoreClosed"
    using assms(2) by (auto simp: gate_publishClosed_def)
  have "gate_inv g'" using gate_publishClosed_inv [OF g(1) g'(1)] .
  with g' assms show ?thesis
    by (auto simp: clearAndClose_def Let_def deriver_inv_def zeroDigest32_def split: if_splits)
qed

end
