(* ===== verification/Replay_Value.thy ===== *)
theory Replay_Value
  imports Replay_Deriver
begin

text \<open>
  The stored values of package \<open>internal/replay\<close>: nonces and first-seen values (\<open>value.go\<close>) and the
  values of propagation coordinates (\<open>propagation.go\<close>), with the grammar each parser accepts and the
  round trips. A random source is the octets it delivers before it fails.
\<close>

section \<open>Nonces (\<open>value.go\<close>)\<close>

record Nonce =
  nonce_bytes :: bytes

definition zeroNonce :: Nonce where
  "zeroNonce = \<lparr>nonce_bytes = replicate 8 (CHR 0x00)\<rparr>"

definition Nonce_Valid :: "Nonce \<Rightarrow> bool" where
  "Nonce_Valid n \<longleftrightarrow> nonce_bytes n \<noteq> replicate 8 (CHR 0x00)"

text \<open>\<open>io.ReadFull\<close>: the destination array and whether reading failed.\<close>

definition ReadFull :: "bytes \<Rightarrow> nat \<Rightarrow> bytes \<times> bool" where
  "ReadFull random n = (take n random @ replicate (n - length random) (CHR 0x00), length random < n)"

definition NewNonce :: "bytes \<Rightarrow> (ReplayError, Nonce) result" where
  "NewNonce random =
     (case ReadFull random 8 of
        (buffer, failed) \<Rightarrow>
          if failed \<or> \<not> Nonce_Valid \<lparr>nonce_bytes = buffer\<rparr> then Inl (NewReplayError ReplayInternalInvariant)
          else Inr \<lparr>nonce_bytes = buffer\<rparr>)"

definition Nonce_encode :: "Nonce \<Rightarrow> bytes" where
  "Nonce_encode n = hex_EncodeToString (nonce_bytes n)"

definition parseNonce :: "bytes \<Rightarrow> Nonce option" where
  "parseNonce s =
     (if length s \<noteq> 16 then None
      else if \<exists>c \<in> set s. \<not> lower_hex c then None
      else case hex_Decode s of None \<Rightarrow> None | Some x \<Rightarrow> Some \<lparr>nonce_bytes = x\<rparr>)"

section \<open>First-seen values (\<open>value.go\<close>)\<close>

abbreviation StoredValue :: bytes where "StoredValue \<equiv> ''v1''"
abbreviation FirstSeenValuePrefix :: bytes where "FirstSeenValuePrefix \<equiv> ''v2:''"

definition FirstSeenValue :: "Nonce \<Rightarrow> (ReplayError, bytes) result" where
  "FirstSeenValue nonce =
     (if \<not> Nonce_Valid nonce then Inl (NewReplayError ReplayInvalidRequest)
      else Inr (FirstSeenValuePrefix @ Nonce_encode nonce))"

text \<open>The nonce and the legacy flag of an accepted value.\<close>

definition ParseFirstSeenValue :: "bytes \<Rightarrow> (Nonce \<times> bool) option" where
  "ParseFirstSeenValue v =
     (if v = StoredValue then Some (zeroNonce, True)
      else if length v \<noteq> length FirstSeenValuePrefix + 16 \<or> take (length FirstSeenValuePrefix) v \<noteq> FirstSeenValuePrefix
      then None
      else case parseNonce (drop (length FirstSeenValuePrefix) v) of None \<Rightarrow> None | Some n \<Rightarrow> Some (n, False))"

section \<open>Propagation values (\<open>propagation.go\<close>)\<close>

abbreviation PropagationCommittedValue :: bytes where "PropagationCommittedValue \<equiv> ''committed''"
abbreviation PropagationPendingPrefix :: bytes where "PropagationPendingPrefix \<equiv> ''pending:''"
abbreviation maxLeaseExpiryDigits :: nat where "maxLeaseExpiryDigits \<equiv> 16"

text \<open>\<open>strconv.ParseInt\<close> in base ten at 64 bits; \<open>None\<close> is a syntax or range error.\<close>

definition ParseInt :: "bytes \<Rightarrow> int option" where
  "ParseInt s =
     (case s of
        [] \<Rightarrow> None
      | c # r \<Rightarrow>
          (let neg = (c = CHR ''-''); d = (if neg \<or> c = CHR ''+'' then r else s);
               v = (if neg then - int (dec_value d) else int (dec_value d)) in
           if d = [] \<or> (\<exists>x \<in> set d. \<not> isDigit x) \<or> \<not> fits64 v then None else Some v))"

text \<open>\<open>strings.Cut\<close> at a one-octet separator.\<close>

definition Cut :: "bytes \<Rightarrow> byte \<Rightarrow> bytes \<times> bytes \<times> bool" where
  "Cut s sep = (case IndexByte s sep of None \<Rightarrow> (s, [], False) | Some i \<Rightarrow> (take i s, drop (i + 1) s, True))"

definition parseLeaseExpiry :: "bytes \<Rightarrow> Time option" where
  "parseLeaseExpiry digits =
     (if length digits = 0 \<or> length digits > maxLeaseExpiryDigits then None
      else if \<exists>c \<in> set digits. \<not> isDigit c then None
      else case ParseInt digits of
             None \<Rightarrow> None
           | Some milliseconds \<Rightarrow> if milliseconds \<le> 0 then None else Some (time_UnixMilli milliseconds))"

definition PropagationPendingValue :: "Time \<Rightarrow> Nonce \<Rightarrow> (ReplayError, bytes) result" where
  "PropagationPendingValue leaseExpiry nonce =
     (let milliseconds = Time_UnixMilli leaseExpiry; digits = FormatInt milliseconds in
      if milliseconds \<le> 0 \<or> length digits > maxLeaseExpiryDigits \<or> \<not> Nonce_Valid nonce
      then Inl (NewReplayError ReplayInvalidRequest)
      else Inr (PropagationPendingPrefix @ digits @ '':'' @ Nonce_encode nonce))"

definition ParsePropagationValue :: "bytes \<Rightarrow> (PropagationState \<times> Time) option" where
  "ParsePropagationValue v =
     (if v = PropagationCommittedValue then Some (PropagationStateCommitted, zeroTime)
      else if \<not> HasPrefix v PropagationPendingPrefix then None
      else
        (case Cut (drop (length PropagationPendingPrefix) v) (CHR '':'') of
           (digits, nonceText, nonceForm) \<Rightarrow>
             if nonceForm \<and> parseNonce nonceText = None then None
             else (case parseLeaseExpiry digits of
                     None \<Rightarrow> None
                   | Some expiry \<Rightarrow> Some (PropagationStatePending, expiry))))"

section \<open>Nonce texts\<close>

lemma hex_Decode_total:
  "even (length s) \<Longrightarrow> \<forall>c \<in> set s. lower_hex c \<Longrightarrow> \<exists>x. hex_Decode s = Some x \<and> 2 * length x = length s"
proof (induction s rule: hex_Decode.induct)
  case (3 a b r)
  then obtain x where "hex_Decode r = Some x" "2 * length x = length r" by auto
  moreover have "\<exists>v. hex_value a = Some v" "\<exists>w. hex_value b = Some w"
    using 3 by (auto simp: lower_hex_def hex_value_def Let_def)
  ultimately show ?case by auto
qed auto

text \<open>The accepted texts are exactly the renderings of eight octets, each from one nonce.\<close>

lemma parseNonce_Some_iff: "parseNonce s = Some n \<longleftrightarrow> length (nonce_bytes n) = 8 \<and> s = Nonce_encode n"
proof
  assume p: "parseNonce s = Some n"
  then have s: "length s = 16" "\<forall>c \<in> set s. lower_hex c" by (auto simp: parseNonce_def split: if_splits)
  with hex_Decode_total [of s] p have "hex_Decode s = Some (nonce_bytes n)" "length (nonce_bytes n) = 8"
    by (auto simp: parseNonce_def split: if_splits)
  with s(2) hex_Encode_Decode show "length (nonce_bytes n) = 8 \<and> s = Nonce_encode n" by (auto simp: Nonce_encode_def)
next
  assume "length (nonce_bytes n) = 8 \<and> s = Nonce_encode n"
  then show "parseNonce s = Some n"
    using hex_encoding.dec_enc [of "nonce_bytes n"] lower_hex_EncodeToString
    by (auto simp: parseNonce_def Nonce_encode_def)
qed

lemma parseNonce_None_iff:
  "parseNonce s = None \<longleftrightarrow> \<not> (length s = 16 \<and> (\<forall>c \<in> set s. lower_hex c))"
  using hex_Decode_total [of s] by (auto simp: parseNonce_def)

lemma NewNonce_Inr_iff:
  "NewNonce random = Inr n \<longleftrightarrow> 8 \<le> length random \<and> nonce_bytes n = take 8 random \<and> Nonce_Valid n"
  by (cases n) (auto simp: NewNonce_def ReadFull_def Nonce_Valid_def)

lemma Nonce_encode_inject:
  "Nonce_encode m = Nonce_encode n \<longleftrightarrow> m = n" for m n :: Nonce
  by (cases m; cases n) (simp add: Nonce_encode_def hex_encoding.enc_inject)

lemma ParseFirstSeenValue_Some_iff:
  "ParseFirstSeenValue v = Some (n, legacy) \<longleftrightarrow>
     (if legacy then v = StoredValue \<and> n = zeroNonce
      else length (nonce_bytes n) = 8 \<and> v = FirstSeenValuePrefix @ Nonce_encode n)"
proof -
  have "v \<noteq> StoredValue \<Longrightarrow> ParseFirstSeenValue v = Some (n, legacy) \<longleftrightarrow>
      \<not> legacy \<and> length v = 19 \<and> take 3 v = FirstSeenValuePrefix \<and> parseNonce (drop 3 v) = Some n"
    by (auto simp: ParseFirstSeenValue_def numeral_3_eq_3 split: option.splits)
  moreover have "length v = 19 \<and> take 3 v = FirstSeenValuePrefix \<and> parseNonce (drop 3 v) = Some n \<longleftrightarrow>
      length (nonce_bytes n) = 8 \<and> v = FirstSeenValuePrefix @ Nonce_encode n" (is "?l \<longleftrightarrow> ?r")
  proof
    assume ?l
    then show ?r using append_take_drop_id [of 3 v] by (simp add: parseNonce_Some_iff)
  next
    assume ?r
    then show ?l by (simp add: parseNonce_Some_iff) (simp add: Nonce_encode_def)
  qed
  ultimately show ?thesis by (cases "v = StoredValue") (auto simp: ParseFirstSeenValue_def)
qed

section \<open>Decimal expiries\<close>

lemma dec_value_less: "\<forall>b \<in> set s. isDigit b \<Longrightarrow> dec_value s < 10 ^ length s"
  by (induction s rule: rev_induct) (auto simp: isDigit_def)

lemma dec_value_fits: "\<forall>b \<in> set s. isDigit b \<Longrightarrow> length s \<le> 16 \<Longrightarrow> fits64 (int (dec_value s))"
proof -
  assume "\<forall>b \<in> set s. isDigit b" "length s \<le> 16"
  then have "dec_value s < 10 ^ 16" using dec_value_less power_increasing [of "length s" 16 "10 :: nat"] by fastforce
  then show ?thesis by (simp add: fits64_def)
qed

lemma ParseInt_digits:
  assumes "s \<noteq> []" "\<forall>b \<in> set s. isDigit b" "length s \<le> 16"
  shows "ParseInt s = Some (int (dec_value s))"
proof -
  obtain c r where s: "s = c # r" using assms(1) by (cases s) auto
  then have "c \<noteq> CHR ''-''" "c \<noteq> CHR ''+''" using assms(2) by (auto simp: isDigit_def)
  then show ?thesis using assms dec_value_fits [of s] by (auto simp: ParseInt_def s Let_def)
qed

lemma parseLeaseExpiry_Some_iff:
  "parseLeaseExpiry s = Some e \<longleftrightarrow> s \<noteq> [] \<and> length s \<le> 16 \<and> (\<forall>b \<in> set s. isDigit b)
     \<and> 0 < dec_value s \<and> e = time_UnixMilli (int (dec_value s))"
  using ParseInt_digits [of s] by (auto simp: parseLeaseExpiry_def)

lemma FormatInt_digits:
  "0 \<le> n \<Longrightarrow> FormatInt n \<noteq> [] \<and> (\<forall>b \<in> set (FormatInt n). isDigit b) \<and> int (dec_value (FormatInt n)) = n"
  using dec_digits_isDigit dec_digits_value [of "nat n"] by (auto simp: FormatInt_def)

lemma parseLeaseExpiry_FormatInt:
  "0 < n \<Longrightarrow> length (FormatInt n) \<le> 16 \<Longrightarrow> parseLeaseExpiry (FormatInt n) = Some (time_UnixMilli n)"
  using FormatInt_digits [of n] unfolding parseLeaseExpiry_Some_iff by auto

section \<open>Propagation texts\<close>

lemma Cut_sep: "sep \<notin> set a \<Longrightarrow> Cut (a @ sep # b) sep = (a, b, True)"
  by (simp add: Cut_def IndexByte_notin)

lemma Cut_plain: "sep \<notin> set a \<Longrightarrow> Cut a sep = (a, [], False)"
  using IndexByte_None_iff [of a sep] by (simp add: Cut_def)

lemma colon_not_digit: "\<forall>b \<in> set s. isDigit b \<Longrightarrow> CHR '':'' \<notin> set s"
  by (auto simp: isDigit_def)

text \<open>Every rendered pending value parses back to a pending coordinate with the lease expiry, to the millisecond.\<close>

lemma pending_value_parses:
  assumes "PropagationPendingValue e n = Inr v" "length (nonce_bytes n) = 8"
  shows "ParsePropagationValue v = Some (PropagationStatePending, time_UnixMilli (Time_UnixMilli e))"
proof -
  let ?d = "FormatInt (Time_UnixMilli e)"
  have v: "0 < Time_UnixMilli e" "length ?d \<le> 16" "v = PropagationPendingPrefix @ ?d @ '':'' @ Nonce_encode n"
    using assms(1) by (auto simp: PropagationPendingValue_def Let_def split: if_splits)
  have "CHR '':'' \<notin> set ?d" using FormatInt_digits [of "Time_UnixMilli e"] v(1) by (intro colon_not_digit) simp
  then have "Cut (?d @ CHR '':'' # Nonce_encode n) (CHR '':'') = (?d, Nonce_encode n, True)" by (rule Cut_sep)
  moreover have "parseNonce (Nonce_encode n) = Some n" using assms(2) by (simp add: parseNonce_Some_iff)
  moreover have "HasPrefix v PropagationPendingPrefix" unfolding v(3) by (rule HasPrefix_append)
  ultimately show ?thesis
    using parseLeaseExpiry_FormatInt [OF v(1,2)] by (simp add: ParsePropagationValue_def v(3))
qed

text \<open>The whole accepted language.\<close>

lemma ParsePropagationValue_Some_iff:
  "ParsePropagationValue v = Some (s, e) \<longleftrightarrow>
     v = PropagationCommittedValue \<and> s = PropagationStateCommitted \<and> e = zeroTime \<or>
     s = PropagationStatePending \<and> (\<exists>d. parseLeaseExpiry d = Some e \<and>
       (v = PropagationPendingPrefix @ d \<or>
        (\<exists>n. length (nonce_bytes n) = 8 \<and> v = PropagationPendingPrefix @ d @ '':'' @ Nonce_encode n)))"
    (is "_ \<longleftrightarrow> ?c \<or> ?p")
proof (cases "HasPrefix v PropagationPendingPrefix")
  case False
  then have "\<not> ?p" by (metis HasPrefix_append)
  then show ?thesis using False by (auto simp: ParsePropagationValue_def)
next
  case True
  then obtain r where v: "v = PropagationPendingPrefix @ r" by (auto simp: HasPrefix_iff)
  obtain d t f where c: "Cut r (CHR '':'') = (d, t, f)" by (cases "Cut r (CHR '':'')") auto
  have parse: "ParsePropagationValue v = Some (s, e) \<longleftrightarrow>
      \<not> (f \<and> parseNonce t = None) \<and> s = PropagationStatePending \<and> parseLeaseExpiry d = Some e"
    using True c by (auto simp: ParsePropagationValue_def v split: option.split)
  have r: "r = (if f then d @ CHR '':'' # t else d)"
  proof (cases "IndexByte r (CHR '':'')")
    case None
    then show ?thesis using c by (simp add: Cut_def)
  next
    case (Some i)
    then show ?thesis using c conjunct1 [OF IndexByte_Some [OF Some]] by (auto simp: Cut_def)
  qed
  have "v \<noteq> PropagationCommittedValue" by (simp add: v)
  moreover have "parseLeaseExpiry d' = Some e \<Longrightarrow> CHR '':'' \<notin> set d'" for d'
    using colon_not_digit by (auto simp: parseLeaseExpiry_Some_iff)
  then have uncut: "(r = d' \<longrightarrow> d = d' \<and> \<not> f) \<and> (r = d' @ CHR '':'' # t' \<longrightarrow> d = d' \<and> t = t' \<and> f)"
    if "parseLeaseExpiry d' = Some e" for d' t'
    using that c Cut_sep [of "CHR '':''" d' t'] Cut_plain [of "CHR '':''" d'] by auto
  have "?p \<longleftrightarrow> \<not> (f \<and> parseNonce t = None) \<and> s = PropagationStatePending \<and> parseLeaseExpiry d = Some e" (is "_ \<longleftrightarrow> ?q")
  proof
    assume ?p
    then obtain d' where d': "s = PropagationStatePending" "parseLeaseExpiry d' = Some e"
      "r = d' \<or> (\<exists>n. length (nonce_bytes n) = 8 \<and> r = d' @ CHR '':'' # Nonce_encode n)" by (auto simp: v)
    from d'(3) show ?q
    proof
      assume "r = d'"
      with uncut [OF d'(2)] d' show ?q by auto
    next
      assume "\<exists>n. length (nonce_bytes n) = 8 \<and> r = d' @ CHR '':'' # Nonce_encode n"
      then obtain n where n: "length (nonce_bytes n) = 8" "r = d' @ CHR '':'' # Nonce_encode n" by blast
      then have "parseNonce (Nonce_encode n) = Some n" by (simp add: parseNonce_Some_iff)
      with uncut [OF d'(2), of "Nonce_encode n"] n(2) d' show ?q by auto
    qed
  next
    assume q: ?q
    show ?p
    proof (cases f)
      case True
      then obtain n where "parseNonce t = Some n" using q by auto
      then have "length (nonce_bytes n) = 8" "t = Nonce_encode n" by (simp_all add: parseNonce_Some_iff)
      then show ?p using q True r v by auto
    next
      case False
      then show ?p using q r v by auto
    qed
  qed
  ultimately show ?thesis using parse by blast
qed

text \<open>Between the epoch and the last expiry of sixteen digits nothing wraps, and the parsed expiry is the
  rendered one without its part below a millisecond.\<close>

lemma unix_milli_exact:
  assumes "time_valid e" "unixToInternal \<le> t_sec e" "t_sec e \<le> unixToInternal + 10 ^ 13"
  shows "Time_UnixMilli e = (t_sec e - unixToInternal) * 1000 + t_nsec e div 1000000"
    and "time_UnixMilli (Time_UnixMilli e) = \<lparr>t_sec = t_sec e, t_nsec = t_nsec e div 1000000 * 1000000\<rparr>"
proof -
  define s where "s = t_sec e - unixToInternal"
  define m where "m = t_nsec e div 1000000"
  have s: "0 \<le> s" "s \<le> 10 ^ 13" using assms(2,3) by (simp_all add: s_def)
  have m: "0 \<le> m" "m < 1000" using assms(1) by (auto simp: m_def time_valid_def pos_imp_zdiv_nonneg_iff)
  have "fits64 s" "fits64 (s * 1000)" "fits64 (s * 1000 + m)" using s m by (simp_all add: fits64_def)
  then show u: "Time_UnixMilli e = (t_sec e - unixToInternal) * 1000 + t_nsec e div 1000000"
    by (simp add: Time_UnixMilli_def Time_Unix_def s_def [symmetric] m_def [symmetric])
  have q: "(s * 1000 + m) sdiv 1000 = s" "(s * 1000 + m) smod 1000 = m"
  proof -
    have "(s * 1000 + m) div 1000 = s" using m by simp
    moreover have "sgn (s * 1000 + m) * \<bar>s * 1000 + m\<bar> = s * 1000 + m" by (rule sgn_mult_abs)
    moreover have "0 \<le> s * 1000 + m" using s m by simp
    ultimately show d: "(s * 1000 + m) sdiv 1000 = s"
      by (cases "s * 1000 + m = 0") (simp_all add: signed_divide_int_def sgn_if)
    show "(s * 1000 + m) smod 1000 = m" using smod_int_alt_def [of "s * 1000 + m" 1000] d sdiv_mult_smod_eq
      by (metis add_diff_cancel_left' mult.commute)
  qed
  have "fits64 (s + unixToInternal)" using s by (simp add: fits64_def unixToInternal_def)
  then show "time_UnixMilli (Time_UnixMilli e) = \<lparr>t_sec = t_sec e, t_nsec = t_nsec e div 1000000 * 1000000\<rparr>"
    unfolding u s_def [symmetric] m_def [symmetric] using q m by (simp add: time_UnixMilli_def Let_def s_def)
qed

end
