(* ===== verification/Go_Heap.thy ===== *)
theory Go_Heap
  imports Main "HOL-Library.Multiset"
begin

text \<open>
  The standard-library package \<open>container/heap\<close>. As in Go the algorithms see the collection only
  through its methods: here \<open>lt\<close> for \<open>Less\<close>, \<open>sw\<close> for \<open>Swap\<close>, \<open>len\<close>, \<open>push\<close> and \<open>pop\<close>, all on a
  state \<open>'s\<close>. A locale states what a client's methods promise; under it every algorithm is the same
  algorithm on the list of keys, where the heap order is proved once.
\<close>

section \<open>The algorithms\<close>

function up :: "('s \<Rightarrow> nat \<Rightarrow> nat \<Rightarrow> bool) \<Rightarrow> ('s \<Rightarrow> nat \<Rightarrow> nat \<Rightarrow> 's) \<Rightarrow> 's \<Rightarrow> nat \<Rightarrow> 's" where
  "up lt sw h j =
     (let i = (j - 1) div 2 in
      if i = j \<or> \<not> lt h j i then h else up lt sw (sw h i j) i)"
  by pat_completeness auto
termination
  by (relation "measure (\<lambda>(lt, sw, h, j). j)") auto

function downLoop :: "('s \<Rightarrow> nat \<Rightarrow> nat \<Rightarrow> bool) \<Rightarrow> ('s \<Rightarrow> nat \<Rightarrow> nat \<Rightarrow> 's) \<Rightarrow> 's \<Rightarrow> nat \<Rightarrow> nat \<Rightarrow> 's \<times> nat" where
  "downLoop lt sw h i n =
     (let j1 = 2 * i + 1 in
      if j1 \<ge> n then (h, i)
      else (let j = (if j1 + 1 < n \<and> lt h (j1 + 1) j1 then j1 + 1 else j1) in
            if \<not> lt h j i then (h, i) else downLoop lt sw (sw h i j) j n))"
  by pat_completeness auto
termination
  by (relation "measure (\<lambda>(lt, sw, h, i, n). n - i)") auto

definition down :: "('s \<Rightarrow> nat \<Rightarrow> nat \<Rightarrow> bool) \<Rightarrow> ('s \<Rightarrow> nat \<Rightarrow> nat \<Rightarrow> 's) \<Rightarrow> 's \<Rightarrow> nat \<Rightarrow> nat \<Rightarrow> 's \<times> bool" where
  "down lt sw h i0 n = (case downLoop lt sw h i0 n of (h', i) \<Rightarrow> (h', i > i0))"

definition heap_Push ::
    "('s \<Rightarrow> nat) \<Rightarrow> ('s \<Rightarrow> nat \<Rightarrow> nat \<Rightarrow> bool) \<Rightarrow> ('s \<Rightarrow> nat \<Rightarrow> nat \<Rightarrow> 's) \<Rightarrow> ('s \<Rightarrow> 'a \<Rightarrow> 's) \<Rightarrow> 's \<Rightarrow> 'a \<Rightarrow> 's" where
  "heap_Push len lt sw push h x = (let h1 = push h x in up lt sw h1 (len h1 - 1))"

definition heap_Pop ::
    "('s \<Rightarrow> nat) \<Rightarrow> ('s \<Rightarrow> nat \<Rightarrow> nat \<Rightarrow> bool) \<Rightarrow> ('s \<Rightarrow> nat \<Rightarrow> nat \<Rightarrow> 's) \<Rightarrow> ('s \<Rightarrow> 's \<times> 'a) \<Rightarrow> 's \<Rightarrow> 's \<times> 'a" where
  "heap_Pop len lt sw pop h =
     (let n = len h - 1; h1 = sw h 0 n; h2 = fst (down lt sw h1 0 n) in pop h2)"

definition heap_Fix ::
    "('s \<Rightarrow> nat) \<Rightarrow> ('s \<Rightarrow> nat \<Rightarrow> nat \<Rightarrow> bool) \<Rightarrow> ('s \<Rightarrow> nat \<Rightarrow> nat \<Rightarrow> 's) \<Rightarrow> 's \<Rightarrow> nat \<Rightarrow> 's" where
  "heap_Fix len lt sw h i =
     (case down lt sw h i (len h) of (h1, moved) \<Rightarrow> if \<not> moved then up lt sw h1 i else h1)"

declare up.simps [simp del] downLoop.simps [simp del]

section \<open>Lists of keys\<close>

definition swap_list :: "'a list \<Rightarrow> nat \<Rightarrow> nat \<Rightarrow> 'a list" where
  "swap_list ks i j = ks[i := ks ! j, j := ks ! i]"

definition lt_list :: "('k :: linorder) list \<Rightarrow> nat \<Rightarrow> nat \<Rightarrow> bool" where
  "lt_list ks i j \<longleftrightarrow> ks ! i < ks ! j"

lemma length_swap_list [simp]: "length (swap_list ks i j) = length ks"
  by (simp add: swap_list_def)

lemma nth_swap_list:
  "i < length ks \<Longrightarrow> j < length ks \<Longrightarrow> k < length ks \<Longrightarrow>
     swap_list ks i j ! k = (if k = j then ks ! i else if k = i then ks ! j else ks ! k)"
  by (simp add: swap_list_def nth_list_update)

lemma mset_swap_list: "i < length ks \<Longrightarrow> j < length ks \<Longrightarrow> mset (swap_list ks i j) = mset ks"
  by (simp add: swap_list_def mset_swap)

lemma map_swap_list: "i < length xs \<Longrightarrow> j < length xs \<Longrightarrow> map f (swap_list xs i j) = swap_list (map f xs) i j"
  by (simp add: swap_list_def map_update)

definition parent :: "nat \<Rightarrow> nat" where
  "parent k = (k - 1) div 2"

lemma parent_less: "0 < k \<Longrightarrow> parent k < k"
  by (simp add: parent_def)

lemma parent_neq: "0 < k \<Longrightarrow> parent k \<noteq> k"
  using parent_less [of k] by simp

lemma parent_eq_iff: "parent k = k \<longleftrightarrow> k = 0"
  by (auto simp: parent_def)

lemma parent_children: "0 < k \<Longrightarrow> parent k = i \<longleftrightarrow> k = 2 * i + 1 \<or> k = 2 * i + 2"
  unfolding parent_def by presburger

lemma up_step:
  "up lt sw h j = (if parent j = j \<or> \<not> lt h j (parent j) then h else up lt sw (sw h (parent j) j) (parent j))"
  by (subst up.simps) (simp add: Let_def parent_def)

text \<open>Position \<open>k\<close> is in order with its parent; the order of the first \<open>n\<close> positions.\<close>

definition ok_at :: "('k :: linorder) list \<Rightarrow> nat \<Rightarrow> bool" where
  "ok_at ks k \<longleftrightarrow> ks ! (parent k) \<le> ks ! k"

definition heap_upto :: "('k :: linorder) list \<Rightarrow> nat \<Rightarrow> bool" where
  "heap_upto ks n \<longleftrightarrow> (\<forall>k. 0 < k \<and> k < n \<longrightarrow> ok_at ks k)"

definition heap_ordered :: "('k :: linorder) list \<Rightarrow> bool" where
  "heap_ordered ks \<longleftrightarrow> heap_upto ks (length ks)"

lemma heap_ordered_Nil [simp]: "heap_ordered []"
  by (simp add: heap_ordered_def heap_upto_def)

text \<open>The root is a least element.\<close>

lemma heap_upto_root: "heap_upto ks n \<Longrightarrow> k < n \<Longrightarrow> ks ! 0 \<le> ks ! k"
proof (induction k rule: less_induct)
  case (less k)
  show ?case
  proof (cases "k = 0")
    case False
    then have "parent k < k" by (simp add: parent_less)
    with less have "ks ! 0 \<le> ks ! (parent k)" by simp
    also have "\<dots> \<le> ks ! k" using less.prems False by (simp add: heap_upto_def ok_at_def)
    finally show ?thesis .
  qed simp
qed

lemma heap_ordered_root: "heap_ordered ks \<Longrightarrow> x \<in> set ks \<Longrightarrow> ks ! 0 \<le> x"
  using heap_upto_root unfolding heap_ordered_def in_set_conv_nth by auto

section \<open>Sifting up\<close>

text \<open>Every position but \<open>j\<close> is in order, and the children of \<open>j\<close> are above its parent.\<close>

definition up_ready :: "('k :: linorder) list \<Rightarrow> nat \<Rightarrow> bool" where
  "up_ready ks j \<longleftrightarrow> j < length ks
     \<and> (\<forall>k. 0 < k \<and> k < length ks \<and> k \<noteq> j \<longrightarrow> ok_at ks k)
     \<and> (\<forall>k. 0 < k \<and> k < length ks \<and> 0 < j \<and> parent k = j \<longrightarrow> ks ! (parent j) \<le> ks ! k)"

lemma up_ready_step:
  assumes "up_ready ks j" "0 < j" "ks ! j < ks ! (parent j)"
  shows "up_ready (swap_list ks (parent j) j) (parent j)"
proof -
  let ?i = "parent j" and ?ks = "swap_list ks (parent j) j"
  have j: "j < length ks" and i: "?i < j" using assms by (auto simp: up_ready_def parent_less)
  have nth: "?ks ! k = (if k = j then ks ! ?i else if k = ?i then ks ! j else ks ! k)" if "k < length ks" for k
    using that i j by (simp add: nth_swap_list)
  have ok: "ks ! (parent k) \<le> ks ! k" if "0 < k" "k < length ks" "k \<noteq> j" for k
    using assms(1) that by (auto simp: up_ready_def ok_at_def)
  have gp: "ks ! ?i \<le> ks ! k" if "0 < k" "k < length ks" "parent k = j" for k
    using assms(1,2) that by (auto simp: up_ready_def)
  have "ok_at ?ks k" if k: "0 < k" "k < length ks" "k \<noteq> ?i" for k
  proof -
    have p: "parent k < length ks" using k parent_less [of k] by linarith
    consider "k = j" | "k \<noteq> j" "parent k = j" | "k \<noteq> j" "parent k = ?i" | "k \<noteq> j" "parent k \<noteq> j" "parent k \<noteq> ?i"
      by blast
    then show ?thesis
    proof cases
      case 1
      then show ?thesis using assms(3) i j by (simp add: ok_at_def nth less_imp_le)
    next
      case 2
      then show ?thesis using gp [of k] k i j p by (simp add: ok_at_def nth)
    next
      case 3
      then show ?thesis using ok [of k] assms(3) k i j p by (simp add: ok_at_def nth)
    next
      case 4
      then show ?thesis using ok [of k] k p by (simp add: ok_at_def nth)
    qed
  qed
  moreover have "?ks ! (parent ?i) \<le> ?ks ! k" if k: "0 < k" "k < length ks" "0 < ?i" "parent k = ?i" for k
  proof -
    have p: "parent ?i < length ks" "parent ?i \<noteq> ?i" "parent ?i \<noteq> j"
      using i j k(3) parent_less [of ?i] by linarith+
    have oi: "ks ! (parent ?i) \<le> ks ! ?i" using ok [of ?i] i j k(3) by simp
    show ?thesis
    proof (cases "k = j")
      case True
      then show ?thesis using oi p j by (simp add: nth)
    next
      case False
      have "ks ! ?i \<le> ks ! k" using ok [of k] k False by simp
      moreover have "k \<noteq> ?i" using k parent_neq [of k] by auto
      ultimately show ?thesis using oi p k False by (simp add: nth)
    qed
  qed
  ultimately show ?thesis using i j by (simp add: up_ready_def)
qed

lemma up_list_heap:
  "up_ready ks j \<Longrightarrow> heap_ordered (up lt_list swap_list ks j) \<and> mset (up lt_list swap_list ks j) = mset ks
     \<and> length (up lt_list swap_list ks j) = length ks"
proof (induction j arbitrary: ks rule: less_induct)
  case (less j)
  let ?i = "parent j"
  show ?case
  proof (cases "?i = j \<or> \<not> lt_list ks j ?i")
    case True
    then have "up lt_list swap_list ks j = ks" by (subst up_step) auto
    moreover have "ok_at ks j \<or> j = 0" using True by (auto simp: lt_list_def ok_at_def parent_eq_iff)
    then have "heap_ordered ks"
      using less.prems by (auto simp: heap_ordered_def heap_upto_def up_ready_def)
    ultimately show ?thesis by simp
  next
    case False
    then have j: "0 < j" "ks ! j < ks ! ?i" "?i < j"
      by (auto simp: lt_list_def parent_eq_iff parent_less)
    have len: "?i < length ks" "j < length ks" using less.prems j by (auto simp: up_ready_def)
    have "up lt_list swap_list ks j = up lt_list swap_list (swap_list ks ?i j) ?i"
      using False by (subst up_step) auto
    with less.IH [OF j(3) up_ready_step [OF less.prems j(1,2)]] show ?thesis
      using len by (simp add: mset_swap_list)
  qed
qed

section \<open>Sifting down\<close>

lemma downLoop_step:
  "downLoop lt sw h i n =
     (if 2 * i + 1 \<ge> n then (h, i)
      else (let j = (if 2 * i + 2 < n \<and> lt h (2 * i + 2) (2 * i + 1) then 2 * i + 2 else 2 * i + 1) in
            if \<not> lt h j i then (h, i) else downLoop lt sw (sw h i j) j n))"
  by (subst downLoop.simps) (simp add: Let_def)

text \<open>
  Among the first \<open>n\<close> positions every one but \<open>i\<close> and its children is in order, and the children of
  \<open>i\<close> are above its parent.
\<close>

definition down_ready :: "('k :: linorder) list \<Rightarrow> nat \<Rightarrow> nat \<Rightarrow> bool" where
  "down_ready ks i n \<longleftrightarrow> n \<le> length ks
     \<and> (\<forall>k. 0 < k \<and> k < n \<and> k \<noteq> i \<and> parent k \<noteq> i \<longrightarrow> ok_at ks k)
     \<and> (\<forall>k. 0 < k \<and> k < n \<and> 0 < i \<and> parent k = i \<longrightarrow> ks ! parent i \<le> ks ! k)"

lemma down_ready_step:
  assumes "down_ready ks i n" "0 < j" "j < n" "parent j = i" "ks ! j < ks ! i"
    and least: "\<And>k. 0 < k \<Longrightarrow> k < n \<Longrightarrow> parent k = i \<Longrightarrow> ks ! j \<le> ks ! k"
  shows "down_ready (swap_list ks i j) j n \<and> ok_at (swap_list ks i j) j \<and> (0 < i \<longrightarrow> ok_at (swap_list ks i j) i)"
proof -
  let ?ks = "swap_list ks i j"
  have i: "i < j" using assms(2,4) parent_less by auto
  have n: "n \<le> length ks" using assms(1) by (simp add: down_ready_def)
  have nth: "?ks ! k = (if k = j then ks ! i else if k = i then ks ! j else ks ! k)" if "k < length ks" for k
    using that i n assms(3) by (simp add: nth_swap_list)
  have ok: "ks ! parent k \<le> ks ! k" if "0 < k" "k < n" "k \<noteq> i" "parent k \<noteq> i" for k
    using assms(1) that by (auto simp: down_ready_def ok_at_def)
  have le: "parent k < length ks" "k < length ks" if "0 < k" "k < n" for k
    using parent_less [OF that(1)] that n by linarith+
  have "ok_at ?ks k" if k: "0 < k" "k < n" "parent k \<noteq> j" "k \<noteq> i" for k
  proof (cases "parent k = i")
    case True
    then show ?thesis using least [of k] k le [OF k(1,2)] i assms(5) by (simp add: ok_at_def nth less_imp_le)
  next
    case False
    moreover have "k \<noteq> j" using False assms(4) by auto
    ultimately show ?thesis using ok [of k] k le [OF k(1,2)] by (simp add: ok_at_def nth)
  qed
  moreover have oi: "ok_at ?ks i" if "0 < i"
  proof -
    have "ks ! parent i \<le> ks ! j" using assms(1-4) that by (simp add: down_ready_def)
    moreover have "parent i < i" using that by (rule parent_less)
    ultimately show ?thesis using i n assms(3) by (simp add: ok_at_def nth)
  qed
  moreover have "?ks ! parent j \<le> ?ks ! k" if k: "0 < k" "k < n" "parent k = j" for k
  proof -
    have "k \<noteq> i" "k \<noteq> j" using k parent_less [OF k(1)] i by auto
    moreover have "ks ! j \<le> ks ! k" using ok [of k] k i calculation by auto
    ultimately show ?thesis using le [OF k(1,2)] assms(4) i n assms(3) by (simp add: nth)
  qed
  moreover have "ok_at ?ks j" using assms(3-5) i n by (simp add: ok_at_def nth less_imp_le)
  ultimately show ?thesis using n by (auto simp: down_ready_def)
qed

lemma downLoop_list:
  "down_ready ks i n \<Longrightarrow> downLoop lt_list swap_list ks i n = (ks', i') \<Longrightarrow>
     mset ks' = mset ks \<and> length ks' = length ks \<and> i \<le> i' \<and> (i' = i \<longrightarrow> ks' = ks)
     \<and> (\<forall>k \<ge> n. k < length ks \<longrightarrow> ks' ! k = ks ! k)
     \<and> (\<forall>k. 0 < k \<and> k < n \<and> (k = i \<longrightarrow> i' \<noteq> i) \<longrightarrow> ok_at ks' k)"
proof (induction "n - i" arbitrary: ks i rule: less_induct)
  case less
  let ?j = "if 2 * i + 2 < n \<and> lt_list ks (2 * i + 2) (2 * i + 1) then 2 * i + 2 else 2 * i + 1"
  show ?case
  proof (cases "2 * i + 1 \<ge> n \<or> \<not> lt_list ks ?j i")
    case True
    then have eq: "ks' = ks" "i' = i" using less.prems(2) by (subst (asm) downLoop_step, auto simp: Let_def split: if_splits)+
    have "ok_at ks k" if k: "0 < k" "k < n" "parent k = i" for k
    proof -
      have "k = 2 * i + 1 \<or> k = 2 * i + 2" using k parent_children by blast
      with True k show ?thesis by (auto simp: ok_at_def lt_list_def not_less split: if_splits)
    qed
    then show ?thesis using eq less.prems(1) by (auto simp: down_ready_def)
  next
    case False
    obtain j where jd: "j = ?j" by blast
    have j: "0 < j" "j < n" "parent j = i" "ks ! j < ks ! i"
      using False unfolding jd by (auto simp: lt_list_def parent_def)
    have least: "ks ! j \<le> ks ! k" if k: "0 < k" "k < n" "parent k = i" for k
    proof -
      have "k = 2 * i + 1 \<or> k = 2 * i + 2" using k parent_children by blast
      then show ?thesis using k(2) unfolding jd by (auto simp: lt_list_def)
    qed
    note step = down_ready_step [OF less.prems(1) j(1-4) least]
    have rec: "downLoop lt_list swap_list (swap_list ks i j) j n = (ks', i')"
      using False less.prems(2) unfolding jd by (subst (asm) downLoop_step) (simp add: Let_def split: if_splits)
    have lt: "i < j" using j parent_less by blast
    have n: "n \<le> length ks" using less.prems(1) by (simp add: down_ready_def)
    have "n - j < n - i" using lt j(2) by linarith
    note IH = less.hyps [OF this conjunct1 [OF step] rec, unfolded length_swap_list]
    have IH: "mset ks' = mset (swap_list ks i j)" "length ks' = length ks" "j \<le> i'"
        "i' = j \<longrightarrow> ks' = swap_list ks i j"
        "\<forall>k \<ge> n. k < length ks \<longrightarrow> ks' ! k = swap_list ks i j ! k"
        "\<forall>k. 0 < k \<and> k < n \<and> (k = j \<longrightarrow> i' \<noteq> j) \<longrightarrow> ok_at ks' k"
      using IH by blast+
    have "ok_at ks' k" if k: "0 < k" "k < n" for k
    proof (cases "k = j \<and> i' = j")
      case True
      with IH(4) have "ks' = swap_list ks i j" by blast
      with True step show ?thesis by metis
    next
      case False
      with IH(6) k show ?thesis by blast
    qed
    moreover have "ks' ! k = ks ! k" if "n \<le> k" "k < length ks" for k
      using IH(5) that lt j(2) n by (simp add: nth_swap_list)
    moreover have "mset (swap_list ks i j) = mset ks" using lt j(2) n by (intro mset_swap_list) linarith+
    moreover have "i < i'" using IH(3) lt by linarith
    ultimately show ?thesis using IH by simp
  qed
qed

section \<open>Operations on lists of keys\<close>

lemma push_ready:
  assumes "heap_ordered ks"
  shows "up_ready (ks @ [x]) (length ks)"
proof -
  have "ok_at (ks @ [x]) k" if "0 < k" "k < length ks" for k
    using assms that parent_less [OF that(1)]
    by (auto simp: heap_ordered_def heap_upto_def ok_at_def nth_append)
  moreover have "parent k \<noteq> length ks" if "0 < k" "k < Suc (length ks)" for k
    using parent_less [OF that(1)] that by linarith
  ultimately show ?thesis by (simp add: up_ready_def less_Suc_eq) metis
qed

lemma pop_ready:
  assumes "heap_ordered ks" "ks \<noteq> []"
  shows "down_ready (swap_list ks 0 (length ks - 1)) 0 (length ks - 1)"
proof -
  have "ok_at (swap_list ks 0 (length ks - 1)) k" if k: "0 < k" "k < length ks - 1" "parent k \<noteq> 0" for k
  proof -
    have p: "parent k < length ks - 1" using parent_less [OF k(1)] k(2) by linarith
    have nth: "swap_list ks 0 (length ks - 1) ! m = ks ! m" if "0 < m" "m < length ks - 1" for m
    proof -
      have "m < length ks" using that(2) by linarith
      with that assms(2) nth_swap_list [of 0 ks "length ks - 1" m] show ?thesis by simp
    qed
    have "ok_at ks k" using assms(1) k by (simp add: heap_ordered_def heap_upto_def)
    then show ?thesis unfolding ok_at_def using k p by (simp only: nth)
  qed
  then show ?thesis by (simp add: down_ready_def)
qed

lemma pop_list:
  assumes "heap_ordered ks" "ks \<noteq> []" "n = length ks - 1"
    and "downLoop lt_list swap_list (swap_list ks 0 n) 0 n = (ks', i')"
  shows "length ks' = length ks \<and> last ks' = ks ! 0 \<and> heap_ordered (butlast ks') \<and> mset ks' = mset ks"
proof -
  have n: "n < length ks" "0 < length ks" using assms(2,3) by auto
  note down = downLoop_list [OF pop_ready [OF assms(1,2), folded assms(3)] assms(4)]
  then have len: "length ks' = length ks" by simp
  then have "last ks' = ks' ! n" using n assms(3) by (metis last_conv_nth length_0_conv less_numeral_extra(3))
  also have "\<dots> = ks ! 0" using down n by (simp add: nth_swap_list)
  finally have last: "last ks' = ks ! 0" .
  have "ok_at (butlast ks') k" if k: "0 < k" "k < n" for k
    using down k parent_less [OF k(1)] len assms(3) by (auto simp: ok_at_def nth_butlast)
  then have "heap_ordered (butlast ks')" using len assms(3) by (simp add: heap_ordered_def heap_upto_def)
  moreover have "mset ks' = mset ks" using down n by (simp add: mset_swap_list)
  ultimately show ?thesis using len last by simp
qed

lemma fix_ready:
  assumes "heap_ordered ks" "i < length ks"
  shows "down_ready (ks[i := x]) i (length ks)"
proof -
  have ok: "ks ! parent k \<le> ks ! k" if "0 < k" "k < length ks" for k
    using assms(1) that by (simp add: heap_ordered_def heap_upto_def ok_at_def)
  have "ok_at (ks[i := x]) k" if "0 < k" "k < length ks" "k \<noteq> i" "parent k \<noteq> i" for k
    using ok [of k] that by (simp add: ok_at_def)
  moreover have "ks[i := x] ! parent i \<le> ks[i := x] ! k" if k: "0 < k" "k < length ks" "0 < i" "parent k = i" for k
  proof -
    have "k \<noteq> i" "parent i \<noteq> i" using parent_neq [of k] parent_neq [of i] k by auto
    then show ?thesis using ok [of k] ok [of i] k assms(2) by simp
  qed
  ultimately show ?thesis by (simp add: down_ready_def)
qed

lemma fix_list:
  assumes "heap_ordered ks" "i < length ks"
    and "downLoop lt_list swap_list (ks[i := x]) i (length ks) = (ks', i')"
    and "ks'' = (if i' > i then ks' else up lt_list swap_list ks' i)"
  shows "heap_ordered ks'' \<and> mset ks'' = mset (ks[i := x]) \<and> length ks'' = length ks"
proof -
  note ready = fix_ready [OF assms(1,2), of x]
  note down = downLoop_list [OF ready assms(3)]
  show ?thesis
  proof (cases "i' > i")
    case True
    then have "ok_at ks' k" if "0 < k" "k < length ks" for k using down that by auto
    then have "heap_ordered ks'" using down by (simp add: heap_ordered_def heap_upto_def)
    then show ?thesis using True down assms(4) by simp
  next
    case False
    then have "i' = i" "ks' = ks[i := x]" using down by auto
    then have "up_ready ks' i" using down ready assms(2) by (auto simp: up_ready_def down_ready_def)
    from up_list_heap [OF this] show ?thesis using False assms(4) \<open>ks' = ks[i := x]\<close> by simp
  qed
qed

section \<open>The contract of a heap client\<close>

text \<open>
  A client's state holds an array of elements; each element has a key. \<open>Less\<close> compares keys, \<open>Swap\<close>
  exchanges two positions and keeps the keys and the client's own invariant.
\<close>

locale heap_client =
  fixes arr :: "'s \<Rightarrow> 'a list"
    and keyof :: "'s \<Rightarrow> 'a \<Rightarrow> 'k :: linorder"
    and inv :: "'s \<Rightarrow> bool"
    and lt :: "'s \<Rightarrow> nat \<Rightarrow> nat \<Rightarrow> bool"
    and sw :: "'s \<Rightarrow> nat \<Rightarrow> nat \<Rightarrow> 's"
  assumes lt_key: "inv h \<Longrightarrow> i < length (arr h) \<Longrightarrow> j < length (arr h) \<Longrightarrow>
      lt h i j \<longleftrightarrow> keyof h (arr h ! i) < keyof h (arr h ! j)"
    and arr_sw: "inv h \<Longrightarrow> i < length (arr h) \<Longrightarrow> j < length (arr h) \<Longrightarrow> arr (sw h i j) = swap_list (arr h) i j"
    and key_sw: "inv h \<Longrightarrow> i < length (arr h) \<Longrightarrow> j < length (arr h) \<Longrightarrow> a \<in> set (arr h) \<Longrightarrow>
      keyof (sw h i j) a = keyof h a"
    and inv_sw: "inv h \<Longrightarrow> i < length (arr h) \<Longrightarrow> j < length (arr h) \<Longrightarrow> inv (sw h i j)"
begin

lemma set_sw:
  "inv h \<Longrightarrow> i < length (arr h) \<Longrightarrow> j < length (arr h) \<Longrightarrow> set (arr (sw h i j)) = set (arr h)"
  using arr_sw mset_swap_list by (metis mset_eq_setD)

lemma keys_sw:
  assumes "inv h" "i < length (arr h)" "j < length (arr h)"
  shows "map (keyof (sw h i j)) (arr (sw h i j)) = swap_list (map (keyof h) (arr h)) i j"
proof -
  have "map (keyof (sw h i j)) (arr (sw h i j)) = map (keyof h) (arr (sw h i j))"
    using key_sw [OF assms] set_sw [OF assms] by auto
  then show ?thesis using assms by (simp add: arr_sw map_swap_list)
qed

text \<open>The algorithms commute with the view of the state as its list of keys.\<close>

lemma up_sim:
  "inv h \<Longrightarrow> j < length (arr h) \<Longrightarrow>
     map (keyof (up lt sw h j)) (arr (up lt sw h j)) = up lt_list swap_list (map (keyof h) (arr h)) j"
proof (induction j arbitrary: h rule: less_induct)
  case (less j)
  show ?case
  proof (cases "parent j = j")
    case True
    then show ?thesis by (subst (1 2 3) up_step) simp
  next
    case False
    then have p: "parent j < j" using parent_less parent_eq_iff by blast
    then have pl: "parent j < length (arr h)" using less.prems by simp
    have eq: "lt h j (parent j) = lt_list (map (keyof h) (arr h)) j (parent j)"
      using lt_key [OF less.prems(1,2) pl] pl less.prems(2) by (simp add: lt_list_def)
    show ?thesis
    proof (cases "lt h j (parent j)")
      case True
      have "length (arr (sw h (parent j) j)) = length (arr h)" using arr_sw less.prems pl by simp
      then have "map (keyof (up lt sw (sw h (parent j) j) (parent j))) (arr (up lt sw (sw h (parent j) j) (parent j)))
          = up lt_list swap_list (map (keyof (sw h (parent j) j)) (arr (sw h (parent j) j))) (parent j)"
        using less.IH [OF p] inv_sw less.prems pl by simp
      with True False eq keys_sw [OF less.prems(1) pl less.prems(2)] show ?thesis
        by (subst (1 2 3) up_step) simp
    next
      case lt: False
      with eq show ?thesis by (subst (1 2 3) up_step) simp
    qed
  qed
qed

text \<open>Anything \<open>Swap\<close> keeps is kept.\<close>

lemma up_keeps:
  assumes sw: "\<And>h i j. inv h \<Longrightarrow> P h \<Longrightarrow> i < length (arr h) \<Longrightarrow> j < length (arr h) \<Longrightarrow> P (sw h i j)"
  shows "inv h \<Longrightarrow> P h \<Longrightarrow> j < length (arr h) \<Longrightarrow> inv (up lt sw h j) \<and> P (up lt sw h j)"
proof (induction j arbitrary: h rule: less_induct)
  case (less j)
  show ?case
  proof (cases "parent j = j \<or> \<not> lt h j (parent j)")
    case True
    then show ?thesis using less.prems by (subst (1 2) up_step) auto
  next
    case False
    then have p: "parent j < j" "parent j < length (arr h)"
      using parent_less [of j] parent_eq_iff [of j] less.prems by auto
    have "length (arr (sw h (parent j) j)) = length (arr h)" using arr_sw less.prems p by simp
    then have "inv (up lt sw (sw h (parent j) j) (parent j)) \<and> P (up lt sw (sw h (parent j) j) (parent j))"
      using less.IH [OF p(1)] inv_sw sw less.prems p by simp
    then show ?thesis using False by (subst (1 2) up_step) simp
  qed
qed

text \<open>Sifting down in a prefix keeps anything that a swap within the prefix keeps.\<close>

lemma downLoop_sim_keeps:
  assumes sw: "\<And>h i j. inv h \<Longrightarrow> P h \<Longrightarrow> i < length (arr h) \<Longrightarrow> j < length (arr h) \<Longrightarrow>
      i < n \<Longrightarrow> j < n \<Longrightarrow> P (sw h i j)"
  shows "inv h \<Longrightarrow> P h \<Longrightarrow> n \<le> length (arr h) \<Longrightarrow> downLoop lt sw h i n = (h', i') \<Longrightarrow>
     downLoop lt_list swap_list (map (keyof h) (arr h)) i n = (map (keyof h') (arr h'), i') \<and> inv h' \<and> P h'"
proof (induction "n - i" arbitrary: h i rule: less_induct)
  case less
  let ?ks = "map (keyof h) (arr h)"
  show ?case
  proof (cases "n \<le> 2 * i + 1")
    case True
    then show ?thesis using less.prems by (subst downLoop_step, subst (asm) downLoop_step) simp
  next
    case False
    have eq: "lt h a b = lt_list ?ks a b" if "a < n" "b < n" for a b
      using lt_key [OF less.prems(1), of a b] that less.prems(3) by (simp add: lt_list_def)
    obtain j where j: "j = (if 2 * i + 2 < n \<and> lt h (2 * i + 2) (2 * i + 1) then 2 * i + 2 else 2 * i + 1)" by blast
    have j': "j = (if 2 * i + 2 < n \<and> lt_list ?ks (2 * i + 2) (2 * i + 1) then 2 * i + 2 else 2 * i + 1)"
      unfolding j using eq False by auto
    have b: "i < j" "j < n" "i < n" using False unfolding j by auto
    have c: "downLoop lt sw h i n = (if \<not> lt h j i then (h, i) else downLoop lt sw (sw h i j) j n)"
      using False by (subst downLoop_step) (simp add: Let_def j)
    have l: "downLoop lt_list swap_list ?ks i n
        = (if \<not> lt h j i then (?ks, i) else downLoop lt_list swap_list (swap_list ?ks i j) j n)"
      using False eq [OF b(2,3)] unfolding downLoop_step [of lt_list swap_list ?ks i n] j' [symmetric]
      by (simp add: Let_def)
    show ?thesis
    proof (cases "lt h j i")
      case True
      have ij: "i < length (arr h)" "j < length (arr h)" using b less.prems(3) by linarith+
      have "n - j < n - i" using b by linarith
      moreover have "inv (sw h i j)" "P (sw h i j)" using inv_sw sw less.prems(1,2) ij b by blast+
      moreover have "n \<le> length (arr (sw h i j))" using arr_sw [OF less.prems(1) ij] less.prems(3) by simp
      moreover have "downLoop lt sw (sw h i j) j n = (h', i')" using True c less.prems(4) by simp
      ultimately have "downLoop lt_list swap_list (map (keyof (sw h i j)) (arr (sw h i j))) j n
          = (map (keyof h') (arr h'), i') \<and> inv h' \<and> P h'" by (rule less.hyps)
      then show ?thesis using True l keys_sw [OF less.prems(1) ij] by simp
    next
      case no: False
      then show ?thesis using c l less.prems by simp
    qed
  qed
qed

end

end
