(* ===== verification/Replay_Memory.thy ===== *)
theory Replay_Memory
  imports Replay_Deriver Go_Heap "HOL-Library.AList"
begin

text \<open>
  The memory store of package \<open>internal/replay\<close> (\<open>memory.go\<close>), operation by operation. Entries are
  objects in a store and an address is a position in it, because the map and the expiry heap share
  them and the heap writes their \<open>index\<close> field. The clock's reading and what the context shows at each
  look are inputs of an operation; the channels that only tests install are left out.
\<close>

section \<open>State\<close>

datatype entryKind = entryFirstSeen | entryPropagation

record memoryEntry =
  me_key :: bytes
  me_expiry :: Time
  me_index :: int
  me_kind :: entryKind
  me_propagation :: PropagationState
  me_lease :: Time

type_synonym addr = nat

record memoryStoreState =
  ms_gate :: lifecycleGate
  ms_limits :: ReplayLimits
  ms_token :: bool
  ms_waiters :: int
  ms_objects :: "memoryEntry list"
  ms_entries :: "(bytes \<times> addr) list"
  ms_expiries :: "addr list"
  ms_lastNow :: Time
  ms_closed :: bool
  ms_clearCount :: int

type_synonym MemoryStore = "memoryStoreState option"

type_synonym 'a outcome = "(ReplayError, 'a) result \<times> memoryStoreState"

definition set_object :: "addr \<Rightarrow> (memoryEntry \<Rightarrow> memoryEntry) \<Rightarrow> memoryStoreState \<Rightarrow> memoryStoreState" where
  "set_object a f s = s\<lparr>ms_objects := (ms_objects s)[a := f (ms_objects s ! a)]\<rparr>"

section \<open>The expiry heap\<close>

definition expiry_Len :: "memoryStoreState \<Rightarrow> nat" where
  "expiry_Len s = length (ms_expiries s)"

definition expiry_Less :: "memoryStoreState \<Rightarrow> nat \<Rightarrow> nat \<Rightarrow> bool" where
  "expiry_Less s left right =
     (let l = ms_objects s ! (ms_expiries s ! left); r = ms_objects s ! (ms_expiries s ! right) in
      if Time_Equal (me_expiry l) (me_expiry r) then me_key l < me_key r
      else Time_Before (me_expiry l) (me_expiry r))"

definition expiry_Swap :: "memoryStoreState \<Rightarrow> nat \<Rightarrow> nat \<Rightarrow> memoryStoreState" where
  "expiry_Swap s left right =
     (let h = ms_expiries s; h = h[left := h ! right, right := h ! left];
          s1 = s\<lparr>ms_expiries := h\<rparr>;
          s2 = set_object (h ! left) (\<lambda>e. e\<lparr>me_index := int left\<rparr>) s1
      in set_object (h ! right) (\<lambda>e. e\<lparr>me_index := int right\<rparr>) s2)"

definition expiry_Push :: "memoryStoreState \<Rightarrow> addr \<Rightarrow> memoryStoreState" where
  "expiry_Push s entry =
     (let s1 = set_object entry (\<lambda>e. e\<lparr>me_index := int (length (ms_expiries s))\<rparr>) s in
      s1\<lparr>ms_expiries := ms_expiries s1 @ [entry]\<rparr>)"

definition expiry_Pop :: "memoryStoreState \<Rightarrow> memoryStoreState \<times> addr" where
  "expiry_Pop s =
     (let old = ms_expiries s; last = length old - 1; entry = old ! last;
          s1 = set_object entry (\<lambda>e. e\<lparr>me_index := -1\<rparr>) s
      in (s1\<lparr>ms_expiries := take last old\<rparr>, entry))"

definition expiries_Push :: "memoryStoreState \<Rightarrow> addr \<Rightarrow> memoryStoreState" where
  "expiries_Push = heap_Push expiry_Len expiry_Less expiry_Swap expiry_Push"

definition expiries_Pop :: "memoryStoreState \<Rightarrow> memoryStoreState \<times> addr" where
  "expiries_Pop = heap_Pop expiry_Len expiry_Less expiry_Swap expiry_Pop"

text \<open>\<open>heap.Fix\<close> does nothing at a negative index.\<close>

definition expiries_Fix :: "memoryStoreState \<Rightarrow> int \<Rightarrow> memoryStoreState" where
  "expiries_Fix s index = (if index < 0 then s else heap_Fix expiry_Len expiry_Less expiry_Swap s (nat index))"

section \<open>Records\<close>

fun pruneLoop :: "nat \<Rightarrow> Time \<Rightarrow> memoryStoreState \<Rightarrow> int \<Rightarrow> memoryStoreState \<times> int" where
  "pruneLoop 0 now s pruned = (s, pruned)"
| "pruneLoop (Suc budget) now s pruned =
     (if length (ms_expiries s) = 0 then (s, pruned)
      else
        (let entry = ms_objects s ! (ms_expiries s ! 0) in
         if Time_After (me_expiry entry) now then (s, pruned)
         else (case expiries_Pop s of
                 (s1, removed) \<Rightarrow>
                   pruneLoop budget now
                     (s1\<lparr>ms_entries := AList.delete (me_key (ms_objects s1 ! removed)) (ms_entries s1)\<rparr>) (pruned + 1))))"

definition pruneExpired :: "memoryStoreState \<Rightarrow> Time \<Rightarrow> memoryStoreState \<times> int" where
  "pruneExpired s now = pruneLoop (nat (rl_PruneBudget (ms_limits s))) now s 0"

definition liveEntry :: "memoryStoreState \<Rightarrow> bytes \<Rightarrow> Time \<Rightarrow> entryKind \<Rightarrow> addr option outcome" where
  "liveEntry s storage now kind =
     (case pruneExpired s now of
        (s1, pruned) \<Rightarrow>
          (case map_of (ms_entries s1) storage of
             None \<Rightarrow> (Inr None, s1)
           | Some a \<Rightarrow>
               (let existing = ms_objects s1 ! a in
                if \<not> Time_After (me_expiry existing) now then
                  (if pruned \<ge> rl_PruneBudget (ms_limits s1) then (Inl (NewReplayError ReplayLimitExceeded), s1)
                   else (Inl (NewReplayError ReplayInternalInvariant), s1))
                else if me_kind existing \<noteq> kind then (Inl (NewReplayError ReplayInconsistent), s1)
                else (Inr (Some a), s1))))"

definition insertEntry :: "memoryStoreState \<Rightarrow> bytes \<Rightarrow> Time \<Rightarrow> entryKind \<Rightarrow> addr outcome" where
  "insertEntry s storage expiry kind =
     (if int (length (ms_entries s)) \<ge> rl_MaxEntries (ms_limits s) then (Inl (NewReplayError ReplayLimitExceeded), s)
      else
        (let entry = length (ms_objects s);
             s1 = s\<lparr>ms_objects := ms_objects s @ [\<lparr>me_key = storage, me_expiry = expiry, me_index = -1, me_kind = kind,
                      me_propagation = PropagationStateUnset, me_lease = zeroTime\<rparr>],
                    ms_entries := AList.update storage entry (ms_entries s)\<rparr>
         in (Inr entry, expiries_Push s1 entry)))"

definition rememberStorageKey :: "memoryStoreState \<Rightarrow> bytes \<Rightarrow> Time \<Rightarrow> Time \<Rightarrow> Check outcome" where
  "rememberStorageKey s storage now expiry =
     (case liveEntry s storage now entryFirstSeen of
        (Inl e, s1) \<Rightarrow> (Inl e, s1)
      | (Inr (Some existing), s1) \<Rightarrow> (Inr CheckReplayed, s1)
      | (Inr None, s1) \<Rightarrow>
          (case insertEntry s1 storage expiry entryFirstSeen of
             (Inl e, s2) \<Rightarrow> (Inl e, s2)
           | (Inr entry, s2) \<Rightarrow> (Inr CheckFirstSeen, s2)))"

definition reservePropagationKey ::
    "memoryStoreState \<Rightarrow> bytes \<Rightarrow> Time \<Rightarrow> Time \<Rightarrow> Time \<Rightarrow> PropagationReservation outcome" where
  "reservePropagationKey s storage now expiry leaseExpiry =
     (case liveEntry s storage now entryPropagation of
        (Inl e, s1) \<Rightarrow> (Inl e, s1)
      | (Inr None, s1) \<Rightarrow>
          (case insertEntry s1 storage expiry entryPropagation of
             (Inl e, s2) \<Rightarrow> (Inl e, s2)
           | (Inr entry, s2) \<Rightarrow>
               (Inr PropagationReserved,
                set_object entry (\<lambda>e. e\<lparr>me_propagation := PropagationStatePending, me_lease := leaseExpiry\<rparr>) s2))
      | (Inr (Some existing), s1) \<Rightarrow>
          (let e = ms_objects s1 ! existing in
           if me_propagation e = PropagationStateCommitted then (Inr PropagationAlreadyCommitted, s1)
           else if Time_After (me_lease e) now then (Inr PropagationPending, s1)
           else (Inr PropagationReserved,
                 expiries_Fix (set_object existing (\<lambda>e. e\<lparr>me_lease := leaseExpiry, me_expiry := expiry\<rparr>) s1) (me_index e))))"

text \<open>The part of \<open>CommitPropagation\<close> after the time is captured.\<close>

definition commitPropagationKey :: "memoryStoreState \<Rightarrow> bytes \<Rightarrow> Time \<Rightarrow> PropagationCommit outcome" where
  "commitPropagationKey s storage now =
     (case liveEntry s storage now entryPropagation of
        (Inl e, s1) \<Rightarrow> (Inl e, s1)
      | (Inr None, s1) \<Rightarrow> (Inr PropagationCommitUnresolved, s1)
      | (Inr (Some existing), s1) \<Rightarrow>
          (Inr PropagationCommitted,
           set_object existing (\<lambda>e. e\<lparr>me_propagation := PropagationStateCommitted, me_lease := zeroTime\<rparr>) s1))"

section \<open>Admission, serialization and time\<close>

text \<open>What the environment shows one call: the context at each look, and the clock, \<open>None\<close> if it panics.\<close>

record CallEnv =
  ce_entry :: Context
  ce_wait :: "Context option"
  ce_token :: Context
  ce_clock :: "Time option"
  ce_mutate :: Context

definition validateKeyRequest :: "MemoryStore \<Rightarrow> Context \<Rightarrow> Key \<Rightarrow> (ReplayError, bytes) result" where
  "validateKeyRequest s ctx key =
     (case PreflightContext ctx of
        Some e \<Rightarrow> Inl e
      | None \<Rightarrow>
          (case s of
             None \<Rightarrow> Inl (NewReplayError ReplayMisconfigured)
           | Some st \<Rightarrow>
               (let state = lg_state (ms_gate st) in
                if state = StoreClosing \<or> state = StoreClosed then Inl (NewReplayError ReplayClosed)
                else if state \<noteq> StoreReady \<and> state \<noteq> StoreDegraded then Inl (NewReplayError ReplayInternalInvariant)
                else (case storageValue key of
                        None \<Rightarrow> Inl (NewReplayError ReplayInvalidRequest)
                      | Some storage \<Rightarrow>
                          if \<not> validStorageKey key then Inl (NewReplayError ReplayInvalidRequest)
                          else Inr storage))))"

definition validateCheckRequest :: "MemoryStore \<Rightarrow> Context \<Rightarrow> Key \<Rightarrow> Retention \<Rightarrow> (ReplayError, bytes) result" where
  "validateCheckRequest s ctx key retention =
     res_bind (validateKeyRequest s ctx key)
       (\<lambda>storage. if \<not> Retention_Valid retention then Inl (NewReplayError ReplayInvalidRequest) else Inr storage)"

definition readClock :: "Time option \<Rightarrow> (ReplayError, Time) result" where
  "readClock clock = (case clock of None \<Rightarrow> Inl (NewReplayError ReplayInternalInvariant) | Some now \<Rightarrow> Inr now)"

definition captureOperationNow :: "memoryStoreState \<Rightarrow> Context \<Rightarrow> Time option \<Rightarrow> Time outcome" where
  "captureOperationNow s ctx clock =
     (case PreflightContext ctx of
        Some e \<Rightarrow> (Inl e, s)
      | None \<Rightarrow>
          (let state = lg_state (ms_gate s) in
           if state = StoreClosing \<or> state = StoreClosed then (Inl (NewReplayError ReplayClosed), s)
           else if state \<noteq> StoreReady then (Inl (NewReplayError ReplayInternalInvariant), s)
           else
             (let degraded = (Inl (NewReplayError ReplayInternalInvariant), s\<lparr>ms_gate := gate_degrade (ms_gate s)\<rparr>) in
              case readClock clock of
                Inl e \<Rightarrow> degraded
              | Inr now \<Rightarrow>
                  if Time_IsZero now \<or> \<not> Time_IsZero (ms_lastNow s) \<and> Time_Before now (ms_lastNow s)
                  then degraded else (Inr now, s))))"

definition captureOperationTime ::
    "memoryStoreState \<Rightarrow> Context \<Rightarrow> Time option \<Rightarrow> Context \<Rightarrow> Retention \<Rightarrow> (Time \<times> Time) outcome" where
  "captureOperationTime s ctx clock ctx2 retention =
     (case captureOperationNow s ctx clock of
        (Inl e, s1) \<Rightarrow> (Inl e, s1)
      | (Inr now, s1) \<Rightarrow>
          (case Retention_AddTo retention now of
             Inl e \<Rightarrow> (Inl (NewReplayError ReplayInternalInvariant), s1\<lparr>ms_gate := gate_degrade (ms_gate s1)\<rparr>)
           | Inr expiry \<Rightarrow>
               (case PreflightContext ctx2 of
                  Some e \<Rightarrow> (Inl e, s1)
                | None \<Rightarrow> (Inr (now, expiry), s1))))"

text \<open>
  \<open>acquireToken\<close>: the fast path, the bounded queue, and the wait, which ends with the token, or with
  the context's \<open>Done\<close> channel; a wait that has not ended is \<open>None\<close>.
\<close>

definition tryToken :: "memoryStoreState \<Rightarrow> memoryStoreState option" where
  "tryToken s = (if ms_token s then Some (s\<lparr>ms_token := False\<rparr>) else None)"

definition enqueueWaiter :: "memoryStoreState \<Rightarrow> (ReplayError, memoryStoreState) result" where
  "enqueueWaiter s =
     (if ms_waiters s \<ge> rl_MaxWaiters (ms_limits s) then Inl (NewReplayError ReplayLimitExceeded)
      else Inr (s\<lparr>ms_waiters := ms_waiters s + 1\<rparr>))"

definition leaveWaiters :: "memoryStoreState \<Rightarrow> memoryStoreState" where
  "leaveWaiters s = s\<lparr>ms_waiters := ms_waiters s - 1\<rparr>"

definition waitError :: "Context \<Rightarrow> ReplayError" where
  "waitError ctx = (case PreflightContext ctx of Some e \<Rightarrow> e | None \<Rightarrow> NewReplayError ReplayInternalInvariant)"

definition acquireToken :: "memoryStoreState \<Rightarrow> Context option \<Rightarrow> (ReplayError option \<times> memoryStoreState) option" where
  "acquireToken s fired =
     (case tryToken s of
        Some s1 \<Rightarrow> Some (None, s1)
      | None \<Rightarrow>
          (case enqueueWaiter s of
             Inl e \<Rightarrow> Some (Some e, s)
           | Inr s1 \<Rightarrow>
               (case tryToken s1 of
                  Some s2 \<Rightarrow> Some (None, leaveWaiters s2)
                | None \<Rightarrow> map_option (\<lambda>ctx. (Some (waitError ctx), leaveWaiters s1)) fired)))"

definition releaseToken :: "memoryStoreState \<Rightarrow> memoryStoreState" where
  "releaseToken s = s\<lparr>ms_token := True\<rparr>"

section \<open>Operations\<close>

text \<open>The critical sections of the three operations, from the captured time to the result.\<close>

definition checkBody :: "CallEnv \<Rightarrow> Retention \<Rightarrow> bytes \<Rightarrow> memoryStoreState \<Rightarrow> Check outcome" where
  "checkBody env retention storage s =
     (case captureOperationTime s (ce_token env) (ce_clock env) (ce_mutate env) retention of
        (Inl e, s1) \<Rightarrow> (Inl e, s1)
      | (Inr (now, expiry), s1) \<Rightarrow> rememberStorageKey (s1\<lparr>ms_lastNow := now\<rparr>) storage now expiry)"

definition reserveBody :: "CallEnv \<Rightarrow> Retention \<Rightarrow> Lease \<Rightarrow> bytes \<Rightarrow> memoryStoreState \<Rightarrow> PropagationReservation outcome" where
  "reserveBody env retention lease storage s =
     (case captureOperationTime s (ce_token env) (ce_clock env) (ce_mutate env) retention of
        (Inl e, s1) \<Rightarrow> (Inl e, s1)
      | (Inr (now, expiry), s1) \<Rightarrow>
          (let leaseExpiry = Time_Add now (Lease_Duration lease) in
           if \<not> Time_After leaseExpiry now
           then (Inl (NewReplayError ReplayInternalInvariant), s1\<lparr>ms_gate := gate_degrade (ms_gate s1)\<rparr>)
           else reservePropagationKey (s1\<lparr>ms_lastNow := now\<rparr>) storage now expiry leaseExpiry))"

definition commitBody :: "CallEnv \<Rightarrow> bytes \<Rightarrow> memoryStoreState \<Rightarrow> PropagationCommit outcome" where
  "commitBody env storage s =
     (case captureOperationNow s (ce_token env) (ce_clock env) of
        (Inl e, s1) \<Rightarrow> (Inl e, s1)
      | (Inr now, s1) \<Rightarrow>
          (case PreflightContext (ce_mutate env) of
             Some e \<Rightarrow> (Inl e, s1)
           | None \<Rightarrow> commitPropagationKey (s1\<lparr>ms_lastNow := now\<rparr>) storage now))"

text \<open>
  Admission, token, body, and the deferred release and finish, as the three operations nest them.
  \<open>None\<close> is a call that still waits for the token.
\<close>

definition serialized ::
    "memoryStoreState \<Rightarrow> Context option \<Rightarrow> (memoryStoreState \<Rightarrow> 'a outcome) \<Rightarrow> ((ReplayError, 'a) result \<times> MemoryStore) option" where
  "serialized s fired body =
     (case gate_admit StoreReady (ms_gate s) of
        Inl e \<Rightarrow> Some (Inl e, Some s)
      | Inr g \<Rightarrow>
          (let finish = (\<lambda>t. t\<lparr>ms_gate := gate_finish (ms_gate t)\<rparr>) in
           case acquireToken (s\<lparr>ms_gate := g\<rparr>) fired of
             None \<Rightarrow> None
           | Some (Some e, s1) \<Rightarrow> Some (Inl e, Some (finish s1))
           | Some (None, s1) \<Rightarrow>
               (case body s1 of (r, s2) \<Rightarrow> Some (r, Some (finish (releaseToken s2))))))"

definition Memory_CheckAndRemember ::
    "MemoryStore \<Rightarrow> CallEnv \<Rightarrow> Key \<Rightarrow> Retention \<Rightarrow> ((ReplayError, Check) result \<times> MemoryStore) option" where
  "Memory_CheckAndRemember s env key retention =
     (case (validateCheckRequest s (ce_entry env) key retention, s) of
        (Inr storage, Some st) \<Rightarrow> serialized st (ce_wait env) (checkBody env retention storage)
      | (Inr storage, None) \<Rightarrow> Some (Inl (NewReplayError ReplayInternalInvariant), s)
      | (Inl e, _) \<Rightarrow> Some (Inl e, s))"

definition Memory_ReservePropagation ::
    "MemoryStore \<Rightarrow> CallEnv \<Rightarrow> Key \<Rightarrow> Retention \<Rightarrow> Lease
       \<Rightarrow> ((ReplayError, PropagationReservation) result \<times> MemoryStore) option" where
  "Memory_ReservePropagation s env key retention lease =
     (case (validateCheckRequest s (ce_entry env) key retention, s) of
        (Inr storage, Some st) \<Rightarrow>
          if \<not> Lease_Valid lease then Some (Inl (NewReplayError ReplayInvalidRequest), s)
          else serialized st (ce_wait env) (reserveBody env retention lease storage)
      | (Inr storage, None) \<Rightarrow> Some (Inl (NewReplayError ReplayInternalInvariant), s)
      | (Inl e, _) \<Rightarrow> Some (Inl e, s))"

definition Memory_CommitPropagation ::
    "MemoryStore \<Rightarrow> CallEnv \<Rightarrow> Key \<Rightarrow> ((ReplayError, PropagationCommit) result \<times> MemoryStore) option" where
  "Memory_CommitPropagation s env key =
     (case (validateKeyRequest s (ce_entry env) key, s) of
        (Inr storage, Some st) \<Rightarrow> serialized st (ce_wait env) (commitBody env storage)
      | (Inr storage, None) \<Rightarrow> Some (Inl (NewReplayError ReplayInternalInvariant), s)
      | (Inl e, _) \<Rightarrow> Some (Inl e, s))"

definition Memory_State :: "MemoryStore \<Rightarrow> StoreState" where
  "Memory_State s = (case s of None \<Rightarrow> StoreUnset | Some st \<Rightarrow> lg_state (ms_gate st))"

text \<open>The body of \<open>closeOnce\<close>, which runs between taking and returning the token.\<close>

definition clearStore :: "memoryStoreState \<Rightarrow> memoryStoreState" where
  "clearStore s = s\<lparr>ms_entries := [], ms_expiries := [], ms_lastNow := zeroTime, ms_clearCount := ms_clearCount s + 1\<rparr>"

definition closeOnce :: "memoryStoreState \<Rightarrow> memoryStoreState option" where
  "closeOnce s =
     (if ms_closed s then Some s
      else map_option (\<lambda>s1. releaseToken (clearStore (s1\<lparr>ms_closed := True\<rparr>))) (tryToken s))"

definition Memory_Close :: "MemoryStore \<Rightarrow> Context \<Rightarrow> Context option \<Rightarrow> (ReplayError option \<times> MemoryStore) option" where
  "Memory_Close s ctx fired =
     (case PreflightContext ctx of
        Some e \<Rightarrow> Some (Some e, s)
      | None \<Rightarrow>
          (case s of
             None \<Rightarrow> Some (Some (NewReplayError ReplayMisconfigured), s)
           | Some st \<Rightarrow>
               (case gate_beginClose (ms_gate st) of
                  Inl e \<Rightarrow> Some (Some e, s)
                | Inr g \<Rightarrow>
                    (let st = st\<lparr>ms_gate := g\<rparr> in
                     case waitForDrain g fired of
                       None \<Rightarrow> None
                     | Some (Some e) \<Rightarrow> Some (Some e, Some st)
                     | Some None \<Rightarrow>
                         (case closeOnce st of
                            None \<Rightarrow> None
                          | Some st \<Rightarrow>
                              (case gate_publishClosed (ms_gate st) of
                                 Inl e \<Rightarrow> Some (Some e, Some st)
                               | Inr g \<Rightarrow> Some (None, Some (st\<lparr>ms_gate := g\<rparr>))))))))"

record MemoryConfig =
  mc_Limits :: ReplayLimits
  mc_HasClock :: bool

definition NewMemoryStore :: "MemoryConfig \<Rightarrow> (ReplayError, MemoryStore) result" where
  "NewMemoryStore config =
     (if \<not> mc_HasClock config then Inl (NewReplayError ReplayMisconfigured)
      else res_bind (ResolveReplayLimits (mc_Limits config))
        (\<lambda>limits. Inr (Some \<lparr>ms_gate = newLifecycleGate StoreReady, ms_limits = limits, ms_token = True, ms_waiters = 0,
            ms_objects = [], ms_entries = [], ms_expiries = [], ms_lastNow = zeroTime, ms_closed = False,
            ms_clearCount = 0\<rparr>)))"

end
