(* ===== verification/Replay_Expiries.thy ===== *)
theory Replay_Expiries
  imports Replay_Memory
begin

text \<open>
  The expiry heap of the memory store as a client of \<open>container/heap\<close>: its methods keep the contract,
  and the three heap operations keep order and index fields and touch nothing else.
\<close>

section \<open>Keys and shape\<close>

definition ekey :: "memoryEntry \<Rightarrow> (int \<times> int) \<times> bytes" where
  "ekey e = (time_key (me_expiry e), me_key e)"

abbreviation obj :: "memoryStoreState \<Rightarrow> addr \<Rightarrow> memoryEntry" where
  "obj s a \<equiv> ms_objects s ! a"

abbreviation heap_keys :: "memoryStoreState \<Rightarrow> ((int \<times> int) \<times> bytes) list" where
  "heap_keys s \<equiv> map (\<lambda>a. ekey (obj s a)) (ms_expiries s)"

definition heap_shape :: "memoryStoreState \<Rightarrow> bool" where
  "heap_shape s \<longleftrightarrow> distinct (ms_expiries s) \<and> (\<forall>a \<in> set (ms_expiries s). a < length (ms_objects s))
     \<and> (\<forall>i < length (ms_expiries s). me_index (obj s (ms_expiries s ! i)) = int i)"

text \<open>An entry without its heap position, and the states that differ only in heap positions.\<close>

definition blank :: "memoryEntry \<Rightarrow> memoryEntry" where
  "blank e = e\<lparr>me_index := 0\<rparr>"

definition frame :: "memoryStoreState \<Rightarrow> memoryStoreState \<Rightarrow> bool" where
  "frame s t \<longleftrightarrow> (\<exists>obs exps. t = s\<lparr>ms_objects := obs, ms_expiries := exps\<rparr>
     \<and> map blank obs = map blank (ms_objects s) \<and> mset exps = mset (ms_expiries s))"

lemma blank_fields [simp]:
  "me_key (blank e) = me_key e" "me_expiry (blank e) = me_expiry e" "me_kind (blank e) = me_kind e"
  "me_propagation (blank e) = me_propagation e" "me_lease (blank e) = me_lease e" "ekey (blank e) = ekey e"
  by (simp_all add: blank_def ekey_def)

lemma blank_index [simp]: "blank (e\<lparr>me_index := i\<rparr>) = blank e"
  by (simp add: blank_def)

lemma blank_eq: 
  assumes "blank e = blank e'"
  shows "me_key e = me_key e'" "me_expiry e = me_expiry e'" "me_kind e = me_kind e'"
    "me_propagation e = me_propagation e'" "me_lease e = me_lease e'" "ekey e = ekey e'"
  using blank_fields [of e] blank_fields [of e'] assms by (simp_all add: ekey_def)

lemma frame_refl [simp]: "frame s s"
  by (auto simp: frame_def intro!: exI [of _ "ms_objects s"] exI [of _ "ms_expiries s"])

lemma frame_fields:
  assumes "frame s t"
  shows "ms_gate t = ms_gate s" "ms_limits t = ms_limits s" "ms_token t = ms_token s" "ms_waiters t = ms_waiters s"
    "ms_entries t = ms_entries s" "ms_lastNow t = ms_lastNow s" "ms_closed t = ms_closed s" "ms_clearCount t = ms_clearCount s"
    "length (ms_objects t) = length (ms_objects s)" "set (ms_expiries t) = set (ms_expiries s)"
    "length (ms_expiries t) = length (ms_expiries s)"
  using assms by (auto simp: frame_def dest: map_eq_imp_length_eq mset_eq_setD mset_eq_length)

lemma frame_blank:
  assumes "frame s t" "a < length (ms_objects s)"
  shows "blank (obj t a) = blank (obj s a)"
proof -
  have "map blank (ms_objects t) = map blank (ms_objects s)" using assms(1) by (auto simp: frame_def)
  from arg_cong [OF this, of "\<lambda>l. l ! a"] show ?thesis using assms frame_fields(9) [OF assms(1)] by simp
qed

lemma frame_trans: "frame s t \<Longrightarrow> frame t u \<Longrightarrow> frame s u"
  by (fastforce simp: frame_def)

lemma map_blank_update: "map blank (xs[a := (xs ! a)\<lparr>me_index := i\<rparr>]) = map blank xs"
  by (cases "a < length xs") (simp_all add: map_update list_update_same_conv list_update_beyond)

section \<open>The heap contract\<close>

lemma ekey_less: "ekey d < ekey e \<longleftrightarrow>
    (if Time_Equal (me_expiry d) (me_expiry e) then me_key d < me_key e else Time_Before (me_expiry d) (me_expiry e))"
  unfolding ekey_def Time_Equal_key Time_Before_key by (auto simp: less_prod_simp)

lemma expiry_Less_key: "expiry_Less s i j \<longleftrightarrow> ekey (obj s (ms_expiries s ! i)) < ekey (obj s (ms_expiries s ! j))"
  by (simp add: expiry_Less_def Let_def ekey_less)

lemma ms_expiries_Swap: "ms_expiries (expiry_Swap s i j) = swap_list (ms_expiries s) i j"
  by (simp add: expiry_Swap_def Let_def set_object_def swap_list_def)

lemma ms_objects_Swap:
  assumes "i < length (ms_expiries s)" "j < length (ms_expiries s)"
  shows "ms_objects (expiry_Swap s i j) =
     (let o1 = (ms_objects s)[ms_expiries s ! j := (obj s (ms_expiries s ! j))\<lparr>me_index := int i\<rparr>] in
      o1[ms_expiries s ! i := (o1 ! (ms_expiries s ! i))\<lparr>me_index := int j\<rparr>])"
  using assms by (cases "i = j") (simp_all add: expiry_Swap_def Let_def set_object_def nth_list_update)

lemma frame_Swap:
  assumes "i < length (ms_expiries s)" "j < length (ms_expiries s)"
  shows "frame s (expiry_Swap s i j)"
proof -
  have "expiry_Swap s i j = s\<lparr>ms_objects := ms_objects (expiry_Swap s i j), ms_expiries := swap_list (ms_expiries s) i j\<rparr>"
    by (simp add: expiry_Swap_def Let_def set_object_def swap_list_def)
  moreover have "map blank (ms_objects (expiry_Swap s i j)) = map blank (ms_objects s)"
    using assms by (simp add: ms_objects_Swap Let_def map_blank_update)
  ultimately show ?thesis using mset_swap_list [OF assms] unfolding frame_def by blast
qed

lemma heap_shape_Swap:
  assumes "heap_shape s" "i < length (ms_expiries s)" "j < length (ms_expiries s)"
  shows "heap_shape (expiry_Swap s i j)"
proof -
  let ?x = "ms_expiries s" and ?t = "expiry_Swap s i j"
  have d: "distinct ?x" and r: "\<And>a. a \<in> set ?x \<Longrightarrow> a < length (ms_objects s)"
    and ix: "\<And>k. k < length ?x \<Longrightarrow> me_index (obj s (?x ! k)) = int k"
    using assms(1) by (auto simp: heap_shape_def)
  note f = frame_fields [OF frame_Swap [OF assms(2,3)]]
  have "distinct (ms_expiries ?t)"
    using d mset_swap_list [OF assms(2,3)] by (metis ms_expiries_Swap mset_eq_imp_distinct_iff)
  moreover have "me_index (obj ?t (ms_expiries ?t ! k)) = int k" if "k < length ?x" for k
  proof -
    have eq: "?x ! a = ?x ! b \<longleftrightarrow> a = b" if "a < length ?x" "b < length ?x" for a b
      using d that by (simp add: nth_eq_iff_index_eq)
    show ?thesis using that assms(2,3) ix r [of "?x ! i"] r [of "?x ! j"] r [of "?x ! k"]
      by (simp add: ms_objects_Swap ms_expiries_Swap nth_swap_list Let_def nth_list_update eq)
  qed
  ultimately show ?thesis using r by (simp add: heap_shape_def f(9-11))
qed

interpretation expiry_heap: heap_client ms_expiries "\<lambda>s a. ekey (obj s a)" heap_shape expiry_Less expiry_Swap
proof
  fix s i j a
  assume s: "heap_shape s" "i < length (ms_expiries s)" "j < length (ms_expiries s)"
  show "expiry_Less s i j \<longleftrightarrow> ekey (obj s (ms_expiries s ! i)) < ekey (obj s (ms_expiries s ! j))"
    by (rule expiry_Less_key)
  show "ms_expiries (expiry_Swap s i j) = swap_list (ms_expiries s) i j" by (rule ms_expiries_Swap)
  show "heap_shape (expiry_Swap s i j)" using s by (rule heap_shape_Swap)
  assume "a \<in> set (ms_expiries s)"
  then show "ekey (obj (expiry_Swap s i j) a) = ekey (obj s a)"
    using s(1) by (intro blank_eq(6) frame_blank [OF frame_Swap [OF s(2,3)]]) (simp add: heap_shape_def)
qed

section \<open>Push, Pop and Fix\<close>

text \<open>Sifting keeps the shape and stays in the frame.\<close>

lemma up_frame:
  assumes "heap_shape s" "j < length (ms_expiries s)"
  shows "heap_shape (up expiry_Less expiry_Swap s j) \<and> frame s (up expiry_Less expiry_Swap s j)"
  by (rule expiry_heap.up_keeps [where P = "frame s", OF _ assms(1) frame_refl assms(2)])
     (blast intro: frame_trans frame_Swap)

lemma downLoop_frame:
  assumes "heap_shape s" "n \<le> length (ms_expiries s)" "downLoop expiry_Less expiry_Swap s i n = (t, i')"
  shows "downLoop lt_list swap_list (heap_keys s) i n = (heap_keys t, i') \<and> heap_shape t
     \<and> frame s t \<and> drop n (ms_expiries t) = drop n (ms_expiries s)"
proof (rule expiry_heap.downLoop_sim_keeps [where
      P = "\<lambda>h. frame s h \<and> drop n (ms_expiries h) = drop n (ms_expiries s)", OF _ assms(1) _ assms(2,3)])
  fix h i j
  assume "frame s h \<and> drop n (ms_expiries h) = drop n (ms_expiries s)"
    "i < length (ms_expiries h)" "j < length (ms_expiries h)" "i < n" "j < n"
  then show "frame s (expiry_Swap h i j) \<and> drop n (ms_expiries (expiry_Swap h i j)) = drop n (ms_expiries s)"
    using frame_trans [OF _ frame_Swap] by (simp add: ms_expiries_Swap swap_list_def drop_update_cancel)
qed simp

lemma expiries_Push_spec:
  assumes "heap_shape s" "heap_ordered (heap_keys s)" "a < length (ms_objects s)" "a \<notin> set (ms_expiries s)"
  shows "heap_shape (expiries_Push s a) \<and> heap_ordered (heap_keys (expiries_Push s a))
     \<and> frame (s\<lparr>ms_expiries := ms_expiries s @ [a]\<rparr>) (expiries_Push s a)"
proof -
  let ?x = "ms_expiries s" and ?t = "expiry_Push s a"
  have x: "ms_expiries ?t = ?x @ [a]" by (simp add: expiry_Push_def set_object_def Let_def)
  have ob: "ms_objects ?t = (ms_objects s)[a := (obj s a)\<lparr>me_index := int (length ?x)\<rparr>]"
    by (simp add: expiry_Push_def set_object_def Let_def)
  have shape: "heap_shape ?t"
    using assms(1,3,4) unfolding heap_shape_def x ob
    by (auto simp: nth_append nth_list_update less_Suc_eq)
  have fr: "frame (s\<lparr>ms_expiries := ?x @ [a]\<rparr>) ?t"
    unfolding frame_def using map_blank_update [of "ms_objects s" a]
    by (intro exI [of _ "ms_objects ?t"] exI [of _ "?x @ [a]"])
       (simp add: ob expiry_Push_def set_object_def Let_def)
  have keys: "heap_keys ?t = heap_keys s @ [ekey (obj s a)]"
    using assms(1,3,4) by (simp add: x ob nth_list_update ekey_def heap_shape_def)
  have "up_ready (heap_keys ?t) (length ?x)" using push_ready [OF assms(2)] by (simp add: keys)
  then have "heap_ordered (up lt_list swap_list (heap_keys ?t) (length ?x))" using up_list_heap by blast
  moreover have push: "expiries_Push s a = up expiry_Less expiry_Swap ?t (length ?x)"
    by (simp add: expiries_Push_def heap_Push_def expiry_Len_def x Let_def)
  moreover have "length ?x < length (ms_expiries ?t)" by (simp add: x)
  ultimately show ?thesis using expiry_heap.up_sim [OF shape] up_frame [OF shape] frame_trans [OF fr] by simp
qed

lemma expiries_Pop_spec:
  assumes "heap_shape s" "heap_ordered (heap_keys s)" "ms_expiries s \<noteq> []" "expiries_Pop s = (t, r)"
  shows "r = ms_expiries s ! 0 \<and> heap_shape t \<and> heap_ordered (heap_keys t)
     \<and> frame (s\<lparr>ms_expiries := tl (ms_expiries s)\<rparr>) t"
proof -
  let ?x = "ms_expiries s"
  define n where "n = length ?x - 1"
  have n: "0 < length ?x" "n < length ?x" using assms(3) by (auto simp: n_def)
  let ?s1 = "expiry_Swap s 0 n"
  obtain s2 i' where down: "downLoop expiry_Less expiry_Swap ?s1 0 n = (s2, i')" by fastforce
  have s1: "heap_shape ?s1" "frame s ?s1" using heap_shape_Swap [OF assms(1)] frame_Swap n by blast+
  have len1: "n \<le> length (ms_expiries ?s1)" using n frame_fields(11) [OF s1(2)] by simp
  note d = downLoop_frame [OF s1(1) len1 down]
  have fr: "frame s s2" using d s1(2) frame_trans by blast
  note f = frame_fields [OF fr]
  have "downLoop lt_list swap_list (swap_list (heap_keys s) 0 n) 0 n = (heap_keys s2, i')"
    using d expiry_heap.keys_sw [OF assms(1) n] by simp
  then have pl: "last (heap_keys s2) = heap_keys s ! 0" "heap_ordered (butlast (heap_keys s2))"
    using pop_list [OF assms(2) _ _ , of n "heap_keys s2" i'] assms(3) by (simp_all add: n_def)
  have pop_s2: "expiries_Pop s = expiry_Pop s2"
    unfolding expiries_Pop_def heap_Pop_def expiry_Len_def Let_def n_def [symmetric] down_def down by simp
  have pop: "t = (set_object (ms_expiries s2 ! n) (\<lambda>e. e\<lparr>me_index := -1\<rparr>) s2)\<lparr>ms_expiries := take n (ms_expiries s2)\<rparr>"
    "r = ms_expiries s2 ! n"
    using assms(4) f(11) unfolding pop_s2 by (auto simp: expiry_Pop_def Let_def n_def)
  have x2: "ms_expiries s2 = take n (ms_expiries s2) @ [r]"
    using take_Suc_conv_app_nth [of n "ms_expiries s2"] f(11) n pop(2) by (simp add: n_def)
  have d2: "distinct (ms_expiries s2)" using d by (simp add: heap_shape_def)
  then have r: "r \<notin> set (take n (ms_expiries s2))" by (subst (asm) x2) simp
  have obs: "ms_objects t = (ms_objects s2)[r := (obj s2 r)\<lparr>me_index := -1\<rparr>]" by (simp add: pop set_object_def)
  have expt: "ms_expiries t = take n (ms_expiries s2)" by (simp add: pop)
  have at: "obj t a = obj s2 a" if "a \<in> set (ms_expiries t)" for a using that r by (metis expt nth_list_update_neq obs)
  have keys: "heap_keys t = butlast (heap_keys s2)"
  proof -
    have "heap_keys t = map (\<lambda>a. ekey (obj s2 a)) (take n (ms_expiries s2))" using at by (simp add: expt)
    also have "\<dots> = butlast (heap_keys s2)" using f(11) by (simp add: n_def take_map butlast_conv_take)
    finally show ?thesis .
  qed
  have "drop n (ms_expiries s2) = drop n (ms_expiries ?s1)" using d by blast
  then have "ms_expiries s2 ! n = ms_expiries ?s1 ! n"
    using n f(11) frame_fields(11) [OF s1(2)] by (metis Cons_nth_drop_Suc list.inject)
  then have hd: "r = ?x ! 0" using pop(2) n by (simp add: ms_expiries_Swap nth_swap_list)
  have shape: "heap_shape t"
  proof -
    have "me_index (obj t (ms_expiries t ! i)) = int i" if i: "i < length (ms_expiries t)" for i
    proof -
      have "obj t (ms_expiries t ! i) = obj s2 (ms_expiries t ! i)" using i by (intro at nth_mem)
      then show ?thesis using d i by (simp add: expt heap_shape_def)
    qed
    then show ?thesis using d by (auto simp: heap_shape_def obs expt dest: in_set_takeD)
  qed
  have "mset (r # take n (ms_expiries s2)) = mset ?x"
    using arg_cong [OF x2, of mset] fr by (auto simp: frame_def)
  then have "mset (take n (ms_expiries s2)) = mset (tl ?x)"
    using n hd by (cases ?x) auto
  moreover have "map blank (ms_objects t) = map blank (ms_objects s)"
    using fr by (auto simp: obs map_blank_update frame_def)
  moreover have "t = s\<lparr>ms_objects := ms_objects t, ms_expiries := ms_expiries t\<rparr>"
    using fr by (auto simp: pop set_object_def frame_def)
  ultimately have "frame (s\<lparr>ms_expiries := tl ?x\<rparr>) t"
    unfolding frame_def by (intro exI [of _ "ms_objects t"] exI [of _ "ms_expiries t"]) (simp add: expt)
  with hd shape keys pl(2) show ?thesis by simp
qed

text \<open>\<open>Fix\<close> after an entry's expiry changed in place.\<close>

lemma expiries_Fix_spec:
  assumes "heap_shape s" "heap_ordered (heap_keys s)" "i < length (ms_expiries s)" "a = ms_expiries s ! i"
    and "me_index e = int i" "s1 = s\<lparr>ms_objects := (ms_objects s)[a := e]\<rparr>"
  shows "heap_shape (expiries_Fix s1 (int i)) \<and> heap_ordered (heap_keys (expiries_Fix s1 (int i)))
     \<and> frame s1 (expiries_Fix s1 (int i))"
proof -
  let ?x = "ms_expiries s"
  have a: "a < length (ms_objects s)" "distinct ?x" using assms(1,3,4) by (simp_all add: heap_shape_def)
  have eq: "?x ! k = a \<longleftrightarrow> k = i" if "k < length ?x" for k
    using a(2) that assms(3,4) by (simp add: nth_eq_iff_index_eq)
  have x1: "ms_expiries s1 = ?x" by (simp add: assms(6))
  have shape: "heap_shape s1"
    using assms(1,5) a(1) eq by (auto simp: heap_shape_def assms(6) nth_list_update)
  have keys: "heap_keys s1 = (heap_keys s)[i := ekey e]"
    using a(1) eq assms(3) by (intro nth_equalityI) (auto simp: assms(6) nth_list_update)
  obtain s2 i' where down: "downLoop expiry_Less expiry_Swap s1 i (length ?x) = (s2, i')" by fastforce
  have d: "downLoop lt_list swap_list (heap_keys s1) i (length ?x) = (heap_keys s2, i')" "heap_shape s2" "frame s1 s2"
    using downLoop_frame [OF shape _ down] x1 by simp_all
  have len: "i < length (ms_expiries s2)" using frame_fields(11) [OF d(3)] assms(3) x1 by simp
  let ?t = "if i' > i then s2 else up expiry_Less expiry_Swap s2 i"
  have fx: "expiries_Fix s1 (int i) = ?t" using down by (simp add: expiries_Fix_def heap_Fix_def expiry_Len_def x1 down_def)
  have "heap_keys ?t = (if i' > i then heap_keys s2 else up lt_list swap_list (heap_keys s2) i)"
    using expiry_heap.up_sim [OF d(2) len] by simp
  then have "heap_ordered (heap_keys ?t)"
    using fix_list [OF assms(2), of i "ekey e" "heap_keys s2" i'] d(1) assms(3) keys by simp
  then show ?thesis unfolding fx using d up_frame [OF d(2) len] frame_trans [OF d(3)] by simp
qed

end
