(* ===== verification/Replay_Store.thy ===== *)
theory Replay_Store
  imports Replay_Expiries
begin

text \<open>
  The memory store against its specification: a finite map from storage keys to records that expire.
  The invariant ties map, heap and objects one to one; every change of the records is a step of the
  specification on the records that are live, or is refused at a limit without changing them.
\<close>

section \<open>Association lists\<close>

lemma update_fresh: "k \<notin> fst ` set xs \<Longrightarrow> AList.update k v xs = xs @ [(k, v)]"
  by (induction xs) auto

lemma delete_absent: "k \<notin> fst ` set xs \<Longrightarrow> AList.delete k xs = xs"
  by (induction xs) (auto simp: AList.delete_eq)

lemma delete_split:
  assumes "distinct (map fst xs)" "(k, v) \<in> set xs"
  obtains ys zs where "xs = ys @ (k, v) # zs" "AList.delete k xs = ys @ zs"
proof -
  obtain ys zs where xs: "xs = ys @ (k, v) # zs" using split_list [OF assms(2)] by blast
  then have "k \<notin> fst ` set ys" "k \<notin> fst ` set zs" using assms(1) by auto
  then have "AList.delete k ys = ys" "AList.delete k zs = zs" by (simp_all add: delete_absent)
  then show thesis using that xs by (simp add: AList.delete_eq)
qed

section \<open>The invariant\<close>

definition entry_ok :: "memoryEntry \<Rightarrow> bool" where
  "entry_ok e \<longleftrightarrow> (case me_kind e of
       entryFirstSeen \<Rightarrow> me_propagation e = PropagationStateUnset \<and> me_lease e = zeroTime
     | entryPropagation \<Rightarrow> me_propagation e = PropagationStatePending
         \<or> me_propagation e = PropagationStateCommitted \<and> me_lease e = zeroTime)"

text \<open>Map and heap hold the same entries, each under its own key, below the ceiling.\<close>

definition linked :: "memoryStoreState \<Rightarrow> bool" where
  "linked s \<longleftrightarrow> heap_shape s \<and> heap_ordered (heap_keys s) \<and> distinct (map fst (ms_entries s))
     \<and> mset (ms_expiries s) = mset (map snd (ms_entries s))
     \<and> (\<forall>(k, a) \<in> set (ms_entries s). me_key (obj s a) = k)
     \<and> int (length (ms_entries s)) \<le> rl_MaxEntries (ms_limits s)"

definition store_inv :: "memoryStoreState \<Rightarrow> bool" where
  "store_inv s \<longleftrightarrow> linked s \<and> (\<forall>a \<in> set (ms_expiries s). entry_ok (obj s a))"

lemma linkedD:
  assumes "linked s"
  shows "heap_shape s" "heap_ordered (heap_keys s)" "distinct (map fst (ms_entries s))"
    "set (ms_expiries s) = snd ` set (ms_entries s)" "length (ms_expiries s) = length (ms_entries s)"
    "int (length (ms_entries s)) \<le> rl_MaxEntries (ms_limits s)" "distinct (ms_expiries s)"
  using assms mset_eq_setD [of "ms_expiries s" "map snd (ms_entries s)"]
    mset_eq_length [of "ms_expiries s" "map snd (ms_entries s)"]
  by (auto simp: linked_def heap_shape_def)

lemma linked_pairs: "linked s \<Longrightarrow> \<forall>(k, a) \<in> set (ms_entries s). a < length (ms_objects s) \<and> me_key (obj s a) = k"
proof -
  assume l: "linked s"
  have "a < length (ms_objects s)" if "(k, a) \<in> set (ms_entries s)" for k a
  proof -
    have "a \<in> set (ms_expiries s)" unfolding linkedD(4) [OF l] using that by force
    then show ?thesis using linkedD(1) [OF l] by (simp add: heap_shape_def)
  qed
  then show ?thesis using l by (auto simp: linked_def)
qed

lemma linked_lookup:
  assumes "linked s" "map_of (ms_entries s) k = Some a"
  shows "me_key (obj s a) = k" "a \<in> set (ms_expiries s)" "a < length (ms_objects s)"
proof -
  have e: "(k, a) \<in> set (ms_entries s)" using assms(2) by (rule map_of_SomeD)
  then show "me_key (obj s a) = k" using assms(1) by (auto simp: linked_def)
  show x: "a \<in> set (ms_expiries s)" unfolding linkedD(4) [OF assms(1)] using e by force
  then show "a < length (ms_objects s)" using linkedD(1) [OF assms(1)] by (simp add: heap_shape_def)
qed

lemma linked_entry:
  assumes "linked s" "a \<in> set (ms_expiries s)"
  shows "map_of (ms_entries s) (me_key (obj s a)) = Some a" "(me_key (obj s a), a) \<in> set (ms_entries s)"
proof -
  obtain k where "(k, a) \<in> set (ms_entries s)" using assms linkedD(4) by force
  then show "(me_key (obj s a), a) \<in> set (ms_entries s)" using assms(1) by (auto simp: linked_def)
  then show "map_of (ms_entries s) (me_key (obj s a)) = Some a" using linkedD(3) [OF assms(1)] by simp
qed

section \<open>The abstract store\<close>

datatype Content = FirstSeenRecord | PendingLease Time | CommittedRecord

type_synonym Records = "bytes \<rightharpoonup> Time \<times> Content"

definition abs_entry :: "memoryEntry \<Rightarrow> Time \<times> Content" where
  "abs_entry e = (me_expiry e,
     case me_kind e of
       entryFirstSeen \<Rightarrow> FirstSeenRecord
     | entryPropagation \<Rightarrow>
         if me_propagation e = PropagationStateCommitted then CommittedRecord else PendingLease (me_lease e))"

definition abs_store :: "memoryStoreState \<Rightarrow> Records" where
  "abs_store s = (\<lambda>k. map_option (\<lambda>a. abs_entry (obj s a)) (map_of (ms_entries s) k))"

definition live :: "Time \<Rightarrow> Records \<Rightarrow> Records" where
  "live now m = (\<lambda>k. case m k of None \<Rightarrow> None | Some (x, c) \<Rightarrow> if Time_After x now then Some (x, c) else None)"

definition content_kind :: "Content \<Rightarrow> entryKind" where
  "content_kind c = (case c of FirstSeenRecord \<Rightarrow> entryFirstSeen | _ \<Rightarrow> entryPropagation)"

lemma content_kind_abs [simp]: "content_kind (snd (abs_entry e)) = me_kind e"
  by (simp add: content_kind_def abs_entry_def split: entryKind.split)

lemma fst_abs_entry [simp]: "fst (abs_entry e) = me_expiry e"
  by (simp add: abs_entry_def)

lemma live_abs:
  "live now (abs_store s) k =
     (case map_of (ms_entries s) k of
        None \<Rightarrow> None
      | Some a \<Rightarrow> if Time_After (me_expiry (obj s a)) now then Some (abs_entry (obj s a)) else None)"
  by (auto simp: live_def abs_store_def abs_entry_def split: option.split)

lemma live_idem [simp]: "live now (live now m) = live now m"
  by (auto simp: live_def fun_eq_iff split: option.split)

lemma live_later: "\<not> Time_Before later now \<Longrightarrow> live later (live now m) = live later m"
  by (auto simp: live_def fun_eq_iff Time_Before_key Time_After_key split: option.split)

section \<open>Moves inside the heap\<close>

lemma abs_entry_blank:
  assumes "blank e = blank e'"
  shows "abs_entry e = abs_entry e'" "entry_ok e = entry_ok e'"
  unfolding abs_entry_def entry_ok_def blank_eq [OF assms] by (rule refl)+

lemma frame_linked:
  assumes "frame s t" "heap_shape t" "heap_ordered (heap_keys t)"
    and "distinct (map fst (ms_entries s))" "mset (ms_expiries s) = mset (map snd (ms_entries s))"
    and "\<forall>(k, a) \<in> set (ms_entries s). a < length (ms_objects s) \<and> me_key (obj s a) = k"
    and "int (length (ms_entries s)) \<le> rl_MaxEntries (ms_limits s)"
  shows "linked t"
proof -
  note f = frame_fields [OF assms(1)]
  have "me_key (obj t a) = k" if "(k, a) \<in> set (ms_entries s)" for k a
  proof -
    have "a < length (ms_objects s)" "me_key (obj s a) = k" using assms(6) that by auto
    then show ?thesis using blank_eq(1) [OF frame_blank [OF assms(1)]] by simp
  qed
  moreover have "mset (ms_expiries t) = mset (ms_expiries s)" using assms(1) by (auto simp: frame_def)
  ultimately show ?thesis using assms f by (auto simp: linked_def)
qed

lemma frame_entries: "frame s t \<Longrightarrow> frame (s\<lparr>ms_entries := e\<rparr>) (t\<lparr>ms_entries := e\<rparr>)"
proof -
  assume "frame s t"
  then obtain obs exps where "t = s\<lparr>ms_objects := obs, ms_expiries := exps\<rparr>"
    "map blank obs = map blank (ms_objects s)" "mset exps = mset (ms_expiries s)" by (auto simp: frame_def)
  then show ?thesis unfolding frame_def by (intro exI [of _ obs] exI [of _ exps]) simp
qed

lemma frame_abs:
  assumes "frame s t" "\<forall>(k, a) \<in> set (ms_entries s). a < length (ms_objects s)"
  shows "abs_store t = abs_store s"
proof
  fix k
  show "abs_store t k = abs_store s k"
  proof (cases "map_of (ms_entries s) k")
    case None
    then show ?thesis using frame_fields(5) [OF assms(1)] by (simp add: abs_store_def)
  next
    case (Some a)
    then have "a < length (ms_objects s)" using assms(2) map_of_SomeD [OF Some] by auto
    then show ?thesis using Some frame_fields(5) [OF assms(1)] abs_entry_blank [OF frame_blank [OF assms(1)]]
      by (simp add: abs_store_def)
  qed
qed

section \<open>Pruning\<close>

text \<open>What pruning may change: it drops records, all expired, and moves positions.\<close>

definition same_store :: "memoryStoreState \<Rightarrow> memoryStoreState \<Rightarrow> bool" where
  "same_store s t \<longleftrightarrow> ms_gate t = ms_gate s \<and> ms_limits t = ms_limits s \<and> ms_token t = ms_token s
     \<and> ms_waiters t = ms_waiters s \<and> ms_lastNow t = ms_lastNow s \<and> ms_closed t = ms_closed s
     \<and> ms_clearCount t = ms_clearCount s"

lemma same_store_refl [simp]: "same_store s s"
  by (simp add: same_store_def)

lemma same_store_trans: "same_store s t \<Longrightarrow> same_store t u \<Longrightarrow> same_store s u"
  by (simp add: same_store_def)

text \<open>One removal: the root of the heap leaves the map too.\<close>

lemma prune_step:
  assumes "store_inv s" "ms_expiries s \<noteq> []" "expiries_Pop s = (t, r)"
    and "t' = t\<lparr>ms_entries := AList.delete (me_key (obj t r)) (ms_entries t)\<rparr>"
  shows "store_inv t' \<and> same_store s t' \<and> r = ms_expiries s ! 0
     \<and> abs_store t' = (abs_store s)(me_key (obj s r) := None)
     \<and> length (ms_entries s) = Suc (length (ms_entries t'))"
proof -
  have l: "linked s" and ok: "\<And>a. a \<in> set (ms_expiries s) \<Longrightarrow> entry_ok (obj s a)"
    using assms(1) by (auto simp: store_inv_def)
  note L = linkedD [OF l]
  let ?s1 = "s\<lparr>ms_expiries := tl (ms_expiries s)\<rparr>"
  have p: "r = ms_expiries s ! 0" "heap_shape t" "heap_ordered (heap_keys t)" "frame ?s1 t"
    using expiries_Pop_spec [OF L(1,2) assms(2,3)] by auto
  note f = frame_fields [OF p(4)]
  have x: "ms_expiries s = r # tl (ms_expiries s)" using assms(2) p(1) by (cases "ms_expiries s") auto
  then have r: "r \<in> set (ms_expiries s)" by (metis list.set_intros(1))
  let ?k = "me_key (obj s r)"
  have rng: "\<And>a. a \<in> set (ms_expiries s) \<Longrightarrow> a < length (ms_objects s)" using L(1) by (simp add: heap_shape_def)
  have k: "me_key (obj t r) = ?k" using blank_eq(1) [OF frame_blank [OF p(4)]] rng [OF r] by simp
  obtain ys zs where e: "ms_entries s = ys @ (?k, r) # zs" "AList.delete ?k (ms_entries s) = ys @ zs"
    using delete_split [OF L(3) linked_entry(2) [OF l r]] by blast
  have t': "t' = t\<lparr>ms_entries := ys @ zs\<rparr>" using assms(4) f(5) e(2) k by simp
  let ?s2 = "?s1\<lparr>ms_entries := ys @ zs\<rparr>"
  have fr: "frame ?s2 t'" unfolding t' using p(4) by (rule frame_entries)
  have "mset (r # tl (ms_expiries s)) = mset (map snd (ys @ (?k, r) # zs))"
    unfolding x [symmetric] e(1) [symmetric] using l by (simp add: linked_def)
  then have m: "mset (tl (ms_expiries s)) = mset (map snd (ys @ zs))" by simp
  have keys: "\<forall>(k, a) \<in> set (ms_entries ?s2). a < length (ms_objects ?s2) \<and> me_key (obj ?s2 a) = k"
    using linked_pairs [OF l] e(1) by auto
  have shape: "heap_shape t'" "heap_ordered (heap_keys t')" using p(2,3) by (simp_all add: t' heap_shape_def)
  have "linked t'"
    by (rule frame_linked [OF fr shape]) (use L(3,6) e(1) m keys in auto)
  moreover have "entry_ok (obj t' a)" if "a \<in> set (ms_expiries t')" for a
  proof -
    have "a \<in> set (ms_expiries s)" using that f(10) x by (simp add: t') (metis list.set_intros(2))
    then show ?thesis using ok abs_entry_blank [OF frame_blank [OF p(4)]] rng by (simp add: t')
  qed
  moreover have "abs_store t' = abs_store ?s2" using frame_abs [OF fr] keys by auto
  moreover have "abs_store ?s2 = (abs_store s)(?k := None)"
    by (auto simp: abs_store_def fun_eq_iff e(2) [symmetric] AList.delete_conv')
  moreover have "same_store s t'" using f by (simp add: same_store_def t')
  ultimately show ?thesis using p(1) e(1) by (simp add: store_inv_def t')
qed

lemma root_least:
  assumes "linked s" "a \<in> set (ms_expiries s)" "Time_After (me_expiry (obj s (ms_expiries s ! 0))) now"
  shows "Time_After (me_expiry (obj s a)) now"
proof -
  have "ms_expiries s \<noteq> []" using assms(2) by auto
  then have "ekey (obj s (ms_expiries s ! 0)) \<le> ekey (obj s a)"
    using heap_ordered_root [OF linkedD(2) [OF assms(1)], of "ekey (obj s a)"] assms(2) by simp
  then have "time_key (me_expiry (obj s (ms_expiries s ! 0))) \<le> time_key (me_expiry (obj s a))"
    unfolding ekey_def by (auto simp: less_eq_prod_simp)
  then show ?thesis using assms(3) unfolding Time_After_key by (rule order.strict_trans2 [rotated])
qed

lemma live_drop_expired:
  "m k = Some (x, c) \<Longrightarrow> \<not> Time_After x now \<Longrightarrow> live now (m(k := None)) = live now m"
  by (auto simp: live_def fun_eq_iff)

lemma pruneLoop_spec:
  assumes "pruneLoop budget now s p = (t, p')" "store_inv s"
  shows "store_inv t \<and> same_store s t \<and> live now (abs_store t) = live now (abs_store s)
     \<and> abs_store t \<subseteq>\<^sub>m abs_store s \<and> p \<le> p' \<and> p' \<le> p + int budget
     \<and> int (length (ms_entries s)) = int (length (ms_entries t)) + (p' - p)
     \<and> (p' < p + int budget \<longrightarrow> (\<forall>a \<in> set (ms_expiries t). Time_After (me_expiry (obj t a)) now))"
  using assms
proof (induction budget now s p rule: pruneLoop.induct)
  case (2 budget now s p)
  have l: "linked s" using 2(3) by (simp add: store_inv_def)
  show ?case
  proof (cases "ms_expiries s = [] \<or> Time_After (me_expiry (obj s (ms_expiries s ! 0))) now")
    case True
    then have "t = s" "p' = p" using 2(2) by (auto simp: Let_def split: if_splits)
    then show ?thesis using True 2(3) root_least [OF l] by auto
  next
    case False
    obtain s1 r where pop: "expiries_Pop s = (s1, r)" by fastforce
    define s2 where "s2 = s1\<lparr>ms_entries := AList.delete (me_key (obj s1 r)) (ms_entries s1)\<rparr>"
    have rest: "pruneLoop budget now s2 (p + 1) = (t, p')" using 2(2) False pop by (simp add: Let_def s2_def)
    have st: "store_inv s2" "same_store s s2" "r = ms_expiries s ! 0"
        "abs_store s2 = (abs_store s)(me_key (obj s r) := None)" "length (ms_entries s) = Suc (length (ms_entries s2))"
      using prune_step [OF 2(3) _ pop s2_def] False by auto
    have IH: "store_inv t \<and> same_store s2 t \<and> live now (abs_store t) = live now (abs_store s2)
     \<and> abs_store t \<subseteq>\<^sub>m abs_store s2 \<and> p + 1 \<le> p' \<and> p' \<le> p + 1 + int budget
     \<and> int (length (ms_entries s2)) = int (length (ms_entries t)) + (p' - (p + 1))
     \<and> (p' < p + 1 + int budget \<longrightarrow> (\<forall>a \<in> set (ms_expiries t). Time_After (me_expiry (obj t a)) now))"
      by (rule 2(1) [OF _ refl _ pop [symmetric], folded s2_def]) (use False rest st(1) in auto)
    have "r \<in> set (ms_expiries s)" using st(3) False by simp
    then have "abs_store s (me_key (obj s r)) = Some (abs_entry (obj s r))"
      using linked_entry(1) [OF l] by (simp add: abs_store_def)
    then have "live now (abs_store s2) = live now (abs_store s)"
      unfolding st(4) using live_drop_expired [of "abs_store s" "me_key (obj s r)" "me_expiry (obj s r)"] False st(3)
      by (simp add: abs_entry_def)
    moreover have "abs_store s2 \<subseteq>\<^sub>m abs_store s" unfolding st(4) by (simp add: map_le_def)
    ultimately show ?thesis using IH st(2,5) same_store_trans map_le_trans by auto
  qed
qed simp

section \<open>Lookup and insertion\<close>

lemma liveEntry_spec:
  assumes "liveEntry s k now kind = (r, t)" "store_inv s" "0 < rl_PruneBudget (ms_limits s)"
  shows "store_inv t" "same_store s t" "live now (abs_store t) = live now (abs_store s)"
    "case live now (abs_store s) k of
       None \<Rightarrow> r = Inr None \<and> map_of (ms_entries t) k = None
         \<or> r = Inl (NewReplayError ReplayLimitExceeded) \<and> rl_PruneBudget (ms_limits s) \<le> int (length (ms_entries s))
     | Some (x, c) \<Rightarrow>
         if content_kind c = kind
         then \<exists>a. r = Inr (Some a) \<and> map_of (ms_entries t) k = Some a \<and> abs_entry (obj t a) = (x, c)
         else r = Inl (NewReplayError ReplayInconsistent)"
proof -
  obtain u p where pr: "pruneExpired s now = (u, p)" by fastforce
  have t: "t = u" using assms(1) pr by (auto simp: liveEntry_def Let_def split: option.splits if_splits)
  have P: "store_inv t" "same_store s t" "live now (abs_store t) = live now (abs_store s)"
      "int (length (ms_entries s)) = int (length (ms_entries t)) + p"
      "p < rl_PruneBudget (ms_limits s) \<longrightarrow> (\<forall>a \<in> set (ms_expiries t). Time_After (me_expiry (obj t a)) now)"
    using pruneLoop_spec [OF pr [unfolded pruneExpired_def] assms(2)] assms(3) t by auto
  show "store_inv t" "same_store s t" "live now (abs_store t) = live now (abs_store s)" using P by simp_all
  have lim: "ms_limits t = ms_limits s" using P(2) by (simp add: same_store_def)
  show "case live now (abs_store s) k of
       None \<Rightarrow> r = Inr None \<and> map_of (ms_entries t) k = None
         \<or> r = Inl (NewReplayError ReplayLimitExceeded) \<and> rl_PruneBudget (ms_limits s) \<le> int (length (ms_entries s))
     | Some (x, c) \<Rightarrow>
         if content_kind c = kind
         then \<exists>a. r = Inr (Some a) \<and> map_of (ms_entries t) k = Some a \<and> abs_entry (obj t a) = (x, c)
         else r = Inl (NewReplayError ReplayInconsistent)"
  proof (cases "map_of (ms_entries t) k")
    case None
    then have "live now (abs_store s) k = None" using live_abs [of now t k] by (simp add: P(3))
    then show ?thesis using None assms(1) pr t by (simp add: liveEntry_def)
  next
    case (Some a)
    note lk = linked_lookup [OF _ Some]
    have a: "a \<in> set (ms_expiries t)" using lk(2) P(1) by (simp add: store_inv_def)
    show ?thesis
    proof (cases "Time_After (me_expiry (obj t a)) now")
      case True
      then have "live now (abs_store s) k = Some (abs_entry (obj t a))" using live_abs [of now t k] Some by (simp add: P(3))
      moreover obtain y c where e: "abs_entry (obj t a) = (y, c)" by fastforce
      moreover have "me_kind (obj t a) = content_kind c" using content_kind_abs [of "obj t a"] e by simp
      ultimately show ?thesis using True Some assms(1) pr t by (auto simp: liveEntry_def Let_def split: if_splits)
    next
      case False
      then have "live now (abs_store s) k = None" using live_abs [of now t k] Some by (simp add: P(3))
      moreover have "rl_PruneBudget (ms_limits s) \<le> p" using P(5) a False by (meson not_le)
      ultimately show ?thesis using False Some assms(1) pr t P(4) lim by (simp add: liveEntry_def)
    qed
  qed
qed

lemma live_update: "Time_After x now \<Longrightarrow> live now (m(k \<mapsto> (x, c))) = (live now m)(k \<mapsto> (x, c))"
  by (auto simp: live_def fun_eq_iff)

lemma insertEntry_spec:
  assumes "insertEntry s k x kind = (r, t)" "linked s" "map_of (ms_entries s) k = None"
    and new: "new = \<lparr>me_key = k, me_expiry = x, me_index = 0, me_kind = kind, me_propagation = PropagationStateUnset,
      me_lease = zeroTime\<rparr>"
  shows "if rl_MaxEntries (ms_limits s) \<le> int (length (ms_entries s))
     then r = Inl (NewReplayError ReplayLimitExceeded) \<and> t = s
     else \<exists>a. r = Inr a \<and> linked t \<and> same_store s t \<and> map_of (ms_entries t) k = Some a \<and> blank (obj t a) = new
       \<and> abs_store t = (abs_store s)(k \<mapsto> abs_entry new) \<and> set (ms_expiries t) = insert a (set (ms_expiries s))
       \<and> (\<forall>b \<in> set (ms_expiries s). blank (obj t b) = blank (obj s b))"
proof (cases "rl_MaxEntries (ms_limits s) \<le> int (length (ms_entries s))")
  case True
  then show ?thesis using assms(1) by (simp add: insertEntry_def)
next
  case False
  note L = linkedD [OF assms(2)] and pairs = linked_pairs [OF assms(2)]
  let ?a = "length (ms_objects s)" and ?o = "ms_objects s @ [new\<lparr>me_index := -1\<rparr>]"
  have k: "k \<notin> fst ` set (ms_entries s)" using assms(3) by (simp add: map_of_eq_None_iff)
  define s1 where "s1 = s\<lparr>ms_objects := ?o, ms_entries := ms_entries s @ [(k, ?a)]\<rparr>"
  have t: "r = Inr ?a" "t = expiries_Push s1 ?a"
    using assms(1) False by (simp_all add: insertEntry_def Let_def update_fresh [OF k] s1_def new)
  have x: "b < ?a" if "b \<in> set (ms_expiries s)" for b using that L(1) by (simp add: heap_shape_def)
  have s1: "heap_shape s1" using L(1) x by (auto simp: heap_shape_def s1_def nth_append intro: less_SucI)
  have "heap_keys s1 = heap_keys s" using x by (simp add: s1_def nth_append)
  then have ord: "heap_ordered (heap_keys s1)" using L(2) by simp
  have "?a \<notin> set (ms_expiries s1)" "?a < length (ms_objects s1)" using x by (auto simp: s1_def)
  note P = expiries_Push_spec [OF s1 ord this(2,1), folded t(2)]
  let ?s2 = "s1\<lparr>ms_expiries := ms_expiries s1 @ [?a]\<rparr>"
  have fr: "heap_shape t" "heap_ordered (heap_keys t)" "frame ?s2 t" using P by simp_all
  note f = frame_fields [OF fr(3)]
  have pairs2: "\<forall>(k, a) \<in> set (ms_entries ?s2). a < length (ms_objects ?s2) \<and> me_key (obj ?s2 a) = k"
    using pairs by (auto simp: s1_def nth_append new)
  have "linked t"
    by (rule frame_linked [OF fr(3,1,2)])
       (use L(3,6) k pairs2 False assms(2) in \<open>auto simp: s1_def linked_def\<close>)
  moreover have "abs_store t = abs_store ?s2" using frame_abs [OF fr(3)] pairs2 by auto
  moreover have "abs_store ?s2 = (abs_store s)(k \<mapsto> abs_entry new)"
  proof
    fix q
    show "abs_store ?s2 q = ((abs_store s)(k \<mapsto> abs_entry new)) q"
    proof (cases "q = k")
      case True
      have "abs_entry (new\<lparr>me_index := -1\<rparr>) = abs_entry new" by (intro abs_entry_blank) simp
      with True assms(3) show ?thesis by (simp add: abs_store_def s1_def map_add_def)
    next
      case False
      then show ?thesis using pairs by (auto simp: abs_store_def s1_def map_add_def nth_append dest!: map_of_SomeD split: option.split)
    qed
  qed
  moreover have "blank (obj t ?a) = new" using frame_blank [OF fr(3), of ?a] by (simp add: s1_def blank_def new)
  moreover have "blank (obj t b) = blank (obj s b)" if "b \<in> set (ms_expiries s)" for b
    using frame_blank [OF fr(3), of b] x [OF that] by (simp add: s1_def nth_append)
  moreover have "map_of (ms_entries t) k = Some ?a" using assms(3) by (simp add: f(5) s1_def map_add_def)
  moreover have "same_store s t" using f by (simp add: same_store_def s1_def)
  ultimately show ?thesis using False t f(10) by (auto simp: s1_def)
qed

text \<open>A write to an entry in place that keeps its key, expiry and position.\<close>

lemma set_object_spec:
  assumes "linked s" "map_of (ms_entries s) k = Some a" "t = set_object a f s"
    and "me_key (f (obj s a)) = k" "me_expiry (f (obj s a)) = me_expiry (obj s a)" "me_index (f (obj s a)) = me_index (obj s a)"
  shows "linked t \<and> same_store s t \<and> abs_store t = (abs_store s)(k \<mapsto> abs_entry (f (obj s a)))
     \<and> ms_expiries t = ms_expiries s \<and> ms_entries t = ms_entries s \<and> obj t a = f (obj s a)
     \<and> (\<forall>b. b \<noteq> a \<longrightarrow> obj t b = obj s b)"
proof -
  note lk = linked_lookup [OF assms(1,2)] and L = linkedD [OF assms(1)]
  have o: "obj t b = (if b = a then f (obj s a) else obj s b)" for b
    using lk(3) by (simp add: assms(3) set_object_def nth_list_update)
  have st: "ms_expiries t = ms_expiries s" "ms_entries t = ms_entries s" "length (ms_objects t) = length (ms_objects s)"
    "same_store s t" "ms_limits t = ms_limits s" by (simp_all add: assms(3) set_object_def same_store_def)
  have ek: "ekey (obj t b) = ekey (obj s b)" "me_index (obj t b) = me_index (obj s b)" "me_key (obj t b) = me_key (obj s b)" for b
    using assms(4-6) lk(1) by (simp_all add: o ekey_def)
  have "linked t" using assms(1) by (simp add: linked_def heap_shape_def st ek)
  moreover have "abs_store t = (abs_store s)(k \<mapsto> abs_entry (f (obj s a)))"
  proof
    fix q
    show "abs_store t q = ((abs_store s)(k \<mapsto> abs_entry (f (obj s a)))) q"
    proof (cases "map_of (ms_entries s) q")
      case None
      then show ?thesis using assms(2) by (auto simp: abs_store_def st)
    next
      case (Some b)
      have "b = a \<longleftrightarrow> q = k" using lk(1) linked_lookup(1) [OF assms(1) Some] assms(2) Some
        by (metis option.inject)
      then show ?thesis using Some by (simp add: abs_store_def st o)
    qed
  qed
  ultimately show ?thesis using st o by simp
qed

section \<open>The specification of the three operations\<close>

definition spec_check :: "bytes \<Rightarrow> Time \<Rightarrow> Records \<Rightarrow> (ReplayError, Check) result \<times> Records" where
  "spec_check k expiry m =
     (case m k of
        None \<Rightarrow> (Inr CheckFirstSeen, m(k \<mapsto> (expiry, FirstSeenRecord)))
      | Some (x, c) \<Rightarrow>
          (case c of FirstSeenRecord \<Rightarrow> (Inr CheckReplayed, m) | _ \<Rightarrow> (Inl (NewReplayError ReplayInconsistent), m)))"

definition spec_reserve :: "bytes \<Rightarrow> Time \<Rightarrow> Time \<Rightarrow> Time \<Rightarrow> Records \<Rightarrow> (ReplayError, PropagationReservation) result \<times> Records" where
  "spec_reserve k now expiry lease m =
     (case m k of
        None \<Rightarrow> (Inr PropagationReserved, m(k \<mapsto> (expiry, PendingLease lease)))
      | Some (x, c) \<Rightarrow>
          (case c of
             FirstSeenRecord \<Rightarrow> (Inl (NewReplayError ReplayInconsistent), m)
           | CommittedRecord \<Rightarrow> (Inr PropagationAlreadyCommitted, m)
           | PendingLease l \<Rightarrow>
               if Time_After l now then (Inr PropagationPending, m)
               else (Inr PropagationReserved, m(k \<mapsto> (expiry, PendingLease lease)))))"

definition spec_commit :: "bytes \<Rightarrow> Records \<Rightarrow> (ReplayError, PropagationCommit) result \<times> Records" where
  "spec_commit k m =
     (case m k of
        None \<Rightarrow> (Inr PropagationCommitUnresolved, m)
      | Some (x, c) \<Rightarrow>
          (case c of
             FirstSeenRecord \<Rightarrow> (Inl (NewReplayError ReplayInconsistent), m)
           | _ \<Rightarrow> (Inr PropagationCommitted, m(k \<mapsto> (x, CommittedRecord)))))"

text \<open>The only other outcome is a refusal, for an absent key, of a store that is at a limit.\<close>

definition at_limit :: "memoryStoreState \<Rightarrow> bool" where
  "at_limit s \<longleftrightarrow> rl_PruneBudget (ms_limits s) \<le> int (length (ms_entries s))
     \<or> rl_MaxEntries (ms_limits s) \<le> int (length (ms_entries s))"

definition refines :: "Time \<Rightarrow> bytes \<Rightarrow> memoryStoreState \<Rightarrow> 'a outcome \<Rightarrow> (Records \<Rightarrow> (ReplayError, 'a) result \<times> Records) \<Rightarrow> bool" where
  "refines now k s out spec = (case out of (r, t) \<Rightarrow>
     store_inv t \<and> same_store s t \<and>
     ((r, live now (abs_store t)) = spec (live now (abs_store s))
      \<or> r = Inl (NewReplayError ReplayLimitExceeded) \<and> live now (abs_store t) = live now (abs_store s)
        \<and> live now (abs_store s) k = None \<and> at_limit s))"

lemma refinesI:
  "store_inv t \<Longrightarrow> same_store s t \<Longrightarrow> (r, live now (abs_store t)) = spec (live now (abs_store s)) \<Longrightarrow> refines now k s (r, t) spec"
  by (simp add: refines_def)

lemma refines_limit:
  "store_inv t \<Longrightarrow> same_store s t \<Longrightarrow> live now (abs_store t) = live now (abs_store s) \<Longrightarrow> live now (abs_store s) k = None
     \<Longrightarrow> at_limit s \<Longrightarrow> refines now k s (Inl (NewReplayError ReplayLimitExceeded), t) spec"
  by (simp add: refines_def)

text \<open>The cases of a lookup, as an operation sees them.\<close>

lemma liveEntry_cases [consumes 3, case_names absent found other limit]:
  assumes "liveEntry s k now kind = (r, t)" "store_inv s" "0 < rl_PruneBudget (ms_limits s)"
  obtains (absent) "r = Inr None" "map_of (ms_entries t) k = None" "live now (abs_store s) k = None"
    | (found) a x c where "r = Inr (Some a)" "map_of (ms_entries t) k = Some a" "abs_entry (obj t a) = (x, c)"
        "live now (abs_store s) k = Some (x, c)" "content_kind c = kind" "Time_After x now"
    | (other) x c where "r = Inl (NewReplayError ReplayInconsistent)" "live now (abs_store s) k = Some (x, c)"
        "content_kind c \<noteq> kind"
    | (limit) "r = Inl (NewReplayError ReplayLimitExceeded)" "live now (abs_store s) k = None" "at_limit s"
proof (cases "live now (abs_store s) k")
  case None
  then show thesis using liveEntry_spec(4) [OF assms] absent limit by (auto simp: at_limit_def)
next
  case (Some xc)
  obtain x c where xc: "xc = (x, c)" by fastforce
  then have "Time_After x now" using Some by (auto simp: live_def split: option.splits prod.splits if_splits)
  then show thesis using liveEntry_spec(4) [OF assms] Some xc found other by (auto split: if_splits)
qed

lemma entries_le:
  assumes "liveEntry s k now kind = (r, t)" "store_inv s" "0 < rl_PruneBudget (ms_limits s)"
    "rl_MaxEntries (ms_limits t) \<le> int (length (ms_entries t))"
  shows "at_limit s"
proof -
  obtain p where pr: "pruneExpired s now = (t, p)"
    using assms(1) by (auto simp: liveEntry_def Let_def split: prod.splits option.splits if_splits)
  then have "int (length (ms_entries t)) \<le> int (length (ms_entries s))" "ms_limits t = ms_limits s"
    using pruneLoop_spec [OF pr [unfolded pruneExpired_def] assms(2)] by (auto simp: same_store_def)
  then show ?thesis using assms(4) by (simp add: at_limit_def)
qed

lemma store_inv_insert:
  assumes "insertEntry s k x kind = (r, t)" "store_inv s" "map_of (ms_entries s) k = None"
  obtains (full) "r = Inl (NewReplayError ReplayLimitExceeded)" "t = s" "rl_MaxEntries (ms_limits s) \<le> int (length (ms_entries s))"
    | (fresh) a where "r = Inr a" "linked t" "same_store s t" "map_of (ms_entries t) k = Some a"
        "me_key (obj t a) = k" "me_expiry (obj t a) = x" "me_kind (obj t a) = kind"
        "me_propagation (obj t a) = PropagationStateUnset" "me_lease (obj t a) = zeroTime"
        "abs_store t = (abs_store s)(k \<mapsto> abs_entry (obj t a))" "\<forall>b \<in> set (ms_expiries t). b \<noteq> a \<longrightarrow> entry_ok (obj t b)"
proof (cases "rl_MaxEntries (ms_limits s) \<le> int (length (ms_entries s))")
  case True
  then show thesis using insertEntry_spec [OF assms(1) _ assms(3) refl] assms(2) full by (simp add: store_inv_def)
next
  case False
  then obtain a where a: "r = Inr a" "linked t" "same_store s t" "map_of (ms_entries t) k = Some a"
    "blank (obj t a) = \<lparr>me_key = k, me_expiry = x, me_index = 0, me_kind = kind, me_propagation = PropagationStateUnset, me_lease = zeroTime\<rparr>"
    "abs_store t = (abs_store s)(k \<mapsto> abs_entry \<lparr>me_key = k, me_expiry = x, me_index = 0, me_kind = kind, me_propagation = PropagationStateUnset, me_lease = zeroTime\<rparr>)"
    "set (ms_expiries t) = insert a (set (ms_expiries s))" "\<forall>b \<in> set (ms_expiries s). blank (obj t b) = blank (obj s b)"
    using insertEntry_spec [OF assms(1) _ assms(3) refl] assms(2) by (auto simp: store_inv_def)
  have "blank (obj t a) = blank \<lparr>me_key = k, me_expiry = x, me_index = 0, me_kind = kind, me_propagation = PropagationStateUnset, me_lease = zeroTime\<rparr>"
    unfolding a(5) by (simp add: blank_def)
  from blank_eq [OF this] abs_entry_blank(1) [OF this]
  have "abs_store t = (abs_store s)(k \<mapsto> abs_entry (obj t a))" "me_key (obj t a) = k" "me_expiry (obj t a) = x"
    "me_kind (obj t a) = kind" "me_propagation (obj t a) = PropagationStateUnset" "me_lease (obj t a) = zeroTime"
    using a(6) by simp_all
  moreover have "entry_ok (obj t b)" if "b \<in> set (ms_expiries t)" "b \<noteq> a" for b
  proof -
    have b: "b \<in> set (ms_expiries s)" using that a(7) by simp
    then have "entry_ok (obj t b) = entry_ok (obj s b)" using a(8) by (intro abs_entry_blank(2)) blast
    then show ?thesis using b assms(2) by (simp add: store_inv_def)
  qed
  ultimately show thesis using fresh a(1-4) by blast
qed

lemma rememberStorageKey_refines:
  assumes "store_inv s" "0 < rl_PruneBudget (ms_limits s)" "Time_After expiry now"
  shows "refines now k s (rememberStorageKey s k now expiry) (spec_check k expiry)"
proof -
  obtain r t where le: "liveEntry s k now entryFirstSeen = (r, t)" by fastforce
  note S = liveEntry_spec(1-3) [OF le assms(1,2)]
  show ?thesis using le assms(1,2)
  proof (cases rule: liveEntry_cases)
    case absent
    obtain r' u where ins: "insertEntry t k expiry entryFirstSeen = (r', u)" by fastforce
    then show ?thesis using S(1) absent(2)
    proof (cases rule: store_inv_insert)
      case full
      then show ?thesis using S absent entries_le [OF le assms(1,2)]
        by (auto simp: rememberStorageKey_def le ins intro!: refines_limit)
    next
      case (fresh a)
      have "abs_entry (obj u a) = (expiry, FirstSeenRecord)" using fresh by (simp add: abs_entry_def)
      then have "live now (abs_store u) = (live now (abs_store s))(k \<mapsto> (expiry, FirstSeenRecord))"
        using fresh(10) live_update [OF assms(3)] S(3) by simp
      moreover have "store_inv u" using fresh by (auto simp: store_inv_def entry_ok_def)
      moreover have "same_store s u" using fresh(3) S(2) same_store_trans by blast
      ultimately show ?thesis using fresh absent
        by (auto simp: rememberStorageKey_def le ins spec_check_def intro!: refinesI)
    qed
  next
    case (found a x c)
    then show ?thesis using S
      by (auto simp: rememberStorageKey_def le spec_check_def content_kind_def intro!: refinesI split: Content.splits)
  next
    case (other x c)
    then show ?thesis using S
      by (auto simp: rememberStorageKey_def le spec_check_def content_kind_def intro!: refinesI split: Content.splits)
  next
    case limit
    then show ?thesis using S by (auto simp: rememberStorageKey_def le intro!: refines_limit)
  qed
qed

text \<open>Replacing the content of a record in place, with its expiry kept.\<close>

lemma set_object_refines:
  assumes "store_inv t" "map_of (ms_entries t) k = Some a" "abs_entry (obj t a) = (x, c)" "Time_After x now"
    and "u = set_object a f t" "entry_ok (f (obj t a))"
    and "me_key (f (obj t a)) = me_key (obj t a)" "me_expiry (f (obj t a)) = me_expiry (obj t a)"
        "me_index (f (obj t a)) = me_index (obj t a)"
  shows "store_inv u \<and> same_store t u \<and> live now (abs_store u) = (live now (abs_store t))(k \<mapsto> abs_entry (f (obj t a)))"
proof -
  have l: "linked t" using assms(1) by (simp add: store_inv_def)
  have "me_key (f (obj t a)) = k" using assms(7) linked_lookup(1) [OF l assms(2)] by simp
  note so = set_object_spec [OF l assms(2,5) this assms(8,9)]
  have "store_inv u" unfolding store_inv_def
  proof (intro conjI ballI)
    fix b
    assume b: "b \<in> set (ms_expiries u)"
    then have "b = a \<or> obj u b = obj t b \<and> b \<in> set (ms_expiries t)" using so by metis
    then show "entry_ok (obj u b)" using so assms(1,6) by (auto simp: store_inv_def)
  qed (use so in blast)
  moreover have "abs_entry (f (obj t a)) = (x, snd (abs_entry (f (obj t a))))"
    using assms(3,8) by (metis fst_abs_entry fst_conv prod.collapse)
  then have "live now (abs_store u) = (live now (abs_store t))(k \<mapsto> abs_entry (f (obj t a)))"
    using so live_update [OF assms(4)] by metis
  ultimately show ?thesis using so by blast
qed

lemma commitPropagationKey_refines:
  assumes "store_inv s" "0 < rl_PruneBudget (ms_limits s)"
  shows "refines now k s (commitPropagationKey s k now) (spec_commit k)"
proof -
  obtain r t where le: "liveEntry s k now entryPropagation = (r, t)" by fastforce
  note S = liveEntry_spec(1-3) [OF le assms]
  show ?thesis using le assms
  proof (cases rule: liveEntry_cases)
    case absent
    then show ?thesis using S by (auto simp: commitPropagationKey_def le spec_commit_def intro!: refinesI)
  next
    case (found a x c)
    let ?f = "\<lambda>e. e\<lparr>me_propagation := PropagationStateCommitted, me_lease := zeroTime\<rparr>"
    have e: "me_kind (obj t a) = entryPropagation" "me_expiry (obj t a) = x"
      using found content_kind_abs [of "obj t a"] fst_abs_entry [of "obj t a"] by simp_all
    then have "entry_ok (?f (obj t a))" "abs_entry (?f (obj t a)) = (x, CommittedRecord)"
      by (simp_all add: entry_ok_def abs_entry_def)
    with set_object_refines [OF S(1) found(2,3,6) refl, of ?f]
    have "store_inv (set_object a ?f t)" "same_store t (set_object a ?f t)"
      "live now (abs_store (set_object a ?f t)) = (live now (abs_store s))(k \<mapsto> (x, CommittedRecord))"
      using S(3) by simp_all
    then show ?thesis using found S(2) same_store_trans
      by (auto simp: commitPropagationKey_def le spec_commit_def content_kind_def intro!: refinesI split: Content.splits)
  next
    case (other x c)
    then show ?thesis using S
      by (auto simp: commitPropagationKey_def le spec_commit_def content_kind_def intro!: refinesI split: Content.splits)
  next
    case limit
    then show ?thesis using S by (auto simp: commitPropagationKey_def le intro!: refines_limit)
  qed
qed

text \<open>An expired lease is renewed: the entry gets a new expiry, so the heap is repaired around it.\<close>

lemma renew_spec:
  assumes "store_inv t" "map_of (ms_entries t) k = Some a" "me_kind (obj t a) = entryPropagation"
    and "me_propagation (obj t a) = PropagationStatePending" "Time_After expiry now"
    and "u = expiries_Fix (set_object a (\<lambda>e. e\<lparr>me_lease := lease, me_expiry := expiry\<rparr>) t) (me_index (obj t a))"
  shows "store_inv u \<and> same_store t u \<and> live now (abs_store u) = (live now (abs_store t))(k \<mapsto> (expiry, PendingLease lease))"
proof -
  have l: "linked t" using assms(1) by (simp add: store_inv_def)
  note L = linkedD [OF l] and lk = linked_lookup [OF l assms(2)] and pairs = linked_pairs [OF l]
  obtain i where i: "i < length (ms_expiries t)" "a = ms_expiries t ! i" using lk(2) by (auto simp: in_set_conv_nth)
  then have ix: "me_index (obj t a) = int i" using L(1) by (simp add: heap_shape_def)
  define e where "e = (obj t a)\<lparr>me_lease := lease, me_expiry := expiry\<rparr>"
  define t1 where "t1 = t\<lparr>ms_objects := (ms_objects t)[a := e]\<rparr>"
  have u: "u = expiries_Fix t1 (int i)" by (simp add: assms(6) ix t1_def e_def set_object_def)
  have "me_index e = int i" using ix by (simp add: e_def)
  note F = expiries_Fix_spec [OF L(1,2) i this t1_def, folded u]
  note f = frame_fields [OF conjunct2 [OF conjunct2 [OF F]]]
  have o1: "obj t1 b = (if b = a then e else obj t b)" for b using lk(3) by (simp add: t1_def nth_list_update)
  have pairs1: "\<forall>(k, b) \<in> set (ms_entries t1). b < length (ms_objects t1) \<and> me_key (obj t1 b) = k"
  proof -
    have "me_key (obj t1 b) = me_key (obj t b)" for b by (simp add: o1 e_def)
    then show ?thesis using pairs by (simp add: t1_def)
  qed
  have lu: "linked u"
    by (rule frame_linked [of t1]) (use F L(3,6) pairs1 l in \<open>auto simp: t1_def linked_def\<close>)
  have ok: "entry_ok (obj u b)" if "b \<in> set (ms_expiries u)" for b
  proof -
    have b: "b \<in> set (ms_expiries t)" using that f(10) by (simp add: t1_def)
    then have "b < length (ms_objects t1)" using L(1) by (simp add: heap_shape_def t1_def)
    then have "entry_ok (obj u b) = entry_ok (obj t1 b)" using abs_entry_blank(2) frame_blank F by blast
    also have "\<dots>" using assms(1,3,4) b by (auto simp: o1 e_def entry_ok_def store_inv_def)
    finally show ?thesis .
  qed
  have ae: "abs_entry e = (expiry, PendingLease lease)" using assms(3,4) by (simp add: abs_entry_def e_def)
  have ent: "ms_entries t1 = ms_entries t" by (simp add: t1_def)
  have "abs_store u = abs_store t1" using frame_abs [of t1 u] F pairs1 by auto
  also have "abs_store t1 = (abs_store t)(k \<mapsto> (expiry, PendingLease lease))"
  proof
    fix q
    show "abs_store t1 q = ((abs_store t)(k \<mapsto> (expiry, PendingLease lease))) q"
    proof (cases "map_of (ms_entries t) q")
      case None
      then show ?thesis using assms(2) by (auto simp: abs_store_def t1_def)
    next
      case (Some b)
      have "b = a \<longleftrightarrow> q = k" using lk(1) linked_lookup(1) [OF l Some] assms(2) Some by (metis option.inject)
      then show ?thesis using Some ae by (simp add: abs_store_def ent o1)
    qed
  qed
  finally have "live now (abs_store u) = (live now (abs_store t))(k \<mapsto> (expiry, PendingLease lease))"
    using live_update [OF assms(5)] by simp
  moreover have "same_store t u" using f by (simp add: same_store_def t1_def)
  ultimately show ?thesis using lu ok by (simp add: store_inv_def)
qed

lemma reservePropagationKey_refines:
  assumes "store_inv s" "0 < rl_PruneBudget (ms_limits s)" "Time_After expiry now"
  shows "refines now k s (reservePropagationKey s k now expiry lease) (spec_reserve k now expiry lease)"
proof -
  obtain r t where le: "liveEntry s k now entryPropagation = (r, t)" by fastforce
  note S = liveEntry_spec(1-3) [OF le assms(1,2)]
  show ?thesis using le assms(1,2)
  proof (cases rule: liveEntry_cases)
    case absent
    obtain r' u where ins: "insertEntry t k expiry entryPropagation = (r', u)" by fastforce
    then show ?thesis using S(1) absent(2)
    proof (cases rule: store_inv_insert)
      case full
      then show ?thesis using S absent entries_le [OF le assms(1,2)]
        by (auto simp: reservePropagationKey_def le ins intro!: refines_limit)
    next
      case (fresh a)
      let ?f = "\<lambda>e. e\<lparr>me_propagation := PropagationStatePending, me_lease := lease\<rparr>"
      let ?v = "set_object a ?f u"
      have so: "linked ?v" "same_store u ?v" "abs_store ?v = (abs_store u)(k \<mapsto> abs_entry (?f (obj u a)))"
          "ms_expiries ?v = ms_expiries u" "obj ?v a = ?f (obj u a)" "\<forall>b. b \<noteq> a \<longrightarrow> obj ?v b = obj u b"
        using set_object_spec [OF fresh(2,4) refl, of ?f] fresh(5) by simp_all
      have "entry_ok (obj ?v b)" if "b \<in> set (ms_expiries ?v)" for b
        using that so(4-6) fresh(7,11) by (cases "b = a") (simp_all add: entry_ok_def)
      then have "store_inv ?v" using so(1) by (simp add: store_inv_def)
      moreover have "abs_entry (?f (obj u a)) = (expiry, PendingLease lease)" using fresh by (simp add: abs_entry_def)
      then have "live now (abs_store ?v) = (live now (abs_store s))(k \<mapsto> (expiry, PendingLease lease))"
        using so(3) fresh(10) live_update [OF assms(3)] S(3) by simp
      moreover have "same_store s ?v" using fresh(3) S(2) so(2) same_store_trans by blast
      ultimately show ?thesis using fresh(1) absent
        by (auto simp: reservePropagationKey_def le ins spec_reserve_def intro!: refinesI)
    qed
  next
    case (found a x c)
    have kind: "me_kind (obj t a) = entryPropagation" using found content_kind_abs [of "obj t a"] by simp
    moreover have "entry_ok (obj t a)" using S(1) linked_lookup(2) found(2) by (auto simp: store_inv_def)
    ultimately have ok: "me_propagation (obj t a) = PropagationStatePending \<and> c = PendingLease (me_lease (obj t a))
        \<or> me_propagation (obj t a) = PropagationStateCommitted \<and> c = CommittedRecord"
      using found(3) by (auto simp: entry_ok_def abs_entry_def)
    show ?thesis
    proof (cases "me_propagation (obj t a) = PropagationStatePending \<and> \<not> Time_After (me_lease (obj t a)) now")
      case True
      then show ?thesis using ok found S same_store_trans renew_spec [OF S(1) found(2) kind _ assms(3) refl, of lease]
        by (auto simp: reservePropagationKey_def le spec_reserve_def Let_def intro!: refinesI)
    next
      case False
      then show ?thesis using ok found S
        by (auto simp: reservePropagationKey_def le spec_reserve_def Let_def intro!: refinesI)
    qed
  next
    case (other x c)
    then show ?thesis using S
      by (auto simp: reservePropagationKey_def le spec_reserve_def content_kind_def intro!: refinesI split: Content.splits)
  next
    case limit
    then show ?thesis using S by (auto simp: reservePropagationKey_def le intro!: refines_limit)
  qed
qed

end
