(* ===== verification/Replay_Calls.thy ===== *)
theory Replay_Calls
  imports Replay_Store
begin

text \<open>
  Whole calls on the memory store. A critical section either fails before it touches the records, at
  most degrading the gate, or captures a time that is not before the last one and refines the
  specification at that time. What holds of every such section gives the invariant of the store
  between calls and the guarantee of replay detection over any sequence of calls.
\<close>

section \<open>Critical sections\<close>

definition clock_ok :: "memoryStoreState \<Rightarrow> Time \<Rightarrow> bool" where
  "clock_ok s now \<longleftrightarrow> \<not> Time_IsZero now \<and> (Time_IsZero (ms_lastNow s) \<or> \<not> Time_Before now (ms_lastNow s))"

definition untouched :: "memoryStoreState \<Rightarrow> memoryStoreState \<Rightarrow> bool" where
  "untouched s t \<longleftrightarrow> t = s \<or> t = s\<lparr>ms_gate := gate_degrade (ms_gate s)\<rparr>"

text \<open>The result of a section on key \<open>k\<close>, where \<open>spec\<close> says what happens at each captured time.\<close>

definition attempt ::
    "bytes \<Rightarrow> memoryStoreState \<Rightarrow> 'a outcome \<Rightarrow> (Time \<Rightarrow> Records \<Rightarrow> (ReplayError, 'a) result \<times> Records) \<Rightarrow> bool" where
  "attempt k s out spec \<longleftrightarrow> (isl (fst out) \<and> untouched s (snd out))
     \<or> (\<exists>now. clock_ok s now \<and> lg_state (ms_gate s) = StoreReady \<and> refines now k (s\<lparr>ms_lastNow := now\<rparr>) out (spec now))"

lemma captureOperationNow_cases:
  assumes "captureOperationNow s ctx clock = (r, t)"
  obtains (fail) e where "r = Inl e" "untouched s t"
    | (ok) now where "r = Inr now" "t = s" "clock = Some now" "clock_ok s now" "lg_state (ms_gate s) = StoreReady" "ctx = ContextLive"
  using assms PreflightContext_None_iff [of ctx]
  by (auto simp: captureOperationNow_def readClock_def Let_def clock_ok_def untouched_def
      split: option.splits if_splits)

lemma captureOperationTime_cases:
  assumes "captureOperationTime s ctx clock ctx2 retention = (r, t)"
  obtains (fail) e where "r = Inl e" "untouched s t"
    | (ok) now expiry where "r = Inr (now, expiry)" "t = s" "clock = Some now" "clock_ok s now"
        "lg_state (ms_gate s) = StoreReady" "Retention_AddTo retention now = Inr expiry"
proof -
  obtain r1 t1 where c: "captureOperationNow s ctx clock = (r1, t1)" by fastforce
  then show thesis
  proof (cases rule: captureOperationNow_cases)
    case (fail e)
    then show thesis using that(1) assms c by (auto simp: captureOperationTime_def)
  next
    case (ok now)
    then show thesis using that assms c
      by (auto simp: captureOperationTime_def untouched_def split: sum.splits option.splits)
  qed
qed

lemma AddTo_After: "Retention_AddTo retention now = Inr expiry \<Longrightarrow> Time_After expiry now"
  by (auto simp: Retention_AddTo_def Let_def split: if_splits)

text \<open>The bounds every section works under.\<close>

definition body_ready :: "memoryStoreState \<Rightarrow> bool" where
  "body_ready s \<longleftrightarrow> store_inv s \<and> ReplayLimits_Validate (ms_limits s) = None
     \<and> (Time_IsZero (ms_lastNow s) \<longrightarrow> ms_entries s = [])"

lemma body_ready_lastNow:
  assumes "body_ready s"
  shows "store_inv (s\<lparr>ms_lastNow := now\<rparr>)" "0 < rl_PruneBudget (ms_limits (s\<lparr>ms_lastNow := now\<rparr>))"
  using assms by (simp_all add: body_ready_def store_inv_def linked_def heap_shape_def ReplayLimits_Validate_None_iff)

definition at_expiry :: "Retention \<Rightarrow> Time \<Rightarrow> Time" where
  "at_expiry retention now = (case Retention_AddTo retention now of Inr x \<Rightarrow> x | Inl _ \<Rightarrow> now)"

lemma checkBody_attempt:
  assumes "body_ready s"
  shows "attempt k s (checkBody env retention k s) (\<lambda>now. spec_check k (at_expiry retention now))"
proof -
  obtain r t where c: "captureOperationTime s (ce_token env) (ce_clock env) (ce_mutate env) retention = (r, t)" by fastforce
  then show ?thesis
  proof (cases rule: captureOperationTime_cases)
    case (fail e)
    then show ?thesis using c by (simp add: attempt_def checkBody_def)
  next
    case (ok now expiry)
    then have "refines now k (s\<lparr>ms_lastNow := now\<rparr>) (checkBody env retention k s) (spec_check k (at_expiry retention now))"
      using rememberStorageKey_refines [OF body_ready_lastNow [OF assms] AddTo_After] c
      by (simp add: checkBody_def at_expiry_def)
    then show ?thesis using ok by (auto simp: attempt_def)
  qed
qed

lemma reserveBody_attempt:
  assumes "body_ready s"
  shows "attempt k s (reserveBody env retention lease k s)
     (\<lambda>now. spec_reserve k now (at_expiry retention now) (Time_Add now (Lease_Duration lease)))"
proof -
  obtain r t where c: "captureOperationTime s (ce_token env) (ce_clock env) (ce_mutate env) retention = (r, t)" by fastforce
  then show ?thesis
  proof (cases rule: captureOperationTime_cases)
    case (fail e)
    then show ?thesis using c by (simp add: attempt_def reserveBody_def)
  next
    case (ok now expiry)
    show ?thesis
    proof (cases "Time_After (Time_Add now (Lease_Duration lease)) now")
      case True
      with ok have "refines now k (s\<lparr>ms_lastNow := now\<rparr>) (reserveBody env retention lease k s)
          (spec_reserve k now (at_expiry retention now) (Time_Add now (Lease_Duration lease)))"
        using reservePropagationKey_refines [OF body_ready_lastNow [OF assms] AddTo_After] c
        by (simp add: reserveBody_def at_expiry_def Let_def)
      then show ?thesis using ok by (auto simp: attempt_def)
    next
      case False
      then show ?thesis using ok c by (simp add: attempt_def reserveBody_def Let_def untouched_def)
    qed
  qed
qed

lemma commitBody_attempt:
  assumes "body_ready s"
  shows "attempt k s (commitBody env k s) (\<lambda>now. spec_commit k)"
proof -
  obtain r t where c: "captureOperationNow s (ce_token env) (ce_clock env) = (r, t)" by fastforce
  then show ?thesis
  proof (cases rule: captureOperationNow_cases)
    case (fail e)
    then show ?thesis using c by (simp add: attempt_def commitBody_def)
  next
    case (ok now)
    show ?thesis
    proof (cases "PreflightContext (ce_mutate env)")
      case None
      with ok have "refines now k (s\<lparr>ms_lastNow := now\<rparr>) (commitBody env k s) (spec_commit k)"
        using commitPropagationKey_refines [OF body_ready_lastNow [OF assms]] c by (simp add: commitBody_def)
      then show ?thesis using ok by (auto simp: attempt_def)
    next
      case (Some e)
      then show ?thesis using ok c by (simp add: attempt_def commitBody_def untouched_def)
    qed
  qed
qed

text \<open>What every section keeps.\<close>

lemma attempt_keeps:
  assumes "attempt k s (r, t) spec" "body_ready s"
  shows "body_ready t \<and> (ms_gate t = ms_gate s \<or> ms_gate t = gate_degrade (ms_gate s))
     \<and> ms_limits t = ms_limits s \<and> ms_token t = ms_token s \<and> ms_waiters t = ms_waiters s \<and> ms_closed t = ms_closed s
     \<and> ms_clearCount t = ms_clearCount s"
proof -
  consider "untouched s t" | now where "clock_ok s now" "refines now k (s\<lparr>ms_lastNow := now\<rparr>) (r, t) (spec now)"
    using assms(1) by (auto simp: attempt_def)
  then show ?thesis
  proof cases
    case 1
    then show ?thesis using assms(2) by (auto simp: untouched_def body_ready_def store_inv_def linked_def heap_shape_def)
  next
    case 2
    then show ?thesis using assms(2) by (auto simp: refines_def same_store_def body_ready_def clock_ok_def)
  qed
qed

section \<open>A remembered message\<close>

text \<open>
  Key \<open>k\<close> is remembered until \<open>x\<close>: the store is closing, or it holds the record, or its clock has
  reached \<open>x\<close>.
\<close>

definition remembered :: "bytes \<Rightarrow> Time \<Rightarrow> memoryStoreState \<Rightarrow> bool" where
  "remembered k x s \<longleftrightarrow> closing (ms_gate s) \<or>
     \<not> Time_IsZero (ms_lastNow s) \<and> (abs_store s k = Some (x, FirstSeenRecord) \<or> \<not> Time_After x (ms_lastNow s))"

text \<open>A specification that never changes a first-seen record.\<close>

definition keeps_first_seen :: "bytes \<Rightarrow> (Records \<Rightarrow> 'r \<times> Records) \<Rightarrow> bool" where
  "keeps_first_seen k spec \<longleftrightarrow> (\<forall>m q x. m q = Some (x, FirstSeenRecord) \<longrightarrow> snd (spec m) q = Some (x, FirstSeenRecord))"

lemma specs_keep_first_seen:
  "keeps_first_seen k (spec_check k x)" "keeps_first_seen k (spec_reserve k now x l)" "keeps_first_seen k (spec_commit k)"
  by (auto simp: keeps_first_seen_def spec_check_def spec_reserve_def spec_commit_def split: option.split Content.split)

lemma live_Some: "live now m k = Some (x, c) \<longleftrightarrow> m k = Some (x, c) \<and> Time_After x now"
  by (auto simp: live_def split: option.split)

lemma attempt_remembered:
  assumes "attempt k' s (r, t) spec" "\<And>now. keeps_first_seen k' (spec now)" "remembered k x s" "\<not> closing (ms_gate s)"
  shows "remembered k x t"
proof -
  consider "untouched s t" | now where "clock_ok s now" "refines now k' (s\<lparr>ms_lastNow := now\<rparr>) (r, t) (spec now)"
    using assms(1) by (auto simp: attempt_def)
  then show ?thesis
  proof cases
    case 1
    then show ?thesis using assms(3,4) by (auto simp: untouched_def remembered_def abs_store_def)
  next
    case 2
    let ?s = "s\<lparr>ms_lastNow := now\<rparr>"
    have abs: "abs_store ?s = abs_store s" by (simp add: abs_store_def)
    have last: "ms_lastNow t = now" using 2(2) by (simp add: refines_def same_store_def)
    have nz: "\<not> Time_IsZero now" "\<not> Time_Before now (ms_lastNow s)"
      using 2(1) assms(3,4) by (auto simp: clock_ok_def remembered_def)
    show ?thesis
    proof (cases "abs_store s k = Some (x, FirstSeenRecord) \<and> Time_After x now")
      case True
      then have "live now (abs_store s) k = Some (x, FirstSeenRecord)" by (simp add: live_Some)
      moreover have "live now (abs_store t) = snd (spec now (live now (abs_store s))) \<or> live now (abs_store t) = live now (abs_store s)"
        using 2(2) abs snd_conv unfolding refines_def by (metis (mono_tags, lifting) case_prod_conv)
      ultimately have "live now (abs_store t) k = Some (x, FirstSeenRecord)"
        using assms(2) [of now] unfolding keeps_first_seen_def by metis
      then show ?thesis using nz last by (simp add: remembered_def live_Some)
    next
      case False
      then have "\<not> Time_After x now"
        using assms(3,4) nz(2) by (auto simp: remembered_def Time_After_key Time_Before_key)
      then show ?thesis using nz(1) last by (simp add: remembered_def)
    qed
  qed
qed

text \<open>A first-seen answer begins the memory; while it lasts an answer can only be a replay.\<close>

lemma attempt_first_seen:
  assumes "attempt k s (Inr CheckFirstSeen, t) (\<lambda>now. spec_check k (at_expiry retention now))"
  shows "\<exists>now. clock_ok s now \<and> ms_lastNow t = now \<and> remembered k (at_expiry retention now) t"
proof -
  obtain now where n: "clock_ok s now"
      "refines now k (s\<lparr>ms_lastNow := now\<rparr>) (Inr CheckFirstSeen, t) (spec_check k (at_expiry retention now))"
    using assms by (auto simp: attempt_def)
  let ?x = "at_expiry retention now"
  have "(Inr CheckFirstSeen, live now (abs_store t)) = spec_check k ?x (live now (abs_store (s\<lparr>ms_lastNow := now\<rparr>)))"
    using n(2) by (auto simp: refines_def)
  then have "live now (abs_store t) k = Some (?x, FirstSeenRecord)"
    by (auto simp: spec_check_def split: option.splits prod.splits Content.splits)
  then have "abs_store t k = Some (?x, FirstSeenRecord)" by (simp add: live_Some)
  moreover have "ms_lastNow t = now" using n(2) by (simp add: refines_def same_store_def)
  ultimately show ?thesis using n(1) by (auto simp: remembered_def clock_ok_def)
qed

lemma attempt_replayed:
  assumes "attempt k s (Inr c, t) (\<lambda>now. spec_check k (at_expiry retention now))" "remembered k x s"
    and "Time_After x (ms_lastNow t)"
  shows "c = CheckReplayed"
proof -
  obtain now where n: "clock_ok s now" "lg_state (ms_gate s) = StoreReady"
      "refines now k (s\<lparr>ms_lastNow := now\<rparr>) (Inr c, t) (spec_check k (at_expiry retention now))"
    using assms(1) by (auto simp: attempt_def)
  have last: "ms_lastNow t = now" using n(3) by (simp add: refines_def same_store_def)
  have "\<not> closing (ms_gate s)" using n(2) by (simp add: closing_def)
  then have "abs_store s k = Some (x, FirstSeenRecord)"
    using assms(2,3) n(1) last by (auto simp: remembered_def clock_ok_def Time_After_key Time_Before_key)
  then have "live now (abs_store (s\<lparr>ms_lastNow := now\<rparr>)) k = Some (x, FirstSeenRecord)"
    using assms(3) last by (simp add: live_Some abs_store_def)
  then show ?thesis using n(3) by (auto simp: refines_def spec_check_def)
qed

end
