(* ===== verification/Replay_Concurrent.thy ===== *)
theory Replay_Concurrent
  imports Replay_Calls
begin

text \<open>
  Calls on one memory store from many goroutines, as an interleaving of the atomic steps of \<open>memory.go\<close>:
  channel operations, critical sections of the gate's and the queue's mutex, and the section under the
  token. That section is one step: others can change the gate in between only by beginning a close,
  and its own accesses to the gate, a read and a degrade that a close overrides, commute with that.
\<close>

section \<open>Goroutines\<close>

datatype Op = OpCheck Retention | OpReserve Retention Lease | OpCommit

datatype Answer =
    AnswerCheck "(ReplayError, Check) result"
  | AnswerReserve "(ReplayError, PropagationReservation) result"
  | AnswerCommit "(ReplayError, PropagationCommit) result"

definition refusal :: "Op \<Rightarrow> ReplayError \<Rightarrow> Answer" where
  "refusal op e = (case op of OpCheck _ \<Rightarrow> AnswerCheck (Inl e) | OpReserve _ _ \<Rightarrow> AnswerReserve (Inl e)
     | OpCommit \<Rightarrow> AnswerCommit (Inl e))"

definition validated :: "memoryStoreState \<Rightarrow> Context \<Rightarrow> Key \<Rightarrow> Op \<Rightarrow> (ReplayError, bytes) result" where
  "validated s ctx key op =
     (case op of
        OpCheck r \<Rightarrow> validateCheckRequest (Some s) ctx key r
      | OpReserve r l \<Rightarrow>
          res_bind (validateCheckRequest (Some s) ctx key r)
            (\<lambda>k. if Lease_Valid l then Inr k else Inl (NewReplayError ReplayInvalidRequest))
      | OpCommit \<Rightarrow> validateKeyRequest (Some s) ctx key)"

definition run_body :: "Op \<Rightarrow> CallEnv \<Rightarrow> bytes \<Rightarrow> memoryStoreState \<Rightarrow> Answer \<times> memoryStoreState" where
  "run_body op env k s =
     (case op of
        OpCheck r \<Rightarrow> map_prod AnswerCheck id (checkBody env r k s)
      | OpReserve r l \<Rightarrow> map_prod AnswerReserve id (reserveBody env r l k s)
      | OpCommit \<Rightarrow> map_prod AnswerCommit id (commitBody env k s))"

text \<open>Where a goroutine stands in an operation, or in \<open>Close\<close>.\<close>

datatype Stage =
    Idle
  | Validated Op bytes
  | Admitted Op bytes
  | Waiting Op bytes
  | Holding Op bytes
  | Releasing Answer
  | Leaving Answer
  | Answered Answer
  | Draining
  | Drained
  | Clearing
  | ClearDone
  | Publishing
  | CloseReturned "ReplayError option"

definition holder :: "Stage \<Rightarrow> bool" where
  "holder p = (case p of Holding _ _ \<Rightarrow> True | Releasing _ \<Rightarrow> True | Clearing \<Rightarrow> True | ClearDone \<Rightarrow> True | _ \<Rightarrow> False)"

definition in_flight :: "Stage \<Rightarrow> bool" where
  "in_flight p = (case p of Admitted _ _ \<Rightarrow> True | Waiting _ _ \<Rightarrow> True | Holding _ _ \<Rightarrow> True | Releasing _ \<Rightarrow> True
     | Leaving _ \<Rightarrow> True | _ \<Rightarrow> False)"

definition queued :: "Stage \<Rightarrow> bool" where
  "queued p = (case p of Waiting _ _ \<Rightarrow> True | _ \<Rightarrow> False)"

definition past_drain :: "Stage \<Rightarrow> bool" where
  "past_drain p = (case p of Drained \<Rightarrow> True | Clearing \<Rightarrow> True | ClearDone \<Rightarrow> True | Publishing \<Rightarrow> True | _ \<Rightarrow> False)"

definition returned :: "Stage \<Rightarrow> bool" where
  "returned p = (case p of Idle \<Rightarrow> True | Answered _ \<Rightarrow> True | CloseReturned _ \<Rightarrow> True | _ \<Rightarrow> False)"

record sys =
  sys_store :: memoryStoreState
  sys_stage :: "nat \<Rightarrow> Stage"

definition to_stage :: "nat \<Rightarrow> Stage \<Rightarrow> memoryStoreState \<Rightarrow> sys \<Rightarrow> sys" where
  "to_stage i p t c = c\<lparr>sys_store := t, sys_stage := (sys_stage c)(i := p)\<rparr>"

abbreviation with_gate :: "lifecycleGate \<Rightarrow> memoryStoreState \<Rightarrow> memoryStoreState" where
  "with_gate g s \<equiv> s\<lparr>ms_gate := g\<rparr>"

section \<open>Steps\<close>

inductive call_step :: "nat \<Rightarrow> sys \<Rightarrow> sys \<Rightarrow> bool" where
  op_validate: "sys_stage c i = Idle \<Longrightarrow> validated (sys_store c) ctx key op = Inr k \<Longrightarrow>
     call_step i c (to_stage i (Validated op k) (sys_store c) c)"
| op_invalid: "sys_stage c i = Idle \<Longrightarrow> validated (sys_store c) ctx key op = Inl e \<Longrightarrow>
     call_step i c (to_stage i (Answered (refusal op e)) (sys_store c) c)"
| op_admit: "sys_stage c i = Validated op k \<Longrightarrow> gate_admit StoreReady (ms_gate (sys_store c)) = Inr g \<Longrightarrow>
     call_step i c (to_stage i (Admitted op k) (with_gate g (sys_store c)) c)"
| op_refused: "sys_stage c i = Validated op k \<Longrightarrow> gate_admit StoreReady (ms_gate (sys_store c)) = Inl e \<Longrightarrow>
     call_step i c (to_stage i (Answered (refusal op e)) (sys_store c) c)"
| op_token: "sys_stage c i = Admitted op k \<Longrightarrow> tryToken (sys_store c) = Some t \<Longrightarrow>
     call_step i c (to_stage i (Holding op k) t c)"
| op_enqueue: "sys_stage c i = Admitted op k \<Longrightarrow> tryToken (sys_store c) = None \<Longrightarrow> enqueueWaiter (sys_store c) = Inr t \<Longrightarrow>
     call_step i c (to_stage i (Waiting op k) t c)"
| op_overflow: "sys_stage c i = Admitted op k \<Longrightarrow> tryToken (sys_store c) = None \<Longrightarrow> enqueueWaiter (sys_store c) = Inl e \<Longrightarrow>
     call_step i c (to_stage i (Leaving (refusal op e)) (sys_store c) c)"
| op_wake: "sys_stage c i = Waiting op k \<Longrightarrow> tryToken (sys_store c) = Some t \<Longrightarrow>
     call_step i c (to_stage i (Holding op k) (leaveWaiters t) c)"
| op_cancel: "sys_stage c i = Waiting op k \<Longrightarrow>
     call_step i c (to_stage i (Leaving (refusal op (waitError ctx))) (leaveWaiters (sys_store c)) c)"
| op_body: "sys_stage c i = Holding op k \<Longrightarrow> run_body op env k (sys_store c) = (ans, t) \<Longrightarrow>
     call_step i c (to_stage i (Releasing ans) t c)"
| op_release: "sys_stage c i = Releasing ans \<Longrightarrow>
     call_step i c (to_stage i (Leaving ans) (releaseToken (sys_store c)) c)"
| op_finish: "sys_stage c i = Leaving ans \<Longrightarrow>
     call_step i c (to_stage i (Answered ans) (with_gate (gate_finish (ms_gate (sys_store c))) (sys_store c)) c)"
| close_begin: "sys_stage c i = Idle \<Longrightarrow> gate_beginClose (ms_gate (sys_store c)) = Inr g \<Longrightarrow>
     call_step i c (to_stage i Draining (with_gate g (sys_store c)) c)"
| close_cancel: "sys_stage c i = Draining \<Longrightarrow>
     call_step i c (to_stage i (CloseReturned (Some (waitError ctx))) (sys_store c) c)"
| close_drained: "sys_stage c i = Draining \<Longrightarrow> lg_drainPublished (ms_gate (sys_store c)) \<Longrightarrow>
     call_step i c (to_stage i Drained (sys_store c) c)"
| once_start: "sys_stage c i = Drained \<Longrightarrow> \<not> ms_closed (sys_store c) \<Longrightarrow> tryToken (sys_store c) = Some t \<Longrightarrow>
     call_step i c (to_stage i Clearing t c)"
| once_clear: "sys_stage c i = Clearing \<Longrightarrow>
     call_step i c (to_stage i ClearDone (clearStore (sys_store c)) c)"
| once_end: "sys_stage c i = ClearDone \<Longrightarrow>
     call_step i c (to_stage i Publishing (releaseToken ((sys_store c)\<lparr>ms_closed := True\<rparr>)) c)"
| once_done: "sys_stage c i = Drained \<Longrightarrow> ms_closed (sys_store c) \<Longrightarrow>
     call_step i c (to_stage i Publishing (sys_store c) c)"
| close_publish: "sys_stage c i = Publishing \<Longrightarrow> gate_publishClosed (ms_gate (sys_store c)) = Inr g \<Longrightarrow>
     call_step i c (to_stage i (CloseReturned None) (with_gate g (sys_store c)) c)"
| close_refused: "sys_stage c i = Publishing \<Longrightarrow> gate_publishClosed (ms_gate (sys_store c)) = Inl e \<Longrightarrow>
     call_step i c (to_stage i (CloseReturned (Some e)) (sys_store c) c)"

inductive steps :: "sys \<Rightarrow> sys \<Rightarrow> bool" where
  steps_refl: "steps c c"
| steps_step: "steps c c' \<Longrightarrow> call_step i c' c'' \<Longrightarrow> steps c c''"

definition sys_start :: "memoryStoreState \<Rightarrow> sys" where
  "sys_start s = \<lparr>sys_store = s, sys_stage = (\<lambda>_. Idle)\<rparr>"

definition reachable :: "MemoryConfig \<Rightarrow> sys \<Rightarrow> bool" where
  "reachable config c \<longleftrightarrow> (\<exists>s. NewMemoryStore config = Inr (Some s) \<and> steps (sys_start s) c)"

section \<open>Counting goroutines\<close>

definition busy :: "(nat \<Rightarrow> Stage) \<Rightarrow> nat set" where
  "busy f = {i. f i \<noteq> Idle}"

definition cnt :: "(Stage \<Rightarrow> bool) \<Rightarrow> (nat \<Rightarrow> Stage) \<Rightarrow> int" where
  "cnt P f = int (card {i. P (f i)})"

lemma finite_where: "finite (busy f) \<Longrightarrow> \<not> P Idle \<Longrightarrow> finite {i. P (f i)}"
  by (rule finite_subset [of _ "busy f"]) (auto simp: busy_def)

lemma finite_busy_upd: "finite (busy f) \<Longrightarrow> finite (busy (f(i := p)))"
  by (rule finite_subset [of _ "insert i (busy f)"]) (auto simp: busy_def)

lemma cnt_upd:
  assumes "finite (busy f)" "\<not> P Idle"
  shows "cnt P (f(i := p)) = cnt P f + (if P p then 1 else 0) - (if P (f i) then 1 else 0)"
proof -
  have fin: "finite {j. P (f j)}" using finite_where [of f P, OF assms] .
  show ?thesis
  proof (cases "P p")
    case True
    then have "{j. P ((f(i := p)) j)} = insert i {j. P (f j)}" by auto
    then show ?thesis using True fin by (simp add: cnt_def card_insert_if)
  next
    case False
    then have eq: "{j. P ((f(i := p)) j)} = {j. P (f j)} - {i}" by auto
    show ?thesis
    proof (cases "P (f i)")
      case True
      then have "card {j. P (f j)} = Suc (card ({j. P (f j)} - {i}))" using fin by (intro card.remove) auto
      then show ?thesis using False True eq by (simp add: cnt_def)
    next
      case f: False
      then have "{j. P (f j)} - {i} = {j. P (f j)}" by auto
      then show ?thesis using False f eq by (simp add: cnt_def)
    qed
  qed
qed

lemma cnt_pos: "finite (busy f) \<Longrightarrow> \<not> P Idle \<Longrightarrow> P (f i) \<Longrightarrow> 1 \<le> cnt P f"
  using finite_where [of f P] by (auto simp: cnt_def Suc_le_eq card_gt_0_iff)

lemma cnt_le1: "finite (busy f) \<Longrightarrow> \<not> P Idle \<Longrightarrow> cnt P f \<le> 1 \<Longrightarrow> P (f i) \<Longrightarrow> P (f j) \<Longrightarrow> i = j"
  using finite_where [of f P] by (auto simp: cnt_def card_le_Suc0_iff_eq)

lemma cnt_exists: "0 < cnt P f \<Longrightarrow> \<exists>i. P (f i)"
  by (auto simp: cnt_def card_gt_0_iff)

lemmas stage_simps = holder_def in_flight_def queued_def past_drain_def returned_def

section \<open>The invariant\<close>

definition clearing :: "Stage \<Rightarrow> bool" where
  "clearing p \<longleftrightarrow> p = Clearing \<or> p = ClearDone"

definition cleared :: "Stage \<Rightarrow> bool" where
  "cleared p \<longleftrightarrow> p = ClearDone"

definition publishing :: "Stage \<Rightarrow> bool" where
  "publishing p \<longleftrightarrow> p = Publishing"

definition draining :: "Stage \<Rightarrow> bool" where
  "draining p \<longleftrightarrow> p = Draining"

text \<open>What the counters of the store say about the goroutines.\<close>

definition counts_inv :: "memoryStoreState \<Rightarrow> (nat \<Rightarrow> Stage) \<Rightarrow> bool" where
  "counts_inv s f \<longleftrightarrow> finite (busy f)
     \<and> cnt holder f = (if ms_token s then 0 else 1)
     \<and> cnt in_flight f = lg_inFlight (ms_gate s)
     \<and> cnt queued f = ms_waiters s \<and> ms_waiters s \<le> rl_MaxWaiters (ms_limits s)"

text \<open>What the lifecycle says about the closers and the records.\<close>

definition close_inv :: "memoryStoreState \<Rightarrow> (nat \<Rightarrow> Stage) \<Rightarrow> bool" where
  "close_inv s f \<longleftrightarrow> (0 < cnt past_drain f \<longrightarrow> lg_drainPublished (ms_gate s))
     \<and> (0 < cnt draining f \<longrightarrow> closing (ms_gate s))
     \<and> (0 < cnt publishing f \<longrightarrow> ms_closed s)
     \<and> (ms_closed s \<longrightarrow> cnt clearing f = 0 \<and> lg_drainPublished (ms_gate s))
     \<and> ms_clearCount s = cnt cleared f + (if ms_closed s then 1 else 0)
     \<and> (0 < ms_clearCount s \<longrightarrow> ms_entries s = [])
     \<and> (lg_state (ms_gate s) = StoreClosed \<longrightarrow> ms_closed s)"

definition sys_inv :: "sys \<Rightarrow> bool" where
  "sys_inv c \<longleftrightarrow> gate_inv (ms_gate (sys_store c)) \<and> body_ready (sys_store c)
     \<and> counts_inv (sys_store c) (sys_stage c) \<and> close_inv (sys_store c) (sys_stage c)"

lemmas stage_defs = stage_simps clearing_def cleared_def publishing_def draining_def

lemma not_Idle [simp]:
  "\<not> holder Idle" "\<not> in_flight Idle" "\<not> queued Idle" "\<not> past_drain Idle" "\<not> clearing Idle" "\<not> cleared Idle"
  "\<not> publishing Idle" "\<not> draining Idle"
  by (simp_all add: stage_defs)

lemma cnt_nonneg: "0 \<le> cnt P f"
  by (simp add: cnt_def)

lemma cnt_mono: "finite (busy f) \<Longrightarrow> \<not> Q Idle \<Longrightarrow> (\<And>p. P p \<Longrightarrow> Q p) \<Longrightarrow> cnt P f \<le> cnt Q f"
  using finite_where [of f Q] by (auto simp: cnt_def intro: card_mono)

text \<open>Moving one goroutine: what to check of its two stages and the two stores.\<close>

definition change :: "(Stage \<Rightarrow> bool) \<Rightarrow> Stage \<Rightarrow> Stage \<Rightarrow> int" where
  "change P q p = (if P p then 1 else 0) - (if P q then 1 else 0)"

lemma counts_move:
  assumes "counts_inv s f" "ms_limits t = ms_limits s"
    and "(if ms_token t then 0 else 1) = (if ms_token s then 0 else 1) + change holder (f i) p"
    and "lg_inFlight (ms_gate t) = lg_inFlight (ms_gate s) + change in_flight (f i) p"
    and "ms_waiters t = ms_waiters s + change queued (f i) p" "ms_waiters t \<le> rl_MaxWaiters (ms_limits s)"
  shows "counts_inv t (f(i := p))"
  using assms by (simp add: counts_inv_def change_def finite_busy_upd cnt_upd)

lemma close_move:
  assumes "counts_inv s f" "close_inv s f"
    and "past_drain p \<longrightarrow> lg_drainPublished (ms_gate t)" "lg_drainPublished (ms_gate s) \<longrightarrow> lg_drainPublished (ms_gate t)"
    and "draining p \<longrightarrow> closing (ms_gate t)" "closing (ms_gate s) \<longrightarrow> closing (ms_gate t)"
    and "publishing p \<longrightarrow> ms_closed t" "ms_closed s \<longrightarrow> ms_closed t \<and> \<not> clearing p"
    and "ms_closed t \<and> \<not> ms_closed s \<longrightarrow> clearing (f i) \<and> \<not> clearing p"
    and "ms_clearCount t = ms_clearCount s + change cleared (f i) p + (if ms_closed t \<and> \<not> ms_closed s then 1 else 0)"
    and "0 < ms_clearCount t \<longrightarrow> ms_entries t = []"
    and "lg_state (ms_gate t) = StoreClosed \<longrightarrow> ms_closed t"
  shows "close_inv t (f(i := p))"
proof -
  have fin: "finite (busy f)" and h: "cnt holder f \<le> 1" using assms(1) by (auto simp: counts_inv_def)
  note upd = cnt_upd [OF fin] and pos = cnt_pos [OF fin]
  have n: "0 \<le> cnt P f" for P by (rule cnt_nonneg)
  have "cnt clearing f \<le> cnt holder f" by (rule cnt_mono [OF fin]) (auto simp: stage_defs)
  then have c1: "cnt clearing f \<le> 1" using h by simp
  have mono: "0 < cnt P (f(i := p)) \<Longrightarrow> P p \<or> 0 < cnt P f" if "\<not> P Idle" for P
    using upd [of P i p, OF that] pos [of P i, OF that] by (auto split: if_splits)
  have cl: "cnt clearing (f(i := p)) = 0" if t: "ms_closed t"
  proof (cases "ms_closed s")
    case True
    then have "cnt clearing f = 0" using assms(2) by (simp add: close_inv_def)
    then show ?thesis using True assms(8) pos [of clearing i] by (auto simp: upd)
  next
    case False
    then have "clearing (f i)" "\<not> clearing p" using assms(9) t by auto
    then show ?thesis using c1 pos [of clearing i] by (simp add: upd)
  qed
  have dp: "lg_drainPublished (ms_gate t)" if "ms_closed t"
  proof (cases "ms_closed s")
    case True
    then show ?thesis using assms(2,4) by (simp add: close_inv_def)
  next
    case False
    then have "past_drain (f i)" using assms(9) that by (auto simp: stage_defs)
    then show ?thesis using pos [of past_drain i] assms(2,4) by (simp add: close_inv_def)
  qed
  have cc: "ms_clearCount t = cnt cleared (f(i := p)) + (if ms_closed t then 1 else 0)"
    using assms(2,8,10) by (auto simp: close_inv_def change_def upd split: if_splits)
  show ?thesis
    using mono [of past_drain] mono [of draining] mono [of publishing] assms cl dp cc
    by (simp add: close_inv_def) blast
qed

lemma sys_inv_move:
  assumes "sys_inv c" "sys_stage c i = q" "sys_store c = s" "gate_inv (ms_gate t)" "body_ready t" "ms_limits t = ms_limits s"
    and "(if ms_token t then 0 else 1) = (if ms_token s then 0 else 1) + change holder q p"
    and "lg_inFlight (ms_gate t) = lg_inFlight (ms_gate s) + change in_flight q p"
    and "ms_waiters t = ms_waiters s + change queued q p" "ms_waiters t \<le> rl_MaxWaiters (ms_limits s)"
    and "past_drain p \<longrightarrow> lg_drainPublished (ms_gate t)" "lg_drainPublished (ms_gate s) \<longrightarrow> lg_drainPublished (ms_gate t)"
    and "draining p \<longrightarrow> closing (ms_gate t)" "closing (ms_gate s) \<longrightarrow> closing (ms_gate t)"
    and "publishing p \<longrightarrow> ms_closed t" "ms_closed s \<longrightarrow> ms_closed t \<and> \<not> clearing p"
    and "ms_closed t \<and> \<not> ms_closed s \<longrightarrow> clearing q \<and> \<not> clearing p"
    and "ms_clearCount t = ms_clearCount s + change cleared q p + (if ms_closed t \<and> \<not> ms_closed s then 1 else 0)"
    and "0 < ms_clearCount t \<longrightarrow> ms_entries t = []"
    and "lg_state (ms_gate t) = StoreClosed \<longrightarrow> ms_closed t"
  shows "sys_inv (to_stage i p t c)"
proof -
  have inv: "counts_inv s (sys_stage c)" "close_inv s (sys_stage c)" using assms(1,3) by (auto simp: sys_inv_def)
  have "counts_inv t ((sys_stage c)(i := p))" by (rule counts_move [OF inv(1)]) (use assms(2,6-10) in auto)
  moreover have "close_inv t ((sys_stage c)(i := p))" by (rule close_move [OF inv]) (use assms(2,11-20) in auto)
  ultimately show ?thesis using assms(4,5) by (simp add: sys_inv_def to_stage_def)
qed

text \<open>Facts at a stage.\<close>

lemma sys_invD:
  assumes "sys_inv c" "sys_store c = s"
  shows "gate_inv (ms_gate s)" "body_ready s" "ms_waiters s \<le> rl_MaxWaiters (ms_limits s)"
    "0 < ms_clearCount s \<longrightarrow> ms_entries s = []" "lg_state (ms_gate s) = StoreClosed \<longrightarrow> ms_closed s"
    "0 \<le> ms_clearCount s"
  using assms cnt_nonneg by (auto simp: sys_inv_def counts_inv_def close_inv_def)

lemma sys_inv_stage:
  assumes "sys_inv c" "sys_store c = s" "sys_stage c i = p"
  shows "in_flight p \<Longrightarrow> 1 \<le> lg_inFlight (ms_gate s)" "holder p \<Longrightarrow> \<not> ms_token s"
    "past_drain p \<Longrightarrow> lg_drainPublished (ms_gate s)" "publishing p \<Longrightarrow> ms_closed s" "clearing p \<Longrightarrow> \<not> ms_closed s"
    "draining p \<Longrightarrow> closing (ms_gate s)"
proof -
  have fin: "finite (busy (sys_stage c))" using assms(1) by (simp add: sys_inv_def counts_inv_def)
  note pos = cnt_pos [OF fin, of _ i]
  show "in_flight p \<Longrightarrow> 1 \<le> lg_inFlight (ms_gate s)" "holder p \<Longrightarrow> \<not> ms_token s"
    "past_drain p \<Longrightarrow> lg_drainPublished (ms_gate s)" "publishing p \<Longrightarrow> ms_closed s" "clearing p \<Longrightarrow> \<not> ms_closed s"
    "draining p \<Longrightarrow> closing (ms_gate s)"
    using assms pos [of in_flight] pos [of holder] pos [of past_drain] pos [of publishing] pos [of clearing] pos [of draining]
    by (auto simp: sys_inv_def counts_inv_def close_inv_def split: if_splits)
qed

lemma in_flight_open:
  assumes "sys_inv c" "sys_store c = s" "sys_stage c i = p" "in_flight p"
  shows "\<not> lg_drainPublished (ms_gate s)" "\<not> ms_closed s" "ms_clearCount s = 0"
proof -
  show d: "\<not> lg_drainPublished (ms_gate s)"
    using sys_inv_stage(1) [OF assms(1-3)] assms(4) sys_invD(1) [OF assms(1,2)] by (auto simp: gate_inv_def)
  then show c: "\<not> ms_closed s" using assms(1,2) by (auto simp: sys_inv_def close_inv_def)
  have "cnt cleared (sys_stage c) \<le> cnt past_drain (sys_stage c)"
    using assms(1) by (intro cnt_mono) (auto simp: sys_inv_def counts_inv_def stage_defs)
  then show "ms_clearCount s = 0"
    using c d assms(1,2) cnt_nonneg [of cleared "sys_stage c"] by (auto simp: sys_inv_def close_inv_def)
qed

lemma run_body_keeps:
  assumes "run_body op env k s = (ans, t)" "body_ready s"
  shows "body_ready t \<and> (ms_gate t = ms_gate s \<or> ms_gate t = gate_degrade (ms_gate s))
     \<and> ms_limits t = ms_limits s \<and> ms_token t = ms_token s \<and> ms_waiters t = ms_waiters s \<and> ms_closed t = ms_closed s
     \<and> ms_clearCount t = ms_clearCount s"
proof (cases op)
  case (OpCheck r)
  obtain a where "checkBody env r k s = (a, t)" using assms(1) OpCheck by (cases "checkBody env r k s") (auto simp: run_body_def)
  then show ?thesis using attempt_keeps [OF _ assms(2)] checkBody_attempt [OF assms(2)] by metis
next
  case (OpReserve r l)
  obtain a where "reserveBody env r l k s = (a, t)" using assms(1) OpReserve
    by (cases "reserveBody env r l k s") (auto simp: run_body_def)
  then show ?thesis using attempt_keeps [OF _ assms(2)] reserveBody_attempt [OF assms(2)] by metis
next
  case OpCommit
  obtain a where "commitBody env k s = (a, t)" using assms(1) OpCommit
    by (cases "commitBody env k s") (auto simp: run_body_def)
  then show ?thesis using attempt_keeps [OF _ assms(2)] commitBody_attempt [OF assms(2)] by metis
qed

lemma body_ready_fields [simp]:
  "body_ready (s\<lparr>ms_gate := g\<rparr>) = body_ready s" "body_ready (s\<lparr>ms_token := b\<rparr>) = body_ready s"
  "body_ready (s\<lparr>ms_waiters := w\<rparr>) = body_ready s" "body_ready (s\<lparr>ms_closed := b\<rparr>) = body_ready s"
  by (simp_all add: body_ready_def store_inv_def linked_def heap_shape_def)

lemma body_ready_clear: "body_ready s \<Longrightarrow> body_ready (clearStore s)"
  by (simp add: body_ready_def store_inv_def linked_def heap_shape_def clearStore_def ReplayLimits_Validate_None_iff)

lemma gate_degrade_fields [simp]:
  "lg_inFlight (gate_degrade g) = lg_inFlight g" "lg_drainPublished (gate_degrade g) = lg_drainPublished g"
  "closing (gate_degrade g) = closing g" "lg_state (gate_degrade g) = StoreClosed \<longleftrightarrow> lg_state g = StoreClosed"
  by (auto simp: gate_degrade_def closing_def)

section \<open>Every step keeps the invariant\<close>

lemma publishDrain_gate:
  "lg_state (gate_finish g) = lg_state g" "lg_drainPublished g \<Longrightarrow> lg_drainPublished (gate_finish g)"
  "0 < lg_inFlight g \<Longrightarrow> lg_inFlight (gate_finish g) = lg_inFlight g - 1" "closing (gate_finish g) = closing g"
  by (auto simp: gate_finish_def publishDrainLocked_def closing_def)

lemma gate_admit_fields:
  "gate_admit StoreReady g = Inr g' \<Longrightarrow> lg_state g' = StoreReady \<and> lg_state g = StoreReady
     \<and> lg_inFlight g' = lg_inFlight g + 1 \<and> lg_drainPublished g' = lg_drainPublished g"
  by (auto simp: gate_admit_def split: if_splits)

lemma gate_beginClose_fields:
  "gate_beginClose g = Inr g' \<Longrightarrow> lg_inFlight g' = lg_inFlight g \<and> (lg_drainPublished g \<longrightarrow> lg_drainPublished g')
     \<and> (lg_state g' = StoreClosed \<longrightarrow> lg_state g = StoreClosed)"
  by (auto simp: gate_beginClose_def split: if_splits)

lemma gate_publishClosed_fields:
  "gate_publishClosed g = Inr g' \<Longrightarrow> lg_inFlight g' = lg_inFlight g \<and> lg_drainPublished g' = lg_drainPublished g"
  by (auto simp: gate_publishClosed_def split: if_splits)

lemma step_inv: "call_step i c c' \<Longrightarrow> sys_inv c \<Longrightarrow> sys_inv c'"
proof (induction rule: call_step.induct)
  case (op_validate c i ctx key op k)
  then show ?case using sys_invD [OF op_validate(3) refl]
    by (intro sys_inv_move [OF op_validate(3,1) refl]) (simp_all add: stage_defs change_def)
next
  case (op_invalid c i ctx key op e)
  then show ?case using sys_invD [OF op_invalid(3) refl]
    by (intro sys_inv_move [OF op_invalid(3,1) refl]) (simp_all add: stage_defs change_def)
next
  case (op_admit c i op k g)
  note D = sys_invD [OF op_admit(3) refl]
  show ?case using D gate_admit_fields [OF op_admit(2)] gate_admit_inv [OF D(1) disjI1 [OF refl] op_admit(2)]
    by (intro sys_inv_move [OF op_admit(3,1) refl]) (simp_all add: stage_defs change_def closing_def)
next
  case (op_refused c i op k e)
  then show ?case using sys_invD [OF op_refused(3) refl]
    by (intro sys_inv_move [OF op_refused(3,1) refl]) (simp_all add: stage_defs change_def)
next
  case (op_token c i op k t)
  then show ?case using sys_invD [OF op_token(3) refl]
    by (intro sys_inv_move [OF op_token(3,1) refl])
       (auto simp: stage_defs change_def tryToken_def split: if_splits)
next
  case (op_enqueue c i op k t)
  then show ?case using sys_invD [OF op_enqueue(4) refl]
    by (intro sys_inv_move [OF op_enqueue(4,1) refl])
       (auto simp: stage_defs change_def enqueueWaiter_def split: if_splits)
next
  case (op_overflow c i op k e)
  then show ?case using sys_invD [OF op_overflow(4) refl]
    by (intro sys_inv_move [OF op_overflow(4,1) refl]) (simp_all add: stage_defs change_def)
next
  case (op_wake c i op k t)
  then show ?case using sys_invD [OF op_wake(3) refl]
    by (intro sys_inv_move [OF op_wake(3,1) refl])
       (auto simp: stage_defs change_def tryToken_def leaveWaiters_def split: if_splits)
next
  case (op_cancel c i op k ctx)
  then show ?case using sys_invD [OF op_cancel(2) refl]
    by (intro sys_inv_move [OF op_cancel(2,1) refl])
       (auto simp: stage_defs change_def leaveWaiters_def)
next
  case (op_body c i op k env ans t)
  have "in_flight (Holding op k)" by (simp add: stage_defs)
  note o = in_flight_open [OF op_body(3) refl op_body(1) this]
  note D = sys_invD [OF op_body(3) refl]
  note K = run_body_keeps [OF op_body(2) D(2)]
  have "gate_inv (ms_gate t)" using K D(1) gate_degrade_inv by metis
  moreover have "lg_inFlight (ms_gate t) = lg_inFlight (ms_gate (sys_store c))"
    "lg_drainPublished (ms_gate t) = lg_drainPublished (ms_gate (sys_store c))"
    "closing (ms_gate t) = closing (ms_gate (sys_store c))"
    "lg_state (ms_gate t) = StoreClosed \<longleftrightarrow> lg_state (ms_gate (sys_store c)) = StoreClosed"
    using K by auto
  ultimately show ?case using o D K
    by (intro sys_inv_move [OF op_body(3,1) refl]) (simp_all add: stage_defs change_def)
next
  case (op_release c i ans)
  have "holder (Releasing ans)" by (simp add: stage_defs)
  with sys_invD [OF op_release(2) refl] sys_inv_stage(2) [OF op_release(2) refl op_release(1)] show ?case
    by (intro sys_inv_move [OF op_release(2,1) refl])
       (simp_all add: stage_defs change_def releaseToken_def)
next
  case (op_finish c i ans)
  have "in_flight (Leaving ans)" by (simp add: stage_defs)
  with sys_invD [OF op_finish(2) refl] sys_inv_stage(1) [OF op_finish(2) refl op_finish(1)] publishDrain_gate show ?case
    by (intro sys_inv_move [OF op_finish(2,1) refl])
       (simp_all add: stage_defs change_def gate_finish_inv)
next
  case (close_begin c i g)
  then show ?case using sys_invD [OF close_begin(3) refl] gate_beginClose_fields [OF close_begin(2)]
      gate_beginClose_inv [OF _ close_begin(2)] closing_mono(3) [OF close_begin(2)]
    by (intro sys_inv_move [OF close_begin(3,1) refl]) (simp_all add: stage_defs change_def)
next
  case (close_cancel c i ctx)
  then show ?case using sys_invD [OF close_cancel(2) refl]
    by (intro sys_inv_move [OF close_cancel(2,1) refl]) (simp_all add: stage_defs change_def)
next
  case (close_drained c i)
  then show ?case using sys_invD [OF close_drained(3) refl]
    by (intro sys_inv_move [OF close_drained(3,1) refl]) (simp_all add: stage_defs change_def)
next
  case (once_start c i t)
  have "past_drain Drained" by (simp add: stage_defs)
  with once_start sys_invD [OF once_start(4) refl] sys_inv_stage(3) [OF once_start(4) refl once_start(1)] show ?case
    by (intro sys_inv_move [OF once_start(4,1) refl])
       (auto simp: stage_defs change_def tryToken_def split: if_splits)
next
  case (once_clear c i)
  have "past_drain Clearing" "clearing Clearing" by (simp_all add: stage_defs)
  with sys_invD [OF once_clear(2) refl] sys_inv_stage(3,5) [OF once_clear(2) refl once_clear(1)] show ?case
    by (intro sys_inv_move [OF once_clear(2,1) refl])
       (simp_all add: stage_defs change_def body_ready_clear, simp_all add: clearStore_def)
next
  case (once_end c i)
  have "past_drain ClearDone" "clearing ClearDone" "holder ClearDone" by (simp_all add: stage_defs)
  moreover have "0 < ms_clearCount (sys_store c)"
  proof -
    have "cleared (sys_stage c i)" using once_end(1) by (simp add: cleared_def)
    then have "1 \<le> cnt cleared (sys_stage c)" using once_end(2) by (intro cnt_pos) (auto simp: sys_inv_def counts_inv_def)
    then show ?thesis using once_end(2) by (auto simp: sys_inv_def close_inv_def)
  qed
  ultimately show ?case
    using sys_invD [OF once_end(2) refl] sys_inv_stage(2,3,5) [OF once_end(2) refl once_end(1)]
    by (intro sys_inv_move [OF once_end(2,1) refl])
       (simp_all add: stage_defs change_def releaseToken_def)
next
  case (once_done c i)
  have "past_drain Drained" by (simp add: stage_defs)
  with once_done sys_invD [OF once_done(3) refl] sys_inv_stage(3) [OF once_done(3) refl once_done(1)] show ?case
    by (intro sys_inv_move [OF once_done(3,1) refl]) (simp_all add: stage_defs change_def)
next
  case (close_publish c i g)
  have "publishing Publishing" by (simp add: stage_defs)
  with sys_invD [OF close_publish(3) refl] sys_inv_stage(4) [OF close_publish(3) refl close_publish(1)]
    gate_publishClosed_fields [OF close_publish(2)] gate_publishClosed_inv [OF _ close_publish(2)] closing_mono(4) [OF close_publish(2)]
  show ?case
    by (intro sys_inv_move [OF close_publish(3,1) refl])
       (simp_all add: stage_defs change_def closing_def)
next
  case (close_refused c i e)
  then show ?case using sys_invD [OF close_refused(3) refl]
    by (intro sys_inv_move [OF close_refused(3,1) refl]) (simp_all add: stage_defs change_def)
qed

section \<open>Reachable states\<close>

lemma sys_inv_start:
  assumes "NewMemoryStore config = Inr (Some s)"
  shows "sys_inv (sys_start s)"
proof -
  obtain l where l: "ResolveReplayLimits (mc_Limits config) = Inr l" "s = \<lparr>ms_gate = newLifecycleGate StoreReady, ms_limits = l,
      ms_token = True, ms_waiters = 0, ms_objects = [], ms_entries = [], ms_expiries = [], ms_lastNow = zeroTime,
      ms_closed = False, ms_clearCount = 0\<rparr>"
    using assms by (auto simp: NewMemoryStore_def res_bind_Inr_iff)
  have "ReplayLimits_Validate l = None" using l(1) by (rule ResolveReplayLimits_valid)
  moreover have "cnt P (\<lambda>_. Idle) = 0" if "\<not> P Idle" for P using that by (simp add: cnt_def)
  moreover have "finite (busy (\<lambda>_. Idle))" by (simp add: busy_def)
  moreover have "gate_inv (newLifecycleGate StoreReady)" by (rule newLifecycleGate_inv) simp
  ultimately show ?thesis
    by (simp add: sys_inv_def sys_start_def counts_inv_def close_inv_def l(2) body_ready_def store_inv_def linked_def
        heap_shape_def ReplayLimits_Validate_None_iff newLifecycleGate_def)
qed

lemma steps_inv: "steps c c' \<Longrightarrow> sys_inv c \<Longrightarrow> sys_inv c'"
  by (induction rule: steps.induct) (auto intro: step_inv)

lemma reachable_inv: "reachable config c \<Longrightarrow> sys_inv c"
  using sys_inv_start steps_inv by (auto simp: reachable_def)

lemma steps_trans: "steps b c \<Longrightarrow> steps a b \<Longrightarrow> steps a c"
  by (induction rule: steps.induct) (auto intro: steps_step)

lemma holders_unique: "sys_inv c \<Longrightarrow> holder (sys_stage c i) \<Longrightarrow> holder (sys_stage c j) \<Longrightarrow> i = j"
  by (rule cnt_le1 [of "sys_stage c" holder]) (auto simp: sys_inv_def counts_inv_def)

lemma no_token_holder: "sys_inv c \<Longrightarrow> \<not> ms_token (sys_store c) \<Longrightarrow> \<exists>j. holder (sys_stage c j)"
  by (rule cnt_exists) (simp add: sys_inv_def counts_inv_def)

section \<open>Remembering under concurrency\<close>

lemma run_body_remembered:
  assumes "run_body op env k' s = (ans, t)" "body_ready s" "remembered k x s"
  shows "remembered k x t"
proof (cases "closing (ms_gate s)")
  case True
  then show ?thesis using run_body_keeps [OF assms(1,2)] by (auto simp: remembered_def)
next
  case False
  show ?thesis
  proof (cases op)
    case (OpCheck r)
    obtain a where "checkBody env r k' s = (a, t)" using assms(1) OpCheck by (cases "checkBody env r k' s") (auto simp: run_body_def)
    then have "attempt k' s (a, t) (\<lambda>now. spec_check k' (at_expiry r now))" using checkBody_attempt [OF assms(2)] by metis
    then show ?thesis by (rule attempt_remembered [OF _ specs_keep_first_seen(1) assms(3) False])
  next
    case (OpReserve r l)
    obtain a where "reserveBody env r l k' s = (a, t)" using assms(1) OpReserve
      by (cases "reserveBody env r l k' s") (auto simp: run_body_def)
    then have "attempt k' s (a, t) (\<lambda>now. spec_reserve k' now (at_expiry r now) (Time_Add now (Lease_Duration l)))"
      using reserveBody_attempt [OF assms(2)] by metis
    then show ?thesis by (rule attempt_remembered [OF _ specs_keep_first_seen(2) assms(3) False])
  next
    case OpCommit
    obtain a where "commitBody env k' s = (a, t)" using assms(1) OpCommit
      by (cases "commitBody env k' s") (auto simp: run_body_def)
    then have "attempt k' s (a, t) (\<lambda>now. spec_commit k')" using commitBody_attempt [OF assms(2)] by metis
    then show ?thesis by (rule attempt_remembered [OF _ specs_keep_first_seen(3) assms(3) False])
  qed
qed

lemma remembered_cong:
  "abs_store t = abs_store s \<Longrightarrow> ms_lastNow t = ms_lastNow s \<Longrightarrow> (closing (ms_gate s) \<longrightarrow> closing (ms_gate t)) \<Longrightarrow>
     remembered k x s \<Longrightarrow> remembered k x t"
  by (auto simp: remembered_def)

lemma gate_moves_closing:
  "gate_admit StoreReady g = Inr g' \<Longrightarrow> closing g \<longrightarrow> closing g'" "closing g \<longrightarrow> closing (gate_finish g)"
  "gate_beginClose g = Inr g' \<Longrightarrow> closing g \<longrightarrow> closing g'" "gate_publishClosed g = Inr g' \<Longrightarrow> closing g \<longrightarrow> closing g'"
  using closing_mono closing_def publishDrain_gate(4) by (auto simp: gate_admit_def split: if_splits)

lemma step_remembered:
  assumes "call_step i c c'" "sys_inv c" "remembered k x (sys_store c)"
  shows "remembered k x (sys_store c')"
  using assms
proof (induction rule: call_step.induct)
  case (op_body c i op k' env ans t)
  then show ?case using run_body_remembered [OF op_body(2) sys_invD(2) [OF op_body(3) refl]] by (simp add: to_stage_def)
next
  case (once_clear c i)
  have "past_drain Clearing" by (simp add: stage_defs)
  then have "lg_drainPublished (ms_gate (sys_store c))" using sys_inv_stage(3) [OF once_clear(2) refl once_clear(1)] by simp
  then have "closing (ms_gate (sys_store c))" using sys_invD(1) [OF once_clear(2) refl] by (auto simp: gate_inv_def closing_def)
  then show ?case by (simp add: remembered_def to_stage_def clearStore_def)
qed (auto simp: to_stage_def tryToken_def enqueueWaiter_def leaveWaiters_def releaseToken_def abs_store_def
      gate_moves_closing intro: remembered_cong [rotated -1] split: if_splits)

lemma steps_remembered:
  "steps c c' \<Longrightarrow> sys_inv c \<Longrightarrow> remembered k x (sys_store c) \<Longrightarrow> remembered k x (sys_store c')"
  by (induction rule: steps.induct) (auto intro: step_remembered steps_inv)

section \<open>Progress\<close>

text \<open>The way a call still has to go; every step shortens it.\<close>

definition rank :: "Stage \<Rightarrow> nat" where
  "rank p = (case p of Idle \<Rightarrow> 9 | Validated _ _ \<Rightarrow> 8 | Admitted _ _ \<Rightarrow> 7 | Waiting _ _ \<Rightarrow> 6 | Holding _ _ \<Rightarrow> 5 | Releasing _ \<Rightarrow> 4
     | Leaving _ \<Rightarrow> 3 | Answered _ \<Rightarrow> 0 | Draining \<Rightarrow> 8 | Drained \<Rightarrow> 7 | Clearing \<Rightarrow> 6 | ClearDone \<Rightarrow> 5 | Publishing \<Rightarrow> 4
     | CloseReturned _ \<Rightarrow> 0)"

lemma step_rank:
  "call_step i c c' \<Longrightarrow> rank (sys_stage c' i) < rank (sys_stage c i) \<and> (\<forall>j. j \<noteq> i \<longrightarrow> sys_stage c' j = sys_stage c j)"
  by (induction rule: call_step.induct) (simp_all add: to_stage_def rank_def)

lemma step_not_Idle: "call_step i c c' \<Longrightarrow> sys_stage c' i \<noteq> Idle"
  by (induction rule: call_step.induct) (simp_all add: to_stage_def)

text \<open>
  A started call goes on by itself: it is not yet returned, it leaves the queue only with the token, and the
  wait for the drain only when the drain is published. New calls and the ends of contexts are no such steps.
\<close>

definition own_step :: "nat \<Rightarrow> sys \<Rightarrow> sys \<Rightarrow> bool" where
  "own_step i c c' \<longleftrightarrow> call_step i c c' \<and> \<not> returned (sys_stage c i)
     \<and> (queued (sys_stage c i) \<longrightarrow> holder (sys_stage c' i)) \<and> (sys_stage c i = Draining \<longrightarrow> sys_stage c' i = Drained)"

inductive undisturbed :: "sys \<Rightarrow> sys \<Rightarrow> bool" where
  undisturbed_refl: "undisturbed c c"
| undisturbed_step: "own_step i c c' \<Longrightarrow> undisturbed c' c'' \<Longrightarrow> undisturbed c c''"

text \<open>A goroutine that is neither waiting for the token nor for the drain can always go on.\<close>

lemma free_step:
  assumes "\<not> returned (sys_stage c j)" "\<not> queued (sys_stage c j)" "sys_stage c j \<noteq> Draining"
    "sys_stage c j \<noteq> Drained \<or> ms_closed (sys_store c)"
  shows "\<exists>c'. own_step j c c'"
proof -
  have "\<exists>c'. call_step j c c'"
  proof (cases "sys_stage c j")
    case (Validated op k)
    then show ?thesis by (cases "gate_admit StoreReady (ms_gate (sys_store c))") (blast intro: op_admit op_refused)+
  next
    case (Admitted op k)
    then show ?thesis
      by (cases "tryToken (sys_store c)"; cases "enqueueWaiter (sys_store c)") (blast intro: op_token op_enqueue op_overflow)+
  next
    case (Holding op k)
    obtain ans t where "run_body op \<lparr>ce_entry = ContextLive, ce_wait = None, ce_token = ContextLive, ce_clock = None, ce_mutate = ContextLive\<rparr>
        k (sys_store c) = (ans, t)" by fastforce
    with Holding show ?thesis by (blast intro: op_body)
  next
    case (Releasing ans)
    then show ?thesis by (blast intro: op_release)
  next
    case (Leaving ans)
    then show ?thesis by (blast intro: op_finish)
  next
    case Drained
    then show ?thesis using assms(4) by (auto intro: once_done)
  next
    case Clearing
    then show ?thesis by (blast intro: once_clear)
  next
    case ClearDone
    then show ?thesis by (blast intro: once_end)
  next
    case Publishing
    then show ?thesis by (cases "gate_publishClosed (ms_gate (sys_store c))") (blast intro: close_publish close_refused)+
  qed (use assms in \<open>simp_all add: stage_defs\<close>)
  then show ?thesis using assms(1-3) by (auto simp: own_step_def)
qed

lemma holder_step: "holder (sys_stage c j) \<Longrightarrow> \<exists>c'. own_step j c c'"
  using free_step [of c j] by (cases "sys_stage c j") (simp_all add: stage_defs)

text \<open>Without any deadline or cancellation, some started call can always take its next step.\<close>

lemma queued_progress:
  assumes "sys_inv c" "queued (sys_stage c j)"
  shows "\<exists>l c'. own_step l c c'"
proof (cases "ms_token (sys_store c)")
  case True
  obtain op k where w: "sys_stage c j = Waiting op k" using assms(2) by (cases "sys_stage c j") (auto simp: stage_defs)
  have "tryToken (sys_store c) = Some ((sys_store c)\<lparr>ms_token := False\<rparr>)" using True by (simp add: tryToken_def)
  from op_wake [OF w this] w have "own_step j c (to_stage j (Holding op k) (leaveWaiters ((sys_store c)\<lparr>ms_token := False\<rparr>)) c)"
    by (auto simp: own_step_def stage_defs to_stage_def)
  then show ?thesis by blast
next
  case False
  then show ?thesis using no_token_holder [OF assms(1)] holder_step by blast
qed

lemma progress:
  assumes "sys_inv c" "\<not> returned (sys_stage c i)"
  shows "\<exists>l c'. own_step l c c'"
proof -
  consider "queued (sys_stage c i)" | "sys_stage c i = Draining" | "sys_stage c i = Drained" "\<not> ms_closed (sys_store c)"
    | "\<exists>c'. own_step i c c'" using free_step [OF assms(2)] by blast
  then show ?thesis
  proof cases
    case 1
    then show ?thesis using queued_progress [OF assms(1)] by blast
  next
    case 2
    show ?thesis
    proof (cases "lg_drainPublished (ms_gate (sys_store c))")
      case True
      then have "own_step i c (to_stage i Drained (sys_store c) c)"
        using close_drained [OF 2] 2 by (simp add: own_step_def stage_defs to_stage_def)
      then show ?thesis by blast
    next
      case False
      have "closing (ms_gate (sys_store c))" using sys_inv_stage(6) [OF assms(1) refl 2] by (simp add: draining_def)
      then have "lg_inFlight (ms_gate (sys_store c)) \<noteq> 0" "0 \<le> lg_inFlight (ms_gate (sys_store c))"
        using False sys_invD(1) [OF assms(1) refl] by (auto simp: closing_def gate_inv_def)
      then have "0 < cnt in_flight (sys_stage c)" using assms(1) by (simp add: sys_inv_def counts_inv_def)
      then obtain j where j: "in_flight (sys_stage c j)" using cnt_exists by blast
      show ?thesis
      proof (cases "queued (sys_stage c j)")
        case True
        then show ?thesis using queued_progress [OF assms(1)] by blast
      next
        case False
        then show ?thesis using j free_step [of c j] by (cases "sys_stage c j") (auto simp: stage_defs)
      qed
    qed
  next
    case 3
    show ?thesis
    proof (cases "ms_token (sys_store c)")
      case True
      then have "tryToken (sys_store c) = Some ((sys_store c)\<lparr>ms_token := False\<rparr>)" by (simp add: tryToken_def)
      from once_start [OF 3 this] 3(1) have "own_step i c (to_stage i Clearing ((sys_store c)\<lparr>ms_token := False\<rparr>) c)"
        by (simp add: own_step_def stage_defs)
      then show ?thesis by blast
    next
      case False
      then show ?thesis using no_token_holder [OF assms(1)] holder_step by blast
    qed
  next
    case 4
    then show ?thesis using assms(2) by blast
  qed
qed

text \<open>Every such step brings the started calls closer to their return.\<close>

definition work :: "sys \<Rightarrow> nat" where
  "work c = (\<Sum>i \<in> busy (sys_stage c). rank (sys_stage c i))"

lemma step_work:
  assumes "own_step l c c'" "finite (busy (sys_stage c))"
  shows "work c' < work c \<and> busy (sys_stage c') = busy (sys_stage c)"
proof -
  have s: "call_step l c c'" "\<not> returned (sys_stage c l)" using assms(1) by (simp_all add: own_step_def)
  have r: "rank (sys_stage c' l) < rank (sys_stage c l)" "\<And>j. j \<noteq> l \<Longrightarrow> sys_stage c' j = sys_stage c j"
    using step_rank [OF s(1)] by auto
  have l: "l \<in> busy (sys_stage c)" using s(2) by (auto simp: busy_def stage_defs)
  have b: "busy (sys_stage c') = busy (sys_stage c)"
  proof (rule set_eqI)
    fix j
    show "j \<in> busy (sys_stage c') \<longleftrightarrow> j \<in> busy (sys_stage c)"
      using l step_not_Idle [OF s(1)] r(2) [of j] by (cases "j = l") (auto simp: busy_def)
  qed
  have "work c' < work c" unfolding work_def b
  proof (rule sum_strict_mono_ex1)
    show "\<forall>x\<in>busy (sys_stage c). rank (sys_stage c' x) \<le> rank (sys_stage c x)"
      using r by (metis le_refl less_imp_le)
    show "\<exists>a\<in>busy (sys_stage c). rank (sys_stage c' a) < rank (sys_stage c a)" using r(1) l by blast
  qed (rule assms(2))
  then show ?thesis using b by blast
qed

lemma undisturbed_inv: "undisturbed c c' \<Longrightarrow> sys_inv c \<Longrightarrow> sys_inv c'"
  by (induction rule: undisturbed.induct) (auto simp: own_step_def intro: step_inv)

text \<open>So all started calls can run to their return, and cannot but run there.\<close>

lemma calls_complete_from:
  "sys_inv c \<Longrightarrow> \<exists>c'. undisturbed c c' \<and> busy (sys_stage c') = busy (sys_stage c) \<and> (\<forall>i. returned (sys_stage c' i))"
proof (induction "work c" arbitrary: c rule: less_induct)
  case less
  show ?case
  proof (cases "\<forall>i. returned (sys_stage c i)")
    case True
    then show ?thesis by (blast intro: undisturbed_refl)
  next
    case False
    then obtain l c1 where l: "own_step l c c1" using progress [OF less.prems] by blast
    have "finite (busy (sys_stage c))" using less.prems by (simp add: sys_inv_def counts_inv_def)
    note w = step_work [OF l this]
    have "sys_inv c1" using l less.prems by (auto simp: own_step_def intro: step_inv)
    then obtain c' where "undisturbed c1 c'" "busy (sys_stage c') = busy (sys_stage c1)" "\<forall>i. returned (sys_stage c' i)"
      using less.hyps w by blast
    then show ?thesis using w undisturbed_step [OF l] by metis
  qed
qed

lemma no_endless_run:
  assumes "sys_inv (f 0)" "\<And>n. own_step (l n) (f n) (f (Suc n))"
  shows False
proof -
  have inv: "sys_inv (f n)" for n
    by (induction n) (use assms in \<open>auto simp: own_step_def intro: step_inv\<close>)
  have "work (f (Suc n)) < work (f n)" for n
    using step_work [OF assms(2)] inv by (simp add: sys_inv_def counts_inv_def)
  then have "work (f n) + n \<le> work (f 0)" for n
  proof (induction n)
    case (Suc n)
    then show ?case by (metis add_Suc_right add_Suc Suc_leI add_le_mono1 le_trans)
  qed simp
  from this [of "Suc (work (f 0))"] show False by simp
qed

text \<open>A closing that is not cancelled ends without an error.\<close>

definition closer :: "Stage \<Rightarrow> bool" where
  "closer p = (case p of Draining \<Rightarrow> True | Drained \<Rightarrow> True | Clearing \<Rightarrow> True | ClearDone \<Rightarrow> True | Publishing \<Rightarrow> True
     | CloseReturned None \<Rightarrow> True | _ \<Rightarrow> False)"

lemma publishing_succeeds:
  assumes "sys_inv c" "sys_stage c i = Publishing"
  shows "\<exists>g. gate_publishClosed (ms_gate (sys_store c)) = Inr g"
  using sys_inv_stage(3,4) [OF assms(1) refl assms(2)] sys_invD(1) [OF assms(1) refl]
  by (auto simp: gate_publishClosed_def gate_inv_def stage_defs closing_def)

lemma own_step_closer:
  assumes "own_step i c c'" "sys_inv c" "closer (sys_stage c j)"
  shows "closer (sys_stage c' j)"
proof -
  have s: "call_step i c c'" "sys_stage c i = Draining \<longrightarrow> sys_stage c' i = Drained" using assms(1) by (simp_all add: own_step_def)
  show ?thesis
  proof (cases "j = i")
    case True
    show ?thesis using s(1) s(2) assms(3) publishing_succeeds [OF assms(2)] unfolding True
      by (cases rule: call_step.cases) (auto simp: to_stage_def closer_def)
  next
    case False
    then show ?thesis using step_rank [OF s(1)] assms(3) by simp
  qed
qed

lemma undisturbed_closer: "undisturbed c c' \<Longrightarrow> sys_inv c \<Longrightarrow> closer (sys_stage c j) \<Longrightarrow> closer (sys_stage c' j)"
proof (induction rule: undisturbed.induct)
  case (undisturbed_step i c c' c'')
  then show ?case using own_step_closer [of i c c' j] by (auto simp: own_step_def intro: step_inv)
qed simp

end
