(* ===== verification/Replay_Refusal.thy ===== *)
theory Replay_Refusal
  imports Replay_Store
begin

text \<open>
  When the memory store refuses at a limit: an operation is refused exactly when an expired record of its own
  key has outlived the bounded pruning, or when it would have to insert a record beside as many live ones as
  the store may hold. In every other case it is the step of the specification.
\<close>

section \<open>Live and expired records\<close>

definition expired :: "Time \<Rightarrow> Records \<Rightarrow> bytes set" where
  "expired now m = {k. \<exists>x c. m k = Some (x, c) \<and> \<not> Time_After x now}"

lemma dom_live: "dom m = dom (live now m) \<union> expired now m" "dom (live now m) \<inter> expired now m = {}"
  by (auto simp: live_def expired_def dom_def split: option.splits if_splits)

lemma live_not_expired: "live now m k = Some y \<Longrightarrow> k \<notin> expired now m"
  using dom_live(2) by blast

lemma record_count:
  assumes "store_inv s"
  shows "finite (dom (abs_store s))"
    "length (ms_entries s) = card (dom (live now (abs_store s))) + card (expired now (abs_store s))"
proof -
  have dom: "dom (abs_store s) = set (map fst (ms_entries s))"
    using dom_map_of_conv_image_fst [of "ms_entries s"] by (simp add: abs_store_def dom_def)
  then show f: "finite (dom (abs_store s))" by simp
  have "length (ms_entries s) = card (dom (abs_store s))"
    using linkedD(3) [of s] assms unfolding dom store_inv_def by (metis distinct_card length_map)
  also have "\<dots> = card (dom (live now (abs_store s))) + card (expired now (abs_store s))"
    using f dom_live [where m = "abs_store s" and now = now] by (metis card_Un_disjoint finite_Un)
  finally show "length (ms_entries s) = card (dom (live now (abs_store s))) + card (expired now (abs_store s))" .
qed

section \<open>Refusals\<close>

text \<open>The record of the key is expired and still there, because more records have expired than one call prunes.\<close>

definition stale :: "Time \<Rightarrow> bytes \<Rightarrow> memoryStoreState \<Rightarrow> memoryStoreState \<Rightarrow> bool" where
  "stale now k s t \<longleftrightarrow> k \<in> expired now (abs_store t)
     \<and> rl_PruneBudget (ms_limits s) < int (card (expired now (abs_store s)))"

text \<open>The key has no live record, and as many other records are live as the store may hold.\<close>

definition no_room :: "Time \<Rightarrow> bytes \<Rightarrow> memoryStoreState \<Rightarrow> bool" where
  "no_room now k s \<longleftrightarrow> live now (abs_store s) k = None
     \<and> rl_MaxEntries (ms_limits s) \<le> int (card (dom (live now (abs_store s))))"

text \<open>
  The outcome of an operation on key \<open>k\<close>, where \<open>full\<close> says that it needs room that is not there: a refusal
  that changes no live record exactly in the two cases, the step of the specification otherwise.
\<close>

definition refines_exactly ::
    "Time \<Rightarrow> bytes \<Rightarrow> bool \<Rightarrow> memoryStoreState \<Rightarrow> 'a outcome \<Rightarrow> (Records \<Rightarrow> (ReplayError, 'a) result \<times> Records) \<Rightarrow> bool" where
  "refines_exactly now k full s out spec = (case out of (r, t) \<Rightarrow>
     store_inv t \<and> same_store s t \<and>
     (if stale now k s t \<or> full
      then r = Inl (NewReplayError ReplayLimitExceeded) \<and> live now (abs_store t) = live now (abs_store s)
        \<and> live now (abs_store s) k = None
      else (r, live now (abs_store t)) = spec (live now (abs_store s))))"

lemma specs_not_limit:
  "fst (spec_check k x m) \<noteq> Inl (NewReplayError ReplayLimitExceeded)"
  "fst (spec_reserve k now x l m) \<noteq> Inl (NewReplayError ReplayLimitExceeded)"
  "fst (spec_commit k m) \<noteq> Inl (NewReplayError ReplayLimitExceeded)"
  by (auto simp: spec_check_def spec_reserve_def spec_commit_def NewReplayError_def split: option.splits Content.splits)

lemma refines_exactlyI:
  assumes "refines now k s (r, t) spec" "fst (spec (live now (abs_store s))) \<noteq> Inl (NewReplayError ReplayLimitExceeded)"
    and "r = Inl (NewReplayError ReplayLimitExceeded) \<longleftrightarrow> stale now k s t \<or> full"
  shows "refines_exactly now k full s (r, t) spec"
proof -
  have "r = Inl (NewReplayError ReplayLimitExceeded) \<Longrightarrow> (r, live now (abs_store t)) \<noteq> spec (live now (abs_store s))"
    using assms(2) by (metis fst_conv)
  then show ?thesis using assms(1,3) by (simp add: refines_exactly_def refines_def) blast
qed

lemma liveEntry_refusal:
  assumes "liveEntry s k now kind = (r, t)" "store_inv s" "0 < rl_PruneBudget (ms_limits s)"
  shows "r = Inl (NewReplayError ReplayLimitExceeded) \<longleftrightarrow> stale now k s t"
    "r = Inr None \<Longrightarrow> rl_MaxEntries (ms_limits t) \<le> int (length (ms_entries t)) \<longleftrightarrow> no_room now k s"
proof -
  obtain u p where pr: "pruneExpired s now = (u, p)" by fastforce
  have t: "t = u" using assms(1) pr by (auto simp: liveEntry_def Let_def split: option.splits if_splits)
  have P: "store_inv t" "ms_limits t = ms_limits s" "live now (abs_store t) = live now (abs_store s)" "0 \<le> p" "p \<le> rl_PruneBudget (ms_limits s)"
      "int (length (ms_entries s)) = int (length (ms_entries t)) + p"
      "p < rl_PruneBudget (ms_limits s) \<longrightarrow> (\<forall>a \<in> set (ms_expiries t). Time_After (me_expiry (obj t a)) now)"
    using pruneLoop_spec [OF pr [unfolded pruneExpired_def] assms(2)] assms(3) t by (auto simp: same_store_def)
  note cs = record_count(2) [OF assms(2), of now] and ct = record_count(2) [OF P(1), of now]
  have none: "p < rl_PruneBudget (ms_limits s) \<Longrightarrow> expired now (abs_store t) = {}"
  proof -
    assume "p < rl_PruneBudget (ms_limits s)"
    with P(7) have "Time_After (me_expiry (obj t a)) now" if "map_of (ms_entries t) q = Some a" for q a
      using linked_lookup(2) [OF _ that] P(1) by (simp add: store_inv_def)
    then show ?thesis by (auto simp: expired_def abs_store_def abs_entry_def)
  qed
  have cards: "int (card (expired now (abs_store s))) = int (card (expired now (abs_store t))) + p"
    using cs ct P(3,6) by simp
  have in_expired: "k \<in> expired now (abs_store t) \<longleftrightarrow> (\<exists>a. map_of (ms_entries t) k = Some a \<and> \<not> Time_After (me_expiry (obj t a)) now)"
    by (auto simp: expired_def abs_store_def abs_entry_def)
  have budget: "rl_PruneBudget (ms_limits s) < int (card (expired now (abs_store s))) \<and> p = rl_PruneBudget (ms_limits s)"
    if "k \<in> expired now (abs_store t)"
  proof -
    have "\<not> p < rl_PruneBudget (ms_limits s)" using none that by blast
    then have p: "p = rl_PruneBudget (ms_limits s)" using P(5) by simp
    have "finite (expired now (abs_store t))" using record_count(1) [OF P(1)] dom_live(1) by (metis finite_Un)
    then have "0 < card (expired now (abs_store t))" using that by (auto simp: card_gt_0_iff)
    then show ?thesis using cards p by simp
  qed
  have "r = Inl (NewReplayError ReplayLimitExceeded) \<longleftrightarrow> k \<in> expired now (abs_store t)"
    using assms(1) pr t budget P(2) unfolding in_expired
    by (auto simp: liveEntry_def Let_def NewReplayError_def split: option.splits if_splits)
  then show "r = Inl (NewReplayError ReplayLimitExceeded) \<longleftrightarrow> stale now k s t" using budget by (auto simp: stale_def)
  assume "r = Inr None"
  then have "map_of (ms_entries t) k = None" using assms(1) pr t by (auto simp: liveEntry_def Let_def split: option.splits if_splits)
  then have absent: "live now (abs_store s) k = None" using live_abs [of now t k] P(3) by simp
  have below: "int (length (ms_entries s)) \<le> rl_MaxEntries (ms_limits s)" using assms(2) linkedD(6) by (simp add: store_inv_def)
  show "rl_MaxEntries (ms_limits t) \<le> int (length (ms_entries t)) \<longleftrightarrow> no_room now k s"
  proof
    assume "rl_MaxEntries (ms_limits t) \<le> int (length (ms_entries t))"
    then have "p \<le> 0" "rl_MaxEntries (ms_limits s) \<le> int (length (ms_entries t))" using below P(2,6) by simp_all
    then show "no_room now k s" using none assms(3) ct absent P(3) by (simp add: no_room_def)
  next
    assume "no_room now k s"
    then show "rl_MaxEntries (ms_limits t) \<le> int (length (ms_entries t))" using ct P(2,3) by (simp add: no_room_def)
  qed
qed

lemma live_not_refused: "live now (abs_store t) k = Some y \<Longrightarrow> \<not> stale now k s t" "live now (abs_store s) k = Some y \<Longrightarrow> \<not> no_room now k s"
  using live_not_expired by (auto simp: stale_def no_room_def)

section \<open>The three operations\<close>

lemma rememberStorageKey_exactly:
  assumes "store_inv s" "0 < rl_PruneBudget (ms_limits s)" "Time_After expiry now"
  shows "refines_exactly now k (no_room now k s) s (rememberStorageKey s k now expiry) (spec_check k expiry)"
proof -
  obtain r u where out: "rememberStorageKey s k now expiry = (r, u)" by fastforce
  obtain r' t where le: "liveEntry s k now entryFirstSeen = (r', t)" by fastforce
  note ref = rememberStorageKey_refines [OF assms, of k, unfolded out] and L = liveEntry_refusal [OF le assms(1,2)]
  have some: "live now (abs_store u) k \<noteq> None" if "r = Inr c" for c
    using ref that by (auto simp: refines_def spec_check_def split: option.splits Content.splits)
  have "r = Inl (NewReplayError ReplayLimitExceeded) \<longleftrightarrow> stale now k s u \<or> no_room now k s" using le assms(1,2)
  proof (cases rule: liveEntry_cases)
    case absent
    then show ?thesis using L out le some live_not_refused(1) [of now u k]
      by (auto simp: rememberStorageKey_def insertEntry_def Let_def NewReplayError_def split: prod.splits sum.splits if_splits)
  next
    case (found a x c)
    then show ?thesis using L out le live_not_refused(2) by (auto simp: rememberStorageKey_def)
  next
    case (other x c)
    then show ?thesis using L out le live_not_refused(2) by (auto simp: rememberStorageKey_def)
  next
    case limit
    then show ?thesis using L out le by (auto simp: rememberStorageKey_def)
  qed
  then show ?thesis unfolding out using refines_exactlyI [OF ref specs_not_limit(1)] by blast
qed

lemma reservePropagationKey_exactly:
  assumes "store_inv s" "0 < rl_PruneBudget (ms_limits s)" "Time_After expiry now"
  shows "refines_exactly now k (no_room now k s) s (reservePropagationKey s k now expiry lease) (spec_reserve k now expiry lease)"
proof -
  obtain r u where out: "reservePropagationKey s k now expiry lease = (r, u)" by fastforce
  obtain r' t where le: "liveEntry s k now entryPropagation = (r', t)" by fastforce
  note ref = reservePropagationKey_refines [OF assms, of k lease, unfolded out] and L = liveEntry_refusal [OF le assms(1,2)]
  have some: "live now (abs_store u) k \<noteq> None" if "r = Inr c" for c
    using ref that by (auto simp: refines_def spec_reserve_def split: option.splits Content.splits if_splits)
  have "r = Inl (NewReplayError ReplayLimitExceeded) \<longleftrightarrow> stale now k s u \<or> no_room now k s" using le assms(1,2)
  proof (cases rule: liveEntry_cases)
    case absent
    then show ?thesis using L out le some live_not_refused(1) [of now u k]
      by (auto simp: reservePropagationKey_def insertEntry_def Let_def NewReplayError_def split: prod.splits sum.splits if_splits)
  next
    case (found a x c)
    then obtain v where "r = Inr v" using out le by (auto simp: reservePropagationKey_def Let_def split: if_splits)
    then show ?thesis using found some live_not_refused by auto
  next
    case (other x c)
    then show ?thesis using L out le live_not_refused(2) by (auto simp: reservePropagationKey_def)
  next
    case limit
    then show ?thesis using L out le by (auto simp: reservePropagationKey_def)
  qed
  then show ?thesis unfolding out using refines_exactlyI [OF ref specs_not_limit(2)] by blast
qed

lemma commitPropagationKey_exactly:
  assumes "store_inv s" "0 < rl_PruneBudget (ms_limits s)"
  shows "refines_exactly now k False s (commitPropagationKey s k now) (spec_commit k)"
proof -
  obtain r u where out: "commitPropagationKey s k now = (r, u)" by fastforce
  obtain r' t where le: "liveEntry s k now entryPropagation = (r', t)" by fastforce
  note ref = commitPropagationKey_refines [OF assms, of now k, unfolded out] and L = liveEntry_refusal [OF le assms]
  have "r = Inl (NewReplayError ReplayLimitExceeded) \<longleftrightarrow> stale now k s u \<or> False" using le assms
  proof (cases rule: liveEntry_cases)
    case absent
    then show ?thesis using L out le by (auto simp: commitPropagationKey_def)
  next
    case (found a x c)
    then have "r = Inr PropagationCommitted" using out le by (auto simp: commitPropagationKey_def)
    moreover from this have "live now (abs_store u) k \<noteq> None"
      using ref by (auto simp: refines_def spec_commit_def split: option.splits Content.splits)
    ultimately show ?thesis using live_not_refused(1) by auto
  next
    case (other x c)
    then show ?thesis using L out le by (auto simp: commitPropagationKey_def)
  next
    case limit
    then show ?thesis using L out le by (auto simp: commitPropagationKey_def)
  qed
  then show ?thesis unfolding out using refines_exactlyI [OF ref specs_not_limit(3)] by blast
qed

end
