(* ===== verification/Replay_Properties.thy ===== *)
theory Replay_Properties
  imports Replay_Value Replay_Concurrent Replay_Refusal
begin

text \<open>
  The properties of package \<open>internal/replay\<close>: replay detection under any interleaving of calls, the
  store against its specification, its consistency, its closing, derivation of keys, and the stored
  values.
\<close>

section \<open>A call on a store at rest\<close>

definition live_env :: "Time \<Rightarrow> CallEnv" where
  "live_env now = \<lparr>ce_entry = ContextLive, ce_wait = None, ce_token = ContextLive, ce_clock = Some now, ce_mutate = ContextLive\<rparr>"

lemma live_env_simps [simp]:
  "ce_entry (live_env now) = ContextLive" "ce_wait (live_env now) = None" "ce_token (live_env now) = ContextLive"
  "ce_clock (live_env now) = Some now" "ce_mutate (live_env now) = ContextLive"
  by (simp_all add: live_env_def)

definition at_rest :: "memoryStoreState \<Rightarrow> bool" where
  "at_rest s \<longleftrightarrow> body_ready s \<and> gate_inv (ms_gate s) \<and> ms_token s \<and> lg_state (ms_gate s) = StoreReady"

definition admitted :: "memoryStoreState \<Rightarrow> memoryStoreState" where
  "admitted s = s\<lparr>ms_gate := (ms_gate s)\<lparr>lg_inFlight := lg_inFlight (ms_gate s) + 1\<rparr>, ms_token := False\<rparr>"

lemma store_fields [simp]:
  "store_inv (s\<lparr>ms_gate := g\<rparr>) = store_inv s" "store_inv (s\<lparr>ms_token := b\<rparr>) = store_inv s"
  "abs_store (s\<lparr>ms_gate := g\<rparr>) = abs_store s" "abs_store (s\<lparr>ms_token := b\<rparr>) = abs_store s"
  "abs_store (s\<lparr>ms_lastNow := now\<rparr>) = abs_store s"
  by (simp_all add: store_inv_def linked_def heap_shape_def abs_store_def)

lemma refusals_admitted [simp]:
  "stale now k ((admitted s)\<lparr>ms_lastNow := now\<rparr>) (t\<lparr>ms_gate := g, ms_token := b\<rparr>) = stale now k (s\<lparr>ms_lastNow := now\<rparr>) t"
  "stale now k (s\<lparr>ms_lastNow := now\<rparr>) (t\<lparr>ms_gate := g, ms_token := b\<rparr>) = stale now k (s\<lparr>ms_lastNow := now\<rparr>) t"
  "no_room now k ((admitted s)\<lparr>ms_lastNow := now\<rparr>) = no_room now k s"
  by (simp_all add: stale_def no_room_def admitted_def)

lemma refines_admitted:
  assumes "refines_exactly now k full ((admitted s)\<lparr>ms_lastNow := now\<rparr>) (r, t) spec"
  shows "refines_exactly now k full (s\<lparr>ms_lastNow := now\<rparr>) (r, t\<lparr>ms_gate := ms_gate s, ms_token := ms_token s\<rparr>) spec"
  using assms
  by (auto simp: refines_exactly_def admitted_def same_store_def stale_def split: if_splits)

lemma serialized_ready:
  assumes "at_rest s" "body (admitted s) = (r, t)" "ms_gate t = ms_gate (admitted s)"
  shows "serialized s fired body = Some (r, Some (t\<lparr>ms_gate := ms_gate s, ms_token := ms_token s\<rparr>))"
proof -
  have "gate_finish (ms_gate (admitted s)) = ms_gate s"
    using assms(1) by (auto simp: at_rest_def admitted_def gate_finish_def publishDrainLocked_def gate_inv_def)
  then show ?thesis using assms
    by (simp add: serialized_def gate_admit_def at_rest_def admitted_def acquireToken_def tryToken_def releaseToken_def Let_def)
qed

text \<open>A section that succeeds in capturing its time, run as a call.\<close>

lemma serialized_refines:
  assumes "at_rest s" "refines_exactly now k full ((admitted s)\<lparr>ms_lastNow := now\<rparr>) (body (admitted s)) spec"
  shows "\<exists>r t. serialized s fired body = Some (r, Some t) \<and> refines_exactly now k full (s\<lparr>ms_lastNow := now\<rparr>) (r, t) spec"
proof -
  obtain r t where b: "body (admitted s) = (r, t)" by fastforce
  have "ms_gate t = ms_gate (admitted s)" using assms(2) b by (simp add: refines_exactly_def same_store_def admitted_def)
  from serialized_ready [of s body r t, OF assms(1) b this] refines_admitted [of now k full s r t spec] assms(2) b show ?thesis by auto
qed

lemma admitted_ready:
  assumes "at_rest s" "clock_ok s now"
  shows "body_ready (admitted s)" "captureOperationNow (admitted s) ContextLive (Some now) = (Inr now, admitted s)"
  using assms by (auto simp: at_rest_def admitted_def captureOperationNow_def readClock_def clock_ok_def)

lemma captured_time:
  "at_rest s \<Longrightarrow> clock_ok s now \<Longrightarrow> Retention_AddTo retention now = Inr expiry \<Longrightarrow>
     captureOperationTime (admitted s) ContextLive (Some now) ContextLive retention = (Inr (now, expiry), admitted s)"
  using admitted_ready(2) by (simp add: captureOperationTime_def)

lemma validated_key:
  assumes "at_rest s" "storageValue key = Some k" "validStorageKey key"
  shows "validateKeyRequest (Some s) ContextLive key = Inr k"
    "Retention_Valid retention \<Longrightarrow> validateCheckRequest (Some s) ContextLive key retention = Inr k"
  using assms by (simp_all add: at_rest_def validateKeyRequest_def validateCheckRequest_def)

lemma AddTo_valid: "Retention_AddTo retention now = Inr expiry \<Longrightarrow> Retention_Valid retention"
  by (auto simp: Retention_AddTo_def split: if_splits)

section \<open>Sample calls\<close>

definition sampleKey :: Key where
  "sampleKey = \<lparr>key_state = Some (keyNamespacePrefix @ ''00000001:'' @ replicate 43 (CHR ''A''))\<rparr>"

definition sampleStorage :: bytes where
  "sampleStorage = keyNamespacePrefix @ ''00000001:'' @ replicate 43 (CHR ''A'')"

definition sampleNow :: Time where
  "sampleNow = \<lparr>t_sec = 63900000000, t_nsec = 5\<rparr>"

definition sampleRetention :: Retention where
  "sampleRetention = \<lparr>rt_milliseconds = 60000\<rparr>"

definition sampleLease :: Lease where
  "sampleLease = \<lparr>ls_milliseconds = 1000\<rparr>"

definition sampleConfig :: MemoryConfig where
  "sampleConfig = \<lparr>mc_Limits = DefaultReplayLimits, mc_HasClock = True\<rparr>"

definition sampleStore :: memoryStoreState where
  "sampleStore = \<lparr>ms_gate = newLifecycleGate StoreReady, ms_limits = DefaultReplayLimits, ms_token = True, ms_waiters = 0,
     ms_objects = [], ms_entries = [], ms_expiries = [], ms_lastNow = zeroTime, ms_closed = False, ms_clearCount = 0\<rparr>"

lemma sampleStore_new: "NewMemoryStore sampleConfig = Inr (Some sampleStore)"
  by code_simp

lemma sampleStore_rest: "at_rest sampleStore"
  using sys_inv_start [OF sampleStore_new]
  by (simp add: at_rest_def sys_inv_def sys_start_def) (simp add: sampleStore_def newLifecycleGate_def)

lemma sample_valid:
  "storageValue sampleKey = Some sampleStorage" "validStorageKey sampleKey" "clock_ok sampleStore sampleNow"
  "Retention_AddTo sampleRetention sampleNow = Inr \<lparr>t_sec = 63900000060, t_nsec = 5\<rparr>" "Lease_Valid sampleLease"
  "Time_After (Time_Add sampleNow (Lease_Duration sampleLease)) sampleNow"
  by code_simp+

section \<open>Refinement\<close>

text \<open>
  C7: a check of a valid key on an open store at rest, with a live context and a clock that has not gone
  back, returns, and is one step of the specification on the records that are live at the captured
  time: an absent key is recorded with its expiry and reported first seen, a recorded one is reported
  replayed and changes nothing, a propagation coordinate is reported inconsistent. It is refused at a limit
  instead, without change of the live records, exactly when the key has no live record and either an
  expired record of the key is still there, more records having expired than one call prunes, or as many
  records are live as the store may hold.
\<close>

theorem check_refines:
  assumes "at_rest s" "clock_ok s now" "storageValue key = Some k" "validStorageKey key"
    and "Retention_AddTo retention now = Inr expiry"
  shows "\<exists>r t. Memory_CheckAndRemember (Some s) (live_env now) key retention = Some (r, Some t)
     \<and> refines_exactly now k (no_room now k s) (s\<lparr>ms_lastNow := now\<rparr>) (r, t) (spec_check k expiry)"
proof -
  note ready = body_ready_lastNow [OF admitted_ready(1) [OF assms(1,2)], where now = now]
  have "refines_exactly now k (no_room now k s) ((admitted s)\<lparr>ms_lastNow := now\<rparr>)
      (checkBody (live_env now) retention k (admitted s)) (spec_check k expiry)"
    using rememberStorageKey_exactly [OF ready AddTo_After [OF assms(5)], where k = k] captured_time [OF assms(1,2,5)]
    by (simp add: checkBody_def)
  from serialized_refines [of s now k _ "checkBody (live_env now) retention k", OF assms(1) this] validated_key(2) [OF assms(1,3,4) AddTo_valid [OF assms(5)]] show ?thesis
    by (simp add: Memory_CheckAndRemember_def)
qed

theorem check_refines_witness:
  "\<exists>r t. Memory_CheckAndRemember (Some sampleStore) (live_env sampleNow) sampleKey sampleRetention = Some (r, Some t)
     \<and> refines_exactly sampleNow sampleStorage (no_room sampleNow sampleStorage sampleStore) (sampleStore\<lparr>ms_lastNow := sampleNow\<rparr>) (r, t)
         (spec_check sampleStorage \<lparr>t_sec = 63900000060, t_nsec = 5\<rparr>)"
  using check_refines [OF sampleStore_rest sample_valid(3,1,2,4)] .



section \<open>Any interleaving of calls\<close>

text \<open>
  C6: in every interleaving of calls on one store, once some check of a key was answered first seen at
  a time \<open>now\<close>, no other check of that key, by any goroutine and with any calls in between, is
  answered first seen before \<open>now\<close> plus the retention of the first: an answer that is not an error is a
  replay.
\<close>

theorem replay_detection:
  assumes "reachable config c" "sys_stage c i = Holding (OpCheck retention) k"
    and "run_body (OpCheck retention) env k (sys_store c) = (AnswerCheck (Inr CheckFirstSeen), t)"
    and "steps (to_stage i (Releasing (AnswerCheck (Inr CheckFirstSeen))) t c) c2"
    and "sys_stage c2 j = Holding (OpCheck retention2) k"
    and "run_body (OpCheck retention2) env2 k (sys_store c2) = (AnswerCheck (Inr answer), u)"
    and "Time_After (at_expiry retention (ms_lastNow t)) (ms_lastNow u)"
  shows "answer = CheckReplayed"
proof -
  let ?c1 = "to_stage i (Releasing (AnswerCheck (Inr CheckFirstSeen))) t c"
  have inv: "sys_inv c" using assms(1) by (rule reachable_inv)
  have b: "checkBody env retention k (sys_store c) = (Inr CheckFirstSeen, t)"
    using assms(3) by (cases "checkBody env retention k (sys_store c)") (simp add: run_body_def)
  then obtain now where now: "ms_lastNow t = now" "remembered k (at_expiry retention now) t"
    using attempt_first_seen checkBody_attempt [OF sys_invD(2) [OF inv refl], of k env retention] by metis
  have inv1: "sys_inv ?c1" using step_inv [OF op_body [OF assms(2,3)] inv] .
  have rem: "remembered k (at_expiry retention now) (sys_store c2)"
    using steps_remembered [OF assms(4) inv1] now(2) by (simp add: to_stage_def)
  have inv2: "sys_inv c2" using steps_inv [OF assms(4) inv1] .
  have "checkBody env2 retention2 k (sys_store c2) = (Inr answer, u)"
    using assms(6) by (cases "checkBody env2 retention2 k (sys_store c2)") (simp add: run_body_def)
  then have "attempt k (sys_store c2) (Inr answer, u) (\<lambda>now. spec_check k (at_expiry retention2 now))"
    using checkBody_attempt [OF sys_invD(2) [OF inv2 refl], of k env2 retention2] by simp
  from attempt_replayed [OF this rem] show ?thesis using assms(7) now(1) by simp
qed

text \<open>One goroutine alone reaches the section under the token.\<close>

lemma solo_run:
  assumes "sys_stage c i = Idle" "validated (sys_store c) ContextLive key op = Inr k"
    and "lg_state (ms_gate (sys_store c)) = StoreReady" "ms_token (sys_store c)"
  shows "steps c (c\<lparr>sys_store := admitted (sys_store c), sys_stage := (sys_stage c)(i := Holding op k)\<rparr>)"
proof -
  let ?s = "sys_store c" and ?g = "(ms_gate (sys_store c))\<lparr>lg_inFlight := lg_inFlight (ms_gate (sys_store c)) + 1\<rparr>"
  let ?c1 = "to_stage i (Validated op k) ?s c"
  let ?c2 = "to_stage i (Admitted op k) (?s\<lparr>ms_gate := ?g\<rparr>) ?c1"
  have "call_step i c ?c1" using assms(1,2) by (rule op_validate)
  moreover have "call_step i ?c1 ?c2"
    using op_admit [of ?c1 i op k ?g] assms(3) by (simp add: to_stage_def gate_admit_def)
  moreover have "call_step i ?c2 (to_stage i (Holding op k) (admitted ?s) ?c2)"
    using op_token [of ?c2 i op k "admitted ?s"] assms(4) by (simp add: to_stage_def tryToken_def admitted_def)
  ultimately have "steps c (to_stage i (Holding op k) (admitted ?s) ?c2)" by (meson steps_refl steps_step)
  then show ?thesis by (simp add: to_stage_def)
qed

definition sampleEnd :: memoryStoreState where
  "sampleEnd = snd (run_body (OpCheck sampleRetention) (live_env sampleNow) sampleStorage (admitted sampleStore))"

definition sampleFirst :: sys where
  "sampleFirst = \<lparr>sys_store = admitted sampleStore, sys_stage = (\<lambda>_. Idle)(0 := Holding (OpCheck sampleRetention) sampleStorage)\<rparr>"

definition sampleSecond :: sys where
  "sampleSecond = \<lparr>sys_store = admitted (releaseToken sampleEnd),
     sys_stage = (\<lambda>_. Idle)(0 := Leaving (AnswerCheck (Inr CheckFirstSeen)), 1 := Holding (OpCheck sampleRetention) sampleStorage)\<rparr>"

lemma sampleFirst_reachable: "reachable sampleConfig sampleFirst"
proof -
  have "steps (sys_start sampleStore) sampleFirst"
    using solo_run [of "sys_start sampleStore" 0 sampleKey "OpCheck sampleRetention" sampleStorage]
      validated_key(2) [OF sampleStore_rest sample_valid(1,2) AddTo_valid [OF sample_valid(4)]]
    by (simp add: sys_start_def sampleFirst_def validated_def) (simp add: sampleStore_def newLifecycleGate_def)
  then show ?thesis using sampleStore_new by (auto simp: reachable_def)
qed

lemma sample_first: "run_body (OpCheck sampleRetention) (live_env sampleNow) sampleStorage (sys_store sampleFirst)
    = (AnswerCheck (Inr CheckFirstSeen), sampleEnd)"
  unfolding sampleFirst_def sampleEnd_def by code_simp

lemma sampleSecond_steps:
  "steps (to_stage 0 (Releasing (AnswerCheck (Inr CheckFirstSeen))) sampleEnd sampleFirst) sampleSecond"
proof -
  let ?ans = "AnswerCheck (Inr CheckFirstSeen)"
  let ?c1 = "to_stage 0 (Releasing ?ans) sampleEnd sampleFirst"
  let ?c2 = "to_stage 0 (Leaving ?ans) (releaseToken sampleEnd) ?c1"
  have "call_step 0 ?c1 ?c2" using op_release [of ?c1 0 ?ans] by (simp add: to_stage_def)
  moreover have "validated (releaseToken sampleEnd) ContextLive sampleKey (OpCheck sampleRetention) = Inr sampleStorage"
    "lg_state (ms_gate (releaseToken sampleEnd)) = StoreReady" "ms_token (releaseToken sampleEnd)"
    by code_simp+
  then have "steps ?c2 (?c2\<lparr>sys_store := admitted (sys_store ?c2),
      sys_stage := (sys_stage ?c2)(1 := Holding (OpCheck sampleRetention) sampleStorage)\<rparr>)"
    by (intro solo_run) (simp_all add: to_stage_def sampleFirst_def)
  ultimately have "steps ?c1 (?c2\<lparr>sys_store := admitted (sys_store ?c2),
      sys_stage := (sys_stage ?c2)(1 := Holding (OpCheck sampleRetention) sampleStorage)\<rparr>)"
    by (meson steps_refl steps_step steps_trans)
  then show ?thesis by (simp add: to_stage_def sampleFirst_def sampleSecond_def)
qed

theorem replay_detection_witness:
  "\<exists>answer u. run_body (OpCheck sampleRetention) (live_env sampleNow) sampleStorage (sys_store sampleSecond) = (AnswerCheck (Inr answer), u)
     \<and> answer = CheckReplayed"
proof -
  have "\<exists>answer. fst (run_body (OpCheck sampleRetention) (live_env sampleNow) sampleStorage (sys_store sampleSecond)) = AnswerCheck (Inr answer)"
    by (rule exI [of _ CheckReplayed]) code_simp
  then obtain answer where a: "fst (run_body (OpCheck sampleRetention) (live_env sampleNow) sampleStorage (sys_store sampleSecond)) = AnswerCheck (Inr answer)"
    by blast
  define u where "u = snd (run_body (OpCheck sampleRetention) (live_env sampleNow) sampleStorage (sys_store sampleSecond))"
  have run: "run_body (OpCheck sampleRetention) (live_env sampleNow) sampleStorage (sys_store sampleSecond) = (AnswerCheck (Inr answer), u)"
    using a by (simp add: u_def prod_eq_iff)
  have "Time_After (at_expiry sampleRetention (ms_lastNow sampleEnd)) (ms_lastNow u)"
    unfolding u_def by code_simp
  from replay_detection [OF sampleFirst_reachable _ sample_first sampleSecond_steps _ run this, of 1]
  have "answer = CheckReplayed" by (simp add: sampleFirst_def sampleSecond_def)
  with run show ?thesis by blast
qed

section \<open>Consistency and closing\<close>

text \<open>
  C34: in every reachable state the map and the expiry heap hold the same entries: keys are unique, a
  record found under a key carries that key and knows its position in the heap, no record expires
  before the root of the heap, and there are never more records than the ceiling.
\<close>

theorem store_consistent:
  assumes "reachable config c" "sys_store c = s"
  shows "distinct (map fst (ms_entries s)) \<and> length (ms_expiries s) = length (ms_entries s)
     \<and> int (length (ms_entries s)) \<le> rl_MaxEntries (ms_limits s) \<and> rl_MaxEntries (ms_limits s) \<le> 1048576
     \<and> (\<forall>k a. map_of (ms_entries s) k = Some a \<longrightarrow>
          me_key (obj s a) = k \<and> (\<exists>i < length (ms_expiries s). ms_expiries s ! i = a \<and> me_index (obj s a) = int i)
          \<and> \<not> Time_Before (me_expiry (obj s a)) (me_expiry (obj s (ms_expiries s ! 0))))"
proof -
  have l: "linked s" and v: "ReplayLimits_Validate (ms_limits s) = None"
    using sys_invD(2) [OF reachable_inv [OF assms(1)] assms(2)] by (auto simp: body_ready_def store_inv_def)
  note L = linkedD [OF l]
  have "me_key (obj s a) = k \<and> (\<exists>i < length (ms_expiries s). ms_expiries s ! i = a \<and> me_index (obj s a) = int i)
      \<and> \<not> Time_Before (me_expiry (obj s a)) (me_expiry (obj s (ms_expiries s ! 0)))"
    if a: "map_of (ms_entries s) k = Some a" for k a
  proof -
    note lk = linked_lookup [OF l a]
    have "\<exists>i < length (ms_expiries s). ms_expiries s ! i = a \<and> me_index (obj s a) = int i"
      using lk(2) L(1) by (auto simp: in_set_conv_nth heap_shape_def)
    moreover have "\<not> Time_Before (me_expiry (obj s a)) (me_expiry (obj s (ms_expiries s ! 0)))"
      using root_least [OF l lk(2), of "me_expiry (obj s a)"] by (auto simp: Time_After_key Time_Before_key)
    ultimately show ?thesis using lk(1) by blast
  qed
  then show ?thesis using L v by (simp add: ReplayLimits_Validate_None_iff)
qed

theorem store_consistent_witness:
  "distinct (map fst (ms_entries (sys_store sampleFirst)))
     \<and> int (length (ms_entries (sys_store sampleFirst))) \<le> rl_MaxEntries (ms_limits (sys_store sampleFirst))"
  using store_consistent [OF sampleFirst_reachable refl] by blast

text \<open>
  C35: in every reachable state at most one goroutine is in the section under the token, the gate's
  count of admitted work and the queue's count of waiters are exact and the queue is bounded, the
  store is cleared at most once and never while work is in flight, and a store that shows itself
  closed has been cleared.
\<close>

theorem exclusion_and_clearing:
  assumes "reachable config c" "sys_store c = s" "sys_stage c = f"
  shows "(\<forall>i j. holder (f i) \<and> holder (f j) \<longrightarrow> i = j)
     \<and> lg_inFlight (ms_gate s) = int (card {i. in_flight (f i)})
     \<and> ms_waiters s = int (card {i. queued (f i)}) \<and> ms_waiters s \<le> rl_MaxWaiters (ms_limits s)
     \<and> ms_clearCount s \<le> 1 \<and> (0 < ms_clearCount s \<longrightarrow> ms_entries s = [] \<and> (\<forall>i. \<not> in_flight (f i)))
     \<and> (lg_state (ms_gate s) = StoreClosed \<longrightarrow> ms_clearCount s = 1)"
proof -
  have inv: "sys_inv c" using assms(1) by (rule reachable_inv)
  have cv: "counts_inv s f" "close_inv s f" using inv assms(2,3) by (auto simp: sys_inv_def)
  have fin: "finite (busy f)" using cv(1) by (simp add: counts_inv_def)
  have "cnt cleared f \<le> cnt clearing f" "cnt clearing f \<le> cnt holder f"
    by (rule cnt_mono [OF fin], auto simp: stage_defs)+
  then have one: "ms_clearCount s \<le> 1" using cv by (auto simp: counts_inv_def close_inv_def split: if_splits)
  have "0 < ms_clearCount s \<Longrightarrow> \<not> in_flight (f i)" for i
    using in_flight_open(3) [OF inv assms(2), of i "f i"] assms(3) by auto
  moreover have "lg_state (ms_gate s) = StoreClosed \<Longrightarrow> ms_clearCount s = 1"
    using cv(2) one cnt_nonneg [of cleared f] by (auto simp: close_inv_def)
  ultimately show ?thesis using one cv holders_unique [OF inv] assms(3) sys_invD(4) [OF inv assms(2)]
    by (simp add: counts_inv_def cnt_def)
qed

theorem exclusion_and_clearing_witness:
  "lg_inFlight (ms_gate (sys_store sampleFirst)) = int (card {i. in_flight (sys_stage sampleFirst i)})
     \<and> ms_clearCount (sys_store sampleFirst) \<le> 1"
  using exclusion_and_clearing [OF sampleFirst_reachable refl refl] by blast

text \<open>
  C36: no interleaving deadlocks. From every reachable state, without any new call and without any context
  ending for a call that waits, all calls that have begun, closings included, can run to their return; and
  under every schedule they do: a run of their own steps never goes on forever, and one that cannot be
  continued has brought every call to its return, and every closing to a return without error.
\<close>

theorem calls_complete:
  assumes "reachable config c"
  shows "(\<exists>c'. undisturbed c c' \<and> (\<forall>i. sys_stage c i = Idle \<longleftrightarrow> sys_stage c' i = Idle) \<and> (\<forall>i. returned (sys_stage c' i)))
     \<and> (\<forall>c'. undisturbed c c' \<and> (\<nexists>i c''. own_step i c' c'') \<longrightarrow>
          (\<forall>i. returned (sys_stage c' i) \<and> (closer (sys_stage c i) \<longrightarrow> sys_stage c' i = CloseReturned None)))
     \<and> (\<nexists>f l. f 0 = c \<and> (\<forall>n. own_step (l n) (f n) (f (Suc n))))"
proof -
  have inv: "sys_inv c" using assms by (rule reachable_inv)
  have stuck: "returned (sys_stage c' i)" if "undisturbed c c'" "\<nexists>i c''. own_step i c' c''" for c' i
    using progress [OF undisturbed_inv [OF that(1) inv]] that(2) by blast
  have closed: "sys_stage c' i = CloseReturned None"
    if "undisturbed c c'" "\<nexists>i c''. own_step i c' c''" "closer (sys_stage c i)" for c' i
    using stuck [OF that(1,2), of i] undisturbed_closer [OF that(1) inv that(3)]
    by (auto simp: closer_def returned_def split: Stage.splits option.splits)
  have "\<nexists>f l. f 0 = c \<and> (\<forall>n. own_step (l n) (f n) (f (Suc n)))" using no_endless_run inv by metis
  moreover have "\<exists>c'. undisturbed c c' \<and> (\<forall>i. sys_stage c i = Idle \<longleftrightarrow> sys_stage c' i = Idle) \<and> (\<forall>i. returned (sys_stage c' i))"
    using calls_complete_from [OF inv] by (auto simp: busy_def set_eq_iff)
  ultimately show ?thesis using stuck closed by blast
qed

theorem calls_complete_witness:
  "(\<exists>c'. undisturbed sampleFirst c' \<and> (\<forall>i. returned (sys_stage c' i)))
     \<and> (\<nexists>f l. f 0 = sampleFirst \<and> (\<forall>n. own_step (l n) (f n) (f (Suc n))))"
  using calls_complete [OF sampleFirst_reachable] by blast

text \<open>
  C37: closing a store on which all calls have returned returns at once without error, whatever state the
  store is in, and leaves it closed and empty.
\<close>

theorem close_returns:
  assumes "reachable config c" "\<forall>i. returned (sys_stage c i)"
  shows "\<exists>t. Memory_Close (Some (sys_store c)) ContextLive fired = Some (None, Some t)
     \<and> Memory_State (Some t) = StoreClosed \<and> ms_entries t = [] \<and> ms_expiries t = []"
proof -
  let ?s = "sys_store c"
  have inv: "sys_inv c" using assms(1) by (rule reachable_inv)
  note D = sys_invD [OF inv refl]
  have none: "cnt P (sys_stage c) = 0" if "\<And>p. returned p \<Longrightarrow> \<not> P p" for P using assms(2) that by (simp add: cnt_def)
  have "cnt in_flight (sys_stage c) = 0" "cnt holder (sys_stage c) = 0" "cnt cleared (sys_stage c) = 0"
    by (rule none, simp add: stage_defs split: Stage.splits)+
  then have z: "lg_inFlight (ms_gate ?s) = 0" "ms_token ?s" "ms_closed ?s \<longrightarrow> 0 < ms_clearCount ?s"
    using inv by (auto simp: sys_inv_def counts_inv_def close_inv_def split: if_splits)
  obtain g1 where b: "gate_beginClose (ms_gate ?s) = Inr g1"
    using D(1) by (cases "lg_state (ms_gate ?s)") (simp_all add: gate_beginClose_def gate_inv_def)
  note g1 = gate_beginClose_inv [OF D(1) b] gate_beginClose_fields [OF b] closing_mono(3) [OF b]
  have dp: "lg_drainPublished g1" "lg_inFlight g1 = 0" using g1 z(1) by (auto simp: gate_inv_def closing_def)
  obtain g2 where g2: "gate_publishClosed g1 = Inr g2" "lg_state g2 = StoreClosed"
    using dp g1(3) by (auto simp: gate_publishClosed_def closing_def)
  have "ms_closed ?s \<longrightarrow> ms_entries ?s = [] \<and> ms_expiries ?s = []"
    using z(3) D(2,4) by (auto simp: body_ready_def store_inv_def linked_def)
  with b dp g2 z(2) show ?thesis
    by (auto simp: Memory_Close_def waitForDrain_def Let_def closeOnce_def tryToken_def clearStore_def releaseToken_def
        Memory_State_def)
qed

theorem close_returns_witness:
  "\<exists>t. Memory_Close (Some sampleStore) ContextLive None = Some (None, Some t) \<and> Memory_State (Some t) = StoreClosed"
proof -
  have "reachable sampleConfig (sys_start sampleStore)" using sampleStore_new by (auto simp: reachable_def intro: steps_refl)
  from close_returns [OF this, of None] show ?thesis by (auto simp: sys_start_def stage_defs)
qed

section \<open>Keys, values and periods\<close>




text \<open>
  C39: the stored values are read back exactly. A first-seen text is accepted exactly when it is the
  legacy value or the rendering of one nonce; a propagation text exactly when it is the committed value or
  a pending one with a positive expiry of at most sixteen digits, with or without a nonce; and every
  rendered pending value reads back as pending with its lease expiry at millisecond precision.
\<close>

theorem stored_values_exact:
  "(ParseFirstSeenValue v = Some (n, legacy) \<longleftrightarrow>
      (if legacy then v = StoredValue \<and> n = zeroNonce
       else length (nonce_bytes n) = 8 \<and> v = FirstSeenValuePrefix @ Nonce_encode n))
   \<and> (ParsePropagationValue v = Some (st, e) \<longleftrightarrow>
      v = PropagationCommittedValue \<and> st = PropagationStateCommitted \<and> e = zeroTime \<or>
      st = PropagationStatePending \<and> (\<exists>d. d \<noteq> [] \<and> length d \<le> 16 \<and> (\<forall>b \<in> set d. isDigit b) \<and> 0 < dec_value d
        \<and> e = time_UnixMilli (int (dec_value d))
        \<and> (v = PropagationPendingPrefix @ d \<or>
           (\<exists>n. length (nonce_bytes n) = 8 \<and> v = PropagationPendingPrefix @ d @ '':'' @ Nonce_encode n))))
   \<and> (PropagationPendingValue t m = Inr v \<longrightarrow> length (nonce_bytes m) = 8 \<longrightarrow> time_valid t \<longrightarrow>
      unixToInternal \<le> t_sec t \<longrightarrow> t_sec t \<le> unixToInternal + 10 ^ 13 \<longrightarrow>
      ParsePropagationValue v = Some (PropagationStatePending, \<lparr>t_sec = t_sec t, t_nsec = t_nsec t div 1000000 * 1000000\<rparr>))"
  using ParseFirstSeenValue_Some_iff ParsePropagationValue_Some_iff [of v st e] pending_value_parses [of t m v] unix_milli_exact(2) [of t]
  by (simp add: parseLeaseExpiry_Some_iff conj_ac)

theorem stored_values_exact_witness:
  "ParsePropagationValue ''pending:1764403200000:0706050403020100''
     = Some (PropagationStatePending, \<lparr>t_sec = 63900000000, t_nsec = 0\<rparr>)"
proof -
  let ?n = "\<lparr>nonce_bytes = map char_of [7, 6, 5, 4, 3, 2, 1, 0 :: nat]\<rparr>"
  have "FormatInt 1764403200000 = ''1764403200000''" by (simp add: FormatInt_def dec_digits.simps char_of_def bit_0)
  moreover have "Time_UnixMilli sampleNow = 1764403200000"
    by (simp add: sampleNow_def Time_UnixMilli_def Time_Unix_def unixToInternal_def int64_def)
  moreover have "Nonce_encode ?n = ''0706050403020100''" "Nonce_Valid ?n" by code_simp+
  ultimately have p: "PropagationPendingValue sampleNow ?n = Inr ''pending:1764403200000:0706050403020100''"
    by (simp add: PropagationPendingValue_def Let_def)
  have "time_valid sampleNow" "unixToInternal \<le> t_sec sampleNow" "t_sec sampleNow \<le> unixToInternal + 10 ^ 13"
    "length (nonce_bytes ?n) = 8" by (simp_all add: time_valid_def sampleNow_def unixToInternal_def fits64_def)
  with stored_values_exact [THEN conjunct2, THEN conjunct2, of sampleNow ?n "''pending:1764403200000:0706050403020100''"] p
  show ?thesis by (simp add: sampleNow_def)
qed

text \<open>
  adding a retention to a clock reading is exact: for a valid retention and a valid reading that is
  neither the zero time nor too close to the end of the representable times, the expiry lies exactly the
  retention after the reading; every other period is refused.
\<close>

lemma retention_exact:
  assumes "time_valid now" "\<not> Time_IsZero now" "t_sec now \<le> 2 ^ 63 - 10 ^ 11" "unixToInternal \<le> t_sec now"
  shows "case Retention_AddTo r now of
      Inr expiry \<Rightarrow> Retention_Valid r \<and> time_valid expiry \<and> time_ns expiry = time_ns now + rt_milliseconds r * Millisecond
    | Inl e \<Rightarrow> \<not> Retention_Valid r \<and> e = NewReplayError ReplayInvalidRequest"
proof (cases "Retention_Valid r")
  case False
  then show ?thesis by (simp add: Retention_AddTo_def)
next
  case True
  define d where "d = rt_milliseconds r * Millisecond"
  have dur: "Retention_Duration r = d" using Retention_Duration_valid [OF True] by (simp add: d_def)
  have d: "Second \<le> d" "d \<le> 2592000 * Second" using True by (simp_all add: d_def Retention_Valid_iff)
  let ?x = "Time_Add now d"
  have ns: "0 \<le> t_nsec now" "t_nsec now < Second" "fits64 (t_sec now)" using assms(1) by (simp_all add: time_valid_def)
  have "(time_ns now + d) div Second \<le> t_sec now + 2592001" "t_sec now \<le> (time_ns now + d) div Second"
  proof -
    have "(time_ns now + d) div Second \<le> ((t_sec now + 2592001) * Second) div Second"
      using ns d by (intro zdiv_mono1) (simp_all add: time_ns_def)
    then show "(time_ns now + d) div Second \<le> t_sec now + 2592001" by simp
    have "(t_sec now * Second) div Second \<le> (time_ns now + d) div Second"
      using ns d by (intro zdiv_mono1) (simp_all add: time_ns_def)
    then show "t_sec now \<le> (time_ns now + d) div Second" by simp
  qed
  then have fit: "fits64 ((time_ns now + d) div Second)" using ns(3) assms(3) by (simp add: fits64_def)
  have ex: "time_valid ?x" "time_ns ?x = time_ns now + d" using Time_Add_exact [OF assms(1) _ fit] d(1) by simp_all
  have after: "Time_After ?x now" using time_key_ns [OF assms(1) ex(1)] ex(2) d(1) by (simp add: Time_After_key)
  have sub: "Time_Sub ?x now = d"
  proof -
    have "(t_sec ?x - t_sec now) * Second + (t_nsec ?x - t_nsec now) = d" using ex(2) by (simp add: time_ns_def algebra_simps)
    moreover have "0 \<le> t_nsec ?x" "t_nsec ?x < Second" using ex(1) by (simp_all add: time_valid_def)
    moreover obtain a b where ab: "t_sec ?x - t_sec now = a" "t_nsec ?x - t_nsec now = b" by blast
    ultimately have "a * Second + b = d" "- Second < b" "b < Second" using ns(1,2) by auto
    then have "a \<le> 2592001" "0 \<le> a" using d by linarith+
    then have "fits64 (t_sec ?x - t_sec now)" "fits64 ((t_sec ?x - t_sec now) * Second)" "fits64 d"
      unfolding ab using d by (simp_all add: fits64_def)
    then show ?thesis
      using \<open>(t_sec ?x - t_sec now) * Second + (t_nsec ?x - t_nsec now) = d\<close>
      by (simp add: Time_Sub_def Let_def Time_Equal_eq)
  qed
  have guard: "\<not> Time_Unix now > MaxInt64 - a" if "a \<le> 2592001" for a
    using assms(3,4) ns(3) that by (simp add: Time_Unix_def MaxInt64_def unixToInternal_def fits64_def)
  have "d sdiv Second \<le> 2592000" using d by (simp add: signed_divide_int_def sgn_if)
  then have "Retention_AddTo r now = Inr ?x"
    using True assms(2) after sub guard [of "d sdiv Second"] guard [of "d sdiv Second + 1"]
    by (simp add: Retention_AddTo_def dur Let_def)
  then show ?thesis using True ex by (simp add: d_def)
qed

lemma retention_exact_example:
  "time_ns \<lparr>t_sec = 63900000060, t_nsec = 5\<rparr> = time_ns sampleNow + rt_milliseconds sampleRetention * Millisecond"
proof -
  have "time_valid sampleNow" "\<not> Time_IsZero sampleNow" "t_sec sampleNow \<le> 2 ^ 63 - 10 ^ 11" "unixToInternal \<le> t_sec sampleNow"
    by (simp_all add: time_valid_def sampleNow_def unixToInternal_def fits64_def Time_IsZero_def)
  from retention_exact [OF this, of sampleRetention] show ?thesis by (simp add: sample_valid(4))
qed

end
