(* ===== verification/Go_Effects.thy ===== *)
theory Go_Effects
  imports Go_Bytes
begin

text \<open>
  Fallible operations on one mutable object. A Go function that receives a pointer to a counter,
  may return early with an error and leaves the counter as it then is becomes a function from the
  counter to a result and the counter: unlike a state-passing \<open>result\<close>, the state survives the
  error, because callers report the usage of failed operations too. The loops
  \<open>for _, x := range xs { if err := f(x); err != nil { return err } }\<close> are \<open>op_each\<close>.
\<close>

section \<open>Operations\<close>

named_theorems op_iffs "when an operation returns without an error"
named_theorems keeps_intros "operations that keep an invariant of their object"

type_synonym ('s, 'e, 'a) op = "'s \<Rightarrow> ('e, 'a) result \<times> 's"

definition op_return :: "'a \<Rightarrow> ('s, 'e, 'a) op" where
  "op_return v s = (Inr v, s)"

definition op_fail :: "'e \<Rightarrow> ('s, 'e, 'a) op" where
  "op_fail e s = (Inl e, s)"

definition op_lift :: "('e, 'a) result \<Rightarrow> ('s, 'e, 'a) op" where
  "op_lift r s = (r, s)"

definition op_bind :: "('s, 'e, 'a) op \<Rightarrow> ('a \<Rightarrow> ('s, 'e, 'b) op) \<Rightarrow> ('s, 'e, 'b) op" where
  "op_bind m k s = (case m s of (Inl e, s') \<Rightarrow> (Inl e, s') | (Inr v, s') \<Rightarrow> k v s')"

definition op_then :: "('s, 'e, unit) op \<Rightarrow> ('s, 'e, 'b) op \<Rightarrow> ('s, 'e, 'b) op" where
  "op_then m k = op_bind m (\<lambda>_. k)"

definition op_guard :: "'e option \<Rightarrow> ('s, 'e, 'a) op \<Rightarrow> ('s, 'e, 'a) op" where
  "op_guard e k = (case e of Some x \<Rightarrow> op_fail x | None \<Rightarrow> k)"

fun op_each :: "('x \<Rightarrow> 'a \<Rightarrow> ('s, 'e, 'a) op) \<Rightarrow> 'x list \<Rightarrow> 'a \<Rightarrow> ('s, 'e, 'a) op" where
  "op_each f [] acc = op_return acc"
| "op_each f (x # xs) acc = op_bind (f x acc) (op_each f xs)"

section \<open>Evaluation\<close>

lemma op_eval [simp]:
  "op_return v s = (Inr v, s)"
  "op_fail e s = (Inl e, s)"
  "op_lift r s = (r, s)"
  "op_guard None k = k"
  "op_guard (Some x) k = op_fail x"
  by (simp_all add: op_return_def op_fail_def op_lift_def op_guard_def)

lemma op_bind_Inr: "m s = (Inr v, s') \<Longrightarrow> op_bind m k s = k v s'"
  by (simp add: op_bind_def)

lemma op_bind_Inl: "m s = (Inl e, s') \<Longrightarrow> op_bind m k s = (Inl e, s')"
  by (simp add: op_bind_def)

lemma op_bind_eval [simp]:
  "op_bind (op_return v) k = k v"
  "op_bind (op_fail e) k = op_fail e"
  "op_bind (op_lift (Inr v)) k = k v"
  "op_bind (op_lift (Inl e)) k = op_fail e"
  "op_bind (Pair (Inr v)) k = k v"
  "op_bind (Pair (Inl e)) k = Pair (Inl e)"
  by (simp_all add: op_bind_def fun_eq_iff)

lemma op_bind_success [op_iffs]:
  "op_bind m k s = (Inr v, s') \<longleftrightarrow> (\<exists>u s1. m s = (Inr u, s1) \<and> k u s1 = (Inr v, s'))"
  by (auto simp: op_bind_def split: prod.splits sum.splits)

lemma op_bind_failure:
  "op_bind m k s = (Inl e, s') \<longleftrightarrow>
     m s = (Inl e, s') \<or> (\<exists>u s1. m s = (Inr u, s1) \<and> k u s1 = (Inl e, s'))"
  by (auto simp: op_bind_def split: prod.splits sum.splits)

lemma op_then_success [op_iffs]:
  "op_then m k s = (Inr v, s') \<longleftrightarrow> (\<exists>s1. m s = (Inr (), s1) \<and> k s1 = (Inr v, s'))"
  by (simp add: op_then_def op_bind_success)

lemma op_guard_success [op_iffs]:
  "op_guard e k s = (Inr v, s') \<longleftrightarrow> e = None \<and> k s = (Inr v, s')"
  by (cases e) auto

lemma op_if_fail_success [op_iffs]:
  "(if c then op_fail e else k) s = (Inr v, s') \<longleftrightarrow> \<not> c \<and> k s = (Inr v, s')"
  by simp

lemma op_bind_assoc: "op_bind (op_bind m f) g = op_bind m (\<lambda>v. op_bind (f v) g)"
  by (auto simp: op_bind_def fun_eq_iff split: prod.splits sum.splits)

lemma op_each_append: "op_each f (xs @ ys) acc = op_bind (op_each f xs acc) (op_each f ys)"
proof (induction xs arbitrary: acc)
  case (Cons x xs)
  then have "op_each f (xs @ ys) = (\<lambda>v. op_bind (op_each f xs v) (op_each f ys))" by (rule ext)
  then show ?case by (simp add: op_bind_assoc)
qed simp

text \<open>A loop that leaves the second part of its accumulator alone.\<close>

lemma op_each_fst:
  "op_bind (op_each f xs out) (\<lambda>out. op_return (out, k))
     = op_each (\<lambda>x (out, k). op_bind (f x out) (\<lambda>out. op_return (out, k))) xs (out, k)"
proof (induction xs arbitrary: out)
  case (Cons x xs)
  then have "(\<lambda>v. op_bind (op_each f xs v) (\<lambda>out. op_return (out, k)))
      = (\<lambda>v. op_each (\<lambda>x (out, k). op_bind (f x out) (\<lambda>out. op_return (out, k))) xs (v, k))"
    by (rule ext)
  then show ?case by (simp add: op_bind_assoc del: op_eval)
qed (simp del: op_eval)

section \<open>Invariants\<close>

definition keeps :: "('s \<Rightarrow> bool) \<Rightarrow> ('s, 'e, 'a) op \<Rightarrow> bool" where
  "keeps P m \<longleftrightarrow> (\<forall>s. P s \<longrightarrow> P (snd (m s)))"

lemma keepsD: "keeps P m \<Longrightarrow> P s \<Longrightarrow> m s = (r, s') \<Longrightarrow> P s'"
  by (metis keeps_def snd_conv)

lemma keeps_pure [keeps_intros]:
  "keeps P (op_return v)" "keeps P (op_fail e)" "keeps P (op_lift r)"
  by (simp_all add: keeps_def)

lemma keeps_bind [keeps_intros]:
  "keeps P m \<Longrightarrow> (\<And>v. keeps P (k v)) \<Longrightarrow> keeps P (op_bind m k)"
  by (auto simp: keeps_def op_bind_def split: prod.splits sum.splits)

lemma keeps_then [keeps_intros]: "keeps P m \<Longrightarrow> keeps P k \<Longrightarrow> keeps P (op_then m k)"
  by (simp add: op_then_def keeps_bind)

lemma keeps_guard [keeps_intros]: "keeps P k \<Longrightarrow> keeps P (op_guard e k)"
  by (cases e) (auto simp: keeps_pure)

lemma keeps_if [keeps_intros]: "keeps P a \<Longrightarrow> keeps P b \<Longrightarrow> keeps P (if c then a else b)"
  by simp

lemma keeps_each [keeps_intros]:
  "(\<And>x acc. keeps P (f x acc)) \<Longrightarrow> keeps P (op_each f xs acc)"
  by (induction xs arbitrary: acc) (auto intro: keeps_pure keeps_bind)

section \<open>Metered work\<close>

text \<open>
  The contract of a charging operation: it adds an amount to one meter of the object, within a
  ceiling, and fails without an effect otherwise. A loop of charges succeeds exactly when its total
  stays within the ceiling.
\<close>

locale meter =
  fixes charge :: "nat \<Rightarrow> ('s, 'e, unit) op"
    and reading :: "'s \<Rightarrow> int"
    and ceiling :: "'s \<Rightarrow> int"
    and advance :: "nat \<Rightarrow> 's \<Rightarrow> 's"
    and ready :: "'s \<Rightarrow> bool"
  assumes charge_success: "ready s \<Longrightarrow>
      charge n s = (Inr (), s') \<longleftrightarrow> reading s + int n \<le> ceiling s \<and> s' = advance n s"
    and charge_failure: "charge n s = (Inl e, s') \<Longrightarrow> s' = s"
    and advance_add: "advance m (advance n s) = advance (n + m) s"
    and advance_zero: "advance 0 s = s"
    and advance_reading: "reading (advance n s) = reading s + int n"
    and advance_ceiling: "ceiling (advance n s) = ceiling s"
    and advance_ready: "ready s \<Longrightarrow> ready (advance n s)"
begin

lemma charges_success:
  assumes "ready s" "reading s \<le> ceiling s"
  shows "op_each (\<lambda>n u. charge n) ns () s = (Inr (), s') \<longleftrightarrow>
    reading s + int (sum_list ns) \<le> ceiling s \<and> s' = advance (sum_list ns) s"
  using assms
proof (induction ns arbitrary: s)
  case Nil
  then show ?case by (auto simp: advance_zero)
next
  case (Cons n ns)
  have "op_each (\<lambda>n u. charge n) (n # ns) () s = (Inr (), s') \<longleftrightarrow>
      reading s + int n \<le> ceiling s \<and> op_each (\<lambda>n u. charge n) ns () (advance n s) = (Inr (), s')"
    using Cons.prems by (auto simp: op_bind_success charge_success)
  also have "\<dots> \<longleftrightarrow> reading s + int n \<le> ceiling s
      \<and> reading s + int n + int (sum_list ns) \<le> ceiling s \<and> s' = advance (n + sum_list ns) s"
    using Cons.IH [of "advance n s"] Cons.prems
    by (auto simp: advance_reading advance_ceiling advance_ready advance_add)
  finally show ?case by auto
qed

lemma charges_failure:
  assumes "op_each (\<lambda>n u. charge n) ns () s = (Inl e, s')" "ready s"
  shows "\<exists>k < length ns. s' = advance (sum_list (take k ns)) s"
  using assms
proof (induction ns arbitrary: s)
  case (Cons n ns)
  show ?case
  proof (cases "charge n s")
    case (Pair r s1)
    show ?thesis
    proof (cases r)
      case (Inl e1)
      with Pair Cons.prems charge_failure have "s' = s" by (fastforce simp: op_bind_def)
      then show ?thesis by (intro exI [of _ 0]) (simp add: advance_zero)
    next
      case (Inr u)
      with Pair Cons.prems have s1: "s1 = advance n s" by (simp add: charge_success)
      with Inr Pair Cons.prems have "op_each (\<lambda>n u. charge n) ns () s1 = (Inl e, s')"
        by (simp add: op_bind_def)
      from Cons.IH [OF this] s1 Cons.prems(2) obtain k where
        "k < length ns" "s' = advance (sum_list (take k ns)) s1" by (auto simp: advance_ready)
      then show ?thesis by (intro exI [of _ "Suc k"]) (simp add: s1 advance_add)
    qed
  qed
qed simp

end

section \<open>Metered emission\<close>

text \<open>
  The contract of an output buffer that is filled item by item under limits: a sequence of items
  fits exactly when its parts fit one after the other. Operations that emit a known sequence
  compose along loops.
\<close>

locale emission =
  fixes ready :: "'o \<Rightarrow> 's \<Rightarrow> bool"
    and fits :: "'i list \<Rightarrow> 'o \<Rightarrow> 's \<Rightarrow> bool"
    and put :: "'i list \<Rightarrow> 'o \<Rightarrow> 'o"
    and tick :: "'i list \<Rightarrow> 's \<Rightarrow> 's"
  assumes fits_Nil: "ready out s \<Longrightarrow> fits [] out s"
    and fits_append: "ready out s \<Longrightarrow> fits (xs @ ys) out s \<longleftrightarrow> fits xs out s \<and> fits ys (put xs out) (tick xs s)"
    and put_Nil: "put [] out = out"
    and put_append: "put (xs @ ys) out = put ys (put xs out)"
    and tick_Nil: "tick [] s = s"
    and tick_append: "tick (xs @ ys) s = tick ys (tick xs s)"
    and ready_put: "ready out s \<Longrightarrow> fits xs out s \<Longrightarrow> ready (put xs out) (tick xs s)"
begin

definition emits :: "('o \<Rightarrow> ('s, 'e, 'o) op) \<Rightarrow> bool \<Rightarrow> 'i list \<Rightarrow> bool" where
  "emits m side xs \<longleftrightarrow>
     (\<forall>out s out' s'. ready out s \<longrightarrow>
        m out s = (Inr out', s') \<longleftrightarrow> side \<and> fits xs out s \<and> out' = put xs out \<and> s' = tick xs s)"

lemma emitsD:
  "emits m side xs \<Longrightarrow> ready out s \<Longrightarrow>
     m out s = (Inr out', s') \<longleftrightarrow> side \<and> fits xs out s \<and> out' = put xs out \<and> s' = tick xs s"
  by (simp add: emits_def)

lemma emits_return: "emits op_return True []"
  by (auto simp: emits_def fits_Nil put_Nil tick_Nil)

lemma emits_bind:
  assumes "emits m a xs" "emits k b ys"
  shows "emits (\<lambda>out. op_bind (m out) k) (a \<and> b) (xs @ ys)"
  unfolding emits_def
proof (intro allI impI)
  fix out s out' s'
  assume r: "ready out s"
  have "op_bind (m out) k s = (Inr out', s') \<longleftrightarrow>
      (a \<and> fits xs out s) \<and> k (put xs out) (tick xs s) = (Inr out', s')"
    using assms(1) r by (auto simp: op_bind_success emits_def)
  also have "\<dots> \<longleftrightarrow> (a \<and> fits xs out s) \<and> b \<and> fits ys (put xs out) (tick xs s)
      \<and> out' = put (xs @ ys) out \<and> s' = tick (xs @ ys) s"
    using emitsD [OF assms(2) ready_put [OF r]] by (auto simp: put_append tick_append)
  finally show "op_bind (m out) k s = (Inr out', s') \<longleftrightarrow>
      (a \<and> b) \<and> fits (xs @ ys) out s \<and> out' = put (xs @ ys) out \<and> s' = tick (xs @ ys) s"
    using fits_append [OF r] by auto
qed

lemma emits_each:
  assumes "\<And>x. x \<in> set xs \<Longrightarrow> emits (f x) (side x) (g x)"
  shows "emits (op_each f xs) (\<forall>x \<in> set xs. side x) (concat (map g xs))"
  using assms
proof (induction xs)
  case Nil
  have "op_each f [] = op_return" by (rule ext) simp
  then have "emits (op_each f []) True []" using emits_return by metis
  then show ?case by (simp del: op_each.simps)
next
  case (Cons x xs)
  have "op_each f (x # xs) = (\<lambda>out. op_bind (f x out) (op_each f xs))" by (rule ext) simp
  moreover have "emits (\<lambda>out. op_bind (f x out) (op_each f xs)) (side x \<and> (\<forall>x \<in> set xs. side x))
      (g x @ concat (map g xs))"
    using Cons by (intro emits_bind) simp_all
  ultimately show ?case by simp
qed

lemma emits_cong: "emits m a xs \<Longrightarrow> a = b \<Longrightarrow> xs = ys \<Longrightarrow> emits m b ys"
  by simp

end

end
