(* ===== verification/Go_Utf8.thy ===== *)
theory Go_Utf8
  imports Go_Bytes
begin

text \<open>
  The validity check of the standard library's \<open>unicode/utf8\<close>: a byte string is valid when it is a
  sequence of well-formed encodings, where overlong forms, surrogates and code points above
  \<open>U+10FFFF\<close> are excluded by the accepted range of the second byte.
\<close>

definition continuation :: "byte \<Rightarrow> bool" where
  "continuation b \<longleftrightarrow> 128 \<le> octet b \<and> octet b \<le> 191"

text \<open>The length of an encoding and the range of its second byte, by the first byte.\<close>

definition first_byte :: "byte \<Rightarrow> (nat \<times> nat \<times> nat) option" where
  "first_byte b =
     (if octet b < 128 then Some (1, 0, 0)
      else if octet b < 194 then None
      else if octet b < 224 then Some (2, 128, 191)
      else if octet b = 224 then Some (3, 160, 191)
      else if octet b = 237 then Some (3, 128, 159)
      else if octet b < 240 then Some (3, 128, 191)
      else if octet b = 240 then Some (4, 144, 191)
      else if octet b < 244 then Some (4, 128, 191)
      else if octet b = 244 then Some (4, 128, 143)
      else None)"

function utf8Valid :: "bytes \<Rightarrow> bool" where
  "utf8Valid [] = True"
| "utf8Valid (b # rest) =
     (case first_byte b of
        None \<Rightarrow> False
      | Some (k, lo, hi) \<Rightarrow>
          if k = 1 then utf8Valid rest
          else if length rest < k - 1 then False
          else lo \<le> octet (hd rest) \<and> octet (hd rest) \<le> hi
             \<and> list_all continuation (take (k - 2) (tl rest))
             \<and> utf8Valid (drop (k - 1) rest))"
  by pat_completeness auto
termination by (relation "measure length") auto

text \<open>Seven-bit text is valid, and validity is closed under concatenation.\<close>

lemma utf8Valid_ascii: "list_all (\<lambda>b. octet b < 128) s \<Longrightarrow> utf8Valid s"
  by (induction s) (auto simp: first_byte_def)

lemma utf8Valid_append: "utf8Valid a \<Longrightarrow> utf8Valid b \<Longrightarrow> utf8Valid (a @ b)"
proof (induction a rule: utf8Valid.induct)
  case (2 c rest)
  then obtain k lo hi where f: "first_byte c = Some (k, lo, hi)"
    by (auto split: option.splits)
  show ?case
  proof (cases "k = 1")
    case True
    with 2 f show ?thesis by simp
  next
    case False
    with 2 f have len: "k - 1 \<le> length rest" by (simp split: if_splits)
    have k: "2 \<le> k" using f False by (auto simp: first_byte_def split: if_splits)
    with len obtain r rs where rest: "rest = r # rs" by (cases rest) auto
    have "drop (k - 1) (r # rs @ b) = drop (k - 1) (r # rs) @ b"
      using len by (simp add: rest drop_append flip: append_Cons)
    moreover have "utf8Valid (drop (k - 1) rest @ b)"
      using 2 f False len by (auto split: if_splits)
    ultimately show ?thesis using 2 f False len k by (auto simp: rest take_append)
  qed
qed simp

end
