(* ===== verification/Recipe_Base.thy ===== *)
theory Recipe_Base
  imports Rawmsg_Build Go_Effects Go_Utf8
begin

text \<open>
  Errors, limits and usage accounting of package \<open>internal/recipe\<close> (\<open>errors.go\<close>, \<open>limit_names.go\<close>,
  \<open>limits.go\<close>, \<open>usage.go\<close>). Counters are \<open>int\<close> with Go's 64-bit maximum written out in
  \<open>checkedAdd\<close>; a counter operation is an \<open>op\<close>, so the usage of a failed call is its result too.
  The usage pointer is never nil where the package calls it: the nil guards have no counterpart.
\<close>

section \<open>Errors (\<open>errors.go\<close>)\<close>

datatype RecipeErrorCode =
    RecipeInvalidOptions | RecipeInvalidState | RecipeLimitExceeded | RecipeInvalidJSON
  | RecipeDuplicateMember | RecipeInvalidTopLevel | RecipeMissingRecipeDimension
  | RecipeInvalidHeaderName | RecipeNonLowercaseHeaderName | RecipeNonLowercaseKey
  | RecipeUnsignedHeaderRecipe | RecipeHeaderNameCollision | RecipeInvalidHeaderRecipe
  | RecipeInvalidBodyRecipe | RecipeInvalidStep | RecipeInvalidCopyRange
  | RecipeCopyRangeOrder | RecipeCopyRangeOutOfBounds | RecipeInvalidLiteral
  | RecipeSourceUnavailable | RecipeInvalidGenerator | RecipeInvalidRequest
  | RecipeInvalidPolicy | RecipeHeaderRelevance | RecipeHeaderUnrepresentable
  | RecipeBodyUnrepresentable | RecipeSerializationFailure
  | RecipeGeneratedOutputInvariant | RecipeReconstructionMismatch

datatype RecipeErrorClass =
    ClassOptions | ClassState | ClassLimit | ClassSyntax | ClassSchema | ClassRange | ClassSource
  | ClassRequest | ClassPolicy | ClassRepresentation | ClassSerialization | ClassInvariant

text \<open>The string enumerations keep their zero value, the empty string, as \<open>...Unset\<close>.\<close>

datatype Dimension = DimensionUnset | DimensionRecipe | DimensionHeader | DimensionBody

datatype StepKind = StepKindUnset | StepKindCopy | StepKindData | StepKindBinaryData

definition StepKind_Known :: "StepKind \<Rightarrow> bool" where
  "StepKind_Known k \<longleftrightarrow> k = StepKindCopy \<or> k = StepKindData \<or> k = StepKindBinaryData"

record RecipeErrorLocation =
  rloc_Offset :: int
  rloc_StepIndex :: int
  rloc_MemberIndex :: int
  rloc_HeaderOrdinal :: int
  rloc_BodyLine :: int

record RecipeErrorDetails =
  rdet_LimitName :: string
  rdet_Expected :: int
  rdet_Actual :: int
  rdet_Dimension :: Dimension
  rdet_StepKind :: StepKind

text \<open>
  \<open>newError\<close> overwrites the class of its details with the class of the code, so the class is a field
  of the error and not of the details the call sites pass.
\<close>

record RecipeError =
  re_code :: RecipeErrorCode
  re_class :: RecipeErrorClass
  re_location :: RecipeErrorLocation
  re_details :: RecipeErrorDetails

definition recipeClassForCode :: "RecipeErrorCode \<Rightarrow> RecipeErrorClass" where
  "recipeClassForCode code =
     (case code of
        RecipeInvalidOptions \<Rightarrow> ClassOptions
      | RecipeInvalidState \<Rightarrow> ClassState
      | RecipeInvalidGenerator \<Rightarrow> ClassState
      | RecipeInvalidRequest \<Rightarrow> ClassRequest
      | RecipeInvalidPolicy \<Rightarrow> ClassPolicy
      | RecipeLimitExceeded \<Rightarrow> ClassLimit
      | RecipeInvalidJSON \<Rightarrow> ClassSyntax
      | RecipeDuplicateMember \<Rightarrow> ClassSyntax
      | RecipeInvalidCopyRange \<Rightarrow> ClassRange
      | RecipeCopyRangeOrder \<Rightarrow> ClassRange
      | RecipeCopyRangeOutOfBounds \<Rightarrow> ClassRange
      | RecipeSourceUnavailable \<Rightarrow> ClassSource
      | RecipeHeaderUnrepresentable \<Rightarrow> ClassRepresentation
      | RecipeBodyUnrepresentable \<Rightarrow> ClassRepresentation
      | RecipeSerializationFailure \<Rightarrow> ClassSerialization
      | RecipeHeaderRelevance \<Rightarrow> ClassInvariant
      | RecipeGeneratedOutputInvariant \<Rightarrow> ClassInvariant
      | RecipeReconstructionMismatch \<Rightarrow> ClassInvariant
      | _ \<Rightarrow> ClassSchema)"

definition atLeastZero :: "int \<Rightarrow> int" where
  "atLeastZero n = (if n < 0 then 0 else n)"

definition sanitizeErrorLocation :: "RecipeErrorLocation \<Rightarrow> RecipeErrorLocation" where
  "sanitizeErrorLocation location =
     \<lparr>rloc_Offset = atLeastZero (rloc_Offset location),
      rloc_StepIndex = atLeastZero (rloc_StepIndex location),
      rloc_MemberIndex = atLeastZero (rloc_MemberIndex location),
      rloc_HeaderOrdinal = atLeastZero (rloc_HeaderOrdinal location),
      rloc_BodyLine = atLeastZero (rloc_BodyLine location)\<rparr>"

abbreviation limitNameMaxDecodedRecipeBytes :: string where
  "limitNameMaxDecodedRecipeBytes \<equiv> ''max_decoded_recipe_bytes''"
abbreviation limitNameMaxJSONDepth :: string where
  "limitNameMaxJSONDepth \<equiv> ''max_json_depth''"
abbreviation limitNameMaxJSONMembers :: string where
  "limitNameMaxJSONMembers \<equiv> ''max_json_members''"
abbreviation limitNameMaxJSONTokens :: string where
  "limitNameMaxJSONTokens \<equiv> ''max_json_tokens''"
abbreviation limitNameMaxHeaderNames :: string where
  "limitNameMaxHeaderNames \<equiv> ''max_header_names''"
abbreviation limitNameMaxHeaderNameBytes :: string where
  "limitNameMaxHeaderNameBytes \<equiv> ''max_header_name_bytes''"
abbreviation limitNameMaxTotalHeaderNameBytes :: string where
  "limitNameMaxTotalHeaderNameBytes \<equiv> ''max_total_header_name_bytes''"
abbreviation limitNameMaxStepsPerHeader :: string where
  "limitNameMaxStepsPerHeader \<equiv> ''max_steps_per_header''"
abbreviation limitNameMaxBodySteps :: string where
  "limitNameMaxBodySteps \<equiv> ''max_body_steps''"
abbreviation limitNameMaxTotalSteps :: string where
  "limitNameMaxTotalSteps \<equiv> ''max_total_steps''"
abbreviation limitNameMaxCopyRanges :: string where
  "limitNameMaxCopyRanges \<equiv> ''max_copy_ranges''"
abbreviation limitNameMaxCopiedItemsPerRange :: string where
  "limitNameMaxCopiedItemsPerRange \<equiv> ''max_copied_items_per_range''"
abbreviation limitNameMaxTotalCopiedItems :: string where
  "limitNameMaxTotalCopiedItems \<equiv> ''max_total_copied_items''"
abbreviation limitNameMaxDataStrings :: string where
  "limitNameMaxDataStrings \<equiv> ''max_data_strings''"
abbreviation limitNameMaxDataStringBytes :: string where
  "limitNameMaxDataStringBytes \<equiv> ''max_data_string_bytes''"
abbreviation limitNameMaxTotalLiteralBytes :: string where
  "limitNameMaxTotalLiteralBytes \<equiv> ''max_total_literal_bytes''"
abbreviation limitNameMaxStateBytes :: string where
  "limitNameMaxStateBytes \<equiv> ''max_state_bytes''"
abbreviation limitNameMaxOperationWorkUnits :: string where
  "limitNameMaxOperationWorkUnits \<equiv> ''max_operation_work_units''"
abbreviation limitNameMaxInputBytes :: string where
  "limitNameMaxInputBytes \<equiv> ''max_input_bytes''"
abbreviation limitNameMaxInputItems :: string where
  "limitNameMaxInputItems \<equiv> ''max_input_items''"
abbreviation limitNameMaxCandidateEntries :: string where
  "limitNameMaxCandidateEntries \<equiv> ''max_candidate_entries''"
abbreviation limitNameMaxCandidateKeyBytes :: string where
  "limitNameMaxCandidateKeyBytes \<equiv> ''max_candidate_key_bytes''"
abbreviation limitNameMaxComparisons :: string where
  "limitNameMaxComparisons \<equiv> ''max_comparisons''"
abbreviation limitNameMaxGenerationWorkUnits :: string where
  "limitNameMaxGenerationWorkUnits \<equiv> ''max_generation_work_units''"
abbreviation limitNameGenerationWorkCoherence :: string where
  "limitNameGenerationWorkCoherence \<equiv> ''generation_work_coherence''"

definition knownLimitName :: "string \<Rightarrow> bool" where
  "knownLimitName v \<longleftrightarrow> v \<in> set
     [limitNameMaxDecodedRecipeBytes, limitNameMaxJSONDepth, limitNameMaxJSONMembers,
      limitNameMaxJSONTokens, limitNameMaxHeaderNames, limitNameMaxHeaderNameBytes,
      limitNameMaxTotalHeaderNameBytes, limitNameMaxStepsPerHeader, limitNameMaxBodySteps,
      limitNameMaxTotalSteps, limitNameMaxCopyRanges, limitNameMaxCopiedItemsPerRange,
      limitNameMaxTotalCopiedItems, limitNameMaxDataStrings, limitNameMaxDataStringBytes,
      limitNameMaxTotalLiteralBytes, limitNameMaxHeaderFields, limitNameMaxHeaderFieldBytes,
      limitNameMaxHeaderLineBytes, limitNameMaxHeaderBytes, limitNameMaxBodyLines,
      limitNameMaxBodyLineBytes, limitNameMaxStateBytes, limitNameMaxOperationWorkUnits,
      limitNameMaxInputBytes, limitNameMaxInputItems, limitNameMaxCandidateEntries,
      limitNameMaxCandidateKeyBytes, limitNameMaxComparisons, limitNameMaxGenerationWorkUnits,
      limitNameGenerationWorkCoherence, ''literal_limit_coherence'', ''step_limit_coherence'',
      ''copy_limit_coherence'']"

definition newRecipeError ::
    "RecipeErrorCode \<Rightarrow> RecipeErrorLocation \<Rightarrow> RecipeErrorDetails \<Rightarrow> RecipeError" where
  "newRecipeError code location details =
     \<lparr>re_code = code, re_class = recipeClassForCode code, re_location = sanitizeErrorLocation location,
      re_details =
        \<lparr>rdet_LimitName = (if knownLimitName (rdet_LimitName details) then rdet_LimitName details else []),
         rdet_Expected = atLeastZero (rdet_Expected details),
         rdet_Actual = atLeastZero (rdet_Actual details),
         rdet_Dimension = rdet_Dimension details,
         rdet_StepKind = rdet_StepKind details\<rparr>\<rparr>"

definition noLocation :: RecipeErrorLocation where
  "noLocation = \<lparr>rloc_Offset = 0, rloc_StepIndex = 0, rloc_MemberIndex = 0, rloc_HeaderOrdinal = 0,
     rloc_BodyLine = 0\<rparr>"

definition noDetails :: RecipeErrorDetails where
  "noDetails = \<lparr>rdet_LimitName = [], rdet_Expected = 0, rdet_Actual = 0,
     rdet_Dimension = DimensionUnset, rdet_StepKind = StepKindUnset\<rparr>"

text \<open>The accessors on a possibly nil error, \<open>None\<close>.\<close>

definition RecipeError_Code :: "RecipeError option \<Rightarrow> RecipeErrorCode option" where
  "RecipeError_Code e = map_option re_code e"

definition RecipeError_Class :: "RecipeError option \<Rightarrow> RecipeErrorClass option" where
  "RecipeError_Class e = map_option re_class e"

definition RecipeError_Location :: "RecipeError option \<Rightarrow> RecipeErrorLocation" where
  "RecipeError_Location e = (case e of None \<Rightarrow> noLocation | Some x \<Rightarrow> re_location x)"

definition RecipeError_LimitName :: "RecipeError option \<Rightarrow> string" where
  "RecipeError_LimitName e = (case e of None \<Rightarrow> [] | Some x \<Rightarrow> rdet_LimitName (re_details x))"

definition RecipeError_Dimension :: "RecipeError option \<Rightarrow> Dimension" where
  "RecipeError_Dimension e =
     (case e of None \<Rightarrow> DimensionUnset | Some x \<Rightarrow> rdet_Dimension (re_details x))"

definition RecipeError_Is :: "RecipeError option \<Rightarrow> RecipeError option \<Rightarrow> bool" where
  "RecipeError_Is e target =
     (case (e, target) of (Some x, Some t) \<Rightarrow> re_code x = re_code t | _ \<Rightarrow> False)"

definition IsErrorCode :: "RecipeError option \<Rightarrow> RecipeErrorCode \<Rightarrow> bool" where
  "IsErrorCode err code \<longleftrightarrow> RecipeError_Code err = Some code"

definition IsJSONSyntaxError :: "RecipeError option \<Rightarrow> bool" where
  "IsJSONSyntaxError err \<longleftrightarrow>
     (case err of None \<Rightarrow> False
      | Some x \<Rightarrow> re_class x = ClassSyntax \<or> re_code x = RecipeInvalidTopLevel)"

text \<open>Errors as the call sites write them.\<close>

definition invalidOptionsError :: "string \<Rightarrow> RecipeError" where
  "invalidOptionsError limitName =
     newRecipeError RecipeInvalidOptions noLocation (noDetails\<lparr>rdet_LimitName := limitName\<rparr>)"

definition invalidStateError :: RecipeError where
  "invalidStateError = newRecipeError RecipeInvalidState noLocation noDetails"

definition usageLimitError :: "string \<Rightarrow> int \<Rightarrow> int \<Rightarrow> RecipeError" where
  "usageLimitError name limit actual =
     newRecipeError RecipeLimitExceeded noLocation
       (noDetails\<lparr>rdet_LimitName := name, rdet_Expected := limit, rdet_Actual := actual\<rparr>)"

definition applicationLimitError :: "Dimension \<Rightarrow> string \<Rightarrow> int \<Rightarrow> int \<Rightarrow> RecipeError" where
  "applicationLimitError dimension name limit actual =
     newRecipeError RecipeLimitExceeded noLocation
       (noDetails\<lparr>rdet_LimitName := name, rdet_Expected := limit, rdet_Actual := actual,
          rdet_Dimension := dimension\<rparr>)"

definition applyLimitError :: "string \<Rightarrow> int \<Rightarrow> int \<Rightarrow> RecipeError" where
  "applyLimitError = applicationLimitError DimensionHeader"

definition bodyLimitError :: "string \<Rightarrow> int \<Rightarrow> int \<Rightarrow> RecipeError" where
  "bodyLimitError = applicationLimitError DimensionBody"

end
