(* ===== verification/Recipe_Usage.thy ===== *)
theory Recipe_Usage
  imports Recipe_Base
begin

text \<open>
  RecipeLimits and usage counters of package \<open>internal/recipe\<close> (\<open>limits.go\<close>, \<open>usage.go\<close>). The lemmas
  characterise the accepted limits and the charging operations, and interpret the metering contract
  on the package's own counter.
\<close>

section \<open>RecipeLimits (\<open>limits.go\<close>)\<close>

record RecipeLimits =
  rl_MaxDecodedRecipeBytes :: int
  rl_MaxJSONDepth :: int
  rl_MaxJSONMembers :: int
  rl_MaxJSONTokens :: int
  rl_MaxHeaderNames :: int
  rl_MaxHeaderNameBytes :: int
  rl_MaxTotalHeaderNameBytes :: int
  rl_MaxStepsPerHeader :: int
  rl_MaxBodySteps :: int
  rl_MaxTotalSteps :: int
  rl_MaxCopyRanges :: int
  rl_MaxCopiedItemsPerRange :: int
  rl_MaxTotalCopiedItems :: int
  rl_MaxDataStrings :: int
  rl_MaxDataStringBytes :: int
  rl_MaxTotalLiteralBytes :: int
  rl_MaxHeaderFields :: int
  rl_MaxHeaderFieldBytes :: int
  rl_MaxHeaderLineBytes :: int
  rl_MaxHeaderBytes :: int
  rl_MaxBodyLines :: int
  rl_MaxBodyLineBytes :: int
  rl_MaxStateBytes :: int
  rl_MaxOperationWorkUnits :: int

definition hardMaxOperationWorkUnits :: int where
  "hardMaxOperationWorkUnits = 2 * HardMaxMessageBytes + 2 * HardMaxBodyLines"

definition DefaultRecipeLimits :: RecipeLimits where
  "DefaultRecipeLimits = (let rawLimits = DefaultParserOptions in
     \<lparr>rl_MaxDecodedRecipeBytes = 49152, rl_MaxJSONDepth = 16,
      rl_MaxJSONMembers = 2048, rl_MaxJSONTokens = 8192,
      rl_MaxHeaderNames = 256, rl_MaxHeaderNameBytes = MaxHeaderLineBytes rawLimits,
      rl_MaxTotalHeaderNameBytes = 16384, rl_MaxStepsPerHeader = 256,
      rl_MaxBodySteps = 2048, rl_MaxTotalSteps = 4096,
      rl_MaxCopyRanges = 2048, rl_MaxCopiedItemsPerRange = 2000,
      rl_MaxTotalCopiedItems = 8192, rl_MaxDataStrings = 4096,
      rl_MaxDataStringBytes = 16384, rl_MaxTotalLiteralBytes = 32768,
      rl_MaxHeaderFields = MaxHeaderFields rawLimits,
      rl_MaxHeaderFieldBytes = MaxHeaderFieldBytes rawLimits,
      rl_MaxHeaderLineBytes = MaxHeaderLineBytes rawLimits,
      rl_MaxHeaderBytes = MaxHeaderBytes rawLimits,
      rl_MaxBodyLines = MaxBodyLines rawLimits, rl_MaxBodyLineBytes = MaxBodyLineBytes rawLimits,
      rl_MaxStateBytes = MaxMessageBytes rawLimits,
      rl_MaxOperationWorkUnits = hardMaxOperationWorkUnits\<rparr>)"

text \<open>The fields in the order in which \<open>normalized\<close> lists their pointers.\<close>

definition limit_values :: "RecipeLimits \<Rightarrow> int list" where
  "limit_values l =
     [rl_MaxDecodedRecipeBytes l, rl_MaxJSONDepth l, rl_MaxJSONMembers l, rl_MaxJSONTokens l,
      rl_MaxHeaderNames l, rl_MaxHeaderNameBytes l, rl_MaxTotalHeaderNameBytes l,
      rl_MaxStepsPerHeader l, rl_MaxBodySteps l, rl_MaxTotalSteps l, rl_MaxCopyRanges l,
      rl_MaxCopiedItemsPerRange l, rl_MaxTotalCopiedItems l, rl_MaxDataStrings l,
      rl_MaxDataStringBytes l, rl_MaxTotalLiteralBytes l, rl_MaxHeaderFields l,
      rl_MaxHeaderFieldBytes l, rl_MaxHeaderLineBytes l, rl_MaxHeaderBytes l,
      rl_MaxBodyLines l, rl_MaxBodyLineBytes l, rl_MaxStateBytes l, rl_MaxOperationWorkUnits l]"

definition limits_of :: "int list \<Rightarrow> RecipeLimits" where
  "limits_of v =
     \<lparr>rl_MaxDecodedRecipeBytes = v ! 0, rl_MaxJSONDepth = v ! 1, rl_MaxJSONMembers = v ! 2,
      rl_MaxJSONTokens = v ! 3, rl_MaxHeaderNames = v ! 4, rl_MaxHeaderNameBytes = v ! 5,
      rl_MaxTotalHeaderNameBytes = v ! 6, rl_MaxStepsPerHeader = v ! 7, rl_MaxBodySteps = v ! 8,
      rl_MaxTotalSteps = v ! 9, rl_MaxCopyRanges = v ! 10, rl_MaxCopiedItemsPerRange = v ! 11,
      rl_MaxTotalCopiedItems = v ! 12, rl_MaxDataStrings = v ! 13, rl_MaxDataStringBytes = v ! 14,
      rl_MaxTotalLiteralBytes = v ! 15, rl_MaxHeaderFields = v ! 16, rl_MaxHeaderFieldBytes = v ! 17,
      rl_MaxHeaderLineBytes = v ! 18, rl_MaxHeaderBytes = v ! 19, rl_MaxBodyLines = v ! 20,
      rl_MaxBodyLineBytes = v ! 21, rl_MaxStateBytes = v ! 22, rl_MaxOperationWorkUnits = v ! 23\<rparr>"

definition limit_names :: "string list" where
  "limit_names =
     [limitNameMaxDecodedRecipeBytes, limitNameMaxJSONDepth, limitNameMaxJSONMembers,
      limitNameMaxJSONTokens, limitNameMaxHeaderNames, limitNameMaxHeaderNameBytes,
      limitNameMaxTotalHeaderNameBytes, limitNameMaxStepsPerHeader, limitNameMaxBodySteps,
      limitNameMaxTotalSteps, limitNameMaxCopyRanges, limitNameMaxCopiedItemsPerRange,
      limitNameMaxTotalCopiedItems, limitNameMaxDataStrings, limitNameMaxDataStringBytes,
      limitNameMaxTotalLiteralBytes, limitNameMaxHeaderFields, limitNameMaxHeaderFieldBytes,
      limitNameMaxHeaderLineBytes, limitNameMaxHeaderBytes, limitNameMaxBodyLines,
      limitNameMaxBodyLineBytes, limitNameMaxStateBytes, limitNameMaxOperationWorkUnits]"

text \<open>The loop over the value pointers, with the default and the name at the same index.\<close>

fun normalizeLoop :: "(int \<times> int \<times> string) list \<Rightarrow> (RecipeError, int list) result" where
  "normalizeLoop [] = Inr []"
| "normalizeLoop ((v, dflt, name) # rest) =
     (if v < 0 \<or> v > dflt then Inl (invalidOptionsError name)
      else res_bind (normalizeLoop rest) (\<lambda>vs. Inr ((if v = 0 then dflt else v) # vs)))"

definition RecipeLimits_normalized :: "RecipeLimits \<Rightarrow> (RecipeError, RecipeLimits) result" where
  "RecipeLimits_normalized limits =
     res_bind (normalizeLoop (zip (limit_values limits) (zip (limit_values DefaultRecipeLimits) limit_names)))
       (\<lambda>vs. let l = limits_of vs in
         if rl_MaxDataStringBytes l > rl_MaxTotalLiteralBytes l
            \<or> rl_MaxTotalLiteralBytes l > rl_MaxDecodedRecipeBytes l
         then Inl (invalidOptionsError ''literal_limit_coherence'')
         else if rl_MaxStepsPerHeader l > rl_MaxTotalSteps l \<or> rl_MaxBodySteps l > rl_MaxTotalSteps l
         then Inl (invalidOptionsError ''step_limit_coherence'')
         else if rl_MaxCopiedItemsPerRange l > rl_MaxTotalCopiedItems l
         then Inl (invalidOptionsError ''copy_limit_coherence'')
         else Inr l)"

definition RecipeLimits_Validate :: "RecipeLimits \<Rightarrow> RecipeError option" where
  "RecipeLimits_Validate l = (case RecipeLimits_normalized l of Inl e \<Rightarrow> Some e | Inr _ \<Rightarrow> None)"

section \<open>Usage (\<open>usage.go\<close>)\<close>

definition MaxInt :: int where
  "MaxInt = 2 ^ 63 - 1"

definition checkedAdd :: "int \<Rightarrow> int \<Rightarrow> int \<times> bool" where
  "checkedAdd left right =
     (if left < 0 \<or> right < 0 \<or> left > MaxInt - right then (MaxInt, False)
      else (left + right, True))"

record Usage =
  us_decodedBytes :: int
  us_emittedBytes :: int
  us_items :: int
  us_workUnits :: int
  us_initialized :: bool

definition zeroUsage :: Usage where
  "zeroUsage = \<lparr>us_decodedBytes = 0, us_emittedBytes = 0, us_items = 0, us_workUnits = 0,
     us_initialized = False\<rparr>"

definition Usage_Valid :: "Usage \<Rightarrow> bool" where
  "Usage_Valid u \<longleftrightarrow> us_initialized u \<and> us_decodedBytes u \<ge> 0 \<and> us_emittedBytes u \<ge> 0
     \<and> us_items u \<ge> 0 \<and> us_workUnits u \<ge> 0"

definition newUsage :: "int \<Rightarrow> int \<Rightarrow> int \<Rightarrow> int \<Rightarrow> Usage" where
  "newUsage decodedBytes emittedBytes items workUnits =
     (let usage = \<lparr>us_decodedBytes = decodedBytes, us_emittedBytes = emittedBytes,
                   us_items = items, us_workUnits = workUnits, us_initialized = True\<rparr>
      in if \<not> Usage_Valid usage then zeroUsage else usage)"

record usageCounter =
  uc_limits :: RecipeLimits
  uc_decodedBytes :: int
  uc_emittedBytes :: int
  uc_items :: int
  uc_workUnits :: int

type_synonym 'a uop = "(usageCounter, RecipeError, 'a) op"

definition newUsageCounter :: "RecipeLimits \<Rightarrow> (RecipeError, usageCounter) result" where
  "newUsageCounter limits =
     res_bind (RecipeLimits_normalized limits) (\<lambda>resolved.
       Inr \<lparr>uc_limits = resolved, uc_decodedBytes = 0, uc_emittedBytes = 0, uc_items = 0, uc_workUnits = 0\<rparr>)"

definition usageCounter_usage :: "usageCounter \<Rightarrow> Usage" where
  "usageCounter_usage c = newUsage (uc_decodedBytes c) (uc_emittedBytes c) (uc_items c) (uc_workUnits c)"

definition chargeDecoded :: "int \<Rightarrow> unit uop" where
  "chargeDecoded n c =
     (if n < 0 then (Inl invalidStateError, c)
      else case checkedAdd (uc_decodedBytes c) n of (decoded, ok) \<Rightarrow>
        if \<not> ok \<or> decoded > rl_MaxDecodedRecipeBytes (uc_limits c)
        then (Inl (usageLimitError limitNameMaxDecodedRecipeBytes
                    (rl_MaxDecodedRecipeBytes (uc_limits c)) decoded), c)
        else case checkedAdd (uc_workUnits c) n of (work, ok) \<Rightarrow>
          if \<not> ok \<or> work > rl_MaxOperationWorkUnits (uc_limits c)
          then (Inl (usageLimitError limitNameMaxOperationWorkUnits
                      (rl_MaxOperationWorkUnits (uc_limits c)) work), c)
          else (Inr (), c\<lparr>uc_decodedBytes := decoded, uc_workUnits := work\<rparr>))"

definition chargeEmitted :: "int \<Rightarrow> unit uop" where
  "chargeEmitted n c =
     (if n < 0 then (Inl invalidStateError, c)
      else case checkedAdd (uc_emittedBytes c) n of (emitted, ok) \<Rightarrow>
        if \<not> ok \<or> emitted > rl_MaxStateBytes (uc_limits c)
        then (Inl (usageLimitError limitNameMaxStateBytes (rl_MaxStateBytes (uc_limits c)) emitted), c)
        else case checkedAdd (uc_workUnits c) n of (work, ok) \<Rightarrow>
          if \<not> ok \<or> work > rl_MaxOperationWorkUnits (uc_limits c)
          then (Inl (usageLimitError limitNameMaxOperationWorkUnits
                      (rl_MaxOperationWorkUnits (uc_limits c)) work), c)
          else (Inr (), c\<lparr>uc_emittedBytes := emitted, uc_workUnits := work\<rparr>))"

definition chargeItems :: "int \<Rightarrow> unit uop" where
  "chargeItems n c =
     (if n < 0 then (Inl invalidStateError, c)
      else case checkedAdd (uc_items c) n of (items, ok) \<Rightarrow>
        if \<not> ok
        then (Inl (usageLimitError limitNameMaxOperationWorkUnits
                    (rl_MaxOperationWorkUnits (uc_limits c)) MaxInt), c)
        else case checkedAdd (uc_workUnits c) n of (work, ok) \<Rightarrow>
          if \<not> ok \<or> work > rl_MaxOperationWorkUnits (uc_limits c)
          then (Inl (usageLimitError limitNameMaxOperationWorkUnits
                      (rl_MaxOperationWorkUnits (uc_limits c)) work), c)
          else (Inr (), c\<lparr>uc_items := items, uc_workUnits := work\<rparr>))"

definition chargeWork :: "int \<Rightarrow> unit uop" where
  "chargeWork n c =
     (if n < 0 then (Inl invalidStateError, c)
      else case checkedAdd (uc_workUnits c) n of (work, ok) \<Rightarrow>
        if \<not> ok \<or> work > rl_MaxOperationWorkUnits (uc_limits c)
        then (Inl (usageLimitError limitNameMaxOperationWorkUnits
                    (rl_MaxOperationWorkUnits (uc_limits c)) work), c)
        else (Inr (), c\<lparr>uc_workUnits := work\<rparr>))"

section \<open>Accepted limits\<close>

lemma length_limit_values [simp]: "length (limit_values l) = 24"
  by (simp add: limit_values_def)

lemma limits_of_values [simp]: "limits_of (limit_values l) = l"
  by (simp add: limits_of_def limit_values_def)

lemma normalizeLoop_Inr_iff:
  assumes "length ds = length vs" "length ns = length vs"
  shows "normalizeLoop (zip vs (zip ds ns)) = Inr ws \<longleftrightarrow>
    list_all2 (\<lambda>v d. 0 \<le> v \<and> v \<le> d) vs ds
    \<and> ws = map2 (\<lambda>v d. if v = 0 then d else v) vs ds"
  using assms
proof (induction vs arbitrary: ds ns ws)
  case (Cons v vs)
  then obtain d ds' n ns' where ds: "ds = d # ds'" "ns = n # ns'"
    by (metis length_Suc_conv length_Cons)
  with Cons show ?case by (auto simp: res_bind_Inr_iff)
qed auto

definition default_if_zero :: "int list \<Rightarrow> RecipeLimits" where
  "default_if_zero vs = limits_of (map2 (\<lambda>v d. if v = 0 then d else v) vs (limit_values DefaultRecipeLimits))"

definition limits_coherent :: "RecipeLimits \<Rightarrow> bool" where
  "limits_coherent l \<longleftrightarrow>
     rl_MaxDataStringBytes l \<le> rl_MaxTotalLiteralBytes l
     \<and> rl_MaxTotalLiteralBytes l \<le> rl_MaxDecodedRecipeBytes l
     \<and> rl_MaxStepsPerHeader l \<le> rl_MaxTotalSteps l \<and> rl_MaxBodySteps l \<le> rl_MaxTotalSteps l
     \<and> rl_MaxCopiedItemsPerRange l \<le> rl_MaxTotalCopiedItems l"

lemma RecipeLimits_normalized_Inr_iff:
  "RecipeLimits_normalized l = Inr r \<longleftrightarrow>
     list_all2 (\<lambda>v d. 0 \<le> v \<and> v \<le> d) (limit_values l) (limit_values DefaultRecipeLimits)
     \<and> r = default_if_zero (limit_values l) \<and> limits_coherent r"
proof -
  have "length limit_names = length (limit_values l)" by (simp add: limit_names_def)
  then show ?thesis
    by (auto simp: RecipeLimits_normalized_def res_bind_Inr_iff normalizeLoop_Inr_iff Let_def
        default_if_zero_def limits_coherent_def not_less)
qed

text \<open>Resolved limits: positive, within the hard ceilings and coherent.\<close>

definition limits_ok :: "RecipeLimits \<Rightarrow> bool" where
  "limits_ok l \<longleftrightarrow>
     list_all2 (\<lambda>v d. 0 < v \<and> v \<le> d) (limit_values l) (limit_values DefaultRecipeLimits)
     \<and> limits_coherent l"

lemmas default_limit_defs = DefaultRecipeLimits_def DefaultParserOptions_def HardMaxMessageBytes_def
  HardMaxBodyLines_def defaultMaxLineBytes_def hardMaxOperationWorkUnits_def

lemma limit_values_default:
  "limit_values DefaultRecipeLimits =
     [49152, 16, 2048, 8192, 256, 998, 16384, 256, 2048, 4096, 2048, 2000, 8192, 4096, 16384, 32768,
      2000, 65536, 998, 1048576, 2097152, 998, 134217728, 272629760]"
  by (simp add: limit_values_def default_limit_defs Let_def)

lemma limit_values_limits_of:
  "length vs = 24 \<Longrightarrow> limit_values (limits_of vs) = vs"
  by (rule nth_equalityI)
     (auto simp: limit_values_def limits_of_def less_Suc_eq numeral_eq_Suc nth_Cons')

lemma normalized_limits_ok:
  assumes "RecipeLimits_normalized l = Inr r"
  shows "limits_ok r"
proof -
  let ?ds = "limit_values DefaultRecipeLimits"
  let ?vs = "map2 (\<lambda>v d. if v = 0 then d else v) (limit_values l) ?ds"
  have l: "list_all2 (\<lambda>v d. 0 \<le> v \<and> v \<le> d) (limit_values l) ?ds" and r: "r = limits_of ?vs"
      "limits_coherent r"
    using assms unfolding RecipeLimits_normalized_Inr_iff default_if_zero_def by blast+
  have pos: "list_all (\<lambda>d. 0 < d) ?ds" by (simp add: limit_values_default)
  have "list_all2 (\<lambda>v d. 0 < v \<and> v \<le> d) ?vs ?ds"
    using l pos by (fastforce simp: list_all2_conv_all_nth list_all_length)
  then show ?thesis using r by (simp add: limits_ok_def limit_values_limits_of)
qed

lemma limits_ok_normalized:
  assumes "limits_ok l"
  shows "RecipeLimits_normalized l = Inr l"
proof -
  let ?ds = "limit_values DefaultRecipeLimits"
  have l: "list_all2 (\<lambda>v d. 0 < v \<and> v \<le> d) (limit_values l) ?ds" "limits_coherent l"
    using assms by (simp_all add: limits_ok_def)
  then have "map2 (\<lambda>v d. if v = 0 then d else v) (limit_values l) ?ds = limit_values l"
    by (intro nth_equalityI) (auto simp: list_all2_conv_all_nth)
  moreover have "list_all2 (\<lambda>v d. 0 \<le> v \<and> v \<le> d) (limit_values l) ?ds"
    using l(1) by (rule list_all2_mono) auto
  ultimately show ?thesis using l(2) by (simp add: RecipeLimits_normalized_Inr_iff default_if_zero_def)
qed

lemma limits_ok_Validate: "limits_ok l \<Longrightarrow> RecipeLimits_Validate l = None"
  by (simp add: RecipeLimits_Validate_def limits_ok_normalized)

lemma default_limits_ok: "limits_ok DefaultRecipeLimits"
  by (simp add: limits_ok_def limit_values_default limits_coherent_def)
     (simp add: default_limit_defs Let_def)

text \<open>The single bounds, for the arithmetic of the clients.\<close>

lemma limits_ok_bounds:
  assumes "limits_ok l"
  shows "0 < rl_MaxOperationWorkUnits l" "rl_MaxOperationWorkUnits l \<le> 272629760"
    "0 < rl_MaxStateBytes l" "rl_MaxStateBytes l \<le> 134217728"
    "0 < rl_MaxDecodedRecipeBytes l" "rl_MaxDecodedRecipeBytes l \<le> 49152"
    "0 < rl_MaxBodyLines l" "rl_MaxBodyLines l \<le> 2097152"
    "0 < rl_MaxBodyLineBytes l" "rl_MaxBodyLineBytes l \<le> 998"
    "0 < rl_MaxHeaderFields l" "rl_MaxHeaderFields l \<le> 2000"
    "0 < rl_MaxHeaderFieldBytes l" "rl_MaxHeaderFieldBytes l \<le> 65536"
    "0 < rl_MaxHeaderLineBytes l" "rl_MaxHeaderLineBytes l \<le> 998"
    "0 < rl_MaxHeaderBytes l" "rl_MaxHeaderBytes l \<le> 1048576"
    "0 < rl_MaxHeaderNames l" "rl_MaxHeaderNames l \<le> 256"
    "0 < rl_MaxTotalHeaderNameBytes l" "rl_MaxTotalHeaderNameBytes l \<le> 16384"
  using assms unfolding limits_ok_def limit_values_default by (simp_all add: limit_values_def)

lemma limits_ok_plan_bounds:
  assumes "limits_ok l"
  shows "0 < rl_MaxTotalSteps l" "rl_MaxTotalSteps l \<le> 4096"
    "0 < rl_MaxBodySteps l" "rl_MaxBodySteps l \<le> 2048"
    "0 < rl_MaxStepsPerHeader l" "rl_MaxStepsPerHeader l \<le> 256"
    "0 < rl_MaxCopyRanges l" "rl_MaxCopyRanges l \<le> 2048"
    "0 < rl_MaxCopiedItemsPerRange l" "rl_MaxCopiedItemsPerRange l \<le> 2000"
    "0 < rl_MaxTotalCopiedItems l" "rl_MaxTotalCopiedItems l \<le> 8192"
    "0 < rl_MaxDataStrings l" "rl_MaxDataStrings l \<le> 4096"
    "0 < rl_MaxDataStringBytes l" "rl_MaxDataStringBytes l \<le> 16384"
    "0 < rl_MaxTotalLiteralBytes l" "rl_MaxTotalLiteralBytes l \<le> 32768"
  using assms unfolding limits_ok_def limit_values_default by (simp_all add: limit_values_def)

section \<open>Charges\<close>

lemma checkedAdd_ok: "checkedAdd a b = (n, True) \<longleftrightarrow> 0 \<le> a \<and> 0 \<le> b \<and> n = a + b \<and> n \<le> MaxInt"
  by (auto simp: checkedAdd_def)

lemma checkedAdd_nonneg: "0 \<le> fst (checkedAdd a b)"
  by (auto simp: checkedAdd_def MaxInt_def)

text \<open>What every operation on a counter keeps: the resolved limits, and counters within them.\<close>

definition usage_ok :: "usageCounter \<Rightarrow> bool" where
  "usage_ok c \<longleftrightarrow> limits_ok (uc_limits c)
     \<and> 0 \<le> uc_decodedBytes c \<and> uc_decodedBytes c \<le> rl_MaxDecodedRecipeBytes (uc_limits c)
     \<and> 0 \<le> uc_emittedBytes c \<and> uc_emittedBytes c \<le> rl_MaxStateBytes (uc_limits c)
     \<and> 0 \<le> uc_items c \<and> uc_items c \<le> uc_workUnits c
     \<and> uc_workUnits c \<le> rl_MaxOperationWorkUnits (uc_limits c)"

lemma newUsageCounter_ok:
  assumes "newUsageCounter l = Inr c"
  shows "usage_ok c" "RecipeLimits_normalized l = Inr (uc_limits c)" "uc_workUnits c = 0" "uc_emittedBytes c = 0"
    "uc_items c = 0" "uc_decodedBytes c = 0"
  using assms normalized_limits_ok limits_ok_bounds
  by (auto simp: newUsageCounter_def res_bind_Inr_iff usage_ok_def intro: less_imp_le)

definition tick_items :: "nat \<Rightarrow> usageCounter \<Rightarrow> usageCounter" where
  "tick_items n c = c\<lparr>uc_items := uc_items c + int n, uc_workUnits := uc_workUnits c + int n\<rparr>"

definition tick_work :: "nat \<Rightarrow> usageCounter \<Rightarrow> usageCounter" where
  "tick_work n c = c\<lparr>uc_workUnits := uc_workUnits c + int n\<rparr>"

definition tick_emitted :: "nat \<Rightarrow> usageCounter \<Rightarrow> usageCounter" where
  "tick_emitted n c =
     c\<lparr>uc_emittedBytes := uc_emittedBytes c + int n, uc_workUnits := uc_workUnits c + int n\<rparr>"

definition counter_ready :: "usageCounter \<Rightarrow> bool" where
  "counter_ready c \<longleftrightarrow> limits_ok (uc_limits c) \<and> 0 \<le> uc_emittedBytes c \<and> 0 \<le> uc_items c
     \<and> uc_items c \<le> uc_workUnits c"

lemma usage_ready: "usage_ok c \<Longrightarrow> counter_ready c"
  by (simp add: usage_ok_def counter_ready_def)

lemma tick_simps [simp]:
  "uc_limits (tick_items n c) = uc_limits c" "uc_limits (tick_work n c) = uc_limits c"
  "uc_limits (tick_emitted n c) = uc_limits c"
  "uc_workUnits (tick_items n c) = uc_workUnits c + int n" "uc_workUnits (tick_work n c) = uc_workUnits c + int n"
  "uc_workUnits (tick_emitted n c) = uc_workUnits c + int n"
  "uc_items (tick_items n c) = uc_items c + int n" "uc_items (tick_work n c) = uc_items c"
  "uc_items (tick_emitted n c) = uc_items c"
  "uc_emittedBytes (tick_items n c) = uc_emittedBytes c" "uc_emittedBytes (tick_work n c) = uc_emittedBytes c"
  "uc_emittedBytes (tick_emitted n c) = uc_emittedBytes c + int n"
  "uc_decodedBytes (tick_items n c) = uc_decodedBytes c" "uc_decodedBytes (tick_work n c) = uc_decodedBytes c"
  "uc_decodedBytes (tick_emitted n c) = uc_decodedBytes c"
  by (simp_all add: tick_items_def tick_work_def tick_emitted_def)

lemma tick_ready [simp]:
  "counter_ready c \<Longrightarrow> counter_ready (tick_items n c)"
  "counter_ready c \<Longrightarrow> counter_ready (tick_emitted n c)"
  "counter_ready c \<Longrightarrow> counter_ready (tick_work n c)"
  by (simp_all add: counter_ready_def)

lemmas tick_defs = tick_items_def tick_work_def tick_emitted_def

lemma charge_items_success:
  "counter_ready c \<Longrightarrow> chargeItems (int n) c = (Inr (), c') \<longleftrightarrow>
     uc_workUnits c + int n \<le> rl_MaxOperationWorkUnits (uc_limits c) \<and> c' = tick_items n c"
  using limits_ok_bounds(2) [of "uc_limits c"]
  by (auto simp: chargeItems_def counter_ready_def checkedAdd_def MaxInt_def tick_items_def)

lemma charge_work_success:
  "counter_ready c \<Longrightarrow> chargeWork (int n) c = (Inr (), c') \<longleftrightarrow>
     uc_workUnits c + int n \<le> rl_MaxOperationWorkUnits (uc_limits c) \<and> c' = tick_work n c"
  using limits_ok_bounds(2) [of "uc_limits c"]
  by (auto simp: chargeWork_def counter_ready_def checkedAdd_def MaxInt_def tick_work_def)

lemma charge_emitted_success:
  "counter_ready c \<Longrightarrow> chargeEmitted (int n) c = (Inr (), c') \<longleftrightarrow>
     uc_emittedBytes c + int n \<le> rl_MaxStateBytes (uc_limits c)
     \<and> uc_workUnits c + int n \<le> rl_MaxOperationWorkUnits (uc_limits c) \<and> c' = tick_emitted n c"
  using limits_ok_bounds(2,4) [of "uc_limits c"]
  by (auto simp: chargeEmitted_def counter_ready_def checkedAdd_def MaxInt_def tick_emitted_def)

text \<open>Charging is transactional: a refused charge leaves the counter as it was.\<close>

lemma charge_failures:
  "chargeItems n c = (Inl e, c') \<Longrightarrow> c' = c" "chargeWork n c = (Inl e, c') \<Longrightarrow> c' = c"
  "chargeEmitted n c = (Inl e, c') \<Longrightarrow> c' = c" "chargeDecoded n c = (Inl e, c') \<Longrightarrow> c' = c"
  by (auto simp: chargeItems_def chargeWork_def chargeEmitted_def chargeDecoded_def
      split: if_splits prod.splits)

lemma keeps_usage [keeps_intros]:
  "keeps usage_ok (chargeItems n)" "keeps usage_ok (chargeWork n)" "keeps usage_ok (chargeEmitted n)"
  "keeps usage_ok (chargeDecoded n)"
  by (auto simp: keeps_def usage_ok_def chargeItems_def chargeWork_def chargeEmitted_def
      chargeDecoded_def checkedAdd_def)

lemma keeps_limits [keeps_intros]:
  "keeps (\<lambda>c. uc_limits c = l) (chargeItems n)" "keeps (\<lambda>c. uc_limits c = l) (chargeWork n)"
  "keeps (\<lambda>c. uc_limits c = l) (chargeEmitted n)" "keeps (\<lambda>c. uc_limits c = l) (chargeDecoded n)"
  by (auto simp: keeps_def chargeItems_def chargeWork_def chargeEmitted_def
      chargeDecoded_def checkedAdd_def)

interpretation item_meter: meter "\<lambda>n. chargeItems (int n)" uc_workUnits
    "\<lambda>c. rl_MaxOperationWorkUnits (uc_limits c)" tick_items counter_ready
  by unfold_locales
     (auto simp: charge_items_success tick_items_def counter_ready_def dest: charge_failures)

interpretation work_meter: meter "\<lambda>n. chargeWork (int n)" uc_workUnits
    "\<lambda>c. rl_MaxOperationWorkUnits (uc_limits c)" tick_work counter_ready
  by unfold_locales
     (auto simp: charge_work_success tick_work_def counter_ready_def dest: charge_failures)

end
