(* ===== verification/Recipe_Model.thy ===== *)
theory Recipe_Model
  imports Recipe_Usage
begin

text \<open>
  The recipe and state values of package \<open>internal/recipe\<close> (\<open>types.go\<close>, \<open>state.go\<close>) and the shared
  plan budgets (\<open>plan_budgets.go\<close>), with their validating constructors. Cloning is the identity on
  values. The lemmas show that the constructors accept exactly the coherent values and that the
  sequential budget checks are checks of the totals.
\<close>

section \<open>Steps (\<open>types.go\<close>)\<close>

definition literalStep :: "StepKind \<Rightarrow> bool" where
  "literalStep k \<longleftrightarrow> k = StepKindData \<or> k = StepKindBinaryData"

definition literalJSONBytes :: "StepKind \<Rightarrow> bytes \<Rightarrow> nat" where
  "literalJSONBytes k literal =
     (if k = StepKindBinaryData then (length literal + 2) div 3 * 4 else length literal)"

definition literalKindFor :: "bytes \<Rightarrow> StepKind" where
  "literalKindFor literal = (if utf8Valid literal then StepKindData else StepKindBinaryData)"

definition validBinaryLiteral :: "bytes \<Rightarrow> bool" where
  "validBinaryLiteral literal \<longleftrightarrow> \<not> ContainsAny literal [CR, LF]"

definition validDataLiteral :: "bytes \<Rightarrow> bool" where
  "validDataLiteral literal \<longleftrightarrow> utf8Valid literal \<and> validBinaryLiteral literal"

definition validLiteral :: "StepKind \<Rightarrow> bytes \<Rightarrow> bool" where
  "validLiteral k literal =
     (case k of
        StepKindData \<Rightarrow> validDataLiteral literal
      | StepKindBinaryData \<Rightarrow> validBinaryLiteral literal
      | _ \<Rightarrow> False)"

record step =
  st_kind :: StepKind
  st_copyStart :: int
  st_copyEnd :: int
  st_data :: "bytes list"
  st_initialized :: bool

definition zeroStep :: step where
  "zeroStep = \<lparr>st_kind = StepKindUnset, st_copyStart = 0, st_copyEnd = 0, st_data = [],
     st_initialized = False\<rparr>"

definition copyRange :: "step \<Rightarrow> int \<times> int \<times> bool" where
  "copyRange s = (st_copyStart s, st_copyEnd s, st_initialized s \<and> st_kind s = StepKindCopy)"

definition dataValues :: "step \<Rightarrow> bytes list" where
  "dataValues s = (if \<not> st_initialized s \<or> \<not> literalStep (st_kind s) then [] else st_data s)"

definition step_valid :: "step \<Rightarrow> bool" where
  "step_valid s =
     (if \<not> st_initialized s \<or> \<not> StepKind_Known (st_kind s) then False
      else if st_kind s = StepKindCopy
      then st_copyStart s > 0 \<and> st_copyEnd s \<ge> st_copyStart s \<and> length (st_data s) = 0
      else if st_copyStart s \<noteq> 0 \<or> st_copyEnd s \<noteq> 0 \<or> length (st_data s) = 0 then False
      else list_all (validLiteral (st_kind s)) (st_data s))"

definition stepKindError :: "RecipeErrorCode \<Rightarrow> StepKind \<Rightarrow> RecipeError" where
  "stepKindError code k = newRecipeError code noLocation (noDetails\<lparr>rdet_StepKind := k\<rparr>)"

definition copy_step :: "int \<Rightarrow> int \<Rightarrow> step" where
  "copy_step start end' = \<lparr>st_kind = StepKindCopy, st_copyStart = start, st_copyEnd = end', st_data = [],
     st_initialized = True\<rparr>"

definition literal_step :: "StepKind \<Rightarrow> bytes list \<Rightarrow> step" where
  "literal_step k data = \<lparr>st_kind = k, st_copyStart = 0, st_copyEnd = 0, st_data = data,
     st_initialized = True\<rparr>"

definition newCopyStep :: "int \<Rightarrow> int \<Rightarrow> (RecipeError, step) result" where
  "newCopyStep start end' =
     (let candidate = copy_step start end' in
      if \<not> step_valid candidate then Inl (stepKindError RecipeInvalidCopyRange StepKindCopy)
      else Inr candidate)"

definition newDataStep :: "bytes list \<Rightarrow> (RecipeError, step) result" where
  "newDataStep data =
     (if length data = 0 then Inl (stepKindError RecipeInvalidLiteral StepKindData)
      else if \<not> list_all validDataLiteral data
      then Inl (stepKindError RecipeInvalidLiteral StepKindData)
      else let candidate = literal_step StepKindData data in
        if \<not> step_valid candidate then Inl (stepKindError RecipeInvalidLiteral StepKindData)
        else Inr candidate)"

definition newBinaryDataStep :: "bytes list \<Rightarrow> (RecipeError, step) result" where
  "newBinaryDataStep data =
     (let candidate = literal_step StepKindBinaryData data in
      if length data = 0 \<or> \<not> step_valid candidate
      then Inl (stepKindError RecipeInvalidLiteral StepKindBinaryData)
      else Inr candidate)"

section \<open>Plans and recipes (\<open>types.go\<close>)\<close>

datatype BodyMode = BodyModeUnset | BodyModeAbsent | BodyModeSteps | BodyModeUnavailable

definition BodyMode_Known :: "BodyMode \<Rightarrow> bool" where
  "BodyMode_Known m \<longleftrightarrow> m = BodyModeAbsent \<or> m = BodyModeSteps \<or> m = BodyModeUnavailable"

record headerPlan =
  hp_name :: bytes
  hp_canonicalName :: bytes
  hp_steps :: "step list"
  hp_initialized :: bool

text \<open>The loop that the validity checks of plans and recipes share.\<close>

fun orderedSteps :: "int \<Rightarrow> step list \<Rightarrow> bool" where
  "orderedSteps previousCopyEnd [] = True"
| "orderedSteps previousCopyEnd (s # steps) =
     (if \<not> step_valid s then False
      else case copyRange s of (start, end', copyStep) \<Rightarrow>
        if copyStep
        then (if previousCopyEnd \<noteq> 0 \<and> start \<le> previousCopyEnd then False
              else orderedSteps end' steps)
        else orderedSteps previousCopyEnd steps)"

text \<open>The same loop in the constructors, which name the failure.\<close>

fun checkSteps :: "RecipeError \<Rightarrow> int \<Rightarrow> step list \<Rightarrow> RecipeError option" where
  "checkSteps orderError previousCopyEnd [] = None"
| "checkSteps orderError previousCopyEnd (s # steps) =
     (if \<not> step_valid s then Some (newRecipeError RecipeInvalidStep noLocation noDetails)
      else case copyRange s of (start, end', copyStep) \<Rightarrow>
        if copyStep
        then (if previousCopyEnd \<noteq> 0 \<and> start \<le> previousCopyEnd then Some orderError
              else checkSteps orderError end' steps)
        else checkSteps orderError previousCopyEnd steps)"

definition headerPlan_valid :: "headerPlan \<Rightarrow> bool" where
  "headerPlan_valid p \<longleftrightarrow>
     hp_initialized p \<and> CanonicalHeaderName (hp_name p) = Some (hp_canonicalName p)
     \<and> hp_name p = hp_canonicalName p \<and> orderedSteps 0 (hp_steps p)"

definition newHeaderPlan :: "bytes \<Rightarrow> bytes \<Rightarrow> step list \<Rightarrow> (RecipeError, headerPlan) result" where
  "newHeaderPlan name canonicalName steps =
     (if CanonicalHeaderName name \<noteq> Some canonicalName \<or> name \<noteq> canonicalName
      then Inl (newRecipeError RecipeInvalidHeaderName noLocation noDetails)
      else res_check (checkSteps (stepKindError RecipeCopyRangeOrder StepKindCopy) 0 steps)
        (Inr \<lparr>hp_name = name, hp_canonicalName = canonicalName, hp_steps = steps, hp_initialized = True\<rparr>))"

record Recipe =
  rc_headers :: "headerPlan list"
  rc_hasHeaderRecipe :: bool
  rc_bodyMode :: BodyMode
  rc_bodySteps :: "step list"
  rc_initialized :: bool

fun orderedPlans :: "bytes \<Rightarrow> headerPlan list \<Rightarrow> bool" where
  "orderedPlans previousName [] = True"
| "orderedPlans previousName (plan # plans) =
     (if \<not> headerPlan_valid plan \<or> previousName \<noteq> [] \<and> hp_canonicalName plan \<le> previousName then False
      else orderedPlans (hp_canonicalName plan) plans)"

definition Recipe_Valid :: "Recipe \<Rightarrow> bool" where
  "Recipe_Valid r =
     (if \<not> rc_initialized r \<or> \<not> BodyMode_Known (rc_bodyMode r)
         \<or> \<not> rc_hasHeaderRecipe r \<and> rc_bodyMode r = BodyModeAbsent then False
      else if \<not> rc_hasHeaderRecipe r \<and> length (rc_headers r) \<noteq> 0 then False
      else if rc_hasHeaderRecipe r \<and> length (rc_headers r) = 0 then False
      else if rc_bodyMode r \<noteq> BodyModeSteps \<and> length (rc_bodySteps r) \<noteq> 0 then False
      else if \<not> orderedPlans [] (rc_headers r) then False
      else orderedSteps 0 (rc_bodySteps r))"

definition HasHeaderRecipe :: "Recipe \<Rightarrow> bool" where
  "HasHeaderRecipe r \<longleftrightarrow> Recipe_Valid r \<and> rc_hasHeaderRecipe r"

definition HeaderNames :: "Recipe \<Rightarrow> bytes list" where
  "HeaderNames r = (if \<not> Recipe_Valid r then [] else map hp_name (rc_headers r))"

definition CanonicalHeaderNames :: "Recipe \<Rightarrow> bytes list" where
  "CanonicalHeaderNames r = (if \<not> Recipe_Valid r then [] else map hp_canonicalName (rc_headers r))"

definition Recipe_BodyMode :: "Recipe \<Rightarrow> BodyMode" where
  "Recipe_BodyMode r = (if \<not> Recipe_Valid r then BodyModeUnset else rc_bodyMode r)"

fun checkPlans :: "headerPlan option \<Rightarrow> headerPlan list \<Rightarrow> RecipeError option" where
  "checkPlans previous [] = None"
| "checkPlans previous (plan # plans) =
     (if \<not> headerPlan_valid plan then Some invalidStateError
      else if (case previous of None \<Rightarrow> False | Some p \<Rightarrow> hp_canonicalName p = hp_canonicalName plan)
      then Some (newRecipeError RecipeHeaderNameCollision noLocation noDetails)
      else checkPlans (Some plan) plans)"

definition bodyCopyOrderError :: RecipeError where
  "bodyCopyOrderError = newRecipeError RecipeCopyRangeOrder noLocation
     (noDetails\<lparr>rdet_Dimension := DimensionBody, rdet_StepKind := StepKindCopy\<rparr>)"

definition newRecipe ::
    "headerPlan list \<Rightarrow> bool \<Rightarrow> BodyMode \<Rightarrow> step list \<Rightarrow> (RecipeError, Recipe) result" where
  "newRecipe headers hasHeaders bodyMode bodySteps =
     res_check (checkPlans None headers)
      (res_check (checkSteps bodyCopyOrderError 0 bodySteps)
        (let recipe = \<lparr>rc_headers = headers, rc_hasHeaderRecipe = hasHeaders, rc_bodyMode = bodyMode,
                       rc_bodySteps = bodySteps, rc_initialized = True\<rparr>
         in if \<not> Recipe_Valid recipe then Inl invalidStateError else Inr recipe))"

section \<open>States (\<open>state.go\<close>)\<close>

datatype BodyAvailability =
    BodyAvailabilityUnset | BodyAvailabilityKnown | BodyAvailabilityUnavailable

definition BodyAvailability_Known :: "BodyAvailability \<Rightarrow> bool" where
  "BodyAvailability_Known a \<longleftrightarrow> a = BodyAvailabilityKnown \<or> a = BodyAvailabilityUnavailable"

record State =
  ss_headers :: HeaderBlock
  ss_body :: Body
  ss_availability :: BodyAvailability
  ss_framing :: MessageFraming
  ss_initialized :: bool

definition newKnownState :: "HeaderBlock \<Rightarrow> Body \<Rightarrow> MessageFraming \<Rightarrow> (RecipeError, State) result" where
  "newKnownState headers body framing =
     (if \<not> hb_initialized headers \<or> \<not> bd_initialized body \<or> \<not> MessageFraming_Known framing
      then Inl invalidStateError
      else if framing = MessageFramingHeaderOnly \<and> (HeaderBlock_Len headers = 0 \<or> Body_Len body \<noteq> 0)
      then Inl invalidStateError
      else Inr \<lparr>ss_headers = headers, ss_body = body, ss_availability = BodyAvailabilityKnown,
                ss_framing = framing, ss_initialized = True\<rparr>)"

definition newUnavailableState :: "HeaderBlock \<Rightarrow> (RecipeError, State) result" where
  "newUnavailableState headers =
     (if \<not> hb_initialized headers then Inl invalidStateError
      else Inr \<lparr>ss_headers = headers, ss_body = zeroBody, ss_availability = BodyAvailabilityUnavailable,
                ss_framing = MessageFramingDelimited, ss_initialized = True\<rparr>)"

definition NewState :: "Message \<Rightarrow> (RecipeError, State) result" where
  "NewState message =
     (if \<not> Message_Initialized message then Inl invalidStateError
      else newKnownState (msg_headers message) (msg_body message) (Message_Framing message))"

definition NewHeadersOnlyState :: "HeaderBlock \<Rightarrow> (RecipeError, State) result" where
  "NewHeadersOnlyState headers = newUnavailableState headers"

definition State_Valid :: "State \<Rightarrow> bool" where
  "State_Valid s =
     (if \<not> ss_initialized s \<or> \<not> hb_initialized (ss_headers s)
         \<or> \<not> BodyAvailability_Known (ss_availability s) \<or> \<not> MessageFraming_Known (ss_framing s) then False
      else if ss_availability s = BodyAvailabilityKnown
      then (if \<not> bd_initialized (ss_body s) then False
            else ss_framing s \<noteq> MessageFramingHeaderOnly
                 \<or> HeaderBlock_Len (ss_headers s) > 0 \<and> Body_Len (ss_body s) = 0)
      else \<not> bd_initialized (ss_body s) \<and> ss_framing s = MessageFramingDelimited)"

definition BodyState :: "State \<Rightarrow> BodyAvailability" where
  "BodyState s = (if \<not> State_Valid s then BodyAvailabilityUnset else ss_availability s)"

definition State_Body :: "State \<Rightarrow> Body option" where
  "State_Body s =
     (if \<not> State_Valid s \<or> ss_availability s \<noteq> BodyAvailabilityKnown then None else Some (ss_body s))"

definition State_Framing :: "State \<Rightarrow> MessageFraming" where
  "State_Framing s = (if \<not> State_Valid s then MessageFramingUnset else ss_framing s)"

text \<open>\<open>Materialize\<close> fails with an error of this package or with a parser error of \<open>rawmsg\<close>.\<close>

definition Materialize :: "State \<Rightarrow> (RecipeError + ParserError, Message) result" where
  "Materialize s =
     (if \<not> State_Valid s \<or> ss_availability s \<noteq> BodyAvailabilityKnown then Inl (Inl invalidStateError)
      else case NewReconstructedMessageWithFraming (ss_headers s) (ss_body s) DefaultParserOptions (ss_framing s) of
             Inl e \<Rightarrow> Inl (Inr e)
           | Inr m \<Rightarrow> Inr m)"

section \<open>Plan budgets (\<open>plan_budgets.go\<close>)\<close>

record planBudgetAccumulator =
  pb_steps :: int
  pb_ranges :: int
  pb_copied :: int
  pb_dataStrings :: int
  pb_literalBytes :: int

definition zeroBudget :: planBudgetAccumulator where
  "zeroBudget = \<lparr>pb_steps = 0, pb_ranges = 0, pb_copied = 0, pb_dataStrings = 0, pb_literalBytes = 0\<rparr>"

fun addLiterals :: "RecipeLimits \<Rightarrow> Dimension \<Rightarrow> bytes list \<Rightarrow> planBudgetAccumulator
    \<Rightarrow> (RecipeError, planBudgetAccumulator) result" where
  "addLiterals limits dimension [] b = Inr b"
| "addLiterals limits dimension (literal # rest) b =
     (if int (length literal) > rl_MaxDataStringBytes limits
      then Inl (applicationLimitError dimension limitNameMaxDataStringBytes
                  (rl_MaxDataStringBytes limits) (int (length literal)))
      else case checkedAdd (pb_dataStrings b) 1 of (dataStrings, ok) \<Rightarrow>
        if \<not> ok \<or> dataStrings > rl_MaxDataStrings limits
        then Inl (applicationLimitError dimension limitNameMaxDataStrings (rl_MaxDataStrings limits) dataStrings)
        else case checkedAdd (pb_literalBytes b) (int (length literal)) of (literalBytes, ok) \<Rightarrow>
          if \<not> ok \<or> literalBytes > rl_MaxTotalLiteralBytes limits
          then Inl (applicationLimitError dimension limitNameMaxTotalLiteralBytes
                      (rl_MaxTotalLiteralBytes limits) literalBytes)
          else addLiterals limits dimension rest
                 (b\<lparr>pb_dataStrings := dataStrings, pb_literalBytes := literalBytes\<rparr>))"

fun addInstructions :: "RecipeLimits \<Rightarrow> Dimension \<Rightarrow> step list \<Rightarrow> planBudgetAccumulator
    \<Rightarrow> (RecipeError, planBudgetAccumulator) result" where
  "addInstructions limits dimension [] b = Inr b"
| "addInstructions limits dimension (instruction # rest) b =
     (case copyRange instruction of (start, end', copyStep) \<Rightarrow>
        if copyStep then
          (let width = end' - start + 1 in
           if width > rl_MaxCopiedItemsPerRange limits
           then Inl (applicationLimitError dimension limitNameMaxCopiedItemsPerRange
                       (rl_MaxCopiedItemsPerRange limits) width)
           else case checkedAdd (pb_ranges b) 1 of (ranges, ok) \<Rightarrow>
             if \<not> ok \<or> ranges > rl_MaxCopyRanges limits
             then Inl (applicationLimitError dimension limitNameMaxCopyRanges (rl_MaxCopyRanges limits) ranges)
             else case checkedAdd (pb_copied b) width of (copied, ok) \<Rightarrow>
               if \<not> ok \<or> copied > rl_MaxTotalCopiedItems limits
               then Inl (applicationLimitError dimension limitNameMaxTotalCopiedItems
                           (rl_MaxTotalCopiedItems limits) copied)
               else addInstructions limits dimension rest (b\<lparr>pb_ranges := ranges, pb_copied := copied\<rparr>))
        else res_bind (addLiterals limits dimension (st_data instruction) b)
               (addInstructions limits dimension rest))"

definition addSteps :: "RecipeLimits \<Rightarrow> Dimension \<Rightarrow> step list \<Rightarrow> planBudgetAccumulator
    \<Rightarrow> (RecipeError, planBudgetAccumulator) result" where
  "addSteps limits dimension steps b =
     (case checkedAdd (pb_steps b) (int (length steps)) of (stepCount, ok) \<Rightarrow>
        if \<not> ok \<or> stepCount > rl_MaxTotalSteps limits
        then Inl (applicationLimitError dimension limitNameMaxTotalSteps (rl_MaxTotalSteps limits) stepCount)
        else addInstructions limits dimension steps (b\<lparr>pb_steps := stepCount\<rparr>))"

fun addPlans :: "RecipeLimits \<Rightarrow> Dimension \<Rightarrow> headerPlan list \<Rightarrow> planBudgetAccumulator
    \<Rightarrow> (RecipeError, planBudgetAccumulator) result" where
  "addPlans limits dimension [] b = Inr b"
| "addPlans limits dimension (plan # plans) b =
     res_bind (addSteps limits dimension (hp_steps plan) b) (addPlans limits dimension plans)"

definition validateAllPlanStepBudgets :: "Recipe \<Rightarrow> RecipeLimits \<Rightarrow> Dimension \<Rightarrow> RecipeError option" where
  "validateAllPlanStepBudgets recipe limits dimension =
     (case res_bind (addPlans limits dimension (rc_headers recipe) zeroBudget)
             (addSteps limits dimension (rc_bodySteps recipe)) of
        Inl e \<Rightarrow> Some e
      | Inr _ \<Rightarrow> None)"

section \<open>Coherent values\<close>

lemma copyRange_simps [simp]:
  "copyRange (copy_step a b) = (a, b, True)"
  "copyRange (literal_step k ds) = (0, 0, k = StepKindCopy)"
  by (simp_all add: copyRange_def copy_step_def literal_step_def)

lemma step_data_simps [simp]:
  "st_data (copy_step a b) = []" "st_data (literal_step k ds) = ds"
  "st_kind (copy_step a b) = StepKindCopy" "st_kind (literal_step k ds) = k"
  "st_copyStart (copy_step a b) = a" "st_copyEnd (copy_step a b) = b"
  by (simp_all add: copy_step_def literal_step_def)

lemma step_valid_copy [simp]: "step_valid (copy_step a b) \<longleftrightarrow> 0 < a \<and> a \<le> b"
  by (simp add: step_valid_def copy_step_def StepKind_Known_def)

lemma step_valid_literal [simp]:
  "k \<noteq> StepKindCopy \<Longrightarrow>
     step_valid (literal_step k ds) \<longleftrightarrow> ds \<noteq> [] \<and> list_all (validLiteral k) ds"
  by (cases k) (auto simp: step_valid_def literal_step_def StepKind_Known_def validLiteral_def
      list.pred_set neq_Nil_conv)

lemma validLiteral_kinds: "validLiteral k d \<Longrightarrow> k = StepKindData \<or> k = StepKindBinaryData"
  by (cases k) (simp_all add: validLiteral_def)

lemma step_valid_cases [consumes 1, case_names copy literal]:
  assumes "step_valid s"
  obtains a b where "s = copy_step a b" "0 < a" "a \<le> b"
  | k ds where "s = literal_step k ds" "k \<noteq> StepKindCopy" "ds \<noteq> []" "list_all (validLiteral k) ds"
proof (cases "st_kind s = StepKindCopy")
  case True
  with assms have "s = copy_step (st_copyStart s) (st_copyEnd s)"
    by (cases s) (auto simp: step_valid_def copy_step_def split: if_splits)
  with assms that(1) show ?thesis using step_valid_copy by metis
next
  case False
  with assms have "s = literal_step (st_kind s) (st_data s)"
    by (cases s) (auto simp: step_valid_def literal_step_def split: if_splits)
  with assms that(2) False show ?thesis using step_valid_literal by metis
qed

definition copy_ranges :: "step list \<Rightarrow> (int \<times> int) list" where
  "copy_ranges ss = [(st_copyStart s, st_copyEnd s). s \<leftarrow> ss, st_kind s = StepKindCopy]"

definition literals :: "step list \<Rightarrow> bytes list" where
  "literals ss = concat (map st_data ss)"

lemma copy_ranges_simps [simp]:
  "copy_ranges [] = []"
  "copy_ranges (copy_step a b # ss) = (a, b) # copy_ranges ss"
  "k \<noteq> StepKindCopy \<Longrightarrow> copy_ranges (literal_step k ds # ss) = copy_ranges ss"
  "copy_ranges (xs @ ys) = copy_ranges xs @ copy_ranges ys"
  by (simp_all add: copy_ranges_def copy_step_def literal_step_def)

lemma literals_simps [simp]:
  "literals [] = []" "literals (s # ss) = st_data s @ literals ss"
  "literals (xs @ ys) = literals xs @ literals ys"
  by (simp_all add: literals_def)

text \<open>A step sequence is coherent: closed steps, and copy ranges that ascend without overlap.\<close>

definition steps_ok :: "step list \<Rightarrow> bool" where
  "steps_ok ss \<longleftrightarrow> list_all step_valid ss \<and> sorted_wrt (\<lambda>r r'. snd r < fst r') (copy_ranges ss)"

lemma orderedSteps_iff_from:
  "0 \<le> p \<Longrightarrow> orderedSteps p ss \<longleftrightarrow> steps_ok ss \<and> (\<forall>r \<in> set (copy_ranges ss). p < fst r)"
proof (induction ss arbitrary: p)
  case (Cons s ss)
  show ?case
  proof (cases "step_valid s")
    case True
    then show ?thesis
    proof (cases rule: step_valid_cases)
      case (copy a b)
      with Cons.IH [of b] Cons.prems show ?thesis by (auto simp: steps_ok_def)
    next
      case (literal k ds)
      with Cons show ?thesis by (auto simp: steps_ok_def)
    qed
  qed (simp add: steps_ok_def)
qed (simp add: steps_ok_def)

lemma valid_range_pos: "list_all step_valid ss \<Longrightarrow> r \<in> set (copy_ranges ss) \<Longrightarrow> 0 < fst r \<and> fst r \<le> snd r"
proof (induction ss)
  case (Cons s ss)
  then have "step_valid s" by simp
  then show ?case by (cases rule: step_valid_cases) (use Cons in auto)
qed simp

lemma orderedSteps_iff: "orderedSteps 0 ss \<longleftrightarrow> steps_ok ss"
  using valid_range_pos by (auto simp: orderedSteps_iff_from steps_ok_def)

lemma checkSteps_None_iff: "checkSteps e p ss = None \<longleftrightarrow> orderedSteps p ss"
  by (induction ss arbitrary: p) (auto simp: copyRange_def)

definition plan_ok :: "headerPlan \<Rightarrow> bool" where
  "plan_ok p \<longleftrightarrow> hp_initialized p \<and> validHeaderFieldName (hp_name p) \<and> lowerASCII (hp_name p) = hp_name p
     \<and> hp_canonicalName p = hp_name p \<and> steps_ok (hp_steps p)"

lemma headerPlan_valid_iff: "headerPlan_valid p \<longleftrightarrow> plan_ok p"
  by (auto simp: headerPlan_valid_def plan_ok_def CanonicalHeaderName_def canonicalHeaderLookupName_def
      orderedSteps_iff)

lemma plan_ok_name: "plan_ok p \<Longrightarrow> hp_name p \<noteq> []"
  by (auto simp: plan_ok_def validHeaderFieldName_iff)

lemma orderedPlans_iff_from:
  "orderedPlans n ps \<longleftrightarrow> list_all plan_ok ps \<and> sorted_wrt (<) (map hp_name ps)
     \<and> (n \<noteq> [] \<longrightarrow> (\<forall>p \<in> set ps. n < hp_name p))"
proof (induction ps arbitrary: n)
  case (Cons p ps)
  show ?case
  proof (cases "plan_ok p")
    case True
    then have p: "hp_canonicalName p = hp_name p" "hp_name p \<noteq> []" "headerPlan_valid p"
      using plan_ok_name by (auto simp: plan_ok_def headerPlan_valid_iff)
    with Cons.IH [of "hp_name p"] True show ?thesis by (auto simp: not_le dest: less_trans)
  qed (simp add: headerPlan_valid_iff)
qed simp

lemma orderedPlans_iff:
  "orderedPlans [] ps \<longleftrightarrow> list_all plan_ok ps \<and> sorted_wrt (<) (map hp_name ps)"
  by (simp add: orderedPlans_iff_from)

definition recipe_ok :: "Recipe \<Rightarrow> bool" where
  "recipe_ok r \<longleftrightarrow> rc_initialized r \<and> BodyMode_Known (rc_bodyMode r)
     \<and> (rc_hasHeaderRecipe r \<longleftrightarrow> rc_headers r \<noteq> [])
     \<and> (rc_hasHeaderRecipe r \<or> rc_bodyMode r \<noteq> BodyModeAbsent)
     \<and> (rc_bodyMode r \<noteq> BodyModeSteps \<longrightarrow> rc_bodySteps r = [])
     \<and> list_all plan_ok (rc_headers r) \<and> sorted_wrt (<) (map hp_name (rc_headers r))
     \<and> steps_ok (rc_bodySteps r)"

lemma steps_ok_Nil [simp]: "steps_ok []"
  by (simp add: steps_ok_def)

lemma Recipe_Valid_iff: "Recipe_Valid r \<longleftrightarrow> recipe_ok r"
  by (auto simp: Recipe_Valid_def recipe_ok_def orderedPlans_iff orderedSteps_iff)

lemma checkPlans_ok:
  assumes "list_all plan_ok ps" "sorted_wrt (<) (map hp_name ps)"
    "case prev of None \<Rightarrow> True | Some q \<Rightarrow> hp_canonicalName q = hp_name q \<and> (\<forall>p \<in> set ps. hp_name q < hp_name p)"
  shows "checkPlans prev ps = None"
  using assms
proof (induction ps arbitrary: prev)
  case (Cons p ps)
  then have "plan_ok p" by simp
  then have "hp_canonicalName p = hp_name p" "headerPlan_valid p"
    by (simp_all add: plan_ok_def headerPlan_valid_iff)
  with Cons show ?case by (auto split: option.splits)
qed simp

lemma newRecipe_Inr_iff:
  "newRecipe hs has mode ss = Inr r \<longleftrightarrow> recipe_ok r \<and>
     r = \<lparr>rc_headers = hs, rc_hasHeaderRecipe = has, rc_bodyMode = mode, rc_bodySteps = ss,
          rc_initialized = True\<rparr>"
proof -
  let ?r = "\<lparr>rc_headers = hs, rc_hasHeaderRecipe = has, rc_bodyMode = mode, rc_bodySteps = ss,
      rc_initialized = True\<rparr>"
  have "recipe_ok ?r \<Longrightarrow> checkPlans None hs = None \<and> checkSteps bodyCopyOrderError 0 ss = None"
    using checkPlans_ok [of hs None] by (simp add: recipe_ok_def checkSteps_None_iff orderedSteps_iff)
  then show ?thesis
    by (auto simp: newRecipe_def Let_def res_check_Inr_iff Recipe_Valid_iff split: if_splits)
qed

section \<open>Budgets are totals\<close>

definition range_width :: "int \<times> int \<Rightarrow> int" where
  "range_width r = snd r - fst r + 1"

definition add_instructions :: "step list \<Rightarrow> planBudgetAccumulator \<Rightarrow> planBudgetAccumulator" where
  "add_instructions ss b =
     b\<lparr>pb_ranges := pb_ranges b + int (length (copy_ranges ss)),
       pb_copied := pb_copied b + sum_list (map range_width (copy_ranges ss)),
       pb_dataStrings := pb_dataStrings b + int (length (literals ss)),
       pb_literalBytes := pb_literalBytes b + int (length (concat (literals ss)))\<rparr>"

definition budget_within :: "RecipeLimits \<Rightarrow> planBudgetAccumulator \<Rightarrow> bool" where
  "budget_within l b \<longleftrightarrow>
     0 \<le> pb_steps b \<and> pb_steps b \<le> rl_MaxTotalSteps l
     \<and> 0 \<le> pb_ranges b \<and> pb_ranges b \<le> rl_MaxCopyRanges l
     \<and> 0 \<le> pb_copied b \<and> pb_copied b \<le> rl_MaxTotalCopiedItems l
     \<and> 0 \<le> pb_dataStrings b \<and> pb_dataStrings b \<le> rl_MaxDataStrings l
     \<and> 0 \<le> pb_literalBytes b \<and> pb_literalBytes b \<le> rl_MaxTotalLiteralBytes l"

definition instructions_fit :: "RecipeLimits \<Rightarrow> step list \<Rightarrow> bool" where
  "instructions_fit l ss \<longleftrightarrow>
     (\<forall>r \<in> set (copy_ranges ss). range_width r \<le> rl_MaxCopiedItemsPerRange l)
     \<and> (\<forall>d \<in> set (literals ss). int (length d) \<le> rl_MaxDataStringBytes l)"

lemma add_instructions_append:
  "add_instructions (xs @ ys) b = add_instructions ys (add_instructions xs b)"
  by (simp add: add_instructions_def)

lemma add_instructions_Nil [simp]: "add_instructions [] b = b"
  by (simp add: add_instructions_def)

lemma instructions_fit_Nil [simp]: "instructions_fit l []"
  by (simp add: instructions_fit_def)

lemma instructions_fit_append:
  "instructions_fit l (xs @ ys) \<longleftrightarrow> instructions_fit l xs \<and> instructions_fit l ys"
  by (auto simp: instructions_fit_def)

lemma sum_widths_nonneg: "list_all step_valid ss \<Longrightarrow> 0 \<le> sum_list (map range_width (copy_ranges ss))"
  by (intro sum_list_nonneg) (auto simp: range_width_def dest!: valid_range_pos)

lemma budget_within_mono:
  "list_all step_valid ss \<Longrightarrow> budget_within l (add_instructions ss b) \<Longrightarrow>
     0 \<le> pb_ranges b \<Longrightarrow> 0 \<le> pb_copied b \<Longrightarrow> 0 \<le> pb_dataStrings b \<Longrightarrow> 0 \<le> pb_literalBytes b \<Longrightarrow>
     budget_within l b"
  using sum_widths_nonneg [of ss] by (auto simp: budget_within_def add_instructions_def)

lemma addLiterals_Inr_iff:
  assumes "limits_ok l" "budget_within l b"
  shows "addLiterals l d ds b = Inr b' \<longleftrightarrow>
    (\<forall>x \<in> set ds. int (length x) \<le> rl_MaxDataStringBytes l)
    \<and> b' = b\<lparr>pb_dataStrings := pb_dataStrings b + int (length ds),
             pb_literalBytes := pb_literalBytes b + int (length (concat ds))\<rparr>
    \<and> budget_within l b'"
  using assms(2)
proof (induction ds arbitrary: b)
  case (Cons x ds)
  let ?b = "b\<lparr>pb_dataStrings := pb_dataStrings b + 1, pb_literalBytes := pb_literalBytes b + int (length x)\<rparr>"
  have max: "rl_MaxDataStrings l \<le> MaxInt" "rl_MaxTotalLiteralBytes l \<le> MaxInt"
    using limits_ok_plan_bounds [OF assms(1)] by (simp_all add: MaxInt_def)
  have "addLiterals l d (x # ds) b = Inr b' \<longleftrightarrow>
      int (length x) \<le> rl_MaxDataStringBytes l \<and> pb_dataStrings b + 1 \<le> rl_MaxDataStrings l
      \<and> pb_literalBytes b + int (length x) \<le> rl_MaxTotalLiteralBytes l
      \<and> addLiterals l d ds ?b = Inr b'"
    using Cons.prems max by (auto simp: checkedAdd_def budget_within_def)
  also have "\<dots> \<longleftrightarrow> int (length x) \<le> rl_MaxDataStringBytes l \<and> budget_within l ?b
      \<and> addLiterals l d ds ?b = Inr b'"
    using Cons.prems by (auto simp: budget_within_def)
  finally show ?case
    using Cons.IH [of ?b] Cons.prems by (auto simp: budget_within_def)
qed auto

lemma addInstructions_Inr_iff:
  assumes "limits_ok l" "budget_within l b" "list_all step_valid ss"
  shows "addInstructions l d ss b = Inr b' \<longleftrightarrow>
    instructions_fit l ss \<and> b' = add_instructions ss b \<and> budget_within l b'"
  using assms(2,3)
proof (induction ss arbitrary: b)
  case (Cons s ss)
  have max: "rl_MaxCopyRanges l \<le> MaxInt" "rl_MaxTotalCopiedItems l \<le> MaxInt"
    using limits_ok_plan_bounds [OF assms(1)] by (simp_all add: MaxInt_def)
  have ss: "list_all step_valid ss" and s: "step_valid s" using Cons.prems by simp_all
  have mono: "budget_within l (add_instructions ss (add_instructions [s] b)) \<Longrightarrow>
      budget_within l (add_instructions [s] b)"
  proof (rule budget_within_mono [OF ss])
    have "0 \<le> sum_list (map range_width (copy_ranges [s]))" using sum_widths_nonneg [of "[s]"] s by simp
    then show "0 \<le> pb_copied (add_instructions [s] b)"
      using Cons.prems(1) by (simp add: add_instructions_def budget_within_def)
  qed (use Cons.prems(1) in \<open>auto simp: add_instructions_def budget_within_def\<close>)
  have one: "addInstructions l d (s # ss) b = Inr b' \<longleftrightarrow>
      instructions_fit l [s] \<and> budget_within l (add_instructions [s] b)
      \<and> addInstructions l d ss (add_instructions [s] b) = Inr b'"
    using s
  proof (cases rule: step_valid_cases)
    case (copy x y)
    have "addInstructions l d (s # ss) b = Inr b' \<longleftrightarrow>
        y - x + 1 \<le> rl_MaxCopiedItemsPerRange l \<and> pb_ranges b + 1 \<le> rl_MaxCopyRanges l
        \<and> pb_copied b + (y - x + 1) \<le> rl_MaxTotalCopiedItems l
        \<and> addInstructions l d ss (add_instructions [s] b) = Inr b'"
      using Cons.prems max copy
      by (auto simp: Let_def checkedAdd_def budget_within_def add_instructions_def range_width_def)
    then show ?thesis
      using Cons.prems copy
      by (auto simp: instructions_fit_def budget_within_def add_instructions_def range_width_def)
  next
    case (literal k ds)
    have eq: "add_instructions [literal_step k ds] b = b\<lparr>pb_dataStrings := pb_dataStrings b + int (length ds),
        pb_literalBytes := pb_literalBytes b + int (length (concat ds))\<rparr>"
      using literal by (simp add: add_instructions_def)
    have "addInstructions l d (s # ss) b = Inr b' \<longleftrightarrow>
        (\<exists>c. addLiterals l d ds b = Inr c \<and> addInstructions l d ss c = Inr b')"
      using literal by (simp add: res_bind_Inr_iff)
    then show ?thesis
      using literal Cons.prems(1) by (auto simp: addLiterals_Inr_iff [OF assms(1)] eq instructions_fit_def)
  qed
  show ?case
    using Cons.IH [of "add_instructions [s] b"] ss one mono
      add_instructions_append [of "[s]" ss b] instructions_fit_append [of l "[s]" ss]
    by auto
qed auto

definition add_all :: "step list list \<Rightarrow> planBudgetAccumulator \<Rightarrow> planBudgetAccumulator" where
  "add_all sss b = add_instructions (concat sss) (b\<lparr>pb_steps := pb_steps b + int (length (concat sss))\<rparr>)"

lemma addSteps_Inr_iff:
  assumes "limits_ok l" "budget_within l b" "list_all step_valid ss"
  shows "addSteps l d ss b = Inr b' \<longleftrightarrow>
    instructions_fit l ss \<and> b' = add_all [ss] b \<and> budget_within l b'"
proof -
  let ?b = "b\<lparr>pb_steps := pb_steps b + int (length ss)\<rparr>"
  have max: "rl_MaxTotalSteps l \<le> MaxInt"
    using limits_ok_plan_bounds [OF assms(1)] by (simp add: MaxInt_def)
  have "addSteps l d ss b = Inr b' \<longleftrightarrow>
      pb_steps b + int (length ss) \<le> rl_MaxTotalSteps l \<and> addInstructions l d ss ?b = Inr b'"
    using assms(2) max by (auto simp: addSteps_def checkedAdd_def budget_within_def)
  also have "\<dots> \<longleftrightarrow> budget_within l ?b \<and> addInstructions l d ss ?b = Inr b'"
    using assms(2) by (auto simp: budget_within_def)
  also have "\<dots> \<longleftrightarrow> budget_within l ?b \<and> instructions_fit l ss \<and> b' = add_all [ss] b \<and> budget_within l b'"
    using addInstructions_Inr_iff [OF assms(1) _ assms(3), of ?b] by (auto simp: add_all_def)
  finally show ?thesis
    using assms budget_within_mono [OF assms(3), of l ?b] by (auto simp: add_all_def budget_within_def)
qed

lemma addPlans_Inr_iff:
  assumes "limits_ok l" "budget_within l b" "list_all (\<lambda>p. list_all step_valid (hp_steps p)) ps"
  shows "addPlans l d ps b = Inr b' \<longleftrightarrow>
    instructions_fit l (concat (map hp_steps ps)) \<and> b' = add_all (map hp_steps ps) b \<and> budget_within l b'"
  using assms(2,3)
proof (induction ps arbitrary: b)
  case Nil
  then show ?case by (auto simp: add_all_def instructions_fit_def)
next
  case (Cons p ps)
  have rest: "list_all step_valid (concat (map hp_steps ps))"
    using Cons.prems(2) by (induction ps) auto
  have all: "add_all (map hp_steps (p # ps)) b = add_all (map hp_steps ps) (add_all [hp_steps p] b)"
    by (simp add: add_all_def add_instructions_append) (simp add: add_instructions_def add.assoc)
  have nn: "0 \<le> pb_copied (add_all [hp_steps p] b)"
    using sum_widths_nonneg [of "hp_steps p"] Cons.prems by (simp add: add_all_def add_instructions_def budget_within_def)
  have mono: "budget_within l (add_all (map hp_steps ps) (add_all [hp_steps p] b)) \<Longrightarrow>
      budget_within l (add_all [hp_steps p] b)"
    using sum_widths_nonneg [OF rest] Cons.prems(1) nn
    by (auto simp: add_all_def add_instructions_def budget_within_def)
  have "addPlans l d (p # ps) b = Inr b' \<longleftrightarrow>
      instructions_fit l (hp_steps p) \<and> budget_within l (add_all [hp_steps p] b)
      \<and> addPlans l d ps (add_all [hp_steps p] b) = Inr b'"
    using Cons.prems by (auto simp: res_bind_Inr_iff addSteps_Inr_iff [OF assms(1)])
  then show ?case
    using Cons.IH [of "add_all [hp_steps p] b"] Cons.prems(2) mono
    unfolding all by (auto simp: instructions_fit_append)
qed

text \<open>All steps of a recipe, and when they fit the limits of an applier.\<close>

definition recipe_steps :: "Recipe \<Rightarrow> step list" where
  "recipe_steps r = concat (map hp_steps (rc_headers r)) @ rc_bodySteps r"

definition plan_fits :: "RecipeLimits \<Rightarrow> step list \<Rightarrow> bool" where
  "plan_fits l ss \<longleftrightarrow> instructions_fit l ss
     \<and> int (length ss) \<le> rl_MaxTotalSteps l \<and> int (length (copy_ranges ss)) \<le> rl_MaxCopyRanges l
     \<and> sum_list (map range_width (copy_ranges ss)) \<le> rl_MaxTotalCopiedItems l
     \<and> int (length (literals ss)) \<le> rl_MaxDataStrings l
     \<and> int (length (concat (literals ss))) \<le> rl_MaxTotalLiteralBytes l"

lemma recipe_ok_steps:
  assumes "recipe_ok r"
  shows "list_all (\<lambda>p. list_all step_valid (hp_steps p)) (rc_headers r)"
    "list_all step_valid (rc_bodySteps r)" "list_all step_valid (recipe_steps r)"
  using assms by (auto simp: recipe_ok_def plan_ok_def steps_ok_def recipe_steps_def list.pred_set)

lemma zeroBudget_within: "limits_ok l \<Longrightarrow> budget_within l zeroBudget"
  using limits_ok_plan_bounds [of l] by (simp add: budget_within_def zeroBudget_def)

lemma plan_fits_zero:
  "list_all step_valid ss \<Longrightarrow> plan_fits l ss \<longleftrightarrow>
     instructions_fit l ss \<and> budget_within l (add_all [ss] zeroBudget)"
  using sum_widths_nonneg [of ss]
  by (auto simp: plan_fits_def budget_within_def add_all_def add_instructions_def zeroBudget_def)

lemma validateAllPlanStepBudgets_None_iff:
  assumes "limits_ok l" "recipe_ok r"
  shows "validateAllPlanStepBudgets r l d = None \<longleftrightarrow> plan_fits l (recipe_steps r)"
proof -
  let ?hs = "map hp_steps (rc_headers r)" and ?ss = "rc_bodySteps r"
  note steps = recipe_ok_steps [OF assms(2)]
  note zero = zeroBudget_within [OF assms(1)]
  have all: "add_all [?ss] (add_all ?hs zeroBudget) = add_all [recipe_steps r] zeroBudget"
    by (simp add: add_all_def recipe_steps_def add_instructions_append)
       (simp add: add_instructions_def add.assoc)
  have hs: "list_all step_valid (concat ?hs)" using steps(3) by (simp add: recipe_steps_def)
  have mono: "budget_within l (add_all [?ss] (add_all ?hs zeroBudget)) \<Longrightarrow>
      budget_within l (add_all ?hs zeroBudget)"
    using sum_widths_nonneg [OF hs] sum_widths_nonneg [OF steps(2)]
    by (auto simp: add_all_def add_instructions_def budget_within_def zeroBudget_def)
  have "validateAllPlanStepBudgets r l d = None \<longleftrightarrow>
      (\<exists>b c. addPlans l d (rc_headers r) zeroBudget = Inr b \<and> addSteps l d ?ss b = Inr c)"
    by (auto simp: validateAllPlanStepBudgets_def res_bind_def split: sum.splits)
  also have "\<dots> \<longleftrightarrow> instructions_fit l (concat ?hs) \<and> budget_within l (add_all ?hs zeroBudget)
      \<and> instructions_fit l ?ss \<and> budget_within l (add_all [?ss] (add_all ?hs zeroBudget))"
    using steps by (auto simp: addPlans_Inr_iff [OF assms(1) zero] addSteps_Inr_iff [OF assms(1)])
  also have "\<dots> \<longleftrightarrow> instructions_fit l (recipe_steps r) \<and> budget_within l (add_all [recipe_steps r] zeroBudget)"
    using mono unfolding all by (auto simp: recipe_steps_def instructions_fit_append)
  finally show ?thesis by (simp add: plan_fits_zero [OF steps(3)])
qed

end
