(* ===== verification/Recipe_Body.thy ===== *)
theory Recipe_Body
  imports Recipe_Model
begin

text \<open>
  The applier of package \<open>internal/recipe\<close> (\<open>applier.go\<close>) and its body dimension (\<open>apply_body.go\<close>):
  the preflight of the source lines and of the copy ranges, and the metered emission of lines. The
  lemmas give the emitted octets as a function of the source lines and the steps, and show that the
  emission succeeds exactly when its totals fit the limits.
\<close>

section \<open>The applier (\<open>applier.go\<close>)\<close>

record Applier =
  ap_limits :: RecipeLimits
  ap_rawOptions :: ParserOptions
  ap_initialized :: bool

definition applierOptions :: "RecipeLimits \<Rightarrow> ParserOptions" where
  "applierOptions resolved =
     DefaultParserOptions\<lparr>MaxMessageBytes := rl_MaxStateBytes resolved,
       MaxHeaderBytes := rl_MaxHeaderBytes resolved,
       MaxHeaderFields := rl_MaxHeaderFields resolved,
       MaxHeaderFieldBytes := rl_MaxHeaderFieldBytes resolved,
       MaxHeaderLineBytes := rl_MaxHeaderLineBytes resolved,
       MaxBodyLineBytes := rl_MaxBodyLineBytes resolved,
       MaxBodyLines := rl_MaxBodyLines resolved\<rparr>"

definition NewApplier :: "RecipeLimits \<Rightarrow> (RecipeError, Applier) result" where
  "NewApplier limits =
     res_bind (RecipeLimits_normalized limits) (\<lambda>resolved.
       let options = applierOptions resolved in
       if ParserOptions_Validate options \<noteq> None then Inl (invalidOptionsError [])
       else Inr \<lparr>ap_limits = resolved, ap_rawOptions = options, ap_initialized = True\<rparr>)"

definition Applier_valid :: "Applier \<Rightarrow> bool" where
  "Applier_valid a \<longleftrightarrow> ap_initialized a \<and> RecipeLimits_Validate (ap_limits a) = None
     \<and> ParserOptions_Validate (ap_rawOptions a) = None"

section \<open>Body application (\<open>apply_body.go\<close>)\<close>

record bodyOutput =
  bo_applier :: Applier
  bo_state :: State
  bo_bytes :: bytes
  bo_lines :: int
  bo_framing :: MessageFraming

definition reserveLine :: "int \<Rightarrow> bodyOutput \<Rightarrow> bodyOutput uop" where
  "reserveLine len out =
     (let limits = ap_limits (bo_applier out) in
      case checkedAdd (bo_lines out) 1 of (nextLines, ok) \<Rightarrow>
      if \<not> ok \<or> nextLines > rl_MaxBodyLines limits
      then op_fail (bodyLimitError limitNameMaxBodyLines (rl_MaxBodyLines limits) nextLines)
      else case checkedAdd (int (length (bo_bytes out))) len of (nextBytes, ok) \<Rightarrow>
      if \<not> ok
      then op_fail (bodyLimitError limitNameMaxStateBytes (rl_MaxStateBytes limits) nextBytes)
      else case checkedAdd (int (HeaderBlock_OriginalByteLen (ss_headers (bo_state out)))) 2 of (stateBytes, ok) \<Rightarrow>
      if \<not> ok
      then op_fail (bodyLimitError limitNameMaxStateBytes (rl_MaxStateBytes limits) stateBytes)
      else case checkedAdd stateBytes nextBytes of (stateBytes, ok) \<Rightarrow>
      if \<not> ok \<or> stateBytes > rl_MaxStateBytes limits
      then op_fail (bodyLimitError limitNameMaxStateBytes (rl_MaxStateBytes limits) stateBytes)
      else op_then (chargeItems 1) (op_then (chargeEmitted len)
             (op_return (out\<lparr>bo_lines := nextLines\<rparr>))))"

definition bodyAppendData :: "bytes \<Rightarrow> bodyOutput \<Rightarrow> bodyOutput uop" where
  "bodyAppendData literal out =
     (let limits = ap_limits (bo_applier out) in
      case checkedAdd (int (length literal)) 2 of (len, ok) \<Rightarrow>
      if \<not> ok \<or> int (length literal) > rl_MaxBodyLineBytes limits
      then op_fail (bodyLimitError limitNameMaxBodyLineBytes (rl_MaxBodyLineBytes limits) (int (length literal)))
      else op_bind (reserveLine len out) (\<lambda>out.
             op_return (out\<lparr>bo_bytes := bo_bytes out @ literal @ crlf\<rparr>)))"

definition appendSourceLine :: "Body \<Rightarrow> int \<Rightarrow> bodyOutput \<Rightarrow> bodyOutput uop" where
  "appendSourceLine body lineIndex out =
     (case Body_LineEncodedLen body lineIndex of
        None \<Rightarrow> op_fail invalidStateError
      | Some len \<Rightarrow>
          op_bind (reserveLine (int len) out) (\<lambda>out.
            case Body_LineBytes body lineIndex of
              None \<Rightarrow> op_fail invalidStateError
            | Some encoded \<Rightarrow>
                if length encoded \<noteq> len then op_fail invalidStateError
                else op_return (out\<lparr>bo_bytes := bo_bytes out @ encoded\<rparr>)))"

definition mapRawApplicationError :: "ParserError \<Rightarrow> Dimension \<Rightarrow> RecipeError" where
  "mapRawApplicationError err dimension =
     (if pe_code err = ErrorCodeLimitExceeded
      then (case checkedAdd (det_Limit (pe_details err)) 1 of (actual, ok) \<Rightarrow>
              applicationLimitError dimension (det_LimitName (pe_details err)) (det_Limit (pe_details err))
                (if \<not> ok then det_Limit (pe_details err) else actual))
      else invalidStateError)"

definition bodyFinish :: "bodyOutput \<Rightarrow> (RecipeError, State) result" where
  "bodyFinish out =
     (let limits = ap_limits (bo_applier out);
          separator = (if bo_framing out = MessageFramingDelimited then 2 else 0) in
      case checkedAdd (int (HeaderBlock_OriginalByteLen (ss_headers (bo_state out)))) separator of (stateBytes, ok) \<Rightarrow>
      if \<not> ok
      then Inl (bodyLimitError limitNameMaxStateBytes (rl_MaxStateBytes limits) stateBytes)
      else case checkedAdd stateBytes (int (length (bo_bytes out))) of (stateBytes, ok) \<Rightarrow>
      if \<not> ok \<or> stateBytes > rl_MaxStateBytes limits
      then Inl (bodyLimitError limitNameMaxStateBytes (rl_MaxStateBytes limits) stateBytes)
      else case NewReconstructedBody (bo_bytes out) (ap_rawOptions (bo_applier out)) of
             Inl err \<Rightarrow> Inl (mapRawApplicationError err DimensionBody)
           | Inr body \<Rightarrow> newKnownState (ss_headers (bo_state out)) body (bo_framing out))"

definition recipeHasBodyCopy :: "Recipe \<Rightarrow> bool" where
  "recipeHasBodyCopy recipe \<longleftrightarrow> list_ex (\<lambda>s. snd (snd (copyRange s))) (rc_bodySteps recipe)"

definition validateBodyPlanBudgets :: "Applier \<Rightarrow> Recipe \<Rightarrow> RecipeError option" where
  "validateBodyPlanBudgets a recipe =
     (if int (length (rc_bodySteps recipe)) > rl_MaxBodySteps (ap_limits a)
      then Some (bodyLimitError limitNameMaxBodySteps (rl_MaxBodySteps (ap_limits a))
                   (int (length (rc_bodySteps recipe))))
      else validateAllPlanStepBudgets recipe (ap_limits a) DimensionBody)"

text \<open>The two passes of \<open>validateBodyCopySources\<close>: the emission count, then the unterminated copies.\<close>

definition countEmissions :: "int \<Rightarrow> int \<Rightarrow> step \<Rightarrow> int \<Rightarrow> int uop" where
  "countEmissions sourceLines maxBodyLines instruction emissions =
     (case copyRange instruction of (start, end', copyStep) \<Rightarrow>
        if copyStep then
          (if end' > sourceLines
           then op_fail (newRecipeError RecipeCopyRangeOutOfBounds noLocation
                  (noDetails\<lparr>rdet_Dimension := DimensionBody, rdet_StepKind := StepKindCopy,
                     rdet_Expected := sourceLines, rdet_Actual := end'\<rparr>))
           else op_then (chargeItems (end' - start + 1))
             (case checkedAdd emissions (end' - start + 1) of (emissions, ok) \<Rightarrow>
                if \<not> ok \<or> emissions > maxBodyLines
                then op_fail (bodyLimitError limitNameMaxBodyLines maxBodyLines emissions)
                else op_return emissions))
        else
          (case checkedAdd emissions (int (length (st_data instruction))) of (emissions, ok) \<Rightarrow>
             if \<not> ok \<or> emissions > maxBodyLines
             then op_fail (bodyLimitError limitNameMaxBodyLines maxBodyLines emissions)
             else op_return emissions))"

definition unterminatedCopyError :: "nat \<Rightarrow> int \<Rightarrow> RecipeError" where
  "unterminatedCopyError stepIndex number =
     newRecipeError RecipeInvalidState
       (noLocation\<lparr>rloc_StepIndex := int stepIndex, rloc_BodyLine := number\<rparr>)
       (noDetails\<lparr>rdet_Dimension := DimensionBody, rdet_StepKind := StepKindCopy\<rparr>)"

fun checkCopiedLines ::
    "BodyLine list \<Rightarrow> int \<Rightarrow> nat \<Rightarrow> int list \<Rightarrow> int \<Rightarrow> (RecipeError, int) result" where
  "checkCopiedLines lines emissions stepIndex [] ordinal = Inr ordinal"
| "checkCopiedLines lines emissions stepIndex (number # rest) ordinal =
     (let width = (case BodyLineIndex_Line lines (number - 1) of
                     None \<Rightarrow> 0 | Some line \<Rightarrow> bl_lineEndingWidth line) in
      if width = 0 \<and> ordinal \<noteq> emissions - 1 then Inl (unterminatedCopyError stepIndex number)
      else case checkedAdd ordinal 1 of (ordinal, ok) \<Rightarrow>
        if \<not> ok then Inl invalidStateError
        else checkCopiedLines lines emissions stepIndex rest ordinal)"

fun checkCopies ::
    "BodyLine list \<Rightarrow> int \<Rightarrow> nat \<Rightarrow> step list \<Rightarrow> int \<Rightarrow> (RecipeError, int) result" where
  "checkCopies lines emissions stepIndex [] ordinal = Inr ordinal"
| "checkCopies lines emissions stepIndex (instruction # rest) ordinal =
     (case copyRange instruction of (start, end', copyStep) \<Rightarrow>
        if copyStep then
          res_bind (checkCopiedLines lines emissions stepIndex [start..end'] ordinal)
            (checkCopies lines emissions (Suc stepIndex) rest)
        else
          (case checkedAdd ordinal (int (length (st_data instruction))) of (ordinal, ok) \<Rightarrow>
             if \<not> ok then Inl invalidStateError
             else checkCopies lines emissions (Suc stepIndex) rest ordinal))"

definition validateBodyCopySources :: "Recipe \<Rightarrow> BodyLine list \<Rightarrow> int \<Rightarrow> unit uop" where
  "validateBodyCopySources recipe lines maxBodyLines =
     op_bind (op_each (countEmissions (int (length lines)) maxBodyLines) (rc_bodySteps recipe) 0)
       (\<lambda>emissions. op_bind (op_lift (checkCopies lines emissions 0 (rc_bodySteps recipe) 0))
         (\<lambda>_. op_return ()))"

definition preflightLine :: "Applier \<Rightarrow> BodyLine list \<Rightarrow> nat \<Rightarrow> unit uop" where
  "preflightLine a lines lineIndex =
     (case BodyLineIndex_Line lines (int lineIndex) of
        None \<Rightarrow> op_fail invalidStateError
      | Some line \<Rightarrow>
          op_then (chargeItems 1)
            (let len = int (bl_endOffset line) - int (bl_startOffset line) in
             if len > rl_MaxBodyLineBytes (ap_limits a)
             then op_fail (bodyLimitError limitNameMaxBodyLineBytes (rl_MaxBodyLineBytes (ap_limits a)) len)
             else op_return ()))"

definition preflightKnownBodySource :: "Applier \<Rightarrow> State \<Rightarrow> Recipe \<Rightarrow> BodyLine list uop" where
  "preflightKnownBodySource a current recipe =
     (if ss_availability current \<noteq> BodyAvailabilityKnown then op_fail invalidStateError
      else if int (Body_LineCount (ss_body current)) > rl_MaxBodyLines (ap_limits a)
      then op_fail (bodyLimitError limitNameMaxBodyLines (rl_MaxBodyLines (ap_limits a))
                      (int (Body_LineCount (ss_body current))))
      else
        let lines = bd_lines (ss_body current) in
        op_then (op_each (\<lambda>lineIndex _. preflightLine a lines lineIndex) [0..<length lines] ())
         (op_then (if rc_bodyMode recipe = BodyModeSteps
                   then validateBodyCopySources recipe lines (rl_MaxBodyLines (ap_limits a))
                   else op_return ())
           (op_return lines)))"

definition emitBodyData :: "Applier \<Rightarrow> State \<Rightarrow> Recipe \<Rightarrow> State uop" where
  "emitBodyData a current recipe =
     op_bind (op_each (\<lambda>instruction. op_each bodyAppendData (st_data instruction)) (rc_bodySteps recipe)
               \<lparr>bo_applier = a, bo_state = current, bo_bytes = [], bo_lines = 0,
                bo_framing = MessageFramingDelimited\<rparr>)
       (\<lambda>out. op_lift (bodyFinish out))"

definition applyInstruction :: "Body \<Rightarrow> step \<Rightarrow> bodyOutput \<Rightarrow> bodyOutput uop" where
  "applyInstruction body instruction out =
     (case copyRange instruction of (start, end', copyStep) \<Rightarrow>
        if copyStep
        then op_each (\<lambda>lineNumber. appendSourceLine body (lineNumber - 1)) [start..end'] out
        else op_each bodyAppendData (st_data instruction) out)"

definition applyBodyUsing :: "Applier \<Rightarrow> State \<Rightarrow> Recipe \<Rightarrow> bool \<Rightarrow> State uop" where
  "applyBodyUsing a current recipe sourcePrepared =
     (if \<not> Applier_valid a \<or> \<not> State_Valid current \<or> \<not> Recipe_Valid recipe
      then op_fail invalidStateError
      else op_guard (validateBodyPlanBudgets a recipe)
       (let headerLen = int (HeaderBlock_OriginalByteLen (ss_headers current));
            tooLarge = headerLen > rl_MaxStateBytes (ap_limits a);
            sizeError = bodyLimitError limitNameMaxStateBytes (rl_MaxStateBytes (ap_limits a)) headerLen in
        if rc_bodyMode recipe = BodyModeUnavailable then
          (if tooLarge then op_fail sizeError else op_lift (newUnavailableState (ss_headers current)))
        else if rc_bodyMode recipe = BodyModeAbsent \<and> ss_availability current = BodyAvailabilityUnavailable then
          (if tooLarge then op_fail sizeError else op_return current)
        else if ss_availability current = BodyAvailabilityUnavailable then
          (if recipeHasBodyCopy recipe
           then op_fail (newRecipeError RecipeSourceUnavailable noLocation
                  (noDetails\<lparr>rdet_Dimension := DimensionBody, rdet_StepKind := StepKindCopy\<rparr>))
           else emitBodyData a current recipe)
        else
          op_bind (if \<not> sourcePrepared then preflightKnownBodySource a current recipe else op_return [])
           (\<lambda>_.
             let framing = (if rc_bodyMode recipe = BodyModeSteps then MessageFramingDelimited
                            else ss_framing current);
                 output = \<lparr>bo_applier = a, bo_state = current, bo_bytes = [], bo_lines = 0,
                           bo_framing = framing\<rparr> in
             if rc_bodyMode recipe = BodyModeAbsent then
               op_bind (op_each (\<lambda>lineIndex. appendSourceLine (ss_body current) (int lineIndex))
                          [0..<Body_LineCount (ss_body current)] output)
                 (\<lambda>out. op_lift (bodyFinish out))
             else
               op_bind (op_each (applyInstruction (ss_body current)) (rc_bodySteps recipe) output)
                 (\<lambda>out. op_lift (bodyFinish out)))))"

definition applyBody :: "Applier \<Rightarrow> State \<Rightarrow> Recipe \<Rightarrow> (RecipeError, State) result \<times> Usage" where
  "applyBody a current recipe =
     (case newUsageCounter (ap_limits a) of
        Inl e \<Rightarrow> (Inl e, zeroUsage)
      | Inr c \<Rightarrow>
          (case applyBodyUsing a current recipe False c of (r, c') \<Rightarrow> (r, usageCounter_usage c')))"

section \<open>Emitted lines\<close>

text \<open>
  What a step emits, from the source items and the rendering of a literal: a copy emits the items
  of its one-based inclusive range, a literal step its literals. Both dimensions use it.
\<close>

definition emit_step :: "(bytes \<Rightarrow> 'a) \<Rightarrow> 'a list \<Rightarrow> step \<Rightarrow> 'a list" where
  "emit_step render source s =
     (if st_kind s = StepKindCopy
      then Go_Bytes.slice source (nat (st_copyStart s) - 1) (nat (st_copyEnd s))
      else map render (st_data s))"

definition emit_steps :: "(bytes \<Rightarrow> 'a) \<Rightarrow> 'a list \<Rightarrow> step list \<Rightarrow> 'a list" where
  "emit_steps render source ss = concat (map (emit_step render source) ss)"

definition body_line :: "bytes \<Rightarrow> bytes" where
  "body_line literal = literal @ crlf"

lemma emit_step_simps [simp]:
  "emit_step f src (copy_step a b) = Go_Bytes.slice src (nat a - 1) (nat b)"
  "k \<noteq> StepKindCopy \<Longrightarrow> emit_step f src (literal_step k ds) = map f ds"
  by (simp_all add: emit_step_def copy_step_def literal_step_def)

lemma emit_steps_simps [simp]:
  "emit_steps f src [] = []"
  "emit_steps f src (s # ss) = emit_step f src s @ emit_steps f src ss"
  "emit_steps f src (xs @ ys) = emit_steps f src xs @ emit_steps f src ys"
  by (simp_all add: emit_steps_def)

text \<open>The ranges of a step sequence lie within a source of some length.\<close>

definition copies_within :: "nat \<Rightarrow> step list \<Rightarrow> bool" where
  "copies_within n ss \<longleftrightarrow> (\<forall>r \<in> set (copy_ranges ss). snd r \<le> int n)"

lemma slice_upto:
  assumes "0 < a" "a \<le> b" "b \<le> int (length xs)"
  shows "map (\<lambda>n. xs ! nat (n - 1)) [a..b] = Go_Bytes.slice xs (nat a - 1) (nat b)"
  using assms by (intro nth_equalityI) (auto simp: slice_def nat_diff_distrib nat_add_distrib)

lemma length_emit_step:
  assumes "step_valid s" "copies_within (length src) [s]"
  shows "int (length (emit_step f src s)) = (if st_kind s = StepKindCopy then st_copyEnd s - st_copyStart s + 1
    else int (length (st_data s)))"
  using assms(1)
proof (cases rule: step_valid_cases)
  case (copy a b)
  with assms(2) show ?thesis by (auto simp: copies_within_def slice_def)
qed simp

section \<open>Metering of the emission\<close>

definition output_ready :: "Applier \<Rightarrow> bodyOutput \<Rightarrow> usageCounter \<Rightarrow> bool" where
  "output_ready a out c \<longleftrightarrow>
     bo_applier out = a \<and> counter_ready c \<and> ap_limits a = uc_limits c \<and> 0 \<le> bo_lines out"

definition lines_fit :: "bytes list \<Rightarrow> bodyOutput \<Rightarrow> usageCounter \<Rightarrow> bool" where
  "lines_fit es out c \<longleftrightarrow> es = [] \<or>
     (let l = uc_limits c in
      bo_lines out + int (length es) \<le> rl_MaxBodyLines l
      \<and> int (HeaderBlock_OriginalByteLen (ss_headers (bo_state out))) + 2
         + int (length (bo_bytes out)) + int (length (concat es)) \<le> rl_MaxStateBytes l
      \<and> uc_emittedBytes c + int (length (concat es)) \<le> rl_MaxStateBytes l
      \<and> uc_workUnits c + int (length es) + int (length (concat es)) \<le> rl_MaxOperationWorkUnits l)"

definition put_lines :: "bytes list \<Rightarrow> bodyOutput \<Rightarrow> bodyOutput" where
  "put_lines es out = out\<lparr>bo_bytes := bo_bytes out @ concat es, bo_lines := bo_lines out + int (length es)\<rparr>"

definition tick_lines :: "bytes list \<Rightarrow> usageCounter \<Rightarrow> usageCounter" where
  "tick_lines es c = tick_emitted (length (concat es)) (tick_items (length es) c)"

lemma tick_lines_simps [simp]:
  "uc_limits (tick_lines es c) = uc_limits c"
  "uc_emittedBytes (tick_lines es c) = uc_emittedBytes c + int (length (concat es))"
  "uc_workUnits (tick_lines es c) = uc_workUnits c + int (length es) + int (length (concat es))"
  "uc_items (tick_lines es c) = uc_items c + int (length es)"
  by (simp_all add: tick_lines_def tick_defs)

interpretation body_emission: emission "output_ready a" lines_fit put_lines tick_lines for a
proof
  fix xs ys :: "bytes list" and out c
  assume r: "output_ready a out c"
  show "lines_fit (xs @ ys) out c \<longleftrightarrow> lines_fit xs out c \<and> lines_fit ys (put_lines xs out) (tick_lines xs c)"
    by (cases "xs = []"; cases "ys = []") (auto simp: lines_fit_def Let_def put_lines_def)
next
  fix xs :: "bytes list" and out c
  assume "output_ready a out c"
  then show "output_ready a (put_lines xs out) (tick_lines xs c)"
    by (simp add: output_ready_def put_lines_def tick_lines_def tick_defs counter_ready_def)
qed (auto simp: lines_fit_def put_lines_def tick_lines_def tick_defs)

lemma reserveLine_success:
  assumes "output_ready a out c"
  shows "reserveLine (int n) out c = (Inr out', c') \<longleftrightarrow>
    (\<exists>e. length e = n \<and> lines_fit [e] out c \<and> out' = out\<lparr>bo_lines := bo_lines out + 1\<rparr> \<and> c' = tick_lines [e] c)"
proof -
  let ?l = "uc_limits c"
  let ?h = "int (HeaderBlock_OriginalByteLen (ss_headers (bo_state out)))"
  have l: "limits_ok ?l" "counter_ready c" "ap_limits (bo_applier out) = ?l" "0 \<le> bo_lines out"
    using assms by (simp_all add: output_ready_def counter_ready_def)
  have max: "rl_MaxBodyLines ?l \<le> 2097152" "rl_MaxStateBytes ?l \<le> 134217728"
    using limits_ok_bounds [OF l(1)] by simp_all
  have charge: "op_then (chargeItems 1) (op_then (chargeEmitted (int n)) (op_return v)) c = (Inr out', c') \<longleftrightarrow>
      uc_emittedBytes c + int n \<le> rl_MaxStateBytes ?l \<and> uc_workUnits c + 1 + int n \<le> rl_MaxOperationWorkUnits ?l
      \<and> out' = v \<and> c' = tick_emitted n (tick_items 1 c)" for v
    using l(2) charge_items_success [OF l(2), of 1] charge_emitted_success [of "tick_items 1 c" n]
    by (auto simp: op_then_success)
  have "reserveLine (int n) out c = (Inr out', c') \<longleftrightarrow>
      bo_lines out + 1 \<le> rl_MaxBodyLines ?l \<and> ?h + 2 + (int (length (bo_bytes out)) + int n) \<le> rl_MaxStateBytes ?l
      \<and> op_then (chargeItems 1) (op_then (chargeEmitted (int n)) (op_return (out\<lparr>bo_lines := bo_lines out + 1\<rparr>))) c
        = (Inr out', c')"
    using l(4) max by (auto simp: reserveLine_def Let_def l(3) checkedAdd_def MaxInt_def)
  also have "\<dots> \<longleftrightarrow> lines_fit [replicate n CR] out c \<and> out' = out\<lparr>bo_lines := bo_lines out + 1\<rparr>
      \<and> c' = tick_lines [replicate n CR] c"
    by (auto simp: charge lines_fit_def tick_lines_def Let_def)
  also have "\<dots> \<longleftrightarrow> (\<exists>e. length e = n \<and> lines_fit [e] out c \<and> out' = out\<lparr>bo_lines := bo_lines out + 1\<rparr> \<and> c' = tick_lines [e] c)"
    by (auto simp: lines_fit_def tick_lines_def Let_def intro: exI [of _ "replicate n CR"])
  finally show ?thesis .
qed

lemma reserveLine_for:
  assumes "output_ready a out c"
  shows "reserveLine (int (length e)) out c = (Inr out', c') \<longleftrightarrow>
    lines_fit [e] out c \<and> out' = out\<lparr>bo_lines := bo_lines out + 1\<rparr> \<and> c' = tick_lines [e] c"
  unfolding reserveLine_success [OF assms]
  by (auto simp: lines_fit_def tick_lines_def Let_def)

lemma emits_bodyAppendData:
  "body_emission.emits a (bodyAppendData d) (int (length d) \<le> rl_MaxBodyLineBytes (ap_limits a)) [body_line d]"
  unfolding body_emission.emits_def
proof (intro allI impI)
  fix out c out' c'
  assume r: "output_ready a out c"
  then have a: "bo_applier out = a" "limits_ok (ap_limits a)"
    by (auto simp: output_ready_def counter_ready_def)
  have "rl_MaxBodyLineBytes (ap_limits a) \<le> 998" using limits_ok_bounds [OF a(2)] by simp
  moreover have "int (length d) + 2 = int (length (body_line d))" by (simp add: body_line_def)
  ultimately show "bodyAppendData d out c = (Inr out', c') \<longleftrightarrow>
      int (length d) \<le> rl_MaxBodyLineBytes (ap_limits a) \<and> lines_fit [body_line d] out c
      \<and> out' = put_lines [body_line d] out \<and> c' = tick_lines [body_line d] c"
    using reserveLine_for [OF r, of "body_line d"]
    by (auto simp: bodyAppendData_def Let_def a(1) checkedAdd_def MaxInt_def op_bind_success put_lines_def
        body_line_def add.commute)
qed

text \<open>The line accessors of a constructed body index its physical lines.\<close>

lemma line_spans_nth:
  "i < length ls \<Longrightarrow> line_spans k s ls ! i = line_span (k + i) (s + length (concat (take i ls))) (ls ! i)"
  by (induction ls arbitrary: k s i) (auto simp: nth_Cons' add.assoc gr0_conv_Suc)

lemma line_span_simps:
  "bl_startOffset (line_span k s l) = s" "bl_endOffset (line_span k s l) = s + length (content l)"
  "length (content l) + bl_lineEndingWidth (line_span k s l) = length l"
  "bl_lineEndingWidth (line_span k s l) = 0 \<longleftrightarrow> \<not> terminated l"
  by (auto simp: line_span_def content_def terminated_def HasSuffix_iff)

lemma body_inv_lines: "body_inv b \<Longrightarrow> bd_lines b = line_spans 0 0 (crlf_lines (bd_bytes b))"
  unfolding body_inv_def body_of_def by (metis Body.select_convs(2))

lemma body_line_access:
  assumes "body_inv b" "0 \<le> i" "i < int (length (crlf_lines (bd_bytes b)))"
  shows "Body_LineEncodedLen b i = Some (length (crlf_lines (bd_bytes b) ! nat i))"
    "Body_LineBytes b i = Some (crlf_lines (bd_bytes b) ! nat i)"
proof -
  let ?ls = "crlf_lines (bd_bytes b)"
  have n: "nat i < length ?ls" using assms by simp
  have len: "length (bd_lines b) = length ?ls" by (simp add: body_inv_lines [OF assms(1)])
  show "Body_LineEncodedLen b i = Some (length (?ls ! nat i))"
    using assms n
    by (simp add: Body_LineEncodedLen_def Let_def body_inv_lines [OF assms(1)] line_spans_nth line_span_simps)
  have "lineEncoded b (bd_lines b ! nat i) = ?ls ! nat i"
    using lineEncoded_lines [OF assms(1)] n len by (metis nth_map)
  then show "Body_LineBytes b i = Some (?ls ! nat i)"
    using assms len by (simp add: Body_LineBytes_def)
qed

lemma emits_appendSourceLine:
  assumes "body_inv b"
  shows "body_emission.emits a (appendSourceLine b i) (0 \<le> i \<and> i < int (length (crlf_lines (bd_bytes b))))
    [crlf_lines (bd_bytes b) ! nat i]"
  unfolding body_emission.emits_def
proof (intro allI impI)
  fix out c out' c'
  assume r: "output_ready a out c"
  let ?ls = "crlf_lines (bd_bytes b)"
  show "appendSourceLine b i out c = (Inr out', c') \<longleftrightarrow>
      (0 \<le> i \<and> i < int (length ?ls)) \<and> lines_fit [?ls ! nat i] out c
      \<and> out' = put_lines [?ls ! nat i] out \<and> c' = tick_lines [?ls ! nat i] c"
  proof (cases "0 \<le> i \<and> i < int (length ?ls)")
    case True
    then show ?thesis
      using body_line_access [OF assms, of i] reserveLine_for [OF r, of "?ls ! nat i"]
      by (auto simp: appendSourceLine_def op_bind_success put_lines_def)
  next
    case False
    then have "Body_LineEncodedLen b i = None"
      by (auto simp: Body_LineEncodedLen_def body_inv_lines [OF assms])
    with False show ?thesis by (auto simp: appendSourceLine_def)
  qed
qed

definition data_fit :: "int \<Rightarrow> bytes list \<Rightarrow> bool" where
  "data_fit m ds \<longleftrightarrow> (\<forall>d \<in> set ds. int (length d) \<le> m)"

lemma emits_data_list:
  "body_emission.emits a (op_each bodyAppendData ds) (data_fit (rl_MaxBodyLineBytes (ap_limits a)) ds) (map body_line ds)"
proof -
  have "body_emission.emits a (op_each bodyAppendData ds)
      (\<forall>d \<in> set ds. int (length d) \<le> rl_MaxBodyLineBytes (ap_limits a)) (concat (map (\<lambda>d. [body_line d]) ds))"
    by (rule body_emission.emits_each) (rule emits_bodyAppendData)
  then show ?thesis by (simp add: data_fit_def concat_map_singleton)
qed

lemma emits_instruction:
  assumes "body_inv b" "step_valid s"
  shows "body_emission.emits a (applyInstruction b s)
    (copies_within (length (crlf_lines (bd_bytes b))) [s]
      \<and> data_fit (rl_MaxBodyLineBytes (ap_limits a)) (st_data s))
    (emit_step body_line (crlf_lines (bd_bytes b)) s)"
  using assms(2)
proof (cases rule: step_valid_cases)
  case (copy x y)
  let ?ls = "crlf_lines (bd_bytes b)"
  have fn: "applyInstruction b s = op_each (\<lambda>n. appendSourceLine b (n - 1)) [x..y]"
    by (rule ext) (simp add: applyInstruction_def copy)
  have e: "body_emission.emits a (op_each (\<lambda>n. appendSourceLine b (n - 1)) [x..y])
      (\<forall>n \<in> set [x..y]. 0 \<le> n - 1 \<and> n - 1 < int (length ?ls)) (concat (map (\<lambda>n. [?ls ! nat (n - 1)]) [x..y]))"
    by (rule body_emission.emits_each) (rule emits_appendSourceLine [OF assms(1)])
  have side: "(\<forall>n \<in> set [x..y]. 0 \<le> n - 1 \<and> n - 1 < int (length ?ls)) \<longleftrightarrow> y \<le> int (length ?ls)"
  proof
    assume "\<forall>n \<in> set [x..y]. 0 \<le> n - 1 \<and> n - 1 < int (length ?ls)"
    then have "y - 1 < int (length ?ls)" using copy by simp
    then show "y \<le> int (length ?ls)" by simp
  qed (use copy in auto)
  show ?thesis
  proof (cases "y \<le> int (length ?ls)")
    case True
    then show ?thesis
      using e copy slice_upto [of x y ?ls] unfolding fn side
      by (simp add: concat_map_singleton copies_within_def data_fit_def)
  next
    case False
    with e copy show ?thesis unfolding fn side
      by (simp add: body_emission.emits_def copies_within_def)
  qed
next
  case (literal k ds)
  have "applyInstruction b s = op_each bodyAppendData ds"
    using literal by (intro ext) (simp add: applyInstruction_def)
  then show ?thesis using literal emits_data_list [of a ds] by (simp add: copies_within_def)
qed

lemma emits_instructions:
  assumes "body_inv b" "list_all step_valid ss"
  shows "body_emission.emits a (op_each (applyInstruction b) ss)
    (copies_within (length (crlf_lines (bd_bytes b))) ss
      \<and> data_fit (rl_MaxBodyLineBytes (ap_limits a)) (literals ss))
    (emit_steps body_line (crlf_lines (bd_bytes b)) ss)"
proof -
  let ?ls = "crlf_lines (bd_bytes b)" and ?m = "rl_MaxBodyLineBytes (ap_limits a)"
  have "body_emission.emits a (op_each (applyInstruction b) ss)
      (\<forall>s \<in> set ss. copies_within (length ?ls) [s] \<and> data_fit ?m (st_data s))
      (concat (map (emit_step body_line ?ls) ss))"
    using assms by (intro body_emission.emits_each emits_instruction) (auto simp: list.pred_set)
  moreover have "(\<forall>s \<in> set ss. copies_within (length ?ls) [s] \<and> data_fit ?m (st_data s))
      \<longleftrightarrow> copies_within (length ?ls) ss \<and> data_fit ?m (literals ss)"
    by (auto simp: copies_within_def data_fit_def copy_ranges_def literals_def split: if_splits)
  ultimately show ?thesis by (simp add: emit_steps_def)
qed

lemma emits_all_lines:
  assumes "body_inv b"
  shows "body_emission.emits a (op_each (\<lambda>i. appendSourceLine b (int i)) [0..<Body_LineCount b]) True
    (crlf_lines (bd_bytes b))"
proof -
  let ?ls = "crlf_lines (bd_bytes b)"
  have n: "Body_LineCount b = length ?ls" by (simp add: Body_LineCount_def body_inv_lines [OF assms])
  have "body_emission.emits a (op_each (\<lambda>i. appendSourceLine b (int i)) [0..<length ?ls])
      (\<forall>i \<in> set [0..<length ?ls]. 0 \<le> int i \<and> int i < int (length ?ls))
      (concat (map (\<lambda>i. [?ls ! nat (int i)]) [0..<length ?ls]))"
    by (rule body_emission.emits_each) (rule emits_appendSourceLine [OF assms])
  then show ?thesis by (simp add: n concat_map_singleton map_nth)
qed

end
