(* ===== verification/Recipe_Body_Exact.thy ===== *)
theory Recipe_Body_Exact
  imports Recipe_Body
begin

text \<open>
  When body application succeeds and what it returns: the preflight of \<open>apply_body.go\<close> as conditions
  on the source lines, the copy ranges and the emitted sequence, and the reconstructed body as the
  concatenation of the emitted lines.
\<close>

section \<open>Preflight\<close>

definition content_fit :: "int \<Rightarrow> bytes list \<Rightarrow> bool" where
  "content_fit m ls \<longleftrightarrow> (\<forall>l \<in> set ls. int (length (content l)) \<le> m)"

definition work_room :: "usageCounter \<Rightarrow> bool" where
  "work_room c \<longleftrightarrow> counter_ready c \<and> uc_workUnits c \<le> rl_MaxOperationWorkUnits (uc_limits c)"

lemma preflightLine_success:
  assumes "i < length ls" "counter_ready c"
  shows "preflightLine a (line_spans 0 0 ls) i c = (Inr u, c') \<longleftrightarrow>
    int (length (content (ls ! i))) \<le> rl_MaxBodyLineBytes (ap_limits a)
    \<and> uc_workUnits c + 1 \<le> rl_MaxOperationWorkUnits (uc_limits c) \<and> c' = tick_items 1 c"
  using assms charge_items_success [OF assms(2), of 1]
  by (auto simp: preflightLine_def BodyLineIndex_Line_def op_then_success Let_def line_spans_nth line_span_simps)

lemma preflight_lines_from:
  assumes "set idx \<subseteq> {0..<length ls}" "work_room c"
  shows "op_each (\<lambda>i _. preflightLine a (line_spans 0 0 ls) i) idx () c = (Inr u, c') \<longleftrightarrow>
    (\<forall>i \<in> set idx. int (length (content (ls ! i))) \<le> rl_MaxBodyLineBytes (ap_limits a))
    \<and> uc_workUnits c + int (length idx) \<le> rl_MaxOperationWorkUnits (uc_limits c) \<and> c' = tick_items (length idx) c"
  using assms
proof (induction idx arbitrary: c)
  case Nil
  then show ?case by (auto simp: item_meter.advance_zero work_room_def)
next
  case (Cons i idx)
  have c: "counter_ready c" "i < length ls" using Cons.prems by (auto simp: work_room_def)
  let ?r = "int (length (content (ls ! i))) \<le> rl_MaxBodyLineBytes (ap_limits a)
    \<and> uc_workUnits c + 1 \<le> rl_MaxOperationWorkUnits (uc_limits c)"
  have step: "op_each (\<lambda>i _. preflightLine a (line_spans 0 0 ls) i) (i # idx) () c = (Inr u, c') \<longleftrightarrow>
      ?r \<and> op_each (\<lambda>i _. preflightLine a (line_spans 0 0 ls) i) idx () (tick_items 1 c) = (Inr u, c')"
    using preflightLine_success [OF c(2,1)] by (auto simp: op_bind_success)
  have "?r \<Longrightarrow> work_room (tick_items 1 c)" using c by (simp add: work_room_def)
  then show ?case
    using Cons.IH [of "tick_items 1 c"] Cons.prems(1) unfolding step
    by (auto simp: item_meter.advance_add)
qed

lemma preflight_lines_success:
  assumes "work_room c"
  shows "op_each (\<lambda>i _. preflightLine a (line_spans 0 0 ls) i) [0..<length ls] () c = (Inr u, c') \<longleftrightarrow>
    content_fit (rl_MaxBodyLineBytes (ap_limits a)) ls
    \<and> uc_workUnits c + int (length ls) \<le> rl_MaxOperationWorkUnits (uc_limits c) \<and> c' = tick_items (length ls) c"
proof -
  have "(\<forall>i \<in> set [0..<length ls]. int (length (content (ls ! i))) \<le> m) \<longleftrightarrow> content_fit m ls" for m
    unfolding content_fit_def by (metis atLeastLessThan_iff in_set_conv_nth set_upt zero_le)
  then show ?thesis using preflight_lines_from [of "[0..<length ls]" ls c a u c'] assms by simp
qed

text \<open>The first pass over the steps: bounds, charges and the emission count.\<close>

definition copy_total :: "step list \<Rightarrow> nat" where
  "copy_total ss = nat (sum_list (map range_width (copy_ranges ss)))"

lemma copy_total_simps [simp]:
  "copy_total [] = 0"
  "0 < a \<Longrightarrow> a \<le> b \<Longrightarrow> list_all step_valid ss \<Longrightarrow>
     copy_total (copy_step a b # ss) = nat (b - a + 1) + copy_total ss"
  "k \<noteq> StepKindCopy \<Longrightarrow> copy_total (literal_step k ds # ss) = copy_total ss"
  using sum_widths_nonneg [of ss]
  by (simp_all add: copy_total_def range_width_def nat_add_distrib [symmetric])

lemma length_emit_steps:
  assumes "list_all step_valid ss" "copies_within (length src) ss"
  shows "length (emit_steps f src ss) = copy_total ss + length (literals ss)"
  using assms
proof (induction ss)
  case (Cons s ss)
  have s: "step_valid s" and cw: "copies_within (length src) [s]" "copies_within (length src) ss"
    using Cons.prems by (auto simp: copies_within_def copy_ranges_def)
  note ih = Cons.IH [OF _ cw(2)]
  from s show ?case
  proof (cases rule: step_valid_cases)
    case (copy a b)
    with length_emit_step [OF s cw(1), of f] have "length (emit_step f src s) = nat (b - a + 1)"
      by (metis nat_int step_data_simps(3,5,6))
    with ih Cons.prems(1) copy show ?thesis by (simp del: emit_step_simps)
  next
    case (literal k ds)
    with length_emit_step [OF s cw(1), of f] ih Cons.prems(1) show ?thesis by simp
  qed
qed simp

lemma countEmissions_success:
  assumes "list_all step_valid ss" "work_room c" "0 \<le> e" "e \<le> m" "m \<le> MaxInt"
  shows "op_each (countEmissions (int n) m) ss e c = (Inr e', c') \<longleftrightarrow>
    copies_within n ss \<and> e' = e + int (copy_total ss + length (literals ss)) \<and> e' \<le> m
    \<and> uc_workUnits c + int (copy_total ss) \<le> rl_MaxOperationWorkUnits (uc_limits c)
    \<and> c' = tick_items (copy_total ss) c"
  using assms(1-4)
proof (induction ss arbitrary: e c)
  case Nil
  then show ?case by (auto simp: copies_within_def item_meter.advance_zero work_room_def)
next
  case (Cons s ss)
  have s: "step_valid s" and ss: "list_all step_valid ss" and c: "counter_ready c"
    using Cons.prems by (auto simp: work_room_def)
  from s show ?case
  proof (cases rule: step_valid_cases)
    case (copy a b)
    define w where "w = nat (b - a + 1)"
    have w: "b - a + 1 = int w" using copy by (simp add: w_def)
    let ?r = "b \<le> int n \<and> uc_workUnits c + int w \<le> rl_MaxOperationWorkUnits (uc_limits c) \<and> e + int w \<le> m"
    have step: "op_each (countEmissions (int n) m) (s # ss) e c = (Inr e', c') \<longleftrightarrow>
        ?r \<and> op_each (countEmissions (int n) m) ss (e + int w) (tick_items w c) = (Inr e', c')"
      using charge_items_success [OF c, of w] Cons.prems(3,4) assms(5)
      unfolding copy(1) by (auto simp: countEmissions_def w op_bind_success op_then_success checkedAdd_def)
    have ih: "?r \<Longrightarrow> op_each (countEmissions (int n) m) ss (e + int w) (tick_items w c) = (Inr e', c') \<longleftrightarrow>
        copies_within n ss \<and> e' = e + int w + int (copy_total ss + length (literals ss)) \<and> e' \<le> m
        \<and> uc_workUnits c + int w + int (copy_total ss) \<le> rl_MaxOperationWorkUnits (uc_limits c)
        \<and> c' = tick_items (w + copy_total ss) c"
      using Cons.IH [OF ss, of "tick_items w c" "e + int w"] Cons.prems(3) c
      by (simp add: work_room_def item_meter.advance_add)
    show ?thesis
      using ih copy ss unfolding step by (auto simp: copies_within_def w_def [symmetric])
  next
    case (literal k ds)
    let ?r = "e + int (length ds) \<le> m"
    have step: "op_each (countEmissions (int n) m) (s # ss) e c = (Inr e', c') \<longleftrightarrow>
        ?r \<and> op_each (countEmissions (int n) m) ss (e + int (length ds)) c = (Inr e', c')"
      using Cons.prems(3,4) assms(5) literal
      by (auto simp: countEmissions_def op_bind_success checkedAdd_def)
    then show ?thesis
      using Cons.IH [OF ss Cons.prems(2), of "e + int (length ds)"] Cons.prems(3) literal
      by (auto simp: copies_within_def)
  qed
qed

text \<open>The second pass: an unterminated source line is copied only as the last emission.\<close>

fun only_last :: "int \<Rightarrow> int \<Rightarrow> bytes list \<Rightarrow> bool" where
  "only_last n q [] = True"
| "only_last n q (e # es) = ((terminated e \<or> q = n - 1) \<and> only_last n (q + 1) es)"

lemma only_last_append: "only_last n q (xs @ ys) \<longleftrightarrow> only_last n q xs \<and> only_last n (q + int (length xs)) ys"
  by (induction xs arbitrary: q) (auto simp: ac_simps)

lemma only_last_terminated: "list_all terminated es \<Longrightarrow> only_last n q es"
  by (induction es arbitrary: q) auto

lemma only_last_butlast: "only_last (q + int (length es)) q es \<longleftrightarrow> list_all terminated (butlast es)"
proof (induction es arbitrary: q)
  case (Cons e es)
  then show ?case using Cons.IH [of "q + 1"] by (auto simp: add.assoc)
qed simp

lemma checkCopiedLines_success:
  assumes "set ns \<subseteq> {1..int (length ls)}" "0 \<le> q" "q + int (length ns) \<le> MaxInt"
  shows "checkCopiedLines (line_spans 0 0 ls) n k ns q = Inr q' \<longleftrightarrow>
    q' = q + int (length ns) \<and> only_last n q (map (\<lambda>x. ls ! nat (x - 1)) ns)"
  using assms
proof (induction ns arbitrary: q)
  case (Cons x ns)
  have x: "0 \<le> x - 1" "nat (x - 1) < length ls" using Cons.prems(1) by auto
  have "BodyLineIndex_Line (line_spans 0 0 ls) (x - 1)
      = Some (line_span (nat (x - 1)) (length (concat (take (nat (x - 1)) ls))) (ls ! nat (x - 1)))"
    using x by (auto simp: BodyLineIndex_Line_def line_spans_nth)
  then have step: "checkCopiedLines (line_spans 0 0 ls) n k (x # ns) q = Inr q' \<longleftrightarrow>
      (terminated (ls ! nat (x - 1)) \<or> q = n - 1)
      \<and> checkCopiedLines (line_spans 0 0 ls) n k ns (q + 1) = Inr q'"
    using Cons.prems(2,3) by (auto simp: Let_def line_span_simps checkedAdd_def)
  show ?case
    using Cons.IH [of "q + 1"] Cons.prems unfolding step by auto
qed auto

lemma terminated_body_line [simp]: "terminated (body_line d)"
  by (simp add: body_line_def)

lemma checkCopies_success:
  assumes "list_all step_valid ss" "copies_within (length ls) ss" "0 \<le> q"
    "q + int (length (emit_steps body_line ls ss)) \<le> MaxInt"
  shows "checkCopies (line_spans 0 0 ls) n k ss q = Inr q' \<longleftrightarrow>
    q' = q + int (length (emit_steps body_line ls ss)) \<and> only_last n q (emit_steps body_line ls ss)"
  using assms
proof (induction ss arbitrary: q k)
  case (Cons s ss)
  have s: "step_valid s" and ss: "list_all step_valid ss" "copies_within (length ls) ss"
    and cw: "copies_within (length ls) [s]"
    using Cons.prems by (auto simp: copies_within_def copy_ranges_def)
  let ?e = "emit_step body_line ls s"
  have step: "checkCopies (line_spans 0 0 ls) n k (s # ss) q = Inr q' \<longleftrightarrow>
      only_last n q ?e \<and> checkCopies (line_spans 0 0 ls) n (Suc k) ss (q + int (length ?e)) = Inr q'"
    using s
  proof (cases rule: step_valid_cases)
    case (copy a b)
    have e: "?e = map (\<lambda>x. ls ! nat (x - 1)) [a..b]"
      using copy cw slice_upto [of a b ls] by (simp add: copies_within_def)
    have "set [a..b] \<subseteq> {1..int (length ls)}" using copy cw by (auto simp: copies_within_def)
    then have "checkCopiedLines (line_spans 0 0 ls) n k [a..b] q = Inr r \<longleftrightarrow>
        r = q + int (length ?e) \<and> only_last n q ?e" for r
      unfolding e using checkCopiedLines_success [of "[a..b]" ls q n k r] Cons.prems(3,4) e by simp
    then show ?thesis unfolding copy(1) by (auto simp: res_bind_Inr_iff)
  next
    case (literal k' ds)
    then have "only_last n q ?e" by (auto intro!: only_last_terminated simp: list.pred_set)
    then show ?thesis using literal Cons.prems(3,4) by (auto simp: checkedAdd_def)
  qed
  show ?case
    using Cons.IH [OF ss, of "q + int (length ?e)" "Suc k"] Cons.prems(3,4) unfolding step
    by (auto simp: only_last_append ac_simps)
qed auto

text \<open>Both passes together.\<close>

definition copies_ok :: "int \<Rightarrow> bytes list \<Rightarrow> step list \<Rightarrow> bool" where
  "copies_ok m ls ss \<longleftrightarrow> copies_within (length ls) ss
     \<and> int (length (emit_steps body_line ls ss)) \<le> m
     \<and> list_all terminated (butlast (emit_steps body_line ls ss))"

lemma validateBodyCopySources_success:
  assumes "list_all step_valid (rc_bodySteps r)" "work_room c" "0 \<le> m" "m \<le> MaxInt"
  shows "validateBodyCopySources r (line_spans 0 0 ls) m c = (Inr u, c') \<longleftrightarrow>
    copies_ok m ls (rc_bodySteps r)
    \<and> uc_workUnits c + int (copy_total (rc_bodySteps r)) \<le> rl_MaxOperationWorkUnits (uc_limits c)
    \<and> c' = tick_items (copy_total (rc_bodySteps r)) c"
proof -
  let ?ss = "rc_bodySteps r" and ?E = "emit_steps body_line ls (rc_bodySteps r)"
  have "checkCopies (line_spans 0 0 ls) (int (length ?E)) 0 ?ss 0 = Inr q' \<longleftrightarrow>
      q' = int (length ?E) \<and> list_all terminated (butlast ?E)"
    if "copies_within (length ls) ?ss" "int (length ?E) \<le> m" for q'
    using checkCopies_success [OF assms(1) that(1), of 0 "int (length ?E)" 0 q'] that(2) assms(4)
      only_last_butlast [of 0 ?E] by simp
  then show ?thesis
    using countEmissions_success [OF assms(1,2), of 0 m "length ls"] assms(3,4)
      length_emit_steps [OF assms(1), of ls body_line]
    by (auto simp: validateBodyCopySources_def op_bind_success copies_ok_def)
qed

section \<open>The reconstructed body\<close>

definition known_state :: "HeaderBlock \<Rightarrow> Body \<Rightarrow> MessageFraming \<Rightarrow> State" where
  "known_state h b f = \<lparr>ss_headers = h, ss_body = b, ss_availability = BodyAvailabilityKnown,
     ss_framing = f, ss_initialized = True\<rparr>"

definition unavailable_state :: "HeaderBlock \<Rightarrow> State" where
  "unavailable_state h = \<lparr>ss_headers = h, ss_body = zeroBody, ss_availability = BodyAvailabilityUnavailable,
     ss_framing = MessageFramingDelimited, ss_initialized = True\<rparr>"

text \<open>What every state built by the package satisfies.\<close>

definition state_ok :: "State \<Rightarrow> bool" where
  "state_ok s \<longleftrightarrow> header_block_inv (ss_headers s)
     \<and> (s = unavailable_state (ss_headers s)
        \<or> body_inv (ss_body s) \<and> MessageFraming_Known (ss_framing s)
          \<and> (ss_framing s = MessageFramingHeaderOnly \<longrightarrow> hb_fields (ss_headers s) \<noteq> [] \<and> bd_bytes (ss_body s) = [])
          \<and> s = known_state (ss_headers s) (ss_body s) (ss_framing s))"

lemma known_state_simps [simp]:
  "ss_headers (known_state h b f) = h" "ss_body (known_state h b f) = b" "ss_framing (known_state h b f) = f"
  "ss_availability (known_state h b f) = BodyAvailabilityKnown" "ss_initialized (known_state h b f)"
  "ss_headers (unavailable_state h) = h" "ss_body (unavailable_state h) = zeroBody"
  "ss_framing (unavailable_state h) = MessageFramingDelimited"
  "ss_availability (unavailable_state h) = BodyAvailabilityUnavailable" "ss_initialized (unavailable_state h)"
  by (simp_all add: known_state_def unavailable_state_def)

lemma state_ok_cases [consumes 1, case_names unavailable known]:
  assumes "state_ok s"
  obtains h where "s = unavailable_state h" "header_block_inv h"
  | h b f where "s = known_state h b f" "header_block_inv h" "body_inv b" "MessageFraming_Known f"
      "f = MessageFramingHeaderOnly \<longrightarrow> hb_fields h \<noteq> [] \<and> bd_bytes b = []"
  using assms unfolding state_ok_def by metis

lemma state_ok_known:
  "state_ok (known_state h b f) \<longleftrightarrow> header_block_inv h \<and> body_inv b \<and> MessageFraming_Known f
     \<and> (f = MessageFramingHeaderOnly \<longrightarrow> hb_fields h \<noteq> [] \<and> bd_bytes b = [])"
  by (auto simp: state_ok_def) (simp add: known_state_def unavailable_state_def)+

lemma state_ok_unavailable: "state_ok (unavailable_state h) \<longleftrightarrow> header_block_inv h"
  by (auto simp: state_ok_def)

lemma state_ok_Valid: "state_ok s \<Longrightarrow> State_Valid s"
proof (induct rule: state_ok_cases)
  case (unavailable h)
  then show ?thesis
    by (simp add: State_Valid_def header_block_inv_initialized BodyAvailability_Known_def MessageFraming_Known_def zeroBody_def)
next
  case (known h b f)
  then show ?thesis
    by (simp add: State_Valid_def header_block_inv_initialized body_inv_initialized BodyAvailability_Known_def
        HeaderBlock_Len_def Body_Len_def)
qed

lemma newKnownState_Inr_iff:
  "newKnownState h b f = Inr s \<longleftrightarrow> hb_initialized h \<and> bd_initialized b \<and> MessageFraming_Known f
     \<and> (f = MessageFramingHeaderOnly \<longrightarrow> hb_fields h \<noteq> [] \<and> bd_bytes b = []) \<and> s = known_state h b f"
  by (auto simp: newKnownState_def known_state_def HeaderBlock_Len_def Body_Len_def)

lemma newUnavailableState_Inr_iff:
  "newUnavailableState h = Inr s \<longleftrightarrow> hb_initialized h \<and> s = unavailable_state h"
  by (auto simp: newUnavailableState_def unavailable_state_def)

text \<open>Appliers as the constructor returns them.\<close>

definition applier_ok :: "Applier \<Rightarrow> bool" where
  "applier_ok a \<longleftrightarrow> ap_initialized a \<and> limits_ok (ap_limits a) \<and> ap_rawOptions a = applierOptions (ap_limits a)"

lemma applierOptions_simps [simp]:
  "MaxMessageBytes (applierOptions l) = rl_MaxStateBytes l"
  "MaxHeaderBytes (applierOptions l) = rl_MaxHeaderBytes l"
  "MaxHeaderFields (applierOptions l) = rl_MaxHeaderFields l"
  "MaxHeaderFieldBytes (applierOptions l) = rl_MaxHeaderFieldBytes l"
  "MaxHeaderLineBytes (applierOptions l) = rl_MaxHeaderLineBytes l"
  "MaxBodyLineBytes (applierOptions l) = rl_MaxBodyLineBytes l"
  "MaxBodyLines (applierOptions l) = rl_MaxBodyLines l"
  by (simp_all add: applierOptions_def)

lemma applierOptions_valid: "limits_ok l \<Longrightarrow> ParserOptions_Validate (applierOptions l) = None"
  using limits_ok_bounds [of l]
  by (simp add: ParserOptions_Validate_def applierOptions_def defaultMaxLineBytes_def HardMaxBodyLines_def
      DefaultParserOptions_def)

lemma NewApplier_Inr_iff:
  "NewApplier l = Inr a \<longleftrightarrow> applier_ok a \<and> RecipeLimits_normalized l = Inr (ap_limits a)"
proof -
  have "RecipeLimits_normalized l = Inr r \<Longrightarrow> ParserOptions_Validate (applierOptions r) = None \<and> limits_ok r" for r
    using normalized_limits_ok applierOptions_valid by blast
  then show ?thesis
    by (cases a) (auto simp: NewApplier_def res_bind_Inr_iff Let_def applier_ok_def)
qed

lemma applier_ok_valid: "applier_ok a \<Longrightarrow> Applier_valid a"
  by (simp add: applier_ok_def Applier_valid_def limits_ok_Validate applierOptions_valid)

text \<open>Emitted sequences are lists of physical lines.\<close>

definition lines_ok :: "bytes list \<Rightarrow> bool" where
  "lines_ok es \<longleftrightarrow> list_all (\<lambda>e. e \<noteq> [] \<and> clean (content e)) es \<and> list_all terminated (butlast es)"

lemma clean_line_cases:
  assumes "e \<noteq> []" "clean (content e)"
  obtains (line) x where "e = x @ crlf" "no_crlf x" | (open_end) "no_crlf e" "\<not> terminated e"
proof (cases "terminated e")
  case True
  then obtain x where "e = x @ crlf" by (auto simp: terminated_def HasSuffix_iff)
  with assms(2) line show ?thesis by (simp add: clean_no_crlf)
next
  case False
  with assms(2) open_end show ?thesis by (simp add: content_def clean_no_crlf)
qed

lemma lines_ok_crlf_lines: "lines_ok es \<Longrightarrow> crlf_lines (concat es) = es"
proof (induction es)
  case (Cons e es)
  then have e: "e \<noteq> []" "clean (content e)" by (simp_all add: lines_ok_def)
  have es: "lines_ok es" using Cons.prems by (auto simp: lines_ok_def split: if_splits)
  from e show ?case
  proof (cases rule: clean_line_cases)
    case (line x)
    then show ?thesis using Cons.IH [OF es] by (simp add: crlf_lines_line)
  next
    case open_end
    then have "es = []" using Cons.prems by (auto simp: lines_ok_def split: if_splits)
    with open_end e show ?thesis by (simp add: crlf_lines_plain)
  qed
qed simp

lemma body_inv_lines_ok: "body_inv b \<Longrightarrow> lines_ok (crlf_lines (bd_bytes b))"
  using crlf_lines_nonempty crlf_lines_butlast_terminated
  by (auto simp: body_inv_def lines_ok_def list.pred_set)

lemma body_of_inv: "lines_ok es \<Longrightarrow> body_inv (body_of (concat es))"
  by (simp add: body_inv_def body_of_def lines_ok_crlf_lines) (simp add: lines_ok_def list.pred_set)

lemma slice_set: "set (Go_Bytes.slice xs i j) \<subseteq> set xs"
  using set_take_subset set_drop_subset unfolding slice_def by fast

lemma validLiteral_clean: "validLiteral k d \<Longrightarrow> clean d"
  by (cases k) (auto simp: validLiteral_def validDataLiteral_def validBinaryLiteral_def ContainsAny_def clean_def)

lemma emit_steps_elem:
  assumes "list_all step_valid ss" "e \<in> set (emit_steps f src ss)"
  shows "e \<in> set src \<or> (\<exists>d \<in> set (literals ss). e = f d \<and> clean d)"
  using assms
proof (induction ss)
  case (Cons s ss)
  from Cons.prems(1) have s: "step_valid s" by simp
  from s show ?case
  proof (cases rule: step_valid_cases)
    case (copy a b)
    with Cons slice_set [of src] show ?thesis by auto
  next
    case (literal k ds)
    then have "list_all clean ds" using validLiteral_clean by (auto simp: list.pred_set)
    with literal Cons show ?thesis by (auto simp: list.pred_set)
  qed
qed simp

lemma emission_lines_ok:
  assumes "list_all step_valid ss" "lines_ok ls" "copies_ok m ls ss"
  shows "lines_ok (emit_steps body_line ls ss)"
  using assms emit_steps_elem [OF assms(1), of _ body_line ls]
  by (fastforce simp: lines_ok_def copies_ok_def list.pred_set body_line_def)

lemma emission_content_fit:
  assumes "list_all step_valid ss" "content_fit m ls" "data_fit m (literals ss)"
  shows "content_fit m (emit_steps body_line ls ss)"
  using assms emit_steps_elem [OF assms(1), of _ body_line ls]
  by (fastforce simp: content_fit_def data_fit_def body_line_def)

definition separator_len :: "MessageFraming \<Rightarrow> int" where
  "separator_len f = (if f = MessageFramingDelimited then 2 else 0)"

lemma bodyFinish_success:
  assumes "applier_ok a" "lines_ok es" "header_block_inv (ss_headers st)"
    "out = \<lparr>bo_applier = a, bo_state = st, bo_bytes = concat es, bo_lines = n, bo_framing = f\<rparr>"
  shows "bodyFinish out = Inr s \<longleftrightarrow>
    int (HeaderBlock_OriginalByteLen (ss_headers st)) + separator_len f + int (length (concat es))
      \<le> rl_MaxStateBytes (ap_limits a)
    \<and> int (length es) \<le> rl_MaxBodyLines (ap_limits a) \<and> content_fit (rl_MaxBodyLineBytes (ap_limits a)) es
    \<and> MessageFraming_Known f \<and> (f = MessageFramingHeaderOnly \<longrightarrow> hb_fields (ss_headers st) \<noteq> [] \<and> es = [])
    \<and> s = known_state (ss_headers st) (body_of (concat es)) f"
proof -
  let ?l = "ap_limits a" and ?h = "int (HeaderBlock_OriginalByteLen (ss_headers st))"
  have l: "limits_ok ?l" "ap_rawOptions a = applierOptions ?l" using assms(1) by (simp_all add: applier_ok_def)
  have max: "rl_MaxStateBytes ?l \<le> 134217728" "0 < rl_MaxBodyLines ?l" using limits_ok_bounds [OF l(1)] by simp_all
  have lines: "crlf_lines (concat es) = es" using lines_ok_crlf_lines [OF assms(2)] .
  have nil: "concat es = [] \<longleftrightarrow> es = []" using lines by (metis concat.simps(1) crlf_lines_Nil)
  have ok: "body_ok (applierOptions ?l) (concat es) \<longleftrightarrow>
      int (length es) \<le> rl_MaxBodyLines ?l \<and> content_fit (rl_MaxBodyLineBytes ?l) es"
    using max(2) assms(2) nil by (auto simp: body_ok_def lines content_fit_def lines_ok_def list.pred_set)
  have body: "NewReconstructedBody (concat es) (applierOptions ?l) = Inr b \<longleftrightarrow>
      int (length (concat es)) \<le> rl_MaxStateBytes ?l \<and> body_ok (applierOptions ?l) (concat es) \<and> b = body_of (concat es)" for b
    using applierOptions_valid [OF l(1)] by (simp add: NewReconstructedBody_Inr_iff)
  have known: "newKnownState (ss_headers st) (body_of (concat es)) f = Inr s \<longleftrightarrow>
      MessageFraming_Known f \<and> (f = MessageFramingHeaderOnly \<longrightarrow> hb_fields (ss_headers st) \<noteq> [] \<and> es = [])
      \<and> s = known_state (ss_headers st) (body_of (concat es)) f"
    using assms(3) nil
    by (auto simp: newKnownState_Inr_iff header_block_inv_initialized) (simp_all add: body_of_def)
  let ?S = "?h + separator_len f + int (length (concat es))"
  have "bodyFinish out = Inr s \<longleftrightarrow> ?S \<le> rl_MaxStateBytes ?l
      \<and> (\<exists>b. NewReconstructedBody (concat es) (applierOptions ?l) = Inr b
            \<and> newKnownState (ss_headers st) b f = Inr s)"
    using max(1) unfolding bodyFinish_def assms(4)
    by (auto simp: Let_def separator_len_def l(2) checkedAdd_def MaxInt_def split: sum.splits if_splits)
  moreover have "?S \<le> rl_MaxStateBytes ?l \<Longrightarrow> int (length (concat es)) \<le> rl_MaxStateBytes ?l"
    by (simp add: separator_len_def split: if_splits)
  ultimately show ?thesis using ok known body by auto
qed

section \<open>When body application succeeds\<close>

definition source_lines :: "State \<Rightarrow> bytes list" where
  "source_lines s = crlf_lines (bd_bytes (ss_body s))"

lemma source_lines_unavailable [simp]: "source_lines (unavailable_state h) = []"
  by (simp add: source_lines_def zeroBody_def)

lemma source_lines_known [simp]: "source_lines (known_state h b f) = crlf_lines (bd_bytes b)"
  by (simp add: source_lines_def)

definition source_ok :: "RecipeLimits \<Rightarrow> State \<Rightarrow> Recipe \<Rightarrow> bool" where
  "source_ok l s r \<longleftrightarrow> int (length (source_lines s)) \<le> rl_MaxBodyLines l
     \<and> content_fit (rl_MaxBodyLineBytes l) (source_lines s)
     \<and> (rc_bodyMode r = BodyModeSteps \<longrightarrow> copies_ok (rl_MaxBodyLines l) (source_lines s) (rc_bodySteps r))"

definition preflight_work :: "State \<Rightarrow> Recipe \<Rightarrow> nat" where
  "preflight_work s r = length (source_lines s)
     + (if rc_bodyMode r = BodyModeSteps then copy_total (rc_bodySteps r) else 0)"

lemma preflight_success:
  assumes "applier_ok a" "recipe_ok r" "work_room c" "body_inv b"
  shows "preflightKnownBodySource a (known_state h b f) r c = (Inr u, c') \<longleftrightarrow>
    source_ok (ap_limits a) (known_state h b f) r
    \<and> uc_workUnits c + int (preflight_work (known_state h b f) r) \<le> rl_MaxOperationWorkUnits (uc_limits c)
    \<and> u = bd_lines b \<and> c' = tick_items (preflight_work (known_state h b f) r) c"
proof -
  let ?ls = "crlf_lines (bd_bytes b)" and ?l = "ap_limits a"
  have b: "bd_lines b = line_spans 0 0 ?ls" "Body_LineCount b = length ?ls"
    by (simp_all add: body_inv_lines [OF assms(4)] Body_LineCount_def)
  have l: "0 \<le> rl_MaxBodyLines ?l" "rl_MaxBodyLines ?l \<le> MaxInt"
    using limits_ok_bounds [of ?l] assms(1) by (simp_all add: applier_ok_def MaxInt_def)
  have steps: "list_all step_valid (rc_bodySteps r)" using recipe_ok_steps [OF assms(2)] by simp
  have room: "work_room (tick_items (length ?ls) c)"
    if "uc_workUnits c + int (length ?ls) \<le> rl_MaxOperationWorkUnits (uc_limits c)"
    using that assms(3) by (simp add: work_room_def)
  show ?thesis
    using preflight_lines_success [OF assms(3), of a ?ls] room
      validateBodyCopySources_success [OF steps _ l, of "tick_items (length ?ls) c" ?ls]
    by (auto simp: preflightKnownBodySource_def b op_then_success Let_def source_ok_def preflight_work_def
        item_meter.advance_add not_less add.assoc)
qed

lemma validateBodyPlanBudgets_None_iff:
  assumes "applier_ok a" "recipe_ok r"
  shows "validateBodyPlanBudgets a r = None \<longleftrightarrow>
    int (length (rc_bodySteps r)) \<le> rl_MaxBodySteps (ap_limits a) \<and> plan_fits (ap_limits a) (recipe_steps r)"
  using assms validateAllPlanStepBudgets_None_iff [of "ap_limits a" r]
  by (auto simp: validateBodyPlanBudgets_def applier_ok_def)

text \<open>
  The emitted lines, the framing and the state of a body application, and the totals it must
  respect: the size of the state, the lines, the literals and the work.
\<close>

definition emitted_lines :: "State \<Rightarrow> Recipe \<Rightarrow> bytes list" where
  "emitted_lines s r =
     (if rc_bodyMode r = BodyModeSteps then emit_steps body_line (source_lines s) (rc_bodySteps r)
      else source_lines s)"

definition emitted_framing :: "State \<Rightarrow> Recipe \<Rightarrow> MessageFraming" where
  "emitted_framing s r = (if rc_bodyMode r = BodyModeSteps then MessageFramingDelimited else ss_framing s)"

definition emission_room :: "RecipeLimits \<Rightarrow> State \<Rightarrow> Recipe \<Rightarrow> usageCounter \<Rightarrow> bool" where
  "emission_room l s r c \<longleftrightarrow>
     data_fit (rl_MaxBodyLineBytes l) (literals (rc_bodySteps r))
     \<and> int (length (emitted_lines s r)) \<le> rl_MaxBodyLines l
     \<and> int (HeaderBlock_OriginalByteLen (ss_headers s)) + separator_len (emitted_framing s r)
        + int (length (concat (emitted_lines s r))) \<le> rl_MaxStateBytes l
     \<and> uc_emittedBytes c + int (length (concat (emitted_lines s r))) \<le> rl_MaxStateBytes l
     \<and> uc_workUnits c + int (length (emitted_lines s r)) + int (length (concat (emitted_lines s r)))
        \<le> rl_MaxOperationWorkUnits l"

definition rebuilt :: "State \<Rightarrow> Recipe \<Rightarrow> State" where
  "rebuilt s r = known_state (ss_headers s) (body_of (concat (emitted_lines s r))) (emitted_framing s r)"

lemma emission_finish:
  assumes "applier_ok a" "lines_ok es" "content_fit (rl_MaxBodyLineBytes (ap_limits a)) es"
    "header_block_inv (ss_headers s)" "MessageFraming_Known f"
    "f = MessageFramingHeaderOnly \<Longrightarrow> hb_fields (ss_headers s) \<noteq> [] \<and> es = []"
    "work_room c" "uc_limits c = ap_limits a" "uc_emittedBytes c \<le> rl_MaxStateBytes (ap_limits a)"
    "body_emission.emits a m side es"
  shows "op_bind (m \<lparr>bo_applier = a, bo_state = s, bo_bytes = [], bo_lines = 0, bo_framing = f\<rparr>)
      (\<lambda>out. op_lift (bodyFinish out)) c = (Inr s', c') \<longleftrightarrow>
    side \<and> int (length es) \<le> rl_MaxBodyLines (ap_limits a)
    \<and> int (HeaderBlock_OriginalByteLen (ss_headers s)) + separator_len f + int (length (concat es))
        \<le> rl_MaxStateBytes (ap_limits a)
    \<and> uc_emittedBytes c + int (length (concat es)) \<le> rl_MaxStateBytes (ap_limits a)
    \<and> uc_workUnits c + int (length es) + int (length (concat es)) \<le> rl_MaxOperationWorkUnits (ap_limits a)
    \<and> s' = known_state (ss_headers s) (body_of (concat es)) f \<and> c' = tick_lines es c"
proof -
  let ?out = "\<lparr>bo_applier = a, bo_state = s, bo_bytes = [], bo_lines = 0, bo_framing = f\<rparr>"
  have ready: "output_ready a ?out c" using assms(7,8) by (simp add: output_ready_def work_room_def)
  have put: "put_lines es ?out = \<lparr>bo_applier = a, bo_state = s, bo_bytes = concat es,
      bo_lines = int (length es), bo_framing = f\<rparr>"
    by (simp add: put_lines_def)
  note fin = bodyFinish_success [OF assms(1,2,4) put]
  have "op_bind (m ?out) (\<lambda>out. op_lift (bodyFinish out)) c = (Inr s', c') \<longleftrightarrow>
      side \<and> lines_fit es ?out c \<and> bodyFinish (put_lines es ?out) = Inr s' \<and> c' = tick_lines es c"
    using body_emission.emitsD [OF assms(10) ready] by (auto simp: op_bind_success)
  also have "\<dots> \<longleftrightarrow> side \<and> lines_fit es ?out c
      \<and> int (HeaderBlock_OriginalByteLen (ss_headers s)) + separator_len f + int (length (concat es))
          \<le> rl_MaxStateBytes (ap_limits a)
      \<and> int (length es) \<le> rl_MaxBodyLines (ap_limits a)
      \<and> s' = known_state (ss_headers s) (body_of (concat es)) f \<and> c' = tick_lines es c"
    unfolding fin using assms(3,5,6) by auto
  finally have eq: "op_bind (m ?out) (\<lambda>out. op_lift (bodyFinish out)) c = (Inr s', c') \<longleftrightarrow> \<dots>" .
  have sep: "es \<noteq> [] \<Longrightarrow> separator_len f = 2"
    using assms(5,6) by (auto simp: separator_len_def MessageFraming_Known_def)
  have fit: "lines_fit es ?out c \<longleftrightarrow>
      uc_emittedBytes c + int (length (concat es)) \<le> rl_MaxStateBytes (ap_limits a)
      \<and> uc_workUnits c + int (length es) + int (length (concat es)) \<le> rl_MaxOperationWorkUnits (ap_limits a)"
    if "int (HeaderBlock_OriginalByteLen (ss_headers s)) + separator_len f + int (length (concat es))
          \<le> rl_MaxStateBytes (ap_limits a)" "int (length es) \<le> rl_MaxBodyLines (ap_limits a)"
    using that sep assms(7-9) by (cases "es = []") (auto simp: lines_fit_def Let_def work_room_def)
  show ?thesis unfolding eq using fit by auto
qed

lemma applyBodyUsing_known:
  assumes ok: "applier_ok a" "recipe_ok r" "state_ok s" "s = known_state h b f" "rc_bodyMode r \<noteq> BodyModeUnavailable"
    and src: "source_ok (ap_limits a) s r"
    and c: "work_room c" "uc_limits c = ap_limits a" "uc_emittedBytes c \<le> rl_MaxStateBytes (ap_limits a)"
  shows "applyBodyUsing a s r True c = (Inr s', c') \<longleftrightarrow>
    validateBodyPlanBudgets a r = None \<and> emission_room (ap_limits a) s r c
    \<and> s' = rebuilt s r \<and> c' = tick_lines (emitted_lines s r) c"
proof -
  let ?ls = "crlf_lines (bd_bytes b)" and ?es = "emitted_lines s r" and ?f = "emitted_framing s r"
  let ?m = "rl_MaxBodyLineBytes (ap_limits a)"
  have s: "header_block_inv h" "body_inv b" "MessageFraming_Known f"
      "f = MessageFramingHeaderOnly \<longrightarrow> hb_fields h \<noteq> [] \<and> bd_bytes b = []"
    using ok(3) unfolding ok(4) state_ok_known by auto
  have ss: "list_all step_valid (rc_bodySteps r)" using recipe_ok_steps [OF ok(2)] by simp
  have mode: "rc_bodyMode r = BodyModeSteps \<or> rc_bodyMode r = BodyModeAbsent \<and> rc_bodySteps r = []"
    using ok(2,5) by (auto simp: recipe_ok_def BodyMode_Known_def)
  note valid = applier_ok_valid [OF ok(1)] state_ok_Valid [OF ok(3)]
  have rv: "Recipe_Valid r" using ok(2) by (simp add: Recipe_Valid_iff)
  have ls: "lines_ok ?ls" "content_fit ?m ?ls"
    using body_inv_lines_ok [OF s(2)] src by (simp_all add: source_ok_def ok(4))
  have es: "lines_ok ?es" "data_fit ?m (literals (rc_bodySteps r)) \<Longrightarrow> content_fit ?m ?es"
    using mode ls src emission_lines_ok [OF ss ls(1)] emission_content_fit [OF ss ls(2)]
    by (auto simp: emitted_lines_def source_ok_def ok(4))
  have fr: "MessageFraming_Known ?f" "?f = MessageFramingHeaderOnly \<Longrightarrow> hb_fields h \<noteq> [] \<and> ?es = []"
    using s(3,4) mode by (auto simp: emitted_framing_def emitted_lines_def ok(4) MessageFraming_Known_def)
  define run where "run = (if rc_bodyMode r = BodyModeAbsent
    then op_each (\<lambda>i. appendSourceLine b (int i)) [0..<Body_LineCount b]
    else op_each (applyInstruction b) (rc_bodySteps r))"
  have emits: "body_emission.emits a run (data_fit ?m (literals (rc_bodySteps r))) ?es"
  proof (cases "rc_bodyMode r = BodyModeAbsent")
    case True
    then show ?thesis using emits_all_lines [OF s(2)] mode
      by (simp add: run_def emitted_lines_def ok(4) data_fit_def)
  next
    case False
    then have "copies_within (length ?ls) (rc_bodySteps r)"
      using mode src by (simp add: source_ok_def copies_ok_def ok(4))
    then show ?thesis using emits_instructions [OF s(2) ss, of a] False mode
      by (simp add: run_def emitted_lines_def ok(4))
  qed
  let ?out = "\<lparr>bo_applier = a, bo_state = s, bo_bytes = [], bo_lines = 0, bo_framing = ?f\<rparr>"
  have body: "applyBodyUsing a s r True c = (Inr s', c') \<longleftrightarrow> validateBodyPlanBudgets a r = None
      \<and> op_bind (run ?out) (\<lambda>out. op_lift (bodyFinish out)) c = (Inr s', c')"
    using valid rv mode
    by (auto simp: applyBodyUsing_def op_guard_success Let_def ok(4) run_def emitted_framing_def)
  show ?thesis
  proof (cases "data_fit ?m (literals (rc_bodySteps r))")
    case True
    show ?thesis
      unfolding body using True s(1) fr es(1) es(2) [OF True]
      by (subst emission_finish [OF ok(1) es(1) es(2) [OF True] _ _ _ c emits])
         (auto simp: ok(4) emission_room_def rebuilt_def)
  next
    case False
    have "output_ready a ?out c" using c by (simp add: output_ready_def work_room_def)
    then have "\<not> (\<exists>u d. run ?out c = (Inr u, d))" using False body_emission.emitsD [OF emits] by blast
    then show ?thesis unfolding body using False by (auto simp: emission_room_def op_bind_success)
  qed
qed

lemma emits_all_data:
  assumes "list_all step_valid ss" "copy_ranges ss = []"
  shows "body_emission.emits a (op_each (\<lambda>s. op_each bodyAppendData (st_data s)) ss)
    (data_fit (rl_MaxBodyLineBytes (ap_limits a)) (literals ss)) (emit_steps body_line ls ss)"
proof -
  have eq: "map (\<lambda>s. map body_line (st_data s)) ss = map (emit_step body_line ls) ss"
    using assms(2) by (auto simp: copy_ranges_def emit_step_def split: if_splits)
  have "body_emission.emits a (op_each (\<lambda>s. op_each bodyAppendData (st_data s)) ss)
      (\<forall>s \<in> set ss. data_fit (rl_MaxBodyLineBytes (ap_limits a)) (st_data s))
      (concat (map (\<lambda>s. map body_line (st_data s)) ss))"
    by (rule body_emission.emits_each) (rule emits_data_list)
  then show ?thesis unfolding eq by (simp add: emit_steps_def) (auto simp: data_fit_def literals_def body_emission.emits_def)
qed

lemma recipeHasBodyCopy_iff:
  assumes "list_all step_valid (rc_bodySteps r)"
  shows "recipeHasBodyCopy r \<longleftrightarrow> copy_ranges (rc_bodySteps r) \<noteq> []"
  using assms
  by (auto simp: recipeHasBodyCopy_def copy_ranges_def copyRange_def list_ex_iff list.pred_set step_valid_def
      split: if_splits)

lemma applyBodyUsing_from_literals:
  assumes ok: "applier_ok a" "recipe_ok r" "header_block_inv h" "rc_bodyMode r = BodyModeSteps"
    and s: "s = unavailable_state h" "copy_ranges (rc_bodySteps r) = []"
    and c: "work_room c" "uc_limits c = ap_limits a" "uc_emittedBytes c \<le> rl_MaxStateBytes (ap_limits a)"
  shows "applyBodyUsing a s r p c = (Inr s', c') \<longleftrightarrow>
    validateBodyPlanBudgets a r = None \<and> emission_room (ap_limits a) s r c
    \<and> s' = rebuilt s r \<and> c' = tick_lines (emitted_lines s r) c"
proof -
  let ?ss = "rc_bodySteps r" and ?m = "rl_MaxBodyLineBytes (ap_limits a)"
  let ?es = "emitted_lines s r" and ?run = "op_each (\<lambda>s. op_each bodyAppendData (st_data s)) (rc_bodySteps r)"
  let ?out = "\<lparr>bo_applier = a, bo_state = s, bo_bytes = [], bo_lines = 0, bo_framing = MessageFramingDelimited\<rparr>"
  have ss: "list_all step_valid ?ss" using recipe_ok_steps [OF ok(2)] by simp
  have valid: "Applier_valid a" "State_Valid s" "Recipe_Valid r"
    using applier_ok_valid [OF ok(1)] ok(2,3) state_ok_Valid [of s]
    by (simp_all add: s state_ok_unavailable Recipe_Valid_iff)
  have es: "?es = emit_steps body_line [] ?ss" "emitted_framing s r = MessageFramingDelimited"
    by (simp_all add: emitted_lines_def emitted_framing_def ok(4) s(1))
  have elem: "e \<in> set ?es \<Longrightarrow> \<exists>d \<in> set (literals ?ss). e = body_line d \<and> clean d" for e
    using emit_steps_elem [OF ss, of e body_line "[]"] by (simp add: es)
  have lines: "lines_ok ?es"
    using elem by (fastforce simp: lines_ok_def list.pred_set body_line_def dest: in_set_butlastD)
  have fit: "data_fit ?m (literals ?ss) \<Longrightarrow> content_fit ?m ?es"
    using elem by (fastforce simp: content_fit_def data_fit_def body_line_def)
  have emits: "body_emission.emits a ?run (data_fit ?m (literals ?ss)) ?es"
    unfolding es by (rule emits_all_data [OF ss s(2)])
  have body: "applyBodyUsing a s r p c = (Inr s', c') \<longleftrightarrow> validateBodyPlanBudgets a r = None
      \<and> op_bind (?run ?out) (\<lambda>out. op_lift (bodyFinish out)) c = (Inr s', c')"
    using valid recipeHasBodyCopy_iff [OF ss] s(2)
    by (auto simp: applyBodyUsing_def op_guard_success Let_def ok(4) s(1) emitBodyData_def)
  show ?thesis
  proof (cases "data_fit ?m (literals ?ss)")
    case True
    show ?thesis
      unfolding body using True ok(3)
      by (subst emission_finish [OF ok(1) lines fit [OF True] _ _ _ c emits])
         (auto simp: s(1) emitted_framing_def ok(4) emission_room_def rebuilt_def MessageFraming_Known_def)
  next
    case False
    have "output_ready a ?out c" using c by (simp add: output_ready_def work_room_def)
    then have "\<not> (\<exists>u d. ?run ?out c = (Inr u, d))" using False body_emission.emitsD [OF emits] by blast
    then show ?thesis unfolding body using False by (auto simp: emission_room_def op_bind_success)
  qed
qed

lemma applyBodyUsing_dropped:
  assumes "applier_ok a" "recipe_ok r" "state_ok s"
    "rc_bodyMode r = BodyModeUnavailable \<or> rc_bodyMode r = BodyModeAbsent \<and> s = unavailable_state (ss_headers s)"
  shows "applyBodyUsing a s r p c = (Inr s', c') \<longleftrightarrow>
    validateBodyPlanBudgets a r = None
    \<and> int (HeaderBlock_OriginalByteLen (ss_headers s)) \<le> rl_MaxStateBytes (ap_limits a)
    \<and> s' = unavailable_state (ss_headers s) \<and> c' = c"
proof -
  have "Applier_valid a" "State_Valid s" "Recipe_Valid r" "hb_initialized (ss_headers s)"
    using assms by (auto simp: applier_ok_valid state_ok_Valid Recipe_Valid_iff state_ok_def header_block_inv_initialized)
  moreover have "ss_availability s = BodyAvailabilityUnavailable" if "s = unavailable_state (ss_headers s)"
    using arg_cong [OF that, of ss_availability] by simp
  ultimately show ?thesis
    using assms(4) by (auto simp: applyBodyUsing_def op_guard_success Let_def newUnavailableState_Inr_iff)
qed

lemma rebuilt_ok:
  assumes "applier_ok a" "recipe_ok r" "state_ok s" "rc_bodyMode r \<noteq> BodyModeUnavailable"
    "s \<noteq> unavailable_state (ss_headers s) \<Longrightarrow> source_ok (ap_limits a) s r"
    "s = unavailable_state (ss_headers s) \<Longrightarrow> rc_bodyMode r = BodyModeSteps \<and> copy_ranges (rc_bodySteps r) = []"
  shows "state_ok (rebuilt s r)"
  using assms(3)
proof (cases rule: state_ok_cases)
  case (unavailable h)
  have ss: "list_all step_valid (rc_bodySteps r)" using recipe_ok_steps [OF assms(2)] by simp
  have m: "rc_bodyMode r = BodyModeSteps" "copy_ranges (rc_bodySteps r) = []"
    using assms(6) unavailable by auto
  have "lines_ok (emit_steps body_line [] (rc_bodySteps r))"
    using emit_steps_elem [OF ss, of _ body_line "[]"]
    by (fastforce simp: lines_ok_def list.pred_set body_line_def dest: in_set_butlastD)
  then show ?thesis
    using unavailable m body_of_inv
    by (simp add: rebuilt_def state_ok_known emitted_lines_def emitted_framing_def MessageFraming_Known_def)
next
  case (known h b f)
  have ss: "list_all step_valid (rc_bodySteps r)" using recipe_ok_steps [OF assms(2)] by simp
  have "s \<noteq> unavailable_state (ss_headers s)" using known by (simp add: known_state_def unavailable_state_def)
  then have src: "source_ok (ap_limits a) s r" by (rule assms(5))
  have ls: "lines_ok (crlf_lines (bd_bytes b))" using body_inv_lines_ok known by blast
  have "lines_ok (emitted_lines s r)"
    using ls src emission_lines_ok [OF ss ls] by (auto simp: emitted_lines_def known source_ok_def)
  then show ?thesis
    using known body_of_inv
    by (auto simp: rebuilt_def state_ok_known emitted_lines_def emitted_framing_def MessageFraming_Known_def)
       (simp add: body_of_def)+
qed

end
