(* ===== verification/Recipe_Header.thy ===== *)
theory Recipe_Header
  imports Recipe_Body_Exact
begin

text \<open>
  The header dimension of the applier (\<open>apply_header.go\<close>) and the two entry points of \<open>applier.go\<close>.
  Source fields are grouped by their canonical name; a header recipe emits the groups in name
  order, a mentioned group by walking its steps backwards. Go maps are partial functions; the
  package never ranges over them here.
\<close>

section \<open>Source groups\<close>

record headerGroups =
  hg_groups :: "bytes \<rightharpoonup> bytes list"
  hg_names :: "bytes list"
  hg_source :: "bytes list"
  hg_nameBytes :: int

function physicalHeaderLineLengthOver :: "bytes \<Rightarrow> int \<Rightarrow> int \<times> bool" where
  "physicalHeaderLineLengthOver field limit =
     (if field = [] then (0, False)
      else case Index field crlf of
        None \<Rightarrow> (int (length field), True)
      | Some e \<Rightarrow>
          if int e > limit then (int e, True)
          else physicalHeaderLineLengthOver (drop (e + 2) field) limit)"
  by pat_completeness auto
termination by (relation "measure (length \<circ> fst)") auto

declare physicalHeaderLineLengthOver.simps [simp del]

definition collectField :: "RecipeLimits \<Rightarrow> HeaderField \<Rightarrow> headerGroups \<Rightarrow> headerGroups uop" where
  "collectField limits field acc =
     op_then (chargeItems 1)
      (let original = hf_originalBytes field; name = hf_nameLower field in
       if int (length original) > rl_MaxHeaderFieldBytes limits
       then op_fail (applyLimitError limitNameMaxHeaderFieldBytes (rl_MaxHeaderFieldBytes limits)
                       (int (length original)))
       else case physicalHeaderLineLengthOver original (rl_MaxHeaderLineBytes limits) of (actual, tooLong) \<Rightarrow>
       if tooLong
       then op_fail (applyLimitError limitNameMaxHeaderLineBytes (rl_MaxHeaderLineBytes limits) actual)
       else
         let store = (\<lambda>acc. acc\<lparr>hg_groups := (hg_groups acc)(name \<mapsto>
                        (case hg_groups acc name of None \<Rightarrow> [] | Some fs \<Rightarrow> fs) @ [original]),
                      hg_source := hg_source acc @ [original]\<rparr>) in
         if hg_groups acc name = None then
           (if int (length name) > rl_MaxHeaderNameBytes limits
            then op_fail (applyLimitError limitNameMaxHeaderNameBytes (rl_MaxHeaderNameBytes limits)
                            (int (length name)))
            else if int (length (hg_names acc)) \<ge> rl_MaxHeaderNames limits
            then op_fail (applyLimitError limitNameMaxHeaderNames (rl_MaxHeaderNames limits)
                            (int (length (hg_names acc)) + 1))
            else case checkedAdd (hg_nameBytes acc) (int (length name)) of (nextNameBytes, ok) \<Rightarrow>
              if \<not> ok \<or> nextNameBytes > rl_MaxTotalHeaderNameBytes limits
              then op_fail (applyLimitError limitNameMaxTotalHeaderNameBytes
                              (rl_MaxTotalHeaderNameBytes limits) nextNameBytes)
              else op_return (store (acc\<lparr>hg_nameBytes := nextNameBytes, hg_names := hg_names acc @ [name]\<rparr>)))
         else op_return (store acc))"

definition collectHeaderGroups :: "Applier \<Rightarrow> HeaderBlock \<Rightarrow> headerGroups uop" where
  "collectHeaderGroups a headers =
     (let limits = ap_limits a in
      if int (HeaderBlock_Len headers) > rl_MaxHeaderFields limits
      then op_fail (applyLimitError limitNameMaxHeaderFields (rl_MaxHeaderFields limits)
                      (int (HeaderBlock_Len headers)))
      else if int (HeaderBlock_OriginalByteLen headers) > rl_MaxHeaderBytes limits
      then op_fail (applyLimitError limitNameMaxHeaderBytes (rl_MaxHeaderBytes limits)
                      (int (HeaderBlock_OriginalByteLen headers)))
      else op_each (collectField limits) (hb_fields headers)
             \<lparr>hg_groups = Map.empty, hg_names = [], hg_source = [], hg_nameBytes = 0\<rparr>)"

section \<open>Name order\<close>

text \<open>The inner loop of the insertion sort: \<open>names\<close> is the array, \<open>position\<close> the open slot.\<close>

fun insertNameLoop :: "bytes \<Rightarrow> nat \<Rightarrow> bytes list \<Rightarrow> (bytes list \<times> nat) uop" where
  "insertNameLoop candidate 0 names = op_return (names, 0)"
| "insertNameLoop candidate (Suc p) names =
     op_then (chargeWork 1)
      (if names ! p \<le> candidate then op_return (names, Suc p)
       else insertNameLoop candidate p (names[Suc p := names ! p]))"

definition insertName :: "nat \<Rightarrow> bytes list \<Rightarrow> bytes list uop" where
  "insertName index names =
     op_bind (insertNameLoop (names ! index) index names)
       (\<lambda>(names', position). op_return (names'[position := names ! index]))"

definition sortHeaderNames :: "bytes list \<Rightarrow> bytes list uop" where
  "sortHeaderNames names = op_each insertName [1..<length names] names"

section \<open>Output\<close>

record headerOutput =
  ho_applier :: Applier
  ho_current :: State
  ho_encoded :: "bytes list"
  ho_headerBytes :: int
  ho_enforceState :: bool

definition stateBytes :: "headerOutput \<Rightarrow> int \<Rightarrow> int \<Rightarrow> int \<times> bool" where
  "stateBytes out headerBytes headerFields =
     (let current = ho_current out in
      if ss_availability current \<noteq> BodyAvailabilityKnown then (headerBytes, True)
      else case (if ss_framing current = MessageFramingDelimited
                    \<or> ss_framing current = MessageFramingHeaderOnly \<and> headerFields = 0
                 then checkedAdd (int (Body_Len (ss_body current))) 2
                 else (int (Body_Len (ss_body current)), True)) of (base, ok) \<Rightarrow>
        if \<not> ok then (base, False) else checkedAdd headerBytes base)"

definition reserveField :: "int \<Rightarrow> bytes option \<Rightarrow> headerOutput \<Rightarrow> headerOutput uop" where
  "reserveField len field out =
     (let limits = ap_limits (ho_applier out) in
      case checkedAdd (int (length (ho_encoded out))) 1 of (nextFields, ok) \<Rightarrow>
      if \<not> ok \<or> nextFields > rl_MaxHeaderFields limits
      then op_fail (applyLimitError limitNameMaxHeaderFields (rl_MaxHeaderFields limits) nextFields)
      else if len > rl_MaxHeaderFieldBytes limits
      then op_fail (applyLimitError limitNameMaxHeaderFieldBytes (rl_MaxHeaderFieldBytes limits) len)
      else case (case field of None \<Rightarrow> (0, False)
                 | Some f \<Rightarrow> physicalHeaderLineLengthOver f (rl_MaxHeaderLineBytes limits)) of (actual, tooLong) \<Rightarrow>
      if tooLong
      then op_fail (applyLimitError limitNameMaxHeaderLineBytes (rl_MaxHeaderLineBytes limits) actual)
      else case checkedAdd (ho_headerBytes out) len of (nextHeaderBytes, ok) \<Rightarrow>
      if \<not> ok \<or> nextHeaderBytes > rl_MaxHeaderBytes limits
      then op_fail (applyLimitError limitNameMaxHeaderBytes (rl_MaxHeaderBytes limits) nextHeaderBytes)
      else case (if ho_enforceState out then stateBytes out nextHeaderBytes nextFields else (0, True)) of (size', ok) \<Rightarrow>
      if \<not> ok \<or> size' > rl_MaxStateBytes limits
      then op_fail (applyLimitError limitNameMaxStateBytes (rl_MaxStateBytes limits) size')
      else op_then (chargeItems 1) (op_then (chargeEmitted len)
             (op_return (out\<lparr>ho_headerBytes := nextHeaderBytes\<rparr>))))"

definition appendField :: "bytes \<Rightarrow> headerOutput \<Rightarrow> headerOutput uop" where
  "appendField field out =
     op_bind (reserveField (int (length field)) (Some field) out) (\<lambda>out.
       op_return (out\<lparr>ho_encoded := ho_encoded out @ [field]\<rparr>))"

definition headerAppendData :: "bytes \<Rightarrow> bytes \<Rightarrow> headerOutput \<Rightarrow> headerOutput uop" where
  "headerAppendData name literal out =
     (let limits = ap_limits (ho_applier out) in
      case checkedAdd (int (length name)) 1 of (nameAndColon, ok) \<Rightarrow>
      if \<not> ok
      then op_fail (applyLimitError limitNameMaxHeaderLineBytes (rl_MaxHeaderLineBytes limits) nameAndColon)
      else case checkedAdd nameAndColon (int (length literal)) of (lineLength, ok) \<Rightarrow>
      if \<not> ok \<or> lineLength > rl_MaxHeaderLineBytes limits
      then op_fail (applyLimitError limitNameMaxHeaderLineBytes (rl_MaxHeaderLineBytes limits) lineLength)
      else case checkedAdd lineLength 2 of (fieldLength, ok) \<Rightarrow>
      if \<not> ok
      then op_fail (applyLimitError limitNameMaxHeaderFieldBytes (rl_MaxHeaderFieldBytes limits) fieldLength)
      else op_bind (reserveField fieldLength None out) (\<lambda>out.
             op_return (out\<lparr>ho_encoded := ho_encoded out @ [name @ [CHR '':''] @ literal @ crlf]\<rparr>)))"

definition headerCopyStep :: "nat \<Rightarrow> bytes list \<Rightarrow> int \<Rightarrow> int \<Rightarrow> headerOutput \<times> int \<Rightarrow> (headerOutput \<times> int) uop" where
  "headerCopyStep stepIndex fs start end' acc =
     (case acc of (out, totalCopied) \<Rightarrow>
      let limits = ap_limits (ho_applier out); items = end' - start + 1 in
      if end' > int (length fs)
      then op_fail (newRecipeError RecipeCopyRangeOutOfBounds (noLocation\<lparr>rloc_StepIndex := int stepIndex\<rparr>)
             (noDetails\<lparr>rdet_Dimension := DimensionHeader, rdet_StepKind := StepKindCopy,
                rdet_Expected := int (length fs), rdet_Actual := end'\<rparr>))
      else if items > rl_MaxCopiedItemsPerRange limits
      then op_fail (applyLimitError limitNameMaxCopiedItemsPerRange (rl_MaxCopiedItemsPerRange limits) items)
      else case checkedAdd totalCopied items of (nextCopied, ok) \<Rightarrow>
      if \<not> ok \<or> nextCopied > rl_MaxTotalCopiedItems limits
      then op_fail (applyLimitError limitNameMaxTotalCopiedItems (rl_MaxTotalCopiedItems limits) nextCopied)
      else op_then (chargeItems items)
        (op_bind (op_each (\<lambda>occurrence. appendField (fs ! nat (int (length fs) - occurrence)))
                    (rev [start..end']) out)
          (\<lambda>out. op_return (out, nextCopied))))"

definition headerPlanStep ::
    "bytes list \<Rightarrow> bytes \<Rightarrow> nat \<times> step \<Rightarrow> headerOutput \<times> int \<Rightarrow> (headerOutput \<times> int) uop" where
  "headerPlanStep fs name entry acc =
     (case entry of (stepIndex, instruction) \<Rightarrow>
      case copyRange instruction of (start, end', copyStep) \<Rightarrow>
        if copyStep then headerCopyStep stepIndex fs start end' acc
        else op_bind (op_each (headerAppendData name) (rev (st_data instruction)) (fst acc))
               (\<lambda>out. op_return (out, snd acc)))"

definition appendHeaderPlan ::
    "bytes list \<Rightarrow> headerPlan \<Rightarrow> headerOutput \<times> int \<Rightarrow> (headerOutput \<times> int) uop" where
  "appendHeaderPlan fs plan acc =
     op_each (headerPlanStep fs (hp_name plan)) (rev (zip [0..<length (hp_steps plan)] (hp_steps plan))) acc"

definition headerFinish :: "headerOutput \<Rightarrow> (RecipeError, State) result" where
  "headerFinish out =
     (let limits = ap_limits (ho_applier out); current = ho_current out in
      case (if ho_enforceState out then stateBytes out (ho_headerBytes out) (int (length (ho_encoded out)))
            else (0, True)) of (size', ok) \<Rightarrow>
      if \<not> ok \<or> size' > rl_MaxStateBytes limits
      then Inl (applyLimitError limitNameMaxStateBytes (rl_MaxStateBytes limits) size')
      else case NewReconstructedHeaderBlock (ho_encoded out) (ap_rawOptions (ho_applier out)) of
        Inl err \<Rightarrow> Inl (mapRawApplicationError err DimensionHeader)
      | Inr headers \<Rightarrow>
          if ss_availability current = BodyAvailabilityUnavailable then newUnavailableState headers
          else newKnownState headers (ss_body current)
                 (if ss_framing current = MessageFramingHeaderOnly \<and> HeaderBlock_Len headers = 0
                  then MessageFramingDelimited else ss_framing current))"

section \<open>Header application\<close>

fun headerBudgetLoop :: "RecipeLimits \<Rightarrow> headerPlan list \<Rightarrow> int \<Rightarrow> planBudgetAccumulator \<Rightarrow> RecipeError option" where
  "headerBudgetLoop limits [] totalNames b = None"
| "headerBudgetLoop limits (plan # plans) totalNames b =
     (if int (length (hp_name plan)) > rl_MaxHeaderNameBytes limits
      then Some (applyLimitError limitNameMaxHeaderNameBytes (rl_MaxHeaderNameBytes limits)
                   (int (length (hp_name plan))))
      else case checkedAdd totalNames (int (length (hp_name plan))) of (totalNames, ok) \<Rightarrow>
      if \<not> ok \<or> totalNames > rl_MaxTotalHeaderNameBytes limits
      then Some (applyLimitError limitNameMaxTotalHeaderNameBytes (rl_MaxTotalHeaderNameBytes limits) totalNames)
      else if int (length (hp_steps plan)) > rl_MaxStepsPerHeader limits
      then Some (applyLimitError limitNameMaxStepsPerHeader (rl_MaxStepsPerHeader limits)
                   (int (length (hp_steps plan))))
      else case addSteps limits DimensionHeader (hp_steps plan) b of
             Inl e \<Rightarrow> Some e
           | Inr b' \<Rightarrow> headerBudgetLoop limits plans totalNames b')"

definition validateHeaderPlanBudgets :: "Applier \<Rightarrow> Recipe \<Rightarrow> RecipeError option" where
  "validateHeaderPlanBudgets a recipe =
     (if \<not> rc_hasHeaderRecipe recipe then None
      else if int (length (rc_headers recipe)) > rl_MaxHeaderNames (ap_limits a)
      then Some (applyLimitError limitNameMaxHeaderNames (rl_MaxHeaderNames (ap_limits a))
                   (int (length (rc_headers recipe))))
      else headerBudgetLoop (ap_limits a) (rc_headers recipe) 0 zeroBudget)"

text \<open>The loop that adds the planned names that no source field has.\<close>

fun planNames ::
    "RecipeLimits \<Rightarrow> headerPlan list \<Rightarrow> (bytes \<rightharpoonup> headerPlan) \<Rightarrow> headerGroups
       \<Rightarrow> (RecipeError, (bytes \<rightharpoonup> headerPlan) \<times> headerGroups) result" where
  "planNames limits [] plans acc = Inr (plans, acc)"
| "planNames limits (plan # rest) plans acc =
     (let plans = plans(hp_canonicalName plan \<mapsto> plan) in
      if hg_groups acc (hp_canonicalName plan) \<noteq> None then planNames limits rest plans acc
      else if int (length (hg_names acc)) \<ge> rl_MaxHeaderNames limits
      then Inl (applyLimitError limitNameMaxHeaderNames (rl_MaxHeaderNames limits)
                  (int (length (hg_names acc)) + 1))
      else case checkedAdd (hg_nameBytes acc) (int (length (hp_name plan))) of (nextNameBytes, ok) \<Rightarrow>
        if \<not> ok \<or> nextNameBytes > rl_MaxTotalHeaderNameBytes limits
        then Inl (applyLimitError limitNameMaxTotalHeaderNameBytes (rl_MaxTotalHeaderNameBytes limits) nextNameBytes)
        else planNames limits rest plans
               (acc\<lparr>hg_nameBytes := nextNameBytes,
                    hg_groups := (hg_groups acc)(hp_canonicalName plan \<mapsto> []),
                    hg_names := hg_names acc @ [hp_canonicalName plan]\<rparr>))"

definition emitGroup ::
    "(bytes \<rightharpoonup> bytes list) \<Rightarrow> (bytes \<rightharpoonup> headerPlan) \<Rightarrow> bytes \<Rightarrow> headerOutput \<times> int \<Rightarrow> (headerOutput \<times> int) uop" where
  "emitGroup groups plans canonicalName acc =
     (let fs = (case groups canonicalName of None \<Rightarrow> [] | Some fs \<Rightarrow> fs) in
      case plans canonicalName of
        None \<Rightarrow> op_bind (op_each appendField fs (fst acc)) (\<lambda>out. op_return (out, snd acc))
      | Some plan \<Rightarrow> appendHeaderPlan fs plan acc)"

definition applyHeadersUsing :: "Applier \<Rightarrow> State \<Rightarrow> Recipe \<Rightarrow> bool \<Rightarrow> State uop" where
  "applyHeadersUsing a current recipe enforceState =
     (if \<not> Applier_valid a \<or> \<not> State_Valid current \<or> \<not> Recipe_Valid recipe
      then op_fail invalidStateError
      else op_guard (validateHeaderPlanBudgets a recipe)
       (op_bind (collectHeaderGroups a (ss_headers current)) (\<lambda>acc.
         let output = \<lparr>ho_applier = a, ho_current = current, ho_encoded = [], ho_headerBytes = 0,
                       ho_enforceState = enforceState\<rparr> in
         if \<not> rc_hasHeaderRecipe recipe then
           op_bind (op_each appendField (hg_source acc) output) (\<lambda>out. op_lift (headerFinish out))
         else
           op_bind (op_lift (planNames (ap_limits a) (rc_headers recipe) Map.empty acc)) (\<lambda>(plans, acc).
             op_bind (sortHeaderNames (hg_names acc)) (\<lambda>names.
               op_bind (op_each (emitGroup (hg_groups acc) plans) names (output, 0)) (\<lambda>(out, _).
                 op_lift (headerFinish out)))))))"

definition applyHeaders :: "Applier \<Rightarrow> State \<Rightarrow> Recipe \<Rightarrow> (RecipeError, State) result \<times> Usage" where
  "applyHeaders a current recipe =
     (case newUsageCounter (ap_limits a) of
        Inl e \<Rightarrow> (Inl e, zeroUsage)
      | Inr c \<Rightarrow>
          (case applyHeadersUsing a current recipe True c of (r, c') \<Rightarrow> (r, usageCounter_usage c')))"

section \<open>Whole application (\<open>applier.go\<close>)\<close>

definition sourceUnavailableError :: RecipeError where
  "sourceUnavailableError = newRecipeError RecipeSourceUnavailable noLocation
     (noDetails\<lparr>rdet_Dimension := DimensionBody, rdet_StepKind := StepKindCopy\<rparr>)"

definition applySteps :: "Applier \<Rightarrow> State \<Rightarrow> Recipe \<Rightarrow> State uop" where
  "applySteps a current recipe =
     (if \<not> Applier_valid a \<or> \<not> State_Valid current \<or> \<not> Recipe_Valid recipe
      then op_fail invalidStateError
      else op_guard (validateHeaderPlanBudgets a recipe)
       (op_guard (validateBodyPlanBudgets a recipe)
         (if ss_availability current = BodyAvailabilityUnavailable \<and> recipeHasBodyCopy recipe
          then op_fail sourceUnavailableError
          else
            op_bind (if ss_availability current = BodyAvailabilityKnown
                        \<and> rc_bodyMode recipe \<noteq> BodyModeUnavailable
                     then op_bind (preflightKnownBodySource a current recipe) (\<lambda>_. op_return True)
                     else op_return False)
             (\<lambda>sourcePrepared.
               op_bind (applyHeadersUsing a current recipe (rc_bodyMode recipe = BodyModeAbsent))
                (\<lambda>headerState. applyBodyUsing a headerState recipe sourcePrepared)))))"

definition metered :: "Applier \<Rightarrow> State uop \<Rightarrow> (RecipeError, State) result \<times> Usage" where
  "metered a m =
     (case newUsageCounter (ap_limits a) of
        Inl e \<Rightarrow> (Inl e, zeroUsage)
      | Inr c \<Rightarrow> (case m c of (r, c') \<Rightarrow> (r, usageCounter_usage c')))"

definition Apply :: "Applier \<Rightarrow> State \<Rightarrow> Recipe \<Rightarrow> (RecipeError, State) result \<times> Usage" where
  "Apply a current recipe = metered a (applySteps a current recipe)"

definition ApplyHistorical :: "Applier \<Rightarrow> State \<Rightarrow> Recipe \<Rightarrow> (RecipeError, State) result \<times> Usage" where
  "ApplyHistorical a current recipe =
     (if BodyState current \<noteq> BodyAvailabilityUnavailable \<or> \<not> recipeHasBodyCopy recipe
      then Apply a current recipe
      else metered a
        (if \<not> Applier_valid a \<or> \<not> State_Valid current \<or> \<not> Recipe_Valid recipe
         then op_fail invalidStateError
         else op_guard (validateHeaderPlanBudgets a recipe)
          (op_guard (validateBodyPlanBudgets a recipe)
            (op_bind (applyHeadersUsing a current recipe False) (\<lambda>headerState.
               if BodyState headerState \<noteq> BodyAvailabilityUnavailable then op_fail invalidStateError
               else op_return headerState)))))"

end
