(* ===== verification/Recipe_Groups.thy ===== *)
theory Recipe_Groups
  imports Recipe_Header Go_Sort
begin

text \<open>
  The source groups of header application and their order (\<open>apply_header.go\<close>): collecting the
  fields yields, for every name, its fields from top to bottom and the names in the order of their
  first occurrence; the charged insertion sort returns the sorted names and its comparisons have a
  closed form.
\<close>

section \<open>Physical lines\<close>

lemma physicalHeaderLineLengthOver_iff:
  assumes "d = [] \<or> terminated d"
  shows "snd (physicalHeaderLineLengthOver d m) \<longleftrightarrow> \<not> content_fit m (crlf_lines d)"
  using assms
proof (induction d rule: crlf_induct)
  case Nil
  then show ?case by (simp add: physicalHeaderLineLengthOver.simps content_fit_def)
next
  case (plain x)
  then show ?case by (simp add: not_terminated_plain)
next
  case (line x r)
  then have r: "r = [] \<or> terminated r" using terminated_tail by blast
  have "physicalHeaderLineLengthOver (x @ crlf @ r) m
      = (if int (length x) > m then (int (length x), True) else physicalHeaderLineLengthOver r m)"
    using line.hyps by (subst physicalHeaderLineLengthOver.simps) (simp add: Index_crlf_line)
  then show ?case
    using line.IH [OF r] line.hyps by (auto simp: crlf_lines_line content_fit_def)
qed

definition source_field_fits :: "RecipeLimits \<Rightarrow> HeaderField \<Rightarrow> bool" where
  "source_field_fits l f \<longleftrightarrow> int (length (hf_originalBytes f)) \<le> rl_MaxHeaderFieldBytes l
     \<and> content_fit (rl_MaxHeaderLineBytes l) (crlf_lines (hf_originalBytes f))"

lemma source_field_fits_iff: "source_field_fits l f \<longleftrightarrow> field_fits (applierOptions l) f"
  by (simp add: source_field_fits_def field_fits_def content_fit_def)

section \<open>Collected groups\<close>

definition field_group :: "HeaderField list \<Rightarrow> bytes \<Rightarrow> bytes list" where
  "field_group fs n = map hf_originalBytes (filter (\<lambda>f. hf_nameLower f = n) fs)"

definition field_names :: "HeaderField list \<Rightarrow> bytes list" where
  "field_names fs = rev (remdups (rev (map hf_nameLower fs)))"

lemma field_names_simps [simp]:
  "field_names [] = []"
  "field_names (fs @ [f]) = (if hf_nameLower f \<in> hf_nameLower ` set fs then field_names fs
     else field_names fs @ [hf_nameLower f])"
  by (simp_all add: field_names_def)

lemma set_field_names [simp]: "set (field_names fs) = hf_nameLower ` set fs"
  by (simp add: field_names_def)

lemma distinct_field_names [simp]: "distinct (field_names fs)"
  by (simp add: field_names_def)

lemma field_names_append_prefix: "\<exists>ns. field_names (fs @ gs) = field_names fs @ ns"
proof (induction gs rule: rev_induct)
  case (snoc g gs)
  then obtain ns where "field_names (fs @ gs) = field_names fs @ ns" by blast
  then have "field_names ((fs @ gs) @ [g]) = field_names fs @ ns \<or>
      field_names ((fs @ gs) @ [g]) = field_names fs @ ns @ [hf_nameLower g]"
    unfolding field_names_simps(2) by simp
  then show ?case unfolding append_assoc by blast
qed simp

definition groups_of :: "HeaderField list \<Rightarrow> headerGroups" where
  "groups_of fs =
     \<lparr>hg_groups = (\<lambda>n. if n \<in> hf_nameLower ` set fs then Some (field_group fs n) else None),
      hg_names = field_names fs, hg_source = map hf_originalBytes fs,
      hg_nameBytes = int (length (concat (field_names fs)))\<rparr>"

definition names_fit :: "RecipeLimits \<Rightarrow> bytes list \<Rightarrow> bool" where
  "names_fit l ns \<longleftrightarrow> int (length ns) \<le> rl_MaxHeaderNames l
     \<and> (\<forall>n \<in> set ns. int (length n) \<le> rl_MaxHeaderNameBytes l)
     \<and> int (length (concat ns)) \<le> rl_MaxTotalHeaderNameBytes l"

lemma names_fit_append: "names_fit l (xs @ ys) \<Longrightarrow> names_fit l xs"
  by (auto simp: names_fit_def)

lemma groups_of_snoc:
  "groups_of (fs @ [f]) = (let n = hf_nameLower f; g = hf_originalBytes f; a = groups_of fs in
     if n \<in> hf_nameLower ` set fs
     then a\<lparr>hg_groups := (hg_groups a)(n \<mapsto> field_group fs n @ [g]), hg_source := hg_source a @ [g]\<rparr>
     else a\<lparr>hg_groups := (hg_groups a)(n \<mapsto> [g]), hg_source := hg_source a @ [g],
            hg_names := field_names fs @ [n], hg_nameBytes := hg_nameBytes a + int (length n)\<rparr>)"
  by (auto simp: groups_of_def Let_def field_group_def fun_eq_iff image_iff filter_empty_conv)

lemma collectField_success:
  assumes "header_field_inv f" "counter_ready c" "uc_limits c = l" "names_fit l (field_names fs)"
  shows "collectField l f (groups_of fs) c = (Inr acc, c') \<longleftrightarrow>
    source_field_fits l f \<and> names_fit l (field_names (fs @ [f]))
    \<and> uc_workUnits c + 1 \<le> rl_MaxOperationWorkUnits l
    \<and> acc = groups_of (fs @ [f]) \<and> c' = tick_items 1 c"
proof -
  have l: "rl_MaxTotalHeaderNameBytes l \<le> 16384"
    using assms(2,3) limits_ok_bounds [of l] by (auto simp: counter_ready_def)
  have "\<not> snd (physicalHeaderLineLengthOver (hf_originalBytes f) (rl_MaxHeaderLineBytes l)) \<longleftrightarrow>
      content_fit (rl_MaxHeaderLineBytes l) (crlf_lines (hf_originalBytes f))"
    using physicalHeaderLineLengthOver_iff header_field_terminated [OF assms(1)] by simp
  then have over: "content_fit (rl_MaxHeaderLineBytes l) (crlf_lines (hf_originalBytes f)) \<longleftrightarrow>
      (\<exists>n. physicalHeaderLineLengthOver (hf_originalBytes f) (rl_MaxHeaderLineBytes l) = (n, False))"
    by (cases "physicalHeaderLineLengthOver (hf_originalBytes f) (rl_MaxHeaderLineBytes l)") auto
  show ?thesis
  proof (cases "hf_nameLower f \<in> hf_nameLower ` set fs")
    case True
    then have "hg_groups (groups_of fs) (hf_nameLower f) = Some (field_group fs (hf_nameLower f))"
      by (simp add: groups_of_def)
    then show ?thesis
      using True charge_items_success [OF assms(2), of 1] assms(3,4)
      by (auto simp: collectField_def Let_def op_then_success source_field_fits_def over groups_of_snoc
          split: prod.splits)
  next
    case False
    then have none: "hg_groups (groups_of fs) (hf_nameLower f) = None"
      "hg_names (groups_of fs) = field_names fs"
      "hg_nameBytes (groups_of fs) = int (length (concat (field_names fs)))"
      by (simp_all add: groups_of_def)
    have fit: "names_fit l (field_names (fs @ [f])) \<longleftrightarrow>
        int (length (hf_nameLower f)) \<le> rl_MaxHeaderNameBytes l
        \<and> \<not> int (length (field_names fs)) \<ge> rl_MaxHeaderNames l
        \<and> int (length (concat (field_names fs))) + int (length (hf_nameLower f)) \<le> rl_MaxTotalHeaderNameBytes l"
      using False assms(4) by (auto simp: names_fit_def)
    show ?thesis
      unfolding fit
      using False charge_items_success [OF assms(2), of 1] assms(3) l
      by (auto simp: collectField_def Let_def op_then_success source_field_fits_def over groups_of_snoc none
          checkedAdd_def MaxInt_def split: prod.splits)
  qed
qed

lemma collectFields_from:
  assumes "\<forall>f \<in> set gs. header_field_inv f" "work_room c" "uc_limits c = l" "names_fit l (field_names fs)"
  shows "op_each (collectField l) gs (groups_of fs) c = (Inr acc, c') \<longleftrightarrow>
    (\<forall>f \<in> set gs. source_field_fits l f) \<and> names_fit l (field_names (fs @ gs))
    \<and> uc_workUnits c + int (length gs) \<le> rl_MaxOperationWorkUnits l
    \<and> acc = groups_of (fs @ gs) \<and> c' = tick_items (length gs) c"
  using assms
proof (induction gs arbitrary: fs c)
  case Nil
  then show ?case by (auto simp: work_room_def item_meter.advance_zero)
next
  case (Cons g gs)
  let ?r = "source_field_fits l g \<and> names_fit l (field_names (fs @ [g])) \<and> uc_workUnits c + 1 \<le> rl_MaxOperationWorkUnits l"
  have step: "op_each (collectField l) (g # gs) (groups_of fs) c = (Inr acc, c') \<longleftrightarrow>
      ?r \<and> op_each (collectField l) gs (groups_of (fs @ [g])) (tick_items 1 c) = (Inr acc, c')"
    using collectField_success [of g c l fs] Cons.prems by (auto simp: op_bind_success work_room_def)
  have mono: "names_fit l (field_names (fs @ g # gs)) \<Longrightarrow> names_fit l (field_names (fs @ [g]))"
    using field_names_append_prefix [of "fs @ [g]" gs] names_fit_append by fastforce
  have room: "?r \<Longrightarrow> work_room (tick_items 1 c)" using Cons.prems by (simp add: work_room_def)
  show ?case
    using Cons.IH [of "tick_items 1 c" "fs @ [g]"] Cons.prems(1,3) room mono unfolding step
    by (auto simp: item_meter.advance_add)
qed

definition source_headers_ok :: "RecipeLimits \<Rightarrow> HeaderBlock \<Rightarrow> bool" where
  "source_headers_ok l h \<longleftrightarrow> int (length (hb_fields h)) \<le> rl_MaxHeaderFields l
     \<and> int (HeaderBlock_OriginalByteLen h) \<le> rl_MaxHeaderBytes l
     \<and> (\<forall>f \<in> set (hb_fields h). source_field_fits l f) \<and> names_fit l (field_names (hb_fields h))"

lemma collectHeaderGroups_success:
  assumes "applier_ok a" "header_block_inv h" "work_room c" "uc_limits c = ap_limits a"
  shows "collectHeaderGroups a h c = (Inr acc, c') \<longleftrightarrow>
    source_headers_ok (ap_limits a) h
    \<and> uc_workUnits c + int (length (hb_fields h)) \<le> rl_MaxOperationWorkUnits (ap_limits a)
    \<and> acc = groups_of (hb_fields h) \<and> c' = tick_items (length (hb_fields h)) c"
proof -
  have fs: "\<forall>f \<in> set (hb_fields h). header_field_inv f" using header_block_inv_fields [OF assms(2)] by simp
  have empty: "\<lparr>hg_groups = Map.empty, hg_names = [], hg_source = [], hg_nameBytes = 0\<rparr> = groups_of []"
    by (simp add: groups_of_def)
  have "names_fit (ap_limits a) (field_names [])"
    using assms(1) limits_ok_bounds [of "ap_limits a"] by (simp add: names_fit_def applier_ok_def)
  then show ?thesis
    using collectFields_from [OF fs assms(3,4), of "[]"]
    by (auto simp: collectHeaderGroups_def Let_def empty source_headers_ok_def HeaderBlock_Len_def)
qed

section \<open>The charged insertion sort\<close>

text \<open>Comparisons of one insertion into a sorted prefix, and of the whole sort.\<close>

definition insert_comparisons :: "bytes \<Rightarrow> bytes list \<Rightarrow> nat" where
  "insert_comparisons x xs = min (length xs) (Suc (length (filter (\<lambda>y. x < y) xs)))"

fun sort_comparisons :: "bytes list \<Rightarrow> bytes list \<Rightarrow> nat" where
  "sort_comparisons before [] = 0"
| "sort_comparisons before (x # xs) = insert_comparisons x before + sort_comparisons (before @ [x]) xs"

lemma insort_snoc:
  assumes "sorted (xs @ [y])"
  shows "insort x (xs @ [y]) = (if y \<le> x then xs @ [y, x] else insort x xs @ [y])"
proof -
  have s: "insort x (xs @ [y]) = sort (x # xs @ [y])" using assms by (simp add: sorted_sort_id)
  show ?thesis
  proof (cases "y \<le> x")
    case True
    with assms have "sorted (xs @ [y, x])" by (auto simp: sorted_append)
    then have "sort (x # xs @ [y]) = xs @ [y, x]" by (intro properties_for_sort) simp_all
    with s True show ?thesis by simp
  next
    case False
    with assms have "sorted (insort x xs @ [y])"
      by (auto simp: sorted_append sorted_insort set_insort_key)
    then have "sort (x # xs @ [y]) = insort x xs @ [y]" by (intro properties_for_sort) simp_all
    with s False show ?thesis by simp
  qed
qed

lemma insert_comparisons_snoc:
  assumes "sorted (xs @ [y])"
  shows "insert_comparisons x (xs @ [y]) = (if y \<le> x then 1 else Suc (insert_comparisons x xs))"
proof (cases "y \<le> x")
  case True
  with assms have "filter (\<lambda>z. x < z) (xs @ [y]) = []" by (auto simp: sorted_append filter_empty_conv)
  with True show ?thesis by (simp add: insert_comparisons_def)
qed (auto simp: insert_comparisons_def)

lemma insertNameLoop_success:
  assumes "sorted xs" "work_room c"
  shows "(\<exists>ns p. insertNameLoop x (length xs) (xs @ z # rest) c = (Inr (ns, p), c') \<and> out = ns[p := x]) \<longleftrightarrow>
    uc_workUnits c + int (insert_comparisons x xs) \<le> rl_MaxOperationWorkUnits (uc_limits c)
    \<and> out = insort x xs @ rest \<and> c' = tick_work (insert_comparisons x xs) c"
  using assms
proof (induction xs arbitrary: z rest c rule: rev_induct)
  case Nil
  then show ?case
    by (auto simp: insert_comparisons_def work_room_def work_meter.advance_zero)
next
  case (snoc y xs)
  have c: "counter_ready c" using snoc.prems by (simp add: work_room_def)
  have xs: "sorted xs" using snoc.prems(1) by (simp add: sorted_append)
  have len: "length (xs @ [y]) = Suc (length xs)" by simp
  have nth: "((xs @ [y]) @ z # rest) ! length xs = y" by (simp add: nth_append)
  have upd: "((xs @ [y]) @ z # rest)[Suc (length xs) := v] = xs @ y # v # rest" for v
    by (simp add: list_update_append)
  note charge = charge_work_success [OF c, of 1]
  show ?case
  proof (cases "y \<le> x")
    case True
    then show ?thesis
      using charge upd insort_snoc [OF snoc.prems(1), of x] insert_comparisons_snoc [OF snoc.prems(1), of x]
      unfolding len insertNameLoop.simps nth by (auto simp: op_then_success)
  next
    case False
    let ?r = "uc_workUnits c + 1 \<le> rl_MaxOperationWorkUnits (uc_limits c)"
    have "(\<exists>ns p. insertNameLoop x (Suc (length xs)) ((xs @ [y]) @ z # rest) c = (Inr (ns, p), c') \<and> out = ns[p := x])
        \<longleftrightarrow> ?r \<and> (\<exists>ns p. insertNameLoop x (length xs) (xs @ y # y # rest) (tick_work 1 c) = (Inr (ns, p), c')
            \<and> out = ns[p := x])"
      using charge False unfolding insertNameLoop.simps nth upd by (auto simp: op_then_success)
    moreover have "?r \<Longrightarrow> work_room (tick_work 1 c)" using c by (simp add: work_room_def)
    ultimately show ?thesis
      using snoc.IH [OF xs, of "tick_work 1 c" y "y # rest"] False
        insort_snoc [OF snoc.prems(1), of x] insert_comparisons_snoc [OF snoc.prems(1), of x]
      unfolding len by (auto simp: work_meter.advance_add)
  qed
qed

lemma insert_comparisons_mset: "mset xs = mset ys \<Longrightarrow> insert_comparisons x xs = insert_comparisons x ys"
  unfolding insert_comparisons_def by (metis mset_filter size_mset)

lemma sortHeaderNames_from:
  assumes "sorted xs" "mset xs = mset before" "work_room c" "1 \<le> length xs"
  shows "op_each insertName [length xs..<length xs + length ys] (xs @ ys) c = (Inr out, c') \<longleftrightarrow>
    uc_workUnits c + int (sort_comparisons before ys) \<le> rl_MaxOperationWorkUnits (uc_limits c)
    \<and> out = sort (xs @ ys) \<and> c' = tick_work (sort_comparisons before ys) c"
  using assms
proof (induction ys arbitrary: xs before c)
  case Nil
  then show ?case by (auto simp: work_room_def work_meter.advance_zero sorted_sort_id)
next
  case (Cons y ys)
  let ?k = "insert_comparisons y before"
  let ?r = "uc_workUnits c + int ?k \<le> rl_MaxOperationWorkUnits (uc_limits c)"
  have k: "insert_comparisons y xs = ?k" using insert_comparisons_mset [OF Cons.prems(2)] .
  have one: "insertName (length xs) (xs @ y # ys) c = (Inr v, d) \<longleftrightarrow> ?r \<and> v = insort y xs @ ys \<and> d = tick_work ?k c" for v d
    using insertNameLoop_success [OF Cons.prems(1,3), of y y ys d v]
    by (auto simp: insertName_def op_bind_success k split: prod.splits)
  have upt: "[length xs..<length xs + length (y # ys)] = length xs # [Suc (length xs)..<Suc (length xs) + length ys]"
    by (subst upt_conv_Cons) simp_all
  have step: "op_each insertName [length xs..<length xs + length (y # ys)] (xs @ y # ys) c = (Inr out, c') \<longleftrightarrow>
      ?r \<and> op_each insertName [length (insort y xs)..<length (insort y xs) + length ys] (insort y xs @ ys) (tick_work ?k c)
        = (Inr out, c')"
    unfolding upt op_each.simps op_bind_success [where m = "insertName (length xs) (xs @ y # ys)"] one by auto
  have room: "?r \<Longrightarrow> work_room (tick_work ?k c)" using Cons.prems(3) by (simp add: work_room_def)
  have ih: "?r \<Longrightarrow> op_each insertName [length (insort y xs)..<length (insort y xs) + length ys] (insort y xs @ ys) (tick_work ?k c)
        = (Inr out, c') \<longleftrightarrow>
      uc_workUnits c + int ?k + int (sort_comparisons (before @ [y]) ys) \<le> rl_MaxOperationWorkUnits (uc_limits c)
      \<and> out = sort (insort y xs @ ys) \<and> c' = tick_work (?k + sort_comparisons (before @ [y]) ys) c"
    using Cons.IH [of "insort y xs" "before @ [y]" "tick_work ?k c"] room Cons.prems(1,2)
    by (simp add: sorted_insort work_meter.advance_add del: upt_Suc)
  have "sort (insort y xs @ ys) = sort (xs @ y # ys)"
    by (rule properties_for_sort [symmetric]) simp_all
  then show ?case unfolding step using ih by auto
qed

lemma sortHeaderNames_success:
  assumes "work_room c"
  shows "sortHeaderNames ns c = (Inr out, c') \<longleftrightarrow>
    uc_workUnits c + int (sort_comparisons [] ns) \<le> rl_MaxOperationWorkUnits (uc_limits c)
    \<and> out = sort ns \<and> c' = tick_work (sort_comparisons [] ns) c"
proof (cases ns)
  case Nil
  with assms show ?thesis by (auto simp: sortHeaderNames_def work_meter.advance_zero work_room_def)
next
  case (Cons n ms)
  have "insert_comparisons n [] = 0" by (simp add: insert_comparisons_def)
  then show ?thesis
    using sortHeaderNames_from [of "[n]" "[n]" c ms out c'] assms by (simp add: sortHeaderNames_def Cons)
qed

end
