(* ===== verification/Recipe_Header_Exact.thy ===== *)
theory Recipe_Header_Exact
  imports Recipe_Groups
begin

text \<open>
  When header application succeeds and what it returns (\<open>apply_header.go\<close>). The emission of fields
  and the announcement of copied items share one metered sequence; a planned group emits the
  reverse of its bottom-up step sequence, and the reconstructed block is the block of the emitted
  fields.
\<close>

section \<open>Metered fields and copies\<close>

definition header_line :: "bytes \<Rightarrow> bytes \<Rightarrow> bytes" where
  "header_line name literal = name @ CHR '':'' # literal @ crlf"

text \<open>An item is an emitted field or a number of items announced by a copy step.\<close>

definition item_fields :: "(bytes + nat) list \<Rightarrow> bytes list" where
  "item_fields es = concat (map (case_sum (\<lambda>f. [f]) (\<lambda>_. [])) es)"

definition item_copies :: "(bytes + nat) list \<Rightarrow> nat" where
  "item_copies es = sum_list (map (case_sum (\<lambda>_. 0) (\<lambda>n. n)) es)"

lemma item_simps [simp]:
  "item_fields [] = []" "item_fields (Inl f # es) = f # item_fields es" "item_fields (Inr n # es) = item_fields es"
  "item_fields (xs @ ys) = item_fields xs @ item_fields ys" "item_fields (map Inl fs) = fs"
  "item_copies [] = 0" "item_copies (Inl f # es) = item_copies es" "item_copies (Inr n # es) = n + item_copies es"
  "item_copies (xs @ ys) = item_copies xs + item_copies ys" "item_copies (map Inl fs) = 0"
  by (simp_all add: item_fields_def item_copies_def comp_def)

definition state_base :: "State \<Rightarrow> int" where
  "state_base s = (if ss_availability s = BodyAvailabilityKnown
     then int (Body_Len (ss_body s)) + separator_len (ss_framing s) else 0)"

definition header_ready :: "Applier \<Rightarrow> State \<Rightarrow> bool \<Rightarrow> headerOutput \<times> int \<Rightarrow> usageCounter \<Rightarrow> bool" where
  "header_ready a s enf acc c \<longleftrightarrow> (case acc of (out, k) \<Rightarrow>
     ho_applier out = a \<and> ho_current out = s \<and> ho_enforceState out = enf
     \<and> work_room c \<and> ap_limits a = uc_limits c
     \<and> ho_headerBytes out = int (length (concat (ho_encoded out)))
     \<and> int (length (ho_encoded out)) \<le> rl_MaxHeaderFields (uc_limits c)
     \<and> ho_headerBytes out \<le> rl_MaxHeaderBytes (uc_limits c)
     \<and> uc_emittedBytes c \<le> rl_MaxStateBytes (uc_limits c)
     \<and> 0 \<le> k \<and> k \<le> rl_MaxTotalCopiedItems (uc_limits c))"

definition items_fit :: "(bytes + nat) list \<Rightarrow> headerOutput \<times> int \<Rightarrow> usageCounter \<Rightarrow> bool" where
  "items_fit es acc c \<longleftrightarrow> (case acc of (out, k) \<Rightarrow>
     let fs = item_fields es; n = int (length (concat fs)); l = uc_limits c in
     int (length (ho_encoded out)) + int (length fs) \<le> rl_MaxHeaderFields l
     \<and> ho_headerBytes out + n \<le> rl_MaxHeaderBytes l
     \<and> (ho_enforceState out \<and> fs \<noteq> [] \<longrightarrow> ho_headerBytes out + n + state_base (ho_current out) \<le> rl_MaxStateBytes l)
     \<and> uc_emittedBytes c + n \<le> rl_MaxStateBytes l
     \<and> uc_workUnits c + int (length fs) + n + int (item_copies es) \<le> rl_MaxOperationWorkUnits l
     \<and> k + int (item_copies es) \<le> rl_MaxTotalCopiedItems l)"

definition put_items :: "(bytes + nat) list \<Rightarrow> headerOutput \<times> int \<Rightarrow> headerOutput \<times> int" where
  "put_items es acc = (case acc of (out, k) \<Rightarrow>
     (out\<lparr>ho_encoded := ho_encoded out @ item_fields es,
          ho_headerBytes := ho_headerBytes out + int (length (concat (item_fields es)))\<rparr>,
      k + int (item_copies es)))"

definition tick_header :: "(bytes + nat) list \<Rightarrow> usageCounter \<Rightarrow> usageCounter" where
  "tick_header es c = tick_items (item_copies es) (tick_lines (item_fields es) c)"

lemma tick_header_simps [simp]:
  "uc_limits (tick_header es c) = uc_limits c"
  "uc_emittedBytes (tick_header es c) = uc_emittedBytes c + int (length (concat (item_fields es)))"
  "uc_workUnits (tick_header es c)
     = uc_workUnits c + int (length (item_fields es)) + int (length (concat (item_fields es))) + int (item_copies es)"
  "counter_ready c \<Longrightarrow> counter_ready (tick_header es c)"
  by (simp_all add: tick_header_def tick_lines_def)

interpretation header_emission: emission "header_ready a s enf" items_fit put_items tick_header for a s enf
proof
  fix xs ys acc c
  assume "header_ready a s enf acc c"
  then show "items_fit (xs @ ys) acc c \<longleftrightarrow> items_fit xs acc c \<and> items_fit ys (put_items xs acc) (tick_header xs c)"
    by (cases acc) (auto simp: items_fit_def put_items_def Let_def header_ready_def)
next
  fix xs acc c
  assume "header_ready a s enf acc c" "items_fit xs acc c"
  then show "header_ready a s enf (put_items xs acc) (tick_header xs c)"
    by (cases acc) (auto simp: items_fit_def put_items_def Let_def header_ready_def work_room_def)
qed (auto simp: items_fit_def put_items_def tick_header_def tick_lines_def tick_defs header_ready_def
      work_room_def Let_def split: prod.splits)

text \<open>Operations on the output alone, inside the pair with the copy total.\<close>

definition on_output :: "(headerOutput \<Rightarrow> headerOutput uop) \<Rightarrow> headerOutput \<times> int \<Rightarrow> (headerOutput \<times> int) uop" where
  "on_output m acc = (case acc of (out, k) \<Rightarrow> op_bind (m out) (\<lambda>out. op_return (out, k)))"

lemma stateBytes_iff:
  assumes "0 \<le> hb" "0 < n" "m \<le> 134217728"
  shows "(case stateBytes out hb n of (v, ok) \<Rightarrow> \<not> (\<not> ok \<or> v > m)) \<longleftrightarrow> hb + state_base (ho_current out) \<le> m"
  using assms
  by (auto simp: stateBytes_def Let_def state_base_def separator_len_def checkedAdd_def MaxInt_def)

lemma reserveField_success:
  assumes ready: "header_ready a s enf (out, k) c"
    and line: "case fo of None \<Rightarrow> True | Some g \<Rightarrow> g = f \<and> terminated f"
  shows "reserveField (int (length f)) fo out c = (Inr out', c') \<longleftrightarrow>
    int (length f) \<le> rl_MaxHeaderFieldBytes (ap_limits a)
    \<and> (fo \<noteq> None \<longrightarrow> content_fit (rl_MaxHeaderLineBytes (ap_limits a)) (crlf_lines f))
    \<and> items_fit [Inl f] (out, k) c
    \<and> out' = out\<lparr>ho_headerBytes := ho_headerBytes out + int (length f)\<rparr> \<and> c' = tick_header [Inl f] c"
proof -
  let ?l = "uc_limits c"
  have r: "ap_limits (ho_applier out) = ?l" "ap_limits a = ?l" "ho_current out = s" "counter_ready c"
      "ho_headerBytes out \<le> rl_MaxHeaderBytes ?l" "0 \<le> ho_headerBytes out"
      "int (length (ho_encoded out)) \<le> rl_MaxHeaderFields ?l" "k \<le> rl_MaxTotalCopiedItems ?l"
    using ready by (auto simp: header_ready_def work_room_def)
  have l: "limits_ok ?l" using r(4) by (simp add: counter_ready_def)
  have max: "rl_MaxHeaderFields ?l \<le> 2000" "rl_MaxHeaderBytes ?l \<le> 1048576" "rl_MaxStateBytes ?l \<le> 134217728"
    "rl_MaxHeaderFieldBytes ?l \<le> 65536"
    using limits_ok_bounds [OF l] by simp_all
  define over where "over = (case fo of None \<Rightarrow> (0, False)
    | Some g \<Rightarrow> physicalHeaderLineLengthOver g (rl_MaxHeaderLineBytes ?l))"
  have over: "snd over \<longleftrightarrow> fo \<noteq> None \<and> \<not> content_fit (rl_MaxHeaderLineBytes ?l) (crlf_lines f)"
    using line physicalHeaderLineLengthOver_iff [of f] by (cases fo) (auto simp: over_def)
  define st where "st = (if ho_enforceState out
    then stateBytes out (ho_headerBytes out + int (length f)) (int (length (ho_encoded out)) + 1) else (0, True))"
  have st: "(\<not> snd st \<or> fst st > rl_MaxStateBytes ?l) \<longleftrightarrow>
      \<not> (ho_enforceState out \<longrightarrow> ho_headerBytes out + int (length f) + state_base s \<le> rl_MaxStateBytes ?l)"
    using stateBytes_iff [of "ho_headerBytes out + int (length f)" "int (length (ho_encoded out)) + 1"
        "rl_MaxStateBytes ?l" out] r(3,6) max(3) limits_ok_bounds [OF l]
    by (auto simp: st_def split: prod.splits)
  have charge: "op_then (chargeItems 1) (op_then (chargeEmitted (int (length f))) (op_return v)) c = (Inr out', c') \<longleftrightarrow>
      uc_emittedBytes c + int (length f) \<le> rl_MaxStateBytes ?l
      \<and> uc_workUnits c + 1 + int (length f) \<le> rl_MaxOperationWorkUnits ?l
      \<and> out' = v \<and> c' = tick_header [Inl f] c" for v
    using r(4) charge_items_success [OF r(4), of 1] charge_emitted_success [of "tick_items 1 c" "length f"]
    by (auto simp: op_then_success tick_header_def tick_lines_def item_meter.advance_zero)
  have "reserveField (int (length f)) fo out c = (Inr out', c') \<longleftrightarrow>
      int (length (ho_encoded out)) + 1 \<le> rl_MaxHeaderFields ?l \<and> int (length f) \<le> rl_MaxHeaderFieldBytes ?l
      \<and> \<not> snd over \<and> ho_headerBytes out + int (length f) \<le> rl_MaxHeaderBytes ?l
      \<and> \<not> (\<not> snd st \<or> fst st > rl_MaxStateBytes ?l)
      \<and> op_then (chargeItems 1) (op_then (chargeEmitted (int (length f)))
          (op_return (out\<lparr>ho_headerBytes := ho_headerBytes out + int (length f)\<rparr>))) c = (Inr out', c')"
    unfolding reserveField_def Let_def r(1) over_def [symmetric]
    using r(6) max by (cases over; cases st) (auto simp: checkedAdd_def MaxInt_def simp flip: st_def)
  also have "\<dots> \<longleftrightarrow> int (length f) \<le> rl_MaxHeaderFieldBytes ?l
      \<and> (fo \<noteq> None \<longrightarrow> content_fit (rl_MaxHeaderLineBytes ?l) (crlf_lines f))
      \<and> items_fit [Inl f] (out, k) c
      \<and> out' = out\<lparr>ho_headerBytes := ho_headerBytes out + int (length f)\<rparr> \<and> c' = tick_header [Inl f] c"
    unfolding over st charge items_fit_def using r(3,8) by (auto simp: Let_def)
  finally show ?thesis by (simp add: r(2))
qed

end
