(* ===== verification/Recipe_Plan_Emission.thy ===== *)
theory Recipe_Plan_Emission
  imports Recipe_Header_Exact
begin

text \<open>
  What the header steps emit: source fields, literal fields, copy ranges, whole plans and groups,
  as metered sequences over the output of \<open>apply_header.go\<close>.
\<close>

section \<open>Single fields\<close>

definition octets_fit :: "RecipeLimits \<Rightarrow> bytes \<Rightarrow> bool" where
  "octets_fit l f \<longleftrightarrow> int (length f) \<le> rl_MaxHeaderFieldBytes l
     \<and> content_fit (rl_MaxHeaderLineBytes l) (crlf_lines f)"

lemma on_output_each:
  "op_each (\<lambda>x. on_output (f x)) xs = on_output (op_each f xs)"
  unfolding on_output_def
  by (rule ext) (auto simp: op_each_fst split: prod.splits simp del: op_eval intro!: arg_cong2 [where f = "\<lambda>g a. op_each g xs a"] ext)

lemma emits_appendField:
  assumes "terminated f"
  shows "header_emission.emits a s enf (on_output (appendField f)) (octets_fit (ap_limits a) f) [Inl f]"
  unfolding header_emission.emits_def
proof (intro allI impI)
  fix acc c acc' c'
  assume r: "header_ready a s enf acc c"
  obtain out k where acc: "acc = (out, k)" by (cases acc)
  note res = reserveField_success [OF r [unfolded acc], where fo = "Some f" and f = f]
  show "on_output (appendField f) acc c = (Inr acc', c') \<longleftrightarrow>
      octets_fit (ap_limits a) f \<and> items_fit [Inl f] acc c \<and> acc' = put_items [Inl f] acc \<and> c' = tick_header [Inl f] c"
    using res assms
    by (auto simp: on_output_def acc appendField_def op_bind_success octets_fit_def put_items_def)
qed

lemma terminated_header_line [simp]: "terminated (header_line n d)"
  unfolding header_line_def by (metis append_Cons append_assoc terminated_line)

lemma header_line_lines:
  assumes "clean n" "clean d"
  shows "crlf_lines (header_line n d) = [header_line n d]" "content (header_line n d) = n @ CHR '':'' # d"
proof -
  have eq: "header_line n d = (n @ CHR '':'' # d) @ crlf @ []" by (simp add: header_line_def)
  have "clean (n @ CHR '':'' # d)" using assms by simp
  then have "no_crlf (n @ CHR '':'' # d)" by (rule clean_no_crlf)
  then show "crlf_lines (header_line n d) = [header_line n d]"
    unfolding eq by (subst crlf_lines_line) simp_all
  show "content (header_line n d) = n @ CHR '':'' # d" unfolding eq by (simp flip: append_Cons append_assoc)
qed

lemma emits_headerAppendData:
  assumes "clean n" "clean d"
  shows "header_emission.emits a s enf (on_output (headerAppendData n d))
    (octets_fit (ap_limits a) (header_line n d)) [Inl (header_line n d)]"
  unfolding header_emission.emits_def
proof (intro allI impI)
  fix acc c acc' c'
  assume r: "header_ready a s enf acc c"
  obtain out k where acc: "acc = (out, k)" by (cases acc)
  let ?f = "header_line n d"
  have a: "ap_limits (ho_applier out) = ap_limits a" "limits_ok (ap_limits a)"
    using r by (auto simp: acc header_ready_def work_room_def counter_ready_def)
  have fit: "octets_fit (ap_limits a) ?f \<longleftrightarrow> int (length ?f) \<le> rl_MaxHeaderFieldBytes (ap_limits a)
      \<and> int (length n + 1 + length d) \<le> rl_MaxHeaderLineBytes (ap_limits a)"
    by (simp add: octets_fit_def content_fit_def header_line_lines [OF assms])
  have len: "int (length n) + 1 + int (length d) + 2 = int (length ?f)" by (simp add: header_line_def)
  have max: "rl_MaxHeaderLineBytes (ap_limits a) \<le> 998" using limits_ok_bounds [OF a(2)] by simp
  note res = reserveField_success [OF r [unfolded acc], where fo = None and f = ?f]
  have "headerAppendData n d out c = (Inr out', c') \<longleftrightarrow>
      int (length n + 1 + length d) \<le> rl_MaxHeaderLineBytes (ap_limits a)
      \<and> (\<exists>o1. reserveField (int (length ?f)) None out c = (Inr o1, c')
          \<and> out' = o1\<lparr>ho_encoded := ho_encoded o1 @ [?f]\<rparr>)" for out'
    using max unfolding headerAppendData_def Let_def a(1) len [symmetric]
    by (auto simp: checkedAdd_def MaxInt_def op_bind_success header_line_def)
  then show "on_output (headerAppendData n d) acc c = (Inr acc', c') \<longleftrightarrow>
      octets_fit (ap_limits a) ?f \<and> items_fit [Inl ?f] acc c
      \<and> acc' = put_items [Inl ?f] acc \<and> c' = tick_header [Inl ?f] c"
    using res unfolding fit by (auto simp: on_output_def acc op_bind_success put_items_def)
qed

lemma emits_field_list:
  assumes "\<forall>f \<in> set fs. terminated f"
  shows "header_emission.emits a s enf (on_output (op_each appendField fs))
    (\<forall>f \<in> set fs. octets_fit (ap_limits a) f) (map Inl fs)"
proof -
  have "header_emission.emits a s enf (op_each (\<lambda>f. on_output (appendField f)) fs)
      (\<forall>f \<in> set fs. octets_fit (ap_limits a) f) (concat (map (\<lambda>f. [Inl f]) fs))"
    using assms by (intro header_emission.emits_each emits_appendField) blast
  then show ?thesis by (simp add: on_output_each concat_map_singleton)
qed

lemma emits_literal_list:
  assumes "clean n" "list_all clean ds"
  shows "header_emission.emits a s enf (on_output (op_each (headerAppendData n) ds))
    (\<forall>d \<in> set ds. octets_fit (ap_limits a) (header_line n d)) (map (\<lambda>d. Inl (header_line n d)) ds)"
proof -
  have "header_emission.emits a s enf (op_each (\<lambda>d. on_output (headerAppendData n d)) ds)
      (\<forall>d \<in> set ds. octets_fit (ap_limits a) (header_line n d)) (concat (map (\<lambda>d. [Inl (header_line n d)]) ds))"
    using assms by (intro header_emission.emits_each emits_headerAppendData) (auto simp: list.pred_set)
  then show ?thesis by (simp add: on_output_each concat_map_singleton comp_def)
qed

section \<open>Steps and plans\<close>

definition step_items :: "bytes list \<Rightarrow> bytes \<Rightarrow> step \<Rightarrow> (bytes + nat) list" where
  "step_items fs name s =
     (if st_kind s = StepKindCopy then [Inr (nat (st_copyEnd s - st_copyStart s + 1))] else [])
     @ map Inl (rev (emit_step (header_line name) (rev fs) s))"

lemma rev_copy_fields:
  assumes "0 < x" "x \<le> y" "y \<le> int (length fs)"
  shows "map (\<lambda>n. fs ! nat (int (length fs) - n)) (rev [x..y]) = rev (Go_Bytes.slice (rev fs) (nat x - 1) (nat y))"
proof -
  have idx: "nat (int (length fs) - m) = length fs - Suc (nat (m - 1))" if "1 \<le> m" for m
    using that by arith
  have "map (\<lambda>n. fs ! nat (int (length fs) - n)) [x..y] = map (\<lambda>n. rev fs ! nat (n - 1)) [x..y]"
    using assms by (auto simp: rev_nth idx)
  also have "\<dots> = Go_Bytes.slice (rev fs) (nat x - 1) (nat y)" using slice_upto [of x y "rev fs"] assms by simp
  finally show ?thesis by (simp add: rev_map [symmetric])
qed

text \<open>The part of a copy step before its fields: the check and the charge of the copied items.\<close>

definition announce :: "int \<Rightarrow> headerOutput \<times> int \<Rightarrow> (headerOutput \<times> int) uop" where
  "announce w acc =
     (case acc of (out, k) \<Rightarrow> let limits = ap_limits (ho_applier out) in
      case checkedAdd k w of (nextCopied, ok) \<Rightarrow>
      if \<not> ok \<or> nextCopied > rl_MaxTotalCopiedItems limits
      then op_fail (applyLimitError limitNameMaxTotalCopiedItems (rl_MaxTotalCopiedItems limits) nextCopied)
      else op_then (chargeItems w) (op_return (out, nextCopied)))"

lemma emits_announce: "header_emission.emits a s enf (announce (int w)) True [Inr w]"
  unfolding header_emission.emits_def
proof (intro allI impI)
  fix acc c acc' c'
  assume r: "header_ready a s enf acc c"
  obtain out k where acc: "acc = (out, k)" by (cases acc)
  have h: "ap_limits (ho_applier out) = uc_limits c" "counter_ready c" "limits_ok (uc_limits c)" "0 \<le> k"
    using r by (auto simp: acc header_ready_def work_room_def counter_ready_def)
  have "rl_MaxTotalCopiedItems (uc_limits c) \<le> 8192" using limits_ok_plan_bounds [OF h(3)] by simp
  then have "announce (int w) acc c = (Inr acc', c') \<longleftrightarrow> k + int w \<le> rl_MaxTotalCopiedItems (uc_limits c)
      \<and> uc_workUnits c + int w \<le> rl_MaxOperationWorkUnits (uc_limits c)
      \<and> acc' = (out, k + int w) \<and> c' = tick_items w c"
    using charge_items_success [OF h(2), of w] h(4)
    by (auto simp: announce_def acc Let_def h(1) checkedAdd_def MaxInt_def op_then_success)
  then show "announce (int w) acc c = (Inr acc', c') \<longleftrightarrow>
      True \<and> items_fit [Inr w] acc c \<and> acc' = put_items [Inr w] acc \<and> c' = tick_header [Inr w] c"
    using r by (auto simp: acc items_fit_def put_items_def tick_header_def tick_lines_def header_ready_def
        Let_def item_meter.advance_zero tick_emitted_def)
qed

lemma op_each_map: "op_each f (map g xs) acc = op_each (\<lambda>x. f (g x)) xs acc"
proof (induction xs arbitrary: acc)
  case (Cons x xs)
  then have "op_each f (map g xs) = op_each (\<lambda>x. f (g x)) xs" by (rule ext)
  then show ?case by simp
qed simp

lemma headerCopyStep_announce:
  assumes "y \<le> int (length fs)" "y - x + 1 \<le> rl_MaxCopiedItemsPerRange (ap_limits a)"
    "ho_applier out = a"
  shows "headerCopyStep i fs x y (out, k) = op_bind (announce (y - x + 1) (out, k))
    (on_output (op_each appendField (map (\<lambda>n. fs ! nat (int (length fs) - n)) (rev [x..y]))))"
  using assms
  by (auto simp: headerCopyStep_def announce_def Let_def op_then_def op_bind_assoc on_output_def op_each_map
      simp del: op_eval split: prod.splits)

lemma emits_headerCopyStep:
  assumes xy: "0 < x" "x \<le> y" and fs: "\<forall>f \<in> set fs. terminated f \<and> octets_fit (ap_limits a) f"
    and width: "y - x + 1 \<le> rl_MaxCopiedItemsPerRange (ap_limits a)"
  shows "header_emission.emits a s enf (headerCopyStep i fs x y) (y \<le> int (length fs))
    (step_items fs n (copy_step x y))"
proof (cases "y \<le> int (length fs)")
  case False
  then have "\<exists>e. headerCopyStep i fs x y acc c = (Inl e, c)" for acc c
    by (auto simp: headerCopyStep_def Let_def split: prod.splits)
  with False show ?thesis unfolding header_emission.emits_def by (metis Inl_Inr_False prod.inject)
next
  case True
  let ?gs = "map (\<lambda>n. fs ! nat (int (length fs) - n)) (rev [x..y])"
  define w where "w = nat (y - x + 1)"
  have w: "y - x + 1 = int w" using xy by (simp add: w_def)
  have gs: "?gs = rev (Go_Bytes.slice (rev fs) (nat x - 1) (nat y))" using rev_copy_fields xy True by blast
  then have sub: "\<forall>f \<in> set ?gs. terminated f \<and> octets_fit (ap_limits a) f"
    using fs slice_set [of "rev fs" "nat x - 1" "nat y"] by auto
  have each: "header_emission.emits a s enf (on_output (op_each appendField ?gs)) True (map Inl ?gs)"
  proof (rule header_emission.emits_cong [OF emits_field_list])
    show "(\<forall>f \<in> set ?gs. octets_fit (ap_limits a) f) = True" using sub by blast
  qed (use sub in blast)+
  have items: "[Inr w] @ map Inl ?gs = step_items fs n (copy_step x y)"
    unfolding gs by (simp add: step_items_def w_def)
  have all: "header_emission.emits a s enf
      (\<lambda>acc. op_bind (announce (int w) acc) (on_output (op_each appendField ?gs))) True (step_items fs n (copy_step x y))"
    using header_emission.emits_bind [OF emits_announce each, of w] unfolding items by simp
  have eq: "headerCopyStep i fs x y acc = op_bind (announce (int w) acc) (on_output (op_each appendField ?gs))"
    if "header_ready a s enf acc c" for acc c
    using that headerCopyStep_announce [OF True width] w by (cases acc) (auto simp: header_ready_def)
  show ?thesis
    using all True eq unfolding header_emission.emits_def by auto
qed

lemma emits_headerPlanStep:
  assumes "step_valid s" "clean n" "\<forall>f \<in> set fs. terminated f \<and> octets_fit (ap_limits a) f"
    "instructions_fit (ap_limits a) [s]"
  shows "header_emission.emits a cur enf (headerPlanStep fs n (i, s))
    (copies_within (length fs) [s] \<and> (\<forall>d \<in> set (st_data s). octets_fit (ap_limits a) (header_line n d)))
    (step_items fs n s)"
  using assms(1)
proof (cases rule: step_valid_cases)
  case (copy x y)
  have "y - x + 1 \<le> rl_MaxCopiedItemsPerRange (ap_limits a)"
    using assms(4) copy by (simp add: instructions_fit_def range_width_def)
  from emits_headerCopyStep [OF copy(2,3) assms(3) this, of cur enf i n]
  have "header_emission.emits a cur enf (headerCopyStep i fs x y) (y \<le> int (length fs)) (step_items fs n s)"
    by (simp add: copy(1))
  moreover have "headerPlanStep fs n (i, s) = headerCopyStep i fs x y"
    by (rule ext) (simp add: headerPlanStep_def copy(1))
  ultimately show ?thesis by (simp add: copies_within_def copy(1))
next
  case (literal k ds)
  then have "list_all clean ds" using validLiteral_clean by (auto simp: list.pred_set)
  then have "list_all clean (rev ds)" by (simp add: list.pred_set)
  note e = emits_literal_list [OF assms(2) this, of a cur enf]
  have "headerPlanStep fs n (i, s) = on_output (op_each (headerAppendData n) (rev ds))"
    using literal by (intro ext) (auto simp: headerPlanStep_def on_output_def simp del: op_eval)
  moreover have "step_items fs n s = map (\<lambda>d. Inl (header_line n d)) (rev ds)"
    using literal by (simp add: step_items_def rev_map)
  ultimately show ?thesis using e literal by (simp add: copies_within_def)
qed

definition plan_items :: "bytes list \<Rightarrow> headerPlan \<Rightarrow> (bytes + nat) list" where
  "plan_items fs p = concat (map (step_items fs (hp_name p)) (rev (hp_steps p)))"

definition planned_fields :: "bytes list \<Rightarrow> headerPlan \<Rightarrow> bytes list" where
  "planned_fields fs p = rev (emit_steps (header_line (hp_name p)) (rev fs) (hp_steps p))"

lemma plan_items_fields: "item_fields (plan_items fs p) = planned_fields fs p"
proof -
  have "item_fields (concat (map (step_items fs n) (rev ss))) = rev (emit_steps (header_line n) (rev fs) ss)" for n ss
    by (induction ss) (auto simp: step_items_def)
  then show ?thesis by (simp add: plan_items_def planned_fields_def)
qed

lemma plan_items_copies:
  assumes "list_all step_valid (hp_steps p)"
  shows "item_copies (plan_items fs p) = copy_total (hp_steps p)"
proof -
  have "item_copies (concat (map (step_items fs n) (rev ss))) = copy_total ss" if "list_all step_valid ss" for n ss
    using that
  proof (induction ss)
    case (Cons s ss)
    then have "step_valid s" "list_all step_valid ss" by simp_all
    then show ?case
    proof (cases rule: step_valid_cases)
      case (copy x y)
      with Cons show ?thesis by (simp add: step_items_def del: emit_step_simps)
    next
      case (literal k ds)
      with Cons show ?thesis by (simp add: step_items_def del: emit_step_simps)
    qed
  qed simp
  then show ?thesis using assms by (simp add: plan_items_def)
qed

definition plan_applies :: "RecipeLimits \<Rightarrow> bytes list \<Rightarrow> headerPlan \<Rightarrow> bool" where
  "plan_applies l fs p \<longleftrightarrow> copies_within (length fs) (hp_steps p)
     \<and> (\<forall>d \<in> set (literals (hp_steps p)). octets_fit l (header_line (hp_name p) d))"

lemma emits_appendHeaderPlan:
  assumes "list_all step_valid (hp_steps p)" "clean (hp_name p)"
    "\<forall>f \<in> set fs. terminated f \<and> octets_fit (ap_limits a) f" "instructions_fit (ap_limits a) (hp_steps p)"
  shows "header_emission.emits a cur enf (appendHeaderPlan fs p) (plan_applies (ap_limits a) fs p) (plan_items fs p)"
proof -
  let ?es = "rev (zip [0..<length (hp_steps p)] (hp_steps p))" and ?l = "ap_limits a"
  have snd: "map snd ?es = rev (hp_steps p)" by (simp flip: rev_map)
  have "header_emission.emits a cur enf (op_each (headerPlanStep fs (hp_name p)) ?es)
      (\<forall>e \<in> set ?es. copies_within (length fs) [snd e]
         \<and> (\<forall>d \<in> set (st_data (snd e)). octets_fit ?l (header_line (hp_name p) d)))
      (concat (map (\<lambda>e. step_items fs (hp_name p) (snd e)) ?es))"
  proof (rule header_emission.emits_each)
    fix e assume "e \<in> set ?es"
    then have "snd e \<in> set (map snd ?es)" by (metis image_eqI list.set_map)
    then have s: "snd e \<in> set (hp_steps p)" unfolding snd by simp
    then have "step_valid (snd e)" "instructions_fit ?l [snd e]"
      using assms(1,4) by (auto simp: list.pred_set instructions_fit_def copy_ranges_def literals_def)
    then show "header_emission.emits a cur enf (headerPlanStep fs (hp_name p) e)
        (copies_within (length fs) [snd e]
         \<and> (\<forall>d \<in> set (st_data (snd e)). octets_fit ?l (header_line (hp_name p) d)))
        (step_items fs (hp_name p) (snd e))"
      using emits_headerPlanStep [of "snd e" "hp_name p" fs a cur enf "fst e"] assms(2,3) by simp
  qed
  moreover have "map (\<lambda>e. step_items fs (hp_name p) (snd e)) ?es = map (step_items fs (hp_name p)) (rev (hp_steps p))"
    using snd by (metis (no_types, lifting) comp_apply map_eq_conv map_map)
  moreover have "(\<forall>e \<in> set ?es. copies_within (length fs) [snd e]
         \<and> (\<forall>d \<in> set (st_data (snd e)). octets_fit ?l (header_line (hp_name p) d))) \<longleftrightarrow> plan_applies ?l fs p"
  proof -
    have all: "(\<forall>e \<in> set ?es. Q (snd e)) \<longleftrightarrow> (\<forall>s \<in> set (hp_steps p). Q s)" for Q
      using arg_cong [OF snd, of set] by (metis (mono_tags, lifting) image_iff image_eqI set_map set_rev)
    have "(\<forall>s \<in> set (hp_steps p). copies_within (length fs) [s]
        \<and> (\<forall>d \<in> set (st_data s). octets_fit ?l (header_line (hp_name p) d))) \<longleftrightarrow> plan_applies ?l fs p"
      by (auto simp: plan_applies_def copies_within_def copy_ranges_def literals_def split: if_splits)
    then show ?thesis using all by (rule trans [rotated])
  qed
  moreover have "appendHeaderPlan fs p = op_each (headerPlanStep fs (hp_name p)) ?es"
    by (rule ext) (simp add: appendHeaderPlan_def)
  ultimately show ?thesis by (simp only: plan_items_def)
qed

section \<open>Groups\<close>

definition group_items :: "(bytes \<rightharpoonup> bytes list) \<Rightarrow> (bytes \<rightharpoonup> headerPlan) \<Rightarrow> bytes \<Rightarrow> (bytes + nat) list" where
  "group_items groups plans n =
     (let fs = (case groups n of None \<Rightarrow> [] | Some fs \<Rightarrow> fs) in
      case plans n of None \<Rightarrow> map Inl fs | Some p \<Rightarrow> plan_items fs p)"

lemma emits_groups:
  assumes fs: "\<And>n fs. groups n = Some fs \<Longrightarrow> \<forall>f \<in> set fs. terminated f \<and> octets_fit (ap_limits a) f"
    and ps: "\<And>n p. plans n = Some p \<Longrightarrow> list_all step_valid (hp_steps p) \<and> clean (hp_name p)
      \<and> instructions_fit (ap_limits a) (hp_steps p)"
  shows "header_emission.emits a cur enf (op_each (emitGroup groups plans) ns)
    (\<forall>n \<in> set ns. \<forall>p. plans n = Some p \<longrightarrow>
       plan_applies (ap_limits a) (case groups n of None \<Rightarrow> [] | Some fs \<Rightarrow> fs) p)
    (concat (map (group_items groups plans) ns))"
proof (rule header_emission.emits_each)
  fix n
  let ?fs = "case groups n of None \<Rightarrow> [] | Some fs \<Rightarrow> fs"
  have g: "\<forall>f \<in> set ?fs. terminated f \<and> octets_fit (ap_limits a) f"
    using fs by (cases "groups n") auto
  show "header_emission.emits a cur enf (emitGroup groups plans n)
      (\<forall>p. plans n = Some p \<longrightarrow> plan_applies (ap_limits a) ?fs p) (group_items groups plans n)"
  proof (cases "plans n")
    case None
    have "emitGroup groups plans n = on_output (op_each appendField ?fs)"
      by (rule ext) (auto simp: emitGroup_def None on_output_def simp del: op_eval split: prod.splits)
    moreover have "(\<forall>f \<in> set ?fs. octets_fit (ap_limits a) f) = True" using g by blast
    ultimately show ?thesis
      using emits_field_list [of ?fs a cur enf] g by (simp add: None group_items_def)
  next
    case (Some p)
    have "emitGroup groups plans n = appendHeaderPlan ?fs p"
      by (rule ext) (simp add: emitGroup_def Some)
    then show ?thesis
      using emits_appendHeaderPlan [of p ?fs a cur enf] ps [OF Some] g by (simp add: Some group_items_def)
  qed
qed

end
