(* ===== verification/Recipe_Header_Plans.thy ===== *)
theory Recipe_Header_Plans
  imports Recipe_Plan_Emission
begin

text \<open>
  The fields that a header recipe emits, in the order of the sorted names, and the budgets that
  \<open>validateHeaderPlanBudgets\<close> checks for its plans.
\<close>

section \<open>Emitted fields\<close>

definition plan_for :: "Recipe \<Rightarrow> bytes \<rightharpoonup> headerPlan" where
  "plan_for r = map_of (map (\<lambda>p. (hp_name p, p)) (rc_headers r))"

definition all_names :: "HeaderField list \<Rightarrow> Recipe \<Rightarrow> bytes list" where
  "all_names fs r = field_names fs @ filter (\<lambda>n. n \<notin> hf_nameLower ` set fs) (map hp_name (rc_headers r))"

definition group_fields :: "HeaderField list \<Rightarrow> Recipe \<Rightarrow> bytes \<Rightarrow> bytes list" where
  "group_fields fs r n =
     (case plan_for r n of None \<Rightarrow> field_group fs n | Some p \<Rightarrow> planned_fields (field_group fs n) p)"

definition emitted_fields :: "State \<Rightarrow> Recipe \<Rightarrow> bytes list" where
  "emitted_fields s r =
     (let fs = hb_fields (ss_headers s) in
      if rc_hasHeaderRecipe r then concat (map (group_fields fs r) (sort (all_names fs r)))
      else map hf_originalBytes fs)"

lemma recipe_names_distinct: "recipe_ok r \<Longrightarrow> distinct (map hp_name (rc_headers r))"
  by (simp add: recipe_ok_def strict_sorted_iff)

lemma recipe_plan_ok: "recipe_ok r \<Longrightarrow> p \<in> set (rc_headers r) \<Longrightarrow> plan_ok p"
  by (simp add: recipe_ok_def list.pred_set)

lemma plan_for_Some: "plan_for r n = Some p \<Longrightarrow> p \<in> set (rc_headers r) \<and> hp_name p = n"
  by (auto simp: plan_for_def dest: map_of_SomeD)

lemma plan_for_self:
  "recipe_ok r \<Longrightarrow> p \<in> set (rc_headers r) \<Longrightarrow> plan_for r (hp_name p) = Some p"
  using recipe_names_distinct [of r] by (auto simp: plan_for_def intro!: map_of_is_SomeI simp: comp_def)

lemma all_names_distinct: "recipe_ok r \<Longrightarrow> distinct (all_names fs r)"
  using recipe_names_distinct [of r] by (auto simp: all_names_def)

lemma set_all_names: "set (all_names fs r) = hf_nameLower ` set fs \<union> hp_name ` set (rc_headers r)"
  by (auto simp: all_names_def)

lemma sort_all_names:
  "recipe_ok r \<Longrightarrow> sort (all_names fs r) = sorted_list_of_set (hf_nameLower ` set fs \<union> hp_name ` set (rc_headers r))"
  using all_names_distinct [of r fs]
  by (simp add: set_all_names [symmetric] sorted_list_of_set_sort_remdups distinct_remdups_id)

text \<open>The loop that adds the planned names.\<close>

definition with_plan_names :: "bytes list \<Rightarrow> headerGroups \<Rightarrow> headerGroups" where
  "with_plan_names ns acc =
     (let new = filter (\<lambda>n. hg_groups acc n = None) ns in
      acc\<lparr>hg_groups := (\<lambda>n. if n \<in> set new then Some [] else hg_groups acc n),
          hg_names := hg_names acc @ new,
          hg_nameBytes := hg_nameBytes acc + int (length (concat new))\<rparr>)"

lemma planNames_success:
  assumes "distinct (map hp_name ps)" "\<forall>p \<in> set ps. hp_canonicalName p = hp_name p"
    "int (length (hg_names acc)) \<le> rl_MaxHeaderNames l" "0 \<le> hg_nameBytes acc"
    "hg_nameBytes acc \<le> rl_MaxTotalHeaderNameBytes l" "rl_MaxTotalHeaderNameBytes l \<le> 16384"
  shows "planNames l ps plans acc = Inr (plans', acc') \<longleftrightarrow>
    int (length (hg_names (with_plan_names (map hp_name ps) acc))) \<le> rl_MaxHeaderNames l
    \<and> hg_nameBytes (with_plan_names (map hp_name ps) acc) \<le> rl_MaxTotalHeaderNameBytes l
    \<and> plans' = plans ++ map_of (map (\<lambda>p. (hp_name p, p)) ps) \<and> acc' = with_plan_names (map hp_name ps) acc"
  using assms(1-5)
proof (induction ps arbitrary: plans acc)
  case Nil
  then show ?case by (auto simp: with_plan_names_def Let_def)
next
  case (Cons p ps)
  have name: "hp_canonicalName p = hp_name p" using Cons.prems by simp
  have add: "plans(hp_name p \<mapsto> p) ++ map_of (map (\<lambda>p. (hp_name p, p)) ps)
      = plans ++ map_of (map (\<lambda>p. (hp_name p, p)) (p # ps))"
    using Cons.prems(1) by (auto simp: map_add_def fun_eq_iff split: option.splits dest!: map_of_SomeD)
  show ?case
  proof (cases "hg_groups acc (hp_name p) = None")
    case False
    then have "with_plan_names (map hp_name (p # ps)) acc = with_plan_names (map hp_name ps) acc"
      by (auto simp: with_plan_names_def Let_def)
    moreover have "planNames l (p # ps) plans acc = planNames l ps (plans(hp_name p \<mapsto> p)) acc"
      using False by (simp add: Let_def name)
    moreover have "distinct (map hp_name ps)" "\<forall>p \<in> set ps. hp_canonicalName p = hp_name p"
      using Cons.prems(1,2) by simp_all
    ultimately show ?thesis
      using Cons.IH [of acc "plans(hp_name p \<mapsto> p)", OF _ _ Cons.prems(3-5)] by (simp only: add)
  next
    case True
    let ?acc = "acc\<lparr>hg_nameBytes := hg_nameBytes acc + int (length (hp_name p)),
      hg_groups := (hg_groups acc)(hp_name p \<mapsto> []), hg_names := hg_names acc @ [hp_name p]\<rparr>"
    let ?old = "filter (\<lambda>n. hg_groups acc n = None)"
    have same: "filter (\<lambda>n. hg_groups ?acc n = None) (map hp_name ps) = ?old (map hp_name ps)"
      using Cons.prems(1) by (intro filter_cong) (auto simp: image_iff)
    have old: "?old (map hp_name (p # ps)) = hp_name p # ?old (map hp_name ps)" using True by simp
    have fn: "(\<lambda>n. if n \<in> set (hp_name p # ?old (map hp_name ps)) then Some [] else hg_groups acc n)
        = (\<lambda>n. if n \<in> set (?old (map hp_name ps)) then Some [] else hg_groups ?acc n)"
      by (rule ext) simp
    have new: "with_plan_names (map hp_name (p # ps)) acc = with_plan_names (map hp_name ps) ?acc"
      unfolding with_plan_names_def Let_def old same fn by simp
    let ?r = "int (length (hg_names acc)) + 1 \<le> rl_MaxHeaderNames l
      \<and> hg_nameBytes acc + int (length (hp_name p)) \<le> rl_MaxTotalHeaderNameBytes l"
    have step: "planNames l (p # ps) plans acc = Inr (plans', acc') \<longleftrightarrow>
        ?r \<and> planNames l ps (plans(hp_name p \<mapsto> p)) ?acc = Inr (plans', acc')"
      using True Cons.prems(4) assms(6)
      by (auto simp: Let_def name checkedAdd_def MaxInt_def)
    have mono: "int (length (hg_names (with_plan_names ns ?acc))) \<le> rl_MaxHeaderNames l
        \<Longrightarrow> hg_nameBytes (with_plan_names ns ?acc) \<le> rl_MaxTotalHeaderNameBytes l \<Longrightarrow> ?r" for ns
      by (auto simp: with_plan_names_def Let_def)
    have "planNames l ps (plans(hp_name p \<mapsto> p)) ?acc = Inr (plans', acc') \<longleftrightarrow>
        int (length (hg_names (with_plan_names (map hp_name ps) ?acc))) \<le> rl_MaxHeaderNames l
        \<and> hg_nameBytes (with_plan_names (map hp_name ps) ?acc) \<le> rl_MaxTotalHeaderNameBytes l
        \<and> plans' = plans ++ map_of (map (\<lambda>p. (hp_name p, p)) (p # ps)) \<and> acc' = with_plan_names (map hp_name ps) ?acc"
      if ?r unfolding add [symmetric] using that Cons.prems by (intro Cons.IH) simp_all
    with mono show ?thesis unfolding step new by blast
  qed
qed

lemma with_plan_names_groups:
  "with_plan_names (map hp_name (rc_headers r)) (groups_of fs) = (groups_of fs)\<lparr>
     hg_groups := (\<lambda>n. if n \<in> set (all_names fs r) then Some (field_group fs n) else None),
     hg_names := all_names fs r, hg_nameBytes := int (length (concat (all_names fs r)))\<rparr>"
proof -
  have none: "hg_groups (groups_of fs) n = None \<longleftrightarrow> n \<notin> hf_nameLower ` set fs" for n
    by (simp add: groups_of_def)
  have empty: "n \<notin> hf_nameLower ` set fs \<Longrightarrow> field_group fs n = []" for n
    by (auto simp: field_group_def filter_empty_conv)
  show ?thesis
    unfolding with_plan_names_def none Let_def
    by (auto simp: groups_of_def all_names_def fun_eq_iff empty)
qed

lemma group_items_fields:
  assumes "\<And>n. n \<in> set ns \<Longrightarrow> groups n = Some (field_group fs n)"
  shows "item_fields (concat (map (group_items groups (plan_for r)) ns)) = concat (map (group_fields fs r) ns)"
  using assms
proof (induction ns)
  case (Cons n ns)
  then show ?case
    by (auto simp: group_items_def group_fields_def plan_items_fields split: option.splits)
qed simp

definition header_copies :: "Recipe \<Rightarrow> nat" where
  "header_copies r = sum_list (map (\<lambda>p. copy_total (hp_steps p)) (rc_headers r))"

lemma group_items_copies:
  assumes "recipe_ok r"
  shows "item_copies (concat (map (group_items groups (plan_for r)) (sort (all_names fs r)))) = header_copies r"
proof -
  let ?g = "\<lambda>n. case plan_for r n of None \<Rightarrow> 0 | Some p \<Rightarrow> copy_total (hp_steps p)"
  have one: "item_copies (group_items groups (plan_for r) n) = ?g n" for n
    using recipe_ok_steps(1) [OF assms] plan_for_Some [of r n]
    by (auto simp: group_items_def plan_items_copies list.pred_set split: option.splits)
  have "item_copies (concat (map (group_items groups (plan_for r)) ns)) = sum_list (map ?g ns)" for ns
    by (induction ns) (simp_all add: one)
  then have "item_copies (concat (map (group_items groups (plan_for r)) (sort (all_names fs r)))) = sum_list (map ?g (sort (all_names fs r)))" .
  also have "\<dots> = sum ?g (set (all_names fs r))"
    using all_names_distinct [OF assms] by (subst sum_list_distinct_conv_sum_set) simp_all
  also have "\<dots> = sum ?g (hp_name ` set (rc_headers r))"
    by (rule sum.mono_neutral_right) (auto simp: set_all_names split: option.splits dest!: plan_for_Some)
  also have "\<dots> = sum_list (map ?g (map hp_name (rc_headers r)))"
    using recipe_names_distinct [OF assms] by (subst sum_list_distinct_conv_sum_set) simp_all
  also have "\<dots> = header_copies r"
    unfolding header_copies_def map_map comp_def
    by (rule arg_cong [where f = sum_list], rule map_cong) (simp_all add: plan_for_self [OF assms])
  finally show ?thesis .
qed

text \<open>The copies of the headers are among the copies that the plan budgets bound.\<close>

lemma header_copies_bound:
  assumes "recipe_ok r" "plan_fits l (recipe_steps r)"
  shows "int (header_copies r) \<le> rl_MaxTotalCopiedItems l"
proof -
  have "list_all (\<lambda>p. list_all step_valid (hp_steps p)) ps \<Longrightarrow>
      int (sum_list (map (\<lambda>p. copy_total (hp_steps p)) ps))
        = sum_list (map range_width (copy_ranges (concat (map hp_steps ps))))" for ps
    by (induction ps) (auto simp: copy_total_def sum_widths_nonneg)
  then have "int (header_copies r) = sum_list (map range_width (copy_ranges (concat (map hp_steps (rc_headers r)))))"
    using recipe_ok_steps(1) [OF assms(1)] by (simp add: header_copies_def)
  moreover have "0 \<le> sum_list (map range_width (copy_ranges (rc_bodySteps r)))"
    using sum_widths_nonneg recipe_ok_steps(2) [OF assms(1)] by blast
  ultimately show ?thesis using assms(2) by (simp add: plan_fits_def recipe_steps_def)
qed

section \<open>Header plan budgets\<close>

definition header_plans_fit :: "RecipeLimits \<Rightarrow> Recipe \<Rightarrow> bool" where
  "header_plans_fit l r \<longleftrightarrow> (rc_hasHeaderRecipe r \<longrightarrow>
     names_fit l (map hp_name (rc_headers r))
     \<and> (\<forall>p \<in> set (rc_headers r). int (length (hp_steps p)) \<le> rl_MaxStepsPerHeader l))"

lemma add_all_Cons: "add_all (ss # sss) b = add_all sss (add_all [ss] b)"
  by (simp add: add_all_def add_instructions_append) (simp add: add_instructions_def add.assoc)

lemma headerBudgetLoop_None_iff:
  assumes "limits_ok l" "budget_within l b" "list_all (\<lambda>p. list_all step_valid (hp_steps p)) ps"
    "instructions_fit l (concat (map hp_steps ps))" "budget_within l (add_all (map hp_steps ps) b)" "0 \<le> t"
    "t \<le> rl_MaxTotalHeaderNameBytes l"
  shows "headerBudgetLoop l ps t b = None \<longleftrightarrow>
    (\<forall>p \<in> set ps. int (length (hp_name p)) \<le> rl_MaxHeaderNameBytes l
       \<and> int (length (hp_steps p)) \<le> rl_MaxStepsPerHeader l)
    \<and> t + int (length (concat (map hp_name ps))) \<le> rl_MaxTotalHeaderNameBytes l"
  using assms(2-7)
proof (induction ps arbitrary: b t)
  case (Cons p ps)
  let ?b = "add_all [hp_steps p] b" and ?t = "t + int (length (hp_name p))"
  have rest: "list_all step_valid (concat (map hp_steps ps))"
    using Cons.prems(2) by (induction ps) auto
  have fin: "budget_within l (add_all (map hp_steps ps) ?b)"
    using Cons.prems(4) add_all_Cons [of "hp_steps p" "map hp_steps ps" b] by simp
  have nn: "0 \<le> pb_copied ?b"
    using sum_widths_nonneg [of "hp_steps p"] Cons.prems(1,2) by (simp add: add_all_def add_instructions_def budget_within_def)
  have within: "budget_within l ?b"
    using fin sum_widths_nonneg [OF rest] Cons.prems(1) nn
    by (auto simp: add_all_def add_instructions_def budget_within_def)
  have one: "addSteps l DimensionHeader (hp_steps p) b = Inr ?b"
    using addSteps_Inr_iff [OF assms(1) Cons.prems(1), of "hp_steps p"] Cons.prems(2,3) within
    by (simp add: instructions_fit_append)
  have max: "rl_MaxTotalHeaderNameBytes l \<le> 16384" using limits_ok_bounds [OF assms(1)] by simp
  have step: "headerBudgetLoop l (p # ps) t b = None \<longleftrightarrow>
      int (length (hp_name p)) \<le> rl_MaxHeaderNameBytes l \<and> ?t \<le> rl_MaxTotalHeaderNameBytes l
      \<and> int (length (hp_steps p)) \<le> rl_MaxStepsPerHeader l \<and> headerBudgetLoop l ps ?t ?b = None"
    using one Cons.prems(5) max by (auto simp: checkedAdd_def MaxInt_def)
  have "?t \<le> rl_MaxTotalHeaderNameBytes l \<Longrightarrow> headerBudgetLoop l ps ?t ?b = None \<longleftrightarrow>
      (\<forall>p \<in> set ps. int (length (hp_name p)) \<le> rl_MaxHeaderNameBytes l
         \<and> int (length (hp_steps p)) \<le> rl_MaxStepsPerHeader l)
      \<and> ?t + int (length (concat (map hp_name ps))) \<le> rl_MaxTotalHeaderNameBytes l"
    using Cons.prems fin within by (intro Cons.IH) (simp_all add: instructions_fit_append)
  then show ?case unfolding step by auto
qed simp

lemma validateHeaderPlanBudgets_None_iff:
  assumes "applier_ok a" "recipe_ok r" "plan_fits (ap_limits a) (recipe_steps r)"
  shows "validateHeaderPlanBudgets a r = None \<longleftrightarrow> header_plans_fit (ap_limits a) r"
proof -
  let ?l = "ap_limits a" and ?hs = "map hp_steps (rc_headers r)"
  have l: "limits_ok ?l" using assms(1) by (simp add: applier_ok_def)
  note steps = recipe_ok_steps [OF assms(2)]
  have fit: "instructions_fit ?l (concat ?hs)"
    using assms(3) by (simp add: plan_fits_def recipe_steps_def instructions_fit_append)
  have hs: "list_all step_valid (concat ?hs)" using steps(3) by (simp add: recipe_steps_def)
  have "budget_within ?l (add_all [recipe_steps r] zeroBudget)"
    using assms(3) plan_fits_zero [OF steps(3)] by blast
  then have within: "budget_within ?l (add_all ?hs zeroBudget)"
    using sum_widths_nonneg [OF hs] sum_widths_nonneg [OF steps(2)]
    by (auto simp: add_all_def add_instructions_def budget_within_def zeroBudget_def recipe_steps_def)
  have "0 < rl_MaxTotalHeaderNameBytes ?l" using limits_ok_bounds [OF l] by simp
  then have "headerBudgetLoop ?l (rc_headers r) 0 zeroBudget = None \<longleftrightarrow>
      (\<forall>p \<in> set (rc_headers r). int (length (hp_name p)) \<le> rl_MaxHeaderNameBytes ?l
         \<and> int (length (hp_steps p)) \<le> rl_MaxStepsPerHeader ?l)
      \<and> int (length (concat (map hp_name (rc_headers r)))) \<le> rl_MaxTotalHeaderNameBytes ?l"
    using headerBudgetLoop_None_iff [OF l zeroBudget_within [OF l] steps(1) fit within, of 0] by simp
  then show ?thesis
    by (auto simp: validateHeaderPlanBudgets_def header_plans_fit_def names_fit_def)
qed

end
