(* ===== verification/Recipe_Header_Apply.thy ===== *)
theory Recipe_Header_Apply
  imports Recipe_Header_Plans
begin

text \<open>
  Header application as a whole: when \<open>applyHeadersUsing\<close> succeeds, the block it reconstructs and
  what it charges (\<open>apply_header.go\<close>).
\<close>

section \<open>The reconstructed block\<close>

lemma single_field_octets:
  "(\<exists>f. header_field_inv f \<and> hf_originalBytes f = e) \<and> octets_fit l e \<longleftrightarrow> single_field (applierOptions l) e"
  by (auto simp: single_field_def field_fits_def octets_fit_def content_fit_def)

lemma validHeaderFieldValue_clean: "clean d \<Longrightarrow> validHeaderFieldValue d"
  by (simp add: clean_def validHeaderFieldValue_no_break)

lemma header_line_field:
  assumes "validHeaderFieldName n" "clean d"
  shows "\<exists>f. header_field_inv f \<and> hf_originalBytes f = header_line n d"
  using assms validHeaderFieldValue_clean [OF assms(2)]
  by (intro exI [of _ "\<lparr>hf_index = 0, hf_rawName = n, hf_nameLower = lowerASCII n, hf_rawValue = d,
      hf_unfoldedValue = unfoldHeaderValue d, hf_originalBytes = header_line n d, hf_valid = True\<rparr>"])
     (simp add: header_field_inv_def header_line_def)

definition names_and_plans_ok :: "RecipeLimits \<Rightarrow> State \<Rightarrow> Recipe \<Rightarrow> bool" where
  "names_and_plans_ok l s r \<longleftrightarrow> (rc_hasHeaderRecipe r \<longrightarrow>
     (let fs = hb_fields (ss_headers s) in
      int (length (all_names fs r)) \<le> rl_MaxHeaderNames l
      \<and> int (length (concat (all_names fs r))) \<le> rl_MaxTotalHeaderNameBytes l
      \<and> (\<forall>p \<in> set (rc_headers r). plan_applies l (field_group fs (hp_name p)) p)))"

lemma group_source_fields:
  assumes "header_block_inv h" "source_headers_ok l h" "f \<in> set (field_group (hb_fields h) n)"
  shows "terminated f \<and> octets_fit l f \<and> single_field (applierOptions l) f"
proof -
  obtain g where g: "g \<in> set (hb_fields h)" "f = hf_originalBytes g" using assms(3) by (auto simp: field_group_def)
  then have "header_field_inv g" "source_field_fits l g"
    using header_block_inv_fields [OF assms(1)] assms(2) by (auto simp: source_headers_ok_def)
  then have "terminated f" "octets_fit l f" "\<exists>g. header_field_inv g \<and> hf_originalBytes g = f"
    using header_field_terminated g(2) by (auto simp: source_field_fits_def octets_fit_def)
  then show ?thesis using single_field_octets by blast
qed

lemma planned_single_fields:
  assumes "plan_ok p" "plan_applies l fs p" "\<forall>f \<in> set fs. single_field (applierOptions l) f"
  shows "\<forall>e \<in> set (planned_fields fs p). single_field (applierOptions l) e"
proof
  fix e assume "e \<in> set (planned_fields fs p)"
  then have "e \<in> set (emit_steps (header_line (hp_name p)) (rev fs) (hp_steps p))" by (simp add: planned_fields_def)
  moreover have "list_all step_valid (hp_steps p)" using assms(1) by (simp add: plan_ok_def steps_ok_def)
  ultimately have "e \<in> set (rev fs) \<or> (\<exists>d \<in> set (literals (hp_steps p)). e = header_line (hp_name p) d \<and> clean d)"
    by (intro emit_steps_elem)
  then consider "e \<in> set (rev fs)"
    | d where "d \<in> set (literals (hp_steps p))" "e = header_line (hp_name p) d" "clean d"
    by blast
  then show "single_field (applierOptions l) e"
  proof cases
    case 1
    then show ?thesis using assms(3) by simp
  next
    case 2
    moreover have "validHeaderFieldName (hp_name p)" using assms(1) by (simp add: plan_ok_def)
    ultimately have "\<exists>f. header_field_inv f \<and> hf_originalBytes f = e" "octets_fit l e"
      using header_line_field [of "hp_name p" d] assms(2) by (simp_all add: plan_applies_def)
    then show ?thesis unfolding single_field_octets [symmetric] ..
  qed
qed

lemma emitted_single_fields:
  assumes "recipe_ok r" "header_block_inv (ss_headers s)" "source_headers_ok l (ss_headers s)" "names_and_plans_ok l s r"
  shows "\<forall>e \<in> set (emitted_fields s r). single_field (applierOptions l) e"
proof
  let ?fs = "hb_fields (ss_headers s)"
  have grp: "f \<in> set (field_group ?fs n) \<Longrightarrow> single_field (applierOptions l) f" for f n
    using group_source_fields [OF assms(2,3)] by blast
  fix e assume e: "e \<in> set (emitted_fields s r)"
  show "single_field (applierOptions l) e"
  proof (cases "rc_hasHeaderRecipe r")
    case False
    with e obtain f where "f \<in> set ?fs" "e = hf_originalBytes f" by (auto simp: emitted_fields_def Let_def)
    then have "e \<in> set (field_group ?fs (hf_nameLower f))" by (auto simp: field_group_def)
    then show ?thesis by (rule grp)
  next
    case True
    with e obtain n where n: "e \<in> set (group_fields ?fs r n)" by (auto simp: emitted_fields_def Let_def)
    show ?thesis
    proof (cases "plan_for r n")
      case None
      with n grp show ?thesis by (auto simp: group_fields_def)
    next
      case (Some p)
      then have p: "p \<in> set (rc_headers r)" "hp_name p = n" using plan_for_Some by blast+
      then have "plan_applies l (field_group ?fs n) p" "plan_ok p"
        using assms(1,4) True recipe_plan_ok by (auto simp: names_and_plans_ok_def Let_def)
      then show ?thesis using planned_single_fields grp n Some by (auto simp: group_fields_def)
    qed
  qed
qed

definition with_headers :: "State \<Rightarrow> HeaderBlock \<Rightarrow> State" where
  "with_headers s h =
     (if ss_availability s = BodyAvailabilityUnavailable then unavailable_state h
      else known_state h (ss_body s)
             (if ss_framing s = MessageFramingHeaderOnly \<and> hb_fields h = [] then MessageFramingDelimited
              else ss_framing s))"

definition header_state_size :: "State \<Rightarrow> bytes list \<Rightarrow> int" where
  "header_state_size s es = int (length (concat es))
     + (if ss_availability s = BodyAvailabilityKnown
        then int (Body_Len (ss_body s)) + separator_len
          (if ss_framing s = MessageFramingHeaderOnly \<and> es = [] then MessageFramingDelimited else ss_framing s)
        else 0)"

lemma block_of_Nil_iff: "block_of es h \<Longrightarrow> hb_fields h = [] \<longleftrightarrow> es = []"
  by (auto simp: block_of_def)

lemma headerFinish_success:
  assumes "applier_ok a" "state_ok s" "\<forall>e \<in> set es. single_field (applierOptions (ap_limits a)) e"
    "out = \<lparr>ho_applier = a, ho_current = s, ho_encoded = es, ho_headerBytes = int (length (concat es)),
      ho_enforceState = enf\<rparr>"
  shows "headerFinish out = Inr s' \<longleftrightarrow>
    int (length es) \<le> rl_MaxHeaderFields (ap_limits a) \<and> int (length (concat es)) \<le> rl_MaxHeaderBytes (ap_limits a)
    \<and> (enf \<longrightarrow> header_state_size s es \<le> rl_MaxStateBytes (ap_limits a))
    \<and> (\<exists>h. block_of es h \<and> s' = with_headers s h)"
proof -
  let ?l = "ap_limits a"
  have l: "limits_ok ?l" "ap_rawOptions a = applierOptions ?l" using assms(1) by (simp_all add: applier_ok_def)
  have max: "rl_MaxStateBytes ?l \<le> 134217728" "0 < rl_MaxStateBytes ?l" using limits_ok_bounds [OF l(1)] by simp_all
  define st where "st = (if enf then stateBytes out (int (length (concat es))) (int (length es)) else (0, True))"
  have st: "(\<not> snd st \<or> fst st > rl_MaxStateBytes ?l) \<longleftrightarrow> \<not> (enf \<longrightarrow> header_state_size s es \<le> rl_MaxStateBytes ?l)"
    using max unfolding st_def assms(4)
    by (auto simp: stateBytes_def Let_def header_state_size_def separator_len_def checkedAdd_def MaxInt_def)
  have blk: "NewReconstructedHeaderBlock es (applierOptions ?l) = Inr h \<longleftrightarrow>
      int (length es) \<le> rl_MaxHeaderFields ?l \<and> int (length (concat es)) \<le> rl_MaxHeaderBytes ?l \<and> block_of es h" for h
    using assms(3) applierOptions_valid [OF l(1)] by (simp add: NewReconstructedHeaderBlock_Inr_iff)
  have fin: "(if ss_availability s = BodyAvailabilityUnavailable then newUnavailableState h
      else newKnownState h (ss_body s)
        (if ss_framing s = MessageFramingHeaderOnly \<and> HeaderBlock_Len h = 0 then MessageFramingDelimited else ss_framing s))
      = Inr s' \<longleftrightarrow> s' = with_headers s h" if "block_of es h" for h
  proof -
    have h: "hb_initialized h" using that by (simp add: block_of_def header_block_inv_initialized)
    from assms(2) show ?thesis
      by (cases rule: state_ok_cases)
         (auto simp: with_headers_def newUnavailableState_Inr_iff newKnownState_Inr_iff h HeaderBlock_Len_def
           MessageFraming_Known_def body_inv_initialized)
  qed
  have fin_eq: "headerFinish out = (case st of (v, ok) \<Rightarrow>
      if \<not> ok \<or> v > rl_MaxStateBytes ?l then Inl (applyLimitError limitNameMaxStateBytes (rl_MaxStateBytes ?l) v)
      else case NewReconstructedHeaderBlock es (applierOptions ?l) of
        Inl err \<Rightarrow> Inl (mapRawApplicationError err DimensionHeader)
      | Inr h \<Rightarrow> if ss_availability s = BodyAvailabilityUnavailable then newUnavailableState h
          else newKnownState h (ss_body s)
            (if ss_framing s = MessageFramingHeaderOnly \<and> HeaderBlock_Len h = 0 then MessageFramingDelimited
             else ss_framing s))"
    unfolding headerFinish_def st_def assms(4) Let_def l(2) [symmetric] headerOutput.simps ..
  have "headerFinish out = Inr s' \<longleftrightarrow> \<not> (\<not> snd st \<or> fst st > rl_MaxStateBytes ?l)
      \<and> (\<exists>h. NewReconstructedHeaderBlock es (applierOptions ?l) = Inr h
          \<and> (if ss_availability s = BodyAvailabilityUnavailable then newUnavailableState h
             else newKnownState h (ss_body s)
               (if ss_framing s = MessageFramingHeaderOnly \<and> HeaderBlock_Len h = 0 then MessageFramingDelimited
                else ss_framing s)) = Inr s')"
    unfolding fin_eq
    by (cases st; cases "NewReconstructedHeaderBlock es (applierOptions ?l)") simp_all
  then show ?thesis unfolding st blk using fin by blast
qed

section \<open>Header application\<close>

definition fields_fit :: "RecipeLimits \<Rightarrow> State \<Rightarrow> bool \<Rightarrow> bytes list \<Rightarrow> bool" where
  "fields_fit l s enf es \<longleftrightarrow> int (length es) \<le> rl_MaxHeaderFields l \<and> int (length (concat es)) \<le> rl_MaxHeaderBytes l
     \<and> (enf \<longrightarrow> header_state_size s es \<le> rl_MaxStateBytes l)"

lemma header_state_size_base:
  "es \<noteq> [] \<Longrightarrow> header_state_size s es = int (length (concat es)) + state_base s"
  by (auto simp: header_state_size_def state_base_def)

lemma header_emission_finish:
  assumes ok: "applier_ok a" "state_ok s"
    and c: "work_room c" "uc_limits c = ap_limits a" "uc_emittedBytes c \<le> rl_MaxStateBytes (ap_limits a)"
    and emits: "header_emission.emits a s enf m side items"
    and single: "side \<Longrightarrow> \<forall>e \<in> set (item_fields items). single_field (applierOptions (ap_limits a)) e"
    and copies: "int (item_copies items) \<le> rl_MaxTotalCopiedItems (ap_limits a)"
    and es: "item_fields items = es"
    and out: "out = \<lparr>ho_applier = a, ho_current = s, ho_encoded = [], ho_headerBytes = 0, ho_enforceState = enf\<rparr>"
  shows "op_bind (m (out, 0)) (\<lambda>(out, _). op_lift (headerFinish out)) c = (Inr s', c') \<longleftrightarrow>
    side \<and> fields_fit (ap_limits a) s enf es
    \<and> uc_emittedBytes c + int (length (concat es)) \<le> rl_MaxStateBytes (ap_limits a)
    \<and> uc_workUnits c + int (length es) + int (length (concat es)) + int (item_copies items)
        \<le> rl_MaxOperationWorkUnits (ap_limits a)
    \<and> (\<exists>h. block_of es h \<and> s' = with_headers s h) \<and> c' = tick_header items c"
proof -
  let ?l = "ap_limits a"
  have l: "limits_ok ?l" using ok(1) by (simp add: applier_ok_def)
  have pos: "0 \<le> rl_MaxHeaderFields ?l" "0 \<le> rl_MaxHeaderBytes ?l" "0 \<le> rl_MaxTotalCopiedItems ?l"
    using limits_ok_bounds [OF l] limits_ok_plan_bounds [OF l] by simp_all
  have ready: "header_ready a s enf (out, 0) c" using c pos by (simp add: header_ready_def out)
  have put: "put_items items (out, 0) = (\<lparr>ho_applier = a, ho_current = s, ho_encoded = es,
      ho_headerBytes = int (length (concat es)), ho_enforceState = enf\<rparr>, int (item_copies items))"
    by (simp add: put_items_def out es)
  have fit: "items_fit items (out, 0) c \<longleftrightarrow> int (length es) \<le> rl_MaxHeaderFields ?l
      \<and> int (length (concat es)) \<le> rl_MaxHeaderBytes ?l
      \<and> (enf \<and> es \<noteq> [] \<longrightarrow> header_state_size s es \<le> rl_MaxStateBytes ?l)
      \<and> uc_emittedBytes c + int (length (concat es)) \<le> rl_MaxStateBytes ?l
      \<and> uc_workUnits c + int (length es) + int (length (concat es)) + int (item_copies items)
          \<le> rl_MaxOperationWorkUnits ?l"
    using copies c(2) header_state_size_base [of es s] by (auto simp: items_fit_def Let_def out es)
  have "op_bind (m (out, 0)) (\<lambda>(out, _). op_lift (headerFinish out)) c = (Inr s', c') \<longleftrightarrow>
      side \<and> items_fit items (out, 0) c \<and> headerFinish (fst (put_items items (out, 0))) = Inr s'
      \<and> c' = tick_header items c"
    using header_emission.emitsD [OF emits ready] by (auto simp: op_bind_success split: prod.splits)
  also have "\<dots> \<longleftrightarrow> side \<and> items_fit items (out, 0) c \<and> fields_fit ?l s enf es
      \<and> (\<exists>h. block_of es h \<and> s' = with_headers s h) \<and> c' = tick_header items c"
    unfolding put fst_conv fields_fit_def
    using headerFinish_success [OF ok, of es] single unfolding es by blast
  finally show ?thesis unfolding fit fields_fit_def by blast
qed

definition header_work :: "State \<Rightarrow> Recipe \<Rightarrow> nat" where
  "header_work s r = (let fs = hb_fields (ss_headers s) in
     if rc_hasHeaderRecipe r then sort_comparisons [] (all_names fs r) else 0)"

definition header_items :: "State \<Rightarrow> Recipe \<Rightarrow> nat" where
  "header_items s r = length (hb_fields (ss_headers s)) + length (emitted_fields s r)
     + (if rc_hasHeaderRecipe r then header_copies r else 0)"

definition spend :: "nat \<Rightarrow> nat \<Rightarrow> nat \<Rightarrow> usageCounter \<Rightarrow> usageCounter" where
  "spend items octets extra c = c\<lparr>uc_items := uc_items c + int items,
     uc_emittedBytes := uc_emittedBytes c + int octets,
     uc_workUnits := uc_workUnits c + int items + int octets + int extra\<rparr>"

definition headers_apply :: "RecipeLimits \<Rightarrow> State \<Rightarrow> Recipe \<Rightarrow> bool \<Rightarrow> bool" where
  "headers_apply l s r enf \<longleftrightarrow> header_plans_fit l r \<and> source_headers_ok l (ss_headers s)
     \<and> names_and_plans_ok l s r \<and> fields_fit l s enf (emitted_fields s r)"

definition headers_afford :: "RecipeLimits \<Rightarrow> State \<Rightarrow> Recipe \<Rightarrow> usageCounter \<Rightarrow> bool" where
  "headers_afford l s r c \<longleftrightarrow>
     uc_emittedBytes c + int (length (concat (emitted_fields s r))) \<le> rl_MaxStateBytes l
     \<and> uc_workUnits c + int (header_items s r) + int (length (concat (emitted_fields s r))) + int (header_work s r)
        \<le> rl_MaxOperationWorkUnits l"

definition headers_spend :: "State \<Rightarrow> Recipe \<Rightarrow> usageCounter \<Rightarrow> usageCounter" where
  "headers_spend s r = spend (header_items s r) (length (concat (emitted_fields s r))) (header_work s r)"

lemma tick_items_room: "work_room c \<Longrightarrow> uc_workUnits c + int n \<le> rl_MaxOperationWorkUnits (uc_limits c) \<Longrightarrow> work_room (tick_items n c)"
  "work_room c \<Longrightarrow> uc_workUnits c + int n \<le> rl_MaxOperationWorkUnits (uc_limits c) \<Longrightarrow> work_room (tick_work n c)"
  by (simp_all add: work_room_def)

text \<open>Without a header recipe every source field is emitted in order.\<close>

lemma plain_headers_success:
  assumes ok: "applier_ok a" "state_ok s" "source_headers_ok (ap_limits a) (ss_headers s)"
    and c: "work_room c" "uc_limits c = ap_limits a" "uc_emittedBytes c \<le> rl_MaxStateBytes (ap_limits a)"
    and out: "out = \<lparr>ho_applier = a, ho_current = s, ho_encoded = [], ho_headerBytes = 0, ho_enforceState = enf\<rparr>"
    and es: "es = map hf_originalBytes (hb_fields (ss_headers s))"
  shows "op_bind (op_each appendField es out) (\<lambda>out. op_lift (headerFinish out)) c = (Inr s', c') \<longleftrightarrow>
    fields_fit (ap_limits a) s enf es
    \<and> uc_emittedBytes c + int (length (concat es)) \<le> rl_MaxStateBytes (ap_limits a)
    \<and> uc_workUnits c + int (length es) + int (length (concat es)) \<le> rl_MaxOperationWorkUnits (ap_limits a)
    \<and> (\<exists>h. block_of es h \<and> s' = with_headers s h) \<and> c' = tick_lines es c"
proof -
  have h: "header_block_inv (ss_headers s)" using ok(2) by (simp add: state_ok_def)
  have grp: "e \<in> set (field_group (hb_fields (ss_headers s)) (hf_nameLower f))"
    if "f \<in> set (hb_fields (ss_headers s))" "e = hf_originalBytes f" for e f
    using that by (auto simp: field_group_def)
  have src: "terminated e \<and> octets_fit (ap_limits a) e \<and> single_field (applierOptions (ap_limits a)) e"
    if "e \<in> set es" for e
  proof -
    from that obtain f where "f \<in> set (hb_fields (ss_headers s))" "e = hf_originalBytes f" by (auto simp: es)
    then show ?thesis using group_source_fields [OF h ok(3) grp] by blast
  qed
  have "(\<forall>e \<in> set es. octets_fit (ap_limits a) e) = True" using src by blast
  then have emits: "header_emission.emits a s enf (on_output (op_each appendField es)) True (map Inl es)"
    using emits_field_list [of es a s enf] src by simp
  have eq: "op_bind (op_each appendField es out) (\<lambda>out. op_lift (headerFinish out))
      = op_bind (on_output (op_each appendField es) (out, 0)) (\<lambda>(out, _). op_lift (headerFinish out))"
    by (simp add: on_output_def op_bind_assoc del: op_eval)
  have tick: "tick_header (map Inl es) c = tick_lines es c"
    by (simp add: tick_header_def item_meter.advance_zero)
  show ?thesis
    unfolding eq using header_emission_finish [OF ok(1,2) c emits _ _ _ out, of es s' c'] src
      limits_ok_plan_bounds [of "ap_limits a"] ok(1)
    by (simp add: tick applier_ok_def)
qed

text \<open>With a header recipe the groups are emitted in the order of the sorted names.\<close>

lemma planned_groups_emit:
  assumes ok: "state_ok s" "recipe_ok r" "source_headers_ok (ap_limits a) (ss_headers s)"
    "plan_fits (ap_limits a) (recipe_steps r)" "rc_hasHeaderRecipe r"
    and fs: "fs = hb_fields (ss_headers s)"
    and g: "g = (\<lambda>n. if n \<in> set (all_names fs r) then Some (field_group fs n) else None)"
  shows "header_emission.emits a s enf (op_each (emitGroup g (plan_for r)) (sort (all_names fs r)))
    (\<forall>p \<in> set (rc_headers r). plan_applies (ap_limits a) (field_group fs (hp_name p)) p)
    (concat (map (group_items g (plan_for r)) (sort (all_names fs r))))"
proof -
  have h: "header_block_inv (ss_headers s)" using ok(1) by (simp add: state_ok_def)
  have src: "\<forall>f \<in> set gs. terminated f \<and> octets_fit (ap_limits a) f" if "g n = Some gs" for n gs
    using that group_source_fields [OF h ok(3)] by (auto simp: g fs split: if_splits)
  have plans: "list_all step_valid (hp_steps p) \<and> clean (hp_name p) \<and> instructions_fit (ap_limits a) (hp_steps p)"
    if p: "plan_for r n = Some p" for n p
  proof -
    have mem: "p \<in> set (rc_headers r)" using plan_for_Some [OF p] by simp
    then have "plan_ok p" using recipe_plan_ok ok(2) by blast
    moreover have "set (hp_steps p) \<subseteq> set (recipe_steps r)" using mem by (auto simp: recipe_steps_def)
    then have "instructions_fit (ap_limits a) (hp_steps p)"
      using ok(4) by (fastforce simp: plan_fits_def instructions_fit_def copy_ranges_def literals_def)
    ultimately show ?thesis
      using validHeaderFieldName_no_specials [of "hp_name p"] by (simp add: plan_ok_def steps_ok_def clean_def)
  qed
  have "(\<forall>n \<in> set (sort (all_names fs r)). \<forall>p. plan_for r n = Some p \<longrightarrow>
        plan_applies (ap_limits a) (case g n of None \<Rightarrow> [] | Some gs \<Rightarrow> gs) p) \<longleftrightarrow>
      (\<forall>p \<in> set (rc_headers r). plan_applies (ap_limits a) (field_group fs (hp_name p)) p)" (is "?L = ?R")
  proof
    assume L: ?L
    show ?R
    proof
      fix p assume p: "p \<in> set (rc_headers r)"
      then have "hp_name p \<in> set (all_names fs r)" by (simp add: set_all_names)
      with L plan_for_self [OF ok(2) p] show "plan_applies (ap_limits a) (field_group fs (hp_name p)) p"
        by (force simp: g)
    qed
  next
    assume ?R then show ?L using plan_for_Some by (fastforce simp: g)
  qed
  then show ?thesis
    using emits_groups [of g a "plan_for r" s enf "sort (all_names fs r)", OF src plans] by simp
qed

lemma planned_headers_success:
  assumes ok: "applier_ok a" "state_ok s" "recipe_ok r" "source_headers_ok (ap_limits a) (ss_headers s)"
    "plan_fits (ap_limits a) (recipe_steps r)" "rc_hasHeaderRecipe r"
    and c: "work_room c" "uc_limits c = ap_limits a" "uc_emittedBytes c \<le> rl_MaxStateBytes (ap_limits a)"
    and out: "out = \<lparr>ho_applier = a, ho_current = s, ho_encoded = [], ho_headerBytes = 0, ho_enforceState = enf\<rparr>"
  shows "op_bind (op_lift (planNames (ap_limits a) (rc_headers r) Map.empty (groups_of (hb_fields (ss_headers s)))))
      (\<lambda>(plans, acc). op_bind (sortHeaderNames (hg_names acc)) (\<lambda>names.
         op_bind (op_each (emitGroup (hg_groups acc) plans) names (out, 0)) (\<lambda>(out, _). op_lift (headerFinish out))))
      c = (Inr s', c') \<longleftrightarrow>
    names_and_plans_ok (ap_limits a) s r \<and> fields_fit (ap_limits a) s enf (emitted_fields s r)
    \<and> headers_afford (ap_limits a) s r (c\<lparr>uc_workUnits := uc_workUnits c - int (length (hb_fields (ss_headers s)))\<rparr>)
    \<and> (\<exists>h. block_of (emitted_fields s r) h \<and> s' = with_headers s h)
    \<and> c' = tick_items (header_copies r) (tick_lines (emitted_fields s r) (tick_work (header_work s r) c))"
proof -
  let ?l = "ap_limits a" and ?fs = "hb_fields (ss_headers s)"
  let ?g = "\<lambda>n. if n \<in> set (all_names ?fs r) then Some (field_group ?fs n) else None"
  let ?items = "concat (map (group_items ?g (plan_for r)) (sort (all_names ?fs r)))"
  let ?plans = "\<forall>p \<in> set (rc_headers r). plan_applies ?l (field_group ?fs (hp_name p)) p"
  let ?names = "int (length (all_names ?fs r)) \<le> rl_MaxHeaderNames ?l
      \<and> int (length (concat (all_names ?fs r))) \<le> rl_MaxTotalHeaderNameBytes ?l"
  have np: "names_and_plans_ok ?l s r \<longleftrightarrow> ?names \<and> ?plans" using ok(6) by (simp add: names_and_plans_ok_def Let_def)
  have h: "header_block_inv (ss_headers s)" using ok(2) by (simp add: state_ok_def)
  have work: "header_work s r = sort_comparisons [] (all_names ?fs r)" using ok(6) by (simp add: header_work_def Let_def)
  have max: "rl_MaxTotalHeaderNameBytes ?l \<le> 16384" using ok(1) limits_ok_bounds [of ?l] by (simp add: applier_ok_def)
  have canon: "\<forall>p \<in> set (rc_headers r). hp_canonicalName p = hp_name p"
    using recipe_plan_ok [OF ok(3)] by (simp add: plan_ok_def)
  have groups: "hg_names (groups_of ?fs) = field_names ?fs"
      "hg_nameBytes (groups_of ?fs) = int (length (concat (field_names ?fs)))"
    by (simp_all add: groups_of_def)
  have names: "planNames ?l (rc_headers r) Map.empty (groups_of ?fs) = Inr (plans', acc') \<longleftrightarrow>
      ?names \<and> plans' = plan_for r \<and> acc' = with_plan_names (map hp_name (rc_headers r)) (groups_of ?fs)" for plans' acc'
    using planNames_success [OF recipe_names_distinct [OF ok(3)] canon _ _ _ max, of "groups_of ?fs" Map.empty plans' acc'] ok(4)
    by (simp add: with_plan_names_groups plan_for_def source_headers_ok_def names_fit_def groups)
  have fields: "item_fields ?items = emitted_fields s r"
    using group_items_fields [of "sort (all_names ?fs r)" ?g ?fs r] ok(6) by (simp add: emitted_fields_def Let_def)
  note copies = group_items_copies [OF ok(3), of ?g ?fs]
  have single: "\<forall>e \<in> set (item_fields ?items). single_field (applierOptions ?l) e" if ?names ?plans
    using emitted_single_fields [OF ok(3) h ok(4)] np that unfolding fields by blast
  let ?w = "header_work s r"
  have run: "op_bind (op_each (emitGroup ?g (plan_for r)) (sort (all_names ?fs r)) (out, 0))
      (\<lambda>(out, _). op_lift (headerFinish out)) (tick_work ?w c) = (Inr s', c') \<longleftrightarrow>
      ?plans \<and> fields_fit ?l s enf (emitted_fields s r)
      \<and> uc_emittedBytes c + int (length (concat (emitted_fields s r))) \<le> rl_MaxStateBytes ?l
      \<and> uc_workUnits c + int ?w + int (length (emitted_fields s r)) + int (length (concat (emitted_fields s r)))
          + int (header_copies r) \<le> rl_MaxOperationWorkUnits ?l
      \<and> (\<exists>h. block_of (emitted_fields s r) h \<and> s' = with_headers s h)
      \<and> c' = tick_header ?items (tick_work ?w c)"
    if ?names "uc_workUnits c + int ?w \<le> rl_MaxOperationWorkUnits ?l"
    using header_emission_finish [OF ok(1,2) _ _ _ planned_groups_emit [OF ok(2,3,4,5,6) refl refl, of enf] _ _ fields out,
        of "tick_work ?w c" s' c'] single that c copies header_copies_bound [OF ok(3,5)] tick_items_room(2) [OF c(1)]
    by simp
  have tick: "tick_header ?items (tick_work ?w c)
      = tick_items (header_copies r) (tick_lines (emitted_fields s r) (tick_work ?w c))"
    by (simp only: tick_header_def fields copies)
  have "op_bind (op_lift (planNames ?l (rc_headers r) Map.empty (groups_of ?fs)))
      (\<lambda>(plans, acc). op_bind (sortHeaderNames (hg_names acc)) (\<lambda>names.
         op_bind (op_each (emitGroup (hg_groups acc) plans) names (out, 0)) (\<lambda>(out, _). op_lift (headerFinish out))))
      c = (Inr s', c') \<longleftrightarrow> ?names \<and> uc_workUnits c + int ?w \<le> rl_MaxOperationWorkUnits ?l
      \<and> op_bind (op_each (emitGroup ?g (plan_for r)) (sort (all_names ?fs r)) (out, 0))
          (\<lambda>(out, _). op_lift (headerFinish out)) (tick_work ?w c) = (Inr s', c')"
    unfolding op_bind_success [of "op_lift _"] op_bind_success [of "sortHeaderNames _"]
    using names sortHeaderNames_success [OF c(1)] c(2) by (auto simp: work with_plan_names_groups op_bind_success [of "sortHeaderNames _"])
  then show ?thesis
    using run unfolding np tick headers_afford_def
    by (auto simp: header_items_def ok(6))
qed

lemma spend_ticks:
  "tick_lines es (tick_items n c) = spend (n + length es) (length (concat es)) 0 c"
  "tick_items k (tick_lines es (tick_work w (tick_items n c))) = spend (n + length es + k) (length (concat es)) w c"
  by (simp_all add: spend_def tick_lines_def tick_defs)

theorem applyHeadersUsing_success:
  assumes ok: "applier_ok a" "state_ok s" "recipe_ok r" "plan_fits (ap_limits a) (recipe_steps r)"
    and c: "work_room c" "uc_limits c = ap_limits a" "uc_emittedBytes c \<le> rl_MaxStateBytes (ap_limits a)"
  shows "applyHeadersUsing a s r enf c = (Inr s', c') \<longleftrightarrow>
    headers_apply (ap_limits a) s r enf \<and> headers_afford (ap_limits a) s r c
    \<and> (\<exists>h. block_of (emitted_fields s r) h \<and> s' = with_headers s h) \<and> c' = headers_spend s r c"
proof -
  let ?l = "ap_limits a" and ?fs = "hb_fields (ss_headers s)" and ?es = "emitted_fields s r"
  let ?out = "\<lparr>ho_applier = a, ho_current = s, ho_encoded = [], ho_headerBytes = 0, ho_enforceState = enf\<rparr>"
  let ?k = "\<lambda>acc. if \<not> rc_hasHeaderRecipe r
    then op_bind (op_each appendField (hg_source acc) ?out) (\<lambda>out. op_lift (headerFinish out))
    else op_bind (op_lift (planNames ?l (rc_headers r) Map.empty acc)) (\<lambda>(plans, acc).
      op_bind (sortHeaderNames (hg_names acc)) (\<lambda>names.
        op_bind (op_each (emitGroup (hg_groups acc) plans) names (?out, 0)) (\<lambda>(out, _). op_lift (headerFinish out))))"
  let ?c = "tick_items (length ?fs) c"
  have valid: "Applier_valid a" "State_Valid s" "Recipe_Valid r"
    using applier_ok_valid [OF ok(1)] state_ok_Valid [OF ok(2)] ok(3) by (simp_all add: Recipe_Valid_iff)
  have h: "header_block_inv (ss_headers s)" using ok(2) by (simp add: state_ok_def)
  have src: "hg_source (groups_of ?fs) = map hf_originalBytes ?fs" by (simp add: groups_of_def)
  have run: "applyHeadersUsing a s r enf c = (Inr s', c') \<longleftrightarrow> header_plans_fit ?l r \<and> source_headers_ok ?l (ss_headers s)
      \<and> uc_workUnits c + int (length ?fs) \<le> rl_MaxOperationWorkUnits ?l \<and> ?k (groups_of ?fs) ?c = (Inr s', c')"
    unfolding applyHeadersUsing_def Let_def
    using valid validateHeaderPlanBudgets_None_iff [OF ok(1,3,4)] collectHeaderGroups_success [OF ok(1) h c(1,2)]
    by (simp add: op_guard_success op_bind_success [of "collectHeaderGroups _ _"])
  have fin: "?k (groups_of ?fs) ?c = (Inr s', c') \<longleftrightarrow> names_and_plans_ok ?l s r \<and> fields_fit ?l s enf ?es
      \<and> headers_afford ?l s r c \<and> (\<exists>h. block_of ?es h \<and> s' = with_headers s h) \<and> c' = headers_spend s r c"
    if so: "source_headers_ok ?l (ss_headers s)" and room: "uc_workUnits c + int (length ?fs) \<le> rl_MaxOperationWorkUnits ?l"
  proof (cases "rc_hasHeaderRecipe r")
    case True
    then show ?thesis
      using planned_headers_success [OF ok(1-3) so ok(4) True, of ?c ?out enf s' c'] tick_items_room(1) [OF c(1)] c room
      by (simp add: headers_spend_def spend_ticks header_items_def headers_afford_def)
  next
    case False
    then have "?es = map hf_originalBytes ?fs" "names_and_plans_ok ?l s r"
      by (simp_all add: emitted_fields_def Let_def names_and_plans_ok_def)
    then show ?thesis
      using plain_headers_success [OF ok(1,2) so, of ?c ?out enf "map hf_originalBytes ?fs" s' c']
        tick_items_room(1) [OF c(1)] c room False src
      by (simp add: headers_spend_def spend_ticks header_items_def headers_afford_def header_work_def ac_simps)
  qed
  have "headers_afford ?l s r c \<Longrightarrow> uc_workUnits c + int (length ?fs) \<le> rl_MaxOperationWorkUnits ?l"
    by (simp add: headers_afford_def header_items_def)
  then show ?thesis unfolding run headers_apply_def using fin by blast
qed

text \<open>The state with the new block is again a state of the package.\<close>

lemma with_headers_ok: "state_ok s \<Longrightarrow> block_of es h \<Longrightarrow> state_ok (with_headers s h)"
  by (cases rule: state_ok_cases)
     (auto simp: with_headers_def block_of_def state_ok_known state_ok_unavailable MessageFraming_Known_def)

end
