(* ===== verification/Recipe_Apply.thy ===== *)
theory Recipe_Apply
  imports Recipe_Header_Apply
begin

text \<open>
  Whole recipe application (\<open>applier.go\<close>): the recipes that \<open>Apply\<close> and \<open>ApplyHistorical\<close> accept for a
  state, the state they return and the usage they report.
\<close>

section \<open>The applied state\<close>

text \<open>The body is dropped by an unavailable-body recipe, and stays unknown without body steps.\<close>

definition drops_body :: "State \<Rightarrow> Recipe \<Rightarrow> bool" where
  "drops_body s r \<longleftrightarrow> rc_bodyMode r = BodyModeUnavailable
     \<or> rc_bodyMode r = BodyModeAbsent \<and> ss_availability s = BodyAvailabilityUnavailable"

definition applied_framing :: "State \<Rightarrow> Recipe \<Rightarrow> MessageFraming" where
  "applied_framing s r =
     (if rc_bodyMode r = BodyModeSteps \<or> ss_framing s = MessageFramingHeaderOnly \<and> emitted_fields s r = []
      then MessageFramingDelimited else ss_framing s)"

definition applied :: "State \<Rightarrow> Recipe \<Rightarrow> State \<Rightarrow> bool" where
  "applied s r s' \<longleftrightarrow> block_of (emitted_fields s r) (ss_headers s')
     \<and> s' = (if drops_body s r then unavailable_state (ss_headers s')
             else known_state (ss_headers s') (body_of (concat (emitted_lines s r))) (applied_framing s r))"

lemma applied_unique: "applied s r s1 \<Longrightarrow> applied s r s2 \<Longrightarrow> s1 = s2"
  using block_of_unique unfolding applied_def by metis

text \<open>What the application consumes.\<close>

definition preflighted :: "State \<Rightarrow> Recipe \<Rightarrow> bool" where
  "preflighted s r \<longleftrightarrow> ss_availability s = BodyAvailabilityKnown \<and> rc_bodyMode r \<noteq> BodyModeUnavailable"

definition body_lines :: "State \<Rightarrow> Recipe \<Rightarrow> bytes list" where
  "body_lines s r = (if drops_body s r then [] else emitted_lines s r)"

definition applied_items :: "State \<Rightarrow> Recipe \<Rightarrow> nat" where
  "applied_items s r = (if preflighted s r then preflight_work s r else 0) + header_items s r + length (body_lines s r)"

definition applied_octets :: "State \<Rightarrow> Recipe \<Rightarrow> nat" where
  "applied_octets s r = length (concat (emitted_fields s r)) + length (concat (body_lines s r))"

definition applied_usage :: "State \<Rightarrow> Recipe \<Rightarrow> Usage" where
  "applied_usage s r = newUsage 0 (int (applied_octets s r)) (int (applied_items s r))
     (int (applied_items s r + applied_octets s r + header_work s r))"

definition rebuilt_fits :: "RecipeLimits \<Rightarrow> State \<Rightarrow> Recipe \<Rightarrow> bool" where
  "rebuilt_fits l s r \<longleftrightarrow>
     (if drops_body s r then int (length (concat (emitted_fields s r))) \<le> rl_MaxStateBytes l
      else (preflighted s r \<longrightarrow> source_ok l s r)
        \<and> data_fit (rl_MaxBodyLineBytes l) (literals (rc_bodySteps r))
        \<and> int (length (emitted_lines s r)) \<le> rl_MaxBodyLines l
        \<and> int (applied_octets s r) + separator_len (applied_framing s r) \<le> rl_MaxStateBytes l)"

definition application_fits :: "RecipeLimits \<Rightarrow> State \<Rightarrow> Recipe \<Rightarrow> bool" where
  "application_fits l s r \<longleftrightarrow> plan_fits l (recipe_steps r) \<and> int (length (rc_bodySteps r)) \<le> rl_MaxBodySteps l
     \<and> (ss_availability s = BodyAvailabilityUnavailable \<longrightarrow> copy_ranges (rc_bodySteps r) = [])
     \<and> headers_apply l s r (rc_bodyMode r = BodyModeAbsent) \<and> rebuilt_fits l s r
     \<and> int (applied_items s r + applied_octets s r + header_work s r) \<le> rl_MaxOperationWorkUnits l"

section \<open>Exact application\<close>

lemma spend_simps [simp]:
  "uc_limits (spend i e w c) = uc_limits c" "uc_emittedBytes (spend i e w c) = uc_emittedBytes c + int e"
  "uc_workUnits (spend i e w c) = uc_workUnits c + int i + int e + int w" "uc_items (spend i e w c) = uc_items c + int i"
  "uc_decodedBytes (spend i e w c) = uc_decodedBytes c"
  by (simp_all add: spend_def)

lemma spend_add: "spend i e w (spend j f v c) = spend (i + j) (e + f) (w + v) c"
  by (simp add: spend_def)

lemma spend_tick: "tick_items n c = spend n 0 0 c" "tick_lines es c = spend (length es) (length (concat es)) 0 c"
  by (simp_all add: spend_def tick_lines_def tick_defs)

lemma spend_room:
  "work_room c \<Longrightarrow> uc_workUnits c + int i + int e + int w \<le> rl_MaxOperationWorkUnits (uc_limits c) \<Longrightarrow> work_room (spend i e w c)"
  by (simp add: work_room_def counter_ready_def)

lemma with_headers_simps [simp]:
  "ss_headers (with_headers s h) = h" "source_lines (with_headers s h) = (if ss_availability s = BodyAvailabilityUnavailable then [] else source_lines s)"
  by (simp_all add: with_headers_def source_lines_def zeroBody_def)

lemma separator_nonneg: "0 \<le> separator_len f"
  by (simp add: separator_len_def)

lemma mode_cases:
  assumes "recipe_ok r"
  obtains "rc_bodyMode r = BodyModeAbsent" "rc_bodySteps r = []" | "rc_bodyMode r = BodyModeSteps"
    | "rc_bodyMode r = BodyModeUnavailable"
  using assms by (auto simp: recipe_ok_def BodyMode_Known_def)

lemma applied_simps:
  assumes "state_ok s" "block_of (emitted_fields s r) h" "\<not> drops_body s r" "recipe_ok r"
  shows "emitted_lines (with_headers s h) r = emitted_lines s r" "emitted_framing (with_headers s h) r = applied_framing s r"
    "rebuilt (with_headers s h) r = known_state h (body_of (concat (emitted_lines s r))) (applied_framing s r)"
proof -
  show lines: "emitted_lines (with_headers s h) r = emitted_lines s r"
    using assms(1) by (cases rule: state_ok_cases) (simp_all add: emitted_lines_def)
  show fr: "emitted_framing (with_headers s h) r = applied_framing s r"
    using assms(3,4) block_of_Nil_iff [OF assms(2)]
    by (auto simp: emitted_framing_def applied_framing_def with_headers_def drops_body_def elim: mode_cases)
  show "rebuilt (with_headers s h) r = known_state h (body_of (concat (emitted_lines s r))) (applied_framing s r)"
    by (simp add: rebuilt_def lines fr)
qed

lemma emission_room_applied:
  assumes "state_ok s" "block_of (emitted_fields s r) h" "\<not> drops_body s r" "recipe_ok r"
    "uc_emittedBytes c = int (length (concat (emitted_fields s r)))" "preflighted s r \<Longrightarrow> source_ok l s r"
  shows "emission_room l (with_headers s h) r c \<longleftrightarrow>
    rebuilt_fits l s r
    \<and> uc_workUnits c + int (length (body_lines s r)) + int (length (concat (body_lines s r))) \<le> rl_MaxOperationWorkUnits l"
proof -
  have "int (HeaderBlock_OriginalByteLen h) = int (length (concat (emitted_fields s r)))"
    using block_of_bytes [OF assms(2)] by (simp add: HeaderBlock_OriginalByteLen_def)
  then show ?thesis
    using assms(3,5,6) separator_nonneg [of "applied_framing s r"]
    unfolding emission_room_def rebuilt_fits_def body_lines_def applied_octets_def applied_simps [OF assms(1-4)]
    by (auto simp: add.assoc)
qed

lemma body_after_headers:
  assumes ok: "applier_ok a" "recipe_ok r" "state_ok s" "plan_fits (ap_limits a) (recipe_steps r)"
      "int (length (rc_bodySteps r)) \<le> rl_MaxBodySteps (ap_limits a)"
    and h: "block_of (emitted_fields s r) h"
    and src: "preflighted s r \<Longrightarrow> source_ok (ap_limits a) s r"
      "ss_availability s = BodyAvailabilityUnavailable \<Longrightarrow> copy_ranges (rc_bodySteps r) = []"
    and c: "work_room c" "uc_limits c = ap_limits a" "uc_emittedBytes c \<le> rl_MaxStateBytes (ap_limits a)"
      "uc_emittedBytes c = int (length (concat (emitted_fields s r)))"
  shows "applyBodyUsing a (with_headers s h) r (preflighted s r) c = (Inr s', c') \<longleftrightarrow>
    rebuilt_fits (ap_limits a) s r
    \<and> uc_workUnits c + int (length (body_lines s r)) + int (length (concat (body_lines s r)))
        \<le> rl_MaxOperationWorkUnits (ap_limits a)
    \<and> applied s r s' \<and> ss_headers s' = h \<and> c' = tick_lines (body_lines s r) c"
proof -
  let ?l = "ap_limits a" and ?t = "with_headers s h"
  have plan: "validateBodyPlanBudgets a r = None" using validateBodyPlanBudgets_None_iff ok by blast
  have len: "int (HeaderBlock_OriginalByteLen h) = int (length (concat (emitted_fields s r)))"
    using block_of_bytes [OF h] by (simp add: HeaderBlock_OriginalByteLen_def)
  note tok = with_headers_ok [OF ok(3) h]
  have app: "applied s r s' \<and> ss_headers s' = h \<longleftrightarrow> s' = (if drops_body s r then unavailable_state h
      else known_state h (body_of (concat (emitted_lines s r))) (applied_framing s r))"
    using h by (auto simp: applied_def)
  show ?thesis
  proof (cases "drops_body s r")
    case True
    then have drop: "rc_bodyMode r = BodyModeUnavailable \<or> rc_bodyMode r = BodyModeAbsent \<and> ?t = unavailable_state (ss_headers ?t)"
      by (auto simp: drops_body_def with_headers_def)
    show ?thesis
      unfolding applyBodyUsing_dropped [OF ok(1,2) tok drop] using True plan app c(1,2)
      by (auto simp: rebuilt_fits_def body_lines_def len tick_lines_def tick_defs work_room_def)
  next
    case False
    then have mode: "rc_bodyMode r \<noteq> BodyModeUnavailable" by (auto simp: drops_body_def)
    note room = emission_room_applied [OF ok(3) h False ok(2) c(4) src(1)]
    note shape = applied_simps [OF ok(3) h False ok(2)]
    from ok(3) show ?thesis
    proof (cases rule: state_ok_cases)
      case (unavailable k)
      then have t: "?t = unavailable_state h" and steps: "rc_bodyMode r = BodyModeSteps"
        using False mode ok(2) by (auto simp: with_headers_def drops_body_def elim: mode_cases)
      have hinv: "header_block_inv h" using h by (simp add: block_of_def)
      have copies: "copy_ranges (rc_bodySteps r) = []" using src(2) unavailable by simp
      show ?thesis
        unfolding applyBodyUsing_from_literals [OF ok(1,2) hinv steps t copies c(1-3)]
        using plan room app False by (auto simp: shape body_lines_def)
    next
      case (known k b f)
      define g where "g = (if f = MessageFramingHeaderOnly \<and> hb_fields h = [] then MessageFramingDelimited else f)"
      have t: "?t = known_state h b g" using known by (simp add: with_headers_def g_def)
      have pre: "preflighted s r" using known mode by (simp add: preflighted_def)
      then have so: "source_ok ?l ?t r" using src(1) known by (simp add: source_ok_def)
      show ?thesis
        using applyBodyUsing_known [OF ok(1,2) tok t mode so c(1-3), of s' c'] plan room app False pre
        by (auto simp: shape body_lines_def)
    qed
  qed
qed

section \<open>The three phases together\<close>

definition zero_counter :: "RecipeLimits \<Rightarrow> usageCounter" where
  "zero_counter l = \<lparr>uc_limits = l, uc_decodedBytes = 0, uc_emittedBytes = 0, uc_items = 0, uc_workUnits = 0\<rparr>"

lemma zero_counter_simps [simp]:
  "uc_limits (zero_counter l) = l" "uc_emittedBytes (zero_counter l) = 0" "uc_workUnits (zero_counter l) = 0"
  "uc_items (zero_counter l) = 0" "uc_decodedBytes (zero_counter l) = 0"
  by (simp_all add: zero_counter_def)

lemma zero_counter_room: "limits_ok l \<Longrightarrow> work_room (zero_counter l)"
  using limits_ok_bounds [of l] by (simp add: work_room_def counter_ready_def)

definition preflight_items :: "State \<Rightarrow> Recipe \<Rightarrow> nat" where
  "preflight_items s r = (if preflighted s r then preflight_work s r else 0)"

lemma applied_items_split: "applied_items s r = preflight_items s r + header_items s r + length (body_lines s r)"
  by (simp add: applied_items_def preflight_items_def)

lemma preflight_phase:
  assumes "applier_ok a" "recipe_ok r" "state_ok s" "work_room c" "uc_limits c = ap_limits a"
  shows "(if preflighted s r then op_bind (preflightKnownBodySource a s r) (\<lambda>_. op_return True) else op_return False) c
      = (Inr v, c1) \<longleftrightarrow>
    (preflighted s r \<longrightarrow> source_ok (ap_limits a) s r)
    \<and> uc_workUnits c + int (preflight_items s r) \<le> rl_MaxOperationWorkUnits (ap_limits a)
    \<and> v = preflighted s r \<and> c1 = tick_items (preflight_items s r) c"
  using assms(3)
proof (cases rule: state_ok_cases)
  case (unavailable h)
  then show ?thesis using assms(4,5) by (auto simp: preflighted_def preflight_items_def work_room_def item_meter.advance_zero)
next
  case (known h b f)
  then show ?thesis
    using preflight_success [OF assms(1,2,4) known(3), of h f] assms(4,5)
    by (auto simp: preflighted_def preflight_items_def op_bind_success work_room_def item_meter.advance_zero)
qed

lemma applySteps_phases:
  assumes ok: "applier_ok a" "recipe_ok r" "state_ok s" and c: "c = zero_counter (ap_limits a)"
  shows "applySteps a s r c = (Inr s', c') \<longleftrightarrow>
    (validateHeaderPlanBudgets a r = None \<and> validateBodyPlanBudgets a r = None)
    \<and> (ss_availability s = BodyAvailabilityUnavailable \<longrightarrow> copy_ranges (rc_bodySteps r) = [])
    \<and> (preflighted s r \<longrightarrow> source_ok (ap_limits a) s r)
    \<and> int (preflight_items s r) \<le> rl_MaxOperationWorkUnits (ap_limits a)
    \<and> (\<exists>t c2. applyHeadersUsing a s r (rc_bodyMode r = BodyModeAbsent) (tick_items (preflight_items s r) c) = (Inr t, c2)
        \<and> applyBodyUsing a t r (preflighted s r) c2 = (Inr s', c'))"
proof -
  let ?pre = "if preflighted s r then op_bind (preflightKnownBodySource a s r) (\<lambda>_. op_return True) else op_return False"
  have valid: "Applier_valid a" "State_Valid s" "Recipe_Valid r"
    using applier_ok_valid [OF ok(1)] state_ok_Valid [OF ok(3)] ok(2) by (simp_all add: Recipe_Valid_iff)
  have room: "work_room c" "uc_limits c = ap_limits a"
    using zero_counter_room ok(1) by (simp_all add: c applier_ok_def)
  note pre = preflight_phase [OF ok room]
  have ss: "list_all step_valid (rc_bodySteps r)" using recipe_ok_steps [OF ok(2)] by simp
  have run: "applySteps a s r = op_guard (validateHeaderPlanBudgets a r) (op_guard (validateBodyPlanBudgets a r)
      (if ss_availability s = BodyAvailabilityUnavailable \<and> copy_ranges (rc_bodySteps r) \<noteq> []
       then op_fail sourceUnavailableError
       else op_bind ?pre (\<lambda>v. op_bind (applyHeadersUsing a s r (rc_bodyMode r = BodyModeAbsent))
         (\<lambda>t. applyBodyUsing a t r v))))"
    using valid unfolding applySteps_def preflighted_def [symmetric] recipeHasBodyCopy_iff [OF ss] by simp
  have zero: "uc_workUnits c = 0" by (simp add: c)
  show ?thesis
    unfolding run op_guard_success op_if_fail_success op_bind_success [of ?pre] pre zero
      op_bind_success [of "applyHeadersUsing _ _ _ _"] by auto
qed

lemma headers_then_body:
  assumes ok: "applier_ok a" "recipe_ok r" "state_ok s" "plan_fits (ap_limits a) (recipe_steps r)"
      "int (length (rc_bodySteps r)) \<le> rl_MaxBodySteps (ap_limits a)"
    and src: "preflighted s r \<Longrightarrow> source_ok (ap_limits a) s r"
      "ss_availability s = BodyAvailabilityUnavailable \<Longrightarrow> copy_ranges (rc_bodySteps r) = []"
    and c: "c = tick_items n (zero_counter (ap_limits a))" "int n \<le> rl_MaxOperationWorkUnits (ap_limits a)"
  shows "(\<exists>t c2. applyHeadersUsing a s r enf c = (Inr t, c2) \<and> applyBodyUsing a t r (preflighted s r) c2 = (Inr s', c')) \<longleftrightarrow>
    headers_apply (ap_limits a) s r enf \<and> rebuilt_fits (ap_limits a) s r
    \<and> int (n + header_items s r + length (body_lines s r) + applied_octets s r + header_work s r)
        \<le> rl_MaxOperationWorkUnits (ap_limits a)
    \<and> applied s r s' \<and> c' = tick_lines (body_lines s r) (headers_spend s r c)"
proof -
  let ?l = "ap_limits a" and ?c2 = "headers_spend s r c" and ?F = "emitted_fields s r"
  have l: "limits_ok ?l" using ok(1) by (simp add: applier_ok_def)
  have c1: "work_room c" "uc_limits c = ?l" "uc_emittedBytes c \<le> rl_MaxStateBytes ?l"
    using tick_items_room(1) [OF zero_counter_room [OF l]] c limits_ok_bounds [OF l] by simp_all
  have c2: "work_room ?c2" "uc_limits ?c2 = ?l" "uc_emittedBytes ?c2 \<le> rl_MaxStateBytes ?l"
      "uc_emittedBytes ?c2 = int (length (concat ?F))" if "headers_afford ?l s r c"
    using that spend_room [OF c1(1)] c by (simp_all add: headers_spend_def headers_afford_def)
  have work: "uc_workUnits ?c2 = int n + int (header_items s r) + int (length (concat ?F)) + int (header_work s r)"
    using c(1) by (simp add: headers_spend_def)
  note hs = applyHeadersUsing_success [OF ok(1,3,2,4) c1, where enf = enf]
  have body: "applyBodyUsing a (with_headers s h) r (preflighted s r) ?c2 = (Inr s', c') \<longleftrightarrow> rebuilt_fits ?l s r
      \<and> uc_workUnits ?c2 + int (length (body_lines s r)) + int (length (concat (body_lines s r))) \<le> rl_MaxOperationWorkUnits ?l
      \<and> applied s r s' \<and> ss_headers s' = h \<and> c' = tick_lines (body_lines s r) ?c2"
    if "block_of ?F h" "headers_afford ?l s r c" for h
    by (rule body_after_headers [OF ok that(1) src c2 [OF that(2)]])
  have small: "rebuilt_fits ?l s r \<Longrightarrow> int (length (concat ?F)) \<le> rl_MaxStateBytes ?l"
    using separator_nonneg [of "applied_framing s r"] by (auto simp: rebuilt_fits_def applied_octets_def split: if_splits)
  have afford: "headers_afford ?l s r c" if "rebuilt_fits ?l s r"
    "int (n + header_items s r + length (body_lines s r) + applied_octets s r + header_work s r) \<le> rl_MaxOperationWorkUnits ?l"
    using that(2) small [OF that(1)] c(1) by (simp add: headers_afford_def applied_octets_def)
  have blk: "applied s r s' \<Longrightarrow> block_of ?F (ss_headers s')" by (simp add: applied_def)
  have eq: "uc_workUnits ?c2 + int (length (body_lines s r)) + int (length (concat (body_lines s r)))
      = int (n + header_items s r + length (body_lines s r) + applied_octets s r + header_work s r)"
    unfolding work by (simp add: applied_octets_def)
  show ?thesis unfolding hs using body afford blk unfolding eq by blast
qed

theorem applySteps_success:
  assumes "applier_ok a" "recipe_ok r" "state_ok s" "c = zero_counter (ap_limits a)"
  shows "applySteps a s r c = (Inr s', c') \<longleftrightarrow> application_fits (ap_limits a) s r \<and> applied s r s'
    \<and> c' = spend (applied_items s r) (applied_octets s r) (header_work s r) c"
proof -
  let ?l = "ap_limits a" and ?c = "tick_items (preflight_items s r) c"
  note guard = validateBodyPlanBudgets_None_iff [OF assms(1,2)] validateHeaderPlanBudgets_None_iff [OF assms(1,2)]
  have spent: "tick_lines (body_lines s r) (headers_spend s r ?c)
      = spend (applied_items s r) (applied_octets s r) (header_work s r) c"
    by (simp add: headers_spend_def spend_tick spend_add applied_items_split applied_octets_def ac_simps)
  have src: "rebuilt_fits ?l s r \<Longrightarrow> preflighted s r \<longrightarrow> source_ok ?l s r"
    by (auto simp: rebuilt_fits_def preflighted_def drops_body_def)
  have pw: "int (applied_items s r + applied_octets s r + header_work s r) \<le> rl_MaxOperationWorkUnits ?l \<Longrightarrow>
      int (preflight_items s r) \<le> rl_MaxOperationWorkUnits ?l"
    by (simp add: applied_items_split)
  have plans: "headers_apply ?l s r e \<Longrightarrow> header_plans_fit ?l r" for e by (simp add: headers_apply_def)
  have step: "(\<exists>t c2. applyHeadersUsing a s r (rc_bodyMode r = BodyModeAbsent) ?c = (Inr t, c2)
        \<and> applyBodyUsing a t r (preflighted s r) c2 = (Inr s', c')) \<longleftrightarrow>
      headers_apply ?l s r (rc_bodyMode r = BodyModeAbsent) \<and> rebuilt_fits ?l s r
      \<and> int (applied_items s r + applied_octets s r + header_work s r) \<le> rl_MaxOperationWorkUnits ?l
      \<and> applied s r s' \<and> c' = spend (applied_items s r) (applied_octets s r) (header_work s r) c"
    if "plan_fits ?l (recipe_steps r)" "int (length (rc_bodySteps r)) \<le> rl_MaxBodySteps ?l"
      "preflighted s r \<longrightarrow> source_ok ?l s r" "int (preflight_items s r) \<le> rl_MaxOperationWorkUnits ?l"
      "ss_availability s = BodyAvailabilityUnavailable \<longrightarrow> copy_ranges (rc_bodySteps r) = []"
    using headers_then_body [OF assms(1-3) that(1,2), of ?c "preflight_items s r" "rc_bodyMode r = BodyModeAbsent" s' c'] that(3-5)
    unfolding spent applied_items_split [symmetric] by (simp add: assms(4))
  show ?thesis
    unfolding applySteps_phases [OF assms(1-4)] application_fits_def using guard step src pw plans by blast
qed

section \<open>Apply and ApplyHistorical\<close>

lemma metered_counter:
  "applier_ok a \<Longrightarrow> metered a m = (case m (zero_counter (ap_limits a)) of (v, c) \<Rightarrow> (v, usageCounter_usage c))"
  using limits_ok_normalized [of "ap_limits a"]
  by (simp add: metered_def newUsageCounter_def applier_ok_def zero_counter_def)

lemma metered_success:
  "applier_ok a \<Longrightarrow> metered a m = (v, u) \<longleftrightarrow> (\<exists>c. m (zero_counter (ap_limits a)) = (v, c) \<and> u = usageCounter_usage c)"
  by (auto simp: metered_counter split: prod.splits)

lemma spend_usage:
  "usageCounter_usage (spend i e w (zero_counter l)) = newUsage 0 (int e) (int i) (int (i + e + w))"
  by (simp add: usageCounter_usage_def)

theorem Apply_success:
  assumes "applier_ok a" "recipe_ok r" "state_ok s"
  shows "Apply a s r = (Inr s', u) \<longleftrightarrow>
    application_fits (ap_limits a) s r \<and> applied s r s' \<and> u = applied_usage s r"
  unfolding Apply_def metered_success [OF assms(1)] applySteps_success [OF assms refl] applied_usage_def
  by (auto simp: spend_usage)

lemma applied_state_ok:
  assumes ok: "applier_ok a" "recipe_ok r" "state_ok s" and fits: "application_fits (ap_limits a) s r"
    and "applied s r s'"
  shows "state_ok s'"
proof -
  let ?h = "ss_headers s'"
  have h: "block_of (emitted_fields s r) ?h" using assms(5) by (simp add: applied_def)
  show ?thesis
  proof (cases "drops_body s r")
    case True
    then have "s' = unavailable_state ?h" using assms(5) by (simp add: applied_def)
    moreover have "header_block_inv ?h" using h by (simp add: block_of_def)
    ultimately show ?thesis by (metis state_ok_unavailable)
  next
    case False
    have s': "s' = rebuilt (with_headers s ?h) r"
      using applied_simps(3) [OF ok(3) h False ok(2)] assms(5) False by (simp add: applied_def)
    have "state_ok (rebuilt (with_headers s ?h) r)"
    proof (rule rebuilt_ok [OF ok(1,2) with_headers_ok [OF ok(3) h]])
      show "rc_bodyMode r \<noteq> BodyModeUnavailable" using False by (auto simp: drops_body_def)
      show "source_ok (ap_limits a) (with_headers s ?h) r"
        if "with_headers s ?h \<noteq> unavailable_state (ss_headers (with_headers s ?h))"
        using ok(3)
      proof (cases rule: state_ok_cases)
        case (unavailable k)
        then show ?thesis using that by (simp add: with_headers_def)
      next
        case (known k b f)
        then have "preflighted s r" using False by (auto simp: preflighted_def drops_body_def)
        then show ?thesis
          using fits False known by (simp add: application_fits_def rebuilt_fits_def source_ok_def)
      qed
      show "rc_bodyMode r = BodyModeSteps \<and> copy_ranges (rc_bodySteps r) = []"
        if "with_headers s ?h = unavailable_state (ss_headers (with_headers s ?h))"
      proof -
        have "ss_availability s = BodyAvailabilityUnavailable"
          using that by (auto simp: with_headers_def known_state_def unavailable_state_def split: if_splits)
        then show ?thesis using fits False ok(2) by (auto simp: application_fits_def drops_body_def elim: mode_cases)
      qed
    qed
    then show ?thesis by (simp flip: s')
  qed
qed

text \<open>Copying from a body that is not known is refused before any work is charged.\<close>

lemma Apply_source_unavailable:
  assumes ok: "applier_ok a" "recipe_ok r" "state_ok s" and "ss_availability s = BodyAvailabilityUnavailable"
    and "copy_ranges (rc_bodySteps r) \<noteq> []" "plan_fits (ap_limits a) (recipe_steps r)" "header_plans_fit (ap_limits a) r"
    "int (length (rc_bodySteps r)) \<le> rl_MaxBodySteps (ap_limits a)"
  shows "Apply a s r = (Inl sourceUnavailableError, newUsage 0 0 0 0)"
proof -
  have "list_all step_valid (rc_bodySteps r)" using recipe_ok_steps [OF ok(2)] by simp
  moreover have "Applier_valid a" "State_Valid s" "Recipe_Valid r"
    using applier_ok_valid [OF ok(1)] state_ok_Valid [OF ok(3)] ok(2) by (simp_all add: Recipe_Valid_iff)
  ultimately have "applySteps a s r (zero_counter (ap_limits a)) = (Inl sourceUnavailableError, zero_counter (ap_limits a))"
    using assms validateBodyPlanBudgets_None_iff [OF ok(1,2)] validateHeaderPlanBudgets_None_iff [OF ok(1,2)]
    by (simp add: applySteps_def recipeHasBodyCopy_iff)
  then show ?thesis by (simp add: Apply_def metered_counter [OF ok(1)] usageCounter_usage_def)
qed

definition historical_usage :: "State \<Rightarrow> Recipe \<Rightarrow> Usage" where
  "historical_usage s r = newUsage 0 (int (length (concat (emitted_fields s r)))) (int (header_items s r))
     (int (header_items s r + length (concat (emitted_fields s r)) + header_work s r))"

theorem ApplyHistorical_success:
  assumes ok: "applier_ok a" "recipe_ok r" "state_ok s"
  shows "ApplyHistorical a s r = (Inr s', u) \<longleftrightarrow>
    (if ss_availability s = BodyAvailabilityUnavailable \<and> copy_ranges (rc_bodySteps r) \<noteq> []
     then plan_fits (ap_limits a) (recipe_steps r) \<and> int (length (rc_bodySteps r)) \<le> rl_MaxBodySteps (ap_limits a)
       \<and> headers_apply (ap_limits a) s r False \<and> headers_afford (ap_limits a) s r (zero_counter (ap_limits a))
       \<and> block_of (emitted_fields s r) (ss_headers s') \<and> s' = unavailable_state (ss_headers s')
       \<and> u = historical_usage s r
     else Apply a s r = (Inr s', u))"
proof -
  let ?l = "ap_limits a" and ?c = "zero_counter (ap_limits a)"
  have ss: "list_all step_valid (rc_bodySteps r)" using recipe_ok_steps [OF ok(2)] by simp
  have valid: "Applier_valid a" "State_Valid s" "Recipe_Valid r"
    using applier_ok_valid [OF ok(1)] state_ok_Valid [OF ok(3)] ok(2) by (simp_all add: Recipe_Valid_iff)
  have avail: "BodyState s = ss_availability s" using valid(2) by (simp add: BodyState_def)
  show ?thesis
  proof (cases "ss_availability s = BodyAvailabilityUnavailable \<and> copy_ranges (rc_bodySteps r) \<noteq> []")
    case False
    then show ?thesis by (auto simp: ApplyHistorical_def avail recipeHasBodyCopy_iff [OF ss])
  next
    case True
    have l: "limits_ok ?l" using ok(1) by (simp add: applier_ok_def)
    have c: "work_room ?c" "uc_limits ?c = ?l" "uc_emittedBytes ?c \<le> rl_MaxStateBytes ?l"
      using zero_counter_room [OF l] limits_ok_bounds [OF l] by simp_all
    have guard: "validateHeaderPlanBudgets a r = None \<and> validateBodyPlanBudgets a r = None \<longleftrightarrow>
        header_plans_fit ?l r \<and> int (length (rc_bodySteps r)) \<le> rl_MaxBodySteps ?l \<and> plan_fits ?l (recipe_steps r)"
      using validateBodyPlanBudgets_None_iff [OF ok(1,2)] validateHeaderPlanBudgets_None_iff [OF ok(1,2)] by blast
    have known: "BodyState (with_headers s h) = BodyAvailabilityUnavailable" if "block_of (emitted_fields s r) h" for h
      using True state_ok_Valid [OF with_headers_ok [OF ok(3) that]] by (simp add: BodyState_def with_headers_def)
    have run: "ApplyHistorical a s r = metered a (op_guard (validateHeaderPlanBudgets a r) (op_guard (validateBodyPlanBudgets a r)
        (op_bind (applyHeadersUsing a s r False) (\<lambda>t. if BodyState t \<noteq> BodyAvailabilityUnavailable
          then op_fail invalidStateError else op_return t))))"
      using True valid by (simp add: ApplyHistorical_def avail recipeHasBodyCopy_iff [OF ss])
    have eq: "ApplyHistorical a s r = (Inr s', u) \<longleftrightarrow>
        (validateHeaderPlanBudgets a r = None \<and> validateBodyPlanBudgets a r = None)
        \<and> (\<exists>c'. applyHeadersUsing a s r False ?c = (Inr s', c')
            \<and> BodyState s' = BodyAvailabilityUnavailable \<and> u = usageCounter_usage c')"
      unfolding run metered_success [OF ok(1)] op_guard_success op_bind_success by auto
    have wh: "with_headers s h = unavailable_state h" for h using True by (simp add: with_headers_def)
    have use: "usageCounter_usage (headers_spend s r ?c) = historical_usage s r"
      by (simp add: headers_spend_def spend_usage historical_usage_def)
    define B where "B \<longleftrightarrow> block_of (emitted_fields s r) (ss_headers s') \<and> s' = unavailable_state (ss_headers s')"
    have ex: "(\<exists>h. block_of (emitted_fields s r) h \<and> s' = unavailable_state h) \<longleftrightarrow> B"
      unfolding B_def by (metis known_state_simps(6))
    have hs: "applyHeadersUsing a s r False ?c = (Inr s', c') \<longleftrightarrow>
        headers_apply ?l s r False \<and> headers_afford ?l s r ?c \<and> B \<and> c' = headers_spend s r ?c"
      if "plan_fits ?l (recipe_steps r)" for c'
      unfolding applyHeadersUsing_success [OF ok(1,3,2) that c] wh ex ..
    have state: "B \<Longrightarrow> BodyState s' = BodyAvailabilityUnavailable"
      unfolding B_def using known [unfolded wh] by metis
    have plans: "headers_apply ?l s r False \<Longrightarrow> header_plans_fit ?l r" by (simp add: headers_apply_def)
    show ?thesis unfolding eq guard if_P [OF True] use [symmetric] conj_assoc [of "block_of _ _", symmetric]
        B_def [symmetric] by (cases "plan_fits ?l (recipe_steps r)") (auto simp: hs state plans)
  qed
qed

section \<open>Usage\<close>

text \<open>Every outcome of an application, refused ones included, reports a usage within the limits.\<close>

lemma keeps_prod [keeps_intros]: "(\<And>x y. keeps P (f x y)) \<Longrightarrow> keeps P (case p of (x, y) \<Rightarrow> f x y)"
  by (cases p) simp

lemma keeps_option [keeps_intros]:
  "keeps P a \<Longrightarrow> (\<And>x. keeps P (f x)) \<Longrightarrow> keeps P (case v of None \<Rightarrow> a | Some x \<Rightarrow> f x)"
  by (cases v) simp_all

definition usage_within :: "RecipeLimits \<Rightarrow> usageCounter \<Rightarrow> bool" where
  "usage_within l c \<longleftrightarrow> usage_ok c \<and> uc_limits c = l"

lemma keeps_conj: "keeps P m \<Longrightarrow> keeps Q m \<Longrightarrow> keeps (\<lambda>c. P c \<and> Q c) m"
  by (auto simp: keeps_def)

lemma keeps_within_charges [keeps_intros]:
  "keeps (usage_within l) (chargeItems n)" "keeps (usage_within l) (chargeWork n)" "keeps (usage_within l) (chargeEmitted n)"
  unfolding usage_within_def by (intro keeps_conj keeps_usage keeps_limits)+

lemma keeps_within_body [keeps_intros]:
  "keeps (usage_within l) (preflightKnownBodySource a s r)" "keeps (usage_within l) (applyBodyUsing a s r p)"
  unfolding applyBodyUsing_def emitBodyData_def applyInstruction_def preflightKnownBodySource_def preflightLine_def
    validateBodyCopySources_def countEmissions_def bodyAppendData_def appendSourceLine_def reserveLine_def Let_def
  by (intro keeps_intros)+

lemma keeps_within_insert [keeps_intros]: "keeps (usage_within l) (insertNameLoop x p ns)"
  by (induction x p ns rule: insertNameLoop.induct) (auto intro!: keeps_intros simp del: op_eval)

lemma keeps_within_header [keeps_intros]: "keeps (usage_within l) (applyHeadersUsing a s r enf)"
  unfolding applyHeadersUsing_def collectHeaderGroups_def collectField_def sortHeaderNames_def insertName_def
    emitGroup_def appendHeaderPlan_def headerPlanStep_def headerCopyStep_def headerAppendData_def appendField_def
    reserveField_def Let_def
  by (intro keeps_intros)+

lemma keeps_within_apply: "keeps (usage_within l) (applySteps a s r)"
  unfolding applySteps_def by (intro keeps_intros)+

definition usage_bounded :: "RecipeLimits \<Rightarrow> Usage \<Rightarrow> bool" where
  "usage_bounded l u \<longleftrightarrow> us_initialized u \<and> 0 \<le> us_decodedBytes u \<and> us_decodedBytes u \<le> rl_MaxDecodedRecipeBytes l
     \<and> 0 \<le> us_emittedBytes u \<and> us_emittedBytes u \<le> rl_MaxStateBytes l
     \<and> 0 \<le> us_items u \<and> us_items u \<le> us_workUnits u \<and> us_workUnits u \<le> rl_MaxOperationWorkUnits l"

lemma metered_bounded:
  assumes "applier_ok a" "keeps (usage_within (ap_limits a)) m" "metered a m = (v, u)"
  shows "usage_bounded (ap_limits a) u"
proof -
  have "usage_within (ap_limits a) (zero_counter (ap_limits a))"
    using assms(1) limits_ok_bounds [of "ap_limits a"] by (simp add: applier_ok_def usage_within_def usage_ok_def)
  then obtain c where "usage_within (ap_limits a) c" "u = usageCounter_usage c"
    using assms keepsD unfolding metered_success [OF assms(1)] by metis
  then show ?thesis by (auto simp: usage_within_def usage_ok_def usage_bounded_def usageCounter_usage_def newUsage_def
        Usage_Valid_def Let_def)
qed

lemma Apply_bounded: "applier_ok a \<Longrightarrow> Apply a s r = (v, u) \<Longrightarrow> usage_bounded (ap_limits a) u"
  unfolding Apply_def by (rule metered_bounded [OF _ keeps_within_apply])

lemma ApplyHistorical_bounded: "applier_ok a \<Longrightarrow> ApplyHistorical a s r = (v, u) \<Longrightarrow> usage_bounded (ap_limits a) u"
  unfolding ApplyHistorical_def
  by (auto split: if_splits dest: Apply_bounded elim!: metered_bounded [rotated 2] intro!: keeps_intros)

end
