(* ===== verification/Recipe_Properties.thy ===== *)
theory Recipe_Properties
  imports Recipe_Apply
begin

text \<open>
  The properties of recipe application: which recipes apply to which states, the state and the usage
  of an application, what happens to each header name, and the refusals.
\<close>

section \<open>Fields by name\<close>

lemma field_name_unique:
  assumes "header_field_inv f" "header_field_inv g" "hf_originalBytes f = hf_originalBytes g"
  shows "hf_nameLower f = hf_nameLower g"
proof -
  have "f\<lparr>hf_index := hf_index g\<rparr> = g" using assms by (intro header_field_eqI) simp_all
  then show ?thesis by (metis HeaderField.select_convs(3) HeaderField.surjective HeaderField.update_convs(1))
qed

lemma filter_groups:
  assumes "map o' F = concat (map G ns)" "distinct ns"
    "\<And>m f. m \<in> set ns \<Longrightarrow> f \<in> set F \<Longrightarrow> o' f \<in> set (G m) \<Longrightarrow> k f = m"
  shows "map o' (filter (\<lambda>f. k f = n) F) = (if n \<in> set ns then G n else [])"
  using assms
proof (induction ns arbitrary: F)
  case (Cons m ns)
  from Cons.prems(1) obtain A B where F: "F = A @ B" "map o' A = G m" "map o' B = concat (map G ns)"
    by (auto simp: map_eq_append_conv)
  have "f \<in> set A \<Longrightarrow> k f = m" for f
    using Cons.prems(3) [of m f] F by (metis UnCI image_eqI list.set_intros(1) set_append set_map)
  then have "filter (\<lambda>f. k f = n) A = (if n = m then A else [])" by (auto simp: filter_empty_conv filter_id_conv)
  moreover have "map o' (filter (\<lambda>f. k f = n) B) = (if n \<in> set ns then G n else [])"
    using Cons.prems F by (intro Cons.IH) auto
  ultimately show ?case using F(2) Cons.prems(2) by (auto simp: F(1))
qed simp

lemma group_field_name:
  assumes "recipe_ok r" "header_block_inv h" "header_field_inv f" "hf_originalBytes f \<in> set (group_fields (hb_fields h) r n)"
  shows "hf_nameLower f = n"
proof -
  have src: "hf_nameLower f = n" if "hf_originalBytes f \<in> set (field_group (hb_fields h) n)"
    using that header_block_inv_fields [OF assms(2)] field_name_unique [OF assms(3)] by (auto simp: field_group_def)
  show ?thesis
  proof (cases "plan_for r n")
    case None
    then show ?thesis using assms(4) src by (simp add: group_fields_def)
  next
    case (Some p)
    then have p: "plan_ok p" "hp_name p = n" using plan_for_Some recipe_plan_ok [OF assms(1)] by blast+
    then have "list_all step_valid (hp_steps p)" by (simp add: plan_ok_def steps_ok_def)
    moreover have "hf_originalBytes f \<in> set (emit_steps (header_line n) (rev (field_group (hb_fields h) n)) (hp_steps p))"
      using assms(4) Some p(2) by (simp add: group_fields_def planned_fields_def)
    ultimately consider "hf_originalBytes f \<in> set (rev (field_group (hb_fields h) n))"
      | d where "hf_originalBytes f = header_line n d" "clean d"
      using emit_steps_elem [of "hp_steps p" "hf_originalBytes f" "header_line n"] by blast
    then show ?thesis
    proof cases
      case 1
      then show ?thesis using src by simp
    next
      case 2
      have n: "validHeaderFieldName n" "lowerASCII n = n" using p by (simp_all add: plan_ok_def)
      let ?g = "\<lparr>hf_index = 0, hf_rawName = n, hf_nameLower = lowerASCII n, hf_rawValue = d,
        hf_unfoldedValue = unfoldHeaderValue d, hf_originalBytes = header_line n d, hf_valid = True\<rparr>"
      have "header_field_inv ?g"
        using n validHeaderFieldValue_clean [OF 2(2)] by (simp add: header_field_inv_def header_line_def)
      from field_name_unique [OF assms(3) this] 2(1) n(2) show ?thesis by simp
    qed
  qed
qed

lemma applied_groups:
  assumes "recipe_ok r" "header_block_inv (ss_headers s)" "block_of (emitted_fields s r) h"
  shows "field_group (hb_fields h) n = group_fields (hb_fields (ss_headers s)) r n"
proof (cases "rc_hasHeaderRecipe r")
  case True
  let ?fs = "hb_fields (ss_headers s)"
  have h: "header_block_inv h" "map hf_originalBytes (hb_fields h) = concat (map (group_fields ?fs r) (sort (all_names ?fs r)))"
    using assms(3) True by (simp_all add: block_of_def emitted_fields_def Let_def)
  have "field_group (hb_fields h) n = (if n \<in> set (sort (all_names ?fs r)) then group_fields ?fs r n else [])"
    unfolding field_group_def
    using filter_groups [OF h(2), of hf_nameLower n] all_names_distinct [OF assms(1)]
      group_field_name [OF assms(1,2)] header_block_inv_fields [OF h(1)] by simp
  moreover have "n \<notin> set (all_names ?fs r) \<Longrightarrow> group_fields ?fs r n = []"
    using plan_for_Some [of r n]
    by (auto simp: set_all_names group_fields_def field_group_def filter_empty_conv split: option.splits)
  ultimately show ?thesis by auto
next
  case False
  then have "rc_headers r = []" using assms(1) by (simp add: recipe_ok_def)
  moreover have "block_of (emitted_fields s r) (ss_headers s)" using False assms(2) by (simp add: emitted_fields_def Let_def block_of_def)
  then have "h = ss_headers s" using block_of_unique assms(3) by blast
  ultimately show ?thesis by (simp add: group_fields_def plan_for_def)
qed

section \<open>A concrete application\<close>

definition sample_field :: "nat \<Rightarrow> bytes \<Rightarrow> bytes \<Rightarrow> HeaderField" where
  "sample_field i n v = \<lparr>hf_index = i, hf_rawName = n, hf_nameLower = n, hf_rawValue = v, hf_unfoldedValue = v,
     hf_originalBytes = header_line n v, hf_valid = True\<rparr>"

definition sample_block :: "HeaderField list \<Rightarrow> HeaderBlock" where
  "sample_block fs = \<lparr>hb_fields = fs, hb_originalBytes = concat (map hf_originalBytes fs), hb_initialized = True\<rparr>"

definition sample_applier :: Applier where
  "sample_applier = \<lparr>ap_limits = DefaultRecipeLimits, ap_rawOptions = applierOptions DefaultRecipeLimits, ap_initialized = True\<rparr>"

definition sample_state :: State where
  "sample_state = known_state (sample_block [sample_field 0 ''from'' ''x'', sample_field 1 ''subject'' ''a''])
     (body_of (concat [''one'' @ crlf, ''two'' @ crlf])) MessageFramingDelimited"

definition sample_recipe :: Recipe where
  "sample_recipe = \<lparr>rc_headers = [\<lparr>hp_name = ''subject'', hp_canonicalName = ''subject'',
       hp_steps = [literal_step StepKindData [''b''], copy_step 1 1], hp_initialized = True\<rparr>],
     rc_hasHeaderRecipe = True, rc_bodyMode = BodyModeSteps,
     rc_bodySteps = [copy_step 2 2, literal_step StepKindData [''new'']], rc_initialized = True\<rparr>"

definition sample_result :: State where
  "sample_result = known_state
     (sample_block [sample_field 0 ''from'' ''x'', sample_field 1 ''subject'' ''a'', sample_field 2 ''subject'' ''b''])
     (body_of (concat [''two'' @ crlf, ''new'' @ crlf])) MessageFramingDelimited"

definition sample_headers_state :: State where
  "sample_headers_state = unavailable_state (sample_block [sample_field 0 ''from'' ''x'', sample_field 1 ''subject'' ''a''])"

lemma sample_block_inv: "header_block_inv (sample_block [sample_field 0 ''from'' ''x'', sample_field 1 ''subject'' ''a''])"
proof -
  let ?h = "sample_block [sample_field 0 ''from'' ''x'', sample_field 1 ''subject'' ''a'']"
  have "parseHeaderBlock (hb_originalBytes ?h) (applierOptions DefaultRecipeLimits) = Inr ?h" by code_simp
  then show ?thesis by (simp add: parseHeaderBlock_Inr_iff)
qed

lemma sample_states_ok: "state_ok sample_state" "state_ok sample_headers_state"
proof -
  have "lines_ok [''one'' @ crlf, ''two'' @ crlf]" by code_simp
  from body_of_inv [OF this] show "state_ok sample_state"
    using sample_block_inv by (simp add: sample_state_def state_ok_known MessageFraming_Known_def)
  show "state_ok sample_headers_state"
    using sample_block_inv by (simp add: sample_headers_state_def state_ok_unavailable)
qed

lemma sample_inputs: "NewApplier DefaultRecipeLimits = Inr sample_applier" "Recipe_Valid sample_recipe"
  by code_simp+

lemma sample_run:
  "Apply sample_applier sample_state sample_recipe = (Inr sample_result, newUsage 0 40 11 52)"
  by code_simp

section \<open>Properties\<close>

lemma NewApplier_ok: "NewApplier l = Inr a \<Longrightarrow> applier_ok a"
  by (simp add: NewApplier_Inr_iff)

text \<open>
  C9: applying a valid recipe to a state of the package succeeds exactly when the recipe, the source and
  the result fit the limits; the result is then the one state with the emitted fields and lines, and
  the reported usage counts exactly the items, octets and comparisons of the application.
\<close>

theorem apply_exact:
  assumes "NewApplier l = Inr a" "Recipe_Valid r" "state_ok s"
  shows "Apply a s r = (Inr s', u) \<longleftrightarrow>
    application_fits (ap_limits a) s r \<and> applied s r s' \<and> u = applied_usage s r"
  using Apply_success NewApplier_ok [OF assms(1)] assms(2,3) by (simp add: Recipe_Valid_iff)

theorem apply_exact_witness:
  "NewApplier DefaultRecipeLimits = Inr sample_applier \<and> Recipe_Valid sample_recipe \<and> state_ok sample_state
   \<and> application_fits DefaultRecipeLimits sample_state sample_recipe \<and> applied sample_state sample_recipe sample_result
   \<and> applied_usage sample_state sample_recipe = newUsage 0 40 11 52"
  using apply_exact [OF sample_inputs sample_states_ok(1), of sample_result "newUsage 0 40 11 52"] sample_run
    sample_inputs sample_states_ok(1) by (simp add: sample_applier_def)

text \<open>
  C13: the state that an application returns is again a state of the package: its block is a block of
  validated fields, its body an indexed body of complete lines, and header-only framing has a field
  and no body.
\<close>

theorem apply_keeps_state:
  assumes "NewApplier l = Inr a" "Recipe_Valid r" "state_ok s" "Apply a s r = (Inr s', u)"
  shows "state_ok s'"
proof -
  have "applier_ok a" "recipe_ok r" using NewApplier_ok [OF assms(1)] assms(2) by (simp_all add: Recipe_Valid_iff)
  then show ?thesis using Apply_success applied_state_ok assms(3,4) by blast
qed

theorem apply_keeps_state_witness: "state_ok sample_result"
  using apply_keeps_state [OF sample_inputs sample_states_ok(1) sample_run] .

text \<open>
  C10: an application treats every header name separately: the fields of a name without a plan are
  those of the source in their order, and the fields of a planned name are the planned copies and
  literals, whatever the other plans do.
\<close>

theorem apply_per_name:
  assumes "NewApplier l = Inr a" "Recipe_Valid r" "state_ok s" "Apply a s r = (Inr s', u)"
  shows "field_group (hb_fields (ss_headers s')) n =
    (case plan_for r n of None \<Rightarrow> field_group (hb_fields (ss_headers s)) n
     | Some p \<Rightarrow> planned_fields (field_group (hb_fields (ss_headers s)) n) p)"
proof -
  have ok: "applier_ok a" "recipe_ok r" using NewApplier_ok [OF assms(1)] assms(2) by (simp_all add: Recipe_Valid_iff)
  have "block_of (emitted_fields s r) (ss_headers s')"
    using Apply_success [OF ok assms(3), of s' u] assms(4) by (simp add: applied_def)
  moreover have "header_block_inv (ss_headers s)" using assms(3) by (simp add: state_ok_def)
  ultimately show ?thesis using applied_groups [OF ok(2)] by (simp add: group_fields_def)
qed

theorem apply_per_name_witness:
  "field_group (hb_fields (ss_headers sample_result)) ''from'' = [header_line ''from'' ''x'']"
  using apply_per_name [OF sample_inputs sample_states_ok(1) sample_run, of "''from''"]
  by (simp add: plan_for_def sample_recipe_def sample_state_def sample_block_def field_group_def sample_field_def)

text \<open>
  C14: whatever the outcome, an application of any recipe to any state reports a usage within the limits,
  with at least one unit of work for every item.
\<close>

theorem apply_usage_bounded:
  assumes "NewApplier l = Inr a" "Apply a s r = (v, u)"
  shows "usage_bounded (ap_limits a) u"
  using Apply_bounded NewApplier_ok [OF assms(1)] assms(2) by blast

theorem apply_usage_bounded_witness: "usage_bounded DefaultRecipeLimits (newUsage 0 40 11 52)"
  using apply_usage_bounded [OF sample_inputs(1) sample_run] by (simp add: sample_applier_def)

text \<open>
  C15: copying from a body that is not known is refused as an unavailable source, with no usage, while
  the historical application of the same recipe reconstructs the headers and leaves the body unknown.
\<close>

theorem apply_source_unavailable:
  assumes "NewApplier l = Inr a" "Recipe_Valid r" "state_ok s" "ss_availability s = BodyAvailabilityUnavailable"
    "copy_ranges (rc_bodySteps r) \<noteq> []" "validateHeaderPlanBudgets a r = None" "validateBodyPlanBudgets a r = None"
  shows "Apply a s r = (Inl sourceUnavailableError, newUsage 0 0 0 0)
    \<and> (ApplyHistorical a s r = (Inr s', u) \<longleftrightarrow> headers_apply (ap_limits a) s r False
        \<and> headers_afford (ap_limits a) s r (zero_counter (ap_limits a))
        \<and> block_of (emitted_fields s r) (ss_headers s') \<and> s' = unavailable_state (ss_headers s')
        \<and> u = historical_usage s r)"
proof -
  have ok: "applier_ok a" "recipe_ok r" using NewApplier_ok [OF assms(1)] assms(2) by (simp_all add: Recipe_Valid_iff)
  have fit: "int (length (rc_bodySteps r)) \<le> rl_MaxBodySteps (ap_limits a)" "plan_fits (ap_limits a) (recipe_steps r)"
    using validateBodyPlanBudgets_None_iff [OF ok] assms(7) by simp_all
  then have "header_plans_fit (ap_limits a) r" using validateHeaderPlanBudgets_None_iff [OF ok] assms(6) by simp
  note refused = Apply_source_unavailable [OF ok assms(3-5) fit(2) this fit(1)]
  have "ss_availability s = BodyAvailabilityUnavailable \<and> copy_ranges (rc_bodySteps r) \<noteq> []" using assms(4,5) ..
  note history = ApplyHistorical_success [OF ok assms(3), of s' u, unfolded if_P [OF this]]
  show ?thesis unfolding refused history using fit by blast
qed

theorem apply_source_unavailable_witness:
  "Apply sample_applier sample_headers_state sample_recipe = (Inl sourceUnavailableError, newUsage 0 0 0 0)
   \<and> block_of (emitted_fields sample_headers_state sample_recipe) (ss_headers sample_result)
   \<and> historical_usage sample_headers_state sample_recipe = newUsage 0 30 6 37"
proof -
  have run: "ApplyHistorical sample_applier sample_headers_state sample_recipe
      = (Inr (unavailable_state (ss_headers sample_result)), newUsage 0 30 6 37)"
    by code_simp
  have "validateHeaderPlanBudgets sample_applier sample_recipe = None" "validateBodyPlanBudgets sample_applier sample_recipe = None"
    by code_simp+
  moreover have "copy_ranges (rc_bodySteps sample_recipe) \<noteq> []" by (simp add: sample_recipe_def)
  moreover have "ss_availability sample_headers_state = BodyAvailabilityUnavailable" by (simp add: sample_headers_state_def)
  ultimately show ?thesis
    using apply_source_unavailable [OF sample_inputs sample_states_ok(2),
        of "unavailable_state (ss_headers sample_result)" "newUsage 0 30 6 37"] run by simp
qed

text \<open>
  C16: the recipes that can be built are exactly the coherent ones: a header recipe or a body part is
  present, plans have valid lower-case names in strictly increasing order, steps are well formed and
  copy ranges increase without overlap; the recipe has the parts it was built from.
\<close>

theorem recipe_type:
  "newRecipe hs has mode ss = Inr r \<longleftrightarrow>
     BodyMode_Known mode \<and> has = (hs \<noteq> []) \<and> \<not> (hs = [] \<and> mode = BodyModeAbsent)
     \<and> (mode = BodyModeSteps \<or> ss = [])
     \<and> list_all plan_ok hs \<and> sorted_wrt (<) (map hp_name hs)
     \<and> list_all step_valid ss \<and> sorted_wrt (\<lambda>x y. snd x < fst y) (copy_ranges ss)
     \<and> r = \<lparr>rc_headers = hs, rc_hasHeaderRecipe = has, rc_bodyMode = mode, rc_bodySteps = ss, rc_initialized = True\<rparr>"
  by (auto simp: newRecipe_Inr_iff recipe_ok_def steps_ok_def)

end
