(* ===== verification/Combine_Layout.thy ===== *)
theory Combine_Layout
  imports Go_Bytes "HOL-Library.Word"
begin

text \<open>
  Group structure of the \<open>h=\<close> and \<open>s=\<close> tags (\<open>internal/combine/layout.go\<close>): an ordered list of groups
  separated by a bar, each an ordered list of sets separated by a comma. A layout keeps the group
  sizes as octets in an array of fixed length; its operations are related to the plain list of sizes,
  and the splitter to the grammar of joined groups.
\<close>

section \<open>Layouts\<close>

definition AllSeparator :: byte where "AllSeparator = CHR '',''"

definition AnySeparator :: byte where "AnySeparator = CHR ''|''"

definition MaxSets :: int where "MaxSets = 16"

record Layout =
  ly_sizes :: "8 word list"
  ly_groups :: "8 word"

definition zeroLayout :: Layout where
  "zeroLayout = \<lparr>ly_sizes = replicate (nat MaxSets) 0, ly_groups = 0\<rparr>"

fun newLayoutLoop :: "int list \<Rightarrow> nat \<Rightarrow> int \<Rightarrow> Layout \<Rightarrow> Layout option" where
  "newLayoutLoop [] index total' layout = Some layout"
| "newLayoutLoop (sz # sizes) index total' layout =
     (if sz \<le> 0 \<or> sz > MaxSets - total' then None
      else newLayoutLoop sizes (Suc index) (total' + sz)
             (layout\<lparr>ly_sizes := (ly_sizes layout)[index := word_of_int sz]\<rparr>))"

definition NewLayout :: "int list \<Rightarrow> Layout option" where
  "NewLayout sizes =
     (if sizes = [] \<or> int (length sizes) > MaxSets then None
      else newLayoutLoop sizes 0 0 (zeroLayout\<lparr>ly_groups := word_of_int (int (length sizes))\<rparr>))"

definition SingleGroup :: "int \<Rightarrow> Layout option" where
  "SingleGroup n = NewLayout [n]"

definition Groups :: "Layout \<Rightarrow> int" where
  "Groups l = uint (ly_groups l)"

text \<open>
  The sizes in use are the first \<open>groups\<close> entries of the array. Layouts come from the constructor or
  are the zero value, so that the Go loops over \<open>groups\<close> stay inside the array.
\<close>

definition GroupSizes :: "Layout \<Rightarrow> int list" where
  "GroupSizes l = map uint (take (nat (Groups l)) (ly_sizes l))"

fun layoutTotal :: "int list \<Rightarrow> int \<Rightarrow> int option" where
  "layoutTotal [] t = Some t"
| "layoutTotal (sz # sizes) t = (if sz = 0 then None else layoutTotal sizes (t + sz))"

definition Layout_Valid :: "Layout \<Rightarrow> bool" where
  "Layout_Valid l =
     (if Groups l = 0 \<or> Groups l > MaxSets then False
      else case layoutTotal (GroupSizes l) 0 of None \<Rightarrow> False | Some t \<Rightarrow> t \<le> MaxSets)"

definition Sets :: "Layout \<Rightarrow> int" where
  "Sets l = fold (\<lambda>sz t. t + sz) (GroupSizes l) 0"

fun groupOfLoop :: "int \<Rightarrow> int list \<Rightarrow> int \<Rightarrow> int \<Rightarrow> int option" where
  "groupOfLoop index [] grp start = None"
| "groupOfLoop index (sz # sizes) grp start =
     (if index \<ge> start \<and> index < start + sz then Some grp else groupOfLoop index sizes (grp + 1) (start + sz))"

definition GroupOf :: "Layout \<Rightarrow> int \<Rightarrow> int option" where
  "GroupOf l index = groupOfLoop index (GroupSizes l) 0 0"

definition Layout_Equal :: "Layout \<Rightarrow> Layout \<Rightarrow> bool" where
  "Layout_Equal l other \<longleftrightarrow> l = other"

fun separatorLoop :: "int \<Rightarrow> int list \<Rightarrow> int \<Rightarrow> byte" where
  "separatorLoop index [] start = CHR 0x00"
| "separatorLoop index (sz # sizes) start =
     (if index = start then AnySeparator
      else if index < start + sz then AllSeparator
      else separatorLoop index sizes (start + sz))"

definition SeparatorBefore :: "Layout \<Rightarrow> int \<Rightarrow> byte" where
  "SeparatorBefore l index = (if index \<le> 0 then CHR 0x00 else separatorLoop index (GroupSizes l) 0)"

section \<open>Splitting\<close>

definition isSeparator :: "byte \<Rightarrow> bool" where
  "isSeparator b \<longleftrightarrow> b = AllSeparator \<or> b = AnySeparator"

definition countSeparators :: "bytes \<Rightarrow> int" where
  "countSeparators v = fold (\<lambda>b n. if b = AllSeparator \<or> b = AnySeparator then n + 1 else n) v 0"

definition CountSets :: "bytes \<Rightarrow> int" where
  "CountSets v = (if v = [] then 0 else 1 + countSeparators v)"

definition onlyWSP :: "bytes \<Rightarrow> bool" where
  "onlyWSP input \<longleftrightarrow> list_all (\<lambda>b. b = SP \<or> b = TAB) input"

text \<open>
  The index loop of the splitter: the octets from the start of the current set are carried as \<open>piece\<close>,
  and the end of the value closes the last set and the last group.
\<close>

fun splitLoop :: "bytes \<Rightarrow> bytes \<Rightarrow> int \<Rightarrow> bytes list \<Rightarrow> int list \<Rightarrow> (bytes list \<times> int list) option" where
  "splitLoop [] piece groupSize sets sizes =
     (if onlyWSP piece then None else Some (sets @ [piece], sizes @ [groupSize + 1]))"
| "splitLoop (b # v) piece groupSize sets sizes =
     (if b \<noteq> AllSeparator \<and> b \<noteq> AnySeparator then splitLoop v (piece @ [b]) groupSize sets sizes
      else if onlyWSP piece then None
      else if b = AnySeparator then splitLoop v [] 0 (sets @ [piece]) (sizes @ [groupSize + 1])
      else splitLoop v [] (groupSize + 1) (sets @ [piece]) sizes)"

definition Split :: "bytes \<Rightarrow> (bytes list \<times> Layout) option" where
  "Split v =
     (if v = [] \<or> CountSets v > MaxSets then None
      else case splitLoop v [] 0 [] [] of
        None \<Rightarrow> None
      | Some (sets, sizes) \<Rightarrow> (case NewLayout sizes of None \<Rightarrow> None | Some layout \<Rightarrow> Some (sets, layout)))"

section \<open>Layouts are lists of sizes\<close>

definition sizes_ok :: "int list \<Rightarrow> bool" where
  "sizes_ok sizes \<longleftrightarrow> sizes \<noteq> [] \<and> (\<forall>n \<in> set sizes. 0 < n) \<and> sum_list sizes \<le> MaxSets"

definition layout_of :: "int list \<Rightarrow> Layout" where
  "layout_of sizes = \<lparr>ly_sizes = map word_of_int sizes @ replicate (nat MaxSets - length sizes) 0,
     ly_groups = word_of_int (int (length sizes))\<rparr>"

lemma length_le_sum: "(\<forall>n \<in> set sizes. 0 < n) \<Longrightarrow> int (length sizes) \<le> sum_list (sizes :: int list)"
  by (induction sizes) fastforce+

lemma newLayoutLoop_eq:
  assumes "0 \<le> t" "t \<le> 16" "length done' + length sizes \<le> 16"
  shows "newLayoutLoop sizes (length done') t
      (zeroLayout\<lparr>ly_sizes := map word_of_int done' @ replicate (16 - length done') 0, ly_groups := g\<rparr>) =
    (if (\<forall>n \<in> set sizes. 0 < n) \<and> t + sum_list sizes \<le> 16
     then Some (zeroLayout\<lparr>ly_sizes := map word_of_int (done' @ sizes) @ replicate (16 - length (done' @ sizes)) 0, ly_groups := g\<rparr>)
     else None)"
  using assms
proof (induction sizes arbitrary: done' t)
  case (Cons n sizes)
  have r: "replicate (16 - length done') (0 :: 8 word) = 0 # replicate (16 - length (done' @ [n])) 0"
    using Cons.prems(3) by (cases "16 - length done'") (auto simp: Suc_diff_Suc)
  have upd: "(map word_of_int done' @ replicate (16 - length done') 0)[length done' := word_of_int n]
      = map word_of_int (done' @ [n]) @ replicate (16 - length (done' @ [n])) (0 :: 8 word)"
    unfolding r by (simp add: list_update_append)
  have nonneg: "(\<forall>n \<in> set sizes. 0 < n) \<Longrightarrow> 0 \<le> sum_list sizes" using length_le_sum [of sizes] by linarith
  have "newLayoutLoop sizes (Suc (length done')) (t + n) (zeroLayout\<lparr>ly_sizes :=
      map word_of_int (done' @ [n]) @ replicate (16 - length (done' @ [n])) 0, ly_groups := g\<rparr>) =
    (if (\<forall>n \<in> set sizes. 0 < n) \<and> t + n + sum_list sizes \<le> 16
     then Some (zeroLayout\<lparr>ly_sizes := map word_of_int (done' @ n # sizes) @ replicate (16 - length (done' @ n # sizes)) 0, ly_groups := g\<rparr>)
     else None)" if "0 < n" "n \<le> 16 - t"
    using Cons.IH [of "t + n" "done' @ [n]"] Cons.prems that by simp
  then show ?case using nonneg upd by (auto simp: MaxSets_def zeroLayout_def simp del: map_append)
qed (simp add: MaxSets_def)

lemma zeroLayout_eq: "zeroLayout\<lparr>ly_groups := g\<rparr> = zeroLayout\<lparr>ly_sizes := replicate 16 0, ly_groups := g\<rparr>"
  by (simp add: zeroLayout_def MaxSets_def)

theorem NewLayout_eq: "NewLayout sizes = (if sizes_ok sizes then Some (layout_of sizes) else None)"
proof (cases "sizes = [] \<or> length sizes > 16")
  case True
  then have "\<not> sizes_ok sizes" using length_le_sum [of sizes] by (auto simp: sizes_ok_def MaxSets_def)
  with True show ?thesis by (auto simp: NewLayout_def MaxSets_def)
next
  case False
  then show ?thesis
    using newLayoutLoop_eq [of 0 "[]" sizes]
    by (simp add: NewLayout_def sizes_ok_def MaxSets_def zeroLayout_eq layout_of_def zeroLayout_def)
qed

lemma sizes_ok_bound: "sizes_ok sizes \<Longrightarrow> n \<in> set sizes \<Longrightarrow> 0 < n \<and> n \<le> 16"
proof -
  assume ok: "sizes_ok sizes" and n: "n \<in> set sizes"
  then have pos: "\<forall>n \<in> set sizes. 0 < n" by (simp add: sizes_ok_def)
  then have "n \<le> sum_list sizes" using member_le_sum_list [of n sizes] n
    by (metis (no_types, lifting) split_list pos sum_list_append sum_list.Cons order_less_imp_le sum_list_nonneg le_add_same_cancel2 add_increasing Un_iff set_append list.set_intros(2))
  with ok n pos show ?thesis by (auto simp: sizes_ok_def MaxSets_def)
qed

lemma sizes_ok_length: "sizes_ok sizes \<Longrightarrow> length sizes \<le> 16"
  using length_le_sum [of sizes] by (simp add: sizes_ok_def MaxSets_def)

lemma uint_small: "0 \<le> n \<Longrightarrow> n \<le> 16 \<Longrightarrow> uint (word_of_int n :: 8 word) = n"
  by (simp add: uint_word_of_int)

lemma of_nat_small: "n \<le> 16 \<Longrightarrow> uint (word_of_nat n :: 8 word) = int n" "n \<le> 16 \<Longrightarrow> unat (word_of_nat n :: 8 word) = n"
  by (simp_all add: unsigned_of_nat take_bit_nat_eq_self take_bit_int_eq_self)

lemma GroupSizes_layout_of [simp]: "sizes_ok sizes \<Longrightarrow> GroupSizes (layout_of sizes) = sizes"
  using sizes_ok_length [of sizes] sizes_ok_bound [of sizes]
  by (auto simp: GroupSizes_def Groups_def layout_of_def uint_small of_nat_small intro!: map_idI simp: less_imp_le)

lemma Groups_layout_of [simp]: "sizes_ok sizes \<Longrightarrow> Groups (layout_of sizes) = int (length sizes)"
  using sizes_ok_length [of sizes] by (simp add: Groups_def layout_of_def of_nat_small)

lemma fold_sum: "fold (\<lambda>sz t. t + sz) sizes (a :: int) = a + sum_list sizes"
  by (induction sizes arbitrary: a) auto

lemma Sets_eq: "Sets l = sum_list (GroupSizes l)"
  by (simp add: Sets_def fold_sum)

lemma layoutTotal_eq: "layoutTotal sizes t = (if 0 \<in> set sizes then None else Some (t + sum_list sizes))"
  by (induction sizes arbitrary: t) auto

lemma GroupSizes_nonneg: "n \<in> set (GroupSizes l) \<Longrightarrow> 0 \<le> n"
  by (auto simp: GroupSizes_def)

lemma Layout_Valid_sizes: "Layout_Valid l \<Longrightarrow> length (ly_sizes l) = 16 \<Longrightarrow> sizes_ok (GroupSizes l)"
proof -
  assume v: "Layout_Valid l" and l: "length (ly_sizes l) = 16"
  have g: "Groups l \<noteq> 0" "Groups l \<le> 16" "0 \<le> Groups l" "0 \<notin> set (GroupSizes l)" "sum_list (GroupSizes l) \<le> 16"
    using v by (auto simp: Layout_Valid_def layoutTotal_eq MaxSets_def Groups_def split: if_splits)
  have "length (GroupSizes l) = nat (Groups l)" using g l by (simp add: GroupSizes_def)
  with g have "GroupSizes l \<noteq> []" by force
  moreover have "0 < n" if "n \<in> set (GroupSizes l)" for n
    using GroupSizes_nonneg [OF that] g(4) that by (cases "n = 0") auto
  ultimately show ?thesis using g by (simp add: sizes_ok_def MaxSets_def)
qed

lemma Layout_Valid_layout_of [simp]: "sizes_ok sizes \<Longrightarrow> Layout_Valid (layout_of sizes)"
  using sizes_ok_bound [of sizes] sizes_ok_length [of sizes]
  by (auto simp: Layout_Valid_def layoutTotal_eq) (auto simp: sizes_ok_def MaxSets_def)

section \<open>The grammar of joined groups\<close>

definition joined :: "byte \<Rightarrow> bytes list \<Rightarrow> bytes" where
  "joined sep ls = (case ls of [] \<Rightarrow> [] | l # ls' \<Rightarrow> l @ concat (map ((#) sep) ls'))"

lemma joined_Cons: "joined sep (l # ls) = l @ (if ls = [] then [] else sep # joined sep ls)"
  by (cases ls) (simp_all add: joined_def)

definition value_of :: "bytes list list \<Rightarrow> bytes" where
  "value_of gs = joined AnySeparator (map (joined AllSeparator) gs)"

definition plain_set :: "bytes \<Rightarrow> bool" where
  "plain_set s \<longleftrightarrow> (\<forall>b \<in> set s. \<not> isSeparator b)"

definition groups_ok :: "bytes list list \<Rightarrow> bool" where
  "groups_ok gs \<longleftrightarrow> gs \<noteq> [] \<and> [] \<notin> set gs \<and> (\<forall>s \<in> set (concat gs). plain_set s \<and> \<not> wsp s) \<and> length (concat gs) \<le> 16"

fun groups_of :: "bytes \<Rightarrow> bytes list list" where
  "groups_of [] = [[[]]]"
| "groups_of (b # v) =
     (if b = AnySeparator then [[]] # groups_of v
      else case groups_of v of
        (s # ss) # gs \<Rightarrow> (if b = AllSeparator then ([] # s # ss) # gs else ((b # s) # ss) # gs)
      | _ \<Rightarrow> [])"

lemma separators_differ [simp]: "AllSeparator \<noteq> AnySeparator" "AnySeparator \<noteq> AllSeparator"
  by (simp_all add: AllSeparator_def AnySeparator_def)

lemma groups_of_shape: "\<exists>s ss gs. groups_of v = (s # ss) # gs \<and> [] \<notin> set gs"
  by (induction v) (auto split: list.splits)

lemma groups_of_plain: "\<forall>s \<in> set (concat (groups_of v)). plain_set s"
proof (induction v)
  case (Cons b v)
  obtain s ss gs where "groups_of v = (s # ss) # gs" using groups_of_shape by blast
  with Cons show ?case by (auto simp: plain_set_def isSeparator_def)
qed (simp add: plain_set_def)

lemma value_of_groups_of [simp]: "value_of (groups_of v) = v"
proof (induction v)
  case (Cons b v)
  obtain s ss gs where "groups_of v = (s # ss) # gs" using groups_of_shape by blast
  with Cons show ?case by (auto simp: value_of_def joined_Cons)
qed (simp add: value_of_def joined_def)

lemma groups_of_plain_prefix:
  "plain_set p \<Longrightarrow> groups_of v = (s # ss) # gs \<Longrightarrow> groups_of (p @ v) = ((p @ s) # ss) # gs"
  by (induction p) (auto simp: plain_set_def isSeparator_def)

lemma groups_of_joined:
  "\<forall>s \<in> set g. plain_set s \<Longrightarrow> g \<noteq> [] \<Longrightarrow>
    groups_of (joined AllSeparator g) = [g] \<and> groups_of (joined AllSeparator g @ AnySeparator # v) = g # groups_of v"
proof (induction g)
  case (Cons s g)
  show ?case
  proof (cases g)
    case Nil
    then show ?thesis using Cons.prems groups_of_plain_prefix [of s "[]"] groups_of_plain_prefix [of s "AnySeparator # v"]
      by (simp add: joined_def)
  next
    case (Cons t h)
    then show ?thesis using Cons.IH Cons.prems groups_of_plain_prefix [of s "AllSeparator # joined AllSeparator g"]
        groups_of_plain_prefix [of s "AllSeparator # joined AllSeparator g @ AnySeparator # v"]
      by (simp add: joined_Cons [of _ s])
  qed
qed simp

lemma groups_of_value_of: "gs \<noteq> [] \<Longrightarrow> [] \<notin> set gs \<Longrightarrow> \<forall>s \<in> set (concat gs). plain_set s \<Longrightarrow> groups_of (value_of gs) = gs"
proof (induction gs)
  case (Cons g gs)
  then show ?case using groups_of_joined [of g] groups_of_joined [of g "value_of gs"]
    by (cases "gs = []") (auto simp: value_of_def joined_Cons)
qed simp

lemma onlyWSP_eq: "onlyWSP s = wsp s"
  by (auto simp: onlyWSP_def wsp_def isWSP_def list_all_iff)

lemma splitLoop_eq:
  "groups_of v = (s # ss) # gs \<Longrightarrow> splitLoop v piece n sets sizes =
     (if \<exists>x \<in> set (concat (((piece @ s) # ss) # gs)). wsp x then None
      else Some (sets @ (piece @ s) # ss @ concat gs, sizes @ (n + 1 + int (length ss)) # map (int \<circ> length) gs))"
proof (induction v arbitrary: piece n sets sizes s ss gs)
  case (Cons b v)
  obtain t ts hs where g: "groups_of v = (t # ts) # hs" using groups_of_shape by blast
  consider "b = AnySeparator" | "b = AllSeparator" | "b \<noteq> AnySeparator" "b \<noteq> AllSeparator" by blast
  then show ?case
  proof cases
    case 1
    then have "s = []" "ss = []" "gs = (t # ts) # hs" using Cons.prems g by simp_all
    with 1 show ?thesis by (simp add: onlyWSP_eq Cons.IH [OF g])
  next
    case 2
    then have "s = []" "ss = t # ts" "gs = hs" using Cons.prems g by simp_all
    with 2 show ?thesis by (simp add: onlyWSP_eq Cons.IH [OF g])
  next
    case 3
    then have "s = b # t" "ss = ts" "gs = hs" using Cons.prems g by simp_all
    with 3 show ?thesis by (simp add: Cons.IH [OF g])
  qed
qed (auto simp: onlyWSP_eq)

lemma fold_count: "fold (\<lambda>b n. if P b then n + 1 else n) v (a :: int) = a + int (length (filter P v))"
  by (induction v arbitrary: a) auto

lemma countSeparators_groups: "int (length (concat (groups_of v))) = 1 + countSeparators v"
proof (induction v)
  case (Cons b v)
  obtain s ss gs where "groups_of v = (s # ss) # gs" using groups_of_shape by blast
  with Cons show ?case by (auto simp: countSeparators_def fold_count)
qed (simp add: countSeparators_def)

lemma sum_lengths: "sum_list (map (int \<circ> length) gs) = int (length (concat gs))"
  by (induction gs) simp_all

lemma sizes_ok_lengths: "gs \<noteq> [] \<Longrightarrow> sizes_ok (map (int \<circ> length) gs) \<longleftrightarrow> [] \<notin> set gs \<and> length (concat gs) \<le> 16"
proof -
  assume "gs \<noteq> []"
  then show ?thesis unfolding sizes_ok_def MaxSets_def sum_lengths by force
qed

theorem Split_eq:
  "Split v = (if groups_ok (groups_of v) then Some (concat (groups_of v), layout_of (map (int \<circ> length) (groups_of v))) else None)"
proof -
  obtain s ss gs where g: "groups_of v = (s # ss) # gs" "[] \<notin> set gs" using groups_of_shape by blast
  have n: "CountSets v > MaxSets \<longleftrightarrow> v \<noteq> [] \<and> \<not> length (concat (groups_of v)) \<le> 16"
    using countSeparators_groups [of v] by (auto simp: CountSets_def MaxSets_def)
  have sz: "sizes_ok (map (int \<circ> length) ((s # ss) # gs)) \<longleftrightarrow> length (concat (groups_of v)) \<le> 16"
    using g sizes_ok_lengths [of "(s # ss) # gs"] by simp
  have ok: "groups_ok (groups_of v) \<longleftrightarrow> (\<forall>x \<in> set (concat (groups_of v)). \<not> wsp x) \<and> length (concat (groups_of v)) \<le> 16"
    using g groups_of_plain [of v] by (auto simp: groups_ok_def)
  have e: "v = [] \<Longrightarrow> wsp s" using g by auto
  show ?thesis
    using splitLoop_eq [OF g(1), of "[]" 0 "[]" "[]"] sz e unfolding Split_def n ok
    by (auto simp: g NewLayout_eq split: if_splits)
qed

lemma Split_Some_iff:
  "Split v = Some (sets, l) \<longleftrightarrow>
     (\<exists>gs. groups_ok gs \<and> v = value_of gs \<and> sets = concat gs \<and> l = layout_of (map (int \<circ> length) gs))"
  using groups_of_value_of by (auto simp: Split_eq groups_ok_def)

section \<open>Positions\<close>

definition seps :: "int list \<Rightarrow> bytes" where
  "seps sizes = concat (map (\<lambda>n. AnySeparator # replicate (nat n - 1) AllSeparator) sizes)"

lemma separatorLoop_nth:
  "\<forall>n \<in> set sizes. 0 < n \<Longrightarrow> k < length (seps sizes) \<Longrightarrow> separatorLoop (start + int k) sizes start = seps sizes ! k"
proof (induction sizes arbitrary: k start)
  case (Cons n sizes)
  have len: "length (AnySeparator # replicate (nat n - 1) AllSeparator) = nat n" using Cons.prems by simp
  show ?case
  proof (cases "k < nat n")
    case True
    then show ?thesis using len by (cases k) (auto simp: seps_def nth_append)
  next
    case False
    have "separatorLoop (start + n + int (k - nat n)) sizes (start + n) = seps sizes ! (k - nat n)"
      using Cons.prems False by (intro Cons.IH) (auto simp: seps_def)
    moreover have "separatorLoop (start + int k) (n # sizes) start = separatorLoop (start + int k) sizes (start + n)"
      using False Cons.prems(1) by auto
    moreover have "seps (n # sizes) ! k = seps sizes ! (k - nat n)"
    proof -
      have "seps (n # sizes) = (AnySeparator # replicate (nat n - 1) AllSeparator) @ seps sizes" by (simp add: seps_def)
      then show ?thesis using False len by (simp only: nth_append) simp
    qed
    moreover have "start + n + int (k - nat n) = start + int k" using False Cons.prems(1) by auto
    ultimately show ?thesis by metis
  qed
qed (simp add: seps_def)

lemma length_seps: "\<forall>n \<in> set sizes. 0 < n \<Longrightarrow> int (length (seps sizes)) = sum_list sizes"
  by (induction sizes) (auto simp: seps_def)

lemma seps_group:
  "g \<noteq> [] \<Longrightarrow> concat (map2 (#) (AnySeparator # replicate (length g - 1) AllSeparator) g) = AnySeparator # joined AllSeparator g"
proof (induction g)
  case (Cons s g)
  then show ?case by (cases g) (simp_all add: joined_Cons)
qed simp

lemma seps_value:
  "gs \<noteq> [] \<Longrightarrow> [] \<notin> set gs \<Longrightarrow> concat (map2 (#) (seps (map (int \<circ> length) gs)) (concat gs)) = AnySeparator # value_of gs"
proof (induction gs)
  case (Cons g gs)
  have s: "seps (map (int \<circ> length) (g # gs)) = (AnySeparator # replicate (length g - 1) AllSeparator) @ seps (map (int \<circ> length) gs)"
    by (simp add: seps_def)
  have "concat (map2 (#) (seps (map (int \<circ> length) (g # gs))) (concat (g # gs)))
      = concat (map2 (#) (AnySeparator # replicate (length g - 1) AllSeparator) g)
        @ concat (map2 (#) (seps (map (int \<circ> length) gs)) (concat gs))"
  proof -
    have "length (AnySeparator # replicate (length g - 1) AllSeparator) = length g" using Cons.prems by (cases g) auto
    then show ?thesis unfolding s concat.simps by (simp only: zip_append map_append concat_append)
  qed
  also have "concat (map2 (#) (AnySeparator # replicate (length g - 1) AllSeparator) g) = AnySeparator # joined AllSeparator g"
    using Cons.prems by (intro seps_group) auto
  also have "(AnySeparator # joined AllSeparator g) @ concat (map2 (#) (seps (map (int \<circ> length) gs)) (concat gs))
      = AnySeparator # value_of (g # gs)"
  proof (cases "gs = []")
    case True
    then show ?thesis by (simp add: value_of_def joined_def seps_def)
  next
    case False
    then have "concat (map2 (#) (seps (map (int \<circ> length) gs)) (concat gs)) = AnySeparator # value_of gs"
      using Cons.IH Cons.prems by (simp add: comp_def)
    with False show ?thesis by (simp add: value_of_def joined_Cons)
  qed
  finally show ?case .
qed simp

lemma GroupOf_exact:
  "\<forall>n \<in> set sizes. 0 < n \<Longrightarrow> groupOfLoop index sizes g start = Some h \<longleftrightarrow>
     (\<exists>k < length sizes. h = g + int k \<and> start + sum_list (take k sizes) \<le> index \<and> index < start + sum_list (take (Suc k) sizes))"
proof (induction sizes arbitrary: g start)
  case (Cons n sizes)
  have ex: "(\<exists>k < length (n # sizes). P k) \<longleftrightarrow> P 0 \<or> (\<exists>k < length sizes. P (Suc k))" for P
    by (simp add: Ex_less_Suc2)
  have pos: "0 \<le> sum_list (take k sizes)" for k
    using Cons.prems by (intro sum_list_nonneg) (auto dest!: in_set_takeD intro: less_imp_le)
  have "\<not> (start + sum_list (take (Suc k) (n # sizes)) \<le> index)" if "index < start + n" for k
    using pos [of k] that by simp
  then show ?case using Cons.IH [of "g + 1" "start + n"] Cons.prems unfolding ex
    by (auto simp: add.assoc algebra_simps)
qed simp

end
