(* ===== verification/Combine_Evaluate.thy ===== *)
theory Combine_Evaluate
  imports Combine_Layout
begin

text \<open>
  Combination of intermediate results (\<open>internal/combine/evaluate.go\<close>): one rule inside a group, one
  across groups, and the decisive set that explains the outcome.
\<close>

section \<open>Results and outcomes\<close>

text \<open>\<open>CombineResultOther\<close> stands for the values outside the closed vocabulary, the zero value among them.\<close>

datatype CombineResult = ResultPass | ResultFail | ResultTempError | ResultPermError | CombineResultOther

definition CombineResult_Known :: "CombineResult \<Rightarrow> bool" where
  "CombineResult_Known r \<longleftrightarrow> r = ResultPass \<or> r = ResultFail \<or> r = ResultTempError \<or> r = ResultPermError"

record Outcome =
  oc_result :: CombineResult
  oc_decisive :: int
  oc_valid :: bool

definition zeroOutcome :: Outcome where
  "zeroOutcome = \<lparr>oc_result = CombineResultOther, oc_decisive = 0, oc_valid = False\<rparr>"

definition Pass :: "Outcome \<Rightarrow> bool" where
  "Pass o' \<longleftrightarrow> oc_valid o' \<and> oc_result o' = ResultPass"

section \<open>The rules\<close>

fun signatureAllLoop :: "CombineResult list \<Rightarrow> bool \<Rightarrow> bool \<Rightarrow> bool \<Rightarrow> bool \<times> bool \<times> bool" where
  "signatureAllLoop [] allPass nonPassAllTemp anyFail = (allPass, nonPassAllTemp, anyFail)"
| "signatureAllLoop (r # rs) allPass nonPassAllTemp anyFail =
     (if r = ResultPass then signatureAllLoop rs allPass nonPassAllTemp anyFail
      else signatureAllLoop rs False (if r \<noteq> ResultTempError then False else nonPassAllTemp)
             (if r = ResultFail then True else anyFail))"

definition signatureAll :: "CombineResult list \<Rightarrow> CombineResult" where
  "signatureAll results =
     (case signatureAllLoop results True True False of (allPass, nonPassAllTemp, anyFail) \<Rightarrow>
      if allPass then ResultPass else if nonPassAllTemp then ResultTempError
      else if anyFail then ResultFail else ResultPermError)"

fun firstPresent :: "CombineResult list \<Rightarrow> CombineResult list \<Rightarrow> CombineResult" where
  "firstPresent results [] = ResultPermError"
| "firstPresent results (candidate # precedence) =
     (if List.member results candidate then candidate else firstPresent results precedence)"

definition signatureAny :: "CombineResult list \<Rightarrow> CombineResult" where
  "signatureAny results = firstPresent results [ResultPass, ResultTempError, ResultFail]"

fun hashAllLoop :: "CombineResult list \<Rightarrow> bool \<Rightarrow> bool \<Rightarrow> bool \<times> bool" where
  "hashAllLoop [] allPass anyFail = (allPass, anyFail)"
| "hashAllLoop (r # rs) allPass anyFail = hashAllLoop rs (allPass \<and> r = ResultPass) (anyFail \<or> r = ResultFail)"

definition hashAll :: "CombineResult list \<Rightarrow> CombineResult" where
  "hashAll results =
     (case hashAllLoop results True False of (allPass, anyFail) \<Rightarrow>
      if allPass then ResultPass else if anyFail then ResultFail else ResultPermError)"

definition hashAny :: "CombineResult list \<Rightarrow> CombineResult" where
  "hashAny results = firstPresent results [ResultPass, ResultFail]"

section \<open>Combination\<close>

text \<open>Per group its result and the position of its first set, the slices \<open>groups\<close> and \<open>starts\<close> of the code.\<close>

fun groupResults ::
    "(CombineResult list \<Rightarrow> CombineResult) \<Rightarrow> CombineResult list \<Rightarrow> int list \<Rightarrow> int \<Rightarrow> (CombineResult \<times> int) list" where
  "groupResults allRule intermediates [] start = []"
| "groupResults allRule intermediates (sz # sizes) start =
     (allRule (Go_Bytes.slice intermediates (nat start) (nat (start + sz))), start)
       # groupResults allRule intermediates sizes (start + sz)"

fun decisiveInGroup :: "CombineResult list \<Rightarrow> CombineResult \<Rightarrow> int \<Rightarrow> nat \<Rightarrow> Outcome" where
  "decisiveInGroup intermediates r index 0 = zeroOutcome"
| "decisiveInGroup intermediates r index (Suc n) =
     (if intermediates ! nat index = r then \<lparr>oc_result = r, oc_decisive = index, oc_valid = True\<rparr>
      else decisiveInGroup intermediates r (index + 1) n)"

fun decisiveLoop :: "CombineResult list \<Rightarrow> CombineResult \<Rightarrow> ((CombineResult \<times> int) \<times> int) list \<Rightarrow> Outcome" where
  "decisiveLoop intermediates r [] = zeroOutcome"
| "decisiveLoop intermediates r (((groupResult, start), sz) # rest) =
     (if groupResult \<noteq> r then decisiveLoop intermediates r rest
      else decisiveInGroup intermediates r start (nat sz))"

definition combine ::
    "Layout \<Rightarrow> CombineResult list \<Rightarrow> (CombineResult list \<Rightarrow> CombineResult) \<Rightarrow> (CombineResult list \<Rightarrow> CombineResult)
       \<Rightarrow> bool \<Rightarrow> Outcome" where
  "combine layout intermediates allRule anyRule allowTemp =
     (if \<not> Layout_Valid layout \<or> Sets layout \<noteq> int (length intermediates) then zeroOutcome
      else if list_ex (\<lambda>r. \<not> CombineResult_Known r \<or> \<not> allowTemp \<and> r = ResultTempError) intermediates then zeroOutcome
      else let groups = groupResults allRule intermediates (GroupSizes layout) 0; r = anyRule (map fst groups)
        in decisiveLoop intermediates r (zip groups (GroupSizes layout)))"

definition Signatures :: "Layout \<Rightarrow> CombineResult list \<Rightarrow> Outcome" where
  "Signatures layout intermediates = combine layout intermediates signatureAll signatureAny True"

definition Hashes :: "Layout \<Rightarrow> CombineResult list \<Rightarrow> Outcome" where
  "Hashes layout intermediates = combine layout intermediates hashAll hashAny False"

section \<open>What the rules compute\<close>

lemma signatureAllLoop_eq:
  "signatureAllLoop rs a b c = (a \<and> (\<forall>r \<in> set rs. r = ResultPass), b \<and> (\<forall>r \<in> set rs. r = ResultPass \<or> r = ResultTempError),
     c \<or> ResultFail \<in> set rs)"
  by (induction rs arbitrary: a b c) auto

lemma signatureAll_eq:
  "signatureAll rs = (if \<forall>r \<in> set rs. r = ResultPass then ResultPass
     else if \<forall>r \<in> set rs. r = ResultPass \<or> r = ResultTempError then ResultTempError
     else if ResultFail \<in> set rs then ResultFail else ResultPermError)"
  by (simp add: signatureAll_def signatureAllLoop_eq)

lemma hashAllLoop_eq: "hashAllLoop rs a b = (a \<and> (\<forall>r \<in> set rs. r = ResultPass), b \<or> ResultFail \<in> set rs)"
  by (induction rs arbitrary: a b) auto

lemma hashAll_eq:
  "hashAll rs = (if \<forall>r \<in> set rs. r = ResultPass then ResultPass
     else if ResultFail \<in> set rs then ResultFail else ResultPermError)"
  by (simp add: hashAll_def hashAllLoop_eq)

lemma signatureAny_eq:
  "signatureAny rs = (if ResultPass \<in> set rs then ResultPass else if ResultTempError \<in> set rs then ResultTempError
     else if ResultFail \<in> set rs then ResultFail else ResultPermError)"
  by (simp add: signatureAny_def)

lemma hashAny_eq:
  "hashAny rs = (if ResultPass \<in> set rs then ResultPass else if ResultFail \<in> set rs then ResultFail else ResultPermError)"
  by (simp add: hashAny_def)

section \<open>Groups as lists of results\<close>

fun chunks :: "int list \<Rightarrow> 'a list \<Rightarrow> 'a list list" where
  "chunks [] xs = []"
| "chunks (n # ns) xs = take (nat n) xs # chunks ns (drop (nat n) xs)"

lemma concat_chunks: "\<forall>n \<in> set ns. 0 < n \<Longrightarrow> sum_list ns = int (length xs) \<Longrightarrow> concat (chunks ns xs) = xs"
proof (induction ns arbitrary: xs)
  case (Cons n ns)
  then have "sum_list ns = int (length (drop (nat n) xs))" using length_le_sum [of ns] by auto
  with Cons show ?case by simp
qed simp

lemma chunks_lengths:
  "\<forall>n \<in> set ns. 0 < n \<Longrightarrow> sum_list ns = int (length xs) \<Longrightarrow> map (int \<circ> length) (chunks ns xs) = ns"
proof (induction ns arbitrary: xs)
  case (Cons n ns)
  then have "sum_list ns = int (length (drop (nat n) xs))" "nat n \<le> length xs" using length_le_sum [of ns] by auto
  with Cons show ?case by simp
qed simp

lemma chunks_concat: "chunks (map (int \<circ> length) gs) (concat gs) = gs"
  by (induction gs) simp_all

lemma groupResults_chunks:
  "0 \<le> start \<Longrightarrow> \<forall>n \<in> set ns. 0 < n \<Longrightarrow>
     map fst (groupResults f xs ns start) = map f (chunks ns (drop (nat start) xs))"
  by (induction ns arbitrary: start) (auto simp: Go_Bytes.slice_def nat_add_distrib add.commute)

text \<open>The decisive position: offset of the first group with the result, plus its first occurrence there.\<close>

fun decisive :: "('a list \<Rightarrow> 'a) \<Rightarrow> 'a \<Rightarrow> nat \<Rightarrow> 'a list list \<Rightarrow> nat option" where
  "decisive f r k [] = None"
| "decisive f r k (g # gs) =
     (if f g = r then (if r \<in> set g then Some (k + length (takeWhile (\<lambda>x. x \<noteq> r) g)) else None)
      else decisive f r (k + length g) gs)"

definition outcome_at :: "CombineResult \<Rightarrow> nat option \<Rightarrow> Outcome" where
  "outcome_at r d = (case d of None \<Rightarrow> zeroOutcome | Some i \<Rightarrow> \<lparr>oc_result = r, oc_decisive = int i, oc_valid = True\<rparr>)"

lemma decisiveInGroup_eq:
  "decisiveInGroup (ys @ g @ zs) r (int (length ys)) (length g) =
     (if r \<in> set g then outcome_at r (Some (length ys + length (takeWhile (\<lambda>x. x \<noteq> r) g))) else zeroOutcome)"
proof (induction g arbitrary: ys)
  case (Cons x g)
  show ?case using Cons.IH [of "ys @ [x]"] by (auto simp: nth_append outcome_at_def add.commute)
qed simp

lemma decisiveLoop_eq:
  "decisiveLoop (ys @ concat gs) r (zip (groupResults f (ys @ concat gs) (map (int \<circ> length) gs) (int (length ys))) (map (int \<circ> length) gs))
     = outcome_at r (decisive f r (length ys) gs)"
proof (induction gs arbitrary: ys)
  case Nil
  then show ?case by (simp add: outcome_at_def)
next
  case (Cons g gs)
  have "Go_Bytes.slice (ys @ g @ concat gs) (length ys) (nat (int (length ys) + int (length g))) = g"
    using slice_middle [of ys g "concat gs"] by (simp add: nat_int_add)
  then show ?case using Cons.IH [of "ys @ g"] decisiveInGroup_eq [of ys g "concat gs" r]
    by (auto simp: outcome_at_def)
qed

definition allowed :: "bool \<Rightarrow> CombineResult \<Rightarrow> bool" where
  "allowed temp r \<longleftrightarrow> CombineResult_Known r \<and> (temp \<or> r \<noteq> ResultTempError)"

lemma combine_eq:
  assumes "sizes_ok sizes"
  shows "combine (layout_of sizes) rs f a temp =
    (if sum_list sizes = int (length rs) \<and> list_all (allowed temp) rs
     then outcome_at (a (map f (chunks sizes rs))) (decisive f (a (map f (chunks sizes rs))) 0 (chunks sizes rs))
     else zeroOutcome)"
proof -
  have pos: "\<forall>n \<in> set sizes. 0 < n" using assms by (simp add: sizes_ok_def)
  let ?r = "a (map f (chunks sizes rs))"
  have "decisiveLoop rs ?r (zip (groupResults f rs sizes 0) sizes) = outcome_at ?r (decisive f ?r 0 (chunks sizes rs))"
    if "sum_list sizes = int (length rs)"
    using decisiveLoop_eq [of "[]" "chunks sizes rs" ?r f] concat_chunks [OF pos that] chunks_lengths [OF pos that] by simp
  moreover have "map fst (groupResults f rs sizes 0) = map f (chunks sizes rs)"
    using groupResults_chunks [of 0 sizes f rs] pos by simp
  ultimately show ?thesis
    using assms by (auto simp: combine_def Sets_eq Let_def list_ex_iff list_all_iff allowed_def)
qed

section \<open>The decisive set\<close>

definition explains :: "('a list \<Rightarrow> 'a) \<Rightarrow> 'a list list \<Rightarrow> 'a \<Rightarrow> nat \<Rightarrow> bool" where
  "explains f gs r i \<longleftrightarrow> (\<exists>pre g post j. gs = pre @ g # post \<and> f g = r \<and> (\<forall>h \<in> set pre. f h \<noteq> r)
     \<and> i = length (concat pre) + j \<and> j < length g \<and> g ! j = r \<and> (\<forall>k < j. g ! k \<noteq> r))"

lemma first_occurrence:
  "r \<in> set g \<Longrightarrow> \<exists>j. length (takeWhile (\<lambda>x. x \<noteq> r) g) = j \<and> j < length g \<and> g ! j = r \<and> (\<forall>k < j. g ! k \<noteq> r)"
  by (induction g) (auto simp: nth_Cons split: nat.splits)

lemma decisive_explains:
  assumes "\<exists>g \<in> set gs. f g = r" "\<forall>g \<in> set gs. f g \<in> set g"
  shows "\<exists>i. decisive f r k gs = Some (k + i) \<and> explains f gs r i"
  using assms
proof (induction gs arbitrary: k)
  case (Cons g gs)
  show ?case
  proof (cases "f g = r")
    case True
    with Cons.prems have "r \<in> set g" by auto
    then obtain j where "length (takeWhile (\<lambda>x. x \<noteq> r) g) = j" and j: "j < length g" "g ! j = r" "\<forall>k < j. g ! k \<noteq> r"
      using first_occurrence [of r g] by blast
    then have "decisive f r k (g # gs) = Some (k + j)" using True \<open>r \<in> set g\<close> by simp
    moreover have "g # gs = [] @ g # gs \<and> f g = r \<and> (\<forall>h \<in> set []. f h \<noteq> r) \<and> j = length (concat []) + j"
      using True by simp
    ultimately show ?thesis unfolding explains_def using j by blast
  next
    case False
    with Cons.prems obtain i where "decisive f r (k + length g) gs = Some (k + length g + i)" "explains f gs r i"
      using Cons.IH [of "k + length g"] by auto
    then obtain pre h post j where "gs = pre @ h # post" "f h = r" "\<forall>h \<in> set pre. f h \<noteq> r"
        "i = length (concat pre) + j" "j < length h" "h ! j = r" "\<forall>k < j. h ! k \<noteq> r"
      unfolding explains_def by blast
    then have "explains f (g # gs) r (length g + i)"
      unfolding explains_def using False
      by (intro exI [of _ "g # pre"] exI [of _ h] exI [of _ post] exI [of _ j]) simp
    then show ?thesis using False \<open>decisive f r (k + length g) gs = _\<close> by (auto simp: add.assoc)
  qed
qed simp

lemma explains_nth: "explains f gs r i \<Longrightarrow> i < length (concat gs) \<and> concat gs ! i = r"
  unfolding explains_def by (auto simp: nth_append)

text \<open>
  The two combinations share one contract: a rule only ever answers a result that one of its inputs
  carries. Under it every coherent input has a decisive set.
\<close>

locale combination =
  fixes allRule anyRule :: "CombineResult list \<Rightarrow> CombineResult" and temp :: bool
  assumes all_carried: "g \<noteq> [] \<Longrightarrow> list_all (allowed temp) g \<Longrightarrow> allRule g \<in> set g"
    and any_carried: "rs \<noteq> [] \<Longrightarrow> list_all (allowed temp) rs \<Longrightarrow> anyRule rs \<in> set rs"
begin

lemma outcome:
  assumes sizes: "sizes_ok sizes" and rs: "sum_list sizes = int (length rs)" "list_all (allowed temp) rs"
  defines "gs \<equiv> chunks sizes rs"
  shows "\<exists>i. combine (layout_of sizes) rs allRule anyRule temp
      = \<lparr>oc_result = anyRule (map allRule gs), oc_decisive = int i, oc_valid = True\<rparr>
    \<and> explains allRule gs (anyRule (map allRule gs)) i"
proof -
  have pos: "\<forall>n \<in> set sizes. 0 < n" using sizes by (simp add: sizes_ok_def)
  have lens: "map (int \<circ> length) gs = sizes" unfolding gs_def by (rule chunks_lengths [OF pos rs(1)])
  have "concat gs = rs" unfolding gs_def by (rule concat_chunks [OF pos rs(1)])
  then have allowed: "list_all (allowed temp) g" if "g \<in> set gs" for g
    using rs(2) that by (auto simp: list_all_iff)
  have "g \<noteq> []" if "g \<in> set gs" for g
    using pos lens that by (auto simp: in_set_conv_decomp)
  then have carried: "\<forall>g \<in> set gs. allRule g \<in> set g" using all_carried allowed by blast
  have "gs \<noteq> []" using sizes lens by (auto simp: sizes_ok_def)
  moreover have "list_all (allowed temp) (map allRule gs)"
    using carried allowed by (fastforce simp: list_all_iff)
  ultimately have "anyRule (map allRule gs) \<in> set (map allRule gs)" by (intro any_carried) simp_all
  then have "\<exists>g \<in> set gs. allRule g = anyRule (map allRule gs)" by auto
  from decisive_explains [OF this carried, of 0] show ?thesis
    using combine_eq [OF sizes, of rs allRule anyRule temp] rs by (auto simp: gs_def outcome_at_def)
qed

end

lemma allowed_cases: "allowed temp r \<Longrightarrow> r = ResultPass \<or> r = ResultFail \<or> r = ResultPermError \<or> temp \<and> r = ResultTempError"
  by (auto simp: allowed_def CombineResult_Known_def)

interpretation sigs: combination signatureAll signatureAny True
proof
  fix g assume "g \<noteq> []" "list_all (allowed True) g"
  then have g: "hd g \<in> set g" and k: "\<And>r. r \<in> set g \<Longrightarrow> r = ResultPass \<or> r = ResultFail \<or> r = ResultPermError \<or> r = ResultTempError"
    using allowed_cases [of True] by (auto simp: list_all_iff)
  show "signatureAll g \<in> set g" unfolding signatureAll_eq using g k by (auto split: if_splits)
  show "signatureAny g \<in> set g" unfolding signatureAny_eq using g k by (auto split: if_splits) metis
qed

interpretation hashes: combination hashAll hashAny False
proof
  fix g assume "g \<noteq> []" "list_all (allowed False) g"
  then have g: "hd g \<in> set g" and k: "\<And>r. r \<in> set g \<Longrightarrow> r = ResultPass \<or> r = ResultFail \<or> r = ResultPermError"
    using allowed_cases [of False] by (auto simp: list_all_iff)
  show "hashAll g \<in> set g" unfolding hashAll_eq using g k by (auto split: if_splits)
  show "hashAny g \<in> set g" unfolding hashAny_eq using g k by (auto split: if_splits) metis
qed

end
