(* ===== verification/Combine_Properties.thy ===== *)
theory Combine_Properties
  imports Combine_Evaluate
begin

text \<open>
  Properties of the group structure and of the combination of results (\<open>internal/combine\<close>), stated
  against the wording of the specification: quantifiers over groups and their sets instead of flags.
\<close>

section \<open>Verdicts over groups\<close>

definition sig_verdict :: "CombineResult list list \<Rightarrow> CombineResult" where
  "sig_verdict gs =
     (if \<exists>g \<in> set gs. \<forall>r \<in> set g. r = ResultPass then ResultPass
      else if \<exists>g \<in> set gs. \<forall>r \<in> set g. r = ResultPass \<or> r = ResultTempError then ResultTempError
      else if ResultFail \<in> set (concat gs) then ResultFail else ResultPermError)"

definition hash_verdict :: "CombineResult list list \<Rightarrow> CombineResult" where
  "hash_verdict gs =
     (if \<exists>g \<in> set gs. \<forall>r \<in> set g. r = ResultPass then ResultPass
      else if ResultFail \<in> set (concat gs) then ResultFail else ResultPermError)"

lemma signatures_verdict: "signatureAny (map signatureAll gs) = sig_verdict gs"
proof -
  have "ResultPass \<in> set (map signatureAll gs) \<longleftrightarrow> (\<exists>g \<in> set gs. \<forall>r \<in> set g. r = ResultPass)"
    by (force simp: signatureAll_eq image_iff)
  moreover have "ResultPass \<in> set (map signatureAll gs) \<or> ResultTempError \<in> set (map signatureAll gs) \<longleftrightarrow>
      (\<exists>g \<in> set gs. \<forall>r \<in> set g. r = ResultPass \<or> r = ResultTempError)"
    by (force simp: signatureAll_eq image_iff)
  moreover have "(\<forall>g \<in> set gs. \<exists>r \<in> set g. r \<noteq> ResultPass \<and> r \<noteq> ResultTempError) \<Longrightarrow>
      ResultFail \<in> set (map signatureAll gs) \<longleftrightarrow> ResultFail \<in> set (concat gs)"
    by (fastforce simp: signatureAll_eq image_iff)
  ultimately show ?thesis unfolding signatureAny_eq sig_verdict_def by (smt (verit, best))
qed

lemma hashes_verdict: "hashAny (map hashAll gs) = hash_verdict gs"
proof -
  have "ResultPass \<in> set (map hashAll gs) \<longleftrightarrow> (\<exists>g \<in> set gs. \<forall>r \<in> set g. r = ResultPass)"
    by (force simp: hashAll_eq image_iff)
  moreover have "(\<forall>g \<in> set gs. \<exists>r \<in> set g. r \<noteq> ResultPass) \<Longrightarrow>
      ResultFail \<in> set (map hashAll gs) \<longleftrightarrow> ResultFail \<in> set (concat gs)"
    by (fastforce simp: hashAll_eq image_iff)
  ultimately show ?thesis unfolding hashAny_eq hash_verdict_def by (smt (verit, best))
qed

section \<open>Properties\<close>

text \<open>
  C24: signatures combine as Section 14.6 says. For a layout and intermediates that fit it, the outcome
  is valid; it is PASS iff some group passes throughout, else TEMPERROR iff some group has no other
  defect, else FAIL iff any signature failed, else PERMERROR; and the reported set is the first one
  with that result inside the first group with that result. Everything else is answered with the
  invalid zero outcome.
\<close>

theorem signatures_exact:
  assumes "NewLayout sizes = Some l"
  shows "if sum_list sizes = int (length rs) \<and> list_all CombineResult_Known rs
    then \<exists>i. Signatures l rs = \<lparr>oc_result = sig_verdict (chunks sizes rs), oc_decisive = int i, oc_valid = True\<rparr>
      \<and> explains signatureAll (chunks sizes rs) (sig_verdict (chunks sizes rs)) i
    else Signatures l rs = zeroOutcome"
proof -
  have ok: "sizes_ok sizes" and l: "l = layout_of sizes" using assms by (simp_all add: NewLayout_eq split: if_splits)
  have allowed: "list_all (allowed True) rs = list_all CombineResult_Known rs" by (simp add: list_all_iff allowed_def)
  show ?thesis
    using sigs.outcome [OF ok, of rs] combine_eq [OF ok, of rs signatureAll signatureAny True]
    unfolding Signatures_def l signatures_verdict allowed by simp
qed

theorem signatures_exact_witness:
  "\<exists>l. NewLayout [2, 1] = Some l \<and> Signatures l [ResultPass, ResultFail, ResultTempError]
     = \<lparr>oc_result = ResultTempError, oc_decisive = 2, oc_valid = True\<rparr>"
proof -
  obtain l where l: "NewLayout [2, 1] = Some l" by (simp add: NewLayout_eq sizes_ok_def MaxSets_def)
  let ?rs = "[ResultPass, ResultFail, ResultTempError]"
  have v: "sig_verdict [[ResultPass, ResultFail], [ResultTempError]] = ResultTempError" by (simp add: sig_verdict_def)
  from signatures_exact [OF l, of ?rs] obtain i where
      i: "Signatures l ?rs = \<lparr>oc_result = ResultTempError, oc_decisive = int i, oc_valid = True\<rparr>"
      "explains signatureAll (chunks [2, 1] ?rs) ResultTempError i"
    by (auto simp: v CombineResult_Known_def)
  have "i < 3 \<and> ?rs ! i = ResultTempError" using explains_nth [OF i(2)] by simp
  then have "i = 2" by (auto simp: less_Suc_eq numeral_3_eq_3)
  with i l show ?thesis by simp
qed

text \<open>
  C25: hash sets combine as Section 14.7 says: PASS iff some group passes throughout, else FAIL iff any
  set failed, else PERMERROR, explained by the first such set of the first such group; a TEMPERROR
  intermediate or a layout that does not fit makes the outcome invalid.
\<close>

theorem hashes_exact:
  assumes "NewLayout sizes = Some l"
  shows "if sum_list sizes = int (length rs) \<and> list_all (\<lambda>r. CombineResult_Known r \<and> r \<noteq> ResultTempError) rs
    then \<exists>i. Hashes l rs = \<lparr>oc_result = hash_verdict (chunks sizes rs), oc_decisive = int i, oc_valid = True\<rparr>
      \<and> explains hashAll (chunks sizes rs) (hash_verdict (chunks sizes rs)) i
    else Hashes l rs = zeroOutcome"
proof -
  have ok: "sizes_ok sizes" and l: "l = layout_of sizes" using assms by (simp_all add: NewLayout_eq split: if_splits)
  have allowed: "list_all (allowed False) rs = list_all (\<lambda>r. CombineResult_Known r \<and> r \<noteq> ResultTempError) rs"
    by (simp add: list_all_iff allowed_def)
  show ?thesis
    using hashes.outcome [OF ok, of rs] combine_eq [OF ok, of rs hashAll hashAny False]
    unfolding Hashes_def l hashes_verdict allowed by simp
qed

theorem hashes_exact_witness:
  "\<exists>l. NewLayout [1, 1] = Some l \<and> oc_result (Hashes l [ResultPermError, ResultPass]) = ResultPass
     \<and> Hashes l [ResultTempError, ResultPass] = zeroOutcome"
proof -
  obtain l where l: "NewLayout [1, 1] = Some l" by (simp add: NewLayout_eq sizes_ok_def MaxSets_def)
  have "hash_verdict (chunks [1, 1] [ResultPermError, ResultPass]) = ResultPass"
    by (simp add: hash_verdict_def)
  with l show ?thesis
    using hashes_exact [OF l, of "[ResultPermError, ResultPass]"] hashes_exact [OF l, of "[ResultTempError, ResultPass]"]
    by (auto simp: CombineResult_Known_def)
qed

text \<open>
  C26: the splitter accepts exactly the values that are groups of nonblank sets, joined by commas inside
  and bars between groups, with at most sixteen sets; it returns the sets in field order with the
  group sizes, and the separators that the layout reports put the value together again.
\<close>

theorem split_exact:
  "Split v = Some (sets, l) \<longleftrightarrow>
     (\<exists>gs. groups_ok gs \<and> v = value_of gs \<and> sets = concat gs \<and> NewLayout (map (int \<circ> length) gs) = Some l)
     \<and> v = concat (map (\<lambda>i. (if i = 0 then [] else [SeparatorBefore l (int i)]) @ sets ! i) [0..<length sets])"
  (is "?split \<longleftrightarrow> ?groups \<and> ?rebuilt")
proof -
  have sizes: "sizes_ok (map (int \<circ> length) gs)" if "groups_ok gs" for gs
    using that by (simp add: sizes_ok_lengths groups_ok_def)
  have "?split \<longleftrightarrow> ?groups" unfolding Split_Some_iff NewLayout_eq using sizes by auto
  moreover have ?rebuilt if ?groups
  proof -
    from that obtain gs where gs: "groups_ok gs" "v = value_of gs" "sets = concat gs" "l = layout_of (map (int \<circ> length) gs)"
      using sizes by (auto simp: NewLayout_eq split: if_splits)
    let ?sizes = "map (int \<circ> length) gs"
    have pos: "\<forall>n \<in> set ?sizes. 0 < n" using sizes [OF gs(1)] unfolding sizes_ok_def by simp
    have "int (length (seps ?sizes)) = int (length sets)"
      using length_seps [OF pos] gs(3) by (simp add: sum_lengths)
    then have len: "length (seps ?sizes) = length sets" by simp
    have sep: "SeparatorBefore l (int i) = seps ?sizes ! i" if "0 < i" "i < length sets" for i
      using separatorLoop_nth [OF pos, of i 0] that len gs(4) sizes [OF gs(1)] by (simp add: SeparatorBefore_def)
    have "AnySeparator # v = concat (map2 (#) (seps ?sizes) sets)"
      using seps_value [of gs] gs by (simp add: groups_ok_def)
    also have "map2 (#) (seps ?sizes) sets = map (\<lambda>i. seps ?sizes ! i # sets ! i) [0..<length sets]"
      by (rule nth_equalityI) (simp_all add: len)
    finally have v: "AnySeparator # v = concat (map (\<lambda>i. seps ?sizes ! i # sets ! i) [0..<length sets])" .
    then have "length sets \<noteq> 0" by auto
    then have up: "[0..<length sets] = 0 # [1..<length sets]" by (simp add: upt_rec)
    have "v = sets ! 0 @ concat (map (\<lambda>i. seps ?sizes ! i # sets ! i) [1..<length sets])" using v unfolding up by simp
    moreover have "map (\<lambda>i. seps ?sizes ! i # sets ! i) [1..<length sets]
        = map (\<lambda>i. (if i = 0 then [] else [SeparatorBefore l (int i)]) @ sets ! i) [1..<length sets]"
      by (rule map_cong) (auto simp: sep)
    ultimately show ?thesis unfolding up by (simp only: list.map concat.simps if_True append_Nil simp_thms)
  qed
  ultimately show ?thesis by blast
qed

end
