(* ===== verification/Domainname.thy ===== *)
theory Domainname
  imports Go_Bytes
begin

text \<open>
  Protocol domain names (\<open>internal/domainname/domainname.go\<close>). The registration profile of the IDNA
  package is outside the sources: it is the parameter \<open>registration\<close>, a function from names to
  converted names that may fail. Nothing is assumed about it, since its output is checked again.
\<close>

section \<open>Definitions\<close>

definition maxDomainBytes :: nat where "maxDomainBytes = 253"

definition maxLabelBytes :: nat where "maxLabelBytes = 63"

definition IsASCII :: "bytes \<Rightarrow> bool" where
  "IsASCII domain \<longleftrightarrow> list_all (\<lambda>b. octet b < 128) domain"

definition foldByte :: "byte \<Rightarrow> byte" where
  "foldByte b = (if 65 \<le> octet b \<and> octet b \<le> 90 then char_of (octet b + 32) else b)"

definition hasACEPrefix :: "bytes \<Rightarrow> bool" where
  "hasACEPrefix domain \<longleftrightarrow> list_ex (\<lambda>label. HasPrefix label ''xn--'') (SplitByte (CHR ''.'') domain)"

definition ldhByte :: "byte \<Rightarrow> bool" where
  "ldhByte b \<longleftrightarrow> 97 \<le> octet b \<and> octet b \<le> 122 \<or> 48 \<le> octet b \<and> octet b \<le> 57 \<or> b = CHR ''-''"

definition validLDHLabel :: "bytes \<Rightarrow> bool" where
  "validLDHLabel label =
     (if label = [] \<or> length label > maxLabelBytes \<or> hd label = CHR ''-'' \<or> last label = CHR ''-'' then False
      else list_all ldhByte label)"

text \<open>The index loop over the name; \<open>label\<close> holds the octets since the start of the current label.\<close>

fun validLabelsLoop :: "bytes \<Rightarrow> bytes \<Rightarrow> bool" where
  "validLabelsLoop [] label = validLDHLabel label"
| "validLabelsLoop (b # domain) label =
     (if b \<noteq> CHR ''.'' then validLabelsLoop domain (label @ [b])
      else if \<not> validLDHLabel label then False
      else validLabelsLoop domain [])"

definition validASCIIDomain :: "bytes \<Rightarrow> bool" where
  "validASCIIDomain domain =
     (if domain = [] \<or> length domain > maxDomainBytes then False else validLabelsLoop domain [])"

definition ToASCII :: "(bytes \<Rightarrow> bytes option) \<Rightarrow> bytes \<Rightarrow> bytes option" where
  "ToASCII registration domain =
     (if domain = [] \<or> hd domain = CHR ''.'' \<or> last domain = CHR ''.'' then None
      else let folded = map foldByte domain in
        if IsASCII folded \<and> \<not> hasACEPrefix folded
        then (if \<not> validASCIIDomain folded then None else Some folded)
        else case registration folded of
          None \<Rightarrow> None
        | Some converted \<Rightarrow> (if \<not> validASCIIDomain converted then None else Some converted))"

section \<open>Valid names are sequences of labels\<close>

lemma validLabelsLoop_eq:
  "CHR ''.'' \<notin> set label \<Longrightarrow> validLabelsLoop domain label \<longleftrightarrow>
     list_all validLDHLabel (SplitByte (CHR ''.'') (label @ domain))"
proof (induction domain arbitrary: label)
  case Nil
  then show ?case by (simp add: SplitByte_plain)
next
  case (Cons b domain)
  then show ?case using Cons.IH [of "label @ [b]"] Cons.IH [of "[]"] by (auto simp: SplitByte_sep)
qed

definition ldh_name :: "bytes \<Rightarrow> bool" where
  "ldh_name d \<longleftrightarrow> length d \<le> 253 \<and> (\<forall>l \<in> set (SplitByte (CHR ''.'') d).
     0 < length l \<and> length l \<le> 63 \<and> hd l \<noteq> CHR ''-'' \<and> last l \<noteq> CHR ''-'' \<and> list_all ldhByte l)"

lemma validASCIIDomain_eq: "validASCIIDomain d = ldh_name d"
  using validLabelsLoop_eq [of "[]" d]
  by (auto simp: validASCIIDomain_def ldh_name_def validLDHLabel_def maxLabelBytes_def maxDomainBytes_def list_all_iff)

lemma foldByte_ldh [simp]: "ldhByte b \<Longrightarrow> foldByte b = b"
  by (auto simp: foldByte_def ldhByte_def)

lemma foldByte_dot [simp]: "foldByte (CHR ''.'') = CHR ''.''"
  by (simp add: foldByte_def octet_def)

lemma SplitByte_cover: "b \<in> set s \<Longrightarrow> b = sep \<or> (\<exists>l \<in> set (SplitByte sep s). b \<in> set l)"
proof (induction s)
  case (Cons c s)
  obtain l ls where "SplitByte sep s = l # ls" by (cases "SplitByte sep s") auto
  with Cons show ?case by auto
qed simp

lemma ldh_name_bytes: "ldh_name d \<Longrightarrow> b \<in> set d \<Longrightarrow> b = CHR ''.'' \<or> ldhByte b"
  using SplitByte_cover [of b d "CHR ''.''"] by (auto simp: ldh_name_def list_all_iff)

lemma ldh_name_fold [simp]: "ldh_name d \<Longrightarrow> map foldByte d = d"
  using ldh_name_bytes [of d] by (intro map_idI) fastforce

lemma ldh_name_ascii [simp]: "ldh_name d \<Longrightarrow> IsASCII d"
  using ldh_name_bytes [of d] by (fastforce simp: IsASCII_def list_all_iff ldhByte_def octet_def)

lemma SplitByte_append: "SplitByte sep (s @ sep # r) = SplitByte sep s @ SplitByte sep r"
proof (induction s)
  case (Cons b s)
  obtain l ls where "SplitByte sep s = l # ls" by (cases "SplitByte sep s") auto
  with Cons show ?case by simp
qed simp

lemma ldh_name_edges: "ldh_name d \<Longrightarrow> d \<noteq> [] \<and> hd d \<noteq> CHR ''.'' \<and> last d \<noteq> CHR ''.''"
proof -
  assume d: "ldh_name d"
  have "[] \<notin> set (SplitByte (CHR ''.'') d)" using d by (auto simp: ldh_name_def)
  moreover have "[] \<in> set (SplitByte (CHR ''.'') ([CHR ''.''] @ s))" for s by simp
  moreover have "[] \<in> set (SplitByte (CHR ''.'') (s @ [CHR ''.'']))" for s
    using SplitByte_append [of "CHR ''.''" s "[]"] by simp
  ultimately show ?thesis
    by (metis SplitByte.simps(1) append_butlast_last_id append_Cons append_Nil list.collapse list.set_intros(1))
qed

lemma ToASCII_Some: "ToASCII registration d = Some a \<Longrightarrow> ldh_name a"
  by (auto simp: ToASCII_def Let_def validASCIIDomain_eq split: if_splits option.splits)

lemma ToASCII_plain:
  assumes "IsASCII d" "\<not> hasACEPrefix (map foldByte d)"
  shows "ToASCII registration d = (if ldh_name (map foldByte d) then Some (map foldByte d) else None)"
proof -
  have "octet (foldByte b) < 128" if "octet b < 128" for b
    using that by (auto simp: foldByte_def octet_char_of)
  then have ascii: "IsASCII (map foldByte d)" using assms(1) by (auto simp: IsASCII_def list_all_iff)
  have "d = [] \<or> hd d = CHR ''.'' \<or> last d = CHR ''.'' \<Longrightarrow> \<not> ldh_name (map foldByte d)"
    using ldh_name_edges [of "map foldByte d"] by (auto simp: hd_map last_map)
  then show ?thesis using assms ascii by (simp add: ToASCII_def Let_def validASCIIDomain_eq)
qed

end
