(* ===== verification/Mailbox_Parser.thy ===== *)
theory Mailbox_Parser
  imports Domainname Go_Utf8
begin

text \<open>
  Author address lists (\<open>internal/mailbox/mailbox.go\<close>): the tokenizer and the recursive-descent parser.
  A scan returns the number of octets it consumed from its start; the parser position is the list of
  tokens that are left, so that resetting the position is parsing the old list again.
\<close>

section \<open>Octet classes\<close>

definition MaxValueBytes :: nat where "MaxValueBytes = 16 * 1024"
definition maxMailboxes :: nat where "maxMailboxes = 128"
definition maxComments :: int where "maxComments = 32"

definition controlByte :: "byte \<Rightarrow> bool" where
  "controlByte b \<longleftrightarrow> octet b < 32 \<and> b \<noteq> TAB \<or> octet b = 127"

definition quotedPairByte :: "byte \<Rightarrow> bool" where
  "quotedPairByte b \<longleftrightarrow> b = SP \<or> b = TAB \<or> octet b \<ge> 33 \<and> octet b \<noteq> 127"

definition isSpecial :: "byte \<Rightarrow> bool" where
  "isSpecial b \<longleftrightarrow> b \<in> set ''<>:;@,.''"

definition isAtext :: "byte \<Rightarrow> bool" where
  "isAtext b =
     (if octet b \<ge> 128 then True
      else if 97 \<le> octet b \<and> octet b \<le> 122 \<or> 65 \<le> octet b \<and> octet b \<le> 90 \<or> 48 \<le> octet b \<and> octet b \<le> 57 then True
      else b \<in> set [CHR ''!'', CHR ''#'', CHR ''$'', CHR ''%'', CHR ''&'', CHR 0x27, CHR ''*'', CHR ''+'', CHR ''-'', CHR ''/'',
        CHR ''='', CHR ''?'', CHR ''^'', CHR ''_'', CHR 0x60, CHR ''{'', CHR ''|'', CHR ''}'', CHR ''~''])"

abbreviation BSL :: byte where "BSL \<equiv> CHR 0x5C"
abbreviation DQ :: byte where "DQ \<equiv> CHR 0x22"

section \<open>Scans\<close>

fun skipCommentLoop :: "bytes \<Rightarrow> int \<Rightarrow> nat \<Rightarrow> nat option" where
  "skipCommentLoop [] depth n = None"
| "skipCommentLoop (b # s) depth n =
     (if b = BSL
      then (case s of [] \<Rightarrow> None
            | c # s' \<Rightarrow> if \<not> quotedPairByte c then None else skipCommentLoop s' depth (n + 2))
      else if b = CHR ''('' then (if depth + 1 > maxComments then None else skipCommentLoop s (depth + 1) (n + 1))
      else if b = CHR '')'' then (if depth - 1 = 0 then Some (n + 1) else skipCommentLoop s (depth - 1) (n + 1))
      else if controlByte b then None
      else skipCommentLoop s depth (n + 1))"

definition skipComment :: "bytes \<Rightarrow> nat option" where
  "skipComment s = skipCommentLoop s 0 0"

fun scanQuotedLoop :: "bytes \<Rightarrow> nat \<Rightarrow> nat option" where
  "scanQuotedLoop [] n = None"
| "scanQuotedLoop (b # s) n =
     (if b = BSL
      then (case s of [] \<Rightarrow> None
            | c # s' \<Rightarrow> if \<not> quotedPairByte c then None else scanQuotedLoop s' (n + 2))
      else if b = DQ then Some (n + 1)
      else if controlByte b then None
      else scanQuotedLoop s (n + 1))"

definition scanQuoted :: "bytes \<Rightarrow> nat option" where
  "scanQuoted s = scanQuotedLoop (tl s) 1"

fun scanLiteralLoop :: "bytes \<Rightarrow> nat \<Rightarrow> nat option" where
  "scanLiteralLoop [] n = None"
| "scanLiteralLoop (b # s) n =
     (if b = CHR '']'' then Some (n + 1)
      else if b = CHR ''['' \<or> b = BSL \<or> controlByte b then None
      else scanLiteralLoop s (n + 1))"

definition scanLiteral :: "bytes \<Rightarrow> nat option" where
  "scanLiteral s = scanLiteralLoop (tl s) 1"

lemma scans_advance:
  "skipCommentLoop s d n = Some m \<Longrightarrow> n < m" "scanQuotedLoop s n = Some m \<Longrightarrow> n < m" "scanLiteralLoop s n = Some m \<Longrightarrow> n < m"
proof -
  show "skipCommentLoop s d n = Some m \<Longrightarrow> n < m"
    by (induction s d n rule: skipCommentLoop.induct) (auto split: if_splits list.splits)
  show "scanQuotedLoop s n = Some m \<Longrightarrow> n < m"
    by (induction s n rule: scanQuotedLoop.induct) (auto split: if_splits list.splits)
  show "scanLiteralLoop s n = Some m \<Longrightarrow> n < m"
    by (induction s n rule: scanLiteralLoop.induct) (auto split: if_splits list.splits)
qed

lemma scans_positive:
  "skipComment s = Some n \<Longrightarrow> 0 < n" "scanQuoted s = Some n \<Longrightarrow> 0 < n" "scanLiteral s = Some n \<Longrightarrow> 0 < n"
  unfolding skipComment_def scanQuoted_def scanLiteral_def by (auto dest: scans_advance)

section \<open>Tokens\<close>

datatype tokenKind = tokenAtom | tokenQuoted | tokenLiteral | tokenSpecial

record token =
  tk_kind :: tokenKind
  tk_text :: bytes

definition mk_token :: "tokenKind \<Rightarrow> bytes \<Rightarrow> token" where
  "mk_token k s = \<lparr>tk_kind = k, tk_text = s\<rparr>"

function tokenizeLoop :: "bytes \<Rightarrow> int \<Rightarrow> token list \<Rightarrow> token list option" where
  "tokenizeLoop [] comments tokens = Some tokens"
| "tokenizeLoop (b # s) comments tokens =
     (if b = SP \<or> b = TAB then tokenizeLoop s comments tokens
      else if b = CHR ''(''
      then (case skipComment (b # s) of None \<Rightarrow> None
            | Some n \<Rightarrow> if comments + 1 > maxComments then None else tokenizeLoop (drop n (b # s)) (comments + 1) tokens)
      else if b = DQ
      then (case scanQuoted (b # s) of None \<Rightarrow> None
            | Some n \<Rightarrow> tokenizeLoop (drop n (b # s)) comments (tokens @ [mk_token tokenQuoted (take n (b # s))]))
      else if b = CHR ''[''
      then (case scanLiteral (b # s) of None \<Rightarrow> None
            | Some n \<Rightarrow> tokenizeLoop (drop n (b # s)) comments (tokens @ [mk_token tokenLiteral (take n (b # s))]))
      else if isSpecial b then tokenizeLoop s comments (tokens @ [mk_token tokenSpecial [b]])
      else if isAtext b
      then tokenizeLoop (dropWhile isAtext s) comments (tokens @ [mk_token tokenAtom (b # takeWhile isAtext s)])
      else None)"
  by pat_completeness auto
termination
  by (relation "measure (\<lambda>(s, _). length s)")
     (auto dest!: scans_positive intro: le_imp_less_Suc length_dropWhile_le)

declare tokenizeLoop.simps [simp del]

definition tokenize :: "bytes \<Rightarrow> token list option" where
  "tokenize s = tokenizeLoop s 0 []"

section \<open>The parser\<close>

record parsedMailbox =
  pm_local :: bytes
  pm_domain :: bytes
  pm_literal :: bool
  pm_inGroup :: bool

definition peekSpecial :: "byte \<Rightarrow> token list \<Rightarrow> bool" where
  "peekSpecial special ts = (case ts of [] \<Rightarrow> False | t # _ \<Rightarrow> tk_kind t = tokenSpecial \<and> hd (tk_text t) = special)"

definition peekKind :: "tokenKind \<Rightarrow> token list \<Rightarrow> bool" where
  "peekKind k ts = (case ts of [] \<Rightarrow> False | t # _ \<Rightarrow> tk_kind t = k)"

definition consumeSpecial :: "byte \<Rightarrow> token list \<Rightarrow> token list option" where
  "consumeSpecial special ts = (if peekSpecial special ts then Some (tl ts) else None)"

definition listParser_word :: "token list \<Rightarrow> token list option" where
  "listParser_word ts = (if peekKind tokenAtom ts \<or> peekKind tokenQuoted ts then Some (tl ts) else None)"

fun phraseLoop :: "token list \<Rightarrow> token list" where
  "phraseLoop [] = []"
| "phraseLoop (t # ts) =
     (if listParser_word (t # ts) \<noteq> None \<or> consumeSpecial (CHR ''.'') (t # ts) \<noteq> None then phraseLoop ts else t # ts)"

definition listParser_phrase :: "token list \<Rightarrow> token list option" where
  "listParser_phrase ts = map_option phraseLoop (listParser_word ts)"

fun localPartLoop :: "bytes \<Rightarrow> token list \<Rightarrow> (bytes \<times> token list) option" where
  "localPartLoop local (d # t # ts) =
     (if peekSpecial (CHR ''.'') (d # t # ts)
      then (if \<not> peekKind tokenAtom (t # ts) \<and> \<not> peekKind tokenQuoted (t # ts) then None
            else localPartLoop (local @ CHR ''.'' # tk_text t) ts)
      else Some (local, d # t # ts))"
| "localPartLoop local ts = (if peekSpecial (CHR ''.'') ts then None else Some (local, ts))"

definition localPart :: "token list \<Rightarrow> (bytes \<times> token list) option" where
  "localPart ts =
     (if \<not> peekKind tokenAtom ts \<and> \<not> peekKind tokenQuoted ts then None
      else localPartLoop (tk_text (hd ts)) (tl ts))"

fun dotAtomsLoop :: "bytes \<Rightarrow> token list \<Rightarrow> (bytes \<times> token list) option" where
  "dotAtomsLoop domain (d # t # ts) =
     (if peekSpecial (CHR ''.'') (d # t # ts)
      then (if \<not> peekKind tokenAtom (t # ts) then None
            else dotAtomsLoop (domain @ CHR ''.'' # tk_text t) ts)
      else Some (domain, d # t # ts))"
| "dotAtomsLoop domain ts = (if peekSpecial (CHR ''.'') ts then None else Some (domain, ts))"

definition dotAtoms :: "token list \<Rightarrow> (bytes \<times> token list) option" where
  "dotAtoms ts = (if \<not> peekKind tokenAtom ts then None else dotAtomsLoop (tk_text (hd ts)) (tl ts))"

definition addrSpec :: "token list \<Rightarrow> (parsedMailbox \<times> token list) option" where
  "addrSpec ts =
     (case localPart ts of
        None \<Rightarrow> None
      | Some (local, ts1) \<Rightarrow>
          case consumeSpecial (CHR ''@'') ts1 of
            None \<Rightarrow> None
          | Some ts2 \<Rightarrow>
              if peekKind tokenLiteral ts2
              then Some (\<lparr>pm_local = local, pm_domain = tk_text (hd ts2), pm_literal = True, pm_inGroup = False\<rparr>, tl ts2)
              else case dotAtoms ts2 of
                None \<Rightarrow> None
              | Some (domain, ts3) \<Rightarrow>
                  Some (\<lparr>pm_local = local, pm_domain = domain, pm_literal = False, pm_inGroup = False\<rparr>, ts3))"

definition listParser_mailbox :: "bool \<Rightarrow> token list \<Rightarrow> (parsedMailbox \<times> token list) option" where
  "listParser_mailbox inGroup ts =
     (let ts1 = (case listParser_phrase ts of None \<Rightarrow> ts | Some r \<Rightarrow> r) in
      case consumeSpecial (CHR ''<'') ts1 of
        Some ts2 \<Rightarrow>
          (case addrSpec ts2 of
             None \<Rightarrow> None
           | Some (m, ts3) \<Rightarrow>
               (case consumeSpecial (CHR ''>'') ts3 of None \<Rightarrow> None | Some ts4 \<Rightarrow> Some (m\<lparr>pm_inGroup := inGroup\<rparr>, ts4)))
      | None \<Rightarrow>
          (case addrSpec ts of None \<Rightarrow> None | Some (m, ts3) \<Rightarrow> Some (m\<lparr>pm_inGroup := inGroup\<rparr>, ts3)))"

text \<open>Every mailbox takes at least one token, so the two list loops shorten the list.\<close>

lemma consumeSpecial_less: "consumeSpecial c ts = Some r \<Longrightarrow> length r < length ts"
  by (cases ts) (auto simp: consumeSpecial_def peekSpecial_def split: if_splits)

lemma localPartLoop_le: "localPartLoop l ts = Some (v, r) \<Longrightarrow> length r \<le> length ts"
  by (induction l ts rule: localPartLoop.induct) (auto split: if_splits)

lemma dotAtomsLoop_le: "dotAtomsLoop l ts = Some (v, r) \<Longrightarrow> length r \<le> length ts"
  by (induction l ts rule: dotAtomsLoop.induct) (auto split: if_splits)

lemma phraseLoop_le: "length (phraseLoop ts) \<le> length ts"
  by (induction ts) auto

lemma listParser_phrase_less: "listParser_phrase ts = Some r \<Longrightarrow> length r < length ts"
  using phraseLoop_le [of "tl ts"]
  by (cases ts) (auto simp: listParser_phrase_def listParser_word_def peekKind_def split: if_splits)

lemma addrSpec_less: "addrSpec ts = Some (m, r) \<Longrightarrow> length r < length ts"
proof -
  assume "addrSpec ts = Some (m, r)"
  then obtain l ts1 ts2 where "localPart ts = Some (l, ts1)" "consumeSpecial (CHR ''@'') ts1 = Some ts2" "length r \<le> length ts2"
    by (auto simp: addrSpec_def dotAtoms_def split: option.splits if_splits dest!: dotAtomsLoop_le)
  then show ?thesis
    using localPartLoop_le [of "tk_text (hd ts)" "tl ts" l ts1] consumeSpecial_less [of "CHR ''@''" ts1 ts2]
    by (auto simp: localPart_def split: if_splits)
qed

lemma listParser_mailbox_less: "listParser_mailbox g ts = Some (m, r) \<Longrightarrow> length r < length ts"
  by (auto simp: listParser_mailbox_def Let_def split: option.splits
      dest!: consumeSpecial_less addrSpec_less listParser_phrase_less)

function groupListLoop :: "parsedMailbox list \<Rightarrow> token list \<Rightarrow> (parsedMailbox list \<times> token list) option" where
  "groupListLoop ms ts =
     (case listParser_mailbox True ts of
        None \<Rightarrow> None
      | Some (m, ts1) \<Rightarrow>
          if length (ms @ [m]) > maxMailboxes then None
          else case consumeSpecial (CHR '';'') ts1 of
            Some ts2 \<Rightarrow> Some (ms @ [m], ts2)
          | None \<Rightarrow> (case consumeSpecial (CHR '','') ts1 of None \<Rightarrow> None | Some ts2 \<Rightarrow> groupListLoop (ms @ [m]) ts2))"
  by pat_completeness auto
termination
  by (relation "measure (\<lambda>(_, ts). length ts)") (auto dest!: listParser_mailbox_less consumeSpecial_less)

declare groupListLoop.simps [simp del]

definition groupList :: "token list \<Rightarrow> (parsedMailbox list \<times> token list) option" where
  "groupList ts = (case consumeSpecial (CHR '';'') ts of Some ts1 \<Rightarrow> Some ([], ts1) | None \<Rightarrow> groupListLoop [] ts)"

definition listParser_address :: "token list \<Rightarrow> (parsedMailbox list \<times> token list) option" where
  "listParser_address ts =
     (case Option.bind (listParser_phrase ts) (consumeSpecial (CHR '':'')) of
        Some ts1 \<Rightarrow> groupList ts1
      | None \<Rightarrow> (case listParser_mailbox False ts of None \<Rightarrow> None | Some (m, ts1) \<Rightarrow> Some ([m], ts1)))"

lemma groupListLoop_less: "groupListLoop ms ts = Some (r, ts') \<Longrightarrow> length ts' < length ts"
proof (induction ms ts rule: groupListLoop.induct)
  case (1 ms ts)
  obtain m ts1 where m: "listParser_mailbox True ts = Some (m, ts1)" "\<not> maxMailboxes < length (ms @ [m])"
    using 1(2) by (subst (asm) groupListLoop.simps) (auto split: option.splits if_splits)
  show ?case
  proof (cases "consumeSpecial (CHR '';'') ts1")
    case (Some ts2)
    then show ?thesis using 1(2) m by (subst (asm) groupListLoop.simps) (auto dest!: listParser_mailbox_less consumeSpecial_less)
  next
    case None
    then obtain ts2 where ts2: "consumeSpecial (CHR '','') ts1 = Some ts2" "groupListLoop (ms @ [m]) ts2 = Some (r, ts')"
      using 1(2) m by (subst (asm) groupListLoop.simps) (auto split: option.splits)
    have "length ts' < length ts2" using "1.IH" [OF m(1) refl m(2) None ts2(1) ts2(2)] .
    then show ?thesis using listParser_mailbox_less [OF m(1)] consumeSpecial_less [OF ts2(1)] by simp
  qed
qed

lemma listParser_address_less: "listParser_address ts = Some (ms, r) \<Longrightarrow> length r < length ts"
  by (auto simp: listParser_address_def groupList_def bind_eq_Some_conv split: option.splits
      dest!: listParser_mailbox_less consumeSpecial_less groupListLoop_less listParser_phrase_less)

function addressListLoop :: "parsedMailbox list \<Rightarrow> token list \<Rightarrow> parsedMailbox list option" where
  "addressListLoop ms ts =
     (case listParser_address ts of
        None \<Rightarrow> None
      | Some (found, ts1) \<Rightarrow>
          if length (ms @ found) > maxMailboxes then None
          else if ts1 = [] then Some (ms @ found)
          else case consumeSpecial (CHR '','') ts1 of None \<Rightarrow> None | Some ts2 \<Rightarrow> addressListLoop (ms @ found) ts2)"
  by pat_completeness auto
termination
  by (relation "measure (\<lambda>(_, ts). length ts)") (auto dest!: listParser_address_less consumeSpecial_less)

declare addressListLoop.simps [simp del]

definition addressList :: "token list \<Rightarrow> parsedMailbox list option" where
  "addressList ts = addressListLoop [] ts"

section \<open>Authors\<close>

datatype MailboxStatus =
    StatusSingle | StatusMalformed | StatusNoMailbox | StatusMultiple | StatusDomainLiteral | StatusInvalidDomain

record Author =
  au_localPart :: bytes
  au_domain :: bytes
  au_inGroup :: bool
  au_ascii :: bool

definition zeroAuthor :: Author where
  "zeroAuthor = \<lparr>au_localPart = [], au_domain = [], au_inGroup = False, au_ascii = False\<rparr>"

definition asciiString :: "bytes \<Rightarrow> bool" where
  "asciiString s \<longleftrightarrow> list_all (\<lambda>b. octet b < 128) s"

definition ParseAuthor :: "(bytes \<Rightarrow> bytes option) \<Rightarrow> bytes \<Rightarrow> Author \<times> MailboxStatus" where
  "ParseAuthor registration v =
     (if v = [] \<or> length v > MaxValueBytes \<or> \<not> utf8Valid v then (zeroAuthor, StatusMalformed)
      else case tokenize v of
        None \<Rightarrow> (zeroAuthor, StatusMalformed)
      | Some tokens \<Rightarrow>
          if tokens = [] then (zeroAuthor, StatusMalformed)
          else case addressList tokens of
            None \<Rightarrow> (zeroAuthor, StatusMalformed)
          | Some mailboxes \<Rightarrow>
              if mailboxes = [] then (zeroAuthor, StatusNoMailbox)
              else if length mailboxes > 1 then (zeroAuthor, StatusMultiple)
              else let parsed = hd mailboxes in
                if pm_literal parsed then (zeroAuthor, StatusDomainLiteral)
                else case ToASCII registration (pm_domain parsed) of
                  None \<Rightarrow> (zeroAuthor, StatusInvalidDomain)
                | Some domain \<Rightarrow>
                    (\<lparr>au_localPart = pm_local parsed, au_domain = domain, au_inGroup = pm_inGroup parsed,
                      au_ascii = asciiString (pm_local parsed) \<and> asciiString (pm_domain parsed)\<rparr>, StatusSingle))"

end
