(* ===== verification/Mailbox_Grammar.thy ===== *)
theory Mailbox_Grammar
  imports Mailbox_Parser
begin

text \<open>
  The grammar of author fields, in two levels as in RFC 5322: octets into tokens with comments and
  white space between them, tokens into mailboxes and groups. The tokenizer and the parser accept
  exactly these grammars, within the limits, and read off the values the grammar assigns.
\<close>

section \<open>Token grammar\<close>

definition word_token :: "token \<Rightarrow> bool" where
  "word_token t \<longleftrightarrow> tk_kind t = tokenAtom \<or> tk_kind t = tokenQuoted"

definition atom_token :: "token \<Rightarrow> bool" where
  "atom_token t \<longleftrightarrow> tk_kind t = tokenAtom"

definition special_token :: "byte \<Rightarrow> token \<Rightarrow> bool" where
  "special_token c t \<longleftrightarrow> tk_kind t = tokenSpecial \<and> hd (tk_text t) = c"

inductive dots :: "(token \<Rightarrow> bool) \<Rightarrow> token list \<Rightarrow> bytes \<Rightarrow> bool" for P where
  dots_Nil: "dots P [] []"
| dots_Cons: "special_token (CHR ''.'') d \<Longrightarrow> P t \<Longrightarrow> dots P ts v \<Longrightarrow> dots P (d # t # ts) (CHR ''.'' # tk_text t @ v)"

definition dotted :: "(token \<Rightarrow> bool) \<Rightarrow> token list \<Rightarrow> bytes \<Rightarrow> bool" where
  "dotted P ts v \<longleftrightarrow> (\<exists>t us w. ts = t # us \<and> P t \<and> dots P us w \<and> v = tk_text t @ w)"

definition addr_spec :: "token list \<Rightarrow> parsedMailbox \<Rightarrow> bool" where
  "addr_spec ts m \<longleftrightarrow> (\<exists>ls a ds l. ts = ls @ a # ds \<and> dotted word_token ls l \<and> special_token (CHR ''@'') a
     \<and> ((\<exists>t. ds = [t] \<and> tk_kind t = tokenLiteral
           \<and> m = \<lparr>pm_local = l, pm_domain = tk_text t, pm_literal = True, pm_inGroup = False\<rparr>)
       \<or> (\<exists>d. dotted atom_token ds d \<and> m = \<lparr>pm_local = l, pm_domain = d, pm_literal = False, pm_inGroup = False\<rparr>)))"

definition phrase :: "token list \<Rightarrow> bool" where
  "phrase ts \<longleftrightarrow> (\<exists>t us. ts = t # us \<and> word_token t \<and> (\<forall>u \<in> set us. word_token u \<or> special_token (CHR ''.'') u))"

definition mailbox :: "bool \<Rightarrow> token list \<Rightarrow> parsedMailbox \<Rightarrow> bool" where
  "mailbox g ts m \<longleftrightarrow> (\<exists>m0. m = m0\<lparr>pm_inGroup := g\<rparr> \<and> (addr_spec ts m0
     \<or> (\<exists>ps a us b. ts = ps @ a # us @ [b] \<and> (ps = [] \<or> phrase ps) \<and> special_token (CHR ''<'') a \<and> addr_spec us m0
          \<and> special_token (CHR ''>'') b)))"

inductive mailboxes :: "token list \<Rightarrow> parsedMailbox list \<Rightarrow> bool" where
  mailboxes_one: "mailbox True ts m \<Longrightarrow> mailboxes ts [m]"
| mailboxes_more: "mailbox True ts m \<Longrightarrow> special_token (CHR '','') c \<Longrightarrow> mailboxes us ms \<Longrightarrow> mailboxes (ts @ c # us) (m # ms)"

definition group_syntax :: "token list \<Rightarrow> parsedMailbox list \<Rightarrow> bool" where
  "group_syntax ts ms \<longleftrightarrow> (\<exists>ps c us e. ts = ps @ c # us @ [e] \<and> phrase ps \<and> special_token (CHR '':'') c
     \<and> special_token (CHR '';'') e \<and> (us = [] \<and> ms = [] \<or> mailboxes us ms))"

definition address :: "token list \<Rightarrow> parsedMailbox list \<Rightarrow> bool" where
  "address ts ms \<longleftrightarrow> group_syntax ts ms \<or> (\<exists>m. mailbox False ts m \<and> ms = [m])"

inductive address_list :: "token list \<Rightarrow> parsedMailbox list \<Rightarrow> bool" where
  address_one: "address ts ms \<Longrightarrow> address_list ts ms"
| address_more: "address ts ms \<Longrightarrow> special_token (CHR '','') c \<Longrightarrow> address_list us ns \<Longrightarrow> address_list (ts @ c # us) (ms @ ns)"

section \<open>The parser accepts the grammar\<close>

lemma peek_simps [simp]:
  "peekSpecial c (t # ts) = special_token c t" "\<not> peekSpecial c []"
  "peekKind k (t # ts) \<longleftrightarrow> tk_kind t = k" "\<not> peekKind k []"
  by (simp_all add: peekSpecial_def special_token_def peekKind_def)

lemma consume_simps [simp]:
  "consumeSpecial c [] = None" "consumeSpecial c (t # ts) = (if special_token c t then Some ts else None)"
  by (simp_all add: consumeSpecial_def)

lemma word_simps [simp]:
  "listParser_word [] = None" "listParser_word (t # ts) = (if word_token t then Some ts else None)"
  by (simp_all add: listParser_word_def word_token_def)

lemma special_not_word: "special_token c t \<Longrightarrow> \<not> word_token t \<and> \<not> atom_token t \<and> tk_kind t \<noteq> tokenLiteral"
  by (auto simp: special_token_def word_token_def atom_token_def)

lemma special_unique: "special_token c t \<Longrightarrow> special_token d t \<longleftrightarrow> c = d"
  by (auto simp: special_token_def)

lemma localPartLoop_complete:
  "dots word_token us w \<Longrightarrow> \<not> peekSpecial (CHR ''.'') r \<Longrightarrow> localPartLoop l (us @ r) = Some (l @ w, r)"
proof (induction us w arbitrary: l rule: dots.induct)
  case dots_Nil
  then show ?case by (cases "(l, r)" rule: localPartLoop.cases) auto
next
  case (dots_Cons d t ts v)
  then show ?case by (auto simp: word_token_def)
qed

lemma dotAtomsLoop_complete:
  "dots atom_token us w \<Longrightarrow> \<not> peekSpecial (CHR ''.'') r \<Longrightarrow> dotAtomsLoop l (us @ r) = Some (l @ w, r)"
proof (induction us w arbitrary: l rule: dots.induct)
  case dots_Nil
  then show ?case by (cases "(l, r)" rule: dotAtomsLoop.cases) auto
next
  case (dots_Cons d t ts v)
  then show ?case by (auto simp: atom_token_def)
qed

lemma localPartLoop_sound:
  "localPartLoop l ts = Some (v, r) \<Longrightarrow> \<exists>us w. ts = us @ r \<and> dots word_token us w \<and> v = l @ w"
proof (induction l ts rule: localPartLoop.induct)
  case (1 l d t ts)
  show ?case
  proof (cases "special_token (CHR ''.'') d")
    case True
    with 1 obtain us w where "ts = us @ r" "dots word_token us w" "v = (l @ CHR ''.'' # tk_text t) @ w" "word_token t"
      by (auto simp: word_token_def [of t] split: if_splits)
    with True show ?thesis by (intro exI [of _ "d # t # us"]) (auto intro: dots.intros)
  next
    case False
    with 1 show ?thesis by (auto intro: dots.intros)
  qed
qed (auto intro: dots.intros split: if_splits)

lemma dotAtomsLoop_sound:
  "dotAtomsLoop l ts = Some (v, r) \<Longrightarrow> \<exists>us w. ts = us @ r \<and> dots atom_token us w \<and> v = l @ w"
proof (induction l ts rule: dotAtomsLoop.induct)
  case (1 l d t ts)
  show ?case
  proof (cases "special_token (CHR ''.'') d")
    case True
    with 1 obtain us w where "ts = us @ r" "dots atom_token us w" "v = (l @ CHR ''.'' # tk_text t) @ w" "atom_token t"
      by (auto simp: atom_token_def [of t] split: if_splits)
    with True show ?thesis by (intro exI [of _ "d # t # us"]) (auto intro: dots.intros)
  next
    case False
    with 1 show ?thesis by (auto intro: dots.intros)
  qed
qed (auto intro: dots.intros split: if_splits)

lemma localPart_complete: "dotted word_token us v \<Longrightarrow> \<not> peekSpecial (CHR ''.'') r \<Longrightarrow> localPart (us @ r) = Some (v, r)"
  by (auto simp: dotted_def localPart_def localPartLoop_complete word_token_def)

lemma localPart_sound: "localPart ts = Some (v, r) \<Longrightarrow> \<exists>us. ts = us @ r \<and> dotted word_token us v"
  by (cases ts) (auto simp: localPart_def dotted_def word_token_def split: if_splits dest!: localPartLoop_sound)

lemma dotAtoms_complete: "dotted atom_token us v \<Longrightarrow> \<not> peekSpecial (CHR ''.'') r \<Longrightarrow> dotAtoms (us @ r) = Some (v, r)"
  by (auto simp: dotted_def dotAtoms_def dotAtomsLoop_complete atom_token_def)

lemma dotAtoms_sound: "dotAtoms ts = Some (v, r) \<Longrightarrow> \<exists>us. ts = us @ r \<and> dotted atom_token us v"
  by (cases ts) (auto simp: dotAtoms_def dotted_def atom_token_def split: if_splits dest!: dotAtomsLoop_sound)

lemma addrSpec_complete:
  assumes "addr_spec us m" "\<not> peekSpecial (CHR ''.'') r"
  shows "addrSpec (us @ r) = Some (m, r)"
proof -
  from assms(1) obtain ls a ds l where us: "us = ls @ a # ds" "dotted word_token ls l" "special_token (CHR ''@'') a"
    and m: "(\<exists>t. ds = [t] \<and> tk_kind t = tokenLiteral
           \<and> m = \<lparr>pm_local = l, pm_domain = tk_text t, pm_literal = True, pm_inGroup = False\<rparr>)
       \<or> (\<exists>d. dotted atom_token ds d \<and> m = \<lparr>pm_local = l, pm_domain = d, pm_literal = False, pm_inGroup = False\<rparr>)"
    unfolding addr_spec_def by blast
  have "localPart (us @ r) = Some (l, a # ds @ r)"
    using localPart_complete [OF us(2), of "a # ds @ r"] us(1,3) by (simp add: special_unique)
  moreover have "dotted atom_token ds d \<Longrightarrow> \<not> peekKind tokenLiteral (ds @ r) \<and> dotAtoms (ds @ r) = Some (d, r)" for d
    using dotAtoms_complete [OF _ assms(2)] by (auto simp: dotted_def atom_token_def)
  ultimately show ?thesis using us(3) m by (auto simp: addrSpec_def)
qed

lemma addrSpec_sound:
  assumes "addrSpec ts = Some (m, r)"
  shows "\<exists>us. ts = us @ r \<and> addr_spec us m"
proof -
  from assms obtain l a ts2 where l: "localPart ts = Some (l, a # ts2)" "special_token (CHR ''@'') a"
    and m: "if peekKind tokenLiteral ts2
      then m = \<lparr>pm_local = l, pm_domain = tk_text (hd ts2), pm_literal = True, pm_inGroup = False\<rparr> \<and> r = tl ts2
      else \<exists>d. dotAtoms ts2 = Some (d, r) \<and> m = \<lparr>pm_local = l, pm_domain = d, pm_literal = False, pm_inGroup = False\<rparr>"
    by (auto simp: addrSpec_def consumeSpecial_def peekSpecial_def special_token_def split: option.splits if_splits list.splits)
  from localPart_sound [OF l(1)] obtain ls where ls: "ts = ls @ a # ts2" "dotted word_token ls l" by blast
  show ?thesis
  proof (cases "peekKind tokenLiteral ts2")
    case True
    then obtain t where "ts2 = t # r" "tk_kind t = tokenLiteral" using m by (cases ts2) auto
    then have "addr_spec (ls @ a # [t]) m" unfolding addr_spec_def using True ls(2) l(2) m by fastforce
    then show ?thesis using \<open>ts2 = t # r\<close> ls(1) by (intro exI [of _ "ls @ [a, t]"]) simp
  next
    case False
    then obtain d ds where "ts2 = ds @ r" "dotted atom_token ds d"
        "m = \<lparr>pm_local = l, pm_domain = d, pm_literal = False, pm_inGroup = False\<rparr>"
      using m dotAtoms_sound by fastforce
    moreover from this have "addr_spec (ls @ a # ds) m" unfolding addr_spec_def using ls(2) l(2) by blast
    ultimately show ?thesis using ls(1) by (intro exI [of _ "ls @ a # ds"]) simp
  qed
qed

definition phrase_stop :: "token list \<Rightarrow> bool" where
  "phrase_stop r \<longleftrightarrow> r = [] \<or> \<not> word_token (hd r) \<and> \<not> special_token (CHR ''.'') (hd r)"

lemma phraseLoop_complete:
  "\<forall>u \<in> set us. word_token u \<or> special_token (CHR ''.'') u \<Longrightarrow> phrase_stop r \<Longrightarrow> phraseLoop (us @ r) = r"
proof (induction us)
  case Nil
  then show ?case by (cases r) (auto simp: phrase_stop_def)
qed auto

lemma phraseLoop_sound: "\<exists>us. ts = us @ phraseLoop ts \<and> (\<forall>u \<in> set us. word_token u \<or> special_token (CHR ''.'') u)"
proof (induction ts)
  case (Cons t ts)
  then obtain us where us: "ts = us @ phraseLoop ts" "\<forall>u \<in> set us. word_token u \<or> special_token (CHR ''.'') u" by blast
  show ?case
  proof (cases "word_token t \<or> special_token (CHR ''.'') t")
    case True
    with us have "t # ts = (t # us) @ phraseLoop (t # ts)" by auto
    with True us(2) show ?thesis by (metis set_ConsD)
  qed auto
qed simp

lemma phrase_complete: "phrase ps \<Longrightarrow> phrase_stop r \<Longrightarrow> listParser_phrase (ps @ r) = Some r"
  by (auto simp: phrase_def listParser_phrase_def phraseLoop_complete)

lemma phrase_none: "ts = [] \<or> \<not> word_token (hd ts) \<Longrightarrow> listParser_phrase ts = None"
  by (cases ts) (auto simp: listParser_phrase_def)

lemma phrase_sound: "listParser_phrase ts = Some r \<Longrightarrow> \<exists>ps. ts = ps @ r \<and> phrase ps"
proof (cases ts)
  case (Cons t us)
  assume "listParser_phrase ts = Some r"
  then have "word_token t" "r = phraseLoop us" using Cons by (auto simp: listParser_phrase_def split: if_splits)
  moreover obtain vs where "us = vs @ phraseLoop us" "\<forall>u \<in> set vs. word_token u \<or> special_token (CHR ''.'') u"
    using phraseLoop_sound by blast
  ultimately show ?thesis using Cons by (intro exI [of _ "t # vs"]) (auto simp: phrase_def)
qed (simp add: listParser_phrase_def)

lemma special_stop: "special_token c a \<Longrightarrow> c \<noteq> CHR ''.'' \<Longrightarrow> phrase_stop (a # r)"
  using special_not_word special_unique by (auto simp: phrase_stop_def)

lemma dots_phrase: "dots word_token us w \<Longrightarrow> u \<in> set us \<Longrightarrow> word_token u \<or> special_token (CHR ''.'') u"
  by (induction rule: dots.induct) auto

lemma addr_spec_phrase:
  assumes "addr_spec us m"
  shows "\<exists>a r'. special_token (CHR ''@'') a \<and> listParser_phrase (us @ r) = Some (a # r')"
proof -
  obtain ls a ds l where us: "us = ls @ a # ds" "dotted word_token ls l" "special_token (CHR ''@'') a"
    using assms unfolding addr_spec_def by blast
  have "phrase ls" using us(2) dots_phrase by (auto simp: dotted_def phrase_def)
  with us show ?thesis using phrase_complete [of ls "a # ds @ r"] special_stop [OF us(3)] by auto
qed

lemma mailbox_phrase:
  assumes "mailbox g us m"
  shows "Option.bind (listParser_phrase (us @ r)) (consumeSpecial (CHR '':'')) = None"
proof -
  from assms obtain m0 where "addr_spec us m0
     \<or> (\<exists>ps a vs b. us = ps @ a # vs @ [b] \<and> (ps = [] \<or> phrase ps) \<and> special_token (CHR ''<'') a)"
    unfolding mailbox_def by blast
  then show ?thesis
  proof
    assume "addr_spec us m0"
    from addr_spec_phrase [OF this, of r] show ?thesis by (auto simp: special_unique)
  next
    assume "\<exists>ps a vs b. us = ps @ a # vs @ [b] \<and> (ps = [] \<or> phrase ps) \<and> special_token (CHR ''<'') a"
    then obtain ps a vs b where "us = ps @ a # vs @ [b]" "ps = [] \<or> phrase ps" "special_token (CHR ''<'') a" by blast
    then obtain vs where us: "us @ r = ps @ a # vs" "ps = [] \<or> phrase ps" "special_token (CHR ''<'') a" by simp
    then show ?thesis
      using phrase_complete [of ps "a # vs"] special_stop [OF us(3)] phrase_none [of "a # vs"] special_not_word [OF us(3)]
      by (auto simp: special_unique)
  qed
qed

lemma mailbox_complete:
  assumes "mailbox g us m" "\<not> peekSpecial (CHR ''.'') r"
  shows "listParser_mailbox g (us @ r) = Some (m, r)"
proof -
  from assms(1) obtain m0 where m: "m = m0\<lparr>pm_inGroup := g\<rparr>" and us: "addr_spec us m0
     \<or> (\<exists>ps a vs b. us = ps @ a # vs @ [b] \<and> (ps = [] \<or> phrase ps) \<and> special_token (CHR ''<'') a \<and> addr_spec vs m0
          \<and> special_token (CHR ''>'') b)"
    unfolding mailbox_def by blast
  from us show ?thesis
  proof
    assume a: "addr_spec us m0"
    from addr_spec_phrase [OF a, of r] addrSpec_complete [OF a assms(2)] show ?thesis
      by (auto simp: listParser_mailbox_def m special_unique)
  next
    assume "\<exists>ps a vs b. us = ps @ a # vs @ [b] \<and> (ps = [] \<or> phrase ps) \<and> special_token (CHR ''<'') a \<and> addr_spec vs m0
          \<and> special_token (CHR ''>'') b"
    then obtain ps a vs b where v: "us = ps @ a # vs @ [b]" "ps = [] \<or> phrase ps" "special_token (CHR ''<'') a"
        "addr_spec vs m0" "special_token (CHR ''>'') b" by blast
    have "addrSpec (vs @ b # r) = Some (m0, b # r)"
      using addrSpec_complete [OF v(4), of "b # r"] v(5) by (simp add: special_unique)
    moreover have "(case listParser_phrase (us @ r) of None \<Rightarrow> us @ r | Some x \<Rightarrow> x) = a # vs @ b # r"
      using v(1,2) phrase_complete [of ps "a # vs @ b # r"] special_stop [OF v(3)] phrase_none [of "a # vs @ b # r"]
        special_not_word [OF v(3)] by auto
    ultimately show ?thesis using v(3,5) by (simp add: listParser_mailbox_def m Let_def)
  qed
qed

lemma mailbox_sound:
  assumes "listParser_mailbox g ts = Some (m, r)"
  shows "\<exists>us. ts = us @ r \<and> mailbox g us m"
proof -
  define ts1 where "ts1 = (case listParser_phrase ts of None \<Rightarrow> ts | Some r \<Rightarrow> r)"
  have "\<exists>ps. ts = ps @ ts1 \<and> (ps = [] \<or> phrase ps)"
    using phrase_sound [of ts] by (cases "listParser_phrase ts") (auto simp: ts1_def)
  then obtain ps where ps: "ts = ps @ ts1" "ps = [] \<or> phrase ps" by blast
  show ?thesis
  proof (cases "consumeSpecial (CHR ''<'') ts1")
    case (Some ts2)
    then obtain a where a: "ts1 = a # ts2" "special_token (CHR ''<'') a"
      by (cases ts1) (auto split: if_splits)
    from assms Some obtain m0 ts3 where "addrSpec ts2 = Some (m0, ts3)" "consumeSpecial (CHR ''>'') ts3 = Some r"
        and m: "m = m0\<lparr>pm_inGroup := g\<rparr>"
      by (auto simp: listParser_mailbox_def Let_def ts1_def [symmetric] split: option.splits)
    then obtain vs b where "ts2 = vs @ b # r" "addr_spec vs m0" "special_token (CHR ''>'') b"
      using addrSpec_sound [of ts2 m0 ts3] by (cases ts3) (auto split: if_splits)
    with a ps m show ?thesis by (intro exI [of _ "ps @ a # vs @ [b]"]) (auto simp: mailbox_def)
  next
    case None
    then obtain m0 where "addrSpec ts = Some (m0, r)" "m = m0\<lparr>pm_inGroup := g\<rparr>"
      using assms by (auto simp: listParser_mailbox_def Let_def ts1_def [symmetric] split: option.splits)
    then show ?thesis using addrSpec_sound [of ts m0 r] by (auto simp: mailbox_def)
  qed
qed

lemma groupListLoop_complete:
  "mailboxes us ns \<Longrightarrow> length (ms @ ns) \<le> 128 \<Longrightarrow> special_token (CHR '';'') e \<Longrightarrow>
     groupListLoop ms (us @ e # r) = Some (ms @ ns, r)"
proof (induction us ns arbitrary: ms rule: mailboxes.induct)
  case (mailboxes_one ts m)
  then show ?case
    using mailbox_complete [OF mailboxes_one(1), of "e # r"]
    by (subst groupListLoop.simps) (simp add: special_unique maxMailboxes_def)
next
  case (mailboxes_more ts m c us ns)
  then show ?case
    using mailbox_complete [OF mailboxes_more(1), of "c # us @ e # r"]
    by (subst groupListLoop.simps) (simp add: special_unique maxMailboxes_def)
qed

lemma groupListLoop_sound:
  "groupListLoop ms ts = Some (ns, r) \<Longrightarrow>
     \<exists>us e ns'. ts = us @ e # r \<and> special_token (CHR '';'') e \<and> mailboxes us ns' \<and> ns = ms @ ns' \<and> length ns \<le> 128"
proof (induction ms ts rule: groupListLoop.induct)
  case (1 ms ts)
  obtain m ts1 where m: "listParser_mailbox True ts = Some (m, ts1)" "\<not> maxMailboxes < length (ms @ [m])"
    using 1(2) by (subst (asm) groupListLoop.simps) (auto split: option.splits if_splits)
  from mailbox_sound [OF m(1)] obtain vs where vs: "ts = vs @ ts1" "mailbox True vs m" by blast
  show ?case
  proof (cases "consumeSpecial (CHR '';'') ts1")
    case (Some ts2)
    then have "ns = ms @ [m]" "ts2 = r" using 1(2) m by (subst (asm) groupListLoop.simps, simp)+
    moreover obtain e where "ts1 = e # ts2" "special_token (CHR '';'') e" using Some by (cases ts1) (auto split: if_splits)
    ultimately show ?thesis using vs m(2) mailboxes_one by (auto simp: maxMailboxes_def)
  next
    case None
    then obtain ts2 where ts2: "consumeSpecial (CHR '','') ts1 = Some ts2" "groupListLoop (ms @ [m]) ts2 = Some (ns, r)"
      using 1(2) m by (subst (asm) groupListLoop.simps) (auto split: option.splits)
    obtain c where c: "ts1 = c # ts2" "special_token (CHR '','') c" using ts2(1) by (cases ts1) (auto split: if_splits)
    from "1.IH" [OF m(1) refl m(2) None ts2] obtain us e ns' where
      "ts2 = us @ e # r" "special_token (CHR '';'') e" "mailboxes us ns'" "ns = (ms @ [m]) @ ns'" "length ns \<le> 128" by blast
    with vs c mailboxes_more [OF vs(2) c(2)] show ?thesis
      by (intro exI [of _ "vs @ c # us"] exI [of _ e] exI [of _ "m # ns'"]) simp
  qed
qed

lemma mailboxes_head: "mailboxes us ms \<Longrightarrow> us \<noteq> [] \<and> \<not> special_token (CHR '';'') (hd us)"
proof -
  have "mailbox True us m \<Longrightarrow> us \<noteq> [] \<and> \<not> special_token (CHR '';'') (hd us)" for us m
    by (auto simp: mailbox_def addr_spec_def dotted_def phrase_def special_unique dest: special_not_word)
  note head = this
  assume "mailboxes us ms"
  then show "us \<noteq> [] \<and> \<not> special_token (CHR '';'') (hd us)"
    using head by cases (auto simp: hd_append)
qed

lemma address_complete:
  assumes "address us ms" "length ms \<le> 128" "r = [] \<or> special_token (CHR '','') (hd r)"
  shows "listParser_address (us @ r) = Some (ms, r)"
proof -
  have stop: "\<not> peekSpecial (CHR ''.'') r" using assms(3) by (cases r) (auto simp: special_unique)
  from assms(1) consider (grp) ps c vs e where "us = ps @ c # vs @ [e]" "phrase ps" "special_token (CHR '':'') c"
       "special_token (CHR '';'') e" "vs = [] \<and> ms = [] \<or> mailboxes vs ms"
    | (one) m where "mailbox False us m" "ms = [m]"
    unfolding address_def group_syntax_def by blast
  then show ?thesis
  proof cases
    case grp
    have "Option.bind (listParser_phrase (us @ r)) (consumeSpecial (CHR '':'')) = Some (vs @ e # r)"
      using grp(1,3) phrase_complete [OF grp(2) special_stop [OF grp(3)], of "vs @ e # r"] by simp
    moreover have "groupList (vs @ e # r) = Some (ms, r)"
      using grp(4,5) groupListLoop_complete [of vs ms "[]" e r] mailboxes_head [of vs ms] assms(2)
      by (cases vs) (auto simp: groupList_def)
    ultimately show ?thesis by (simp add: listParser_address_def)
  next
    case one
    then show ?thesis using mailbox_phrase [OF one(1), of r] mailbox_complete [OF one(1) stop] by (simp add: listParser_address_def)
  qed
qed

lemma address_sound:
  assumes "listParser_address ts = Some (ms, r)"
  shows "\<exists>us. ts = us @ r \<and> address us ms"
proof (cases "Option.bind (listParser_phrase ts) (consumeSpecial (CHR '':''))")
  case (Some ts1)
  then obtain c where "listParser_phrase ts = Some (c # ts1)" and c: "special_token (CHR '':'') c"
    by (auto simp: bind_eq_Some_conv consumeSpecial_def peekSpecial_def special_token_def split: if_splits list.splits)
  then obtain ps where ps: "ts = ps @ c # ts1" "phrase ps" using phrase_sound by blast
  have "groupList ts1 = Some (ms, r)" using assms Some by (simp add: listParser_address_def)
  then obtain us e where "ts1 = us @ e # r" "special_token (CHR '';'') e" "us = [] \<and> ms = [] \<or> mailboxes us ms"
    by (cases ts1) (auto simp: groupList_def split: option.splits if_splits dest!: groupListLoop_sound)
  then show ?thesis using ps c unfolding address_def group_syntax_def
    by (intro exI [of _ "ps @ c # us @ [e]"]) auto
next
  case None
  then obtain m where "listParser_mailbox False ts = Some (m, r)" "ms = [m]"
    using assms by (auto simp: listParser_address_def split: option.splits)
  then show ?thesis using mailbox_sound by (fastforce simp: address_def)
qed

lemma addressListLoop_complete:
  "address_list us ns \<Longrightarrow> length (ms @ ns) \<le> 128 \<Longrightarrow> addressListLoop ms us = Some (ms @ ns)"
proof (induction us ns arbitrary: ms rule: address_list.induct)
  case (address_one ts ns)
  then show ?case using address_complete [OF address_one(1), of "[]"]
    by (subst addressListLoop.simps) (simp add: maxMailboxes_def)
next
  case (address_more ts ns c us ns')
  then show ?case using address_complete [OF address_more(1), of "c # us"]
    by (subst addressListLoop.simps) (simp add: maxMailboxes_def)
qed

lemma addressListLoop_sound:
  "addressListLoop ms ts = Some ns \<Longrightarrow> \<exists>ns'. address_list ts ns' \<and> ns = ms @ ns' \<and> length ns \<le> 128"
proof (induction ms ts rule: addressListLoop.induct)
  case (1 ms ts)
  obtain found ts1 where f: "listParser_address ts = Some (found, ts1)" "\<not> maxMailboxes < length (ms @ found)"
    using 1(2) by (subst (asm) addressListLoop.simps) (auto split: option.splits if_splits)
  from address_sound [OF f(1)] obtain us where us: "ts = us @ ts1" "address us found" by blast
  show ?case
  proof (cases "ts1 = []")
    case True
    then have "ns = ms @ found" using 1(2) f by (subst (asm) addressListLoop.simps) simp
    then show ?thesis using us True f(2) address_one by (auto simp: maxMailboxes_def)
  next
    case False
    then obtain ts2 where ts2: "consumeSpecial (CHR '','') ts1 = Some ts2" "addressListLoop (ms @ found) ts2 = Some ns"
      using 1(2) f by (subst (asm) addressListLoop.simps) (auto split: option.splits)
    obtain c where c: "ts1 = c # ts2" "special_token (CHR '','') c" using ts2(1) by (cases ts1) (auto split: if_splits)
    from "1.IH" [OF f(1) refl f(2) False ts2] address_more [OF us(2) c(2)] us c show ?thesis by fastforce
  qed
qed

theorem addressList_eq: "addressList ts = Some ms \<longleftrightarrow> address_list ts ms \<and> length ms \<le> 128"
  using addressListLoop_complete [of ts ms "[]"] addressListLoop_sound [of "[]" ts ms] by (auto simp: addressList_def)

section \<open>Lexical grammar\<close>

text \<open>Comment content with a bound on the depth of the comments nested in it.\<close>

definition text_byte :: "byte \<Rightarrow> bool" where
  "text_byte b \<longleftrightarrow> b \<noteq> BSL \<and> \<not> controlByte b"

inductive comment_text :: "nat \<Rightarrow> bytes \<Rightarrow> bool" where
  comment_Nil: "comment_text d []"
| comment_byte: "text_byte b \<Longrightarrow> b \<notin> {CHR ''('', CHR '')''} \<Longrightarrow> comment_text d s \<Longrightarrow> comment_text d (b # s)"
| comment_pair: "quotedPairByte c \<Longrightarrow> comment_text d s \<Longrightarrow> comment_text d (BSL # c # s)"
| comment_nested: "comment_text d t \<Longrightarrow> comment_text (Suc d) s \<Longrightarrow> comment_text (Suc d) (CHR ''('' # t @ CHR '')'' # s)"

inductive quoted_text :: "bytes \<Rightarrow> bool" where
  quoted_Nil: "quoted_text []"
| quoted_byte: "text_byte b \<Longrightarrow> b \<noteq> DQ \<Longrightarrow> quoted_text s \<Longrightarrow> quoted_text (b # s)"
| quoted_pair: "quotedPairByte c \<Longrightarrow> quoted_text s \<Longrightarrow> quoted_text (BSL # c # s)"

definition literal_text :: "bytes \<Rightarrow> bool" where
  "literal_text s \<longleftrightarrow> (\<forall>b \<in> set s. text_byte b \<and> b \<noteq> CHR ''['' \<and> b \<noteq> CHR '']'')"

inductive lexed :: "nat \<Rightarrow> bytes \<Rightarrow> token list \<Rightarrow> bool" where
  lexed_Nil: "lexed n [] []"
| lexed_wsp: "isWSP b \<Longrightarrow> lexed n s ts \<Longrightarrow> lexed n (b # s) ts"
| lexed_comment: "comment_text 31 c \<Longrightarrow> lexed n s ts \<Longrightarrow> lexed (Suc n) (CHR ''('' # c @ CHR '')'' # s) ts"
| lexed_quoted: "quoted_text q \<Longrightarrow> lexed n s ts \<Longrightarrow> lexed n (DQ # q @ DQ # s) (mk_token tokenQuoted (DQ # q @ [DQ]) # ts)"
| lexed_literal: "literal_text l \<Longrightarrow> lexed n s ts \<Longrightarrow>
    lexed n (CHR ''['' # l @ CHR '']'' # s) (mk_token tokenLiteral (CHR ''['' # l @ '']'') # ts)"
| lexed_special: "isSpecial b \<Longrightarrow> lexed n s ts \<Longrightarrow> lexed n (b # s) (mk_token tokenSpecial [b] # ts)"
| lexed_atom: "a \<noteq> [] \<Longrightarrow> \<forall>b \<in> set a. isAtext b \<Longrightarrow> s = [] \<or> \<not> isAtext (hd s) \<Longrightarrow> lexed n s ts \<Longrightarrow>
    lexed n (a @ s) (mk_token tokenAtom a # ts)"

lemma controlByte_chars [simp]: "\<not> controlByte (CHR ''('')" "\<not> controlByte (CHR '')'')" "\<not> controlByte DQ"
  "\<not> controlByte (CHR ''['')" "\<not> controlByte (CHR '']'')"
  by (simp_all add: controlByte_def octet_def)

lemma skipCommentLoop_text:
  "comment_text d s \<Longrightarrow> 0 < k \<Longrightarrow> k + int d \<le> 32 \<Longrightarrow> skipCommentLoop (s @ v) k n = skipCommentLoop v k (n + length s)"
  by (induction d s arbitrary: k n v rule: comment_text.induct) (auto simp: text_byte_def maxComments_def add.assoc)

lemma skipComment_complete: "comment_text 31 c \<Longrightarrow> skipComment (CHR ''('' # c @ CHR '')'' # s) = Some (length c + 2)"
  using skipCommentLoop_text [of 31 c 1 "CHR '')'' # s" 1] by (simp add: skipComment_def maxComments_def)

text \<open>A scan from inside \<open>k\<close> open comments reads \<open>k\<close> pieces of content, each up to its closing parenthesis.\<close>

fun closings :: "nat \<Rightarrow> bytes list \<Rightarrow> bool" where
  "closings d [] = True"
| "closings d (c # cs) = (comment_text d c \<and> closings (Suc d) cs)"

definition closed :: "bytes list \<Rightarrow> bytes" where
  "closed cs = concat (map (\<lambda>c. c @ '')'') cs)"

lemma skipCommentLoop_sound:
  "skipCommentLoop s k n = Some m \<Longrightarrow> 0 < k \<Longrightarrow> k \<le> 32 \<Longrightarrow>
     \<exists>cs r. int (length cs) = k \<and> closings (nat (32 - k)) cs \<and> s = closed cs @ r \<and> m = n + length (closed cs)"
proof (induction s k n rule: skipCommentLoop.induct)
  case (2 b s k n)
  consider "b = BSL" | "b = CHR ''(''" | "b = CHR '')''" | "b \<noteq> BSL" "b \<noteq> CHR ''(''" "b \<noteq> CHR '')''" by blast
  then show ?case
  proof cases
    case 1
    then obtain c s' where s: "s = c # s'" "quotedPairByte c" "skipCommentLoop s' k (n + 2) = Some m"
      using "2.prems" by (auto split: list.splits if_splits)
    then obtain cs r where cs: "int (length cs) = k" "closings (nat (32 - k)) cs" "s' = closed cs @ r" "m = n + 2 + length (closed cs)"
      using "2.IH"(1) [OF 1 s(1)] "2.prems" by auto
    then obtain x xs where "cs = x # xs" using "2.prems" by (cases cs) auto
    with 1 s cs show ?thesis by (intro exI [of _ "(BSL # c # x) # xs"] exI [of _ r]) (auto simp: closed_def intro: comment_text.intros)
  next
    case 2
    then have k: "\<not> k + 1 > maxComments" "skipCommentLoop s (k + 1) (n + 1) = Some m" using "2.prems" by (auto split: if_splits)
    then obtain cs r where cs: "int (length cs) = k + 1" "closings (nat (32 - (k + 1))) cs" "s = closed cs @ r"
        "m = n + 1 + length (closed cs)"
      using "2.IH"(2) 2 "2.prems" by (auto simp: maxComments_def)
    then obtain x y xs where xs: "cs = x # y # xs" using "2.prems" by (cases cs; cases "tl cs") auto
    have "nat (32 - k) = Suc (nat (32 - (k + 1)))" using k by (simp add: maxComments_def)
    with cs xs have "closings (nat (32 - k)) ((CHR ''('' # x @ CHR '')'' # y) # xs)"
      by (auto intro: comment_text.intros)
    with 2 cs xs show ?thesis
      by (intro exI [of _ "(CHR ''('' # x @ CHR '')'' # y) # xs"] exI [of _ r]) (auto simp: closed_def)
  next
    case 3
    show ?thesis
    proof (cases "k - 1 = 0")
      case True
      then show ?thesis using 3 "2.prems"
        by (intro exI [of _ "[[]]"] exI [of _ s]) (auto simp: closed_def intro: comment_text.intros)
    next
      case False
      then have "skipCommentLoop s (k - 1) (n + 1) = Some m" using 3 "2.prems" by simp
      then obtain cs r where cs: "int (length cs) = k - 1" "closings (nat (32 - (k - 1))) cs" "s = closed cs @ r"
          "m = n + 1 + length (closed cs)"
        using "2.IH"(3) 3 False "2.prems" by auto
      have "nat (32 - (k - 1)) = Suc (nat (32 - k))" using "2.prems" by simp
      with 3 cs show ?thesis
        by (intro exI [of _ "[] # cs"] exI [of _ r]) (auto simp: closed_def intro: comment_text.intros)
    qed
  next
    case 4
    then have c: "\<not> controlByte b" "skipCommentLoop s k (n + 1) = Some m" using "2.prems" by (auto split: if_splits)
    then obtain cs r where cs: "int (length cs) = k" "closings (nat (32 - k)) cs" "s = closed cs @ r" "m = n + 1 + length (closed cs)"
      using "2.IH"(4) 4 "2.prems" by auto
    then obtain x xs where "cs = x # xs" using "2.prems" by (cases cs) auto
    with 4 c cs show ?thesis by (intro exI [of _ "(b # x) # xs"] exI [of _ r])
      (auto simp: closed_def text_byte_def intro: comment_text.intros)
  qed
qed simp

lemma skipComment_sound:
  assumes "skipComment (CHR ''('' # s) = Some n"
  shows "\<exists>c r. comment_text 31 c \<and> s = c @ CHR '')'' # r \<and> n = length c + 2"
proof -
  have "skipCommentLoop s 1 1 = Some n" using assms by (simp add: skipComment_def maxComments_def)
  from skipCommentLoop_sound [OF this] obtain cs r where cs: "int (length cs) = 1" "closings 31 cs" "s = closed cs @ r"
      "n = 1 + length (closed cs)" by auto
  from cs(1) obtain c where "cs = [c]" by (cases cs) auto
  with cs show ?thesis by (auto simp: closed_def)
qed

lemma scanQuotedLoop_complete: "quoted_text q \<Longrightarrow> scanQuotedLoop (q @ DQ # s) n = Some (n + length q + 1)"
  by (induction arbitrary: n rule: quoted_text.induct) (auto simp: text_byte_def)

lemma scanQuotedLoop_sound: "scanQuotedLoop s n = Some m \<Longrightarrow> \<exists>q r. quoted_text q \<and> s = q @ DQ # r \<and> m = n + length q + 1"
proof (induction s n rule: scanQuotedLoop.induct)
  case (2 b s n)
  consider "b = BSL" | "b = DQ" | "b \<noteq> BSL" "b \<noteq> DQ" by blast
  then show ?case
  proof cases
    case 1
    then obtain c s' where s: "s = c # s'" "quotedPairByte c" "scanQuotedLoop s' (n + 2) = Some m"
      using "2.prems" by (auto split: list.splits if_splits)
    then obtain q r where "quoted_text q" "s' = q @ DQ # r" "m = n + 2 + length q + 1" using "2.IH"(1) [OF 1 s(1)] by auto
    with 1 s show ?thesis by - (rule exI [of _ "BSL # c # q"], rule exI [of _ r], auto intro: quoted_text.intros)
  next
    case 2
    then show ?thesis using "2.prems" by - (rule exI [of _ "[]"], rule exI [of _ s], auto intro: quoted_text.intros)
  next
    case 3
    then have b: "\<not> controlByte b" "scanQuotedLoop s (n + 1) = Some m" using "2.prems" by (auto split: if_splits)
    then obtain q r where "quoted_text q" "s = q @ DQ # r" "m = n + 1 + length q + 1" using "2.IH"(2) 3 by auto
    with 3 b show ?thesis by - (rule exI [of _ "b # q"], rule exI [of _ r], auto simp: text_byte_def intro: quoted_text.intros)
  qed
qed simp

lemma scanLiteralLoop_complete: "literal_text l \<Longrightarrow> scanLiteralLoop (l @ CHR '']'' # s) n = Some (n + length l + 1)"
  by (induction l arbitrary: n) (auto simp: text_byte_def literal_text_def)

lemma scanLiteralLoop_sound: "scanLiteralLoop s n = Some m \<Longrightarrow> \<exists>l r. literal_text l \<and> s = l @ CHR '']'' # r \<and> m = n + length l + 1"
proof (induction s n rule: scanLiteralLoop.induct)
  case (2 b s n)
  show ?case
  proof (cases "b = CHR '']''")
    case True
    then show ?thesis using "2.prems" by - (rule exI [of _ "[]"], rule exI [of _ s], auto simp: literal_text_def)
  next
    case False
    then have b: "b \<noteq> CHR ''['' \<and> b \<noteq> BSL \<and> \<not> controlByte b" "scanLiteralLoop s (n + 1) = Some m"
      using "2.prems" by (auto split: if_splits)
    then obtain l r where "literal_text l" "s = l @ CHR '']'' # r" "m = n + 1 + length l + 1" using "2.IH" False by auto
    with False b show ?thesis by - (rule exI [of _ "b # l"], rule exI [of _ r], auto simp: literal_text_def text_byte_def)
  qed
qed simp

lemma byte_classes:
  "isSpecial b \<Longrightarrow> b \<notin> {SP, TAB, CHR ''('', DQ, CHR ''[''}"
  "isAtext b \<Longrightarrow> \<not> isSpecial b \<and> b \<notin> {SP, TAB, CHR ''('', DQ, CHR ''[''}"
  by (auto simp: isSpecial_def isAtext_def octet_def split: if_splits)

lemma tokenizeLoop_complete:
  "lexed n s ts \<Longrightarrow> c + int n \<le> 32 \<Longrightarrow> tokenizeLoop s c tokens = Some (tokens @ ts)"
proof (induction n s ts arbitrary: c tokens rule: lexed.induct)
  case (lexed_comment t n s ts)
  then show ?case using skipComment_complete [OF lexed_comment(1), of s]
    by (subst tokenizeLoop.simps) (simp add: maxComments_def)
next
  case (lexed_quoted q n s ts)
  then show ?case using scanQuotedLoop_complete [OF lexed_quoted(1), of s 1]
    by (subst tokenizeLoop.simps) (simp add: scanQuoted_def)
next
  case (lexed_literal l n s ts)
  then show ?case using scanLiteralLoop_complete [OF lexed_literal(1), of s 1]
    by (subst tokenizeLoop.simps) (simp add: scanLiteral_def)
next
  case (lexed_special b n s ts)
  then show ?case using byte_classes(1) [OF lexed_special(1)] by (subst tokenizeLoop.simps) simp
next
  case (lexed_atom a s n ts)
  then obtain b a' where a: "a = b # a'" by (cases a) auto
  have "takeWhile isAtext (a' @ s) = a'" "dropWhile isAtext (a' @ s) = s"
    using lexed_atom(2,3) a by (cases s; simp add: takeWhile_append dropWhile_append)+
  with lexed_atom a show ?case using byte_classes(2) [of b] by (subst a, simp, subst tokenizeLoop.simps) simp
qed (simp_all add: tokenizeLoop.simps isWSP_def)

lemma tokenizeLoop_sound:
  "tokenizeLoop s c tokens = Some r \<Longrightarrow> c \<le> 32 \<Longrightarrow> \<exists>n ts. lexed n s ts \<and> r = tokens @ ts \<and> c + int n \<le> 32"
proof (induction s c tokens rule: tokenizeLoop.induct)
  case (1 c tokens)
  then show ?case by (intro exI [of _ 0] exI [of _ "[]"]) (auto simp: tokenizeLoop.simps intro: lexed.intros)
next
  case (2 b s c tokens)
  note step = "2.prems"(1) [unfolded tokenizeLoop.simps]
  consider (w) "b = SP \<or> b = TAB" | (cm) "b = CHR ''(''" | (q) "b = DQ" | (l) "b = CHR ''[''"
    | (sp) "isSpecial b" | (at) "isAtext b" "\<not> isSpecial b" using step byte_classes by (auto split: if_splits)
  then show ?case
  proof cases
    case w
    then have "tokenizeLoop s c tokens = Some r" using step by auto
    with w "2.IH"(1) "2.prems"(2) show ?thesis by (fastforce simp: isWSP_def intro: lexed.intros)
  next
    case cm
    then obtain n where n: "skipComment (b # s) = Some n" "\<not> c + 1 > maxComments" "tokenizeLoop (drop n (b # s)) (c + 1) tokens = Some r"
      using step by (auto split: option.splits if_splits)
    from skipComment_sound n(1) cm obtain t v where t: "comment_text 31 t" "s = t @ CHR '')'' # v" "n = length t + 2" by blast
    then have "drop n (b # s) = v" by simp
    with n "2.IH"(2) cm obtain k ts where "lexed k v ts" "r = tokens @ ts" "c + 1 + int k \<le> 32" by (auto simp: maxComments_def)
    with t cm show ?thesis using lexed_comment [OF t(1)] by (intro exI [of _ "Suc k"]) auto
  next
    case q
    then obtain n where n: "scanQuoted (b # s) = Some n"
        "tokenizeLoop (drop n (b # s)) c (tokens @ [mk_token tokenQuoted (take n (b # s))]) = Some r"
      using step by (auto split: option.splits)
    from scanQuotedLoop_sound [of s 1 n] n(1) obtain t v where t: "quoted_text t" "s = t @ DQ # v" "n = length t + 2"
      by (auto simp: scanQuoted_def)
    then have "drop n (b # s) = v" "take n (b # s) = DQ # t @ [DQ]" using q by simp_all
    with n "2.IH"(3) q "2.prems"(2) obtain k ts where "lexed k v ts" "r = tokens @ mk_token tokenQuoted (DQ # t @ [DQ]) # ts" "c + int k \<le> 32"
      by auto
    with t q show ?thesis using lexed_quoted [OF t(1)] by blast
  next
    case l
    then obtain n where n: "scanLiteral (b # s) = Some n"
        "tokenizeLoop (drop n (b # s)) c (tokens @ [mk_token tokenLiteral (take n (b # s))]) = Some r"
      using step by (auto split: option.splits)
    from scanLiteralLoop_sound [of s 1 n] n(1) obtain t v where t: "literal_text t" "s = t @ CHR '']'' # v" "n = length t + 2"
      by (auto simp: scanLiteral_def)
    then have "drop n (b # s) = v" "take n (b # s) = CHR ''['' # t @ '']''" using l by simp_all
    with n "2.IH"(4) l "2.prems"(2) obtain k ts where "lexed k v ts" "r = tokens @ mk_token tokenLiteral (CHR ''['' # t @ '']'') # ts" "c + int k \<le> 32"
      by auto
    with t l show ?thesis using lexed_literal [OF t(1)] by blast
  next
    case sp
    with byte_classes(1) [OF sp] step "2.IH"(5) "2.prems"(2) obtain k ts where
      "lexed k s ts" "r = tokens @ mk_token tokenSpecial [b] # ts" "c + int k \<le> 32" by auto
    with sp show ?thesis using lexed_special by blast
  next
    case at
    let ?a = "takeWhile isAtext s" and ?v = "dropWhile isAtext s"
    from at byte_classes(2) [OF at(1)] step "2.IH"(6) "2.prems"(2) obtain k ts where
      k: "lexed k ?v ts" "r = tokens @ mk_token tokenAtom (b # ?a) # ts" "c + int k \<le> 32" by auto
    have "lexed k ((b # ?a) @ ?v) (mk_token tokenAtom (b # ?a) # ts)"
      using at(1) k(1) hd_dropWhile [of isAtext s] by (intro lexed_atom) (auto dest: set_takeWhileD)
    with k show ?thesis by auto
  qed
qed

theorem tokenize_eq: "tokenize s = Some ts \<longleftrightarrow> (\<exists>n. lexed n s ts \<and> n \<le> 32)"
  using tokenizeLoop_complete [of _ s ts 0 "[]"] tokenizeLoop_sound [of s 0 "[]" ts] by (fastforce simp: tokenize_def)

end
