(* ===== verification/Mailbox_Properties.thy ===== *)
theory Mailbox_Properties
  imports Mailbox_Grammar
begin

text \<open>
  Properties of domain names (\<open>internal/domainname\<close>) and author fields (\<open>internal/mailbox\<close>).
\<close>

section \<open>Domain names\<close>

text \<open>
  C28: whatever the IDNA profile answers, a converted name is a sequence of lowercase
  letter-digit-hyphen labels within the DNS bounds; plain ASCII names without an A-label never reach the
  profile, are converted exactly when their lowercase form is such a name, and the conversion is
  that lowercase form, on which converting again changes nothing.
\<close>

theorem domain_exact:
  "pred_option ldh_name (ToASCII registration d)
   \<and> (if IsASCII d \<and> \<not> hasACEPrefix (map foldByte d)
      then ToASCII registration d = (if ldh_name (map foldByte d) then Some (map foldByte d) else None)
        \<and> Option.bind (ToASCII registration d) (ToASCII registration) = ToASCII registration d
      else ToASCII registration d = None
        \<or> ToASCII registration d = registration (map foldByte d))"
proof -
  have valid: "pred_option ldh_name (ToASCII registration d)"
    using ToASCII_Some [of registration d] by (cases "ToASCII registration d") auto
  have twice: "ToASCII registration (map foldByte d) = Some (map foldByte d)"
    if "ldh_name (map foldByte d)" "\<not> hasACEPrefix (map foldByte d)"
    using ToASCII_plain [of "map foldByte d" registration] that by (simp only: ldh_name_fold ldh_name_ascii) simp
  have other: "ToASCII registration d = None \<or> ToASCII registration d = registration (map foldByte d)"
    if "\<not> (IsASCII d \<and> \<not> hasACEPrefix (map foldByte d))"
  proof -
    have "octet (foldByte b) < 128 \<Longrightarrow> octet b < 128" for b
      by (cases "65 \<le> octet b \<and> octet b \<le> 90") (linarith, simp only: foldByte_def if_False)
    then have "IsASCII (map foldByte d) \<Longrightarrow> IsASCII d" unfolding IsASCII_def list_all_iff set_map by blast
    with that show ?thesis by (auto simp: ToASCII_def Let_def split: option.splits)
  qed
  show ?thesis
  proof (cases "IsASCII d \<and> \<not> hasACEPrefix (map foldByte d)")
    case True
    then have "ToASCII registration d = (if ldh_name (map foldByte d) then Some (map foldByte d) else None)"
      using ToASCII_plain [of d registration] by blast
    with True valid twice show ?thesis by simp
  next
    case False
    with valid other [OF False] show ?thesis by (simp only: if_False simp_thms)
  qed
qed

section \<open>Author fields\<close>

definition author_field :: "bytes \<Rightarrow> parsedMailbox list \<Rightarrow> bool" where
  "author_field v ms \<longleftrightarrow> v \<noteq> [] \<and> length v \<le> 16 * 1024 \<and> utf8Valid v \<and> length ms \<le> 128
     \<and> (\<exists>n ts. lexed n v ts \<and> n \<le> 32 \<and> address_list ts ms)"

definition author_verdict :: "(bytes \<Rightarrow> bytes option) \<Rightarrow> parsedMailbox list \<Rightarrow> Author \<times> MailboxStatus" where
  "author_verdict registration ms = (case ms of
     [] \<Rightarrow> (zeroAuthor, StatusNoMailbox)
   | [m] \<Rightarrow> (if pm_literal m then (zeroAuthor, StatusDomainLiteral)
       else case ToASCII registration (pm_domain m) of
         None \<Rightarrow> (zeroAuthor, StatusInvalidDomain)
       | Some d \<Rightarrow> (\<lparr>au_localPart = pm_local m, au_domain = d, au_inGroup = pm_inGroup m,
           au_ascii = asciiString (pm_local m) \<and> asciiString (pm_domain m)\<rparr>, StatusSingle))
   | _ \<Rightarrow> (zeroAuthor, StatusMultiple))"

lemma address_list_not_Nil: "address_list ts ms \<Longrightarrow> ts \<noteq> []"
  by (induction rule: address_list.induct)
     (auto simp: address_def group_syntax_def mailbox_def addr_spec_def)

lemma author_field_parse:
  "author_field v ms \<longleftrightarrow> v \<noteq> [] \<and> length v \<le> MaxValueBytes \<and> utf8Valid v
     \<and> (\<exists>ts. tokenize v = Some ts \<and> addressList ts = Some ms)"
  by (auto simp: author_field_def tokenize_eq addressList_eq MaxValueBytes_def)

text \<open>
  C27: an author field is classified by the grammar: if the value derives a list of mailboxes (which
  is then unique), the answer is the verdict over that list, a usable author exactly for one mailbox
  whose domain converts; a value that derives none is malformed. No other case exists.
\<close>

theorem author_exact:
  "(author_field v ms \<longrightarrow> ParseAuthor registration v = author_verdict registration ms)
   \<and> ((\<nexists>ms. author_field v ms) \<longrightarrow> ParseAuthor registration v = (zeroAuthor, StatusMalformed))"
proof
  show "author_field v ms \<longrightarrow> ParseAuthor registration v = author_verdict registration ms"
  proof
    assume "author_field v ms"
    then obtain ts where v: "v \<noteq> []" "\<not> length v > MaxValueBytes" "utf8Valid v" "tokenize v = Some ts" "addressList ts = Some ms"
      by (auto simp: author_field_parse)
    then have "ts \<noteq> []" using address_list_not_Nil addressList_eq by blast
    with v show "ParseAuthor registration v = author_verdict registration ms"
      by (auto simp: ParseAuthor_def author_verdict_def Let_def split: list.splits option.splits)
  qed
  show "(\<nexists>ms. author_field v ms) \<longrightarrow> ParseAuthor registration v = (zeroAuthor, StatusMalformed)"
    by (auto simp: ParseAuthor_def author_field_parse split: option.splits)
qed

definition sampleAuthor :: bytes where
  "sampleAuthor = ''Team (of two): Bob <bob@Mail.example>;''"

definition sampleMailbox :: parsedMailbox where
  "sampleMailbox = \<lparr>pm_local = ''bob'', pm_domain = ''Mail.example'', pm_literal = False, pm_inGroup = True\<rparr>"

lemma sampleAuthor_field: "author_field sampleAuthor [sampleMailbox]"
proof -
  have "Option.bind (tokenize sampleAuthor) addressList = Some [sampleMailbox]" by code_simp
  moreover have "utf8Valid sampleAuthor" "length sampleAuthor \<le> 100" "sampleAuthor \<noteq> []" by code_simp+
  ultimately show ?thesis by (auto simp: author_field_parse MaxValueBytes_def bind_eq_Some_conv)
qed

theorem author_exact_witness:
  "ParseAuthor (\<lambda>_. None) sampleAuthor =
     (\<lparr>au_localPart = ''bob'', au_domain = ''mail.example'', au_inGroup = True, au_ascii = True\<rparr>, StatusSingle)"
proof -
  have "author_verdict (\<lambda>_. None) [sampleMailbox] =
     (\<lparr>au_localPart = ''bob'', au_domain = ''mail.example'', au_inGroup = True, au_ascii = True\<rparr>, StatusSingle)"
    by code_simp
  with author_exact [of sampleAuthor "[sampleMailbox]" "\<lambda>_. None"] sampleAuthor_field show ?thesis by simp
qed

end
