(* ===== verification/Instance_Base.thy ===== *)
theory Instance_Base
  imports Tagvalue_Render Combine_Layout Go_Text Rawmsg_Message
begin

text \<open>
  Message-Instance fields (\<open>internal/instance\<close>): errors (\<open>errors.go\<close>), limits, hash sets and instances
  (\<open>types.go\<close>). The m= numbers are Go \<open>uint64\<close>; the code compares and counts them up to the number of
  instances and never adds to them otherwise, so they are naturals that the number parser bounds.
\<close>

section \<open>Errors (\<open>errors.go\<close>)\<close>

datatype InstanceErrorCode =
    InstWrongHeaderField | InstMissingRequiredTag | InstInvalidNumber | InstMalformedHashSet
  | InstDuplicateHashName | InstInvalidHashBase64 | InstInvalidHashLength | InstInvalidRecipeBase64
  | InstLimitExceeded | InstInvalidOptions | InstMissingOrigin | InstDuplicateNumber | InstSequenceGap
  | InstInvalidConstruction | InstRenderInvariant | InstErrorCodeOther

definition InstanceErrorCode_Known :: "InstanceErrorCode \<Rightarrow> bool" where
  "InstanceErrorCode_Known c \<longleftrightarrow> c \<noteq> InstErrorCodeOther"

datatype InstanceErrorClass =
    InstClassUnset | InstClassMalformed | InstClassMissing | InstClassDuplicate | InstClassLimit | InstClassInvariant

definition InstanceErrorClass_Known :: "InstanceErrorClass \<Rightarrow> bool" where
  "InstanceErrorClass_Known c \<longleftrightarrow> c = InstClassMalformed \<or> c = InstClassMissing \<or> c = InstClassDuplicate
     \<or> c = InstClassLimit \<or> c = InstClassInvariant"

definition TagName_Known :: "string \<Rightarrow> bool" where
  "TagName_Known n \<longleftrightarrow> n = ''m'' \<or> n = ''h'' \<or> n = ''r''"

definition InstanceLimitName_Known :: "string \<Rightarrow> bool" where
  "InstanceLimitName_Known n \<longleftrightarrow> n = ''max_hash_sets'' \<or> n = ''max_instances'' \<or> n = ''max_field_bytes''
     \<or> n = ''max_line_bytes'' \<or> n = ''max_recipe_bytes'' \<or> n = ''render_limit_coherence''"

record InstanceErrorLocation =
  il_FieldIndex :: int
  il_HashIndex :: int

record InstanceErrorDetails =
  id_Class :: InstanceErrorClass
  id_TagName :: string
  id_LimitName :: string
  id_Limit :: int
  id_Count :: int
  id_ExpectedNumber :: nat
  id_ObservedNumber :: nat

record InstanceError =
  ie_code :: InstanceErrorCode
  ie_location :: InstanceErrorLocation
  ie_details :: InstanceErrorDetails
  ie_cause :: "TagError option"

definition fieldLocation :: "int \<Rightarrow> InstanceErrorLocation" where
  "fieldLocation i = \<lparr>il_FieldIndex = i, il_HashIndex = 0\<rparr>"

definition noInstanceDetails :: InstanceErrorDetails where
  "noInstanceDetails = \<lparr>id_Class = InstClassUnset, id_TagName = [], id_LimitName = [], id_Limit = 0, id_Count = 0,
     id_ExpectedNumber = 0, id_ObservedNumber = 0\<rparr>"

definition instanceClassForCode :: "InstanceErrorCode \<Rightarrow> InstanceErrorClass" where
  "instanceClassForCode code =
     (case code of
        InstMissingRequiredTag \<Rightarrow> InstClassMissing
      | InstDuplicateHashName \<Rightarrow> InstClassDuplicate
      | InstDuplicateNumber \<Rightarrow> InstClassDuplicate
      | InstLimitExceeded \<Rightarrow> InstClassLimit
      | InstInvalidOptions \<Rightarrow> InstClassInvariant
      | InstRenderInvariant \<Rightarrow> InstClassInvariant
      | _ \<Rightarrow> InstClassMalformed)"

definition sanitizeInstanceLocation :: "InstanceErrorLocation \<Rightarrow> InstanceErrorLocation" where
  "sanitizeInstanceLocation l = \<lparr>il_FieldIndex = (if il_FieldIndex l < 0 then 0 else il_FieldIndex l),
     il_HashIndex = (if il_HashIndex l < 0 then 0 else il_HashIndex l)\<rparr>"

definition sanitizeInstanceDetails :: "InstanceErrorDetails \<Rightarrow> InstanceErrorDetails" where
  "sanitizeInstanceDetails d = d\<lparr>id_Limit := (if id_Limit d < 0 then 0 else id_Limit d),
     id_Count := (if id_Count d < 0 then 0 else id_Count d)\<rparr>"

definition newInstanceError ::
    "InstanceErrorCode \<Rightarrow> InstanceErrorLocation \<Rightarrow> InstanceErrorDetails \<Rightarrow> TagError option \<Rightarrow> InstanceError" where
  "newInstanceError code location details cause =
     (let code' = (if \<not> InstanceErrorCode_Known code then InstRenderInvariant else code);
          d1 = details\<lparr>id_Class := instanceClassForCode code'\<rparr>;
          d2 = (if \<not> TagName_Known (id_TagName d1) then d1\<lparr>id_TagName := []\<rparr> else d1);
          d3 = (if \<not> InstanceLimitName_Known (id_LimitName d2) then d2\<lparr>id_LimitName := []\<rparr> else d2)
      in \<lparr>ie_code = code', ie_location = sanitizeInstanceLocation location, ie_details = sanitizeInstanceDetails d3,
          ie_cause = cause\<rparr>)"

text \<open>Parsing can fail with an error of this package or with the scanner's error.\<close>

datatype InstanceFailure = InstanceFailed InstanceError | ScanFailed TagError

text \<open>Matching of errors: a target that is no error of this package never matches, nor does a nil one.\<close>

definition InstanceError_Is :: "InstanceError option \<Rightarrow> InstanceError option \<Rightarrow> bool" where
  "InstanceError_Is e target =
     (case target of None \<Rightarrow> False | Some t \<Rightarrow> (case e of None \<Rightarrow> False | Some x \<Rightarrow> ie_code x = ie_code t))"

definition IsInstanceErrorCode :: "InstanceFailure \<Rightarrow> InstanceErrorCode \<Rightarrow> bool" where
  "IsInstanceErrorCode err code = (case err of InstanceFailed e \<Rightarrow> ie_code e = code | ScanFailed _ \<Rightarrow> False)"

section \<open>Limits (\<open>types.go\<close>, \<open>parser.go\<close>)\<close>

definition maxHashSetsHard :: int where "maxHashSetsHard = 16"
definition maxInstancesHard :: int where "maxInstancesHard = 128"

record InstanceLimits =
  inl_TagLimits :: Limits
  inl_MaxHashSets :: int
  inl_MaxInstances :: int

definition DefaultInstanceLimits :: InstanceLimits where
  "DefaultInstanceLimits = \<lparr>inl_TagLimits = DefaultLimits, inl_MaxHashSets = maxHashSetsHard, inl_MaxInstances = maxInstancesHard\<rparr>"

definition instanceOptionError :: "string \<Rightarrow> int \<Rightarrow> InstanceError" where
  "instanceOptionError limitName limit =
     newInstanceError InstInvalidOptions (fieldLocation 0)
       (noInstanceDetails\<lparr>id_Class := InstClassInvariant, id_LimitName := limitName, id_Limit := limit\<rparr>) None"

definition InstanceLimits_Validate :: "InstanceLimits \<Rightarrow> InstanceError option" where
  "InstanceLimits_Validate l =
     (if inl_MaxHashSets l \<le> 0 \<or> inl_MaxHashSets l > maxHashSetsHard
      then Some (instanceOptionError ''max_hash_sets'' (inl_MaxHashSets l))
      else if inl_MaxInstances l \<le> 0 \<or> inl_MaxInstances l > maxInstancesHard
      then Some (instanceOptionError ''max_instances'' (inl_MaxInstances l))
      else None)"

definition InstanceLimits_normalize :: "InstanceLimits \<Rightarrow> InstanceLimits" where
  "InstanceLimits_normalize l =
     (let l1 = (if inl_MaxHashSets l = 0 then l\<lparr>inl_MaxHashSets := inl_MaxHashSets DefaultInstanceLimits\<rparr> else l)
      in if inl_MaxInstances l1 = 0 then l1\<lparr>inl_MaxInstances := inl_MaxInstances DefaultInstanceLimits\<rparr> else l1)"

section \<open>Hash sets and instances (\<open>types.go\<close>)\<close>

definition HeaderName :: bytes where "HeaderName = ''message-instance''"

record HashSet =
  hs_name :: bytes
  hs_known :: bool
  hs_headerHash :: Base64String
  hs_bodyHash :: Base64String
  hs_headerHashValue :: bytes
  hs_bodyHashValue :: bytes

record MessageInstance =
  mi_number :: nat
  mi_hashes :: "HashSet list"
  mi_hashLayout :: Layout
  mi_recipe :: Base64String
  mi_hasRecipe :: bool
  mi_headerIndex :: int

definition zeroBase64 :: Base64String where
  "zeroBase64 = \<lparr>bs_original = [], bs_encoded = [], bs_decoded = []\<rparr>"

definition zeroHashSet :: HashSet where
  "zeroHashSet = \<lparr>hs_name = [], hs_known = False, hs_headerHash = zeroBase64, hs_bodyHash = zeroBase64,
     hs_headerHashValue = [], hs_bodyHashValue = []\<rparr>"

definition MessageInstance_Recipe :: "MessageInstance \<Rightarrow> Base64String option" where
  "MessageInstance_Recipe m = (if \<not> mi_hasRecipe m then None else Some (mi_recipe m))"

datatype HashSelectionStatus = HashSelected | HashMissing | HashUnsupported | HashSelectionOther

definition HashSelectionStatus_Known :: "HashSelectionStatus \<Rightarrow> bool" where
  "HashSelectionStatus_Known s \<longleftrightarrow> s = HashSelected \<or> s = HashMissing \<or> s = HashUnsupported"

fun sha256Loop :: "HashSet list \<Rightarrow> bool \<Rightarrow> HashSet \<times> HashSelectionStatus" where
  "sha256Loop [] sawUnknown = (zeroHashSet, if sawUnknown then HashUnsupported else HashMissing)"
| "sha256Loop (h # hs) sawUnknown =
     (if hs_name h = ''sha256'' \<and> hs_known h \<and> Base64String_DecodedLen (hs_headerHash h) = 32
         \<and> Base64String_DecodedLen (hs_bodyHash h) = 32
      then (h, HashSelected)
      else sha256Loop hs (if \<not> hs_known h then True else sawUnknown))"

definition SHA256HashSet :: "MessageInstance \<Rightarrow> HashSet \<times> HashSelectionStatus" where
  "SHA256HashSet m = sha256Loop (mi_hashes m) False"

definition SupportedHashSets :: "MessageInstance \<Rightarrow> HashSet list \<times> HashSelectionStatus" where
  "SupportedHashSets m =
     (let supported = filter hs_known (mi_hashes m) in
      if supported \<noteq> [] then (supported, HashSelected)
      else if mi_hashes m \<noteq> [] then ([], HashUnsupported)
      else ([], HashMissing))"

definition HashSet_HeaderHash :: "HashSet \<Rightarrow> Base64String option" where
  "HashSet_HeaderHash h = (if \<not> hs_known h then None else Some (hs_headerHash h))"

definition HashSet_BodyHash :: "HashSet \<Rightarrow> Base64String option" where
  "HashSet_BodyHash h = (if \<not> hs_known h then None else Some (hs_bodyHash h))"

section \<open>Shared facts\<close>

lemma ie_code_newInstanceError [simp]: "code \<noteq> InstErrorCodeOther \<Longrightarrow> ie_code (newInstanceError code l d c) = code"
  by (simp add: newInstanceError_def InstanceErrorCode_Known_def Let_def)

lemma DefaultInstanceLimits_valid [simp]:
  "InstanceLimits_normalize DefaultInstanceLimits = DefaultInstanceLimits"
  "InstanceLimits_Validate DefaultInstanceLimits = None"
  by (simp_all add: InstanceLimits_normalize_def InstanceLimits_Validate_def DefaultInstanceLimits_def
      maxHashSetsHard_def maxInstancesHard_def)

end
