(* ===== verification/Instance_Parser.thy ===== *)
theory Instance_Parser
  imports Instance_Base
begin

text \<open>
  The Message-Instance parser: h= hash sets (\<open>hash.go\<close>) and whole fields (\<open>parser.go\<close>), with the syntax
  they are held against.
\<close>

section \<open>Hash sets (\<open>hash.go\<close>)\<close>

definition sha256HashBytes :: nat where "sha256HashBytes = 32"
definition sha512HashBytes :: nat where "sha512HashBytes = 64"

definition supportedHashAlgorithmForName :: "bytes \<Rightarrow> nat option" where
  "supportedHashAlgorithmForName name =
     (if name = ''sha256'' then Some sha256HashBytes else if name = ''sha512'' then Some sha512HashBytes else None)"

definition hashLocation :: "int \<Rightarrow> int \<Rightarrow> InstanceErrorLocation" where
  "hashLocation fieldIndex hashIndex = \<lparr>il_FieldIndex = fieldIndex, il_HashIndex = hashIndex\<rparr>"

definition malformedHashSetError :: "int \<Rightarrow> int \<Rightarrow> InstanceError" where
  "malformedHashSetError fieldIndex hashIndex =
     newInstanceError InstMalformedHashSet (hashLocation fieldIndex hashIndex) (noInstanceDetails\<lparr>id_TagName := ''h''\<rparr>) None"

definition invalidHashLengthError :: "int \<Rightarrow> int \<Rightarrow> nat \<Rightarrow> nat \<Rightarrow> InstanceError" where
  "invalidHashLengthError fieldIndex hashIndex expectedLength decodedLength =
     newInstanceError InstInvalidHashLength (hashLocation fieldIndex hashIndex)
       (noInstanceDetails\<lparr>id_TagName := ''h'', id_Limit := int expectedLength, id_Count := int decodedLength\<rparr>) None"

definition hashTrimWSP :: "bytes \<Rightarrow> bytes \<times> nat" where
  "hashTrimWSP input =
     (let start = length (takeWhile isWSP input); end' = trimEndLoop isWSP input start (length input)
      in (Go_Bytes.slice input start end', start))"

definition trimTrailingWSP :: "bytes \<Rightarrow> bytes" where
  "trimTrailingWSP input = take (trimEndLoop isWSP input 0 (length input)) input"

definition base64Edges :: "bytes \<Rightarrow> bool" where
  "base64Edges component \<longleftrightarrow> length component > 0 \<and> \<not> isWSP (component ! 0) \<and> \<not> isWSP (component ! (length component - 1))"

definition validUnknownHashComponent :: "bytes \<Rightarrow> bool" where
  "validUnknownHashComponent input \<longleftrightarrow> list_all (\<lambda>b. \<not> (octet b < 32 \<and> \<not> isWSP b \<or> octet b = 127)) input"

definition parseHashBase64 :: "bytes \<Rightarrow> Limits \<Rightarrow> int \<Rightarrow> int \<Rightarrow> (InstanceError, Base64String) result" where
  "parseHashBase64 input limits fieldIndex hashIndex =
     (case ParseBase64String input limits of
        Inl e \<Rightarrow> Inl (newInstanceError InstInvalidHashBase64 (hashLocation fieldIndex hashIndex)
                      (noInstanceDetails\<lparr>id_TagName := ''h''\<rparr>) (Some e))
      | Inr parsed \<Rightarrow> Inr parsed)"

definition parseHashSet :: "bytes \<Rightarrow> Limits \<Rightarrow> int \<Rightarrow> int \<Rightarrow> (InstanceError, HashSet) result" where
  "parseHashSet input tagLimits fieldIndex hashIndex =
     (let components = SplitByte (CHR '':'') input in
      if length components \<noteq> 3 then Inl (malformedHashSetError fieldIndex hashIndex)
      else
        let rawName = fst (hashTrimWSP (components ! 0)); rawHeaderHash = components ! 1;
            rawBodyHash = trimTrailingWSP (components ! 2) in
        case ParseTextstring rawName of
          None \<Rightarrow> Inl (malformedHashSetError fieldIndex hashIndex)
        | Some name \<Rightarrow>
            if \<not> base64Edges rawHeaderHash \<or> \<not> base64Edges rawBodyHash then Inl (malformedHashSetError fieldIndex hashIndex)
            else if \<not> validUnknownHashComponent rawHeaderHash \<or> \<not> validUnknownHashComponent rawBodyHash
            then Inl (malformedHashSetError fieldIndex hashIndex)
            else
              let algorithm = supportedHashAlgorithmForName name in
              res_bind (parseHashBase64 rawHeaderHash tagLimits fieldIndex hashIndex) (\<lambda>headerHash.
              res_bind (parseHashBase64 rawBodyHash tagLimits fieldIndex hashIndex) (\<lambda>bodyHash.
                let hashSet = \<lparr>hs_name = name, hs_known = (algorithm \<noteq> None), hs_headerHash = headerHash, hs_bodyHash = bodyHash,
                      hs_headerHashValue = rawHeaderHash, hs_bodyHashValue = rawBodyHash\<rparr> in
                case algorithm of
                  None \<Rightarrow> Inr hashSet
                | Some digestBytes \<Rightarrow>
                    if Base64String_DecodedLen headerHash \<noteq> digestBytes
                    then Inl (invalidHashLengthError fieldIndex hashIndex digestBytes (Base64String_DecodedLen headerHash))
                    else if Base64String_DecodedLen bodyHash \<noteq> digestBytes
                    then Inl (invalidHashLengthError fieldIndex hashIndex digestBytes (Base64String_DecodedLen bodyHash))
                    else Inr hashSet)))"

fun hashSetsLoop :: "Limits \<Rightarrow> int \<Rightarrow> nat \<Rightarrow> bytes list \<Rightarrow> bytes list \<Rightarrow> (InstanceError, HashSet list) result" where
  "hashSetsLoop tagLimits fieldIndex i seen [] = Inr []"
| "hashSetsLoop tagLimits fieldIndex i seen (part # parts) =
     res_bind (parseHashSet part tagLimits fieldIndex (int i)) (\<lambda>hashSet.
       if hs_name hashSet \<in> set seen
       then Inl (newInstanceError InstDuplicateHashName (hashLocation fieldIndex (int i))
                  (noInstanceDetails\<lparr>id_Class := InstClassDuplicate, id_TagName := ''h''\<rparr>) None)
       else res_bind (hashSetsLoop tagLimits fieldIndex (Suc i) (hs_name hashSet # seen) parts) (\<lambda>hashes. Inr (hashSet # hashes)))"

definition parseHashSets :: "bytes \<Rightarrow> InstanceLimits \<Rightarrow> int \<Rightarrow> (InstanceError, HashSet list \<times> Layout) result" where
  "parseHashSets v limits fieldIndex =
     (if length v = 0 then Inl (malformedHashSetError fieldIndex 0)
      else if CountSets v > inl_MaxHashSets limits
      then Inl (newInstanceError InstLimitExceeded (fieldLocation fieldIndex)
             (noInstanceDetails\<lparr>id_Class := InstClassLimit, id_TagName := ''h'', id_LimitName := ''max_hash_sets'',
               id_Limit := inl_MaxHashSets limits, id_Count := CountSets v\<rparr>) None)
      else case Split v of
        None \<Rightarrow> Inl (malformedHashSetError fieldIndex 0)
      | Some (parts, layout) \<Rightarrow>
          res_bind (hashSetsLoop (inl_TagLimits limits) fieldIndex 0 [] parts) (\<lambda>hashes. Inr (hashes, layout)))"

section \<open>Fields (\<open>parser.go\<close>)\<close>

definition knownMessageInstanceTags :: KnownTags where
  "knownMessageInstanceTags = (case NewKnownTags [''m'', ''h'', ''r''] of Inl _ \<Rightarrow> \<lparr>kt_exact = []\<rparr> | Inr known \<Rightarrow> known)"

definition missingTagError :: "int \<Rightarrow> string \<Rightarrow> InstanceError" where
  "missingTagError fieldIndex tagName' =
     newInstanceError InstMissingRequiredTag (fieldLocation fieldIndex)
       (noInstanceDetails\<lparr>id_Class := InstClassMissing, id_TagName := tagName'\<rparr>) None"

definition invalidNumberError :: "int \<Rightarrow> InstanceError" where
  "invalidNumberError fieldIndex =
     newInstanceError InstInvalidNumber (fieldLocation fieldIndex) (noInstanceDetails\<lparr>id_TagName := ''m''\<rparr>) None"

text \<open>\<open>strconv.ParseUint\<close> in base ten and 64 bits.\<close>

definition ParseUint64 :: "bytes \<Rightarrow> nat option" where
  "ParseUint64 s = (if s = [] \<or> \<not> list_all isDigit s then None else if dec_value s \<ge> 2 ^ 64 then None else Some (dec_value s))"

definition parseInstanceNumber :: "bytes \<Rightarrow> int \<Rightarrow> (InstanceError, nat) result" where
  "parseInstanceNumber v fieldIndex =
     (if v = [] then Inl (invalidNumberError fieldIndex)
      else if \<not> list_all isDigit v then Inl (invalidNumberError fieldIndex)
      else case ParseUint64 v of
        None \<Rightarrow> Inl (invalidNumberError fieldIndex)
      | Some number \<Rightarrow> if number = 0 then Inl (invalidNumberError fieldIndex) else Inr number)"

definition lift_instance :: "(InstanceError, 'a) result \<Rightarrow> (InstanceFailure, 'a) result" where
  "lift_instance r = (case r of Inl e \<Rightarrow> Inl (InstanceFailed e) | Inr v \<Rightarrow> Inr v)"

record InstanceParser =
  ip_limits :: InstanceLimits

definition NewInstanceParser :: "InstanceLimits \<Rightarrow> (InstanceError, InstanceParser) result" where
  "NewInstanceParser limits =
     (let limits' = InstanceLimits_normalize limits in
      case InstanceLimits_Validate limits' of Some e \<Rightarrow> Inl e | None \<Rightarrow> Inr \<lparr>ip_limits = limits'\<rparr>)"

definition ParseField :: "InstanceParser \<Rightarrow> HeaderField \<Rightarrow> (InstanceFailure, MessageInstance) result" where
  "ParseField p field =
     (let limits = ip_limits p; fieldIndex = int (hf_index field) in
      if hf_nameLower field \<noteq> HeaderName
      then Inl (InstanceFailed (newInstanceError InstWrongHeaderField (fieldLocation fieldIndex) noInstanceDetails None))
      else case ScanHeader (hf_unfoldedValue field) knownMessageInstanceTags (inl_TagLimits limits) of
        Inl e \<Rightarrow> Inl (ScanFailed e)
      | Inr tagField \<Rightarrow>
        (case TagField_Get tagField ''m'' of
          None \<Rightarrow> Inl (InstanceFailed (missingTagError fieldIndex ''m''))
        | Some numberTag \<Rightarrow>
          (case TagField_Get tagField ''h'' of
            None \<Rightarrow> Inl (InstanceFailed (missingTagError fieldIndex ''h''))
          | Some hashTag \<Rightarrow>
            res_bind (lift_instance (parseInstanceNumber (tag_value numberTag) fieldIndex)) (\<lambda>number.
            res_bind (lift_instance (parseHashSets (tag_value hashTag) limits fieldIndex)) (\<lambda>(hashes, hashLayout).
              let instance' = \<lparr>mi_number = number, mi_hashes = hashes, mi_hashLayout = hashLayout, mi_recipe = zeroBase64,
                    mi_hasRecipe = False, mi_headerIndex = fieldIndex\<rparr> in
              case TagField_Get tagField ''r'' of
                None \<Rightarrow> Inr instance'
              | Some recipeTag \<Rightarrow>
                  (case ParseBase64String (tag_value recipeTag) (inl_TagLimits limits) of
                     Inl e \<Rightarrow> Inl (InstanceFailed (newInstanceError InstInvalidRecipeBase64 (fieldLocation fieldIndex)
                               (noInstanceDetails\<lparr>id_TagName := ''r''\<rparr>) (Some e)))
                   | Inr recipe \<Rightarrow> Inr (instance'\<lparr>mi_recipe := recipe, mi_hasRecipe := True\<rparr>)))))))"

definition Instance_Parse :: "HeaderField \<Rightarrow> (InstanceFailure, MessageInstance) result" where
  "Instance_Parse field =
     res_bind (lift_instance (NewInstanceParser \<lparr>inl_TagLimits = \<lparr>MaxFieldValueBytes = 0, MaxTags = 0, MaxTagNameBytes = 0,
         MaxTagValueBytes = 0, MaxBase64DecodedBytes = 0\<rparr>, inl_MaxHashSets = 0, inl_MaxInstances = 0\<rparr>))
       (\<lambda>p. ParseField p field)"

end
