(* ===== verification/Instance_Syntax.thy ===== *)
theory Instance_Syntax
  imports Instance_Parser
begin

text \<open>
  The syntax of Message-Instance values, and that the parser accepts exactly it. The edge and control
  checks of the code are implied by the Base64 grammar: they only choose the error.
\<close>

section \<open>Hash sets\<close>

definition textstring :: "bytes \<Rightarrow> bool" where
  "textstring s \<longleftrightarrow> s \<noteq> [] \<and> (\<forall>b \<in> set s. isASCIILetter b \<or> isASCIIDigit b \<or> b = CHR ''-'' \<or> b = CHR ''_'')"

definition hash_set :: "Limits \<Rightarrow> bytes \<Rightarrow> HashSet \<Rightarrow> bool" where
  "hash_set limits s h \<longleftrightarrow>
     (\<exists>a b c. s = a @ hs_name h @ b @ CHR '':'' # hs_headerHashValue h @ CHR '':'' # hs_bodyHashValue h @ c
        \<and> wsp a \<and> wsp b \<and> wsp c)
     \<and> textstring (hs_name h) \<and> hs_known h = (hs_name h = ''sha256'' \<or> hs_name h = ''sha512'')
     \<and> ParseBase64String (hs_headerHashValue h) limits = Inr (hs_headerHash h)
     \<and> ParseBase64String (hs_bodyHashValue h) limits = Inr (hs_bodyHash h)
     \<and> (hs_name h = ''sha256'' \<longrightarrow> length (bs_decoded (hs_headerHash h)) = 32 \<and> length (bs_decoded (hs_bodyHash h)) = 32)
     \<and> (hs_name h = ''sha512'' \<longrightarrow> length (bs_decoded (hs_headerHash h)) = 64 \<and> length (bs_decoded (hs_bodyHash h)) = 64)"

lemma base64_chars:
  assumes "ParseBase64String x limits = Inr v"
  shows "trimmed x" "x \<noteq> []" "\<forall>b \<in> set x. isWSP b \<or> dec6 b \<noteq> None \<or> b = PAD"
proof -
  have v: "base64_value (Limits_normalize limits) False x v"
    using assms by (simp add: ParseBase64String_def parseBase64String_Inr_iff)
  then show "trimmed x" by (simp add: base64_value_def)
  have s: "stripBase64FWS x = EncodeToString (bs_decoded v)" "bs_decoded v \<noteq> []"
    using v by (simp_all add: base64_value_def base64_text_def)
  show "x \<noteq> []"
  proof
    assume "x = []"
    then have "EncodeToString (bs_decoded v) = []" using s(1) by (simp add: stripBase64FWS_def)
    with s(2) show False by simp
  qed
  obtain body where body: "EncodeToString (bs_decoded v) = body @ replicate (pads (length (bs_decoded v))) PAD"
      "\<forall>b \<in> set body. dec6 b \<noteq> None" by (rule EncodeToString_shape)
  show "\<forall>b \<in> set x. isWSP b \<or> dec6 b \<noteq> None \<or> b = PAD"
  proof
    fix b assume "b \<in> set x"
    then have "isWSP b \<or> b \<in> set (stripBase64FWS x)" by (auto simp: stripBase64FWS_def)
    then show "isWSP b \<or> dec6 b \<noteq> None \<or> b = PAD" using s(1) body by auto
  qed
qed

lemma base64_char_octets:
  assumes "isWSP b \<or> dec6 b \<noteq> None \<or> b = PAD"
  shows "b \<noteq> CHR '':''" "\<not> (octet b < 32 \<and> \<not> isWSP b \<or> octet b = 127)" "\<not> isSeparator b" "b \<noteq> CHR '';''"
proof -
  have "b = PAD \<Longrightarrow> octet b = 61" "isWSP b \<Longrightarrow> octet b = 32 \<or> octet b = 9" by (auto simp: isWSP_def octet_def)
  moreover have "octet (CHR '':'') = 58" "octet (CHR '';'') = 59" "octet (CHR '','') = 44" "octet (CHR ''|'') = 124" by (simp_all add: octet_def)
  moreover have "dec6 b \<noteq> None \<Longrightarrow> octet b = 43 \<or> 47 \<le> octet b \<and> octet b \<le> 57 \<or> 65 \<le> octet b \<and> octet b \<le> 90 \<or> 97 \<le> octet b \<and> octet b \<le> 122"
    by (auto simp: dec6_def Let_def split: if_splits)
  ultimately have "octet b \<noteq> 58" "octet b \<noteq> 59" "octet b \<noteq> 44" "octet b \<noteq> 124" "\<not> (octet b < 32 \<and> \<not> isWSP b \<or> octet b = 127)"
    using assms by auto
  then show "b \<noteq> CHR '':''" "\<not> (octet b < 32 \<and> \<not> isWSP b \<or> octet b = 127)" "\<not> isSeparator b" "b \<noteq> CHR '';''"
    by (auto simp: isSeparator_def AllSeparator_def AnySeparator_def octet_def)
qed

lemma base64Edges_eq: "base64Edges s \<longleftrightarrow> s \<noteq> [] \<and> trimmed s"
  by (auto simp: base64Edges_def trimmed_def hd_conv_nth last_conv_nth)

lemma base64_checks:
  "ParseBase64String x limits = Inr v \<Longrightarrow> base64Edges x \<and> validUnknownHashComponent x \<and> CHR '':'' \<notin> set x"
proof -
  assume v: "ParseBase64String x limits = Inr v"
  have "b \<noteq> CHR '':'' \<and> \<not> (octet b < 32 \<and> \<not> isWSP b \<or> octet b = 127)" if "b \<in> set x" for b
    using base64_char_octets [of b] base64_chars(3) [OF v] that by blast
  then show ?thesis using base64_chars(1,2) [OF v] by (auto simp: base64Edges_eq validUnknownHashComponent_def list_all_iff)
qed

lemma hashTrimWSP_eq: "hashTrimWSP s = (trim s, length (takeWhile isWSP s))"
  using trim_slice [of s] by (simp add: hashTrimWSP_def Let_def)

lemma trimTrailingWSP_eq: "trimTrailingWSP s = rev (dropWhile isWSP (rev s))"
proof -
  have "s = rev (dropWhile isWSP (rev s)) @ rev (takeWhile isWSP (rev s))"
    by (metis rev_append rev_rev_ident takeWhile_dropWhile_id)
  then have "take (length (rev (dropWhile isWSP (rev s)))) s = rev (dropWhile isWSP (rev s))"
    by (metis append_eq_conv_conj)
  moreover have "trimEndLoop isWSP s 0 (length s) = length (rev (dropWhile isWSP (rev s)))"
    using trimEndLoop_eq [of isWSP "[]" s "[]"] by simp
  ultimately show ?thesis by (simp add: trimTrailingWSP_def)
qed

lemma trimTrailingWSP_decomp: "\<exists>c. s = trimTrailingWSP s @ c \<and> wsp c"
  unfolding trimTrailingWSP_eq by (intro exI [of _ "rev (takeWhile isWSP (rev s))"])
    (metis rev_append rev_rev_ident takeWhile_dropWhile_id wsp_simps(4) wsp_takeWhile)

lemma trimTrailingWSP_unique: "wsp c \<Longrightarrow> trimmed s \<Longrightarrow> s \<noteq> [] \<Longrightarrow> trimTrailingWSP (s @ c) = s"
  unfolding trimTrailingWSP_eq
  using dropWhile_wsp [of "rev c" "rev s"] by (cases s rule: rev_cases) (auto simp: trimmed_def)

lemma ParseTextstring_eq: "ParseTextstring s = (if textstring s then Some s else None)"
  by (auto simp: ParseTextstring_def textstring_def)

lemma textstring_facts: "textstring s \<Longrightarrow> trimmed s \<and> CHR '':'' \<notin> set s \<and> s \<noteq> []"
proof -
  assume s: "textstring s"
  have "\<not> isWSP b \<and> b \<noteq> CHR '':''" if "b \<in> set s" for b
    using s that by (auto simp: textstring_def isASCIILetter_def isASCIIDigit_def isWSP_def octet_def)
  with s show ?thesis using hd_in_set last_in_set by (auto simp: textstring_def trimmed_def)
qed

lemma SplitByte_three:
  "SplitByte sep s = [a, b, c] \<longleftrightarrow> s = a @ sep # b @ sep # c \<and> sep \<notin> set a \<and> sep \<notin> set b \<and> sep \<notin> set c"
proof
  assume l: "SplitByte sep s = [a, b, c]"
  have join: "s = hd (SplitByte sep s) @ concat (map ((#) sep) (tl (SplitByte sep s)))"
  proof (induction s)
    case (Cons d s)
    obtain l ls where "SplitByte sep s = l # ls" by (cases "SplitByte sep s") auto
    with Cons show ?case by auto
  qed simp
  have "sep \<notin> set x" if "x \<in> {a, b, c}" for x using SplitByte_notin [of x sep s] that l by auto
  with join l show "s = a @ sep # b @ sep # c \<and> sep \<notin> set a \<and> sep \<notin> set b \<and> sep \<notin> set c" by auto
qed (auto simp: SplitByte_sep SplitByte_plain)

lemma length_three: "length xs = 3 \<longleftrightarrow> (\<exists>a b c. xs = [a, b, c])"
  by (auto simp: numeral_3_eq_3 length_Suc_conv)

lemma parseHashSet_Inr_iff: "parseHashSet s limits i j = Inr h \<longleftrightarrow> hash_set limits s h"
proof
  assume p: "parseHashSet s limits i j = Inr h"
  then obtain x y z where l: "SplitByte (CHR '':'') s = [x, y, z]"
    by (auto simp: parseHashSet_def Let_def length_three split: if_splits)
  define w where "w = trimTrailingWSP z"
  have "textstring (trim x)" and h: "hs_name h = trim x" "hs_headerHashValue h = y" "hs_bodyHashValue h = w"
    "hs_known h = (supportedHashAlgorithmForName (trim x) \<noteq> None)"
    "ParseBase64String y limits = Inr (hs_headerHash h)" "ParseBase64String w limits = Inr (hs_bodyHash h)"
    "case supportedHashAlgorithmForName (trim x) of None \<Rightarrow> True
     | Some n \<Rightarrow> length (bs_decoded (hs_headerHash h)) = n \<and> length (bs_decoded (hs_bodyHash h)) = n"
    using p unfolding parseHashSet_def Let_def l
    by (auto simp: hashTrimWSP_eq ParseTextstring_eq parseHashBase64_def w_def [symmetric] Base64String_DecodedLen_def
        res_bind_def split: if_splits sum.splits option.splits)
  moreover obtain a b where "x = a @ trim x @ b" "wsp a" "wsp b" using trim_decomp by blast
  moreover obtain c where "z = w @ c" "wsp c" using trimTrailingWSP_decomp w_def by blast
  moreover have "s = x @ CHR '':'' # y @ CHR '':'' # z" using l unfolding SplitByte_three by blast
  ultimately have "s = a @ hs_name h @ b @ CHR '':'' # hs_headerHashValue h @ CHR '':'' # hs_bodyHashValue h @ c" by simp
  then have "\<exists>a b c. s = a @ hs_name h @ b @ CHR '':'' # hs_headerHashValue h @ CHR '':'' # hs_bodyHashValue h @ c
      \<and> wsp a \<and> wsp b \<and> wsp c" using \<open>wsp a\<close> \<open>wsp b\<close> \<open>wsp c\<close> by blast
  moreover have "length (bs_decoded (hs_headerHash h)) = 32 \<and> length (bs_decoded (hs_bodyHash h)) = 32" if "hs_name h = ''sha256''"
    using h(7) unfolding h(1) [symmetric] that by (simp add: supportedHashAlgorithmForName_def sha256HashBytes_def)
  moreover have "length (bs_decoded (hs_headerHash h)) = 64 \<and> length (bs_decoded (hs_bodyHash h)) = 64" if "hs_name h = ''sha512''"
    using h(7) unfolding h(1) [symmetric] that by (simp add: supportedHashAlgorithmForName_def sha512HashBytes_def)
  moreover have "hs_known h = (hs_name h = ''sha256'' \<or> hs_name h = ''sha512'')"
    using h(1,4) by (simp add: supportedHashAlgorithmForName_def)
  ultimately show "hash_set limits s h" using \<open>textstring (trim x)\<close> h unfolding hash_set_def by simp
next
  assume hs: "hash_set limits s h"
  then obtain a b c where s: "s = a @ hs_name h @ b @ CHR '':'' # hs_headerHashValue h @ CHR '':'' # hs_bodyHashValue h @ c"
      and w: "wsp a" "wsp b" "wsp c" unfolding hash_set_def by blast
  have n: "textstring (hs_name h)" and p: "ParseBase64String (hs_headerHashValue h) limits = Inr (hs_headerHash h)"
    "ParseBase64String (hs_bodyHashValue h) limits = Inr (hs_bodyHash h)" using hs by (simp_all add: hash_set_def)
  have "\<not> isWSP (CHR '':'')" by (simp add: isWSP_def)
  then have colon: "CHR '':'' \<notin> set x" if "wsp x" for x using that unfolding wsp_def by blast
  have l: "SplitByte (CHR '':'') s = [a @ hs_name h @ b, hs_headerHashValue h, hs_bodyHashValue h @ c]"
  proof -
    have "CHR '':'' \<notin> set (a @ hs_name h @ b)" "CHR '':'' \<notin> set (hs_bodyHashValue h @ c)"
      using colon [OF w(1)] colon [OF w(2)] colon [OF w(3)] textstring_facts [OF n] base64_checks [OF p(2)]
      unfolding set_append Un_iff by blast+
    then show ?thesis unfolding SplitByte_three using s base64_checks [OF p(1)] by (simp only: append_assoc append_Cons simp_thms)
  qed
  have t: "trim (a @ hs_name h @ b) = hs_name h" "trimTrailingWSP (hs_bodyHashValue h @ c) = hs_bodyHashValue h"
    using trim_unique [OF w(1,2)] textstring_facts [OF n] trimTrailingWSP_unique [OF w(3)] base64_chars(1,2) [OF p(2)] by simp_all
  show "parseHashSet s limits i j = Inr h"
    unfolding parseHashSet_def Let_def l
    using hs n t p base64_checks [OF p(1)] base64_checks [OF p(2)]
    by (auto simp: hashTrimWSP_eq ParseTextstring_eq parseHashBase64_def hash_set_def supportedHashAlgorithmForName_def
        Base64String_DecodedLen_def sha256HashBytes_def sha512HashBytes_def)
qed

lemma hashSetsLoop_Inr_iff:
  "hashSetsLoop limits f i seen parts = Inr hs \<longleftrightarrow>
     list_all2 (hash_set limits) parts hs \<and> distinct (map hs_name hs) \<and> set (map hs_name hs) \<inter> set seen = {}"
proof (induction parts arbitrary: i seen hs)
  case (Cons part parts)
  have "hashSetsLoop limits f i seen (part # parts) = Inr hs \<longleftrightarrow> (\<exists>h hs'. hs = h # hs' \<and> parseHashSet part limits f (int i) = Inr h
      \<and> hs_name h \<notin> set seen \<and> hashSetsLoop limits f (Suc i) (hs_name h # seen) parts = Inr hs')"
    by (auto simp: res_bind_def split: sum.splits if_splits)
  then show ?case unfolding Cons.IH parseHashSet_Inr_iff by (cases hs) auto
qed auto

lemma CountSets_Split: "Split v = Some (parts, l) \<Longrightarrow> v \<noteq> [] \<and> CountSets v = int (length parts)"
proof -
  assume s: "Split v = Some (parts, l)"
  then have "v \<noteq> []" by (auto simp: Split_def)
  moreover have "parts = concat (groups_of v)" using s by (simp add: Split_eq split: if_splits)
  ultimately show ?thesis using countSeparators_groups [of v] by (simp add: CountSets_def)
qed

lemma parseHashSets_Inr_iff:
  "parseHashSets v limits f = Inr (hs, l) \<longleftrightarrow>
     (\<exists>parts. Split v = Some (parts, l) \<and> int (length parts) \<le> inl_MaxHashSets limits
        \<and> list_all2 (hash_set (inl_TagLimits limits)) parts hs) \<and> distinct (map hs_name hs)"
proof (cases "Split v")
  case None
  then show ?thesis by (simp add: parseHashSets_def)
next
  case (Some pl)
  obtain parts l' where pl: "pl = (parts, l')" by fastforce
  have c: "v \<noteq> []" "CountSets v = int (length parts)" using CountSets_Split Some pl by blast+
  have "parseHashSets v limits f = Inr (hs, l) \<longleftrightarrow> int (length parts) \<le> inl_MaxHashSets limits
      \<and> hashSetsLoop (inl_TagLimits limits) f 0 [] parts = Inr hs \<and> l = l'"
    using Some c by (auto simp: pl parseHashSets_def res_bind_def split: sum.splits)
  then show ?thesis unfolding hashSetsLoop_Inr_iff using Some pl by auto
qed

section \<open>Fields\<close>

definition positive_number :: "bytes \<Rightarrow> nat \<Rightarrow> bool" where
  "positive_number s n \<longleftrightarrow> s \<noteq> [] \<and> list_all isDigit s \<and> n = dec_value s \<and> 0 < n \<and> n < 2 ^ 64"

lemma parseInstanceNumber_Inr_iff: "parseInstanceNumber s i = Inr n \<longleftrightarrow> positive_number s n"
  by (auto simp: parseInstanceNumber_def ParseUint64_def positive_number_def)

definition hash_value :: "InstanceLimits \<Rightarrow> bytes \<Rightarrow> HashSet list \<Rightarrow> Layout \<Rightarrow> bool" where
  "hash_value limits v hs l \<longleftrightarrow> (\<exists>parts. Split v = Some (parts, l) \<and> int (length parts) \<le> inl_MaxHashSets limits
     \<and> list_all2 (hash_set (inl_TagLimits limits)) parts hs) \<and> distinct (map hs_name hs)"

definition has_tag :: "TagField \<Rightarrow> bytes \<Rightarrow> bytes \<Rightarrow> bool" where
  "has_tag f n v \<longleftrightarrow> (\<exists>t \<in> set (fd_tags f). tag_name t = n \<and> tag_value t = v)"

definition instance_of_tags :: "InstanceLimits \<Rightarrow> TagField \<Rightarrow> MessageInstance \<Rightarrow> bool" where
  "instance_of_tags limits f m \<longleftrightarrow>
     (\<exists>v. has_tag f ''m'' v \<and> positive_number v (mi_number m))
     \<and> (\<exists>v. has_tag f ''h'' v \<and> hash_value limits v (mi_hashes m) (mi_hashLayout m))
     \<and> (if mi_hasRecipe m then \<exists>v. has_tag f ''r'' v \<and> ParseBase64String v (inl_TagLimits limits) = Inr (mi_recipe m)
        else (\<nexists>v. has_tag f ''r'' v) \<and> mi_recipe m = zeroBase64)"

lemma knownMessageInstanceTags_eq: "knownMessageInstanceTags = \<lparr>kt_exact = [''m'', ''h'', ''r'']\<rparr>"
  by code_simp

lemma lift_instance_simps [simp]: "lift_instance (Inr v) = Inr v" "lift_instance (Inl e) = Inl (InstanceFailed e)"
  "lift_instance r = Inr v \<longleftrightarrow> r = Inr v" "lift_instance r = Inl x \<longleftrightarrow> (\<exists>e. r = Inl e \<and> x = InstanceFailed e)"
  by (auto simp: lift_instance_def split: sum.splits)

lemma TagField_Get_has_tag:
  assumes "ScanHeader v known limits = Inr f"
  shows "TagField_Get f n = None \<longleftrightarrow> (\<nexists>w. has_tag f n w)" "(\<exists>t. TagField_Get f n = Some t \<and> tag_value t = w) \<longleftrightarrow> has_tag f n w"
proof -
  note get = TagField_Get_iff [OF assms [unfolded ScanHeader_def], of n]
  show "(\<exists>t. TagField_Get f n = Some t \<and> tag_value t = w) \<longleftrightarrow> has_tag f n w" unfolding get has_tag_def by blast
  have "TagField_Get f n = None \<longleftrightarrow> (\<nexists>t. TagField_Get f n = Some t)" by simp
  then show "TagField_Get f n = None \<longleftrightarrow> (\<nexists>w. has_tag f n w)" unfolding get has_tag_def by blast
qed

theorem ParseField_Inr_iff:
  "ParseField p field = Inr m \<longleftrightarrow> hf_nameLower field = HeaderName \<and> mi_headerIndex m = int (hf_index field)
     \<and> (\<exists>f. ScanHeader (hf_unfoldedValue field) knownMessageInstanceTags (inl_TagLimits (ip_limits p)) = Inr f
          \<and> instance_of_tags (ip_limits p) f m)"
proof (cases "ScanHeader (hf_unfoldedValue field) knownMessageInstanceTags (inl_TagLimits (ip_limits p))")
  case (Inl e)
  then show ?thesis by (simp add: ParseField_def Let_def)
next
  case (Inr f)
  note tag = TagField_Get_has_tag [OF Inr]
  let ?m = "\<lambda>n hs l. \<lparr>mi_number = n, mi_hashes = hs, mi_hashLayout = l, mi_recipe = zeroBase64, mi_hasRecipe = False,
      mi_headerIndex = int (hf_index field)\<rparr>"
  have "ParseField p field = Inr m \<longleftrightarrow> hf_nameLower field = HeaderName \<and>
    (\<exists>mt ht n hs l. TagField_Get f ''m'' = Some mt \<and> TagField_Get f ''h'' = Some ht
       \<and> positive_number (tag_value mt) n \<and> hash_value (ip_limits p) (tag_value ht) hs l
       \<and> (case TagField_Get f ''r'' of None \<Rightarrow> m = ?m n hs l
          | Some rt \<Rightarrow> \<exists>r. ParseBase64String (tag_value rt) (inl_TagLimits (ip_limits p)) = Inr r
              \<and> m = (?m n hs l)\<lparr>mi_recipe := r, mi_hasRecipe := True\<rparr>))"
    unfolding hash_value_def parseHashSets_Inr_iff [where f = "int (hf_index field)", symmetric]
      parseInstanceNumber_Inr_iff [where i = "int (hf_index field)", symmetric]
    by (auto simp: ParseField_def Inr Let_def res_bind_def split: option.splits sum.splits)
  also have "\<dots> \<longleftrightarrow> hf_nameLower field = HeaderName \<and> mi_headerIndex m = int (hf_index field) \<and> instance_of_tags (ip_limits p) f m"
    unfolding instance_of_tags_def tag(2) [symmetric] tag(1) [symmetric]
    by (cases "TagField_Get f ''r''"; cases m) auto
  finally show ?thesis using Inr by auto
qed

end
