(* ===== verification/Instance_Render.thy ===== *)
theory Instance_Render
  imports Instance_Syntax
begin

text \<open>
  Rendering of generated Message-Instance fields (\<open>render.go\<close>): construction, the emitter that accounts
  for field and line sizes, preflight and rendering. The emitter's calls are a run over segments; it
  succeeds exactly when the segments fit, and preflight computes exactly the size of the rendering.
\<close>

section \<open>Limits and construction\<close>

definition hardMaxRenderedFieldBytes :: int where "hardMaxRenderedFieldBytes = 64 * 1024"
definition hardMaxRenderedLineBytes :: int where "hardMaxRenderedLineBytes = 998"
definition hardMaxSigningRecipeBytes :: int where "hardMaxSigningRecipeBytes = 45 * 1024"

record SigningRequest =
  sr_Number :: nat
  sr_HeaderHash :: bytes
  sr_BodyHash :: bytes
  sr_Recipe :: bytes
  sr_RecipePresent :: bool

record RenderLimits =
  rl_MaxFieldBytes :: int
  rl_MaxLineBytes :: int
  rl_MaxRecipeBytes :: int

definition DefaultRenderLimits :: RenderLimits where
  "DefaultRenderLimits = \<lparr>rl_MaxFieldBytes = hardMaxRenderedFieldBytes, rl_MaxLineBytes = hardMaxRenderedLineBytes,
     rl_MaxRecipeBytes = hardMaxSigningRecipeBytes\<rparr>"

definition renderOptionsError :: "string \<Rightarrow> int \<Rightarrow> InstanceError" where
  "renderOptionsError name actual =
     newInstanceError InstInvalidOptions (fieldLocation 0) (noInstanceDetails\<lparr>id_LimitName := name, id_Count := actual\<rparr>) None"

definition renderLimitError :: "string \<Rightarrow> int \<Rightarrow> int \<Rightarrow> InstanceError" where
  "renderLimitError name limit actual =
     newInstanceError InstLimitExceeded (fieldLocation 0)
       (noInstanceDetails\<lparr>id_LimitName := name, id_Limit := limit, id_Count := actual\<rparr>) None"

definition RenderLimits_Validate :: "RenderLimits \<Rightarrow> InstanceError option" where
  "RenderLimits_Validate l =
     (if rl_MaxFieldBytes l \<le> 0 \<or> rl_MaxFieldBytes l > hardMaxRenderedFieldBytes
      then Some (renderOptionsError ''max_field_bytes'' (rl_MaxFieldBytes l))
      else if rl_MaxLineBytes l \<le> 0 \<or> rl_MaxLineBytes l > hardMaxRenderedLineBytes
      then Some (renderOptionsError ''max_line_bytes'' (rl_MaxLineBytes l))
      else if rl_MaxRecipeBytes l \<le> 0 \<or> rl_MaxRecipeBytes l > hardMaxSigningRecipeBytes
      then Some (renderOptionsError ''max_recipe_bytes'' (rl_MaxRecipeBytes l))
      else None)"

definition RenderLimits_normalized :: "RenderLimits \<Rightarrow> (InstanceError, RenderLimits) result" where
  "RenderLimits_normalized l =
     (let l1 = (if rl_MaxFieldBytes l = 0 then l\<lparr>rl_MaxFieldBytes := rl_MaxFieldBytes DefaultRenderLimits\<rparr> else l);
          l2 = (if rl_MaxLineBytes l1 = 0 then l1\<lparr>rl_MaxLineBytes := rl_MaxLineBytes DefaultRenderLimits\<rparr> else l1);
          l3 = (if rl_MaxRecipeBytes l2 = 0 then l2\<lparr>rl_MaxRecipeBytes := rl_MaxRecipeBytes DefaultRenderLimits\<rparr> else l2)
      in case RenderLimits_Validate l3 of Some e \<Rightarrow> Inl e | None \<Rightarrow> Inr l3)"

definition constructionError :: InstanceError where
  "constructionError = newInstanceError InstInvalidConstruction (fieldLocation 0) noInstanceDetails None"

definition renderInvariantError :: InstanceError where
  "renderInvariantError = newInstanceError InstRenderInvariant (fieldLocation 0) noInstanceDetails None"

definition parseGeneratedBase64 :: "bytes \<Rightarrow> (InstanceError, Base64String) result" where
  "parseGeneratedBase64 decoded =
     (case ParseBase64String (EncodeBase64 decoded) DefaultLimits of
        Inl _ \<Rightarrow> Inl renderInvariantError
      | Inr parsed \<Rightarrow> Inr parsed)"

definition NewForSigning :: "SigningRequest \<Rightarrow> (InstanceError, MessageInstance) result" where
  "NewForSigning request =
     (if sr_Number request = 0 \<or> length (sr_HeaderHash request) \<noteq> sha256HashBytes \<or> length (sr_BodyHash request) \<noteq> sha256HashBytes
      then Inl constructionError
      else if \<not> sr_RecipePresent request \<and> length (sr_Recipe request) \<noteq> 0 \<or> sr_RecipePresent request \<and> length (sr_Recipe request) = 0
      then Inl (newInstanceError InstInvalidConstruction (fieldLocation 0) (noInstanceDetails\<lparr>id_TagName := ''r''\<rparr>) None)
      else if int (length (sr_Recipe request)) > hardMaxSigningRecipeBytes
      then Inl (renderLimitError ''max_recipe_bytes'' hardMaxSigningRecipeBytes (int (length (sr_Recipe request))))
      else
        res_bind (parseGeneratedBase64 (sr_HeaderHash request)) (\<lambda>headerHash.
        res_bind (parseGeneratedBase64 (sr_BodyHash request)) (\<lambda>bodyHash.
          let hashSet = \<lparr>hs_name = ''sha256'', hs_known = True, hs_headerHash = headerHash, hs_bodyHash = bodyHash,
                hs_headerHashValue = bs_encoded headerHash, hs_bodyHashValue = bs_encoded bodyHash\<rparr>;
              layout = (case SingleGroup 1 of None \<Rightarrow> zeroLayout | Some l \<Rightarrow> l);
              model = \<lparr>mi_number = sr_Number request, mi_hashes = [hashSet], mi_hashLayout = layout, mi_recipe = zeroBase64,
                mi_hasRecipe = False, mi_headerIndex = 0\<rparr>
          in if sr_RecipePresent request
             then res_bind (parseGeneratedBase64 (sr_Recipe request)) (\<lambda>recipe.
                    Inr (model\<lparr>mi_recipe := recipe, mi_hasRecipe := True\<rparr>))
             else Inr model)))"

section \<open>The emitter\<close>

record instanceEmitter =
  em_limits :: RenderLimits
  em_builder :: "bytes option"
  em_size :: int
  em_line :: int
  em_err :: "InstanceError option"

definition textCount :: "int \<Rightarrow> instanceEmitter \<Rightarrow> instanceEmitter" where
  "textCount n e =
     (if em_err e \<noteq> None then e
      else let fieldMax = rl_MaxFieldBytes (em_limits e); lineMax = rl_MaxLineBytes (em_limits e) in
        if n < 0 \<or> n > fieldMax - em_size e then e\<lparr>em_err := Some (renderLimitError ''max_field_bytes'' fieldMax (fieldMax + 1))\<rparr>
        else if n > lineMax - em_line e then e\<lparr>em_err := Some (renderLimitError ''max_line_bytes'' lineMax (lineMax + 1))\<rparr>
        else e\<lparr>em_size := em_size e + n, em_line := em_line e + n\<rparr>)"

definition emitText :: "bytes \<Rightarrow> instanceEmitter \<Rightarrow> instanceEmitter" where
  "emitText v e =
     (let e1 = textCount (int (length v)) e in
      if em_err e1 = None \<and> em_builder e1 \<noteq> None then e1\<lparr>em_builder := map_option (\<lambda>b. b @ v) (em_builder e1)\<rparr> else e1)"

definition emitCRLF :: "instanceEmitter \<Rightarrow> instanceEmitter" where
  "emitCRLF e =
     (if em_err e \<noteq> None then e
      else let fieldMax = rl_MaxFieldBytes (em_limits e) in
        if 2 > fieldMax - em_size e then e\<lparr>em_err := Some (renderLimitError ''max_field_bytes'' fieldMax (fieldMax + 1))\<rparr>
        else let e1 = e\<lparr>em_size := em_size e + 2, em_line := 0\<rparr>
          in e1\<lparr>em_builder := map_option (\<lambda>b. b @ [CR, LF]) (em_builder e1)\<rparr>)"

definition emitBase64 :: "bytes \<Rightarrow> int \<Rightarrow> instanceEmitter \<Rightarrow> instanceEmitter" where
  "emitBase64 encoded decodedBytes e =
     (case fst (WalkBase64Chunks decodedBytes None ()) of (encodedBytes, ok) \<Rightarrow>
      if \<not> ok \<or> em_builder e \<noteq> None \<and> int (length encoded) \<noteq> encodedBytes then e\<lparr>em_err := Some renderInvariantError\<rparr>
      else snd (WalkBase64Chunks decodedBytes
        (Some (\<lambda>first offset sz e.
           let e1 = (if \<not> first then emitText [TAB] (emitCRLF e) else e)
           in if em_builder e1 = None then textCount sz e1
              else emitText (Go_Bytes.slice encoded (nat offset) (nat (offset + sz))) e1)) e))"

definition emitSigningField :: "nat \<Rightarrow> bytes \<Rightarrow> bytes \<Rightarrow> bytes \<Rightarrow> int \<Rightarrow> bool \<Rightarrow> instanceEmitter \<Rightarrow> instanceEmitter" where
  "emitSigningField number headerHash bodyHash recipe recipeBytes recipePresent e0 =
     (let e1 = emitText ''Message-Instance: m='' e0;
          e2 = emitText (dec_digits number) e1;
          e3 = emitCRLF (emitText '';'' e2);
          e4 = emitText (TAB # ''h=sha256:'') e3;
          e5 = emitBase64 headerHash (int sha256HashBytes) e4;
          e6 = emitText '':'' e5;
          e7 = emitBase64 bodyHash (int sha256HashBytes) e6;
          e8 = emitCRLF (emitText '';'' e7)
      in if recipePresent
         then emitCRLF (emitText '';'' (emitBase64 recipe recipeBytes (emitText (TAB # ''r='') e8)))
         else e8)"

definition preflightSigningFieldResolved :: "nat \<Rightarrow> int \<Rightarrow> bool \<Rightarrow> RenderLimits \<Rightarrow> (InstanceError, int) result" where
  "preflightSigningFieldResolved number recipeBytes recipePresent resolved =
     (if number = 0 \<or> recipeBytes < 0 \<or> \<not> recipePresent \<and> recipeBytes \<noteq> 0 \<or> recipePresent \<and> recipeBytes = 0
      then Inl constructionError
      else if recipeBytes > rl_MaxRecipeBytes resolved
      then Inl (renderLimitError ''max_recipe_bytes'' (rl_MaxRecipeBytes resolved) recipeBytes)
      else let emitter = emitSigningField number [] [] [] recipeBytes recipePresent
             \<lparr>em_limits = resolved, em_builder = None, em_size = 0, em_line = 0, em_err = None\<rparr>
        in case em_err emitter of Some err \<Rightarrow> Inl err | None \<Rightarrow> Inr (em_size emitter))"

definition PreflightSigningField :: "nat \<Rightarrow> int \<Rightarrow> bool \<Rightarrow> RenderLimits \<Rightarrow> (InstanceError, int) result" where
  "PreflightSigningField number recipeBytes recipePresent limits =
     res_bind (RenderLimits_normalized limits) (\<lambda>resolved. preflightSigningFieldResolved number recipeBytes recipePresent resolved)"

definition Instance_Render :: "MessageInstance \<Rightarrow> RenderLimits \<Rightarrow> (InstanceError, bytes) result" where
  "Instance_Render m limits =
     (if mi_number m = 0 \<or> length (mi_hashes m) \<noteq> 1 \<or> \<not> hs_known (mi_hashes m ! 0) \<or> hs_name (mi_hashes m ! 0) \<noteq> ''sha256''
         \<or> Base64String_DecodedLen (hs_headerHash (mi_hashes m ! 0)) \<noteq> sha256HashBytes
         \<or> Base64String_DecodedLen (hs_bodyHash (mi_hashes m ! 0)) \<noteq> sha256HashBytes
      then Inl constructionError
      else
        let recipeBytes = (if mi_hasRecipe m then int (Base64String_DecodedLen (mi_recipe m)) else 0) in
        res_bind (PreflightSigningField (mi_number m) recipeBytes (mi_hasRecipe m) limits) (\<lambda>sz.
        res_bind (RenderLimits_normalized limits) (\<lambda>resolved.
          let emitter = emitSigningField (mi_number m) (bs_encoded (hs_headerHash (mi_hashes m ! 0)))
                (bs_encoded (hs_bodyHash (mi_hashes m ! 0))) (bs_encoded (mi_recipe m)) recipeBytes (mi_hasRecipe m)
                \<lparr>em_limits = resolved, em_builder = Some [], em_size = 0, em_line = 0, em_err = None\<rparr>
          in if em_err emitter \<noteq> None \<or> em_size emitter \<noteq> sz then Inl renderInvariantError
             else case em_builder emitter of None \<Rightarrow> Inr [] | Some out \<Rightarrow> Inr out)))"

section \<open>Runs over segments\<close>

text \<open>A segment is text or, as \<open>None\<close>, a line break.\<close>

definition put :: "bytes option \<Rightarrow> instanceEmitter \<Rightarrow> instanceEmitter" where
  "put s e = (case s of None \<Rightarrow> emitCRLF e | Some t \<Rightarrow> emitText t e)"

definition seg_bytes :: "bytes option \<Rightarrow> bytes" where
  "seg_bytes s = (case s of None \<Rightarrow> [CR, LF] | Some t \<Rightarrow> t)"

definition segs_bytes :: "bytes option list \<Rightarrow> bytes" where
  "segs_bytes ss = concat (map seg_bytes ss)"

fun seg_lines_ok :: "int \<Rightarrow> int \<Rightarrow> bytes option list \<Rightarrow> bool" where
  "seg_lines_ok k line [] = True"
| "seg_lines_ok k line (None # ss) = seg_lines_ok k 0 ss"
| "seg_lines_ok k line (Some t # ss) = (line + int (length t) \<le> k \<and> seg_lines_ok k (line + int (length t)) ss)"

fun line_after :: "int \<Rightarrow> bytes option list \<Rightarrow> int" where
  "line_after line [] = line"
| "line_after line (None # ss) = line_after 0 ss"
| "line_after line (Some t # ss) = line_after (line + int (length t)) ss"

lemma run_error: "em_err e \<noteq> None \<Longrightarrow> fold put ss e = e"
  by (induction ss) (auto simp: put_def emitText_def textCount_def emitCRLF_def split: option.splits)

definition segments_fit :: "instanceEmitter \<Rightarrow> bytes option list \<Rightarrow> bool" where
  "segments_fit e ss \<longleftrightarrow> em_size e + int (length (segs_bytes ss)) \<le> rl_MaxFieldBytes (em_limits e)
     \<and> seg_lines_ok (rl_MaxLineBytes (em_limits e)) (em_line e) ss"

definition after_run :: "bytes option list \<Rightarrow> instanceEmitter \<Rightarrow> instanceEmitter" where
  "after_run ss e = e\<lparr>em_size := em_size e + int (length (segs_bytes ss)), em_line := line_after (em_line e) ss,
     em_builder := map_option (\<lambda>b. b @ segs_bytes ss) (em_builder e)\<rparr>"

lemma segs_bytes_simps [simp]:
  "segs_bytes [] = []" "segs_bytes (s # ss) = seg_bytes s @ segs_bytes ss" "segs_bytes (ss @ ts) = segs_bytes ss @ segs_bytes ts"
  "seg_bytes None = [CR, LF]" "seg_bytes (Some t) = t"
  by (simp_all add: segs_bytes_def seg_bytes_def)

lemma put_step:
  assumes "em_err e = None"
  shows "put s e = (if segments_fit e [s] then after_run [s] e else put s e)"
    "segments_fit e [s] \<or> em_err (put s e) \<noteq> None"
proof -
  obtain l b n k x where e: "e = \<lparr>em_limits = l, em_builder = b, em_size = n, em_line = k, em_err = x\<rparr>"
    by (cases e) simp
  have x: "x = None" using assms e by simp
  show "put s e = (if segments_fit e [s] then after_run [s] e else put s e)"
    unfolding e x
    by (cases s; cases b)
       (simp_all add: put_def emitText_def textCount_def emitCRLF_def Let_def segments_fit_def after_run_def)
  show "segments_fit e [s] \<or> em_err (put s e) \<noteq> None"
    unfolding e x
    by (cases s; cases b)
       (auto simp add: put_def emitText_def textCount_def emitCRLF_def Let_def segments_fit_def)
qed

lemma segments_fit_Cons: "segments_fit e (s # ss) \<longleftrightarrow> segments_fit e [s] \<and> segments_fit (after_run [s] e) ss"
proof -
  have "0 \<le> int (length (segs_bytes ss))" by simp
  then show ?thesis by (cases s) (simp add: segments_fit_def after_run_def; linarith)+
qed

lemma after_run_Cons: "after_run ss (after_run [s] e) = after_run (s # ss) e"
  by (cases s; cases "em_builder e") (simp_all add: after_run_def)

lemma after_run_fields [simp]: "em_err (after_run ss e) = em_err e" "em_limits (after_run ss e) = em_limits e"
  "em_size (after_run ss e) = em_size e + int (length (segs_bytes ss))"
  "em_builder (after_run ss e) = map_option (\<lambda>b. b @ segs_bytes ss) (em_builder e)"
  by (simp_all add: after_run_def)

lemma after_run_Nil [simp]: "after_run [] e = e"
  by (simp add: after_run_def option.map_ident)

text \<open>Running segments succeeds exactly when they fit, and then appends their octets.\<close>

lemma run_fits: "em_err e = None \<Longrightarrow> segments_fit e ss \<Longrightarrow> fold put ss e = after_run ss e"
proof (induction ss arbitrary: e)
  case (Cons s ss)
  then have "segments_fit e [s]" "segments_fit (after_run [s] e) ss" by (simp_all only: segments_fit_Cons [of e s ss])
  with Cons show ?case using put_step(1) [of e s] by (simp add: after_run_Cons)
qed simp

lemma run_fails: "em_err e = None \<Longrightarrow> em_size e \<le> rl_MaxFieldBytes (em_limits e) \<Longrightarrow> \<not> segments_fit e ss
    \<Longrightarrow> em_err (fold put ss e) \<noteq> None"
proof (induction ss arbitrary: e)
  case Nil
  then show ?case by (simp add: segments_fit_def)
next
  case (Cons s ss)
  show ?case
  proof (cases "segments_fit e [s]")
    case True
    then have "\<not> segments_fit (after_run [s] e) ss" using Cons.prems(3) segments_fit_Cons by blast
    moreover have "em_size (after_run [s] e) \<le> rl_MaxFieldBytes (em_limits (after_run [s] e))"
      using True by (simp add: segments_fit_def)
    ultimately show ?thesis using Cons.IH [of "after_run [s] e"] Cons.prems(1) True put_step(1) [of e s] by simp
  next
    case False
    then have "em_err (put s e) \<noteq> None" using put_step(2) [OF Cons.prems(1)] by blast
    then show ?thesis using run_error [of "put s e" ss] by simp
  qed
qed

lemma crlf_lines_clean_prefix:
  assumes "clean z" "z \<noteq> []"
  shows "\<exists>l \<in> set (crlf_lines (z @ y)). length z \<le> length (content l)"
proof (cases "z @ y" rule: crlf_cases)
  case plain
  with assms(2) show ?thesis by (simp add: crlf_lines_plain content_plain)
next
  case (line w r)
  obtain us where us: "z = w @ us \<and> us @ y = crlf @ r \<or> z @ us = w \<and> y = us @ crlf @ r"
    using line(1) by (auto simp: append_eq_append_conv2)
  have "length z \<le> length w" using us assms(1) by (cases us) (auto simp: crlf_def)
  with line show ?thesis by (simp add: crlf_lines_line)
qed

text \<open>Segments without breaks of their own fit the lines exactly when every physical line does.\<close>

lemma seg_lines_ok_iff:
  assumes "\<forall>t. Some t \<in> set ss \<longrightarrow> clean t" "clean x" "int (length x) \<le> k"
  shows "seg_lines_ok k (int (length x)) ss \<longleftrightarrow> (\<forall>l \<in> set (crlf_lines (x @ segs_bytes ss)). int (length (content l)) \<le> k)"
  using assms
proof (induction ss arbitrary: x)
  case Nil
  then show ?case by (cases "x = []") (auto simp: crlf_lines_plain content_plain clean_no_crlf)
next
  case (Cons s ss)
  show ?case
  proof (cases s)
    case None
    have n: "no_crlf x" using Cons.prems(2) by (rule clean_no_crlf)
    have "crlf_lines (x @ segs_bytes (None # ss)) = (x @ crlf) # crlf_lines (segs_bytes ss)"
      using crlf_lines_line [OF n, of "segs_bytes ss"] by (simp add: crlf_def)
    moreover have "content (x @ crlf) = x" by (rule content_line)
    moreover have "clean ([] :: bytes)" by (simp add: clean_def)
    ultimately show ?thesis using Cons.IH [of "[]"] Cons.prems None by auto
  next
    case (Some t)
    have c: "clean (x @ t)" using Cons.prems Some by auto
    show ?thesis
    proof (cases "int (length (x @ t)) \<le> k")
      case True
      then show ?thesis using Cons.IH [OF _ c True] Cons.prems Some by simp
    next
      case False
      then have "x @ t \<noteq> []" using Cons.prems(3) by auto
      from crlf_lines_clean_prefix [OF c this, of "segs_bytes ss"] False Some show ?thesis by fastforce
    qed
  qed
qed

section \<open>Folded values as segments\<close>

function chunks64 :: "bytes \<Rightarrow> bytes option list" where
  "chunks64 e = (if length e \<le> 64 then [Some e] else Some (take 64 e) # None # Some [TAB] # chunks64 (drop 64 e))"
  by pat_completeness auto
termination
  by (relation "measure length") auto

declare chunks64.simps [simp del]

lemma chunks64_simps:
  "length e \<le> 64 \<Longrightarrow> chunks64 e = [Some e]"
  "64 < length e \<Longrightarrow> chunks64 e = Some (take 64 e) # None # Some [TAB] # chunks64 (drop 64 e)"
  by (simp_all add: chunks64.simps [of e])

lemma segs_bytes_chunks64 [simp]: "segs_bytes (chunks64 e) = fold64 e"
  by (induction e rule: fold64_induct) (simp_all add: chunks64_simps fold64_simps)

lemma chunks64_clean: "clean e \<Longrightarrow> Some t \<in> set (chunks64 e) \<Longrightarrow> clean t"
proof (induction e rule: fold64_induct)
  case (long e)
  have "clean (take 64 e)" "clean (drop 64 e)" using long.prems(1) clean_append append_take_drop_id by metis+
  with long show ?case by (auto simp: chunks64_simps isWSP_def)
qed (simp add: chunks64_simps)

definition base64_visit :: "bytes \<Rightarrow> bool \<Rightarrow> int \<Rightarrow> int \<Rightarrow> instanceEmitter \<Rightarrow> instanceEmitter" where
  "base64_visit encoded first offset sz e =
     (let e1 = (if \<not> first then emitText [TAB] (emitCRLF e) else e)
      in if em_builder e1 = None then textCount sz e1
         else emitText (Go_Bytes.slice encoded (nat offset) (nat (offset + sz))) e1)"

lemma emitText_no_builder: "em_builder e = None \<Longrightarrow> textCount (int (length v)) e = emitText v e"
  by (auto simp: emitText_def textCount_def Let_def)

lemma em_builder_put [simp]: "em_builder (put s e) = None \<longleftrightarrow> em_builder e = None"
  by (cases s) (auto simp: put_def emitText_def textCount_def emitCRLF_def Let_def)

lemma put_simps [simp]: "put None e = emitCRLF e" "put (Some t) e = emitText t e"
  by (simp_all add: put_def)

text \<open>
  With a builder the chunks are those of the text; without one only their sizes count, so any text of the
  size does.
\<close>

lemma base64_visit_put:
  assumes "em_builder e = None \<or> x = e0" "i \<le> j" "j \<le> length e0"
  shows "base64_visit x first (int i) (int (j - i)) e
     = fold put ((if first then [] else [None, Some [TAB]]) @ [Some (Go_Bytes.slice e0 i j)]) e"
proof -
  have n: "nat (int i + int (j - i)) = j" "length (Go_Bytes.slice e0 i j) = j - i"
    using assms(2,3) by (auto simp: Go_Bytes.slice_def)
  show ?thesis
  proof (cases "em_builder e")
    case None
    then have "em_builder (emitText [TAB] (emitCRLF e)) = None" 
      using em_builder_put [of "Some [TAB]" "put None e"] em_builder_put [of None e] by simp
    with None n show ?thesis using emitText_no_builder [of _ "Go_Bytes.slice e0 i j"] by (simp add: base64_visit_def Let_def)
  next
    case (Some b)
    then have "em_builder (emitText [TAB] (emitCRLF e)) \<noteq> None" 
      using em_builder_put [of "Some [TAB]" "put None e"] em_builder_put [of None e] by simp
    with Some n assms(1) show ?thesis by (auto simp add: base64_visit_def Let_def)
  qed
qed

lemma em_builder_fold_put: "em_builder (fold put ss e) = None \<longleftrightarrow> em_builder e = None"
  by (induction ss arbitrary: e) (simp_all del: put_simps)

lemma walk_run:
  assumes "e0 = pre @ r" "r \<noteq> []" "em_builder e = None \<or> x = e0"
  shows "walkChunksLoop (int (length e0)) (base64_visit x) (int (length pre)) e
     = fold put ((if pre = [] then [] else [None, Some [TAB]]) @ chunks64 r) e"
  using assms
proof (induction r arbitrary: pre e rule: fold64_induct)
  case (short r)
  have sl: "Go_Bytes.slice e0 (length pre) (length e0) = r" using short by (simp add: Go_Bytes.slice_def)
  have "int (length pre) < int (length e0)" "int (length e0) - int (length pre) \<le> 64" using short by auto
  moreover have "int (length e0) - int (length pre) = int (length e0 - length pre)" using short by simp
  ultimately show ?case
    using sl short(1) base64_visit_put [OF short.prems(3), of "length pre" "length e0" "pre = []"] short.prems(1)
    by (simp add: walkChunksLoop_step(1) chunks64_simps)
next
  case (long r)
  let ?ts = "(if pre = [] then [] else [None, Some [TAB]]) @ [Some (take 64 r)]"
  have sl: "Go_Bytes.slice e0 (length pre) (length pre + 64) = take 64 r" using long by (simp add: Go_Bytes.slice_def)
  have e: "e0 = (pre @ take 64 r) @ drop 64 r" "pre @ take 64 r \<noteq> []" "drop 64 r \<noteq> []" using long by auto
  have off: "int (length pre) + 64 = int (length (pre @ take 64 r))" using long by simp
  have "64 < int (length e0) - int (length pre)" using long by auto
  then have "walkChunksLoop (int (length e0)) (base64_visit x) (int (length pre)) e =
      walkChunksLoop (int (length e0)) (base64_visit x) (int (length pre) + 64)
        (base64_visit x (int (length pre) = 0) (int (length pre)) 64 e)"
    by (rule walkChunksLoop_step)
  also have "base64_visit x (int (length pre) = 0) (int (length pre)) 64 e = fold put ?ts e"
    using base64_visit_put [OF long.prems(3), of "length pre" "length pre + 64" "pre = []"] sl long by simp
  also have "walkChunksLoop (int (length e0)) (base64_visit x) (int (length pre) + 64) (fold put ?ts e)
      = fold put ([None, Some [TAB]] @ chunks64 (drop 64 r)) (fold put ?ts e)"
    unfolding off using long.IH [OF e(1,3), of "fold put ?ts e"] long.prems(2,3) e(2) em_builder_fold_put [of ?ts e]
    by (simp del: fold_append)
  also have "\<dots> = fold put ((if pre = [] then [] else [None, Some [TAB]]) @ chunks64 r) e"
    using long(1) by (simp add: chunks64_simps)
  finally show ?case .
qed

lemma emitBase64_run:
  assumes "e0 \<noteq> []" "int (length e0) = encoded_size n" "0 \<le> n" "encoded_size n \<le> MaxInt" "em_builder e = None \<or> x = e0"
  shows "emitBase64 x n e = fold put (chunks64 e0) e"
proof -
  have "emitBase64 x n e = walkChunksLoop (encoded_size n) (base64_visit x) 0 e"
    using assms(2-5)
    by (auto simp: emitBase64_def WalkBase64Chunks_def base64EncodedSize_exact walkEncodedBase64Chunks_def
        base64_visit_def [abs_def])
  with walk_run [of e0 "[]" e0 e x] assms show ?thesis by simp
qed

section \<open>The field\<close>

definition field_segments :: "nat \<Rightarrow> bytes \<Rightarrow> bytes \<Rightarrow> bytes option \<Rightarrow> bytes option list" where
  "field_segments number headerHash bodyHash recipe =
     [Some ''Message-Instance: m='', Some (dec_digits number), Some '';'', None, Some (TAB # ''h=sha256:'')]
     @ chunks64 headerHash @ [Some '':''] @ chunks64 bodyHash @ [Some '';'', None]
     @ (case recipe of None \<Rightarrow> [] | Some r \<Rightarrow> Some (TAB # ''r='') # chunks64 r @ [Some '';'', None])"

lemma emitSigningField_run:
  assumes "length hh = 44" "length bh = 44" "em_builder e = None \<or> xh = hh \<and> xb = bh \<and> (present \<longrightarrow> x = r)"
    and "present \<longrightarrow> r \<noteq> [] \<and> int (length r) = encoded_size n \<and> 0 \<le> n \<and> encoded_size n \<le> MaxInt"
  shows "emitSigningField number xh xb x n present e
     = fold put (field_segments number hh bh (if present then Some r else None)) e"
proof -
  have s32: "encoded_size (int sha256HashBytes) = 44" "(44 :: int) \<le> MaxInt" by (simp_all add: encoded_size_def sha256HashBytes_def MaxInt_def)
  have hash: "emitBase64 xh (int sha256HashBytes) f = fold put (chunks64 hh) f" if "em_builder f = None \<or> xh = hh" for f
    using assms(1) s32 that by (intro emitBase64_run) auto
  have body: "emitBase64 xb (int sha256HashBytes) f = fold put (chunks64 bh) f" if "em_builder f = None \<or> xb = bh" for f
    using assms(2) s32 that by (intro emitBase64_run) auto
  have rec: "emitBase64 x n f = fold put (chunks64 r) f" if present "em_builder f = None \<or> x = r" for f
    using assms(4) that by (intro emitBase64_run) auto
  have b: "em_builder (emitText t f) = None \<longleftrightarrow> em_builder f = None" "em_builder (emitCRLF f) = None \<longleftrightarrow> em_builder f = None"
    "em_builder (fold put ss f) = None \<longleftrightarrow> em_builder f = None" for t f ss
    using em_builder_put [of "Some t" f] em_builder_put [of None f] em_builder_fold_put by simp_all
  show ?thesis
  proof (cases "em_builder e = None")
    case True
    then show ?thesis by (simp add: emitSigningField_def field_segments_def Let_def hash body rec b)
  next
    case False
    then have eq: "xh = hh" "xb = bh" "present \<Longrightarrow> x = r" using assms(3) by auto
    have "emitBase64 xh (int sha256HashBytes) f = fold put (chunks64 hh) f" "emitBase64 xb (int sha256HashBytes) f = fold put (chunks64 bh) f"
      "present \<Longrightarrow> emitBase64 x n f = fold put (chunks64 r) f" for f
      using hash [of f] body [of f] rec [of f] eq by blast+
    then show ?thesis by (simp add: emitSigningField_def field_segments_def Let_def)
  qed
qed

section \<open>Construction\<close>

definition base64_of :: "bytes \<Rightarrow> Base64String" where
  "base64_of d = \<lparr>bs_original = EncodeBase64 d, bs_encoded = EncodeBase64 d, bs_decoded = d\<rparr>"

definition request_ok :: "SigningRequest \<Rightarrow> bool" where
  "request_ok r \<longleftrightarrow> 0 < sr_Number r \<and> length (sr_HeaderHash r) = 32 \<and> length (sr_BodyHash r) = 32
     \<and> (sr_RecipePresent r \<longleftrightarrow> sr_Recipe r \<noteq> []) \<and> length (sr_Recipe r) \<le> 45 * 1024"

definition request_instance :: "SigningRequest \<Rightarrow> MessageInstance" where
  "request_instance r = \<lparr>mi_number = sr_Number r,
     mi_hashes = [\<lparr>hs_name = ''sha256'', hs_known = True, hs_headerHash = base64_of (sr_HeaderHash r),
       hs_bodyHash = base64_of (sr_BodyHash r), hs_headerHashValue = EncodeBase64 (sr_HeaderHash r),
       hs_bodyHashValue = EncodeBase64 (sr_BodyHash r)\<rparr>],
     mi_hashLayout = the (SingleGroup 1),
     mi_recipe = (if sr_RecipePresent r then base64_of (sr_Recipe r) else zeroBase64),
     mi_hasRecipe = sr_RecipePresent r, mi_headerIndex = 0\<rparr>"

lemma parseGeneratedBase64_exact:
  assumes "d \<noteq> []" "length d \<le> 45 * 1024"
  shows "parseGeneratedBase64 d = Inr (base64_of d)"
proof -
  let ?e = "EncodeBase64 d"
  have w: "\<forall>b \<in> set ?e. b \<noteq> CR \<and> b \<noteq> LF \<and> \<not> isWSP b" and ne: "?e \<noteq> []"
    using EncodeToString_no_break assms(1) by (simp_all add: EncodeBase64_def)
  have "stripBase64FWS ?e = ?e" using w by (simp add: stripBase64FWS_def filter_id_conv)
  moreover have "trimmed ?e" using w ne by (auto simp: trimmed_def)
  moreover have "int (length ?e) \<le> 65536"
    using assms(2) length_EncodeBase64 [of d] by (simp add: encoded_size_def)
  moreover have "Limits_normalize DefaultLimits = DefaultLimits" "Limits_Validate DefaultLimits = None"
    by (simp_all add: Limits_normalize_def DefaultLimits_def Limits_Validate_def)
  ultimately have "ParseBase64String ?e DefaultLimits = Inr (base64_of d)"
    unfolding ParseBase64String_def parseBase64String_Inr_iff
    using assms by (simp add: base64_value_def base64_text_def EncodeBase64_def base64_of_def) (simp add: DefaultLimits_def)
  then show ?thesis by (simp add: parseGeneratedBase64_def)
qed

lemma SingleGroup_one: "\<exists>l. SingleGroup 1 = Some l"
  by (simp add: SingleGroup_def NewLayout_def MaxSets_def)

lemma NewForSigning_Inr_iff: "NewForSigning r = Inr m \<longleftrightarrow> request_ok r \<and> m = request_instance r"
proof (cases "request_ok r")
  case True
  have h: "parseGeneratedBase64 (sr_HeaderHash r) = Inr (base64_of (sr_HeaderHash r))"
    "parseGeneratedBase64 (sr_BodyHash r) = Inr (base64_of (sr_BodyHash r))"
    "sr_RecipePresent r \<Longrightarrow> parseGeneratedBase64 (sr_Recipe r) = Inr (base64_of (sr_Recipe r))"
    using True by (auto simp: request_ok_def intro!: parseGeneratedBase64_exact)
  obtain l where l: "SingleGroup 1 = Some l" using SingleGroup_one by blast
  have "NewForSigning r = Inr (request_instance r)"
    using True h l
    by (auto simp: NewForSigning_def request_ok_def request_instance_def Let_def sha256HashBytes_def
        hardMaxSigningRecipeBytes_def base64_of_def)
  with True show ?thesis by auto
next
  case False
  then have "\<exists>e. NewForSigning r = Inl e"
    by (auto simp: NewForSigning_def request_ok_def sha256HashBytes_def hardMaxSigningRecipeBytes_def Let_def)
  with False show ?thesis by auto
qed

section \<open>Rendering\<close>

definition signing_field :: "SigningRequest \<Rightarrow> bytes" where
  "signing_field r = ''Message-Instance: m='' @ dec_digits (sr_Number r) @ '';'' @ crlf
     @ TAB # ''h=sha256:'' @ FoldBase64 (EncodeBase64 (sr_HeaderHash r)) @ '':'' @ FoldBase64 (EncodeBase64 (sr_BodyHash r)) @ '';'' @ crlf
     @ (if sr_RecipePresent r then TAB # ''r='' @ FoldBase64 (EncodeBase64 (sr_Recipe r)) @ '';'' @ crlf else [])"

definition render_fits :: "RenderLimits \<Rightarrow> bytes \<Rightarrow> bool" where
  "render_fits l out \<longleftrightarrow> int (length out) \<le> rl_MaxFieldBytes l
     \<and> (\<forall>line \<in> set (crlf_lines out). int (length (content line)) \<le> rl_MaxLineBytes l)"

definition request_segments :: "SigningRequest \<Rightarrow> bytes option list" where
  "request_segments r = field_segments (sr_Number r) (EncodeBase64 (sr_HeaderHash r)) (EncodeBase64 (sr_BodyHash r))
     (if sr_RecipePresent r then Some (EncodeBase64 (sr_Recipe r)) else None)"

definition emitter0 :: "RenderLimits \<Rightarrow> bytes option \<Rightarrow> instanceEmitter" where
  "emitter0 l b = \<lparr>em_limits = l, em_builder = b, em_size = 0, em_line = 0, em_err = None\<rparr>"

lemma request_segments_bytes [simp]: "segs_bytes (request_segments r) = signing_field r"
  by (simp add: request_segments_def field_segments_def signing_field_def FoldBase64_fold64 crlf_def)

lemma request_segments_clean: "Some t \<in> set (request_segments r) \<Longrightarrow> clean t"
proof -
  have "clean (dec_digits n)" for n using dec_digits_isDigit [of CR n] dec_digits_isDigit [of LF n] by (auto simp: clean_def isDigit_def octet_def)
  then show "Some t \<in> set (request_segments r) \<Longrightarrow> clean t"
    by (auto simp: request_segments_def field_segments_def EncodeBase64_clean dest: chunks64_clean [rotated] split: if_splits)
qed

lemma RenderLimits_normalized_bounds:
  "RenderLimits_normalized l = Inr l' \<Longrightarrow> 0 < rl_MaxFieldBytes l' \<and> 0 < rl_MaxLineBytes l' \<and> rl_MaxRecipeBytes l' \<le> 45 * 1024"
  by (auto simp: RenderLimits_normalized_def RenderLimits_Validate_def Let_def hardMaxSigningRecipeBytes_def split: option.splits if_splits)

lemma segments_fit_request:
  assumes "0 < rl_MaxLineBytes l"
  shows "segments_fit (emitter0 l b) (request_segments r) \<longleftrightarrow> render_fits l (signing_field r)"
  using seg_lines_ok_iff [of "request_segments r" "[]" "rl_MaxLineBytes l"] request_segments_clean assms
  by (simp add: segments_fit_def emitter0_def render_fits_def)

lemma run_request:
  assumes "request_ok r" "b = None \<or> xh = EncodeBase64 (sr_HeaderHash r) \<and> xb = EncodeBase64 (sr_BodyHash r)
      \<and> (sr_RecipePresent r \<longrightarrow> x = EncodeBase64 (sr_Recipe r))"
  shows "emitSigningField (sr_Number r) xh xb x (int (length (sr_Recipe r))) (sr_RecipePresent r) (emitter0 l b)
     = fold put (request_segments r) (emitter0 l b)"
proof -
  have n: "length (EncodeBase64 (sr_HeaderHash r)) = 44" "length (EncodeBase64 (sr_BodyHash r)) = 44"
    using assms(1) length_EncodeBase64 [of "sr_HeaderHash r"] length_EncodeBase64 [of "sr_BodyHash r"]
    by (simp_all add: request_ok_def encoded_size_def)
  have "length (sr_Recipe r) \<le> 46080" using assms(1) by (simp add: request_ok_def)
  then have "encoded_size (int (length (sr_Recipe r))) \<le> MaxInt" by (simp add: encoded_size_def MaxInt_def)
  moreover have "sr_RecipePresent r \<Longrightarrow> EncodeBase64 (sr_Recipe r) \<noteq> []" using assms(1) by (simp add: request_ok_def EncodeBase64_def)
  ultimately show ?thesis
    unfolding request_segments_def using n assms(2)
    by (intro emitSigningField_run) (auto simp: length_EncodeBase64 emitter0_def)
qed

lemma run_emitter0:
  fixes r :: SigningRequest
  assumes "0 < rl_MaxFieldBytes l" "0 < rl_MaxLineBytes l"
  defines "e \<equiv> \<lambda>b. fold put (request_segments r) (emitter0 l b)"
  shows "em_err (e b) = None \<longleftrightarrow> render_fits l (signing_field r)"
    "render_fits l (signing_field r) \<Longrightarrow> em_size (e b) = int (length (signing_field r)) \<and> em_builder (e b) = map_option (\<lambda>x. x @ signing_field r) b"
proof -
  have e0: "em_err (emitter0 l b) = None" "em_size (emitter0 l b) = 0" "em_limits (emitter0 l b) = l" "em_builder (emitter0 l b) = b"
    by (simp_all add: emitter0_def)
  note fit = segments_fit_request [OF assms(2), of b r]
  show "render_fits l (signing_field r) \<Longrightarrow> em_size (e b) = int (length (signing_field r)) \<and> em_builder (e b) = map_option (\<lambda>x. x @ signing_field r) b"
    using run_fits [OF e0(1), of "request_segments r"] by (simp add: fit e_def e0)
  show "em_err (e b) = None \<longleftrightarrow> render_fits l (signing_field r)"
    using run_fits [OF e0(1), of "request_segments r"] run_fails [OF e0(1), of "request_segments r"] assms(1)
    by (cases "render_fits l (signing_field r)") (simp_all add: fit e_def e0)
qed

theorem PreflightSigningField_request:
  assumes "request_ok r"
  shows "PreflightSigningField (sr_Number r) (int (length (sr_Recipe r))) (sr_RecipePresent r) limits = Inr n
     \<longleftrightarrow> n = int (length (signing_field r)) \<and> (\<exists>l. RenderLimits_normalized limits = Inr l
       \<and> int (length (sr_Recipe r)) \<le> rl_MaxRecipeBytes l \<and> render_fits l (signing_field r))"
proof (cases "RenderLimits_normalized limits")
  case (Inl e)
  then show ?thesis by (simp add: PreflightSigningField_def)
next
  case (Inr l)
  have b: "0 < rl_MaxFieldBytes l" "0 < rl_MaxLineBytes l" using RenderLimits_normalized_bounds [OF Inr] by auto
  let ?e = "fold put (request_segments r) (emitter0 l None)"
  have run: "emitSigningField (sr_Number r) [] [] [] (int (length (sr_Recipe r))) (sr_RecipePresent r)
      \<lparr>em_limits = l, em_builder = None, em_size = 0, em_line = 0, em_err = None\<rparr> = ?e"
    using run_request [OF assms, of None] by (simp add: emitter0_def)
  have "em_err ?e = None \<longleftrightarrow> render_fits l (signing_field r)" "render_fits l (signing_field r) \<Longrightarrow> em_size ?e = int (length (signing_field r))"
    using run_emitter0 [OF b] by auto
  then show ?thesis
    using assms Inr run
    by (auto simp: PreflightSigningField_def preflightSigningFieldResolved_def request_ok_def Let_def split: option.splits)
qed

theorem Instance_Render_request:
  assumes "request_ok r"
  shows "PreflightSigningField (sr_Number r) (int (length (sr_Recipe r))) (sr_RecipePresent r) limits = Inl e
      \<Longrightarrow> Instance_Render (request_instance r) limits = Inl e"
    and "Instance_Render (request_instance r) limits = Inr out
     \<longleftrightarrow> out = signing_field r \<and> (\<exists>l. RenderLimits_normalized limits = Inr l
       \<and> int (length (sr_Recipe r)) \<le> rl_MaxRecipeBytes l \<and> render_fits l (signing_field r))"
proof -
  let ?n = "int (length (signing_field r))"
  let ?ok = "\<lambda>l. int (length (sr_Recipe r)) \<le> rl_MaxRecipeBytes l \<and> render_fits l (signing_field r)"
  let ?pre = "PreflightSigningField (sr_Number r) (int (length (sr_Recipe r))) (sr_RecipePresent r) limits"
  have guard: "0 < sr_Number r" "length (sr_HeaderHash r) = sha256HashBytes" "length (sr_BodyHash r) = sha256HashBytes"
    "\<not> sr_RecipePresent r \<Longrightarrow> sr_Recipe r = []"
    using assms by (auto simp: request_ok_def sha256HashBytes_def)
  have n: "mi_hasRecipe (request_instance r) = sr_RecipePresent r"
    "(if sr_RecipePresent r then int (Base64String_DecodedLen (mi_recipe (request_instance r))) else 0) = int (length (sr_Recipe r))"
    using guard(4) by (simp_all add: request_instance_def base64_of_def Base64String_DecodedLen_def)
  have p: "mi_number (request_instance r) = sr_Number r" "length (mi_hashes (request_instance r)) = 1"
    "hs_known (mi_hashes (request_instance r) ! 0)" "hs_name (mi_hashes (request_instance r) ! 0) = ''sha256''"
    "bs_encoded (hs_headerHash (mi_hashes (request_instance r) ! 0)) = EncodeBase64 (sr_HeaderHash r)"
    "bs_encoded (hs_bodyHash (mi_hashes (request_instance r) ! 0)) = EncodeBase64 (sr_BodyHash r)"
    "Base64String_DecodedLen (hs_headerHash (mi_hashes (request_instance r) ! 0)) = length (sr_HeaderHash r)"
    "Base64String_DecodedLen (hs_bodyHash (mi_hashes (request_instance r) ! 0)) = length (sr_BodyHash r)"
    by (simp_all add: request_instance_def base64_of_def Base64String_DecodedLen_def)
  have render: "Instance_Render (request_instance r) limits = res_bind ?pre (\<lambda>sz. res_bind (RenderLimits_normalized limits) (\<lambda>l.
      let e = emitSigningField (sr_Number r) (EncodeBase64 (sr_HeaderHash r)) (EncodeBase64 (sr_BodyHash r))
        (bs_encoded (mi_recipe (request_instance r))) (int (length (sr_Recipe r))) (sr_RecipePresent r) (emitter0 l (Some []))
      in if em_err e \<noteq> None \<or> em_size e \<noteq> sz then Inl renderInvariantError
         else case em_builder e of None \<Rightarrow> Inr [] | Some out \<Rightarrow> Inr out))"
    unfolding Instance_Render_def Let_def n emitter0_def p using guard(1-3) p(3) by simp
  have run: "emitSigningField (sr_Number r) (EncodeBase64 (sr_HeaderHash r)) (EncodeBase64 (sr_BodyHash r))
      (bs_encoded (mi_recipe (request_instance r))) (int (length (sr_Recipe r))) (sr_RecipePresent r) (emitter0 l (Some []))
      = fold put (request_segments r) (emitter0 l (Some []))" for l
    using assms by (intro run_request) (simp_all add: request_instance_def base64_of_def)
  show "?pre = Inl e \<Longrightarrow> Instance_Render (request_instance r) limits = Inl e" by (simp add: render)
  show "Instance_Render (request_instance r) limits = Inr out
     \<longleftrightarrow> out = signing_field r \<and> (\<exists>l. RenderLimits_normalized limits = Inr l \<and> ?ok l)" (is ?thesis)
  proof (cases "RenderLimits_normalized limits")
    case (Inr l)
    have b: "0 < rl_MaxFieldBytes l" "0 < rl_MaxLineBytes l" using RenderLimits_normalized_bounds [OF Inr] by auto
    show ?thesis
    proof (cases ?pre)
      case (Inl e)
      then have "\<not> ?ok l" using PreflightSigningField_request [OF assms, of limits ?n] Inr by auto
      with Inl Inr show ?thesis by (simp add: render)
    next
      case pre: (Inr n)
      then have "n = ?n" "?ok l" using PreflightSigningField_request [OF assms, of limits n] Inr by auto
      with pre Inr run_emitter0 [OF b, of r "Some []"] show ?thesis by (auto simp: render run Let_def)
    qed
  qed (simp add: render PreflightSigningField_def)
qed

end
