(* ===== verification/Instance_Roundtrip.thy ===== *)
theory Instance_Roundtrip
  imports Instance_Render Rawmsg_Grammar
begin

text \<open>
  A rendered Message-Instance field is a header field of the raw parser, and the field parser reads from it
  the instance that was rendered.
\<close>

section \<open>The rendered field as a header field\<close>

definition recipe_text :: "SigningRequest \<Rightarrow> bytes" where
  "recipe_text r = unfoldHeaderValue (FoldBase64 (EncodeBase64 (sr_Recipe r)))"

definition signing_value :: "SigningRequest \<Rightarrow> bytes" where
  "signing_value r = '' m='' @ dec_digits (sr_Number r) @ '';'' @ crlf
     @ TAB # ''h=sha256:'' @ EncodeBase64 (sr_HeaderHash r) @ '':'' @ EncodeBase64 (sr_BodyHash r) @ '';''
     @ (if sr_RecipePresent r then crlf @ TAB # ''r='' @ FoldBase64 (EncodeBase64 (sr_Recipe r)) @ '';'' else [])"

definition unfolded_value :: "SigningRequest \<Rightarrow> bytes" where
  "unfolded_value r = '' m='' @ dec_digits (sr_Number r) @ '';''
     @ TAB # ''h=sha256:'' @ EncodeBase64 (sr_HeaderHash r) @ '':'' @ EncodeBase64 (sr_BodyHash r) @ '';''
     @ (if sr_RecipePresent r then TAB # ''r='' @ recipe_text r @ '';'' else [])"

lemma hash_not_folded:
  "length d = 32 \<Longrightarrow> FoldBase64 (EncodeBase64 d) = EncodeBase64 d \<and> length (EncodeBase64 d) = 44"
proof -
  assume "length d = 32"
  then have "length (EncodeBase64 d) = 44" using length_EncodeBase64 [of d] by (simp add: encoded_size_def)
  then show ?thesis by (simp add: FoldBase64_fold64 fold64_simps)
qed

lemma signing_field_value: "request_ok r \<Longrightarrow> signing_field r = ''Message-Instance'' @ CHR '':'' # signing_value r @ crlf"
  by (simp add: signing_field_def signing_value_def request_ok_def hash_not_folded)

lemma dec_digits_clean: "clean (dec_digits n)"
  using dec_digits_isDigit [of CR n] dec_digits_isDigit [of LF n] by (auto simp: clean_def isDigit_def octet_def)

lemma validHeaderFieldValue_prefix: "clean v \<Longrightarrow> validHeaderFieldValue (v @ r) = validHeaderFieldValue r"
  by (induction v) (auto simp: validHeaderFieldValue_step)

lemma validHeaderFieldValue_snoc: "validHeaderFieldValue v \<Longrightarrow> clean s \<Longrightarrow> validHeaderFieldValue (v @ s)"
proof (induction v rule: length_induct)
  case (1 v)
  from 1(2) show ?case
  proof (cases rule: validHeaderFieldValue_cases)
    case plain
    then show ?thesis using 1(3) by (simp add: clean_def validHeaderFieldValue_no_break)
  next
    case (fold u b r)
    then show ?thesis using 1 validHeaderFieldValue_fold [of u b] by (simp add: clean_def)
  qed
qed

lemma signing_value_valid: "validHeaderFieldValue (signing_value r)"
proof -
  have "validHeaderFieldValue (fold64 (EncodeBase64 (sr_Recipe r)) @ '';'')"
    by (intro validHeaderFieldValue_snoc fold64_valid EncodeBase64_clean) simp
  then have r: "validHeaderFieldValue (''r='' @ FoldBase64 (EncodeBase64 (sr_Recipe r)) @ '';'')"
    by (subst validHeaderFieldValue_prefix) (simp_all add: FoldBase64_fold64)
  let ?h = "''h=sha256:'' @ EncodeBase64 (sr_HeaderHash r) @ '':'' @ EncodeBase64 (sr_BodyHash r) @ '';''"
  have h: "clean ?h" "clean ('' m='' @ dec_digits (sr_Number r) @ '';'')" by (simp_all add: EncodeBase64_clean dec_digits_clean)
  have fold: "validHeaderFieldValue (v @ crlf @ TAB # x) = validHeaderFieldValue x" if "clean v" for v x
    using validHeaderFieldValue_fold [of v TAB x] that by (simp add: clean_def isWSP_def)
  have "validHeaderFieldValue (?h @ (if sr_RecipePresent r then crlf @ TAB # ''r='' @ FoldBase64 (EncodeBase64 (sr_Recipe r)) @ '';'' else []))"
    using fold [OF h(1)] r h(1) by (simp add: clean_def validHeaderFieldValue_no_break)
  with fold [OF h(2)] show ?thesis by (simp add: signing_value_def)
qed

lemma filter_clean: "clean v \<Longrightarrow> filter (\<lambda>b. b \<noteq> CR \<and> b \<noteq> LF) v = v"
  by (auto simp: clean_def filter_id_conv)

lemma signing_value_unfolded: "unfoldHeaderValue (signing_value r) = unfolded_value r"
proof -
  have "recipe_text r = filter (\<lambda>b. b \<noteq> CR \<and> b \<noteq> LF) (FoldBase64 (EncodeBase64 (sr_Recipe r)))"
    unfolding recipe_text_def FoldBase64_fold64 by (intro unfoldHeaderValue_valid fold64_valid EncodeBase64_clean)
  then show ?thesis
    unfolding unfoldHeaderValue_valid [OF signing_value_valid]
    by (simp add: signing_value_def unfolded_value_def crlf_def filter_clean dec_digits_clean EncodeBase64_clean)
qed

lemma recipe_text_clean: "clean (recipe_text r)"
  unfolding recipe_text_def FoldBase64_fold64 unfoldHeaderValue_valid [OF fold64_valid [OF EncodeBase64_clean]]
  by (simp add: clean_def)

lemma unfolded_value_clean: "clean (unfolded_value r)"
  by (simp add: unfolded_value_def dec_digits_clean EncodeBase64_clean recipe_text_clean)

lemma unfolded_value_length: "request_ok r \<Longrightarrow> length (unfolded_value r) \<le> length (signing_field r)"
  unfolding signing_value_unfolded [symmetric] unfoldHeaderValue_valid [OF signing_value_valid]
  by (simp add: signing_field_value le_SucI le_diff_conv length_filter_le trans_le_add1)

definition rendered_header :: "nat \<Rightarrow> SigningRequest \<Rightarrow> HeaderField" where
  "rendered_header i r = \<lparr>hf_index = i, hf_rawName = ''Message-Instance'', hf_nameLower = HeaderName,
     hf_rawValue = signing_value r, hf_unfoldedValue = unfolded_value r, hf_originalBytes = signing_field r, hf_valid = True\<rparr>"

lemma NewHeaderField_rendered:
  "request_ok r \<Longrightarrow> NewHeaderField (int i) ''Message-Instance'' (signing_value r) (unfolded_value r) (signing_field r)
     = Inr (rendered_header i r)"
proof -
  have "validHeaderFieldName ''Message-Instance''" "lowerASCII ''Message-Instance'' = HeaderName" by code_simp+
  then show "request_ok r \<Longrightarrow> ?thesis"
    by (simp add: NewHeaderField_Inr_iff signing_value_valid signing_field_value signing_value_unfolded rendered_header_def)
qed

section \<open>Tags of the rendered field\<close>

definition rendered_tags :: "SigningRequest \<Rightarrow> Tag list" where
  "rendered_tags r = \<lparr>tag_name = ''m'', tag_value = dec_digits (sr_Number r), tag_known = True\<rparr>
     # \<lparr>tag_name = ''h'', tag_value = ''sha256:'' @ EncodeBase64 (sr_HeaderHash r) @ '':'' @ EncodeBase64 (sr_BodyHash r), tag_known = True\<rparr>
     # (if sr_RecipePresent r then [\<lparr>tag_name = ''r'', tag_value = recipe_text r, tag_known = True\<rparr>] else [])"

text \<open>No separator of the tag list, of the hash list or of a hash set occurs in an encoded value.\<close>

lemma EncodeBase64_octets:
  assumes "b \<in> set (EncodeBase64 d)"
  shows "b \<noteq> CHR '';''" "b \<noteq> CHR '':''" "\<not> isSeparator b" "\<not> isWSP b"
  using assms EncodeToString_chars [of b d] EncodeToString_no_break [of b d] base64_char_octets [of b]
  by (auto simp: EncodeBase64_def)

lemma fold64_octets: "b \<in> set (fold64 e) \<Longrightarrow> b \<in> set e \<or> b = CR \<or> b = LF \<or> b = TAB"
proof (induction e rule: fold64_induct)
  case (long e)
  then show ?case by (auto simp: fold64_simps dest: in_set_takeD in_set_dropD)
qed (simp add: fold64_simps)

lemma recipe_text_octets: "b \<in> set (recipe_text r) \<Longrightarrow> b \<noteq> CHR '';''"
  using fold64_octets [of b "EncodeBase64 (sr_Recipe r)"] EncodeBase64_octets(1) [of b "sr_Recipe r"]
  unfolding recipe_text_def FoldBase64_fold64 unfoldHeaderValue_valid [OF fold64_valid [OF EncodeBase64_clean]]
  by auto

lemma rendered_specs:
  "tag_specs (unfolded_value r) = ['' m='' @ dec_digits (sr_Number r),
      TAB # ''h=sha256:'' @ EncodeBase64 (sr_HeaderHash r) @ '':'' @ EncodeBase64 (sr_BodyHash r)]
    @ (if sr_RecipePresent r then [TAB # ''r='' @ recipe_text r] else [])"
proof -
  let ?m = "'' m='' @ dec_digits (sr_Number r)"
  let ?h = "TAB # ''h=sha256:'' @ EncodeBase64 (sr_HeaderHash r) @ '':'' @ EncodeBase64 (sr_BodyHash r)"
  let ?r = "TAB # ''r='' @ recipe_text r"
  have m: "CHR '';'' \<notin> set ?m" using dec_digits_isDigit [of "CHR '';''" "sr_Number r"] by (auto simp: isDigit_def octet_def)
  have h: "CHR '';'' \<notin> set ?h" using EncodeBase64_octets(1) [of "CHR '';''"] by auto
  have r: "CHR '';'' \<notin> set ?r" using recipe_text_octets [of "CHR '';''" r] by auto
  have "SplitByte (CHR '';'') (unfolded_value r) = ?m # ?h # (if sr_RecipePresent r then [?r] else []) @ [[]]"
  proof (cases "sr_RecipePresent r")
    case True
    then have "unfolded_value r = ?m @ CHR '';'' # ?h @ CHR '';'' # ?r @ CHR '';'' # []" by (simp add: unfolded_value_def)
    with True SplitByte_sep [OF m] SplitByte_sep [OF h] SplitByte_sep [OF r, of "[]"] show ?thesis by simp
  next
    case False
    then have "unfolded_value r = ?m @ CHR '';'' # ?h @ CHR '';'' # []" by (simp add: unfolded_value_def)
    with False SplitByte_sep [OF m] SplitByte_sep [OF h, of "[]"] show ?thesis by simp
  qed
  then show ?thesis by (simp add: tag_specs_def Let_def trim_def)
qed

lemma recipe_text_parses:
  assumes "request_ok r" "sr_RecipePresent r"
  shows "ParseBase64String (recipe_text r) DefaultLimits
     = Inr \<lparr>bs_original = recipe_text r, bs_encoded = EncodeBase64 (sr_Recipe r), bs_decoded = sr_Recipe r\<rparr>"
proof -
  let ?n = "int (length (sr_Recipe r))"
  have n: "0 \<le> ?n" "?n \<le> 46080" "sr_Recipe r \<noteq> []" using assms by (simp_all add: request_ok_def)
  have "encoded_size ?n \<le> 61440" using n(2) by (simp add: encoded_size_def)
  then have "folded_size ?n \<le> 65536" unfolding folded_size_def using n(3) by simp
  then show ?thesis
    unfolding recipe_text_def using n
    by (intro FoldBase64_parses) (simp_all add: Limits_normalize_def Limits_Validate_def DefaultLimits_def)
qed

lemma hash_parses:
  assumes "length d = 32"
  shows "ParseBase64String (EncodeBase64 d) DefaultLimits = Inr (base64_of d)"
proof -
  have "d \<noteq> []" using assms by auto
  then have "parseGeneratedBase64 d = Inr (base64_of d)" using assms by (intro parseGeneratedBase64_exact) simp_all
  then show ?thesis by (simp add: parseGeneratedBase64_def split: sum.splits)
qed

definition rendered_field :: "SigningRequest \<Rightarrow> TagField" where
  "rendered_field r = \<lparr>fd_tags = rendered_tags r, fd_index = index_of (rendered_tags r)\<rparr>"

lemma wsp_TAB_SP [simp]: "isWSP TAB" "isWSP SP"
  by (simp_all add: isWSP_def)

lemma tag_spec_plain:
  assumes "isWSP a" "n = [c]" "isASCIILetter c" "tagNameByte c" "\<not> containsASCIIUpper n" "c \<in> {CHR ''m'', CHR ''h'', CHR ''r''}"
    and "trimmed v" "int (length v) \<le> 65536" "s = a # n @ CHR ''='' # v"
  shows "tag_spec knownMessageInstanceTags (Limits_normalize DefaultLimits) scanModeHeader s \<lparr>tag_name = n, tag_value = v, tag_known = True\<rparr>"
proof -
  have "\<exists>x b c' d. s = x @ n @ b @ CHR ''='' # c' @ v @ d \<and> wsp x \<and> wsp b \<and> wsp c' \<and> wsp d"
    by (rule exI [of _ "[a]"], rule exI [of _ "[]"], rule exI [of _ "[]"], rule exI [of _ "[]"]) (use assms in simp)
  moreover have "MaxTagNameBytes (Limits_normalize DefaultLimits) = 64" "MaxTagValueBytes (Limits_normalize DefaultLimits) = 65536"
    by (simp_all add: Limits_normalize_def DefaultLimits_def)
  ultimately show ?thesis
    using assms by (auto simp: tag_spec_def valid_tag_name_def KnownTags_Contains_def knownMessageInstanceTags_eq)
qed

lemma trimmed_plain: "s \<noteq> [] \<Longrightarrow> \<forall>b \<in> set s. \<not> isWSP b \<Longrightarrow> trimmed s"
  by (simp add: trimmed_def)

lemma rendered_scan:
  assumes "request_ok r" "sr_Number r < 2 ^ 64" "length (signing_field r) \<le> 65536"
  shows "ScanHeader (unfolded_value r) knownMessageInstanceTags DefaultLimits = Inr (rendered_field r)"
proof -
  let ?L = "Limits_normalize DefaultLimits"
  let ?s = "tag_spec knownMessageInstanceTags ?L scanModeHeader"
  let ?hv = "''sha256:'' @ EncodeBase64 (sr_HeaderHash r) @ '':'' @ EncodeBase64 (sr_BodyHash r)"
  have len: "length (unfolded_value r) \<le> 65536" using unfolded_value_length [OF assms(1)] assms(3) by simp
  have m: "?s ('' m='' @ dec_digits (sr_Number r)) \<lparr>tag_name = ''m'', tag_value = dec_digits (sr_Number r), tag_known = True\<rparr>"
  proof (rule tag_spec_plain [where a = SP and c = "CHR ''m''"])
    show "trimmed (dec_digits (sr_Number r))"
      by (rule trimmed_plain) (auto dest!: dec_digits_isDigit simp: isDigit_def isWSP_def octet_def)
    show "int (length (dec_digits (sr_Number r))) \<le> 65536" using len by (simp add: unfolded_value_def)
  qed (simp_all, code_simp+)
  have h: "?s (TAB # ''h='' @ ?hv) \<lparr>tag_name = ''h'', tag_value = ?hv, tag_known = True\<rparr>"
  proof (rule tag_spec_plain [where a = TAB and c = "CHR ''h''"])
    show "trimmed ?hv"
      by (rule trimmed_plain) (auto dest: EncodeBase64_octets(4) simp: isWSP_def)
    show "int (length ?hv) \<le> 65536" using len by (simp add: unfolded_value_def)
  qed (simp_all, code_simp+)
  have rr: "?s (TAB # ''r='' @ recipe_text r) \<lparr>tag_name = ''r'', tag_value = recipe_text r, tag_known = True\<rparr>" if "sr_RecipePresent r"
  proof (rule tag_spec_plain [where a = TAB and c = "CHR ''r''"])
    show "trimmed (recipe_text r)" using base64_chars(1) [OF recipe_text_parses [OF assms(1) that]] .
    show "int (length (recipe_text r)) \<le> 65536" using len that by (simp add: unfolded_value_def)
  qed (simp_all, code_simp+)
  have "list_all2 ?s (tag_specs (unfolded_value r)) (rendered_tags r)"
    unfolding rendered_specs rendered_tags_def using m h rr by simp
  moreover have "distinct (map tag_name (rendered_tags r))" "length (rendered_tags r) \<le> 3" by (simp_all add: rendered_tags_def)
  moreover have "Limits_Validate ?L = None" "MaxFieldValueBytes ?L = 65536" "MaxTags ?L = 64"
    by (simp_all add: Limits_normalize_def DefaultLimits_def Limits_Validate_def)
  ultimately show ?thesis
    unfolding ScanHeader_def scan_Inr_iff scanInput_Inr_iff
    using len unfolded_value_clean [of r] by (simp add: rendered_field_def)
qed

section \<open>Parsing the rendered field\<close>

definition parsed_instance :: "nat \<Rightarrow> SigningRequest \<Rightarrow> MessageInstance" where
  "parsed_instance i r = (request_instance r)\<lparr>mi_headerIndex := int i,
     mi_recipe := (if sr_RecipePresent r
       then \<lparr>bs_original = recipe_text r, bs_encoded = EncodeBase64 (sr_Recipe r), bs_decoded = sr_Recipe r\<rparr> else zeroBase64)\<rparr>"

lemma rendered_hash_value:
  assumes "request_ok r"
  shows "hash_value DefaultInstanceLimits (''sha256:'' @ EncodeBase64 (sr_HeaderHash r) @ '':'' @ EncodeBase64 (sr_BodyHash r))
     (mi_hashes (request_instance r)) (mi_hashLayout (request_instance r))"
proof -
  let ?h = "EncodeBase64 (sr_HeaderHash r)" and ?b = "EncodeBase64 (sr_BodyHash r)"
  let ?v = "''sha256:'' @ ?h @ '':'' @ ?b"
  let ?hs = "mi_hashes (request_instance r) ! 0"
  have len: "length (sr_HeaderHash r) = 32" "length (sr_BodyHash r) = 32" using assms by (simp_all add: request_ok_def)
  have "plain_set ?v"
    using EncodeBase64_octets(3) by (auto simp: plain_set_def isSeparator_def AllSeparator_def AnySeparator_def)
  then have g: "groups_of ?v = [[?v]]" using groups_of_plain_prefix [of ?v "[]" "[]" "[]" "[]"] by simp
  have "\<not> wsp ?v" by (simp add: isWSP_def)
  then have "groups_ok [[?v]]" using \<open>plain_set ?v\<close> by (simp add: groups_ok_def)
  moreover obtain l where l: "SingleGroup 1 = Some l" using SingleGroup_one by blast
  moreover have "SingleGroup 1 = (if sizes_ok [1] then Some (layout_of [1]) else None)" by (simp add: SingleGroup_def NewLayout_eq)
  ultimately have s: "Split ?v = Some ([?v], mi_hashLayout (request_instance r))"
    by (simp only: Split_eq g) (simp add: request_instance_def split: if_splits)
  have shape: "\<exists>a b c. ?v = a @ ''sha256'' @ b @ CHR '':'' # ?h @ CHR '':'' # ?b @ c \<and> wsp a \<and> wsp b \<and> wsp c"
    by (rule exI [of _ "[]"], rule exI [of _ "[]"], rule exI [of _ "[]"]) simp
  have "textstring ''sha256''" by (simp add: textstring_def isASCIILetter_def isASCIIDigit_def octet_def)
  then have "hash_set DefaultLimits ?v ?hs"
    using shape hash_parses len
    by (simp add: hash_set_def request_instance_def Base64String_DecodedLen_def base64_of_def)
  moreover have "mi_hashes (request_instance r) = [?hs]" by (simp add: request_instance_def)
  ultimately obtain h0 where "mi_hashes (request_instance r) = [h0]" "hash_set DefaultLimits ?v h0" by blast
  then have "list_all2 (hash_set DefaultLimits) [?v] (mi_hashes (request_instance r)) \<and> distinct (map hs_name (mi_hashes (request_instance r)))"
    by simp
  moreover have "inl_TagLimits DefaultInstanceLimits = DefaultLimits" "int (length [?v]) \<le> inl_MaxHashSets DefaultInstanceLimits"
    by (simp_all add: DefaultInstanceLimits_def maxHashSetsHard_def)
  ultimately show ?thesis unfolding hash_value_def using s by (metis (no_types, lifting))
qed

lemma rendered_instance_of_tags:
  assumes "request_ok r" "sr_Number r < 2 ^ 64"
  shows "instance_of_tags DefaultInstanceLimits (rendered_field r) (parsed_instance i r)"
proof -
  have m: "has_tag (rendered_field r) ''m'' (dec_digits (sr_Number r))"
    "has_tag (rendered_field r) ''h'' (''sha256:'' @ EncodeBase64 (sr_HeaderHash r) @ '':'' @ EncodeBase64 (sr_BodyHash r))"
    "has_tag (rendered_field r) ''r'' v \<longleftrightarrow> sr_RecipePresent r \<and> v = recipe_text r" for v
    by (auto simp: has_tag_def rendered_field_def rendered_tags_def)
  have "positive_number (dec_digits (sr_Number r)) (sr_Number r)"
    using assms dec_digits_isDigit by (auto simp: positive_number_def dec_digits_value list_all_iff request_ok_def)
  moreover have "inl_TagLimits DefaultInstanceLimits = DefaultLimits" by (simp add: DefaultInstanceLimits_def)
  moreover have "mi_number (parsed_instance i r) = sr_Number r" "mi_hashes (parsed_instance i r) = mi_hashes (request_instance r)"
    "mi_hashLayout (parsed_instance i r) = mi_hashLayout (request_instance r)" "mi_hasRecipe (parsed_instance i r) = sr_RecipePresent r"
    by (simp_all add: parsed_instance_def request_instance_def)
  ultimately show ?thesis
    unfolding instance_of_tags_def using m rendered_hash_value [OF assms(1)] recipe_text_parses [OF assms(1)]
    by (auto simp: parsed_instance_def)
qed

text \<open>The parser of \<open>Parse\<close> has zero tag limits, which the tag scanner replaces by its defaults.\<close>

definition zeroTagLimits :: Limits where
  "zeroTagLimits = \<lparr>MaxFieldValueBytes = 0, MaxTags = 0, MaxTagNameBytes = 0, MaxTagValueBytes = 0, MaxBase64DecodedBytes = 0\<rparr>"

lemma zeroTagLimits_default:
  "ScanHeader v known zeroTagLimits = ScanHeader v known DefaultLimits" "ParseBase64String x zeroTagLimits = ParseBase64String x DefaultLimits"
proof -
  have n: "Limits_normalize zeroTagLimits = Limits_normalize DefaultLimits"
    by (simp add: Limits_normalize_def zeroTagLimits_def DefaultLimits_def)
  show "ScanHeader v known zeroTagLimits = ScanHeader v known DefaultLimits" by (simp add: ScanHeader_def scan_def n)
  show "ParseBase64String x zeroTagLimits = ParseBase64String x DefaultLimits"
    by (simp add: ParseBase64String_def parseBase64String_def n)
qed

lemma Instance_Parse_Inr_iff:
  "Instance_Parse field = Inr m \<longleftrightarrow> ParseField \<lparr>ip_limits = DefaultInstanceLimits\<rparr> field = Inr m"
proof -
  let ?p = "DefaultInstanceLimits\<lparr>inl_TagLimits := zeroTagLimits\<rparr>"
  have "Instance_Parse field = Inr m \<longleftrightarrow> ParseField \<lparr>ip_limits = ?p\<rparr> field = Inr m"
    by (simp add: Instance_Parse_def NewInstanceParser_def InstanceLimits_normalize_def InstanceLimits_Validate_def
        DefaultInstanceLimits_def maxHashSetsHard_def maxInstancesHard_def zeroTagLimits_def Let_def)
  moreover have "hash_set zeroTagLimits = hash_set DefaultLimits" by (simp add: fun_eq_iff hash_set_def zeroTagLimits_default)
  then have "instance_of_tags ?p f m \<longleftrightarrow> instance_of_tags DefaultInstanceLimits f m" for f
    by (simp add: instance_of_tags_def hash_value_def zeroTagLimits_default DefaultInstanceLimits_def)
  ultimately show ?thesis by (simp add: ParseField_Inr_iff zeroTagLimits_default DefaultInstanceLimits_def)
qed

text \<open>What a rendered field parses to, as a header field at any position.\<close>

theorem rendered_field_parses:
  assumes "request_ok r" "sr_Number r < 2 ^ 64" "length (signing_field r) \<le> 65536"
  shows "Instance_Parse (rendered_header i r) = Inr (parsed_instance i r)"
proof -
  have l: "inl_TagLimits DefaultInstanceLimits = DefaultLimits" by (simp add: DefaultInstanceLimits_def)
  have "ParseField \<lparr>ip_limits = DefaultInstanceLimits\<rparr> (rendered_header i r) = Inr (parsed_instance i r)"
    unfolding ParseField_Inr_iff
    using rendered_scan [OF assms] rendered_instance_of_tags [OF assms(1,2), of i]
    by (simp add: rendered_header_def parsed_instance_def l)
  then show ?thesis by (simp add: Instance_Parse_Inr_iff)
qed

end
