(* ===== verification/Instance_Sequence.thy ===== *)
theory Instance_Sequence
  imports Instance_Syntax "HOL-Library.AList"
begin

text \<open>
  Sequences of Message-Instance fields (\<open>collection.go\<close>, \<open>collection_type.go\<close>): extraction from a message,
  the contiguity of the m= numbers, and the collection that is looked up by number.
\<close>

section \<open>Validation (\<open>collection.go\<close>)\<close>

definition newSequenceError :: "InstanceErrorCode \<Rightarrow> int \<Rightarrow> nat \<Rightarrow> nat \<Rightarrow> int \<Rightarrow> InstanceError" where
  "newSequenceError code fieldIndex expected observed duplicateOf =
     (let details = noInstanceDetails\<lparr>id_Class := InstClassMalformed, id_TagName := ''m'', id_ExpectedNumber := expected,
            id_ObservedNumber := observed\<rparr>;
          details' = (if code = InstDuplicateNumber
            then details\<lparr>id_Class := InstClassDuplicate, id_Count := duplicateOf + 1\<rparr> else details)
      in newInstanceError code (fieldLocation fieldIndex) details' None)"

definition firstInstanceIndex :: "MessageInstance list \<Rightarrow> int" where
  "firstInstanceIndex instances = (case instances of [] \<Rightarrow> 0 | m # _ \<Rightarrow> mi_headerIndex m)"

definition lowestObservedNumber :: "MessageInstance list \<Rightarrow> nat" where
  "lowestObservedNumber instances =
     fold (\<lambda>m lowest. if mi_number m < lowest then mi_number m else lowest) (tl instances) (mi_number (hd instances))"

definition nextObservedNumber :: "MessageInstance list \<Rightarrow> nat \<Rightarrow> nat \<times> int" where
  "nextObservedNumber instances expected =
     fold (\<lambda>m (observed, fieldIndex).
        if mi_number m \<le> expected then (observed, fieldIndex)
        else if observed = 0 \<or> mi_number m < observed then (mi_number m, mi_headerIndex m)
        else (observed, fieldIndex)) instances (0, firstInstanceIndex instances)"

fun seenLoop :: "MessageInstance list \<Rightarrow> (nat \<rightharpoonup> int) \<Rightarrow> nat \<Rightarrow> (InstanceError, (nat \<rightharpoonup> int) \<times> nat) result" where
  "seenLoop [] seen maxNumber = Inr (seen, maxNumber)"
| "seenLoop (m # ms) seen maxNumber =
     (case seen (mi_number m) of
        Some firstIndex \<Rightarrow>
          Inl (newSequenceError InstDuplicateNumber (mi_headerIndex m) (mi_number m) (mi_number m) firstIndex)
      | None \<Rightarrow>
          seenLoop ms (seen(mi_number m \<mapsto> mi_headerIndex m)) (if mi_number m > maxNumber then mi_number m else maxNumber))"

fun gapLoop :: "MessageInstance list \<Rightarrow> (nat \<rightharpoonup> int) \<Rightarrow> nat list \<Rightarrow> InstanceError option" where
  "gapLoop instances seen [] = None"
| "gapLoop instances seen (expected # rest) =
     (if seen expected \<noteq> None then gapLoop instances seen rest
      else case nextObservedNumber instances expected of (observed, fieldIndex) \<Rightarrow>
        Some (newSequenceError InstSequenceGap fieldIndex expected observed 0))"

definition tooManyInstances :: "int \<Rightarrow> nat \<Rightarrow> InstanceError" where
  "tooManyInstances limit n =
     newInstanceError InstLimitExceeded (fieldLocation 0)
       (noInstanceDetails\<lparr>id_Class := InstClassLimit, id_LimitName := ''max_instances'', id_Limit := limit, id_Count := int n\<rparr>) None"

definition ValidateSequence :: "MessageInstance list \<Rightarrow> InstanceError option" where
  "ValidateSequence instances =
     (if instances = [] then None
      else if int (length instances) > maxInstancesHard then Some (tooManyInstances maxInstancesHard (length instances))
      else case seenLoop instances Map.empty 0 of
        Inl e \<Rightarrow> Some e
      | Inr (seen, maxNumber) \<Rightarrow>
          if seen 1 = None
          then Some (newSequenceError InstMissingOrigin (firstInstanceIndex instances) 1 (lowestObservedNumber instances) 0)
          else if maxNumber \<noteq> length instances
          then (case gapLoop instances seen [1..<length instances + 1] of
                  Some e \<Rightarrow> Some e
                | None \<Rightarrow> Some (newSequenceError InstSequenceGap (firstInstanceIndex instances) (length instances) maxNumber 0))
          else None)"

fun parseFieldsLoop :: "InstanceParser \<Rightarrow> HeaderField list \<Rightarrow> (InstanceFailure, MessageInstance list) result" where
  "parseFieldsLoop p [] = Inr []"
| "parseFieldsLoop p (field # fs) =
     res_bind (ParseField p field) (\<lambda>m. res_bind (parseFieldsLoop p fs) (\<lambda>ms. Inr (m # ms)))"

definition Extract :: "InstanceParser \<Rightarrow> Message \<Rightarrow> (InstanceFailure, MessageInstance list) result" where
  "Extract p msg =
     (let fs = FieldsByName (msg_headers msg) HeaderName in
      if int (length fs) > inl_MaxInstances (ip_limits p)
      then Inl (InstanceFailed (tooManyInstances (inl_MaxInstances (ip_limits p)) (length fs)))
      else res_bind (parseFieldsLoop p fs) (\<lambda>instances.
        case ValidateSequence instances of Some e \<Rightarrow> Inl (InstanceFailed e) | None \<Rightarrow> Inr instances))"

definition ExtractDefault :: "Message \<Rightarrow> (InstanceFailure, MessageInstance list) result" where
  "ExtractDefault msg =
     res_bind (lift_instance (NewInstanceParser \<lparr>inl_TagLimits = \<lparr>MaxFieldValueBytes = 0, MaxTags = 0, MaxTagNameBytes = 0,
         MaxTagValueBytes = 0, MaxBase64DecodedBytes = 0\<rparr>, inl_MaxHashSets = 0, inl_MaxInstances = 0\<rparr>))
       (\<lambda>p. Extract p msg)"

section \<open>Collections (\<open>collection_type.go\<close>)\<close>

record InstanceCollection =
  ic_items :: "MessageInstance list"
  ic_byNumber :: "(nat \<times> nat) list"
  ic_highest :: nat
  ic_initialized :: bool

fun collectLoop :: "MessageInstance list \<Rightarrow> nat \<Rightarrow> (nat \<times> nat) list \<Rightarrow> nat \<Rightarrow> (nat \<times> nat) list \<times> nat" where
  "collectLoop [] index byNumber highest = (byNumber, highest)"
| "collectLoop (m # ms) index byNumber highest =
     collectLoop ms (Suc index) (AList.update (mi_number m) index byNumber)
       (if mi_number m > highest then mi_number m else highest)"

definition NewInstanceCollection :: "MessageInstance list \<Rightarrow> (InstanceError, InstanceCollection) result" where
  "NewInstanceCollection items =
     (if items = []
      then Inl (newInstanceError InstMissingOrigin (fieldLocation 0) (noInstanceDetails\<lparr>id_Class := InstClassMalformed\<rparr>) None)
      else case ValidateSequence items of
        Some e \<Rightarrow> Inl e
      | None \<Rightarrow>
          (case collectLoop items 0 [] 0 of (byNumber, highest) \<Rightarrow>
             Inr \<lparr>ic_items = items, ic_byNumber = byNumber, ic_highest = highest, ic_initialized = True\<rparr>))"

definition InstanceCollection_Valid :: "InstanceCollection \<Rightarrow> bool" where
  "InstanceCollection_Valid c \<longleftrightarrow> ic_initialized c \<and> length (ic_items c) > 0 \<and> length (ic_byNumber c) = length (ic_items c)
     \<and> ic_highest c = length (ic_items c)"

definition InstanceCollection_Len :: "InstanceCollection \<Rightarrow> nat" where
  "InstanceCollection_Len c = length (ic_items c)"

definition HighestNumber :: "InstanceCollection \<Rightarrow> nat" where
  "HighestNumber c = ic_highest c"

definition ByNumber :: "InstanceCollection \<Rightarrow> nat \<Rightarrow> MessageInstance option" where
  "ByNumber c number =
     (if \<not> InstanceCollection_Valid c then None
      else case map_of (ic_byNumber c) number of
        None \<Rightarrow> None
      | Some index \<Rightarrow> if index \<ge> length (ic_items c) then None else Some (ic_items c ! index))"

section \<open>Contiguity\<close>

abbreviation numbers :: "MessageInstance list \<Rightarrow> nat list" where
  "numbers ms \<equiv> map mi_number ms"

lemma seenLoop_Inr_iff:
  "seenLoop ms seen k = Inr (seen', k') \<longleftrightarrow>
     distinct (numbers ms) \<and> set (numbers ms) \<inter> dom seen = {}
     \<and> seen' = seen ++ map_of (rev (zip (numbers ms) (map mi_headerIndex ms))) \<and> k' = fold max (numbers ms) k"
proof (induction ms arbitrary: seen k)
  case (Cons m ms)
  show ?case
  proof (cases "seen (mi_number m)")
    case None
    have "(seen(mi_number m \<mapsto> mi_headerIndex m)) ++ f = seen ++ ([mi_number m \<mapsto> mi_headerIndex m] ++ f)" for f
      by (simp add: map_add_def fun_eq_iff split: option.splits)
    with None show ?thesis
      by (auto simp: Cons.IH max_def domIff map_add_assoc fun_upd_def [symmetric])
  next
    case (Some i)
    then show ?thesis by (auto simp: domIff)
  qed
qed auto

lemma seenLoop_Inl: "seenLoop ms seen k = Inl e \<Longrightarrow> ie_code e = InstDuplicateNumber"
  by (induction ms seen k rule: seenLoop.induct) (auto simp: newSequenceError_def Let_def split: option.splits)

lemma dom_seen: "dom (map_of (rev (zip (numbers ms) (map mi_headerIndex ms)))) = set (numbers ms)"
proof -
  have "fst ` set (zip (numbers ms) (map mi_headerIndex ms)) = set (map fst (zip (numbers ms) (map mi_headerIndex ms)))"
    by (simp only: set_map)
  then show ?thesis by (simp add: dom_map_of_conv_image_fst)
qed

lemma fold_max_eq: "ns \<noteq> [] \<Longrightarrow> fold max ns 0 = Max (set (ns :: nat list))"
proof -
  assume "ns \<noteq> []"
  then show ?thesis using Max.set_eq_fold [of 0 ns] by simp
qed

text \<open>Distinct positive numbers fill an initial segment exactly when the greatest is their count.\<close>

lemma contiguous_iff:
  assumes "distinct ns" "0 \<notin> set ns" "ns \<noteq> []"
  shows "Max (set ns) = length ns \<longleftrightarrow> set ns = {1..length ns}"
proof
  assume m: "Max (set ns) = length ns"
  have "set ns \<subseteq> {1..length ns}"
  proof
    fix n assume n: "n \<in> set ns"
    then have "n \<le> length ns" using m Max_ge [of "set ns" n] by simp
    moreover have "n \<noteq> 0" using n assms(2) by metis
    ultimately show "n \<in> {1..length ns}" by simp
  qed
  moreover have "card (set ns) = card {1..length ns}" using assms(1) by (simp add: distinct_card)
  ultimately show "set ns = {1..length ns}" by (simp add: card_subset_eq)
next
  assume s: "set ns = {1..length ns}"
  have "1 \<le> length ns" using assms(3) by (cases ns) auto
  then show "Max (set ns) = length ns" unfolding s by (intro Max_eqI) auto
qed

lemma distinct_of_range: "set ns = {1..length ns} \<Longrightarrow> distinct ns"
  by (metis card_atLeastAtMost card_distinct diff_Suc_1)

definition first_missing :: "nat list \<Rightarrow> nat \<Rightarrow> bool" where
  "first_missing ns n \<longleftrightarrow> 0 < n \<and> n \<notin> set ns \<and> {1..<n} \<subseteq> set ns"

lemma gapLoop_eq:
  "dom seen = set (numbers instances) \<Longrightarrow> {1..<k} \<subseteq> set (numbers instances) \<Longrightarrow> 0 < k \<Longrightarrow> k \<le> l \<Longrightarrow>
    (case gapLoop instances seen [k..<l] of
       None \<Rightarrow> {1..<l} \<subseteq> set (numbers instances)
     | Some e \<Rightarrow> ie_code e = InstSequenceGap \<and> first_missing (numbers instances) (id_ExpectedNumber (ie_details e))
         \<and> id_ExpectedNumber (ie_details e) < l)"
proof (induction "l - k" arbitrary: k)
  case 0
  then show ?case by simp
next
  case (Suc n)
  then have up: "[k..<l] = k # [Suc k..<l]" by (simp add: upt_rec)
  show ?case
  proof (cases "seen k = None")
    case True
    then have "first_missing (numbers instances) k" using Suc.prems by (auto simp: first_missing_def domIff)
    then show ?thesis using True Suc.hyps(2) unfolding up
      by (auto simp: newSequenceError_def newInstanceError_def sanitizeInstanceDetails_def noInstanceDetails_def Let_def
          InstanceErrorCode_Known_def split: prod.splits)
  next
    case False
    then have "{1..<Suc k} \<subseteq> set (numbers instances)" using Suc.prems by (auto simp: atLeastLessThanSuc domIff)
    then show ?thesis using Suc.hyps(1) [of "Suc k"] Suc.hyps(2) Suc.prems False unfolding up by simp
  qed
qed

lemma ValidateSequence_cases:
  assumes "0 \<notin> set (numbers ms)"
  shows "case ValidateSequence ms of
      None \<Rightarrow> length ms \<le> 128 \<and> set (numbers ms) = {1..length ms}
    | Some e \<Rightarrow>
        if length ms > 128 then ie_code e = InstLimitExceeded
        else if \<not> distinct (numbers ms) then ie_code e = InstDuplicateNumber
        else if 1 \<notin> set (numbers ms) then ie_code e = InstMissingOrigin
        else ie_code e = InstSequenceGap \<and> first_missing (numbers ms) (id_ExpectedNumber (ie_details e))
          \<and> id_ExpectedNumber (ie_details e) \<le> length ms"
proof (cases "ms = [] \<or> length ms > 128")
  case True
  then show ?thesis by (auto simp: ValidateSequence_def maxInstancesHard_def tooManyInstances_def)
next
  case False
  then have start: "ms \<noteq> []" "\<not> int (length ms) > maxInstancesHard" by (simp_all add: maxInstancesHard_def)
  show ?thesis
  proof (cases "seenLoop ms Map.empty 0")
    case (Inl e)
    then have "\<not> distinct (numbers ms)" using seenLoop_Inr_iff [of ms Map.empty 0] by auto
    then show ?thesis using start Inl seenLoop_Inl [OF Inl] False by (simp add: ValidateSequence_def)
  next
    case (Inr r)
    obtain seen k where r: "r = (seen, k)" by fastforce
    have d: "distinct (numbers ms)" "dom seen = set (numbers ms)" "k = Max (set (numbers ms))"
      using Inr start(1) fold_max_eq [of "numbers ms"] by (simp_all add: r seenLoop_Inr_iff dom_seen)
    have k: "k = length ms \<longleftrightarrow> set (numbers ms) = {1..length ms}"
      using contiguous_iff [OF d(1) assms] start(1) d(3) by simp
    have gap: "case gapLoop ms seen [1..<length ms + 1] of None \<Rightarrow> {1..<length ms + 1} \<subseteq> set (numbers ms)
       | Some e \<Rightarrow> ie_code e = InstSequenceGap \<and> first_missing (numbers ms) (id_ExpectedNumber (ie_details e))
           \<and> id_ExpectedNumber (ie_details e) < length ms + 1"
      using gapLoop_eq [OF d(2), of 1 "length ms + 1"] by simp
    have full: "\<not> {1..<length ms + 1} \<subseteq> set (numbers ms)" if "k \<noteq> length ms"
    proof
      assume "{1..<length ms + 1} \<subseteq> set (numbers ms)"
      moreover have "card (set (numbers ms)) = card {1..<length ms + 1}" using d(1) by (simp add: distinct_card [of "numbers ms", simplified])
      ultimately have "{1..<length ms + 1} = set (numbers ms)" by (intro card_subset_eq) auto
      then show False using that k by (simp add: atLeastLessThanSuc_atLeastAtMost)
    qed
    have one: "seen 1 = None \<longleftrightarrow> 1 \<notin> set (numbers ms)" using d(2) by (metis domIff)
    note seq = newSequenceError_def Let_def
    show ?thesis
      using start Inr d(1) k gap full one False
      by (auto simp: r ValidateSequence_def seq split: option.splits)
  qed
qed

lemma ValidateSequence_None_iff:
  assumes "0 \<notin> set (numbers ms)"
  shows "ValidateSequence ms = None \<longleftrightarrow> length ms \<le> 128 \<and> set (numbers ms) = {1..length ms}"
proof (cases "ValidateSequence ms")
  case None
  then show ?thesis using ValidateSequence_cases [OF assms] by simp
next
  case (Some e)
  have "\<not> (length ms \<le> 128 \<and> set (numbers ms) = {1..length ms})"
  proof
    assume r: "length ms \<le> 128 \<and> set (numbers ms) = {1..length ms}"
    then have d: "distinct (numbers ms)" using distinct_of_range [of "numbers ms"] by simp
    show False
    proof (cases "ms = []")
      case True
      then show False using Some by (simp add: ValidateSequence_def)
    next
      case False
      then have "1 \<in> set (numbers ms)" using r by (cases ms) auto
      then have "first_missing (numbers ms) (id_ExpectedNumber (ie_details e))" "id_ExpectedNumber (ie_details e) \<le> length ms"
        using ValidateSequence_cases [OF assms] Some r d by simp_all
      then show False using r by (auto simp: first_missing_def)
    qed
  qed
  then show ?thesis using Some by simp
qed

section \<open>Collections\<close>

lemma collectLoop_eq:
  "distinct (numbers ms) \<Longrightarrow> set (numbers ms) \<inter> fst ` set al = {} \<Longrightarrow>
     collectLoop ms i al k = (al @ zip (numbers ms) [i..<i + length ms], fold max (numbers ms) k)"
proof (induction ms arbitrary: i al k)
  case (Cons m ms)
  have upd: "AList.update (mi_number m) i al = al @ [(mi_number m, i)]"
    using Cons.prems(2) by (induction al) auto
  have "[i..<i + length (m # ms)] = i # [Suc i..<Suc i + length ms]" by (simp add: upt_rec)
  then show ?case
    using Cons.prems Cons.IH [of "al @ [(mi_number m, i)]" "Suc i"] unfolding collectLoop.simps upd
    by (auto simp: max_def)
qed simp

lemma NewInstanceCollection_Inr_iff:
  assumes "0 \<notin> set (numbers ms)"
  shows "NewInstanceCollection ms = Inr c \<longleftrightarrow> ms \<noteq> [] \<and> length ms \<le> 128 \<and> set (numbers ms) = {1..length ms}
    \<and> c = \<lparr>ic_items = ms, ic_byNumber = zip (numbers ms) [0..<length ms], ic_highest = length ms, ic_initialized = True\<rparr>"
proof -
  have "collectLoop ms 0 [] 0 = (zip (numbers ms) [0..<length ms], length ms)"
    if "ms \<noteq> []" "set (numbers ms) = {1..length ms}"
  proof -
    have d: "distinct (numbers ms)" using distinct_of_range [of "numbers ms"] that(2) by simp
    then have "Max (set (numbers ms)) = length ms" using contiguous_iff [OF d assms] that by simp
    then show ?thesis using collectLoop_eq [OF d, of "[]" 0 0] fold_max_eq [of "numbers ms"] that(1) by simp
  qed
  then show ?thesis
    using ValidateSequence_None_iff [OF assms] by (auto simp: NewInstanceCollection_def split: option.splits)
qed

lemma ByNumber_eq:
  assumes "0 \<notin> set (numbers ms)" "NewInstanceCollection ms = Inr c"
  shows "ByNumber c n = Some m \<longleftrightarrow> m \<in> set ms \<and> mi_number m = n"
proof -
  have c: "ms \<noteq> []" "set (numbers ms) = {1..length ms}"
    "c = \<lparr>ic_items = ms, ic_byNumber = zip (numbers ms) [0..<length ms], ic_highest = length ms, ic_initialized = True\<rparr>"
    using assms by (simp_all add: NewInstanceCollection_Inr_iff)
  have d: "distinct (numbers ms)" using distinct_of_range [of "numbers ms"] c(2) by simp
  have look: "map_of (zip (numbers ms) [0..<length ms]) n = Some i \<longleftrightarrow> i < length ms \<and> mi_number (ms ! i) = n" for i
    using map_of_eq_Some_iff [of "zip (numbers ms) [0..<length ms]" n i] d by (auto simp: in_set_zip intro!: exI [of _ i])
  have "ByNumber c n = Some m \<longleftrightarrow> (\<exists>i. map_of (zip (numbers ms) [0..<length ms]) n = Some i \<and> i < length ms \<and> ms ! i = m)"
  proof -
    define al where "al = zip (numbers ms) [0..<length ms]"
    then have "length al = length ms" by simp
    then show ?thesis using c(1) unfolding ByNumber_def InstanceCollection_Valid_def c(3) al_def [symmetric]
      by (auto split: option.splits)
  qed
  then show ?thesis unfolding look in_set_conv_nth by blast
qed

section \<open>Extraction\<close>

lemma parseFieldsLoop_Inr_iff: "parseFieldsLoop p fs = Inr ms \<longleftrightarrow> list_all2 (\<lambda>f m. ParseField p f = Inr m) fs ms"
proof (induction fs arbitrary: ms)
  case (Cons f fs)
  have "parseFieldsLoop p (f # fs) = Inr ms \<longleftrightarrow> (\<exists>m ms'. ms = m # ms' \<and> ParseField p f = Inr m \<and> parseFieldsLoop p fs = Inr ms')"
    by (auto simp: res_bind_def split: sum.splits)
  then show ?case unfolding Cons.IH list_all2_Cons1 by auto
qed auto

lemma parsed_positive: "list_all2 (\<lambda>f m. ParseField p f = Inr m) fs ms \<Longrightarrow> 0 \<notin> set (numbers ms)"
  by (induction rule: list_all2_induct) (auto simp: ParseField_Inr_iff instance_of_tags_def positive_number_def)

lemma Extract_Inr_iff:
  "Extract p msg = Inr ms \<longleftrightarrow>
     list_all2 (\<lambda>f m. ParseField p f = Inr m) (FieldsByName (msg_headers msg) HeaderName) ms
     \<and> int (length ms) \<le> inl_MaxInstances (ip_limits p) \<and> length ms \<le> 128 \<and> set (numbers ms) = {1..length ms}"
proof -
  have "Extract p msg = Inr ms \<longleftrightarrow> int (length (FieldsByName (msg_headers msg) HeaderName)) \<le> inl_MaxInstances (ip_limits p)
      \<and> parseFieldsLoop p (FieldsByName (msg_headers msg) HeaderName) = Inr ms \<and> ValidateSequence ms = None"
    by (auto simp: Extract_def Let_def res_bind_def split: sum.splits option.splits)
  also have "\<dots> \<longleftrightarrow> list_all2 (\<lambda>f m. ParseField p f = Inr m) (FieldsByName (msg_headers msg) HeaderName) ms
      \<and> int (length ms) \<le> inl_MaxInstances (ip_limits p) \<and> ValidateSequence ms = None"
    unfolding parseFieldsLoop_Inr_iff by (auto dest: list_all2_lengthD)
  finally show ?thesis using parsed_positive [of p _ ms] ValidateSequence_None_iff [of ms] by blast
qed

end
