(* ===== verification/Instance_Properties.thy ===== *)
theory Instance_Properties
  imports Instance_Roundtrip Instance_Sequence
begin

text \<open>
  Properties of Message-Instance fields: what the parser accepts, which sequences of instances a message may
  carry and how they are looked up, and that rendering, its preflight and parsing agree.
\<close>

text \<open>
  C20: A Message-Instance field is accepted exactly when it has the name, its value is a tag list whose m= is a
  positive decimal number below 2^64 and whose h= is a grouped list of at most sixteen hash sets with distinct
  names, each a name and two canonical Base64 values (of the digest's length when the algorithm is known), and
  its r=, when present, is canonical Base64; the instance returned holds exactly these values.
\<close>

theorem instance_parse_exact:
  "Instance_Parse field = Inr m \<longleftrightarrow> hf_nameLower field = HeaderName \<and> mi_headerIndex m = int (hf_index field)
     \<and> (\<exists>f. ScanHeader (hf_unfoldedValue field) knownMessageInstanceTags DefaultLimits = Inr f
          \<and> instance_of_tags DefaultInstanceLimits f m)"
  unfolding Instance_Parse_Inr_iff ParseField_Inr_iff by (simp add: DefaultInstanceLimits_def)

text \<open>
  C21: The instances extracted from a message with the default limits are exactly its parsed Message-Instance
  fields in order, and extraction succeeds exactly when all of them parse, there are at most 128, and their
  numbers are 1 to n without a gap or a duplicate.
\<close>

theorem extract_exact:
  "ExtractDefault msg = Inr ms \<longleftrightarrow>
     list_all2 (\<lambda>f m. Instance_Parse f = Inr m) (FieldsByName (msg_headers msg) HeaderName) ms
     \<and> length ms \<le> 128 \<and> set (numbers ms) = {1..length ms}"
proof -
  let ?p = "\<lparr>ip_limits = DefaultInstanceLimits\<lparr>inl_TagLimits := zeroTagLimits\<rparr>\<rparr>"
  have p: "NewInstanceParser \<lparr>inl_TagLimits = zeroTagLimits, inl_MaxHashSets = 0, inl_MaxInstances = 0\<rparr> = Inr ?p"
    by (simp add: NewInstanceParser_def InstanceLimits_normalize_def InstanceLimits_Validate_def DefaultInstanceLimits_def
        maxHashSetsHard_def maxInstancesHard_def Let_def)
  have f: "Instance_Parse f = ParseField ?p f" for f
    unfolding Instance_Parse_def zeroTagLimits_def [symmetric] p by simp
  have n: "inl_MaxInstances DefaultInstanceLimits = 128" by (simp add: DefaultInstanceLimits_def maxInstancesHard_def)
  have "ExtractDefault msg = Extract ?p msg"
    unfolding ExtractDefault_def zeroTagLimits_def [symmetric] p by simp
  then show ?thesis by (auto simp: Extract_Inr_iff f n)
qed

text \<open>
  C22: Validation of parsed instances names the first violated rule: too many instances, a duplicate number, no
  origin, or a gap, and then reports the smallest missing number.
\<close>

theorem sequence_exact:
  assumes "0 \<notin> set (numbers ms)"
  shows "case ValidateSequence ms of
      None \<Rightarrow> length ms \<le> 128 \<and> set (numbers ms) = {1..length ms}
    | Some e \<Rightarrow>
        if length ms > 128 then ie_code e = InstLimitExceeded
        else if \<not> distinct (numbers ms) then ie_code e = InstDuplicateNumber
        else if 1 \<notin> set (numbers ms) then ie_code e = InstMissingOrigin
        else ie_code e = InstSequenceGap \<and> first_missing (numbers ms) (id_ExpectedNumber (ie_details e))
          \<and> id_ExpectedNumber (ie_details e) \<le> length ms"
  using assms by (rule ValidateSequence_cases)

definition numbered :: "nat \<Rightarrow> MessageInstance" where
  "numbered n = \<lparr>mi_number = n, mi_hashes = [], mi_hashLayout = zeroLayout, mi_recipe = zeroBase64, mi_hasRecipe = False,
     mi_headerIndex = int n\<rparr>"

theorem sequence_exact_witness:
  "map_option (\<lambda>e. (ie_code e, id_ExpectedNumber (ie_details e))) (ValidateSequence [numbered 1, numbered 4, numbered 3])
     = Some (InstSequenceGap, 2)
   \<and> first_missing (numbers [numbered 1, numbered 4, numbered 3]) 2"
proof -
  let ?ms = "[numbered 1, numbered 4, numbered 3]"
  have "0 \<notin> set (numbers ?ms)" by (simp add: numbered_def)
  note e = sequence_exact [OF this]
  have v: "map_option (\<lambda>e. (ie_code e, id_ExpectedNumber (ie_details e))) (ValidateSequence ?ms) = Some (InstSequenceGap, 2)"
    by code_simp
  then obtain err where "ValidateSequence ?ms = Some err" "id_ExpectedNumber (ie_details err) = 2" by auto
  with e v show ?thesis by (simp add: numbered_def)
qed

text \<open>
  C23: A collection is built from exactly the nonempty gap-free sequences within the limit: instances with a
  repeated number, without number 1 or with a gap are refused. In every collection built, looking a number up
  finds the instance with that number and nothing else, and the highest number is the length.
\<close>

theorem lookup_exact:
  assumes "0 \<notin> set (numbers ms)"
  shows "((\<exists>c. NewInstanceCollection ms = Inr c) \<longleftrightarrow> ms \<noteq> [] \<and> length ms \<le> 128 \<and> set (numbers ms) = {1..length ms})
     \<and> (\<forall>c. NewInstanceCollection ms = Inr c \<longrightarrow> InstanceCollection_Valid c
          \<and> HighestNumber c = length ms \<and> InstanceCollection_Len c = length ms
          \<and> (\<forall>n m. ByNumber c n = Some m \<longleftrightarrow> m \<in> set ms \<and> mi_number m = n))"
proof (intro conjI allI impI)
  show "(\<exists>c. NewInstanceCollection ms = Inr c) \<longleftrightarrow> ms \<noteq> [] \<and> length ms \<le> 128 \<and> set (numbers ms) = {1..length ms}"
    using NewInstanceCollection_Inr_iff [OF assms] by blast
next
  fix c
  assume c: "NewInstanceCollection ms = Inr c"
  then show "InstanceCollection_Valid c" "HighestNumber c = length ms" "InstanceCollection_Len c = length ms"
    by (auto simp: NewInstanceCollection_Inr_iff [OF assms] InstanceCollection_Valid_def HighestNumber_def InstanceCollection_Len_def)
  show "ByNumber c n = Some m \<longleftrightarrow> m \<in> set ms \<and> mi_number m = n" for n m using ByNumber_eq [OF assms c] by blast
qed

theorem lookup_exact_witness:
  "\<exists>c. NewInstanceCollection [numbered 2, numbered 1] = Inr c \<and> InstanceCollection_Valid c \<and> ByNumber c 1 = Some (numbered 1)"
proof -
  let ?ms = "[numbered 2, numbered 1]"
  have z: "0 \<notin> set (numbers ?ms)" and "?ms \<noteq> [] \<and> length ?ms \<le> 128 \<and> set (numbers ?ms) = {1..length ?ms}"
    by (auto simp: numbered_def)
  then obtain c where "NewInstanceCollection ?ms = Inr c" using lookup_exact [of ?ms] by blast
  with lookup_exact [OF z] show ?thesis by (auto simp: numbered_def)
qed

text \<open>
  C18: A signing request is rendered exactly when it is well formed and the field fits the limits, and the octets
  are the field of the request: m=, one sha256 hash set and, when present, the recipe, each Base64 value folded
  every 64 characters, every physical line within the line limit.
\<close>

theorem instance_render_exact:
  "res_bind (NewForSigning r) (\<lambda>m. Instance_Render m limits) = Inr out \<longleftrightarrow>
     request_ok r \<and> out = signing_field r
     \<and> (\<exists>l. RenderLimits_normalized limits = Inr l \<and> int (length (sr_Recipe r)) \<le> rl_MaxRecipeBytes l \<and> render_fits l out)"
  by (auto simp: res_bind_Inr_iff NewForSigning_Inr_iff Instance_Render_request(2))

text \<open>
  C19: The preflight, which allocates nothing, answers with exactly the size of the rendering, and fails with
  exactly its error.
\<close>

theorem preflight_exact:
  "res_bind (NewForSigning r) (\<lambda>m. PreflightSigningField (sr_Number r) (int (length (sr_Recipe r))) (sr_RecipePresent r) limits)
     = map_sum id (\<lambda>out. int (length out)) (res_bind (NewForSigning r) (\<lambda>m. Instance_Render m limits))"
proof (cases "NewForSigning r")
  case (Inr m)
  then have ok: "request_ok r" and m: "m = request_instance r" by (simp_all add: NewForSigning_Inr_iff)
  let ?p = "PreflightSigningField (sr_Number r) (int (length (sr_Recipe r))) (sr_RecipePresent r) limits"
  show ?thesis
  proof (cases ?p)
    case (Inl e)
    with Inr m Instance_Render_request(1) [OF ok Inl] show ?thesis by simp
  next
    case n: (Inr n)
    then have "Instance_Render m limits = Inr (signing_field r)" "n = int (length (signing_field r))"
      using PreflightSigningField_request [OF ok, of limits n] Instance_Render_request(2) [OF ok] m by auto
    with Inr n show ?thesis by simp
  qed
qed simp

text \<open>
  C17: Rendering and parsing are inverse: the rendered octets are a header field of the raw message parser, and
  parsing that field gives back the number, the hashes, their layout and the recipe of the request.
\<close>

theorem instance_round_trip:
  assumes "NewForSigning r = Inr m" "Instance_Render m limits = Inr out" "sr_Number r < 2 ^ 64"
  shows "\<exists>f m'. hf_originalBytes f = out \<and> hf_index f = i \<and> header_field_inv f \<and> Instance_Parse f = Inr m'
     \<and> mi_number m' = sr_Number r \<and> mi_hashes m' = mi_hashes m \<and> mi_hashLayout m' = mi_hashLayout m
     \<and> map_option bs_decoded (MessageInstance_Recipe m') = (if sr_RecipePresent r then Some (sr_Recipe r) else None)"
proof -
  have ok: "request_ok r" and m: "m = request_instance r" using assms(1) by (simp_all add: NewForSigning_Inr_iff)
  then obtain l where out: "out = signing_field r" and l: "RenderLimits_normalized limits = Inr l" "render_fits l out"
    using assms(2) by (auto simp: Instance_Render_request(2) [OF ok])
  have "rl_MaxFieldBytes l \<le> 65536"
    using l(1) by (auto simp: RenderLimits_normalized_def RenderLimits_Validate_def Let_def hardMaxRenderedFieldBytes_def
        split: option.splits if_splits)
  then have "length (signing_field r) \<le> 65536" using l(2) out by (simp add: render_fits_def)
  from rendered_field_parses [OF ok assms(3) this, of i] have p: "Instance_Parse (rendered_header i r) = Inr (parsed_instance i r)" .
  have "header_field_inv (rendered_header i r)"
    using NewHeaderField_rendered [OF ok, of i] by (auto simp: NewHeaderField_Inr_iff header_field_inv_def)
  with p m out show ?thesis
    by (intro exI [of _ "rendered_header i r"] exI [of _ "parsed_instance i r"])
       (simp add: rendered_header_def parsed_instance_def request_instance_def MessageInstance_Recipe_def)
qed

definition sample_request :: SigningRequest where
  "sample_request = \<lparr>sr_Number = 2, sr_HeaderHash = replicate 32 (CHR ''a''), sr_BodyHash = replicate 32 (CHR ''b''),
     sr_Recipe = ''{}'', sr_RecipePresent = True\<rparr>"

theorem instance_round_trip_witness:
  "\<exists>f m'. hf_originalBytes f = signing_field sample_request \<and> hf_index f = 0 \<and> Instance_Parse f = Inr m' \<and> mi_number m' = 2
     \<and> map_option bs_decoded (MessageInstance_Recipe m') = Some ''{}''"
proof -
  have ok: "request_ok sample_request" by code_simp
  have "RenderLimits_normalized DefaultRenderLimits = Inr DefaultRenderLimits" by code_simp
  moreover have "render_fits DefaultRenderLimits (signing_field sample_request)" by code_simp
  moreover have "int (length (sr_Recipe sample_request)) \<le> rl_MaxRecipeBytes DefaultRenderLimits" by code_simp
  ultimately have r: "Instance_Render (request_instance sample_request) DefaultRenderLimits = Inr (signing_field sample_request)"
    unfolding Instance_Render_request(2) [OF ok] by blast
  have n: "NewForSigning sample_request = Inr (request_instance sample_request)" using ok by (simp add: NewForSigning_Inr_iff)
  have "sr_Number sample_request < 2 ^ 64" "sr_Number sample_request = 2" "sr_RecipePresent sample_request" "sr_Recipe sample_request = ''{}''"
    by (simp_all add: sample_request_def)
  with instance_round_trip [OF n r, of 0] show ?thesis by auto
qed

end
