(* ===== verification/Go_Returns.thy ===== *)
theory Go_Returns
  imports Go_Effects
begin

text \<open>
  Postconditions of fallible operations: whatever the object was, an operation returns a value with
  the property or fails with an error of the class. The rules follow the structure of the code.
\<close>

named_theorems returns_intros "postconditions of operations"

definition returns :: "('e \<Rightarrow> bool) \<Rightarrow> ('s, 'e, 'a) op \<Rightarrow> ('a \<Rightarrow> bool) \<Rightarrow> bool" where
  "returns E m Q \<longleftrightarrow> (\<forall>s. case fst (m s) of Inl e \<Rightarrow> E e | Inr v \<Rightarrow> Q v)"

lemma returns_value: "returns E m Q \<Longrightarrow> m s = (Inr v, s') \<Longrightarrow> Q v"
  unfolding returns_def by (metis fst_conv sum.case(2))

lemma returns_error: "returns E m Q \<Longrightarrow> m s = (Inl e, s') \<Longrightarrow> E e"
  unfolding returns_def by (metis fst_conv sum.case(1))

lemma returnsI:
  "(\<And>s v s'. m s = (Inr v, s') \<Longrightarrow> Q v) \<Longrightarrow> (\<And>s e s'. m s = (Inl e, s') \<Longrightarrow> E e) \<Longrightarrow> returns E m Q"
  unfolding returns_def by (auto split: sum.splits) (metis prod.collapse)+

lemma returns_weaken: "returns E m P \<Longrightarrow> (\<And>v. P v \<Longrightarrow> Q v) \<Longrightarrow> returns E m Q"
  unfolding returns_def by (auto split: sum.splits)

lemma returns_return: "Q v \<Longrightarrow> returns E (op_return v) Q"
  by (simp add: returns_def)

lemma returns_fail: "E e \<Longrightarrow> returns E (op_fail e) Q"
  by (simp add: returns_def)

lemma returns_lift: "(\<And>e. r = Inl e \<Longrightarrow> E e) \<Longrightarrow> (\<And>v. r = Inr v \<Longrightarrow> Q v) \<Longrightarrow> returns E (op_lift r) Q"
  by (cases r) (simp_all add: returns_def)

lemma returns_bind:
  assumes "returns E m P" "\<And>v. P v \<Longrightarrow> returns E (k v) Q"
  shows "returns E (op_bind m k) Q"
proof (rule returnsI)
  fix s v s' assume "op_bind m k s = (Inr v, s')"
  then obtain u t where "m s = (Inr u, t)" "k u t = (Inr v, s')" unfolding op_bind_success by blast
  then show "Q v" using assms returns_value by metis
next
  fix s e s' assume "op_bind m k s = (Inl e, s')"
  then show "E e" using assms returns_value returns_error unfolding op_bind_failure by metis
qed

lemma returns_then: "returns E m (\<lambda>_. True) \<Longrightarrow> returns E k Q \<Longrightarrow> returns E (op_then m k) Q"
  unfolding op_then_def by (rule returns_bind)

lemma returns_if: "(c \<Longrightarrow> returns E a Q) \<Longrightarrow> (\<not> c \<Longrightarrow> returns E b Q) \<Longrightarrow> returns E (if c then a else b) Q"
  by simp

lemma returns_guard: "(\<And>x. e = Some x \<Longrightarrow> E x) \<Longrightarrow> (e = None \<Longrightarrow> returns E k Q) \<Longrightarrow> returns E (op_guard e k) Q"
  by (cases e) (simp_all add: returns_fail)

text \<open>A loop keeps an invariant that speaks about the items seen and the items left.\<close>

lemma returns_each:
  assumes "I [] acc" "\<And>xs x ys acc. zs = xs @ x # ys \<Longrightarrow> I xs acc \<Longrightarrow> returns E (f x acc) (I (xs @ [x]))"
  shows "returns E (op_each f zs acc) (I zs)"
proof -
  have "zs = xs @ ys \<Longrightarrow> I xs acc \<Longrightarrow> returns E (op_each f ys acc) (I zs)" for xs ys acc
  proof (induction ys arbitrary: xs acc)
    case Nil
    then show ?case by (auto intro: returns_return simp del: op_eval)
  next
    case (Cons y ys)
    show ?case
      using Cons.IH [of "xs @ [y]"] Cons.prems assms(2) [of xs y ys acc]
      by (auto intro!: returns_bind [where P = "I (xs @ [y])"])
  qed
  from this [of "[]" zs acc] assms(1) show ?thesis by simp
qed

end
