(* ===== verification/Recipe_Generation.thy ===== *)
theory Recipe_Generation
  imports Recipe_Model Go_Returns
begin

text \<open>
  Inverse generation of recipes, the values and the accounting: policies, requests and outcomes
  (\<open>generation_types.go\<close>), limits (\<open>generation_limits.go\<close>) and the operation-wide counter
  (\<open>generation_usage_counter.go\<close>).
\<close>

section \<open>Policies and outcomes (\<open>generation_types.go\<close>)\<close>

text \<open>The small integer and string enumerations keep one value for everything that is not known.\<close>

datatype LiteralDisclosurePolicy = CopyOnly | AllowLiterals | LiteralPolicyOther

definition LiteralDisclosurePolicy_Known :: "LiteralDisclosurePolicy \<Rightarrow> bool" where
  "LiteralDisclosurePolicy_Known p \<longleftrightarrow> p = CopyOnly \<or> p = AllowLiterals"

datatype BodyUnavailablePolicy = RejectUnavailableBody | AllowUnavailableBody | BodyPolicyOther

definition BodyUnavailablePolicy_Known :: "BodyUnavailablePolicy \<Rightarrow> bool" where
  "BodyUnavailablePolicy_Known p \<longleftrightarrow> p = RejectUnavailableBody \<or> p = AllowUnavailableBody"

datatype BodyGenerationOutcome =
    BodyGenerationUnset | BodyGenerationUnchanged | BodyGenerationGenerated | BodyGenerationUnavailable

definition BodyGenerationOutcome_Known :: "BodyGenerationOutcome \<Rightarrow> bool" where
  "BodyGenerationOutcome_Known o' \<longleftrightarrow>
     o' = BodyGenerationUnchanged \<or> o' = BodyGenerationGenerated \<or> o' = BodyGenerationUnavailable"

datatype BodyUnavailableReason =
    BodyUnavailableReasonUnset | BodyUnavailableReasonUnrepresentable | BodyUnavailableReasonLiteralRequired

definition BodyUnavailableReason_Known :: "BodyUnavailableReason \<Rightarrow> bool" where
  "BodyUnavailableReason_Known r \<longleftrightarrow>
     r = BodyUnavailableReasonUnrepresentable \<or> r = BodyUnavailableReasonLiteralRequired"

section \<open>Requests (\<open>generation_types.go\<close>)\<close>

definition zeroState :: State where
  "zeroState = \<lparr>ss_headers = \<lparr>hb_fields = [], hb_originalBytes = [], hb_initialized = False\<rparr>, ss_body = zeroBody,
     ss_availability = BodyAvailabilityUnset, ss_framing = MessageFramingUnset, ss_initialized = False\<rparr>"

record GenerationRequest =
  gr_previous :: State
  gr_current :: State
  gr_bodyUnavailablePolicy :: BodyUnavailablePolicy
  gr_literalPolicy :: LiteralDisclosurePolicy
  gr_initialized :: bool

definition knownGenerationState :: "State \<Rightarrow> bool" where
  "knownGenerationState s \<longleftrightarrow> State_Valid s \<and> BodyState s = BodyAvailabilityKnown"

definition NewGenerationRequest ::
    "State \<Rightarrow> State \<Rightarrow> BodyUnavailablePolicy \<Rightarrow> LiteralDisclosurePolicy \<Rightarrow> (RecipeError, GenerationRequest) result" where
  "NewGenerationRequest previous current bodyPolicy literalPolicy =
     (if \<not> BodyUnavailablePolicy_Known bodyPolicy \<or> \<not> LiteralDisclosurePolicy_Known literalPolicy
      then Inl (newRecipeError RecipeInvalidPolicy noLocation noDetails)
      else if \<not> knownGenerationState previous \<or> \<not> knownGenerationState current
      then Inl (newRecipeError RecipeInvalidRequest noLocation noDetails)
      else Inr \<lparr>gr_previous = previous, gr_current = current, gr_bodyUnavailablePolicy = bodyPolicy,
                gr_literalPolicy = literalPolicy, gr_initialized = True\<rparr>)"

definition GenerationRequest_Valid :: "GenerationRequest \<Rightarrow> bool" where
  "GenerationRequest_Valid r \<longleftrightarrow> gr_initialized r \<and> knownGenerationState (gr_previous r)
     \<and> knownGenerationState (gr_current r) \<and> BodyUnavailablePolicy_Known (gr_bodyUnavailablePolicy r)
     \<and> LiteralDisclosurePolicy_Known (gr_literalPolicy r)"

definition Previous :: "GenerationRequest \<Rightarrow> State" where
  "Previous r = (if \<not> GenerationRequest_Valid r then zeroState else gr_previous r)"

definition Current :: "GenerationRequest \<Rightarrow> State" where
  "Current r = (if \<not> GenerationRequest_Valid r then zeroState else gr_current r)"

definition GenerationRequest_BodyUnavailablePolicy :: "GenerationRequest \<Rightarrow> BodyUnavailablePolicy" where
  "GenerationRequest_BodyUnavailablePolicy r =
     (if \<not> GenerationRequest_Valid r then BodyPolicyOther else gr_bodyUnavailablePolicy r)"

definition LiteralPolicy :: "GenerationRequest \<Rightarrow> LiteralDisclosurePolicy" where
  "LiteralPolicy r = (if \<not> GenerationRequest_Valid r then LiteralPolicyOther else gr_literalPolicy r)"

section \<open>Limits (\<open>generation_limits.go\<close>)\<close>

record GenerationLimits =
  gl_RecipeLimits :: RecipeLimits
  gl_MaxInputBytes :: int
  gl_MaxInputItems :: int
  gl_MaxCandidateEntries :: int
  gl_MaxCandidateKeyBytes :: int
  gl_MaxComparisons :: int
  gl_MaxGenerationWorkUnits :: int

definition hardMaxGenerationInputBytes :: int where
  "hardMaxGenerationInputBytes = 2 * HardMaxMessageBytes"

definition hardMaxGenerationInputItems :: int where
  "hardMaxGenerationInputItems = 2 * (HardMaxBodyLines + 2000)"

definition hardMaxGenerationCandidateEntries :: int where
  "hardMaxGenerationCandidateEntries = HardMaxBodyLines + 2000"

definition hardMaxGenerationCandidateKeyBytes :: int where
  "hardMaxGenerationCandidateKeyBytes = HardMaxMessageBytes"

definition hardMaxGenerationWorkUnits :: int where
  "hardMaxGenerationWorkUnits = 14 * HardMaxMessageBytes"

definition DefaultGenerationLimits :: GenerationLimits where
  "DefaultGenerationLimits = \<lparr>gl_RecipeLimits = DefaultRecipeLimits, gl_MaxInputBytes = hardMaxGenerationInputBytes,
     gl_MaxInputItems = hardMaxGenerationInputItems, gl_MaxCandidateEntries = hardMaxGenerationCandidateEntries,
     gl_MaxCandidateKeyBytes = hardMaxGenerationCandidateKeyBytes, gl_MaxComparisons = hardMaxGenerationInputItems,
     gl_MaxGenerationWorkUnits = hardMaxGenerationWorkUnits\<rparr>"

definition checkedMultiply :: "int \<Rightarrow> int \<Rightarrow> int \<times> bool" where
  "checkedMultiply left right =
     (if left < 0 \<or> right < 0 \<or> left \<noteq> 0 \<and> right > MaxInt div left then (MaxInt, False)
      else (left * right, True))"

fun checkedSumFrom :: "int \<Rightarrow> int list \<Rightarrow> int \<times> bool" where
  "checkedSumFrom t [] = (t, True)"
| "checkedSumFrom t (v # vs) =
     (case checkedAdd t v of (t', ok) \<Rightarrow> if \<not> ok then (MaxInt, False) else checkedSumFrom t' vs)"

definition checkedSum :: "int list \<Rightarrow> int \<times> bool" where
  "checkedSum vs = checkedSumFrom 0 vs"

definition generationOptionsError :: "string \<Rightarrow> RecipeError" where
  "generationOptionsError limitName =
     newRecipeError RecipeInvalidOptions noLocation (noDetails\<lparr>rdet_LimitName := limitName\<rparr>)"

definition resolveGenerationLimit :: "int \<Rightarrow> int \<Rightarrow> int \<Rightarrow> string \<Rightarrow> (RecipeError, int) result" where
  "resolveGenerationLimit v derived hardMaximum limitName =
     (if derived < 0 \<or> derived > hardMaximum \<or> v < 0 \<or> v > hardMaximum \<or> v > derived
      then Inl (generationOptionsError limitName)
      else if v = 0 then Inr derived else Inr v)"

definition GenerationLimits_normalized :: "GenerationLimits \<Rightarrow> (RecipeError, GenerationLimits) result" where
  "GenerationLimits_normalized l =
     res_bind (RecipeLimits_normalized (gl_RecipeLimits l)) (\<lambda>recipeLimits.
     case checkedMultiply (rl_MaxStateBytes recipeLimits) 2 of (twoStateBytes, ok) \<Rightarrow>
     if \<not> ok then Inl (generationOptionsError limitNameMaxInputBytes) else
     case checkedSum [rl_MaxHeaderFields recipeLimits, rl_MaxBodyLines recipeLimits] of (itemsPerState, ok) \<Rightarrow>
     if \<not> ok then Inl (generationOptionsError limitNameMaxInputItems) else
     case checkedMultiply itemsPerState 2 of (twoStateItems, ok) \<Rightarrow>
     if \<not> ok then Inl (generationOptionsError limitNameMaxInputItems) else
     res_bind (resolveGenerationLimit (gl_MaxInputBytes l) twoStateBytes hardMaxGenerationInputBytes limitNameMaxInputBytes) (\<lambda>inputBytes.
     res_bind (resolveGenerationLimit (gl_MaxInputItems l) twoStateItems hardMaxGenerationInputItems limitNameMaxInputItems) (\<lambda>inputItems.
     res_bind (resolveGenerationLimit (gl_MaxCandidateEntries l) itemsPerState hardMaxGenerationCandidateEntries limitNameMaxCandidateEntries) (\<lambda>entries.
     res_bind (resolveGenerationLimit (gl_MaxCandidateKeyBytes l) (rl_MaxStateBytes recipeLimits) hardMaxGenerationCandidateKeyBytes limitNameMaxCandidateKeyBytes) (\<lambda>keyBytes.
     res_bind (resolveGenerationLimit (gl_MaxComparisons l) twoStateItems hardMaxGenerationInputItems limitNameMaxComparisons) (\<lambda>comparisons.
     if comparisons > inputItems then Inl (generationOptionsError limitNameMaxComparisons)
     else if gl_MaxGenerationWorkUnits l < 0 \<or> gl_MaxGenerationWorkUnits l > hardMaxGenerationWorkUnits
     then Inl (generationOptionsError limitNameMaxGenerationWorkUnits) else
     let workUnits = (if gl_MaxGenerationWorkUnits l = 0 then hardMaxGenerationWorkUnits else gl_MaxGenerationWorkUnits l) in
     case checkedMultiply (rl_MaxDecodedRecipeBytes recipeLimits) 2 of (twiceRecipeBytes, ok) \<Rightarrow>
     if \<not> ok then Inl (generationOptionsError limitNameGenerationWorkCoherence) else
     case checkedMultiply (rl_MaxOperationWorkUnits recipeLimits) 2 of (twiceProofWork, ok) \<Rightarrow>
     if \<not> ok then Inl (generationOptionsError limitNameGenerationWorkCoherence) else
     case checkedSum [inputBytes, keyBytes, comparisons, twiceRecipeBytes, twiceProofWork] of (minimumWork, ok) \<Rightarrow>
     if \<not> ok \<or> workUnits < minimumWork then Inl (generationOptionsError limitNameGenerationWorkCoherence)
     else Inr \<lparr>gl_RecipeLimits = recipeLimits, gl_MaxInputBytes = inputBytes, gl_MaxInputItems = inputItems,
       gl_MaxCandidateEntries = entries, gl_MaxCandidateKeyBytes = keyBytes, gl_MaxComparisons = comparisons,
       gl_MaxGenerationWorkUnits = workUnits\<rparr>))))))"

definition GenerationLimits_Validate :: "GenerationLimits \<Rightarrow> RecipeError option" where
  "GenerationLimits_Validate l = (case GenerationLimits_normalized l of Inl e \<Rightarrow> Some e | Inr _ \<Rightarrow> None)"

section \<open>The operation counter (\<open>generation_usage_counter.go\<close>)\<close>

record generationCounter =
  gc_limits :: GenerationLimits
  gc_inputBytes :: int
  gc_inputItems :: int
  gc_candidates :: int
  gc_candidateBytes :: int
  gc_comparisons :: int
  gc_generatedSteps :: int
  gc_generatedLiterals :: int
  gc_copyRanges :: int
  gc_copiedItems :: int
  gc_literalBytes :: int
  gc_jsonBytes :: int
  gc_proofWorkUnits :: int
  gc_parseProofWorkUnits :: int
  gc_reconstructionProofUnits :: int
  gc_semanticProofWorkUnits :: int
  gc_proofReserved :: bool
  gc_parseProofRecorded :: bool
  gc_reconstructionProofRecorded :: bool
  gc_workUnits :: int

type_synonym 'a gop = "(generationCounter, RecipeError, 'a) op"

definition newGenerationCounter :: "GenerationLimits \<Rightarrow> generationCounter" where
  "newGenerationCounter limits = \<lparr>gc_limits = limits, gc_inputBytes = 0, gc_inputItems = 0, gc_candidates = 0,
     gc_candidateBytes = 0, gc_comparisons = 0, gc_generatedSteps = 0, gc_generatedLiterals = 0, gc_copyRanges = 0,
     gc_copiedItems = 0, gc_literalBytes = 0, gc_jsonBytes = 0, gc_proofWorkUnits = 0, gc_parseProofWorkUnits = 0,
     gc_reconstructionProofUnits = 0, gc_semanticProofWorkUnits = 0, gc_proofReserved = False,
     gc_parseProofRecorded = False, gc_reconstructionProofRecorded = False, gc_workUnits = 0\<rparr>"

definition generationLimitError :: "string \<Rightarrow> int \<Rightarrow> int \<Rightarrow> Dimension \<Rightarrow> RecipeError" where
  "generationLimitError name limit actual dimension =
     newRecipeError RecipeLimitExceeded noLocation (noDetails\<lparr>rdet_LimitName := name, rdet_Expected := limit,
       rdet_Actual := actual, rdet_Dimension := dimension\<rparr>)"

definition generationInvariantErrorForDimension :: "Dimension \<Rightarrow> RecipeError" where
  "generationInvariantErrorForDimension dimension =
     newRecipeError RecipeGeneratedOutputInvariant noLocation (noDetails\<lparr>rdet_Dimension := dimension\<rparr>)"

definition workLimitError :: "generationCounter \<Rightarrow> int \<Rightarrow> Dimension \<Rightarrow> RecipeError" where
  "workLimitError c actual dimension =
     generationLimitError limitNameMaxGenerationWorkUnits (gl_MaxGenerationWorkUnits (gc_limits c)) actual dimension"

definition checkedWork :: "int \<Rightarrow> Dimension \<Rightarrow> generationCounter \<Rightarrow> (RecipeError, int) result" where
  "checkedWork n dimension c =
     (case checkedAdd (gc_workUnits c) n of (work, ok) \<Rightarrow>
      if \<not> ok \<or> work > gl_MaxGenerationWorkUnits (gc_limits c) then Inl (workLimitError c work dimension)
      else Inr work)"

definition gchargeWork :: "int \<Rightarrow> Dimension \<Rightarrow> unit gop" where
  "gchargeWork n dimension c =
     (case checkedWork n dimension c of Inl e \<Rightarrow> (Inl e, c) | Inr work \<Rightarrow> (Inr (), c\<lparr>gc_workUnits := work\<rparr>))"

definition chargeInput :: "int \<Rightarrow> int \<Rightarrow> Dimension \<Rightarrow> unit gop" where
  "chargeInput byteCount itemCount dimension c =
     (case checkedAdd (gc_inputBytes c) byteCount of (octets, ok) \<Rightarrow>
      if \<not> ok \<or> octets > gl_MaxInputBytes (gc_limits c)
      then (Inl (generationLimitError limitNameMaxInputBytes (gl_MaxInputBytes (gc_limits c)) octets dimension), c)
      else case checkedAdd (gc_inputItems c) itemCount of (items, ok) \<Rightarrow>
      if \<not> ok \<or> items > gl_MaxInputItems (gc_limits c)
      then (Inl (generationLimitError limitNameMaxInputItems (gl_MaxInputItems (gc_limits c)) items dimension), c)
      else case checkedSum [byteCount, itemCount] of (workIncrement, ok) \<Rightarrow>
      if \<not> ok then (Inl (workLimitError c workIncrement dimension), c)
      else case checkedWork workIncrement dimension c of
        Inl e \<Rightarrow> (Inl e, c)
      | Inr work \<Rightarrow> (Inr (), c\<lparr>gc_inputBytes := octets, gc_inputItems := items, gc_workUnits := work\<rparr>))"

definition chargeCandidate :: "int \<Rightarrow> Dimension \<Rightarrow> unit gop" where
  "chargeCandidate keyBytes dimension c =
     (case checkedAdd (gc_candidates c) 1 of (candidates, ok) \<Rightarrow>
      if \<not> ok \<or> candidates > gl_MaxCandidateEntries (gc_limits c)
      then (Inl (generationLimitError limitNameMaxCandidateEntries (gl_MaxCandidateEntries (gc_limits c)) candidates dimension), c)
      else case checkedAdd (gc_candidateBytes c) keyBytes of (octets, ok) \<Rightarrow>
      if \<not> ok \<or> octets > gl_MaxCandidateKeyBytes (gc_limits c)
      then (Inl (generationLimitError limitNameMaxCandidateKeyBytes (gl_MaxCandidateKeyBytes (gc_limits c)) octets dimension), c)
      else case checkedAdd 1 keyBytes of (workIncrement, ok) \<Rightarrow>
      if \<not> ok then (Inl (workLimitError c workIncrement dimension), c)
      else case checkedWork workIncrement dimension c of
        Inl e \<Rightarrow> (Inl e, c)
      | Inr work \<Rightarrow> (Inr (), c\<lparr>gc_candidates := candidates, gc_candidateBytes := octets, gc_workUnits := work\<rparr>))"

definition chargeComparison :: "Dimension \<Rightarrow> unit gop" where
  "chargeComparison dimension c =
     (case checkedAdd (gc_comparisons c) 1 of (comparisons, ok) \<Rightarrow>
      if \<not> ok \<or> comparisons > gl_MaxComparisons (gc_limits c)
      then (Inl (generationLimitError limitNameMaxComparisons (gl_MaxComparisons (gc_limits c)) comparisons dimension), c)
      else case checkedWork 1 dimension c of
        Inl e \<Rightarrow> (Inl e, c)
      | Inr work \<Rightarrow> (Inr (), c\<lparr>gc_comparisons := comparisons, gc_workUnits := work\<rparr>))"

definition chargeStep :: "Dimension \<Rightarrow> unit gop" where
  "chargeStep dimension c =
     (let limits = gl_RecipeLimits (gc_limits c) in
      case checkedAdd (gc_generatedSteps c) 1 of (steps, ok) \<Rightarrow>
      if \<not> ok \<or> steps > rl_MaxTotalSteps limits
      then (Inl (generationLimitError limitNameMaxTotalSteps (rl_MaxTotalSteps limits) steps dimension), c)
      else case checkedWork 1 dimension c of
        Inl e \<Rightarrow> (Inl e, c)
      | Inr work \<Rightarrow> (Inr (), c\<lparr>gc_generatedSteps := steps, gc_workUnits := work\<rparr>))"

definition chargeCopy :: "int \<Rightarrow> int \<Rightarrow> Dimension \<Rightarrow> unit gop" where
  "chargeCopy rangeCount itemCount dimension c =
     (let limits = gl_RecipeLimits (gc_limits c) in
      case checkedAdd (gc_copyRanges c) rangeCount of (ranges, ok) \<Rightarrow>
      if \<not> ok \<or> ranges > rl_MaxCopyRanges limits
      then (Inl (generationLimitError limitNameMaxCopyRanges (rl_MaxCopyRanges limits) ranges dimension), c)
      else case checkedAdd (gc_copiedItems c) itemCount of (items, ok) \<Rightarrow>
      if \<not> ok \<or> items > rl_MaxTotalCopiedItems limits
      then (Inl (generationLimitError limitNameMaxTotalCopiedItems (rl_MaxTotalCopiedItems limits) items dimension), c)
      else (Inr (), c\<lparr>gc_copyRanges := ranges, gc_copiedItems := items\<rparr>))"

definition chargeLiteralString :: "int \<Rightarrow> Dimension \<Rightarrow> unit gop" where
  "chargeLiteralString byteCount dimension c =
     (let limits = gl_RecipeLimits (gc_limits c) in
      case checkedAdd (gc_generatedLiterals c) 1 of (strings, ok) \<Rightarrow>
      if \<not> ok \<or> strings > rl_MaxDataStrings limits
      then (Inl (generationLimitError limitNameMaxDataStrings (rl_MaxDataStrings limits) strings dimension), c)
      else if byteCount < 0 \<or> byteCount > rl_MaxDataStringBytes limits
      then (Inl (generationLimitError limitNameMaxDataStringBytes (rl_MaxDataStringBytes limits) byteCount dimension), c)
      else case checkedAdd (gc_literalBytes c) byteCount of (octets, ok) \<Rightarrow>
      if \<not> ok \<or> octets > rl_MaxTotalLiteralBytes limits
      then (Inl (generationLimitError limitNameMaxTotalLiteralBytes (rl_MaxTotalLiteralBytes limits) octets dimension), c)
      else case checkedWork byteCount dimension c of
        Inl e \<Rightarrow> (Inl e, c)
      | Inr work \<Rightarrow> (Inr (), c\<lparr>gc_generatedLiterals := strings, gc_literalBytes := octets, gc_workUnits := work\<rparr>))"

text \<open>The counter read by planning code outside a charge.\<close>

definition counter_get :: "generationCounter gop" where
  "counter_get c = (Inr c, c)"

subsection \<open>Proof budgets\<close>

definition reserveProofBudgets :: "unit gop" where
  "reserveProofBudgets c =
     (if gc_proofReserved c then (Inl (generationInvariantErrorForDimension DimensionRecipe), c)
      else case checkedMultiply (rl_MaxOperationWorkUnits (gl_RecipeLimits (gc_limits c))) 2 of (reservation, ok) \<Rightarrow>
      if \<not> ok then (Inl (workLimitError c reservation DimensionRecipe), c)
      else case gchargeWork reservation DimensionRecipe c of
        (Inl e, c') \<Rightarrow> (Inl e, c')
      | (Inr _, c') \<Rightarrow> (Inr (), c'\<lparr>gc_proofReserved := True\<rparr>))"

definition recordParseProofUsage :: "Usage \<Rightarrow> unit gop" where
  "recordParseProofUsage u c =
     (if \<not> gc_proofReserved c \<or> gc_parseProofRecorded c \<or> \<not> Usage_Valid u
         \<or> us_workUnits u > rl_MaxOperationWorkUnits (gl_RecipeLimits (gc_limits c))
      then (Inl (generationInvariantErrorForDimension DimensionRecipe), c)
      else (Inr (), c\<lparr>gc_parseProofWorkUnits := us_workUnits u, gc_proofWorkUnits := us_workUnits u,
                     gc_parseProofRecorded := True\<rparr>))"

definition recordReconstructionProofUsage :: "Usage \<Rightarrow> unit gop" where
  "recordReconstructionProofUsage u c =
     (if \<not> gc_proofReserved c \<or> \<not> gc_parseProofRecorded c \<or> gc_reconstructionProofRecorded c \<or> \<not> Usage_Valid u
         \<or> us_workUnits u > rl_MaxOperationWorkUnits (gl_RecipeLimits (gc_limits c))
      then (Inl (generationInvariantErrorForDimension DimensionRecipe), c)
      else let c1 = c\<lparr>gc_reconstructionProofUnits := us_workUnits u\<rparr> in
        case checkedAdd (gc_parseProofWorkUnits c1) (gc_reconstructionProofUnits c1) of (proof', ok) \<Rightarrow>
        if \<not> ok then (Inl (generationInvariantErrorForDimension DimensionRecipe), c1)
        else (Inr (), c1\<lparr>gc_proofWorkUnits := proof', gc_reconstructionProofRecorded := True\<rparr>))"

definition chargeReconstructionProofWork :: "int \<Rightarrow> Dimension \<Rightarrow> unit gop" where
  "chargeReconstructionProofWork n dimension c =
     (if \<not> gc_proofReserved c \<or> \<not> gc_parseProofRecorded c \<or> \<not> gc_reconstructionProofRecorded c \<or> n < 0
      then (Inl (generationInvariantErrorForDimension dimension), c)
      else case checkedAdd (gc_semanticProofWorkUnits c) n of (semantic, ok) \<Rightarrow>
      if \<not> ok then (Inl (workLimitError c semantic dimension), c)
      else case checkedSum [gc_parseProofWorkUnits c, gc_reconstructionProofUnits c, semantic] of (proof', ok) \<Rightarrow>
      if \<not> ok then (Inl (generationInvariantErrorForDimension dimension), c)
      else case checkedWork n dimension c of
        Inl e \<Rightarrow> (Inl e, c)
      | Inr work \<Rightarrow> (Inr (), c\<lparr>gc_semanticProofWorkUnits := semantic, gc_proofWorkUnits := proof', gc_workUnits := work\<rparr>))"

definition checkJSONBytes :: "int \<Rightarrow> generationCounter \<Rightarrow> RecipeError option" where
  "checkJSONBytes n c =
     (let limit = rl_MaxDecodedRecipeBytes (gl_RecipeLimits (gc_limits c)) in
      case checkedAdd (gc_jsonBytes c) n of (octets, ok) \<Rightarrow>
      if \<not> ok \<or> octets > limit
      then Some (generationLimitError limitNameMaxDecodedRecipeBytes limit octets DimensionRecipe) else None)"

definition commitJSONBytes :: "int \<Rightarrow> unit gop" where
  "commitJSONBytes n c =
     (case checkJSONBytes n c of Some e \<Rightarrow> (Inl e, c) | None \<Rightarrow> (Inr (), c\<lparr>gc_jsonBytes := gc_jsonBytes c + n\<rparr>))"

subsection \<open>Usage\<close>

record GenerationUsage =
  gu_inputBytes :: int
  gu_inputItems :: int
  gu_candidates :: int
  gu_candidateKeyBytes :: int
  gu_comparisons :: int
  gu_generatedSteps :: int
  gu_generatedLiterals :: int
  gu_literalBytes :: int
  gu_jsonBytes :: int
  gu_proofWorkUnits :: int
  gu_workUnits :: int
  gu_initialized :: bool

definition GenerationUsage_Valid :: "GenerationUsage \<Rightarrow> bool" where
  "GenerationUsage_Valid u \<longleftrightarrow> gu_initialized u \<and> gu_inputBytes u \<ge> 0 \<and> gu_inputItems u \<ge> 0 \<and> gu_candidates u \<ge> 0
     \<and> gu_candidateKeyBytes u \<ge> 0 \<and> gu_comparisons u \<ge> 0 \<and> gu_generatedSteps u \<ge> 0 \<and> gu_generatedLiterals u \<ge> 0
     \<and> gu_literalBytes u \<ge> 0 \<and> gu_jsonBytes u \<ge> 0 \<and> gu_proofWorkUnits u \<ge> 0 \<and> gu_workUnits u \<ge> 0"

definition zeroGenerationUsage :: GenerationUsage where
  "zeroGenerationUsage = \<lparr>gu_inputBytes = 0, gu_inputItems = 0, gu_candidates = 0, gu_candidateKeyBytes = 0,
     gu_comparisons = 0, gu_generatedSteps = 0, gu_generatedLiterals = 0, gu_literalBytes = 0, gu_jsonBytes = 0,
     gu_proofWorkUnits = 0, gu_workUnits = 0, gu_initialized = False\<rparr>"

definition generationCounter_usage :: "generationCounter \<Rightarrow> GenerationUsage" where
  "generationCounter_usage c =
     (let u = \<lparr>gu_inputBytes = gc_inputBytes c, gu_inputItems = gc_inputItems c, gu_candidates = gc_candidates c,
        gu_candidateKeyBytes = gc_candidateBytes c, gu_comparisons = gc_comparisons c,
        gu_generatedSteps = gc_generatedSteps c, gu_generatedLiterals = gc_generatedLiterals c,
        gu_literalBytes = gc_literalBytes c, gu_jsonBytes = gc_jsonBytes c, gu_proofWorkUnits = gc_proofWorkUnits c,
        gu_workUnits = gc_workUnits c, gu_initialized = True\<rparr>
      in if \<not> GenerationUsage_Valid u then zeroGenerationUsage else u)"

definition failedUsage :: "generationCounter \<Rightarrow> GenerationUsage" where
  "failedUsage c = generationCounter_usage (c\<lparr>gc_jsonBytes := 0\<rparr>)"

section \<open>Charges only fail at a limit\<close>

definition limit_error :: "RecipeError \<Rightarrow> bool" where
  "limit_error e \<longleftrightarrow> re_code e = RecipeLimitExceeded"

lemma limit_error_simps [simp]:
  "limit_error (generationLimitError name limit actual dimension)" "limit_error (workLimitError c work dimension)"
  by (simp_all add: limit_error_def generationLimitError_def workLimitError_def newRecipeError_def)

lemma checkedWork_error: "checkedWork n d c = Inl e \<Longrightarrow> limit_error e"
  by (auto simp: checkedWork_def split: prod.splits if_splits)

lemma charges_fail_at_limits [returns_intros]:
  "returns limit_error (gchargeWork n d) (\<lambda>_. True)"
  "returns limit_error (chargeInput m n d) (\<lambda>_. True)"
  "returns limit_error (chargeCandidate n d) (\<lambda>_. True)"
  "returns limit_error (chargeComparison d) (\<lambda>_. True)"
  "returns limit_error (chargeStep d) (\<lambda>_. True)"
  "returns limit_error (chargeCopy m n d) (\<lambda>_. True)"
  "returns limit_error (chargeLiteralString n d) (\<lambda>_. True)"
  by (auto simp: returns_def gchargeWork_def chargeInput_def chargeCandidate_def chargeComparison_def chargeStep_def
      chargeCopy_def chargeLiteralString_def Let_def split: sum.splits prod.splits if_splits dest: checkedWork_error)

end
