(* ===== verification/Recipe_Planning.thy ===== *)
theory Recipe_Planning
  imports Recipe_Generation Recipe_Body_Exact Go_Sha2
begin

text \<open>
  Planning of one dimension: the exact candidate index and the step planner (\<open>generation_plan.go\<close>) and
  the planning of body lines (\<open>generation_body.go\<close>). Pointers into a bucket are pairs of the digest and
  the position in the bucket, because the planner moves the cursor of the candidate it looked up.
\<close>

section \<open>Candidate index (\<open>generation_plan.go\<close>)\<close>

record exactCandidate =
  ec_key :: bytes
  ec_positions :: "int list"
  ec_cursor :: nat

type_synonym exactCandidateIndex = "bytes \<rightharpoonup> exactCandidate list"

definition newExactCandidateIndex :: exactCandidateIndex where
  "newExactCandidateIndex = Map.empty"

definition bucketOf :: "exactCandidateIndex \<Rightarrow> bytes \<Rightarrow> exactCandidate list" where
  "bucketOf index digest = (case index digest of None \<Rightarrow> [] | Some bucket \<Rightarrow> bucket)"

fun addToBucket :: "bytes \<Rightarrow> int \<Rightarrow> Dimension \<Rightarrow> exactCandidate list \<Rightarrow> exactCandidate list option gop" where
  "addToBucket v occurrence dimension [] = op_return None"
| "addToBucket v occurrence dimension (candidate # rest) =
     op_then (gchargeWork (int (length v) + 1) dimension)
      (if ec_key candidate = v
       then op_then (chargeCandidate 0 dimension)
              (op_return (Some (candidate\<lparr>ec_positions := ec_positions candidate @ [occurrence]\<rparr> # rest)))
       else op_bind (addToBucket v occurrence dimension rest) (\<lambda>r. op_return (map_option ((#) candidate) r)))"

definition index_add :: "bytes \<Rightarrow> int \<Rightarrow> Dimension \<Rightarrow> exactCandidateIndex \<Rightarrow> exactCandidateIndex gop" where
  "index_add v occurrence dimension index =
     op_then (gchargeWork (int (length v)) dimension)
      (let digest = Sum256 v; bucket = bucketOf index digest in
       op_bind (addToBucket v occurrence dimension bucket) (\<lambda>r.
         case r of
           Some bucket' \<Rightarrow> op_return (index(digest \<mapsto> bucket'))
         | None \<Rightarrow>
             op_then (chargeCandidate (int (length v)) dimension)
              (op_then (gchargeWork 3 dimension)
                (op_return (index(digest \<mapsto>
                   bucket @ [\<lparr>ec_key = v, ec_positions = [occurrence], ec_cursor = 0\<rparr>]))))))"

fun lookupBucket :: "bytes \<Rightarrow> Dimension \<Rightarrow> nat \<Rightarrow> exactCandidate list \<Rightarrow> nat option gop" where
  "lookupBucket v dimension n [] = op_return None"
| "lookupBucket v dimension n (candidate # rest) =
     op_then (gchargeWork (int (length v)) dimension)
      (if ec_key candidate = v then op_return (Some n)
       else op_then (chargeComparison dimension) (lookupBucket v dimension (Suc n) rest))"

definition index_lookup :: "bytes \<Rightarrow> Dimension \<Rightarrow> exactCandidateIndex \<Rightarrow> (bytes \<times> nat) option gop" where
  "index_lookup v dimension index =
     op_then (chargeComparison dimension)
      (op_then (gchargeWork (int (length v)) dimension)
        (op_bind (lookupBucket v dimension 0 (bucketOf index (Sum256 v)))
          (\<lambda>r. op_return (map_option (\<lambda>n. (Sum256 v, n)) r))))"

text \<open>The loop over the positions of one candidate that advances its cursor.\<close>

fun advanceCursor :: "Dimension \<Rightarrow> int \<Rightarrow> int list \<Rightarrow> nat \<Rightarrow> (int \<times> nat) gop" where
  "advanceCursor dimension lastCopyEnd [] cursor = op_return (0, cursor)"
| "advanceCursor dimension lastCopyEnd (occurrence # rest) cursor =
     op_then (chargeComparison dimension)
      (if occurrence > lastCopyEnd then op_return (occurrence, Suc cursor)
       else advanceCursor dimension lastCopyEnd rest (Suc cursor))"

definition selectOccurrence ::
    "Dimension \<Rightarrow> int \<Rightarrow> (bytes \<times> nat) option \<Rightarrow> exactCandidateIndex \<Rightarrow> (int \<times> exactCandidateIndex) gop" where
  "selectOccurrence dimension lastCopyEnd candidate index =
     (case candidate of
        None \<Rightarrow> op_return (0, index)
      | Some (digest, n) \<Rightarrow>
          let bucket = bucketOf index digest; c = bucket ! n in
          op_bind (advanceCursor dimension lastCopyEnd (drop (ec_cursor c) (ec_positions c)) (ec_cursor c))
            (\<lambda>(selected, cursor). op_return (selected, index(digest \<mapsto> bucket[n := c\<lparr>ec_cursor := cursor\<rparr>]))))"

section \<open>Steps (\<open>generation_plan.go\<close>)\<close>

definition appendStep :: "step list \<Rightarrow> step \<Rightarrow> Dimension \<Rightarrow> int \<Rightarrow> string \<Rightarrow> step list gop" where
  "appendStep steps instruction dimension maxSteps stepLimitName =
     (case checkedAdd (int (length steps)) 1 of (stepCount, ok) \<Rightarrow>
      if \<not> ok \<or> stepCount > maxSteps then op_fail (generationLimitError stepLimitName maxSteps stepCount dimension)
      else op_then (chargeStep dimension) (op_return (steps @ [instruction])))"

definition appendCopy :: "RecipeLimits \<Rightarrow> step list \<Rightarrow> int \<Rightarrow> Dimension \<Rightarrow> int \<Rightarrow> string \<Rightarrow> step list gop" where
  "appendCopy limits steps occurrence dimension maxSteps stepLimitName =
     (if steps \<noteq> [] \<and> snd (snd (copyRange (last steps))) \<and> occurrence = fst (snd (copyRange (last steps))) + 1
      then let width = occurrence - fst (copyRange (last steps)) + 1 in
        if width > rl_MaxCopiedItemsPerRange limits
        then op_fail (generationLimitError limitNameMaxCopiedItemsPerRange (rl_MaxCopiedItemsPerRange limits) width dimension)
        else op_then (chargeCopy 0 1 dimension)
              (op_then (gchargeWork 1 dimension)
                (op_return (butlast steps @ [(last steps)\<lparr>st_copyEnd := occurrence\<rparr>])))
      else op_then (chargeCopy 1 1 dimension)
        (case newCopyStep occurrence occurrence of
           Inl _ \<Rightarrow> op_fail (generationInvariantErrorForDimension dimension)
         | Inr copyStep \<Rightarrow> appendStep steps copyStep dimension maxSteps stepLimitName))"

definition literalWork :: "bytes \<Rightarrow> int \<times> bool" where
  "literalWork v =
     (case checkedMultiply (int (length v)) 2 of (work, ok) \<Rightarrow> if ok then checkedAdd work 1 else (work, ok))"

definition appendDataLiteral :: "RecipeLimits \<Rightarrow> step list \<Rightarrow> bytes \<Rightarrow> Dimension \<Rightarrow> int \<Rightarrow> string \<Rightarrow> step list gop" where
  "appendDataLiteral limits steps v dimension maxSteps stepLimitName =
     (case literalWork v of (validationWork, ok) \<Rightarrow>
      if \<not> ok then op_bind counter_get (\<lambda>c. op_fail (workLimitError c validationWork dimension))
      else op_then (gchargeWork validationWork dimension)
       (let kind = literalKindFor v; jsonBytes = int (literalJSONBytes kind v) in
        if \<not> validLiteral kind v then op_fail (generationInvariantErrorForDimension dimension)
        else if jsonBytes > rl_MaxDataStringBytes limits
        then op_fail (generationLimitError limitNameMaxDataStringBytes (rl_MaxDataStringBytes limits) jsonBytes dimension)
        else op_then (chargeLiteralString jsonBytes dimension)
         (if steps \<noteq> [] \<and> st_kind (last steps) = kind
          then op_then (gchargeWork 1 dimension)
                (op_return (butlast steps @ [(last steps)\<lparr>st_data := st_data (last steps) @ [v]\<rparr>]))
          else op_then (gchargeWork 1 dimension)
                (appendStep steps (literal_step kind [v]) dimension maxSteps stepLimitName))))"

section \<open>Body lines (\<open>generation_body.go\<close>)\<close>

definition bodyLiteralContent :: "bytes \<Rightarrow> (bytes \<times> bool) gop" where
  "bodyLiteralContent encoded =
     op_then (gchargeWork 1 DimensionBody)
      (if length encoded < 2 \<or> encoded ! (length encoded - 2) \<noteq> CR \<or> encoded ! (length encoded - 1) \<noteq> LF
       then op_return ([], False)
       else let content' = take (length encoded - 2) encoded in
         case literalWork content' of (validationWork, ok) \<Rightarrow>
         if \<not> ok then op_bind counter_get (\<lambda>c. op_fail (workLimitError c validationWork DimensionBody))
         else op_then (gchargeWork validationWork DimensionBody)
               (op_return (content', validBinaryLiteral content')))"

fun planBodyLoop ::
    "RecipeLimits \<Rightarrow> LiteralDisclosurePolicy \<Rightarrow> bytes list \<Rightarrow> exactCandidateIndex \<Rightarrow> step list \<Rightarrow> int
       \<Rightarrow> (step list \<times> BodyUnavailableReason) gop" where
  "planBodyLoop limits policy [] index steps lastCopyEnd = op_return (steps, BodyUnavailableReasonUnset)"
| "planBodyLoop limits policy (encoded # target) index steps lastCopyEnd =
     op_bind (index_lookup encoded DimensionBody index) (\<lambda>candidate.
     op_bind (selectOccurrence DimensionBody lastCopyEnd candidate index) (\<lambda>(selected, index').
     if selected \<noteq> 0
     then op_bind (appendCopy limits steps selected DimensionBody (rl_MaxBodySteps limits) limitNameMaxBodySteps)
            (\<lambda>steps'. planBodyLoop limits policy target index' steps' selected)
     else op_bind (bodyLiteralContent encoded) (\<lambda>(content', representable).
       if \<not> representable then op_return ([], BodyUnavailableReasonUnrepresentable)
       else if policy = CopyOnly then op_return ([], BodyUnavailableReasonLiteralRequired)
       else if int (length content') > rl_MaxBodyLineBytes limits
       then op_fail (generationLimitError limitNameMaxBodyLineBytes (rl_MaxBodyLineBytes limits) (int (length content')) DimensionBody)
       else op_bind (appendDataLiteral limits steps content' DimensionBody (rl_MaxBodySteps limits) limitNameMaxBodySteps)
             (\<lambda>steps'. planBodyLoop limits policy target index' steps' lastCopyEnd))))"

definition addCandidates :: "Dimension \<Rightarrow> bytes list \<Rightarrow> exactCandidateIndex gop" where
  "addCandidates dimension source =
     op_bind counter_get (\<lambda>c.
       let entries = gl_MaxCandidateEntries (gc_limits c) in
       case checkedAdd (gc_candidates c) (int (length source)) of (projectedCandidates, ok) \<Rightarrow>
       if \<not> ok \<or> projectedCandidates > entries
       then op_fail (generationLimitError limitNameMaxCandidateEntries entries projectedCandidates dimension)
       else op_then (gchargeWork 1 dimension)
        (op_each (\<lambda>(index, v) candidates. index_add v (int index + 1) dimension candidates)
          (zip [0..<length source] source) newExactCandidateIndex))"

definition planBodyLines ::
    "RecipeLimits \<Rightarrow> bytes list \<Rightarrow> bytes list \<Rightarrow> LiteralDisclosurePolicy \<Rightarrow> (step list \<times> BodyUnavailableReason) gop" where
  "planBodyLines limits target source policy =
     op_bind (addCandidates DimensionBody source) (\<lambda>index. planBodyLoop limits policy target index [] 0)"

end
