(* ===== verification/Recipe_Planning_Exact.thy ===== *)
theory Recipe_Planning_Exact
  imports Recipe_Planning
begin

text \<open>
  What the planner computes: an index holds the occurrences of every source item, a lookup selects the
  earliest occurrence after the last copy, and the collected steps are the coalesced choices. A plan
  emitted over its source gives the target, and only limits can stop the planner.
\<close>

section \<open>The index as a function\<close>

definition entry :: "exactCandidateIndex \<Rightarrow> bytes \<Rightarrow> exactCandidate option" where
  "entry index v = find (\<lambda>c. ec_key c = v) (bucketOf index (Sum256 v))"

definition occs :: "bytes list \<Rightarrow> bytes \<Rightarrow> int list" where
  "occs src v = map (\<lambda>i. int i + 1) (filter (\<lambda>i. src ! i = v) [0..<length src])"

lemma occs_snoc: "occs (xs @ [x]) v = occs xs v @ (if x = v then [int (length xs) + 1] else [])"
proof -
  have "filter (\<lambda>i. (xs @ [x]) ! i = v) [0..<length xs] = filter (\<lambda>i. xs ! i = v) [0..<length xs]"
    by (rule filter_cong) (auto simp: nth_append)
  then show ?thesis by (simp add: occs_def)
qed

lemma occs_Nil [simp]: "occs [] v = []"
  by (simp add: occs_def)

lemma occs_elem: "p \<in> set (occs src v) \<Longrightarrow> 0 < p \<and> p \<le> int (length src) \<and> src ! (nat p - 1) = v"
  by (auto simp: occs_def nat_add_distrib)

lemma find_append: "find P (xs @ ys) = (case find P xs of None \<Rightarrow> find P ys | Some x \<Rightarrow> Some x)"
  by (induction xs) auto

text \<open>A bucket in which the first candidate of a key is replaced.\<close>

definition replaced :: "bytes \<Rightarrow> exactCandidate \<Rightarrow> exactCandidate list \<Rightarrow> exactCandidate list \<Rightarrow> bool" where
  "replaced v c b b' \<longleftrightarrow> (\<forall>w. find (\<lambda>c. ec_key c = w) b' = (if w = v then Some c else find (\<lambda>c. ec_key c = w) b))"

lemma entry_replaced:
  "replaced v c (bucketOf index (Sum256 v)) b' \<Longrightarrow> entry (index(Sum256 v \<mapsto> b')) = (entry index)(v \<mapsto> c)"
  by (auto simp: entry_def bucketOf_def replaced_def fun_eq_iff)

lemma addToBucket_returns:
  "returns limit_error (addToBucket v occ d b) (\<lambda>r. case r of
     None \<Rightarrow> find (\<lambda>c. ec_key c = v) b = None
   | Some b' \<Rightarrow> \<exists>c. find (\<lambda>c. ec_key c = v) b = Some c \<and> replaced v (c\<lparr>ec_positions := ec_positions c @ [occ]\<rparr>) b b')"
proof (induction b)
  case Nil
  then show ?case by (auto intro: returns_return simp del: op_eval)
next
  case (Cons c b)
  have "returns limit_error (op_bind (addToBucket v occ d b) (\<lambda>r. op_return (map_option ((#) c) r)))
      (\<lambda>r. case r of None \<Rightarrow> find (\<lambda>c. ec_key c = v) (c # b) = None
       | Some b' \<Rightarrow> \<exists>c'. find (\<lambda>c. ec_key c = v) (c # b) = Some c'
           \<and> replaced v (c'\<lparr>ec_positions := ec_positions c' @ [occ]\<rparr>) (c # b) b')" if "ec_key c \<noteq> v"
    using that
    by (intro returns_bind [OF Cons.IH] returns_return) (auto simp: replaced_def split: option.splits)
  then show ?case
    by (auto intro!: returns_then returns_if returns_return charges_fail_at_limits simp: replaced_def simp del: op_eval)
qed

definition extended :: "bytes \<Rightarrow> int \<Rightarrow> exactCandidate option \<Rightarrow> exactCandidate" where
  "extended v occ e = (case e of None \<Rightarrow> \<lparr>ec_key = v, ec_positions = [occ], ec_cursor = 0\<rparr>
     | Some c \<Rightarrow> c\<lparr>ec_positions := ec_positions c @ [occ]\<rparr>)"

lemma index_add_returns:
  "returns limit_error (index_add v occ d index) (\<lambda>index'. entry index' = (entry index)(v \<mapsto> extended v occ (entry index v)))"
proof -
  let ?b = "bucketOf index (Sum256 v)"
  have new: "find (\<lambda>c. ec_key c = v) ?b = None \<Longrightarrow> replaced v \<lparr>ec_key = v, ec_positions = [occ], ec_cursor = 0\<rparr> ?b
      (?b @ [\<lparr>ec_key = v, ec_positions = [occ], ec_cursor = 0\<rparr>])"
    by (auto simp: replaced_def find_append split: option.splits)
  show ?thesis
    unfolding index_add_def Let_def
    by (intro returns_then charges_fail_at_limits returns_bind [OF addToBucket_returns])
       (auto split: option.splits intro!: returns_then returns_return charges_fail_at_limits
         simp: entry_replaced new extended_def entry_def simp del: op_eval)
qed

section \<open>The earliest occurrence\<close>

definition earliest :: "bytes list \<Rightarrow> int \<Rightarrow> bytes \<Rightarrow> int" where
  "earliest src after v = (case filter (\<lambda>p. after < p) (occs src v) of [] \<Rightarrow> 0 | p # _ \<Rightarrow> p)"

lemma earliest_props:
  assumes "earliest src after v \<noteq> 0"
  shows "after < earliest src after v" "0 < earliest src after v" "earliest src after v \<le> int (length src)"
    "src ! (nat (earliest src after v) - 1) = v"
proof -
  from assms obtain p ps where p: "filter (\<lambda>p. after < p) (occs src v) = p # ps" "earliest src after v = p"
    by (auto simp: earliest_def split: list.splits)
  then have "p \<in> set (occs src v)" "after < p" using filter_set [of "\<lambda>p. after < p" "occs src v"] by auto
  with occs_elem [of p src v] p(2)
  show "after < earliest src after v" "0 < earliest src after v" "earliest src after v \<le> int (length src)"
    "src ! (nat (earliest src after v) - 1) = v" by auto
qed

text \<open>An index of the source whose cursors have passed only occurrences up to the last copy.\<close>

definition passed :: "bytes list \<Rightarrow> int \<Rightarrow> bytes \<Rightarrow> exactCandidate option \<Rightarrow> bool" where
  "passed src after v e \<longleftrightarrow> (case e of None \<Rightarrow> occs src v = []
     | Some c \<Rightarrow> ec_positions c = occs src v \<and> (\<forall>p \<in> set (take (ec_cursor c) (ec_positions c)). p \<le> after))"

definition indexes :: "bytes list \<Rightarrow> int \<Rightarrow> exactCandidateIndex \<Rightarrow> bool" where
  "indexes src after index \<longleftrightarrow> (\<forall>v. passed src after v (entry index v))"

definition fresh :: "bytes list \<Rightarrow> bytes \<Rightarrow> exactCandidate option \<Rightarrow> bool" where
  "fresh src v e \<longleftrightarrow> (case e of None \<Rightarrow> occs src v = [] | Some c \<Rightarrow> ec_positions c = occs src v \<and> ec_cursor c = 0)"

lemma fresh_snoc:
  "fresh xs v e \<Longrightarrow> fresh (xs @ [v]) v (Some (extended v (int (length xs) + 1) e))"
  "w \<noteq> v \<Longrightarrow> fresh (xs @ [v]) w e = fresh xs w e"
  by (auto simp: fresh_def extended_def occs_snoc split: option.splits)

lemma fresh_passed: "fresh src v e \<Longrightarrow> passed src a v e"
  by (auto simp: fresh_def passed_def split: option.splits)

lemma addCandidates_returns: "returns limit_error (addCandidates d src) (indexes src 0)"
proof -
  let ?I = "\<lambda>xs index. \<forall>v. fresh (map snd xs) v (entry index v)"
  have loop: "returns limit_error (op_each (\<lambda>(i, v) candidates. index_add v (int i + 1) d candidates)
      (zip [0..<length src] src) newExactCandidateIndex) (?I (zip [0..<length src] src))"
  proof (rule returns_each)
    show "?I [] newExactCandidateIndex" by (simp add: fresh_def entry_def bucketOf_def newExactCandidateIndex_def)
  next
    fix xs x ys acc
    assume zip: "zip [0..<length src] src = xs @ x # ys" and I: "?I xs acc"
    have "x = zip [0..<length src] src ! length xs" "length xs < length (zip [0..<length src] src)" by (simp_all add: zip)
    then have x: "fst x = length xs" by simp
    have "?I (xs @ [x]) index'" if "entry index' = (entry acc)(snd x \<mapsto> extended (snd x) (int (length xs) + 1) (entry acc (snd x)))"
      for index'
      using I fresh_snoc [where xs = "map snd xs" and v = "snd x"] that by simp
    then show "returns limit_error ((case x of (i, v) \<Rightarrow> \<lambda>candidates. index_add v (int i + 1) d candidates) acc) (?I (xs @ [x]))"
      using x by (cases x) (auto intro!: returns_weaken [OF index_add_returns])
  qed
  have "?I (zip [0..<length src] src) index \<Longrightarrow> indexes src 0 index" for index
    using fresh_passed [of src _ _ 0] by (simp add: indexes_def)
  then have "returns limit_error (op_each (\<lambda>(i, v) candidates. index_add v (int i + 1) d candidates)
      (zip [0..<length src] src) newExactCandidateIndex) (indexes src 0)"
    by (rule returns_weaken [OF loop])
  then show ?thesis
    unfolding addCandidates_def Let_def
    by (intro returns_bind [where P = "\<lambda>_. True"])
       (auto simp: returns_def [of _ counter_get] counter_get_def split: prod.splits
         intro!: returns_if returns_fail returns_then charges_fail_at_limits simp del: op_eval)
qed

definition points_to :: "exactCandidateIndex \<Rightarrow> bytes \<Rightarrow> (bytes \<times> nat) option \<Rightarrow> bool" where
  "points_to index v r \<longleftrightarrow> (case r of None \<Rightarrow> entry index v = None
     | Some (digest, n) \<Rightarrow> digest = Sum256 v \<and> entry index v = Some (bucketOf index digest ! n)
         \<and> (\<forall>c. ec_key c = v \<longrightarrow> replaced v c (bucketOf index digest) ((bucketOf index digest)[n := c])))"

lemma lookupBucket_returns:
  "returns limit_error (lookupBucket v d n b) (\<lambda>r. case r of
     None \<Rightarrow> find (\<lambda>c. ec_key c = v) b = None
   | Some m \<Rightarrow> n \<le> m \<and> find (\<lambda>c. ec_key c = v) b = Some (b ! (m - n))
       \<and> (\<forall>c. ec_key c = v \<longrightarrow> replaced v c b (b[m - n := c])))"
proof (induction b arbitrary: n)
  case Nil
  then show ?case by (auto intro: returns_return simp del: op_eval)
next
  case (Cons c b)
  have "returns limit_error (lookupBucket v d (Suc n) b) (\<lambda>r. case r of
      None \<Rightarrow> find (\<lambda>c. ec_key c = v) (c # b) = None
    | Some m \<Rightarrow> n \<le> m \<and> find (\<lambda>c. ec_key c = v) (c # b) = Some ((c # b) ! (m - n))
        \<and> (\<forall>c'. ec_key c' = v \<longrightarrow> replaced v c' (c # b) ((c # b)[m - n := c'])))" if "ec_key c \<noteq> v"
  proof (rule returns_weaken [OF Cons.IH [of "Suc n"]], goal_cases)
    case (1 r)
    show ?case
    proof (cases r)
      case None
      with 1 that show ?thesis by simp
    next
      case (Some m)
      with 1 have "m - n = Suc (m - Suc n)" by auto
      with 1 that Some show ?thesis by (auto simp: replaced_def)
    qed
  qed
  then show ?case
    by (auto intro!: returns_then returns_if returns_return charges_fail_at_limits simp: replaced_def simp del: op_eval)
qed

lemma index_lookup_returns: "returns limit_error (index_lookup v d index) (points_to index v)"
  unfolding index_lookup_def
  by (intro returns_then charges_fail_at_limits returns_bind [OF lookupBucket_returns] returns_return)
     (auto simp: points_to_def entry_def split: option.splits)

lemma advanceCursor_returns:
  "returns limit_error (advanceCursor d after ps n) (\<lambda>(sel, m).
     sel = (case filter (\<lambda>p. after < p) ps of [] \<Rightarrow> 0 | p # _ \<Rightarrow> p)
     \<and> n \<le> m \<and> (\<forall>p \<in> set (take (m - n) ps). p \<le> max after sel))"
proof (induction ps arbitrary: n)
  case Nil
  then show ?case by (auto intro: returns_return simp del: op_eval)
next
  case (Cons p ps)
  have "returns limit_error (advanceCursor d after ps (Suc n)) (\<lambda>(sel, m).
     sel = (case filter (\<lambda>p. after < p) (p # ps) of [] \<Rightarrow> 0 | p # _ \<Rightarrow> p)
     \<and> n \<le> m \<and> (\<forall>q \<in> set (take (m - n) (p # ps)). q \<le> max after sel))" if "\<not> after < p"
  proof (rule returns_weaken [OF Cons.IH [of "Suc n"]], goal_cases)
    case (1 r)
    obtain sel m where r: "r = (sel, m)" by fastforce
    have "m - n = Suc (m - Suc n)" using 1 r by auto
    with 1 that r show ?case by (auto simp: max.coboundedI1)
  qed
  then show ?case
    by (auto intro!: returns_then returns_if returns_return charges_fail_at_limits simp del: op_eval)
qed

lemma indexes_mono: "indexes src a index \<Longrightarrow> a \<le> b \<Longrightarrow> indexes src b index"
  unfolding indexes_def passed_def by (fastforce split: option.splits)

lemma selectOccurrence_returns:
  assumes "indexes src after index" "points_to index v r"
  shows "returns limit_error (selectOccurrence d after r index) (\<lambda>(sel, index').
    sel = earliest src after v \<and> indexes src (max after sel) index')"
proof (cases r)
  case None
  then have "occs src v = []" using assms by (auto simp: points_to_def indexes_def passed_def dest!: spec [of _ v])
  then show ?thesis using None indexes_mono [OF assms(1), of "max after 0"] by (auto simp: selectOccurrence_def earliest_def intro!: returns_return simp del: op_eval)
next
  case (Some p)
  obtain digest n where p: "p = (digest, n)" by fastforce
  let ?b = "bucketOf index digest"
  define c where "c = ?b ! n"
  have e: "digest = Sum256 v" "entry index v = Some c"
      "\<And>c. ec_key c = v \<Longrightarrow> replaced v c ?b (?b[n := c])"
    using assms(2) Some p by (auto simp: points_to_def c_def)
  have key: "ec_key c = v" using e(2) by (auto simp: entry_def find_Some_iff)
  have pos: "ec_positions c = occs src v" "\<forall>p \<in> set (take (ec_cursor c) (ec_positions c)). p \<le> after"
    using assms(1) e(2) by (auto simp: indexes_def passed_def dest!: spec [of _ v])
  let ?rest = "drop (ec_cursor c) (ec_positions c)"
  have "filter (\<lambda>p. after < p) (take (ec_cursor c) (ec_positions c)) = []"
    using pos(2) by (auto simp: filter_empty_conv)
  then have rest: "earliest src after v = (case filter (\<lambda>p. after < p) ?rest of [] \<Rightarrow> 0 | p # _ \<Rightarrow> p)"
    unfolding earliest_def pos(1) [symmetric] by (metis append_Nil append_take_drop_id filter_append)
  have upd: "entry (index(digest \<mapsto> ?b[n := c\<lparr>ec_cursor := m\<rparr>])) = (entry index)(v \<mapsto> c\<lparr>ec_cursor := m\<rparr>)" for m
    using e(1) e(3) [of "c\<lparr>ec_cursor := m\<rparr>"] key entry_replaced by simp
  have moved: "indexes src (max after (earliest src after v)) (index(digest \<mapsto> ?b[n := c\<lparr>ec_cursor := m\<rparr>]))"
    if "ec_cursor c \<le> m" "\<forall>p \<in> set (take (m - ec_cursor c) ?rest). p \<le> max after (earliest src after v)" for m
  proof -
    have "take m (ec_positions c) = take (ec_cursor c) (ec_positions c) @ take (m - ec_cursor c) ?rest"
      using that(1) by (metis le_add_diff_inverse take_add)
    then have "\<forall>p \<in> set (take m (ec_positions c)). p \<le> max after (earliest src after v)"
      using pos(2) that(2) by fastforce
    moreover have "passed src (max after (earliest src after v)) w (entry index w)" for w
      using indexes_mono [OF assms(1), of "max after (earliest src after v)"] by (simp add: indexes_def)
    ultimately show ?thesis unfolding indexes_def upd by (auto simp: passed_def pos(1))
  qed
  show ?thesis
    unfolding selectOccurrence_def Some p Let_def
    using moved by (auto intro!: returns_bind [OF advanceCursor_returns] returns_return
      simp: rest [symmetric] simp flip: c_def simp del: op_eval)
qed

section \<open>Coalesced choices\<close>

text \<open>A choice is the occurrence to copy or the literal to emit.\<close>

definition add_choice :: "step list \<Rightarrow> int + bytes \<Rightarrow> step list" where
  "add_choice ss ch = (case ch of
     Inl p \<Rightarrow> if ss \<noteq> [] \<and> st_kind (last ss) = StepKindCopy \<and> p = st_copyEnd (last ss) + 1
              then butlast ss @ [copy_step (st_copyStart (last ss)) p] else ss @ [copy_step p p]
   | Inr d \<Rightarrow> if ss \<noteq> [] \<and> st_kind (last ss) = literalKindFor d
              then butlast ss @ [literal_step (literalKindFor d) (st_data (last ss) @ [d])]
              else ss @ [literal_step (literalKindFor d) [d]])"

definition copies_end :: "step list \<Rightarrow> int" where
  "copies_end ss = (if copy_ranges ss = [] then 0 else snd (last (copy_ranges ss)))"

definition choice_fits :: "nat \<Rightarrow> step list \<Rightarrow> int + bytes \<Rightarrow> bool" where
  "choice_fits n ss ch \<longleftrightarrow> (case ch of Inl p \<Rightarrow> copies_end ss < p \<and> 0 < p \<and> p \<le> int n | Inr d \<Rightarrow> clean d)"

lemma literalKindFor_not_copy [simp]: "literalKindFor d \<noteq> StepKindCopy" "literalKindFor d = StepKindCopy \<longleftrightarrow> False"
  by (simp_all add: literalKindFor_def)

lemma literalKindFor_valid: "clean d \<Longrightarrow> validLiteral (literalKindFor d) d"
  by (auto simp: literalKindFor_def validLiteral_def validDataLiteral_def validBinaryLiteral_def clean_def ContainsAny_def)

lemma copies_end_simps [simp]:
  "copies_end [] = 0" "copies_end (ss @ [copy_step a b]) = b"
  "k \<noteq> StepKindCopy \<Longrightarrow> copies_end (ss @ [literal_step k ds]) = copies_end ss"
  by (simp_all add: copies_end_def)

lemma copies_end_bound: "steps_ok ss \<Longrightarrow> r \<in> set (copy_ranges ss) \<Longrightarrow> snd r \<le> copies_end ss"
proof -
  assume ss: "steps_ok ss" and r: "r \<in> set (copy_ranges ss)"
  obtain rs q where q: "copy_ranges ss = rs @ [q]" using r by (cases "copy_ranges ss" rule: rev_cases) auto
  have pos: "fst q \<le> snd q" using valid_range_pos [of ss q] ss q by (simp add: steps_ok_def)
  have "sorted_wrt (\<lambda>r r'. snd r < fst r') (rs @ [q])" using ss q by (simp add: steps_ok_def)
  then have "r \<in> set rs \<Longrightarrow> snd r < fst q" by (simp add: sorted_wrt_append)
  then show ?thesis using r q pos by (auto simp: copies_end_def)
qed

lemma steps_ok_snoc:
  "steps_ok (ss @ [copy_step a b]) \<longleftrightarrow> steps_ok ss \<and> 0 < a \<and> a \<le> b \<and> copies_end ss < a"
  "k \<noteq> StepKindCopy \<Longrightarrow> steps_ok (ss @ [literal_step k ds]) \<longleftrightarrow> steps_ok ss \<and> step_valid (literal_step k ds)"
proof -
  have "steps_ok ss \<Longrightarrow> 0 < a \<Longrightarrow> (\<forall>r \<in> set (copy_ranges ss). snd r < a) \<longleftrightarrow> copies_end ss < a"
    using copies_end_bound [of ss] by (cases "copy_ranges ss" rule: rev_cases) (fastforce simp: copies_end_def)+
  moreover have "step_valid (copy_step a b) \<longleftrightarrow> 0 < a \<and> a \<le> b" by (auto simp: step_valid_def copy_step_def StepKind_Known_def)
  ultimately show "steps_ok (ss @ [copy_step a b]) \<longleftrightarrow> steps_ok ss \<and> 0 < a \<and> a \<le> b \<and> copies_end ss < a"
    by (auto simp: steps_ok_def sorted_wrt_append)
qed (auto simp: steps_ok_def)

lemma copies_within_snoc [simp]:
  "copies_within n (ss @ [copy_step a b]) \<longleftrightarrow> copies_within n ss \<and> b \<le> int n"
  "k \<noteq> StepKindCopy \<Longrightarrow> copies_within n (ss @ [literal_step k ds]) \<longleftrightarrow> copies_within n ss"
  by (auto simp: copies_within_def)

lemma slice_snoc: "i \<le> j \<Longrightarrow> j < length xs \<Longrightarrow> Go_Bytes.slice xs i (Suc j) = Go_Bytes.slice xs i j @ [xs ! j]"
  by (simp add: Go_Bytes.slice_def Suc_diff_le take_Suc_conv_app_nth)

definition choice_item :: "(bytes \<Rightarrow> 'a) \<Rightarrow> 'a list \<Rightarrow> int + bytes \<Rightarrow> 'a" where
  "choice_item f src ch = (case ch of Inl p \<Rightarrow> src ! (nat p - 1) | Inr d \<Rightarrow> f d)"

definition choice_end :: "int \<Rightarrow> int + bytes \<Rightarrow> int" where
  "choice_end k ch = (case ch of Inl p \<Rightarrow> p | Inr d \<Rightarrow> k)"

text \<open>Adding a choice keeps the sequence coherent and emits the chosen item after the items so far.\<close>

lemma add_choice_emits:
  assumes "steps_ok ss" "copies_within (length src) ss" "choice_fits (length src) ss ch"
  shows "steps_ok (add_choice ss ch) \<and> copies_within (length src) (add_choice ss ch)
     \<and> copies_end (add_choice ss ch) = choice_end (copies_end ss) ch
     \<and> emit_steps f src (add_choice ss ch) = emit_steps f src ss @ [choice_item f src ch]"
proof (cases ch)
  case (Inl p)
  then have p: "copies_end ss < p" "0 < p" "p \<le> int (length src)" using assms(3) by (simp_all add: choice_fits_def)
  have new: "Go_Bytes.slice src (nat p - 1) (nat p) = [src ! (nat p - 1)]"
    using slice_snoc [of "nat p - 1" "nat p - 1" src] p by (simp add: Go_Bytes.slice_def)
  show ?thesis
  proof (cases "ss \<noteq> [] \<and> st_kind (last ss) = StepKindCopy \<and> p = st_copyEnd (last ss) + 1")
    case True
    then obtain ps s where ss: "ss = ps @ [s]" by (cases ss rule: rev_cases) auto
    have "step_valid s" "st_kind s = StepKindCopy" using assms(1) True by (simp_all add: ss steps_ok_def)
    then obtain a b where s: "s = copy_step a b" "0 < a" "a \<le> b"
      by (cases rule: step_valid_cases) (auto simp: literal_step_def)
    have pb: "p = b + 1" using True by (simp add: ss s copy_step_def)
    have add: "add_choice ss ch = ps @ [copy_step a p]" using True by (simp add: add_choice_def Inl ss s copy_step_def)
    have "Go_Bytes.slice src (nat a - 1) (nat p) = Go_Bytes.slice src (nat a - 1) (nat b) @ [src ! nat b]"
      using slice_snoc [of "nat a - 1" "nat b" src] s p pb by (simp add: nat_add_distrib)
    then show ?thesis
      using assms(1,2) p s pb unfolding add by (simp add: ss steps_ok_snoc Inl choice_end_def choice_item_def nat_add_distrib)
  next
    case False
    then have "add_choice ss ch = ss @ [copy_step p p]" by (auto simp: add_choice_def Inl)
    then show ?thesis using assms(1,2) p new by (simp add: steps_ok_snoc Inl choice_end_def choice_item_def)
  qed
next
  case (Inr d)
  let ?k = "literalKindFor d"
  have k: "?k \<noteq> StepKindCopy" "validLiteral ?k d" using assms(3) literalKindFor_valid by (simp_all add: choice_fits_def Inr)
  show ?thesis
  proof (cases "ss \<noteq> [] \<and> st_kind (last ss) = ?k")
    case True
    then obtain ps s where ss: "ss = ps @ [s]" by (cases ss rule: rev_cases) auto
    have "step_valid s" "st_kind s = ?k" using assms(1) True by (simp_all add: ss steps_ok_def)
    then obtain ds where s: "s = literal_step ?k ds" "list_all (validLiteral ?k) ds"
      using k(1) by (cases rule: step_valid_cases) (auto simp: literal_step_def copy_step_def)
    have add: "add_choice ss ch = ps @ [literal_step ?k (ds @ [d])]" using True by (simp add: add_choice_def Inr ss s literal_step_def)
    have "step_valid (literal_step ?k (ds @ [d]))" using s k by (simp add: step_valid_literal)
    then show ?thesis
      using assms(1,2) k s unfolding add by (simp add: ss steps_ok_snoc Inr choice_end_def choice_item_def)
  next
    case False
    then have "add_choice ss ch = ss @ [literal_step ?k [d]]" by (auto simp: add_choice_def Inr)
    moreover have "step_valid (literal_step ?k [d])" using k by (simp add: step_valid_literal)
    ultimately show ?thesis using assms(1,2) k by (simp add: steps_ok_snoc Inr choice_end_def choice_item_def)
  qed
qed

section \<open>The step planner\<close>

lemma counter_get_returns [returns_intros]: "returns E counter_get (\<lambda>_. True)"
  by (simp add: returns_def counter_get_def)

lemma appendStep_returns: "returns limit_error (appendStep steps i d m name) (\<lambda>ss. ss = steps @ [i])"
  unfolding appendStep_def
  by (auto split: prod.split intro!: returns_if returns_then returns_return returns_fail charges_fail_at_limits simp del: op_eval)

lemma appendCopy_returns:
  assumes "steps_ok steps" "0 < p"
  shows "returns limit_error (appendCopy l steps p d m name) (\<lambda>ss. ss = add_choice steps (Inl p))"
proof (cases "steps \<noteq> [] \<and> snd (snd (copyRange (last steps))) \<and> p = fst (snd (copyRange (last steps))) + 1")
  case True
  then have v: "step_valid (last steps)" "st_kind (last steps) = StepKindCopy"
    using assms(1) by (auto simp: steps_ok_def copyRange_def list.pred_set)
  then have "(last steps)\<lparr>st_copyEnd := p\<rparr> = copy_step (st_copyStart (last steps)) p"
    by (cases rule: step_valid_cases) (auto simp: copy_step_def literal_step_def)
  then show ?thesis
    using True v unfolding appendCopy_def Let_def
    by (auto simp: add_choice_def copyRange_def intro!: returns_if returns_then returns_return returns_fail charges_fail_at_limits
        simp del: op_eval)
next
  case False
  have "newCopyStep p p = Inr (copy_step p p)" using assms(2) by (simp add: newCopyStep_def)
  moreover have "add_choice steps (Inl p) = steps @ [copy_step p p]"
  proof (cases "steps = []")
    case s: False
    then have "step_valid (last steps)" using assms(1) by (simp add: steps_ok_def list.pred_set)
    then have "st_initialized (last steps)" by (simp add: step_valid_def split: if_splits)
    with False s show ?thesis by (auto simp: add_choice_def copyRange_def)
  qed (simp add: add_choice_def)
  ultimately show ?thesis
    unfolding appendCopy_def if_not_P [OF False]
    by (auto intro!: returns_then charges_fail_at_limits appendStep_returns simp del: op_eval)
qed

lemma appendDataLiteral_returns:
  assumes "steps_ok steps" "clean v"
  shows "returns limit_error (appendDataLiteral l steps v d m name) (\<lambda>ss. ss = add_choice steps (Inr v))"
proof -
  have "(last steps)\<lparr>st_data := st_data (last steps) @ [v]\<rparr> = literal_step (literalKindFor v) (st_data (last steps) @ [v])"
    if "steps \<noteq> []" "st_kind (last steps) = literalKindFor v"
  proof -
    have "step_valid (last steps)" using assms(1) that(1) by (simp add: steps_ok_def list.pred_set)
    then show ?thesis using that(2) literalKindFor_not_copy(1) [of v, symmetric] by (cases rule: step_valid_cases) (auto simp: copy_step_def literal_step_def)
  qed
  then show ?thesis
    using literalKindFor_valid [OF assms(2)] unfolding appendDataLiteral_def Let_def
    by (auto simp: add_choice_def split: prod.split
        intro!: returns_weaken [OF appendStep_returns] returns_if returns_then returns_return returns_fail returns_bind [OF counter_get_returns] charges_fail_at_limits simp del: op_eval)
qed

section \<open>Planning of body lines\<close>

definition representable :: "bytes \<Rightarrow> bool" where
  "representable e \<longleftrightarrow> terminated e \<and> clean (content e)"

lemma bodyLiteralContent_returns:
  "returns limit_error (bodyLiteralContent e) (\<lambda>(c, ok). ok = representable e \<and> (ok \<longrightarrow> clean c \<and> e = body_line c))"
proof -
  let ?t = "length e < 2 \<or> e ! (length e - 2) \<noteq> CR \<or> e ! (length e - 1) \<noteq> LF"
  have t: "?t \<longleftrightarrow> \<not> terminated e"
  proof
    assume ?t
    then show "\<not> terminated e" by (auto simp: terminated_def HasSuffix_iff crlf_def nth_append)
  next
    assume n: "\<not> terminated e"
    show ?t
    proof (rule ccontr)
      assume a: "\<not> ?t"
      then obtain x b where x: "e = x @ [b]" by (cases e rule: rev_cases) auto
      with a obtain y c where "x = y @ [c]" by (cases x rule: rev_cases) auto
      with a x have "e = y @ crlf" by (simp add: crlf_def nth_append)
      with n show False by simp
    qed
  qed
  have v: "validBinaryLiteral d \<longleftrightarrow> clean d" for d by (auto simp: validBinaryLiteral_def ContainsAny_def clean_def)
  have c: "terminated e \<Longrightarrow> content e = take (length e - 2) e \<and> e = body_line (content e)"
    by (auto simp: terminated_def HasSuffix_iff body_line_def content_def)
  show ?thesis
    unfolding bodyLiteralContent_def t Let_def
    using c by (auto simp: representable_def v split: prod.split
        intro!: returns_if returns_then returns_return returns_fail returns_bind [OF counter_get_returns] charges_fail_at_limits simp del: op_eval)
qed

definition planned :: "LiteralDisclosurePolicy \<Rightarrow> bytes list \<Rightarrow> bytes list \<Rightarrow> step list \<Rightarrow> step list \<times> BodyUnavailableReason \<Rightarrow> bool" where
  "planned policy src target steps r \<longleftrightarrow> (case r of (ss, reason) \<Rightarrow>
     case reason of
       BodyUnavailableReasonUnset \<Rightarrow> steps_ok ss \<and> copies_within (length src) ss
         \<and> emit_steps body_line src ss = emit_steps body_line src steps @ target
     | BodyUnavailableReasonUnrepresentable \<Rightarrow> ss = [] \<and> (\<exists>e \<in> set target. \<not> representable e)
     | BodyUnavailableReasonLiteralRequired \<Rightarrow> ss = [] \<and> policy = CopyOnly)"

lemma planned_reasons:
  "\<not> representable e \<Longrightarrow> planned policy src (e # target) steps ([], BodyUnavailableReasonUnrepresentable)"
  "planned CopyOnly src target steps ([], BodyUnavailableReasonLiteralRequired)"
  by (simp_all add: planned_def)

lemma copies_end_nonneg: "steps_ok ss \<Longrightarrow> 0 \<le> copies_end ss"
  using valid_range_pos [of ss "last (copy_ranges ss)"] by (auto simp: copies_end_def steps_ok_def)

lemma planBodyLoop_returns:
  assumes "indexes src (copies_end steps) index" "steps_ok steps" "copies_within (length src) steps"
  shows "returns limit_error (planBodyLoop l policy target index steps (copies_end steps)) (planned policy src target steps)"
  using assms
proof (induction target arbitrary: index steps)
  case Nil
  then show ?case by (auto simp: planned_def intro!: returns_return simp del: op_eval)
next
  case (Cons e target)
  let ?p = "earliest src (copies_end steps) e"
  have step: "returns limit_error (planBodyLoop l policy target index' (add_choice steps ch) (copies_end (add_choice steps ch)))
      (planned policy src (e # target) steps)"
    if fits: "choice_fits (length src) steps ch" and item: "choice_item body_line src ch = e"
      and index': "indexes src (choice_end (copies_end steps) ch) index'" for ch index'
  proof -
    note add = add_choice_emits [OF Cons.prems(2,3) fits, of body_line]
    have "returns limit_error (planBodyLoop l policy target index' (add_choice steps ch) (copies_end (add_choice steps ch)))
      (planned policy src target (add_choice steps ch))" using add index' by (intro Cons.IH) simp_all
    then show ?thesis
      by (rule returns_weaken) (auto simp: planned_def add item split: BodyUnavailableReason.splits)
  qed
  have copy: "returns limit_error (op_bind (appendCopy l steps ?p DimensionBody m name)
      (\<lambda>ss. planBodyLoop l policy target index' ss ?p)) (planned policy src (e # target) steps)"
    if "?p \<noteq> 0" "indexes src (max (copies_end steps) ?p) index'" for index' m name
  proof -
    have p: "copies_end steps < ?p" "?p \<le> int (length src)" "src ! (nat ?p - 1) = e" "0 < ?p"
      using earliest_props [of src "copies_end steps" e] that(1) by auto
    show ?thesis
      using step [of "Inl ?p" index'] that(2) p add_choice_emits [OF Cons.prems(2,3), of "Inl ?p" body_line]
      by (auto intro!: returns_bind [OF appendCopy_returns [OF Cons.prems(2)]]
          simp: choice_fits_def choice_item_def choice_end_def max_def simp del: op_eval)
  qed
  have literal: "returns limit_error (op_bind (appendDataLiteral l steps c DimensionBody m name)
      (\<lambda>ss. planBodyLoop l policy target index' ss (copies_end steps))) (planned policy src (e # target) steps)"
    if "clean c" "e = body_line c" "indexes src (copies_end steps) index'" for c index' m name
    using step [of "Inr c" index'] that add_choice_emits [OF Cons.prems(2,3), of "Inr c" body_line]
    by (auto intro!: returns_bind [OF appendDataLiteral_returns [OF Cons.prems(2)]]
        simp: choice_fits_def choice_item_def choice_end_def simp del: op_eval)
  show ?case
    unfolding planBodyLoop.simps
  proof (rule returns_bind [OF index_lookup_returns], rule returns_bind [OF selectOccurrence_returns [OF Cons.prems(1)]], assumption, goal_cases)
    case (1 r si)
    obtain index' where si: "si = (?p, index')" "indexes src (max (copies_end steps) ?p) index'" using 1 by (cases si) auto
    have i0: "?p = 0 \<Longrightarrow> indexes src (copies_end steps) index'" using si(2) copies_end_nonneg [OF Cons.prems(2)] by simp
    show ?case
      unfolding si(1) prod.case
    proof (rule returns_if, goal_cases)
      case 1
      then show ?case using copy si(2) by blast
    next
      case 2
      then have z: "?p = 0" by simp
      show ?case
      proof (rule returns_bind [OF bodyLiteralContent_returns], goal_cases)
        case (1 c)
        obtain d ok where c: "c = (d, ok)" by fastforce
        show ?case
          using 1 literal [of d index'] i0 [OF z] planned_reasons unfolding c
          by (cases policy) (auto intro!: returns_if returns_return returns_fail simp del: op_eval)
      qed
    qed
  qed
qed

theorem planBodyLines_returns:
  "returns limit_error (planBodyLines l target src policy) (planned policy src target [])"
proof -
  have "returns limit_error (planBodyLoop l policy target index [] 0) (planned policy src target [])" if "indexes src 0 index" for index
    using planBodyLoop_returns [of src "[]" index l policy target] that by (simp add: copies_within_def)
  then show ?thesis unfolding planBodyLines_def by (rule returns_bind [OF addCandidates_returns])
qed

end
