(* ===== verification/Recipe_Body_Planning.thy ===== *)
theory Recipe_Body_Planning
  imports Recipe_Planning_Exact
begin

text \<open>
  The generator (\<open>generator.go\<close>) and its planning of bodies (\<open>generation_body.go\<close>): the body of the previous
  state as steps over the lines of the current one.
\<close>

section \<open>The generator (\<open>generator.go\<close>)\<close>

text \<open>
  The relevance of header names is an interface; its contract asks for immutable and deterministic
  implementations, so that it is a value with the two answers. \<open>None\<close> is an error of the callback.
\<close>

record GeneratorRelevance =
  hrel_validates :: bool
  hrel_IsRelevantHeader :: "bytes \<Rightarrow> bool option"

record Generator =
  gn_limits :: GenerationLimits
  gn_relevance :: "GeneratorRelevance option"
  gn_initialized :: bool

definition stableHeaderRelevance :: "GeneratorRelevance option \<Rightarrow> bool" where
  "stableHeaderRelevance relevance =
     (case relevance of None \<Rightarrow> False | Some r \<Rightarrow> if \<not> hrel_validates r then False else hrel_validates r)"

definition NewGenerator :: "GenerationLimits \<Rightarrow> GeneratorRelevance option \<Rightarrow> (RecipeError, Generator) result" where
  "NewGenerator limits relevance =
     res_bind (GenerationLimits_normalized limits) (\<lambda>resolved.
       if \<not> stableHeaderRelevance relevance then Inl (newRecipeError RecipeInvalidGenerator noLocation noDetails)
       else Inr \<lparr>gn_limits = resolved, gn_relevance = relevance, gn_initialized = True\<rparr>)"

definition Generator_Valid :: "Generator \<Rightarrow> bool" where
  "Generator_Valid g \<longleftrightarrow> gn_initialized g \<and> stableHeaderRelevance (gn_relevance g)"

definition validateRequest :: "Generator \<Rightarrow> GenerationRequest \<Rightarrow> RecipeError option" where
  "validateRequest g request =
     (if \<not> Generator_Valid g then Some (newRecipeError RecipeInvalidGenerator noLocation noDetails)
      else if \<not> GenerationRequest_Valid request then Some (newRecipeError RecipeInvalidRequest noLocation noDetails)
      else None)"

definition classifyStableHeader :: "Generator \<Rightarrow> bytes \<Rightarrow> (RecipeError, bool) result" where
  "classifyStableHeader g nameLower =
     (if \<not> Generator_Valid g then Inl (newRecipeError RecipeInvalidGenerator noLocation noDetails)
      else case CanonicalHeaderName nameLower of
        None \<Rightarrow> Inl (newRecipeError RecipeHeaderRelevance noLocation noDetails)
      | Some canonicalName \<Rightarrow>
          if canonicalName \<noteq> nameLower then Inl (newRecipeError RecipeHeaderRelevance noLocation noDetails)
          else case gn_relevance g of
            None \<Rightarrow> Inl (newRecipeError RecipeHeaderRelevance noLocation noDetails)
          | Some r \<Rightarrow>
              (case hrel_IsRelevantHeader r nameLower of
                 None \<Rightarrow> Inl (newRecipeError RecipeHeaderRelevance noLocation noDetails)
               | Some first \<Rightarrow>
                   (case hrel_IsRelevantHeader r nameLower of
                      None \<Rightarrow> Inl (newRecipeError RecipeHeaderRelevance noLocation noDetails)
                    | Some second \<Rightarrow> if first \<noteq> second then Inl (newRecipeError RecipeHeaderRelevance noLocation noDetails)
                        else Inr first)))"

section \<open>Body plans (\<open>generation_body.go\<close>)\<close>

record bodyPlanningResult =
  bp_outcome :: BodyGenerationOutcome
  bp_unavailable :: BodyUnavailableReason
  bp_steps :: "step list"
  bp_initialized :: bool

definition bodyPlanningResult_Valid :: "bodyPlanningResult \<Rightarrow> bool" where
  "bodyPlanningResult_Valid r =
     (if \<not> bp_initialized r \<or> \<not> BodyGenerationOutcome_Known (bp_outcome r) then False
      else case bp_outcome r of
        BodyGenerationUnchanged \<Rightarrow> length (bp_steps r) = 0 \<and> \<not> BodyUnavailableReason_Known (bp_unavailable r)
      | BodyGenerationUnavailable \<Rightarrow> length (bp_steps r) = 0 \<and> BodyUnavailableReason_Known (bp_unavailable r)
      | BodyGenerationGenerated \<Rightarrow>
          if BodyUnavailableReason_Known (bp_unavailable r) then False else orderedSteps 0 (bp_steps r)
      | BodyGenerationUnset \<Rightarrow> False)"

definition bodyPlanningResult_Outcome :: "bodyPlanningResult \<Rightarrow> BodyGenerationOutcome" where
  "bodyPlanningResult_Outcome r = (if \<not> bodyPlanningResult_Valid r then BodyGenerationUnset else bp_outcome r)"

definition bodyPlanningResult_UnavailableReason :: "bodyPlanningResult \<Rightarrow> BodyUnavailableReason" where
  "bodyPlanningResult_UnavailableReason r =
     (if \<not> bodyPlanningResult_Valid r \<or> bp_outcome r \<noteq> BodyGenerationUnavailable then BodyUnavailableReasonUnset
      else bp_unavailable r)"

definition bodyPlanningResult_stepsCopy :: "bodyPlanningResult \<Rightarrow> step list" where
  "bodyPlanningResult_stepsCopy r =
     (if \<not> bodyPlanningResult_Valid r \<or> bp_outcome r \<noteq> BodyGenerationGenerated then [] else bp_steps r)"

definition newUnchangedBodyPlanningResult :: bodyPlanningResult where
  "newUnchangedBodyPlanningResult = \<lparr>bp_outcome = BodyGenerationUnchanged, bp_unavailable = BodyUnavailableReasonUnset,
     bp_steps = [], bp_initialized = True\<rparr>"

fun planPassWork :: "int \<Rightarrow> bytes list \<Rightarrow> int + int" where
  "planPassWork work [] = Inr work"
| "planPassWork work (literal # rest) =
     (case literalWork literal of (w, ok) \<Rightarrow>
      if \<not> ok then Inl work
      else case checkedAdd work w of (work', ok) \<Rightarrow> if \<not> ok then Inl work' else planPassWork work' rest)"

definition chargeBodyPlanPass :: "step list \<Rightarrow> unit gop" where
  "chargeBodyPlanPass steps =
     op_each (\<lambda>instruction _.
       case planPassWork 1 (st_data instruction) of
         Inl work \<Rightarrow> op_bind counter_get (\<lambda>c. op_fail (workLimitError c work DimensionBody))
       | Inr work \<Rightarrow> gchargeWork work DimensionBody) steps ()"

definition newGeneratedBodyPlanningResult :: "step list \<Rightarrow> bodyPlanningResult gop" where
  "newGeneratedBodyPlanningResult steps =
     op_then (chargeBodyPlanPass steps)
      (let result = \<lparr>bp_outcome = BodyGenerationGenerated, bp_unavailable = BodyUnavailableReasonUnset, bp_steps = steps,
             bp_initialized = True\<rparr> in
       if \<not> bodyPlanningResult_Valid result then op_fail (generationInvariantErrorForDimension DimensionBody)
       else op_return result)"

definition newUnavailableBodyPlanningResult :: "BodyUnavailableReason \<Rightarrow> bodyPlanningResult gop" where
  "newUnavailableBodyPlanningResult reason =
     (let result = \<lparr>bp_outcome = BodyGenerationUnavailable, bp_unavailable = reason, bp_steps = [], bp_initialized = True\<rparr> in
      if \<not> bodyPlanningResult_Valid result then op_fail (generationInvariantErrorForDimension DimensionBody)
      else op_return result)"

definition resolveUnavailableBody :: "BodyUnavailablePolicy \<Rightarrow> BodyUnavailableReason \<Rightarrow> bodyPlanningResult gop" where
  "resolveUnavailableBody policy reason =
     (if \<not> BodyUnavailablePolicy_Known policy \<or> \<not> BodyUnavailableReason_Known reason
      then op_fail (generationInvariantErrorForDimension DimensionBody)
      else if policy = AllowUnavailableBody then newUnavailableBodyPlanningResult reason
      else op_fail (newRecipeError RecipeBodyUnrepresentable noLocation (noDetails\<lparr>rdet_Dimension := DimensionBody\<rparr>)))"

definition generationSeparator :: "State \<Rightarrow> int" where
  "generationSeparator s = (if ss_framing s = MessageFramingDelimited then 2 else 0)"

definition bodyGenerationInputBytes :: "State \<Rightarrow> int \<times> bool" where
  "bodyGenerationInputBytes s = checkedAdd (int (Body_Len (ss_body s))) (generationSeparator s)"

text \<open>
  Both loops below visit the lines of an initialized body: the state was checked to be known before.
\<close>

definition validateBodyGenerationState :: "State \<Rightarrow> RecipeLimits \<Rightarrow> unit gop" where
  "validateBodyGenerationState s limits =
     (if \<not> knownGenerationState s
      then op_fail (newRecipeError RecipeInvalidState noLocation (noDetails\<lparr>rdet_Dimension := DimensionBody\<rparr>))
      else case checkedSum [int (HeaderBlock_OriginalByteLen (ss_headers s)), generationSeparator s, int (Body_Len (ss_body s))] of
        (stateBytes, ok) \<Rightarrow>
        if \<not> ok \<or> stateBytes > rl_MaxStateBytes limits
        then op_fail (generationLimitError limitNameMaxStateBytes (rl_MaxStateBytes limits) stateBytes DimensionBody)
        else if int (Body_LineCount (ss_body s)) > rl_MaxBodyLines limits
        then op_fail (generationLimitError limitNameMaxBodyLines (rl_MaxBodyLines limits) (int (Body_LineCount (ss_body s))) DimensionBody)
        else op_each (\<lambda>line _.
          case checkedAdd (int (BodyLineView_EncodedLen line)) 1 of (lineWork, ok) \<Rightarrow>
          if \<not> ok then op_bind counter_get (\<lambda>c. op_fail (workLimitError c lineWork DimensionBody))
          else op_then (gchargeWork lineWork DimensionBody)
            (if int (BodyLineView_ContentLen line) > rl_MaxBodyLineBytes limits
             then op_fail (generationLimitError limitNameMaxBodyLineBytes (rl_MaxBodyLineBytes limits)
                    (int (BodyLineView_ContentLen line)) DimensionBody)
             else op_return ())) (bd_lines (ss_body s)) ())"

definition collectBodyGenerationLines :: "Body \<Rightarrow> bytes list gop" where
  "collectBodyGenerationLines body =
     (case checkedAdd (int (Body_LineCount body)) 1 of (storageWork, ok) \<Rightarrow>
      if \<not> ok then op_bind counter_get (\<lambda>c. op_fail (workLimitError c storageWork DimensionBody))
      else op_then (gchargeWork storageWork DimensionBody)
       (op_each (\<lambda>line lines.
          case checkedAdd (int (BodyLineView_EncodedLen line)) 1 of (lineWork, ok) \<Rightarrow>
          if \<not> ok then op_bind counter_get (\<lambda>c. op_fail (workLimitError c lineWork DimensionBody))
          else op_then (gchargeWork lineWork DimensionBody) (op_return (lines @ [BodyLineView_EncodedCopy body line])))
        (bd_lines body) []))"

text \<open>The budget's limits are an argument; its counter is the state of the operation.\<close>

definition planBody :: "Generator \<Rightarrow> GenerationRequest \<Rightarrow> RecipeLimits \<Rightarrow> bodyPlanningResult gop" where
  "planBody g request budgetLimits =
     op_guard (validateRequest g request)
     (op_bind counter_get (\<lambda>counter.
      if budgetLimits \<noteq> gl_RecipeLimits (gn_limits g) \<or> gc_limits counter \<noteq> gn_limits g
      then op_fail (generationInvariantErrorForDimension DimensionBody)
      else
      let previous = Previous request; current = Current request; inputLimit = gl_MaxInputBytes (gn_limits g) in
      case bodyGenerationInputBytes previous of (previousBytes, ok) \<Rightarrow>
      if \<not> ok then op_fail (generationLimitError limitNameMaxInputBytes inputLimit previousBytes DimensionBody) else
      case bodyGenerationInputBytes current of (currentBytes, ok) \<Rightarrow>
      if \<not> ok then op_fail (generationLimitError limitNameMaxInputBytes inputLimit currentBytes DimensionBody) else
      case checkedAdd previousBytes currentBytes of (inputBytes, ok) \<Rightarrow>
      if \<not> ok then op_fail (generationLimitError limitNameMaxInputBytes inputLimit inputBytes DimensionBody) else
      case checkedAdd (int (Body_LineCount (ss_body previous))) (int (Body_LineCount (ss_body current))) of (inputItems, ok) \<Rightarrow>
      if \<not> ok then op_fail (generationLimitError limitNameMaxInputItems (gl_MaxInputItems (gn_limits g)) inputItems DimensionBody) else
      op_then (chargeInput inputBytes inputItems DimensionBody)
      (op_then (validateBodyGenerationState previous (gl_RecipeLimits (gn_limits g)))
      (op_then (validateBodyGenerationState current (gl_RecipeLimits (gn_limits g)))
      (case checkedAdd (max (int (Body_Len (ss_body previous))) (int (Body_Len (ss_body current)))) 1 of (equalityWork, ok) \<Rightarrow>
       if \<not> ok then op_fail (workLimitError counter equalityWork DimensionBody) else
       op_then (gchargeWork equalityWork DimensionBody)
       (if ss_framing previous = ss_framing current \<and> Body_Equal (ss_body previous) (ss_body current)
        then op_return newUnchangedBodyPlanningResult
        else if ss_framing previous = MessageFramingHeaderOnly
        then resolveUnavailableBody (GenerationRequest_BodyUnavailablePolicy request) BodyUnavailableReasonUnrepresentable
        else if Body_LineCount (ss_body previous) = 0 then newGeneratedBodyPlanningResult []
        else
          op_bind (collectBodyGenerationLines (ss_body previous)) (\<lambda>target.
          op_bind (collectBodyGenerationLines (ss_body current)) (\<lambda>source.
          op_bind (planBodyLines budgetLimits target source (LiteralPolicy request)) (\<lambda>(steps, reason).
            if BodyUnavailableReason_Known reason
            then resolveUnavailableBody (GenerationRequest_BodyUnavailablePolicy request) reason
            else newGeneratedBodyPlanningResult steps)))))))))"

end
