(* ===== verification/Recipe_Header_Planning.thy ===== *)
theory Recipe_Header_Planning
  imports Recipe_Body_Planning "HOL-Library.Multiset"
begin

text \<open>
  Planning of headers by the generator (\<open>generation_header.go\<close>): per header name, the unfolded values of the
  previous state bottom-up as steps over those of the current one. Maps from names are finite maps, the
  shared name set is the list of its members in the order of insertion. Fields are visited only of states
  that were validated, so that their blocks are initialized.
\<close>

section \<open>Field views (\<open>rawmsg/header.go\<close>)\<close>

definition FieldView_NameLower :: "HeaderField \<Rightarrow> bytes" where
  "FieldView_NameLower f = (if \<not> hf_valid f then [] else hf_nameLower f)"

definition FieldView_OriginalByteLen :: "HeaderField \<Rightarrow> nat" where
  "FieldView_OriginalByteLen f = (if \<not> hf_valid f then 0 else length (hf_originalBytes f))"

definition FieldView_UnfoldedValueLen :: "HeaderField \<Rightarrow> nat" where
  "FieldView_UnfoldedValueLen f = (if \<not> hf_valid f then 0 else length (hf_unfoldedValue f))"

definition FieldView_UnfoldedValueCopy :: "HeaderField \<Rightarrow> bytes" where
  "FieldView_UnfoldedValueCopy f = (if \<not> hf_valid f then [] else hf_unfoldedValue f)"

section \<open>Results and errors\<close>

record headerClassification =
  hc_name :: bytes
  hc_relevant :: bool

record headerPlanningResult =
  hr_plans :: "headerPlan list"
  hr_classifications :: "headerClassification list"
  hr_classified :: bool
  hr_initialized :: bool

definition headerPlanningResult_Valid :: "headerPlanningResult \<Rightarrow> bool" where
  "headerPlanningResult_Valid r = (if \<not> hr_initialized r then False else orderedPlans [] (hr_plans r))"

definition headerPlanningResult_Changed :: "headerPlanningResult \<Rightarrow> bool" where
  "headerPlanningResult_Changed r \<longleftrightarrow> headerPlanningResult_Valid r \<and> length (hr_plans r) > 0"

definition headerPlanningResult_headerPlans :: "headerPlanningResult \<Rightarrow> headerPlan list" where
  "headerPlanningResult_headerPlans r = (if \<not> headerPlanningResult_Valid r then [] else hr_plans r)"

definition headerUnrepresentableError :: RecipeError where
  "headerUnrepresentableError =
     newRecipeError RecipeHeaderUnrepresentable noLocation (noDetails\<lparr>rdet_Dimension := DimensionHeader\<rparr>)"

definition headerRelevanceInvariantError :: RecipeError where
  "headerRelevanceInvariantError =
     newRecipeError RecipeHeaderRelevance noLocation (noDetails\<lparr>rdet_Dimension := DimensionHeader\<rparr>)"

definition generationInvariantError :: RecipeError where
  "generationInvariantError = generationInvariantErrorForDimension DimensionHeader"

definition headerWorkError :: "int \<Rightarrow> 'a gop" where
  "headerWorkError actual = op_bind counter_get (\<lambda>c. op_fail (workLimitError c actual DimensionHeader))"

definition newHeaderPlanningResult :: "headerPlan list \<Rightarrow> (RecipeError, headerPlanningResult) result" where
  "newHeaderPlanningResult plans =
     (let result = \<lparr>hr_plans = plans, hr_classifications = [], hr_classified = False, hr_initialized = True\<rparr> in
      if \<not> headerPlanningResult_Valid result then Inl generationInvariantError else Inr result)"

definition newClassifiedHeaderPlanningResult ::
    "headerPlan list \<Rightarrow> headerClassification list \<Rightarrow> (RecipeError, headerPlanningResult) result" where
  "newClassifiedHeaderPlanningResult plans classifications =
     res_bind (newHeaderPlanningResult plans) (\<lambda>result.
       Inr (result\<lparr>hr_classifications := classifications, hr_classified := True\<rparr>))"

section \<open>Validation and groups\<close>

definition validateHeaderGenerationState :: "State \<Rightarrow> RecipeLimits \<Rightarrow> unit gop" where
  "validateHeaderGenerationState s limits =
     (if \<not> knownGenerationState s then op_fail (newRecipeError RecipeInvalidState noLocation noDetails)
      else
        let headerBytes = int (HeaderBlock_OriginalByteLen (ss_headers s));
            first = checkedAdd headerBytes (int (Body_Len (ss_body s)));
            second = (if ss_framing s = MessageFramingDelimited then checkedAdd (fst first) 2 else first) in
        if \<not> snd second \<or> fst second > rl_MaxStateBytes limits
        then op_fail (generationLimitError limitNameMaxStateBytes (rl_MaxStateBytes limits) (fst second) DimensionHeader)
        else if int (HeaderBlock_Len (ss_headers s)) > rl_MaxHeaderFields limits
        then op_fail (generationLimitError limitNameMaxHeaderFields (rl_MaxHeaderFields limits) (int (HeaderBlock_Len (ss_headers s))) DimensionHeader)
        else if headerBytes > rl_MaxHeaderBytes limits
        then op_fail (generationLimitError limitNameMaxHeaderBytes (rl_MaxHeaderBytes limits) headerBytes DimensionHeader)
        else op_each (\<lambda>field _.
          let originalBytes = int (FieldView_OriginalByteLen field); actual = int (MaximumPhysicalLineBytes field) in
          op_then (gchargeWork (originalBytes + 1) DimensionHeader)
           (if originalBytes > rl_MaxHeaderFieldBytes limits
            then op_fail (generationLimitError limitNameMaxHeaderFieldBytes (rl_MaxHeaderFieldBytes limits) originalBytes DimensionHeader)
            else if actual > rl_MaxHeaderLineBytes limits
            then op_fail (generationLimitError limitNameMaxHeaderLineBytes (rl_MaxHeaderLineBytes limits) actual DimensionHeader)
            else op_return ())) (rev (hb_fields (ss_headers s))) ())"

definition checkedNameScanWork :: "int \<Rightarrow> int \<Rightarrow> int \<Rightarrow> int \<times> bool" where
  "checkedNameScanWork nameBytes scans overhead =
     (case checkedMultiply nameBytes scans of (work, ok) \<Rightarrow> if \<not> ok then (work, False) else checkedAdd work overhead)"

record headerCollection =
  hk_groups :: "bytes \<rightharpoonup> bytes list"
  hk_names :: "bytes list"
  hk_nameBytes :: int

definition group_of :: "(bytes \<rightharpoonup> bytes list) \<Rightarrow> bytes \<Rightarrow> bytes list" where
  "group_of groups name = (case groups name of None \<Rightarrow> [] | Some values \<Rightarrow> values)"

definition retainName :: "bytes \<Rightarrow> RecipeLimits \<Rightarrow> headerCollection \<Rightarrow> headerCollection gop" where
  "retainName name limits k =
     (let nextNames = int (length (hk_names k)) + 1 in
      if name \<in> set (hk_names k) then op_return k
      else if nextNames > rl_MaxHeaderNames limits
      then op_fail (generationLimitError limitNameMaxHeaderNames (rl_MaxHeaderNames limits) nextNames DimensionHeader)
      else if int (length name) > rl_MaxHeaderNameBytes limits
      then op_fail (generationLimitError limitNameMaxHeaderNameBytes (rl_MaxHeaderNameBytes limits) (int (length name)) DimensionHeader)
      else case checkedAdd (hk_nameBytes k) (int (length name)) of (nextNameBytes, added) \<Rightarrow>
        if \<not> added \<or> nextNameBytes > rl_MaxTotalHeaderNameBytes limits
        then op_fail (generationLimitError limitNameMaxTotalHeaderNameBytes (rl_MaxTotalHeaderNameBytes limits) nextNameBytes DimensionHeader)
        else op_return (k\<lparr>hk_names := hk_names k @ [name], hk_nameBytes := nextNameBytes\<rparr>))"

definition collectGenerationField :: "RecipeLimits \<Rightarrow> HeaderField \<Rightarrow> headerCollection \<Rightarrow> headerCollection gop" where
  "collectGenerationField limits field k =
     (let name = FieldView_NameLower field; valueBytes = int (FieldView_UnfoldedValueLen field) in
      case checkedNameScanWork (int (length name)) 4 0 of (nameWork, ok) \<Rightarrow>
      if \<not> ok then headerWorkError nameWork
      else case checkedSum [nameWork, valueBytes, 6] of (collectionWork, ok) \<Rightarrow>
      if \<not> ok then headerWorkError collectionWork
      else op_then (gchargeWork collectionWork DimensionHeader)
       (op_bind (retainName name limits k) (\<lambda>k.
         op_return (k\<lparr>hk_groups := (hk_groups k)(name \<mapsto> group_of (hk_groups k) name @ [FieldView_UnfoldedValueCopy field])\<rparr>))))"

definition collectGenerationGroups :: "RecipeLimits \<Rightarrow> HeaderBlock \<Rightarrow> bytes list \<times> int \<Rightarrow> headerCollection gop" where
  "collectGenerationGroups limits headers shared =
     op_each (collectGenerationField limits) (rev (hb_fields headers))
       \<lparr>hk_groups = Map.empty, hk_names = fst shared, hk_nameBytes = snd shared\<rparr>"

section \<open>Sorting of names\<close>

text \<open>\<open>bits.Len\<close>.\<close>

fun bits_Len :: "nat \<Rightarrow> int" where
  "bits_Len n = (if n = 0 then 0 else 1 + bits_Len (n div 2))"

declare bits_Len.simps [simp del]

text \<open>
  The bottom-up merge sort: the runs of a width are merged pairwise from the source array into the target
  array, which then change places. A pass is the list the target holds afterwards.
\<close>

fun mergeRuns :: "bytes list \<Rightarrow> bytes list \<Rightarrow> bytes list" where
  "mergeRuns [] right = right"
| "mergeRuns left [] = left"
| "mergeRuns (x # left) (y # right) =
     (if x \<le> y then x # mergeRuns left (y # right) else y # mergeRuns (x # left) right)"

function mergePass :: "nat \<Rightarrow> bytes list \<Rightarrow> bytes list" where
  "mergePass width xs =
     (if width = 0 \<or> xs = [] then xs
      else mergeRuns (take width xs) (take width (drop width xs)) @ mergePass width (drop (2 * width) xs))"
  by pat_completeness auto
termination
  by (relation "measure (\<lambda>(width, xs). length xs)") auto

declare mergePass.simps [simp del]

lemma mset_mergeRuns: "mset (mergeRuns xs ys) = mset xs + mset ys"
  by (induction xs ys rule: mergeRuns.induct) auto

lemma mset_mergePass: "mset (mergePass width xs) = mset xs"
proof (induction width xs rule: mergePass.induct)
  case (1 width xs)
  show ?case
  proof (cases "width = 0 \<or> xs = []")
    case False
    have "xs = take width xs @ take width (drop width xs) @ drop (2 * width) xs"
      by (metis append_take_drop_id drop_drop mult_2)
    then have "mset xs = mset (take width xs) + mset (take width (drop width xs)) + mset (drop (2 * width) xs)"
      by (metis mset_append add.assoc)
    with 1 False show ?thesis by (simp add: mergePass.simps [of width xs] mset_mergeRuns)
  qed (simp add: mergePass.simps)
qed

lemma length_mergePass [simp]: "length (mergePass width xs) = length xs"
  by (metis mset_mergePass size_mset)

function mergeLoop :: "nat \<Rightarrow> bytes list \<Rightarrow> bytes list" where
  "mergeLoop width names =
     (if 0 < width \<and> width < length names then mergeLoop (2 * width) (mergePass width names) else names)"
  by pat_completeness auto
termination
  by (relation "measure (\<lambda>(width, names). length names - width)") auto

declare mergeLoop.simps [simp del]

definition sortGeneratedHeaderNames :: "bytes list \<Rightarrow> int \<Rightarrow> bytes list gop" where
  "sortGeneratedHeaderNames names maxNameBytes =
     (if length names < 2 then op_return names
      else case checkedAdd maxNameBytes 3 of (byteAwareFactor, ok) \<Rightarrow>
      if \<not> ok then headerWorkError byteAwareFactor
      else
        let w1 = checkedMultiply (int (length names)) (bits_Len (length names - 1));
            w2 = (if snd w1 then checkedMultiply (fst w1) byteAwareFactor else w1);
            w3 = (if snd w2 then checkedAdd (fst w2) (int (length names)) else w2) in
        if \<not> snd w3 then headerWorkError (fst w3)
        else op_then (gchargeWork (fst w3) DimensionHeader) (op_return (mergeLoop 1 names)))"

definition sortedHeaderNames :: "bytes list \<Rightarrow> bytes list gop" where
  "sortedHeaderNames names =
     op_then (gchargeWork (int (length names) + 1) DimensionHeader)
      (sortGeneratedHeaderNames names (fold (\<lambda>name m. if int (length name) > m then int (length name) else m) names 0))"

section \<open>Plans\<close>

fun equalValuesLoop :: "bytes list \<Rightarrow> bytes list \<Rightarrow> bool gop" where
  "equalValuesLoop (l # left) (r # right) =
     op_then (gchargeWork (int (length l) + 1) DimensionHeader)
      (if l \<noteq> r then op_return False else equalValuesLoop left right)"
| "equalValuesLoop _ _ = op_return True"

definition equalHeaderValues :: "bytes list \<Rightarrow> bytes list \<Rightarrow> bool gop" where
  "equalHeaderValues left right =
     op_then (gchargeWork 1 DimensionHeader)
      (if length left \<noteq> length right then op_return False else equalValuesLoop left right)"

definition chargeHeaderPlanPass :: "headerPlan list \<Rightarrow> unit gop" where
  "chargeHeaderPlanPass plans =
     op_each (\<lambda>plan _.
       op_then (gchargeWork (int (length (hp_name plan)) + 1) DimensionHeader)
        (op_each (\<lambda>instruction _.
           case planPassWork 1 (st_data instruction) of
             Inl work \<Rightarrow> headerWorkError work
           | Inr work \<Rightarrow> gchargeWork work DimensionHeader) (hp_steps plan) ())) plans ()"

definition newOwnedHeaderPlan :: "bytes \<Rightarrow> step list \<Rightarrow> headerPlan gop" where
  "newOwnedHeaderPlan name steps =
     (let candidate = \<lparr>hp_name = name, hp_canonicalName = name, hp_steps = steps, hp_initialized = True\<rparr> in
      op_then (chargeHeaderPlanPass [candidate])
       (if \<not> headerPlan_valid candidate then op_fail generationInvariantError else op_return candidate))"

definition appendHeaderCopy :: "RecipeLimits \<Rightarrow> step list \<Rightarrow> int \<Rightarrow> step list gop" where
  "appendHeaderCopy limits steps occurrence =
     appendCopy limits steps occurrence DimensionHeader (rl_MaxStepsPerHeader limits) limitNameMaxStepsPerHeader"

definition appendHeaderLiteral :: "RecipeLimits \<Rightarrow> step list \<Rightarrow> bytes \<Rightarrow> bytes \<Rightarrow> step list gop" where
  "appendHeaderLiteral limits steps name v =
     (if int (length name) + 1 + int (length v) > rl_MaxHeaderLineBytes limits
         \<or> int (length name) + 1 + int (length v) + 2 > rl_MaxHeaderFieldBytes limits
      then op_fail headerUnrepresentableError
      else appendDataLiteral limits steps v DimensionHeader (rl_MaxStepsPerHeader limits) limitNameMaxStepsPerHeader)"

fun planHeaderLoop ::
    "RecipeLimits \<Rightarrow> LiteralDisclosurePolicy \<Rightarrow> bytes \<Rightarrow> bytes list \<Rightarrow> exactCandidateIndex \<Rightarrow> step list \<Rightarrow> int \<Rightarrow> step list gop" where
  "planHeaderLoop limits policy name [] index steps lastCopyEnd = op_return steps"
| "planHeaderLoop limits policy name (v # target) index steps lastCopyEnd =
     op_bind (index_lookup v DimensionHeader index) (\<lambda>candidate.
     op_bind (selectOccurrence DimensionHeader lastCopyEnd candidate index) (\<lambda>(selected, index').
     if selected \<noteq> 0
     then op_bind (appendHeaderCopy limits steps selected)
            (\<lambda>steps'. planHeaderLoop limits policy name target index' steps' selected)
     else if policy = CopyOnly then op_fail headerUnrepresentableError
     else op_bind (appendHeaderLiteral limits steps name v)
            (\<lambda>steps'. planHeaderLoop limits policy name target index' steps' lastCopyEnd)))"

definition planHeaderGroup ::
    "RecipeLimits \<Rightarrow> bytes \<Rightarrow> bytes list \<Rightarrow> bytes list \<Rightarrow> LiteralDisclosurePolicy \<Rightarrow> headerPlan gop" where
  "planHeaderGroup limits name target source policy =
     (if length target = 0 then newOwnedHeaderPlan name []
      else op_bind (addCandidates DimensionHeader source) (\<lambda>index.
           op_bind (planHeaderLoop limits policy name target index [] 0) (\<lambda>steps. newOwnedHeaderPlan name steps)))"

definition classifyHeaderOnce :: "Generator \<Rightarrow> bytes \<Rightarrow> (RecipeError, bool) result" where
  "classifyHeaderOnce g nameLower =
     (if \<not> Generator_Valid g \<or> CanonicalHeaderName nameLower \<noteq> Some nameLower then Inl headerRelevanceInvariantError
      else case gn_relevance g of
        None \<Rightarrow> Inl headerRelevanceInvariantError
      | Some r \<Rightarrow>
          (case hrel_IsRelevantHeader r nameLower of
             None \<Rightarrow> Inl headerRelevanceInvariantError
           | Some relevant \<Rightarrow> Inr relevant))"

definition planNamedHeaderGroup ::
    "Generator \<Rightarrow> (bytes \<rightharpoonup> bytes list) \<Rightarrow> (bytes \<rightharpoonup> bytes list) \<Rightarrow> LiteralDisclosurePolicy \<Rightarrow> RecipeLimits \<Rightarrow> bytes
       \<Rightarrow> headerPlan list \<times> headerClassification list \<Rightarrow> (headerPlan list \<times> headerClassification list) gop" where
  "planNamedHeaderGroup g previousGroups currentGroups policy limits name acc =
     (case acc of (plans, classifications) \<Rightarrow>
      case checkedNameScanWork (int (length name)) 6 2 of (planningNameWork, ok) \<Rightarrow>
      if \<not> ok then headerWorkError planningNameWork
      else op_then (gchargeWork planningNameWork DimensionHeader)
       (op_bind (op_lift (classifyHeaderOnce g name)) (\<lambda>relevant.
        let classifications' = classifications @ [\<lparr>hc_name = name, hc_relevant = relevant\<rparr>] in
        op_bind (equalHeaderValues (group_of previousGroups name) (group_of currentGroups name)) (\<lambda>equal.
          if \<not> relevant \<or> equal then op_return (plans, classifications')
          else op_bind (planHeaderGroup limits name (group_of previousGroups name) (group_of currentGroups name) policy) (\<lambda>plan.
            op_then (gchargeWork 1 DimensionHeader) (op_return (plans @ [plan], classifications')))))))"

definition planNamedHeaderGroups ::
    "Generator \<Rightarrow> bytes list \<Rightarrow> (bytes \<rightharpoonup> bytes list) \<Rightarrow> (bytes \<rightharpoonup> bytes list) \<Rightarrow> LiteralDisclosurePolicy \<Rightarrow> RecipeLimits
       \<Rightarrow> (headerPlan list \<times> headerClassification list) gop" where
  "planNamedHeaderGroups g names previousGroups currentGroups policy limits =
     op_each (planNamedHeaderGroup g previousGroups currentGroups policy limits) names ([], [])"

definition recheckHeaderClassifications :: "Generator \<Rightarrow> headerClassification list \<Rightarrow> unit gop" where
  "recheckHeaderClassifications g classifications =
     op_each (\<lambda>classification _.
       case checkedNameScanWork (int (length (hc_name classification))) 2 1 of (finalNameWork, ok) \<Rightarrow>
       if \<not> ok then headerWorkError finalNameWork
       else op_then (gchargeWork finalNameWork DimensionHeader)
        (case classifyHeaderOnce g (hc_name classification) of
           Inl _ \<Rightarrow> op_fail headerRelevanceInvariantError
         | Inr relevant \<Rightarrow> if relevant \<noteq> hc_relevant classification then op_fail headerRelevanceInvariantError
             else op_return ())) classifications ()"

definition planHeaders :: "Generator \<Rightarrow> GenerationRequest \<Rightarrow> RecipeLimits \<Rightarrow> headerPlanningResult gop" where
  "planHeaders g request budgetLimits =
     op_guard (validateRequest g request)
     (op_bind counter_get (\<lambda>counter.
      if budgetLimits \<noteq> gl_RecipeLimits (gn_limits g) \<or> gc_limits counter \<noteq> gn_limits g then op_fail generationInvariantError
      else
      let previous = Previous request; current = Current request; limits = gl_RecipeLimits (gn_limits g) in
      case checkedAdd (int (HeaderBlock_OriginalByteLen (ss_headers previous))) (int (HeaderBlock_OriginalByteLen (ss_headers current))) of
        (inputBytes, ok) \<Rightarrow>
      if \<not> ok then op_fail (generationLimitError limitNameMaxInputBytes (gl_MaxInputBytes (gn_limits g)) inputBytes DimensionHeader) else
      case checkedAdd (int (HeaderBlock_Len (ss_headers previous))) (int (HeaderBlock_Len (ss_headers current))) of (inputItems, ok) \<Rightarrow>
      if \<not> ok then op_fail (generationLimitError limitNameMaxInputItems (gl_MaxInputItems (gn_limits g)) inputItems DimensionHeader) else
      op_then (chargeInput inputBytes inputItems DimensionHeader)
      (op_then (validateHeaderGenerationState previous limits)
      (op_then (validateHeaderGenerationState current limits)
      (op_bind (collectGenerationGroups limits (ss_headers previous) ([], 0)) (\<lambda>previousGroups.
       op_bind (collectGenerationGroups limits (ss_headers current) (hk_names previousGroups, hk_nameBytes previousGroups)) (\<lambda>currentGroups.
       op_bind (sortedHeaderNames (hk_names currentGroups)) (\<lambda>names.
       case checkedSum [int (length names), int (length names), 2] of (planningStorage, ok) \<Rightarrow>
       if \<not> ok then headerWorkError planningStorage
       else op_then (gchargeWork planningStorage DimensionHeader)
        (op_bind (planNamedHeaderGroups g names (hk_groups previousGroups) (hk_groups currentGroups) (LiteralPolicy request) budgetLimits)
          (\<lambda>(plans, classifications).
           op_then (recheckHeaderClassifications g classifications)
           (op_then (chargeHeaderPlanPass plans)
            (op_lift (newClassifiedHeaderPlanningResult plans classifications)))))))))))))"

end
