(* ===== verification/Recipe_Body_Plan_Exact.thy ===== *)
theory Recipe_Body_Plan_Exact
  imports Recipe_Body_Planning Recipe_Apply
begin

text \<open>
  A generated body plan, applied to the current state, emits the lines of the previous body; planning
  fails only at a limit or where the body has no recipe and the policy forbids to drop it.
\<close>

section \<open>Lines\<close>

lemma encoded_lines: "body_inv b \<Longrightarrow> map (BodyLineView_EncodedCopy b) (bd_lines b) = crlf_lines (bd_bytes b)"
proof -
  assume b: "body_inv b"
  have "bl_valid l" if "l \<in> set (bd_lines b)" for l
    using that line_spans_nth_index [of _ "crlf_lines (bd_bytes b)" 0 0]
    unfolding body_inv_lines [OF b] by (auto simp: in_set_conv_nth)
  then have "map (BodyLineView_EncodedCopy b) (bd_lines b) = map (lineEncoded b) (bd_lines b)"
    by (simp add: BodyLineView_EncodedCopy_def)
  with lineEncoded_lines [OF b] show ?thesis by simp
qed

lemma collectBodyGenerationLines_returns:
  "body_inv b \<Longrightarrow> returns limit_error (collectBodyGenerationLines b) (\<lambda>lines. lines = crlf_lines (bd_bytes b))"
proof -
  assume b: "body_inv b"
  let ?f = "\<lambda>line lines. case checkedAdd (int (BodyLineView_EncodedLen line)) 1 of (lineWork, ok) \<Rightarrow>
     if \<not> ok then op_bind counter_get (\<lambda>c. op_fail (workLimitError c lineWork DimensionBody))
     else op_then (gchargeWork lineWork DimensionBody) (op_return (lines @ [BodyLineView_EncodedCopy b line]))"
  have "returns limit_error (op_each ?f (bd_lines b) []) (\<lambda>acc. acc = map (BodyLineView_EncodedCopy b) (bd_lines b))"
    by (rule returns_each [where I = "\<lambda>xs acc. acc = map (BodyLineView_EncodedCopy b) xs"])
       (auto split: prod.split intro!: returns_if returns_then returns_return returns_fail
          returns_bind [OF counter_get_returns] charges_fail_at_limits simp del: op_eval)
  then show ?thesis
    unfolding collectBodyGenerationLines_def encoded_lines [OF b, symmetric]
    by (auto split: prod.split intro!: returns_if returns_then returns_fail
        returns_bind [OF counter_get_returns] charges_fail_at_limits simp del: op_eval)
qed

lemma validateBodyGenerationState_returns:
  "knownGenerationState s \<Longrightarrow> returns limit_error (validateBodyGenerationState s l) (\<lambda>_. True)"
  unfolding validateBodyGenerationState_def
  by (auto split: prod.split intro!: returns_if returns_then returns_fail returns_return
      returns_each [where I = "\<lambda>_ _. True"] returns_bind [OF counter_get_returns] charges_fail_at_limits simp del: op_eval)

lemma chargeBodyPlanPass_returns: "returns limit_error (chargeBodyPlanPass steps) (\<lambda>_. True)"
  unfolding chargeBodyPlanPass_def
  by (auto split: sum.split intro!: returns_fail returns_each [where I = "\<lambda>_ _. True"]
      returns_bind [OF counter_get_returns] charges_fail_at_limits simp del: op_eval)

section \<open>Outcomes\<close>

definition body_plan :: "State \<Rightarrow> State \<Rightarrow> BodyUnavailablePolicy \<Rightarrow> LiteralDisclosurePolicy \<Rightarrow> bodyPlanningResult \<Rightarrow> bool" where
  "body_plan previous current bodyPolicy literalPolicy r \<longleftrightarrow> bodyPlanningResult_Valid r \<and> (case bp_outcome r of
       BodyGenerationUnchanged \<Rightarrow> ss_framing previous = ss_framing current \<and> bd_bytes (ss_body previous) = bd_bytes (ss_body current)
     | BodyGenerationGenerated \<Rightarrow> ss_framing previous = MessageFramingDelimited
         \<and> steps_ok (bp_steps r) \<and> copies_within (length (source_lines current)) (bp_steps r)
         \<and> emit_steps body_line (source_lines current) (bp_steps r) = source_lines previous
     | BodyGenerationUnavailable \<Rightarrow> bodyPolicy = AllowUnavailableBody \<and> (case bp_unavailable r of
           BodyUnavailableReasonUnrepresentable \<Rightarrow> ss_framing previous = MessageFramingHeaderOnly
             \<or> (\<exists>e \<in> set (source_lines previous). \<not> representable e)
         | BodyUnavailableReasonLiteralRequired \<Rightarrow> literalPolicy = CopyOnly
         | BodyUnavailableReasonUnset \<Rightarrow> False)
     | BodyGenerationUnset \<Rightarrow> False)"

definition plan_error :: "BodyUnavailablePolicy \<Rightarrow> RecipeError \<Rightarrow> bool" where
  "plan_error bodyPolicy e \<longleftrightarrow> limit_error e \<or> re_code e = RecipeBodyUnrepresentable \<and> bodyPolicy = RejectUnavailableBody"

lemma returns_more: "returns E m P \<Longrightarrow> (\<And>e. E e \<Longrightarrow> F e) \<Longrightarrow> (\<And>v. P v \<Longrightarrow> Q v) \<Longrightarrow> returns F m Q"
  unfolding returns_def by (auto split: sum.splits)

lemma resolveUnavailableBody_returns:
  assumes "BodyUnavailablePolicy_Known p" "BodyUnavailableReason_Known reason"
  shows "returns (plan_error p) (resolveUnavailableBody p reason)
    (\<lambda>r. p = AllowUnavailableBody \<and> bodyPlanningResult_Valid r \<and> bp_outcome r = BodyGenerationUnavailable \<and> bp_unavailable r = reason)"
  using assms unfolding resolveUnavailableBody_def newUnavailableBodyPlanningResult_def Let_def
  by (auto intro!: returns_if returns_return returns_fail simp: bodyPlanningResult_Valid_def BodyGenerationOutcome_Known_def
      plan_error_def BodyUnavailablePolicy_Known_def newRecipeError_def simp del: op_eval)

lemma newGeneratedBodyPlanningResult_returns:
  assumes "steps_ok steps"
  shows "returns limit_error (newGeneratedBodyPlanningResult steps)
    (\<lambda>r. bodyPlanningResult_Valid r \<and> bp_outcome r = BodyGenerationGenerated \<and> bp_steps r = steps)"
  using assms unfolding newGeneratedBodyPlanningResult_def Let_def
  by (auto intro!: returns_if returns_then returns_return returns_fail chargeBodyPlanPass_returns
      simp: bodyPlanningResult_Valid_def BodyGenerationOutcome_Known_def BodyUnavailableReason_Known_def orderedSteps_iff simp del: op_eval)

section \<open>Planning\<close>

lemma NewGenerationRequest_Inr_iff:
  "NewGenerationRequest previous current bodyPolicy literalPolicy = Inr request \<longleftrightarrow>
     GenerationRequest_Valid request \<and> gr_previous request = previous \<and> gr_current request = current
     \<and> gr_bodyUnavailablePolicy request = bodyPolicy \<and> gr_literalPolicy request = literalPolicy"
  by (cases request) (auto simp: NewGenerationRequest_def GenerationRequest_Valid_def)

lemma known_generation_state:
  assumes "state_ok s" "knownGenerationState s"
  shows "body_inv (ss_body s) \<and> MessageFraming_Known (ss_framing s)"
  using assms(1)
proof (cases rule: state_ok_cases)
  case (unavailable h)
  then have False using assms(2) by (auto simp: knownGenerationState_def BodyState_def unavailable_state_def split: if_splits)
  then show ?thesis ..
qed simp

definition finish_plan :: "BodyUnavailablePolicy \<Rightarrow> step list \<times> BodyUnavailableReason \<Rightarrow> bodyPlanningResult gop" where
  "finish_plan bodyPolicy = (\<lambda>(steps, reason).
     if BodyUnavailableReason_Known reason then resolveUnavailableBody bodyPolicy reason else newGeneratedBodyPlanningResult steps)"

lemma finish_plan_returns:
  assumes "planned lp (source_lines current) (source_lines previous) [] sr" "BodyUnavailablePolicy_Known bp"
    and "ss_framing previous = MessageFramingDelimited"
  shows "returns (plan_error bp) (finish_plan bp sr) (body_plan previous current bp lp)"
proof -
  obtain ss reason where sr: "sr = (ss, reason)" by fastforce
  show ?thesis
  proof (cases reason)
    case BodyUnavailableReasonUnset
    then have s: "steps_ok ss" "copies_within (length (source_lines current)) ss"
        "emit_steps body_line (source_lines current) ss = source_lines previous"
      using assms(1) by (simp_all add: planned_def sr)
    show ?thesis
      unfolding finish_plan_def sr prod.case BodyUnavailableReasonUnset
      using s assms(3) by (auto simp: BodyUnavailableReason_Known_def plan_error_def body_plan_def
        intro!: returns_more [OF newGeneratedBodyPlanningResult_returns])
  next
    case BodyUnavailableReasonUnrepresentable
    then show ?thesis
      unfolding finish_plan_def sr prod.case
      using assms by (auto simp: BodyUnavailableReason_Known_def body_plan_def planned_def sr
        intro!: returns_weaken [OF resolveUnavailableBody_returns])
  next
    case BodyUnavailableReasonLiteralRequired
    then show ?thesis
      unfolding finish_plan_def sr prod.case
      using assms by (auto simp: BodyUnavailableReason_Known_def body_plan_def planned_def sr
        intro!: returns_weaken [OF resolveUnavailableBody_returns])
  qed
qed

lemma limit_plan_error: "returns limit_error m P \<Longrightarrow> returns (plan_error bp) m P"
  by (erule returns_more) (simp_all add: plan_error_def)

lemmas plan_returns = returns_if returns_then returns_return returns_fail
  limit_plan_error [OF charges_fail_at_limits(1)] limit_plan_error [OF charges_fail_at_limits(2)]
  limit_plan_error [OF validateBodyGenerationState_returns]

lemma plan_error_limits [simp]:
  "plan_error bp (generationLimitError name limit actual d)" "plan_error bp (workLimitError c w d)"
  by (simp_all add: plan_error_def)

lemma returns_case_prod: "(\<And>a b. p = (a, b) \<Longrightarrow> returns E (f a b) Q) \<Longrightarrow> returns E (case p of (a, b) \<Rightarrow> f a b) Q"
  by (cases p) simp

lemma returns_counter:
  "returns E (k c) Q \<Longrightarrow> case op_bind counter_get k c of (Inl e, c') \<Rightarrow> E e | (Inr v, c') \<Rightarrow> Q v"
  unfolding returns_def by (auto simp: op_bind_def counter_get_def split: prod.splits sum.splits dest!: spec [of _ c])

lemma planBody_cases:
  assumes "Generator_Valid g" "NewGenerationRequest previous current bp lp = Inr request" "state_ok previous" "state_ok current"
    and "gc_limits c = gn_limits g" "l = gl_RecipeLimits (gn_limits g)"
  shows "case planBody g request l c of (Inl e, c') \<Rightarrow> plan_error bp e | (Inr r, c') \<Rightarrow> body_plan previous current bp lp r"
proof -
  note [simp del] = op_eval
  have valid: "GenerationRequest_Valid request" and req: "Previous request = previous" "Current request = current"
      "GenerationRequest_BodyUnavailablePolicy request = bp" "LiteralPolicy request = lp"
    using assms(2) by (simp_all add: NewGenerationRequest_Inr_iff Previous_def Current_def
        GenerationRequest_BodyUnavailablePolicy_def LiteralPolicy_def)
  have known: "knownGenerationState previous" "knownGenerationState current" "BodyUnavailablePolicy_Known bp"
    using valid assms(2) by (auto simp: NewGenerationRequest_Inr_iff GenerationRequest_Valid_def)
  note body = known_generation_state [OF assms(3) known(1), THEN conjunct1] known_generation_state [OF assms(3) known(1), THEN conjunct2]
    known_generation_state [OF assms(4) known(2), THEN conjunct1]
  have lines: "crlf_lines (bd_bytes (ss_body previous)) = source_lines previous" "crlf_lines (bd_bytes (ss_body current)) = source_lines current"
    by (simp_all add: source_lines_def)
  have unchanged: "body_plan previous current bp lp newUnchangedBodyPlanningResult"
    if "ss_framing previous = ss_framing current" "Body_Equal (ss_body previous) (ss_body current)"
    using that by (simp add: body_plan_def newUnchangedBodyPlanningResult_def bodyPlanningResult_Valid_def BodyGenerationOutcome_Known_def
        BodyUnavailableReason_Known_def Body_Equal_def)
  have header_only: "returns (plan_error bp) (resolveUnavailableBody bp BodyUnavailableReasonUnrepresentable) (body_plan previous current bp lp)"
    if "ss_framing previous = MessageFramingHeaderOnly"
    using that known(3) by (auto simp: BodyUnavailableReason_Known_def body_plan_def intro!: returns_weaken [OF resolveUnavailableBody_returns])
  have framing: "ss_framing previous = MessageFramingDelimited" if "ss_framing previous \<noteq> MessageFramingHeaderOnly"
    using that body(2) by (auto simp: MessageFraming_Known_def)
  have empty: "returns (plan_error bp) (newGeneratedBodyPlanningResult []) (body_plan previous current bp lp)"
    if "Body_LineCount (ss_body previous) = 0" "ss_framing previous \<noteq> MessageFramingHeaderOnly"
  proof -
    have "source_lines previous = []" using that(1) body_inv_lines [OF body(1)] by (simp add: Body_LineCount_def source_lines_def)
    then show ?thesis using framing [OF that(2)]
      by (auto simp: body_plan_def copies_within_def plan_error_def intro!: returns_more [OF newGeneratedBodyPlanningResult_returns])
  qed
  have lines_plan: "returns (plan_error bp)
      (op_bind (collectBodyGenerationLines (ss_body previous)) (\<lambda>target.
       op_bind (collectBodyGenerationLines (ss_body current)) (\<lambda>source.
       op_bind (planBodyLines l target source lp) (\<lambda>(steps, reason).
         if BodyUnavailableReason_Known reason then resolveUnavailableBody bp reason else newGeneratedBodyPlanningResult steps))))
      (body_plan previous current bp lp)"
    if "ss_framing previous \<noteq> MessageFramingHeaderOnly"
  proof -
    have "returns (plan_error bp) (op_bind (planBodyLines l (source_lines previous) (source_lines current) lp) (finish_plan bp))
        (body_plan previous current bp lp)"
      using finish_plan_returns [OF _ known(3) framing [OF that]]
      by (intro returns_bind [OF limit_plan_error [OF planBodyLines_returns]])
    then show ?thesis
      unfolding finish_plan_def [symmetric]
      by (auto simp: lines intro!: returns_bind [OF limit_plan_error [OF collectBodyGenerationLines_returns]] body)
  qed
  have v: "validateRequest g request = None" using assms(1) valid by (simp add: validateRequest_def)
  show ?thesis
    unfolding planBody_def v req op_guard_def option.case
  proof (rule returns_counter, rule returns_if, goal_cases)
    case 1
    then show ?case using assms(5,6) by simp
  next
    case 2
    show ?case
      unfolding Let_def
      by (intro returns_case_prod plan_returns plan_error_limits header_only empty lines_plan unchanged known(1,2); simp)
  qed
qed

end
