(* ===== verification/Recipe_Header_Plan_Exact.thy ===== *)
theory Recipe_Header_Plan_Exact
  imports Recipe_Header_Planning Recipe_Body_Plan_Exact
begin

text \<open>
  What the header planner computes: the groups are the unfolded values of each name bottom-up, the merge sort
  sorts the names, and the plans are those of the relevant names whose values differ. Only limits, values
  that have no literal, and the relevance callback can stop it.
\<close>

section \<open>Merge sort\<close>

definition sorted_runs :: "nat \<Rightarrow> bytes list \<Rightarrow> bool" where
  "sorted_runs w xs \<longleftrightarrow> (\<forall>k. sorted (take w (drop (k * w) xs)))"

lemma sorted_runs_drop: "sorted_runs w xs \<Longrightarrow> sorted_runs w (drop (2 * w) xs)"
  unfolding sorted_runs_def by (metis (no_types) add.commute add_mult_distrib drop_drop)

lemma set_mergeRuns [simp]: "set (mergeRuns xs ys) = set xs \<union> set ys"
  by (induction xs ys rule: mergeRuns.induct) auto

lemma length_mergeRuns [simp]: "length (mergeRuns xs ys) = length xs + length ys"
  by (induction xs ys rule: mergeRuns.induct) auto

lemma sorted_mergeRuns: "sorted xs \<Longrightarrow> sorted ys \<Longrightarrow> sorted (mergeRuns xs ys)"
  by (induction xs ys rule: mergeRuns.induct) auto

lemma sorted_runs_mergePass: "0 < w \<Longrightarrow> sorted_runs w xs \<Longrightarrow> sorted_runs (2 * w) (mergePass w xs)"
proof (induction w xs rule: mergePass.induct)
  case (1 w xs)
  show ?case
  proof (cases "xs = []")
    case False
    let ?m = "mergeRuns (take w xs) (take w (drop w xs))" and ?r = "mergePass w (drop (2 * w) xs)"
    have pass: "mergePass w xs = ?m @ ?r" using 1(2) False by (simp add: mergePass.simps [of w xs])
    have IH: "sorted_runs (2 * w) ?r" using 1 False sorted_runs_drop by simp
    have r: "sorted (take w xs)" "sorted (take w (drop w xs))"
      using 1(3) unfolding sorted_runs_def by (metis drop0 mult_0, metis mult_1)
    have len: "length ?m = min (2 * w) (length xs)" by simp
    have short: "length xs < 2 * w \<Longrightarrow> ?r = []" by (simp add: mergePass.simps [of w])
    have zero: "take (2 * w) (mergePass w xs) = ?m" using len short unfolding pass by (cases "length xs < 2 * w") simp_all
    have suc: "drop (2 * w) (mergePass w xs) = ?r" using len short unfolding pass by (cases "length xs < 2 * w") simp_all
    have "sorted (take (2 * w) (drop (k * (2 * w)) (mergePass w xs)))" for k
    proof (cases k)
      case 0
      then show ?thesis using zero sorted_mergeRuns [OF r] by simp
    next
      case (Suc j)
      then have "drop (k * (2 * w)) (mergePass w xs) = drop (j * (2 * w)) ?r"
        unfolding suc [symmetric] by (simp add: add.commute)
      then show ?thesis using IH by (simp add: sorted_runs_def)
    qed
    then show ?thesis by (simp add: sorted_runs_def)
  qed (simp add: sorted_runs_def mergePass.simps)
qed

lemma mergeLoop_sorts:
  "0 < w \<Longrightarrow> sorted_runs w xs \<Longrightarrow> sorted (mergeLoop w xs) \<and> mset (mergeLoop w xs) = mset xs"
proof (induction w xs rule: mergeLoop.induct)
  case (1 w xs)
  show ?case
  proof (cases "w < length xs")
    case True
    then show ?thesis
      using 1 sorted_runs_mergePass [of w xs] by (simp add: mergeLoop.simps [of w xs] mset_mergePass)
  next
    case False
    then have "sorted xs" using 1(3) unfolding sorted_runs_def by (metis drop0 leI mult_0 take_all)
    with False show ?thesis by (simp add: mergeLoop.simps [of w xs])
  qed
qed

lemma sorted_runs_one: "sorted_runs 1 xs"
proof -
  have "sorted (take 1 ys)" for ys :: "bytes list" by (cases ys) simp_all
  then show ?thesis by (simp add: sorted_runs_def)
qed

lemma mergeLoop_one: "mergeLoop 1 xs = sort xs"
proof -
  have "sorted (mergeLoop 1 xs)" "mset (mergeLoop 1 xs) = mset xs" using mergeLoop_sorts [OF _ sorted_runs_one] by simp_all
  then show ?thesis by (metis mset_sort properties_for_sort)
qed

lemma headerWorkError_returns: "returns limit_error (headerWorkError a) Q"
  unfolding headerWorkError_def
  by (auto intro!: returns_bind [OF counter_get_returns] returns_fail simp del: op_eval)

lemmas header_charges = headerWorkError_returns charges_fail_at_limits

lemma sortedHeaderNames_returns: "returns limit_error (sortedHeaderNames names) (\<lambda>ns. ns = sort names)"
proof -
  have "length names < 2 \<Longrightarrow> sort names = names" by (cases names rule: remdups_adj.cases) simp_all
  then show ?thesis
    unfolding sortedHeaderNames_def sortGeneratedHeaderNames_def Let_def mergeLoop_one
    by (auto split: prod.split intro!: returns_then returns_if returns_return header_charges simp del: op_eval)
qed

section \<open>Groups\<close>

definition header_values :: "HeaderField list \<Rightarrow> bytes \<Rightarrow> bytes list" where
  "header_values fs n = rev (map hf_unfoldedValue (filter (\<lambda>f. hf_nameLower f = n) fs))"

lemma validateHeaderGenerationState_returns:
  "knownGenerationState s \<Longrightarrow> returns limit_error (validateHeaderGenerationState s l) (\<lambda>_. True)"
  unfolding validateHeaderGenerationState_def Let_def
  by (auto intro!: returns_if returns_then returns_fail returns_return returns_each [where I = "\<lambda>_ _. True"]
      header_charges simp del: op_eval)

definition collected :: "HeaderField \<Rightarrow> headerCollection \<Rightarrow> headerCollection \<Rightarrow> bool" where
  "collected f k k' \<longleftrightarrow> hk_groups k' = (hk_groups k)(hf_nameLower f \<mapsto> group_of (hk_groups k) (hf_nameLower f) @ [hf_unfoldedValue f])
     \<and> hk_names k' = (if hf_nameLower f \<in> set (hk_names k) then hk_names k else hk_names k @ [hf_nameLower f])"

lemma retainName_returns:
  "returns limit_error (retainName n l k) (\<lambda>k'. hk_groups k' = hk_groups k
     \<and> hk_names k' = (if n \<in> set (hk_names k) then hk_names k else hk_names k @ [n]))"
  unfolding retainName_def Let_def
  by (auto split: prod.split intro!: returns_if returns_fail returns_return simp del: op_eval)

lemma collectGenerationField_returns:
  "hf_valid f \<Longrightarrow> returns limit_error (collectGenerationField l f k) (collected f k)"
  unfolding collectGenerationField_def Let_def
  by (auto simp: FieldView_NameLower_def FieldView_UnfoldedValueCopy_def collected_def split: prod.split
      intro!: returns_if returns_then returns_return returns_bind [OF retainName_returns] header_charges simp del: op_eval)

definition collects :: "HeaderField list \<Rightarrow> bytes list \<Rightarrow> headerCollection \<Rightarrow> bool" where
  "collects fs names k \<longleftrightarrow> group_of (hk_groups k) = header_values fs
     \<and> (distinct names \<longrightarrow> distinct (hk_names k)) \<and> set (hk_names k) = set names \<union> hf_nameLower ` set fs"

lemma collects_step: "collects fs names k \<Longrightarrow> collected f k k' \<Longrightarrow> collects (f # fs) names k'"
  by (auto simp: collects_def collected_def header_values_def group_of_def fun_eq_iff)

lemma collectGenerationGroups_returns:
  assumes "\<forall>f \<in> set (hb_fields h). hf_valid f"
  shows "returns limit_error (collectGenerationGroups l h (names, m)) (collects (hb_fields h) names)"
proof -
  let ?k = "\<lparr>hk_groups = Map.empty, hk_names = names, hk_nameBytes = m\<rparr>"
  have "returns limit_error (op_each (collectGenerationField l) (rev (hb_fields h)) ?k)
      (collects (rev (rev (hb_fields h))) names)"
  proof (rule returns_each [where I = "\<lambda>xs. collects (rev xs) names"])
    show "collects (rev []) names ?k" by (simp add: collects_def group_of_def header_values_def fun_eq_iff)
  next
    fix xs x ys acc assume "rev (hb_fields h) = xs @ x # ys" "collects (rev xs) names acc"
    moreover from this(1) have "x \<in> set (rev (hb_fields h))" by simp
    then have "hf_valid x" using assms by simp
    ultimately show "returns limit_error (collectGenerationField l x acc) (collects (rev (xs @ [x])) names)"
      using collects_step by (auto intro!: returns_weaken [OF collectGenerationField_returns])
  qed
  then show ?thesis by (simp add: collectGenerationGroups_def)
qed

section \<open>Plans of a name\<close>

definition too_long :: "RecipeLimits \<Rightarrow> bytes \<Rightarrow> bytes \<Rightarrow> bool" where
  "too_long l n v \<longleftrightarrow> int (length n) + 1 + int (length v) > rl_MaxHeaderLineBytes l
     \<or> int (length n) + 1 + int (length v) + 2 > rl_MaxHeaderFieldBytes l"

definition unplannable :: "RecipeLimits \<Rightarrow> LiteralDisclosurePolicy \<Rightarrow> bytes \<Rightarrow> bytes list \<Rightarrow> RecipeError \<Rightarrow> bool" where
  "unplannable l policy n target e \<longleftrightarrow> limit_error e
     \<or> re_code e = RecipeHeaderUnrepresentable \<and> (policy = CopyOnly \<or> (\<exists>v \<in> set target. too_long l n v))"

lemma limit_unplannable: "returns limit_error m Q \<Longrightarrow> returns (unplannable l policy n target) m Q"
  by (erule returns_more) (simp_all add: unplannable_def)

lemma headerUnrepresentableError_unplannable:
  "policy = CopyOnly \<or> too_long l n v \<Longrightarrow> unplannable l policy n (v # target) headerUnrepresentableError"
  by (auto simp: unplannable_def headerUnrepresentableError_def newRecipeError_def)

definition restores :: "bytes list \<Rightarrow> bytes list \<Rightarrow> step list \<Rightarrow> bool" where
  "restores src target ss \<longleftrightarrow> steps_ok ss \<and> copies_within (length src) ss \<and> emit_steps id src ss = target"

lemma planHeaderLoop_returns:
  assumes "indexes src (copies_end steps) index" "restores src done steps" "\<forall>v \<in> set target. clean v"
  shows "returns (unplannable l policy n target) (planHeaderLoop l policy n target index steps (copies_end steps))
    (restores src (done @ target))"
  using assms
proof (induction target arbitrary: index steps "done")
  case Nil
  then show ?case by (auto intro!: returns_return simp del: op_eval)
next
  case (Cons v target)
  let ?p = "earliest src (copies_end steps) v"
  let ?E = "unplannable l policy n (v # target)"
  have ok: "steps_ok steps" "copies_within (length src) steps" using Cons.prems(2) by (simp_all add: restores_def)
  have step: "returns ?E (planHeaderLoop l policy n target index' (add_choice steps ch) (copies_end (add_choice steps ch)))
      (restores src (done @ v # target))"
    if fits: "choice_fits (length src) steps ch" and item: "choice_item id src ch = v"
      and index': "indexes src (choice_end (copies_end steps) ch) index'" for ch index'
  proof -
    note add = add_choice_emits [OF ok fits, of id]
    have "restores src (done @ [v]) (add_choice steps ch)" using add item Cons.prems(2) by (simp add: restores_def)
    then show ?thesis
      using Cons.IH [of "add_choice steps ch" index' "done @ [v]"] add index' Cons.prems(3)
      by (auto elim!: returns_more simp: unplannable_def)
  qed
  have copy: "returns ?E (op_bind (appendHeaderCopy l steps ?p) (\<lambda>ss. planHeaderLoop l policy n target index' ss ?p))
      (restores src (done @ v # target))"
    if "?p \<noteq> 0" "indexes src (max (copies_end steps) ?p) index'" for index'
  proof -
    have p: "copies_end steps < ?p" "?p \<le> int (length src)" "src ! (nat ?p - 1) = v" "0 < ?p"
      using earliest_props [of src "copies_end steps" v] that(1) by auto
    show ?thesis
      using step [of "Inl ?p" index'] that(2) p add_choice_emits [OF ok, of "Inl ?p" id] unfolding appendHeaderCopy_def
      by (auto intro!: returns_bind [OF limit_unplannable [OF appendCopy_returns [OF ok(1)]]]
          simp: choice_fits_def choice_item_def choice_end_def max_def simp del: op_eval)
  qed
  have literal: "returns ?E (op_bind (appendHeaderLiteral l steps n v) (\<lambda>ss. planHeaderLoop l policy n target index' ss (copies_end steps)))
      (restores src (done @ v # target))"
    if "indexes src (copies_end steps) index'" for index'
  proof -
    have "returns ?E (appendHeaderLiteral l steps n v) (\<lambda>ss. ss = add_choice steps (Inr v))"
      unfolding appendHeaderLiteral_def using Cons.prems(3) headerUnrepresentableError_unplannable [of policy l n v]
      by (intro returns_if returns_fail limit_unplannable [OF appendDataLiteral_returns [OF ok(1)]]) (auto simp: too_long_def)
    then show ?thesis
      using step [of "Inr v" index'] that Cons.prems(3) add_choice_emits [OF ok, of "Inr v" id]
      by (auto elim!: returns_bind simp: choice_fits_def choice_item_def choice_end_def simp del: op_eval)
  qed
  show ?case
    unfolding planHeaderLoop.simps
  proof (rule returns_bind [OF limit_unplannable [OF index_lookup_returns]],
      rule returns_bind [OF limit_unplannable [OF selectOccurrence_returns [OF Cons.prems(1)]]], assumption, goal_cases)
    case (1 r si)
    obtain index' where si: "si = (?p, index')" "indexes src (max (copies_end steps) ?p) index'" using 1 by (cases si) auto
    have i0: "?p = 0 \<Longrightarrow> indexes src (copies_end steps) index'" using si(2) copies_end_nonneg [OF ok(1)] by simp
    show ?case
      unfolding si(1) prod.case
      using copy [OF _ si(2)] literal i0 headerUnrepresentableError_unplannable [of policy l n v]
      by (intro returns_if returns_fail) simp_all
  qed
qed

definition group_plan :: "bytes list \<Rightarrow> bytes list \<Rightarrow> bytes \<Rightarrow> headerPlan \<Rightarrow> bool" where
  "group_plan target src n p \<longleftrightarrow> plan_ok p \<and> hp_name p = n \<and> restores src target (hp_steps p)"

lemma chargeHeaderPlanPass_returns: "returns limit_error (chargeHeaderPlanPass plans) (\<lambda>_. True)"
  unfolding chargeHeaderPlanPass_def
  by (auto split: sum.split intro!: returns_then returns_each [where I = "\<lambda>_ _. True"] header_charges simp del: op_eval)

lemma newOwnedHeaderPlan_returns:
  assumes "validHeaderFieldName n" "lowerASCII n = n" "restores src target steps"
  shows "returns limit_error (newOwnedHeaderPlan n steps) (group_plan target src n)"
  using assms unfolding newOwnedHeaderPlan_def Let_def headerPlan_valid_iff
  by (auto intro!: returns_then returns_if returns_return returns_fail chargeHeaderPlanPass_returns
      simp: group_plan_def plan_ok_def restores_def simp del: op_eval)

lemma planHeaderGroup_returns:
  assumes "validHeaderFieldName n" "lowerASCII n = n" "\<forall>v \<in> set target. clean v"
  shows "returns (unplannable l policy n target) (planHeaderGroup l n target src policy) (group_plan target src n)"
proof (cases "target = []")
  case True
  then have "restores src target []" by (simp add: restores_def copies_within_def)
  with True show ?thesis
    using newOwnedHeaderPlan_returns [OF assms(1,2)] by (simp add: planHeaderGroup_def limit_unplannable)
next
  case False
  have start: "restores src [] []" by (simp add: restores_def copies_within_def)
  have "returns (unplannable l policy n target) (op_bind (planHeaderLoop l policy n target index [] 0) (newOwnedHeaderPlan n))
      (group_plan target src n)" if "indexes src 0 index" for index
    using planHeaderLoop_returns [OF _ start assms(3)] that newOwnedHeaderPlan_returns [OF assms(1,2)]
    by (intro returns_bind [where P = "restores src target"]) (simp_all add: limit_unplannable)
  then show ?thesis
    using False unfolding planHeaderGroup_def
    by (auto intro!: returns_bind [OF limit_unplannable [OF addCandidates_returns]] simp del: op_eval)
qed

section \<open>Plans of all names\<close>

definition relevant_header :: "Generator \<Rightarrow> bytes \<Rightarrow> bool option" where
  "relevant_header g n = Option.bind (gn_relevance g) (\<lambda>r. hrel_IsRelevantHeader r n)"

text \<open>The errors of header planning: limits, values without a literal, a failing relevance callback.\<close>

definition header_error ::
    "Generator \<Rightarrow> RecipeLimits \<Rightarrow> LiteralDisclosurePolicy \<Rightarrow> (bytes \<Rightarrow> bytes list) \<Rightarrow> RecipeError \<Rightarrow> bool" where
  "header_error g l policy target e \<longleftrightarrow> limit_error e
     \<or> re_code e = RecipeHeaderUnrepresentable \<and> (policy = CopyOnly \<or> (\<exists>n. \<exists>v \<in> set (target n). too_long l n v))
     \<or> re_code e = RecipeHeaderRelevance \<and> (\<exists>n. relevant_header g n = None)"

lemma limit_header_error: "returns limit_error m Q \<Longrightarrow> returns (header_error g l policy target) m Q"
  by (erule returns_more) (simp_all add: header_error_def)

lemma unplannable_header_error:
  "returns (unplannable l policy n (target n)) m Q \<Longrightarrow> returns (header_error g l policy target) m Q"
  by (erule returns_more) (auto simp: header_error_def unplannable_def)

definition canonical_name :: "bytes \<Rightarrow> bool" where
  "canonical_name n \<longleftrightarrow> validHeaderFieldName n \<and> lowerASCII n = n"

lemma classifyHeaderOnce_cases:
  assumes "Generator_Valid g" "canonical_name n"
  shows "classifyHeaderOnce g n = (case relevant_header g n of None \<Rightarrow> Inl headerRelevanceInvariantError | Some b \<Rightarrow> Inr b)"
  using assms by (auto simp: classifyHeaderOnce_def canonical_name_def CanonicalHeaderName_def canonicalHeaderLookupName_def
      relevant_header_def Generator_Valid_def stableHeaderRelevance_def split: option.splits)

lemma equalValuesLoop_returns:
  "length xs = length ys \<Longrightarrow> returns limit_error (equalValuesLoop xs ys) (\<lambda>b. b = (xs = ys))"
  by (induction xs ys rule: equalValuesLoop.induct)
     (auto intro!: returns_then returns_if returns_return header_charges simp del: op_eval)

lemma equalHeaderValues_returns: "returns limit_error (equalHeaderValues xs ys) (\<lambda>b. b = (xs = ys))"
  unfolding equalHeaderValues_def
  by (auto intro!: returns_then returns_if returns_return header_charges equalValuesLoop_returns simp del: op_eval)

definition to_restore :: "Generator \<Rightarrow> (bytes \<Rightarrow> bytes list) \<Rightarrow> (bytes \<Rightarrow> bytes list) \<Rightarrow> bytes \<Rightarrow> bool" where
  "to_restore g target src n \<longleftrightarrow> relevant_header g n = Some True \<and> target n \<noteq> src n"

definition plans_for ::
    "Generator \<Rightarrow> (bytes \<Rightarrow> bytes list) \<Rightarrow> (bytes \<Rightarrow> bytes list) \<Rightarrow> bytes list \<Rightarrow> headerPlan list \<times> headerClassification list \<Rightarrow> bool" where
  "plans_for g target src names r \<longleftrightarrow> (case r of (plans, classifications) \<Rightarrow>
     list_all2 (\<lambda>n p. group_plan (target n) (src n) n p) (filter (to_restore g target src) names) plans
     \<and> map (\<lambda>n. Some (hc_relevant n)) classifications = map (relevant_header g) names
     \<and> map hc_name classifications = names)"

lemma planNamedHeaderGroup_returns:
  assumes "Generator_Valid g" "canonical_name n" "\<forall>v \<in> set (group_of target n). clean v"
    and "plans_for g (group_of target) (group_of src) names r"
  shows "returns (header_error g l policy (group_of target)) (planNamedHeaderGroup g target src policy l n r)
    (plans_for g (group_of target) (group_of src) (names @ [n]))"
proof -
  obtain plans cls where r: "r = (plans, cls)" by fastforce
  let ?E = "header_error g l policy (group_of target)"
  let ?cls = "\<lambda>b. cls @ [\<lparr>hc_name = n, hc_relevant = b\<rparr>]"
  let ?Q = "plans_for g (group_of target) (group_of src) (names @ [n])"
  have skip: "?Q (plans, ?cls b)" if "relevant_header g n = Some b" "\<not> b \<or> group_of target n = group_of src n" for b
    using assms(4) that by (auto simp: r plans_for_def to_restore_def)
  have add: "?Q (plans @ [p], ?cls b)"
    if "relevant_header g n = Some b" "b" "group_of target n \<noteq> group_of src n" "group_plan (group_of target n) (group_of src n) n p" for p b
    using assms(4) that by (auto simp: r plans_for_def to_restore_def list_all2_appendI)
  have plan: "returns ?E (planHeaderGroup l n (group_of target n) (group_of src n) policy) (group_plan (group_of target n) (group_of src n) n)"
    using assms(2,3) by (intro unplannable_header_error [where n = n] planHeaderGroup_returns) (simp_all add: canonical_name_def)
  have fails: "relevant_header g n = None \<Longrightarrow> ?E headerRelevanceInvariantError"
    by (auto simp: header_error_def headerRelevanceInvariantError_def newRecipeError_def)
  have rest: "returns ?E (op_bind (equalHeaderValues (group_of target n) (group_of src n)) (\<lambda>equal.
      if \<not> b \<or> equal then op_return (plans, ?cls b)
      else op_bind (planHeaderGroup l n (group_of target n) (group_of src n) policy) (\<lambda>plan.
        op_then (gchargeWork 1 DimensionHeader) (op_return (plans @ [plan], ?cls b))))) ?Q"
    if "relevant_header g n = Some b" for b
    using skip [OF that] add [OF that]
    by (intro returns_bind [OF limit_header_error [OF equalHeaderValues_returns]] returns_if returns_return
        returns_bind [OF plan] returns_then limit_header_error [OF charges_fail_at_limits(1)]) simp_all
  show ?thesis
    unfolding planNamedHeaderGroup_def r prod.case Let_def classifyHeaderOnce_cases [OF assms(1,2)]
  proof (intro returns_case_prod returns_if returns_then limit_header_error [OF charges_fail_at_limits(1)]
      limit_header_error [OF headerWorkError_returns], goal_cases)
    case 1
    show ?case
      using rest by (intro returns_bind [OF returns_lift [where Q = "\<lambda>b. relevant_header g n = Some b"]])
        (auto split: option.splits intro: fails)
  qed
qed

lemma planNamedHeaderGroups_returns:
  assumes "Generator_Valid g" "\<forall>n \<in> set names. canonical_name n" "\<forall>n. \<forall>v \<in> set (group_of target n). clean v"
  shows "returns (header_error g l policy (group_of target)) (planNamedHeaderGroups g names target src policy l)
    (plans_for g (group_of target) (group_of src) names)"
  unfolding planNamedHeaderGroups_def
proof (rule returns_each)
  show "plans_for g (group_of target) (group_of src) [] ([], [])" by (simp add: plans_for_def)
next
  fix xs x ys acc assume "names = xs @ x # ys" "plans_for g (group_of target) (group_of src) xs acc"
  then show "returns (header_error g l policy (group_of target)) (planNamedHeaderGroup g target src policy l x acc)
      (plans_for g (group_of target) (group_of src) (xs @ [x]))"
    using assms by (intro planNamedHeaderGroup_returns) simp_all
qed

lemma recheckHeaderClassifications_returns:
  assumes "Generator_Valid g" "\<forall>n \<in> set names. canonical_name n" "plans_for g target src names (plans, cls)"
  shows "returns limit_error (recheckHeaderClassifications g cls) (\<lambda>_. True)"
proof -
  have "classifyHeaderOnce g (hc_name c) = Inr (hc_relevant c)" if c: "c \<in> set cls" for c
  proof -
    obtain i where i: "i < length cls" "c = cls ! i" using c by (auto simp: in_set_conv_nth)
    have eqs: "map (\<lambda>n. Some (hc_relevant n)) cls = map (relevant_header g) names" "map hc_name cls = names"
      using assms(3) by (simp_all add: plans_for_def)
    then have "hc_name c \<in> set names" using c by auto
    moreover have "relevant_header g (hc_name c) = Some (hc_relevant c)"
      using eqs i by (metis (no_types, lifting) length_map nth_map)
    ultimately show ?thesis using classifyHeaderOnce_cases [OF assms(1)] assms(2) by simp
  qed
  then show ?thesis
    unfolding recheckHeaderClassifications_def
    by (auto split: prod.split intro!: returns_each [where I = "\<lambda>_ _. True"] returns_if returns_then returns_return header_charges simp del: op_eval)
qed

section \<open>The header plan\<close>

definition header_plan :: "Generator \<Rightarrow> State \<Rightarrow> State \<Rightarrow> headerPlanningResult \<Rightarrow> bool" where
  "header_plan g previous current r \<longleftrightarrow> headerPlanningResult_Valid r \<and> hr_classified r
     \<and> (let target = header_values (hb_fields (ss_headers previous)); src = header_values (hb_fields (ss_headers current));
            names = sorted_list_of_set (hf_nameLower ` set (hb_fields (ss_headers previous) @ hb_fields (ss_headers current))) in
        plans_for g target src names (hr_plans r, hr_classifications r))"

lemma header_field_canonical: "header_field_inv f \<Longrightarrow> hf_valid f \<and> canonical_name (hf_nameLower f) \<and> clean (hf_unfoldedValue f)"
  by (auto simp: header_field_inv_def canonical_name_def unfoldHeaderValue_valid clean_def)

lemma plans_for_names:
  assumes "plans_for g target src names (plans, cls)"
  shows "map hp_name plans = filter (to_restore g target src) names" "list_all plan_ok plans"
  using assms by (auto simp: plans_for_def group_plan_def list_all2_conv_all_nth list_all_length intro: nth_equalityI)

lemma newClassifiedHeaderPlanningResult_plans:
  assumes "plans_for g target src names (plans, cls)" "sorted names" "distinct names"
  shows "newClassifiedHeaderPlanningResult plans cls
    = Inr \<lparr>hr_plans = plans, hr_classifications = cls, hr_classified = True, hr_initialized = True\<rparr>"
    "headerPlanningResult_Valid \<lparr>hr_plans = plans, hr_classifications = cls, hr_classified = True, hr_initialized = True\<rparr>"
proof -
  have "sorted_wrt (<) (filter (to_restore g target src) names)"
    using assms(2,3) by (intro sorted_wrt_filter) (simp add: strict_sorted_iff)
  then have "orderedPlans [] plans" using plans_for_names [OF assms(1)] by (simp add: orderedPlans_iff)
  then show "newClassifiedHeaderPlanningResult plans cls
    = Inr \<lparr>hr_plans = plans, hr_classifications = cls, hr_classified = True, hr_initialized = True\<rparr>"
    "headerPlanningResult_Valid \<lparr>hr_plans = plans, hr_classifications = cls, hr_classified = True, hr_initialized = True\<rparr>"
    by (simp_all add: newClassifiedHeaderPlanningResult_def newHeaderPlanningResult_def headerPlanningResult_Valid_def Let_def)
qed

lemma sort_distinct: "distinct xs \<Longrightarrow> sort xs = sorted_list_of_set (set xs)"
  by (simp add: sorted_list_of_set_sort_remdups distinct_remdups_id)

lemma planHeaders_cases:
  assumes "Generator_Valid g" "NewGenerationRequest previous current bp lp = Inr request" "state_ok previous" "state_ok current"
    and "gc_limits c = gn_limits g" "l = gl_RecipeLimits (gn_limits g)"
  shows "case planHeaders g request l c of
      (Inl e, c') \<Rightarrow> header_error g l lp (header_values (hb_fields (ss_headers previous))) e
    | (Inr r, c') \<Rightarrow> header_plan g previous current r"
proof -
  let ?pf = "hb_fields (ss_headers previous)" and ?cf = "hb_fields (ss_headers current)"
  let ?E = "header_error g l lp (header_values ?pf)"
  let ?names = "sorted_list_of_set (hf_nameLower ` set (?pf @ ?cf))"
  have valid: "GenerationRequest_Valid request" and req: "Previous request = previous" "Current request = current"
      "LiteralPolicy request = lp"
    using assms(2) by (simp_all add: NewGenerationRequest_Inr_iff Previous_def Current_def LiteralPolicy_def)
  have known: "knownGenerationState previous" "knownGenerationState current"
    using assms(2) valid by (auto simp: NewGenerationRequest_Inr_iff GenerationRequest_Valid_def)
  have fields: "\<forall>f \<in> set (?pf @ ?cf). hf_valid f \<and> canonical_name (hf_nameLower f) \<and> clean (hf_unfoldedValue f)"
    using assms(3,4) header_block_inv_fields header_field_canonical by (fastforce simp: state_ok_def)
  have names: "\<forall>n \<in> set ?names. canonical_name n" using fields by auto
  have vals: "\<forall>n. \<forall>v \<in> set (header_values ?pf n). clean v" using fields by (auto simp: header_values_def)
  have finish: "returns ?E (op_then (recheckHeaderClassifications g cls)
      (op_then (chargeHeaderPlanPass plans) (op_lift (newClassifiedHeaderPlanningResult plans cls)))) (header_plan g previous current)"
    if "plans_for g (header_values ?pf) (header_values ?cf) ?names (plans, cls)" for plans cls
    using recheckHeaderClassifications_returns [OF assms(1) names that] chargeHeaderPlanPass_returns
      newClassifiedHeaderPlanningResult_plans [OF that] that
    by (intro returns_then returns_lift limit_header_error) (auto simp: header_plan_def Let_def)
  have plan: "returns ?E (op_bind (planNamedHeaderGroups g ?names (hk_groups k1) (hk_groups k2) lp l) (\<lambda>(plans, cls).
      op_then (recheckHeaderClassifications g cls)
      (op_then (chargeHeaderPlanPass plans) (op_lift (newClassifiedHeaderPlanningResult plans cls))))) (header_plan g previous current)"
    if "group_of (hk_groups k1) = header_values ?pf" "group_of (hk_groups k2) = header_values ?cf" for k1 k2
    using planNamedHeaderGroups_returns [OF assms(1) names, of "hk_groups k1" l lp "hk_groups k2"] finish vals
    unfolding that by (intro returns_bind [where P = "plans_for g (header_values ?pf) (header_values ?cf) ?names"]) auto
  have collected: "returns ?E (op_bind (sortedHeaderNames (hk_names k2)) (\<lambda>names.
       case checkedSum [int (length names), int (length names), 2] of (planningStorage, ok) \<Rightarrow>
       if \<not> ok then headerWorkError planningStorage
       else op_then (gchargeWork planningStorage DimensionHeader)
        (op_bind (planNamedHeaderGroups g names (hk_groups k1) (hk_groups k2) lp l)
          (\<lambda>(plans, cls). op_then (recheckHeaderClassifications g cls)
           (op_then (chargeHeaderPlanPass plans) (op_lift (newClassifiedHeaderPlanningResult plans cls))))))) (header_plan g previous current)"
    if "collects ?pf [] k1" "collects ?cf (hk_names k1) k2" for k1 k2
  proof -
    have "sort (hk_names k2) = ?names"
      using that sort_distinct [of "hk_names k2"] by (simp add: collects_def image_Un)
    then show ?thesis
      using plan [of k1 k2] that
      by (intro returns_bind [OF limit_header_error [OF sortedHeaderNames_returns]] returns_case_prod returns_if returns_then
          limit_header_error [OF charges_fail_at_limits(1)] limit_header_error [OF headerWorkError_returns]) (simp add: collects_def)
  qed
  have v: "validateRequest g request = None" using assms(1) valid by (simp add: validateRequest_def)
  show ?thesis
    unfolding planHeaders_def v req op_guard_def option.case
  proof (rule returns_counter, rule returns_if, goal_cases)
    case 1
    then show ?case using assms(5,6) by simp
  next
    case 2
    show ?case
      unfolding Let_def assms(6) [symmetric]
      using fields
      by (intro returns_case_prod returns_if returns_then returns_fail collected
          limit_header_error [OF charges_fail_at_limits(2)] limit_header_error [OF validateHeaderGenerationState_returns]
          returns_bind [OF limit_header_error [OF collectGenerationGroups_returns]] known) (auto simp: header_error_def)
  qed
qed

end
