(* ===== verification/Recipe_Generation_Properties.thy ===== *)
theory Recipe_Generation_Properties
  imports Recipe_Header_Plan_Exact Recipe_Properties
begin

text \<open>
  Properties of the generation of recipes: what a plan of the generator is, and that applying a recipe with
  the plans gives the previous body and the previous values of the relevant headers back.
\<close>

section \<open>Values of fields\<close>

text \<open>The unfolded value of a field is determined by its octets.\<close>

definition unfolded_of :: "bytes \<Rightarrow> bytes" where
  "unfolded_of e = (let rest = tl (dropWhile (\<lambda>b. b \<noteq> CHR '':'') e) in unfoldHeaderValue (take (length rest - 2) rest))"

lemma unfolded_of_line: "validHeaderFieldName n \<Longrightarrow> unfolded_of (n @ CHR '':'' # v @ crlf) = unfoldHeaderValue v"
proof -
  assume "validHeaderFieldName n"
  then have "\<forall>b \<in> set n. b \<noteq> CHR '':''" using validHeaderFieldName_no_specials(3) by metis
  then have "dropWhile (\<lambda>b. b \<noteq> CHR '':'') (n @ CHR '':'' # v @ crlf) = CHR '':'' # v @ crlf" by (simp add: dropWhile_append2)
  then show ?thesis by (simp add: unfolded_of_def crlf_def)
qed

lemma unfolded_of_field: "header_field_inv f \<Longrightarrow> unfolded_of (hf_originalBytes f) = hf_unfoldedValue f"
  by (simp add: header_field_inv_def unfolded_of_line)

lemma unfolded_of_literal: "validHeaderFieldName n \<Longrightarrow> clean d \<Longrightarrow> unfolded_of (header_line n d) = d"
  by (auto simp: header_line_def unfolded_of_line unfoldHeaderValue_valid validHeaderFieldValue_clean clean_def filter_id_conv)

lemma header_values_group:
  assumes "header_block_inv h"
  shows "header_values (hb_fields h) n = map unfolded_of (rev (field_group (hb_fields h) n))"
proof -
  have "map unfolded_of (field_group (hb_fields h) n) = map hf_unfoldedValue (filter (\<lambda>f. hf_nameLower f = n) (hb_fields h))"
    using unfolded_of_field header_block_inv_fields [OF assms] by (simp add: field_group_def)
  then show ?thesis by (simp add: header_values_def flip: rev_map)
qed

section \<open>Emission of values\<close>

lemma map_emit_step:
  assumes "\<And>d. d \<in> set (st_data s) \<Longrightarrow> g (f d) = f' d"
  shows "map g (emit_step f src s) = emit_step f' (map g src) s"
  using assms by (simp add: emit_step_def Go_Bytes.slice_def take_map drop_map)

lemma map_emit_steps:
  assumes "\<And>d. d \<in> set (literals ss) \<Longrightarrow> g (f d) = f' d"
  shows "map g (emit_steps f src ss) = emit_steps f' (map g src) ss"
  using assms
proof (induction ss)
  case (Cons s ss)
  then show ?case using map_emit_step [of s g f f' src] by (simp add: literals_def)
qed simp

lemma literals_clean: "list_all step_valid ss \<Longrightarrow> d \<in> set (literals ss) \<Longrightarrow> clean d"
proof (induction ss)
  case (Cons s ss)
  from Cons.prems(1) have "step_valid s" by simp
  then have "d \<in> set (st_data s) \<Longrightarrow> clean d"
    using validLiteral_clean by (cases rule: step_valid_cases) (auto simp: copy_step_def literal_step_def list.pred_set)
  with Cons show ?case by (auto simp: literals_def)
qed simp

lemma planned_values:
  assumes "group_plan target (map unfolded_of (rev es)) n p"
  shows "map unfolded_of (rev (planned_fields es p)) = target"
proof -
  have p: "plan_ok p" "hp_name p = n" "emit_steps id (map unfolded_of (rev es)) (hp_steps p) = target"
    using assms by (simp_all add: group_plan_def restores_def)
  have "unfolded_of (header_line n d) = id d" if "d \<in> set (literals (hp_steps p))" for d
    using that p(1,2) unfolded_of_literal [of n d] literals_clean [of "hp_steps p" d] by (simp add: plan_ok_def steps_ok_def)
  then have "map unfolded_of (emit_steps (header_line n) (rev es) (hp_steps p)) = emit_steps id (map unfolded_of (rev es)) (hp_steps p)"
    by (rule map_emit_steps)
  then show ?thesis using p by (simp add: planned_fields_def)
qed

section \<open>Application of plans\<close>

lemma plan_for_generated:
  assumes "plans_for g target src names (rc_headers r, cls)" "distinct names" "set names \<supseteq> {n. target n \<noteq> src n}"
  shows "case plan_for r n of None \<Rightarrow> \<not> to_restore g target src n
    | Some p \<Rightarrow> to_restore g target src n \<and> group_plan (target n) (src n) n p"
proof (cases "plan_for r n")
  case None
  then have "n \<notin> set (map hp_name (rc_headers r))" by (simp add: plan_for_def map_of_eq_None_iff image_image)
  then have "n \<notin> set (filter (to_restore g target src) names)" unfolding plans_for_names(1) [OF assms(1)] .
  then show ?thesis using None assms(3) by (auto simp: to_restore_def)
next
  case (Some p)
  then have p: "p \<in> set (rc_headers r)" "hp_name p = n" using plan_for_Some by blast+
  have "list_all2 (\<lambda>n p. group_plan (target n) (src n) n p) (filter (to_restore g target src) names) (rc_headers r)"
    using assms(1) by (simp add: plans_for_def)
  moreover obtain i where i: "i < length (rc_headers r)" "p = rc_headers r ! i" using p(1) by (auto simp: in_set_conv_nth)
  ultimately obtain m where m: "m \<in> set (filter (to_restore g target src) names)" "group_plan (target m) (src m) m p"
    by (metis list_all2_conv_all_nth nth_mem)
  then have "m = n" using p(2) by (simp add: group_plan_def)
  with m Some show ?thesis by simp
qed

lemma restored_headers:
  assumes "header_plan g previous current plan" "recipe_ok r" "state_ok previous" "state_ok current"
    and "rc_headers r = hr_plans plan" "block_of (emitted_fields current r) h"
  shows "if relevant_header g n = Some True
    then header_values (hb_fields h) n = header_values (hb_fields (ss_headers previous)) n
    else field_group (hb_fields h) n = field_group (hb_fields (ss_headers current)) n"
proof -
  let ?pf = "hb_fields (ss_headers previous)" and ?cf = "hb_fields (ss_headers current)"
  let ?names = "sorted_list_of_set (hf_nameLower ` set (?pf @ ?cf))"
  have inv: "header_block_inv (ss_headers previous)" "header_block_inv (ss_headers current)" "header_block_inv h"
    using assms(3,4,6) by (simp_all add: state_ok_def block_of_def)
  have plans: "plans_for g (header_values ?pf) (header_values ?cf) ?names (rc_headers r, hr_classifications plan)"
    using assms(1,5) by (simp add: header_plan_def Let_def)
  have all: "{n. header_values ?pf n \<noteq> header_values ?cf n} \<subseteq> set ?names"
  proof
    fix m assume "m \<in> {n. header_values ?pf n \<noteq> header_values ?cf n}"
    then have "header_values ?pf m \<noteq> [] \<or> header_values ?cf m \<noteq> []" by auto
    then show "m \<in> set ?names" by (auto simp: header_values_def filter_empty_conv)
  qed
  have fg: "field_group (hb_fields h) n = group_fields ?cf r n" using applied_groups [OF assms(2) inv(2) assms(6)] .
  have vals: "header_values (hb_fields h) n = map unfolded_of (rev (group_fields ?cf r n))"
    using header_values_group [OF inv(3)] fg by simp
  show ?thesis
    using plan_for_generated [OF plans _ all, of n] fg vals planned_values [of "header_values ?pf n" "field_group ?cf n" n]
      header_values_group [OF inv(2), of n]
    by (auto simp: group_fields_def to_restore_def split: option.splits if_splits)
qed

section \<open>A concrete generation\<close>

definition sample_generator :: Generator where
  "sample_generator = \<lparr>gn_limits = DefaultGenerationLimits,
     gn_relevance = Some \<lparr>hrel_validates = True, hrel_IsRelevantHeader = (\<lambda>n. Some True)\<rparr>, gn_initialized = True\<rparr>"

definition sample_previous :: State where
  "sample_previous = known_state (sample_block [sample_field 0 ''from'' ''x'']) (body_of []) MessageFramingDelimited"

definition sample_generation_request :: GenerationRequest where
  "sample_generation_request = \<lparr>gr_previous = sample_previous, gr_current = sample_state, gr_bodyUnavailablePolicy = RejectUnavailableBody,
     gr_literalPolicy = AllowLiterals, gr_initialized = True\<rparr>"

definition sample_plan :: bodyPlanningResult where
  "sample_plan = \<lparr>bp_outcome = BodyGenerationGenerated, bp_unavailable = BodyUnavailableReasonUnset, bp_steps = [], bp_initialized = True\<rparr>"

definition sample_removal :: headerPlan where
  "sample_removal = \<lparr>hp_name = ''subject'', hp_canonicalName = ''subject'', hp_steps = [], hp_initialized = True\<rparr>"

definition sample_header_plan :: headerPlanningResult where
  "sample_header_plan = \<lparr>hr_plans = [sample_removal],
     hr_classifications = [\<lparr>hc_name = ''from'', hc_relevant = True\<rparr>, \<lparr>hc_name = ''subject'', hc_relevant = True\<rparr>],
     hr_classified = True, hr_initialized = True\<rparr>"

definition sample_generated_recipe :: Recipe where
  "sample_generated_recipe = \<lparr>rc_headers = [sample_removal], rc_hasHeaderRecipe = True, rc_bodyMode = BodyModeSteps, rc_bodySteps = [],
     rc_initialized = True\<rparr>"

lemma sample_generation:
  "NewGenerator DefaultGenerationLimits (gn_relevance sample_generator) = Inr sample_generator"
  "NewGenerationRequest sample_previous sample_state RejectUnavailableBody AllowLiterals = Inr sample_generation_request"
proof -
  have "GenerationLimits_normalized DefaultGenerationLimits = Inr DefaultGenerationLimits" by code_simp
  then show "NewGenerator DefaultGenerationLimits (gn_relevance sample_generator) = Inr sample_generator"
    by (simp add: NewGenerator_def sample_generator_def stableHeaderRelevance_def)
  have "GenerationRequest_Valid sample_generation_request" by code_simp
  then show "NewGenerationRequest sample_previous sample_state RejectUnavailableBody AllowLiterals = Inr sample_generation_request"
    by (simp add: NewGenerationRequest_Inr_iff) (simp add: sample_generation_request_def)
qed

lemma sample_previous_ok: "state_ok sample_previous"
proof -
  let ?h = "sample_block [sample_field 0 ''from'' ''x'']"
  have "parseHeaderBlock (hb_originalBytes ?h) (applierOptions DefaultRecipeLimits) = Inr ?h" by code_simp
  then have "header_block_inv ?h" by (simp add: parseHeaderBlock_Inr_iff)
  moreover have "body_inv (body_of [])" using body_of_inv [of "[]"] by (simp add: lines_ok_def)
  ultimately show ?thesis by (simp add: sample_previous_def state_ok_known MessageFraming_Known_def)
qed

lemma sample_plan_run:
  "fst (planBody sample_generator sample_generation_request DefaultRecipeLimits (newGenerationCounter DefaultGenerationLimits)) = Inr sample_plan"
  by code_simp

lemma sample_plan_runs:
  obtains c where "planBody sample_generator sample_generation_request DefaultRecipeLimits (newGenerationCounter DefaultGenerationLimits) = (Inr sample_plan, c)"
  using sample_plan_run by (cases "planBody sample_generator sample_generation_request DefaultRecipeLimits (newGenerationCounter DefaultGenerationLimits)") auto

lemma sample_header_run:
  "fst (planHeaders sample_generator sample_generation_request DefaultRecipeLimits (newGenerationCounter DefaultGenerationLimits)) = Inr sample_header_plan"
  by code_simp

lemma sample_header_runs:
  obtains c where "planHeaders sample_generator sample_generation_request DefaultRecipeLimits (newGenerationCounter DefaultGenerationLimits) = (Inr sample_header_plan, c)"
  using sample_header_run by (cases "planHeaders sample_generator sample_generation_request DefaultRecipeLimits (newGenerationCounter DefaultGenerationLimits)") auto

lemma sample_body_apply:
  "Recipe_Valid sample_generated_recipe" "fst (Apply sample_applier sample_state sample_generated_recipe) = Inr sample_previous"
  by code_simp+

section \<open>Properties\<close>

lemma NewGenerator_Inr: "NewGenerator limits rel = Inr g \<Longrightarrow> Generator_Valid g"
  by (auto simp: NewGenerator_def Generator_Valid_def res_bind_Inr_iff split: if_splits)

text \<open>
  C12: A body plan is one of three: the bodies and framings are equal; or steps over the lines of the current
  body that ascend without overlap, stay within it and emit exactly the lines of the previous body, which then
  is delimited; or, if the policy allows, an unavailable body with its reason. Planning otherwise fails at a
  limit, or because the body is not representable and the policy rejects that. A header plan has, in the order
  of their names, one plan for each relevant name whose unfolded values differ, with such steps over the
  current values that emit the previous ones, and it classifies every name of the two states once. Planning
  otherwise fails at a limit, because a value may not be disclosed or makes too long a field, or because the
  relevance of some name is an error. The internal invariants of the planner are never violated, whatever the
  counter was charged with before.
\<close>

theorem plan_exact:
  assumes "NewGenerator limits rel = Inr g" "NewGenerationRequest previous current bp lp = Inr request"
    and "state_ok previous" "state_ok current" "gc_limits c = gn_limits g" "l = gl_RecipeLimits (gn_limits g)"
  shows "(case planBody g request l c of
      (Inr r, c') \<Rightarrow> body_plan previous current bp lp r
    | (Inl e, c') \<Rightarrow> re_code e = RecipeLimitExceeded \<or> re_code e = RecipeBodyUnrepresentable \<and> bp = RejectUnavailableBody)
   \<and> (case planHeaders g request l c of
      (Inr r, c') \<Rightarrow> header_plan g previous current r
    | (Inl e, c') \<Rightarrow> re_code e = RecipeLimitExceeded
        \<or> re_code e = RecipeHeaderUnrepresentable
          \<and> (lp = CopyOnly \<or> (\<exists>n v. v \<in> set (header_values (hb_fields (ss_headers previous)) n) \<and> too_long l n v))
        \<or> re_code e = RecipeHeaderRelevance \<and> (\<exists>n. relevant_header g n = None))"
  using planBody_cases [OF NewGenerator_Inr [OF assms(1)] assms(2-6)] planHeaders_cases [OF NewGenerator_Inr [OF assms(1)] assms(2-6)]
  by (auto simp: plan_error_def limit_error_def header_error_def split: prod.splits sum.splits)

theorem plan_exact_witness:
  "body_plan sample_previous sample_state RejectUnavailableBody AllowLiterals sample_plan
     \<and> header_plan sample_generator sample_previous sample_state sample_header_plan"
proof -
  obtain c where "planBody sample_generator sample_generation_request DefaultRecipeLimits (newGenerationCounter DefaultGenerationLimits) = (Inr sample_plan, c)"
    by (rule sample_plan_runs)
  moreover obtain c' where "planHeaders sample_generator sample_generation_request DefaultRecipeLimits (newGenerationCounter DefaultGenerationLimits) = (Inr sample_header_plan, c')"
    by (rule sample_header_runs)
  moreover have "gc_limits (newGenerationCounter DefaultGenerationLimits) = gn_limits sample_generator"
      "DefaultRecipeLimits = gl_RecipeLimits (gn_limits sample_generator)"
    by (simp_all add: sample_generator_def DefaultGenerationLimits_def newGenerationCounter_def)
  ultimately show ?thesis
    using plan_exact [OF sample_generation sample_previous_ok sample_states_ok(1)] by fastforce
qed

lemma planBody_limits: "planBody g request l c = (Inr plan, c') \<Longrightarrow> gc_limits c = gn_limits g \<and> l = gl_RecipeLimits (gn_limits g)"
  by (auto simp: planBody_def op_guard_def op_bind_def counter_get_def split: option.splits if_splits)

lemma planHeaders_limits: "planHeaders g request l c = (Inr plan, c') \<Longrightarrow> gc_limits c = gn_limits g \<and> l = gl_RecipeLimits (gn_limits g)"
  by (auto simp: planHeaders_def op_guard_def op_bind_def counter_get_def split: option.splits if_splits)

lemma restored_body:
  assumes "body_plan previous current bp lp plan" "bodyPlanningResult_Outcome plan = BodyGenerationGenerated"
    and "applied current r s'" "rc_bodyMode r = BodyModeSteps" "rc_bodySteps r = bodyPlanningResult_stepsCopy plan"
  shows "bd_bytes (ss_body s') = bd_bytes (ss_body previous) \<and> ss_framing s' = ss_framing previous
     \<and> ss_availability s' = BodyAvailabilityKnown"
proof -
  have "bp_outcome plan = BodyGenerationGenerated" "bodyPlanningResult_Valid plan"
    using assms(2) by (simp_all add: bodyPlanningResult_Outcome_def split: if_splits)
  then have p: "ss_framing previous = MessageFramingDelimited"
      "emit_steps body_line (source_lines current) (rc_bodySteps r) = source_lines previous"
    using assms(1,5) by (simp_all add: body_plan_def bodyPlanningResult_stepsCopy_def)
  have "emitted_lines current r = source_lines previous" using p(2) assms(4) by (simp add: emitted_lines_def)
  then have "s' = known_state (ss_headers s') (body_of (concat (source_lines previous))) MessageFramingDelimited"
    using assms(3,4) by (simp add: applied_def drops_body_def applied_framing_def)
  then have "ss_body s' = body_of (bd_bytes (ss_body previous))" "ss_framing s' = MessageFramingDelimited" "ss_availability s' = BodyAvailabilityKnown"
    by (metis concat_crlf_lines known_state_simps source_lines_def State.select_convs known_state_def)+
  with p(1) show ?thesis by (simp add: body_of_def)
qed

text \<open>
  C11: Generation is inverse to application. Let a recipe be applied with success to the current state. If its
  body steps are those generated for a previous and the current state, the result has the body and the framing
  of the previous state, whatever the header recipe does. If its header plans are those generated, every
  relevant header name has, bottom-up, the unfolded values it has in the previous state, and every other name
  the fields it has in the current one, whatever the body recipe does. This holds for every counter that the
  planner starts from.
\<close>

theorem generated_recipe_restores:
  assumes "NewGenerator limits rel = Inr g" "NewGenerationRequest previous current bp lp = Inr request"
    and "state_ok previous" "state_ok current" "NewApplier al = Inr a" "Recipe_Valid r" "Apply a current r = (Inr s', u)"
  shows "(\<forall>l c plan c'. planBody g request l c = (Inr plan, c') \<and> bodyPlanningResult_Outcome plan = BodyGenerationGenerated
        \<and> rc_bodyMode r = BodyModeSteps \<and> rc_bodySteps r = bodyPlanningResult_stepsCopy plan \<longrightarrow>
          bd_bytes (ss_body s') = bd_bytes (ss_body previous) \<and> ss_framing s' = ss_framing previous
          \<and> ss_availability s' = BodyAvailabilityKnown)
     \<and> (\<forall>l c plan c' n. planHeaders g request l c = (Inr plan, c') \<and> rc_headers r = headerPlanningResult_headerPlans plan \<longrightarrow>
          (if relevant_header g n = Some True
           then header_values (hb_fields (ss_headers s')) n = header_values (hb_fields (ss_headers previous)) n
           else field_group (hb_fields (ss_headers s')) n = field_group (hb_fields (ss_headers current)) n))"
proof -
  note g = NewGenerator_Inr [OF assms(1)]
  have r: "recipe_ok r" using assms(6) by (simp add: Recipe_Valid_iff)
  have app: "applied current r s'" using Apply_success NewApplier_ok [OF assms(5)] r assms(4,7) by simp
  have plan: "body_plan previous current bp lp plan" if "planBody g request l c = (Inr plan, c')" for l c plan c'
    using planBody_cases [OF g assms(2-4), of c l] planBody_limits [OF that] that by simp
  have hplan: "header_plan g previous current plan" if "planHeaders g request l c = (Inr plan, c')" for l c plan c'
    using planHeaders_cases [OF g assms(2-4), of c l] planHeaders_limits [OF that] that by simp
  have headers: "if relevant_header g n = Some True
      then header_values (hb_fields (ss_headers s')) n = header_values (hb_fields (ss_headers previous)) n
      else field_group (hb_fields (ss_headers s')) n = field_group (hb_fields (ss_headers current)) n"
    if "header_plan g previous current plan" "rc_headers r = headerPlanningResult_headerPlans plan" for plan n
    using restored_headers [OF that(1) r assms(3,4)] that app
    by (simp add: headerPlanningResult_headerPlans_def header_plan_def applied_def)
  show ?thesis using restored_body [OF plan _ app] headers [OF hplan] by blast
qed

theorem generated_recipe_restores_witness:
  "bd_bytes (ss_body sample_previous) = [] \<and> fst (Apply sample_applier sample_state sample_generated_recipe) = Inr sample_previous
     \<and> relevant_header sample_generator ''subject'' = Some True
     \<and> header_values (hb_fields (ss_headers sample_state)) ''subject'' = [''a'']
     \<and> header_values (hb_fields (ss_headers sample_previous)) ''subject'' = []"
proof -
  obtain c where p: "planBody sample_generator sample_generation_request DefaultRecipeLimits (newGenerationCounter DefaultGenerationLimits) = (Inr sample_plan, c)"
    by (rule sample_plan_runs)
  obtain c' where h: "planHeaders sample_generator sample_generation_request DefaultRecipeLimits (newGenerationCounter DefaultGenerationLimits) = (Inr sample_header_plan, c')"
    by (rule sample_header_runs)
  obtain s' u where a: "Apply sample_applier sample_state sample_generated_recipe = (Inr s', u)" "s' = sample_previous"
    using sample_body_apply(2) by (cases "Apply sample_applier sample_state sample_generated_recipe") auto
  have s: "bodyPlanningResult_Outcome sample_plan = BodyGenerationGenerated" "rc_bodyMode sample_generated_recipe = BodyModeSteps"
    "rc_bodySteps sample_generated_recipe = bodyPlanningResult_stepsCopy sample_plan"
    "rc_headers sample_generated_recipe = headerPlanningResult_headerPlans sample_header_plan"
    "relevant_header sample_generator ''subject'' = Some True"
    "header_values (hb_fields (ss_headers sample_state)) ''subject'' = [''a'']"
    "header_values (hb_fields (ss_headers sample_previous)) ''subject'' = []" by code_simp+
  note t = generated_recipe_restores [OF sample_generation sample_previous_ok sample_states_ok(1) sample_inputs(1) sample_body_apply(1) a(1)]
  have "bd_bytes (ss_body s') = bd_bytes (ss_body sample_previous)" using t p s(1-3) by blast
  moreover have "header_values (hb_fields (ss_headers s')) ''subject'' = header_values (hb_fields (ss_headers sample_previous)) ''subject''"
    using t h s(4,5) by metis
  ultimately show ?thesis using a s(5-7) by (simp add: sample_previous_def body_of_def)
qed

end
