(* ===== verification/Spec2Isabelle.thy ===== *)
theory Spec2Isabelle
  imports Rawmsg_Properties Tagvalue_Properties Canonical_Properties Message_Hashing Replay_Properties Recipe_Properties
    Combine_Properties Mailbox_Properties Instance_Properties
    Recipe_Generation_Properties
begin

text \<open>
  A verification library for the DKIM2 library: a Go implementation of DKIM2 message signing. The
  core packages under \<open>src/internal\<close> turn octets into a validated message, read and write tag lists,
  compute the canonical octets that are hashed and signed, apply the recipes that undo the changes of
  an intermediary, and remember what was seen so that replays are detected. Definitions are translated from the sources, one per function or type, and keep the
  source's order of checks; Go errors are the left values of a sum, nil pointers and unreturned calls
  are \<open>None\<close>, Go \<open>int\<close> is \<open>int\<close> with the platform bound written where the code checks it, and machine
  words are words.

  \<^bold>\<open>The standard library.\<close> \<open>Go_Bytes\<close> (octets, \<open>bytes\<close>/\<open>strings\<close>, results), \<open>Go_Lines\<close> (line breaks),
  \<open>Go_Base64\<close> and \<open>Go_Text\<close> (\<open>encoding/base64\<close>, \<open>encoding/hex\<close>, decimal integers), \<open>Go_Sort\<close> (\<open>sort\<close>),
  \<open>Go_Sha2\<close> (SHA-256 and SHA-512, constants computed from their definition), \<open>Go_Time\<close> (\<open>time\<close> with
  saturating addition) and \<open>Go_Heap\<close> (\<open>container/heap\<close>). Two interfaces are locales: \<open>byte_codec\<close>, the
  contract of an encoding, interpreted on every encoding above, and \<open>heap_client\<close>, what the heap
  algorithms need of \<open>Less\<close> and \<open>Swap\<close>, interpreted on the expiry heap of the replay store. \<open>Go_Effects\<close> is
  the monad of methods that mutate one object and may fail, with the contracts \<open>meter\<close> (a counter with
  a ceiling) and \<open>emission\<close> (a metered output buffer), interpreted on the usage counter and on the body
  and header outputs of recipe application; \<open>Go_Utf8\<close> is \<open>utf8.Valid\<close>.

  \<^bold>\<open>Raw messages\<close> (\<open>src/internal/rawmsg\<close>, \<open>src/headerfold\<close>). \<open>Rawmsg_Base\<close> errors, limits and options;
  \<open>Rawmsg_Header\<close>, \<open>Rawmsg_Body\<close>, \<open>Rawmsg_Message\<close> the immutable models and their constructors;
  \<open>Rawmsg_Parser\<close> the strict parser; \<open>Rawmsg_Build\<close> reconstruction and insertion of trace fields;
  \<open>Headerfold\<close> restoring folded fields. \<open>Rawmsg_Grammar\<close> is the grammar the parser is held against,
  \<open>Rawmsg_Parse\<close> the proof that they agree, \<open>Rawmsg_Properties\<close> the theorems: the parser accepts exactly
  the well-formed messages within the limits, insertion keeps every inherited octet, reconstruction
  parses back, errors carry the right code, and the body index partitions the body.

  \<^bold>\<open>Tag lists\<close> (\<open>src/internal/tagvalue\<close>). \<open>Tagvalue_Base\<close> errors, limits and tags; \<open>Tagvalue_Scanner\<close> both
  scanner modes; \<open>Tagvalue_Base64\<close> the strict Base64 parsers; \<open>Tagvalue_Render\<close> folded rendering;
  \<open>Tagvalue_Properties\<close>: scanner and Base64 parser accept exactly their grammars, renderings have the
  computed size, fit the line, and parse back.

  \<^bold>\<open>Canonicalization\<close> (\<open>src/internal/canonical\<close>). \<open>Canonical_Base\<close> errors, limits, options and results;
  \<open>Canonical_Body\<close> and \<open>Canonical_Header\<close> the hash inputs; \<open>Canonical_Kernel\<close> which inputs are
  identified; \<open>Canonical_Hash\<close> digests and their purposes; \<open>Canonical_Properties\<close>: the inputs are what the
  specification describes on every branch, and two bodies or headers collide exactly when they
  differ in what canonicalization is meant to ignore. \<open>Message_Hashing\<close> and this theory join the packages:
  inserting trace fields changes no hash, and whatever the parser accepts by default can be hashed.

  \<^bold>\<open>Replay detection\<close> (\<open>src/internal/replay\<close>). \<open>Replay_Base\<close> errors, contexts, outcomes, limits, periods and
  keys; \<open>Replay_Gate\<close> the lifecycle gate and the disabled store; \<open>Replay_Deriver\<close> identities, HMAC frames
  and storage keys; \<open>Replay_Value\<close> nonces and stored values; \<open>Replay_Memory\<close> the memory store, with its
  entries as objects in a store because map and heap share them. \<open>Replay_Expiries\<close> proves the heap
  operations over \<open>heap_client\<close>; \<open>Replay_Store\<close> has the invariant, the abstract store (a map from keys to
  records that expire) and the refinement of the three operations; \<open>Replay_Refusal\<close> exactly when they are
  refused at a limit; \<open>Replay_Calls\<close> what every critical section keeps; \<open>Replay_Concurrent\<close> goroutines as an inductive step relation over the atomic steps of
  the code, its invariant, and progress. \<open>Replay_Properties\<close>: no interleaving answers a key first seen
  twice within its retention, calls refine the abstract store, map and heap stay consistent, the
  token excludes, the store is cleared once and only after it drained, under every schedule all calls
  return without a context having to end, closing returns, derived keys are valid and separated, and stored values read back.

  \<^bold>\<open>Modification recipes\<close> (\<open>src/internal/recipe\<close>). \<open>Recipe_Base\<close> errors and limit names; \<open>Recipe_Usage\<close> limits
  and the usage counter; \<open>Recipe_Model\<close> steps, plans, recipes, reconstruction states and plan budgets;
  \<open>Recipe_Body\<close> and \<open>Recipe_Header\<close> the application of the body and header parts, with \<open>Apply\<close> and
  \<open>ApplyHistorical\<close>. \<open>Recipe_Body_Exact\<close>, \<open>Recipe_Groups\<close>, \<open>Recipe_Header_Exact\<close>, \<open>Recipe_Plan_Emission\<close>,
  \<open>Recipe_Header_Plans\<close>, \<open>Recipe_Header_Apply\<close> and \<open>Recipe_Apply\<close> say phase by phase exactly when the
  metered code succeeds, what it emits and what it charges. \<open>Recipe_Properties\<close>: an application succeeds
  exactly when recipe, source and result fit the limits, returns exactly the state with the emitted
  fields and lines, treats each header name separately, keeps states well formed, and reports a
  usage within the limits on every outcome.

  \<^bold>\<open>Generation of recipes\<close> (\<open>src/internal/recipe/generat*.go\<close>). \<open>Recipe_Generation\<close> has policies, requests, limits and
  the operation counter, \<open>Recipe_Planning\<close> the candidate index over digests and the step planner,
  \<open>Recipe_Body_Planning\<close> the generator and its planning of bodies, \<open>Recipe_Header_Planning\<close> its planning of headers
  with the merge sort of their names. The postconditions of \<open>Go_Returns\<close> follow the
  structure of metered code: an operation returns a value with a property or fails with an error of a class.
  \<open>Recipe_Planning_Exact\<close> and \<open>Recipe_Body_Plan_Exact\<close>: planning copies the earliest occurrence after the last
  copy, emits exactly the previous body and fails only at limits or by policy; \<open>Recipe_Header_Plan_Exact\<close>: the
  names are sorted, the plans are those of the relevant names whose values differ. \<open>Recipe_Generation_Properties\<close>: applying generated plans gives the previous body
  and the previous values of the relevant headers back.

  \<^bold>\<open>Recombination\<close> (\<open>src/internal/combine\<close>). \<open>Combine_Layout\<close> the group structure of \<open>h=\<close> and \<open>s=\<close> values, its
  sizes kept as octets, and the splitter with its grammar; \<open>Combine_Evaluate\<close> the rules inside and across
  groups and the decisive set, over the locale \<open>combination\<close> (a rule answers a result one of its inputs
  carries), interpreted on the signature and the hash rules; \<open>Combine_Properties\<close>: outcomes are the
  verdicts of Sections 14.6 and 14.7, and splitting is exact.

  \<^bold>\<open>Names\<close> (\<open>src/internal/domainname\<close>, \<open>src/internal/mailbox\<close>). \<open>Domainname\<close> the conversion of domain names, with
  the third-party IDNA profile as a parameter about which nothing is assumed; \<open>Mailbox_Parser\<close> tokenizer
  and recursive-descent parser of author fields; \<open>Mailbox_Grammar\<close> the lexical and the address-list
  grammar, and that both accept exactly them; \<open>Mailbox_Properties\<close> the classification of author fields.

  \<^bold>\<open>Loops and bounds.\<close> Loops are structural recursion over the input or recursion with a measure, so every
  definition is total; the pruning loop recurses on its budget, which is the loop's own bound, and
  no fuel is used. A wait that has not ended (a token or a drain) is \<open>None\<close> in the sequential
  operations and a disabled step in the concurrent ones.

  \<^bold>\<open>Message-Instance fields\<close> (\<open>src/internal/instance\<close>). \<open>Instance_Base\<close> has errors, limits, hash sets and
  instances, \<open>Instance_Parser\<close> the hash-set and field parsers, composed of the tag scanner, the group splitter
  and the Base64 parser; \<open>Instance_Syntax\<close> characterizes what they accept. \<open>Instance_Sequence\<close> is extraction
  from a message, the numbering rules and collections. \<open>Instance_Render\<close> is construction, preflight and
  rendering: the emitter is a run over text segments and line breaks that succeeds exactly when every physical
  line and the field fit. \<open>Instance_Roundtrip\<close> shows that a rendered field is a header field of the raw parser
  and parses to the rendered instance; \<open>Instance_Properties\<close> states the results. Numbers are naturals: the
  parser bounds them by 64 bits and the code never adds to them.

  \<^bold>\<open>Not modelled.\<close> Text rendering of errors, redacted formatting and the serialization methods that only
  refuse; reflection on nil interfaces; monotonic clock readings; channels only tests install. Of the
  system: the signature input (\<open>canonical/signature.go\<close>), the parser of recipes and the
  serializer and proof step of their generator, DKIM2-Signature fields, policy, key resolution, route
  planning, the verification and signing engines and delivery status notifications are planned next, in
  that order; cryptographic primitives beyond SHA-2 and HMAC are third-party code; the service layer,
  data sources, observability, daemons and adapters are wiring and input/output.
\<close>

section \<open>Parsing, insertion and hashing together\<close>

text \<open>
  C5: Inserting fields whose names are excluded (the signer inserts Message-Instance and
  DKIM2-Signature) does not disturb what was hashed: the body hash of the result is that of the source,
  and its header hash carries the same digest.
\<close>

theorem insertion_keeps_hashes:
  assumes "message_inv (ir_Message r)" "PrependValidatedFields r = Inr m"
    and "\<forall>e \<in> set (ir_Fields r). excluded_octets e" "HeaderHashFromMessage c m = Inr a"
  shows "BodyHashFromMessage c m = BodyHashFromMessage c (ir_Message r)
     \<and> (\<exists>b. HeaderHashFromMessage c (ir_Message r) = Inr b \<and> CanonResult_Digest b = CanonResult_Digest a)"
proof -
  have p: "prepended (ir_Fields r) (ir_Message r) m"
    using assms(1,2) PrependValidatedFields_Inr_iff by blast
  then have "msg_body m = msg_body (ir_Message r)" by (simp add: prepended_def)
  with prepended_header_hash [OF p assms(1,3,4)] show ?thesis by (simp add: BodyHashFromMessage_def)
qed

text \<open>
  C33: The default limits agree: every message the parser accepts with default options has a body hash
  and a header hash under the default canonicalization options, with the SHA-256 sums of the canonical
  octets.
\<close>

theorem default_limits_hashable:
  assumes "Parse d = Inr m"
  shows "\<exists>a b. HeaderHashFromMessage defaultCanonicalizer m = Inr a \<and> BodyHashFromMessage defaultCanonicalizer m = Inr b
     \<and> CanonResult_Digest a = Some (digest_of HashAlgorithmSHA256 (header_octets (msg_headers m)))
     \<and> CanonResult_Digest b = Some (digest_of HashAlgorithmSHA256 (canonical_body (bd_bytes (msg_body m))))"
proof -
  have m: "message_inv m" "message_fits DefaultParserOptions m"
    using assms by (simp_all add: Parse_def ParseWithOptions_Inr_iff)
  have opts: "co_Limits (cz_options defaultCanonicalizer) = DefaultCanonLimits"
    "co_HashAlgorithm (cz_options defaultCanonicalizer) = HashAlgorithmSHA256"
    by (simp_all add: defaultCanonicalizer_def DefaultCanonOptions_def)
  have inv: "header_block_inv (msg_headers m)" "bd_initialized (msg_body m)"
    using m(1) by (simp_all add: message_inv_def)
  obtain a where a: "HeaderHash defaultCanonicalizer (msg_headers m) = Inr a"
    "CanonResult_Digest a = Some (digest_of HashAlgorithmSHA256 (header_octets (msg_headers m)))"
    using HeaderHash_success [OF inv(1) defaultCanonicalizer_valid] message_fits_header [OF m] unfolding opts by blast
  obtain i where i: "BodyHashInput defaultCanonicalizer (msg_body m) = Inr i"
    using BodyHashInput_success_iff inv(2) message_fits_body [OF m] unfolding opts [symmetric] by blast
  then obtain b where "BodyHash defaultCanonicalizer (msg_body m) = Inr b"
    "b = NewResult i (digest_of HashAlgorithmSHA256 (bi_bytes i))"
    using body_hash.hash_Inr_iff defaultCanonicalizer_valid opts(2) by metis
  with a BodyHashInput_Inr [OF i] show ?thesis
    by (simp add: HeaderHashFromMessage_def BodyHashFromMessage_def CanonResult_Digest_def NewResult_def)
qed

theorem default_limits_hashable_witness:
  "\<exists>m a. Parse sampleBytes = Inr m \<and> HeaderHashFromMessage defaultCanonicalizer m = Inr a"
proof -
  obtain m where "Parse sampleBytes = Inr m" by (rule sample_message)
  with default_limits_hashable [OF this] show ?thesis by blast
qed

theorem insertion_keeps_hashes_witness:
  "\<exists>m m' a b. PrependValidatedFields (sampleRequest m) = Inr m'
     \<and> HeaderHashFromMessage defaultCanonicalizer m = Inr a \<and> HeaderHashFromMessage defaultCanonicalizer m' = Inr b
     \<and> CanonResult_Digest a = CanonResult_Digest b"
proof -
  obtain m m' where m: "message_inv m" "PrependValidatedFields (sampleRequest m) = Inr m'"
    by (rule sample_insertion)
  have src: "message_inv (ir_Message (sampleRequest m))" using m(1) by (simp add: sampleRequest_def)
  have "message_inv m'" "message_fits DefaultParserOptions m'"
    using PrependValidatedFields_Inr_iff [OF src] m(2) prepended_fits [OF _ src]
    by (auto simp: prepended_def sampleRequest_def)
  then have "header_block_inv (msg_headers m')"
    and "header_fits (co_Limits (cz_options defaultCanonicalizer)) (msg_headers m')"
    using message_fits_header by (simp_all add: message_inv_def defaultCanonicalizer_def DefaultCanonOptions_def)
  then obtain b where b: "HeaderHashFromMessage defaultCanonicalizer m' = Inr b"
    using HeaderHash_success [OF _ defaultCanonicalizer_valid] by (metis HeaderHashFromMessage_def)
  have ex: "\<forall>e \<in> set (ir_Fields (sampleRequest m)). excluded_octets e"
    by (simp add: sampleRequest_def) code_simp
  from insertion_keeps_hashes [OF src m(2) ex b] m(2) b show ?thesis by (fastforce simp: sampleRequest_def)
qed

end
